(* ===== verification/Hermes_Prelude.thy ===== *)
theory Hermes_Prelude
  imports Main
begin

text \<open>
  Shared vocabulary of the development: Python's string helpers, the relational operations
  the stores issue through SQLite (a table is the list of its rows in rowid order, a
  statement a list function), error values, and three interfaces stated as locales.
  \<^item> \<open>row_update\<close>: an UPDATE that keeps the key of the row it rewrites.
  \<^item> \<open>cas_op\<close>: a compare-and-swap on one keyed row (the conditional UPDATE with
    \<open>rowcount\<close> that the stores use for every state transition). Its client lemmas
    say that a sequence of attempts has at most one winner per key.
  \<^item> \<open>evolving_table\<close>: a table whose rows are rewritten within a relation and never lost.
  A SELECT without ORDER BY yields rows in rowid order, an ORDER BY sorts stably; where a
  statement has a LIMIT 1 and several rows match, the model therefore picks the first.
\<close>

section \<open>Error values\<close>

datatype py_error =
    ValueError string
  | RuntimeError string
  | IntegrityError
  | PyTypeError
  | PermissionError string
  | AttributeError
  | KeyError string
  | IngestKeyError string
  | InvalidLedgerInput
  | OverflowError
  | RelayConflict
  | RouteIdentityConflictError
  | CredentialIdentityLockTimeout

type_synonym 'a result = "py_error + 'a"

text \<open>Sequencing: an exception skips the rest.\<close>

definition rbind :: "'a result \<Rightarrow> ('a \<Rightarrow> 'b result) \<Rightarrow> 'b result" where
  "rbind r f = (case r of Inl e \<Rightarrow> Inl e | Inr x \<Rightarrow> f x)"

lemma rbind_simps [simp]: "rbind (Inl e) f = Inl e" "rbind (Inr x) f = f x"
  by (simp_all add: rbind_def)

lemma rbind_Inr: "rbind r f = Inr y \<longleftrightarrow> (\<exists>x. r = Inr x \<and> f x = Inr y)"
  by (cases r) simp_all

section \<open>Python strings\<close>

text \<open>
  A string is the UTF-8 encoding of a Python \<open>str\<close>, a \<open>char\<close> one of its bytes. Whitespace and case are
  those of the ASCII characters; a byte of any other character is neither a space nor cased.
\<close>

definition is_space :: "char \<Rightarrow> bool" where
  "is_space c \<longleftrightarrow> c \<in> set [CHR 0x09, CHR 0x0A, CHR 0x0B, CHR 0x0C, CHR 0x0D, CHR 0x1C, CHR 0x1D,
     CHR 0x1E, CHR 0x1F, CHR 0x20]"

text \<open>\<open>len(s)\<close> and \<open>s[:n]\<close> count characters: the bytes that do not continue one.\<close>

definition continues :: "char \<Rightarrow> bool" where
  "continues c \<longleftrightarrow> 0x80 \<le> (of_char c :: nat) \<and> (of_char c :: nat) < 0xC0"

definition char_count :: "string \<Rightarrow> nat" where
  "char_count s = length (filter (\<lambda>c. \<not> continues c) s)"

fun take_chars :: "nat \<Rightarrow> string \<Rightarrow> string" where
  "take_chars n [] = []"
| "take_chars n (c # cs) =
     (if continues c then c # take_chars n cs else case n of 0 \<Rightarrow> [] | Suc m \<Rightarrow> c # take_chars m cs)"

definition strip :: "string \<Rightarrow> string" where
  "strip s = rev (dropWhile is_space (rev (dropWhile is_space s)))"

fun startswith :: "string \<Rightarrow> string \<Rightarrow> bool" where
  "startswith s [] = True"
| "startswith [] (p # ps) = False"
| "startswith (c # cs) (p # ps) = (c = p \<and> startswith cs ps)"

fun join_sep :: "char \<Rightarrow> string list \<Rightarrow> string" where
  "join_sep sep [] = []"
| "join_sep sep [x] = x"
| "join_sep sep (x # y # ys) = x @ sep # join_sep sep (y # ys)"

text \<open>\<open>str(x or "")\<close> of an optional string, and Python's \<open>a or b\<close> on strings.\<close>

definition str_or_empty :: "string option \<Rightarrow> string" where
  "str_or_empty x = (case x of None \<Rightarrow> [] | Some s \<Rightarrow> s)"

definition py_or :: "string \<Rightarrow> string \<Rightarrow> string" where
  "py_or a b = (if a = [] then b else a)"

text \<open>\<open>x or None\<close> of a string.\<close>

definition or_none :: "string \<Rightarrow> string option" where
  "or_none s = (if s = [] then None else Some s)"

text \<open>\<open>str(n)\<close> of an integer.\<close>

definition digit_char :: "nat \<Rightarrow> char" where
  "digit_char n = ''0123456789'' ! n"

fun nat_str :: "nat \<Rightarrow> string" where
  "nat_str n = (if n < 10 then [digit_char n] else nat_str (n div 10) @ [digit_char (n mod 10)])"

declare nat_str.simps [simp del]

definition int_str :: "int \<Rightarrow> string" where
  "int_str i = (if i < 0 then CHR ''-'' # nat_str (nat (- i)) else nat_str (nat i))"

text \<open>\<open>int(raw)\<close>: optional sign, digits with single underscores between them.\<close>

fun digits_value :: "int \<Rightarrow> bool \<Rightarrow> string \<Rightarrow> int option" where
  "digits_value acc after_digit [] = (if after_digit then Some acc else None)"
| "digits_value acc after_digit (c # cs) =
     (if c \<in> set ''0123456789'' then digits_value (acc * 10 + (of_char c - 48)) True cs
      else if c = CHR ''_'' \<and> after_digit then digits_value acc False cs
      else None)"

definition py_int :: "string \<Rightarrow> int option" where
  "py_int raw =
     (case strip raw of
        [] \<Rightarrow> None
      | c # cs \<Rightarrow> if c = CHR ''+'' then digits_value 0 False cs
                   else if c = CHR ''-'' then map_option uminus (digits_value 0 False cs)
                   else digits_value 0 False (c # cs))"

fun split_on :: "char \<Rightarrow> string \<Rightarrow> string list" where
  "split_on sep [] = [[]]"
| "split_on sep (c # cs) =
     (if c = sep then [] # split_on sep cs
      else (case split_on sep cs of [] \<Rightarrow> [[c]] | w # ws \<Rightarrow> (c # w) # ws))"

text \<open>\<open>s.partition(sep)\<close> on one character: the part before, whether it occurs, the part after.\<close>

definition partition_at :: "char \<Rightarrow> string \<Rightarrow> string \<times> bool \<times> string" where
  "partition_at sep s = (takeWhile (\<lambda>c. c \<noteq> sep) s, sep \<in> set s, drop 1 (dropWhile (\<lambda>c. c \<noteq> sep) s))"

text \<open>\<open>s.strip(c)\<close> and \<open>s.rstrip(c)\<close> on one character.\<close>

definition rstrip_char :: "char \<Rightarrow> string \<Rightarrow> string" where
  "rstrip_char c s = rev (dropWhile (\<lambda>x. x = c) (rev s))"

definition strip_char :: "char \<Rightarrow> string \<Rightarrow> string" where
  "strip_char c s = rstrip_char c (dropWhile (\<lambda>x. x = c) s)"

section \<open>Dictionaries\<close>

text \<open>A dict is an association list in insertion order with distinct keys.\<close>

fun dict_set :: "'k \<Rightarrow> 'v \<Rightarrow> ('k \<times> 'v) list \<Rightarrow> ('k \<times> 'v) list" where
  "dict_set k v [] = [(k, v)]"
| "dict_set k v (e # d) = (if fst e = k then (k, v) # d else e # dict_set k v d)"

definition dict_setdefault :: "'k \<Rightarrow> 'v \<Rightarrow> ('k \<times> 'v) list \<Rightarrow> ('k \<times> 'v) list" where
  "dict_setdefault k v d = (if map_of d k = None then d @ [(k, v)] else d)"

definition dict_update :: "('k \<times> 'v) list \<Rightarrow> ('k \<times> 'v) list \<Rightarrow> ('k \<times> 'v) list" where
  "dict_update d e = foldl (\<lambda>d x. dict_set (fst x) (snd x) d) d e"

definition dict_str :: "(string \<times> string) list \<Rightarrow> string \<Rightarrow> string" where
  "dict_str d k = str_or_empty (map_of d k)"

section \<open>Relational operations\<close>

text \<open>\<open>LIMIT n\<close>: a negative limit is no limit.\<close>

definition sql_limit :: "int \<Rightarrow> 'r list \<Rightarrow> 'r list" where
  "sql_limit n rs = (if n < 0 then rs else take (nat n) rs)"

definition fetchone :: "'r list \<Rightarrow> 'r option" where
  "fetchone rs = (case rs of [] \<Rightarrow> None | r # _ \<Rightarrow> Some r)"

text \<open>\<open>rows = cur.fetchmany(2)\<close> followed by \<open>rows[0] if len(rows) == 1 else None\<close>.\<close>

definition fetch_unique :: "'r list \<Rightarrow> 'r option" where
  "fetch_unique rs = (case rs of [r] \<Rightarrow> Some r | _ \<Rightarrow> None)"

definition sql_update :: "('r \<Rightarrow> bool) \<Rightarrow> ('r \<Rightarrow> 'r) \<Rightarrow> 'r list \<Rightarrow> 'r list" where
  "sql_update P f t = map (\<lambda>r. if P r then f r else r) t"

definition sql_delete :: "('r \<Rightarrow> bool) \<Rightarrow> 'r list \<Rightarrow> 'r list" where
  "sql_delete P t = filter (\<lambda>r. \<not> P r) t"

definition rowcount :: "('r \<Rightarrow> bool) \<Rightarrow> 'r list \<Rightarrow> nat" where
  "rowcount P t = length (filter P t)"

text \<open>\<open>INSERT ... ON CONFLICT(key) DO UPDATE SET ...\<close>: the conflicting row is rewritten
  by \<open>f\<close>, and where there is none the new row is appended.\<close>

definition sql_upsert :: "('r \<Rightarrow> bool) \<Rightarrow> 'r \<Rightarrow> ('r \<Rightarrow> 'r) \<Rightarrow> 'r list \<Rightarrow> 'r list" where
  "sql_upsert P new f t = (if list_ex P t then sql_update P f t else t @ [new])"

definition order_by :: "('r \<Rightarrow> int) \<Rightarrow> 'r list \<Rightarrow> 'r list" where
  "order_by k t = sort_key k t"

definition order_by_desc :: "('r \<Rightarrow> int) \<Rightarrow> 'r list \<Rightarrow> 'r list" where
  "order_by_desc k t = sort_key (\<lambda>r. - k r) t"

definition coalesce :: "'a option \<Rightarrow> 'a option \<Rightarrow> 'a option" where
  "coalesce a b = (case a of None \<Rightarrow> b | Some x \<Rightarrow> Some x)"

definition nullif :: "'a option \<Rightarrow> 'a \<Rightarrow> 'a option" where
  "nullif a x = (if a = Some x then None else a)"

text \<open>A UNIQUE index over the rows satisfying \<open>P\<close> and with a non-NULL key.\<close>

definition unique_index :: "('r \<Rightarrow> bool) \<Rightarrow> ('r \<Rightarrow> 'k option) \<Rightarrow> 'r list \<Rightarrow> bool" where
  "unique_index P k t \<longleftrightarrow> distinct (map k (filter (\<lambda>r. P r \<and> k r \<noteq> None) t))"

definition tbl_get :: "('r \<Rightarrow> 'k) \<Rightarrow> 'r list \<Rightarrow> 'k \<Rightarrow> 'r option" where
  "tbl_get key t k = fetchone (filter (\<lambda>r. key r = k) t)"

named_theorems sql_defs \<open>definitions of the relational operations\<close>

lemmas sql_all_defs [sql_defs] = sql_update_def sql_delete_def rowcount_def sql_upsert_def

section \<open>Generic lemmas\<close>

lemma strip_Nil [simp]: "strip [] = []"
  by (simp add: strip_def)

lemma startswith_iff: "startswith s p \<longleftrightarrow> (\<exists>t. s = p @ t)"
  by (induction s p rule: startswith.induct) auto

lemma startswith_append [simp]: "startswith (p @ t) p"
  by (auto simp: startswith_iff)

lemma strip_fixed:
  assumes "s \<noteq> []" "\<not> is_space (hd s)" "\<not> is_space (last s)"
  shows "strip s = s"
proof -
  have "dropWhile is_space s = s"
    using assms by (cases s) auto
  moreover have "dropWhile is_space (rev s) = rev s"
    using assms by (cases "rev s") (auto simp: last_rev hd_rev [symmetric])
  ultimately show ?thesis by (simp add: strip_def)
qed

lemma dropWhile_idem: "dropWhile P (dropWhile P xs) = dropWhile P xs"
  by (induction xs) auto

lemma strip_decomp: "strip s = [] \<or> (\<not> is_space (hd (strip s)) \<and> \<not> is_space (last (strip s)))"
proof (cases "strip s = []")
  case False
  let ?u = "dropWhile is_space s"
  let ?v = "dropWhile is_space (rev ?u)"
  have v: "?v \<noteq> []" and eq: "strip s = rev ?v" using False by (auto simp: strip_def)
  have l: "\<not> is_space (last (strip s))"
    using hd_dropWhile [OF v] by (simp add: eq last_rev)
  obtain w where "rev ?u = w @ ?v"
    by (metis takeWhile_dropWhile_id)
  then have u: "?u = rev ?v @ rev w" by (metis rev_append rev_rev_ident)
  then have "?u \<noteq> []" using v by (metis append_is_Nil_conv rev_is_Nil_conv)
  moreover have "hd ?u = hd (strip s)" using u v eq by (metis hd_append2 rev_is_Nil_conv)
  ultimately have "\<not> is_space (hd (strip s))" using hd_dropWhile [of is_space s] by simp
  with l show ?thesis by simp
qed simp

lemma strip_idem [simp]: "strip (strip s) = strip s"
  using strip_decomp [of s] strip_fixed [of "strip s"] by (cases "strip s = []") auto

lemma digit_char_inj: "i < 10 \<Longrightarrow> j < 10 \<Longrightarrow> digit_char i = digit_char j \<Longrightarrow> i = j"
  unfolding digit_char_def by (auto simp: numeral_eq_Suc less_Suc_eq)

lemma nat_str_not_Nil [simp]: "nat_str n \<noteq> []"
  by (subst nat_str.simps) simp

lemma digit_char_mem: "n < 10 \<Longrightarrow> digit_char n \<in> set ''0123456789''"
  unfolding digit_char_def by (auto simp: numeral_eq_Suc less_Suc_eq)

lemma nat_str_digits: "set (nat_str n) \<subseteq> set ''0123456789''"
proof (induction n rule: nat_str.induct)
  case (1 n)
  show ?case
  proof (cases "n < 10")
    case True
    with digit_char_mem [OF True] show ?thesis by (subst nat_str.simps) auto
  next
    case False
    have "digit_char (n mod 10) \<in> set ''0123456789''" by (rule digit_char_mem) simp
    with False "1" show ?thesis by (subst nat_str.simps) auto
  qed
qed

lemma nat_str_inj: "nat_str m = nat_str n \<Longrightarrow> m = n"
proof (induction m arbitrary: n rule: nat_str.induct)
  case (1 m)
  show ?case
  proof (cases "m < 10"; cases "n < 10")
    assume "m < 10" "n < 10"
    with "1.prems" show ?thesis
      by (simp add: nat_str.simps [of m] nat_str.simps [of n] digit_char_inj)
  next
    assume "m < 10" "\<not> n < 10"
    with "1.prems" show ?thesis
      by (simp add: nat_str.simps [of m] nat_str.simps [of n] Cons_eq_append_conv)
  next
    assume "\<not> m < 10" "n < 10"
    with "1.prems" show ?thesis
      by (simp add: nat_str.simps [of m] nat_str.simps [of n] append_eq_Cons_conv)
  next
    assume big: "\<not> m < 10" "\<not> n < 10"
    with "1.prems" have "nat_str (m div 10) = nat_str (n div 10)"
      and "digit_char (m mod 10) = digit_char (n mod 10)"
      by (simp_all add: nat_str.simps [of m] nat_str.simps [of n])
    then have "m div 10 = n div 10" "m mod 10 = n mod 10"
      using "1.IH" big(1) by (auto intro: digit_char_inj)
    then show ?thesis by (metis div_mult_mod_eq)
  qed
qed

lemma int_str_inj: "int_str i = int_str j \<Longrightarrow> i = j"
proof -
  assume eq: "int_str i = int_str j"
  have no_dash: "nat_str n \<noteq> CHR ''-'' # s" for n s
    using nat_str_digits [of n] by (cases "nat_str n") auto
  show "i = j"
    using eq no_dash no_dash [symmetric]
    by (auto simp: int_str_def split: if_splits dest!: nat_str_inj)
qed

lemma sep_split:
  assumes "sep \<notin> set x" "sep \<notin> set y" "x @ sep # r = y @ sep # r'"
  shows "x = y \<and> r = r'"
  using assms
proof (induction x arbitrary: y)
  case Nil
  then show ?case by (cases y) auto
next
  case (Cons c x)
  then show ?case by (cases y) auto
qed

lemma join_sep_inj:
  assumes "length xs = length ys" "\<forall>x\<in>set xs. sep \<notin> set x" "\<forall>y\<in>set ys. sep \<notin> set y"
    and "join_sep sep xs = join_sep sep ys"
  shows "xs = ys"
  using assms
proof (induction xs ys rule: list_induct2)
  case (Cons x xs y ys)
  show ?case
  proof (cases xs)
    case Nil
    with Cons show ?thesis by simp
  next
    case (Cons x' xs')
    then obtain y' ys' where ys: "ys = y' # ys'" using Cons.hyps by (cases ys) auto
    have "x @ sep # join_sep sep xs = y @ sep # join_sep sep ys"
      using Cons.prems(3) by (simp add: ys \<open>xs = x' # xs'\<close>)
    then have "x = y \<and> join_sep sep xs = join_sep sep ys"
      by (rule sep_split [rotated 2]) (use Cons.prems in auto)
    with Cons.IH Cons.prems show ?thesis by simp
  qed
qed simp

lemma fetchone_Some_mem: "fetchone rs = Some r \<Longrightarrow> r \<in> set rs"
  by (auto simp: fetchone_def split: list.splits)

lemma fetchone_None [simp]: "fetchone rs = None \<longleftrightarrow> rs = []"
  by (auto simp: fetchone_def split: list.splits)

lemma fetchone_simps [simp]: "fetchone [] = None" "fetchone (r # rs) = Some r"
  by (simp_all add: fetchone_def)

lemma fetch_unique_Some: "fetch_unique rs = Some r \<longleftrightarrow> rs = [r]"
  by (auto simp: fetch_unique_def split: list.splits)

lemma fetch_unique_simps [simp]:
  "fetch_unique [] = None" "fetch_unique [r] = Some r" "fetch_unique (r # s # rs) = None"
  by (simp_all add: fetch_unique_def)

lemma coalesce_simps [simp]: "coalesce None b = b" "coalesce (Some x) b = Some x"
  by (simp_all add: coalesce_def)

lemma sql_update_Nil [simp]: "sql_update P f [] = []"
  by (simp add: sql_update_def)

lemma sql_update_Cons [simp]:
  "sql_update P f (r # t) = (if P r then f r else r) # sql_update P f t"
  by (simp add: sql_update_def)

lemma rowcount_simps [simp]:
  "rowcount P [] = 0" "rowcount P (r # t) = (if P r then Suc (rowcount P t) else rowcount P t)"
  by (simp_all add: rowcount_def)

lemma length_sql_update [simp]: "length (sql_update P f t) = length t"
  by (simp add: sql_update_def)

lemma rowcount_0_iff: "rowcount P t = 0 \<longleftrightarrow> (\<forall>r\<in>set t. \<not> P r)"
  by (induction t) auto

lemma sql_update_none: "rowcount P t = 0 \<Longrightarrow> sql_update P f t = t"
  by (induction t) (auto split: if_splits)

lemma set_sql_update: "set (sql_update P f t) = {if P r then f r else r |r. r \<in> set t}"
  by (auto simp: sql_update_def)

lemma mem_sql_update: "r \<in> set (sql_update P f t) \<Longrightarrow> \<exists>q \<in> set t. r = (if P q then f q else q)"
  by (auto simp: sql_update_def)

lemma map_sql_update:
  assumes "\<And>r. r \<in> set t \<Longrightarrow> P r \<Longrightarrow> k (f r) = k r"
  shows "map k (sql_update P f t) = map k t"
  using assms by (induction t) auto

lemma tbl_get_mem: "tbl_get key t k = Some r \<Longrightarrow> r \<in> set t \<and> key r = k"
  by (auto simp: tbl_get_def dest!: fetchone_Some_mem)

lemma tbl_get_None: "tbl_get key t k = None \<longleftrightarrow> k \<notin> key ` set t"
  by (auto simp: tbl_get_def filter_empty_conv)

lemma tbl_get_Nil [simp]: "tbl_get key [] k = None"
  by (simp add: tbl_get_def)

lemma tbl_get_Cons: "tbl_get key (r # t) k = (if key r = k then Some r else tbl_get key t k)"
  by (simp add: tbl_get_def)

lemma tbl_get_distinct:
  "distinct (map key t) \<Longrightarrow> r \<in> set t \<Longrightarrow> tbl_get key t (key r) = Some r"
  by (induction t) (auto simp: tbl_get_Cons rev_image_eqI)

lemma tbl_get_append:
  "tbl_get key (t @ u) k = (case tbl_get key t k of Some r \<Rightarrow> Some r | None \<Rightarrow> tbl_get key u k)"
  by (induction t) (auto simp: tbl_get_Cons)

lemma filter_key_distinct:
  assumes "distinct (map key t)" "tbl_get key t k = Some r"
  shows "filter (\<lambda>r. key r = k \<and> Q r) t = (if Q r then [r] else [])"
  using assms
proof (induction t)
  case (Cons x t)
  show ?case
  proof (cases "key x = k")
    case True
    with Cons.prems have "filter (\<lambda>r. key r = k \<and> Q r) t = []" and "x = r"
      by (auto simp: filter_empty_conv tbl_get_Cons rev_image_eqI)
    with True show ?thesis by simp
  next
    case False
    with Cons show ?thesis by (simp add: tbl_get_Cons)
  qed
qed simp

lemma filter_key_absent: "tbl_get key t k = None \<Longrightarrow> filter (\<lambda>r. key r = k \<and> Q r) t = []"
  by (auto simp: tbl_get_None filter_empty_conv)

lemma rowcount_key:
  assumes "distinct (map key t)"
  shows "rowcount (\<lambda>r. key r = k \<and> Q r) t =
    (case tbl_get key t k of None \<Rightarrow> 0 | Some r \<Rightarrow> if Q r then 1 else 0)"
  using filter_key_distinct [OF assms] filter_key_absent [of key t k Q]
  by (auto simp: rowcount_def split: option.splits)

lemma set_order_by [simp]: "set (order_by k t) = set t"
  by (simp add: order_by_def)

lemma set_order_by_desc [simp]: "set (order_by_desc k t) = set t"
  by (simp add: order_by_desc_def)

lemma unique_index_inj:
  assumes "unique_index P k t" "r \<in> set t" "r' \<in> set t" "P r" "P r'" "k r = Some v" "k r' = Some v"
  shows "r = r'"
proof -
  have "distinct (map k (filter (\<lambda>r. P r \<and> k r \<noteq> None) t))"
    using assms(1) by (simp add: unique_index_def)
  moreover have "r \<in> set (filter (\<lambda>r. P r \<and> k r \<noteq> None) t)"
    and "r' \<in> set (filter (\<lambda>r. P r \<and> k r \<noteq> None) t)"
    using assms by auto
  ultimately show ?thesis
    using assms(6,7) by (auto simp: distinct_map inj_on_def)
qed

lemma unique_index_filter:
  assumes "unique_index P k t"
  shows "length (filter (\<lambda>r. P r \<and> k r = Some v) t) \<le> 1"
  using assms unfolding unique_index_def
proof (induction t)
  case (Cons x t)
  show ?case
  proof (cases "P x \<and> k x = Some v")
    case True
    with Cons.prems have "filter (\<lambda>r. P r \<and> k r = Some v) t = []"
      by (auto simp: filter_empty_conv image_iff)
    with True show ?thesis by simp
  next
    case False
    with Cons show ?thesis by (auto split: if_splits)
  qed
qed simp

lemma unique_index_key_iff:
  assumes "distinct (map key t)"
  shows "unique_index P k t \<longleftrightarrow>
    (\<forall>r \<in> set t. \<forall>q \<in> set t. P r \<and> P q \<and> k r \<noteq> None \<and> k r = k q \<longrightarrow> key r = key q)"
proof -
  let ?F = "filter (\<lambda>r. P r \<and> k r \<noteq> None) t"
  have inj: "inj_on key (set t)" and d: "distinct t" using assms by (auto simp: distinct_map)
  have "unique_index P k t \<longleftrightarrow> inj_on k (set ?F)"
    using d by (simp add: unique_index_def distinct_map)
  also have "\<dots> \<longleftrightarrow> (\<forall>r \<in> set t. \<forall>q \<in> set t. P r \<and> P q \<and> k r \<noteq> None \<and> k r = k q \<longrightarrow> key r = key q)"
  proof -
    have eq: "r = q" if "key r = key q" "r \<in> set t" "q \<in> set t" for r q
      using inj that by (auto dest: inj_onD)
    show ?thesis
    proof (intro iffI ballI impI)
      fix r q assume "inj_on k (set ?F)" "r \<in> set t" "q \<in> set t" "P r \<and> P q \<and> k r \<noteq> None \<and> k r = k q"
      then have "k q \<noteq> None" "k r = k q" by metis+
      with \<open>r \<in> set t\<close> \<open>q \<in> set t\<close> \<open>P r \<and> P q \<and> k r \<noteq> None \<and> k r = k q\<close>
      have "r \<in> set ?F" "q \<in> set ?F" "k r = k q" by simp_all
      with \<open>inj_on k (set ?F)\<close> have "r = q" by (blast dest: inj_onD)
      then show "key r = key q" by simp
    next
      assume "\<forall>r \<in> set t. \<forall>q \<in> set t. P r \<and> P q \<and> k r \<noteq> None \<and> k r = k q \<longrightarrow> key r = key q"
      then show "inj_on k (set ?F)" by (intro inj_onI eq) auto
    qed
  qed
  finally show ?thesis .
qed

lemma fetch_unique_mem: "fetch_unique rs = Some r \<Longrightarrow> r \<in> set rs"
  by (simp add: fetch_unique_Some)

lemma filter_singleton:
  assumes "distinct (map key t)" "r \<in> set t" "P r" "\<And>q. q \<in> set t \<Longrightarrow> P q \<Longrightarrow> key q = key r"
  shows "filter P t = [r]"
proof -
  have "filter P t = filter (\<lambda>q. key q = key r \<and> P q) t"
    by (rule filter_cong) (use assms(4) in auto)
  then show ?thesis
    using filter_key_distinct [OF assms(1) tbl_get_distinct [OF assms(1,2)], of P] assms(3) by simp
qed

lemma map_of_dict_set: "map_of (dict_set k v d) k' = (if k' = k then Some v else map_of d k')"
  by (induction d) auto

lemma map_of_dict_setdefault:
  "map_of (dict_setdefault k v d) k' = (if k' = k \<and> map_of d k = None then Some v else map_of d k')"
  by (auto simp: dict_setdefault_def map_add_def split: option.splits)

lemma map_of_dict_update: "map_of (dict_update d e) k = (case map_of (rev e) k of None \<Rightarrow> map_of d k | Some v \<Rightarrow> Some v)"
  unfolding dict_update_def
  by (induction e rule: rev_induct) (auto simp: map_of_dict_set split: option.splits)

lemma fst_dict_set: "fst ` set (dict_set k v d) = insert k (fst ` set d)"
  by (induction d) auto

section \<open>An UPDATE that keeps keys\<close>

locale row_update =
  fixes key :: "'r \<Rightarrow> 'k"
    and upd :: "'r \<Rightarrow> 'r"
  assumes key_upd: "key (upd r) = key r"
begin

lemma map_key: "map key (sql_update P upd t) = map key t"
  by (rule map_sql_update) (simp add: key_upd)

lemma get_upd:
  assumes "distinct (map key t)"
  shows "tbl_get key (sql_update P upd t) k =
    map_option (\<lambda>r. if P r then upd r else r) (tbl_get key t k)"
  using assms by (induction t) (auto simp: tbl_get_Cons key_upd)

lemma list_ex_key: "list_ex (\<lambda>r. key r = k) t \<longleftrightarrow> k \<in> key ` set t"
  by (induction t) auto

lemma map_upsert:
  "map key (sql_upsert (\<lambda>r. key r = key new) new upd t) =
     (if key new \<in> key ` set t then map key t else map key t @ [key new])"
  by (simp add: sql_upsert_def list_ex_key map_key)

lemma distinct_upsert:
  "distinct (map key t) \<Longrightarrow> distinct (map key (sql_upsert (\<lambda>r. key r = key new) new upd t))"
  by (simp add: map_upsert)

lemma get_upsert:
  assumes "distinct (map key t)"
  shows "tbl_get key (sql_upsert (\<lambda>r. key r = key new) new upd t) k =
    (if k = key new then Some (case tbl_get key t k of None \<Rightarrow> new | Some r \<Rightarrow> upd r) else tbl_get key t k)"
proof (cases "list_ex (\<lambda>r. key r = key new) t")
  case True
  then obtain r where r: "tbl_get key t (key new) = Some r"
    using tbl_get_None [of key t "key new"] by (auto simp: list_ex_key)
  have "key r = key new" using tbl_get_mem [OF r] by simp
  moreover have "key q = k" if "tbl_get key t k = Some q" for q using tbl_get_mem [OF that] by simp
  ultimately show ?thesis
    using True r by (cases "tbl_get key t k") (auto simp: sql_upsert_def get_upd [OF assms])
next
  case False
  then have "tbl_get key t (key new) = None" by (simp add: tbl_get_None list_ex_key)
  with False show ?thesis by (auto simp: sql_upsert_def tbl_get_append tbl_get_Cons split: option.splits)
qed

lemma mem_upsert:
  "r \<in> set (sql_upsert (\<lambda>r. key r = key new) new upd t) \<Longrightarrow>
     (r \<in> set t \<and> key r \<noteq> key new) \<or> (\<exists>o'. o' \<in> set t \<and> key o' = key new \<and> r = upd o')
       \<or> (r = new \<and> key new \<notin> key ` set t)"
  by (auto simp: sql_upsert_def set_sql_update list_ex_iff split: if_splits)

lemma get_upd_other:
  "(\<And>r. P r \<Longrightarrow> key r \<noteq> k) \<Longrightarrow> tbl_get key (sql_update P upd t) k = tbl_get key t k"
  by (induction t) (auto simp: tbl_get_Cons key_upd)

end

section \<open>Tables that only evolve\<close>

text \<open>
  A table whose statements rewrite rows within a relation \<open>R\<close> and append new ones, and never
  delete or reorder: what a row was under its key is still there, related by \<open>R\<close>.
\<close>

definition grows :: "('r \<Rightarrow> 'r \<Rightarrow> bool) \<Rightarrow> 'r list \<Rightarrow> 'r list \<Rightarrow> bool" where
  "grows R t t' \<longleftrightarrow> (\<exists>us ys. t' = us @ ys \<and> list_all2 R t us)"

locale evolving_table =
  fixes key :: "'r \<Rightarrow> 'k"
    and R :: "'r \<Rightarrow> 'r \<Rightarrow> bool"
  assumes R_key: "R r q \<Longrightarrow> key q = key r"
    and R_refl: "R r r"
    and R_trans: "R r q \<Longrightarrow> R q p \<Longrightarrow> R r p"
begin

lemma grows_append: "grows R t (t @ ys)"
  unfolding grows_def using R_refl by (metis list_all2_refl)

lemma grows_refl: "grows R t t"
  using grows_append [of t "[]"] by simp

lemma grows_update:
  assumes "\<And>r. P r \<Longrightarrow> R r (f r)"
  shows "grows R t (sql_update P f t)"
proof -
  have "list_all2 R t (sql_update P f t)"
    using assms R_refl by (simp add: sql_update_def list_all2_conv_all_nth)
  then show ?thesis unfolding grows_def by (metis append_Nil2)
qed

lemma grows_trans:
  assumes "grows R t t'" "grows R t' t''"
  shows "grows R t t''"
proof -
  obtain us ys where us: "t' = us @ ys" "list_all2 R t us" using assms(1) by (auto simp: grows_def)
  obtain vs zs where vs: "t'' = vs @ zs" "list_all2 R t' vs" using assms(2) by (auto simp: grows_def)
  obtain v1 v2 where v: "vs = v1 @ v2" "list_all2 R us v1" "list_all2 R ys v2"
    using vs(2) us(1) by (auto simp: list_all2_append1)
  have "list_all2 R t v1"
    by (rule list_all2_trans [OF _ us(2) v(2)]) (rule R_trans)
  then show ?thesis using vs(1) v(1) by (auto simp: grows_def)
qed

lemma get_grows:
  assumes "grows R t t'" "tbl_get key t k = Some r"
  shows "\<exists>q. tbl_get key t' k = Some q \<and> R r q"
proof -
  obtain us ys where us: "t' = us @ ys" "list_all2 R t us" using assms(1) by (auto simp: grows_def)
  have "\<exists>q. tbl_get key us k = Some q \<and> R r q"
    using us(2) assms(2) by (induction rule: list_all2_induct) (auto simp: tbl_get_Cons R_key split: if_splits)
  then show ?thesis using us(1) by (auto simp: tbl_get_append)
qed

end

section \<open>Compare-and-swap on one keyed row\<close>

text \<open>
  The keys won by a sequence of attempts, each an argument and a key, in order.
\<close>

primrec cas_attempts :: "('a \<Rightarrow> 's \<Rightarrow> 'k \<Rightarrow> 's \<times> bool) \<Rightarrow> ('a \<times> 'k) list \<Rightarrow> 's \<Rightarrow> 'k list" where
  "cas_attempts try_op [] s = []"
| "cas_attempts try_op (x # xs) s =
     (if snd (try_op (fst x) s (snd x)) then [snd x] else [])
       @ cas_attempts try_op xs (fst (try_op (fst x) s (snd x)))"

text \<open>
  \<open>try_op\<close> is the operation as the client calls it: the new store and whether the call won.
  It wins exactly when the row is enabled, and a row that was won is never enabled again
  by further attempts.
\<close>

locale cas_op =
  fixes inv :: "'s \<Rightarrow> bool"
    and enabled :: "'s \<Rightarrow> 'k \<Rightarrow> bool"
    and try_op :: "'a \<Rightarrow> 's \<Rightarrow> 'k \<Rightarrow> 's \<times> bool"
  assumes inv_try: "inv s \<Longrightarrow> inv (fst (try_op a s k))"
    and win_enabled: "inv s \<Longrightarrow> snd (try_op a s k) \<Longrightarrow> enabled s k"
    and win_disables: "inv s \<Longrightarrow> snd (try_op a s k) \<Longrightarrow> \<not> enabled (fst (try_op a s k)) k"
    and no_revive: "inv s \<Longrightarrow> \<not> enabled s k' \<Longrightarrow> \<not> enabled (fst (try_op a s k)) k'"
begin

lemma disabled_never_wins: "inv s \<Longrightarrow> \<not> enabled s k \<Longrightarrow> k \<notin> set (cas_attempts try_op xs s)"
proof (induction xs arbitrary: s)
  case (Cons x xs)
  have "k \<notin> set (cas_attempts try_op xs (fst (try_op (fst x) s (snd x))))"
    using Cons.IH [OF inv_try no_revive] Cons.prems by blast
  moreover have "snd (try_op (fst x) s (snd x)) \<Longrightarrow> snd x \<noteq> k"
    using win_enabled Cons.prems by blast
  ultimately show ?case by auto
qed simp

lemma one_winner: "inv s \<Longrightarrow> distinct (cas_attempts try_op xs s)"
proof (induction xs arbitrary: s)
  case (Cons x xs)
  show ?case
  proof (cases "snd (try_op (fst x) s (snd x))")
    case True
    with Cons.prems have "snd x \<notin> set (cas_attempts try_op xs (fst (try_op (fst x) s (snd x))))"
      by (intro disabled_never_wins inv_try win_disables)
    with True Cons show ?thesis by (simp add: inv_try)
  next
    case False
    with Cons show ?thesis by (simp add: inv_try)
  qed
qed simp

end

end
