(* ===== verification/Runtime_Pool.thy ===== *)
theory Runtime_Pool
  imports Complex_Main Hermes_Prelude "HOL-Library.Multiset"
begin

text \<open>
  The bounded LRU cache of profile runtimes (\<open>src/hermes_multitenancy/pool.py\<close>).
  The \<open>OrderedDict\<close> is an association list, least recently used first. An entry
  carries the identity of its Python object (\<open>pe_id\<close>), because \<open>dispatch\<close> keeps a
  reference to the entry across an \<open>await\<close> and releases it through that reference.
  The two suspension points of \<open>dispatch\<close> (waiting for the cold-start semaphore, and
  the run itself) make it three atomic steps; \<open>pool_step\<close> interleaves the steps of any
  number of dispatches and of the public sweep \<open>evict_idle\<close>. Times are reals; the
  runtime a factory builds is a value of the type parameter.
\<close>

section \<open>State\<close>

record 'rt pool_entry =
  pe_id :: nat
  pe_profile_name :: string
  pe_runtime :: 'rt
  pe_last_used :: real
  pe_in_flight :: int

type_synonym 'rt pool_entries = "(string \<times> 'rt pool_entry) list"

record 'rt runtime_pool =
  max_loaded_runtimes :: int
  idle_evict_seconds :: real
  entries :: "'rt pool_entries"
  next_eid :: nat

section \<open>Operations\<close>

definition pool_len :: "'rt runtime_pool \<Rightarrow> nat" where
  "pool_len p = length (entries p)"

definition loaded_profiles :: "'rt runtime_pool \<Rightarrow> string list" where
  "loaded_profiles p = map fst (entries p)"

definition in_flight_count :: "'rt runtime_pool \<Rightarrow> string \<Rightarrow> int" where
  "in_flight_count p n = (case map_of (entries p) n of Some e \<Rightarrow> pe_in_flight e | None \<Rightarrow> 0)"

definition dict_del :: "string \<Rightarrow> 'rt pool_entries \<Rightarrow> 'rt pool_entries" where
  "dict_del n es = filter (\<lambda>x. fst x \<noteq> n) es"

text \<open>The sweep walks a snapshot of the keys and deletes from the dictionary.\<close>

fun evict_idle_loop :: "real \<Rightarrow> string list \<Rightarrow> 'rt pool_entries \<Rightarrow> 'rt pool_entries" where
  "evict_idle_loop cutoff [] es = es"
| "evict_idle_loop cutoff (n # ns) es =
     (case map_of es n of
        None \<Rightarrow> evict_idle_loop cutoff ns es
      | Some e \<Rightarrow>
          if pe_in_flight e > 0 then evict_idle_loop cutoff ns es
          else if pe_last_used e < cutoff then evict_idle_loop cutoff ns (dict_del n es)
          else evict_idle_loop cutoff ns es)"

definition evict_idle_inplace :: "real \<Rightarrow> 'rt runtime_pool \<Rightarrow> 'rt runtime_pool" where
  "evict_idle_inplace now p =
     p\<lparr>entries := evict_idle_loop (now - idle_evict_seconds p) (map fst (entries p)) (entries p)\<rparr>"

definition evict_idle :: "real \<Rightarrow> 'rt runtime_pool \<Rightarrow> 'rt runtime_pool \<times> int" where
  "evict_idle now p =
     (let p' = evict_idle_inplace now p in (p', int (pool_len p) - int (pool_len p')))"

fun lru_victim :: "'rt pool_entries \<Rightarrow> string option" where
  "lru_victim [] = None"
| "lru_victim ((n, e) # es) = (if pe_in_flight e = 0 then Some n else lru_victim es)"

lemma lru_victim_mem: "lru_victim es = Some n \<Longrightarrow> n \<in> fst ` set es"
  by (induction es) (auto split: if_splits)

lemma length_dict_del: "n \<in> fst ` set es \<Longrightarrow> length (dict_del n es) < length es"
  unfolding dict_del_def by (auto intro: length_filter_less)

function evict_to_capacity :: "int \<Rightarrow> 'rt pool_entries \<Rightarrow> 'rt pool_entries" where
  "evict_to_capacity mx es =
     (if int (length es) \<ge> mx
      then (case lru_victim es of None \<Rightarrow> es | Some n \<Rightarrow> evict_to_capacity mx (dict_del n es))
      else es)"
  by pat_completeness auto
termination
  by (relation "measure (\<lambda>(mx, es). length es)") (auto intro!: length_dict_del lru_victim_mem)

declare evict_to_capacity.simps [simp del]

lemma evict_to_capacity_Nil [simp]: "evict_to_capacity mx [] = []"
  by (simp add: evict_to_capacity.simps)

definition touch_entry :: "real \<Rightarrow> 'rt pool_entry \<Rightarrow> 'rt pool_entry" where
  "touch_entry now e = e\<lparr>pe_in_flight := pe_in_flight e + 1, pe_last_used := now\<rparr>"

text \<open>The hit branch: \<open>move_to_end\<close>, count the dispatch, stamp the use.\<close>

definition pool_hit ::
    "real \<Rightarrow> 'rt runtime_pool \<Rightarrow> string \<Rightarrow> ('rt runtime_pool \<times> nat) option" where
  "pool_hit now p n =
     (case map_of (entries p) n of
        None \<Rightarrow> None
      | Some e \<Rightarrow> Some (p\<lparr>entries := dict_del n (entries p) @ [(n, touch_entry now e)]\<rparr>, pe_id e))"

text \<open>\<open>_acquire\<close> up to the semaphore: sweep, then the hit branch; \<open>None\<close> means the
  dispatch goes on to wait for the cold-start semaphore.\<close>

definition acquire_start ::
    "real \<Rightarrow> 'rt runtime_pool \<Rightarrow> string \<Rightarrow> 'rt runtime_pool \<times> nat option" where
  "acquire_start now p n =
     (let p1 = evict_idle_inplace now p in
      case pool_hit now p1 n of None \<Rightarrow> (p1, None) | Some (p2, i) \<Rightarrow> (p2, Some i))"

text \<open>\<open>_acquire\<close> inside the semaphore: re-check, make room, build and insert.\<close>

definition acquire_cold ::
    "(string \<Rightarrow> 'rt) \<Rightarrow> real \<Rightarrow> 'rt runtime_pool \<Rightarrow> string \<Rightarrow> 'rt runtime_pool \<times> nat" where
  "acquire_cold factory now p n =
     (case pool_hit now p n of
        Some (p', i) \<Rightarrow> (p', i)
      | None \<Rightarrow>
          let es = evict_to_capacity (max_loaded_runtimes p) (entries p);
              e = \<lparr>pe_id = next_eid p, pe_profile_name = n, pe_runtime = factory n, pe_last_used = now, pe_in_flight = 1\<rparr>
          in (p\<lparr>entries := es @ [(n, e)], next_eid := Suc (next_eid p)\<rparr>, next_eid p))"

text \<open>The \<open>finally\<close> clause of \<open>dispatch\<close>, through the entry reference.\<close>

definition release :: "real \<Rightarrow> 'rt runtime_pool \<Rightarrow> nat \<Rightarrow> 'rt runtime_pool" where
  "release now p i =
     p\<lparr>entries := map (\<lambda>(n, e). (n, if pe_id e = i then e\<lparr>pe_in_flight := pe_in_flight e - 1, pe_last_used := now\<rparr> else e))
        (entries p)\<rparr>"

section \<open>Interleaved dispatches\<close>

record 'rt pool_sys =
  ps_pool :: "'rt runtime_pool"
  ps_waiting :: "string list"
  ps_active :: "nat list"

inductive pool_step :: "(string \<Rightarrow> 'rt) \<Rightarrow> 'rt pool_sys \<Rightarrow> 'rt pool_sys \<Rightarrow> bool" for factory where
  start_hit: "acquire_start now (ps_pool s) n = (p, Some i) \<Longrightarrow>
     pool_step factory s (s\<lparr>ps_pool := p, ps_active := i # ps_active s\<rparr>)"
| start_miss: "acquire_start now (ps_pool s) n = (p, None) \<Longrightarrow>
     pool_step factory s (s\<lparr>ps_pool := p, ps_waiting := n # ps_waiting s\<rparr>)"
| cold: "n \<in> set (ps_waiting s) \<Longrightarrow> acquire_cold factory now (ps_pool s) n = (p, i) \<Longrightarrow>
     pool_step factory s (s\<lparr>ps_pool := p, ps_waiting := remove1 n (ps_waiting s), ps_active := i # ps_active s\<rparr>)"
| finish: "i \<in> set (ps_active s) \<Longrightarrow>
     pool_step factory s (s\<lparr>ps_pool := release now (ps_pool s) i, ps_active := remove1 i (ps_active s)\<rparr>)"
| sweep: "pool_step factory s (s\<lparr>ps_pool := fst (evict_idle now (ps_pool s))\<rparr>)"

inductive pool_reachable :: "(string \<Rightarrow> 'rt) \<Rightarrow> int \<Rightarrow> real \<Rightarrow> 'rt pool_sys \<Rightarrow> bool"
  for factory mx idle where
  pool_init: "pool_reachable factory mx idle
     \<lparr>ps_pool = \<lparr>max_loaded_runtimes = mx, idle_evict_seconds = idle, entries = [], next_eid = 0\<rparr>,
      ps_waiting = [], ps_active = []\<rparr>"
| pool_next: "pool_reachable factory mx idle s \<Longrightarrow> pool_step factory s s' \<Longrightarrow>
     pool_reachable factory mx idle s'"

section \<open>Sweeping\<close>

definition idle_entry :: "real \<Rightarrow> 'rt pool_entry \<Rightarrow> bool" where
  "idle_entry cutoff e \<longleftrightarrow> \<not> pe_in_flight e > 0 \<and> pe_last_used e < cutoff"

lemma map_of_dict_del: "map_of (dict_del n es) m = (if m = n then None else map_of es m)"
  by (induction es) (auto simp: dict_del_def)

lemma distinct_dict_del: "distinct (map fst es) \<Longrightarrow> distinct (map fst (dict_del n es))"
  unfolding dict_del_def by (induction es) (auto simp: image_iff)

lemma filter_dict_del:
  assumes "distinct (map fst es)" "map_of es n = Some e" "\<not> Q (n, e)"
  shows "filter Q (dict_del n es) = filter Q es"
proof -
  have "(fst x \<noteq> n \<and> Q x) = Q x" if "x \<in> set es" for x
  proof (cases "fst x = n")
    case True
    with that have "map_of es n = Some (snd x)"
      using assms(1) by (metis map_of_is_SomeI prod.collapse)
    with assms(2,3) True show ?thesis by (metis option.inject prod.collapse)
  qed simp
  then have "filter (\<lambda>x. fst x \<noteq> n \<and> Q x) es = filter Q es" by (rule filter_cong [OF refl])
  then show ?thesis by (simp add: dict_del_def conj_commute)
qed

text \<open>The destructive loop is a filter; the invariant names the keys still to visit.\<close>

lemma evict_idle_loop_filter:
  assumes "distinct (map fst es)"
    and "\<And>n e. (n, e) \<in> set es \<Longrightarrow> idle_entry c e \<Longrightarrow> n \<in> set ns"
  shows "evict_idle_loop c ns es = filter (\<lambda>x. \<not> idle_entry c (snd x)) es"
  using assms
proof (induction c ns es rule: evict_idle_loop.induct)
  case (1 c es)
  then have "filter (\<lambda>x. \<not> idle_entry c (snd x)) es = es" by (auto simp: filter_id_conv)
  then show ?case by simp
next
  case (2 c n ns es)
  show ?case
  proof (cases "map_of es n")
    case None
    with "2.prems" have "\<And>m e. (m, e) \<in> set es \<Longrightarrow> idle_entry c e \<Longrightarrow> m \<in> set ns"
      by (metis map_of_eq_None_iff fst_conv image_eqI set_ConsD)
    with None "2.IH"(1) "2.prems"(1) show ?thesis by simp
  next
    case (Some e)
    show ?thesis
    proof (cases "idle_entry c e")
      case True
      have "\<And>m e'. (m, e') \<in> set (dict_del n es) \<Longrightarrow> idle_entry c e' \<Longrightarrow> m \<in> set ns"
        using "2.prems"(2) by (fastforce simp: dict_del_def)
      with True Some "2.IH"(3) [OF Some] "2.prems"(1) show ?thesis
        using filter_dict_del [OF "2.prems"(1) Some, of "\<lambda>x. \<not> idle_entry c (snd x)"]
        by (simp add: idle_entry_def distinct_dict_del)
    next
      case False
      have "\<And>m e'. (m, e') \<in> set es \<Longrightarrow> idle_entry c e' \<Longrightarrow> m \<in> set ns"
        using "2.prems" False Some by (metis map_of_is_SomeI option.inject set_ConsD)
      with False Some "2.IH"(2,4) [OF Some] "2.prems"(1) show ?thesis
        by (auto simp: idle_entry_def)
    qed
  qed
qed

lemma entries_evict_idle_inplace:
  "distinct (map fst (entries p)) \<Longrightarrow>
   entries (evict_idle_inplace now p) =
     filter (\<lambda>x. \<not> idle_entry (now - idle_evict_seconds p) (snd x)) (entries p)"
  unfolding evict_idle_inplace_def
  by (simp, rule evict_idle_loop_filter) (auto intro: rev_image_eqI)

section \<open>Making room\<close>

text \<open>The reference: drop the first \<open>k\<close> entries with no dispatch in flight.\<close>

fun drop_idle :: "nat \<Rightarrow> 'rt pool_entries \<Rightarrow> 'rt pool_entries" where
  "drop_idle 0 es = es"
| "drop_idle (Suc k) [] = []"
| "drop_idle (Suc k) ((n, e) # es) =
     (if pe_in_flight e = 0 then drop_idle k es else (n, e) # drop_idle (Suc k) es)"

lemma drop_idle_Nil [simp]: "drop_idle k [] = []"
  by (cases k) auto

lemma lru_victim_None: "lru_victim es = None \<longleftrightarrow> (\<forall>(n, e) \<in> set es. pe_in_flight e \<noteq> 0)"
  by (induction es) (auto split: if_splits)

lemma drop_idle_busy: "lru_victim es = None \<Longrightarrow> drop_idle k es = es"
  by (induction k es rule: drop_idle.induct) (auto split: if_splits)

lemma drop_idle_victim:
  assumes "distinct (map fst es)" "lru_victim es = Some n"
  shows "drop_idle (Suc k) es = drop_idle k (dict_del n es)"
  using assms
proof (induction es)
  case (Cons x es)
  obtain m e where x: "x = (m, e)" by fastforce
  show ?case
  proof (cases "pe_in_flight e = 0")
    case True
    with Cons.prems x have "n = m" and "dict_del n es = es"
      by (auto simp: dict_del_def filter_id_conv rev_image_eqI)
    with x True show ?thesis by (simp add: dict_del_def)
  next
    case False
    with Cons.prems x have v: "lru_victim es = Some n" and "n \<noteq> m"
      by (auto dest!: lru_victim_mem)
    with Cons x False show ?thesis by (cases k) (auto simp: dict_del_def)
  qed
qed simp

lemma length_dict_del_distinct:
  assumes "distinct (map fst es)" "n \<in> fst ` set es"
  shows "Suc (length (dict_del n es)) = length es"
  using assms
proof (induction es)
  case (Cons x es)
  show ?case
  proof (cases "fst x = n")
    case True
    with Cons.prems have "dict_del n es = es"
      by (auto simp: dict_del_def filter_id_conv rev_image_eqI)
    with True show ?thesis by (simp add: dict_del_def)
  next
    case False
    with Cons show ?thesis by (auto simp: dict_del_def)
  qed
qed simp

lemma evict_to_capacity_drop_idle:
  "distinct (map fst es) \<Longrightarrow> evict_to_capacity mx es = drop_idle (nat (int (length es) - mx + 1)) es"
proof (induction mx es rule: evict_to_capacity.induct)
  case (1 mx es)
  show ?case
  proof (cases "int (length es) \<ge> mx")
    case False
    then show ?thesis by (simp add: evict_to_capacity.simps [of mx es])
  next
    case full: True
    show ?thesis
    proof (cases "lru_victim es")
      case None
      then show ?thesis by (simp add: evict_to_capacity.simps [of mx es] drop_idle_busy)
    next
      case (Some n)
      have len: "Suc (length (dict_del n es)) = length es"
        using Some "1.prems" by (intro length_dict_del_distinct lru_victim_mem)
      have "evict_to_capacity mx es = evict_to_capacity mx (dict_del n es)"
        using full Some by (simp add: evict_to_capacity.simps [of mx es])
      also have "\<dots> = drop_idle (nat (int (length (dict_del n es)) - mx + 1)) (dict_del n es)"
        using "1.IH" [OF full Some] "1.prems" by (simp add: distinct_dict_del)
      also have "\<dots> = drop_idle (Suc (nat (int (length (dict_del n es)) - mx + 1))) es"
        using drop_idle_victim [OF "1.prems" Some] by simp
      also have "Suc (nat (int (length (dict_del n es)) - mx + 1)) = nat (int (length es) - mx + 1)"
        using len full by linarith
      finally show ?thesis .
    qed
  qed
qed

lemma drop_idle_subset: "set (drop_idle k es) \<subseteq> set es"
  by (induction k es rule: drop_idle.induct) auto

lemma drop_idle_keeps_busy:
  "(n, e) \<in> set es \<Longrightarrow> pe_in_flight e \<noteq> 0 \<Longrightarrow> (n, e) \<in> set (drop_idle k es)"
  by (induction k es rule: drop_idle.induct) auto

lemma distinct_drop_idle: "distinct (map f es) \<Longrightarrow> distinct (map f (drop_idle k es))"
  by (induction k es rule: drop_idle.induct) (use drop_idle_subset in fastforce)+

lemma drop_idle_room:
  "length (drop_idle k es) + k \<le> length es \<or> (\<forall>x \<in> set (drop_idle k es). pe_in_flight (snd x) \<noteq> 0)"
  by (induction k es rule: drop_idle.induct) auto

section \<open>Invariant of the interleaved dispatches\<close>

definition entry_ok :: "nat \<Rightarrow> nat list \<Rightarrow> string \<times> 'rt pool_entry \<Rightarrow> bool" where
  "entry_ok nx act x \<longleftrightarrow> pe_profile_name (snd x) = fst x \<and> pe_id (snd x) < nx
     \<and> pe_in_flight (snd x) = int (count (mset act) (pe_id (snd x)))"

definition pool_ok :: "'rt runtime_pool \<Rightarrow> nat list \<Rightarrow> bool" where
  "pool_ok p act \<longleftrightarrow>
     distinct (map fst (entries p)) \<and> distinct (map (pe_id \<circ> snd) (entries p))
     \<and> list_all (entry_ok (next_eid p) act) (entries p)
     \<and> set act \<subseteq> (pe_id \<circ> snd) ` set (entries p)"

lemma pool_ok_distinct [dest]: "pool_ok p act \<Longrightarrow> distinct (map fst (entries p))"
  by (simp add: pool_ok_def)

lemma pool_ok_entry: "pool_ok p act \<Longrightarrow> x \<in> set (entries p) \<Longrightarrow> entry_ok (next_eid p) act x"
  by (simp add: pool_ok_def list_all_iff)

lemma pool_ok_inj: "pool_ok p act \<Longrightarrow> inj_on (pe_id \<circ> snd) (set (entries p))"
  by (simp add: pool_ok_def distinct_map)

lemma pool_ok_active_busy:
  assumes "pool_ok p act" "i \<in> set act"
  obtains n e where "(n, e) \<in> set (entries p)" "pe_id e = i" "pe_in_flight e > 0"
proof -
  from assms obtain x where x: "x \<in> set (entries p)" "pe_id (snd x) = i"
    by (auto simp: pool_ok_def)
  with assms have "pe_in_flight (snd x) > 0"
    using pool_ok_entry [OF assms(1) x(1)] by (auto simp: entry_ok_def)
  with x that show thesis by (metis prod.collapse)
qed

text \<open>Dropping entries with nothing in flight keeps the invariant.\<close>

lemma pool_ok_drop:
  assumes ok: "pool_ok p act" and sub: "set es \<subseteq> set (entries p)"
    and d1: "distinct (map fst es)" and d2: "distinct (map (pe_id \<circ> snd) es)"
    and keep: "\<And>n e. (n, e) \<in> set (entries p) \<Longrightarrow> pe_in_flight e > 0 \<Longrightarrow> (n, e) \<in> set es"
  shows "pool_ok (p\<lparr>entries := es\<rparr>) act"
proof -
  have "set act \<subseteq> (pe_id \<circ> snd) ` set es"
  proof
    fix i assume "i \<in> set act"
    with ok obtain n e where "(n, e) \<in> set (entries p)" "pe_id e = i" "pe_in_flight e > 0"
      by (rule pool_ok_active_busy)
    with keep show "i \<in> (pe_id \<circ> snd) ` set es" by force
  qed
  moreover have "list_all (entry_ok (next_eid p) act) es"
    using ok sub by (auto simp: pool_ok_def list_all_iff)
  ultimately show ?thesis using d1 d2 by (simp add: pool_ok_def)
qed

lemma pool_ok_sweep: "pool_ok p act \<Longrightarrow> pool_ok (evict_idle_inplace now p) act"
proof -
  assume ok: "pool_ok p act"
  let ?es = "filter (\<lambda>x. \<not> idle_entry (now - idle_evict_seconds p) (snd x)) (entries p)"
  have "evict_idle_inplace now p = p\<lparr>entries := ?es\<rparr>"
    using entries_evict_idle_inplace [OF pool_ok_distinct [OF ok], of now]
    by (simp add: evict_idle_inplace_def)
  moreover have "pool_ok (p\<lparr>entries := ?es\<rparr>) act"
    by (rule pool_ok_drop [OF ok])
      (use ok in \<open>auto simp: pool_ok_def idle_entry_def distinct_map intro: inj_on_subset\<close>)
  ultimately show ?thesis by simp
qed

lemma entry_ok_other:
  "entry_ok nx act x \<Longrightarrow> pe_id (snd x) \<noteq> i \<Longrightarrow> nx \<le> nx' \<Longrightarrow> entry_ok nx' (i # act) x"
  by (auto simp: entry_ok_def)

lemma pool_ok_hit:
  assumes ok: "pool_ok p act" and hit: "pool_hit now p n = Some (p', i)"
  shows "pool_ok p' (i # act)"
proof -
  obtain e where e: "map_of (entries p) n = Some e" "i = pe_id e"
    and p': "p' = p\<lparr>entries := dict_del n (entries p) @ [(n, touch_entry now e)]\<rparr>"
    using hit by (auto simp: pool_hit_def split: option.splits)
  let ?rest = "dict_del n (entries p)"
  have mem: "(n, e) \<in> set (entries p)" using e(1) by (rule map_of_SomeD)
  have sub: "set ?rest \<subseteq> set (entries p)" by (auto simp: dict_del_def)
  have other: "pe_id (snd x) \<noteq> i" if "x \<in> set ?rest" for x
  proof
    assume "pe_id (snd x) = i"
    then have "x = (n, e)"
      using inj_onD [OF pool_ok_inj [OF ok], of x "(n, e)"] that sub mem e(2) by auto
    with that show False by (simp add: dict_del_def)
  qed
  have "distinct (map fst (?rest @ [(n, touch_entry now e)]))"
    using distinct_dict_del [OF pool_ok_distinct [OF ok], of n] by (auto simp: dict_del_def)
  moreover have "distinct (map (pe_id \<circ> snd) (?rest @ [(n, touch_entry now e)]))"
  proof -
    have "distinct (map (pe_id \<circ> snd) ?rest)"
      using ok by (auto simp: pool_ok_def dict_del_def distinct_map intro: inj_on_subset)
    moreover have "i \<notin> (pe_id \<circ> snd) ` set ?rest" using other by auto
    ultimately show ?thesis using e(2) by (simp add: touch_entry_def)
  qed
  moreover have "list_all (entry_ok (next_eid p) (i # act)) (?rest @ [(n, touch_entry now e)])"
  proof -
    have "entry_ok (next_eid p) (i # act) x" if "x \<in> set ?rest" for x
      by (rule entry_ok_other [OF pool_ok_entry [OF ok, of x]]) (use that sub other in auto)
    moreover have "entry_ok (next_eid p) (i # act) (n, touch_entry now e)"
      using pool_ok_entry [OF ok mem] e(2) by (auto simp: entry_ok_def touch_entry_def)
    ultimately show ?thesis by (simp add: list_all_iff)
  qed
  moreover have "set (entries p) \<subseteq> insert (n, e) (set ?rest)"
    using eq_key_imp_eq_value [OF pool_ok_distinct [OF ok] mem] by (auto simp: dict_del_def)
  then have "set (i # act) \<subseteq> (pe_id \<circ> snd) ` set (?rest @ [(n, touch_entry now e)])"
    using ok e(2) unfolding pool_ok_def touch_entry_def by fastforce
  ultimately show ?thesis by (simp add: pool_ok_def p')
qed

lemma pool_ok_cold:
  assumes ok: "pool_ok p act" and cold: "acquire_cold factory now p n = (p', i)"
  shows "pool_ok p' (i # act)"
proof (cases "pool_hit now p n")
  case (Some r)
  with cold have "pool_hit now p n = Some (p', i)" by (auto simp: acquire_cold_def)
  with ok show ?thesis by (rule pool_ok_hit)
next
  case None
  let ?es = "evict_to_capacity (max_loaded_runtimes p) (entries p)"
  let ?e = "\<lparr>pe_id = next_eid p, pe_profile_name = n, pe_runtime = factory n, pe_last_used = now, pe_in_flight = 1\<rparr>"
  have es: "?es = drop_idle (nat (int (length (entries p)) - max_loaded_runtimes p + 1)) (entries p)"
    using pool_ok_distinct [OF ok] by (rule evict_to_capacity_drop_idle)
  have ok': "pool_ok (p\<lparr>entries := ?es\<rparr>) act"
  proof (rule pool_ok_drop [OF ok])
    show "set ?es \<subseteq> set (entries p)" unfolding es by (rule drop_idle_subset)
    show "distinct (map fst ?es)" "distinct (map (pe_id \<circ> snd) ?es)"
      using ok unfolding es pool_ok_def by (blast intro: distinct_drop_idle)+
    show "(m, e) \<in> set ?es" if "(m, e) \<in> set (entries p)" "pe_in_flight e > 0" for m e
      using that unfolding es by (intro drop_idle_keeps_busy) auto
  qed
  have "n \<notin> fst ` set (entries p)"
    using None by (auto simp: pool_hit_def map_of_eq_None_iff split: option.splits)
  moreover have "set ?es \<subseteq> set (entries p)" by (simp add: es drop_idle_subset)
  ultimately have new: "n \<notin> fst ` set ?es" by blast
  have i: "i = next_eid p" and p': "p' = p\<lparr>entries := ?es @ [(n, ?e)], next_eid := Suc (next_eid p)\<rparr>"
    using cold None by (auto simp: acquire_cold_def Let_def)
  have lt: "pe_id (snd x) < i" if "x \<in> set ?es" for x
    using pool_ok_entry [OF ok', of x] that i by (simp add: entry_ok_def)
  have fresh: "i \<notin> set act" using ok' lt by (fastforce simp: pool_ok_def)
  have "entry_ok (Suc i) (i # act) x" if "x \<in> set ?es" for x
    using pool_ok_entry [OF ok', of x] lt [OF that] that i by (intro entry_ok_other) auto
  then have "list_all (entry_ok (Suc i) (i # act)) ?es" by (simp add: list_all_iff)
  moreover have "entry_ok (Suc i) (i # act) (n, ?e)"
    using fresh i by (simp add: entry_ok_def not_in_iff [symmetric])
  moreover have "distinct (map (pe_id \<circ> snd) (?es @ [(n, ?e)]))"
    using ok' lt i by (fastforce simp: pool_ok_def)
  moreover have "distinct (map fst (?es @ [(n, ?e)]))"
    using ok' new by (simp add: pool_ok_def)
  moreover have "set (i # act) \<subseteq> (pe_id \<circ> snd) ` set (?es @ [(n, ?e)])"
    using ok' i by (auto simp: pool_ok_def)
  ultimately show ?thesis using i by (simp add: pool_ok_def p')
qed

lemma entry_ok_release:
  assumes "entry_ok nx act (n, e)" "i \<in> set act"
  shows "entry_ok nx (remove1 i act)
    (n, if pe_id e = i then e\<lparr>pe_in_flight := pe_in_flight e - 1, pe_last_used := now\<rparr> else e)"
proof -
  have "count (mset act) i \<noteq> 0" using assms(2) by simp
  then show ?thesis using assms by (auto simp: entry_ok_def of_nat_diff)
qed

lemma pool_ok_release:
  assumes ok: "pool_ok p act" and i: "i \<in> set act"
  shows "pool_ok (release now p i) (remove1 i act)"
proof -
  let ?f = "\<lambda>(n, e). (n, if pe_id e = i then e\<lparr>pe_in_flight := pe_in_flight e - 1, pe_last_used := now\<rparr> else e)"
  have eq: "map fst (map ?f es) = map fst es" "map (pe_id \<circ> snd) (map ?f es) = map (pe_id \<circ> snd) es"
    for es :: "'a pool_entries"
    by auto
  then have img: "(pe_id \<circ> snd) ` set (map ?f (entries p)) = (pe_id \<circ> snd) ` set (entries p)"
    by (metis list.set_map)
  have "list_all (entry_ok (next_eid p) (remove1 i act)) (map ?f (entries p))"
    unfolding list_all_iff
  proof
    fix y assume "y \<in> set (map ?f (entries p))"
    then obtain n e where "(n, e) \<in> set (entries p)" and y: "y = ?f (n, e)" by auto
    with ok have "entry_ok (next_eid p) act (n, e)" by (simp add: pool_ok_entry)
    then show "entry_ok (next_eid p) (remove1 i act) y"
      unfolding y prod.case by (rule entry_ok_release [OF _ i])
  qed
  moreover have "set (remove1 i act) \<subseteq> (pe_id \<circ> snd) ` set (map ?f (entries p))"
    using ok set_remove1_subset [of i act] unfolding img by (auto simp: pool_ok_def)
  moreover have "distinct (map fst (map ?f (entries p)))" "distinct (map (pe_id \<circ> snd) (map ?f (entries p)))"
    using ok unfolding eq by (simp_all add: pool_ok_def)
  ultimately show ?thesis
    unfolding pool_ok_def release_def by simp
qed

lemma pool_step_ok:
  assumes "pool_step factory s s'" "pool_ok (ps_pool s) (ps_active s)"
  shows "pool_ok (ps_pool s') (ps_active s')"
  using assms
proof (induction rule: pool_step.induct)
  case (start_hit now s n p i)
  then show ?case
    by (auto simp: acquire_start_def Let_def split: option.splits
        intro: pool_ok_hit [OF pool_ok_sweep])
next
  case (start_miss now s n p)
  then show ?case
    by (auto simp: acquire_start_def Let_def split: option.splits intro: pool_ok_sweep)
next
  case (cold n s now p i)
  then show ?case by (auto intro: pool_ok_cold)
next
  case (finish i s now)
  then show ?case by (simp add: pool_ok_release)
next
  case (sweep s now)
  then show ?case by (simp add: evict_idle_def Let_def pool_ok_sweep)
qed

lemma pool_reachable_ok: "pool_reachable factory mx idle s \<Longrightarrow> pool_ok (ps_pool s) (ps_active s)"
proof (induction rule: pool_reachable.induct)
  case pool_init
  show ?case by (simp add: pool_ok_def)
next
  case (pool_next s s')
  then show ?case by (blast intro: pool_step_ok)
qed

section \<open>Properties\<close>

text \<open>C26. However dispatches, cold starts and sweeps interleave, every dispatch in flight
  still finds the entry object it acquired in the pool, under the entry's own profile name,
  and the entry's counter is exactly the number of dispatches holding it: a runtime is never
  evicted or replaced under a running dispatch.\<close>

theorem in_flight_runtime_stays_loaded:
  assumes "pool_reachable factory mx idle s" and "i \<in> set (ps_active s)"
  shows "\<exists>e. map_of (entries (ps_pool s)) (pe_profile_name e) = Some e \<and> pe_id e = i
     \<and> in_flight_count (ps_pool s) (pe_profile_name e) = int (count (mset (ps_active s)) i)
     \<and> 0 < in_flight_count (ps_pool s) (pe_profile_name e)"
proof -
  have ok: "pool_ok (ps_pool s) (ps_active s)" using assms(1) by (rule pool_reachable_ok)
  then obtain n e where e: "(n, e) \<in> set (entries (ps_pool s))" "pe_id e = i" "pe_in_flight e > 0"
    using assms(2) by (rule pool_ok_active_busy)
  then have "map_of (entries (ps_pool s)) n = Some e"
    using pool_ok_distinct [OF ok] by simp
  moreover have "pe_profile_name e = n" "pe_in_flight e = int (count (mset (ps_active s)) i)"
    using pool_ok_entry [OF ok e(1)] e(2) by (auto simp: entry_ok_def)
  ultimately show ?thesis
    using e by (intro exI [of _ e]) (simp add: in_flight_count_def)
qed

theorem in_flight_runtime_stays_loaded_witness:
  "let p = \<lparr>max_loaded_runtimes = 1, idle_evict_seconds = 300,
            entries = [(''alice'', \<lparr>pe_id = 0, pe_profile_name = ''alice'', pe_runtime = (), pe_last_used = 1, pe_in_flight = 1\<rparr>)],
            next_eid = Suc 0\<rparr>;
       s = \<lparr>ps_pool = p, ps_waiting = [], ps_active = [0]\<rparr>
   in pool_reachable (\<lambda>_. ()) 1 300 s \<and> (\<exists>e. map_of (entries (ps_pool s)) (pe_profile_name e) = Some e \<and> pe_id e = 0)"
proof -
  let ?p = "\<lparr>max_loaded_runtimes = 1, idle_evict_seconds = 300,
            entries = [(''alice'', \<lparr>pe_id = 0, pe_profile_name = ''alice'', pe_runtime = (), pe_last_used = 1, pe_in_flight = 1\<rparr>)],
            next_eid = Suc 0\<rparr>"
  let ?s = "\<lparr>ps_pool = ?p, ps_waiting = [], ps_active = [0]\<rparr>"
  let ?empty = "\<lparr>max_loaded_runtimes = 1, idle_evict_seconds = 300, entries = [], next_eid = 0\<rparr>"
  let ?sa = "\<lparr>ps_pool = ?empty, ps_waiting = [], ps_active = []\<rparr>"
  let ?sb = "\<lparr>ps_pool = ?empty, ps_waiting = [''alice''], ps_active = []\<rparr>"
  have "acquire_start 1 (ps_pool ?sa) ''alice'' = (?empty, None)"
    by (simp add: acquire_start_def evict_idle_inplace_def pool_hit_def Let_def)
  then have "pool_step (\<lambda>_. ()) ?sa ?sb" using pool_step.start_miss by fastforce
  then have r1: "pool_reachable (\<lambda>_. ()) 1 300 ?sb"
    by (rule pool_reachable.pool_next [OF pool_reachable.pool_init])
  have "acquire_cold (\<lambda>_. ()) 1 (ps_pool ?sb) ''alice'' = (?p, 0)"
    by (simp add: acquire_cold_def pool_hit_def Let_def)
  then have "pool_step (\<lambda>_. ()) ?sb ?s"
    using pool_step.cold [of "''alice''" ?sb "\<lambda>_. ()" 1 ?p 0] by simp
  then have r: "pool_reachable (\<lambda>_. ()) 1 300 ?s"
    by (rule pool_reachable.pool_next [OF r1])
  then show ?thesis
    using in_flight_runtime_stays_loaded [OF r, of 0] by auto
qed

text \<open>Making room is LRU eviction: with distinct keys the loop drops, in recency order,
  the first entries with nothing in flight, as many as the capacity asks for and no more, and
  it stops with room for one more entry unless everything that is left is in flight.\<close>

lemma evict_to_capacity_is_lru:
  assumes "distinct (map fst es)"
  shows "evict_to_capacity mx es = drop_idle (nat (int (length es) - mx + 1)) es
    \<and> (int (length (evict_to_capacity mx es)) < mx
       \<or> (\<forall>x \<in> set (evict_to_capacity mx es). pe_in_flight (snd x) \<noteq> 0))"
proof -
  let ?k = "nat (int (length es) - mx + 1)"
  have eq: "evict_to_capacity mx es = drop_idle ?k es"
    using assms by (rule evict_to_capacity_drop_idle)
  moreover have "int (length (drop_idle ?k es)) < mx \<or> (\<forall>x \<in> set (drop_idle ?k es). pe_in_flight (snd x) \<noteq> 0)"
  proof (cases "int (length es) < mx")
    case True
    then show ?thesis by simp
  next
    case False
    then show ?thesis using drop_idle_room [of ?k es] by linarith
  qed
  ultimately show ?thesis by simp
qed

end
