(* ===== verification/Session_Store.thy ===== *)
theory Session_Store
  imports Hermes_Prelude
begin

text \<open>
  The persistent conversation store and event de-duplication table
  (\<open>src/hermes_multitenancy/sessions.py\<close>). Each method is one locked transaction, so
  each is one function on the store; the clock it reads is an argument.
\<close>

section \<open>Model\<close>

record sess_row =
  ss_profile_name :: string
  ss_user_key :: string
  ss_ts :: int
  ss_role :: string
  ss_content :: string

record event_row =
  ev_key :: string
  ev_profile_name :: string
  ev_user_key :: string
  ev_message_id :: "string option"
  ev_content_hash :: "string option"
  ev_ts :: int

record session_store =
  sess_rows :: "sess_row list"
  event_rows :: "event_row list"

abbreviation in_session :: "string \<Rightarrow> string \<Rightarrow> sess_row \<Rightarrow> bool" where
  "in_session p u r \<equiv> ss_profile_name r = p \<and> ss_user_key r = u"

text \<open>\<open>INSERT OR IGNORE\<close> under \<open>PRIMARY KEY (profile_name, user_key, ts, role)\<close>.\<close>

definition sess_append ::
    "int \<Rightarrow> session_store \<Rightarrow> string \<Rightarrow> string \<Rightarrow> string \<Rightarrow> string \<Rightarrow> session_store" where
  "sess_append ts st p u role content =
     (if list_ex (\<lambda>r. in_session p u r \<and> ss_ts r = ts \<and> ss_role r = role) (sess_rows st) then st
      else st\<lparr>sess_rows := sess_rows st @ [\<lparr>ss_profile_name = p, ss_user_key = u, ss_ts = ts,
             ss_role = role, ss_content = content\<rparr>]\<rparr>)"

definition load_recent :: "session_store \<Rightarrow> string \<Rightarrow> string \<Rightarrow> int \<Rightarrow> (string \<times> string) list" where
  "load_recent st p u limit =
     map (\<lambda>r. (ss_role r, ss_content r))
       (rev (sql_limit limit (order_by_desc ss_ts (filter (in_session p u) (sess_rows st)))))"

definition sess_clear :: "session_store \<Rightarrow> string \<Rightarrow> string \<Rightarrow> session_store \<times> nat" where
  "sess_clear st p u =
     (st\<lparr>sess_rows := sql_delete (in_session p u) (sess_rows st)\<rparr>, rowcount (in_session p u) (sess_rows st))"

definition sess_count :: "session_store \<Rightarrow> string \<Rightarrow> string \<Rightarrow> nat" where
  "sess_count st p u = rowcount (in_session p u) (sess_rows st)"

text \<open>
  The upsert's \<open>WHERE ts < cutoff\<close> applies to the conflicting row: a fresher one makes the
  statement change no row, and the call reports a duplicate.
\<close>

definition mark_event_processed ::
    "int \<Rightarrow> int \<Rightarrow> session_store \<Rightarrow> event_row \<Rightarrow> session_store \<times> bool" where
  "mark_event_processed now ttl_seconds st ev =
     (let ttl = max 0 ttl_seconds; cutoff = now - ttl;
          new = ev\<lparr>ev_ts := now\<rparr>;
          prune = sql_delete (\<lambda>r. ev_ts r < now - max ttl 86400)
      in case tbl_get ev_key (event_rows st) (ev_key ev) of
           None \<Rightarrow> (st\<lparr>event_rows := prune (event_rows st @ [new])\<rparr>, True)
         | Some old \<Rightarrow>
             if ev_ts old < cutoff
             then (st\<lparr>event_rows := prune (sql_update (\<lambda>r. ev_key r = ev_key ev) (\<lambda>_. new) (event_rows st))\<rparr>, True)
             else (st, False))"

definition is_event_processed :: "int \<Rightarrow> int \<Rightarrow> session_store \<Rightarrow> string \<Rightarrow> bool" where
  "is_event_processed now ttl_seconds st k =
     (case tbl_get ev_key (event_rows st) k of
        None \<Rightarrow> False | Some r \<Rightarrow> ev_ts r \<ge> now - max 0 ttl_seconds)"

definition empty_store :: session_store where
  "empty_store = \<lparr>sess_rows = [], event_rows = []\<rparr>"

section \<open>Histories\<close>

text \<open>The abstract view: the messages of one session in the order they were appended.\<close>

definition history :: "session_store \<Rightarrow> string \<Rightarrow> string \<Rightarrow> (string \<times> string) list" where
  "history st p u = map (\<lambda>r. (ss_role r, ss_content r)) (filter (in_session p u) (sess_rows st))"

lemma insort_key_last: "\<forall>y \<in> set ys. g y < g x \<Longrightarrow> insort_key g x ys = ys @ [x]"
  by (induction ys) auto

lemma sort_key_rev_sorted:
  fixes f :: "'a \<Rightarrow> int"
  assumes "sorted_wrt (\<lambda>a b. f a < f b) xs"
  shows "sort_key (\<lambda>x. - f x) xs = rev xs"
  using assms by (induction xs) (simp_all add: insort_key_last)

lemma load_recent_increasing:
  assumes "sorted_wrt (\<lambda>a b. ss_ts a < ss_ts b) (filter (in_session p u) (sess_rows st))"
  shows "load_recent st p u limit = rev (sql_limit limit (rev (history st p u)))"
  using sort_key_rev_sorted [of ss_ts, OF assms]
  by (simp add: load_recent_def history_def order_by_desc_def sql_limit_def rev_map take_map)

lemma history_append_other:
  "(p, u) \<noteq> (p', u') \<Longrightarrow> filter (in_session p' u') (sess_rows (sess_append ts st p u role content))
     = filter (in_session p' u') (sess_rows st)"
  by (auto simp: sess_append_def)

text \<open>A run of appends, each with the clock value it reads.\<close>

fun append_all ::
    "session_store \<Rightarrow> (int \<times> string \<times> string \<times> string \<times> string) list \<Rightarrow> session_store" where
  "append_all st [] = st"
| "append_all st ((ts, p, u, role, content) # xs) = append_all (sess_append ts st p u role content) xs"

text \<open>The messages such a run addresses to one session.\<close>

fun sent_to :: "string \<Rightarrow> string \<Rightarrow> (int \<times> string \<times> string \<times> string \<times> string) list \<Rightarrow> (string \<times> string) list" where
  "sent_to p u [] = []"
| "sent_to p u ((ts, p', u', role, content) # xs) =
     (if p' = p \<and> u' = u then [(role, content)] else []) @ sent_to p u xs"

lemma filter_append_fresh:
  assumes "\<forall>r \<in> set (sess_rows st). ss_ts r < ts"
  shows "sess_rows (sess_append ts st p u role content) =
    sess_rows st @ [\<lparr>ss_profile_name = p, ss_user_key = u, ss_ts = ts, ss_role = role, ss_content = content\<rparr>]"
  using assms by (auto simp: sess_append_def list_ex_iff)

lemma append_all_increasing:
  assumes "sorted_wrt (<) (map fst xs)"
    and "\<forall>r \<in> set (sess_rows st). \<forall>x \<in> set xs. ss_ts r < fst x"
    and "sorted_wrt (\<lambda>a b. ss_ts a < ss_ts b) (sess_rows st)"
  shows "sorted_wrt (\<lambda>a b. ss_ts a < ss_ts b) (sess_rows (append_all st xs))
    \<and> history (append_all st xs) p u =
      history st p u @ sent_to p u xs"
  using assms
proof (induction st xs rule: append_all.induct)
  case (2 st ts p' u' role c xs)
  have rows: "sess_rows (sess_append ts st p' u' role c) =
      sess_rows st @ [\<lparr>ss_profile_name = p', ss_user_key = u', ss_ts = ts, ss_role = role, ss_content = c\<rparr>]"
    using "2.prems"(2) by (intro filter_append_fresh) auto
  have "sorted_wrt (\<lambda>a b. ss_ts a < ss_ts b) (sess_rows (append_all (sess_append ts st p' u' role c) xs))
    \<and> history (append_all (sess_append ts st p' u' role c) xs) p u =
      history (sess_append ts st p' u' role c) p u
        @ sent_to p u xs"
    by (rule "2.IH") (use "2.prems" in \<open>auto simp: rows sorted_wrt_append\<close>)
  then show ?case by (auto simp: history_def rows)
qed simp

section \<open>Event de-duplication\<close>

fun mark_run :: "int \<Rightarrow> (event_row \<times> int) list \<Rightarrow> session_store \<Rightarrow> (string \<times> int) list" where
  "mark_run ttl [] st = []"
| "mark_run ttl ((ev, now) # xs) st =
     (case mark_event_processed now ttl st ev of
        (st', accepted) \<Rightarrow> (if accepted then [(ev_key ev, now)] else []) @ mark_run ttl xs st')"

text \<open>\<open>k\<close> was accepted at \<open>t\<close> and its row is still there.\<close>

definition marked_at :: "session_store \<Rightarrow> string \<Rightarrow> int \<Rightarrow> bool" where
  "marked_at st k t \<longleftrightarrow> (\<exists>r. tbl_get ev_key (event_rows st) k = Some r \<and> t \<le> ev_ts r)"

lemma tbl_get_filter_keep:
  assumes "tbl_get key t k = Some r" "Q r"
  shows "tbl_get key (filter Q t) k = Some r \<or> (\<exists>r'. tbl_get key (filter Q t) k = Some r' \<and> r' \<in> set t)"
  using assms by (induction t) (auto simp: tbl_get_Cons split: if_splits)

lemma tbl_get_filter_distinct:
  assumes "distinct (map key t)" "tbl_get key t k = Some r"
  shows "tbl_get key (filter Q t) k = (if Q r then Some r else None)"
proof -
  have "filter (\<lambda>r. key r = k) (filter Q t) = filter (\<lambda>r. key r = k \<and> Q r) t"
    by (simp add: conj_commute)
  then show ?thesis using filter_key_distinct [OF assms, of Q] by (simp add: tbl_get_def)
qed

definition events_ok :: "session_store \<Rightarrow> bool" where
  "events_ok st \<longleftrightarrow> distinct (map ev_key (event_rows st))"

lemma map_key_const_update:
  "key new = k \<Longrightarrow> map key (sql_update (\<lambda>r. key r = k) (\<lambda>_. new) t) = map key t"
  by (induction t) auto

lemma tbl_get_const_update:
  assumes "key new = k"
  shows "tbl_get key (sql_update (\<lambda>r. key r = k) (\<lambda>_. new) t) k' =
    (if k' = k \<and> tbl_get key t k \<noteq> None then Some new else tbl_get key t k')"
  using assms by (induction t) (auto simp: tbl_get_Cons)

lemma mark_event_ok:
  assumes "events_ok st"
  shows "events_ok (fst (mark_event_processed now ttl st ev))"
proof (cases "tbl_get ev_key (event_rows st) (ev_key ev)")
  case None
  then have "ev_key ev \<notin> ev_key ` set (event_rows st)" by (simp add: tbl_get_None)
  with assms None show ?thesis
    by (auto simp: mark_event_processed_def Let_def events_ok_def sql_delete_def distinct_map_filter)
next
  case (Some old)
  have eq: "map ev_key (sql_update (\<lambda>r. ev_key r = ev_key ev) (\<lambda>_. ev\<lparr>ev_ts := now\<rparr>) (event_rows st))
      = map ev_key (event_rows st)"
    by (rule map_key_const_update) simp
  have "distinct (map ev_key (sql_delete (\<lambda>r. ev_ts r < now - max (max 0 ttl) 86400)
      (sql_update (\<lambda>r. ev_key r = ev_key ev) (\<lambda>_. ev\<lparr>ev_ts := now\<rparr>) (event_rows st))))"
    unfolding sql_delete_def by (rule distinct_map_filter) (use assms in \<open>simp add: eq events_ok_def\<close>)
  with assms Some show ?thesis
    by (simp add: mark_event_processed_def Let_def events_ok_def)
qed

lemma mark_event_marks:
  assumes "events_ok st" "snd (mark_event_processed now ttl st ev)"
  shows "marked_at (fst (mark_event_processed now ttl st ev)) (ev_key ev) now"
proof -
  let ?new = "ev\<lparr>ev_ts := now\<rparr>"
  let ?t = "case tbl_get ev_key (event_rows st) (ev_key ev) of None \<Rightarrow> event_rows st @ [?new]
    | Some _ \<Rightarrow> sql_update (\<lambda>r. ev_key r = ev_key ev) (\<lambda>_. ?new) (event_rows st)"
  have rows: "event_rows (fst (mark_event_processed now ttl st ev)) =
      filter (\<lambda>r. \<not> ev_ts r < now - max (max 0 ttl) 86400) ?t"
    using assms(2) by (auto simp: mark_event_processed_def Let_def sql_delete_def split: option.splits if_splits)
  have "tbl_get ev_key ?t (ev_key ev) = Some ?new"
    by (auto simp: tbl_get_append tbl_get_const_update tbl_get_Cons split: option.splits)
  moreover have "distinct (map ev_key ?t)"
    using assms(1) tbl_get_None [of ev_key "event_rows st" "ev_key ev"]
    by (auto simp: events_ok_def map_key_const_update split: option.splits)
  ultimately show ?thesis unfolding marked_at_def rows by (simp add: tbl_get_filter_distinct)
qed

lemma mark_event_keeps:
  assumes "events_ok st" "marked_at st k t" "t \<le> now" "now \<le> t + max (max 0 ttl) 86400"
  shows "marked_at (fst (mark_event_processed now ttl st ev)) k t"
proof (cases "ev_key ev = k \<and> snd (mark_event_processed now ttl st ev)")
  case True
  then show ?thesis
    using mark_event_marks [OF assms(1), of now ttl ev] assms(3) by (force simp: marked_at_def)
next
  case False
  obtain r where r: "tbl_get ev_key (event_rows st) k = Some r" "t \<le> ev_ts r"
    using assms(2) by (auto simp: marked_at_def)
  show ?thesis
  proof (cases "ev_key ev = k")
    case True
    with False have "fst (mark_event_processed now ttl st ev) = st"
      by (auto simp: mark_event_processed_def Let_def split: option.splits if_splits)
    with assms(2) show ?thesis by simp
  next
    case other: False
    let ?new = "ev\<lparr>ev_ts := now\<rparr>"
    have keep: "tbl_get ev_key (filter (\<lambda>r. \<not> ev_ts r < now - max (max 0 ttl) 86400) t') k = Some r"
      if "distinct (map ev_key t')" "tbl_get ev_key t' k = Some r" for t'
      using tbl_get_filter_distinct [OF that, of "\<lambda>r. \<not> ev_ts r < now - max (max 0 ttl) 86400"] r(2) assms(4)
      by (simp add: max_def split: if_splits)
    have d: "distinct (map ev_key (event_rows st))" using assms(1) by (simp add: events_ok_def)
    show ?thesis
    proof (cases "tbl_get ev_key (event_rows st) (ev_key ev)")
      case None
      have "tbl_get ev_key (filter (\<lambda>r. \<not> ev_ts r < now - max (max 0 ttl) 86400) (event_rows st @ [?new])) k = Some r"
        by (rule keep) (use None d r tbl_get_None [of ev_key "event_rows st" "ev_key ev"] in \<open>auto simp: tbl_get_append\<close>)
      with None r show ?thesis
        by (simp add: marked_at_def mark_event_processed_def Let_def sql_delete_def)
    next
      case (Some old)
      have "tbl_get ev_key (filter (\<lambda>r. \<not> ev_ts r < now - max (max 0 ttl) 86400)
          (sql_update (\<lambda>r. ev_key r = ev_key ev) (\<lambda>_. ?new) (event_rows st))) k = Some r"
        by (rule keep) (use d r other in \<open>simp_all add: map_key_const_update tbl_get_const_update\<close>)
      with Some r assms(2) show ?thesis
        by (simp add: marked_at_def mark_event_processed_def Let_def sql_delete_def)
    qed
  qed
qed

lemma mark_event_accepts_iff:
  "snd (mark_event_processed now ttl st ev) \<longleftrightarrow> \<not> is_event_processed now ttl st (ev_key ev)"
  by (auto simp: mark_event_processed_def is_event_processed_def Let_def split: option.splits)

lemma mark_run_Cons:
  "mark_run ttl (x # xs) st =
     (if snd (mark_event_processed (snd x) ttl st (fst x)) then [(ev_key (fst x), snd x)] else [])
       @ mark_run ttl xs (fst (mark_event_processed (snd x) ttl st (fst x)))"
  by (cases x) (simp split: prod.splits)

lemma mark_run_times: "snd ` set (mark_run ttl xs st) \<subseteq> snd ` set xs"
  by (induction xs arbitrary: st) (auto simp: mark_run_Cons simp del: mark_run.simps(2))

lemma mark_run_after:
  assumes "events_ok st" "marked_at st k t" "sorted (map snd xs)" "\<forall>x \<in> set xs. t \<le> snd x"
  shows "\<forall>a \<in> set (mark_run ttl xs st). fst a = k \<longrightarrow> t + max 0 ttl < snd a"
  using assms
proof (induction xs arbitrary: st)
  case (Cons x xs)
  let ?m = "mark_event_processed (snd x) ttl st (fst x)"
  show ?case
  proof (cases "snd x \<le> t + max 0 ttl")
    case True
    have "\<forall>a \<in> set (mark_run ttl xs (fst ?m)). fst a = k \<longrightarrow> t + max 0 ttl < snd a"
      by (rule Cons.IH) (use Cons.prems True in \<open>simp_all add: mark_event_ok mark_event_keeps\<close>)
    moreover have "snd ?m \<Longrightarrow> ev_key (fst x) \<noteq> k"
      using Cons.prems(2) True
      by (auto simp: mark_event_accepts_iff is_event_processed_def marked_at_def)
    ultimately show ?thesis by (auto simp: mark_run_Cons simp del: mark_run.simps(2))
  next
    case False
    have "t + max 0 ttl < snd a" if "a \<in> set (mark_run ttl (x # xs) st)" for a
      using that False Cons.prems(3) mark_run_times [of ttl "x # xs" st] by fastforce
    then show ?thesis by blast
  qed
qed simp

lemma mark_run_window:
  assumes "events_ok st" "sorted (map snd xs)"
  shows "sorted_wrt (\<lambda>a b. fst a = fst b \<longrightarrow> snd a + max 0 ttl < snd b) (mark_run ttl xs st)"
  using assms
proof (induction xs arbitrary: st)
  case (Cons x xs)
  let ?m = "mark_event_processed (snd x) ttl st (fst x)"
  have ok: "events_ok (fst ?m)" using Cons.prems(1) by (rule mark_event_ok)
  have "snd ?m \<Longrightarrow> \<forall>a \<in> set (mark_run ttl xs (fst ?m)). fst a = ev_key (fst x) \<longrightarrow> snd x + max 0 ttl < snd a"
    by (rule mark_run_after [OF ok mark_event_marks [OF Cons.prems(1)]]) (use Cons.prems(2) in auto)
  with Cons.IH [OF ok] Cons.prems(2) show ?case
    by (auto simp: mark_run_Cons simp del: mark_run.simps(2))
qed simp

section \<open>A clock that runs backwards\<close>

lemma insort_key_append: "g a < g x \<Longrightarrow> insort_key g a (ys @ [x]) = insort_key g a ys @ [x]"
  by (induction ys) auto

lemma sort_key_append_last:
  "\<forall>y \<in> set ys. g y < g x \<Longrightarrow> sort_key g (ys @ [x]) = sort_key g ys @ [x]"
  by (induction ys) (simp_all add: insort_key_append)

section \<open>Properties\<close>

text \<open>C28. The store refines one message list per session: under a clock that increases from
  append to append, \<open>load_recent\<close> returns the last \<open>limit\<close> messages that were addressed to its
  session, in order, whatever was appended to other sessions in between.\<close>

theorem load_recent_refines_history:
  assumes "sorted_wrt (<) (map fst xs)" "0 \<le> limit"
  shows "load_recent (append_all empty_store xs) p u limit =
    drop (length (sent_to p u xs) - nat limit) (sent_to p u xs)"
proof -
  have "sorted_wrt (\<lambda>a b. ss_ts a < ss_ts b) (sess_rows (append_all empty_store xs))
    \<and> history (append_all empty_store xs) p u = history empty_store p u @ sent_to p u xs"
    by (rule append_all_increasing) (use assms in \<open>simp_all add: empty_store_def\<close>)
  then show ?thesis
    using load_recent_increasing [OF sorted_wrt_filter, of "append_all empty_store xs" p u limit] assms(2)
    by (simp add: history_def empty_store_def sql_limit_def rev_take)
qed

theorem load_recent_refines_history_witness:
  "load_recent (append_all empty_store
      [(1, ''p'', ''a'', ''user'', ''hi''), (2, ''p'', ''b'', ''user'', ''x''),
       (3, ''p'', ''a'', ''assistant'', ''yo''), (4, ''p'', ''a'', ''user'', ''ok'')]) ''p'' ''a'' 2
    = [(''assistant'', ''yo''), (''user'', ''ok'')]"
  by (subst load_recent_refines_history) simp_all

text \<open>The order is the clock's and nothing else's: a message appended with a timestamp
  below those its session already holds (a monotonic clock after a reboot) is stored, and
  \<open>load_recent\<close> leaves it out for as long as \<open>limit\<close> older messages exist.\<close>

lemma append_after_clock_reset_is_hidden:
  assumes "\<forall>r \<in> set (sess_rows st). in_session p u r \<longrightarrow> ts < ss_ts r"
    and "0 \<le> limit" "nat limit \<le> sess_count st p u"
  shows "sess_count (sess_append ts st p u role content) p u = Suc (sess_count st p u)
    \<and> load_recent (sess_append ts st p u role content) p u limit = load_recent st p u limit"
proof -
  let ?new = "\<lparr>ss_profile_name = p, ss_user_key = u, ss_ts = ts, ss_role = role, ss_content = content\<rparr>"
  have rows: "sess_rows (sess_append ts st p u role content) = sess_rows st @ [?new]"
    using assms(1) by (auto simp: sess_append_def list_ex_iff)
  have "sort_key (\<lambda>r. - ss_ts r) (filter (in_session p u) (sess_rows st) @ [?new])
      = sort_key (\<lambda>r. - ss_ts r) (filter (in_session p u) (sess_rows st)) @ [?new]"
    using assms(1) by (intro sort_key_append_last) auto
  with rows assms(2,3) show ?thesis
    by (simp add: load_recent_def order_by_desc_def sql_limit_def sess_count_def rowcount_def)
qed

text \<open>Event de-duplication: in every run of \<open>mark_event_processed\<close> calls under a clock that
  does not go back, two acceptances of one event key are more than the time-to-live apart,
  although each call prunes old rows; and a call is accepted exactly when
  \<open>is_event_processed\<close> at that moment says no.\<close>

lemma event_accepted_once_per_ttl:
  assumes "sorted (map snd xs)"
  shows "sorted_wrt (\<lambda>a b. fst a = fst b \<longrightarrow> snd a + max 0 ttl < snd b) (mark_run ttl xs empty_store)
    \<and> (\<forall>now st ev. snd (mark_event_processed now ttl st ev) \<longleftrightarrow> \<not> is_event_processed now ttl st (ev_key ev))"
  using mark_run_window [OF _ assms, of empty_store ttl]
  by (simp add: events_ok_def empty_store_def mark_event_accepts_iff)

text \<open>Sessions do not interfere: appending to or clearing one \<open>(profile, user_key)\<close> session
  changes no other session's messages and no event mark, clearing empties exactly its own
  session and reports how many messages it held.\<close>

lemma session_ops_isolated:
  assumes "(p, u) \<noteq> (p', u')"
  shows "load_recent (sess_append ts st p u role content) p' u' n = load_recent st p' u' n
    \<and> load_recent (fst (sess_clear st p u)) p' u' n = load_recent st p' u' n
    \<and> load_recent (fst (sess_clear st p u)) p u n = []
    \<and> snd (sess_clear st p u) = length (load_recent st p u (-1))
    \<and> event_rows (sess_append ts st p u role content) = event_rows st
    \<and> event_rows (fst (sess_clear st p u)) = event_rows st"
proof -
  have other: "filter (in_session p' u') (sql_delete (in_session p u) t) = filter (in_session p' u') t" for t
    using assms by (auto simp: sql_delete_def intro: filter_cong)
  show ?thesis
    using history_append_other [OF assms] other
    by (simp add: load_recent_def sess_clear_def rowcount_def order_by_desc_def sql_limit_def
        sess_append_def sql_delete_def)
qed

end
