(* ===== verification/Session_Scope.thy ===== *)
theory Session_Scope
  imports Hermes_Prelude
begin

text \<open>
  The typed session boundary (\<open>src/hermes_multitenancy/session_scope.py\<close> and the
  strict-mode switch of \<open>runtime.py\<close>): which key a dispatch uses for its history and
  for its in-flight slot. The environment variable is an argument.
\<close>

section \<open>Model\<close>

definition SEP :: char where
  "SEP = CHR 0x1F"

definition lower_char :: "char \<Rightarrow> char" where
  "lower_char c = (let n = (of_char c :: nat) in
     if 65 \<le> n \<and> n \<le> 90 then char_of (n + 32) else c)"

definition lower :: "string \<Rightarrow> string" where
  "lower s = map lower_char s"

text \<open>\<open>os.environ.get("HERMES_MULTITENANCY_STRICT_CONTEXT", "")\<close> is the argument.\<close>

definition strict_context_enabled :: "string option \<Rightarrow> bool" where
  "strict_context_enabled env \<longleftrightarrow>
     lower (strip (str_or_empty env)) \<in> set [''1'', ''true'', ''yes'', ''on'']"

record session_scope =
  sc_profile_name :: string
  sc_channel :: string
  sc_user_key :: string
  sc_chat_id :: "string option"
  sc_thread_id :: "string option"
  sc_route_version :: int
  sc_shared_history :: bool

definition CHANNEL_FEISHU :: string where "CHANNEL_FEISHU = ''feishu''"

text \<open>\<open>__post_init__\<close>: construction fails on a blank channel or user key.\<close>

definition SessionScope :: "session_scope \<Rightarrow> session_scope result" where
  "SessionScope sc =
     (if strip (sc_channel sc) = [] then Inl (ValueError ''SessionScope.channel is required'')
      else if strip (sc_user_key sc) = [] then Inl (ValueError ''SessionScope.user_key is required'')
      else Inr sc)"

definition history_user :: "session_scope \<Rightarrow> string" where
  "history_user sc = (if sc_shared_history sc then ''_group_topic'' else sc_user_key sc)"

definition history_key :: "bool \<Rightarrow> session_scope \<Rightarrow> string \<times> string" where
  "history_key strict sc =
     (if \<not> strict then (sc_profile_name sc, sc_user_key sc)
      else (sc_profile_name sc,
            join_sep SEP [sc_channel sc, history_user sc, str_or_empty (sc_chat_id sc),
                          str_or_empty (sc_thread_id sc), CHR ''v'' # int_str (sc_route_version sc)]))"

definition inflight_key :: "bool \<Rightarrow> session_scope \<Rightarrow> string \<times> string \<times> string" where
  "inflight_key strict sc =
     (let profile_key = py_or (strip (sc_profile_name sc)) ''_unrouted'';
          chat_key = py_or (strip (str_or_empty (sc_chat_id sc))) ''unknown''
      in if \<not> strict then (profile_key, chat_key, sc_user_key sc)
         else (profile_key, chat_key,
               join_sep SEP [sc_channel sc, sc_user_key sc, str_or_empty (sc_thread_id sc)]))"

definition build_session_scope ::
    "string option \<Rightarrow> string option \<Rightarrow> string option \<Rightarrow> string option \<Rightarrow> string option \<Rightarrow> int \<Rightarrow> bool
       \<Rightarrow> session_scope result" where
  "build_session_scope profile_name user_key channel chat_id thread_id route_version shared_history =
     SessionScope \<lparr>sc_profile_name = str_or_empty profile_name,
       sc_channel = str_or_empty channel,
       sc_user_key = str_or_empty user_key,
       sc_chat_id = or_none (str_or_empty chat_id),
       sc_thread_id = or_none (str_or_empty thread_id),
       sc_route_version = route_version,
       sc_shared_history = shared_history\<rparr>"

section \<open>Lemmas\<close>

lemma SessionScope_Inr: "SessionScope sc = Inr sc' \<longleftrightarrow>
    sc' = sc \<and> strip (sc_channel sc) \<noteq> [] \<and> strip (sc_user_key sc) \<noteq> []"
  by (auto simp: SessionScope_def)

lemma build_session_scope_Inr:
  assumes "build_session_scope p u c ch th v sh = Inr sc"
  shows "strip (sc_channel sc) \<noteq> []" "strip (sc_user_key sc) \<noteq> []"
    "sc_chat_id sc \<noteq> Some []" "sc_thread_id sc \<noteq> Some []"
  using assms by (auto simp: build_session_scope_def SessionScope_Inr or_none_def)

lemma str_or_empty_inj:
  "a \<noteq> Some [] \<Longrightarrow> b \<noteq> Some [] \<Longrightarrow> str_or_empty a = str_or_empty b \<Longrightarrow> a = b"
  by (auto simp: str_or_empty_def split: option.splits)

text \<open>The parts that the strict keys join hold no separator.\<close>

definition sep_free :: "session_scope \<Rightarrow> bool" where
  "sep_free sc \<longleftrightarrow> SEP \<notin> set (sc_channel sc) \<and> SEP \<notin> set (sc_user_key sc)
     \<and> SEP \<notin> set (str_or_empty (sc_chat_id sc)) \<and> SEP \<notin> set (str_or_empty (sc_thread_id sc))"

lemma SEP_int_str: "SEP \<notin> set (CHR ''v'' # int_str i)"
proof
  assume "SEP \<in> set (CHR ''v'' # int_str i)"
  then have "SEP \<in> insert (CHR ''v'') (insert (CHR ''-'') (set ''0123456789''))"
    using nat_str_digits by (fastforce simp: int_str_def split: if_splits)
  then show False by (simp add: SEP_def)
qed

lemma SEP_history_user: "sep_free sc \<Longrightarrow> SEP \<notin> set (history_user sc)"
  by (simp add: history_user_def sep_free_def SEP_def)

lemma strict_history_key_parts:
  assumes "sep_free a" "sep_free b" "history_key True a = history_key True b"
  shows "sc_profile_name a = sc_profile_name b \<and> sc_channel a = sc_channel b
    \<and> history_user a = history_user b
    \<and> str_or_empty (sc_chat_id a) = str_or_empty (sc_chat_id b)
    \<and> str_or_empty (sc_thread_id a) = str_or_empty (sc_thread_id b)
    \<and> sc_route_version a = sc_route_version b"
proof -
  let ?parts = "\<lambda>sc. [sc_channel sc, history_user sc, str_or_empty (sc_chat_id sc),
      str_or_empty (sc_thread_id sc), CHR ''v'' # int_str (sc_route_version sc)]"
  have "\<forall>x\<in>set (?parts a). SEP \<notin> set x" "\<forall>x\<in>set (?parts b). SEP \<notin> set x"
    using assms(1,2) SEP_int_str SEP_history_user by (auto simp: sep_free_def)
  moreover have "join_sep SEP (?parts a) = join_sep SEP (?parts b)"
    using assms(3) by (simp add: history_key_def)
  ultimately have "?parts a = ?parts b" by (intro join_sep_inj) auto
  then show ?thesis using assms(3) by (auto simp: history_key_def int_str_inj)
qed

section \<open>Properties\<close>

text \<open>C27. In strict mode the history key is injective: two scopes that
  \<open>build_session_scope\<close> accepts, with no separator in their parts, share a key exactly when
  they agree on profile, channel, chat, thread, route version and on whose history it is.
  So a DM, a group, a Web UI session and two threads never share one.\<close>

theorem strict_history_key_isolates:
  assumes "build_session_scope p u c ch th v sh = Inr a" "build_session_scope p' u' c' ch' th' v' sh' = Inr b"
    and "sep_free a" "sep_free b"
  shows "history_key True a = history_key True b \<longleftrightarrow>
    sc_profile_name a = sc_profile_name b \<and> sc_channel a = sc_channel b
    \<and> sc_chat_id a = sc_chat_id b \<and> sc_thread_id a = sc_thread_id b
    \<and> sc_route_version a = sc_route_version b \<and> history_user a = history_user b"
proof
  assume "history_key True a = history_key True b"
  with strict_history_key_parts [OF assms(3,4)]
    str_or_empty_inj [OF build_session_scope_Inr(3) [OF assms(1)] build_session_scope_Inr(3) [OF assms(2)]]
    str_or_empty_inj [OF build_session_scope_Inr(4) [OF assms(1)] build_session_scope_Inr(4) [OF assms(2)]]
  show "sc_profile_name a = sc_profile_name b \<and> sc_channel a = sc_channel b
    \<and> sc_chat_id a = sc_chat_id b \<and> sc_thread_id a = sc_thread_id b
    \<and> sc_route_version a = sc_route_version b \<and> history_user a = history_user b"
    by blast
qed (simp add: history_key_def)

theorem strict_history_key_isolates_witness:
  "\<exists>a b. build_session_scope (Some ''p'') (Some ''ou_1'') (Some ''feishu'') None None 1 False = Inr a
     \<and> build_session_scope (Some ''p'') (Some ''ou_1'') (Some ''webui'') None None 1 False = Inr b
     \<and> history_key True a \<noteq> history_key True b \<and> history_key False a = history_key False b"
proof -
  let ?a = "\<lparr>sc_profile_name = ''p'', sc_channel = ''feishu'', sc_user_key = ''ou_1'', sc_chat_id = None,
    sc_thread_id = None, sc_route_version = 1, sc_shared_history = False\<rparr>"
  let ?b = "?a\<lparr>sc_channel := ''webui''\<rparr>"
  have a: "build_session_scope (Some ''p'') (Some ''ou_1'') (Some ''feishu'') None None 1 False = Inr ?a"
    and b: "build_session_scope (Some ''p'') (Some ''ou_1'') (Some ''webui'') None None 1 False = Inr ?b"
    by (simp_all add: build_session_scope_def SessionScope_def str_or_empty_def or_none_def strip_def is_space_def)
  have "sep_free ?a" "sep_free ?b" by (simp_all add: sep_free_def SEP_def str_or_empty_def)
  from strict_history_key_isolates [OF a b this] have "history_key True ?a \<noteq> history_key True ?b" by simp
  with a b show ?thesis by (intro exI [of _ ?a] exI [of _ ?b]) (simp add: history_key_def)
qed

end
