(* ===== verification/Profile_Runtime.thy ===== *)
theory Profile_Runtime
  imports Session_Scope
begin

text \<open>
  Profile dispatch (\<open>src/hermes_multitenancy/runtime.py\<close>): many dispatches share one process
  environment variable \<open>HERMES_HOME\<close> behind an asyncio lock, and each has its own ContextVar.
  A dispatch suspends only while it waits for the lock and while it awaits its shielded
  runner, so the transitions below are the code between those points. A cancelled dispatch
  asks its runner to stop and leaves without waiting for it. The runners do not write
  \<open>HERMES_HOME\<close> themselves.
\<close>

section \<open>Policy switches\<close>

definition truthy_env :: "string option \<Rightarrow> bool" where
  "truthy_env env \<longleftrightarrow> lower (strip (str_or_empty env)) \<in> set [''1'', ''true'', ''yes'', ''on'']"

definition require_sandbox_enabled :: "string option \<Rightarrow> bool" where
  "require_sandbox_enabled env = truthy_env env"

text \<open>The arguments are \<open>HERMES_USE_SANDBOX\<close> and \<open>HERMES_SANDBOX_PROFILES\<close>.\<close>

definition sandbox_profile_enabled :: "string option \<Rightarrow> string option \<Rightarrow> string \<Rightarrow> bool" where
  "sandbox_profile_enabled use profiles profile_name =
     (if use \<noteq> Some ''1'' then False
      else let allowlist = filter (\<lambda>i. i \<noteq> []) (map strip (split_on CHR '','' (str_or_empty profiles)))
           in allowlist = [] \<or> profile_name \<in> set allowlist)"

section \<open>Dispatch\<close>

text \<open>\<open>Entered original\<close>: holds the lock, \<open>original\<close> being the value to restore.\<close>

datatype dispatch_phase = Waiting | Entered "string option" | Left

record dispatch_task =
  dt_profile_home :: string
  dt_token :: "string option"
  dt_ctx :: "string option"
  dt_phase :: dispatch_phase

record runner_task =
  rn_home :: string
  rn_ctx :: "string option"
  rn_cancelling :: bool
  rn_done :: bool

record rt_state =
  rt_env :: "string option"
  rt_lock :: "nat option"
  rt_dispatch :: "nat \<Rightarrow> dispatch_task option"
  rt_runner :: "nat \<Rightarrow> runner_task option"

definition rt_init :: "string option \<Rightarrow> rt_state" where
  "rt_init env = \<lparr>rt_env = env, rt_lock = None, rt_dispatch = (\<lambda>_. None), rt_runner = (\<lambda>_. None)\<rparr>"

text \<open>\<open>_PROFILE_HOME_VAR.set\<close>, up to the wait for the lock. \<open>ctx\<close> is the caller's value.\<close>

definition dispatch_begin :: "nat \<Rightarrow> string \<Rightarrow> string option \<Rightarrow> rt_state \<Rightarrow> rt_state" where
  "dispatch_begin i home ctx s =
     s\<lparr>rt_dispatch := (rt_dispatch s)(i \<mapsto> \<lparr>dt_profile_home = home, dt_token = ctx, dt_ctx = Some home, dt_phase = Waiting\<rparr>)\<rparr>"

text \<open>From the acquired lock to the await of the runner, which inherits a copy of the context.\<close>

definition dispatch_enter :: "nat \<Rightarrow> dispatch_task \<Rightarrow> rt_state \<Rightarrow> rt_state" where
  "dispatch_enter i d s =
     s\<lparr>rt_lock := Some i,
       rt_env := Some (dt_profile_home d),
       rt_dispatch := (rt_dispatch s)(i \<mapsto> d\<lparr>dt_phase := Entered (rt_env s)\<rparr>),
       rt_runner := (rt_runner s)(i \<mapsto> \<lparr>rn_home = dt_profile_home d, rn_ctx = dt_ctx d,
                                        rn_cancelling = False, rn_done = False\<rparr>)\<rparr>"

text \<open>The two \<open>finally\<close> blocks and the exit of \<open>async with\<close>.\<close>

definition dispatch_leave :: "nat \<Rightarrow> dispatch_task \<Rightarrow> rt_state \<Rightarrow> rt_state" where
  "dispatch_leave i d s =
     (case dt_phase d of
        Entered original \<Rightarrow>
          s\<lparr>rt_env := original, rt_lock := None,
            rt_dispatch := (rt_dispatch s)(i \<mapsto> d\<lparr>dt_ctx := dt_token d, dt_phase := Left\<rparr>)\<rparr>
      | _ \<Rightarrow> s\<lparr>rt_dispatch := (rt_dispatch s)(i \<mapsto> d\<lparr>dt_ctx := dt_token d, dt_phase := Left\<rparr>)\<rparr>)"

text \<open>\<open>runner_task.cancel()\<close>: a request, seen by the runner when it next suspends.\<close>

definition cancel_runner :: "nat \<Rightarrow> rt_state \<Rightarrow> rt_state" where
  "cancel_runner i s =
     s\<lparr>rt_runner := (rt_runner s)(i := map_option (\<lambda>r. if rn_done r then r else r\<lparr>rn_cancelling := True\<rparr>) (rt_runner s i))\<rparr>"

definition runner_end :: "nat \<Rightarrow> runner_task \<Rightarrow> rt_state \<Rightarrow> rt_state" where
  "runner_end i r s = s\<lparr>rt_runner := (rt_runner s)(i \<mapsto> r\<lparr>rn_done := True\<rparr>)\<rparr>"

inductive rt_step :: "rt_state \<Rightarrow> rt_state \<Rightarrow> bool" where
  Begin: "rt_dispatch s i = None \<Longrightarrow> rt_step s (dispatch_begin i home ctx s)"
| Enter: "rt_dispatch s i = Some d \<Longrightarrow> dt_phase d = Waiting \<Longrightarrow> rt_lock s = None
    \<Longrightarrow> rt_step s (dispatch_enter i d s)"
| RunnerEnd: "rt_runner s i = Some r \<Longrightarrow> \<not> rn_done r \<Longrightarrow> rt_step s (runner_end i r s)"
| Return: "rt_dispatch s i = Some d \<Longrightarrow> dt_phase d = Entered original \<Longrightarrow> rt_runner s i = Some r
    \<Longrightarrow> rn_done r \<Longrightarrow> rt_step s (dispatch_leave i d s)"
| CancelWaiting: "rt_dispatch s i = Some d \<Longrightarrow> dt_phase d = Waiting \<Longrightarrow> rt_step s (dispatch_leave i d s)"
| CancelEntered: "rt_dispatch s i = Some d \<Longrightarrow> dt_phase d = Entered original
    \<Longrightarrow> rt_step s (dispatch_leave i d (cancel_runner i s))"

inductive_cases rt_stepE: "rt_step s s'"

inductive rt_reachable :: "string option \<Rightarrow> rt_state \<Rightarrow> bool" for env where
  rt_start: "rt_reachable env (rt_init env)"
| rt_next: "rt_reachable env s \<Longrightarrow> rt_step s s' \<Longrightarrow> rt_reachable env s'"

text \<open>Spike routes, kept for the demos: a dict from \<open>open_id\<close> to a profile home.\<close>

definition add_spike_route :: "string \<Rightarrow> string \<Rightarrow> (string \<Rightarrow> string option) \<Rightarrow> (string \<Rightarrow> string option)" where
  "add_spike_route open_id home m = m(open_id \<mapsto> home)"

definition clear_spike_routes :: "(string \<Rightarrow> string option) \<Rightarrow> (string \<Rightarrow> string option)" where
  "clear_spike_routes m = (\<lambda>_. None)"

definition resolve_profile_home :: "(string \<Rightarrow> string option) \<Rightarrow> string \<Rightarrow> string option" where
  "resolve_profile_home m open_id = m open_id"

section \<open>Invariant\<close>

text \<open>Only the lock holder is inside, with its own home in the environment and the
  environment from before the first dispatch saved.\<close>

definition env_inv :: "string option \<Rightarrow> rt_state \<Rightarrow> bool" where
  "env_inv env s \<longleftrightarrow>
     (case rt_lock s of
        None \<Rightarrow> rt_env s = env \<and> (\<forall>i d. rt_dispatch s i = Some d \<longrightarrow> dt_phase d = Waiting \<or> dt_phase d = Left)
      | Some i \<Rightarrow> \<exists>d r. rt_dispatch s i = Some d \<and> dt_phase d = Entered env \<and> rt_runner s i = Some r
          \<and> rt_env s = Some (dt_profile_home d)
          \<and> (\<forall>j e. j \<noteq> i \<longrightarrow> rt_dispatch s j = Some e \<longrightarrow> dt_phase e = Waiting \<or> dt_phase e = Left))"

text \<open>One dispatch and its runner: the ContextVar copies, and a runner outlives its dispatch
  only after a cancellation request.\<close>

definition ctx_at :: "dispatch_task option \<Rightarrow> runner_task option \<Rightarrow> bool" where
  "ctx_at dopt ropt =
     (case (dopt, ropt) of
        (None, None) \<Rightarrow> True
      | (None, Some r) \<Rightarrow> False
      | (Some d, None) \<Rightarrow> (dt_phase d = Left \<or> dt_ctx d = Some (dt_profile_home d)) \<and> (\<forall>x. dt_phase d \<noteq> Entered x)
      | (Some d, Some r) \<Rightarrow> (dt_phase d = Left \<or> dt_ctx d = Some (dt_profile_home d))
          \<and> rn_ctx r = Some (rn_home r) \<and> rn_home r = dt_profile_home d \<and> dt_phase d \<noteq> Waiting
          \<and> (dt_phase d = Left \<longrightarrow> rn_done r \<or> rn_cancelling r))"

definition ctx_inv :: "rt_state \<Rightarrow> bool" where
  "ctx_inv s \<longleftrightarrow> (\<forall>i. ctx_at (rt_dispatch s i) (rt_runner s i))"

lemmas rt_ops = dispatch_begin_def dispatch_enter_def dispatch_leave_def cancel_runner_def runner_end_def

lemma env_inv_entered:
  assumes "env_inv env s" "rt_dispatch s i = Some d" "dt_phase d = Entered original"
  shows "rt_lock s = Some i \<and> original = env \<and> rt_env s = Some (dt_profile_home d) \<and> rt_runner s i \<noteq> None
    \<and> (\<forall>j e. j \<noteq> i \<longrightarrow> rt_dispatch s j = Some e \<longrightarrow> dt_phase e = Waiting \<or> dt_phase e = Left)"
proof (cases "rt_lock s")
  case None
  with assms(1,2) have "dt_phase d = Waiting \<or> dt_phase d = Left" by (simp add: env_inv_def)
  with assms(3) show ?thesis by simp
next
  case (Some j)
  have "j \<noteq> i \<Longrightarrow> dt_phase d = Waiting \<or> dt_phase d = Left"
    using Some assms(1,2) by (auto simp: env_inv_def)
  with assms(3) have "j = i" by auto
  with Some assms show ?thesis by (auto simp: env_inv_def)
qed

lemma env_inv_leave:
  assumes "env_inv env s" "rt_dispatch s i = Some d" "dt_phase d = Entered original"
  shows "env_inv env (dispatch_leave i d s)" "env_inv env (dispatch_leave i d (cancel_runner i s))"
  using env_inv_entered [OF assms] assms(3)
  by (simp_all add: env_inv_def dispatch_leave_def cancel_runner_def)

lemma env_inv_step:
  assumes "rt_step s s'" "env_inv env s"
  shows "env_inv env s'"
  using assms
  by cases (auto simp: env_inv_leave, auto simp: env_inv_def rt_ops split: option.splits)

lemma ctx_inv_step:
  assumes "rt_step s s'" "ctx_inv s"
  shows "ctx_inv s'"
  unfolding ctx_inv_def
proof
  fix j
  have at: "ctx_at (rt_dispatch s i) (rt_runner s i)" for i
    using assms(2) by (simp add: ctx_inv_def)
  from assms(1) show "ctx_at (rt_dispatch s' j) (rt_runner s' j)"
  proof cases
    case (Begin i home ctx)
    with at [of i] at [of j] show ?thesis
      by (auto simp: rt_ops ctx_at_def split: option.splits)
  next
    case (Enter i d)
    with at [of i] at [of j] show ?thesis
      by (auto simp: rt_ops ctx_at_def split: option.splits)
  next
    case (RunnerEnd i r)
    with at [of i] at [of j] show ?thesis
      by (auto simp: rt_ops ctx_at_def split: option.splits)
  next
    case (Return i d original r)
    with at [of i] at [of j] show ?thesis
      by (auto simp: rt_ops ctx_at_def split: option.splits)
  next
    case (CancelWaiting i d)
    with at [of i] at [of j] show ?thesis
      by (auto simp: rt_ops ctx_at_def split: option.splits)
  next
    case (CancelEntered i d original)
    with at [of i] at [of j] show ?thesis
      by (auto simp: rt_ops ctx_at_def split: option.splits)
  qed
qed

lemma rt_reachable_inv:
  assumes "rt_reachable env s"
  shows "env_inv env s \<and> ctx_inv s"
  using assms
proof induction
  case rt_start
  show ?case by (simp add: rt_init_def env_inv_def ctx_inv_def ctx_at_def)
next
  case (rt_next s s')
  then show ?case by (blast intro: env_inv_step ctx_inv_step)
qed

section \<open>Properties\<close>

text \<open>C29. In every interleaving of dispatches, cancellations and runner completions: the
  environment is back to its original value whenever the lock is free; every runner whose
  dispatch is still inside sees its own home in \<open>HERMES_HOME\<close>; every runner, even a
  cancelled one, sees its own home in the ContextVar; and a live runner can see a foreign
  \<open>HERMES_HOME\<close> only after its dispatch was cancelled.\<close>

theorem runners_see_their_home:
  assumes "rt_reachable env s"
  shows "(rt_lock s = None \<longrightarrow> rt_env s = env)
    \<and> (\<forall>i d r x. rt_dispatch s i = Some d \<and> dt_phase d = Entered x \<and> rt_runner s i = Some r
         \<longrightarrow> rt_env s = Some (rn_home r) \<and> rn_home r = dt_profile_home d)
    \<and> (\<forall>i r. rt_runner s i = Some r \<longrightarrow> rn_ctx r = Some (rn_home r)
         \<and> (\<not> rn_done r \<and> rt_env s \<noteq> Some (rn_home r) \<longrightarrow> rn_cancelling r))"
proof -
  have inv: "env_inv env s" and at: "ctx_at (rt_dispatch s i) (rt_runner s i)" for i
    using rt_reachable_inv [OF assms] by (auto simp: ctx_inv_def)
  have entered: "rt_env s = Some (rn_home r) \<and> rn_home r = dt_profile_home d"
    if "rt_dispatch s i = Some d" "dt_phase d = Entered x" "rt_runner s i = Some r" for i d r x
    using env_inv_entered [OF inv that(1,2)] at [of i] that by (simp add: ctx_at_def)
  have "rn_ctx r = Some (rn_home r) \<and> (\<not> rn_done r \<and> rt_env s \<noteq> Some (rn_home r) \<longrightarrow> rn_cancelling r)"
    if r: "rt_runner s i = Some r" for i r
  proof -
    obtain d where d: "rt_dispatch s i = Some d"
      using at [of i] r by (auto simp: ctx_at_def split: option.splits)
    show ?thesis
      using at [of i] r d entered [OF d _ r] by (cases "dt_phase d") (auto simp: ctx_at_def)
  qed
  moreover have "rt_lock s = None \<longrightarrow> rt_env s = env" using inv by (auto simp: env_inv_def)
  ultimately show ?thesis using entered by blast
qed

lemma reach_begin: "rt_reachable env s \<Longrightarrow> rt_dispatch s i = None \<Longrightarrow> rt_reachable env (dispatch_begin i home ctx s)"
  by (rule rt_next [OF _ Begin])

lemma reach_enter:
  "rt_reachable env s \<Longrightarrow> rt_dispatch s i = Some d \<Longrightarrow> dt_phase d = Waiting \<Longrightarrow> rt_lock s = None
     \<Longrightarrow> rt_reachable env (dispatch_enter i d s)"
  by (rule rt_next [OF _ Enter])

text \<open>Two dispatches, the first inside, and the same after the first was cancelled.\<close>

definition two_dispatches :: rt_state where
  "two_dispatches = dispatch_begin 2 ''/b'' None (dispatch_enter 1
     \<lparr>dt_profile_home = ''/a'', dt_token = None, dt_ctx = Some ''/a'', dt_phase = Waiting\<rparr>
     (dispatch_begin 1 ''/a'' None (rt_init None)))"

lemma two_dispatches_reachable: "rt_reachable None two_dispatches"
  unfolding two_dispatches_def
  by (intro reach_begin reach_enter rt_start) (simp_all add: rt_ops rt_init_def)

theorem runners_see_their_home_witness:
  "rt_reachable None two_dispatches \<and> rt_env two_dispatches = Some ''/a''
    \<and> map_option rn_ctx (rt_runner two_dispatches 1) = Some (Some ''/a'')"
  using two_dispatches_reachable runners_see_their_home [OF two_dispatches_reachable]
  by (simp add: two_dispatches_def rt_ops rt_init_def)

text \<open>The lock does not cover a cancelled runner: a state is reachable in which a runner
  is still running (asked to stop, not done) while another dispatch holds the lock and
  \<open>HERMES_HOME\<close> names the other profile.\<close>

lemma detached_runner_sees_other_home:
  "\<exists>s r. rt_reachable None s \<and> rt_runner s 1 = Some r \<and> \<not> rn_done r \<and> rn_home r = ''/a''
     \<and> rt_lock s = Some 2 \<and> rt_env s = Some ''/b''"
proof -
  let ?d = "\<lparr>dt_profile_home = ''/a'', dt_token = None, dt_ctx = Some ''/a'', dt_phase = Entered None\<rparr>"
  let ?e = "\<lparr>dt_profile_home = ''/b'', dt_token = None, dt_ctx = Some ''/b'', dt_phase = Waiting\<rparr>"
  let ?s = "dispatch_leave 1 ?d (cancel_runner 1 two_dispatches)"
  have "rt_reachable None ?s"
    by (rule rt_next [OF two_dispatches_reachable CancelEntered])
      (simp_all add: two_dispatches_def rt_ops rt_init_def)
  then have "rt_reachable None (dispatch_enter 2 ?e ?s)"
    by (rule reach_enter) (simp_all add: two_dispatches_def rt_ops rt_init_def)
  then show ?thesis
    by (intro exI [of _ "dispatch_enter 2 ?e ?s"]) (simp add: two_dispatches_def rt_ops rt_init_def)
qed

end
