(* ===== verification/Routing_Table.thy ===== *)
theory Routing_Table
  imports Hermes_Prelude
begin

text \<open>
  The routing table (\<open>src/hermes_multitenancy/routing.py\<close>, class \<open>RoutingTable\<close>): who a sender
  or a chat is, and which profile serves it. Every method holds the table's lock and is one
  transaction, so it is one function of the tables; the clock is an argument. A statement
  that breaks a UNIQUE index is \<open>IntegrityError\<close> and changes nothing.
\<close>

section \<open>Data\<close>

record routing_row =
  r_user_id :: string
  r_profile_name :: string
  r_open_id :: "string option"
  r_union_id :: "string option"
  r_active :: bool
  r_deleted_at :: "int option"
  r_synced_at :: int
  r_version :: int
  r_last_active_at :: "int option"
  r_created_at :: int
  r_updated_at :: int
  r_kind :: string
  r_chat_id :: "string option"
  r_owner_open_id :: "string option"
  r_display_label :: "string option"
  r_agent_id :: "string option"
  r_provenance :: string
  r_upstream_profile :: "string option"

type_synonym routes = "routing_row list"

record tenant_context =
  tc_profile_name :: string
  tc_open_id :: "string option"
  tc_union_id :: "string option"
  tc_user_key :: string
  tc_kind :: string
  tc_chat_id :: "string option"
  tc_owner_open_id :: "string option"
  tc_route_version :: int

definition KIND_USER :: string where "KIND_USER = ''user''"
definition KIND_GROUP :: string where "KIND_GROUP = ''group''"
definition KIND_AGENT :: string where "KIND_AGENT = ''agent''"

definition is_group :: "tenant_context \<Rightarrow> bool" where
  "is_group c \<longleftrightarrow> tc_kind c = KIND_GROUP"

text \<open>The row predicates of the SELECTs.\<close>

abbreviation active_user :: "routing_row \<Rightarrow> bool" where
  "active_user r \<equiv> r_active r \<and> r_kind r = KIND_USER"

abbreviation active_group :: "routing_row \<Rightarrow> bool" where
  "active_group r \<equiv> r_active r \<and> r_kind r = KIND_GROUP"

abbreviation sync_root :: "routing_row \<Rightarrow> bool" where
  "sync_root r \<equiv> active_user r \<and> r_provenance r = ''sync''"

text \<open>The primary key and the three UNIQUE indexes.\<close>

definition indexes_ok :: "routes \<Rightarrow> bool" where
  "indexes_ok t \<longleftrightarrow> distinct (map r_user_id t) \<and> unique_index sync_root r_open_id t
     \<and> unique_index active_group r_chat_id t \<and> unique_index r_active r_agent_id t"

definition write_routes :: "routes \<Rightarrow> routes result" where
  "write_routes t = (if indexes_ok t then Inr t else Inl IntegrityError)"

section \<open>Reads\<close>

definition active_user_identity :: "routes \<Rightarrow> string \<Rightarrow> (string \<times> string) option" where
  "active_user_identity t user_id =
     (case fetchone (filter (\<lambda>r. r_user_id r = user_id \<and> active_user r) t) of
        None \<Rightarrow> None
      | Some r \<Rightarrow> (case r_open_id r of None \<Rightarrow> None
                   | Some oid \<Rightarrow> if oid = [] then None else Some (r_profile_name r, oid)))"

definition lookup_by_open_id :: "routes \<Rightarrow> string \<Rightarrow> routing_row option" where
  "lookup_by_open_id t open_id = fetch_unique (filter (\<lambda>r. r_open_id r = Some open_id \<and> active_user r) t)"

definition lookup_by_union_id :: "routes \<Rightarrow> string \<Rightarrow> routing_row option" where
  "lookup_by_union_id t union_id = fetch_unique (filter (\<lambda>r. r_union_id r = Some union_id \<and> active_user r) t)"

definition lookup_users_by_union_id :: "routes \<Rightarrow> string \<Rightarrow> routes" where
  "lookup_users_by_union_id t union_id = filter (\<lambda>r. r_union_id r = Some union_id \<and> sync_root r) t"

definition lookup_by_user_id :: "routes \<Rightarrow> string \<Rightarrow> routing_row option" where
  "lookup_by_user_id t user_id = fetchone (filter (\<lambda>r. r_user_id r = user_id \<and> r_active r) t)"

definition lookup_agent :: "routes \<Rightarrow> string \<Rightarrow> routing_row option" where
  "lookup_agent t agent_id = fetchone (filter (\<lambda>r. r_agent_id r = Some agent_id \<and> r_active r) t)"

definition sync_rank :: "routing_row \<Rightarrow> int" where
  "sync_rank r = (if r_provenance r = ''sync'' then 1 else 0)"

definition lookup_by_profile_name :: "routes \<Rightarrow> string \<Rightarrow> routing_row option" where
  "lookup_by_profile_name t profile_name =
     fetchone (order_by_desc sync_rank (order_by_desc r_updated_at
       (filter (\<lambda>r. r_profile_name r = profile_name \<and> r_active r) t)))"

definition lookup_by_chat_id :: "routes \<Rightarrow> string \<Rightarrow> routing_row option" where
  "lookup_by_chat_id t chat_id = fetch_unique (filter (\<lambda>r. r_chat_id r = Some chat_id \<and> active_group r) t)"

text \<open>\<open>a or b\<close> on optional rows.\<close>

definition row_or :: "'r option \<Rightarrow> 'r option \<Rightarrow> 'r option" where
  "row_or a b = (case a of None \<Rightarrow> b | Some r \<Rightarrow> Some r)"

definition resolve_context ::
    "routes \<Rightarrow> string option \<Rightarrow> string option \<Rightarrow> string option \<Rightarrow> tenant_context option" where
  "resolve_context t sender alt_id chat_id =
     (let sender_key = strip (str_or_empty sender);
          known = sender_key \<noteq> [] \<and> sender_key \<noteq> ''unknown'';
          by_chat = (if str_or_empty chat_id \<noteq> [] then lookup_by_chat_id t (str_or_empty chat_id) else None);
          by_sender = (if by_chat = None \<and> known
                       then row_or (lookup_by_open_id t sender_key) (lookup_by_union_id t sender_key)
                       else by_chat);
          alt_key = strip (str_or_empty alt_id);
          row = (if by_sender = None \<and> alt_key \<noteq> [] then lookup_by_user_id t alt_key else by_sender)
      in case row of
           None \<Rightarrow> None
         | Some r \<Rightarrow>
             if \<not> r_active r then None
             else Some \<lparr>tc_profile_name = r_profile_name r, tc_open_id = r_open_id r, tc_union_id = r_union_id r,
               tc_user_key = py_or (py_or (py_or (if known then sender_key else []) (str_or_empty (r_open_id r)))
                   (r_user_id r)) (py_or alt_key ''unknown''),
               tc_kind = r_kind r,
               tc_chat_id = or_none (py_or (str_or_empty (r_chat_id r)) (str_or_empty chat_id)),
               tc_owner_open_id = r_owner_open_id r,
               tc_route_version = r_version r\<rparr>)"

definition resolve_billing_root :: "routes \<Rightarrow> string \<Rightarrow> string \<Rightarrow> routing_row option" where
  "resolve_billing_root t employee_id profile_name =
     (case fetch_unique (filter (\<lambda>r. r_active r \<and> (r_user_id r = employee_id \<or> r_profile_name r = profile_name)) t) of
        None \<Rightarrow> None
      | Some r \<Rightarrow>
          if r_user_id r \<noteq> employee_id \<or> r_profile_name r \<noteq> profile_name \<or> r_kind r \<noteq> KIND_USER
             \<or> r_provenance r \<noteq> ''sync'' \<or> str_or_empty (r_open_id r) = []
          then None
          else if fetch_unique (filter (\<lambda>q. sync_root q \<and> r_open_id q = r_open_id r) t) \<noteq> None then Some r else None)"

definition resolve_owner_root :: "routes \<Rightarrow> string \<Rightarrow> routing_row option" where
  "resolve_owner_root t open_id = fetchone (filter (\<lambda>r. r_open_id r = Some open_id \<and> sync_root r) t)"

definition list_by_owner :: "routes \<Rightarrow> string \<Rightarrow> string option \<Rightarrow> routes" where
  "list_by_owner t owner kind =
     order_by_desc sync_rank (order_by r_created_at
       (filter (\<lambda>r. r_owner_open_id r = Some owner \<and> r_active r
          \<and> (case kind of None \<Rightarrow> True | Some k \<Rightarrow> r_kind r = k)) t))"

definition list_agents_for_owner :: "routes \<Rightarrow> string \<Rightarrow> routes" where
  "list_agents_for_owner t open_id = list_by_owner t open_id None"

definition count_active :: "routes \<Rightarrow> string option \<Rightarrow> string option \<Rightarrow> nat" where
  "count_active t kind provenance =
     rowcount (\<lambda>r. r_active r \<and> (case kind of None \<Rightarrow> True | Some k \<Rightarrow> r_kind r = k)
        \<and> (case provenance of None \<Rightarrow> True | Some p \<Rightarrow> r_provenance r = p)) t"

section \<open>Writes\<close>

definition touch_active :: "int \<Rightarrow> routes \<Rightarrow> string \<Rightarrow> routes" where
  "touch_active now t open_id =
     sql_update (\<lambda>r. r_open_id r = Some open_id \<and> active_user r) (\<lambda>r. r\<lparr>r_last_active_at := Some now\<rparr>) t"

definition touch_active_group :: "int \<Rightarrow> routes \<Rightarrow> string \<Rightarrow> routes" where
  "touch_active_group now t chat_id =
     sql_update (\<lambda>r. r_chat_id r = Some chat_id \<and> active_group r) (\<lambda>r. r\<lparr>r_last_active_at := Some now\<rparr>) t"

text \<open>A row with every column that the INSERT leaves out at its default.\<close>

definition blank_row :: "int \<Rightarrow> string \<Rightarrow> string \<Rightarrow> routing_row" where
  "blank_row now user_id profile_name =
     \<lparr>r_user_id = user_id, r_profile_name = profile_name, r_open_id = None, r_union_id = None, r_active = True,
      r_deleted_at = None, r_synced_at = now, r_version = 1, r_last_active_at = None, r_created_at = now,
      r_updated_at = now, r_kind = KIND_USER, r_chat_id = None, r_owner_open_id = None, r_display_label = None,
      r_agent_id = None, r_provenance = ''auto'', r_upstream_profile = None\<rparr>"

text \<open>The columns that all three upserts refresh on the conflicting row.\<close>

definition refresh :: "int \<Rightarrow> string \<Rightarrow> routing_row \<Rightarrow> routing_row" where
  "refresh now profile_name r =
     r\<lparr>r_profile_name := profile_name, r_active := True, r_deleted_at := None, r_synced_at := now,
       r_version := r_version r + 1, r_updated_at := now\<rparr>"

definition upsert_set :: "int \<Rightarrow> string \<Rightarrow> string \<Rightarrow> string option \<Rightarrow> string \<Rightarrow> routing_row \<Rightarrow> routing_row" where
  "upsert_set now profile_name open_id union_id provenance r =
     (refresh now profile_name r)\<lparr>r_open_id := Some open_id, r_union_id := union_id, r_kind := KIND_USER, r_provenance := provenance\<rparr>"

definition upsert_new ::
    "int \<Rightarrow> string \<Rightarrow> string \<Rightarrow> string \<Rightarrow> string option \<Rightarrow> string \<Rightarrow> routing_row" where
  "upsert_new now user_id profile_name open_id union_id provenance =
     (blank_row now user_id profile_name)\<lparr>r_open_id := Some open_id, r_union_id := union_id, r_provenance := provenance\<rparr>"

text \<open>The transaction inside \<open>upsert\<close>.\<close>

definition upsert_txn ::
    "int \<Rightarrow> routes \<Rightarrow> string \<Rightarrow> string \<Rightarrow> string \<Rightarrow> string option \<Rightarrow> string \<Rightarrow> (routes \<times> unit) result" where
  "upsert_txn now t user_id profile_name open_id union_id provenance =
     (case write_routes (sql_upsert (\<lambda>r. r_user_id r = user_id)
         (upsert_new now user_id profile_name open_id union_id provenance)
         (upsert_set now profile_name open_id union_id provenance) t) of
        Inl e \<Rightarrow> Inl e | Inr t' \<Rightarrow> Inr (t', ()))"

text \<open>
  The retry loop of \<open>upsert\<close> and \<open>soft_delete\<close> around a transaction. \<open>interf n\<close> is what
  other processes commit between the identity read and \<open>BEGIN IMMEDIATE\<close> with \<open>n\<close> attempts
  left after this one, and \<open>lock_ok\<close> whether the credential locks for a list of identities
  are obtained in time. The success value carries the identities that were locked.
\<close>

definition RETRY_LIMIT :: nat where "RETRY_LIMIT = 5"

fun identity_fenced ::
    "nat \<Rightarrow> (nat \<Rightarrow> routes \<Rightarrow> routes) \<Rightarrow> ((string \<times> string) list \<Rightarrow> bool) \<Rightarrow> string \<Rightarrow> (string \<times> string) list
      \<Rightarrow> (routes \<Rightarrow> (routes \<times> 'b) result) \<Rightarrow> routes \<Rightarrow> routes \<times> ('b \<times> (string \<times> string) list) result" where
  "identity_fenced 0 interf lock_ok user_id new_ids txn t = (t, Inl RouteIdentityConflictError)"
| "identity_fenced (Suc n) interf lock_ok user_id new_ids txn t =
     (let previous = active_user_identity t user_id;
          locked = new_ids @ (case previous of None \<Rightarrow> [] | Some i \<Rightarrow> [i]);
          t' = interf n t
      in if \<not> lock_ok locked then (t', Inl CredentialIdentityLockTimeout)
         else if active_user_identity t' user_id \<noteq> previous
              then identity_fenced n interf lock_ok user_id new_ids txn t'
              else (case txn t' of Inl e \<Rightarrow> (t', Inl e) | Inr (t'', b) \<Rightarrow> (t'', Inr (b, locked))))"

definition upsert ::
    "(nat \<Rightarrow> routes \<Rightarrow> routes) \<Rightarrow> ((string \<times> string) list \<Rightarrow> bool) \<Rightarrow> int \<Rightarrow> routes \<Rightarrow> string \<Rightarrow> string \<Rightarrow> string
      \<Rightarrow> string option \<Rightarrow> string \<Rightarrow> routes \<times> (unit \<times> (string \<times> string) list) result" where
  "upsert interf lock_ok now t user_id profile_name open_id union_id provenance =
     identity_fenced RETRY_LIMIT interf lock_ok user_id [(profile_name, open_id)]
       (\<lambda>t. upsert_txn now t user_id profile_name open_id union_id provenance) t"

definition group_user_id :: "string \<Rightarrow> string" where
  "group_user_id chat_id = ''group:'' @ chat_id"

text \<open>The profile of the owner's sync root, as the correlated subquery reads it.\<close>

definition root_profile :: "routes \<Rightarrow> string \<Rightarrow> string option" where
  "root_profile t owner = map_option r_profile_name (resolve_owner_root t owner)"

definition group_set ::
    "int \<Rightarrow> string \<Rightarrow> string \<Rightarrow> string \<Rightarrow> string option \<Rightarrow> string option \<Rightarrow> routing_row \<Rightarrow> routing_row" where
  "group_set now chat_id profile_name owner label upstream r =
     (refresh now profile_name r)\<lparr>r_chat_id := Some chat_id,
       r_owner_open_id := coalesce (nullif (r_owner_open_id r) []) (Some owner),
       r_display_label := coalesce label (r_display_label r),
       r_kind := KIND_GROUP,
       r_agent_id := coalesce (r_agent_id r) (Some (group_user_id chat_id)),
       r_provenance := ''group'',
       r_upstream_profile := coalesce (r_upstream_profile r) upstream,
       r_open_id := Some [], r_union_id := None\<rparr>"

definition group_new ::
    "int \<Rightarrow> string \<Rightarrow> string \<Rightarrow> string \<Rightarrow> string option \<Rightarrow> string option \<Rightarrow> routing_row" where
  "group_new now chat_id profile_name owner label upstream =
     (blank_row now (group_user_id chat_id) profile_name)\<lparr>r_open_id := Some [], r_kind := KIND_GROUP,
       r_chat_id := Some chat_id, r_owner_open_id := Some owner, r_display_label := label,
       r_agent_id := Some (group_user_id chat_id), r_provenance := ''group'', r_upstream_profile := upstream\<rparr>"

definition upsert_group ::
    "int \<Rightarrow> routes \<Rightarrow> string \<Rightarrow> string \<Rightarrow> string \<Rightarrow> string option \<Rightarrow> string option \<Rightarrow> (routes \<times> string) result" where
  "upsert_group now t chat_id profile_name owner label upstream =
     (if chat_id = [] then Inl (ValueError ''chat_id is required for group routing rows'')
      else if owner = [] then Inl (ValueError ''owner_open_id is required for group routing rows'')
      else let up = coalesce upstream (root_profile t owner) in
        (case write_routes (sql_upsert (\<lambda>r. r_user_id r = group_user_id chat_id)
                 (group_new now chat_id profile_name owner label up)
                 (group_set now chat_id profile_name owner label up) t) of
           Inl e \<Rightarrow> Inl e | Inr t' \<Rightarrow> Inr (t', group_user_id chat_id)))"

definition agent_set ::
    "int \<Rightarrow> string \<Rightarrow> string \<Rightarrow> string \<Rightarrow> string option \<Rightarrow> string option \<Rightarrow> routing_row \<Rightarrow> routing_row" where
  "agent_set now agent_id profile_name owner label upstream r =
     (refresh now profile_name r)\<lparr>r_open_id := Some agent_id, r_union_id := None, r_kind := KIND_AGENT,
       r_chat_id := None,
       r_owner_open_id := coalesce (nullif (r_owner_open_id r) []) (Some owner),
       r_display_label := coalesce label (r_display_label r),
       r_agent_id := Some agent_id, r_provenance := ''webui-agent'',
       r_upstream_profile := coalesce upstream (r_upstream_profile r)\<rparr>"

definition agent_new ::
    "int \<Rightarrow> string \<Rightarrow> string \<Rightarrow> string \<Rightarrow> string option \<Rightarrow> string option \<Rightarrow> routing_row" where
  "agent_new now agent_id profile_name owner label upstream =
     (blank_row now agent_id profile_name)\<lparr>r_open_id := Some agent_id, r_kind := KIND_AGENT,
       r_owner_open_id := Some owner, r_display_label := label, r_agent_id := Some agent_id,
       r_provenance := ''webui-agent'', r_upstream_profile := upstream\<rparr>"

definition upsert_owned_agent ::
    "int \<Rightarrow> routes \<Rightarrow> string \<Rightarrow> string \<Rightarrow> string \<Rightarrow> string option \<Rightarrow> string option \<Rightarrow> (routes \<times> string) result" where
  "upsert_owned_agent now t agent_id profile_name owner label upstream =
     (if agent_id = [] then Inl (ValueError ''agent_id is required for agent routing rows'')
      else if owner = [] then Inl (ValueError ''owner_open_id is required for agent routing rows'')
      else if (case lookup_agent t agent_id of None \<Rightarrow> False | Some r \<Rightarrow> r_owner_open_id r \<noteq> Some owner)
           then Inl (ValueError ''agent_id does not belong to asserted owner'')
      else let up = coalesce upstream (root_profile t owner) in
        (case write_routes (sql_upsert (\<lambda>r. r_user_id r = agent_id)
                 (agent_new now agent_id profile_name owner label up)
                 (agent_set now agent_id profile_name owner label up) t) of
           Inl e \<Rightarrow> Inl e | Inr t' \<Rightarrow> Inr (t', agent_id)))"

definition update_display_label :: "int \<Rightarrow> routes \<Rightarrow> string \<Rightarrow> string \<Rightarrow> routes \<times> bool" where
  "update_display_label now t chat_id label =
     (let P = (\<lambda>r. r_chat_id r = Some chat_id \<and> active_group r) in
      (sql_update P (\<lambda>r. r\<lparr>r_display_label := Some label, r_updated_at := now\<rparr>) t, rowcount P t > 0))"

definition delete_row :: "int \<Rightarrow> routing_row \<Rightarrow> routing_row" where
  "delete_row now r =
     r\<lparr>r_active := False, r_deleted_at := Some now, r_updated_at := now, r_version := r_version r + 1\<rparr>"

definition soft_delete_txn :: "int \<Rightarrow> string \<Rightarrow> routes \<Rightarrow> routes \<times> bool" where
  "soft_delete_txn now user_id t =
     (let P = (\<lambda>r. r_user_id r = user_id \<and> r_active r) in (sql_update P (delete_row now) t, rowcount P t > 0))"

definition soft_delete ::
    "(nat \<Rightarrow> routes \<Rightarrow> routes) \<Rightarrow> ((string \<times> string) list \<Rightarrow> bool) \<Rightarrow> int \<Rightarrow> routes \<Rightarrow> string
      \<Rightarrow> routes \<times> (bool \<times> (string \<times> string) list) result" where
  "soft_delete interf lock_ok now t user_id =
     identity_fenced RETRY_LIMIT interf lock_ok user_id [] (\<lambda>t. Inr (soft_delete_txn now user_id t)) t"

definition soft_delete_group ::
    "(nat \<Rightarrow> routes \<Rightarrow> routes) \<Rightarrow> ((string \<times> string) list \<Rightarrow> bool) \<Rightarrow> int \<Rightarrow> routes \<Rightarrow> string
      \<Rightarrow> routes \<times> (bool \<times> (string \<times> string) list) result" where
  "soft_delete_group interf lock_ok now t chat_id = soft_delete interf lock_ok now t (group_user_id chat_id)"

text \<open>The backfill of \<open>_migrate\<close>, run when a table is opened.\<close>

definition backfill_row :: "routing_row \<Rightarrow> routing_row" where
  "backfill_row r = r\<lparr>r_agent_id := Some (r_user_id r),
     r_owner_open_id := (if r_kind r = KIND_USER then coalesce (r_owner_open_id r) (r_open_id r) else r_owner_open_id r),
     r_provenance := (if r_kind r = KIND_GROUP then ''group''
        else if r_kind r = KIND_USER \<and> r_open_id r = Some (r_user_id r) then ''auto'' else ''sync'')\<rparr>"

definition owner_profile :: "routes \<Rightarrow> string option \<Rightarrow> string option" where
  "owner_profile t owner = (case owner of None \<Rightarrow> None
     | Some oid \<Rightarrow> map_option r_profile_name (fetchone (filter (\<lambda>u. r_open_id u = Some oid \<and> active_user u) t)))"

definition migrate :: "routes \<Rightarrow> routes result" where
  "migrate t =
     (if rowcount (\<lambda>r. r_active r \<and> r_agent_id r = None) t > 0
      then (case write_routes (sql_update (\<lambda>r. r_active r \<and> r_agent_id r = None) backfill_row t) of
              Inl e \<Rightarrow> Inl e
            | Inr t' \<Rightarrow> Inr (sql_update (\<lambda>r. active_group r \<and> r_upstream_profile r = None \<and> r_agent_id r \<noteq> None)
                (\<lambda>r. r\<lparr>r_upstream_profile := owner_profile t' (r_owner_open_id r)\<rparr>) t'))
      else Inr t)"

section \<open>Hand-off tables\<close>

record pending_inviter =
  pi_chat_id :: string
  pi_inviter_open_id :: string
  pi_inviter_union_id :: "string option"
  pi_created_at :: int

definition put_pending_inviter ::
    "int \<Rightarrow> pending_inviter list \<Rightarrow> string \<Rightarrow> string \<Rightarrow> string option \<Rightarrow> pending_inviter list" where
  "put_pending_inviter now t chat_id inviter union_id =
     (if chat_id = [] \<or> inviter = [] then t
      else sql_upsert (\<lambda>r. pi_chat_id r = chat_id)
        \<lparr>pi_chat_id = chat_id, pi_inviter_open_id = inviter, pi_inviter_union_id = union_id, pi_created_at = now\<rparr>
        (\<lambda>r. r\<lparr>pi_inviter_open_id := inviter, pi_inviter_union_id := union_id, pi_created_at := now\<rparr>) t)"

definition get_pending_inviter :: "pending_inviter list \<Rightarrow> string \<Rightarrow> string option" where
  "get_pending_inviter t chat_id = map_option pi_inviter_open_id (tbl_get pi_chat_id t chat_id)"

definition get_pending_inviter_union_id :: "pending_inviter list \<Rightarrow> string \<Rightarrow> string option" where
  "get_pending_inviter_union_id t chat_id =
     (case tbl_get pi_chat_id t chat_id of None \<Rightarrow> None | Some r \<Rightarrow> nullif (pi_inviter_union_id r) [])"

definition clear_pending_inviter :: "pending_inviter list \<Rightarrow> string \<Rightarrow> pending_inviter list" where
  "clear_pending_inviter t chat_id = sql_delete (\<lambda>r. pi_chat_id r = chat_id) t"

definition prune_pending_inviters :: "pending_inviter list \<Rightarrow> int \<Rightarrow> int \<Rightarrow> pending_inviter list \<times> nat" where
  "prune_pending_inviters t now ttl =
     (sql_delete (\<lambda>r. pi_created_at r < now - ttl) t, rowcount (\<lambda>r. pi_created_at r < now - ttl) t)"

record reply_mode =
  rm_chat_id :: string
  rm_mode :: string
  rm_updated_at :: int

definition get_group_reply_mode :: "reply_mode list \<Rightarrow> string \<Rightarrow> string" where
  "get_group_reply_mode t chat_id =
     (if chat_id = [] then ''mention''
      else let mode = (case tbl_get rm_chat_id t chat_id of None \<Rightarrow> [] | Some r \<Rightarrow> strip (rm_mode r))
           in if mode \<in> set [''mention'', ''all''] then mode else ''mention'')"

definition set_group_reply_mode :: "int \<Rightarrow> reply_mode list \<Rightarrow> string \<Rightarrow> string \<Rightarrow> reply_mode list result" where
  "set_group_reply_mode now t chat_id mode =
     (if chat_id = [] then Inl (ValueError ''chat_id required'')
      else if mode \<notin> set [''mention'', ''all''] then Inl (ValueError (''invalid reply mode: '' @ mode))
      else Inr (sql_upsert (\<lambda>r. rm_chat_id r = chat_id)
        \<lparr>rm_chat_id = chat_id, rm_mode = mode, rm_updated_at = now\<rparr>
        (\<lambda>r. r\<lparr>rm_mode := mode, rm_updated_at := now\<rparr>) t))"

section \<open>Invariant\<close>

text \<open>An agent handle is the row's own key, and a group row's key is derived from its chat.\<close>

definition row_shape :: "routing_row \<Rightarrow> bool" where
  "row_shape r \<longleftrightarrow> (r_agent_id r = None \<or> r_agent_id r = Some (r_user_id r))
     \<and> (r_kind r = KIND_GROUP \<longrightarrow> (case r_chat_id r of None \<Rightarrow> False | Some c \<Rightarrow> r_user_id r = group_user_id c))"

definition routes_inv :: "routes \<Rightarrow> bool" where
  "routes_inv t \<longleftrightarrow> indexes_ok t \<and> list_all row_shape t"

lemma kinds_distinct [simp]:
  "KIND_USER \<noteq> KIND_GROUP" "KIND_GROUP \<noteq> KIND_USER" "KIND_AGENT \<noteq> KIND_GROUP" "KIND_GROUP \<noteq> KIND_AGENT"
  "KIND_AGENT \<noteq> KIND_USER" "KIND_USER \<noteq> KIND_AGENT"
  by (simp_all add: KIND_USER_def KIND_GROUP_def KIND_AGENT_def)

text \<open>Under the row shapes two of the three indexes follow from the primary key.\<close>

lemma indexes_ok_shape:
  assumes "distinct (map r_user_id t)" "list_all row_shape t"
  shows "indexes_ok t \<longleftrightarrow> (\<forall>r \<in> set t. \<forall>q \<in> set t.
    sync_root r \<and> sync_root q \<and> r_open_id r \<noteq> None \<and> r_open_id r = r_open_id q \<longrightarrow> r_user_id r = r_user_id q)"
proof -
  have shape: "row_shape r" if "r \<in> set t" for r using assms(2) that by (simp add: list_all_iff)
  have "r_user_id r = r_user_id q"
    if "r \<in> set t" "q \<in> set t" "active_group r" "active_group q" "r_chat_id r = r_chat_id q" for r q
    using shape [OF that(1)] shape [OF that(2)] that(3-5) by (auto simp: row_shape_def split: option.splits)
  then have "unique_index active_group r_chat_id t"
    unfolding unique_index_key_iff [OF assms(1)] by blast
  moreover have "r_user_id r = r_user_id q"
    if "r \<in> set t" "q \<in> set t" "r_agent_id r \<noteq> None" "r_agent_id r = r_agent_id q" for r q
    using shape [OF that(1)] shape [OF that(2)] that(3,4) by (auto simp: row_shape_def)
  then have "unique_index r_active r_agent_id t"
    unfolding unique_index_key_iff [OF assms(1)] by blast
  ultimately show ?thesis
    unfolding indexes_ok_def unique_index_key_iff [OF assms(1), of sync_root] using assms(1) by blast
qed

lemmas row_ops = refresh_def blank_row_def upsert_set_def upsert_new_def group_set_def group_new_def
  agent_set_def agent_new_def delete_row_def

interpretation upsert_row: row_update r_user_id "upsert_set now p oid uid prov"
  by unfold_locales (simp add: row_ops)

interpretation group_row: row_update r_user_id "group_set now c p own lab up"
  by unfold_locales (simp add: row_ops)

interpretation agent_row: row_update r_user_id "agent_set now a p own lab up"
  by unfold_locales (simp add: row_ops)

interpretation deleted_row: row_update r_user_id "delete_row now"
  by unfold_locales (simp add: row_ops)

interpretation backfilled_row: row_update r_user_id backfill_row
  by unfold_locales (simp add: backfill_row_def)

lemma new_keys [simp]:
  "r_user_id (upsert_new now u p oid uid prov) = u"
  "r_user_id (group_new now c p own lab up) = group_user_id c"
  "r_user_id (agent_new now a p own lab up) = a"
  by (simp_all add: row_ops)

text \<open>An UPSERT keeps the shapes, and breaks no index unless the row it writes is a sync root.\<close>

lemma upsert_inv:
  assumes upd: "\<And>r. r_user_id (f r) = r_user_id r"
    and shape: "row_shape new" "\<And>r. row_shape r \<Longrightarrow> r_user_id r = r_user_id new \<Longrightarrow> row_shape (f r)"
    and root: "\<And>r. sync_root (f r) \<Longrightarrow> r_open_id (f r) = oid \<and> sync_root new"
      "sync_root new \<Longrightarrow> r_open_id new = oid"
    and inv: "routes_inv t"
    and free: "sync_root new \<Longrightarrow> \<forall>q \<in> set t. sync_root q \<and> r_open_id q = oid \<longrightarrow> r_user_id q = r_user_id new"
  shows "routes_inv (sql_upsert (\<lambda>r. r_user_id r = r_user_id new) new f t)"
proof -
  let ?t = "sql_upsert (\<lambda>r. r_user_id r = r_user_id new) new f t"
  have d: "distinct (map r_user_id t)" and sh: "\<And>r. r \<in> set t \<Longrightarrow> row_shape r"
    using inv by (auto simp: routes_inv_def indexes_ok_def list_all_iff)
  have upd_loc: "row_update r_user_id f" by (unfold_locales) (rule upd)
  have d': "distinct (map r_user_id ?t)" by (rule row_update.distinct_upsert [OF upd_loc d])
  note mem = row_update.mem_upsert [OF upd_loc, of _ new t]
  have sh': "list_all row_shape ?t"
    using mem shape sh by (fastforce simp: list_all_iff)
  have old: "r_user_id r = r_user_id q"
    if "r \<in> set t" "q \<in> set t" "sync_root r" "sync_root q" "r_open_id r \<noteq> None" "r_open_id r = r_open_id q" for r q
    using indexes_ok_shape [OF d] inv that unfolding routes_inv_def by blast
  have cases: "(r \<in> set t \<and> r_user_id r \<noteq> r_user_id new) \<or> (r_user_id r = r_user_id new \<and> r_open_id r = oid \<and> sync_root new)"
    if "r \<in> set ?t" "sync_root r" for r
    using mem [OF that(1)] that(2) root upd by fastforce
  have "r_user_id r = r_user_id q"
    if "r \<in> set ?t" "q \<in> set ?t" "sync_root r" "sync_root q" "r_open_id r \<noteq> None" "r_open_id r = r_open_id q" for r q
    using cases [OF that(1,3)] cases [OF that(2,4)] old [OF _ _ that(3-6)] that free by metis
  then have "indexes_ok ?t" unfolding indexes_ok_shape [OF d' sh'] by blast
  with sh' show ?thesis by (simp add: routes_inv_def)
qed

text \<open>Another active sync root already holds the open_id.\<close>

definition open_id_taken :: "routes \<Rightarrow> string \<Rightarrow> string \<Rightarrow> bool" where
  "open_id_taken t user_id open_id \<longleftrightarrow>
     list_ex (\<lambda>q. sync_root q \<and> r_open_id q = Some open_id \<and> r_user_id q \<noteq> user_id) t"

lemma write_routes_inv: "routes_inv t \<Longrightarrow> write_routes t = Inr t"
  by (simp add: write_routes_def routes_inv_def)

lemma write_routes_Inr: "write_routes t = Inr t' \<longleftrightarrow> t' = t \<and> indexes_ok t"
  by (auto simp: write_routes_def)

abbreviation upserted ::
    "int \<Rightarrow> routes \<Rightarrow> string \<Rightarrow> string \<Rightarrow> string \<Rightarrow> string option \<Rightarrow> string \<Rightarrow> routes" where
  "upserted now t u p oid uid prov \<equiv> sql_upsert (\<lambda>r. r_user_id r = u) (upsert_new now u p oid uid prov)
     (upsert_set now p oid uid prov) t"

lemma upserted_inv:
  assumes "routes_inv t" "prov = ''sync'' \<Longrightarrow> \<not> open_id_taken t u oid"
  shows "routes_inv (upserted now t u p oid uid prov)"
proof -
  have "routes_inv (sql_upsert (\<lambda>r. r_user_id r = r_user_id (upsert_new now u p oid uid prov))
      (upsert_new now u p oid uid prov) (upsert_set now p oid uid prov) t)"
    by (rule upsert_inv [where oid = "Some oid"])
      (use assms in \<open>auto simp: row_shape_def row_ops open_id_taken_def list_ex_iff\<close>)
  then show ?thesis by simp
qed

lemma upserted_conflict:
  assumes "routes_inv t" "open_id_taken t u oid"
  shows "\<not> indexes_ok (upserted now t u p oid uid ''sync'')"
proof -
  let ?t = "upserted now t u p oid uid ''sync''"
  have d: "distinct (map r_user_id t)" using assms(1) by (simp add: routes_inv_def indexes_ok_def)
  have d': "distinct (map r_user_id ?t)"
    using upsert_row.distinct_upsert [OF d, of "upsert_new now u p oid uid ''sync''"] by simp
  obtain q where q: "q \<in> set t" "sync_root q" "r_open_id q = Some oid" "r_user_id q \<noteq> u"
    using assms(2) by (auto simp: open_id_taken_def list_ex_iff)
  have get: "tbl_get r_user_id ?t k = (if k = u then Some (case tbl_get r_user_id t k of
      None \<Rightarrow> upsert_new now u p oid uid ''sync'' | Some r \<Rightarrow> upsert_set now p oid uid ''sync'' r)
      else tbl_get r_user_id t k)" for k
    using upsert_row.get_upsert [OF d, where new = "upsert_new now u p oid uid ''sync''"] by simp
  from q(1,4) have "tbl_get r_user_id ?t (r_user_id q) = Some q"
    using tbl_get_distinct [OF d q(1)] by (simp add: get)
  from tbl_get_mem [OF this] have mem: "q \<in> set ?t" by simp
  obtain w where w: "tbl_get r_user_id ?t u = Some w" "sync_root w" "r_open_id w = Some oid"
    unfolding get by (cases "tbl_get r_user_id t u") (simp_all add: row_ops)
  have wm: "w \<in> set ?t" "r_user_id w = u" using tbl_get_mem [OF w(1)] by auto
  have "\<not> unique_index sync_root r_open_id ?t"
    unfolding unique_index_key_iff [OF d']
  proof
    assume "\<forall>r \<in> set ?t. \<forall>s \<in> set ?t. sync_root r \<and> sync_root s \<and> r_open_id r \<noteq> None \<and> r_open_id r = r_open_id s
      \<longrightarrow> r_user_id r = r_user_id s"
    from this [rule_format, OF mem wm(1)] q(2,3) w(2,3) have "r_user_id q = r_user_id w" by simp
    with q(4) wm(2) show False by simp
  qed
  then show ?thesis by (simp add: indexes_ok_def)
qed

lemma upsert_txn_cases:
  assumes "routes_inv t"
  shows "upsert_txn now t u p oid uid prov =
    (if prov = ''sync'' \<and> open_id_taken t u oid then Inl IntegrityError
     else Inr (upserted now t u p oid uid prov, ()))"
  using upserted_conflict [OF assms] write_routes_inv [OF upserted_inv [OF assms]]
  by (auto simp: upsert_txn_def write_routes_def split: if_splits)

abbreviation grouped ::
    "int \<Rightarrow> routes \<Rightarrow> string \<Rightarrow> string \<Rightarrow> string \<Rightarrow> string option \<Rightarrow> string option \<Rightarrow> routes" where
  "grouped now t c p own lab up \<equiv> sql_upsert (\<lambda>r. r_user_id r = group_user_id c)
     (group_new now c p own lab (coalesce up (root_profile t own)))
     (group_set now c p own lab (coalesce up (root_profile t own))) t"

lemma grouped_inv:
  assumes "routes_inv t"
  shows "routes_inv (grouped now t c p own lab up)"
proof -
  have "routes_inv (sql_upsert
      (\<lambda>r. r_user_id r = r_user_id (group_new now c p own lab (coalesce up (root_profile t own))))
      (group_new now c p own lab (coalesce up (root_profile t own)))
      (group_set now c p own lab (coalesce up (root_profile t own))) t)"
    by (rule upsert_inv [where oid = None]) (use assms in \<open>auto simp: row_shape_def row_ops coalesce_def split: option.splits\<close>)
  then show ?thesis by simp
qed

abbreviation agented ::
    "int \<Rightarrow> routes \<Rightarrow> string \<Rightarrow> string \<Rightarrow> string \<Rightarrow> string option \<Rightarrow> string option \<Rightarrow> routes" where
  "agented now t a p own lab up \<equiv> sql_upsert (\<lambda>r. r_user_id r = a)
     (agent_new now a p own lab (coalesce up (root_profile t own)))
     (agent_set now a p own lab (coalesce up (root_profile t own))) t"

lemma agented_inv:
  assumes "routes_inv t"
  shows "routes_inv (agented now t a p own lab up)"
proof -
  have "routes_inv (sql_upsert
      (\<lambda>r. r_user_id r = r_user_id (agent_new now a p own lab (coalesce up (root_profile t own))))
      (agent_new now a p own lab (coalesce up (root_profile t own)))
      (agent_set now a p own lab (coalesce up (root_profile t own))) t)"
    by (rule upsert_inv [where oid = None]) (use assms in \<open>auto simp: row_shape_def row_ops\<close>)
  then show ?thesis by simp
qed

text \<open>An UPDATE that keeps key, kind, chat, agent handle and open_id and makes no row a sync root.\<close>

lemma update_inv:
  assumes "routes_inv t"
    and keep: "\<And>r. r_user_id (f r) = r_user_id r \<and> r_kind (f r) = r_kind r \<and> r_chat_id (f r) = r_chat_id r
      \<and> r_agent_id (f r) = r_agent_id r \<and> r_open_id (f r) = r_open_id r"
    and root: "\<And>r. sync_root (f r) \<Longrightarrow> sync_root r"
  shows "routes_inv (sql_update P f t)"
proof -
  let ?t = "sql_update P f t"
  have d: "distinct (map r_user_id t)" using assms(1) by (simp add: routes_inv_def indexes_ok_def)
  have d': "distinct (map r_user_id ?t)" using d map_sql_update [of t P r_user_id f] keep by simp
  have sh': "list_all row_shape ?t"
    using assms(1) keep by (auto simp: routes_inv_def list_all_iff set_sql_update row_shape_def split: option.splits)
  have from_old: "\<exists>q \<in> set t. sync_root q \<and> r_open_id q = r_open_id r \<and> r_user_id q = r_user_id r"
    if mem: "r \<in> set ?t" and rt: "sync_root r" for r
  proof -
    obtain q where q: "q \<in> set t" "r = (if P q then f q else q)" using mem unfolding set_sql_update by blast
    then show ?thesis using rt keep [of q] root [of q] by (intro bexI [of _ q]) (auto split: if_splits)
  qed
  have old: "r_user_id r = r_user_id q"
    if "r \<in> set t" "q \<in> set t" "sync_root r" "sync_root q" "r_open_id r \<noteq> None" "r_open_id r = r_open_id q" for r q
    using indexes_ok_shape [OF d] assms(1) that unfolding routes_inv_def by blast
  have "r_user_id r = r_user_id q"
    if "r \<in> set ?t" "q \<in> set ?t" "sync_root r" "sync_root q" "r_open_id r \<noteq> None" "r_open_id r = r_open_id q" for r q
    using from_old [OF that(1,3)] from_old [OF that(2,4)] old that(5,6) by metis
  then have "indexes_ok ?t" unfolding indexes_ok_shape [OF d' sh'] by blast
  with sh' show ?thesis by (simp add: routes_inv_def)
qed

lemma soft_delete_inv: "routes_inv t \<Longrightarrow> routes_inv (fst (soft_delete_txn now u t))"
  by (simp add: soft_delete_txn_def Let_def) (rule update_inv, simp_all add: row_ops)

lemma touch_inv: "routes_inv t \<Longrightarrow> routes_inv (touch_active now t oid)"
  "routes_inv t \<Longrightarrow> routes_inv (touch_active_group now t c)"
  by (simp_all add: touch_active_def touch_active_group_def) (rule update_inv, simp_all)+

lemma label_inv: "routes_inv t \<Longrightarrow> routes_inv (fst (update_display_label now t c l))"
  by (simp add: update_display_label_def Let_def) (rule update_inv, simp_all)

lemma backfill_shape: "row_shape r \<Longrightarrow> row_shape (backfill_row r)"
  by (simp add: row_shape_def backfill_row_def split: option.splits)

lemma migrate_inv:
  assumes "routes_inv t" "migrate t = Inr t'"
  shows "routes_inv t'"
proof (cases "rowcount (\<lambda>r. r_active r \<and> r_agent_id r = None) t > 0")
  case True
  let ?b = "sql_update (\<lambda>r. r_active r \<and> r_agent_id r = None) backfill_row t"
  have w: "indexes_ok ?b" using assms(2) True by (auto simp: migrate_def write_routes_def split: if_splits)
  moreover have "list_all row_shape ?b"
    using assms(1) by (auto simp: routes_inv_def list_all_iff set_sql_update backfill_shape)
  ultimately have "routes_inv ?b" by (simp add: routes_inv_def)
  then show ?thesis
    using assms(2) True w by (auto simp: migrate_def write_routes_def intro!: update_inv)
next
  case False
  with assms show ?thesis by (simp add: migrate_def)
qed

section \<open>Reachable tables\<close>

text \<open>Every committed write of any process that shares the database.\<close>

inductive routes_step :: "routes \<Rightarrow> routes \<Rightarrow> bool" where
  StepUpsert: "upsert_txn now t u p oid uid prov = Inr (t', ()) \<Longrightarrow> routes_step t t'"
| StepGroup: "upsert_group now t c p own lab up = Inr (t', uid) \<Longrightarrow> routes_step t t'"
| StepAgent: "upsert_owned_agent now t a p own lab up = Inr (t', uid) \<Longrightarrow> routes_step t t'"
| StepDelete: "routes_step t (fst (soft_delete_txn now u t))"
| StepTouch: "routes_step t (touch_active now t oid)"
| StepTouchGroup: "routes_step t (touch_active_group now t c)"
| StepLabel: "routes_step t (fst (update_display_label now t c lab))"
| StepMigrate: "migrate t = Inr t' \<Longrightarrow> routes_step t t'"

inductive_cases routes_stepE: "routes_step t t'"

inductive routes_reachable :: "routes \<Rightarrow> bool" where
  routes_start: "routes_reachable []"
| routes_next: "routes_reachable t \<Longrightarrow> routes_step t t' \<Longrightarrow> routes_reachable t'"

lemma routes_step_inv:
  assumes "routes_step t t'" "routes_inv t"
  shows "routes_inv t'"
  using assms
proof cases
  case (StepUpsert now u p oid uid prov)
  have "t' = upserted now t u p oid uid prov" "prov = ''sync'' \<Longrightarrow> \<not> open_id_taken t u oid"
    using StepUpsert upsert_txn_cases [OF assms(2), of now u p oid uid prov] by (auto split: if_splits)
  with upserted_inv [OF assms(2)] show ?thesis by blast
next
  case (StepGroup now c p own lab up uid)
  with grouped_inv [OF assms(2), where now = now and c = c and p = p and own = own and lab = lab and up = up] show ?thesis
    by (auto simp: upsert_group_def Let_def write_routes_inv split: if_splits)
next
  case (StepAgent now a p own lab up uid)
  with agented_inv [OF assms(2), where now = now and a = a and p = p and own = own and lab = lab and up = up] show ?thesis
    by (auto simp: upsert_owned_agent_def Let_def write_routes_inv split: if_splits)
qed (auto simp: soft_delete_inv touch_inv label_inv migrate_inv)

lemma routes_reachable_inv: "routes_reachable t \<Longrightarrow> routes_inv t"
proof (induction rule: routes_reachable.induct)
  case routes_start
  show ?case by (simp add: routes_inv_def indexes_ok_def unique_index_def)
qed (rule routes_step_inv)

section \<open>Lookups under the invariant\<close>

lemma inv_distinct: "routes_inv t \<Longrightarrow> distinct (map r_user_id t)"
  by (simp add: routes_inv_def indexes_ok_def)

lemma inv_shape: "routes_inv t \<Longrightarrow> r \<in> set t \<Longrightarrow> row_shape r"
  by (simp add: routes_inv_def list_all_iff)

lemma inv_group_key:
  assumes "routes_inv t" "r \<in> set t" "r_kind r = KIND_GROUP" "r_chat_id r = Some c"
  shows "r_user_id r = group_user_id c"
  using inv_shape [OF assms(1,2)] assms(3,4) by (simp add: row_shape_def)

lemma inv_agent_key:
  assumes "routes_inv t" "r \<in> set t" "r_agent_id r = Some a"
  shows "r_user_id r = a"
  using inv_shape [OF assms(1,2)] assms(3) by (simp add: row_shape_def)

lemma lookup_chat_of_row:
  assumes "routes_inv t" "r \<in> set t" "active_group r" "r_chat_id r = Some c"
  shows "lookup_by_chat_id t c = Some r"
proof -
  have "filter (\<lambda>r. r_chat_id r = Some c \<and> active_group r) t = [r]"
    by (rule filter_singleton [OF inv_distinct [OF assms(1)] assms(2)])
      (use assms in \<open>auto simp: inv_group_key\<close>)
  then show ?thesis by (simp add: lookup_by_chat_id_def)
qed

lemma lookup_agent_of_row:
  assumes "routes_inv t" "r \<in> set t" "r_active r" "r_agent_id r = Some a"
  shows "lookup_agent t a = Some r"
proof -
  have "filter (\<lambda>r. r_agent_id r = Some a \<and> r_active r) t = [r]"
    by (rule filter_singleton [OF inv_distinct [OF assms(1)] assms(2)])
      (use assms in \<open>auto simp: inv_agent_key\<close>)
  then show ?thesis by (simp add: lookup_agent_def)
qed

lemma lookup_agent_Some:
  assumes "routes_inv t" "lookup_agent t a = Some r"
  shows "r \<in> set t \<and> r_active r \<and> r_user_id r = a \<and> tbl_get r_user_id t a = Some r"
proof -
  have "r \<in> set t" "r_active r" "r_agent_id r = Some a"
    using assms(2) by (auto simp: lookup_agent_def dest!: fetchone_Some_mem)
  moreover from this have "r_user_id r = a" using inv_agent_key [OF assms(1)] by simp
  ultimately show ?thesis using tbl_get_distinct [OF inv_distinct [OF assms(1)]] by blast
qed

lemma owner_root_of_row:
  assumes "routes_inv t" "r \<in> set t" "sync_root r" "r_open_id r = Some oid"
  shows "resolve_owner_root t oid = Some r"
proof -
  have d: "distinct (map r_user_id t)" and u: "unique_index sync_root r_open_id t"
    using assms(1) by (auto simp: routes_inv_def indexes_ok_def)
  have "filter (\<lambda>r. r_open_id r = Some oid \<and> sync_root r) t = [r]"
  proof (rule filter_singleton [OF d assms(2)])
    fix q assume "q \<in> set t" "r_open_id q = Some oid \<and> sync_root q"
    then show "r_user_id q = r_user_id r"
      using u [unfolded unique_index_key_iff [OF d], rule_format, of q r] assms(2-4) by simp
  qed (use assms in auto)
  then show ?thesis by (simp add: resolve_owner_root_def)
qed

section \<open>The retry loop\<close>

lemma identity_fenced_Inr:
  assumes "identity_fenced n interf lock_ok u ids txn t = (t', Inr (b, locked))"
  shows "\<exists>at. txn at = Inr (t', b) \<and> lock_ok locked \<and> set ids \<subseteq> set locked
    \<and> (\<forall>i. active_user_identity at u = Some i \<longrightarrow> i \<in> set locked)"
  using assms
proof (induction n arbitrary: t)
  case (Suc n)
  let ?prev = "active_user_identity t u"
  let ?locked = "ids @ (case ?prev of None \<Rightarrow> [] | Some i \<Rightarrow> [i])"
  show ?case
  proof (cases "lock_ok ?locked \<and> active_user_identity (interf n t) u = ?prev")
    case True
    with Suc.prems have "txn (interf n t) = Inr (t', b)" "locked = ?locked"
      by (auto simp: Let_def split: sum.splits)
    with True show ?thesis by (intro exI [of _ "interf n t"]) (auto split: option.splits)
  next
    case False
    with Suc.prems have "identity_fenced n interf lock_ok u ids txn (interf n t) = (t', Inr (b, locked))"
      by (auto simp: Let_def split: if_splits)
    then show ?thesis by (rule Suc.IH)
  qed
qed simp

lemma identity_fenced_settles:
  assumes "\<And>ls. lock_ok ls" "m < n" "\<And>t. active_user_identity (interf m t) u = active_user_identity t u"
    and "\<And>t. txn t \<noteq> Inl RouteIdentityConflictError"
  shows "snd (identity_fenced n interf lock_ok u ids txn t) \<noteq> Inl RouteIdentityConflictError"
  using assms(2)
proof (induction n arbitrary: t)
  case (Suc n)
  show ?case
  proof (cases "active_user_identity (interf n t) u = active_user_identity t u")
    case True
    with assms(4) [of "interf n t"] assms(1) show ?thesis by (auto simp: Let_def split: sum.splits)
  next
    case False
    with assms(3) have "m \<noteq> n" by metis
    with Suc.prems have "m < n" by simp
    from Suc.IH [OF this, of "interf n t"] False assms(1) show ?thesis by (simp add: Let_def)
  qed
qed simp

section \<open>Properties\<close>

text \<open>C30. In every database state that the writers can produce, a group's chat, an agent's
  handle and a synced login each resolve to exactly the active row that carries it: the
  ambiguity branch of the lookups is never taken for them.\<close>

theorem routing_handles_unambiguous:
  assumes "routes_reachable t" "r \<in> set t" "r_active r"
  shows "(r_kind r = KIND_GROUP \<longrightarrow> (\<exists>c. r_chat_id r = Some c \<and> lookup_by_chat_id t c = Some r))
    \<and> (\<forall>a. r_agent_id r = Some a \<longrightarrow> a = r_user_id r \<and> lookup_agent t a = Some r)
    \<and> (\<forall>oid. sync_root r \<and> r_open_id r = Some oid \<longrightarrow> resolve_owner_root t oid = Some r)"
proof -
  note inv = routes_reachable_inv [OF assms(1)]
  note shape = inv_shape [OF inv assms(2)]
  have "\<exists>c. r_chat_id r = Some c \<and> lookup_by_chat_id t c = Some r" if "r_kind r = KIND_GROUP"
    using shape that lookup_chat_of_row [OF inv assms(2)] assms(3)
    by (auto simp: row_shape_def split: option.splits)
  then show ?thesis
    using shape lookup_agent_of_row [OF inv assms(2,3)] owner_root_of_row [OF inv assms(2)]
    by (auto simp: row_shape_def)
qed

text \<open>A table with one group.\<close>

definition demo_group :: routing_row where
  "demo_group = group_new 5 ''oc_1'' ''team'' ''ou_1'' None None"

lemma demo_reachable: "routes_reachable [demo_group]"
proof -
  have "routes_inv []" by (simp add: routes_inv_def indexes_ok_def unique_index_def)
  from grouped_inv [OF this, where now = 5 and c = "''oc_1''" and p = "''team''" and own = "''ou_1''" and lab = None and up = None]
  have "upsert_group 5 [] ''oc_1'' ''team'' ''ou_1'' None None = Inr ([demo_group], ''group:oc_1'')"
    by (simp add: upsert_group_def sql_upsert_def write_routes_inv demo_group_def root_profile_def
        resolve_owner_root_def group_user_id_def)
  then show ?thesis by (rule routes_next [OF routes_start StepGroup])
qed

lemma demo_fields:
  "r_user_id demo_group = ''group:oc_1''" "r_active demo_group" "r_kind demo_group = KIND_GROUP"
  "r_chat_id demo_group = Some ''oc_1''" "r_owner_open_id demo_group = Some ''ou_1''"
  "r_agent_id demo_group = Some ''group:oc_1''" "r_profile_name demo_group = ''team''"
  by (simp_all add: demo_group_def row_ops group_user_id_def)

theorem routing_handles_unambiguous_witness:
  "lookup_by_chat_id [demo_group] ''oc_1'' = Some demo_group
     \<and> lookup_agent [demo_group] ''group:oc_1'' = Some demo_group"
  using routing_handles_unambiguous [OF demo_reachable, of demo_group] by (simp add: demo_fields)

text \<open>\<open>upsert_group\<close> always succeeds on non-blank arguments (no concurrent first
  provisioning can make it fail on an index), the chat then resolves to the group's row with
  the new profile, an owner once set is never replaced, the version grows by one, and no
  other row changes.\<close>

lemma upsert_group_total:
  assumes "routes_reachable t" "chat_id \<noteq> []" "owner \<noteq> []"
  shows "\<exists>t' r. upsert_group now t chat_id profile owner label up = Inr (t', group_user_id chat_id)
    \<and> lookup_by_chat_id t' chat_id = Some r \<and> r_profile_name r = profile
    \<and> (case tbl_get r_user_id t (group_user_id chat_id) of
         None \<Rightarrow> r_owner_open_id r = Some owner \<and> r_version r = 1
       | Some old \<Rightarrow> r_version r = r_version old + 1
           \<and> r_owner_open_id r = (if r_owner_open_id old \<in> {None, Some []} then Some owner else r_owner_open_id old))
    \<and> (\<forall>k. k \<noteq> group_user_id chat_id \<longrightarrow> tbl_get r_user_id t' k = tbl_get r_user_id t k)"
proof -
  note inv = routes_reachable_inv [OF assms(1)]
  let ?t = "grouped now t chat_id profile owner label up"
  have get: "tbl_get r_user_id ?t k = (if k = group_user_id chat_id then Some (case tbl_get r_user_id t k of
      None \<Rightarrow> group_new now chat_id profile owner label (coalesce up (root_profile t owner))
      | Some r \<Rightarrow> group_set now chat_id profile owner label (coalesce up (root_profile t owner)) r)
      else tbl_get r_user_id t k)" for k
    using group_row.get_upsert [OF inv_distinct [OF inv],
        where new = "group_new now chat_id profile owner label (coalesce up (root_profile t owner))"] by simp
  obtain r where r: "tbl_get r_user_id ?t (group_user_id chat_id) = Some r" using get by simp
  have "active_group r \<and> r_chat_id r = Some chat_id"
    using r get by (auto simp: row_ops split: option.splits)
  then have "lookup_by_chat_id ?t chat_id = Some r"
    using lookup_chat_of_row [OF grouped_inv [OF inv]] tbl_get_mem [OF r] by blast
  moreover have "upsert_group now t chat_id profile owner label up = Inr (?t, group_user_id chat_id)"
    using assms(2,3) write_routes_inv [OF grouped_inv [OF inv]] by (simp add: upsert_group_def Let_def)
  moreover have "r_profile_name r = profile \<and> (case tbl_get r_user_id t (group_user_id chat_id) of
         None \<Rightarrow> r_owner_open_id r = Some owner \<and> r_version r = 1
       | Some old \<Rightarrow> r_version r = r_version old + 1
           \<and> r_owner_open_id r = (if r_owner_open_id old \<in> {None, Some []} then Some owner else r_owner_open_id old))"
    using r get by (auto simp: row_ops nullif_def coalesce_def split: option.splits)
  ultimately show ?thesis using get by (intro exI [of _ ?t] exI [of _ r]) simp
qed

text \<open>The transaction of \<open>upsert\<close> fails exactly when a sync write claims an open_id that
  another active sync root holds. Otherwise the user's row is the new active identity with a
  version one higher, and every other row is untouched.\<close>

lemma upsert_outcome:
  assumes "routes_reachable t"
  shows "case upsert_txn now t user_id profile open_id union_id prov of
      Inl e \<Rightarrow> e = IntegrityError \<and> prov = ''sync'' \<and> open_id_taken t user_id open_id
    | Inr (t', _) \<Rightarrow> \<not> (prov = ''sync'' \<and> open_id_taken t user_id open_id)
        \<and> (\<exists>r. lookup_by_user_id t' user_id = Some r \<and> r_profile_name r = profile
             \<and> r_open_id r = Some open_id \<and> r_union_id r = union_id \<and> r_kind r = KIND_USER \<and> r_provenance r = prov
             \<and> r_version r = (case tbl_get r_user_id t user_id of None \<Rightarrow> 1 | Some old \<Rightarrow> r_version old + 1))
        \<and> (\<forall>k. k \<noteq> user_id \<longrightarrow> tbl_get r_user_id t' k = tbl_get r_user_id t k)"
proof -
  note inv = routes_reachable_inv [OF assms]
  let ?t = "upserted now t user_id profile open_id union_id prov"
  have get: "tbl_get r_user_id ?t k = (if k = user_id then Some (case tbl_get r_user_id t k of
      None \<Rightarrow> upsert_new now user_id profile open_id union_id prov
      | Some r \<Rightarrow> upsert_set now profile open_id union_id prov r) else tbl_get r_user_id t k)" for k
    using upsert_row.get_upsert [OF inv_distinct [OF inv],
        where new = "upsert_new now user_id profile open_id union_id prov"] by simp
  have d: "distinct (map r_user_id ?t)"
    using upsert_row.distinct_upsert [OF inv_distinct [OF inv],
        where new = "upsert_new now user_id profile open_id union_id prov"] by simp
  obtain r where r: "tbl_get r_user_id ?t user_id = Some r" using get by simp
  have "r_active r" using r get by (auto simp: row_ops split: option.splits)
  then have "lookup_by_user_id ?t user_id = Some r"
    using filter_key_distinct [OF d r, of r_active] by (simp add: lookup_by_user_id_def)
  then show ?thesis
    using r get by (auto simp: upsert_txn_cases [OF inv] row_ops split: option.splits)
qed

text \<open>The identity fence of \<open>upsert\<close>: whatever other processes commit between the reads,
  a write that reports success ran as one transaction on a table whose current identity of
  that user, and the identity being written, were both among the locked ones. And the loop
  gives up with a conflict only if the identity changed in every one of its attempts.\<close>

lemma upsert_is_fenced:
  fixes interf :: "nat \<Rightarrow> routes \<Rightarrow> routes"
  assumes "upsert interf lock_ok now t user_id profile open_id union_id prov = (t', res)"
  shows "(\<forall>locked. res = Inr ((), locked) \<longrightarrow> lock_ok locked \<and> (profile, open_id) \<in> set locked
      \<and> (\<exists>at. upsert_txn now at user_id profile open_id union_id prov = Inr (t', ())
           \<and> (\<forall>i. active_user_identity at user_id = Some i \<longrightarrow> i \<in> set locked)))
    \<and> ((\<forall>ls. lock_ok ls) \<and> (\<exists>m < 5. \<forall>q. active_user_identity (interf m q) user_id = active_user_identity q user_id)
        \<longrightarrow> res \<noteq> Inl RouteIdentityConflictError)"
proof -
  let ?txn = "\<lambda>t. upsert_txn now t user_id profile open_id union_id prov"
  have txn: "?txn q \<noteq> Inl RouteIdentityConflictError" for q
    by (auto simp: upsert_txn_def write_routes_def)
  have "res \<noteq> Inl RouteIdentityConflictError"
    if "\<forall>ls. lock_ok ls" "m < 5" "\<forall>q. active_user_identity (interf m q) user_id = active_user_identity q user_id" for m
    using identity_fenced_settles [of lock_ok m RETRY_LIMIT interf user_id ?txn "[(profile, open_id)]" t] that txn assms
    by (simp add: upsert_def RETRY_LIMIT_def)
  moreover have "lock_ok locked \<and> (profile, open_id) \<in> set locked
      \<and> (\<exists>at. ?txn at = Inr (t', ()) \<and> (\<forall>i. active_user_identity at user_id = Some i \<longrightarrow> i \<in> set locked))"
    if "res = Inr ((), locked)" for locked
    using identity_fenced_Inr [of RETRY_LIMIT interf lock_ok user_id "[(profile, open_id)]" ?txn t t' "()" locked]
      assms that by (auto simp: upsert_def)
  ultimately show ?thesis by blast
qed

text \<open>\<open>resolve_context\<close> is fail-closed on rows: a context is always built from an active row
  that matches the chat, the sender's open_id or union_id, or the alias; so a sender with no
  active row of its own, in a chat with no active group and without an alias, gets none.\<close>

lemma resolve_context_sound:
  assumes "resolve_context t sender alt chat = Some c"
  shows "\<exists>r \<in> set t. r_active r \<and> tc_profile_name c = r_profile_name r \<and> tc_route_version c = r_version r
    \<and> tc_kind c = r_kind r \<and> tc_owner_open_id c = r_owner_open_id r
    \<and> ((r_kind r = KIND_GROUP \<and> r_chat_id r = chat)
       \<or> (r_kind r = KIND_USER \<and> strip (str_or_empty sender) \<notin> {[], ''unknown''}
           \<and> Some (strip (str_or_empty sender)) \<in> {r_open_id r, r_union_id r})
       \<or> (r_user_id r = strip (str_or_empty alt) \<and> r_user_id r \<noteq> []))"
proof -
  let ?key = "strip (str_or_empty sender)" and ?alt = "strip (str_or_empty alt)"
  let ?chat = "if str_or_empty chat \<noteq> [] then lookup_by_chat_id t (str_or_empty chat) else None"
  let ?snd = "if ?chat = None \<and> ?key \<noteq> [] \<and> ?key \<noteq> ''unknown''
    then row_or (lookup_by_open_id t ?key) (lookup_by_union_id t ?key) else ?chat"
  let ?row = "if ?snd = None \<and> ?alt \<noteq> [] then lookup_by_user_id t ?alt else ?snd"
  obtain r where r: "?row = Some r" "r_active r"
    and c: "tc_profile_name c = r_profile_name r" "tc_route_version c = r_version r" "tc_kind c = r_kind r"
      "tc_owner_open_id c = r_owner_open_id r"
    using assms by (auto simp: resolve_context_def Let_def split: option.splits if_splits)
  have chat: "r \<in> set t \<and> r_kind r = KIND_GROUP \<and> r_chat_id r = chat" if "?chat = Some r"
    using that by (auto simp: lookup_by_chat_id_def str_or_empty_def dest!: fetch_unique_mem split: if_splits option.splits)
  have by_snd: "r \<in> set t \<and> r_kind r = KIND_USER \<and> Some ?key \<in> {r_open_id r, r_union_id r}"
    if "row_or (lookup_by_open_id t ?key) (lookup_by_union_id t ?key) = Some r"
    using that by (auto simp: row_or_def lookup_by_open_id_def lookup_by_union_id_def dest!: fetch_unique_mem split: option.splits)
  have alt: "r \<in> set t \<and> r_user_id r = ?alt" if "lookup_by_user_id t ?alt = Some r"
    using that by (auto simp: lookup_by_user_id_def dest!: fetchone_Some_mem)
  have "r \<in> set t \<and> ((r_kind r = KIND_GROUP \<and> r_chat_id r = chat)
       \<or> (r_kind r = KIND_USER \<and> ?key \<notin> {[], ''unknown''} \<and> Some ?key \<in> {r_open_id r, r_union_id r})
       \<or> (r_user_id r = ?alt \<and> r_user_id r \<noteq> []))"
  proof (cases "?snd = None \<and> ?alt \<noteq> []")
    case True
    with r(1) alt show ?thesis by simp
  next
    case False
    with r(1) have s: "?snd = Some r" by (simp split: if_splits)
    show ?thesis
    proof (cases "?chat = None \<and> ?key \<noteq> [] \<and> ?key \<noteq> ''unknown''")
      case True
      with s by_snd show ?thesis by simp
    next
      case False
      with s chat show ?thesis by (simp only: if_False simp_thms)
    qed
  qed
  with c r(2) show ?thesis by blast
qed

text \<open>In a chat with an active group the sender is not looked at: every sender, known or
  not, deleted or never seen, gets the group's profile, and its own raw identifier (not its
  row's open_id) becomes the session key.\<close>

lemma group_chat_resolves_any_sender:
  assumes "routes_reachable t" "r \<in> set t" "active_group r" "r_chat_id r = Some chat" "chat \<noteq> []"
  shows "\<exists>c. resolve_context t sender alt (Some chat) = Some c \<and> tc_profile_name c = r_profile_name r
    \<and> (strip (str_or_empty sender) \<notin> {[], ''unknown''} \<longrightarrow> tc_user_key c = strip (str_or_empty sender))"
  using lookup_chat_of_row [OF routes_reachable_inv [OF assms(1)] assms(2-4)] assms(3,5)
  by (simp add: resolve_context_def Let_def str_or_empty_def py_or_def)

text \<open>An active agent cannot be taken over: \<open>upsert_owned_agent\<close> by another owner fails. The
  guard reads active rows only, though: on a soft-deleted agent of another owner the same
  call succeeds, revives the agent and points it to the caller's profile, while the stored
  owner stays the previous one.\<close>

lemma owned_agent_guard:
  assumes "routes_reachable t" "tbl_get r_user_id t agent = Some r" "r_agent_id r = Some agent"
    and "r_owner_open_id r = Some prev" "prev \<notin> {[], owner}" "agent \<noteq> []" "owner \<noteq> []"
  shows "if r_active r
    then upsert_owned_agent now t agent profile owner label up
           = Inl (ValueError ''agent_id does not belong to asserted owner'')
    else \<exists>t' r'. upsert_owned_agent now t agent profile owner label up = Inr (t', agent)
           \<and> lookup_agent t' agent = Some r' \<and> r_profile_name r' = profile \<and> r_owner_open_id r' = Some prev"
proof (cases "r_active r")
  case True
  with assms tbl_get_mem [OF assms(2)] lookup_agent_of_row [OF routes_reachable_inv [OF assms(1)], of r agent]
  show ?thesis by (simp add: upsert_owned_agent_def)
next
  case False
  note inv = routes_reachable_inv [OF assms(1)]
  let ?t = "agented now t agent profile owner label up"
  have none: "lookup_agent t agent = None"
    using lookup_agent_Some [OF inv, of agent] assms(2) False by (cases "lookup_agent t agent") auto
  have get: "tbl_get r_user_id ?t agent = Some (agent_set now agent profile owner label (coalesce up (root_profile t owner)) r)"
    (is "_ = Some ?r")
    using agent_row.get_upsert [OF inv_distinct [OF inv], where k = agent and new = "agent_new now agent profile owner label (coalesce up (root_profile t owner))"] assms(2) by simp
  have "lookup_agent ?t agent = Some ?r"
    using lookup_agent_of_row [OF agented_inv [OF inv], of ?r] tbl_get_mem [OF get] by (simp add: row_ops)
  moreover have "upsert_owned_agent now t agent profile owner label up = Inr (?t, agent)"
    using assms(6,7) none write_routes_inv [OF agented_inv [OF inv]] by (simp add: upsert_owned_agent_def Let_def)
  ultimately show ?thesis using False assms(4,5) by (simp add: row_ops nullif_def)
qed

definition demo_deleted :: routes where
  "demo_deleted = fst (soft_delete_txn 7 ''group:oc_1'' [demo_group])"

lemma demo_deleted_reachable: "routes_reachable demo_deleted"
  unfolding demo_deleted_def by (rule routes_next [OF demo_reachable StepDelete])

lemma migrate_agents:
  assumes "migrate t = Inr t'" "r \<in> set t'" "r_active r"
  shows "r_agent_id r \<noteq> None"
proof (cases "rowcount (\<lambda>r. r_active r \<and> r_agent_id r = None) t > 0")
  case True
  let ?b = "sql_update (\<lambda>r. r_active r \<and> r_agent_id r = None) backfill_row t"
  have b: "r_agent_id q \<noteq> None" if q: "q \<in> set ?b" "r_active q" for q
  proof -
    obtain o' where "q = (if r_active o' \<and> r_agent_id o' = None then backfill_row o' else o')"
      using q(1) unfolding set_sql_update by blast
    with q(2) show ?thesis by (simp add: backfill_row_def split: if_splits)
  qed
  have t': "t' = sql_update (\<lambda>r. active_group r \<and> r_upstream_profile r = None \<and> r_agent_id r \<noteq> None)
                (\<lambda>r. r\<lparr>r_upstream_profile := owner_profile ?b (r_owner_open_id r)\<rparr>) ?b"
    using assms(1) True by (auto simp: migrate_def write_routes_def split: if_splits)
  obtain q where q: "q \<in> set ?b"
    and r: "r = (if active_group q \<and> r_upstream_profile q = None \<and> r_agent_id q \<noteq> None
      then q\<lparr>r_upstream_profile := owner_profile ?b (r_owner_open_id q)\<rparr> else q)"
    using mem_sql_update [OF assms(2) [unfolded t']] by blast
  have "r_agent_id r = r_agent_id q" "r_active r = r_active q" unfolding r by simp_all
  with b [OF q] assms(3) show ?thesis by simp
next
  case False
  with assms show ?thesis by (auto simp: migrate_def rowcount_0_iff)
qed

definition provenance_convention :: "routing_row \<Rightarrow> bool" where
  "provenance_convention r \<longleftrightarrow> (r_active r \<and> r_agent_id r = None \<longrightarrow>
     (r_kind r = KIND_USER \<longrightarrow> r_provenance r = (if r_open_id r = Some (r_user_id r) then ''auto'' else ''sync'')))"

lemma backfill_indexes:
  assumes "routes_inv t" "list_all provenance_convention t"
  shows "indexes_ok (sql_update (\<lambda>r. r_active r \<and> r_agent_id r = None) backfill_row t)"
proof -
  let ?P = "\<lambda>r. r_active r \<and> r_agent_id r = None"
  let ?b = "sql_update ?P backfill_row t"
  note d = inv_distinct [OF assms(1)]
  have d': "distinct (map r_user_id ?b)" using d by (simp add: backfilled_row.map_key)
  have sh: "list_all row_shape ?b"
    using inv_shape [OF assms(1)] by (auto simp: list_all_iff set_sql_update backfill_shape)
  have from_old: "\<exists>q \<in> set t. sync_root q \<and> r_open_id q = r_open_id r \<and> r_user_id q = r_user_id r"
    if mem: "r \<in> set ?b" and rt: "sync_root r" for r
  proof -
    obtain q where q: "q \<in> set t" "r = (if ?P q then backfill_row q else q)"
      using mem unfolding set_sql_update by blast
    moreover have "provenance_convention q" using q(1) assms(2) by (simp add: list_all_iff)
    ultimately show ?thesis
      using rt by (intro bexI [of _ q]) (auto simp: provenance_convention_def backfill_row_def split: if_splits)
  qed
  have old: "r_user_id r = r_user_id q"
    if "r \<in> set t" "q \<in> set t" "sync_root r" "sync_root q" "r_open_id r \<noteq> None" "r_open_id r = r_open_id q" for r q
    using indexes_ok_shape [OF d] assms(1) that unfolding routes_inv_def by blast
  have "r_user_id r = r_user_id q"
    if "r \<in> set ?b" "q \<in> set ?b" "sync_root r" "sync_root q" "r_open_id r \<noteq> None" "r_open_id r = r_open_id q" for r q
    using from_old [OF that(1,3)] from_old [OF that(2,4)] old that(5,6) by metis
  then show ?thesis unfolding indexes_ok_shape [OF d' sh] by blast
qed

definition user_provenance :: "routing_row \<Rightarrow> string option" where
  "user_provenance r = (if r_kind r = KIND_USER then Some (r_provenance r) else None)"

text \<open>The start-up backfill: when it succeeds every active row has its agent handle, and
  running it again changes nothing. It succeeds whenever the active user rows without a
  handle follow the writers' convention (auto rows have user_id = open_id, sync rows do
  not), and then no provenance of a user row changes.\<close>

lemma migrate_backfills:
  assumes "routes_reachable t"
  shows "(\<forall>t'. migrate t = Inr t' \<longrightarrow>
      (\<forall>r \<in> set t'. r_active r \<longrightarrow> r_agent_id r = Some (r_user_id r)) \<and> migrate t' = Inr t')
    \<and> (list_all provenance_convention t \<longrightarrow>
        (\<exists>t'. migrate t = Inr t' \<and> map r_user_id t' = map r_user_id t \<and> map user_provenance t' = map user_provenance t))"
proof -
  note inv = routes_reachable_inv [OF assms]
  have "r_agent_id r = Some (r_user_id r)" if t': "migrate t = Inr t'" and r: "r \<in> set t'" "r_active r" for t' r
    using migrate_agents [OF t' r] inv_agent_key [OF migrate_inv [OF inv t'] r(1)] by auto
  moreover have "migrate t' = Inr t'" if "migrate t = Inr t'" for t'
  proof -
    have "rowcount (\<lambda>r. r_active r \<and> r_agent_id r = None) t' = 0"
      unfolding rowcount_0_iff using migrate_agents [OF that] by blast
    then show ?thesis by (simp add: migrate_def)
  qed
  moreover have "\<exists>t'. migrate t = Inr t' \<and> map r_user_id t' = map r_user_id t \<and> map user_provenance t' = map user_provenance t"
    if conv: "list_all provenance_convention t"
  proof -
    let ?P = "\<lambda>r. r_active r \<and> r_agent_id r = None"
    let ?b = "sql_update ?P backfill_row t"
    have "map user_provenance ?b = map user_provenance t"
      by (rule map_sql_update)
        (use conv in \<open>auto simp: list_all_iff provenance_convention_def user_provenance_def backfill_row_def\<close>)
    moreover have "map user_provenance (sql_update Q (\<lambda>r. r\<lparr>r_upstream_profile := f r\<rparr>) ?b) = map user_provenance ?b"
      "map r_user_id (sql_update Q (\<lambda>r. r\<lparr>r_upstream_profile := f r\<rparr>) ?b) = map r_user_id ?b" for Q f
      by (rule map_sql_update, simp add: user_provenance_def)+
    ultimately show ?thesis
      using backfill_indexes [OF inv conv] by (simp add: migrate_def write_routes_def backfilled_row.map_key)
  qed
  ultimately show ?thesis by blast
qed

end
