(* ===== verification/Agent_Sharing.thy ===== *)
theory Agent_Sharing
  imports Routing_Table "HOL-Library.List_Lexorder" "HOL-Library.Char_ord" "HOL-Library.Option_ord"
    "HOL-Library.Product_Lexorder"
begin

text \<open>
  Principals, their aliases and agent shares (\<open>src/hermes_multitenancy/routing.py\<close>, the
  sharing half of \<open>RoutingTable\<close>). The tables are as this connection sees them, so a call
  that raises after a statement without rolling back returns the changed tables with the
  error. Identifiers drawn from \<open>uuid4\<close> are arguments. ORDER BY on text compares code
  points, with NULL first.
\<close>

section \<open>Data\<close>

record principal_row =
  pr_principal_id :: string
  pr_provider :: string
  pr_tenant_key :: string
  pr_canonical_id_type :: string
  pr_canonical_id :: string
  pr_display_name :: "string option"
  pr_avatar_url :: "string option"
  pr_email :: "string option"
  pr_status :: string
  pr_profile_json :: "string option"
  pr_merged_into_principal_id :: "string option"
  pr_last_resolved_at :: int
  pr_created_at :: int
  pr_updated_at :: int

record alias_row =
  al_provider :: string
  al_tenant_key :: string
  al_id_type :: string
  al_id_value :: string
  al_app_id :: string
  al_principal_id :: string
  al_created_at :: int
  al_updated_at :: int

record share_row =
  sh_agent_id :: string
  sh_grantee_open_id :: string
  sh_share_id :: "string option"
  sh_grantee_principal_id :: "string option"
  sh_role :: string
  sh_status :: string
  sh_created_by_open_id :: string
  sh_created_by_principal_id :: "string option"
  sh_created_at :: int
  sh_updated_at :: int
  sh_revoked_at :: "int option"

record sharing_db =
  db_shares :: "share_row list"
  db_principals :: "principal_row list"
  db_aliases :: "alias_row list"

text \<open>The dict of one alias argument: \<open>id_type\<close> or \<open>type\<close>, \<open>id_value\<close> or \<open>value\<close>, \<open>app_id\<close>.\<close>

record alias_arg =
  aa_id_type :: "string option"
  aa_type :: "string option"
  aa_id_value :: "string option"
  aa_value :: "string option"
  aa_app_id :: "string option"

definition canonical_key :: "principal_row \<Rightarrow> string \<times> string \<times> string \<times> string" where
  "canonical_key p = (pr_provider p, pr_tenant_key p, pr_canonical_id_type p, pr_canonical_id p)"

definition alias_key :: "alias_row \<Rightarrow> string \<times> string \<times> string \<times> string \<times> string" where
  "alias_key a = (al_provider a, al_tenant_key a, al_id_type a, al_id_value a, al_app_id a)"

definition share_key :: "share_row \<Rightarrow> string \<times> string" where
  "share_key s = (sh_agent_id s, sh_grantee_open_id s)"

definition VALID_ROLES :: "string list" where
  "VALID_ROLES = [''viewer'', ''editor'', ''manager'']"

section \<open>Principals\<close>

definition find_principal :: "sharing_db \<Rightarrow> string \<Rightarrow> string \<Rightarrow> string \<Rightarrow> string \<Rightarrow> principal_row option" where
  "find_principal db provider tenant idt cid =
     fetchone (filter (\<lambda>p. canonical_key p = (strip provider, strip tenant, strip idt, strip cid)) (db_principals db))"

definition lookup_principal :: "sharing_db \<Rightarrow> string \<Rightarrow> principal_row option" where
  "lookup_principal db pid = (if strip pid = [] then None else tbl_get pr_principal_id (db_principals db) (strip pid))"

definition upsert_principal_alias ::
    "int \<Rightarrow> sharing_db \<Rightarrow> string \<Rightarrow> string \<Rightarrow> string \<Rightarrow> string \<Rightarrow> string \<Rightarrow> string \<Rightarrow> sharing_db result" where
  "upsert_principal_alias now db provider tenant id_type id_value pid app_id =
     (let pv = strip provider; tk = strip tenant; it = strip id_type; iv = strip id_value; pi = strip pid; ap = strip app_id
      in if pv = [] \<or> tk = [] \<or> it = [] \<or> iv = [] \<or> pi = []
         then Inl (ValueError ''principal alias requires provider, tenant_key, id_type, id_value, principal_id'')
         else Inr (db\<lparr>db_aliases := sql_upsert (\<lambda>a. alias_key a = (pv, tk, it, iv, ap))
           \<lparr>al_provider = pv, al_tenant_key = tk, al_id_type = it, al_id_value = iv, al_app_id = ap,
            al_principal_id = pi, al_created_at = now, al_updated_at = now\<rparr>
           (\<lambda>a. a\<lparr>al_principal_id := pi, al_updated_at := now\<rparr>) (db_aliases db)\<rparr>))"

fun upsert_aliases ::
    "int \<Rightarrow> string \<Rightarrow> string \<Rightarrow> string \<Rightarrow> sharing_db \<Rightarrow> alias_arg list \<Rightarrow> sharing_db \<times> unit result" where
  "upsert_aliases now pv tk pid db [] = (db, Inr ())"
| "upsert_aliases now pv tk pid db (a # as) =
     (case upsert_principal_alias now db pv tk
             (py_or (str_or_empty (aa_id_type a)) (str_or_empty (aa_type a)))
             (py_or (str_or_empty (aa_id_value a)) (str_or_empty (aa_value a))) pid (str_or_empty (aa_app_id a)) of
        Inl e \<Rightarrow> (db, Inl e)
      | Inr db' \<Rightarrow> upsert_aliases now pv tk pid db' as)"

definition blank_to_none :: "string option \<Rightarrow> string option" where
  "blank_to_none x = or_none (strip (str_or_empty x))"

definition refresh_principal ::
    "int \<Rightarrow> string option \<Rightarrow> string option \<Rightarrow> string option \<Rightarrow> string \<Rightarrow> string option \<Rightarrow> principal_row \<Rightarrow> principal_row" where
  "refresh_principal now name avatar email status json p =
     p\<lparr>pr_display_name := coalesce name (pr_display_name p), pr_avatar_url := coalesce avatar (pr_avatar_url p),
       pr_email := coalesce email (pr_email p), pr_status := status,
       pr_profile_json := coalesce json (pr_profile_json p), pr_last_resolved_at := now, pr_updated_at := now\<rparr>"

text \<open>\<open>new_pid\<close> is the fresh identifier. A duplicate primary key is \<open>IntegrityError\<close>.\<close>

definition upsert_principal ::
    "int \<Rightarrow> string \<Rightarrow> sharing_db \<Rightarrow> string \<Rightarrow> string \<Rightarrow> string \<Rightarrow> string \<Rightarrow> string option \<Rightarrow> string option \<Rightarrow> string option
      \<Rightarrow> string \<Rightarrow> string option \<Rightarrow> alias_arg list \<Rightarrow> sharing_db \<times> principal_row result" where
  "upsert_principal now new_pid db provider tenant idt cid name avatar email status json aliases =
     (let pv = strip provider; tk = strip tenant; it = strip idt; ci = strip cid;
          st = strip (py_or status ''active'')
      in if pv = [] then (db, Inl (ValueError ''provider is required''))
         else if tk = [] then (db, Inl (ValueError ''tenant_key is required''))
         else if it = [] then (db, Inl (ValueError ''canonical_id_type is required''))
         else if ci = [] then (db, Inl (ValueError ''canonical_id is required''))
         else
           let existing = find_principal db pv tk it ci;
               pid = (case existing of None \<Rightarrow> new_pid | Some p \<Rightarrow> pr_principal_id p);
               created = (case existing of None \<Rightarrow> now | Some p \<Rightarrow> pr_created_at p);
               new = \<lparr>pr_principal_id = pid, pr_provider = pv, pr_tenant_key = tk, pr_canonical_id_type = it,
                      pr_canonical_id = ci, pr_display_name = blank_to_none name, pr_avatar_url = blank_to_none avatar,
                      pr_email = blank_to_none email, pr_status = st, pr_profile_json = json, pr_merged_into_principal_id = None, pr_last_resolved_at = now,
                      pr_created_at = created, pr_updated_at = now\<rparr>
           in if existing = None \<and> tbl_get pr_principal_id (db_principals db) new_pid \<noteq> None
              then (db, Inl IntegrityError)
              else
                let db' = db\<lparr>db_principals := sql_upsert (\<lambda>p. canonical_key p = (pv, tk, it, ci)) new
                       (refresh_principal now (blank_to_none name) (blank_to_none avatar) (blank_to_none email) st json)
                       (db_principals db)\<rparr>
                in case find_principal db' pv tk it ci of
                     None \<Rightarrow> (db', Inl (RuntimeError ''principal upsert did not persist''))
                   | Some p \<Rightarrow>
                       (case upsert_aliases now pv tk (pr_principal_id p) db' aliases of
                          (db'', Inl e) \<Rightarrow> (db'', Inl e) | (db'', Inr _) \<Rightarrow> (db'', Inr p)))"

definition lookup_principal_by_alias ::
    "sharing_db \<Rightarrow> string \<Rightarrow> string \<Rightarrow> string \<Rightarrow> string \<Rightarrow> string \<Rightarrow> principal_row option" where
  "lookup_principal_by_alias db provider tenant id_type id_value app_id =
     (let pv = strip provider; tk = strip tenant; it = strip id_type; iv = strip id_value; ap = strip app_id
      in if pv = [] \<or> tk = [] \<or> it = [] \<or> iv = [] then None
         else if it = ''open_id'' \<and> ap = [] then None
         else fetchone (concat (map (\<lambda>a. filter (\<lambda>p. pr_principal_id p = al_principal_id a \<and> pr_status p = ''active'')
                  (db_principals db)) (filter (\<lambda>a. alias_key a = (pv, tk, it, iv, ap)) (db_aliases db)))))"

section \<open>Shares\<close>

text \<open>A share as the SELECT returns it, joined with the grantee's principal.\<close>

type_synonym share_view = "share_row \<times> principal_row option"

definition with_principal :: "sharing_db \<Rightarrow> share_row \<Rightarrow> share_view" where
  "with_principal db s = (s, case sh_grantee_principal_id s of None \<Rightarrow> None
     | Some pid \<Rightarrow> tbl_get pr_principal_id (db_principals db) pid)"

definition lookup_agent_share :: "sharing_db \<Rightarrow> string \<Rightarrow> string \<Rightarrow> share_view option" where
  "lookup_agent_share db agent grantee =
     (if strip agent = [] \<or> strip grantee = [] then None
      else map_option (with_principal db) (tbl_get share_key (db_shares db) (strip agent, strip grantee)))"

definition lookup_agent_share_by_principal :: "sharing_db \<Rightarrow> string \<Rightarrow> string \<Rightarrow> share_view option" where
  "lookup_agent_share_by_principal db agent pid =
     (if strip agent = [] \<or> strip pid = [] then None
      else map_option (with_principal db)
        (fetchone (filter (\<lambda>s. sh_agent_id s = strip agent \<and> sh_grantee_principal_id s = Some (strip pid)) (db_shares db))))"

definition active_role :: "share_view option \<Rightarrow> string option" where
  "active_role v = (case v of None \<Rightarrow> None | Some (s, _) \<Rightarrow> if sh_status s \<noteq> ''active'' then None else Some (sh_role s))"

definition get_agent_share_role :: "sharing_db \<Rightarrow> string \<Rightarrow> string \<Rightarrow> string option" where
  "get_agent_share_role db agent grantee = active_role (lookup_agent_share db agent grantee)"

definition get_agent_share_role_for_principal :: "sharing_db \<Rightarrow> string \<Rightarrow> string \<Rightarrow> string option" where
  "get_agent_share_role_for_principal db agent pid = active_role (lookup_agent_share_by_principal db agent pid)"

definition principal_share_key :: "string \<Rightarrow> string" where
  "principal_share_key pid = ''principal:'' @ pid"

text \<open>The unique index on \<open>share_id\<close> and the statement of both grants.\<close>

definition put_share :: "sharing_db \<Rightarrow> share_row \<Rightarrow> (share_row \<Rightarrow> share_row) \<Rightarrow> sharing_db result" where
  "put_share db new f =
     (let shares = sql_upsert (\<lambda>s. share_key s = share_key new) new f (db_shares db)
      in if unique_index (\<lambda>_. True) sh_share_id shares then Inr (db\<lparr>db_shares := shares\<rparr>) else Inl IntegrityError)"

definition grant_set :: "int \<Rightarrow> string \<Rightarrow> string \<Rightarrow> share_row \<Rightarrow> share_row" where
  "grant_set now share_id role s =
     s\<lparr>sh_share_id := coalesce (sh_share_id s) (Some share_id), sh_role := role, sh_status := ''active'',
       sh_updated_at := now, sh_revoked_at := None\<rparr>"

definition grant_new :: "int \<Rightarrow> string \<Rightarrow> string \<Rightarrow> string \<Rightarrow> string \<Rightarrow> string \<Rightarrow> share_row" where
  "grant_new now agent grantee share_id role by =
     \<lparr>sh_agent_id = agent, sh_grantee_open_id = grantee, sh_share_id = Some share_id, sh_grantee_principal_id = None,
      sh_role = role, sh_status = ''active'', sh_created_by_open_id = by, sh_created_by_principal_id = None,
      sh_created_at = now, sh_updated_at = now, sh_revoked_at = None\<rparr>"

text \<open>\<open>existing.share_id if existing and existing.share_id else _new_share_id()\<close>.\<close>

definition pick_share_id :: "share_view option \<Rightarrow> string \<Rightarrow> string" where
  "pick_share_id v new_id = (case v of None \<Rightarrow> new_id | Some (s, _) \<Rightarrow> py_or (str_or_empty (sh_share_id s)) new_id)"

definition grant_agent_share ::
    "int \<Rightarrow> string \<Rightarrow> routes \<Rightarrow> sharing_db \<Rightarrow> string \<Rightarrow> string \<Rightarrow> string \<Rightarrow> string \<Rightarrow> (sharing_db \<times> share_view) result" where
  "grant_agent_share now new_id t db agent_id grantee_id role_arg by_id =
     (let agent = strip agent_id; grantee = strip grantee_id; role = strip role_arg; by = strip by_id
      in if agent = [] then Inl (ValueError ''agent_id is required'')
         else if grantee = [] then Inl (ValueError ''grantee_open_id is required'')
         else if role \<notin> set VALID_ROLES then Inl (ValueError (''invalid agent share role: '' @ role))
         else if by = [] then Inl (ValueError ''created_by_open_id is required'')
         else (case lookup_agent t agent of
             None \<Rightarrow> Inl (ValueError ''agent_id is not an active agent'')
           | Some r \<Rightarrow>
               if \<not> r_active r then Inl (ValueError ''agent_id is not an active agent'')
               else if r_owner_open_id r = Some grantee then Inl (ValueError ''owner is already an implicit manager'')
               else
                 let share_id = pick_share_id (lookup_agent_share db agent grantee) new_id
                 in case put_share db (grant_new now agent grantee share_id role by) (grant_set now share_id role) of
                      Inl e \<Rightarrow> Inl e
                    | Inr db' \<Rightarrow> (case lookup_agent_share db' agent grantee of
                          None \<Rightarrow> Inl (RuntimeError ''agent share grant did not persist'')
                        | Some v \<Rightarrow> Inr (db', v))))"

definition grant_agent_share_principal ::
    "int \<Rightarrow> string \<Rightarrow> routes \<Rightarrow> sharing_db \<Rightarrow> string \<Rightarrow> string \<Rightarrow> string \<Rightarrow> string \<Rightarrow> string option
      \<Rightarrow> (sharing_db \<times> share_view) result" where
  "grant_agent_share_principal now new_id t db agent_id pid_arg role_arg by_id by_principal =
     (let agent = strip agent_id; pid = strip pid_arg; role = strip role_arg; by = strip by_id; byp = blank_to_none by_principal
      in if agent = [] then Inl (ValueError ''agent_id is required'')
         else if pid = [] then Inl (ValueError ''grantee_principal_id is required'')
         else if role \<notin> set VALID_ROLES then Inl (ValueError (''invalid agent share role: '' @ role))
         else if by = [] then Inl (ValueError ''created_by_open_id is required'')
         else (case lookup_agent t agent of
             None \<Rightarrow> Inl (ValueError ''agent_id is not an active agent'')
           | Some r \<Rightarrow>
               if \<not> r_active r then Inl (ValueError ''agent_id is not an active agent'')
               else (case lookup_principal db pid of
                   None \<Rightarrow> Inl (ValueError ''grantee principal is not active'')
                 | Some p \<Rightarrow>
                     if pr_status p \<noteq> ''active'' then Inl (ValueError ''grantee principal is not active'')
                     else
                       let key = principal_share_key pid;
                           share_id = pick_share_id (lookup_agent_share db agent key) new_id
                       in case put_share db
                              ((grant_new now agent key share_id role by)\<lparr>sh_grantee_principal_id := Some pid, sh_created_by_principal_id := byp\<rparr>)
                              (\<lambda>s. (grant_set now share_id role s)\<lparr>sh_grantee_principal_id := Some pid, sh_created_by_principal_id := byp\<rparr>) of
                            Inl e \<Rightarrow> Inl e
                          | Inr db' \<Rightarrow> (case lookup_agent_share_by_principal db' agent pid of
                                None \<Rightarrow> Inl (RuntimeError ''agent principal share grant did not persist'')
                              | Some v \<Rightarrow> Inr (db', v)))))"

definition list_agent_shares :: "sharing_db \<Rightarrow> string \<Rightarrow> bool \<Rightarrow> share_view list" where
  "list_agent_shares db agent active_only =
     (if strip agent = [] then []
      else map (with_principal db)
        (sort_key (\<lambda>s. (sh_created_at s, sh_grantee_open_id s))
          (filter (\<lambda>s. sh_agent_id s = strip agent \<and> (active_only \<longrightarrow> sh_status s = ''active'')) (db_shares db))))"

text \<open>The join of shares with the active agent routes, in the order of its ORDER BY.\<close>

definition shared_agents :: "routes \<Rightarrow> share_row list \<Rightarrow> (routing_row \<times> share_row) list" where
  "shared_agents t shares =
     sort_key (\<lambda>(r, s). (r_display_label r, r_agent_id r))
       (concat (map (\<lambda>s. map (\<lambda>r. (r, s))
          (filter (\<lambda>r. r_agent_id r = Some (sh_agent_id s) \<and> r_active r \<and> r_kind r = KIND_AGENT) t)) shares))"

definition list_shared_agents_for_actor :: "routes \<Rightarrow> sharing_db \<Rightarrow> string \<Rightarrow> (routing_row \<times> share_row) list" where
  "list_shared_agents_for_actor t db open_id =
     (if strip open_id = [] then []
      else shared_agents t (filter (\<lambda>s. sh_grantee_open_id s = strip open_id \<and> sh_status s = ''active'') (db_shares db)))"

definition list_shared_agents_for_principal :: "routes \<Rightarrow> sharing_db \<Rightarrow> string \<Rightarrow> (routing_row \<times> share_row) list" where
  "list_shared_agents_for_principal t db pid =
     (if strip pid = [] then []
      else shared_agents t (filter (\<lambda>s. sh_grantee_principal_id s = Some (strip pid) \<and> sh_status s = ''active'') (db_shares db)))"

definition revoke_where :: "int \<Rightarrow> (share_row \<Rightarrow> bool) \<Rightarrow> sharing_db \<Rightarrow> sharing_db \<times> bool" where
  "revoke_where now P db =
     (let Q = (\<lambda>s. P s \<and> sh_status s = ''active'')
      in (db\<lparr>db_shares := sql_update Q (\<lambda>s. s\<lparr>sh_status := ''revoked'', sh_revoked_at := Some now, sh_updated_at := now\<rparr>) (db_shares db)\<rparr>,
          rowcount Q (db_shares db) > 0))"

definition revoke_agent_share :: "int \<Rightarrow> sharing_db \<Rightarrow> string \<Rightarrow> string \<Rightarrow> sharing_db \<times> bool" where
  "revoke_agent_share now db agent grantee =
     (if strip agent = [] \<or> strip grantee = [] then (db, False)
      else revoke_where now (\<lambda>s. sh_agent_id s = strip agent \<and> sh_grantee_open_id s = strip grantee) db)"

definition revoke_agent_share_by_id :: "int \<Rightarrow> sharing_db \<Rightarrow> string \<Rightarrow> string \<Rightarrow> sharing_db \<times> bool" where
  "revoke_agent_share_by_id now db agent share_id =
     (if strip agent = [] \<or> strip share_id = [] then (db, False)
      else revoke_where now (\<lambda>s. sh_agent_id s = strip agent \<and> sh_share_id s = Some (strip share_id)) db)"

section \<open>Invariant\<close>

definition share_ok :: "share_row \<Rightarrow> bool" where
  "share_ok s \<longleftrightarrow> strip (sh_agent_id s) = sh_agent_id s \<and> sh_agent_id s \<noteq> []
     \<and> strip (sh_grantee_open_id s) = sh_grantee_open_id s \<and> sh_grantee_open_id s \<noteq> []
     \<and> sh_role s \<in> set VALID_ROLES
     \<and> (case sh_grantee_principal_id s of None \<Rightarrow> True | Some pid \<Rightarrow> sh_grantee_open_id s = principal_share_key pid)"

definition sharing_inv :: "sharing_db \<Rightarrow> bool" where
  "sharing_inv db \<longleftrightarrow> distinct (map share_key (db_shares db)) \<and> list_all share_ok (db_shares db)
     \<and> unique_index (\<lambda>_. True) sh_share_id (db_shares db)
     \<and> distinct (map canonical_key (db_principals db)) \<and> distinct (map pr_principal_id (db_principals db))"

interpretation granted: row_update share_key "grant_set now i role"
  by unfold_locales (simp add: share_key_def grant_set_def)

interpretation granted_principal: row_update share_key
  "\<lambda>s. (grant_set now i role s)\<lparr>sh_grantee_principal_id := pid, sh_created_by_principal_id := byp\<rparr>"
  by unfold_locales (simp add: share_key_def grant_set_def)

interpretation revoked: row_update share_key
  "\<lambda>s. s\<lparr>sh_status := ''revoked'', sh_revoked_at := Some now, sh_updated_at := now\<rparr>"
  by unfold_locales (simp add: share_key_def)

interpretation refreshed: row_update canonical_key "refresh_principal now name avatar email status json"
  by unfold_locales (simp add: canonical_key_def refresh_principal_def)

lemma share_key_new [simp]:
  "share_key (grant_new now a g i role by) = (a, g)"
  "share_key ((grant_new now a g i role by)\<lparr>sh_grantee_principal_id := p, sh_created_by_principal_id := b\<rparr>) = (a, g)"
  by (simp_all add: share_key_def grant_new_def)

lemma strip_principal_key: "strip pid = pid \<Longrightarrow> pid \<noteq> [] \<Longrightarrow> strip (principal_share_key pid) = principal_share_key pid"
proof -
  assume "strip pid = pid" "pid \<noteq> []"
  then have "\<not> is_space (last pid)" using strip_decomp [of pid] by simp
  then show ?thesis using \<open>pid \<noteq> []\<close>
    by (intro strip_fixed) (simp_all add: principal_share_key_def is_space_def)
qed

text \<open>A fresh identifier does not collide, and an existing row keeps its own.\<close>

lemma put_share_ok:
  assumes d: "distinct (map share_key (db_shares db))" and u: "unique_index (\<lambda>_. True) sh_share_id (db_shares db)"
    and key: "\<And>s. share_key (f s) = share_key s"
    and sid: "\<And>s. sh_share_id (f s) = coalesce (sh_share_id s) (Some i)"
    and new: "sh_share_id new = Some i"
    and fresh: "\<And>s. s \<in> set (db_shares db) \<Longrightarrow> sh_share_id s = Some i \<Longrightarrow> share_key s = share_key new"
  shows "put_share db new f = Inr (db\<lparr>db_shares := sql_upsert (\<lambda>s. share_key s = share_key new) new f (db_shares db)\<rparr>)"
proof -
  let ?t = "sql_upsert (\<lambda>s. share_key s = share_key new) new f (db_shares db)"
  have loc: "row_update share_key f" by unfold_locales (rule key)
  have d': "distinct (map share_key ?t)" by (rule row_update.distinct_upsert [OF loc d])
  note mem = row_update.mem_upsert [OF loc, of _ new "db_shares db"]
  have old: "share_key a = share_key b"
    if "a \<in> set (db_shares db)" "b \<in> set (db_shares db)" "sh_share_id a = Some x" "sh_share_id b = Some x" for a b x
    using u [unfolded unique_index_key_iff [OF d], rule_format, OF that(1,2)] that(3,4) by simp
  have cases: "(r \<in> set (db_shares db) \<and> share_key r \<noteq> share_key new) \<or>
      (share_key r = share_key new \<and> (x = i \<or> (\<exists>q \<in> set (db_shares db). sh_share_id q = Some x \<and> share_key q = share_key new)))"
    if "r \<in> set ?t" "sh_share_id r = Some x" for r x
    using mem [OF that(1)] that(2) key sid new by (auto simp: coalesce_def split: option.splits)
  have "share_key a = share_key b" if a: "a \<in> set ?t" "sh_share_id a = Some x" and b: "b \<in> set ?t" "sh_share_id b = Some x" for a b x
    using cases [OF a] cases [OF b] old fresh a(2) b(2) by metis
  then have "unique_index (\<lambda>_. True) sh_share_id ?t"
    unfolding unique_index_key_iff [OF d'] by (metis not_Some_eq)
  then show ?thesis by (simp add: put_share_def Let_def)
qed

lemma put_share_get:
  assumes "distinct (map share_key (db_shares db))" "\<And>s. share_key (f s) = share_key s" "put_share db new f = Inr db'"
  shows "tbl_get share_key (db_shares db') k = (if k = share_key new
      then Some (case tbl_get share_key (db_shares db) k of None \<Rightarrow> new | Some s \<Rightarrow> f s)
      else tbl_get share_key (db_shares db) k)" and "db_principals db' = db_principals db"
    and "distinct (map share_key (db_shares db'))"
proof -
  have loc: "row_update share_key f" by unfold_locales (rule assms(2))
  have db': "db' = db\<lparr>db_shares := sql_upsert (\<lambda>s. share_key s = share_key new) new f (db_shares db)\<rparr>"
    using assms(3) by (auto simp: put_share_def Let_def split: if_splits)
  show "tbl_get share_key (db_shares db') k = (if k = share_key new
      then Some (case tbl_get share_key (db_shares db) k of None \<Rightarrow> new | Some s \<Rightarrow> f s)
      else tbl_get share_key (db_shares db) k)"
    using row_update.get_upsert [OF loc assms(1)] by (simp add: db')
  show "db_principals db' = db_principals db" by (simp add: db')
  show "distinct (map share_key (db_shares db'))" using row_update.distinct_upsert [OF loc assms(1)] by (simp add: db')
qed

lemma role_of_share:
  "get_agent_share_role db a g = (if strip a = [] \<or> strip g = [] then None
     else case tbl_get share_key (db_shares db) (strip a, strip g) of None \<Rightarrow> None
       | Some s \<Rightarrow> if sh_status s = ''active'' then Some (sh_role s) else None)"
  by (auto simp: get_agent_share_role_def active_role_def lookup_agent_share_def with_principal_def split: option.splits)

lemma revoke_get:
  assumes "distinct (map share_key (db_shares db))" "strip a \<noteq> []" "strip g \<noteq> []"
  shows "get_agent_share_role (fst (revoke_agent_share now db a g)) a' g' =
    (if (strip a', strip g') = (strip a, strip g) then None else get_agent_share_role db a' g')"
  using revoked.get_upd [OF assms(1)] assms(2,3)
  by (auto simp: role_of_share revoke_agent_share_def revoke_where_def Let_def share_key_def
      dest!: tbl_get_mem split: option.splits)

text \<open>What a grant checks before it writes.\<close>

definition grant_allowed :: "routes \<Rightarrow> string \<Rightarrow> string \<Rightarrow> string \<Rightarrow> string \<Rightarrow> bool" where
  "grant_allowed t a g role by \<longleftrightarrow> strip a \<noteq> [] \<and> strip g \<noteq> [] \<and> strip role \<in> set VALID_ROLES \<and> strip by \<noteq> []
     \<and> (case lookup_agent t (strip a) of None \<Rightarrow> False | Some r \<Rightarrow> r_owner_open_id r \<noteq> Some (strip g))"

lemma lookup_agent_active: "lookup_agent t a = Some r \<Longrightarrow> r_active r"
  by (auto simp: lookup_agent_def dest!: fetchone_Some_mem)

lemma pick_share_id_fresh:
  assumes d: "distinct (map share_key (db_shares db))" and u: "unique_index (\<lambda>_. True) sh_share_id (db_shares db)"
    and fresh: "\<forall>s \<in> set (db_shares db). sh_share_id s \<noteq> Some new_id"
    and ag: "strip a = a" "strip g = g" "a \<noteq> []" "g \<noteq> []"
    and s: "s \<in> set (db_shares db)" "sh_share_id s = Some (pick_share_id (lookup_agent_share db a g) new_id)"
  shows "share_key s = (a, g)"
proof (cases "tbl_get share_key (db_shares db) (a, g)")
  case None
  with s fresh ag show ?thesis by (simp add: lookup_agent_share_def pick_share_id_def)
next
  case (Some q)
  have q: "q \<in> set (db_shares db)" "share_key q = (a, g)" using tbl_get_mem [OF Some] by auto
  have "pick_share_id (lookup_agent_share db a g) new_id = py_or (str_or_empty (sh_share_id q)) new_id"
    using Some ag by (simp add: lookup_agent_share_def pick_share_id_def with_principal_def)
  with s fresh have "sh_share_id q = sh_share_id s"
    by (auto simp: py_or_def str_or_empty_def split: option.splits if_splits)
  then have "share_key s = share_key q"
    using u [unfolded unique_index_key_iff [OF d], rule_format, OF s(1) q(1)] s(2) by simp
  with q show ?thesis by simp
qed

lemma grant_effect:
  assumes inv: "sharing_inv db" and ok: "grant_allowed t a g role by"
    and fresh: "\<forall>s \<in> set (db_shares db). sh_share_id s \<noteq> Some new_id"
  shows "\<exists>db' v. grant_agent_share now new_id t db a g role by = Inr (db', v)
    \<and> distinct (map share_key (db_shares db')) \<and> db_principals db' = db_principals db
    \<and> (\<forall>k. k \<noteq> (strip a, strip g) \<longrightarrow> tbl_get share_key (db_shares db') k = tbl_get share_key (db_shares db) k)
    \<and> (\<exists>s. tbl_get share_key (db_shares db') (strip a, strip g) = Some s \<and> sh_status s = ''active'' \<and> sh_role s = strip role)"
proof -
  let ?a = "strip a" and ?g = "strip g" and ?role = "strip role"
  let ?i = "pick_share_id (lookup_agent_share db ?a ?g) new_id"
  let ?new = "grant_new now ?a ?g ?i ?role (strip by)" and ?f = "grant_set now ?i ?role"
  let ?db = "db\<lparr>db_shares := sql_upsert (\<lambda>s. share_key s = share_key ?new) ?new ?f (db_shares db)\<rparr>"
  have d: "distinct (map share_key (db_shares db))" and u: "unique_index (\<lambda>_. True) sh_share_id (db_shares db)"
    using inv by (auto simp: sharing_inv_def)
  have ne: "?a \<noteq> []" "?g \<noteq> []" using ok by (auto simp: grant_allowed_def)
  have put: "put_share db ?new ?f = Inr ?db"
  proof (rule put_share_ok [OF d u, where i = ?i])
    fix s assume "s \<in> set (db_shares db)" "sh_share_id s = Some ?i"
    with pick_share_id_fresh [OF d u fresh _ _ ne] show "share_key s = share_key ?new" by simp
  qed (simp_all add: grant_set_def grant_new_def share_key_def)
  note get = put_share_get [OF d granted.key_upd put]
  obtain s where s: "tbl_get share_key (db_shares ?db) (?a, ?g) = Some s" "sh_status s = ''active''" "sh_role s = ?role"
  proof -
    have "tbl_get share_key (db_shares ?db) (?a, ?g) =
        Some (case tbl_get share_key (db_shares db) (?a, ?g) of None \<Rightarrow> ?new | Some s \<Rightarrow> ?f s)"
      using get(1) [of "(?a, ?g)"] by simp
    then show thesis by (rule that) (auto simp: grant_new_def grant_set_def split: option.splits)
  qed
  obtain r where r: "lookup_agent t ?a = Some r" "r_owner_open_id r \<noteq> Some ?g"
    using ok by (auto simp: grant_allowed_def split: option.splits)
  have "grant_agent_share now new_id t db a g role by = Inr (?db, with_principal ?db s)"
    using ok r lookup_agent_active [OF r(1)] put s(1) ne
    by (simp add: grant_agent_share_def grant_allowed_def Let_def lookup_agent_share_def)
  with s get show ?thesis by (intro exI [of _ ?db] exI [of _ "with_principal ?db s"]) auto
qed

section \<open>Properties\<close>

text \<open>Sharing round trip: a grant that passes its checks (active agent, valid role, grantee
  not the owner) succeeds; the grantee then has exactly that role; no other agent's or
  grantee's role changes; and revoking it takes the role away again and nothing else.\<close>

lemma grant_revoke_roundtrip:
  assumes "sharing_inv db" "grant_allowed t a g role by" "\<forall>s \<in> set (db_shares db). sh_share_id s \<noteq> Some new_id"
  shows "\<exists>db' v. grant_agent_share now new_id t db a g role by = Inr (db', v)
    \<and> get_agent_share_role db' a g = Some (strip role)
    \<and> (\<forall>a' g'. (strip a', strip g') \<noteq> (strip a, strip g) \<longrightarrow>
         get_agent_share_role db' a' g' = get_agent_share_role db a' g'
         \<and> get_agent_share_role (fst (revoke_agent_share now' db' a g)) a' g' = get_agent_share_role db a' g')
    \<and> get_agent_share_role (fst (revoke_agent_share now' db' a g)) a g = None"
proof -
  have ne: "strip a \<noteq> []" "strip g \<noteq> []" using assms(2) by (auto simp: grant_allowed_def)
  obtain db' v s where g: "grant_agent_share now new_id t db a g role by = Inr (db', v)"
    and d: "distinct (map share_key (db_shares db'))"
    and other: "\<forall>k. k \<noteq> (strip a, strip g) \<longrightarrow> tbl_get share_key (db_shares db') k = tbl_get share_key (db_shares db) k"
    and s: "tbl_get share_key (db_shares db') (strip a, strip g) = Some s" "sh_status s = ''active''" "sh_role s = strip role"
    using grant_effect [OF assms, of now] by blast
  have "get_agent_share_role db' a' g' = get_agent_share_role db a' g'" if "(strip a', strip g') \<noteq> (strip a, strip g)" for a' g'
    using other [rule_format, OF that] by (simp add: role_of_share)
  moreover have "get_agent_share_role db' a g = Some (strip role)" using s ne by (simp add: role_of_share)
  ultimately show ?thesis
    using g revoke_get [OF d ne, of now'] by (intro exI [of _ db'] exI [of _ v]) auto
qed

definition no_shares :: sharing_db where
  "no_shares = \<lparr>db_shares = [], db_principals = [], db_aliases = []\<rparr>"

lemma no_shares_inv: "sharing_inv no_shares"
  by (simp add: no_shares_def sharing_inv_def unique_index_def)

lemma demo_grant: "grant_allowed [demo_group] ''group:oc_1'' ''ou_2'' ''viewer'' ''ou_1''"
  by (simp add: grant_allowed_def strip_def is_space_def VALID_ROLES_def lookup_agent_def demo_fields)

lemma shared_agents_set:
  "(r, s) \<in> set (shared_agents t shares) \<longleftrightarrow> s \<in> set shares \<and> r \<in> set t
     \<and> r_agent_id r = Some (sh_agent_id s) \<and> r_active r \<and> r_kind r = KIND_AGENT"
  by (auto simp: shared_agents_def)

text \<open>The listing agrees with the role check: an agent is listed for an actor exactly when it
  is an active agent route and the actor's share role for its handle is set.\<close>

lemma listing_agrees_with_roles:
  assumes "sharing_inv db" "strip actor = actor" "actor \<noteq> []"
  shows "(\<exists>s. (r, s) \<in> set (list_shared_agents_for_actor t db actor)) \<longleftrightarrow>
    r \<in> set t \<and> r_active r \<and> r_kind r = KIND_AGENT
    \<and> (\<exists>a. r_agent_id r = Some a \<and> strip a = a \<and> get_agent_share_role db a actor \<noteq> None)"
proof -
  have d: "distinct (map share_key (db_shares db))" and ok: "share_ok s" if "s \<in> set (db_shares db)" for s
    using assms(1) that by (auto simp: sharing_inv_def list_all_iff)
  have role: "get_agent_share_role db a actor \<noteq> None \<longleftrightarrow>
      (\<exists>s \<in> set (db_shares db). sh_agent_id s = a \<and> sh_grantee_open_id s = actor \<and> sh_status s = ''active'')"
    if st: "strip a = a" for a
  proof
    assume "get_agent_share_role db a actor \<noteq> None"
    then obtain s where "tbl_get share_key (db_shares db) (a, actor) = Some s" "sh_status s = ''active''"
      using st assms(2) by (auto simp: role_of_share split: if_splits option.splits)
    then show "\<exists>s \<in> set (db_shares db). sh_agent_id s = a \<and> sh_grantee_open_id s = actor \<and> sh_status s = ''active''"
      using tbl_get_mem [of share_key "db_shares db" "(a, actor)" s] by (auto simp: share_key_def)
  next
    assume "\<exists>s \<in> set (db_shares db). sh_agent_id s = a \<and> sh_grantee_open_id s = actor \<and> sh_status s = ''active''"
    then obtain s where s: "s \<in> set (db_shares db)" "share_key s = (a, actor)" "sh_status s = ''active''"
      by (auto simp: share_key_def)
    have "distinct (map share_key (db_shares db))" using assms(1) by (simp add: sharing_inv_def)
    from tbl_get_distinct [OF this s(1)] s ok [OF s(1)] st assms(2,3)
    show "get_agent_share_role db a actor \<noteq> None" by (auto simp: role_of_share share_ok_def share_key_def)
  qed
  show ?thesis
  proof
    assume "\<exists>s. (r, s) \<in> set (list_shared_agents_for_actor t db actor)"
    then obtain s where s: "s \<in> set (db_shares db)" "sh_grantee_open_id s = actor" "sh_status s = ''active''"
      "r \<in> set t" "r_agent_id r = Some (sh_agent_id s)" "r_active r" "r_kind r = KIND_AGENT"
      using assms(2,3) by (auto simp: list_shared_agents_for_actor_def shared_agents_set)
    have st: "strip (sh_agent_id s) = sh_agent_id s" using ok [OF s(1)] by (simp add: share_ok_def)
    have "get_agent_share_role db (sh_agent_id s) actor \<noteq> None" using role [OF st] s by blast
    with s st show "r \<in> set t \<and> r_active r \<and> r_kind r = KIND_AGENT
      \<and> (\<exists>a. r_agent_id r = Some a \<and> strip a = a \<and> get_agent_share_role db a actor \<noteq> None)" by blast
  next
    assume "r \<in> set t \<and> r_active r \<and> r_kind r = KIND_AGENT
      \<and> (\<exists>a. r_agent_id r = Some a \<and> strip a = a \<and> get_agent_share_role db a actor \<noteq> None)"
    then show "\<exists>s. (r, s) \<in> set (list_shared_agents_for_actor t db actor)"
      using role assms(2,3) by (auto simp: list_shared_agents_for_actor_def shared_agents_set)
  qed
qed

definition demo_share :: share_row where
  "demo_share = grant_new 2 ''ag'' ''ou_2'' ''shr_1'' ''editor'' ''ou_1''"

section \<open>Principal identity\<close>

lemma find_principal_get:
  "find_principal db pv tk it ci = tbl_get canonical_key (db_principals db) (strip pv, strip tk, strip it, strip ci)"
  by (simp add: find_principal_def tbl_get_def)

lemma upsert_aliases_principals: "db_principals (fst (upsert_aliases now pv tk pid db as)) = db_principals db"
  by (induction now pv tk pid db as rule: upsert_aliases.induct)
    (auto simp: upsert_principal_alias_def Let_def split: sum.splits if_splits)

text \<open>The principal that an upsert call leaves behind, whatever it returns.\<close>

lemma upsert_principal_found:
  assumes d: "distinct (map canonical_key (db_principals db))"
    and ne: "strip pv \<noteq> []" "strip tk \<noteq> []" "strip it \<noteq> []" "strip ci \<noteq> []"
    and fresh: "tbl_get pr_principal_id (db_principals db) new_pid = None"
  shows "\<exists>p. find_principal (fst (upsert_principal now new_pid db pv tk it ci name avatar email status json as)) pv tk it ci = Some p
    \<and> pr_principal_id p = (case find_principal db pv tk it ci of None \<Rightarrow> new_pid | Some q \<Rightarrow> pr_principal_id q)
    \<and> pr_created_at p = (case find_principal db pv tk it ci of None \<Rightarrow> now | Some q \<Rightarrow> pr_created_at q)
    \<and> (\<forall>q. snd (upsert_principal now new_pid db pv tk it ci name avatar email status json as) = Inr q \<longrightarrow> q = p)
    \<and> (\<exists>db'. upsert_principal now new_pid db pv tk it ci name avatar email status json as =
      (case upsert_aliases now (strip pv) (strip tk) (pr_principal_id p) db' as of
         (db'', Inl e) \<Rightarrow> (db'', Inl e) | (db'', Inr _) \<Rightarrow> (db'', Inr p)))"
proof -
  let ?k = "(strip pv, strip tk, strip it, strip ci)"
  let ?ex = "find_principal db pv tk it ci"
  define new where "new = \<lparr>pr_principal_id = (case ?ex of None \<Rightarrow> new_pid | Some p \<Rightarrow> pr_principal_id p),
    pr_provider = strip pv, pr_tenant_key = strip tk, pr_canonical_id_type = strip it,
    pr_canonical_id = strip ci, pr_display_name = blank_to_none name, pr_avatar_url = blank_to_none avatar,
    pr_email = blank_to_none email, pr_status = strip (py_or status ''active''), pr_profile_json = json,
    pr_merged_into_principal_id = None, pr_last_resolved_at = now,
    pr_created_at = (case ?ex of None \<Rightarrow> now | Some p \<Rightarrow> pr_created_at p), pr_updated_at = now\<rparr>"
  define f where "f = refresh_principal now (blank_to_none name) (blank_to_none avatar) (blank_to_none email)
    (strip (py_or status ''active'')) json"
  define db' where "db' = db\<lparr>db_principals := sql_upsert (\<lambda>p. canonical_key p = ?k) new f (db_principals db)\<rparr>"
  have k: "canonical_key new = ?k" by (simp add: new_def canonical_key_def)
  define p where "p = (case ?ex of None \<Rightarrow> new | Some q \<Rightarrow> f q)"
  have found: "find_principal db' pv tk it ci = Some p"
    using refreshed.get_upsert [OF d, where new = new and k = ?k, unfolded k]
    unfolding p_def f_def db'_def find_principal_get by simp
  have "find_principal db pv tk it ci = find_principal db (strip pv) (strip tk) (strip it) (strip ci)"
    by (simp add: find_principal_get)
  then have up: "upsert_principal now new_pid db pv tk it ci name avatar email status json as =
      (case upsert_aliases now (strip pv) (strip tk) (pr_principal_id p) db' as of
         (db'', Inl e) \<Rightarrow> (db'', Inl e) | (db'', Inr _) \<Rightarrow> (db'', Inr p))"
    using ne fresh found
    by (simp add: upsert_principal_def Let_def find_principal_get db'_def new_def f_def)
  have "db_principals (fst (upsert_principal now new_pid db pv tk it ci name avatar email status json as)) = db_principals db'"
    using upsert_aliases_principals [of now "strip pv" "strip tk" "pr_principal_id p" db' as]
    by (auto simp: up split: prod.splits sum.splits)
  with found have "find_principal (fst (upsert_principal now new_pid db pv tk it ci name avatar email status json as)) pv tk it ci = Some p"
    by (simp add: find_principal_get)
  moreover have "pr_principal_id p = (case ?ex of None \<Rightarrow> new_pid | Some q \<Rightarrow> pr_principal_id q)"
    "pr_created_at p = (case ?ex of None \<Rightarrow> now | Some q \<Rightarrow> pr_created_at q)"
    by (simp_all add: p_def new_def f_def refresh_principal_def split: option.splits)
  moreover have "\<forall>q. snd (upsert_principal now new_pid db pv tk it ci name avatar email status json as) = Inr q \<longrightarrow> q = p"
    by (auto simp: up split: prod.splits sum.splits)
  ultimately show ?thesis using up by blast
qed

text \<open>A principal keeps its identifier and creation time through every later upsert of the
  same canonical identity. The write comes before the alias checks and is not rolled back:
  a call that fails on a malformed alias still leaves the principal in the connection's
  tables.\<close>

lemma upsert_principal_identity:
  assumes "sharing_inv db" "strip pv \<noteq> []" "strip tk \<noteq> []" "strip it \<noteq> []" "strip ci \<noteq> []"
    and "tbl_get pr_principal_id (db_principals db) new_pid = None"
  shows "\<exists>p. find_principal (fst (upsert_principal now new_pid db pv tk it ci name avatar email status json aliases)) pv tk it ci = Some p
    \<and> (case find_principal db pv tk it ci of
         None \<Rightarrow> pr_principal_id p = new_pid
       | Some q \<Rightarrow> pr_principal_id p = pr_principal_id q \<and> pr_created_at p = pr_created_at q)
    \<and> (\<forall>a as. aliases = a # as \<and> strip (py_or (str_or_empty (aa_id_type a)) (str_or_empty (aa_type a))) = []
         \<longrightarrow> (\<exists>msg. snd (upsert_principal now new_pid db pv tk it ci name avatar email status json aliases) = Inl (ValueError msg)))"
proof -
  have d: "distinct (map canonical_key (db_principals db))" using assms(1) by (simp add: sharing_inv_def)
  let ?u = "upsert_principal now new_pid db pv tk it ci name avatar email status json aliases"
  obtain p db' where p: "find_principal (fst ?u) pv tk it ci = Some p"
    "pr_principal_id p = (case find_principal db pv tk it ci of None \<Rightarrow> new_pid | Some q \<Rightarrow> pr_principal_id q)"
    "pr_created_at p = (case find_principal db pv tk it ci of None \<Rightarrow> now | Some q \<Rightarrow> pr_created_at q)"
    and u: "?u = (case upsert_aliases now (strip pv) (strip tk) (pr_principal_id p) db' aliases of
         (db'', Inl e) \<Rightarrow> (db'', Inl e) | (db'', Inr _) \<Rightarrow> (db'', Inr p))"
    using upsert_principal_found [OF d assms(2-6)] by blast
  have "\<exists>msg. snd ?u = Inl (ValueError msg)"
    if "aliases = a # as" "strip (py_or (str_or_empty (aa_id_type a)) (str_or_empty (aa_type a))) = []" for a as
    unfolding u using that by (simp add: upsert_principal_alias_def)
  with p show ?thesis by (intro exI [of _ p]) (auto split: option.splits)
qed

end
