(* ===== verification/Push_Registry.thy ===== *)
theory Push_Registry
  imports Hermes_Prelude
begin

text \<open>
  The push-card registry (\<open>src/hermes_multitenancy/push_registry.py\<close>): the life of a card from
  \<open>sending\<close> to a terminal status, with compare-and-swap transitions, idempotent creation, expiry
  and archiving. Each method is one transaction under the store's lock. Random identifiers and
  the clock are arguments; JSON arguments are given in their encoded form.
\<close>

section \<open>Data\<close>

datatype push_status = Sending | Pending | Clarifying | Confirmed | Committed | Failed | Expired

definition OPEN_STATUSES :: "push_status list" where
  "OPEN_STATUSES = [Pending, Clarifying]"

definition INFLIGHT_STATUSES :: "push_status list" where
  "INFLIGHT_STATUSES = [Sending, Pending, Clarifying, Confirmed]"

definition EXPIRABLE_STATUSES :: "push_status list" where
  "EXPIRABLE_STATUSES = [Sending, Pending, Clarifying]"

definition FINISHED_STATUSES :: "push_status list" where
  "FINISHED_STATUSES = [Committed, Failed, Expired]"

record push_row =
  p_registry_id :: string
  p_scene :: string
  p_skill :: string
  p_target_open_id :: string
  p_target_union_id :: "string option"
  p_profile_name :: string
  p_chat_id :: "string option"
  p_message_id :: "string option"
  p_payload_json :: "string option"
  p_card_json :: "string option"
  p_submission_json :: "string option"
  p_callback_json :: "string option"
  p_behaviors_json :: "string option"
  p_scene_spec_json :: "string option"
  p_status :: push_status
  p_business_key :: string
  p_idempotency_key :: "string option"
  p_nonce :: "string option"
  p_send_attempts :: nat
  p_write_attempts :: nat
  p_last_error :: "string option"
  p_expires_at :: "int option"
  p_created_at :: int
  p_updated_at :: int

text \<open>An archived row carries its archiving time.\<close>

record push_db =
  pd_rows :: "push_row list"
  pd_archive :: "(push_row \<times> int) list"

definition inflight :: "push_row \<Rightarrow> bool" where
  "inflight r \<longleftrightarrow> p_status r \<in> set INFLIGHT_STATUSES"

definition push_indexes :: "push_row list \<Rightarrow> bool" where
  "push_indexes t \<longleftrightarrow> distinct (map p_registry_id t) \<and> unique_index (\<lambda>_. True) p_idempotency_key t
     \<and> unique_index inflight (\<lambda>r. Some (p_business_key r)) t"

datatype create_conflict = Idempotent | Business_Key

record create_result =
  cr_row :: push_row
  cr_created :: bool
  cr_conflict :: "create_conflict option"

section \<open>Create and reads\<close>

text \<open>The arguments of \<open>create\<close> are the columns of a row; identifier, status, counters, nonce
  default and times are filled in here. \<open>rid\<close> and \<open>rnonce\<close> are the random values.\<close>

definition create :: "int \<Rightarrow> string \<Rightarrow> string \<Rightarrow> push_db \<Rightarrow> push_row \<Rightarrow> (push_db \<times> create_result) result" where
  "create now rid rnonce db args =
     (let key = str_or_empty (p_idempotency_key args);
          same_key = fetchone (filter (\<lambda>r. p_idempotency_key r = Some key) (pd_rows db));
          busy = fetchone (filter (\<lambda>r. p_business_key r = p_business_key args \<and> inflight r) (pd_rows db));
          row = args\<lparr>p_registry_id := rid, p_message_id := None, p_submission_json := None, p_status := Sending,
                 p_nonce := Some (py_or (str_or_empty (p_nonce args)) rnonce), p_send_attempts := 0, p_write_attempts := 0,
                 p_last_error := None, p_created_at := now, p_updated_at := now\<rparr>
      in if key \<noteq> [] \<and> same_key \<noteq> None
         then Inr (db, \<lparr>cr_row = the same_key, cr_created = False, cr_conflict = Some Idempotent\<rparr>)
         else if busy \<noteq> None
         then Inr (db, \<lparr>cr_row = the busy, cr_created = False, cr_conflict = Some Business_Key\<rparr>)
         else if push_indexes (pd_rows db @ [row])
         then Inr (db\<lparr>pd_rows := pd_rows db @ [row]\<rparr>, \<lparr>cr_row = row, cr_created = True, cr_conflict = None\<rparr>)
         else Inl IntegrityError)"

definition push_get :: "push_db \<Rightarrow> string \<Rightarrow> push_row option" where
  "push_get db rid = tbl_get p_registry_id (pd_rows db) rid"

definition get_by_idempotency_key :: "push_db \<Rightarrow> string \<Rightarrow> push_row option" where
  "get_by_idempotency_key db key = fetchone (filter (\<lambda>r. p_idempotency_key r = Some key) (pd_rows db))"

definition get_inflight_by_business_key :: "push_db \<Rightarrow> string \<Rightarrow> push_row option" where
  "get_inflight_by_business_key db bk = fetchone (filter (\<lambda>r. p_business_key r = bk \<and> inflight r) (pd_rows db))"

definition list_open_for_user :: "push_db \<Rightarrow> string \<Rightarrow> int \<Rightarrow> push_row list" where
  "list_open_for_user db target now =
     order_by p_created_at (filter (\<lambda>r. p_target_open_id r = target \<and> p_status r \<in> set OPEN_STATUSES
       \<and> (case p_expires_at r of None \<Rightarrow> True | Some e \<Rightarrow> e > now)) (pd_rows db))"

definition count_pushes_today :: "push_db \<Rightarrow> string \<Rightarrow> int \<Rightarrow> nat" where
  "count_pushes_today db target day_start =
     rowcount (\<lambda>r. p_target_open_id r = target \<and> p_created_at r \<ge> day_start
       \<and> p_status r \<notin> set [Sending, Failed, Expired]) (pd_rows db)"

definition get_by_message_id :: "push_db \<Rightarrow> string option \<Rightarrow> push_row option" where
  "get_by_message_id db message_id =
     (let mid = str_or_empty message_id
      in if mid = [] then None
         else fetchone (order_by_desc p_created_at (filter (\<lambda>r. p_message_id r = Some mid) (pd_rows db))))"

definition get_fresh_sending :: "push_db \<Rightarrow> string \<Rightarrow> int \<Rightarrow> push_row option" where
  "get_fresh_sending db target since =
     fetchone (order_by_desc p_created_at (filter (\<lambda>r. p_target_open_id r = target \<and> p_status r = Sending
       \<and> p_message_id r = None \<and> p_created_at r \<ge> since) (pd_rows db)))"

definition due :: "int \<Rightarrow> push_row \<Rightarrow> bool" where
  "due now r \<longleftrightarrow> p_status r \<in> set EXPIRABLE_STATUSES
     \<and> (case p_expires_at r of None \<Rightarrow> False | Some e \<Rightarrow> e \<le> now)"

definition list_due_open :: "push_db \<Rightarrow> int \<Rightarrow> push_row list" where
  "list_due_open db now = sort_key (\<lambda>r. the (p_expires_at r)) (filter (due now) (pd_rows db))"

definition list_stale_confirmed :: "push_db \<Rightarrow> int \<Rightarrow> push_row list" where
  "list_stale_confirmed db older_than =
     order_by p_updated_at (filter (\<lambda>r. p_status r = Confirmed \<and> p_updated_at r \<le> older_than) (pd_rows db))"

definition list_sending_stale :: "push_db \<Rightarrow> int \<Rightarrow> push_row list" where
  "list_sending_stale db older_than =
     order_by p_updated_at (filter (\<lambda>r. p_status r = Sending \<and> p_updated_at r \<le> older_than) (pd_rows db))"

definition push_count :: "push_db \<Rightarrow> nat" where
  "push_count db = length (pd_rows db)"

section \<open>Transitions\<close>

text \<open>An UPDATE with its row count.\<close>

definition push_update :: "(push_row \<Rightarrow> bool) \<Rightarrow> (push_row \<Rightarrow> push_row) \<Rightarrow> push_db \<Rightarrow> push_db \<times> bool" where
  "push_update P f db = (db\<lparr>pd_rows := sql_update P f (pd_rows db)\<rparr>, rowcount P (pd_rows db) > 0)"

definition reset_submission :: "int \<Rightarrow> push_db \<Rightarrow> string \<Rightarrow> push_db \<times> bool" where
  "reset_submission now db rid =
     push_update (\<lambda>r. p_registry_id r = rid \<and> p_status r \<in> set OPEN_STATUSES)
       (\<lambda>r. r\<lparr>p_submission_json := None, p_updated_at := now\<rparr>) db"

definition sent_row :: "int \<Rightarrow> string \<Rightarrow> string option \<Rightarrow> push_row \<Rightarrow> push_row" where
  "sent_row now message_id chat_id r =
     r\<lparr>p_status := Pending, p_message_id := Some message_id, p_chat_id := coalesce chat_id (p_chat_id r),
       p_send_attempts := p_send_attempts r + 1, p_updated_at := now\<rparr>"

definition mark_sent :: "int \<Rightarrow> push_db \<Rightarrow> string \<Rightarrow> string \<Rightarrow> string option \<Rightarrow> push_db \<times> bool" where
  "mark_sent now db rid message_id chat_id =
     push_update (\<lambda>r. p_registry_id r = rid \<and> p_status r = Sending) (sent_row now message_id chat_id) db"

definition failed_row :: "int \<Rightarrow> string \<Rightarrow> push_row \<Rightarrow> push_row" where
  "failed_row now error r =
     r\<lparr>p_status := Failed, p_last_error := Some (take_chars 2000 error), p_send_attempts := p_send_attempts r + 1,
       p_updated_at := now\<rparr>"

definition mark_send_failed :: "int \<Rightarrow> push_db \<Rightarrow> string \<Rightarrow> string \<Rightarrow> push_db \<times> bool" where
  "mark_send_failed now db rid error =
     push_update (\<lambda>r. p_registry_id r = rid \<and> p_status r = Sending) (failed_row now error) db"

definition noted_row :: "int \<Rightarrow> string option \<Rightarrow> push_row \<Rightarrow> push_row" where
  "noted_row now error r =
     r\<lparr>p_send_attempts := p_send_attempts r + 1,
       p_last_error := coalesce (map_option (take_chars 2000) (nullif error [])) (p_last_error r), p_updated_at := now\<rparr>"

definition note_send_attempt :: "int \<Rightarrow> push_db \<Rightarrow> string \<Rightarrow> string option \<Rightarrow> push_db" where
  "note_send_attempt now db rid error = fst (push_update (\<lambda>r. p_registry_id r = rid) (noted_row now error) db)"

text \<open>The optional SET clauses of \<open>advance_status\<close>.\<close>

record advance_args =
  aa_expect :: push_status
  aa_to :: push_status
  aa_expect_nonce :: "string option"
  aa_clear_nonce :: bool
  aa_submission :: "string option"
  aa_message_id :: "string option"
  aa_last_error :: "string option"
  aa_bump_write_attempts :: bool

definition advanced_row :: "int \<Rightarrow> advance_args \<Rightarrow> push_row \<Rightarrow> push_row" where
  "advanced_row now a r =
     r\<lparr>p_status := aa_to a, p_updated_at := now,
       p_submission_json := coalesce (aa_submission a) (p_submission_json r),
       p_message_id := coalesce (aa_message_id a) (p_message_id r),
       p_last_error := coalesce (map_option (take_chars 2000) (aa_last_error a)) (p_last_error r),
       p_nonce := (if aa_clear_nonce a then None else p_nonce r),
       p_write_attempts := (if aa_bump_write_attempts a then p_write_attempts r + 1 else p_write_attempts r)\<rparr>"

definition advance_guard :: "advance_args \<Rightarrow> push_row \<Rightarrow> bool" where
  "advance_guard a r \<longleftrightarrow> p_status r = aa_expect a
     \<and> (case aa_expect_nonce a of None \<Rightarrow> True | Some n \<Rightarrow> p_nonce r = Some n)"

definition advance_status :: "int \<Rightarrow> push_db \<Rightarrow> string \<Rightarrow> advance_args \<Rightarrow> (push_db \<times> bool) result" where
  "advance_status now db rid a =
     (let res = push_update (\<lambda>r. p_registry_id r = rid \<and> advance_guard a r) (advanced_row now a) db
      in if push_indexes (pd_rows (fst res)) then Inr res else Inl IntegrityError)"

definition expired_row :: "int \<Rightarrow> push_row \<Rightarrow> push_row" where
  "expired_row now r = r\<lparr>p_status := Expired, p_updated_at := now\<rparr>"

definition expire_due :: "int \<Rightarrow> push_db \<Rightarrow> push_db \<times> nat" where
  "expire_due now db =
     (db\<lparr>pd_rows := sql_update (due now) (expired_row now) (pd_rows db)\<rparr>, rowcount (due now) (pd_rows db))"

text \<open>\<open>INSERT OR REPLACE\<close> into the archive: an old copy with the same identifier goes.\<close>

definition archive_put :: "int \<Rightarrow> (push_row \<times> int) list \<Rightarrow> push_row \<Rightarrow> (push_row \<times> int) list" where
  "archive_put now ar r = filter (\<lambda>x. p_registry_id (fst x) \<noteq> p_registry_id r) ar @ [(r, now)]"

definition archivable :: "int \<Rightarrow> push_row \<Rightarrow> bool" where
  "archivable older_than r \<longleftrightarrow> p_status r \<in> set FINISHED_STATUSES \<and> p_updated_at r \<le> older_than"

definition archive_finished :: "int \<Rightarrow> int \<Rightarrow> push_db \<Rightarrow> push_db \<times> nat" where
  "archive_finished now older_than db =
     (let rows = filter (archivable older_than) (pd_rows db)
      in if rows = [] then (db, 0)
         else (db\<lparr>pd_archive := foldl (archive_put now) (pd_archive db) rows,
                  pd_rows := foldl (\<lambda>t r. sql_delete (\<lambda>q. p_registry_id q = p_registry_id r) t) (pd_rows db) rows\<rparr>,
               length rows))"

section \<open>Runs\<close>

datatype push_op =
    Create int string string push_row
  | ResetSubmission int string
  | MarkSent int string string "string option"
  | MarkSendFailed int string string
  | NoteSendAttempt int string "string option"
  | Advance int string advance_args
  | ExpireDue int
  | ArchiveFinished int int

fun push_exec :: "push_op \<Rightarrow> push_db \<Rightarrow> push_db" where
  "push_exec (Create now rid nonce args) db = (case create now rid nonce db args of Inl _ \<Rightarrow> db | Inr (db', _) \<Rightarrow> db')"
| "push_exec (ResetSubmission now rid) db = fst (reset_submission now db rid)"
| "push_exec (MarkSent now rid mid chat) db = fst (mark_sent now db rid mid chat)"
| "push_exec (MarkSendFailed now rid err) db = fst (mark_send_failed now db rid err)"
| "push_exec (NoteSendAttempt now rid err) db = note_send_attempt now db rid err"
| "push_exec (Advance now rid a) db = (case advance_status now db rid a of Inl _ \<Rightarrow> db | Inr (db', _) \<Rightarrow> db')"
| "push_exec (ExpireDue now) db = fst (expire_due now db)"
| "push_exec (ArchiveFinished now older) db = fst (archive_finished now older db)"

definition push_run :: "push_op list \<Rightarrow> push_db \<Rightarrow> push_db" where
  "push_run ops db = foldl (\<lambda>d opr. push_exec opr d) db ops"

definition empty_registry :: push_db where
  "empty_registry = \<lparr>pd_rows = [], pd_archive = []\<rparr>"

section \<open>Index preservation\<close>

definition push_inv :: "push_db \<Rightarrow> bool" where
  "push_inv db \<longleftrightarrow> push_indexes (pd_rows db)"

lemma push_indexes_iff:
  assumes "distinct (map p_registry_id t)"
  shows "push_indexes t \<longleftrightarrow> (\<forall>r \<in> set t. \<forall>q \<in> set t.
    (p_idempotency_key r \<noteq> None \<and> p_idempotency_key r = p_idempotency_key q \<longrightarrow> p_registry_id r = p_registry_id q)
    \<and> (inflight r \<and> inflight q \<and> p_business_key r = p_business_key q \<longrightarrow> p_registry_id r = p_registry_id q))"
  unfolding push_indexes_def unique_index_key_iff [OF assms] using assms
  by (simp del: not_None_eq not_Some_eq) blast

definition keeps_keys :: "(push_row \<Rightarrow> push_row) \<Rightarrow> bool" where
  "keeps_keys f \<longleftrightarrow> (\<forall>r. p_registry_id (f r) = p_registry_id r \<and> p_idempotency_key (f r) = p_idempotency_key r
     \<and> p_business_key (f r) = p_business_key r)"

lemma update_indexes:
  assumes "push_indexes t" "keeps_keys f" "\<And>r. r \<in> set t \<Longrightarrow> P r \<Longrightarrow> inflight (f r) \<Longrightarrow> inflight r"
  shows "push_indexes (sql_update P f t)"
proof -
  have d: "distinct (map p_registry_id t)" using assms(1) by (simp add: push_indexes_def)
  have d': "distinct (map p_registry_id (sql_update P f t))"
    using d map_sql_update [of t P p_registry_id f] assms(2) by (simp add: keeps_keys_def)
  have from_old: "\<exists>q \<in> set t. p_registry_id r = p_registry_id q \<and> p_idempotency_key r = p_idempotency_key q
      \<and> p_business_key r = p_business_key q \<and> (inflight r \<longrightarrow> inflight q)" if r: "r \<in> set (sql_update P f t)" for r
    using mem_sql_update [OF r] assms(2,3) by (auto simp: keeps_keys_def split: if_splits)
  show ?thesis
    unfolding push_indexes_iff [OF d']
  proof (intro ballI)
    fix r q assume r: "r \<in> set (sql_update P f t)" and q: "q \<in> set (sql_update P f t)"
    from from_old [OF r] obtain r' where r': "r' \<in> set t" "p_registry_id r = p_registry_id r'"
        "p_idempotency_key r = p_idempotency_key r'" "p_business_key r = p_business_key r'" "inflight r \<longrightarrow> inflight r'"
      by blast
    from from_old [OF q] obtain q' where q': "q' \<in> set t" "p_registry_id q = p_registry_id q'"
        "p_idempotency_key q = p_idempotency_key q'" "p_business_key q = p_business_key q'" "inflight q \<longrightarrow> inflight q'"
      by blast
    have "(p_idempotency_key r' \<noteq> None \<and> p_idempotency_key r' = p_idempotency_key q' \<longrightarrow> p_registry_id r' = p_registry_id q')
      \<and> (inflight r' \<and> inflight q' \<and> p_business_key r' = p_business_key q' \<longrightarrow> p_registry_id r' = p_registry_id q')"
      using assms(1) r'(1) q'(1) unfolding push_indexes_iff [OF d] by blast
    with r'(2-5) q'(2-5)
    show "(p_idempotency_key r \<noteq> None \<and> p_idempotency_key r = p_idempotency_key q \<longrightarrow> p_registry_id r = p_registry_id q)
      \<and> (inflight r \<and> inflight q \<and> p_business_key r = p_business_key q \<longrightarrow> p_registry_id r = p_registry_id q)"
      by metis
  qed
qed

lemma push_update_inv:
  assumes "push_inv db" "keeps_keys f" "\<And>r. r \<in> set (pd_rows db) \<Longrightarrow> P r \<Longrightarrow> inflight (f r) \<Longrightarrow> inflight r"
  shows "push_inv (fst (push_update P f db))"
  using update_indexes [of "pd_rows db" f P] assms by (simp add: push_inv_def push_update_def)

lemmas push_rows = sent_row_def failed_row_def noted_row_def advanced_row_def expired_row_def

lemma keeps_keys_ops [simp]:
  "keeps_keys (sent_row now m c)" "keeps_keys (failed_row now e)" "keeps_keys (noted_row now oe)"
  "keeps_keys (advanced_row now a)" "keeps_keys (expired_row now)"
  "keeps_keys (\<lambda>r. r\<lparr>p_submission_json := None, p_updated_at := now\<rparr>)"
  by (simp_all add: keeps_keys_def push_rows)

interpretation sent_rows: row_update p_registry_id "sent_row now m c"
  by unfold_locales (simp add: push_rows)

interpretation advanced_rows: row_update p_registry_id "advanced_row now a"
  by unfold_locales (simp add: push_rows)

interpretation expired_rows: row_update p_registry_id "expired_row now"
  by unfold_locales (simp add: push_rows)

lemma mark_sent_inv: "push_inv db \<Longrightarrow> push_inv (fst (mark_sent now db rid m c))"
  unfolding mark_sent_def by (rule push_update_inv) (simp_all add: inflight_def push_rows INFLIGHT_STATUSES_def)

lemma filter_indexes:
  assumes "push_indexes t"
  shows "push_indexes (filter P t)"
proof -
  have d: "distinct (map p_registry_id t)" using assms by (simp add: push_indexes_def)
  then have "distinct (map p_registry_id (filter P t))" by (rule distinct_map_filter)
  from push_indexes_iff [OF this] push_indexes_iff [OF d] assms show ?thesis by auto
qed

lemma delete_all_eq:
  "foldl (\<lambda>t r. sql_delete (\<lambda>q. p_registry_id q = p_registry_id r) t) t rows =
     filter (\<lambda>q. p_registry_id q \<notin> p_registry_id ` set rows) t"
  by (induction rows arbitrary: t) (auto simp: sql_delete_def intro: filter_cong)

lemma archive_rows:
  assumes "push_inv db"
  shows "pd_rows (fst (archive_finished now older db)) = filter (\<lambda>r. \<not> archivable older r) (pd_rows db)"
proof -
  let ?rows = "filter (archivable older) (pd_rows db)"
  have d: "distinct (map p_registry_id (pd_rows db))" using assms by (simp add: push_inv_def push_indexes_def)
  have "(p_registry_id q \<notin> p_registry_id ` set ?rows) = (\<not> archivable older q)" if "q \<in> set (pd_rows db)" for q
    using d that by (auto simp: distinct_map inj_on_def)
  then have "filter (\<lambda>q. p_registry_id q \<notin> p_registry_id ` set ?rows) (pd_rows db)
      = filter (\<lambda>r. \<not> archivable older r) (pd_rows db)"
    by (intro filter_cong) auto
  moreover have "?rows = [] \<Longrightarrow> filter (\<lambda>r. \<not> archivable older r) (pd_rows db) = pd_rows db"
    by (auto simp: filter_empty_conv filter_id_conv)
  ultimately show ?thesis by (simp add: archive_finished_def Let_def delete_all_eq)
qed

lemma create_inv:
  "push_inv db \<Longrightarrow> create now rid n db args = Inr (db', res) \<Longrightarrow> push_inv db'"
  by (auto simp: create_def Let_def push_inv_def split: if_splits)

lemma push_exec_inv:
  assumes "push_inv db"
  shows "push_inv (push_exec opr db)"
proof (cases opr)
  case (Create now rid n args)
  with create_inv [OF assms] assms show ?thesis by (auto split: sum.splits)
next
  case (ResetSubmission now rid)
  have "push_inv (fst (reset_submission now db rid))"
    unfolding reset_submission_def by (rule push_update_inv [OF assms]) (simp_all add: inflight_def)
  with ResetSubmission show ?thesis by simp
next
  case (MarkSendFailed now rid e)
  have "push_inv (fst (mark_send_failed now db rid e))"
    unfolding mark_send_failed_def by (rule push_update_inv [OF assms]) (simp_all add: inflight_def push_rows INFLIGHT_STATUSES_def)
  with MarkSendFailed show ?thesis by simp
next
  case (NoteSendAttempt now rid e)
  have "push_inv (note_send_attempt now db rid e)"
    unfolding note_send_attempt_def by (rule push_update_inv [OF assms]) (simp_all add: inflight_def push_rows)
  with NoteSendAttempt show ?thesis by simp
next
  case (Advance now rid a)
  with assms show ?thesis by (simp add: advance_status_def Let_def push_inv_def split: prod.split)
next
  case (ExpireDue now)
  have "push_indexes (sql_update (due now) (expired_row now) (pd_rows db))"
    by (rule update_indexes) (use assms in \<open>simp_all add: push_inv_def inflight_def push_rows INFLIGHT_STATUSES_def\<close>)
  with ExpireDue show ?thesis by (simp add: expire_due_def push_inv_def)
next
  case (ArchiveFinished now older)
  with archive_rows [OF assms] filter_indexes assms show ?thesis by (simp add: push_inv_def)
qed (simp add: mark_sent_inv assms)

lemma push_run_inv: "push_inv db \<Longrightarrow> push_inv (push_run ops db)"
  unfolding push_run_def by (induction ops arbitrary: db) (simp_all add: push_exec_inv)

lemma empty_registry_inv: "push_inv empty_registry"
  by (simp add: push_inv_def empty_registry_def push_indexes_def unique_index_def)

section \<open>Creation and keys\<close>

lemma append_indexes:
  assumes "push_indexes t" "p_registry_id row \<notin> p_registry_id ` set t"
    and "\<And>q. q \<in> set t \<Longrightarrow> p_idempotency_key row \<noteq> None \<Longrightarrow> p_idempotency_key q \<noteq> p_idempotency_key row"
    and "\<And>q. q \<in> set t \<Longrightarrow> inflight q \<Longrightarrow> p_business_key q \<noteq> p_business_key row"
  shows "push_indexes (t @ [row])"
proof -
  have d: "distinct (map p_registry_id t)" using assms(1) by (simp add: push_indexes_def)
  have d': "distinct (map p_registry_id (t @ [row]))" using d assms(2) by simp
  show ?thesis
    unfolding push_indexes_iff [OF d']
  proof (intro ballI)
    fix r q assume rq: "r \<in> set (t @ [row])" "q \<in> set (t @ [row])"
    have old: "(p_idempotency_key r \<noteq> None \<and> p_idempotency_key r = p_idempotency_key q \<longrightarrow> p_registry_id r = p_registry_id q)
      \<and> (inflight r \<and> inflight q \<and> p_business_key r = p_business_key q \<longrightarrow> p_registry_id r = p_registry_id q)"
      if "r \<in> set t" "q \<in> set t"
      using assms(1) that unfolding push_indexes_iff [OF d] by blast
    show "(p_idempotency_key r \<noteq> None \<and> p_idempotency_key r = p_idempotency_key q \<longrightarrow> p_registry_id r = p_registry_id q)
      \<and> (inflight r \<and> inflight q \<and> p_business_key r = p_business_key q \<longrightarrow> p_registry_id r = p_registry_id q)"
    proof (cases "r \<in> set t"; cases "q \<in> set t")
      assume "r \<in> set t" "q \<in> set t"
      then show ?thesis by (rule old)
    next
      assume "r \<in> set t" "q \<notin> set t"
      moreover from this have "q = row" using rq by simp
      ultimately show ?thesis using assms(3) [of r] assms(4) [of r] by metis
    next
      assume "r \<notin> set t" "q \<in> set t"
      moreover from this have "r = row" using rq by simp
      ultimately show ?thesis using assms(3) [of q] assms(4) [of q] by metis
    next
      assume "r \<notin> set t" "q \<notin> set t"
      with rq show ?thesis by simp
    qed
  qed
qed

lemma create_not_error:
  assumes "push_inv db" "push_get db rid = None" "p_idempotency_key args \<noteq> Some []"
  shows "create now rid n db args \<noteq> Inl e"
proof
  assume err: "create now rid n db args = Inl e"
  let ?row = "args\<lparr>p_registry_id := rid, p_message_id := None, p_submission_json := None, p_status := Sending,
                 p_nonce := Some (py_or (str_or_empty (p_nonce args)) n), p_send_attempts := 0, p_write_attempts := 0,
                 p_last_error := None, p_created_at := now, p_updated_at := now\<rparr>"
  have nokey: "str_or_empty (p_idempotency_key args) \<noteq> [] \<Longrightarrow>
      \<forall>q \<in> set (pd_rows db). p_idempotency_key q \<noteq> Some (str_or_empty (p_idempotency_key args))"
    and nobusy: "\<forall>q \<in> set (pd_rows db). p_business_key q = p_business_key args \<longrightarrow> \<not> inflight q"
    and bad: "\<not> push_indexes (pd_rows db @ [?row])"
    using err by (auto simp: create_def Let_def filter_empty_conv split: if_splits)
  have "push_indexes (pd_rows db @ [?row])"
  proof (rule append_indexes)
    show "push_indexes (pd_rows db)" using assms(1) by (simp add: push_inv_def)
    show "p_registry_id ?row \<notin> p_registry_id ` set (pd_rows db)"
      using assms(2) by (simp add: push_get_def tbl_get_None)
  next
    fix q assume "q \<in> set (pd_rows db)" "p_idempotency_key ?row \<noteq> None"
    with nokey assms(3) show "p_idempotency_key q \<noteq> p_idempotency_key ?row"
      by (cases "p_idempotency_key args") (auto simp: str_or_empty_def)
  next
    fix q assume "q \<in> set (pd_rows db)" "inflight q"
    with nobusy show "p_business_key q \<noteq> p_business_key ?row" by auto
  qed
  with bad show False by simp
qed

text \<open>The row that holds an identifier together with its idempotency key.\<close>

definition holds_key :: "push_db \<Rightarrow> string \<Rightarrow> string \<Rightarrow> bool" where
  "holds_key db rid k \<longleftrightarrow> list_ex (\<lambda>r. p_registry_id r = rid \<and> p_idempotency_key r = Some k) (pd_rows db)"

lemma list_ex_sql_update: "(\<And>r. Q r \<Longrightarrow> Q (f r)) \<Longrightarrow> list_ex Q t \<Longrightarrow> list_ex Q (sql_update P f t)"
  by (induction t) auto

lemma update_holds: "keeps_keys f \<Longrightarrow> holds_key db rid k \<Longrightarrow> holds_key (fst (push_update P f db)) rid k"
  unfolding holds_key_def push_update_def by (simp add: list_ex_sql_update keeps_keys_def)

fun is_archive :: "push_op \<Rightarrow> bool" where
  "is_archive (ArchiveFinished now older) = True"
| "is_archive _ = False"

lemma exec_holds:
  assumes "holds_key db rid k" "\<not> is_archive opr"
  shows "holds_key (push_exec opr db) rid k"
  using assms(1)
proof (cases opr)
  case (Create now rid' n args)
  with assms(1) show ?thesis
    by (auto simp: create_def Let_def holds_key_def split: sum.splits if_splits)
next
  case (Advance now rid' a)
  with update_holds [OF _ assms(1)] assms(1) show ?thesis
    by (simp add: advance_status_def Let_def split: prod.split) (metis fst_conv keeps_keys_ops(4))
next
  case (ExpireDue now)
  with update_holds [OF _ assms(1), of "expired_row now" "due now"] show ?thesis
    by (simp add: expire_due_def push_update_def)
qed (use assms update_holds in \<open>auto simp: reset_submission_def mark_sent_def mark_send_failed_def note_send_attempt_def\<close>)

lemma run_holds:
  "holds_key db rid k \<Longrightarrow> \<not> list_ex is_archive ops \<Longrightarrow> holds_key (push_run ops db) rid k"
  unfolding push_run_def by (induction ops arbitrary: db) (simp_all add: exec_holds)

lemma create_holds:
  assumes "create now rid n db args = Inr (db', res)" "cr_conflict res \<noteq> Some Business_Key"
    and "p_idempotency_key args = Some k" "k \<noteq> []"
  shows "holds_key db' (p_registry_id (cr_row res)) k"
  using assms
  by (auto simp: create_def Let_def str_or_empty_def holds_key_def list_ex_iff dest!: fetchone_Some_mem split: if_splits)

lemma create_found:
  assumes "push_inv db" "holds_key db rid k" "p_idempotency_key args = Some k" "k \<noteq> []"
  shows "\<exists>res. create now rid' n db args = Inr (db, res) \<and> \<not> cr_created res
    \<and> cr_conflict res = Some Idempotent \<and> p_registry_id (cr_row res) = rid"
proof -
  obtain r where r: "r \<in> set (pd_rows db)" "p_registry_id r = rid" "p_idempotency_key r = Some k"
    using assms(2) by (auto simp: holds_key_def list_ex_iff)
  have d: "distinct (map p_registry_id (pd_rows db))" using assms(1) by (simp add: push_inv_def push_indexes_def)
  have "filter (\<lambda>r. p_idempotency_key r = Some k) (pd_rows db) = [r]"
  proof (rule filter_singleton [OF d r(1)])
    fix q assume "q \<in> set (pd_rows db)" "p_idempotency_key q = Some k"
    with assms(1) r show "p_registry_id q = p_registry_id r"
      unfolding push_inv_def push_indexes_iff [OF d] by (metis option.distinct(1))
  qed (rule r(3))
  with assms(3,4) r show ?thesis by (simp add: create_def Let_def str_or_empty_def)
qed

section \<open>Compare-and-swap transitions\<close>

text \<open>The send worker's transition, as its caller issues it.\<close>

definition try_sent :: "int \<times> string \<times> string option \<Rightarrow> push_db \<Rightarrow> string \<Rightarrow> push_db \<times> bool" where
  "try_sent a db rid = (case a of (now, mid, chat) \<Rightarrow> mark_sent now db rid mid chat)"

text \<open>The claim of the confirm handler: from \<open>clarifying\<close> with a given nonce to \<open>confirmed\<close>, keeping the
  nonce. A failing index is an exception, so the call does not win.\<close>

definition confirm_args :: "string \<Rightarrow> string option \<Rightarrow> advance_args" where
  "confirm_args nonce submission = \<lparr>aa_expect = Clarifying, aa_to = Confirmed, aa_expect_nonce = Some nonce,
     aa_clear_nonce = False, aa_submission = submission, aa_message_id = None, aa_last_error = None,
     aa_bump_write_attempts = False\<rparr>"

definition try_confirm :: "int \<times> string \<times> string option \<Rightarrow> push_db \<Rightarrow> string \<Rightarrow> push_db \<times> bool" where
  "try_confirm a db rid = (case a of (now, nonce, submission) \<Rightarrow>
     (case advance_status now db rid (confirm_args nonce submission) of Inl _ \<Rightarrow> (db, False) | Inr res \<Rightarrow> res))"

definition in_status :: "push_status \<Rightarrow> push_db \<Rightarrow> string \<Rightarrow> bool" where
  "in_status st db rid \<longleftrightarrow> (case push_get db rid of None \<Rightarrow> False | Some r \<Rightarrow> p_status r = st)"

lemma push_update_get:
  assumes "push_inv db" "keeps_keys f"
  shows "push_get (fst (push_update P f db)) rid = map_option (\<lambda>r. if P r then f r else r) (push_get db rid)"
proof -
  have "row_update p_registry_id f" using assms(2) by unfold_locales (simp add: keeps_keys_def)
  from row_update.get_upd [OF this] assms(1) show ?thesis
    by (simp add: push_get_def push_update_def push_inv_def push_indexes_def)
qed

lemma push_update_won:
  assumes "push_inv db"
  shows "snd (push_update (\<lambda>r. p_registry_id r = rid \<and> Q r) f db) \<longleftrightarrow>
    (case push_get db rid of None \<Rightarrow> False | Some r \<Rightarrow> Q r)"
  using rowcount_key [of p_registry_id "pd_rows db" rid Q] assms
  by (auto simp: push_update_def push_get_def push_inv_def push_indexes_def split: option.splits)

lemma confirm_ok:
  assumes "push_inv db"
  shows "try_confirm (now, n, sub) db rid =
    push_update (\<lambda>r. p_registry_id r = rid \<and> advance_guard (confirm_args n sub) r) (advanced_row now (confirm_args n sub)) db"
proof -
  let ?a = "confirm_args n sub"
  have "push_inv (fst (push_update (\<lambda>r. p_registry_id r = rid \<and> advance_guard ?a r) (advanced_row now ?a) db))"
    by (rule push_update_inv [OF assms])
      (simp_all add: inflight_def advance_guard_def confirm_args_def INFLIGHT_STATUSES_def)
  then show ?thesis by (simp add: try_confirm_def advance_status_def Let_def push_inv_def)
qed

lemma push_get_id: "push_get db rid = Some r \<Longrightarrow> p_registry_id r = rid"
  unfolding push_get_def by (drule tbl_get_mem) simp

interpretation send_cas: cas_op push_inv "in_status Sending" try_sent
proof
  fix db rid and a :: "int \<times> string \<times> string option" assume inv: "push_inv db"
  obtain now mid chat where a: "a = (now, mid, chat)" by (cases a) auto
  note get = push_update_get [OF inv, of "sent_row now mid chat"
      "\<lambda>r. p_registry_id r = rid \<and> p_status r = Sending"]
  show "push_inv (fst (try_sent a db rid))" using mark_sent_inv [OF inv] by (simp add: a try_sent_def)
  show "in_status Sending db rid" if "snd (try_sent a db rid)"
    using that push_update_won [OF inv] by (simp add: a try_sent_def mark_sent_def in_status_def)
  show "\<not> in_status Sending (fst (try_sent a db rid)) rid" if "snd (try_sent a db rid)"
    using get [of rid] push_get_id [of db rid]
    by (auto simp: a try_sent_def mark_sent_def in_status_def push_rows split: option.splits if_splits)
  show "\<not> in_status Sending (fst (try_sent a db rid)) k'" if "\<not> in_status Sending db k'" for k'
    using that get [of k'] by (auto simp: a try_sent_def mark_sent_def in_status_def push_rows split: option.splits if_splits)
qed

interpretation confirm_cas: cas_op push_inv "in_status Clarifying" try_confirm
proof
  fix db rid and a :: "int \<times> string \<times> string option" assume inv: "push_inv db"
  obtain now n sub where a: "a = (now, n, sub)" by (cases a) auto
  let ?a = "confirm_args n sub"
  note get = push_update_get [OF inv, of "advanced_row now ?a" "\<lambda>r. p_registry_id r = rid \<and> advance_guard ?a r"]
  have run: "try_confirm a db rid =
      push_update (\<lambda>r. p_registry_id r = rid \<and> advance_guard ?a r) (advanced_row now ?a) db"
    unfolding a by (rule confirm_ok [OF inv])
  show "push_inv (fst (try_confirm a db rid))"
    unfolding run by (rule push_update_inv [OF inv])
      (simp_all add: inflight_def advance_guard_def confirm_args_def INFLIGHT_STATUSES_def)
  show "in_status Clarifying db rid" if "snd (try_confirm a db rid)"
    using that push_update_won [OF inv, of rid "advance_guard ?a"]
    by (auto simp: run in_status_def advance_guard_def confirm_args_def split: option.splits)
  show "\<not> in_status Clarifying (fst (try_confirm a db rid)) rid" if "snd (try_confirm a db rid)"
    using that get [of rid] push_get_id [of db rid] push_update_won [OF inv, of rid "advance_guard ?a"]
    by (auto simp: run in_status_def advanced_row_def confirm_args_def split: option.splits if_splits)
  show "\<not> in_status Clarifying (fst (try_confirm a db rid)) k'" if "\<not> in_status Clarifying db k'" for k'
    using that get [of k']
    by (auto simp: run in_status_def advanced_row_def confirm_args_def split: option.splits if_splits)
qed

section \<open>Properties\<close>

text \<open>After any sequence of registry operations, each idempotency key and each in-flight
  business key belongs to at most one row, and a creation with a fresh identifier and a key
  that is not the empty string never fails: the unique indexes are only a backstop.\<close>

lemma registry_keys_unique:
  assumes "r \<in> set (pd_rows (push_run ops empty_registry))" "q \<in> set (pd_rows (push_run ops empty_registry))"
    and "push_get (push_run ops empty_registry) rid = None" "p_idempotency_key args \<noteq> Some []"
  shows "(p_idempotency_key r \<noteq> None \<and> p_idempotency_key r = p_idempotency_key q \<longrightarrow> p_registry_id r = p_registry_id q)
    \<and> (inflight r \<and> inflight q \<and> p_business_key r = p_business_key q \<longrightarrow> p_registry_id r = p_registry_id q)
    \<and> (\<exists>res. create now rid n (push_run ops empty_registry) args = Inr res)"
proof -
  have inv: "push_inv (push_run ops empty_registry)" by (rule push_run_inv [OF empty_registry_inv])
  have d: "distinct (map p_registry_id (pd_rows (push_run ops empty_registry)))"
    using inv by (simp add: push_inv_def push_indexes_def)
  have "\<exists>res. create now rid n (push_run ops empty_registry) args = Inr res"
    using create_not_error [OF inv assms(3,4), of now n] by (metis obj_sumE)
  then show ?thesis
    using inv assms(1,2) unfolding push_inv_def push_indexes_iff [OF d] by blast
qed

text \<open>A card request.\<close>

definition demo_args :: push_row where
  "demo_args = \<lparr>p_registry_id = [], p_scene = ''s'', p_skill = ''k'', p_target_open_id = ''ou_1'', p_target_union_id = None,
     p_profile_name = ''p'', p_chat_id = None, p_message_id = None, p_payload_json = None, p_card_json = None,
     p_submission_json = None, p_callback_json = None, p_behaviors_json = None, p_scene_spec_json = None,
     p_status = Sending, p_business_key = ''bk'', p_idempotency_key = Some ''ik'', p_nonce = Some ''n'',
     p_send_attempts = 0, p_write_attempts = 0, p_last_error = None, p_expires_at = Some 100, p_created_at = 0, p_updated_at = 0\<rparr>"

definition demo_row :: push_row where
  "demo_row = demo_args\<lparr>p_registry_id := ''r1'', p_created_at := 5, p_updated_at := 5\<rparr>"

lemma demo_create: "create 5 ''r1'' ''x'' empty_registry demo_args =
    Inr (\<lparr>pd_rows = [demo_row], pd_archive = []\<rparr>, \<lparr>cr_row = demo_row, cr_created = True, cr_conflict = None\<rparr>)"
  by (simp add: create_def empty_registry_def Let_def push_indexes_def unique_index_def demo_row_def demo_args_def
      str_or_empty_def py_or_def)

lemma demo_push_fields:
  "p_registry_id demo_row = ''r1''" "p_idempotency_key demo_row = Some ''ik''" "p_idempotency_key demo_args = Some ''ik''"
  "p_status demo_row = Sending" "p_nonce demo_row = Some ''n''" "p_expires_at demo_row = Some 100" "p_updated_at demo_row = 5"
  by (simp_all add: demo_row_def demo_args_def)

lemma demo_run: "push_run [Create 5 ''r1'' ''x'' demo_args] empty_registry = \<lparr>pd_rows = [demo_row], pd_archive = []\<rparr>"
  by (simp add: push_run_def demo_create)

text \<open>Creation is idempotent while the row is in the hot table: after a creation that was
  not refused for its business key, whatever happens to the card short of archiving, a
  repeat with the same idempotency key creates nothing and returns that same card.\<close>

lemma create_idempotent:
  assumes "push_inv db" "create now rid n db args = Inr (db', res)" "cr_conflict res \<noteq> Some Business_Key"
    and "p_idempotency_key args = Some k" "k \<noteq> []" "\<not> list_ex is_archive ops" "p_idempotency_key args' = Some k"
  shows "\<exists>res'. create now' rid' n' (push_run ops db') args' = Inr (push_run ops db', res')
    \<and> \<not> cr_created res' \<and> cr_conflict res' = Some Idempotent
    \<and> p_registry_id (cr_row res') = p_registry_id (cr_row res)"
  by (rule create_found [OF push_run_inv [OF create_inv [OF assms(1,2)]] run_holds [OF create_holds [OF assms(2-5)] assms(6)] assms(7,5)])

text \<open>Archiving ends it: once a finished card has been moved to the archive, the same
  idempotency key creates a second card.\<close>

lemma archived_key_creates_again:
  assumes "push_inv db" "r \<in> set (pd_rows db)" "p_idempotency_key r = Some k" "archivable older r"
    and "p_idempotency_key args = Some k" "k \<noteq> []" "push_get db rid = None"
    and "\<forall>q \<in> set (pd_rows db). p_business_key q = p_business_key args \<longrightarrow> \<not> inflight q"
  shows "\<exists>db' res. create now' rid n (fst (archive_finished now older db)) args = Inr (db', res) \<and> cr_created res
    \<and> p_registry_id (cr_row res) = rid"
proof -
  let ?db = "fst (archive_finished now older db)"
  have rows: "pd_rows ?db = filter (\<lambda>r. \<not> archivable older r) (pd_rows db)" by (rule archive_rows [OF assms(1)])
  have inv: "push_inv ?db" using filter_indexes assms(1) by (simp add: push_inv_def rows)
  have d: "distinct (map p_registry_id (pd_rows db))" using assms(1) by (simp add: push_inv_def push_indexes_def)
  have fresh: "push_get ?db rid = None"
    using assms(7) by (auto simp: push_get_def tbl_get_None rows)
  have no_key: "filter (\<lambda>r. p_idempotency_key r = Some k) (pd_rows ?db) = []"
  proof -
    have "q = r" if "q \<in> set (pd_rows db)" "p_idempotency_key q = Some k" for q
    proof -
      have "p_registry_id q = p_registry_id r"
        using assms(1-3) that unfolding push_inv_def push_indexes_iff [OF d] by (metis option.distinct(1))
      with d assms(2) that(1) show ?thesis by (auto simp: distinct_map dest: inj_onD)
    qed
    with assms(4) show ?thesis by (auto simp: rows filter_empty_conv)
  qed
  have no_busy: "filter (\<lambda>r. p_business_key r = p_business_key args \<and> inflight r) (pd_rows ?db) = []"
    using assms(8) by (auto simp: rows filter_empty_conv)
  have "create now' rid n ?db args \<noteq> Inl IntegrityError"
    by (rule create_not_error [OF inv fresh]) (use assms(5,6) in simp)
  with no_key no_busy assms(5) show ?thesis
    by (auto simp: create_def Let_def str_or_empty_def split: if_splits)
qed

text \<open>Each card is reported sent at most once and confirmed at most once: in any sequence of
  concurrent \<open>mark_sent\<close> calls, and in any sequence of nonce-guarded confirmations, no card
  identifier wins twice.\<close>

lemma one_send_and_one_confirm:
  assumes "push_inv db"
  shows "distinct (cas_attempts try_sent xs db) \<and> distinct (cas_attempts try_confirm ys db)"
  using send_cas.one_winner [OF assms] confirm_cas.one_winner [OF assms] by blast

lemma demo_inv: "push_inv \<lparr>pd_rows = [demo_row], pd_archive = []\<rparr>"
  using push_run_inv [OF empty_registry_inv, of "[Create 5 ''r1'' ''x'' demo_args]"] by (simp add: demo_run)

text \<open>The expiry sweep changes exactly the rows that \<open>list_due_open\<close> reports, each to
  \<open>expired\<close>, and reports their number; it never touches a confirmed or finished card, leaves
  nothing due, and does not change what the matcher sees as open at that time, so a late
  sweep cannot let an overdue card capture a reply.\<close>

lemma expire_due_exact:
  assumes "push_inv db"
  shows "snd (expire_due now db) = length (list_due_open db now)
    \<and> (\<forall>rid. push_get (fst (expire_due now db)) rid =
         map_option (\<lambda>r. if r \<in> set (list_due_open db now) then expired_row now r else r) (push_get db rid))
    \<and> (\<forall>r \<in> set (list_due_open db now). p_status r \<notin> {Confirmed, Committed, Failed, Expired})
    \<and> list_due_open (fst (expire_due now db)) now = []
    \<and> list_open_for_user (fst (expire_due now db)) user now = list_open_for_user db user now"
proof -
  let ?t = "pd_rows db"
  let ?open = "\<lambda>r. p_target_open_id r = user \<and> p_status r \<in> set OPEN_STATUSES
       \<and> (case p_expires_at r of None \<Rightarrow> True | Some e \<Rightarrow> e > now)"
  have set_due: "set (list_due_open db now) = {r \<in> set ?t. due now r}" by (simp add: list_due_open_def)
  have "filter ?open (sql_update (due now) (expired_row now) t) = filter ?open t" for t
    by (induction t) (auto simp: expired_row_def due_def OPEN_STATUSES_def split: option.splits)
  moreover have "filter (due now) (sql_update (due now) (expired_row now) t) = []" for t
    by (induction t) (auto simp: expired_row_def due_def EXPIRABLE_STATUSES_def)
  moreover have "push_get (fst (expire_due now db)) rid =
      map_option (\<lambda>r. if r \<in> set (list_due_open db now) then expired_row now r else r) (push_get db rid)" for rid
  proof -
    have "push_get (fst (expire_due now db)) rid = map_option (\<lambda>r. if due now r then expired_row now r else r) (push_get db rid)"
      using expired_rows.get_upd [of ?t "due now" now rid] assms
      by (simp add: push_get_def expire_due_def push_inv_def push_indexes_def)
    moreover have "r \<in> set ?t" if "push_get db rid = Some r" for r
      using tbl_get_mem [OF that [unfolded push_get_def]] by simp
    ultimately show ?thesis by (cases "push_get db rid") (simp_all add: set_due)
  qed
  moreover have "p_status r \<notin> {Confirmed, Committed, Failed, Expired}" if "r \<in> set (list_due_open db now)" for r
    using that by (auto simp: set_due due_def EXPIRABLE_STATUSES_def)
  ultimately show ?thesis
    by (simp add: expire_due_def list_due_open_def list_open_for_user_def rowcount_def)
qed

lemma archive_put_fold:
  assumes "distinct (map p_registry_id rows)"
  shows "foldl (archive_put now) ar rows =
    filter (\<lambda>x. p_registry_id (fst x) \<notin> p_registry_id ` set rows) ar @ map (\<lambda>r. (r, now)) rows"
  using assms
proof (induction rows rule: rev_induct)
  case (snoc r rows)
  have "filter (\<lambda>x. p_registry_id (fst x) \<noteq> p_registry_id r) (map (\<lambda>r. (r, now)) rows) = map (\<lambda>r. (r, now)) rows"
    using snoc.prems by (auto simp: filter_id_conv) (metis image_eqI)
  with snoc show ?case by (auto simp: archive_put_def intro: filter_cong)
qed simp

text \<open>Archiving loses nothing and touches only finished, old enough rows: such a row leaves
  the hot table and is in the archive under its identifier, every other row stays as it
  is, and the count returned is the number moved.\<close>

lemma archive_moves_rows:
  assumes "push_inv db" "push_get db rid = Some r"
  shows "(if archivable older r
      then push_get (fst (archive_finished now older db)) rid = None
        \<and> filter (\<lambda>x. p_registry_id (fst x) = rid) (pd_archive (fst (archive_finished now older db))) = [(r, now)]
      else push_get (fst (archive_finished now older db)) rid = Some r)
    \<and> length (pd_rows db) = length (pd_rows (fst (archive_finished now older db))) + snd (archive_finished now older db)"
proof -
  let ?rows = "filter (archivable older) (pd_rows db)" and ?db = "fst (archive_finished now older db)"
  have d: "distinct (map p_registry_id (pd_rows db))" using assms(1) by (simp add: push_inv_def push_indexes_def)
  have dr: "distinct (map p_registry_id ?rows)" using d by (rule distinct_map_filter)
  have r: "r \<in> set (pd_rows db)" "p_registry_id r = rid" using tbl_get_mem [OF assms(2) [unfolded push_get_def]] by auto
  have get: "push_get ?db rid = (if archivable older r then None else Some r)"
    using filter_key_distinct [OF d, of rid r "\<lambda>r. \<not> archivable older r"] assms(2)
    by (simp add: push_get_def tbl_get_def archive_rows [OF assms(1)] conj_commute)
  have len: "length (pd_rows db) = length (pd_rows ?db) + snd (archive_finished now older db)"
  proof -
    have "length (pd_rows db) = length (filter (\<lambda>r. \<not> archivable older r) (pd_rows db)) + length ?rows"
      using sum_length_filter_compl [of "archivable older" "pd_rows db"] by simp
    then show ?thesis by (simp only: archive_rows [OF assms(1)]) (simp add: archive_finished_def Let_def)
  qed
  have arch: "filter (\<lambda>x. p_registry_id (fst x) = rid) (pd_archive ?db) = [(r, now)]" if a: "archivable older r"
  proof -
    have mem: "r \<in> set ?rows" using r a by simp
    then have ar: "pd_archive ?db = filter (\<lambda>x. p_registry_id (fst x) \<notin> p_registry_id ` set ?rows) (pd_archive db) @ map (\<lambda>r. (r, now)) ?rows"
      using archive_put_fold [OF dr, of now "pd_archive db"]
      by (auto simp: archive_finished_def Let_def simp del: filter_filter dest: arg_cong [where f = set])
    have "filter (\<lambda>q. p_registry_id q = rid) ?rows = [r]"
      by (rule filter_singleton [OF dr mem]) (use r in auto)
    then have "filter (\<lambda>x. p_registry_id (fst x) = rid) (map (\<lambda>r. (r, now)) ?rows) = [(r, now)]"
      by (simp add: filter_map comp_def del: filter_filter)
    moreover have "filter (\<lambda>x. p_registry_id (fst x) = rid)
        (filter (\<lambda>x. p_registry_id (fst x) \<notin> p_registry_id ` set ?rows) (pd_archive db)) = []"
      using mem r(2) by (auto simp: filter_empty_conv)
    ultimately show ?thesis unfolding ar filter_append by simp
  qed
  show ?thesis using get arch len by simp
qed

end
