(* ===== verification/Send_Queue.thy ===== *)
theory Send_Queue
  imports Push_Registry Complex_Main
begin

text \<open>
  The push-card send queue (\<open>src/hermes_multitenancy/push_send_queue.py\<close>): token-bucket pacing,
  quiet hours, daily cap and the retry loop that moves a registry row out of \<open>sending\<close>. The
  retry loop talks to the store only through the operations it is given, as the code does; the
  locale \<open>send_store\<close> states what it relies on and is interpreted on the push registry. Floats
  are exact rationals. The sender's answers are a function of the attempt, and what other
  coroutines do to the store while the loop is suspended is a function of the attempt too.
\<close>

section \<open>Live-adapter seam\<close>

definition note_live_adapter :: "'a option \<Rightarrow> 'a option \<Rightarrow> 'a option" where
  "note_live_adapter adapter live = (if adapter \<noteq> None then adapter else live)"

text \<open>The shapes in which a response or its \<open>data\<close> carries the message id.\<close>

datatype response_source =
    NoSource
  | DictSource "string option" "string option"
  | ObjectSource "string option"

fun source_message_id :: "response_source \<Rightarrow> string" where
  "source_message_id NoSource = []"
| "source_message_id (DictSource own nested) = py_or (str_or_empty own) (str_or_empty nested)"
| "source_message_id (ObjectSource own) = str_or_empty own"

fun response_message_id :: "string \<Rightarrow> response_source list \<Rightarrow> string" where
  "response_message_id mid [] = mid"
| "response_message_id mid (NoSource # ss) = response_message_id mid ss"
| "response_message_id mid (s # ss) =
     (if source_message_id s \<noteq> [] then source_message_id s else response_message_id (source_message_id s) ss)"

text \<open>What awaiting the sender can yield: no usable sender in this process, any other
  exception with its text, or a result.\<close>

datatype send_answer =
    SenderUnavailable
  | SendRaised string
  | SendReturned "string option" "string option"

definition send_push_card_via_adapter :: "bool \<Rightarrow> response_source \<Rightarrow> response_source \<Rightarrow> send_answer" where
  "send_push_card_via_adapter callable data response =
     (if \<not> callable then SenderUnavailable
      else let mid = response_message_id [] [data, response]
           in if mid = [] then SenderUnavailable else SendReturned (Some mid) None)"

section \<open>Token bucket\<close>

record token_bucket =
  tb_rate :: rat
  tb_capacity :: rat
  tb_tokens :: rat
  tb_last :: rat

definition TokenBucket :: "rat \<Rightarrow> rat \<Rightarrow> rat \<Rightarrow> token_bucket" where
  "TokenBucket rate_per_sec capacity now =
     \<lparr>tb_rate = max rate_per_sec (1 / 1000000), tb_capacity = max capacity 1, tb_tokens = max capacity 1, tb_last = now\<rparr>"

definition refill :: "rat \<Rightarrow> token_bucket \<Rightarrow> token_bucket" where
  "refill now b =
     (let elapsed = max 0 (now - tb_last b)
      in b\<lparr>tb_last := now, tb_tokens := min (tb_capacity b) (tb_tokens b + elapsed * tb_rate b)\<rparr>)"

definition bucket_take :: "rat \<Rightarrow> token_bucket \<Rightarrow> token_bucket \<times> rat" where
  "bucket_take now b =
     (let b = refill now b
      in if tb_tokens b \<ge> 1 then (b\<lparr>tb_tokens := tb_tokens b - 1\<rparr>, 0)
         else (b\<lparr>tb_tokens := 0\<rparr>, (1 - tb_tokens b) / tb_rate b))"

section \<open>Quiet hours\<close>

text \<open>A naive local datetime is its number of microseconds since a local midnight.\<close>

definition HOUR :: int where "HOUR = 3600 * 1000000"
definition DAY :: int where "DAY = 24 * HOUR"

definition dt_hour :: "int \<Rightarrow> int" where
  "dt_hour dt = (dt mod DAY) div HOUR"

text \<open>\<open>dt.replace(hour=h, minute=0, second=0, microsecond=0)\<close>.\<close>

definition at_hour :: "int \<Rightarrow> int \<Rightarrow> int" where
  "at_hour dt h = (dt div DAY) * DAY + h * HOUR"

definition in_quiet_hours :: "int \<Rightarrow> int \<Rightarrow> int \<Rightarrow> bool" where
  "in_quiet_hours dt start_hour end_hour =
     (let h = dt_hour dt
      in if start_hour \<le> end_hour then start_hour \<le> h \<and> h < end_hour else h \<ge> start_hour \<or> h < end_hour)"

definition next_active_dt :: "int \<Rightarrow> int \<Rightarrow> int \<Rightarrow> int" where
  "next_active_dt dt start_hour end_hour =
     (let candidate = at_hour dt end_hour in if candidate \<le> dt then candidate + DAY else candidate)"

definition quiet_hour_env :: "string option \<Rightarrow> int \<Rightarrow> int" where
  "quiet_hour_env raw dflt =
     (if strip (str_or_empty raw) = [] then dflt
      else case py_int (str_or_empty raw) of None \<Rightarrow> dflt | Some h \<Rightarrow> if 0 \<le> h \<and> h \<le> 23 then h else dflt)"

definition daily_cap_env :: "string option \<Rightarrow> int \<Rightarrow> int" where
  "daily_cap_env raw dflt =
     (if strip (str_or_empty raw) = [] then dflt
      else case py_int (str_or_empty raw) of None \<Rightarrow> dflt | Some n \<Rightarrow> n)"

section \<open>The queue\<close>

datatype queue_outcome =
    QSent string
  | QFailed string
  | QDeferred string int
  | QSkipped string

text \<open>
  The retry loop over a store given by its three operations, each indexed by the attempt
  whose clock it reads. \<open>env i\<close> is applied for the suspension of attempt \<open>i\<close>.
\<close>

fun send_loop ::
    "(nat \<Rightarrow> 's \<Rightarrow> string \<Rightarrow> string \<Rightarrow> 's) \<Rightarrow> (nat \<Rightarrow> 's \<Rightarrow> string \<Rightarrow> string \<Rightarrow> string option \<Rightarrow> 's \<times> bool)
      \<Rightarrow> (nat \<Rightarrow> 's \<Rightarrow> string \<Rightarrow> string \<Rightarrow> 's \<times> bool) \<Rightarrow> (nat \<Rightarrow> 's \<Rightarrow> 's) \<Rightarrow> (nat \<Rightarrow> send_answer) \<Rightarrow> (nat \<Rightarrow> int) \<Rightarrow> string
      \<Rightarrow> nat \<Rightarrow> nat \<Rightarrow> string \<Rightarrow> 's \<Rightarrow> 's \<times> queue_outcome" where
  "send_loop note_op sent_op failed_op env sender clk rid 0 i err s = (fst (failed_op i s rid err), QFailed err)"
| "send_loop note_op sent_op failed_op env sender clk rid (Suc n) i err s =
     (case sender i of
        SenderUnavailable \<Rightarrow> (env i s, QDeferred ''sender_not_ready'' (clk i + 30))
      | SendRaised e \<Rightarrow> send_loop note_op sent_op failed_op env sender clk rid n (Suc i) e (note_op i (env i s) rid e)
      | SendReturned mid chat \<Rightarrow>
          if str_or_empty mid = []
          then send_loop note_op sent_op failed_op env sender clk rid n (Suc i) ''send returned no message_id''
                 (note_op i (env i s) rid ''send returned no message_id'')
          else (case sent_op i (env i s) rid (str_or_empty mid) chat of
                  (s', won) \<Rightarrow> (s', if won then QSent (str_or_empty mid) else QSkipped ''cas_lost'')))"

record queue_config =
  qc_daily_cap :: int
  qc_quiet_start :: int
  qc_quiet_end :: int
  qc_max_retries :: int

fun status_text :: "push_status \<Rightarrow> string" where
  "status_text Sending = ''sending''"
| "status_text Pending = ''pending''"
| "status_text Clarifying = ''clarifying''"
| "status_text Confirmed = ''confirmed''"
| "status_text Committed = ''committed''"
| "status_text Failed = ''failed''"
| "status_text Expired = ''expired''"

definition registry_note :: "(nat \<Rightarrow> int) \<Rightarrow> nat \<Rightarrow> push_db \<Rightarrow> string \<Rightarrow> string \<Rightarrow> push_db" where
  "registry_note clk i db rid err = note_send_attempt (clk i) db rid (Some err)"

definition registry_sent :: "(nat \<Rightarrow> int) \<Rightarrow> nat \<Rightarrow> push_db \<Rightarrow> string \<Rightarrow> string \<Rightarrow> string option \<Rightarrow> push_db \<times> bool" where
  "registry_sent clk i db rid mid chat = mark_sent (clk i) db rid mid chat"

definition registry_failed :: "(nat \<Rightarrow> int) \<Rightarrow> nat \<Rightarrow> push_db \<Rightarrow> string \<Rightarrow> string \<Rightarrow> push_db \<times> bool" where
  "registry_failed clk i db rid err = mark_send_failed (clk i) db rid err"

text \<open>
  \<open>process\<close>: \<open>dt\<close> is the local datetime read once, \<open>to_ts\<close> its conversion to epoch seconds and
  \<open>mnow\<close> the monotonic clock. The result is the store, the bucket, the seconds slept for pacing
  and the outcome.
\<close>

definition process ::
    "queue_config \<Rightarrow> (int \<Rightarrow> int) \<Rightarrow> (nat \<Rightarrow> int) \<Rightarrow> int \<Rightarrow> rat \<Rightarrow> (nat \<Rightarrow> push_db \<Rightarrow> push_db) \<Rightarrow> (nat \<Rightarrow> send_answer)
      \<Rightarrow> token_bucket \<Rightarrow> push_db \<Rightarrow> string \<Rightarrow> push_db \<times> token_bucket \<times> rat \<times> queue_outcome" where
  "process cfg to_ts clk dt mnow env sender bucket db rid =
     (case push_get db rid of
        None \<Rightarrow> (db, bucket, 0, QFailed ''not_found'')
      | Some row \<Rightarrow>
          if p_status row \<noteq> Sending then (db, bucket, 0, QSkipped (''status='' @ status_text (p_status row)))
          else if in_quiet_hours dt (qc_quiet_start cfg) (qc_quiet_end cfg)
          then (db, bucket, 0, QDeferred ''quiet_hours'' (to_ts (next_active_dt dt (qc_quiet_start cfg) (qc_quiet_end cfg))))
          else if qc_daily_cap cfg > 0
               \<and> int (count_pushes_today db (p_target_open_id row) (to_ts (at_hour dt 0))) \<ge> qc_daily_cap cfg
          then (db, bucket, 0, QDeferred ''daily_cap'' (to_ts (at_hour dt 0 + DAY)))
          else (case bucket_take mnow bucket of
              (bucket', wait) \<Rightarrow>
                (case send_loop (registry_note clk) (registry_sent clk) (registry_failed clk) env sender clk rid
                        (nat (qc_max_retries cfg)) 0 ''send failed'' db of
                   (db', out) \<Rightarrow> (db', bucket', wait, out))))"

section \<open>The store interface\<close>

locale send_store =
  fixes inv :: "'s \<Rightarrow> bool"
    and sending :: "'s \<Rightarrow> string \<Rightarrow> bool"
    and delivered :: "'s \<Rightarrow> string \<Rightarrow> string \<Rightarrow> bool"
    and note_op :: "nat \<Rightarrow> 's \<Rightarrow> string \<Rightarrow> string \<Rightarrow> 's"
    and sent_op :: "nat \<Rightarrow> 's \<Rightarrow> string \<Rightarrow> string \<Rightarrow> string option \<Rightarrow> 's \<times> bool"
    and failed_op :: "nat \<Rightarrow> 's \<Rightarrow> string \<Rightarrow> string \<Rightarrow> 's \<times> bool"
  assumes inv_note: "inv s \<Longrightarrow> inv (note_op i s rid err)"
    and note_sending: "inv s \<Longrightarrow> sending (note_op i s rid err) rid \<longleftrightarrow> sending s rid"
    and sent_wins: "inv s \<Longrightarrow> snd (sent_op i s rid mid chat) \<longleftrightarrow> sending s rid"
    and sent_delivers: "inv s \<Longrightarrow> snd (sent_op i s rid mid chat) \<Longrightarrow> delivered (fst (sent_op i s rid mid chat)) rid mid"
    and failed_leaves: "inv s \<Longrightarrow> \<not> sending (fst (failed_op i s rid err)) rid"
begin

text \<open>\<open>QSent\<close> is reported only for an id that the sender returned and the store recorded.\<close>

lemma loop_sent:
  assumes "inv s" "\<And>i s. inv s \<Longrightarrow> inv (env i s)"
    and "send_loop note_op sent_op failed_op env sender clk rid n i err s = (s', QSent mid)"
  shows "delivered s' rid mid \<and> (\<exists>j chat. i \<le> j \<and> j < i + n \<and> sender j = SendReturned (Some mid) chat)"
  using assms(1,3)
proof (induction n arbitrary: i err s)
  case (Suc n)
  have env: "inv (env i s)" by (rule assms(2) [OF Suc.prems(1)])
  have retry: ?case if "send_loop note_op sent_op failed_op env sender clk rid n (Suc i) e (note_op i (env i s) rid e) = (s', QSent mid)" for e
  proof -
    from Suc.IH [OF inv_note [OF env] that] obtain j chat where
      "delivered s' rid mid" "Suc i \<le> j" "j < Suc i + n" "sender j = SendReturned (Some mid) chat" by blast
    then show ?thesis by (intro conjI exI [of _ j] exI [of _ chat]) auto
  qed
  show ?case
  proof (cases "sender i")
    case (SendReturned m chat)
    show ?thesis
    proof (cases "str_or_empty m = []")
      case True
      with SendReturned Suc.prems(2) retry show ?thesis by simp
    next
      case False
      then obtain t where m: "m = Some t" by (cases m) (simp_all add: str_or_empty_def)
      with False SendReturned Suc.prems(2) have won: "snd (sent_op i (env i s) rid t chat)" "mid = t"
        "s' = fst (sent_op i (env i s) rid t chat)"
        by (auto simp: str_or_empty_def split: prod.splits if_splits)
      with sent_delivers [OF env won(1)] SendReturned m show ?thesis by auto
    qed
  qed (use Suc.prems(2) retry in auto)
qed simp

text \<open>\<open>QFailed\<close> is reported only after every attempt failed, and then the row is not left in
  \<open>sending\<close>.\<close>

lemma loop_failed:
  assumes "inv s" "\<And>i s. inv s \<Longrightarrow> inv (env i s)"
    and "send_loop note_op sent_op failed_op env sender clk rid n i err s = (s', QFailed e)"
  shows "\<not> sending s' rid \<and> (\<forall>j. i \<le> j \<and> j < i + n \<longrightarrow> (\<exists>x. sender j = SendRaised x)
      \<or> (\<exists>m chat. sender j = SendReturned m chat \<and> str_or_empty m = []))"
  using assms(1,3)
proof (induction n arbitrary: i err s)
  case 0
  then show ?case using failed_leaves by auto
next
  case (Suc n)
  have env: "inv (env i s)" by (rule assms(2) [OF Suc.prems(1)])
  have retry: ?case
    if bad: "(\<exists>x. sender i = SendRaised x) \<or> (\<exists>m chat. sender i = SendReturned m chat \<and> str_or_empty m = [])"
      and run: "send_loop note_op sent_op failed_op env sender clk rid n (Suc i) x (note_op i (env i s) rid x) = (s', QFailed e)" for x
  proof (intro conjI allI impI)
    from Suc.IH [OF inv_note [OF env] run] show "\<not> sending s' rid" by blast
    fix j assume "i \<le> j \<and> j < i + Suc n"
    then consider "j = i" | "Suc i \<le> j \<and> j < Suc i + n" by linarith
    then show "(\<exists>x. sender j = SendRaised x) \<or> (\<exists>m chat. sender j = SendReturned m chat \<and> str_or_empty m = [])"
    proof cases
      case 1
      with bad show ?thesis by simp
    next
      case 2
      with Suc.IH [OF inv_note [OF env] run] show ?thesis by blast
    qed
  qed
  show ?case
  proof (cases "sender i")
    case (SendReturned m chat)
    with Suc.prems(2) retry show ?thesis by (auto split: prod.splits if_splits)
  qed (use Suc.prems(2) retry in auto)
qed

text \<open>Alone on the store, a row in \<open>sending\<close> is never lost to a competitor.\<close>

lemma loop_alone:
  assumes "inv s" "sending s rid"
  shows "snd (send_loop note_op sent_op failed_op (\<lambda>_ s. s) sender clk rid n i err s) \<noteq> QSkipped x"
  using assms(1,2)
proof (induction n arbitrary: i err s)
  case (Suc n)
  have next_ok: "snd (send_loop note_op sent_op failed_op (\<lambda>_ s. s) sender clk rid n (Suc i) e (note_op i s rid e)) \<noteq> QSkipped x" for e
    by (rule Suc.IH) (simp_all add: inv_note note_sending Suc.prems)
  have won: "snd (sent_op i s rid m chat)" for m chat using sent_wins [OF Suc.prems(1)] Suc.prems(2) by blast
  show ?case
  proof (cases "sender i")
    case (SendReturned m chat)
    with next_ok won show ?thesis by (simp add: case_prod_beta)
  qed (simp_all add: next_ok)
qed simp

end

section \<open>The registry provides the interface\<close>

definition has_message :: "push_db \<Rightarrow> string \<Rightarrow> string \<Rightarrow> bool" where
  "has_message db rid mid \<longleftrightarrow> (case push_get db rid of None \<Rightarrow> False
     | Some r \<Rightarrow> p_status r = Pending \<and> p_message_id r = Some mid)"

interpretation registry_store: send_store push_inv "in_status Sending" has_message
  "registry_note clk" "registry_sent clk" "registry_failed clk"
proof
  fix db i rid err assume inv: "push_inv db"
  show "push_inv (registry_note clk i db rid err)"
    using push_exec_inv [OF inv, of "NoteSendAttempt (clk i) rid (Some err)"] by (simp add: registry_note_def)
  show "in_status Sending (registry_note clk i db rid err) rid \<longleftrightarrow> in_status Sending db rid"
    using push_update_get [OF inv, of "noted_row (clk i) (Some err)" "\<lambda>r. p_registry_id r = rid" rid]
    by (auto simp: registry_note_def note_send_attempt_def in_status_def noted_row_def split: option.splits)
  show "\<not> in_status Sending (fst (registry_failed clk i db rid err)) rid"
    using push_update_get [OF inv, of "failed_row (clk i) err" "\<lambda>r. p_registry_id r = rid \<and> p_status r = Sending" rid]
      push_get_id [of db rid]
    by (auto simp: registry_failed_def mark_send_failed_def in_status_def failed_row_def split: option.splits if_splits)
next
  fix db i rid mid chat assume inv: "push_inv db"
  show won: "snd (registry_sent clk i db rid mid chat) \<longleftrightarrow> in_status Sending db rid"
    using push_update_won [OF inv] by (simp add: registry_sent_def mark_sent_def in_status_def)
  show "has_message (fst (registry_sent clk i db rid mid chat)) rid mid" if "snd (registry_sent clk i db rid mid chat)"
    using push_update_get [OF inv, of "sent_row (clk i) mid chat" "\<lambda>r. p_registry_id r = rid \<and> p_status r = Sending" rid]
      push_get_id [of db rid] that won
    by (auto simp: registry_sent_def mark_sent_def has_message_def in_status_def sent_row_def split: option.splits)
qed

section \<open>Pacing\<close>

definition bucket_ok :: "token_bucket \<Rightarrow> bool" where
  "bucket_ok b \<longleftrightarrow> tb_rate b > 0 \<and> tb_capacity b \<ge> 1 \<and> 0 \<le> tb_tokens b \<and> tb_tokens b \<le> tb_capacity b"

lemma bucket_new_ok: "bucket_ok (TokenBucket rate cap now)"
  by (simp add: bucket_ok_def TokenBucket_def less_max_iff_disj)

lemma refill_ok: "bucket_ok b \<Longrightarrow> bucket_ok (refill now b)"
  by (simp add: bucket_ok_def refill_def Let_def)

lemma take_ok: "bucket_ok b \<Longrightarrow> bucket_ok (fst (bucket_take now b))"
  using refill_ok [of b now] by (auto simp: bucket_take_def bucket_ok_def Let_def)

text \<open>\<open>n\<close> callers that ask at the same moment, and the waits they are given.\<close>

fun take_all :: "nat \<Rightarrow> rat \<Rightarrow> token_bucket \<Rightarrow> rat list" where
  "take_all 0 now b = []"
| "take_all (Suc n) now b = snd (bucket_take now b) # take_all n now (fst (bucket_take now b))"

text \<open>One caller that takes, sleeps as told, sends, and takes again: the time of its \<open>n\<close>-th send.\<close>

fun paced :: "nat \<Rightarrow> rat \<Rightarrow> token_bucket \<Rightarrow> rat" where
  "paced 0 now b = now"
| "paced (Suc n) now b = paced n (now + snd (bucket_take now b)) (fst (bucket_take now b))"

lemma take_empty:
  assumes "tb_tokens b = 0" "tb_last b = now" "bucket_ok b"
  shows "bucket_take now b = (b, 1 / tb_rate b)"
proof -
  have "refill now b = b" using assms by (simp add: refill_def bucket_ok_def)
  moreover have "b\<lparr>tb_tokens := 0\<rparr> = b" using assms(1) by simp
  ultimately show ?thesis using assms(1) by (simp add: bucket_take_def)
qed

lemma take_after_wait:
  assumes "tb_tokens b = 0" "tb_last b = now" "bucket_ok b"
  shows "bucket_take (now + 1 / tb_rate b) b = (b\<lparr>tb_last := now + 1 / tb_rate b\<rparr>, 0)"
proof -
  have r: "tb_rate b > 0" "tb_capacity b \<ge> 1" using assms(3) by (auto simp: bucket_ok_def)
  then have "refill (now + 1 / tb_rate b) b = b\<lparr>tb_last := now + 1 / tb_rate b, tb_tokens := 1\<rparr>"
    using assms(1,2) by (simp add: refill_def Let_def)
  moreover have "b\<lparr>tb_last := t, tb_tokens := 0\<rparr> = b\<lparr>tb_last := t\<rparr>" for t using assms(1) by (cases b) simp
  ultimately show ?thesis by (simp add: bucket_take_def)
qed

section \<open>Hours\<close>

lemma HOUR_pos: "0 < HOUR" and DAY_eq: "DAY = 24 * HOUR"
  by (simp_all add: HOUR_def DAY_def)

lemma div_hour_less: "m div HOUR < e \<longleftrightarrow> m < e * HOUR"
proof -
  have m: "m = m div HOUR * HOUR + m mod HOUR" "0 \<le> m mod HOUR" "m mod HOUR < HOUR"
    using HOUR_pos by (simp_all only: div_mult_mod_eq pos_mod_sign pos_mod_bound)
  show ?thesis
  proof
    assume "m div HOUR < e"
    then have "(m div HOUR + 1) * HOUR \<le> e * HOUR" using HOUR_pos by (intro mult_right_mono) auto
    then show "m < e * HOUR" using m unfolding distrib_right by linarith
  next
    assume l: "m < e * HOUR"
    show "m div HOUR < e"
    proof (rule ccontr)
      assume "\<not> m div HOUR < e"
      then have "e * HOUR \<le> m div HOUR * HOUR" using HOUR_pos by (intro mult_right_mono) auto
      with l m show False by linarith
    qed
  qed
qed

text \<open>A datetime split into its day and its time of day.\<close>

lemma dt_split: "dt = dt div DAY * DAY + dt mod DAY" "0 \<le> dt mod DAY" "dt mod DAY < DAY"
proof -
  have "0 < DAY" using HOUR_pos by (simp add: DAY_def)
  then show "dt = dt div DAY * DAY + dt mod DAY" "0 \<le> dt mod DAY" "dt mod DAY < DAY"
    by (simp_all only: div_mult_mod_eq pos_mod_sign pos_mod_bound)
qed

lemma dt_hour_less: "dt_hour dt < e \<longleftrightarrow> dt mod DAY < e * HOUR"
  by (simp add: dt_hour_def div_hour_less)

lemma day_of: "0 \<le> m \<Longrightarrow> m < DAY \<Longrightarrow> (d * DAY + m) div DAY = d \<and> (d * DAY + m) mod DAY = m"
  by (simp add: DAY_def HOUR_def)

lemma at_hour_hour:
  assumes "0 \<le> e" "e \<le> 23"
  shows "dt_hour (d * DAY + e * HOUR) = e"
proof -
  have "0 \<le> e * HOUR" "e * HOUR < DAY" using assms HOUR_pos by (simp_all add: DAY_def)
  then show ?thesis using day_of [of "e * HOUR" d] HOUR_pos by (simp add: dt_hour_def)
qed

lemma same_day:
  assumes "dt \<le> t" "t < (dt div DAY + 1) * DAY"
  shows "t div DAY = dt div DAY"
proof -
  have "0 \<le> t - dt div DAY * DAY" "t - dt div DAY * DAY < DAY"
    using assms dt_split [of dt] unfolding distrib_right by linarith+
  from day_of [OF this, of "dt div DAY"] show ?thesis by simp
qed

lemma next_day:
  assumes "(dt div DAY + 1) * DAY \<le> t" "t < (dt div DAY + 1) * DAY + m" "m \<le> DAY"
  shows "t mod DAY < m"
proof -
  let ?x = "t - (dt div DAY + 1) * DAY"
  have "0 \<le> ?x" "?x < DAY" using assms by auto
  from day_of [OF this, of "dt div DAY + 1"] assms(2) show ?thesis by simp
qed

section \<open>Properties\<close>

text \<open>The bucket keeps its level between 0 and its capacity and never tells a caller to
  wait a negative time. But a caller that is told to wait does not pay for the token it
  waits for: on an empty bucket any number of callers at one moment get the same wait of one
  token, and a single caller that sleeps as told sends two cards per token interval, twice
  the configured rate.\<close>

lemma token_bucket_overshoots:
  assumes "bucket_ok b" "tb_tokens b = 0" "tb_last b = now"
  shows "bucket_ok (fst (bucket_take t b)) \<and> 0 \<le> snd (bucket_take t b)
    \<and> take_all n now b = replicate n (1 / tb_rate b)
    \<and> paced (2 * n) now b = now + of_nat n / tb_rate b"
proof -
  have "0 \<le> snd (bucket_take t b)"
    using refill_ok [OF assms(1), of t] assms(1) by (auto simp: bucket_take_def Let_def bucket_ok_def refill_def)
  moreover have "take_all n now b = replicate n (1 / tb_rate b)"
    by (induction n) (simp_all add: take_empty assms)
  moreover have "paced (2 * n) now b = now + of_nat n / tb_rate b"
    using assms
  proof (induction n arbitrary: b now)
    case (Suc n)
    let ?t = "now + 1 / tb_rate b"
    let ?b = "b\<lparr>tb_last := ?t\<rparr>"
    have "paced (2 * Suc n) now b = paced (2 * n) ?t ?b"
      using take_empty [OF Suc.prems(2,3,1)] take_after_wait [OF Suc.prems(2,3,1)] by simp
    also have "\<dots> = ?t + of_nat n / tb_rate ?b"
      by (rule Suc.IH) (use Suc.prems in \<open>simp_all add: bucket_ok_def\<close>)
    finally show ?case by (simp add: add_divide_distrib)
  qed simp
  ultimately show ?thesis using take_ok [OF assms(1)] by blast
qed

text \<open>A deferral for quiet hours resumes exactly at the end of the quiet window, also when
  the window wraps midnight: the resume time is later than now and not quiet, and every
  moment from now until then is quiet. The configured bounds are always hours of the day.\<close>

lemma quiet_deferral_exact:
  assumes "0 \<le> qs" "qs \<le> 23" "0 \<le> qe" "qe \<le> 23" "in_quiet_hours dt qs qe"
  shows "dt < next_active_dt dt qs qe \<and> \<not> in_quiet_hours (next_active_dt dt qs qe) qs qe
    \<and> (\<forall>t. dt \<le> t \<and> t < next_active_dt dt qs qe \<longrightarrow> in_quiet_hours t qs qe)
    \<and> (0 \<le> quiet_hour_env raw qs \<and> quiet_hour_env raw qs \<le> 23)"
proof -
  let ?d = "dt div DAY" and ?n = "next_active_dt dt qs qe"
  have "dt_hour ?n = qe"
    using at_hour_hour [OF assms(3,4), of ?d] at_hour_hour [OF assms(3,4), of "?d + 1"]
    by (simp add: next_active_dt_def Let_def at_hour_def algebra_simps)
  then have "\<not> in_quiet_hours ?n qs qe" by (simp add: in_quiet_hours_def Let_def)
  moreover have later: "dt < ?n"
  proof -
    have "0 \<le> qe * HOUR" using assms(3) HOUR_pos by simp
    then have "dt < at_hour dt qe + DAY" using dt_split [of dt] unfolding at_hour_def by linarith
    then show ?thesis by (simp add: next_active_dt_def Let_def)
  qed
  moreover have "in_quiet_hours t qs qe" if t: "dt \<le> t" "t < ?n" for t
  proof (cases "dt_hour dt < qe")
    case True
    then have m: "dt mod DAY < qe * HOUR" by (simp add: dt_hour_less)
    have qh: "qe * HOUR \<le> DAY" using assms(4) HOUR_pos by (simp add: DAY_eq)
    have n: "?n = ?d * DAY + qe * HOUR"
    proof -
      have "\<not> at_hour dt qe \<le> dt" using m dt_split(1) [of dt] unfolding at_hour_def by linarith
      then show ?thesis by (simp add: next_active_dt_def Let_def at_hour_def)
    qed
    have day: "t div DAY = ?d" using t n qh by (intro same_day) (auto simp: algebra_simps)
    have "t mod DAY < qe * HOUR" "dt mod DAY \<le> t mod DAY"
      using t n dt_split(1) [of t] dt_split(1) [of dt] unfolding day by linarith+
    moreover from this(2) have "dt_hour dt \<le> dt_hour t"
      using HOUR_pos by (simp add: dt_hour_def zdiv_mono1)
    ultimately show ?thesis using assms(5) True by (auto simp: in_quiet_hours_def Let_def dt_hour_less)
  next
    case False
    with assms(5) have w: "qe < qs" "qs \<le> dt_hour dt" by (auto simp: in_quiet_hours_def Let_def split: if_splits)
    from False have m: "qe * HOUR \<le> dt mod DAY" by (simp add: dt_hour_less)
    have n: "?n = (?d + 1) * DAY + qe * HOUR"
    proof -
      have "at_hour dt qe \<le> dt" using m dt_split(1) [of dt] unfolding at_hour_def by linarith
      then show ?thesis by (simp add: next_active_dt_def Let_def at_hour_def distrib_right)
    qed
    show ?thesis
    proof (cases "t < (?d + 1) * DAY")
      case True
      have "dt mod DAY \<le> t mod DAY"
        using t(1) dt_split(1) [of t] dt_split(1) [of dt] unfolding same_day [OF t(1) True] by linarith
      then have "dt_hour dt \<le> dt_hour t" using HOUR_pos by (simp add: dt_hour_def zdiv_mono1)
      with w show ?thesis by (simp add: in_quiet_hours_def Let_def)
    next
      case False
      have "t mod DAY < qe * HOUR"
        using False t(2) n assms(4) HOUR_pos by (intro next_day [of dt]) (auto simp: DAY_eq)
      with w show ?thesis by (simp add: in_quiet_hours_def Let_def dt_hour_less)
    qed
  qed
  moreover have "0 \<le> quiet_hour_env raw qs \<and> quiet_hour_env raw qs \<le> 23"
    using assms(1,2) by (auto simp: quiet_hour_env_def split: option.splits)
  ultimately show ?thesis by blast
qed

text \<open>One delivery attempt, whatever other coroutines do to the registry meanwhile: it
  reports \<open>sent\<close> only for a message id that the sender returned and that the row, now pending,
  carries; it reports \<open>failed\<close> only when the card does not exist, or after all retries failed,
  and then the row is no longer in \<open>sending\<close>; a row past \<open>sending\<close>, a quiet hour or a reached
  daily cap leaves the registry and the bucket untouched.\<close>

lemma process_outcomes:
  assumes inv: "push_inv db" and env: "\<And>i d. push_inv d \<Longrightarrow> push_inv (env i d)"
    and run: "process cfg to_ts clk dt mnow env sender bucket db rid = (db', bucket', wait, out)"
  shows "(\<forall>m. out = QSent m \<longrightarrow> has_message db' rid m
        \<and> (\<exists>j chat. j < nat (qc_max_retries cfg) \<and> sender j = SendReturned (Some m) chat))
    \<and> (\<forall>e. out = QFailed e \<longrightarrow> push_get db rid = None \<and> db' = db \<or> \<not> in_status Sending db' rid
        \<and> (\<forall>j < nat (qc_max_retries cfg). (\<exists>x. sender j = SendRaised x)
             \<or> (\<exists>m chat. sender j = SendReturned m chat \<and> str_or_empty m = [])))
    \<and> (\<not> in_status Sending db rid \<or> in_quiet_hours dt (qc_quiet_start cfg) (qc_quiet_end cfg) \<longrightarrow>
        db' = db \<and> bucket' = bucket)
    \<and> ((\<forall>i d. env i d = d) \<longrightarrow> out \<noteq> QSkipped ''cas_lost'')"
proof (cases "in_status Sending db rid")
  case False
  then have "db' = db \<and> bucket' = bucket \<and> (\<forall>m. out \<noteq> QSent m) \<and> out \<noteq> QSkipped ''cas_lost''
      \<and> ((\<exists>e. out = QFailed e) \<longrightarrow> push_get db rid = None)"
    using run by (auto simp: process_def in_status_def split: option.splits)
  with False show ?thesis by auto
next
  case True
  then obtain row where row: "push_get db rid = Some row" "p_status row = Sending"
    by (auto simp: in_status_def split: option.splits)
  let ?n = "nat (qc_max_retries cfg)"
  let ?loop = "send_loop (registry_note clk) (registry_sent clk) (registry_failed clk) env sender clk rid ?n 0 ''send failed'' db"
  consider (deferred) x y where "db' = db" "bucket' = bucket" "out = QDeferred x y"
    | (tried) "\<not> in_quiet_hours dt (qc_quiet_start cfg) (qc_quiet_end cfg)" "?loop = (db', out)"
    using run row by (auto simp: process_def split: if_splits prod.splits)
  then show ?thesis
  proof cases
    case deferred
    then show ?thesis by simp
  next
    case tried
    have "has_message db' rid m \<and> (\<exists>j chat. j < ?n \<and> sender j = SendReturned (Some m) chat)" if "out = QSent m" for m
    proof -
      have "?loop = (db', QSent m)" using tried(2) that by simp
      from registry_store.loop_sent [OF inv env this] show ?thesis by auto
    qed
    moreover have "\<not> in_status Sending db' rid \<and> (\<forall>j < ?n. (\<exists>x. sender j = SendRaised x)
        \<or> (\<exists>m chat. sender j = SendReturned m chat \<and> str_or_empty m = []))" if "out = QFailed e" for e
    proof -
      have "?loop = (db', QFailed e)" using tried(2) that by simp
      from registry_store.loop_failed [OF inv env this] show ?thesis by auto
    qed
    moreover have "out \<noteq> QSkipped ''cas_lost''" if id: "\<forall>i d. env i d = d"
    proof -
      have "env = (\<lambda>_ d. d)" using id by (intro ext) simp
      then show ?thesis using registry_store.loop_alone [OF inv True, of clk sender clk ?n 0 "''send failed''"] tried(2)
        by (metis snd_conv)
    qed
    ultimately show ?thesis using tried(1) True by blast
  qed
qed

end
