(* ===== verification/Git_Env.thy ===== *)
theory Git_Env
  imports Session_Scope
begin

text \<open>
  The environment that lets plain \<open>git\<close> use an injected token
  (\<open>src/hermes_multitenancy/credential_materializer.py\<close>): host normalisation, the credential
  helper and the commit identity. An environment is a dict of strings. The three regular
  expressions are written out as predicates.
\<close>

section \<open>Host\<close>

definition ascii_alnum :: "char \<Rightarrow> bool" where
  "ascii_alnum c \<longleftrightarrow> (let n = (of_char c :: nat) in (48 \<le> n \<and> n \<le> 57) \<or> (65 \<le> n \<and> n \<le> 90) \<or> (97 \<le> n \<and> n \<le> 122))"

definition ascii_digit :: "char \<Rightarrow> bool" where
  "ascii_digit c \<longleftrightarrow> (let n = (of_char c :: nat) in 48 \<le> n \<and> n \<le> 57)"

definition DEFAULT_GITLAB_HOST :: string where
  "DEFAULT_GITLAB_HOST = ''gitlab.example.com''"

text \<open>\<open>[A-Za-z0-9](?:[A-Za-z0-9-]{0,61}[A-Za-z0-9])?\<close>, matched in full.\<close>

definition host_label :: "string \<Rightarrow> bool" where
  "host_label s \<longleftrightarrow> s \<noteq> [] \<and> length s \<le> 63 \<and> ascii_alnum (hd s) \<and> ascii_alnum (last s)
     \<and> list_all (\<lambda>c. ascii_alnum c \<or> c = CHR ''-'') s"

text \<open>\<open>[0-9]{1,5}\<close>, matched in full, and the value in range.\<close>

definition port_ok :: "string \<Rightarrow> bool" where
  "port_ok s \<longleftrightarrow> s \<noteq> [] \<and> length s \<le> 5 \<and> list_all ascii_digit s
     \<and> (case digits_value 0 False s of None \<Rightarrow> False | Some n \<Rightarrow> 1 \<le> n \<and> n \<le> 65535)"

text \<open>\<open>s.split("://", 1)[-1]\<close>.\<close>

fun after_scheme :: "string \<Rightarrow> string option" where
  "after_scheme [] = None"
| "after_scheme (c # cs) = (if startswith (c # cs) ''://'' then Some (drop 3 (c # cs)) else after_scheme cs)"

definition normalized_git_host :: "string option \<Rightarrow> string" where
  "normalized_git_host raw =
     (let host0 = strip (str_or_empty raw)
      in if length host0 > 253 + 16 then DEFAULT_GITLAB_HOST
         else
           let host1 = strip_char CHR ''/'' (strip (case after_scheme host0 of None \<Rightarrow> host0 | Some r \<Rightarrow> r))
           in case partition_at CHR '':'' host1 of
                (host, has_port, port) \<Rightarrow>
                  if has_port \<and> \<not> port_ok port then DEFAULT_GITLAB_HOST
                  else if host = [] \<or> length host > 253 then DEFAULT_GITLAB_HOST
                  else if \<not> list_all host_label (split_on CHR ''.'' host) then DEFAULT_GITLAB_HOST
                  else if has_port then host @ '':'' @ port else host)"

section \<open>Git configuration through the environment\<close>

text \<open>\<open>^[A-Za-z_][A-Za-z0-9_]*$\<close> with \<open>match\<close>: the dollar also matches before a final newline.\<close>

definition ident_chars :: "string \<Rightarrow> bool" where
  "ident_chars s \<longleftrightarrow> s \<noteq> [] \<and> (ascii_alnum (hd s) \<or> hd s = CHR ''_'') \<and> \<not> ascii_digit (hd s)
     \<and> list_all (\<lambda>c. ascii_alnum c \<or> c = CHR ''_'') s"

definition env_name_ok :: "string \<Rightarrow> bool" where
  "env_name_ok s \<longleftrightarrow> ident_chars s \<or> (s \<noteq> [] \<and> last s = CHR 0x0A \<and> ident_chars (butlast s))"

definition config_start :: "(string \<times> string) list \<Rightarrow> int" where
  "config_start env =
     (case py_int (strip (py_or (dict_str env ''GIT_CONFIG_COUNT'') ''0'')) of None \<Rightarrow> 0 | Some n \<Rightarrow> max 0 n)"

text \<open>The numbered key and value entries for a list of pairs, as the loop appends them.\<close>

fun config_entries :: "int \<Rightarrow> (string \<times> string) list \<Rightarrow> (string \<times> string) list" where
  "config_entries n [] = []"
| "config_entries n ((k, v) # ps) =
     (''GIT_CONFIG_KEY_'' @ int_str n, k) # (''GIT_CONFIG_VALUE_'' @ int_str n, v) # config_entries (n + 1) ps"

definition QUOTE :: char where "QUOTE = CHR 0x22"

definition auth_pairs :: "string \<Rightarrow> string \<Rightarrow> (string \<times> string) list" where
  "auth_pairs host name =
     [(''credential.https://'' @ host @ ''.helper'',
       ''!f(){ printf '' @ [CHR 0x27] @ ''username=oauth2'' @ [CHR 0x5C, CHR ''n''] @ ''password=%s'' @ [CHR 0x5C, CHR ''n'', CHR 0x27]
         @ '' '' @ [QUOTE] @ ''$'' @ name @ [QUOTE] @ ''; }; f''),
      (''url.https://'' @ host @ ''/.insteadOf'', ''git@'' @ host @ '':''),
      (''url.https://'' @ host @ ''/.insteadOf'', ''ssh://git@'' @ host @ ''/'')]"

definition git_auth_env :: "(string \<times> string) list \<Rightarrow> string \<Rightarrow> (string \<times> string) list" where
  "git_auth_env env name =
     (if strip (dict_str env name) = [] \<or> \<not> env_name_ok name then []
      else
        let pairs = auth_pairs (normalized_git_host (map_of env ''GITLAB_HOST'')) name;
            start = config_start env
        in (''GIT_TERMINAL_PROMPT'', ''0'') # (''GIT_CONFIG_COUNT'', int_str (start + int (length pairs)))
           # config_entries start pairs)"

text \<open>\<open>[A-Za-z0-9][A-Za-z0-9._-]{0,63}\<close>, matched in full.\<close>

definition identity_profile :: "string \<Rightarrow> bool" where
  "identity_profile s \<longleftrightarrow> s \<noteq> [] \<and> length s \<le> 64 \<and> ascii_alnum (hd s)
     \<and> list_all (\<lambda>c. ascii_alnum c \<or> c \<in> set ''._-'') (tl s)"

fun config_key_present :: "(string \<times> string) list \<Rightarrow> string list \<Rightarrow> nat \<Rightarrow> bool" where
  "config_key_present env names 0 = False"
| "config_key_present env names (Suc n) =
     (lower (strip (dict_str env (''GIT_CONFIG_KEY_'' @ int_str (int n)))) \<in> set names \<or> config_key_present env names n)"

definition git_identity_env :: "(string \<times> string) list \<Rightarrow> string option \<Rightarrow> (string \<times> string) list" where
  "git_identity_env env profile_arg =
     (let profile = strip (str_or_empty profile_arg); start = config_start env
      in if \<not> identity_profile profile then []
         else if config_key_present env [''user.name'', ''user.email''] (nat start) then []
         else
           let host = fst (partition_at CHR '':'' (normalized_git_host (map_of env ''GITLAB_HOST'')));
               pairs = [(''user.name'', profile), (''user.email'', profile @ ''@users.noreply.'' @ host)]
           in (''GIT_CONFIG_COUNT'', int_str (start + int (length pairs))) # config_entries start pairs)"

section \<open>Lemmas\<close>

definition safe_host_char :: "char \<Rightarrow> bool" where
  "safe_host_char c \<longleftrightarrow> ascii_alnum c \<or> c \<in> set ''.-:''"

lemma split_on_nonempty: "split_on sep s \<noteq> []"
  by (cases s) (auto split: list.splits)

lemma split_on_chars: "set s \<subseteq> insert sep (\<Union>w \<in> set (split_on sep s). set w)"
proof (induction sep s rule: split_on.induct)
  case (2 sep c cs)
  then show ?case by (cases "split_on sep cs") (auto simp: split_on_nonempty)
qed simp

lemma digit_alnum: "ascii_digit c \<Longrightarrow> ascii_alnum c"
  by (simp add: ascii_digit_def ascii_alnum_def Let_def)

lemma labels_safe:
  assumes "list_all host_label (split_on CHR ''.'' host)"
  shows "list_all safe_host_char host"
  unfolding list_all_iff
proof
  fix c assume "c \<in> set host"
  then have "c \<in> insert CHR ''.'' (\<Union>w \<in> set (split_on CHR ''.'' host). set w)"
    using split_on_chars [of host "CHR ''.''"] by blast
  then consider "c = CHR ''.''" | w where "w \<in> set (split_on CHR ''.'' host)" "c \<in> set w" by blast
  then show "safe_host_char c"
  proof cases
    case 2
    then have "host_label w" using assms by (simp add: list_all_iff)
    with 2 show ?thesis by (auto simp: host_label_def list_all_iff safe_host_char_def)
  qed (simp add: safe_host_char_def)
qed

lemma port_safe: "port_ok p \<Longrightarrow> list_all safe_host_char p"
  by (auto simp: port_ok_def list_all_iff safe_host_char_def digit_alnum)

lemma default_safe: "list_all safe_host_char DEFAULT_GITLAB_HOST"
  by (simp add: DEFAULT_GITLAB_HOST_def safe_host_char_def ascii_alnum_def)

lemma host_safe: "list_all safe_host_char (normalized_git_host raw) \<and> normalized_git_host raw \<noteq> []
    \<and> length (normalized_git_host raw) \<le> 259"
proof -
  have d: "DEFAULT_GITLAB_HOST \<noteq> []" "length DEFAULT_GITLAB_HOST \<le> 259" by (simp_all add: DEFAULT_GITLAB_HOST_def)
  have colon: "safe_host_char CHR '':''" by (simp add: safe_host_char_def)
  have port_len: "port_ok p \<Longrightarrow> length p \<le> 5" for p by (simp add: port_ok_def)
  show ?thesis
    unfolding normalized_git_host_def Let_def
    by (auto simp: default_safe d colon labels_safe port_safe dest: port_len split: prod.split)
qed

lemma config_entries_values: "(k, v) \<in> set (config_entries n ps) \<Longrightarrow> v \<in> fst ` set ps \<union> snd ` set ps"
  by (induction n ps rule: config_entries.induct) auto

lemma config_entries_keys:
  "k \<in> fst ` set (config_entries n ps) \<Longrightarrow>
     \<exists>i. n \<le> i \<and> i < n + int (length ps) \<and> (k = ''GIT_CONFIG_KEY_'' @ int_str i \<or> k = ''GIT_CONFIG_VALUE_'' @ int_str i)"
proof (induction n ps rule: config_entries.induct)
  case (2 n a b ps)
  then consider "k = ''GIT_CONFIG_KEY_'' @ int_str n \<or> k = ''GIT_CONFIG_VALUE_'' @ int_str n"
    | "k \<in> fst ` set (config_entries (n + 1) ps)" by auto
  then show ?case
  proof cases
    case 1
    then show ?thesis by (intro exI [of _ n]) auto
  next
    case 2
    from "2.IH" [OF this] obtain i where "n + 1 \<le> i" "i < n + 1 + int (length ps)"
      "k = ''GIT_CONFIG_KEY_'' @ int_str i \<or> k = ''GIT_CONFIG_VALUE_'' @ int_str i" by blast
    then show ?thesis by (intro exI [of _ i]) auto
  qed
qed simp

section \<open>Properties\<close>

text \<open>C31. The git environment is safe to interpolate and keeps what is there. The host is always
  one of letters, digits, dot, dash and colon, at most 259 characters long, whatever the
  vault value was. The token itself is in no entry: two environments that differ only in
  the token give the same result. Entries are only added after the existing ones: no numbered
  key or value below the previous count is written, and the new count is the old plus
  three.\<close>

theorem git_auth_env_safe:
  assumes "strip (dict_str env name) \<noteq> []" "env_name_ok name"
  shows "list_all safe_host_char (normalized_git_host raw) \<and> length (normalized_git_host raw) \<le> 259
    \<and> (name \<notin> {''GITLAB_HOST'', ''GIT_CONFIG_COUNT''} \<and> strip token \<noteq> [] \<longrightarrow>
         git_auth_env (dict_set name token env) name = git_auth_env env name)
    \<and> map_of (git_auth_env env name) ''GIT_CONFIG_COUNT'' = Some (int_str (config_start env + 3))
    \<and> (\<forall>i. i < config_start env \<longrightarrow> ''GIT_CONFIG_KEY_'' @ int_str i \<notin> fst ` set (git_auth_env env name)
         \<and> ''GIT_CONFIG_VALUE_'' @ int_str i \<notin> fst ` set (git_auth_env env name))"
proof -
  let ?ps = "auth_pairs (normalized_git_host (map_of env ''GITLAB_HOST'')) name"
  have len: "length ?ps = 3" by (simp add: auth_pairs_def)
  have env: "git_auth_env env name = (''GIT_TERMINAL_PROMPT'', ''0'')
      # (''GIT_CONFIG_COUNT'', int_str (config_start env + 3)) # config_entries (config_start env) ?ps"
    using assms len by (simp add: git_auth_env_def Let_def)
  have token: "git_auth_env (dict_set name token env) name = git_auth_env env name"
    if "name \<notin> {''GITLAB_HOST'', ''GIT_CONFIG_COUNT''}" "strip token \<noteq> []"
  proof -
    have "''GITLAB_HOST'' \<noteq> name" "''GIT_CONFIG_COUNT'' \<noteq> name" using that(1) by auto
    then have "map_of (dict_set name token env) ''GITLAB_HOST'' = map_of env ''GITLAB_HOST''"
      "config_start (dict_set name token env) = config_start env"
      by (simp_all add: config_start_def dict_str_def map_of_dict_set)
    moreover have "dict_str (dict_set name token env) name = token" by (simp add: dict_str_def map_of_dict_set str_or_empty_def)
    ultimately show ?thesis using that(2) assms by (simp add: git_auth_env_def)
  qed
  have below: "''GIT_CONFIG_KEY_'' @ int_str i \<notin> fst ` set (git_auth_env env name)
      \<and> ''GIT_CONFIG_VALUE_'' @ int_str i \<notin> fst ` set (git_auth_env env name)" if "i < config_start env" for i
  proof -
    have "k \<notin> fst ` set (config_entries (config_start env) ?ps)"
      if k: "k = ''GIT_CONFIG_KEY_'' @ int_str i \<or> k = ''GIT_CONFIG_VALUE_'' @ int_str i" for k
    proof
      assume "k \<in> fst ` set (config_entries (config_start env) ?ps)"
      from config_entries_keys [OF this] obtain j where "config_start env \<le> j"
        "k = ''GIT_CONFIG_KEY_'' @ int_str j \<or> k = ''GIT_CONFIG_VALUE_'' @ int_str j" by blast
      with k \<open>i < config_start env\<close> show False by (auto dest: int_str_inj)
    qed
    then show ?thesis by (simp add: env)
  qed
  show ?thesis using host_safe [of raw] token below by (simp add: env)
qed

theorem git_auth_env_safe_witness:
  "map_of (git_auth_env [(''GITLAB_TOKEN'', ''s3cret'')] ''GITLAB_TOKEN'') ''GIT_CONFIG_COUNT'' = Some ''3''
    \<and> git_auth_env (dict_set ''GITLAB_TOKEN'' ''other'' [(''GITLAB_TOKEN'', ''s3cret'')]) ''GITLAB_TOKEN''
      = git_auth_env [(''GITLAB_TOKEN'', ''s3cret'')] ''GITLAB_TOKEN''"
proof -
  have name: "env_name_ok ''GITLAB_TOKEN''"
    by (simp add: env_name_ok_def ident_chars_def ascii_alnum_def ascii_digit_def)
  have tok: "strip (dict_str [(''GITLAB_TOKEN'', ''s3cret'')] ''GITLAB_TOKEN'') \<noteq> []"
    by (simp add: dict_str_def str_or_empty_def strip_def is_space_def)
  have "strip ''other'' \<noteq> []" by (simp add: strip_def is_space_def)
  moreover have "config_start [(''GITLAB_TOKEN'', ''s3cret'')] = 0"
    by (simp add: config_start_def dict_str_def str_or_empty_def py_or_def py_int_def strip_def is_space_def)
  moreover have "int_str 3 = ''3''" by (simp add: int_str_def nat_str.simps digit_char_def)
  ultimately show ?thesis using git_auth_env_safe [OF tok name, of None "''other''"] by simp
qed

end
