(* ===== verification/Credential_Vault.thy ===== *)
theory Credential_Vault
  imports Git_Env "HOL-Library.Word" "HOL-Library.List_Lexorder" "HOL-Library.Char_ord"
begin

text \<open>
  The credential vault (\<open>src/hermes_multitenancy/credentials.py\<close>) and the precedence of personal
  over shared secrets (\<open>resolve_runtime_secret\<close> in \<open>credential_materializer.py\<close>). Sealing is
  modelled on bytes: the HMAC-SHA256 keystream, the XOR, the tag and the base64 text; HMAC,
  the scope hash and the JSON codec are the fields of a record of primitives. The random nonce
  and the clock are arguments. A payload is a dict of JSON values whose numbers are integers.
\<close>

unbundle bit_operations_syntax

section \<open>Bytes and base64\<close>

type_synonym byte = "8 word"
type_synonym bytes = "byte list"

definition B64 :: string where
  "B64 = ''ABCDEFGHIJKLMNOPQRSTUVWXYZabcdefghijklmnopqrstuvwxyz0123456789-_''"

definition b64_char :: "nat \<Rightarrow> char" where
  "b64_char n = B64 ! n"

text \<open>\<open>base64.urlsafe_b64encode\<close>.\<close>

fun b64_enc :: "nat list \<Rightarrow> string" where
  "b64_enc [] = []"
| "b64_enc [a] = [b64_char (a div 4), b64_char (a mod 4 * 16), CHR ''='', CHR ''='']"
| "b64_enc [a, b] = [b64_char (a div 4), b64_char (a mod 4 * 16 + b div 16), b64_char (b mod 16 * 4), CHR ''='']"
| "b64_enc (a # b # c # bs) =
     b64_char (a div 4) # b64_char (a mod 4 * 16 + b div 16) # b64_char (b mod 16 * 4 + c div 64) # b64_char (c mod 64)
       # b64_enc bs"

fun index_of :: "char \<Rightarrow> string \<Rightarrow> nat option" where
  "index_of c [] = None"
| "index_of c (x # xs) = (if c = x then Some 0 else map_option Suc (index_of c xs))"

definition b64_val :: "char \<Rightarrow> nat option" where
  "b64_val c = index_of c B64"

text \<open>\<open>base64.urlsafe_b64decode\<close> of a text in groups of four; \<open>None\<close> is \<open>binascii.Error\<close>. A
  character outside the alphabet, which Python skips, is an error here: the vault stores only
  texts that \<open>_seal_json\<close> wrote.\<close>

fun b64_dec :: "string \<Rightarrow> nat list option" where
  "b64_dec [] = Some []"
| "b64_dec (p # q # r # s # cs) =
     (case (b64_val p, b64_val q) of
        (Some i, Some j) \<Rightarrow>
          if r = CHR ''='' \<and> s = CHR ''='' \<and> cs = [] then Some [i * 4 + j div 16]
          else (case b64_val r of
              None \<Rightarrow> None
            | Some k \<Rightarrow>
                if s = CHR ''='' \<and> cs = [] then Some [i * 4 + j div 16, j mod 16 * 16 + k div 4]
                else (case (b64_val s, b64_dec cs) of
                    (Some l, Some bs) \<Rightarrow> Some ((i * 4 + j div 16) # (j mod 16 * 16 + k div 4) # (k mod 4 * 64 + l) # bs)
                  | _ \<Rightarrow> None))
      | _ \<Rightarrow> None)"
| "b64_dec _ = None"

section \<open>Payloads and primitives\<close>

datatype jval = JNull | JBool bool | JInt int | JStr string | JOther string

type_synonym payload = "(string \<times> jval) list"

fun py_str :: "jval \<Rightarrow> string" where
  "py_str JNull = ''None''"
| "py_str (JBool b) = (if b then ''True'' else ''False'')"
| "py_str (JInt i) = int_str i"
| "py_str (JStr s) = s"
| "py_str (JOther t) = t"

fun truthy :: "jval \<Rightarrow> bool" where
  "truthy JNull = False"
| "truthy (JBool b) = b"
| "truthy (JInt i) = (i \<noteq> 0)"
| "truthy (JStr s) = (s \<noteq> [])"
| "truthy (JOther t) = (t \<noteq> ''[]'' \<and> t \<noteq> ''{}'')"

text \<open>\<open>int(v)\<close>, with \<open>None\<close> for the \<open>TypeError\<close> or \<open>ValueError\<close> it raises.\<close>

fun jval_int :: "jval \<Rightarrow> int option" where
  "jval_int (JInt i) = Some i"
| "jval_int (JBool b) = Some (if b then 1 else 0)"
| "jval_int (JStr s) = py_int s"
| "jval_int _ = None"

record prims =
  pm_mac :: "bytes \<Rightarrow> bytes \<Rightarrow> bytes"
  pm_dumps :: "payload \<Rightarrow> bytes"
  pm_loads :: "bytes \<Rightarrow> payload option"
  pm_scope_hash :: "string \<Rightarrow> string"

section \<open>Sealing\<close>

text \<open>\<open>counter.to_bytes(8, "big")\<close>.\<close>

definition counter_bytes :: "nat \<Rightarrow> bytes" where
  "counter_bytes n = map (\<lambda>i. word_of_nat (n div 256 ^ (7 - i) mod 256)) [0 ..< 8]"

text \<open>The loop of \<open>_keystream\<close>; a block that adds nothing would make it run forever, hence \<open>None\<close>.\<close>

partial_function (option) keystream_from :: "(bytes \<Rightarrow> bytes) \<Rightarrow> nat \<Rightarrow> nat \<Rightarrow> bytes \<Rightarrow> bytes option" where
  "keystream_from blk counter len out =
     (if length out < len then keystream_from blk (counter + 1) len (out @ blk (counter_bytes counter))
      else Some (take len out))"

definition keystream :: "(bytes \<Rightarrow> bytes \<Rightarrow> bytes) \<Rightarrow> bytes \<Rightarrow> bytes \<Rightarrow> nat \<Rightarrow> bytes option" where
  "keystream mac key nonce len = keystream_from (\<lambda>c. mac key (nonce @ c)) 0 len []"

definition xor_bytes :: "bytes \<Rightarrow> bytes \<Rightarrow> bytes" where
  "xor_bytes left right = map2 (\<lambda>a b. a XOR b) left right"

definition seal_json :: "prims \<Rightarrow> bytes \<Rightarrow> payload \<Rightarrow> bytes \<Rightarrow> string option" where
  "seal_json pm nonce payload key =
     (let plaintext = pm_dumps pm payload
      in case keystream (pm_mac pm) key nonce (length plaintext) of
           None \<Rightarrow> None
         | Some ks \<Rightarrow>
             let ciphertext = xor_bytes plaintext ks; tag = pm_mac pm key (nonce @ ciphertext)
             in Some (''v1:'' @ b64_enc (map unat (nonce @ tag @ ciphertext))))"

definition open_json :: "prims \<Rightarrow> string \<Rightarrow> bytes \<Rightarrow> payload result option" where
  "open_json pm sealed key =
     (if \<not> startswith sealed ''v1:'' then Some (Inl (ValueError ''unsupported credential payload version''))
      else (case b64_dec (drop 3 sealed) of
          None \<Rightarrow> Some (Inl (ValueError ''binascii.Error''))
        | Some nats \<Rightarrow>
            let raw = map word_of_nat nats; nonce = take 16 raw; tag = take 32 (drop 16 raw); ciphertext = drop 48 raw
            in if length raw < 48 then Some (Inl (ValueError ''credential payload is truncated''))
               else if tag \<noteq> pm_mac pm key (nonce @ ciphertext)
               then Some (Inl (ValueError ''credential payload authentication failed''))
               else (case keystream (pm_mac pm) key nonce (length ciphertext) of
                   None \<Rightarrow> None
                 | Some ks \<Rightarrow>
                     (case pm_loads pm (xor_bytes ciphertext ks) of
                        None \<Rightarrow> Some (Inl (ValueError ''credential payload must be a JSON object''))
                      | Some p \<Rightarrow> Some (Inr p)))))"

section \<open>The store\<close>

record cred_row =
  c_id :: int
  c_profile_name :: string
  c_subject_id :: string
  c_provider :: string
  c_secret_kind :: string
  c_scopes :: "string list"
  c_scope_hash :: string
  c_expires_at :: "int option"
  c_encrypted_payload :: string
  c_active :: bool
  c_created_at :: int
  c_updated_at :: int

record vault =
  v_rows :: "cred_row list"
  v_next :: int

type_synonym cred_key = "string \<times> string \<times> string \<times> string"

definition cred_key :: "cred_row \<Rightarrow> cred_key" where
  "cred_key r = (c_profile_name r, c_subject_id r, c_provider r, c_secret_kind r)"

fun has_dotdot :: "string \<Rightarrow> bool" where
  "has_dotdot (a # b # cs) = ((a = CHR ''.'' \<and> b = CHR ''.'') \<or> has_dotdot (b # cs))"
| "has_dotdot _ = False"

definition clean_id :: "string \<Rightarrow> string option \<Rightarrow> string result" where
  "clean_id name value =
     (let v = strip (str_or_empty value)
      in if v = [] then Inl (ValueError (name @ '' is required''))
         else if CHR ''/'' \<in> set v \<or> CHR 0x5C \<in> set v \<or> CHR 0x00 \<in> set v \<or> has_dotdot v
         then Inl (ValueError (name @ '' contains illegal characters''))
         else Inr v)"

text \<open>The four identifiers, checked in the order the methods check them.\<close>

definition clean_key :: "string \<Rightarrow> string \<Rightarrow> string \<Rightarrow> string \<Rightarrow> cred_key result" where
  "clean_key profile subject provider kind =
     (case clean_id ''profile_name'' (Some profile) of Inl e \<Rightarrow> Inl e | Inr p \<Rightarrow>
     (case clean_id ''subject_id'' (Some subject) of Inl e \<Rightarrow> Inl e | Inr s \<Rightarrow>
     (case clean_id ''provider'' (Some provider) of Inl e \<Rightarrow> Inl e | Inr v \<Rightarrow>
     (case clean_id ''secret_kind'' (Some kind) of Inl e \<Rightarrow> Inl e | Inr k \<Rightarrow> Inr (p, s, v, k)))))"

definition normalize_scopes :: "string list \<Rightarrow> string list" where
  "normalize_scopes scopes = sort (remdups (filter (\<lambda>s. s \<noteq> []) (map strip scopes)))"

definition scope_hash :: "prims \<Rightarrow> string list \<Rightarrow> string" where
  "scope_hash pm scopes = pm_scope_hash pm (join_sep (CHR 0x0A) scopes)"

definition require_key :: "bytes option \<Rightarrow> bytes result" where
  "require_key key = (case key of None \<Rightarrow> Inl (RuntimeError ''credential encryption key is required'') | Some k \<Rightarrow> Inr k)"

text \<open>\<open>_resolve_key\<close> and \<open>_resolve_optional_key\<close>: the argument, or the first non-empty variable.\<close>

definition resolve_optional_key :: "(bytes \<Rightarrow> bytes) \<Rightarrow> bytes option \<Rightarrow> bytes option \<Rightarrow> bytes option \<Rightarrow> bytes option" where
  "resolve_optional_key sha value env1 env2 =
     (let raw = (case value of Some v \<Rightarrow> v
        | None \<Rightarrow> (case env1 of Some v \<Rightarrow> if v \<noteq> [] then v else (case env2 of None \<Rightarrow> [] | Some w \<Rightarrow> w)
                    | None \<Rightarrow> (case env2 of None \<Rightarrow> [] | Some w \<Rightarrow> w)))
      in if raw = [] then None else Some (sha raw))"

definition resolve_key :: "(bytes \<Rightarrow> bytes) \<Rightarrow> bytes option \<Rightarrow> bytes option \<Rightarrow> bytes option \<Rightarrow> bytes result" where
  "resolve_key sha value env1 env2 = require_key (resolve_optional_key sha value env1 env2)"

definition get_row :: "vault \<Rightarrow> cred_key \<Rightarrow> cred_row option" where
  "get_row v k = fetchone (filter (\<lambda>r. cred_key r = k \<and> c_active r) (v_rows v))"

definition cred_set :: "int \<Rightarrow> string list \<Rightarrow> string \<Rightarrow> int option \<Rightarrow> string \<Rightarrow> cred_row \<Rightarrow> cred_row" where
  "cred_set now scopes hash expires sealed r =
     r\<lparr>c_scopes := scopes, c_scope_hash := hash, c_expires_at := expires, c_encrypted_payload := sealed,
       c_active := True, c_updated_at := now\<rparr>"

definition cred_new :: "int \<Rightarrow> int \<Rightarrow> cred_key \<Rightarrow> string list \<Rightarrow> string \<Rightarrow> int option \<Rightarrow> string \<Rightarrow> cred_row" where
  "cred_new now rid k scopes hash expires sealed =
     (case k of (p, s, v, q) \<Rightarrow>
       \<lparr>c_id = rid, c_profile_name = p, c_subject_id = s, c_provider = v, c_secret_kind = q, c_scopes = scopes,
        c_scope_hash = hash, c_expires_at = expires, c_encrypted_payload = sealed, c_active = True,
        c_created_at = now, c_updated_at = now\<rparr>)"

text \<open>\<open>_upsert\<close>; \<open>None\<close> is a keystream that never ends.\<close>

definition cred_upsert ::
    "prims \<Rightarrow> int \<Rightarrow> bytes \<Rightarrow> bytes option \<Rightarrow> vault \<Rightarrow> cred_key \<Rightarrow> payload \<Rightarrow> string list \<Rightarrow> int option \<Rightarrow> vault result option" where
  "cred_upsert pm now nonce key v k payload scopes expires =
     (let sc = normalize_scopes scopes
      in case require_key key of
           Inl e \<Rightarrow> Some (Inl e)
         | Inr kb \<Rightarrow>
             (case seal_json pm nonce payload kb of
                None \<Rightarrow> None
              | Some sealed \<Rightarrow>
                  Some (Inr (v\<lparr>v_rows := sql_upsert (\<lambda>r. cred_key r = k) (cred_new now (v_next v) k sc (scope_hash pm sc) expires sealed)
                                  (cred_set now sc (scope_hash pm sc) expires sealed) (v_rows v),
                               v_next := v_next v + (if list_ex (\<lambda>r. cred_key r = k) (v_rows v) then 0 else 1)\<rparr>))))"

definition put_credential ::
    "prims \<Rightarrow> int \<Rightarrow> bytes \<Rightarrow> bytes option \<Rightarrow> vault \<Rightarrow> string \<Rightarrow> string \<Rightarrow> string \<Rightarrow> string \<Rightarrow> payload \<Rightarrow> string list
      \<Rightarrow> int option \<Rightarrow> (vault \<Rightarrow> bool) option \<Rightarrow> (vault \<times> bool) result option" where
  "put_credential pm now nonce key v profile subject provider kind payload scopes expires commit_if =
     (case clean_key profile subject provider kind of
        Inl e \<Rightarrow> Some (Inl e)
      | Inr k \<Rightarrow>
          (case cred_upsert pm now nonce key v k payload scopes expires of
             None \<Rightarrow> None
           | Some (Inl e) \<Rightarrow> Some (Inl e)
           | Some (Inr v') \<Rightarrow>
               (case commit_if of
                  Some ok \<Rightarrow> if \<not> ok v' then Some (Inr (v, False)) else Some (Inr (v', True))
                | None \<Rightarrow> Some (Inr (v', True)))))"

text \<open>The decrypted current payload that \<open>expect\<close> judges.\<close>

definition current_payload :: "prims \<Rightarrow> bytes \<Rightarrow> vault \<Rightarrow> cred_key \<Rightarrow> payload option result option" where
  "current_payload pm kb v k =
     (case get_row v k of
        None \<Rightarrow> Some (Inr None)
      | Some r \<Rightarrow> (case open_json pm (c_encrypted_payload r) kb of
            None \<Rightarrow> None | Some (Inl e) \<Rightarrow> Some (Inl e) | Some (Inr p) \<Rightarrow> Some (Inr (Some p))))"

definition put_credential_if ::
    "prims \<Rightarrow> int \<Rightarrow> bytes \<Rightarrow> bytes option \<Rightarrow> vault \<Rightarrow> string \<Rightarrow> string \<Rightarrow> string \<Rightarrow> string \<Rightarrow> payload
      \<Rightarrow> (payload option \<Rightarrow> bool) \<Rightarrow> string list \<Rightarrow> int option \<Rightarrow> (vault \<times> bool) result option" where
  "put_credential_if pm now nonce key v profile subject provider kind payload expect scopes expires =
     (case clean_key profile subject provider kind of
        Inl e \<Rightarrow> Some (Inl e)
      | Inr k \<Rightarrow>
          (case require_key key of
             Inl e \<Rightarrow> Some (Inl e)
           | Inr kb \<Rightarrow>
               (case current_payload pm kb v k of
                  None \<Rightarrow> None
                | Some (Inl e) \<Rightarrow> Some (Inl e)
                | Some (Inr cur) \<Rightarrow>
                    if \<not> expect cur then Some (Inr (v, False))
                    else (case cred_upsert pm now nonce key v k payload scopes expires of
                        None \<Rightarrow> None
                      | Some (Inl e) \<Rightarrow> Some (Inl e)
                      | Some (Inr v') \<Rightarrow> Some (Inr (v', True))))))"

definition delete_credential :: "vault \<Rightarrow> string \<Rightarrow> string \<Rightarrow> string \<Rightarrow> string \<Rightarrow> (vault \<times> bool) result" where
  "delete_credential v profile subject provider kind =
     (case clean_key profile subject provider kind of
        Inl e \<Rightarrow> Inl e
      | Inr k \<Rightarrow> Inr (v\<lparr>v_rows := sql_delete (\<lambda>r. cred_key r = k) (v_rows v)\<rparr>, rowcount (\<lambda>r. cred_key r = k) (v_rows v) > 0))"

definition delete_credential_if ::
    "prims \<Rightarrow> bytes option \<Rightarrow> vault \<Rightarrow> string \<Rightarrow> string \<Rightarrow> string \<Rightarrow> string \<Rightarrow> (payload option \<Rightarrow> bool)
      \<Rightarrow> (vault \<times> bool) result option" where
  "delete_credential_if pm key v profile subject provider kind expect =
     (case clean_key profile subject provider kind of
        Inl e \<Rightarrow> Some (Inl e)
      | Inr k \<Rightarrow>
          (case require_key key of
             Inl e \<Rightarrow> Some (Inl e)
           | Inr kb \<Rightarrow>
               (case current_payload pm kb v k of
                  None \<Rightarrow> None
                | Some (Inl e) \<Rightarrow> Some (Inl e)
                | Some (Inr cur) \<Rightarrow>
                    if \<not> expect cur then Some (Inr (v, False))
                    else Some (Inr (v\<lparr>v_rows := sql_delete (\<lambda>r. cred_key r = k) (v_rows v)\<rparr>, True)))))"

datatype cred_status = StMissing | StValid | StExpired | StScopeMissing

record status_view =
  sv_status :: cred_status
  sv_has_payload :: bool
  sv_scopes :: "string list"
  sv_missing_scopes :: "string list"
  sv_expires_at :: "int option"
  sv_refresh_expires_at :: "int option"
  sv_credential_version :: "string option"
  sv_credential_status :: "string option"

text \<open>The three optional entries that \<open>get_status\<close> reads from the payload: the first conversion
  that fails ends the block, and what was set before it stays.\<close>

definition payload_extras :: "payload \<Rightarrow> status_view \<Rightarrow> status_view" where
  "payload_extras p sv =
     (case map_of p ''refresh_expires_at'' of
        None \<Rightarrow> sv
      | Some x \<Rightarrow> (case jval_int x of
            None \<Rightarrow> sv
          | Some n \<Rightarrow>
              sv\<lparr>sv_refresh_expires_at := (if n > 0 then Some n else None),
                 sv_credential_version := (case map_of p ''credential_version'' of None \<Rightarrow> None
                    | Some y \<Rightarrow> if truthy y then Some (py_str y) else None),
                 sv_credential_status := (case map_of p ''status'' of None \<Rightarrow> None
                    | Some y \<Rightarrow> if truthy y then Some (py_str y) else None)\<rparr>))"

definition get_status ::
    "prims \<Rightarrow> int \<Rightarrow> bytes option \<Rightarrow> vault \<Rightarrow> string \<Rightarrow> string \<Rightarrow> string \<Rightarrow> string list \<Rightarrow> string \<Rightarrow> status_view result option" where
  "get_status pm now key v profile subject provider required_scopes kind =
     (case clean_key profile subject provider kind of
        Inl e \<Rightarrow> Some (Inl e)
      | Inr k \<Rightarrow>
          (let none = \<lparr>sv_status = StMissing, sv_has_payload = False, sv_scopes = [], sv_missing_scopes = [],
                 sv_expires_at = None, sv_refresh_expires_at = None, sv_credential_version = None, sv_credential_status = None\<rparr>
           in case get_row v k of
                None \<Rightarrow> Some (Inr none)
              | Some r \<Rightarrow>
                  let scopes = normalize_scopes (c_scopes r);
                      missing = filter (\<lambda>s. s \<notin> set scopes) (normalize_scopes required_scopes);
                      expired = (case c_expires_at r of None \<Rightarrow> False | Some e \<Rightarrow> e \<le> now);
                      st = (if expired then StExpired else if missing \<noteq> [] then StScopeMissing else StValid);
                      base = none\<lparr>sv_status := st, sv_has_payload := (c_encrypted_payload r \<noteq> []), sv_scopes := scopes,
                        sv_missing_scopes := missing, sv_expires_at := c_expires_at r\<rparr>
                  in case key of
                       None \<Rightarrow> Some (Inr base)
                     | Some kb \<Rightarrow>
                         (case open_json pm (c_encrypted_payload r) kb of
                            None \<Rightarrow> None
                          | Some (Inl e) \<Rightarrow> Some (Inr base)
                          | Some (Inr p) \<Rightarrow> Some (Inr (payload_extras p base)))))"

definition get_secret_with_updated_at ::
    "prims \<Rightarrow> bytes option \<Rightarrow> vault \<Rightarrow> string \<Rightarrow> string \<Rightarrow> string \<Rightarrow> string \<Rightarrow> (payload \<times> int) result option" where
  "get_secret_with_updated_at pm key v profile subject provider kind =
     (case clean_key profile subject provider kind of
        Inl e \<Rightarrow> Some (Inl e)
      | Inr k \<Rightarrow>
          (case get_row v k of
             None \<Rightarrow> Some (Inl (PermissionError ''credential not found for current profile/subject/provider''))
           | Some r \<Rightarrow>
               (case require_key key of
                  Inl e \<Rightarrow> Some (Inl e)
                | Inr kb \<Rightarrow>
                    (case open_json pm (c_encrypted_payload r) kb of
                       None \<Rightarrow> None | Some (Inl e) \<Rightarrow> Some (Inl e) | Some (Inr p) \<Rightarrow> Some (Inr (p, c_updated_at r))))))"

definition get_secret_for_runtime ::
    "prims \<Rightarrow> bytes option \<Rightarrow> vault \<Rightarrow> string \<Rightarrow> string \<Rightarrow> string \<Rightarrow> string \<Rightarrow> payload result option" where
  "get_secret_for_runtime pm key v profile subject provider kind =
     map_option (map_sum (\<lambda>e. e) fst) (get_secret_with_updated_at pm key v profile subject provider kind)"

text \<open>The loop of \<open>payload_value_is_unique\<close> over the rows of the provider.\<close>

fun no_other_holder ::
    "prims \<Rightarrow> bytes \<Rightarrow> string \<times> string \<Rightarrow> string \<Rightarrow> string \<Rightarrow> cred_row list \<Rightarrow> bool result option" where
  "no_other_holder pm kb owner field wanted [] = Some (Inr True)"
| "no_other_holder pm kb owner field wanted (r # rs) =
     (if (c_profile_name r, c_subject_id r) = owner then no_other_holder pm kb owner field wanted rs
      else (case open_json pm (c_encrypted_payload r) kb of
          None \<Rightarrow> None
        | Some (Inl e) \<Rightarrow> Some (Inl e)
        | Some (Inr p) \<Rightarrow>
            if (case map_of p field of None \<Rightarrow> [] | Some x \<Rightarrow> if truthy x then py_str x else []) = wanted
            then Some (Inr False)
            else no_other_holder pm kb owner field wanted rs))"

definition payload_value_is_unique ::
    "prims \<Rightarrow> bytes option \<Rightarrow> vault \<Rightarrow> string \<Rightarrow> string \<Rightarrow> string \<Rightarrow> string \<Rightarrow> string \<Rightarrow> string \<Rightarrow> bool result option" where
  "payload_value_is_unique pm key v provider kind field wanted owner_profile owner_subject =
     (case clean_id ''provider'' (Some provider) of Inl e \<Rightarrow> Some (Inl e) | Inr pv \<Rightarrow>
     (case clean_id ''secret_kind'' (Some kind) of Inl e \<Rightarrow> Some (Inl e) | Inr sk \<Rightarrow>
     (case clean_id ''profile_name'' (Some owner_profile) of Inl e \<Rightarrow> Some (Inl e) | Inr op' \<Rightarrow>
     (case clean_id ''subject_id'' (Some owner_subject) of Inl e \<Rightarrow> Some (Inl e) | Inr os \<Rightarrow>
     (case require_key key of Inl e \<Rightarrow> Some (Inl e) | Inr kb \<Rightarrow>
        no_other_holder pm kb (op', os) field wanted
          (filter (\<lambda>r. c_provider r = pv \<and> c_secret_kind r = sk \<and> c_active r) (v_rows v)))))))"

section \<open>Personal before shared\<close>

definition DEFAULT_SHARED_PROFILE :: string where "DEFAULT_SHARED_PROFILE = ''__shared__''"
definition SELF_PROFILE_MARKER :: string where "SELF_PROFILE_MARKER = ''__self__''"

text \<open>One entry of the materialisation config.\<close>

record cred_entry =
  ce_vault_profile :: "string option"
  ce_subject_id :: string
  ce_provider :: string
  ce_secret_kind :: "string option"
  ce_env :: "string option"
  ce_env_name :: "string option"
  ce_payload_key :: "string option"
  ce_env_extra :: "(string \<times> string) list"

fun resolve_candidates ::
    "prims \<Rightarrow> int \<Rightarrow> bytes option \<Rightarrow> vault \<Rightarrow> cred_entry \<Rightarrow> string list \<Rightarrow> (payload \<times> string) option result option" where
  "resolve_candidates pm now key v e [] = Some (Inr None)"
| "resolve_candidates pm now key v e (vp # vps) =
     (let kind = py_or (str_or_empty (ce_secret_kind e)) ''token'';
          secret = (case get_secret_for_runtime pm key v vp (ce_subject_id e) (ce_provider e) kind of
             None \<Rightarrow> None
           | Some (Inl (PermissionError m)) \<Rightarrow> resolve_candidates pm now key v e vps
           | Some (Inl x) \<Rightarrow> Some (Inl x)
           | Some (Inr p) \<Rightarrow> Some (Inr (Some (p, vp))))
      in if vp \<noteq> DEFAULT_SHARED_PROFILE
         then (case get_status pm now key v vp (ce_subject_id e) (ce_provider e) [] kind of
             None \<Rightarrow> None
           | Some (Inl x) \<Rightarrow> Some (Inl x)
           | Some (Inr st) \<Rightarrow> if sv_status st = StExpired then Some (Inr None) else secret)
         else secret)"

definition resolve_runtime_secret ::
    "prims \<Rightarrow> int \<Rightarrow> bytes option \<Rightarrow> vault \<Rightarrow> cred_entry \<Rightarrow> string \<Rightarrow> (payload \<times> string) option result option" where
  "resolve_runtime_secret pm now key v e profile =
     (let raw = strip (py_or (str_or_empty (ce_vault_profile e)) DEFAULT_SHARED_PROFILE)
      in resolve_candidates pm now key v e
           (if raw = SELF_PROFILE_MARKER then [profile, DEFAULT_SHARED_PROFILE] else [raw]))"

fun first_present :: "payload \<Rightarrow> string list \<Rightarrow> jval option" where
  "first_present p [] = None"
| "first_present p (k # ks) =
     (case map_of p k of None \<Rightarrow> first_present p ks | Some x \<Rightarrow> if x = JNull then first_present p ks else Some x)"

fun join_comma :: "string list \<Rightarrow> string" where
  "join_comma [] = []"
| "join_comma [x] = x"
| "join_comma (x # y # ys) = x @ '', '' @ join_comma (y # ys)"

definition payload_content :: "payload \<Rightarrow> string option \<Rightarrow> string result" where
  "payload_content p payload_key =
     (let keys = (if str_or_empty payload_key \<noteq> [] then [str_or_empty payload_key] else [''token'', ''content'', ''value''])
      in case first_present p keys of
           Some x \<Rightarrow> Inr (rstrip_char (CHR 0x0A) (py_str x) @ [CHR 0x0A])
         | None \<Rightarrow> Inl (ValueError (''credential payload lacks one of '' @ join_comma keys)))"

section \<open>Base64 round trip\<close>

lemma index_of_nth: "distinct xs \<Longrightarrow> n < length xs \<Longrightarrow> index_of (xs ! n) xs = Some n"
proof (induction xs arbitrary: n)
  case (Cons x xs)
  then show ?case by (cases n) auto
qed simp

lemma B64_facts: "distinct B64" "length B64 = 64" "CHR ''='' \<notin> set B64"
  by (simp_all add: B64_def)

lemma b64_val_char [simp]: "n < 64 \<Longrightarrow> b64_val (b64_char n) = Some n"
  by (simp add: b64_val_def b64_char_def index_of_nth B64_facts)

lemma b64_char_pad [simp]: "n < 64 \<Longrightarrow> b64_char n \<noteq> CHR ''=''" "n < 64 \<Longrightarrow> CHR ''='' \<noteq> b64_char n"
  unfolding b64_char_def using B64_facts(2,3) nth_mem [of n B64] by metis+

lemma sextets:
  assumes "a < 256" "b < 256" "(c::nat) < 256"
  shows "a div 4 < 64" "a mod 4 * 16 < 64" "a mod 4 * 16 + b div 16 < 64" "b mod 16 * 4 < 64" "b mod 16 * 4 + c div 64 < 64"
    "c mod 64 < 64"
  using assms by linarith+

lemma sextet_parts:
  "(b::nat) < 256 \<Longrightarrow> (a mod 4 * 16 + b div 16) div 16 = a mod 4"
  "b < 256 \<Longrightarrow> (a mod 4 * 16 + b div 16) mod 16 = b div 16"
  "(c::nat) < 256 \<Longrightarrow> (b mod 16 * 4 + c div 64) div 4 = b mod 16"
  "c < 256 \<Longrightarrow> (b mod 16 * 4 + c div 64) mod 4 = c div 64"
  by (linarith, simp add: mod_less, linarith, simp add: mod_less)

lemma b64_roundtrip: "list_all (\<lambda>n. n < 256) ns \<Longrightarrow> b64_dec (b64_enc ns) = Some ns"
proof (induction ns rule: b64_enc.induct)
  case (2 a)
  then show ?case using sextets [of a 0 0] by simp
next
  case (3 a b)
  then have "a < 256" "b < 256" by simp_all
  then show ?case using sextets [of a b 0] by (simp add: sextet_parts)
next
  case (4 a b c bs)
  then have "a < 256" "b < 256" "c < 256" "list_all (\<lambda>n. n < 256) bs" by simp_all
  with "4.IH" sextets [of a b c] show ?case by (simp add: sextet_parts)
qed simp

section \<open>Sealing round trip\<close>

lemma keystream_total:
  assumes "\<And>c. length (blk c) = 32"
  shows "\<exists>ks. keystream_from blk counter len out = Some ks \<and> length ks = len"
proof (induction "len - length out" arbitrary: counter out rule: less_induct)
  case less
  show ?case
  proof (cases "length out < len")
    case True
    have "\<exists>ks. keystream_from blk (counter + 1) len (out @ blk (counter_bytes counter)) = Some ks \<and> length ks = len"
      by (rule less) (use True assms in simp)
    with True show ?thesis by (subst keystream_from.simps) simp
  next
    case False
    then show ?thesis by (subst keystream_from.simps) simp
  qed
qed

lemma keystream_ok:
  assumes "\<And>k m. length (mac k m) = 32"
  shows "\<exists>ks. keystream mac key nonce len = Some ks \<and> length ks = len"
  unfolding keystream_def by (rule keystream_total) (rule assms)

lemma xor_xor:
  assumes "length a = length b"
  shows "xor_bytes (xor_bytes a b) b = a"
  using assms unfolding xor_bytes_def
  by (induction a b rule: list_induct2) (simp_all add: xor.assoc)

lemma length_xor [simp]: "length (xor_bytes a b) = min (length a) (length b)"
  by (simp add: xor_bytes_def)

text \<open>What the vault relies on: HMAC-SHA256 yields 32 bytes, and JSON reads back the payload it wrote.\<close>

definition prims_ok :: "prims \<Rightarrow> payload \<Rightarrow> bool" where
  "prims_ok pm p \<longleftrightarrow> (\<forall>k m. length (pm_mac pm k m) = 32) \<and> pm_loads pm (pm_dumps pm p) = Some p"

lemma unat_bytes: "list_all (\<lambda>n. n < 256) (map unat (bs :: bytes))"
proof -
  have "unat b < 256" for b :: byte using unsigned_less [of b] by simp
  then show ?thesis by (simp add: list_all_iff)
qed

lemma word_unat_map: "map (word_of_nat \<circ> unat) (bs :: bytes) = bs"
  by (simp add: map_idI)

lemma seal_open:
  assumes "prims_ok pm p" "length nonce = 16"
  shows "\<exists>sealed. seal_json pm nonce p key = Some sealed \<and> open_json pm sealed key = Some (Inr p)"
proof -
  have mac: "length (pm_mac pm k m) = 32" for k m using assms(1) by (simp add: prims_ok_def)
  let ?pt = "pm_dumps pm p"
  obtain ks where ks: "keystream (pm_mac pm) key nonce (length ?pt) = Some ks" "length ks = length ?pt"
    using keystream_ok [of "pm_mac pm", OF mac] by blast
  let ?ct = "xor_bytes ?pt ks"
  let ?tag = "pm_mac pm key (nonce @ ?ct)"
  have "b64_dec (b64_enc (map unat (nonce @ ?tag @ ?ct))) = Some (map unat (nonce @ ?tag @ ?ct))"
    by (rule b64_roundtrip) (rule unat_bytes)
  moreover have "take 16 (nonce @ ?tag @ ?ct) = nonce" "take 32 (drop 16 (nonce @ ?tag @ ?ct)) = ?tag"
    "drop 48 (nonce @ ?tag @ ?ct) = ?ct" using assms(2) mac by simp_all
  moreover have "xor_bytes ?ct ks = ?pt" by (rule xor_xor) (use ks in simp)
  moreover have "pm_loads pm ?pt = Some p" using assms(1) by (simp add: prims_ok_def)
  ultimately have "open_json pm (''v1:'' @ b64_enc (map unat (nonce @ ?tag @ ?ct))) key = Some (Inr p)"
    using ks assms(2) mac by (simp add: open_json_def Let_def word_unat_map del: map_append)
  moreover have "seal_json pm nonce p key = Some (''v1:'' @ b64_enc (map unat (nonce @ ?tag @ ?ct)))"
    using ks by (simp add: seal_json_def Let_def)
  ultimately show ?thesis by blast
qed

section \<open>Store lemmas\<close>

definition vault_inv :: "vault \<Rightarrow> bool" where
  "vault_inv v \<longleftrightarrow> distinct (map cred_key (v_rows v))"

interpretation cred_rows: row_update cred_key "cred_set now sc h ex sealed"
  by unfold_locales (simp add: cred_key_def cred_set_def)

lemma cred_key_new [simp]: "cred_key (cred_new now i k sc h ex sealed) = k"
  by (cases k) (simp add: cred_key_def cred_new_def)

lemma get_row_tbl:
  assumes "vault_inv v"
  shows "get_row v k = (case tbl_get cred_key (v_rows v) k of None \<Rightarrow> None | Some r \<Rightarrow> if c_active r then Some r else None)"
proof (cases "tbl_get cred_key (v_rows v) k")
  case None
  then show ?thesis using filter_key_absent [OF None, of c_active] by (simp add: get_row_def)
next
  case (Some r)
  then show ?thesis
    using filter_key_distinct [OF assms [unfolded vault_inv_def] Some, of c_active] by (simp add: get_row_def)
qed

lemma upsert_effect:
  assumes "vault_inv v" "prims_ok pm p" "length nonce = 16"
  shows "\<exists>v' sealed. cred_upsert pm now nonce (Some kb) v k p scopes ex = Some (Inr v') \<and> vault_inv v'
    \<and> open_json pm sealed kb = Some (Inr p)
    \<and> (\<exists>r. get_row v' k = Some r \<and> c_encrypted_payload r = sealed \<and> c_expires_at r = ex \<and> c_updated_at r = now
         \<and> c_scopes r = normalize_scopes scopes)
    \<and> (\<forall>k'. k' \<noteq> k \<longrightarrow> get_row v' k' = get_row v k')"
proof -
  obtain sealed where sealed: "seal_json pm nonce p kb = Some sealed" "open_json pm sealed kb = Some (Inr p)"
    using seal_open [OF assms(2,3)] by blast
  let ?sc = "normalize_scopes scopes"
  let ?new = "cred_new now (v_next v) k ?sc (scope_hash pm ?sc) ex sealed"
  let ?f = "cred_set now ?sc (scope_hash pm ?sc) ex sealed"
  let ?rows = "sql_upsert (\<lambda>r. cred_key r = k) ?new ?f (v_rows v)"
  let ?v = "v\<lparr>v_rows := ?rows, v_next := v_next v + (if list_ex (\<lambda>r. cred_key r = k) (v_rows v) then 0 else 1)\<rparr>"
  have d: "distinct (map cred_key (v_rows v))" using assms(1) by (simp add: vault_inv_def)
  have inv: "vault_inv ?v"
    using cred_rows.distinct_upsert [OF d, where new = ?new] by (simp add: vault_inv_def)
  have get: "tbl_get cred_key ?rows k' = (if k' = k then Some (case tbl_get cred_key (v_rows v) k' of None \<Rightarrow> ?new | Some r \<Rightarrow> ?f r)
      else tbl_get cred_key (v_rows v) k')" for k'
    using cred_rows.get_upsert [OF d, where new = ?new and k = k'] by simp
  define r where "r = (case tbl_get cred_key (v_rows v) k of None \<Rightarrow> ?new | Some r \<Rightarrow> ?f r)"
  have fields: "c_active r" "c_encrypted_payload r = sealed" "c_expires_at r = ex" "c_updated_at r = now" "c_scopes r = ?sc"
    by (simp_all add: r_def cred_new_def cred_set_def split: option.split prod.split)
  have "tbl_get cred_key ?rows k = Some r" using get [of k] by (simp add: r_def)
  with fields(1) have row: "get_row ?v k = Some r" by (simp add: get_row_tbl [OF inv])
  have other: "get_row ?v k' = get_row v k'" if "k' \<noteq> k" for k'
    using get [of k'] that by (simp add: get_row_tbl [OF inv] get_row_tbl [OF assms(1)])
  have "cred_upsert pm now nonce (Some kb) v k p scopes ex = Some (Inr ?v)"
    using sealed(1) by (simp add: cred_upsert_def Let_def require_key_def)
  with inv sealed(2) row fields other show ?thesis by blast
qed

lemma get_secret_eq:
  "clean_key p s pv q = Inr k \<Longrightarrow> get_secret_for_runtime pm key v p s pv q =
     (case get_row v k of
        None \<Rightarrow> Some (Inl (PermissionError ''credential not found for current profile/subject/provider''))
      | Some r \<Rightarrow> (case require_key key of Inl e \<Rightarrow> Some (Inl e) | Inr kb \<Rightarrow> open_json pm (c_encrypted_payload r) kb))"
  by (auto simp: get_secret_for_runtime_def get_secret_with_updated_at_def split: option.splits sum.splits)

lemma open_json_accepts:
  assumes "open_json pm s key = Some (Inr q)"
  shows "\<exists>nonce tag ct ks. length nonce = 16 \<and> length tag = 32 \<and> tag = pm_mac pm key (nonce @ ct)
    \<and> map_option (map word_of_nat) (b64_dec (drop 3 s)) = Some (nonce @ tag @ ct)
    \<and> keystream (pm_mac pm) key nonce (length ct) = Some ks \<and> pm_loads pm (xor_bytes ct ks) = Some q"
proof -
  obtain nats where nats: "b64_dec (drop 3 s) = Some nats"
    using assms by (auto simp: open_json_def split: if_splits option.splits)
  define raw :: bytes where "raw = map word_of_nat nats"
  have len: "length raw \<ge> 48" and tag: "take 32 (drop 16 raw) = pm_mac pm key (take 16 raw @ drop 48 raw)"
    and rest: "\<exists>ks. keystream (pm_mac pm) key (take 16 raw) (length (drop 48 raw)) = Some ks
      \<and> pm_loads pm (xor_bytes (drop 48 raw) ks) = Some q"
    using assms nats unfolding open_json_def raw_def Let_def by (auto split: if_splits option.splits)
  obtain ks where ks: "keystream (pm_mac pm) key (take 16 raw) (length (drop 48 raw)) = Some ks"
    "pm_loads pm (xor_bytes (drop 48 raw) ks) = Some q" using rest by blast
  have parts: "take 16 raw @ take 32 (drop 16 raw) @ drop 48 raw = raw"
    using append_take_drop_id [of 16 raw] append_take_drop_id [of 32 "drop 16 raw"] by (simp add: drop_drop)
  have lens: "length (take 16 raw) = 16" "length (take 32 (drop 16 raw)) = 32" using len by simp_all
  have "map_option (map word_of_nat) (b64_dec (drop 3 s)) = Some (take 16 raw @ take 32 (drop 16 raw) @ drop 48 raw)"
    unfolding parts nats by (simp add: raw_def)
  with lens tag ks show ?thesis by blast
qed

lemma open_json_errors: "open_json pm s key = Some (Inl e) \<Longrightarrow> \<exists>m. e = ValueError m"
  by (auto simp: open_json_def Let_def split: if_splits option.splits)

text \<open>The lookup that \<open>resolve_runtime_secret\<close> amounts to for an entry marked \<open>__self__\<close>.\<close>

definition opened_as :: "prims \<Rightarrow> bytes \<Rightarrow> string \<Rightarrow> cred_row \<Rightarrow> (payload \<times> string) option result option" where
  "opened_as pm kb vp r = map_option (map_sum (\<lambda>e. e) (\<lambda>p. Some (p, vp))) (open_json pm (c_encrypted_payload r) kb)"

lemma status_expired_iff:
  assumes "clean_key p s pv q = Inr k" "get_row v k = Some r"
    "get_status pm now key v p s pv req q = Some (Inr st)"
  shows "sv_status st = StExpired \<longleftrightarrow> (\<exists>e. c_expires_at r = Some e \<and> e \<le> now)"
  using assms
  by (auto simp: get_status_def Let_def payload_extras_def split: option.splits sum.splits if_splits)

text \<open>A vault entry that neither commits nor reads anything else: what \<open>put_credential\<close> without a
  fence does when the four identifiers are clean.\<close>

lemma put_is_upsert:
  assumes "clean_key p s pv q = Inr k" "cred_upsert pm now nonce (Some kb) v k payload scopes ex = Some (Inr v')"
  shows "put_credential pm now nonce (Some kb) v p s pv q payload scopes ex None = Some (Inr (v', True))"
  using assms by (simp add: put_credential_def)

lemma put_if_decides:
  assumes "clean_key p s pv q = Inr k" "cred_upsert pm now nonce (Some kb) v k payload scopes ex = Some (Inr v')"
    "current_payload pm kb v k = Some (Inr cur)"
  shows "put_credential_if pm now nonce (Some kb) v p s pv q payload expect scopes ex
    = Some (Inr (if expect cur then (v', True) else (v, False)))"
  using assms by (simp add: put_credential_if_def require_key_def)

lemma get_secret_other:
  assumes "clean_key p s pv q = Inr k" "\<And>k'. k' \<noteq> k \<Longrightarrow> get_row v' k' = get_row v k'" "clean_key a b c d \<noteq> Inr k"
  shows "get_secret_for_runtime pm key v' a b c d = get_secret_for_runtime pm key v a b c d"
proof (cases "clean_key a b c d")
  case (Inl e)
  then show ?thesis by (simp add: get_secret_for_runtime_def get_secret_with_updated_at_def)
next
  case (Inr k')
  with assms(2,3) have "get_row v' k' = get_row v k'" by simp
  then show ?thesis by (simp add: get_secret_eq [OF Inr])
qed

text \<open>C32. A sealed payload opens to itself under the key it was sealed with, and the loop of the
  keystream ends; and \<open>_open_json\<close> returns a payload only for a text that decodes to a nonce of 16
  bytes, a tag of 32 and a ciphertext where the tag is the HMAC of nonce and ciphertext under the
  key, and the payload is the decryption of that ciphertext.\<close>

theorem seal_open_authentic:
  assumes "prims_ok pm p" "length nonce = 16"
  shows "(\<exists>sealed. seal_json pm nonce p key = Some sealed \<and> open_json pm sealed key = Some (Inr p))
    \<and> (\<forall>s q. open_json pm s key = Some (Inr q) \<longrightarrow>
        (\<exists>n tag ct ks. length n = 16 \<and> length tag = 32 \<and> tag = pm_mac pm key (n @ ct)
          \<and> map_option (map word_of_nat) (b64_dec (drop 3 s)) = Some (n @ tag @ ct)
          \<and> keystream (pm_mac pm) key n (length ct) = Some ks \<and> pm_loads pm (xor_bytes ct ks) = Some q))"
  by (intro conjI allI impI) (rule seal_open [OF assms], erule open_json_accepts)

definition demo_payload :: payload where
  "demo_payload = [(''token'', JStr ''t'')]"

definition demo_prims :: prims where
  "demo_prims = \<lparr>pm_mac = (\<lambda>k m. replicate 32 (foldl (\<lambda>a b. 3 * a + b) 7 (k @ m))),
     pm_dumps = (\<lambda>p. if p = demo_payload then [1, 2, 3] else []),
     pm_loads = (\<lambda>bs. if bs = [1, 2, 3] then Some demo_payload else None), pm_scope_hash = (\<lambda>s. s)\<rparr>"

lemma demo_prims_ok: "prims_ok demo_prims demo_payload"
  by (simp add: prims_ok_def demo_prims_def)

theorem seal_open_authentic_witness:
  "\<exists>sealed. seal_json demo_prims (replicate 16 5) demo_payload [9] = Some sealed
     \<and> open_json demo_prims sealed [9] = Some (Inr demo_payload)"
  using seal_open_authentic [OF demo_prims_ok, of "replicate 16 5" "[9]"] by simp

text \<open>Storing a credential under clean identifiers succeeds, keeps one row per (profile, subject,
  provider, kind), makes exactly that payload the one the runtime reads back for those
  identifiers, and changes no other lookup. \<open>put_credential_if\<close> performs the same write when its
  condition accepts the current payload, and none otherwise; deleting the credential makes the
  lookup fail again.\<close>

lemma put_get_isolated:
  assumes "vault_inv v" "prims_ok pm payload" "length nonce = 16" "clean_key p s pv q = Inr k"
  shows "\<exists>v'. put_credential pm now nonce (Some kb) v p s pv q payload scopes ex None = Some (Inr (v', True))
    \<and> vault_inv v'
    \<and> get_secret_for_runtime pm (Some kb) v' p s pv q = Some (Inr payload)
    \<and> (\<forall>a b c d key. clean_key a b c d \<noteq> Inr k \<longrightarrow>
         get_secret_for_runtime pm key v' a b c d = get_secret_for_runtime pm key v a b c d)
    \<and> (\<forall>expect cur. current_payload pm kb v k = Some (Inr cur) \<longrightarrow>
         put_credential_if pm now nonce (Some kb) v p s pv q payload expect scopes ex
           = Some (Inr (if expect cur then (v', True) else (v, False))))
    \<and> (\<exists>v''. delete_credential v' p s pv q = Inr (v'', True)
         \<and> (\<exists>m. get_secret_for_runtime pm (Some kb) v'' p s pv q = Some (Inl (PermissionError m))))"
proof -
  obtain v' sealed r where v': "cred_upsert pm now nonce (Some kb) v k payload scopes ex = Some (Inr v')" "vault_inv v'"
    "open_json pm sealed kb = Some (Inr payload)" "get_row v' k = Some r" "c_encrypted_payload r = sealed"
    and other: "\<forall>k'. k' \<noteq> k \<longrightarrow> get_row v' k' = get_row v k'"
    using upsert_effect [OF assms(1-3)] by blast
  let ?del = "v'\<lparr>v_rows := sql_delete (\<lambda>r. cred_key r = k) (v_rows v')\<rparr>"
  have "list_ex (\<lambda>r. cred_key r = k) (v_rows v')"
    using v'(4) by (auto simp: get_row_def fetchone_def list_ex_iff filter_eq_Cons_iff split: list.splits)
  then have "delete_credential v' p s pv q = Inr (?del, True)"
    using assms(4) by (auto simp: delete_credential_def rowcount_def list_ex_iff filter_empty_conv)
  moreover have "get_row ?del k = None"
    by (simp add: get_row_def fetchone_def sql_delete_def filter_empty_conv)
  then have "get_secret_for_runtime pm (Some kb) ?del p s pv q
      = Some (Inl (PermissionError ''credential not found for current profile/subject/provider''))"
    by (simp add: get_secret_eq [OF assms(4)])
  moreover have "get_secret_for_runtime pm (Some kb) v' p s pv q = Some (Inr payload)"
    using v' by (simp add: get_secret_eq [OF assms(4)] require_key_def)
  moreover have "get_secret_for_runtime pm key v' a b c d = get_secret_for_runtime pm key v a b c d"
    if ne: "clean_key a b c d \<noteq> Inr k" for a b c d key
    by (rule get_secret_other [OF assms(4) _ ne]) (use other in blast)
  ultimately show ?thesis
    using v'(2) put_is_upsert [OF assms(4) v'(1)] put_if_decides [OF assms(4) v'(1)]
    by - (rule exI [of _ v'], intro conjI allI impI; blast)
qed

lemma get_status_eq:
  assumes "clean_key p s pv q = Inr k"
  shows "(case get_status pm now (Some kb) v p s pv [] q of
      None \<Rightarrow> None
    | Some (Inl x) \<Rightarrow> Some (Inl x)
    | Some (Inr st) \<Rightarrow> if sv_status st = StExpired then Some (Inr None) else rest)
    = (case get_row v k of
         None \<Rightarrow> rest
       | Some r \<Rightarrow> (case open_json pm (c_encrypted_payload r) kb of
             None \<Rightarrow> None
           | Some x \<Rightarrow> if (\<exists>e. c_expires_at r = Some e \<and> e \<le> now) then Some (Inr None) else rest))"
proof (cases "get_row v k")
  case None
  then show ?thesis by (simp add: get_status_def assms)
next
  case (Some r)
  show ?thesis
  proof (cases "get_status pm now (Some kb) v p s pv [] q")
    case None
    then have "open_json pm (c_encrypted_payload r) kb = None"
      using Some by (auto simp: get_status_def assms Let_def split: option.splits sum.splits)
    with None Some show ?thesis by simp
  next
    case (Some x)
    with \<open>get_row v k = Some r\<close> obtain st where st: "x = Inr st" "open_json pm (c_encrypted_payload r) kb \<noteq> None"
      by (auto simp: get_status_def assms Let_def split: option.splits sum.splits)
    then obtain y where "open_json pm (c_encrypted_payload r) kb = Some y" by blast
    with st \<open>get_row v k = Some r\<close> Some status_expired_iff [OF assms, of v r pm now "Some kb" "[]" st]
    show ?thesis by simp
  qed
qed

lemma get_secret_as:
  assumes "clean_key vp s pv q = Inr k"
  shows "(case get_secret_for_runtime pm (Some kb) v vp s pv q of
       None \<Rightarrow> None
     | Some (Inl (PermissionError m)) \<Rightarrow> rest
     | Some (Inl x) \<Rightarrow> Some (Inl x)
     | Some (Inr p) \<Rightarrow> Some (Inr (Some (p, vp))))
    = (case get_row v k of None \<Rightarrow> rest | Some r \<Rightarrow> opened_as pm kb vp r)"
proof (cases "get_row v k")
  case None
  then show ?thesis by (simp add: get_secret_eq [OF assms])
next
  case (Some r)
  then show ?thesis using open_json_errors [of pm "c_encrypted_payload r" kb]
    by (auto simp: get_secret_eq [OF assms] require_key_def opened_as_def split: option.split sum.split)
qed

lemma resolve_self:
  assumes "ce_vault_profile e = Some SELF_PROFILE_MARKER" "profile \<noteq> DEFAULT_SHARED_PROFILE"
    "q = py_or (str_or_empty (ce_secret_kind e)) ''token''"
    "clean_key profile (ce_subject_id e) (ce_provider e) q = Inr k"
    "clean_key DEFAULT_SHARED_PROFILE (ce_subject_id e) (ce_provider e) q = Inr ks"
  shows "resolve_runtime_secret pm now (Some kb) v e profile =
    (case get_row v k of
       Some r \<Rightarrow> if open_json pm (c_encrypted_payload r) kb = None then None
                  else if (\<exists>x. c_expires_at r = Some x \<and> x \<le> now) then Some (Inr None)
                  else opened_as pm kb profile r
     | None \<Rightarrow> (case get_row v ks of
           None \<Rightarrow> Some (Inr None)
         | Some r \<Rightarrow> opened_as pm kb DEFAULT_SHARED_PROFILE r))"
proof -
  have "strip (py_or (str_or_empty (ce_vault_profile e)) DEFAULT_SHARED_PROFILE) = SELF_PROFILE_MARKER"
    unfolding assms(1) SELF_PROFILE_MARKER_def by code_simp
  then have "resolve_runtime_secret pm now (Some kb) v e profile
      = resolve_candidates pm now (Some kb) v e [profile, DEFAULT_SHARED_PROFILE]"
    by (simp add: resolve_runtime_secret_def)
  moreover have "resolve_candidates pm now (Some kb) v e [DEFAULT_SHARED_PROFILE]
      = (case get_row v ks of None \<Rightarrow> Some (Inr None) | Some r \<Rightarrow> opened_as pm kb DEFAULT_SHARED_PROFILE r)"
    by (simp add: assms(3) [symmetric] get_secret_as [OF assms(5)] Let_def split: option.split)
  ultimately show ?thesis
    unfolding resolve_candidates.simps(2) [of _ _ _ _ _ profile] Let_def assms(3) [symmetric]
      get_secret_as [OF assms(4)] get_status_eq [OF assms(4)]
    using assms(2) by (auto split: option.split)
qed

text \<open>For an entry marked \<open>__self__\<close>, the secret a run receives is decided as follows. If the
  profile has a personal row, an expired one yields no secret at all, never the shared one, and
  an unexpired one yields its own payload, labelled with the profile (or the error of opening
  it). Only a profile with no active personal row gets the shared credential, and it comes
  labelled as shared.\<close>

lemma personal_before_shared:
  assumes "ce_vault_profile e = Some SELF_PROFILE_MARKER" "profile \<noteq> DEFAULT_SHARED_PROFILE"
    "q = py_or (str_or_empty (ce_secret_kind e)) ''token''"
    "clean_key profile (ce_subject_id e) (ce_provider e) q = Inr k"
    "clean_key DEFAULT_SHARED_PROFILE (ce_subject_id e) (ce_provider e) q = Inr ks"
  shows "resolve_runtime_secret pm now (Some kb) v e profile =
    (case get_row v k of
       Some r \<Rightarrow> if open_json pm (c_encrypted_payload r) kb = None then None
                  else if (\<exists>x. c_expires_at r = Some x \<and> x \<le> now) then Some (Inr None)
                  else opened_as pm kb profile r
     | None \<Rightarrow> (case get_row v ks of
           None \<Rightarrow> Some (Inr None)
         | Some r \<Rightarrow> opened_as pm kb DEFAULT_SHARED_PROFILE r))"
  by (rule resolve_self [OF assms])

definition demo_cred_row :: "string \<Rightarrow> int option \<Rightarrow> cred_row" where
  "demo_cred_row p ex = \<lparr>c_id = 1, c_profile_name = p, c_subject_id = ''g'', c_provider = ''gitlab'', c_secret_kind = ''token'',
     c_scopes = [], c_scope_hash = [], c_expires_at = ex, c_encrypted_payload = [], c_active = True, c_created_at = 0,
     c_updated_at = 0\<rparr>"

definition demo_entry :: cred_entry where
  "demo_entry = \<lparr>ce_vault_profile = Some ''__self__'', ce_subject_id = ''g'', ce_provider = ''gitlab'', ce_secret_kind = None,
     ce_env = None, ce_env_name = None, ce_payload_key = None, ce_env_extra = []\<rparr>"

end
