(* ===== verification/Credential_Delegation.thy ===== *)
theory Credential_Delegation
  imports Routing_Table Credential_Vault
begin

text \<open>
  Credential delegation leases (\<open>src/hermes_multitenancy/credential_delegation.py\<close>): a group
  profile may borrow the sender's own GitLab token for one run, or for a chat, under a lease.
  The lease and audit tables are the state; the routing table and the vault are only read, so
  the run-level operation takes the routing table as it is at each of its reads, and the lease
  table may be changed by other processes between its steps (\<open>env\<close>). \<open>clk n\<close> is the result of the
  \<open>n\<close>-th call of \<open>_now_ms\<close>. The database file exists; an audit row's id is its position.
\<close>

section \<open>Leases\<close>

definition PROVIDER_GITLAB :: string where "PROVIDER_GITLAB = ''gitlab''"
definition SCOPE_ONCE :: string where "SCOPE_ONCE = ''once''"
definition SCOPE_CHAT :: string where "SCOPE_CHAT = ''chat''"
definition ONCE_TTL_SECONDS :: int where "ONCE_TTL_SECONDS = 15 * 60"
definition CHAT_TTL_SECONDS :: int where "CHAT_TTL_SECONDS = 30 * 24 * 3600"
definition GROUP_PROFILE_PREFIX :: string where "GROUP_PROFILE_PREFIX = ''feishu_group_''"

datatype lease_status = LActive | LExpired | LConsumed | LRevoked

record lease =
  l_id :: int
  l_owner_profile :: string
  l_owner_open_id :: string
  l_borrower_profile :: string
  l_resource_type :: string
  l_provider :: string
  l_scope :: string
  l_chat_id :: string
  l_delegation_id :: string
  l_status :: lease_status
  l_created_at :: int
  l_expires_at :: "int option"
  l_consumed_at :: "int option"
  l_last_used_at :: "int option"
  l_use_count :: int

record audit_row =
  au_lease_id :: "int option"
  au_action :: string
  au_owner_profile :: string
  au_owner_open_id :: string
  au_borrower_profile :: string
  au_provider :: string
  au_chat_id :: string
  au_detail :: string
  au_created_at :: int

record lease_db =
  ld_leases :: "lease list"
  ld_next :: int
  ld_audit :: "audit_row list"

definition is_delegatable_profile :: "string option \<Rightarrow> bool" where
  "is_delegatable_profile p = (str_or_empty p \<noteq> [] \<and> startswith (str_or_empty p) GROUP_PROFILE_PREFIX)"

definition audit :: "audit_row \<Rightarrow> lease_db \<Rightarrow> lease_db" where
  "audit a db = db\<lparr>ld_audit := ld_audit db @ [a]\<rparr>"

text \<open>The audit row of an action on a lease row, as most callers fill it.\<close>

definition audit_of :: "string \<Rightarrow> int \<Rightarrow> string \<Rightarrow> lease \<Rightarrow> audit_row" where
  "audit_of action now detail l =
     \<lparr>au_lease_id = Some (l_id l), au_action = action, au_owner_profile = l_owner_profile l, au_owner_open_id = l_owner_open_id l,
      au_borrower_profile = l_borrower_profile l, au_provider = l_provider l, au_chat_id = l_chat_id l, au_detail = detail,
      au_created_at = now\<rparr>"

definition granted_lease ::
    "int \<Rightarrow> int \<Rightarrow> string \<Rightarrow> string \<Rightarrow> string \<Rightarrow> string \<Rightarrow> string \<Rightarrow> string \<Rightarrow> string \<Rightarrow> string \<Rightarrow> lease" where
  "granted_lease now lid owner_prof owner_open_id borrower provider scope chat_id resource_type delegation_id =
     \<lparr>l_id = lid, l_owner_profile = owner_prof, l_owner_open_id = owner_open_id, l_borrower_profile = borrower,
      l_resource_type = resource_type, l_provider = provider, l_scope = scope, l_chat_id = chat_id,
      l_delegation_id = delegation_id, l_status = LActive, l_created_at = now,
      l_expires_at = Some (now + (if scope = SCOPE_ONCE then ONCE_TTL_SECONDS else CHAT_TTL_SECONDS) * 1000),
      l_consumed_at = None, l_last_used_at = None, l_use_count = 0\<rparr>"

definition create_lease ::
    "(nat \<Rightarrow> int) \<Rightarrow> lease_db \<Rightarrow> string \<Rightarrow> string \<Rightarrow> string \<Rightarrow> string \<Rightarrow> string \<Rightarrow> string \<Rightarrow> string \<Rightarrow> string option
      \<Rightarrow> (lease_db \<times> int) result" where
  "create_lease clk db owner_prof owner_open_id borrower provider scope chat_id resource_type delegation_id =
     (if scope \<notin> {SCOPE_ONCE, SCOPE_CHAT} then Inl (ValueError ''unsupported lease scope'')
      else if scope = SCOPE_ONCE \<and> str_or_empty delegation_id = []
      then Inl (ValueError ''a once-scope lease requires the originating delegation_id'')
      else
        let l = granted_lease (clk 0) (ld_next db) owner_prof owner_open_id borrower provider scope chat_id resource_type
                  (str_or_empty delegation_id)
        in Inr (audit (audit_of ''granted'' (clk 1) (''scope='' @ scope) l)
                  (db\<lparr>ld_leases := ld_leases db @ [l], ld_next := ld_next db + 1\<rparr>), l_id l))"

text \<open>An \<open>UPDATE ... WHERE id=? AND status='active'\<close> with a further condition, and its rowcount.\<close>

definition lease_update :: "(lease \<Rightarrow> bool) \<Rightarrow> (lease \<Rightarrow> lease) \<Rightarrow> lease_db \<Rightarrow> lease_db \<times> nat" where
  "lease_update P f db =
     (db\<lparr>ld_leases := sql_update (\<lambda>l. l_status l = LActive \<and> P l) f (ld_leases db)\<rparr>,
      rowcount (\<lambda>l. l_status l = LActive \<and> P l) (ld_leases db))"

definition expire_lease :: "int \<Rightarrow> lease \<Rightarrow> lease_db \<Rightarrow> lease_db" where
  "expire_lease now l db =
     (case lease_update (\<lambda>r. l_id r = l_id l) (\<lambda>r. r\<lparr>l_status := LExpired\<rparr>) db of
        (db', n) \<Rightarrow> if n > 0 then audit (audit_of ''expired'' now [] l) db' else db')"

definition stale :: "int \<Rightarrow> lease \<Rightarrow> bool" where
  "stale now l = (case l_expires_at l of None \<Rightarrow> False | Some e \<Rightarrow> e \<le> now)"

text \<open>The two eligibility filters.\<close>

definition eligible :: "string option \<Rightarrow> string option \<Rightarrow> lease \<Rightarrow> bool" where
  "eligible delegation_id scope l =
     (\<not> (\<exists>s. scope = Some s \<and> l_scope l \<noteq> s)
      \<and> \<not> (\<exists>d. delegation_id = Some d \<and> l_scope l = SCOPE_ONCE
            \<and> (d = [] \<or> l_delegation_id l = [] \<or> d \<noteq> l_delegation_id l)))"

text \<open>The walk over the selected rows; before the \<open>i\<close>-th statement other processes may commit.\<close>

fun find_loop ::
    "(nat \<Rightarrow> lease_db \<Rightarrow> lease_db) \<Rightarrow> (nat \<Rightarrow> int) \<Rightarrow> int \<Rightarrow> string option \<Rightarrow> string option \<Rightarrow> nat \<Rightarrow> lease list \<Rightarrow> lease_db
      \<Rightarrow> lease_db \<times> lease option" where
  "find_loop env clk now delegation_id scope i [] db = (db, None)"
| "find_loop env clk now delegation_id scope i (l # ls) db =
     (if stale now l then find_loop env clk now delegation_id scope (Suc i) ls (expire_lease (clk (Suc i)) l (env i db))
      else if eligible delegation_id scope l then (db, Some l)
      else find_loop env clk now delegation_id scope (Suc i) ls db)"

definition active_leases :: "lease_db \<Rightarrow> string \<Rightarrow> string \<Rightarrow> string \<Rightarrow> lease list" where
  "active_leases db owner_open_id borrower provider =
     order_by_desc l_created_at (filter (\<lambda>l. l_borrower_profile l = borrower \<and> l_owner_open_id l = owner_open_id
       \<and> l_provider l = provider \<and> l_status l = LActive) (ld_leases db))"

definition find_active_lease ::
    "(nat \<Rightarrow> lease_db \<Rightarrow> lease_db) \<Rightarrow> (nat \<Rightarrow> int) \<Rightarrow> lease_db \<Rightarrow> string \<Rightarrow> string \<Rightarrow> string \<Rightarrow> string option \<Rightarrow> string option
      \<Rightarrow> lease_db \<times> lease option" where
  "find_active_lease env clk db owner_open_id borrower provider delegation_id scope =
     (if owner_open_id = [] \<or> borrower = [] then (db, None)
      else find_loop env clk (clk 0) delegation_id scope 0 (active_leases db owner_open_id borrower provider) db)"

definition unexpired :: "int \<Rightarrow> lease \<Rightarrow> bool" where
  "unexpired now l = (case l_expires_at l of None \<Rightarrow> True | Some e \<Rightarrow> e > now)"

definition used_row :: "int \<Rightarrow> bool \<Rightarrow> lease \<Rightarrow> lease" where
  "used_row now once l =
     (if once then l\<lparr>l_status := LConsumed, l_consumed_at := Some now, l_last_used_at := Some now, l_use_count := l_use_count l + 1\<rparr>
      else l\<lparr>l_last_used_at := Some now, l_use_count := l_use_count l + 1\<rparr>)"

definition record_lease_use :: "(nat \<Rightarrow> int) \<Rightarrow> lease_db \<Rightarrow> lease \<Rightarrow> string \<Rightarrow> lease_db \<times> bool" where
  "record_lease_use clk db l detail =
     (let now = clk 0
      in case lease_update (\<lambda>r. l_id r = l_id l \<and> unexpired now r) (used_row now (l_scope l = SCOPE_ONCE)) db of
           (db', n) \<Rightarrow> if n = 0 then (db', False) else (audit (audit_of ''used'' (clk 1) detail l) db', True))"

definition record_denial :: "int \<Rightarrow> lease_db \<Rightarrow> string \<Rightarrow> string \<Rightarrow> string \<Rightarrow> string \<Rightarrow> string \<Rightarrow> lease_db" where
  "record_denial now db owner_open_id borrower provider chat_id detail =
     audit \<lparr>au_lease_id = None, au_action = ''denied'', au_owner_profile = [], au_owner_open_id = owner_open_id,
       au_borrower_profile = borrower, au_provider = provider, au_chat_id = chat_id, au_detail = detail, au_created_at = now\<rparr> db"

definition revoked_row :: "int \<Rightarrow> lease \<Rightarrow> lease" where
  "revoked_row now l = l\<lparr>l_status := LRevoked, l_consumed_at := Some now\<rparr>"

definition revoke_chat_leases :: "(nat \<Rightarrow> int) \<Rightarrow> lease_db \<Rightarrow> string \<Rightarrow> string \<Rightarrow> string \<Rightarrow> lease_db \<times> nat" where
  "revoke_chat_leases clk db owner_open_id borrower provider =
     (case lease_update (\<lambda>l. l_borrower_profile l = borrower \<and> l_owner_open_id l = owner_open_id \<and> l_provider l = provider)
             (revoked_row (clk 0)) db of
        (db', n) \<Rightarrow>
          (if n > 0
           then audit \<lparr>au_lease_id = None, au_action = ''revoked'', au_owner_profile = [], au_owner_open_id = owner_open_id,
                  au_borrower_profile = borrower, au_provider = provider, au_chat_id = [], au_detail = [], au_created_at = clk 1\<rparr> db'
           else db', n))"

definition revoke_lease :: "(nat \<Rightarrow> int) \<Rightarrow> lease_db \<Rightarrow> int \<Rightarrow> string \<Rightarrow> lease_db" where
  "revoke_lease clk db lease_id detail =
     (case lease_update (\<lambda>l. l_id l = lease_id) (revoked_row (clk 0)) db of
        (db', n) \<Rightarrow>
          if n > 0
          then audit \<lparr>au_lease_id = Some lease_id, au_action = ''revoked'', au_owner_profile = [], au_owner_open_id = [],
                 au_borrower_profile = [], au_provider = [], au_chat_id = [], au_detail = detail, au_created_at = clk 1\<rparr> db'
          else db')"

section \<open>The owner's profile and token\<close>

definition owner_profile_for_open_id :: "routes \<Rightarrow> string option \<Rightarrow> string option" where
  "owner_profile_for_open_id t open_id =
     (if \<not> startswith (str_or_empty open_id) ''ou_'' then None
      else case fetchone (order_by_desc r_updated_at
             (filter (\<lambda>r. r_open_id r = open_id \<and> r_active r \<and> r_kind r = KIND_USER) t)) of
           None \<Rightarrow> None
         | Some r \<Rightarrow> or_none (r_profile_name r))"

text \<open>\<open>str(row[0])\<close> of a NULL open_id is \<open>None\<close> spelled out.\<close>

definition open_id_text :: "string option \<Rightarrow> string" where
  "open_id_text o' = (case o' of None \<Rightarrow> ''None'' | Some s \<Rightarrow> s)"

definition profile_is_solely_owned_by :: "routes \<Rightarrow> string option \<Rightarrow> string option \<Rightarrow> bool" where
  "profile_is_solely_owned_by t profile_name open_id =
     (let wanted = str_or_empty open_id
      in if str_or_empty profile_name = [] \<or> wanted = [] then False
         else set (map (\<lambda>r. open_id_text (r_open_id r))
                (filter (\<lambda>r. r_active r \<and> strip (r_profile_name r) = strip (str_or_empty profile_name)) t)) = {wanted})"

definition gitlab_config_entry :: "cred_entry list \<Rightarrow> cred_entry option" where
  "gitlab_config_entry es = fetchone (filter (\<lambda>e. ce_provider e = ''gitlab'') es)"

definition entry_env_name :: "cred_entry \<Rightarrow> string" where
  "entry_env_name e = strip (py_or (py_or (str_or_empty (ce_env e)) (str_or_empty (ce_env_name e))) ''GITLAB_TOKEN'')"

text \<open>The config is the parsed list of entries, or the error of reading it.\<close>

definition gitlab_env_name :: "cred_entry list result \<Rightarrow> string" where
  "gitlab_env_name config =
     (case config of
        Inl e \<Rightarrow> ''GITLAB_TOKEN''
      | Inr es \<Rightarrow> (case gitlab_config_entry es of None \<Rightarrow> ''GITLAB_TOKEN'' | Some e \<Rightarrow> entry_env_name e))"

definition add_extra :: "(string \<times> string) list \<Rightarrow> (string \<times> string) list \<Rightarrow> (string \<times> string) list" where
  "add_extra extra env =
     foldl (\<lambda>env (k, v). if strip k \<noteq> [] then dict_setdefault (strip k) v env else env) env extra"

definition token_env :: "cred_entry \<Rightarrow> payload \<Rightarrow> (string \<times> string) list" where
  "token_env e payload =
     (case payload_content payload (ce_payload_key e) of
        Inl x \<Rightarrow> []
      | Inr content \<Rightarrow>
          let env_name = entry_env_name e; token = rstrip_char (CHR 0x0A) content
          in if env_name = [] \<or> token = [] then []
             else let env = dict_setdefault ''GITLAB_HOST'' ''gitlab.example.com'' (add_extra (ce_env_extra e) [(env_name, token)])
                  in dict_update env (git_auth_env env env_name))"

text \<open>\<open>owner_gitlab_env\<close>; every exception gives the empty dict, \<open>None\<close> is a call that does not return.\<close>

definition owner_gitlab_env ::
    "prims \<Rightarrow> int \<Rightarrow> bytes option \<Rightarrow> cred_entry list result \<Rightarrow> vault \<Rightarrow> string \<Rightarrow> (string \<times> string) list option" where
  "owner_gitlab_env pm now key config v owner_prof =
     (case config of
        Inl x \<Rightarrow> Some []
      | Inr es \<Rightarrow>
          (case gitlab_config_entry es of
             None \<Rightarrow> Some []
           | Some e \<Rightarrow>
               (case resolve_runtime_secret pm now key v e owner_prof of
                  None \<Rightarrow> None
                | Some (Inl x) \<Rightarrow> Some []
                | Some (Inr None) \<Rightarrow> Some []
                | Some (Inr (Some (payload, vault_profile))) \<Rightarrow>
                    if vault_profile \<noteq> owner_prof then Some [] else Some (token_env e payload))))"

definition owner_has_personal_gitlab_token ::
    "prims \<Rightarrow> int \<Rightarrow> bytes option \<Rightarrow> cred_entry list result \<Rightarrow> vault \<Rightarrow> string \<Rightarrow> bool option" where
  "owner_has_personal_gitlab_token pm now key config v owner_prof =
     map_option (\<lambda>env. env \<noteq> []) (owner_gitlab_env pm now key config v owner_prof)"

section \<open>One run\<close>

datatype env_arg = EnvMap "(string \<times> string) list" | EnvNames "string list"

fun env_already_carries :: "env_arg \<Rightarrow> string \<Rightarrow> bool" where
  "env_already_carries (EnvMap env) name = (name \<noteq> [] \<and> strip (dict_str env name) \<noteq> [])"
| "env_already_carries (EnvNames names) name = (name \<noteq> [] \<and> name \<in> set names)"

definition denied_row :: "int \<Rightarrow> string \<Rightarrow> lease \<Rightarrow> string \<Rightarrow> audit_row" where
  "denied_row now sender l detail =
     (audit_of ''denied'' now detail l)\<lparr>au_lease_id := (if l_id l = 0 then None else Some (l_id l)), au_owner_open_id := sender\<rparr>"

text \<open>\<open>_owner_route_matches\<close>: \<open>t1\<close> and \<open>t2\<close> are the routing table at its two reads.\<close>

definition owner_route_matches ::
    "(nat \<Rightarrow> int) \<Rightarrow> routes \<Rightarrow> routes \<Rightarrow> string \<Rightarrow> lease \<Rightarrow> lease_db \<Rightarrow> lease_db \<times> bool" where
  "owner_route_matches clk t1 t2 sender l db =
     (let current = owner_profile_for_open_id t1 (Some sender)
      in if l_owner_profile l \<noteq> [] \<and> current = Some (l_owner_profile l)
         then if profile_is_solely_owned_by t2 (Some (l_owner_profile l)) (Some sender) then (db, True)
              else (audit (denied_row (clk 0) sender l ''owner profile shared/contested; borrow refused (lease kept)'') db, False)
         else (case current of
             None \<Rightarrow> (audit (denied_row (clk 0) sender l ''owner profile unresolved; borrow refused (lease kept)'') db, False)
           | Some c \<Rightarrow> (revoke_lease clk db (l_id l) (''owner profile drift '' @ l_owner_profile l @ ''->'' @ c), False)))"

text \<open>What one run observes: the clock of each phase, the routing table at its four reads, the
  vault when the token is read, and what other processes do to the lease table before each of its
  later statements.\<close>

record run_view =
  rv_clk :: "nat \<Rightarrow> nat \<Rightarrow> int"
  rv_routes :: "nat \<Rightarrow> routes"
  rv_vault :: vault
  rv_find_env :: "nat \<Rightarrow> lease_db \<Rightarrow> lease_db"
  rv_env :: "nat \<Rightarrow> lease_db \<Rightarrow> lease_db"

definition delegation_env_for_run ::
    "prims \<Rightarrow> bytes option \<Rightarrow> cred_entry list result \<Rightarrow> run_view \<Rightarrow> string \<Rightarrow> string option \<Rightarrow> string option \<Rightarrow> env_arg \<Rightarrow> lease_db
      \<Rightarrow> (lease_db \<times> (string \<times> string) list) option" where
  "delegation_env_for_run pm key config rv borrower sender_open_id delegation_id existing db =
     (let sender = strip (str_or_empty sender_open_id)
      in if \<not> is_delegatable_profile (Some borrower) \<or> \<not> startswith sender ''ou_'' then Some (db, [])
         else if env_already_carries existing (gitlab_env_name config) then Some (db, [])
         else (case find_active_lease (rv_find_env rv) (rv_clk rv 0) db sender borrower PROVIDER_GITLAB
                      (Some (str_or_empty delegation_id)) None of
             (db1, None) \<Rightarrow> Some (db1, [])
           | (db1, Some l) \<Rightarrow>
               (case owner_route_matches (rv_clk rv 1) (rv_routes rv 0) (rv_routes rv 1) sender l (rv_env rv 0 db1) of
                  (db2, False) \<Rightarrow> Some (db2, [])
                | (db2, True) \<Rightarrow>
                    (case owner_gitlab_env pm (rv_clk rv 2 0) key config (rv_vault rv) (l_owner_profile l) of
                       None \<Rightarrow> None
                     | Some [] \<Rightarrow> Some (db2, [])
                     | Some env \<Rightarrow>
                         (case owner_route_matches (rv_clk rv 3) (rv_routes rv 2) (rv_routes rv 3) sender l (rv_env rv 1 db2) of
                            (db3, False) \<Rightarrow> Some (db3, [])
                          | (db3, True) \<Rightarrow>
                              (case record_lease_use (rv_clk rv 4) (rv_env rv 2 db3) l ''run env injection'' of
                                 (db4, False) \<Rightarrow> Some (db4, [])
                               | (db4, True) \<Rightarrow> Some (db4, env)))))))"

section \<open>Markers\<close>

text \<open>\<open>str.isalnum\<close>, taking every character outside ASCII for a letter.\<close>

definition py_alnum :: "char \<Rightarrow> bool" where
  "py_alnum c = (ascii_alnum c \<or> (of_char c :: nat) \<ge> 0x80)"

definition safe_nonce :: "string option \<Rightarrow> string" where
  "safe_nonce nonce = take_chars 64 (filter (\<lambda>c. py_alnum c \<or> c = CHR ''-'' \<or> c = CHR ''_'') (str_or_empty nonce))"

definition marker_path :: "string \<Rightarrow> string option \<Rightarrow> string" where
  "marker_path home nonce =
     home @ ''/tmp/'' @ (if safe_nonce nonce = [] then ''cred-delegation-auth-required.json''
       else ''cred-delegation-auth-required-'' @ safe_nonce nonce @ ''.json'')"

text \<open>A marker file holds the dict that was written, or something that is no JSON object. The
  time stamp is an integer count of the clock's ticks.\<close>

datatype marker_file = MarkerDict payload int | NoDict

definition write_auth_required_marker ::
    "int \<Rightarrow> string \<Rightarrow> payload \<Rightarrow> string option \<Rightarrow> (string \<Rightarrow> marker_file option) \<Rightarrow> (string \<Rightarrow> marker_file option)" where
  "write_auth_required_marker now home body nonce fs =
     fs(marker_path home nonce \<mapsto> MarkerDict (dict_setdefault ''provider'' (JStr PROVIDER_GITLAB) body) now)"

definition take_auth_required_marker ::
    "int \<Rightarrow> string \<Rightarrow> string option \<Rightarrow> (string \<Rightarrow> marker_file option) \<Rightarrow> (string \<Rightarrow> marker_file option) \<times> (payload \<times> int) option" where
  "take_auth_required_marker since home nonce fs =
     (let path = marker_path home nonce
      in case fs path of
           None \<Rightarrow> (fs, None)
         | Some NoDict \<Rightarrow> (fs(path := None), None)
         | Some (MarkerDict body ts) \<Rightarrow> (fs(path := None), if ts < since then None else Some (body, ts)))"

section \<open>Invariant\<close>

text \<open>Identifiers are unique and below the next one.\<close>

definition lease_inv :: "lease_db \<Rightarrow> bool" where
  "lease_inv db \<longleftrightarrow> distinct (map l_id (ld_leases db)) \<and> (\<forall>l \<in> set (ld_leases db). l_id l < ld_next db)"

lemma audit_fields [simp]: "ld_leases (audit a db) = ld_leases db" "ld_next (audit a db) = ld_next db"
  by (simp_all add: audit_def)

lemma lease_inv_audit [simp]: "lease_inv (audit a db) = lease_inv db"
  by (simp add: lease_inv_def)

lemma lease_update_next [simp]: "ld_next (fst (lease_update P f db)) = ld_next db"
  by (simp add: lease_update_def)

interpretation used_lease: row_update l_id "used_row now once"
  by unfold_locales (simp add: used_row_def)

interpretation revoked_lease: row_update l_id "revoked_row now"
  by unfold_locales (simp add: revoked_row_def)

interpretation expired_lease: row_update l_id "\<lambda>r. r\<lparr>l_status := LExpired\<rparr>"
  by unfold_locales simp

lemmas lease_rows = used_lease.row_update_axioms revoked_lease.row_update_axioms expired_lease.row_update_axioms

lemma lease_update_inv:
  assumes "lease_inv db" "row_update l_id f"
  shows "lease_inv (fst (lease_update P f db))"
  using assms row_update.map_key [OF assms(2), of "\<lambda>l. l_status l = LActive \<and> P l" "ld_leases db"]
  by (auto simp: lease_inv_def lease_update_def row_update_def dest!: mem_sql_update)

lemma lease_update_get:
  assumes "lease_inv db" "row_update l_id f"
  shows "tbl_get l_id (ld_leases (fst (lease_update P f db))) k
    = map_option (\<lambda>l. if l_status l = LActive \<and> P l then f l else l) (tbl_get l_id (ld_leases db) k)"
  using row_update.get_upd [OF assms(2)] assms(1) by (simp add: lease_inv_def lease_update_def)

lemma lease_update_hit:
  assumes "lease_inv db"
  shows "snd (lease_update (\<lambda>l. l_id l = k \<and> Q l) f db) > 0 \<longleftrightarrow>
    (\<exists>l. tbl_get l_id (ld_leases db) k = Some l \<and> l_status l = LActive \<and> Q l)"
proof -
  have "rowcount (\<lambda>l. l_status l = LActive \<and> l_id l = k \<and> Q l) (ld_leases db)
      = rowcount (\<lambda>l. l_id l = k \<and> l_status l = LActive \<and> Q l) (ld_leases db)"
    by (rule arg_cong [where f = "\<lambda>P. rowcount P (ld_leases db)"]) auto
  with assms show ?thesis
    using rowcount_key [of l_id "ld_leases db" k "\<lambda>l. l_status l = LActive \<and> Q l"]
    by (simp add: lease_update_def lease_inv_def split: option.split)
qed

section \<open>Borrowing under concurrency\<close>

text \<open>The statements that change the lease table, for a race on the lease \<open>k\<close>. A \<open>Use\<close> works on the
  caller's snapshot of the row; it wins when it claims a once lease.\<close>

datatype lease_op =
    Grant "nat \<Rightarrow> int" string string string string string string string "string option"
  | ExpireRow int lease
  | Use "nat \<Rightarrow> int" lease string
  | RevokeChat "nat \<Rightarrow> int" string string string
  | RevokeOne "nat \<Rightarrow> int" string

fun try_lease :: "lease_op \<Rightarrow> lease_db \<Rightarrow> int \<Rightarrow> lease_db \<times> bool" where
  "try_lease (Grant clk op' oo b pv sc ch rt d) db k =
     (case create_lease clk db op' oo b pv sc ch rt d of Inl e \<Rightarrow> (db, False) | Inr (db', i) \<Rightarrow> (db', False))"
| "try_lease (ExpireRow now l) db k = (expire_lease now l db, False)"
| "try_lease (Use clk l detail) db k =
     (case record_lease_use clk db (l\<lparr>l_id := k\<rparr>) detail of (db', won) \<Rightarrow> (db', won \<and> l_scope l = SCOPE_ONCE))"
| "try_lease (RevokeChat clk oo b pv) db k = (fst (revoke_chat_leases clk db oo b pv), False)"
| "try_lease (RevokeOne clk detail) db k = (revoke_lease clk db k detail, False)"

text \<open>A lease that is active, or that will be granted in the future.\<close>

definition claimable :: "lease_db \<Rightarrow> int \<Rightarrow> bool" where
  "claimable db k \<longleftrightarrow> ld_next db \<le> k \<or> (\<exists>l. tbl_get l_id (ld_leases db) k = Some l \<and> l_status l = LActive)"

lemma claimable_audit [simp]: "claimable (audit a db) k = claimable db k"
  by (simp add: claimable_def)

lemma claimable_update:
  assumes "lease_inv db" "row_update l_id f" "claimable (fst (lease_update P f db)) k"
  shows "claimable db k"
  using assms(3) lease_update_get [OF assms(1,2), of P k] by (auto simp: claimable_def split: if_splits)

lemma expire_lease_eq:
  "expire_lease now l db = (let u = lease_update (\<lambda>r. l_id r = l_id l) (\<lambda>r. r\<lparr>l_status := LExpired\<rparr>) db
     in if snd u > 0 then audit (audit_of ''expired'' now [] l) (fst u) else fst u)"
  by (simp add: expire_lease_def Let_def split: prod.split)

lemma lease_op_leases:
  "ld_leases (expire_lease now l db) = ld_leases (fst (lease_update (\<lambda>r. l_id r = l_id l) (\<lambda>r. r\<lparr>l_status := LExpired\<rparr>) db))"
  "ld_leases (fst (record_lease_use clk db l detail))
     = ld_leases (fst (lease_update (\<lambda>r. l_id r = l_id l \<and> unexpired (clk 0) r) (used_row (clk 0) (l_scope l = SCOPE_ONCE)) db))"
  "ld_leases (fst (revoke_chat_leases clk db oo b pv))
     = ld_leases (fst (lease_update (\<lambda>l. l_borrower_profile l = b \<and> l_owner_open_id l = oo \<and> l_provider l = pv) (revoked_row (clk 0)) db))"
  "ld_leases (revoke_lease clk db i detail) = ld_leases (fst (lease_update (\<lambda>l. l_id l = i) (revoked_row (clk 0)) db))"
  by (simp_all add: expire_lease_def record_lease_use_def revoke_chat_leases_def revoke_lease_def Let_def split: prod.split)

lemma lease_op_next [simp]:
  "ld_next (expire_lease now l db) = ld_next db" "ld_next (fst (record_lease_use clk db l detail)) = ld_next db"
  "ld_next (fst (revoke_chat_leases clk db oo b pv)) = ld_next db" "ld_next (revoke_lease clk db i detail) = ld_next db"
  by (simp_all add: expire_lease_def record_lease_use_def revoke_chat_leases_def revoke_lease_def lease_update_def Let_def)

lemma record_use_won:
  assumes "lease_inv db"
  shows "snd (record_lease_use clk db l detail) \<longleftrightarrow>
    (\<exists>r. tbl_get l_id (ld_leases db) (l_id l) = Some r \<and> l_status r = LActive \<and> unexpired (clk 0) r)"
  using lease_update_hit [OF assms, of "l_id l" "unexpired (clk 0)" "used_row (clk 0) (l_scope l = SCOPE_ONCE)"]
  by (simp add: record_lease_use_def Let_def split: prod.splits) auto

lemma lease_op_inv:
  assumes "lease_inv db"
  shows "lease_inv (expire_lease now l db)" "lease_inv (fst (record_lease_use clk db l detail))"
    "lease_inv (fst (revoke_chat_leases clk db oo b pv))" "lease_inv (revoke_lease clk db i detail)"
proof -
  have eq: "lease_inv d" if "ld_leases d = ld_leases (fst (lease_update P f db))" "ld_next d = ld_next db" "row_update l_id f" for d P f
    using lease_update_inv [OF assms that(3), of P] that(1,2) by (simp add: lease_inv_def)
  show "lease_inv (expire_lease now l db)" by (rule eq [OF lease_op_leases(1)]) (simp_all add: lease_rows)
  show "lease_inv (fst (record_lease_use clk db l detail))" by (rule eq [OF lease_op_leases(2)]) (simp_all add: lease_rows)
  show "lease_inv (fst (revoke_chat_leases clk db oo b pv))" by (rule eq [OF lease_op_leases(3)]) (simp_all add: lease_rows)
  show "lease_inv (revoke_lease clk db i detail)" by (rule eq [OF lease_op_leases(4)]) (simp_all add: lease_rows)
qed

lemma lease_op_claimable:
  assumes "lease_inv db"
  shows "claimable (expire_lease now l db) k \<Longrightarrow> claimable db k"
    "claimable (fst (record_lease_use clk db l detail)) k \<Longrightarrow> claimable db k"
    "claimable (fst (revoke_chat_leases clk db oo b pv)) k \<Longrightarrow> claimable db k"
    "claimable (revoke_lease clk db i detail) k \<Longrightarrow> claimable db k"
proof -
  have eq: "claimable db k" if "claimable d k" "ld_leases d = ld_leases (fst (lease_update P f db))" "ld_next d = ld_next db"
    "row_update l_id f" for d P f
    using claimable_update [OF assms that(4), of P k] that(1-3) by (simp add: claimable_def)
  show "claimable (expire_lease now l db) k \<Longrightarrow> claimable db k"
    by (rule eq [OF _ lease_op_leases(1)]) (simp_all add: lease_rows)
  show "claimable (fst (record_lease_use clk db l detail)) k \<Longrightarrow> claimable db k"
    by (rule eq [OF _ lease_op_leases(2)]) (simp_all add: lease_rows)
  show "claimable (fst (revoke_chat_leases clk db oo b pv)) k \<Longrightarrow> claimable db k"
    by (rule eq [OF _ lease_op_leases(3)]) (simp_all add: lease_rows)
  show "claimable (revoke_lease clk db i detail) k \<Longrightarrow> claimable db k"
    by (rule eq [OF _ lease_op_leases(4)]) (simp_all add: lease_rows)
qed

lemma granted_lease_id [simp]: "l_id (granted_lease now i op' oo b pv sc ch rt d) = i"
  by (simp add: granted_lease_def)

lemma create_lease_effect:
  assumes "lease_inv db" "create_lease clk db op' oo b pv sc ch rt d = Inr (db', i)"
  shows "lease_inv db' \<and> (claimable db' k \<longrightarrow> claimable db k) \<and> i = ld_next db"
proof -
  define l where "l = granted_lease (clk 0) (ld_next db) op' oo b pv sc ch rt (str_or_empty d)"
  have l: "ld_leases db' = ld_leases db @ [l]" "ld_next db' = ld_next db + 1" "l_id l = ld_next db" "i = l_id l"
    using assms(2) by (auto simp: create_lease_def Let_def l_def split: if_splits)
  have "lease_inv db'" using assms(1) l by (auto simp: lease_inv_def)
  moreover have "claimable db' k \<Longrightarrow> claimable db k"
    using l by (auto simp: claimable_def tbl_get_append tbl_get_Cons split: option.splits if_splits)
  ultimately show ?thesis using l by simp
qed

lemma try_use:
  "fst (try_lease (Use clk l detail) db k) = fst (record_lease_use clk db (l\<lparr>l_id := k\<rparr>) detail)"
  "snd (try_lease (Use clk l detail) db k) \<longleftrightarrow> snd (record_lease_use clk db (l\<lparr>l_id := k\<rparr>) detail) \<and> l_scope l = SCOPE_ONCE"
  by (simp_all split: prod.split)

interpretation lease_cas: cas_op lease_inv claimable try_lease
proof
  fix db :: lease_db and a k assume inv: "lease_inv db"
  show "lease_inv (fst (try_lease a db k))"
  proof (cases a)
    case (Use clk l detail)
    show ?thesis unfolding Use try_use by (rule lease_op_inv(2) [OF inv])
  qed (use inv lease_op_inv [OF inv] create_lease_effect [OF inv] in \<open>auto split: sum.splits prod.splits\<close>)
  show "\<not> claimable (fst (try_lease a db k)) k'" if "\<not> claimable db k'" for k'
  proof (cases a)
    case (Use clk l detail)
    show ?thesis unfolding Use try_use using lease_op_claimable(2) [OF inv] that by blast
  qed (use that lease_op_claimable [OF inv] create_lease_effect [OF inv] in \<open>auto split: sum.splits prod.splits\<close>)
  assume win: "snd (try_lease a db k)"
  then obtain clk l detail where a: "a = Use clk l detail" by (cases a) (auto split: sum.splits prod.splits)
  have won: "snd (record_lease_use clk db (l\<lparr>l_id := k\<rparr>) detail)" "l_scope l = SCOPE_ONCE"
    using win by (simp_all only: a try_use)
  then obtain r where r: "tbl_get l_id (ld_leases db) k = Some r" "l_status r = LActive" "unexpired (clk 0) r"
    using record_use_won [OF inv] by auto
  show "claimable db k" using r by (auto simp: claimable_def)
  have id: "l_id r = k" "r \<in> set (ld_leases db)" using tbl_get_mem [OF r(1)] by simp_all
  then have "k < ld_next db" using inv by (auto simp: lease_inv_def)
  moreover have "tbl_get l_id (ld_leases (fst (record_lease_use clk db (l\<lparr>l_id := k\<rparr>) detail))) k
      = Some (used_row (clk 0) True r)"
    using r id(1) won(2) by (simp add: lease_op_leases(2) lease_update_get [OF inv lease_rows(1)])
  ultimately show "\<not> claimable (fst (try_lease a db k)) k"
    unfolding a try_use by (simp add: claimable_def used_row_def)
qed

section \<open>Markers of different runs\<close>

lemma marker_path_inj: "marker_path home n = marker_path home m \<Longrightarrow> safe_nonce n = safe_nonce m"
  by (auto simp: marker_path_def split: if_splits)

lemma marker_roundtrip:
  "take_auth_required_marker since home n (write_auth_required_marker now home body n fs)
     = (fs(marker_path home n := None),
        if now < since then None else Some (dict_setdefault ''provider'' (JStr PROVIDER_GITLAB) body, now))"
  by (simp add: take_auth_required_marker_def write_auth_required_marker_def Let_def)

text \<open>A run neither sees nor removes the marker of a run whose nonce differs after cleaning.\<close>

lemma marker_isolated:
  assumes "safe_nonce n \<noteq> safe_nonce m"
  shows "snd (take_auth_required_marker since home n (write_auth_required_marker now home body m fs))
      = snd (take_auth_required_marker since home n fs)"
    "fst (take_auth_required_marker since home n fs) (marker_path home m) = fs (marker_path home m)"
proof -
  have "marker_path home n \<noteq> marker_path home m" using assms marker_path_inj by blast
  then show "snd (take_auth_required_marker since home n (write_auth_required_marker now home body m fs))
      = snd (take_auth_required_marker since home n fs)"
    "fst (take_auth_required_marker since home n fs) (marker_path home m) = fs (marker_path home m)"
    by (auto simp: take_auth_required_marker_def write_auth_required_marker_def Let_def split: option.split marker_file.split)
qed

section \<open>Finding a lease\<close>

lemma find_loop_result:
  "snd (find_loop env clk now d sc i ls db) = fetchone (filter (\<lambda>l. \<not> stale now l \<and> eligible d sc l) ls)"
  by (induction env clk now d sc i ls db rule: find_loop.induct) (simp_all)

text \<open>Without interference each visited stale row is flipped, and nothing else changes.\<close>

definition only_expires :: "int \<Rightarrow> lease_db \<Rightarrow> lease_db \<Rightarrow> bool" where
  "only_expires now db db' \<longleftrightarrow> ld_next db' = ld_next db
     \<and> (\<forall>k. tbl_get l_id (ld_leases db') k = tbl_get l_id (ld_leases db) k
          \<or> (\<exists>l. tbl_get l_id (ld_leases db) k = Some l \<and> l_status l = LActive \<and> stale now l
               \<and> tbl_get l_id (ld_leases db') k = Some (l\<lparr>l_status := LExpired\<rparr>)))"

lemma expire_lease_get:
  assumes "lease_inv db"
  shows "tbl_get l_id (ld_leases (expire_lease t l db)) k =
    map_option (\<lambda>r. if l_status r = LActive \<and> l_id r = l_id l then r\<lparr>l_status := LExpired\<rparr> else r) (tbl_get l_id (ld_leases db) k)"
  by (simp add: lease_op_leases(1) lease_update_get [OF assms lease_rows(3)])

lemma only_expires_step:
  assumes "lease_inv db" "\<exists>r. tbl_get l_id (ld_leases db) (l_id l) = Some r \<and> stale now r"
    "only_expires now (expire_lease t l db) db'"
  shows "only_expires now db db'"
  unfolding only_expires_def
proof (intro conjI allI)
  show "ld_next db' = ld_next db" using assms(3) by (simp add: only_expires_def)
  fix k
  have step: "tbl_get l_id (ld_leases db') k = tbl_get l_id (ld_leases (expire_lease t l db)) k
      \<or> (\<exists>r. tbl_get l_id (ld_leases (expire_lease t l db)) k = Some r \<and> l_status r = LActive \<and> stale now r
           \<and> tbl_get l_id (ld_leases db') k = Some (r\<lparr>l_status := LExpired\<rparr>))"
    using assms(3) by (simp add: only_expires_def)
  show "tbl_get l_id (ld_leases db') k = tbl_get l_id (ld_leases db) k
      \<or> (\<exists>r. tbl_get l_id (ld_leases db) k = Some r \<and> l_status r = LActive \<and> stale now r
           \<and> tbl_get l_id (ld_leases db') k = Some (r\<lparr>l_status := LExpired\<rparr>))"
  proof (cases "tbl_get l_id (ld_leases db) k")
    case None
    with step show ?thesis by (simp add: expire_lease_get [OF assms(1)])
  next
    case (Some r)
    have "stale now r" if "l_id r = l_id l" using that assms(2) Some tbl_get_mem [OF Some] by auto
    with step Some show ?thesis by (auto simp: expire_lease_get [OF assms(1)] split: if_splits)
  qed
qed

lemma stale_expired [simp]: "stale now (l\<lparr>l_status := LExpired\<rparr>) = stale now l"
  by (simp add: stale_def)

lemma find_loop_expires:
  assumes "lease_inv db" "\<And>l. l \<in> set ls \<Longrightarrow> \<exists>r. tbl_get l_id (ld_leases db) (l_id l) = Some r \<and> stale now r = stale now l"
  shows "only_expires now db (fst (find_loop (\<lambda>_ d. d) clk now d sc i ls db))"
  using assms
proof (induction ls arbitrary: db i)
  case (Cons l ls)
  show ?case
  proof (cases "stale now l")
    case True
    let ?db = "expire_lease (clk (Suc i)) l db"
    have "\<exists>r. tbl_get l_id (ld_leases ?db) (l_id q) = Some r \<and> stale now r = stale now q" if q: "q \<in> set ls" for q
    proof -
      obtain r where "tbl_get l_id (ld_leases db) (l_id q) = Some r" "stale now r = stale now q"
        using Cons.prems(2) [of q] q by auto
      then show ?thesis by (cases "l_status r = LActive \<and> l_id r = l_id l") (simp_all add: expire_lease_get [OF Cons.prems(1)])
    qed
    then have "only_expires now ?db (fst (find_loop (\<lambda>_ d. d) clk now d sc (Suc i) ls ?db))"
      using Cons.IH [OF lease_op_inv(1) [OF Cons.prems(1)]] by blast
    moreover have "\<exists>r. tbl_get l_id (ld_leases db) (l_id l) = Some r \<and> stale now r"
      using Cons.prems(2) [of l] True by auto
    ultimately show ?thesis using True only_expires_step [OF Cons.prems(1)] by simp
  next
    case False
    have "only_expires now db db" by (simp add: only_expires_def)
    moreover have "only_expires now db (fst (find_loop (\<lambda>_ d. d) clk now d sc (Suc i) ls db))"
      using Cons.IH [OF Cons.prems(1)] Cons.prems(2) by simp
    ultimately show ?thesis using False by simp
  qed
qed (simp add: only_expires_def)

lemma active_leases_get:
  assumes "lease_inv db" "l \<in> set (active_leases db oo b pv)"
  shows "tbl_get l_id (ld_leases db) (l_id l) = Some l"
  using assms by (auto simp: active_leases_def order_by_desc_def lease_inv_def intro: tbl_get_distinct)

text \<open>Whatever other processes commit while \<open>find_active_lease\<close> walks its rows, it returns the most
  recently created active lease of that owner, borrower and provider that was unexpired and
  eligible, or none: in particular a once lease only for the run whose non-empty delegation id it
  carries, without hiding a chat lease behind it. Undisturbed, the call changes nothing but flipping active
  leases that outlived their time to \<open>expired\<close>.\<close>

lemma find_active_lease_exact:
  assumes "lease_inv db" "oo \<noteq> []" "b \<noteq> []"
  shows "snd (find_active_lease env clk db oo b pv (Some d) sc)
      = fetchone (filter (\<lambda>l. unexpired (clk 0) l \<and> (\<forall>s. sc = Some s \<longrightarrow> l_scope l = s)
          \<and> (l_scope l = SCOPE_ONCE \<longrightarrow> d \<noteq> [] \<and> l_delegation_id l = d)) (active_leases db oo b pv))
    \<and> sorted (map (\<lambda>l. - l_created_at l) (active_leases db oo b pv))
    \<and> only_expires (clk 0) db (fst (find_active_lease (\<lambda>_ d. d) clk db oo b pv (Some d) sc))"
proof -
  have "(\<not> stale (clk 0) l \<and> eligible (Some d) sc l) = (unexpired (clk 0) l \<and> (\<forall>s. sc = Some s \<longrightarrow> l_scope l = s)
      \<and> (l_scope l = SCOPE_ONCE \<longrightarrow> d \<noteq> [] \<and> l_delegation_id l = d))" for l
    by (auto simp: stale_def unexpired_def eligible_def split: option.split)
  moreover have "only_expires (clk 0) db (fst (find_active_lease (\<lambda>_ d. d) clk db oo b pv (Some d) sc))"
    using assms active_leases_get [OF assms(1)] by (auto simp: find_active_lease_def intro!: find_loop_expires)
  ultimately show ?thesis
    using assms(2,3) by (simp add: find_active_lease_def find_loop_result active_leases_def order_by_desc_def)
qed

definition demo_lease :: lease where
  "demo_lease = granted_lease 1000 1 ''alice'' ''ou_a'' ''feishu_group_x'' ''gitlab'' ''once'' ''oc_1'' ''connector'' ''d1''"

definition demo_leases :: lease_db where
  "demo_leases = \<lparr>ld_leases = [demo_lease], ld_next = 2, ld_audit = []\<rparr>"

lemma demo_leases_inv: "lease_inv demo_leases"
  by (simp add: lease_inv_def demo_leases_def demo_lease_def)

lemma demo_lease_fields [simp]:
  "l_id demo_lease = 1" "l_owner_profile demo_lease = ''alice''" "l_owner_open_id demo_lease = ''ou_a''"
  "l_borrower_profile demo_lease = ''feishu_group_x''" "l_provider demo_lease = ''gitlab''" "l_scope demo_lease = ''once''"
  "l_delegation_id demo_lease = ''d1''" "l_status demo_lease = LActive" "l_expires_at demo_lease = Some 901000"
  by (simp_all add: demo_lease_def granted_lease_def SCOPE_ONCE_def ONCE_TTL_SECONDS_def)

text \<open>A once lease lends the token at most once: in every interleaving of grants, expiries,
  revocations and uses, each on its own snapshot of the row, no once lease is claimed twice; and a lease that is
  consumed, revoked or expired is never claimed again.\<close>

lemma once_lease_claimed_once:
  assumes "lease_inv db"
  shows "distinct (cas_attempts try_lease xs db)
    \<and> (\<forall>l \<in> set (ld_leases db). l_status l \<noteq> LActive \<longrightarrow> l_id l \<notin> set (cas_attempts try_lease xs db))"
proof (intro conjI ballI impI)
  show "distinct (cas_attempts try_lease xs db)" by (rule lease_cas.one_winner [OF assms])
  fix l assume "l \<in> set (ld_leases db)" "l_status l \<noteq> LActive"
  then have "\<not> claimable db (l_id l)"
    using assms tbl_get_distinct [of l_id "ld_leases db" l] by (auto simp: claimable_def lease_inv_def)
  then show "l_id l \<notin> set (cas_attempts try_lease xs db)" by (rule lease_cas.disabled_never_wins [OF assms])
qed

section \<open>Sound borrowing\<close>

lemma route_match_true:
  "owner_route_matches clk t1 t2 sender l db = (db', True) \<longleftrightarrow>
     db' = db \<and> l_owner_profile l \<noteq> [] \<and> owner_profile_for_open_id t1 (Some sender) = Some (l_owner_profile l)
     \<and> profile_is_solely_owned_by t2 (Some (l_owner_profile l)) (Some sender)"
  by (auto simp: owner_route_matches_def Let_def split: option.splits)

lemma owner_gitlab_env_personal:
  assumes "owner_gitlab_env pm now key config v op' = Some env" "env \<noteq> []"
  shows "\<exists>es e payload. config = Inr es \<and> gitlab_config_entry es = Some e
    \<and> resolve_runtime_secret pm now key v e op' = Some (Inr (Some (payload, op'))) \<and> env = token_env e payload"
  using assms by (auto simp: owner_gitlab_env_def split: sum.splits option.splits if_splits)

lemma sole_owner_rows:
  assumes "profile_is_solely_owned_by t (Some p) (Some o')" "r \<in> set t" "r_active r" "strip (r_profile_name r) = strip p"
  shows "r_open_id r = Some o' \<or> (r_open_id r = None \<and> o' = ''None'')"
proof -
  have "open_id_text (r_open_id r) \<in> {o'}"
    using assms by (auto simp: profile_is_solely_owned_by_def Let_def str_or_empty_def split: if_splits)
  then show ?thesis by (cases "r_open_id r") (auto simp: open_id_text_def)
qed

text \<open>The five steps of a run that ends with a token.\<close>

lemma run_steps:
  assumes "delegation_env_for_run pm key config rv b so d existing db = Some (db', env)" "env \<noteq> []" "s = strip (str_or_empty so)"
  shows "\<exists>db1 l. is_delegatable_profile (Some b) \<and> startswith s ''ou_'' \<and> \<not> env_already_carries existing (gitlab_env_name config)
    \<and> find_active_lease (rv_find_env rv) (rv_clk rv 0) db s b PROVIDER_GITLAB (Some (str_or_empty d)) None = (db1, Some l)
    \<and> owner_route_matches (rv_clk rv 1) (rv_routes rv 0) (rv_routes rv 1) s l (rv_env rv 0 db1) = (rv_env rv 0 db1, True)
    \<and> owner_gitlab_env pm (rv_clk rv 2 0) key config (rv_vault rv) (l_owner_profile l) = Some env
    \<and> owner_route_matches (rv_clk rv 3) (rv_routes rv 2) (rv_routes rv 3) s l (rv_env rv 1 (rv_env rv 0 db1))
        = (rv_env rv 1 (rv_env rv 0 db1), True)
    \<and> record_lease_use (rv_clk rv 4) (rv_env rv 2 (rv_env rv 1 (rv_env rv 0 db1))) l ''run env injection'' = (db', True)"
proof -
    let ?find = "find_active_lease (rv_find_env rv) (rv_clk rv 0) db s b PROVIDER_GITLAB (Some (str_or_empty d)) None"
  have run: "delegation_env_for_run pm key config rv b so d existing db = Some (db', env)" "env \<noteq> []"
    and s: "strip (str_or_empty so) = s" using assms by simp_all
  note def = delegation_env_for_run_def Let_def s
  have guards: "is_delegatable_profile (Some b)" "startswith s ''ou_''" "\<not> env_already_carries existing (gitlab_env_name config)"
    using run by (auto simp: def split: if_splits)
  obtain db1 l where find: "?find = (db1, Some l)"
    using run guards
    by (cases ?find; cases "snd ?find") (auto simp: def)
  obtain db2 where m1: "owner_route_matches (rv_clk rv 1) (rv_routes rv 0) (rv_routes rv 1) s l (rv_env rv 0 db1) = (db2, True)"
    using run guards find
    by (auto simp: def split: prod.splits bool.splits)
  obtain env' where tok: "owner_gitlab_env pm (rv_clk rv 2 0) key config (rv_vault rv) (l_owner_profile l) = Some env'" "env' \<noteq> []"
    using run guards find m1
    by (auto simp: def split: option.splits list.splits)
  then obtain kv rest where env': "env' = kv # rest" by (cases env') auto
  obtain db3 where m2: "owner_route_matches (rv_clk rv 3) (rv_routes rv 2) (rv_routes rv 3) s l (rv_env rv 1 db2) = (db3, True)"
    using run guards find m1 tok env'
    by (auto simp: def split: prod.splits bool.splits)
  obtain db4 where use: "record_lease_use (rv_clk rv 4) (rv_env rv 2 db3) l ''run env injection'' = (db4, True)"
    and res: "env = env'" "db' = db4"
    using run guards find m1 m2 tok env'
    by (auto simp: def split: prod.splits bool.splits)
  have "db2 = rv_env rv 0 db1" "db3 = rv_env rv 1 db2" using m1 m2 by (simp_all add: route_match_true)
  with guards find m1 m2 tok use res show ?thesis by blast
qed

lemma find_loop_inv:
  assumes "lease_inv db" "\<And>i x. lease_inv x \<Longrightarrow> lease_inv (env i x)"
  shows "lease_inv (fst (find_loop env clk now d sc i ls db))"
  using assms(1)
proof (induction ls arbitrary: i db)
  case (Cons l ls)
  have "lease_inv (expire_lease (clk (Suc i)) l (env i db))" by (intro lease_op_inv(1) assms(2) Cons.prems)
  with Cons show ?case by simp
qed simp

lemma use_consumes:
  assumes "lease_inv db" "record_lease_use clk db l detail = (db', True)"
  shows "\<exists>r. tbl_get l_id (ld_leases db) (l_id l) = Some r \<and> l_status r = LActive \<and> unexpired (clk 0) r
    \<and> tbl_get l_id (ld_leases db') (l_id l) = Some (used_row (clk 0) (l_scope l = SCOPE_ONCE) r)"
proof -
  obtain r where r: "tbl_get l_id (ld_leases db) (l_id l) = Some r" "l_status r = LActive" "unexpired (clk 0) r"
    using record_use_won [OF assms(1), of clk l detail] assms(2) by auto
  have "l_id r = l_id l" using tbl_get_mem [OF r(1)] by simp
  then show ?thesis
    using r lease_op_leases(2) [of clk db l detail] assms(2) by (simp add: lease_update_get [OF assms(1) lease_rows(1)])
qed

text \<open>C33. A run receives a borrowed token only if all of this held, whatever other processes did
  meanwhile. The borrower is a group profile without a token of its own and the sender an
  open_id. The lease was found active and unexpired for this sender and group, and a once lease carries
  this run's non-empty delegation id. Before and after the token was read, routing sent the sender to the profile
  recorded on the lease and every active row on that profile was the sender's. The token is the
  one in that profile's own vault record. And the lease was still active and unexpired when it
  was claimed.\<close>

theorem borrowed_env_sound:
  assumes "delegation_env_for_run pm key config rv b so d existing db = Some (db', env)" "env \<noteq> []"
    and "lease_inv db" "\<And>i x. lease_inv x \<Longrightarrow> lease_inv (rv_env rv i x)" "\<And>i x. lease_inv x \<Longrightarrow> lease_inv (rv_find_env rv i x)"
  shows "\<exists>l e payload r. startswith b GROUP_PROFILE_PREFIX \<and> startswith (strip (str_or_empty so)) ''ou_''
    \<and> \<not> env_already_carries existing (gitlab_env_name config)
    \<and> l \<in> set (active_leases db (strip (str_or_empty so)) b PROVIDER_GITLAB) \<and> unexpired (rv_clk rv 0 0) l
    \<and> (l_scope l = SCOPE_ONCE \<longrightarrow> str_or_empty d \<noteq> [] \<and> l_delegation_id l = str_or_empty d)
    \<and> (\<forall>i \<in> {0, 2}. owner_profile_for_open_id (rv_routes rv i) (Some (strip (str_or_empty so))) = Some (l_owner_profile l)
         \<and> (\<forall>q \<in> set (rv_routes rv (Suc i)). r_active q \<and> strip (r_profile_name q) = strip (l_owner_profile l)
              \<longrightarrow> r_open_id q = Some (strip (str_or_empty so))))
    \<and> resolve_runtime_secret pm (rv_clk rv 2 0) key (rv_vault rv) e (l_owner_profile l) = Some (Inr (Some (payload, l_owner_profile l)))
    \<and> env = token_env e payload
    \<and> tbl_get l_id (ld_leases (rv_env rv 2 (rv_env rv 1 (rv_env rv 0
        (fst (find_active_lease (rv_find_env rv) (rv_clk rv 0) db (strip (str_or_empty so)) b PROVIDER_GITLAB
           (Some (str_or_empty d)) None)))))) (l_id l) = Some r
    \<and> l_status r = LActive \<and> unexpired (rv_clk rv 4 0) r
    \<and> (l_scope l = SCOPE_ONCE \<longrightarrow> map_option l_status (tbl_get l_id (ld_leases db') (l_id l)) = Some LConsumed)"
proof -
  let ?s = "strip (str_or_empty so)"
  obtain db1 l where guards: "is_delegatable_profile (Some b)" "startswith ?s ''ou_''" "\<not> env_already_carries existing (gitlab_env_name config)"
    and find: "find_active_lease (rv_find_env rv) (rv_clk rv 0) db ?s b PROVIDER_GITLAB (Some (str_or_empty d)) None = (db1, Some l)"
    and m1: "owner_route_matches (rv_clk rv 1) (rv_routes rv 0) (rv_routes rv 1) ?s l (rv_env rv 0 db1) = (rv_env rv 0 db1, True)"
    and tok: "owner_gitlab_env pm (rv_clk rv 2 0) key config (rv_vault rv) (l_owner_profile l) = Some env"
    and m2: "owner_route_matches (rv_clk rv 3) (rv_routes rv 2) (rv_routes rv 3) ?s l (rv_env rv 1 (rv_env rv 0 db1))
      = (rv_env rv 1 (rv_env rv 0 db1), True)"
    and use: "record_lease_use (rv_clk rv 4) (rv_env rv 2 (rv_env rv 1 (rv_env rv 0 db1))) l ''run env injection'' = (db', True)"
    using run_steps [OF assms(1,2) refl] by blast
  have nonempty: "?s \<noteq> []" "b \<noteq> []" using guards(1,2) by (auto simp: is_delegatable_profile_def str_or_empty_def)
  have mem: "l \<in> set (active_leases db ?s b PROVIDER_GITLAB)" and ok: "\<not> stale (rv_clk rv 0 0) l" "eligible (Some (str_or_empty d)) None l"
    using arg_cong [OF find, of snd] nonempty by (auto simp: find_active_lease_def find_loop_result dest!: fetchone_Some_mem)
  have "lease_inv db1"
    using arg_cong [OF find, of fst] find_loop_inv [OF assms(3,5)] nonempty by (auto simp: find_active_lease_def)
  then have inv: "lease_inv (rv_env rv 2 (rv_env rv 1 (rv_env rv 0 db1)))" by (intro assms(4))
  obtain r where r: "tbl_get l_id (ld_leases (rv_env rv 2 (rv_env rv 1 (rv_env rv 0 db1)))) (l_id l) = Some r" "l_status r = LActive"
    "unexpired (rv_clk rv 4 0) r" "tbl_get l_id (ld_leases db') (l_id l) = Some (used_row (rv_clk rv 4 0) (l_scope l = SCOPE_ONCE) r)"
    using use_consumes [OF inv use] by blast
  obtain e payload where e: "resolve_runtime_secret pm (rv_clk rv 2 0) key (rv_vault rv) e (l_owner_profile l)
      = Some (Inr (Some (payload, l_owner_profile l)))" "env = token_env e payload"
    using owner_gitlab_env_personal [OF tok assms(2)] by blast
  have none: "?s \<noteq> ''None''" using guards(2) by auto
  have own: "\<forall>i \<in> {0, 2}. owner_profile_for_open_id (rv_routes rv i) (Some ?s) = Some (l_owner_profile l)
      \<and> (\<forall>q \<in> set (rv_routes rv (Suc i)). r_active q \<and> strip (r_profile_name q) = strip (l_owner_profile l) \<longrightarrow> r_open_id q = Some ?s)"
    using m1 m2 none sole_owner_rows [of _ "l_owner_profile l" ?s] by (auto simp: route_match_true numeral_2_eq_2 numeral_3_eq_3)
  have once: "l_scope l = SCOPE_ONCE \<Longrightarrow> str_or_empty d \<noteq> [] \<and> l_delegation_id l = str_or_empty d"
    and fresh: "unexpired (rv_clk rv 0 0) l"
    using ok by (auto simp: eligible_def stale_def unexpired_def split: option.split)
  have consumed: "l_scope l = SCOPE_ONCE \<Longrightarrow> map_option l_status (tbl_get l_id (ld_leases db') (l_id l)) = Some LConsumed"
    using r(4) by (simp add: used_row_def)
  have group: "startswith b GROUP_PROFILE_PREFIX" using guards(1) by (simp add: is_delegatable_profile_def str_or_empty_def)
  show ?thesis
    by (rule exI [of _ l], rule exI [of _ e], rule exI [of _ payload], rule exI [of _ r], intro conjI impI)
      (use group guards(2,3) mem fresh once own e r(1-3) consumed find in simp_all)
qed

definition demo_route :: routing_row where
  "demo_route = upsert_new 0 ''u1'' ''alice'' ''ou_a'' None ''sync''"

text \<open>A run on its own: nobody else writes, Alice is routed to her profile.\<close>

definition demo_view :: "vault \<Rightarrow> run_view" where
  "demo_view v = \<lparr>rv_clk = (\<lambda>_ _. 2000), rv_routes = (\<lambda>_. [demo_route]), rv_vault = v, rv_find_env = (\<lambda>_ d. d), rv_env = (\<lambda>_ d. d)\<rparr>"

lemma demo_view_fields [simp]:
  "rv_clk (demo_view v) i j = 2000" "rv_routes (demo_view v) i = [demo_route]" "rv_vault (demo_view v) = v"
  "rv_find_env (demo_view v) i x = x" "rv_env (demo_view v) i x = x"
  by (simp_all add: demo_view_def)

lemma demo_route_fields [simp]:
  "r_open_id demo_route = Some ''ou_a''" "r_profile_name demo_route = ''alice''" "r_active demo_route" "r_kind demo_route = KIND_USER"
  by (simp_all add: demo_route_def upsert_new_def blank_row_def)

lemma demo_route_matches: "owner_route_matches clk [demo_route] [demo_route] ''ou_a'' demo_lease db = (db, True)"
  by (simp add: route_match_true owner_profile_for_open_id_def profile_is_solely_owned_by_def str_or_empty_def order_by_desc_def
      or_none_def open_id_text_def Let_def)

lemma demo_find:
  "find_active_lease env clk demo_leases ''ou_a'' ''feishu_group_x'' PROVIDER_GITLAB (Some ''d1'') None
     = (if clk 0 < 901000 then (demo_leases, Some demo_lease) else (expire_lease (clk 1) demo_lease (env 0 demo_leases), None))"
  by (simp add: find_active_lease_def active_leases_def order_by_desc_def demo_leases_def PROVIDER_GITLAB_def stale_def
      eligible_def)

lemma demo_token: "\<exists>kv rest. token_env demo_entry demo_payload = kv # rest"
proof -
  have "token_env demo_entry demo_payload \<noteq> []" by code_simp
  then show ?thesis by (meson neq_Nil_conv)
qed

lemma demo_owner_env:
  "\<exists>v. owner_gitlab_env demo_prims 2000 (Some [9]) (Inr [demo_entry]) v ''alice'' = Some (token_env demo_entry demo_payload)"
proof -
  obtain sealed where sealed: "open_json demo_prims sealed [9] = Some (Inr demo_payload)"
    using seal_open [OF demo_prims_ok, of "replicate 16 5"] by auto
  let ?v = "\<lparr>v_rows = [(demo_cred_row ''alice'' None)\<lparr>c_encrypted_payload := sealed\<rparr>], v_next = 2\<rparr>"
  have self: "ce_vault_profile demo_entry = Some SELF_PROFILE_MARKER" by code_simp
  have shared: "''alice'' \<noteq> DEFAULT_SHARED_PROFILE" by (simp add: DEFAULT_SHARED_PROFILE_def)
  have kind: "''token'' = py_or (str_or_empty (ce_secret_kind demo_entry)) ''token''" by code_simp
  have k: "clean_key ''alice'' (ce_subject_id demo_entry) (ce_provider demo_entry) ''token''
      = Inr (''alice'', ''g'', ''gitlab'', ''token'')" by code_simp
  have ks: "clean_key DEFAULT_SHARED_PROFILE (ce_subject_id demo_entry) (ce_provider demo_entry) ''token''
      = Inr (''__shared__'', ''g'', ''gitlab'', ''token'')" by code_simp
  have row: "get_row ?v (''alice'', ''g'', ''gitlab'', ''token'') = Some ((demo_cred_row ''alice'' None)\<lparr>c_encrypted_payload := sealed\<rparr>)"
    by (simp add: get_row_def cred_key_def demo_cred_row_def)
  have "resolve_runtime_secret demo_prims 2000 (Some [9]) ?v demo_entry ''alice'' = Some (Inr (Some (demo_payload, ''alice'')))"
    unfolding resolve_self [OF self shared kind k ks] row by (simp add: sealed opened_as_def demo_cred_row_def)
  moreover have "gitlab_config_entry [demo_entry] = Some demo_entry" by (simp add: gitlab_config_entry_def demo_entry_def)
  ultimately show ?thesis by (intro exI [of _ ?v]) (simp add: owner_gitlab_env_def)
qed

theorem borrowed_env_sound_witness:
  "\<exists>v db' env. delegation_env_for_run demo_prims (Some [9]) (Inr [demo_entry]) (demo_view v) ''feishu_group_x'' (Some ''ou_a'')
      (Some ''d1'') (EnvMap []) demo_leases = Some (db', env) \<and> env \<noteq> []
    \<and> map_option l_status (tbl_get l_id (ld_leases db') 1) = Some LConsumed"
proof -
  obtain v where v: "owner_gitlab_env demo_prims 2000 (Some [9]) (Inr [demo_entry]) v ''alice'' = Some (token_env demo_entry demo_payload)"
    using demo_owner_env by blast
  obtain kv rest where tok: "token_env demo_entry demo_payload = kv # rest" using demo_token by blast
  have s: "strip (str_or_empty (Some ''ou_a'')) = ''ou_a''" by code_simp
  have s': "strip ''ou_a'' = ''ou_a''" by code_simp
  have grp: "is_delegatable_profile (Some ''feishu_group_x'')" by code_simp
  let ?use = "record_lease_use (\<lambda>_. 2000) demo_leases demo_lease ''run env injection''"
  have use: "snd ?use"
    unfolding record_use_won [OF demo_leases_inv] by (simp add: demo_leases_def unexpired_def tbl_get_Cons)
  have run: "delegation_env_for_run demo_prims (Some [9]) (Inr [demo_entry]) (demo_view v) ''feishu_group_x'' (Some ''ou_a'')
      (Some ''d1'') (EnvMap []) demo_leases = Some (fst ?use, kv # rest)"
    using use v tok grp by (cases ?use)
      (simp add: delegation_env_for_run_def Let_def s' demo_find demo_route_matches dict_str_def str_or_empty_def demo_view_def)
  obtain l where l: "l \<in> set (active_leases demo_leases ''ou_a'' ''feishu_group_x'' PROVIDER_GITLAB)"
    "l_scope l = SCOPE_ONCE \<longrightarrow> map_option l_status (tbl_get l_id (ld_leases (fst ?use)) (l_id l)) = Some LConsumed"
    using borrowed_env_sound [OF run] demo_leases_inv unfolding s by auto
  then have "l = demo_lease" by (simp add: active_leases_def order_by_desc_def demo_leases_def PROVIDER_GITLAB_def)
  with l(2) have "map_option l_status (tbl_get l_id (ld_leases (fst ?use)) 1) = Some LConsumed" by (simp add: SCOPE_ONCE_def)
  with run show ?thesis by blast
qed

text \<open>Revocation: after \<open>revoke_chat_leases\<close> no lease of that owner for that group and provider is
  active, so none is found and a run that holds an earlier snapshot fails to claim it; leases of other owners,
  groups and providers are untouched, and the count is the number revoked. It is not limited to
  chat leases: an unused once grant is revoked with them.\<close>

lemma revoke_covers_every_scope:
  assumes "lease_inv db"
  shows "active_leases (fst (revoke_chat_leases clk db oo b pv)) oo b pv = []
    \<and> snd (revoke_chat_leases clk db oo b pv) = length (active_leases db oo b pv)
    \<and> (\<forall>k. tbl_get l_id (ld_leases (fst (revoke_chat_leases clk db oo b pv))) k =
         map_option (\<lambda>l. if l \<in> set (active_leases db oo b pv) then revoked_row (clk 0) l else l) (tbl_get l_id (ld_leases db) k))
    \<and> (\<forall>l \<in> set (active_leases db oo b pv). \<not> snd (record_lease_use clk' (fst (revoke_chat_leases clk db oo b pv)) l detail))"
proof -
  let ?P = "\<lambda>l. l_borrower_profile l = b \<and> l_owner_open_id l = oo \<and> l_provider l = pv"
  let ?db = "fst (revoke_chat_leases clk db oo b pv)"
  have inv: "lease_inv ?db" by (rule lease_op_inv(3) [OF assms])
  have get: "tbl_get l_id (ld_leases ?db) k
      = map_option (\<lambda>l. if l_status l = LActive \<and> ?P l then revoked_row (clk 0) l else l) (tbl_get l_id (ld_leases db) k)" for k
    by (simp add: lease_op_leases(3) lease_update_get [OF assms lease_rows(2)])
  have mem: "l \<in> set (active_leases db oo b pv) \<longleftrightarrow> l \<in> set (ld_leases db) \<and> l_status l = LActive \<and> ?P l" for l
    by (auto simp: active_leases_def order_by_desc_def)
  have "l \<notin> set (active_leases ?db oo b pv)" for l
  proof
    assume "l \<in> set (active_leases ?db oo b pv)"
    then have l: "l \<in> set (sql_update (\<lambda>l. l_status l = LActive \<and> ?P l) (revoked_row (clk 0)) (ld_leases db))"
      "l_status l = LActive \<and> ?P l"
      by (simp_all add: active_leases_def order_by_desc_def lease_op_leases(3) lease_update_def)
    obtain q where "l = (if l_status q = LActive \<and> ?P q then revoked_row (clk 0) q else q)" using mem_sql_update [OF l(1)] by blast
    with l(2) show False by (cases "l_status q = LActive \<and> ?P q") (simp_all add: revoked_row_def)
  qed
  then have "active_leases ?db oo b pv = []" by (metis last_in_set)
  moreover have "snd (revoke_chat_leases clk db oo b pv) = length (active_leases db oo b pv)"
    by (simp add: revoke_chat_leases_def lease_update_def active_leases_def order_by_desc_def rowcount_def conj_ac)
  moreover have "tbl_get l_id (ld_leases ?db) k
      = map_option (\<lambda>l. if l \<in> set (active_leases db oo b pv) then revoked_row (clk 0) l else l) (tbl_get l_id (ld_leases db) k)" for k
    unfolding get mem by (rule option.map_cong [OF refl]) (auto dest: tbl_get_mem)
  moreover have "\<not> snd (record_lease_use clk' ?db l detail)" if l: "l \<in> set (active_leases db oo b pv)" for l
    using l active_leases_get [OF assms l] by (auto simp: record_use_won [OF inv] get mem revoked_row_def)
  ultimately show ?thesis by blast
qed

end
