(* ===== verification/Relay_Store.thy ===== *)
theory Relay_Store
  imports Credential_Vault "HOL-Library.Product_Lexorder"
begin

text \<open>
  The state of the local-agent relay (\<open>src/hermes_multitenancy/agent_relay_store.py\<close>): OAuth
  enrollments, relay tokens, messages with their idempotency keys, replies, reactions, cards and
  logs. Hashing and sealing are the fields of \<open>relay_env\<close>; \<open>vault_relay\<close> builds its sealing from the
  vault's \<open>_seal_json\<close> and \<open>_open_json\<close>. Random identifiers and nonces and the clock are arguments.
  Where an operation takes the store's lock twice, \<open>env\<close> is what other threads do in between. A
  failed INSERT is an \<open>IntegrityError\<close>; statements before it stay in the connection's tables.
\<close>

section \<open>Data\<close>

datatype enroll_status = EPending | EAuthorizing | ECompleted | EClaimed | EFailed | EExpired
datatype token_status = TActive | TRevoked
datatype message_status = MSending | MSent
datatype card_status = CSending | CPending | CFailed | CActioned | CClosed | CExpired

record enrollment =
  en_enroll_hash :: string
  en_state_hash :: string
  en_status :: enroll_status
  en_token_payload :: "string option"
  en_token_id :: "string option"
  en_user_name :: "string option"
  en_expires_at :: int
  en_created_at :: int
  en_updated_at :: int

record relay_token =
  tk_token_id :: string
  tk_token_hash :: string
  tk_actor_payload :: string
  tk_actor_fingerprint :: string
  tk_status :: token_status
  tk_issued_at :: int
  tk_last_used_at :: "int option"
  tk_revoked_at :: "int option"

record relay_message =
  m_resource_id :: string
  m_token_id :: string
  m_idempotency_key :: string
  m_request_hash :: string
  m_kind :: string
  m_status :: message_status
  m_message_id :: "string option"
  m_result_payload :: "string option"
  m_reply_expires_at :: "int option"
  m_created_at :: int
  m_updated_at :: int

record relay_idem =
  i_token_id :: string
  i_idempotency_key :: string
  i_request_hash :: string
  i_kind :: string
  i_resource_id :: string
  i_created_at :: int

record relay_reply =
  rp_event_id :: string
  rp_token_id :: string
  rp_message_id :: string
  rp_content_payload :: string
  rp_create_time :: int
  rp_created_at :: int
  rp_purged_at :: "int option"

record relay_reaction =
  rx_token_id :: string
  rx_message_id :: string
  rx_emoji_type :: string
  rx_event_id :: string
  rx_created_at :: int

record relay_card =
  k_card_id :: string
  k_token_id :: string
  k_idempotency_key :: string
  k_request_hash :: string
  k_nonce_hash :: string
  k_nonce_payload :: string
  k_action_ids :: "string list"
  k_status :: card_status
  k_action_id :: "string option"
  k_close_reason :: "string option"
  k_message_id :: "string option"
  k_conversation_payload :: "string option"
  k_content_payload :: "string option"
  k_expires_at :: int
  k_created_at :: int
  k_updated_at :: int

record relay_log =
  lg_id :: int
  lg_ts :: int
  lg_level :: string
  lg_logger :: string
  lg_event :: string
  lg_status :: string
  lg_actor :: string
  lg_card_id :: string
  lg_message_id :: string
  lg_raw :: string

record relay_db =
  db_enrollments :: "enrollment list"
  db_tokens :: "relay_token list"
  db_messages :: "relay_message list"
  db_idem :: "relay_idem list"
  db_replies :: "relay_reply list"
  db_reactions :: "relay_reaction list"
  db_cards :: "relay_card list"
  db_logs :: "relay_log list"
  db_next_log :: int

record relay_env =
  re_sha :: "string \<Rightarrow> string"
  re_token_hash :: "string \<Rightarrow> string \<Rightarrow> string"
  re_seal :: "bytes \<Rightarrow> payload \<Rightarrow> string"
  re_open :: "string \<Rightarrow> payload result"

text \<open>The sealing of the store: the vault's, under the store's key. With a 32-byte HMAC both loops end.\<close>

definition vault_relay :: "(string \<Rightarrow> string) \<Rightarrow> (string \<Rightarrow> string \<Rightarrow> string) \<Rightarrow> prims \<Rightarrow> bytes \<Rightarrow> relay_env" where
  "vault_relay sha scrypt pm key =
     \<lparr>re_sha = sha, re_token_hash = scrypt,
      re_seal = (\<lambda>n p. case seal_json pm n p key of None \<Rightarrow> [] | Some s \<Rightarrow> s),
      re_open = (\<lambda>s. case open_json pm s key of None \<Rightarrow> Inl (RuntimeError ''keystream'') | Some r \<Rightarrow> r)\<rparr>"

text \<open>\<open>d[key]\<close> of a payload.\<close>

definition payload_get :: "payload \<Rightarrow> string \<Rightarrow> jval result" where
  "payload_get p k = (case map_of p k of None \<Rightarrow> Inl (RuntimeError ''KeyError'') | Some v \<Rightarrow> Inr v)"

definition str_none :: "string option \<Rightarrow> string" where
  "str_none x = (case x of None \<Rightarrow> ''None'' | Some s \<Rightarrow> s)"

lemma vault_relay_codec:
  assumes "prims_ok pm p" "length n = 16"
  shows "re_open (vault_relay sha scrypt pm k) (re_seal (vault_relay sha scrypt pm k) n p) = Inr p"
  using seal_open [OF assms, of k] by (auto simp: vault_relay_def)

section \<open>Enrollment and tokens\<close>

definition LOG_RETENTION_MS :: int where "LOG_RETENTION_MS = 30 * 86400000"
definition ENROLLMENT_STALE_GRACE_MS :: int where "ENROLLMENT_STALE_GRACE_MS = 86400000"
definition ENROLLMENT_COMPLETED_RETENTION_MS :: int where "ENROLLMENT_COMPLETED_RETENTION_MS = 30 * 86400000"
definition TOKEN_PREFIX :: string where "TOKEN_PREFIX = ''hm-relay-''"

definition create_enrollment :: "relay_env \<Rightarrow> int \<Rightarrow> string \<Rightarrow> string \<Rightarrow> relay_db \<Rightarrow> relay_db \<times> string result" where
  "create_enrollment re now enroll_id state db =
     (if list_ex (\<lambda>e. en_enroll_hash e = re_sha re enroll_id \<or> en_state_hash e = re_sha re state) (db_enrollments db)
      then (db, Inl IntegrityError)
      else (db\<lparr>db_enrollments := db_enrollments db @
              [\<lparr>en_enroll_hash = re_sha re enroll_id, en_state_hash = re_sha re state, en_status = EPending, en_token_payload = None,
                en_token_id = None, en_user_name = None, en_expires_at = now + 600000, en_created_at = now, en_updated_at = now\<rparr>]\<rparr>,
            Inr enroll_id))"

definition begin_enrollment :: "relay_env \<Rightarrow> int \<Rightarrow> string \<Rightarrow> relay_db \<Rightarrow> relay_db \<times> bool" where
  "begin_enrollment re now state db =
     (let P = (\<lambda>e. en_state_hash e = re_sha re state \<and> en_status e = EPending \<and> en_expires_at e > now)
      in (db\<lparr>db_enrollments := sql_update P (\<lambda>e. e\<lparr>en_status := EAuthorizing, en_updated_at := now\<rparr>) (db_enrollments db)\<rparr>,
          rowcount P (db_enrollments db) = 1))"

definition fail_enrollment :: "relay_env \<Rightarrow> int \<Rightarrow> string \<Rightarrow> relay_db \<Rightarrow> relay_db" where
  "fail_enrollment re now state db =
     db\<lparr>db_enrollments := sql_update (\<lambda>e. en_state_hash e = re_sha re state \<and> en_status e = EAuthorizing)
          (\<lambda>e. e\<lparr>en_status := EFailed, en_updated_at := now\<rparr>) (db_enrollments db)\<rparr>"

definition completed_row :: "int \<Rightarrow> string \<Rightarrow> string \<Rightarrow> enrollment \<Rightarrow> enrollment" where
  "completed_row now token_payload token_id e =
     e\<lparr>en_status := ECompleted, en_token_payload := Some token_payload, en_token_id := Some token_id, en_user_name := None,
       en_updated_at := now\<rparr>"

text \<open>\<open>rand\<close> is the secret part of the new token.\<close>

definition complete_enrollment ::
    "relay_env \<Rightarrow> int \<Rightarrow> string \<Rightarrow> string \<Rightarrow> bytes \<Rightarrow> bytes \<Rightarrow> string \<Rightarrow> string \<Rightarrow> string \<Rightarrow> relay_db \<Rightarrow> relay_db \<times> bool result" where
  "complete_enrollment re now token_id rand n1 n2 state actor_id display_name db =
     (if \<not> startswith actor_id ''ou_'' \<or> display_name = [] then (db, Inr False)
      else
        let token = TOKEN_PREFIX @ token_id @ CHR ''.'' # rand;
            actor_payload = re_seal re n1 [(''actor_id'', JStr actor_id), (''display_name'', JStr display_name)];
            token_payload = re_seal re n2 [(''token'', JStr token), (''user_name'', JStr display_name)]
        in case fetchone (filter (\<lambda>e. en_state_hash e = re_sha re state) (db_enrollments db)) of
             None \<Rightarrow> (db, Inr False)
           | Some e \<Rightarrow>
               if en_status e \<noteq> EAuthorizing \<or> en_expires_at e \<le> now then (db, Inr False)
               else if list_ex (\<lambda>t. tk_token_id t = token_id) (db_tokens db) then (db, Inl IntegrityError)
               else (db\<lparr>db_tokens := db_tokens db @
                        [\<lparr>tk_token_id = token_id, tk_token_hash = re_token_hash re token token_id, tk_actor_payload = actor_payload,
                          tk_actor_fingerprint = take 12 (re_sha re actor_id), tk_status = TActive, tk_issued_at = now,
                          tk_last_used_at = None, tk_revoked_at = None\<rparr>],
                       db_enrollments := sql_update (\<lambda>e. en_state_hash e = re_sha re state \<and> en_status e = EAuthorizing)
                         (completed_row now token_payload token_id) (db_enrollments db)\<rparr>, Inr True))"

datatype claim_view = ClaimNone | ClaimStatus enroll_status | Claimed jval "string option" jval

definition claim_enrollment :: "relay_env \<Rightarrow> int \<Rightarrow> string \<Rightarrow> relay_db \<Rightarrow> relay_db \<times> claim_view result" where
  "claim_enrollment re now enroll_id db =
     (let h = re_sha re enroll_id
      in case fetchone (filter (\<lambda>e. en_enroll_hash e = h) (db_enrollments db)) of
           None \<Rightarrow> (db, Inr ClaimNone)
         | Some e \<Rightarrow>
             if en_expires_at e \<le> now \<and> en_status e = EPending
             then (db\<lparr>db_enrollments := sql_update (\<lambda>e. en_enroll_hash e = h)
                       (\<lambda>e. e\<lparr>en_status := EExpired, en_updated_at := now\<rparr>) (db_enrollments db)\<rparr>, Inr (ClaimStatus EExpired))
             else if en_status e \<noteq> ECompleted then (db, Inr (ClaimStatus (en_status e)))
             else (case re_open re (str_none (en_token_payload e)) of
                 Inl x \<Rightarrow> (db, Inl x)
               | Inr claimed \<Rightarrow>
                   (case (payload_get claimed ''token'', payload_get claimed ''user_name'') of
                      (Inl x, _) \<Rightarrow> (db, Inl x)
                    | (_, Inl x) \<Rightarrow> (db, Inl x)
                    | (Inr token, Inr user) \<Rightarrow>
                        (db\<lparr>db_enrollments := sql_update (\<lambda>e. en_enroll_hash e = h \<and> en_status e = ECompleted)
                            (\<lambda>e. e\<lparr>en_status := EClaimed, en_token_payload := None, en_updated_at := now\<rparr>) (db_enrollments db)\<rparr>,
                         Inr (Claimed token (en_token_id e) user)))))"

record auth_view =
  av_token_id :: string
  av_actor_id :: jval
  av_user_name :: jval
  av_fingerprint :: string
  av_issued_at :: int

definition authenticate :: "relay_env \<Rightarrow> int \<Rightarrow> string \<Rightarrow> relay_db \<Rightarrow> relay_db \<times> auth_view option result" where
  "authenticate re now token db =
     (if \<not> startswith token TOKEN_PREFIX \<or> CHR ''.'' \<notin> set token then (db, Inr None)
      else
        let token_id = takeWhile (\<lambda>c. c \<noteq> CHR ''.'') (drop (length TOKEN_PREFIX) token)
        in case fetchone (filter (\<lambda>t. tk_token_id t = token_id \<and> tk_status t = TActive) (db_tokens db)) of
             None \<Rightarrow> (db, Inr None)
           | Some t \<Rightarrow>
               if tk_token_hash t \<noteq> re_token_hash re token token_id then (db, Inr None)
               else
                 let db' = db\<lparr>db_tokens := sql_update (\<lambda>t. tk_token_id t = token_id) (\<lambda>t. t\<lparr>tk_last_used_at := Some now\<rparr>)
                             (db_tokens db)\<rparr>
                 in case re_open re (tk_actor_payload t) of
                      Inl x \<Rightarrow> (db', Inl x)
                    | Inr actor \<Rightarrow>
                        (case (payload_get actor ''actor_id'', payload_get actor ''display_name'') of
                           (Inl x, _) \<Rightarrow> (db', Inl x)
                         | (_, Inl x) \<Rightarrow> (db', Inl x)
                         | (Inr a, Inr u) \<Rightarrow>
                             (db', Inr (Some \<lparr>av_token_id = token_id, av_actor_id = a, av_user_name = u,
                                av_fingerprint = tk_actor_fingerprint t, av_issued_at = tk_issued_at t\<rparr>))))"

definition revoke_token :: "int \<Rightarrow> string \<Rightarrow> relay_db \<Rightarrow> relay_db \<times> bool" where
  "revoke_token now token_id db =
     (let P = (\<lambda>t. tk_token_id t = token_id \<and> tk_status t = TActive)
      in (db\<lparr>db_tokens := sql_update P (\<lambda>t. t\<lparr>tk_status := TRevoked, tk_revoked_at := Some now\<rparr>) (db_tokens db)\<rparr>,
          rowcount P (db_tokens db) = 1))"

text \<open>\<open>_token_ids_for_actor\<close>: the active tokens whose sealed actor is this one.\<close>

fun matching_tokens :: "relay_env \<Rightarrow> string \<Rightarrow> relay_token list \<Rightarrow> string list result" where
  "matching_tokens re actor_id [] = Inr []"
| "matching_tokens re actor_id (t # ts) =
     (case re_open re (tk_actor_payload t) of
        Inl x \<Rightarrow> Inl x
      | Inr p \<Rightarrow>
          (case payload_get p ''actor_id'' of
             Inl x \<Rightarrow> Inl x
           | Inr a \<Rightarrow>
               (case matching_tokens re actor_id ts of
                  Inl x \<Rightarrow> Inl x
                | Inr ids \<Rightarrow> Inr (if py_str a = actor_id then tk_token_id t # ids else ids))))"

definition token_ids_for_actor :: "relay_env \<Rightarrow> relay_db \<Rightarrow> string \<Rightarrow> string list result" where
  "token_ids_for_actor re db actor_id =
     (if \<not> startswith actor_id ''ou_'' then Inr []
      else matching_tokens re actor_id (filter (\<lambda>t. tk_status t = TActive) (db_tokens db)))"

section \<open>Messages\<close>

definition idem_row :: "relay_db \<Rightarrow> string \<Rightarrow> string \<Rightarrow> relay_idem option" where
  "idem_row db token_id key = fetchone (filter (\<lambda>i. i_token_id i = token_id \<and> i_idempotency_key i = key) (db_idem db))"

definition add_idem :: "int \<Rightarrow> string \<Rightarrow> string \<Rightarrow> string \<Rightarrow> string \<Rightarrow> string \<Rightarrow> relay_db \<Rightarrow> relay_db" where
  "add_idem now token_id key request_hash kind resource_id db =
     db\<lparr>db_idem := db_idem db @ [\<lparr>i_token_id = token_id, i_idempotency_key = key, i_request_hash = request_hash, i_kind = kind,
          i_resource_id = resource_id, i_created_at = now\<rparr>]\<rparr>"

definition new_message ::
    "int \<Rightarrow> string \<Rightarrow> string \<Rightarrow> string \<Rightarrow> string \<Rightarrow> string \<Rightarrow> message_status \<Rightarrow> string option \<Rightarrow> int option \<Rightarrow> relay_message" where
  "new_message now resource_id token_id key request_hash kind status message_id reply_expires_at =
     \<lparr>m_resource_id = resource_id, m_token_id = token_id, m_idempotency_key = key, m_request_hash = request_hash, m_kind = kind,
      m_status = status, m_message_id = message_id, m_result_payload = None, m_reply_expires_at = reply_expires_at,
      m_created_at = now, m_updated_at = now\<rparr>"

text \<open>A row that the primary key or the UNIQUE constraint of \<open>relay_messages\<close> refuses beside \<open>m\<close>.\<close>

definition message_clash :: "relay_db \<Rightarrow> relay_message \<Rightarrow> bool" where
  "message_clash db m = list_ex (\<lambda>x. m_resource_id x = m_resource_id m
     \<or> (m_token_id x = m_token_id m \<and> m_idempotency_key x = m_idempotency_key m)) (db_messages db)"

definition message_row :: "relay_db \<Rightarrow> string \<Rightarrow> relay_message option" where
  "message_row db resource_id = tbl_get m_resource_id (db_messages db) resource_id"

definition reserve_message ::
    "int \<Rightarrow> string \<Rightarrow> string \<Rightarrow> string \<Rightarrow> string \<Rightarrow> int option \<Rightarrow> string \<Rightarrow> relay_db \<Rightarrow> relay_db \<times> (relay_message \<times> bool) result" where
  "reserve_message now resource_id token_id key request_hash reply_expires_at msg_type db =
     (case idem_row db token_id key of
        Some i \<Rightarrow>
          if i_request_hash i \<noteq> request_hash \<or> i_kind i \<noteq> ''message'' then (db, Inl RelayConflict)
          else (case message_row db (i_resource_id i) of None \<Rightarrow> (db, Inl PyTypeError) | Some m \<Rightarrow> (db, Inr (m, False)))
      | None \<Rightarrow>
          let db1 = add_idem now token_id key request_hash ''message'' resource_id db;
              m = new_message now resource_id token_id key request_hash msg_type MSending None reply_expires_at;
              db2 = (if message_clash db1 m then db1 else db1\<lparr>db_messages := db_messages db1 @ [m]\<rparr>)
          in case message_row db2 resource_id of None \<Rightarrow> (db2, Inl PyTypeError) | Some r \<Rightarrow> (db2, Inr (r, True)))"

definition finish_message :: "relay_env \<Rightarrow> int \<Rightarrow> bytes \<Rightarrow> string \<Rightarrow> string \<Rightarrow> payload \<Rightarrow> relay_db \<Rightarrow> relay_db" where
  "finish_message re now n resource_id message_id res db =
     db\<lparr>db_messages := sql_update (\<lambda>m. m_resource_id m = resource_id \<and> m_status m = MSending)
          (\<lambda>m. m\<lparr>m_status := MSent, m_message_id := Some message_id, m_result_payload := Some (re_seal re n res), m_updated_at := now\<rparr>)
          (db_messages db)\<rparr>"

definition message_result :: "relay_env \<Rightarrow> relay_message \<Rightarrow> payload option result" where
  "message_result re m =
     (if str_or_empty (m_result_payload m) = [] then Inr None
      else map_sum (\<lambda>e. e) Some (re_open re (str_or_empty (m_result_payload m))))"

definition open_window :: "int \<Rightarrow> relay_message \<Rightarrow> bool" where
  "open_window now m = (m_status m = MSent \<and> (case m_reply_expires_at m of None \<Rightarrow> False | Some e \<Rightarrow> e > now))"

definition reply_windows :: "int \<Rightarrow> string list \<Rightarrow> string option \<Rightarrow> relay_db \<Rightarrow> relay_message list" where
  "reply_windows now token_ids parent db =
     filter (\<lambda>m. m_token_id m \<in> set token_ids \<and> (str_or_empty parent \<noteq> [] \<longrightarrow> m_message_id m = parent) \<and> open_window now m)
       (db_messages db)"

definition assign_reply ::
    "relay_env \<Rightarrow> (relay_db \<Rightarrow> relay_db) \<Rightarrow> int \<Rightarrow> bytes \<Rightarrow> string \<Rightarrow> string \<Rightarrow> string \<Rightarrow> int \<Rightarrow> string option \<Rightarrow> relay_db
      \<Rightarrow> relay_db \<times> (bool \<times> bool) result" where
  "assign_reply re env now n event_id actor_id txt create_time parent db0 =
     (case token_ids_for_actor re db0 actor_id of
        Inl x \<Rightarrow> (db0, Inl x)
      | Inr [] \<Rightarrow> (db0, Inr (False, False))
      | Inr token_ids \<Rightarrow>
          let db = env db0; rows = reply_windows now token_ids parent db
          in case rows of
               [m] \<Rightarrow>
                 (if list_ex (\<lambda>r. rp_event_id r = event_id) (db_replies db) then db
                  else db\<lparr>db_replies := db_replies db @
                     [\<lparr>rp_event_id = event_id, rp_token_id = m_token_id m, rp_message_id = str_or_empty (m_message_id m),
                       rp_content_payload = re_seal re n [(''text'', JStr txt)], rp_create_time = create_time, rp_created_at = now,
                       rp_purged_at = None\<rparr>]\<rparr>, Inr (True, False))
             | _ \<Rightarrow> (db, Inr (False, str_or_empty parent = [] \<and> length rows > 1)))"

definition owned_sent_message :: "relay_db \<Rightarrow> string \<Rightarrow> string \<Rightarrow> relay_message option" where
  "owned_sent_message db token_id message_id =
     fetchone (filter (\<lambda>m. m_token_id m = token_id \<and> m_message_id m = Some message_id \<and> m_status m = MSent) (db_messages db))"

fun open_texts :: "relay_env \<Rightarrow> relay_reply list \<Rightarrow> (string \<times> jval \<times> int) list result" where
  "open_texts re [] = Inr []"
| "open_texts re (r # rs) =
     (case re_open re (rp_content_payload r) of
        Inl x \<Rightarrow> Inl x
      | Inr p \<Rightarrow>
          (case payload_get p ''text'' of
             Inl x \<Rightarrow> Inl x
           | Inr t \<Rightarrow> (case open_texts re rs of Inl x \<Rightarrow> Inl x | Inr ts \<Rightarrow> Inr ((rp_event_id r, t, rp_create_time r) # ts))))"

definition message_replies ::
    "relay_env \<Rightarrow> relay_db \<Rightarrow> string \<Rightarrow> string \<Rightarrow> int \<Rightarrow> int \<Rightarrow> (string \<times> jval \<times> int) list option result" where
  "message_replies re db token_id message_id since_ts limit =
     (case owned_sent_message db token_id message_id of
        None \<Rightarrow> Inr None
      | Some m \<Rightarrow>
          map_sum (\<lambda>e. e) Some (open_texts re (sql_limit limit (sort_key (\<lambda>r. (rp_create_time r, rp_event_id r))
            (filter (\<lambda>r. rp_token_id r = token_id \<and> rp_message_id r = message_id \<and> rp_create_time r > since_ts
               \<and> rp_purged_at r = None) (db_replies db))))))"

definition change_reaction ::
    "relay_env \<Rightarrow> (relay_db \<Rightarrow> relay_db) \<Rightarrow> int \<Rightarrow> string \<Rightarrow> string \<Rightarrow> string \<Rightarrow> string \<Rightarrow> string \<Rightarrow> relay_db \<Rightarrow> relay_db \<times> bool result" where
  "change_reaction re env now event_id actor_id message_id emoji operation db0 =
     (case token_ids_for_actor re db0 actor_id of
        Inl x \<Rightarrow> (db0, Inl x)
      | Inr token_ids \<Rightarrow>
          if token_ids = [] \<or> operation \<notin> {''create'', ''delete''} then (db0, Inr False)
          else
            let db = env db0
            in case fetchone (filter (\<lambda>m. m_token_id m \<in> set token_ids \<and> m_message_id m = Some message_id \<and> m_status m = MSent)
                   (db_messages db)) of
                 None \<Rightarrow> (db, Inr False)
               | Some m \<Rightarrow>
                   let same = (\<lambda>x. rx_token_id x = m_token_id m \<and> rx_message_id x = message_id \<and> rx_emoji_type x = emoji);
                       rest = sql_delete same (db_reactions db)
                   in (db\<lparr>db_reactions := (if operation = ''create''
                         then rest @ [\<lparr>rx_token_id = m_token_id m, rx_message_id = message_id, rx_emoji_type = emoji,
                                rx_event_id = event_id, rx_created_at = now\<rparr>]
                         else rest)\<rparr>, Inr True))"

definition message_reactions :: "relay_db \<Rightarrow> string \<Rightarrow> string \<Rightarrow> string list option" where
  "message_reactions db token_id message_id =
     (case owned_sent_message db token_id message_id of
        None \<Rightarrow> None
      | Some m \<Rightarrow> Some (sort (map rx_emoji_type
            (filter (\<lambda>x. rx_token_id x = token_id \<and> rx_message_id x = message_id) (db_reactions db)))))"

definition close_reply_window :: "int \<Rightarrow> string \<Rightarrow> string \<Rightarrow> relay_db \<Rightarrow> relay_db \<times> bool" where
  "close_reply_window now token_id message_id db =
     (let P = (\<lambda>m. m_token_id m = token_id \<and> m_message_id m = Some message_id \<and> open_window now m)
      in (db\<lparr>db_messages := sql_update P (\<lambda>m. m\<lparr>m_reply_expires_at := Some now, m_updated_at := now\<rparr>) (db_messages db)\<rparr>,
          rowcount P (db_messages db) = 1))"

section \<open>Cards\<close>

definition card_row :: "relay_db \<Rightarrow> string \<Rightarrow> relay_card option" where
  "card_row db card_id = tbl_get k_card_id (db_cards db) card_id"

definition new_card ::
    "int \<Rightarrow> string \<Rightarrow> string \<Rightarrow> string \<Rightarrow> string \<Rightarrow> string \<Rightarrow> string \<Rightarrow> string list \<Rightarrow> int \<Rightarrow> relay_card" where
  "new_card now card_id token_id key request_hash nonce_hash nonce_payload action_ids expires_at =
     \<lparr>k_card_id = card_id, k_token_id = token_id, k_idempotency_key = key, k_request_hash = request_hash,
      k_nonce_hash = nonce_hash, k_nonce_payload = nonce_payload, k_action_ids = action_ids, k_status = CSending, k_action_id = None,
      k_close_reason = None, k_message_id = None, k_conversation_payload = None, k_content_payload = None,
      k_expires_at = expires_at, k_created_at = now, k_updated_at = now\<rparr>"

definition card_clash :: "relay_db \<Rightarrow> relay_card \<Rightarrow> bool" where
  "card_clash db c = list_ex (\<lambda>x. k_card_id x = k_card_id c
     \<or> (k_token_id x = k_token_id c \<and> k_idempotency_key x = k_idempotency_key c)) (db_cards db)"

definition reserve_card ::
    "relay_env \<Rightarrow> int \<Rightarrow> string \<Rightarrow> string \<Rightarrow> bytes \<Rightarrow> string \<Rightarrow> string \<Rightarrow> string \<Rightarrow> string list \<Rightarrow> int \<Rightarrow> relay_db
      \<Rightarrow> relay_db \<times> (relay_card \<times> string \<times> bool) result" where
  "reserve_card re now card_id nonce n token_id key request_hash action_ids expires_at db =
     (case idem_row db token_id key of
        Some i \<Rightarrow>
          if i_request_hash i \<noteq> request_hash \<or> i_kind i \<noteq> ''card'' then (db, Inl RelayConflict)
          else (case card_row db (i_resource_id i) of
              None \<Rightarrow> (db, Inl PyTypeError)
            | Some c \<Rightarrow>
                (case re_open re (k_nonce_payload c) of
                   Inl x \<Rightarrow> (db, Inl x)
                 | Inr p \<Rightarrow> (case payload_get p ''nonce'' of Inl x \<Rightarrow> (db, Inl x) | Inr v \<Rightarrow> (db, Inr (c, py_str v, False)))))
      | None \<Rightarrow>
          let db1 = add_idem now token_id key request_hash ''card'' card_id db;
              c = new_card now card_id token_id key request_hash (re_sha re nonce)
                    (re_seal re n [(''nonce'', JStr nonce)]) action_ids expires_at
          in if card_clash db1 c then (db1, Inl IntegrityError)
             else (db1\<lparr>db_cards := db_cards db1 @ [c]\<rparr>, Inr (c, nonce, True)))"

definition register_card_message :: "int \<Rightarrow> string \<Rightarrow> string \<Rightarrow> string \<Rightarrow> string \<Rightarrow> int \<Rightarrow> relay_db \<Rightarrow> relay_db \<times> unit result" where
  "register_card_message now resource_id token_id key message_id reply_expires_at db =
     (let m = new_message now resource_id token_id key [] ''card'' MSent (Some message_id) (Some reply_expires_at)
      in if message_clash db m then (db, Inl IntegrityError) else (db\<lparr>db_messages := db_messages db @ [m]\<rparr>, Inr ()))"

definition card_update :: "(relay_card \<Rightarrow> bool) \<Rightarrow> (relay_card \<Rightarrow> relay_card) \<Rightarrow> relay_db \<Rightarrow> relay_db" where
  "card_update P f db = db\<lparr>db_cards := sql_update P f (db_cards db)\<rparr>"

definition finish_card :: "relay_env \<Rightarrow> int \<Rightarrow> bytes \<Rightarrow> string \<Rightarrow> string \<Rightarrow> string \<Rightarrow> relay_db \<Rightarrow> relay_db" where
  "finish_card re now n card_id message_id conversation_id db =
     card_update (\<lambda>c. k_card_id c = card_id \<and> k_status c = CSending)
       (\<lambda>c. c\<lparr>k_status := CPending, k_message_id := Some message_id,
          k_conversation_payload := Some (re_seal re n [(''conversation_id'', JStr conversation_id)]), k_updated_at := now\<rparr>) db"

definition fail_card :: "int \<Rightarrow> string \<Rightarrow> relay_db \<Rightarrow> relay_db" where
  "fail_card now card_id db =
     card_update (\<lambda>c. k_card_id c = card_id \<and> k_status c = CSending) (\<lambda>c. c\<lparr>k_status := CFailed, k_updated_at := now\<rparr>) db"

definition expire_card :: "int \<Rightarrow> relay_card \<Rightarrow> relay_card" where
  "expire_card now c = c\<lparr>k_status := CExpired, k_updated_at := now\<rparr>"

record card_view =
  cv_card_id :: string
  cv_status :: card_status
  cv_message_id :: string
  cv_expires_at :: int
  cv_action_id :: "string option"
  cv_reason :: "string option"

definition public_card :: "relay_card \<Rightarrow> card_view" where
  "public_card c =
     \<lparr>cv_card_id = k_card_id c, cv_status = k_status c, cv_message_id = str_or_empty (k_message_id c),
      cv_expires_at = k_expires_at c, cv_action_id = or_none (str_or_empty (k_action_id c)),
      cv_reason = or_none (str_or_empty (k_close_reason c))\<rparr>"

definition card_state :: "int \<Rightarrow> string \<Rightarrow> string \<Rightarrow> relay_db \<Rightarrow> relay_db \<times> card_view option" where
  "card_state now token_id card_id db =
     (let db' = card_update (\<lambda>c. k_card_id c = card_id \<and> k_token_id c = token_id \<and> k_status c = CPending \<and> k_expires_at c \<le> now)
                  (expire_card now) db
      in (db', map_option public_card (fetchone (filter (\<lambda>c. k_card_id c = card_id \<and> k_token_id c = token_id) (db_cards db')))))"

definition actor_card :: "relay_db \<Rightarrow> string list \<Rightarrow> string \<Rightarrow> relay_card option" where
  "actor_card db token_ids card_id =
     fetchone (filter (\<lambda>c. k_card_id c = card_id \<and> k_token_id c \<in> set token_ids) (db_cards db))"

definition action_card ::
    "relay_env \<Rightarrow> (relay_db \<Rightarrow> relay_db) \<Rightarrow> int \<Rightarrow> string \<Rightarrow> string \<Rightarrow> string \<Rightarrow> string \<Rightarrow> string \<Rightarrow> relay_db \<Rightarrow> relay_db \<times> bool result" where
  "action_card re env now actor_id card_id nonce message_id action_id db0 =
     (case token_ids_for_actor re db0 actor_id of
        Inl x \<Rightarrow> (db0, Inl x)
      | Inr [] \<Rightarrow> (db0, Inr False)
      | Inr token_ids \<Rightarrow>
          let db = env db0
          in case actor_card db token_ids card_id of
               None \<Rightarrow> (db, Inr False)
             | Some c \<Rightarrow>
                 if k_status c \<noteq> CPending \<or> k_expires_at c \<le> now \<or> k_nonce_hash c \<noteq> re_sha re nonce
                    \<or> str_none (k_message_id c) \<noteq> message_id \<or> action_id \<notin> set (k_action_ids c)
                 then (db, Inr False)
                 else (card_update (\<lambda>c. k_card_id c = card_id \<and> k_status c = CPending)
                         (\<lambda>c. c\<lparr>k_status := CActioned, k_action_id := Some action_id, k_updated_at := now\<rparr>) db,
                       Inr (rowcount (\<lambda>c. k_card_id c = card_id \<and> k_status c = CPending) (db_cards db) = 1)))"

definition cache_card_content :: "relay_env \<Rightarrow> int \<Rightarrow> bytes \<Rightarrow> string \<Rightarrow> string \<Rightarrow> payload \<Rightarrow> relay_db \<Rightarrow> relay_db \<times> bool" where
  "cache_card_content re now n token_id message_id content db =
     (let P = (\<lambda>c. k_message_id c = Some message_id \<and> k_token_id c = token_id)
      in (card_update P (\<lambda>c. c\<lparr>k_content_payload := Some (re_seal re n content), k_updated_at := now\<rparr>) db,
          rowcount P (db_cards db) = 1))"

definition replay_card_content ::
    "relay_env \<Rightarrow> (relay_db \<Rightarrow> relay_db) \<Rightarrow> string \<Rightarrow> string \<Rightarrow> string \<Rightarrow> string \<Rightarrow> relay_db \<Rightarrow> payload option result" where
  "replay_card_content re env actor_id card_id nonce message_id db =
     (case token_ids_for_actor re db actor_id of
        Inl x \<Rightarrow> Inl x
      | Inr [] \<Rightarrow> Inr None
      | Inr token_ids \<Rightarrow>
          (case actor_card (env db) token_ids card_id of
             None \<Rightarrow> Inr None
           | Some c \<Rightarrow>
               if str_or_empty (k_content_payload c) = [] \<or> k_nonce_hash c \<noteq> re_sha re nonce \<or> str_or_empty (k_message_id c) \<noteq> message_id
               then Inr None
               else (case re_open re (str_or_empty (k_content_payload c)) of Inl x \<Rightarrow> Inr None | Inr p \<Rightarrow> Inr (Some p))))"

definition close_card ::
    "(relay_db \<Rightarrow> relay_db) \<Rightarrow> (nat \<Rightarrow> int) \<Rightarrow> string \<Rightarrow> string \<Rightarrow> string \<Rightarrow> relay_db \<Rightarrow> relay_db \<times> card_view option \<times> bool" where
  "close_card env clk token_id card_id reason db =
     (let now = clk 0;
          P = (\<lambda>c. k_card_id c = card_id \<and> k_token_id c = token_id \<and> k_status c = CPending \<and> k_expires_at c > now);
          db1 = card_update P (\<lambda>c. c\<lparr>k_status := CClosed, k_close_reason := Some reason, k_updated_at := now\<rparr>) db;
          st = card_state (clk 1) token_id card_id (env db1)
      in (fst st, snd st, rowcount P (db_cards db) = 1))"

section \<open>Logs, statistics, retention\<close>

text \<open>\<open>row\<close> carries the columns of the new line; its \<open>lg_id\<close> is assigned.\<close>

definition append_log :: "relay_log \<Rightarrow> relay_db \<Rightarrow> relay_db" where
  "append_log row db = db\<lparr>db_logs := db_logs db @ [row\<lparr>lg_id := db_next_log db\<rparr>], db_next_log := db_next_log db + 1\<rparr>"

definition list_logs :: "relay_db \<Rightarrow> int \<Rightarrow> int \<Rightarrow> int \<Rightarrow> int \<Rightarrow> relay_log list" where
  "list_logs db since until limit after_id =
     sql_limit limit (sort_key (\<lambda>l. (lg_ts l, lg_id l))
       (filter (\<lambda>l. (lg_ts l > since \<or> (lg_ts l = since \<and> lg_id l > after_id)) \<and> lg_ts l \<le> until) (db_logs db)))"

definition group_counts :: "'k list \<Rightarrow> ('k \<times> nat) list" where
  "group_counts ks = map (\<lambda>k. (k, length (filter (\<lambda>x. x = k) ks))) (remdups ks)"

record usage_view =
  us_by_kind :: "(string \<times> nat) list"
  us_messages :: nat
  us_by_status :: "(card_status \<times> nat) list"
  us_cards :: nat
  us_active_users :: nat
  us_enrolled_users :: nat

definition usage_stats :: "relay_db \<Rightarrow> int \<Rightarrow> int \<Rightarrow> usage_view" where
  "usage_stats db since until =
     (let sent = filter (\<lambda>m. m_status m = MSent \<and> m_request_hash m \<noteq> [] \<and> since \<le> m_created_at m \<and> m_created_at m \<le> until)
                   (db_messages db);
          made = filter (\<lambda>c. since \<le> k_created_at c \<and> k_created_at c \<le> until) (db_cards db);
          by_kind = group_counts (map m_kind sent); by_status = group_counts (map k_status made);
          users = map m_token_id sent @ map k_token_id made
      in \<lparr>us_by_kind = by_kind, us_messages = sum_list (map snd by_kind), us_by_status = by_status,
          us_cards = sum_list (map snd by_status),
          us_active_users = length (remdups (map tk_actor_fingerprint (filter (\<lambda>t. tk_token_id t \<in> set users) (db_tokens db)))),
          us_enrolled_users = length (remdups (map tk_actor_fingerprint (filter (\<lambda>t. tk_status t = TActive) (db_tokens db))))\<rparr>)"

definition purgeable :: "int \<Rightarrow> relay_db \<Rightarrow> relay_reply \<Rightarrow> bool" where
  "purgeable now db r = (rp_purged_at r = None \<and> list_ex (\<lambda>m. m_token_id m = rp_token_id r
     \<and> m_message_id m = Some (rp_message_id r)
     \<and> (case m_reply_expires_at m of None \<Rightarrow> False | Some e \<Rightarrow> e + 86400000 \<le> now)) (db_messages db))"

definition prune :: "relay_env \<Rightarrow> int \<Rightarrow> bytes \<Rightarrow> relay_db \<Rightarrow> relay_db \<times> nat" where
  "prune re now n db =
     (db\<lparr>db_cards := sql_update (\<lambda>c. k_status c = CPending \<and> k_expires_at c \<le> now) (expire_card now) (db_cards db),
        db_replies := sql_update (purgeable now db)
          (\<lambda>r. r\<lparr>rp_content_payload := re_seal re n [(''text'', JStr [])], rp_purged_at := Some now\<rparr>) (db_replies db),
        db_logs := sql_delete (\<lambda>l. lg_ts l < now - LOG_RETENTION_MS) (db_logs db),
        db_enrollments := sql_delete (\<lambda>e. en_status e = ECompleted \<and> en_updated_at e \<le> now - ENROLLMENT_COMPLETED_RETENTION_MS)
          (sql_delete (\<lambda>e. en_status e \<noteq> ECompleted \<and> en_expires_at e \<le> now - ENROLLMENT_STALE_GRACE_MS) (db_enrollments db))\<rparr>,
      rowcount (purgeable now db) (db_replies db))"

section \<open>Sequences of operations\<close>

text \<open>
  Every writer of the store, as one critical section. An operation that read the actor's tokens in
  an earlier critical section carries the database it saw there (\<open>relay_db\<close> as an argument).
\<close>

datatype relay_op =
    CreateEnrollment int string string
  | BeginEnrollment int string
  | FailEnrollment int string
  | CompleteEnrollment int string string bytes bytes string string string
  | ClaimEnrollment int string
  | Authenticate int string
  | RevokeToken int string
  | ReserveMessage int string string string string "int option" string
  | FinishMessage int bytes string string payload
  | AssignReply relay_db int bytes string string string int "string option"
  | ChangeReaction relay_db int string string string string string
  | CloseReplyWindow int string string
  | ReserveCard int string string bytes string string string "string list" int
  | RegisterCardMessage int string string string string int
  | FinishCard int bytes string string string
  | FailCard int string
  | CardState int string string
  | ActionCard relay_db int string string string string string
  | CacheCardContent int bytes string string payload
  | CloseCard int string string string
  | AppendLog relay_log
  | Prune int bytes

text \<open>The second critical section, when the first one found tokens.\<close>

definition with_tokens :: "relay_env \<Rightarrow> relay_db \<Rightarrow> string \<Rightarrow> relay_db \<times> 'a \<Rightarrow> relay_db \<Rightarrow> relay_db" where
  "with_tokens re seen actor_id result db =
     (case token_ids_for_actor re seen actor_id of Inr (i # is) \<Rightarrow> fst result | _ \<Rightarrow> db)"

definition close_pending :: "int \<Rightarrow> string \<Rightarrow> string \<Rightarrow> string \<Rightarrow> relay_db \<Rightarrow> relay_db" where
  "close_pending now token_id card_id reason db =
     card_update (\<lambda>c. k_card_id c = card_id \<and> k_token_id c = token_id \<and> k_status c = CPending \<and> k_expires_at c > now)
       (\<lambda>c. c\<lparr>k_status := CClosed, k_close_reason := Some reason, k_updated_at := now\<rparr>) db"

fun relay_exec :: "relay_env \<Rightarrow> relay_op \<Rightarrow> relay_db \<Rightarrow> relay_db" where
  "relay_exec re (CreateEnrollment now eid st) db = fst (create_enrollment re now eid st db)"
| "relay_exec re (BeginEnrollment now st) db = fst (begin_enrollment re now st db)"
| "relay_exec re (FailEnrollment now st) db = fail_enrollment re now st db"
| "relay_exec re (CompleteEnrollment now tid rand n1 n2 st actor name) db = fst (complete_enrollment re now tid rand n1 n2 st actor name db)"
| "relay_exec re (ClaimEnrollment now eid) db = fst (claim_enrollment re now eid db)"
| "relay_exec re (Authenticate now tok) db = fst (authenticate re now tok db)"
| "relay_exec re (RevokeToken now tid) db = fst (revoke_token now tid db)"
| "relay_exec re (ReserveMessage now rid tid key h ex ty) db = fst (reserve_message now rid tid key h ex ty db)"
| "relay_exec re (FinishMessage now n rid mid res) db = finish_message re now n rid mid res db"
| "relay_exec re (AssignReply seen now n ev actor txt ct parent) db =
     with_tokens re seen actor (assign_reply re (\<lambda>_. db) now n ev actor txt ct parent seen) db"
| "relay_exec re (ChangeReaction seen now ev actor mid emoji oper) db =
     (if oper \<in> {''create'', ''delete''}
      then with_tokens re seen actor (change_reaction re (\<lambda>_. db) now ev actor mid emoji oper seen) db else db)"
| "relay_exec re (CloseReplyWindow now tid mid) db = fst (close_reply_window now tid mid db)"
| "relay_exec re (ReserveCard now cid nonce n tid key h acts ex) db = fst (reserve_card re now cid nonce n tid key h acts ex db)"
| "relay_exec re (RegisterCardMessage now rid tid key mid ex) db = fst (register_card_message now rid tid key mid ex db)"
| "relay_exec re (FinishCard now n cid mid conv) db = finish_card re now n cid mid conv db"
| "relay_exec re (FailCard now cid) db = fail_card now cid db"
| "relay_exec re (CardState now tid cid) db = fst (card_state now tid cid db)"
| "relay_exec re (ActionCard seen now actor cid nonce mid act) db =
     with_tokens re seen actor (action_card re (\<lambda>_. db) now actor cid nonce mid act seen) db"
| "relay_exec re (CacheCardContent now n tid mid content) db = fst (cache_card_content re now n tid mid content db)"
| "relay_exec re (CloseCard now tid cid reason) db = close_pending now tid cid reason db"
| "relay_exec re (AppendLog row) db = append_log row db"
| "relay_exec re (Prune now n) db = fst (prune re now n db)"

definition relay_run :: "relay_env \<Rightarrow> relay_op list \<Rightarrow> relay_db \<Rightarrow> relay_db" where
  "relay_run re ops db = fold (relay_exec re) ops db"

section \<open>Evolution of the tables\<close>

definition token_evolves :: "relay_token \<Rightarrow> relay_token \<Rightarrow> bool" where
  "token_evolves t u \<longleftrightarrow> tk_token_id u = tk_token_id t \<and> tk_token_hash u = tk_token_hash t \<and> tk_actor_payload u = tk_actor_payload t
     \<and> (tk_status t = TRevoked \<longrightarrow> tk_status u = TRevoked)"

definition message_evolves :: "relay_message \<Rightarrow> relay_message \<Rightarrow> bool" where
  "message_evolves m n \<longleftrightarrow> m_resource_id n = m_resource_id m \<and> m_token_id n = m_token_id m
     \<and> m_idempotency_key n = m_idempotency_key m \<and> m_request_hash n = m_request_hash m \<and> m_kind n = m_kind m
     \<and> (m_status m = MSent \<longrightarrow> m_status n = MSent \<and> m_message_id n = m_message_id m)"

definition terminal :: "card_status \<Rightarrow> bool" where
  "terminal s \<longleftrightarrow> s \<notin> {CSending, CPending}"

definition card_evolves :: "relay_card \<Rightarrow> relay_card \<Rightarrow> bool" where
  "card_evolves c d \<longleftrightarrow> k_card_id d = k_card_id c \<and> k_token_id d = k_token_id c \<and> k_nonce_hash d = k_nonce_hash c
     \<and> k_nonce_payload d = k_nonce_payload c \<and> k_action_ids d = k_action_ids c \<and> k_expires_at d = k_expires_at c
     \<and> (terminal (k_status c) \<longrightarrow> k_status d = k_status c \<and> k_action_id d = k_action_id c \<and> k_close_reason d = k_close_reason c)
     \<and> (k_status c \<noteq> CSending \<longrightarrow> k_message_id d = k_message_id c)
     \<and> (k_status c = CPending \<longrightarrow> k_status d \<notin> {CSending, CFailed})"

definition idem_key :: "relay_idem \<Rightarrow> string \<times> string" where
  "idem_key i = (i_token_id i, i_idempotency_key i)"

interpretation tokens: evolving_table tk_token_id token_evolves
  by unfold_locales (auto simp: token_evolves_def)

interpretation messages: evolving_table m_resource_id message_evolves
  by unfold_locales (auto simp: message_evolves_def)

interpretation cards: evolving_table k_card_id card_evolves
  by unfold_locales (auto simp: card_evolves_def terminal_def)

interpretation idems: evolving_table idem_key "\<lambda>i j. i = j"
  by unfold_locales auto

definition evolves :: "relay_db \<Rightarrow> relay_db \<Rightarrow> bool" where
  "evolves db db' \<longleftrightarrow> grows token_evolves (db_tokens db) (db_tokens db') \<and> grows message_evolves (db_messages db) (db_messages db')
     \<and> grows card_evolves (db_cards db) (db_cards db') \<and> grows (\<lambda>i j. i = j) (db_idem db) (db_idem db')"

lemmas grows_intros = tokens.grows_append tokens.grows_refl tokens.grows_update messages.grows_append messages.grows_refl
  messages.grows_update cards.grows_append cards.grows_refl cards.grows_update idems.grows_append idems.grows_refl

lemma evolves_refl: "evolves db db"
  by (simp add: evolves_def grows_intros)

lemma evolves_trans: "evolves a b \<Longrightarrow> evolves b c \<Longrightarrow> evolves a c"
  unfolding evolves_def by (blast intro: tokens.grows_trans messages.grows_trans cards.grows_trans idems.grows_trans)

lemmas row_evolves = token_evolves_def message_evolves_def card_evolves_def terminal_def

lemma evolves_enrollment:
  "evolves db (fst (create_enrollment re now eid st db))" "evolves db (fst (begin_enrollment re now st db))"
  "evolves db (fail_enrollment re now st db)" "evolves db (fst (claim_enrollment re now eid db))"
  "evolves db (fst (complete_enrollment re now tid rand n1 n2 st actor name db))"
  "evolves db (fst (authenticate re now tok db))" "evolves db (fst (revoke_token now tid db))"
  by (auto simp: evolves_def create_enrollment_def begin_enrollment_def fail_enrollment_def claim_enrollment_def
      complete_enrollment_def authenticate_def revoke_token_def Let_def row_evolves intro!: grows_intros
      split: option.splits sum.splits prod.splits)

lemma evolves_messages:
  "evolves db (fst (reserve_message now rid tid key h ex ty db))" "evolves db (finish_message re now n rid mid res db)"
  "evolves db (fst (close_reply_window now tid mid db))" "evolves db (fst (register_card_message now rid tid key mid rex db))"
  by (auto simp: evolves_def reserve_message_def add_idem_def finish_message_def close_reply_window_def register_card_message_def
      open_window_def Let_def row_evolves intro!: grows_intros split: option.splits)

lemma evolves_cards:
  "evolves db (fst (reserve_card re now cid nonce n tid key h acts ex db))" "evolves db (finish_card re now n cid mid conv db)"
  "evolves db (fail_card now cid db)" "evolves db (fst (card_state now tid cid db))"
  "evolves db (fst (cache_card_content re now n tid mid content db))" "evolves db (close_pending now tid cid reason db)"
  "evolves db (append_log row db)" "evolves db (fst (prune re now n db))"
  by (auto simp: evolves_def reserve_card_def add_idem_def finish_card_def fail_card_def card_state_def cache_card_content_def
      close_pending_def append_log_def prune_def card_update_def expire_card_def Let_def row_evolves
      intro!: grows_intros split: option.splits sum.splits)

lemma evolves_reply: "evolves db (with_tokens re seen actor (assign_reply re (\<lambda>_. db) now n ev actor txt ct parent seen) db)"
  by (auto simp: evolves_def with_tokens_def assign_reply_def Let_def intro!: grows_intros split: sum.splits list.splits)

lemma evolves_reaction:
  assumes "oper \<in> {''create'', ''delete''}"
  shows "evolves db (with_tokens re seen actor (change_reaction re (\<lambda>_. db) now ev actor mid emoji oper seen) db)"
  using assms
  by (auto simp: evolves_def with_tokens_def change_reaction_def Let_def intro!: grows_intros split: sum.splits list.splits option.splits)

lemma evolves_action: "evolves db (with_tokens re seen actor (action_card re (\<lambda>_. db) now actor cid nonce mid act seen) db)"
  by (auto simp: evolves_def with_tokens_def action_card_def card_update_def Let_def row_evolves intro!: grows_intros
      split: sum.splits list.splits option.splits)

lemma exec_evolves: "evolves db (relay_exec re x db)"
  by (cases x) (simp_all add: evolves_enrollment evolves_messages evolves_cards evolves_reply evolves_reaction evolves_action evolves_refl)

lemma run_evolves: "evolves db (relay_run re xs db)"
proof (induction xs arbitrary: db)
  case (Cons x xs)
  show ?case using evolves_trans [OF exec_evolves Cons.IH] by (simp add: relay_run_def)
qed (simp add: relay_run_def evolves_refl)

text \<open>Token and card identifiers are primary keys.\<close>

definition relay_inv :: "relay_db \<Rightarrow> bool" where
  "relay_inv db \<longleftrightarrow> distinct (map tk_token_id (db_tokens db)) \<and> distinct (map k_card_id (db_cards db))"

lemma same_ids:
  "(\<And>t. tk_token_id (f t) = tk_token_id t) \<Longrightarrow> map tk_token_id (sql_update P f ts) = map tk_token_id ts"
  "(\<And>c. k_card_id (g c) = k_card_id c) \<Longrightarrow> map k_card_id (sql_update Q g cs) = map k_card_id cs"
  by (simp_all add: map_sql_update)

lemma inv_enrollment:
  assumes "relay_inv db"
  shows "relay_inv (fst (create_enrollment re now eid st db))" "relay_inv (fst (begin_enrollment re now st db))"
    "relay_inv (fail_enrollment re now st db)" "relay_inv (fst (claim_enrollment re now eid db))"
    "relay_inv (fst (complete_enrollment re now tid rand n1 n2 st actor name db))"
    "relay_inv (fst (authenticate re now tok db))" "relay_inv (fst (revoke_token now tid db))"
  using assms
  by (auto simp: relay_inv_def create_enrollment_def begin_enrollment_def fail_enrollment_def claim_enrollment_def
      complete_enrollment_def authenticate_def revoke_token_def Let_def same_ids list_ex_iff
      split: option.splits sum.splits prod.splits)

lemma inv_messages:
  assumes "relay_inv db"
  shows "relay_inv (fst (reserve_message now rid tid key h ex ty db))" "relay_inv (finish_message re now n rid mid res db)"
    "relay_inv (fst (close_reply_window now tid mid db))" "relay_inv (fst (register_card_message now rid tid key mid rex db))"
  using assms
  by (auto simp: relay_inv_def reserve_message_def add_idem_def finish_message_def close_reply_window_def register_card_message_def
      Let_def split: option.splits)

lemma inv_cards:
  assumes "relay_inv db"
  shows "relay_inv (fst (reserve_card re now cid nonce n tid key h acts ex db))" "relay_inv (finish_card re now n cid mid conv db)"
    "relay_inv (fail_card now cid db)" "relay_inv (fst (card_state now tid cid db))"
    "relay_inv (fst (cache_card_content re now n tid mid content db))" "relay_inv (close_pending now tid cid reason db)"
    "relay_inv (append_log row db)" "relay_inv (fst (prune re now n db))"
  using assms
  by (auto simp: relay_inv_def reserve_card_def add_idem_def finish_card_def fail_card_def card_state_def cache_card_content_def
      close_pending_def append_log_def prune_def card_update_def expire_card_def new_card_def card_clash_def list_ex_iff Let_def same_ids
      split: option.splits sum.splits)

lemma inv_actor:
  assumes "relay_inv db"
  shows "relay_inv (with_tokens re seen actor (assign_reply re (\<lambda>_. db) now n ev actor txt ct parent seen) db)"
    "oper \<in> {''create'', ''delete''} \<Longrightarrow>
       relay_inv (with_tokens re seen actor (change_reaction re (\<lambda>_. db) now ev actor mid emoji oper seen) db)"
    "relay_inv (with_tokens re seen actor (action_card re (\<lambda>_. db) now actor cid nonce mid act seen) db)"
  using assms
  by (auto simp: relay_inv_def with_tokens_def assign_reply_def change_reaction_def action_card_def card_update_def Let_def same_ids
      split: sum.splits list.splits option.splits)

lemma exec_inv: "relay_inv db \<Longrightarrow> relay_inv (relay_exec re x db)"
  by (cases x) (simp_all add: inv_enrollment inv_messages inv_cards inv_actor)

lemma run_inv: "relay_inv db \<Longrightarrow> relay_inv (relay_run re xs db)"
  by (induction xs arbitrary: db) (simp_all add: relay_run_def exec_inv)

section \<open>Enrollment: one claim per enrollment\<close>

definition enroll_inv :: "relay_db \<Rightarrow> bool" where
  "enroll_inv db \<longleftrightarrow> distinct (map en_enroll_hash (db_enrollments db))"

definition live :: "enroll_status \<Rightarrow> bool" where
  "live s \<longleftrightarrow> s \<in> {EPending, EAuthorizing, ECompleted}"

text \<open>An enrollment whose token may still be handed out.\<close>

definition claim_open :: "relay_env \<Rightarrow> relay_db \<Rightarrow> string \<Rightarrow> bool" where
  "claim_open re db eid \<longleftrightarrow> (\<exists>e \<in> set (db_enrollments db). en_enroll_hash e = re_sha re eid \<and> live (en_status e))"

text \<open>A claim, or any other operation on existing enrollments, by anyone.\<close>

fun try_claim :: "relay_env \<Rightarrow> int + relay_op \<Rightarrow> relay_db \<Rightarrow> string \<Rightarrow> relay_db \<times> bool" where
  "try_claim re (Inl now) db eid =
     (fst (claim_enrollment re now eid db), case snd (claim_enrollment re now eid db) of Inr (Claimed a b c) \<Rightarrow> True | _ \<Rightarrow> False)"
| "try_claim re (Inr x) db eid = ((case x of CreateEnrollment a b c \<Rightarrow> db | _ \<Rightarrow> relay_exec re x db), False)"

text \<open>Every statement on enrollments but the INSERT: rows are deleted or rewritten, never from
  a dead status back to a live one.\<close>

definition enroll_shrinks :: "enrollment list \<Rightarrow> enrollment list \<Rightarrow> bool" where
  "enroll_shrinks t t' \<longleftrightarrow> (\<exists>P Q f. t' = filter Q (sql_update P f t)
     \<and> (\<forall>e. en_enroll_hash (f e) = en_enroll_hash e) \<and> (\<forall>e. P e \<and> live (en_status (f e)) \<longrightarrow> live (en_status e)))"

lemma shrinks_refl: "enroll_shrinks t t"
  unfolding enroll_shrinks_def by (intro exI [of _ "\<lambda>_. False"] exI [of _ "\<lambda>_. True"] exI [of _ "\<lambda>e. e"]) (simp add: sql_update_def)

lemma shrinks_update:
  assumes "\<And>e. en_enroll_hash (f e) = en_enroll_hash e" "\<And>e. P e \<Longrightarrow> live (en_status (f e)) \<Longrightarrow> live (en_status e)"
  shows "enroll_shrinks t (sql_update P f t)"
  unfolding enroll_shrinks_def using assms by (intro exI [of _ P] exI [of _ "\<lambda>_. True"] exI [of _ f]) simp

lemma shrinks_delete: "enroll_shrinks t (sql_delete P (sql_delete Q t))"
  unfolding enroll_shrinks_def
  by (intro exI [of _ "\<lambda>_. False"] exI [of _ "\<lambda>e. \<not> P e \<and> \<not> Q e"] exI [of _ "\<lambda>e. e"]) (simp add: sql_update_def sql_delete_def conj_commute)

lemma shrinks_keep:
  assumes "enroll_shrinks (db_enrollments db) (db_enrollments db')"
  shows "enroll_inv db \<Longrightarrow> enroll_inv db'" "\<not> claim_open re db eid \<Longrightarrow> \<not> claim_open re db' eid"
proof -
  obtain P Q f where f: "db_enrollments db' = filter Q (sql_update P f (db_enrollments db))"
    "\<And>e. en_enroll_hash (f e) = en_enroll_hash e" "\<And>e. P e \<Longrightarrow> live (en_status (f e)) \<Longrightarrow> live (en_status e)"
    using assms by (auto simp: enroll_shrinks_def)
  have "map en_enroll_hash (sql_update P f (db_enrollments db)) = map en_enroll_hash (db_enrollments db)"
    using f(2) by (simp add: map_sql_update)
  then show "enroll_inv db \<Longrightarrow> enroll_inv db'" using f(1) by (metis distinct_map_filter enroll_inv_def)
  show "\<not> claim_open re db eid \<Longrightarrow> \<not> claim_open re db' eid"
    using f by (fastforce simp: claim_open_def dest!: mem_sql_update split: if_splits)
qed

lemma claim_shrinks: "enroll_shrinks (db_enrollments db) (db_enrollments (fst (claim_enrollment re now eid db)))"
proof -
  have "enroll_shrinks (db_enrollments db) (db_enrollments db)" by (rule shrinks_refl)
  moreover have "enroll_shrinks (db_enrollments db) (sql_update P (\<lambda>e. e\<lparr>en_status := EExpired, en_updated_at := now\<rparr>) (db_enrollments db))" for P
    by (rule shrinks_update) (simp_all add: live_def)
  moreover have "enroll_shrinks (db_enrollments db)
      (sql_update P (\<lambda>e. e\<lparr>en_status := EClaimed, en_token_payload := None, en_updated_at := now\<rparr>) (db_enrollments db))" for P
    by (rule shrinks_update) (simp_all add: live_def)
  ultimately show ?thesis
    by (auto simp: claim_enrollment_def Let_def split: option.splits sum.splits prod.splits)
qed

lemma other_shrinks:
  assumes "\<And>a b c. x \<noteq> CreateEnrollment a b c"
  shows "enroll_shrinks (db_enrollments db) (db_enrollments (relay_exec re x db))"
proof (cases x)
  case (CreateEnrollment a b c)
  with assms show ?thesis by blast
next
  case (ClaimEnrollment now eid)
  then show ?thesis by (simp add: claim_shrinks)
next
  case (Prune now n)
  then show ?thesis by (simp add: prune_def shrinks_delete)
qed (auto simp: begin_enrollment_def fail_enrollment_def complete_enrollment_def completed_row_def authenticate_def revoke_token_def
    reserve_message_def add_idem_def finish_message_def close_reply_window_def register_card_message_def reserve_card_def
    finish_card_def fail_card_def card_state_def cache_card_content_def close_pending_def append_log_def card_update_def
    with_tokens_def assign_reply_def change_reaction_def action_card_def Let_def live_def
    intro!: shrinks_refl shrinks_update split: option.splits sum.splits prod.splits list.splits)

lemma try_claim_shrinks: "enroll_shrinks (db_enrollments db) (db_enrollments (fst (try_claim re a db eid)))"
proof (cases a)
  case (Inl now)
  then show ?thesis by (simp add: claim_shrinks)
next
  case (Inr x)
  show ?thesis
  proof (cases "\<exists>a b c. x = CreateEnrollment a b c")
    case True
    then show ?thesis using Inr by (auto simp: shrinks_refl)
  next
    case False
    then have "fst (try_claim re a db eid) = relay_exec re x db" using Inr by (cases x) auto
    then show ?thesis using other_shrinks False by metis
  qed
qed

lemma claim_won:
  assumes "enroll_inv db" "snd (claim_enrollment re now eid db) = Inr (Claimed a b c)"
  shows "claim_open re db eid \<and> \<not> claim_open re (fst (claim_enrollment re now eid db)) eid"
proof -
  let ?h = "re_sha re eid"
  obtain e where e: "fetchone (filter (\<lambda>e. en_enroll_hash e = ?h) (db_enrollments db)) = Some e"
    using assms(2) by (auto simp: claim_enrollment_def Let_def split: option.splits)
  have st: "en_status e = ECompleted" and db: "db_enrollments (fst (claim_enrollment re now eid db))
      = sql_update (\<lambda>e. en_enroll_hash e = ?h \<and> en_status e = ECompleted)
          (\<lambda>e. e\<lparr>en_status := EClaimed, en_token_payload := None, en_updated_at := now\<rparr>) (db_enrollments db)"
    using assms(2) e by (auto simp: claim_enrollment_def Let_def split: if_splits sum.splits prod.splits)
  have mem: "e \<in> set (db_enrollments db)" "en_enroll_hash e = ?h" using fetchone_Some_mem [OF e] by auto
  have uniq: "q = e" if "q \<in> set (db_enrollments db)" "en_enroll_hash q = ?h" for q
    using assms(1) mem that by (auto simp: enroll_inv_def distinct_map inj_on_def)
  have "claim_open re db eid" using mem st by (auto simp: claim_open_def live_def)
  moreover have "\<not> claim_open re (fst (claim_enrollment re now eid db)) eid"
  proof
    assume "claim_open re (fst (claim_enrollment re now eid db)) eid"
    then obtain q where q: "q \<in> set (db_enrollments (fst (claim_enrollment re now eid db)))" "en_enroll_hash q = ?h" "live (en_status q)"
      by (auto simp: claim_open_def)
    obtain p where p: "p \<in> set (db_enrollments db)" "q = (if en_enroll_hash p = ?h \<and> en_status p = ECompleted
        then p\<lparr>en_status := EClaimed, en_token_payload := None, en_updated_at := now\<rparr> else p)"
      using q(1) unfolding db by (blast dest: mem_sql_update)
    then have "en_enroll_hash p = ?h" using q(2) by (auto split: if_splits)
    with uniq p st q(3) show False by (auto simp: live_def)
  qed
  ultimately show ?thesis by blast
qed

interpretation claim_cas: cas_op enroll_inv "claim_open re" "try_claim re" for re
proof
  fix db a eid assume inv: "enroll_inv db"
  show "enroll_inv (fst (try_claim re a db eid))" by (rule shrinks_keep(1) [OF try_claim_shrinks inv])
  show "\<not> claim_open re (fst (try_claim re a db eid)) k" if "\<not> claim_open re db k" for k
    by (rule shrinks_keep(2) [OF try_claim_shrinks that])
  assume win: "snd (try_claim re a db eid)"
  then obtain now x y z where a: "a = Inl now" "snd (claim_enrollment re now eid db) = Inr (Claimed x y z)"
    by (cases a) (auto split: sum.splits claim_view.splits)
  show "claim_open re db eid" "\<not> claim_open re (fst (try_claim re a db eid)) eid"
    using claim_won [OF inv a(2)] by (simp_all add: a(1))
qed

section \<open>Tokens\<close>

definition token_id_of :: "string \<Rightarrow> string" where
  "token_id_of token = takeWhile (\<lambda>c. c \<noteq> CHR ''.'') (drop (length TOKEN_PREFIX) token)"

lemma authenticate_inactive:
  assumes "relay_inv db" "tbl_get tk_token_id (db_tokens db) (token_id_of token) = Some t" "tk_status t = TRevoked"
  shows "authenticate re now token db = (db, Inr None)"
proof -
  have "filter (\<lambda>t. tk_token_id t = token_id_of token \<and> tk_status t = TActive) (db_tokens db) = []"
    using filter_key_distinct [OF _ assms(2), of "\<lambda>t. tk_status t = TActive"] assms(1,3) by (simp add: relay_inv_def)
  then show ?thesis by (simp add: authenticate_def token_id_of_def Let_def)
qed

interpretation revoked_token: row_update tk_token_id "\<lambda>t. t\<lparr>tk_status := TRevoked, tk_revoked_at := Some now\<rparr>"
  by unfold_locales simp

lemma revoke_token_get:
  assumes "relay_inv db" "tbl_get tk_token_id (db_tokens db) tid = Some t"
  shows "\<exists>u. tbl_get tk_token_id (db_tokens (fst (revoke_token now tid db))) tid = Some u \<and> tk_status u = TRevoked"
proof -
  have "tk_token_id t = tid" using tbl_get_mem [OF assms(2)] by simp
  then show ?thesis
    using assms by (cases "tk_status t") (simp_all add: revoke_token_def Let_def relay_inv_def revoked_token.get_upd)
qed


section \<open>Idempotency\<close>

lemma idem_row_get: "idem_row db tid key = tbl_get idem_key (db_idem db) (tid, key)"
  by (simp add: idem_row_def tbl_get_def idem_key_def)

lemma idem_row_run: "idem_row db tid key = Some i \<Longrightarrow> idem_row (relay_run re ops db) tid key = Some i"
  using idems.get_grows [of "db_idem db" "db_idem (relay_run re ops db)" "(tid, key)" i] run_evolves [of db re ops]
  by (auto simp: idem_row_get evolves_def)

lemma message_row_run:
  "message_row db rid = Some m \<Longrightarrow> \<exists>m'. message_row (relay_run re ops db) rid = Some m' \<and> message_evolves m m'"
  using messages.get_grows run_evolves [of db re ops] unfolding message_row_def evolves_def by blast

lemma card_row_run: "card_row db cid = Some c \<Longrightarrow> \<exists>c'. card_row (relay_run re ops db) cid = Some c' \<and> card_evolves c c'"
  using cards.get_grows run_evolves [of db re ops] unfolding card_row_def evolves_def by blast

lemma idem_row_add: "idem_row db tid key = None \<Longrightarrow> idem_row (add_idem now tid key h k rid db) tid key
    = Some \<lparr>i_token_id = tid, i_idempotency_key = key, i_request_hash = h, i_kind = k, i_resource_id = rid, i_created_at = now\<rparr>"
  by (simp add: idem_row_get add_idem_def tbl_get_append tbl_get_Cons idem_key_def)

lemma reserve_message_new:
  assumes "reserve_message now rid tid key h ex ty db = (db', Inr (m, True))"
  shows "\<exists>i. idem_row db' tid key = Some i \<and> i_request_hash i = h \<and> i_kind i = ''message'' \<and> i_resource_id i = rid
    \<and> message_row db' rid = Some m"
proof -
  have none: "idem_row db tid key = None"
    using assms by (auto simp: reserve_message_def split: option.splits if_splits)
  have "idem_row (db\<lparr>db_messages := x\<rparr>) tid key = idem_row db tid key" for db :: relay_db and x by (simp add: idem_row_def)
  then show ?thesis
    using assms none idem_row_add [OF none, of now h "''message''" rid]
    by (auto simp: reserve_message_def Let_def split: option.splits if_splits)
qed

lemma reserve_card_new:
  assumes "reserve_card re now cid nonce n tid key h acts ex db = (db', Inr (c, x, True))"
  shows "\<exists>i. idem_row db' tid key = Some i \<and> i_request_hash i = h \<and> i_kind i = ''card'' \<and> i_resource_id i = cid
    \<and> card_row db' cid = Some c \<and> k_nonce_payload c = re_seal re n [(''nonce'', JStr nonce)] \<and> x = nonce \<and> k_card_id c = cid"
proof -
  have none: "idem_row db tid key = None"
    using assms by (auto simp: reserve_card_def split: option.splits if_splits sum.splits)
  let ?c = "new_card now cid tid key h (re_sha re nonce) (re_seal re n [(''nonce'', JStr nonce)]) acts ex"
  let ?db = "add_idem now tid key h ''card'' cid db"
  have no: "\<not> card_clash ?db ?c" and res: "db' = ?db\<lparr>db_cards := db_cards ?db @ [?c]\<rparr>" "c = ?c" "x = nonce"
    using assms none by (auto simp: reserve_card_def Let_def split: if_splits)
  have "card_row ?db cid = None" using no by (auto simp: card_clash_def card_row_def list_ex_iff tbl_get_None new_card_def)
  then have "card_row db' cid = Some ?c" by (simp add: res card_row_def tbl_get_append tbl_get_Cons new_card_def)
  moreover have "idem_row db' tid key = idem_row ?db tid key" by (simp add: res idem_row_def)
  ultimately show ?thesis using idem_row_add [OF none, of now h "''card''" cid] res by (simp add: new_card_def)
qed

text \<open>Idempotency keys: after a message has been reserved under a key, and whatever operations
  follow, the same request is answered with that message and changes nothing, while another
  request under the key, or a card, is refused with a conflict. The same holds for a card, which
  is answered together with its original nonce.\<close>

lemma relay_reservation_idempotent:
  assumes "re = vault_relay sha scrypt pm k" "prims_ok pm [(''nonce'', JStr nonce)]" "length n = 16"
  shows "(\<forall>db' m. reserve_message now rid tid key h ex ty db = (db', Inr (m, True)) \<longrightarrow>
      (\<exists>m'. m_resource_id m' = m_resource_id m \<and> reserve_message now' rid' tid key h ex' ty' (relay_run re ops db')
          = (relay_run re ops db', Inr (m', False)))
      \<and> (\<forall>h'. h' \<noteq> h \<longrightarrow> reserve_message now' rid' tid key h' ex' ty' (relay_run re ops db') = (relay_run re ops db', Inl RelayConflict))
      \<and> reserve_card re now' cid' nonce' n' tid key h'' acts' cex' (relay_run re ops db') = (relay_run re ops db', Inl RelayConflict))
    \<and> (\<forall>db' c x. reserve_card re now cid nonce n tid key h acts cex db = (db', Inr (c, x, True)) \<longrightarrow>
      (\<exists>c'. k_card_id c' = k_card_id c \<and> reserve_card re now' cid' nonce' n' tid key h acts' cex' (relay_run re ops db')
          = (relay_run re ops db', Inr (c', nonce, False)))
      \<and> (\<forall>h'. h' \<noteq> h \<longrightarrow> reserve_card re now' cid' nonce' n' tid key h' acts' cex' (relay_run re ops db')
          = (relay_run re ops db', Inl RelayConflict))
      \<and> reserve_message now' rid' tid key h'' ex' ty' (relay_run re ops db') = (relay_run re ops db', Inl RelayConflict))"
proof (intro conjI allI impI, goal_cases)
  case (1 db' m)
  obtain i where i: "idem_row (relay_run re ops db') tid key = Some i" "i_request_hash i = h" "i_kind i = ''message''"
    "i_resource_id i = rid" "message_row db' rid = Some m" using reserve_message_new [OF 1] idem_row_run by blast
  then show ?case using message_row_run [OF i(5), of re ops] by (auto simp: reserve_message_def message_evolves_def)
next
  case (2 db' m h')
  then show ?case using reserve_message_new [OF 2(1)] idem_row_run by (fastforce simp: reserve_message_def)
next
  case (3 db' m)
  then show ?case using reserve_message_new [OF 3] idem_row_run by (fastforce simp: reserve_card_def)
next
  case (4 db' c x)
  obtain i where i: "idem_row (relay_run re ops db') tid key = Some i" "i_request_hash i = h" "i_kind i = ''card''"
    "i_resource_id i = cid" "card_row db' cid = Some c" "k_nonce_payload c = re_seal re n [(''nonce'', JStr nonce)]"
    "k_card_id c = cid" using reserve_card_new [OF 4] idem_row_run by blast
  then show ?case using card_row_run [OF i(5), of re ops] vault_relay_codec [OF assms(2,3)] assms(1) by (auto simp: reserve_card_def card_evolves_def payload_get_def)
next
  case (5 db' c x h')
  then show ?case using reserve_card_new [OF 5(1)] idem_row_run by (fastforce simp: reserve_card_def)
next
  case (6 db' c x)
  then show ?case using reserve_card_new [OF 6] idem_row_run by (fastforce simp: reserve_message_def)
qed

section \<open>Cards\<close>

datatype card_try =
    TryAction relay_db int string string string string
  | TryClose int string string
  | TryOther relay_op

text \<open>A click, a close, or any other operation, on the card \<open>cid\<close>.\<close>

fun try_card :: "relay_env \<Rightarrow> card_try \<Rightarrow> relay_db \<Rightarrow> string \<Rightarrow> relay_db \<times> bool" where
  "try_card re (TryAction seen now actor nonce mid act) db cid =
     (relay_exec re (ActionCard seen now actor cid nonce mid act) db,
      snd (action_card re (\<lambda>_. db) now actor cid nonce mid act seen) = Inr True)"
| "try_card re (TryClose now tid reason) db cid =
     (relay_exec re (CloseCard now tid cid reason) db, snd (snd (close_card (\<lambda>d. d) (\<lambda>_. now) tid cid reason db)))"
| "try_card re (TryOther x) db cid = (relay_exec re x db, False)"

definition undecided :: "relay_db \<Rightarrow> string \<Rightarrow> bool" where
  "undecided db cid \<longleftrightarrow> (\<forall>c. card_row db cid = Some c \<longrightarrow> \<not> terminal (k_status c))"

lemma try_card_evolves: "evolves db (fst (try_card re a db cid))"
  by (cases a) (simp_all only: try_card.simps fst_conv exec_evolves)

interpretation pending_card: row_update k_card_id "\<lambda>c. c\<lparr>k_status := CActioned, k_action_id := a, k_updated_at := now\<rparr>"
  by unfold_locales simp

interpretation closed_card: row_update k_card_id "\<lambda>c. c\<lparr>k_status := CClosed, k_close_reason := r, k_updated_at := now\<rparr>"
  by unfold_locales simp

lemma matching_tokens_sound:
  "matching_tokens re actor ts = Inr ids \<Longrightarrow> i \<in> set ids \<Longrightarrow>
     \<exists>t \<in> set ts. tk_token_id t = i \<and> (\<exists>p a. re_open re (tk_actor_payload t) = Inr p \<and> map_of p ''actor_id'' = Some a \<and> py_str a = actor)"
proof (induction ts arbitrary: ids)
  case (Cons t ts)
  then show ?case by (fastforce simp: payload_get_def split: sum.splits option.splits if_splits)
qed simp

lemma actor_token:
  assumes "token_ids_for_actor re db actor = Inr ids" "i \<in> set ids"
  shows "\<exists>t \<in> set (db_tokens db). tk_token_id t = i \<and> tk_status t = TActive
    \<and> (\<exists>p a. re_open re (tk_actor_payload t) = Inr p \<and> map_of p ''actor_id'' = Some a \<and> py_str a = actor)"
  using assms matching_tokens_sound [of re actor "filter (\<lambda>t. tk_status t = TActive) (db_tokens db)" ids i]
  by (auto simp: token_ids_for_actor_def split: if_splits)

lemma action_won:
  assumes "snd (action_card re env now actor cid nonce mid act db0) = Inr True" "relay_inv (env db0)"
  shows "\<exists>ids c. token_ids_for_actor re db0 actor = Inr ids \<and> ids \<noteq> [] \<and> card_row (env db0) cid = Some c \<and> k_token_id c \<in> set ids
    \<and> k_status c = CPending \<and> now < k_expires_at c \<and> k_nonce_hash c = re_sha re nonce \<and> str_none (k_message_id c) = mid
    \<and> act \<in> set (k_action_ids c)
    \<and> card_row (fst (action_card re env now actor cid nonce mid act db0)) cid
        = Some (c\<lparr>k_status := CActioned, k_action_id := Some act, k_updated_at := now\<rparr>)"
proof -
  obtain i ids where ids: "token_ids_for_actor re db0 actor = Inr (i # ids)"
    using assms(1) by (auto simp: action_card_def split: sum.splits list.splits)
  obtain c where c: "actor_card (env db0) (i # ids) cid = Some c"
    using assms(1) ids by (auto simp: action_card_def Let_def split: option.splits)
  have ok: "k_status c = CPending" "now < k_expires_at c" "k_nonce_hash c = re_sha re nonce" "str_none (k_message_id c) = mid"
    "act \<in> set (k_action_ids c)"
    using assms(1) ids c by (auto simp: action_card_def Let_def split: if_splits)
  have mem: "c \<in> set (db_cards (env db0))" "k_card_id c = cid" "k_token_id c \<in> set (i # ids)"
    using fetchone_Some_mem [OF c [unfolded actor_card_def]] by auto
  have row: "card_row (env db0) cid = Some c"
    using tbl_get_distinct [of k_card_id "db_cards (env db0)" c] assms(2) mem by (simp add: card_row_def relay_inv_def)
  have "card_row (fst (action_card re env now actor cid nonce mid act db0)) cid
      = Some (c\<lparr>k_status := CActioned, k_action_id := Some act, k_updated_at := now\<rparr>)"
    using ids c ok row mem(2) assms(2)
    by (simp add: action_card_def Let_def card_update_def card_row_def relay_inv_def pending_card.get_upd)
  with ids ok row mem show ?thesis by (metis list.distinct(1))
qed

lemma close_won:
  assumes "snd (snd (close_card env clk tid cid reason db))" "relay_inv db"
  shows "\<exists>c. card_row db cid = Some c \<and> k_status c = CPending
    \<and> card_row (close_pending (clk 0) tid cid reason db) cid
        = Some (c\<lparr>k_status := CClosed, k_close_reason := Some reason, k_updated_at := clk 0\<rparr>)"
proof -
  let ?P = "\<lambda>c. k_card_id c = cid \<and> k_token_id c = tid \<and> k_status c = CPending \<and> k_expires_at c > clk 0"
  have "rowcount ?P (db_cards db) \<noteq> 0" using assms(1) by (auto simp: close_card_def Let_def)
  then obtain c where c: "c \<in> set (db_cards db)" "?P c" by (auto simp: rowcount_0_iff)
  have "card_row db cid = Some c"
    using tbl_get_distinct [of k_card_id "db_cards db" c] assms(2) c by (simp add: card_row_def relay_inv_def)
  with c assms(2) show ?thesis
    by (simp add: close_pending_def card_update_def card_row_def relay_inv_def closed_card.get_upd)
qed

interpretation card_cas: cas_op relay_inv undecided "try_card re" for re
proof
  fix db a cid assume inv: "relay_inv db"
  show "relay_inv (fst (try_card re a db cid))" by (cases a) (simp_all only: try_card.simps fst_conv exec_inv inv)
  show "\<not> undecided (fst (try_card re a db cid)) k" if "\<not> undecided db k" for k
    using that cards.get_grows [of "db_cards db" "db_cards (fst (try_card re a db cid))" k] try_card_evolves [of db re a cid]
    by (fastforce simp: undecided_def card_row_def evolves_def card_evolves_def)
  assume win: "snd (try_card re a db cid)"
  show "undecided db cid" using win action_won [of re "\<lambda>_. db"] close_won inv
    by (cases a) (fastforce simp: undecided_def terminal_def)+
  show "\<not> undecided (fst (try_card re a db cid)) cid"
  proof (cases a)
    case (TryAction seen now actor nonce mid act)
    then have w: "snd (action_card re (\<lambda>_. db) now actor cid nonce mid act seen) = Inr True" using win by simp
    then obtain ids c where "token_ids_for_actor re seen actor = Inr ids" "ids \<noteq> []"
      "card_row (fst (action_card re (\<lambda>_. db) now actor cid nonce mid act seen)) cid
        = Some (c\<lparr>k_status := CActioned, k_action_id := Some act, k_updated_at := now\<rparr>)"
      using action_won [OF w inv] by blast
    then show ?thesis using TryAction by (cases ids) (auto simp: with_tokens_def undecided_def terminal_def)
  next
    case (TryClose now tid reason)
    then have w: "snd (snd (close_card (\<lambda>d. d) (\<lambda>_. now) tid cid reason db))" using win by simp
    show ?thesis using close_won [OF w inv] TryClose by (auto simp: undecided_def terminal_def)
  next
    case (TryOther x)
    then show ?thesis using win by simp
  qed
qed

text \<open>C35. A card is decided at most once: in every interleaving of clicks, closings and any other
  operations, at most one click or closing of a card succeeds, and a card that is actioned,
  closed, expired or failed keeps that status, its action and its reason for good. A click succeeds only for an actor who
  holds an active token that sent the card, with the card's nonce and message, an offered
  action, and before the card expires.\<close>

theorem relay_card_decided_once:
  assumes "relay_inv db"
  shows "distinct (cas_attempts (try_card re) xs db)
    \<and> (\<forall>cid c ops. card_row db cid = Some c \<and> terminal (k_status c) \<longrightarrow>
         (\<exists>c'. card_row (relay_run re ops db) cid = Some c' \<and> k_status c' = k_status c \<and> k_action_id c' = k_action_id c
            \<and> k_close_reason c' = k_close_reason c))
    \<and> (\<forall>seen now actor cid nonce mid act. snd (action_card re (\<lambda>_. db) now actor cid nonce mid act seen) = Inr True \<longrightarrow>
         (\<exists>c t p a. card_row db cid = Some c \<and> t \<in> set (db_tokens seen) \<and> tk_token_id t = k_token_id c \<and> tk_status t = TActive
            \<and> re_open re (tk_actor_payload t) = Inr p \<and> map_of p ''actor_id'' = Some a \<and> py_str a = actor
            \<and> k_status c = CPending \<and> now < k_expires_at c \<and> k_nonce_hash c = re_sha re nonce
            \<and> str_none (k_message_id c) = mid \<and> act \<in> set (k_action_ids c)))"
proof (intro conjI allI impI, goal_cases)
  case 1
  show ?case by (rule card_cas.one_winner [OF assms])
next
  case (2 cid c ops)
  then obtain c' where "card_row (relay_run re ops db) cid = Some c'" "card_evolves c c'"
    using card_row_run [of db cid c re ops] by blast
  with 2 show ?case by (auto simp: card_evolves_def)
next
  case (3 seen now actor cid nonce mid act)
  obtain ids c where c: "token_ids_for_actor re seen actor = Inr ids" "card_row db cid = Some c" "k_token_id c \<in> set ids"
    "k_status c = CPending" "now < k_expires_at c" "k_nonce_hash c = re_sha re nonce" "str_none (k_message_id c) = mid"
    "act \<in> set (k_action_ids c)"
    using action_won [OF 3 assms] by blast
  with actor_token [OF c(1,3)] show ?case by blast
qed

section \<open>Enrollment round trip\<close>

lemma token_id_of_token:
  assumes "CHR ''.'' \<notin> set tid"
  shows "token_id_of (TOKEN_PREFIX @ tid @ CHR ''.'' # rand) = tid"
proof -
  have "takeWhile (\<lambda>c. c \<noteq> CHR ''.'') (tid @ CHR ''.'' # rand) = tid"
    using assms by (induction tid) auto
  then show ?thesis by (simp add: token_id_of_def)
qed

lemma unique_by_key: "distinct (map f t) \<Longrightarrow> x \<in> set t \<Longrightarrow> fetchone (filter (\<lambda>y. f y = f x) t) = Some x"
  using tbl_get_distinct [of f t x] by (simp add: tbl_get_def)

definition handed_token :: "string \<Rightarrow> string \<Rightarrow> string" where
  "handed_token tid rand = TOKEN_PREFIX @ tid @ CHR ''.'' # rand"

lemma complete_effect:
  assumes "startswith actor ''ou_''" "name \<noteq> []" "e \<in> set (db_enrollments db)" "distinct (map en_state_hash (db_enrollments db))"
    and "en_state_hash e = re_sha re st" "en_status e = EAuthorizing" "now < en_expires_at e"
    and "tbl_get tk_token_id (db_tokens db) tid = None"
  shows "\<exists>db1 t. complete_enrollment re now tid rand n1 n2 st actor name db = (db1, Inr True)
    \<and> db_enrollments db1 = sql_update (\<lambda>e. en_state_hash e = re_sha re st \<and> en_status e = EAuthorizing)
         (completed_row now (re_seal re n2 [(''token'', JStr (handed_token tid rand)), (''user_name'', JStr name)]) tid) (db_enrollments db)
    \<and> tbl_get tk_token_id (db_tokens db1) tid = Some t \<and> tk_token_id t = tid \<and> tk_status t = TActive
    \<and> tk_token_hash t = re_token_hash re (handed_token tid rand) tid
    \<and> tk_actor_payload t = re_seal re n1 [(''actor_id'', JStr actor), (''display_name'', JStr name)]"
proof -
  have row: "fetchone (filter (\<lambda>e. en_state_hash e = re_sha re st) (db_enrollments db)) = Some e"
    using unique_by_key [OF assms(4,3)] assms(5) by simp
  have fresh: "\<not> list_ex (\<lambda>t. tk_token_id t = tid) (db_tokens db)"
    using assms(8) by (auto simp: tbl_get_None list_ex_iff)
  show ?thesis
    using assms(1,2,6,7,8) row fresh
    by (simp add: complete_enrollment_def handed_token_def Let_def tbl_get_append tbl_get_Cons)
qed

lemma claim_effect:
  assumes "e \<in> set (db_enrollments db)" "enroll_inv db" "en_enroll_hash e = re_sha re eid" "en_status e = ECompleted"
    and "en_token_payload e = Some s" "re_open re s = Inr [(''token'', JStr tok), (''user_name'', JStr name)]"
  shows "\<exists>db2. claim_enrollment re now eid db = (db2, Inr (Claimed (JStr tok) (en_token_id e) (JStr name)))
    \<and> db_tokens db2 = db_tokens db \<and> snd (claim_enrollment re now' eid db2) = Inr (ClaimStatus EClaimed)"
proof -
  let ?f = "\<lambda>e. e\<lparr>en_status := EClaimed, en_token_payload := None, en_updated_at := now\<rparr>"
  let ?P = "\<lambda>e. en_enroll_hash e = re_sha re eid \<and> en_status e = ECompleted"
  let ?db = "db\<lparr>db_enrollments := sql_update ?P ?f (db_enrollments db)\<rparr>"
  have row: "fetchone (filter (\<lambda>e. en_enroll_hash e = re_sha re eid) (db_enrollments db)) = Some e"
    using unique_by_key [OF assms(2) [unfolded enroll_inv_def] assms(1)] assms(3) by simp
  have "?f e \<in> set (db_enrollments ?db)" using assms(1,3,4) by (force simp: set_sql_update)
  moreover have "distinct (map en_enroll_hash (db_enrollments ?db))"
    using assms(2) by (simp add: enroll_inv_def map_sql_update)
  ultimately have row': "fetchone (filter (\<lambda>e. en_enroll_hash e = re_sha re eid) (db_enrollments ?db)) = Some (?f e)"
    using unique_by_key [of en_enroll_hash "db_enrollments ?db" "?f e"] assms(3) by simp
  have "claim_enrollment re now eid db = (?db, Inr (Claimed (JStr tok) (en_token_id e) (JStr name)))"
    using row assms(4,5,6) by (simp add: claim_enrollment_def Let_def str_none_def payload_get_def)
  moreover have "snd (claim_enrollment re now' eid ?db) = Inr (ClaimStatus EClaimed)"
    using row' by (simp add: claim_enrollment_def Let_def)
  ultimately show ?thesis by simp
qed

lemma authenticate_effect:
  assumes "relay_inv db" "tbl_get tk_token_id (db_tokens db) tid = Some t" "tk_status t = TActive" "CHR ''.'' \<notin> set tid"
    and "tk_token_hash t = re_token_hash re (handed_token tid rand) tid"
    and "re_open re (tk_actor_payload t) = Inr [(''actor_id'', JStr actor), (''display_name'', JStr name)]"
  shows "\<exists>db' v. authenticate re now (handed_token tid rand) db = (db', Inr (Some v)) \<and> av_token_id v = tid
    \<and> av_actor_id v = JStr actor \<and> av_user_name v = JStr name"
proof -
  have "fetchone (filter (\<lambda>t. tk_token_id t = tid \<and> tk_status t = TActive) (db_tokens db)) = Some t"
    using filter_key_distinct [OF _ assms(2), of "\<lambda>t. tk_status t = TActive"] assms(1,3) by (simp add: relay_inv_def)
  then show ?thesis
    using assms(5,6) token_id_of_token [OF assms(4), of rand]
    by (simp add: authenticate_def handed_token_def token_id_of_def payload_get_def Let_def)
qed

text \<open>Enrollment round trip: completing an authorised enrollment for an actor issues a token;
  the enrollment's owner then claims exactly that token, once; and the token authenticates as
  that actor.\<close>

lemma relay_enrollment_roundtrip:
  assumes "re = vault_relay sha scrypt pm key" "length n1 = 16" "length n2 = 16"
    and "prims_ok pm [(''actor_id'', JStr actor), (''display_name'', JStr name)]"
    and "prims_ok pm [(''token'', JStr (handed_token tid rand)), (''user_name'', JStr name)]"
    and "startswith actor ''ou_''" "name \<noteq> []" "CHR ''.'' \<notin> set tid" "tbl_get tk_token_id (db_tokens db) tid = None"
    and "relay_inv db" "enroll_inv db" "distinct (map en_state_hash (db_enrollments db))" "e \<in> set (db_enrollments db)"
    and "en_state_hash e = re_sha re st" "en_enroll_hash e = re_sha re eid" "en_status e = EAuthorizing" "now < en_expires_at e"
  shows "\<exists>db1 db2. complete_enrollment re now tid rand n1 n2 st actor name db = (db1, Inr True)
    \<and> claim_enrollment re now1 eid db1 = (db2, Inr (Claimed (JStr (handed_token tid rand)) (Some tid) (JStr name)))
    \<and> snd (claim_enrollment re now2 eid db2) = Inr (ClaimStatus EClaimed)
    \<and> (\<exists>db3 v. authenticate re now3 (handed_token tid rand) db2 = (db3, Inr (Some v)) \<and> av_token_id v = tid
         \<and> av_actor_id v = JStr actor \<and> av_user_name v = JStr name)"
proof -
  let ?row = "completed_row now (re_seal re n2 [(''token'', JStr (handed_token tid rand)), (''user_name'', JStr name)]) tid"
  obtain db1 t where db1: "complete_enrollment re now tid rand n1 n2 st actor name db = (db1, Inr True)"
    "db_enrollments db1 = sql_update (\<lambda>e. en_state_hash e = re_sha re st \<and> en_status e = EAuthorizing) ?row (db_enrollments db)"
    and t: "tbl_get tk_token_id (db_tokens db1) tid = Some t" "tk_status t = TActive"
    "tk_token_hash t = re_token_hash re (handed_token tid rand) tid"
    "tk_actor_payload t = re_seal re n1 [(''actor_id'', JStr actor), (''display_name'', JStr name)]"
    using complete_effect [OF assms(6,7,13,12,14,16,17,9)] by blast
  have inv: "relay_inv db1" using inv_enrollment(5) [OF assms(10)] db1(1) by (metis fst_conv)
  have mem: "?row e \<in> set (db_enrollments db1)" using assms(13,14,16) unfolding db1(2) by (force simp: set_sql_update)
  have einv: "enroll_inv db1" using assms(11) by (simp add: enroll_inv_def db1(2) map_sql_update completed_row_def)
  have row: "en_enroll_hash (?row e) = re_sha re eid" "en_status (?row e) = ECompleted" "en_token_id (?row e) = Some tid"
    "en_token_payload (?row e) = Some (re_seal re n2 [(''token'', JStr (handed_token tid rand)), (''user_name'', JStr name)])"
    using assms(15) by (simp_all add: completed_row_def)
  have opened: "re_open re (re_seal re n2 [(''token'', JStr (handed_token tid rand)), (''user_name'', JStr name)])
      = Inr [(''token'', JStr (handed_token tid rand)), (''user_name'', JStr name)]"
    unfolding assms(1) by (rule vault_relay_codec [OF assms(5,3)])
  obtain db2 where db2: "claim_enrollment re now1 eid db1 = (db2, Inr (Claimed (JStr (handed_token tid rand)) (Some tid) (JStr name)))"
    "db_tokens db2 = db_tokens db1" "snd (claim_enrollment re now2 eid db2) = Inr (ClaimStatus EClaimed)"
    using claim_effect [OF mem einv row(1,2,4) opened, of now1 now2] unfolding row(3) by blast
  have "relay_inv db2" using inv_enrollment(4) [OF inv] db2(1) by (metis fst_conv)
  then have "\<exists>db3 v. authenticate re now3 (handed_token tid rand) db2 = (db3, Inr (Some v)) \<and> av_token_id v = tid
      \<and> av_actor_id v = JStr actor \<and> av_user_name v = JStr name"
    using authenticate_effect [OF _ _ t(2) assms(8) t(3)] t(1,4) db2(2) vault_relay_codec [OF assms(4,2)] assms(1) by simp
  with db1(1) db2 show ?thesis by blast
qed

section \<open>Replies\<close>

lemma replies_elsewhere:
  assumes "db_replies db' = db_replies db @ [r]" "db_messages db' = db_messages db" "(t, m) \<noteq> (rp_token_id r, rp_message_id r)"
  shows "message_replies re db' t m since lim = message_replies re db t m since lim"
  using assms by (auto simp: message_replies_def owned_sent_message_def split: option.split)

text \<open>A reply is filed under a message only if the actor's active tokens have exactly one open
  window for it; with a parent message id that window is the one of that message. It is then
  stored once per event, sealed, under the token and message of that window, and readable by
  opening it; no other message's replies change. With no window, or several, nothing is stored,
  and several windows without a parent are reported as ambiguous.\<close>

lemma relay_reply_routed:
  assumes "re = vault_relay sha scrypt pm key" "prims_ok pm [(''text'', JStr txt)]" "length n = 16"
    and "token_ids_for_actor re db0 actor = Inr ids" "ids \<noteq> []"
    and "assign_reply re env now n ev actor txt ct parent db0 = (db', res)"
  shows "case reply_windows now ids parent (env db0) of
      [m] \<Rightarrow> res = Inr (True, False) \<and> m_token_id m \<in> set ids \<and> open_window now m
         \<and> (str_or_empty parent \<noteq> [] \<longrightarrow> m_message_id m = parent)
         \<and> (if list_ex (\<lambda>r. rp_event_id r = ev) (db_replies (env db0)) then db' = env db0
            else \<exists>r. db_replies db' = db_replies (env db0) @ [r] \<and> rp_event_id r = ev \<and> rp_token_id r = m_token_id m
                   \<and> rp_message_id r = str_or_empty (m_message_id m) \<and> re_open re (rp_content_payload r) = Inr [(''text'', JStr txt)])
         \<and> (\<forall>t i since lim. (t, i) \<noteq> (m_token_id m, str_or_empty (m_message_id m)) \<longrightarrow>
              message_replies re db' t i since lim = message_replies re (env db0) t i since lim)
    | ws \<Rightarrow> db' = env db0 \<and> res = Inr (False, str_or_empty parent = [] \<and> length ws > 1)"
proof (cases "\<exists>m. reply_windows now ids parent (env db0) = [m]")
  case True
  then obtain m where m: "reply_windows now ids parent (env db0) = [m]" by blast
  then have "m \<in> set (reply_windows now ids parent (env db0))" by simp
  then have w: "m_token_id m \<in> set ids" "open_window now m" "str_or_empty parent \<noteq> [] \<longrightarrow> m_message_id m = parent"
    by (auto simp: reply_windows_def)
  let ?r = "\<lparr>rp_event_id = ev, rp_token_id = m_token_id m, rp_message_id = str_or_empty (m_message_id m),
    rp_content_payload = re_seal re n [(''text'', JStr txt)], rp_create_time = ct, rp_created_at = now, rp_purged_at = None\<rparr>"
  have eq: "db' = (if list_ex (\<lambda>r. rp_event_id r = ev) (db_replies (env db0)) then env db0
      else (env db0)\<lparr>db_replies := db_replies (env db0) @ [?r]\<rparr>)" "res = Inr (True, False)"
    using assms(4-6) m by (cases ids; simp add: assign_reply_def Let_def)+
  have opened: "re_open re (re_seal re n [(''text'', JStr txt)]) = Inr [(''text'', JStr txt)]"
    unfolding assms(1) by (rule vault_relay_codec [OF assms(2,3)])
  have "message_replies re db' t i since lim = message_replies re (env db0) t i since lim"
    if "(t, i) \<noteq> (m_token_id m, str_or_empty (m_message_id m))" for t i since lim
    using replies_elsewhere [of "(env db0)\<lparr>db_replies := db_replies (env db0) @ [?r]\<rparr>" "env db0" ?r t i] that by (simp add: eq)
  then show ?thesis using m w eq opened by simp
next
  case False
  then show ?thesis
    using assms(4-6) by (cases ids; cases "reply_windows now ids parent (env db0)" rule: remdups_adj.cases)
      (auto simp: assign_reply_def Let_def)
qed

section \<open>A concrete store\<close>

text \<open>Primitives whose JSON writes the position of a payload in a list.\<close>

fun payload_index :: "payload \<Rightarrow> payload list \<Rightarrow> byte" where
  "payload_index p [] = 0"
| "payload_index p (q # qs) = (if p = q then 1 else 1 + payload_index p qs)"

definition list_prims :: "payload list \<Rightarrow> prims" where
  "list_prims ps = \<lparr>pm_mac = (\<lambda>k m. replicate 32 (foldl (\<lambda>a b. 3 * a + b) 7 (k @ m))),
     pm_dumps = (\<lambda>p. [payload_index p ps]),
     pm_loads = (\<lambda>bs. find (\<lambda>p. [payload_index p ps] = bs) ps), pm_scope_hash = (\<lambda>s. s)\<rparr>"

definition demo_payloads :: "payload list" where
  "demo_payloads = [[(''actor_id'', JStr ''ou_a''), (''display_name'', JStr ''Ann'')],
     [(''token'', JStr (handed_token ''tk_1'' ''s'')), (''user_name'', JStr ''Ann'')], [(''nonce'', JStr ''n'')], [(''text'', JStr ''hi'')]]"

definition demo_relay :: relay_env where
  "demo_relay = vault_relay (\<lambda>s. s) (\<lambda>t i. t @ i) (list_prims demo_payloads) [9]"

lemma demo_payloads_ok: "p \<in> set demo_payloads \<Longrightarrow> prims_ok (list_prims demo_payloads) p"
  by (auto simp: prims_ok_def list_prims_def demo_payloads_def)

lemma demo_codec:
  assumes "p \<in> set demo_payloads" "length n = 16"
  shows "re_open demo_relay (re_seal demo_relay n p) = Inr p"
  unfolding demo_relay_def by (rule vault_relay_codec [OF demo_payloads_ok [OF assms(1)] assms(2)])

lemma demo_sha [simp]: "re_sha demo_relay s = s"
  by (simp add: demo_relay_def vault_relay_def)

abbreviation empty_relay :: relay_db where
  "empty_relay \<equiv> \<lparr>db_enrollments = [], db_tokens = [], db_messages = [], db_idem = [], db_replies = [], db_reactions = [],
     db_cards = [], db_logs = [], db_next_log = 1\<rparr>"

definition demo_token :: relay_token where
  "demo_token = \<lparr>tk_token_id = ''tk_1'', tk_token_hash = ''h'',
     tk_actor_payload = re_seal demo_relay (replicate 16 1) [(''actor_id'', JStr ''ou_a''), (''display_name'', JStr ''Ann'')],
     tk_actor_fingerprint = ''ou_a'', tk_status = TActive, tk_issued_at = 0, tk_last_used_at = None, tk_revoked_at = None\<rparr>"

definition demo_enrollment :: enrollment where
  "demo_enrollment = \<lparr>en_enroll_hash = ''en_1'', en_state_hash = ''st'', en_status = EAuthorizing, en_token_payload = None,
     en_token_id = None, en_user_name = None, en_expires_at = 600, en_created_at = 0, en_updated_at = 0\<rparr>"

definition demo_card :: relay_card where
  "demo_card = (new_card 0 ''c1'' ''tk_1'' ''k'' ''h'' ''n'' ''p'' [''ok''] 100)\<lparr>k_status := CClosed\<rparr>"

definition demo_message :: relay_message where
  "demo_message = new_message 0 ''r1'' ''tk_1'' ''k'' ''h'' ''message'' MSent (Some ''om_1'') (Some 100)"


theorem relay_card_decided_once_witness:
  "\<exists>c'. card_row (relay_run demo_relay [ActionCard empty_relay 1 ''ou_a'' ''c1'' ''n'' ''om'' ''ok''] (empty_relay\<lparr>db_cards := [demo_card]\<rparr>)) ''c1'' = Some c'
     \<and> k_status c' = CClosed"
proof -
  have "relay_inv (empty_relay\<lparr>db_cards := [demo_card]\<rparr>)" by (simp add: relay_inv_def)
  moreover have "card_row (empty_relay\<lparr>db_cards := [demo_card]\<rparr>) ''c1'' = Some demo_card" "k_status demo_card = CClosed"
    by (simp_all add: card_row_def demo_card_def new_card_def tbl_get_Cons)
  ultimately show ?thesis
    using relay_card_decided_once [of "empty_relay\<lparr>db_cards := [demo_card]\<rparr>" demo_relay "[]"] by (fastforce simp: terminal_def)
qed

end
