(* ===== verification/Push_Scenes.thy ===== *)
theory Push_Scenes
  imports Complex_Main Push_Registry Session_Scope
begin

text \<open>
  The scene registry of the push-card loop (\<open>src/hermes_multitenancy/push_scenes.py\<close>): scenes as
  configuration, the strict parsers of the untrusted \<open>notify-card\<close> request, and the tolerant readers of
  what a registry row stores. JSON text, the decimal parser and the text of floats and containers
  are the fields of \<open>pylib\<close>; JSON values themselves are a datatype. Literals outside Latin-1 are
  written as their UTF-8 bytes.
\<close>

section \<open>JSON values and the Python library\<close>

datatype pyfloat = Finite rat | Infinite bool | NaN

datatype json =
    JNull
  | JBool bool
  | JInt int
  | JFloat pyfloat
  | JStr string
  | JArr "json list"
  | JObj "(string \<times> json) list"

text \<open>\<open>json.loads\<close> (None: it raises), \<open>json.dumps\<close>, \<open>str\<close> of a float, list or dict, \<open>float\<close> of a text
  (None: it raises), and whether the address in brackets of a URL is a valid one.\<close>

record pylib =
  loads :: "string \<Rightarrow> json option"
  dumps :: "json \<Rightarrow> string"
  repr :: "json \<Rightarrow> string"
  to_float :: "string \<Rightarrow> pyfloat option"
  ip_literal :: "string \<Rightarrow> bool"

text \<open>What \<open>json.loads(json.dumps(j))\<close> promises of one value.\<close>

definition json_ok :: "pylib \<Rightarrow> json \<Rightarrow> bool" where
  "json_ok L j \<longleftrightarrow> loads L (dumps L j) = Some j \<and> dumps L j \<noteq> []"

definition truthy :: "json \<Rightarrow> bool" where
  "truthy j = (case j of
       JNull \<Rightarrow> False
     | JBool b \<Rightarrow> b
     | JInt i \<Rightarrow> i \<noteq> 0
     | JFloat f \<Rightarrow> f \<noteq> Finite 0
     | JStr s \<Rightarrow> s \<noteq> []
     | JArr xs \<Rightarrow> xs \<noteq> []
     | JObj d \<Rightarrow> d \<noteq> [])"

definition py_str :: "pylib \<Rightarrow> json \<Rightarrow> string" where
  "py_str L j = (case j of
       JNull \<Rightarrow> ''None''
     | JBool b \<Rightarrow> (if b then ''True'' else ''False'')
     | JInt i \<Rightarrow> int_str i
     | JStr s \<Rightarrow> s
     | _ \<Rightarrow> repr L j)"

text \<open>\<open>d.get(k)\<close>, \<open>str(d.get(k) or default)\<close>.\<close>

definition jget :: "(string \<times> json) list \<Rightarrow> string \<Rightarrow> json" where
  "jget d k = (case map_of d k of None \<Rightarrow> JNull | Some v \<Rightarrow> v)"

definition str_get_or :: "pylib \<Rightarrow> (string \<times> json) list \<Rightarrow> string \<Rightarrow> string \<Rightarrow> string" where
  "str_get_or L d k dflt = (if truthy (jget d k) then py_str L (jget d k) else dflt)"

text \<open>A nullable text column as a value.\<close>

definition column :: "string option \<Rightarrow> json" where
  "column c = (case c of None \<Rightarrow> JNull | Some s \<Rightarrow> JStr s)"

text \<open>\<open>s.replace(old, new)\<close> for a non-empty \<open>old\<close>, and \<open>sub in s\<close>.\<close>

fun py_replace :: "string \<Rightarrow> string \<Rightarrow> string \<Rightarrow> string" where
  "py_replace old new [] = []"
| "py_replace old new (c # cs) =
     (if old \<noteq> [] \<and> startswith (c # cs) old then new @ py_replace old new (drop (length old - 1) cs)
      else c # py_replace old new cs)"

fun occurs_in :: "string \<Rightarrow> string \<Rightarrow> bool" where
  "occurs_in sub [] = (sub = [])"
| "occurs_in sub (c # cs) = (startswith (c # cs) sub \<or> occurs_in sub cs)"

text \<open>\<open>int(x)\<close> of a finite float.\<close>

definition py_trunc :: "rat \<Rightarrow> int" where
  "py_trunc q = (if q < 0 then - \<lfloor>- q\<rfloor> else \<lfloor>q\<rfloor>)"

text \<open>The scheme and host name of \<open>urllib.parse.urlparse\<close>; None: it raises \<open>ValueError\<close>.\<close>

definition scheme_char :: "char \<Rightarrow> bool" where
  "scheme_char c \<longleftrightarrow> c \<in> set ''abcdefghijklmnopqrstuvwxyzABCDEFGHIJKLMNOPQRSTUVWXYZ0123456789+-.''"

definition ascii_alpha :: "char \<Rightarrow> bool" where
  "ascii_alpha c \<longleftrightarrow> c \<in> set ''abcdefghijklmnopqrstuvwxyzABCDEFGHIJKLMNOPQRSTUVWXYZ''"

definition split_scheme :: "string \<Rightarrow> string \<times> string" where
  "split_scheme url =
     (let pre = takeWhile (\<lambda>c. c \<noteq> CHR '':'') url
      in if CHR '':'' \<in> set url \<and> pre \<noteq> [] \<and> ascii_alpha (hd pre) \<and> list_all scheme_char pre
         then (lower pre, drop (length pre + 1) url) else ([], url))"

definition clean_url :: "string \<Rightarrow> string" where
  "clean_url url = filter (\<lambda>c. c \<notin> set [CHR 0x09, CHR 0x0D, CHR 0x0A]) (dropWhile (\<lambda>c. (of_char c :: nat) \<le> 32) url)"

definition netloc :: "string \<Rightarrow> string" where
  "netloc rest = (if startswith rest ''//'' then takeWhile (\<lambda>c. c \<notin> set ''/?#'') (drop 2 rest) else [])"

text \<open>The part after the last \<open>@\<close>.\<close>

definition host_info :: "string \<Rightarrow> string" where
  "host_info nl = rev (takeWhile (\<lambda>c. c \<noteq> CHR ''@'') (rev nl))"

definition host_name :: "string \<Rightarrow> string" where
  "host_name nl =
     (let hi = host_info nl;
          h = (if CHR ''['' \<in> set hi then fst (partition_at (CHR '']'') (snd (snd (partition_at (CHR ''['') hi))))
               else fst (partition_at (CHR '':'') hi));
          (name, pct, zone) = partition_at (CHR ''%'') h
      in lower name @ (if pct then CHR ''%'' # zone else []))"

definition bracket_error :: "pylib \<Rightarrow> string \<Rightarrow> bool" where
  "bracket_error L nl \<longleftrightarrow> (CHR ''['' \<in> set nl) \<noteq> (CHR '']'' \<in> set nl)
     \<or> (CHR ''['' \<in> set nl \<and> \<not> ip_literal L nl)"

definition urlparse :: "pylib \<Rightarrow> string \<Rightarrow> (string \<times> string) option" where
  "urlparse L url =
     (let (scheme, rest) = split_scheme (clean_url url)
      in if bracket_error L (netloc rest) then None else Some (scheme, host_name (netloc rest)))"

section \<open>Scenes\<close>

definition RISK_HIGH :: string where "RISK_HIGH = ''high''"

definition RISK_LOW :: string where "RISK_LOW = ''low''"

definition MODE_CARD :: string where "MODE_CARD = ''card''"

definition MODE_YOLO :: string where "MODE_YOLO = ''yolo''"

definition VALID_MODES :: "string list" where "VALID_MODES = [MODE_CARD, MODE_YOLO]"

record callback_config =
  cb_url :: string
  cb_auth_header :: "string option"
  cb_auth_token_env :: "string option"
  cb_timeout_s :: int

record submit_behaviors =
  sb_submit_once :: bool
  sb_allow_resubmit :: bool
  sb_max_submits :: "int option"

definition default_behaviors :: submit_behaviors where
  "default_behaviors = \<lparr>sb_submit_once = True, sb_allow_resubmit = True, sb_max_submits = None\<rparr>"

record scene_field =
  sf_key :: string
  sf_label :: string
  sf_type :: string
  sf_required :: bool
  sf_risk :: string
  sf_options :: "string list"
  sf_rule :: string

record scene_def =
  sd_scene :: string
  sd_name :: string
  sd_skill :: string
  sd_writer :: string
  sd_fields :: "scene_field list"
  sd_marker :: string
  sd_callback :: "callback_config option"
  sd_behaviors :: submit_behaviors
  sd_mode :: string

text \<open>\<open>__post_init__\<close>: an unknown mode falls back to \<open>card\<close>.\<close>

definition post_init :: "scene_def \<Rightarrow> scene_def" where
  "post_init s = (if sd_mode s \<in> set VALID_MODES then s else s\<lparr>sd_mode := MODE_CARD\<rparr>)"

definition scene_field_of :: "scene_def \<Rightarrow> string \<Rightarrow> scene_field option" where
  "scene_field_of s key = fetchone (filter (\<lambda>f. sf_key f = key) (sd_fields s))"

definition required_keys :: "scene_def \<Rightarrow> string list" where
  "required_keys s = map sf_key (filter sf_required (sd_fields s))"

definition DEV_ACCEPTANCE_CLAIM :: scene_def where
  "DEV_ACCEPTANCE_CLAIM = post_init
     \<lparr>sd_scene = ''dev-acceptance-claim'',
      sd_name = [CHR 0xE5, CHR 0xBC, CHR 0x80, CHR 0xE5, CHR 0x8F, CHR 0x91, CHR 0xE9, CHR 0xAA, CHR 0x8C, CHR 0xE6, CHR 0x94, CHR 0xB6, CHR 0xC2, CHR 0xB7, CHR 0xE6, CHR 0xB5, CHR 0x8B, CHR 0xE8, CHR 0xAF, CHR 0x95, CHR 0xE6, CHR 0x8A, CHR 0xA5, CHR 0xE9, CHR 0x94, CHR 0x80, CHR 0xE5, CHR 0x8D, CHR 0x95],
      sd_skill = ''push-fill-form'', sd_writer = ''kep-pre-claim-writer'',
      sd_fields = [
        \<lparr>sf_key = ''amount'', sf_label = [CHR 0xE9, CHR 0x87, CHR 0x91, CHR 0xE9, CHR 0xA2, CHR 0x9D] @ ''('' @ [CHR 0xE5, CHR 0x85, CHR 0x83] @ '')'', sf_type = ''number'', sf_required = True, sf_risk = RISK_HIGH, sf_options = [], sf_rule = [CHR 0xE4, CHR 0xB8, CHR 0x8D, CHR 0xE9, CHR 0xA2, CHR 0x84, CHR 0xE5, CHR 0xA1, CHR 0xAB] @ '';'' @ [CHR 0xE6, CHR 0x8F, CHR 0x90, CHR 0xE4, CHR 0xBA, CHR 0xA4, CHR 0xE5, CHR 0x89, CHR 0x8D, CHR 0xE4, CHR 0xBA, CHR 0x8C, CHR 0xE6, CHR 0xAC, CHR 0xA1, CHR 0xE5, CHR 0x9B, CHR 0x9E, CHR 0xE6, CHR 0x98, CHR 0xBE]\<rparr>,
        \<lparr>sf_key = ''date'', sf_label = [CHR 0xE5, CHR 0x8F, CHR 0x91, CHR 0xE7, CHR 0x94, CHR 0x9F, CHR 0xE6, CHR 0x97, CHR 0xA5, CHR 0xE6, CHR 0x9C, CHR 0x9F], sf_type = ''date'', sf_required = True, sf_risk = RISK_HIGH, sf_options = [], sf_rule = [CHR 0xE4, CHR 0xBD, CHR 0x8E, CHR 0xE7, CHR 0xBD, CHR 0xAE, CHR 0xE4, CHR 0xBF, CHR 0xA1, CHR 0xE7, CHR 0x95, CHR 0x99, CHR 0xE7, CHR 0xA9, CHR 0xBA, CHR 0xE8, CHR 0xBF, CHR 0xBD, CHR 0xE9, CHR 0x97, CHR 0xAE] @ '';'' @ [CHR 0xE9, CHR 0xA2, CHR 0x84, CHR 0xE5, CHR 0xA1, CHR 0xAB, CHR 0xE6, CHR 0xA0, CHR 0x87, CHR 0xE6, CHR 0xB3, CHR 0xA8] @ ''AI'' @ [CHR 0xE6, CHR 0x8F, CHR 0x90, CHR 0xE5, CHR 0x8F, CHR 0x96]\<rparr>,
        \<lparr>sf_key = ''category'', sf_label = [CHR 0xE7, CHR 0xB1, CHR 0xBB, CHR 0xE7, CHR 0x9B, CHR 0xAE], sf_type = ''enum'', sf_required = True, sf_risk = RISK_LOW, sf_options = [[CHR 0xE6, CHR 0x89, CHR 0x93, CHR 0xE8, CHR 0xBD, CHR 0xA6], [CHR 0xE9, CHR 0xA4, CHR 0x90, CHR 0xE9, CHR 0xA5, CHR 0xAE], [CHR 0xE5, CHR 0x8A, CHR 0x9E, CHR 0xE5, CHR 0x85, CHR 0xAC, CHR 0xE7, CHR 0x94, CHR 0xA8, CHR 0xE5, CHR 0x93, CHR 0x81]], sf_rule = []\<rparr>,
        \<lparr>sf_key = ''reason'', sf_label = [CHR 0xE4, CHR 0xBA, CHR 0x8B, CHR 0xE7, CHR 0x94, CHR 0xB1], sf_type = ''text'', sf_required = True, sf_risk = RISK_LOW, sf_options = [], sf_rule = []\<rparr>],
      sd_marker = ''[PAI-ACC-{registry_id}]'', sd_callback = None, sd_behaviors = default_behaviors, sd_mode = MODE_CARD\<rparr>"

definition DEV_YOLO_ECHO :: scene_def where
  "DEV_YOLO_ECHO = post_init
     \<lparr>sd_scene = ''dev-yolo-echo'',
      sd_name = [CHR 0xE5, CHR 0xBC, CHR 0x80, CHR 0xE5, CHR 0x8F, CHR 0x91, CHR 0xE9, CHR 0xAA, CHR 0x8C, CHR 0xE6, CHR 0x94, CHR 0xB6, CHR 0xC2, CHR 0xB7] @ ''YOLO '' @ [CHR 0xE5, CHR 0x9B, CHR 0x9E, CHR 0xE6, CHR 0x98, CHR 0xBE],
      sd_skill = ''push-yolo-echo'', sd_writer = [], sd_fields = [], sd_marker = [], sd_callback = None,
      sd_behaviors = default_behaviors, sd_mode = MODE_YOLO\<rparr>"

definition BUILTIN_SCENES :: "(string \<times> scene_def) list" where
  "BUILTIN_SCENES = [(sd_scene DEV_ACCEPTANCE_CLAIM, DEV_ACCEPTANCE_CLAIM), (sd_scene DEV_YOLO_ECHO, DEV_YOLO_ECHO)]"

definition get_scene :: "string \<Rightarrow> scene_def option" where
  "get_scene scene = map_of BUILTIN_SCENES (strip scene)"

definition scene_exists :: "string \<Rightarrow> bool" where
  "scene_exists scene \<longleftrightarrow> strip scene \<in> fst ` set BUILTIN_SCENES"

definition list_scenes :: "scene_def list" where
  "list_scenes = map snd BUILTIN_SCENES"

section \<open>Parsers\<close>

definition CALLBACK_TIMEOUT_MIN_S :: int where "CALLBACK_TIMEOUT_MIN_S = 1"

definition CALLBACK_TIMEOUT_MAX_S :: int where "CALLBACK_TIMEOUT_MAX_S = 60"

definition CALLBACK_TIMEOUT_DEFAULT_S :: int where "CALLBACK_TIMEOUT_DEFAULT_S = 10"

definition MAX_SUBMITS_MIN :: int where "MAX_SUBMITS_MIN = 1"

definition MAX_SUBMITS_MAX :: int where "MAX_SUBMITS_MAX = 1000"

definition DETERMINISTIC_MARKER_MAX_LEN :: nat where "DETERMINISTIC_MARKER_MAX_LEN = 200"

definition MARKER_PLACEHOLDER :: string where "MARKER_PLACEHOLDER = ''{registry_id}''"

text \<open>\<open>_lenient_int\<close> and \<open>_bounded_int\<close>: a Boolean is no number, a float must be finite.\<close>

definition lenient_int :: "json \<Rightarrow> int option" where
  "lenient_int v = (case v of JInt i \<Rightarrow> Some i | JFloat (Finite q) \<Rightarrow> Some (py_trunc q) | _ \<Rightarrow> None)"

definition bounded_int :: "json \<Rightarrow> string \<Rightarrow> int \<Rightarrow> int \<Rightarrow> int result" where
  "bounded_int v name lo hi =
     (case v of
        JFloat (Infinite b) \<Rightarrow> Inl (ValueError (name @ '' must be finite''))
      | JFloat NaN \<Rightarrow> Inl (ValueError (name @ '' must be finite''))
      | _ \<Rightarrow> (case lenient_int v of
                 None \<Rightarrow> Inl (ValueError (name @ '' must be a number''))
               | Some n \<Rightarrow> if lo \<le> n \<and> n \<le> hi then Inr n
                            else Inl (ValueError (name @ '' must be between '' @ int_str lo @ '' and '' @ int_str hi))))"

definition validate_deterministic_marker :: "json \<Rightarrow> string result" where
  "validate_deterministic_marker raw =
     (case raw of
        JNull \<Rightarrow> Inr []
      | JStr marker \<Rightarrow>
          if char_count marker > DETERMINISTIC_MARKER_MAX_LEN
          then Inl (ValueError ''deterministic_marker must be at most 200 characters'')
          else if CHR ''{'' \<in> set (py_replace MARKER_PLACEHOLDER [] marker) \<or> CHR ''}'' \<in> set (py_replace MARKER_PLACEHOLDER [] marker)
          then Inl (ValueError ''deterministic_marker may only contain the {registry_id} placeholder'')
          else Inr marker
      | _ \<Rightarrow> Inl (ValueError ''deterministic_marker must be a string''))"

definition loopback :: "string list" where
  "loopback = [''127.0.0.1'', ''::1'', ''localhost'']"

definition secure_url :: "pylib \<Rightarrow> string \<Rightarrow> bool" where
  "secure_url L url =
     (case urlparse L url of
        None \<Rightarrow> False
      | Some (scheme, host) \<Rightarrow> scheme = ''https'' \<or> (scheme = ''http'' \<and> host \<in> set loopback))"

text \<open>An optional header or variable name: \<open>str(x).strip() or None if x else None\<close>.\<close>

definition opt_text :: "pylib \<Rightarrow> json \<Rightarrow> string option" where
  "opt_text L v = (if truthy v then or_none (strip (py_str L v)) else None)"

definition callback_timeout :: "bool \<Rightarrow> (string \<times> json) list \<Rightarrow> int result" where
  "callback_timeout strict d =
     (if strict
      then (case map_of d ''timeout_s'' of
              None \<Rightarrow> Inr CALLBACK_TIMEOUT_DEFAULT_S
            | Some v \<Rightarrow> bounded_int v ''callback.timeout_s'' CALLBACK_TIMEOUT_MIN_S CALLBACK_TIMEOUT_MAX_S)
      else (case lenient_int (jget d ''timeout_s'') of
              None \<Rightarrow> Inr CALLBACK_TIMEOUT_DEFAULT_S
            | Some n \<Rightarrow> Inr (if n > 0 then n else CALLBACK_TIMEOUT_DEFAULT_S)))"

definition callback_from_payload :: "pylib \<Rightarrow> bool \<Rightarrow> json \<Rightarrow> callback_config option result" where
  "callback_from_payload L strict raw =
     (case raw of
        JNull \<Rightarrow> Inr None
      | JObj d \<Rightarrow>
          (let url = strip (str_get_or L d ''url'' [])
           in if url = [] then Inl (ValueError ''callback.url is required'')
              else if \<not> secure_url L url
              then Inl (ValueError ''callback.url must use https (http allowed only for loopback)'')
              else (case callback_timeout strict d of
                      Inl e \<Rightarrow> Inl e
                    | Inr t \<Rightarrow> Inr (Some \<lparr>cb_url = url, cb_auth_header = opt_text L (jget d ''auth_header''),
                                 cb_auth_token_env = opt_text L (jget d ''auth_token_env''), cb_timeout_s = t\<rparr>)))
      | _ \<Rightarrow> Inl (ValueError ''callback must be an object''))"

definition callback_json :: "callback_config \<Rightarrow> json" where
  "callback_json cb = JObj ([(''url'', JStr (cb_url cb)), (''timeout_s'', JInt (cb_timeout_s cb))]
     @ (case cb_auth_header cb of None \<Rightarrow> [] | Some h \<Rightarrow> if h = [] then [] else [(''auth_header'', JStr h)])
     @ (case cb_auth_token_env cb of None \<Rightarrow> [] | Some e \<Rightarrow> if e = [] then [] else [(''auth_token_env'', JStr e)]))"

definition callback_to_json :: "pylib \<Rightarrow> callback_config \<Rightarrow> string" where
  "callback_to_json L cb = dumps L (callback_json cb)"

text \<open>The tolerant readers take a text, an already decoded object, or nothing.\<close>

definition stored_object :: "pylib \<Rightarrow> json \<Rightarrow> (string \<times> json) list option" where
  "stored_object L raw =
     (if \<not> truthy raw then None
      else (case raw of
              JObj d \<Rightarrow> Some d
            | JStr s \<Rightarrow> (case loads L s of Some (JObj d) \<Rightarrow> Some d | _ \<Rightarrow> None)
            | _ \<Rightarrow> None))"

definition callback_from_json :: "pylib \<Rightarrow> json \<Rightarrow> callback_config option" where
  "callback_from_json L raw =
     (case stored_object L raw of
        None \<Rightarrow> None
      | Some d \<Rightarrow> (case callback_from_payload L False (JObj d) of Inl _ \<Rightarrow> None | Inr cb \<Rightarrow> cb))"

definition bool_get :: "(string \<times> json) list \<Rightarrow> string \<Rightarrow> bool \<Rightarrow> bool" where
  "bool_get d k dflt = (case map_of d k of None \<Rightarrow> dflt | Some v \<Rightarrow> truthy v)"

definition payload_max_submits :: "bool \<Rightarrow> (string \<times> json) list \<Rightarrow> int option result" where
  "payload_max_submits strict d =
     (case map_of d ''max_submits'' of
        None \<Rightarrow> Inr (sb_max_submits default_behaviors)
      | Some v \<Rightarrow>
          if strict
          then (case bounded_int v ''behaviors.max_submits'' MAX_SUBMITS_MIN MAX_SUBMITS_MAX of
                  Inl e \<Rightarrow> Inl e | Inr n \<Rightarrow> Inr (Some n))
          else Inr (lenient_int v))"

definition behaviors_from_payload :: "bool \<Rightarrow> json \<Rightarrow> submit_behaviors option result" where
  "behaviors_from_payload strict raw =
     (case raw of
        JNull \<Rightarrow> Inr None
      | JObj d \<Rightarrow>
          (case payload_max_submits strict d of
             Inl e \<Rightarrow> Inl e
           | Inr m \<Rightarrow> Inr (Some \<lparr>sb_submit_once = bool_get d ''submit_once'' (sb_submit_once default_behaviors),
               sb_allow_resubmit = bool_get d ''allow_resubmit_before_commit'' (sb_allow_resubmit default_behaviors),
               sb_max_submits = m\<rparr>))
      | _ \<Rightarrow> Inl (ValueError ''behaviors must be an object''))"

definition behaviors_json :: "submit_behaviors \<Rightarrow> json" where
  "behaviors_json b = JObj [(''submit_once'', JBool (sb_submit_once b)),
     (''allow_resubmit_before_commit'', JBool (sb_allow_resubmit b)),
     (''max_submits'', case sb_max_submits b of None \<Rightarrow> JNull | Some n \<Rightarrow> JInt n)]"

definition behaviors_to_json :: "pylib \<Rightarrow> submit_behaviors \<Rightarrow> string" where
  "behaviors_to_json L b = dumps L (behaviors_json b)"

definition behaviors_from_json :: "pylib \<Rightarrow> json \<Rightarrow> submit_behaviors option" where
  "behaviors_from_json L raw =
     (case stored_object L raw of
        None \<Rightarrow> None
      | Some d \<Rightarrow> (case behaviors_from_payload False (JObj d) of Inl _ \<Rightarrow> None | Inr b \<Rightarrow> b))"

section \<open>Inline scenes\<close>

definition field_from_raw :: "pylib \<Rightarrow> nat \<Rightarrow> json \<Rightarrow> scene_field result" where
  "field_from_raw L i raw =
     (case raw of
        JObj d \<Rightarrow>
          (let key = strip (str_get_or L d ''key'' [])
           in if key = [] then Inl (ValueError (''fields['' @ nat_str i @ ''].key is required''))
              else Inr \<lparr>sf_key = key, sf_label = str_get_or L d ''label'' key,
                sf_type = py_or (strip (str_get_or L d ''type'' ''text'')) ''text'',
                sf_required = bool_get d ''required'' False,
                sf_risk = (if strip (str_get_or L d ''risk'' []) = RISK_HIGH then RISK_HIGH else RISK_LOW),
                sf_options = (case jget d ''options'' of JArr xs \<Rightarrow> map (py_str L) xs | _ \<Rightarrow> []),
                sf_rule = str_get_or L d ''rule'' []\<rparr>)
      | _ \<Rightarrow> Inl (ValueError (''fields['' @ nat_str i @ ''] must be an object'')))"

fun fields_from_list :: "pylib \<Rightarrow> nat \<Rightarrow> json list \<Rightarrow> scene_field list result" where
  "fields_from_list L i [] = Inr []"
| "fields_from_list L i (x # xs) =
     (case field_from_raw L i x of
        Inl e \<Rightarrow> Inl e
      | Inr f \<Rightarrow> (case fields_from_list L (Suc i) xs of Inl e \<Rightarrow> Inl e | Inr fs \<Rightarrow> Inr (f # fs)))"

definition fields_from_raw :: "pylib \<Rightarrow> json \<Rightarrow> scene_field list result" where
  "fields_from_raw L raw =
     (case raw of
        JNull \<Rightarrow> Inr []
      | JArr xs \<Rightarrow> fields_from_list L 0 xs
      | _ \<Rightarrow> Inl (ValueError ''fields must be a list''))"

definition scene_from_payload :: "pylib \<Rightarrow> json \<Rightarrow> scene_def result" where
  "scene_from_payload L payload =
     (case payload of
        JObj d \<Rightarrow>
          (let skill = strip (str_get_or L d ''skill'' []);
               mode = py_or (strip (str_get_or L d ''mode'' MODE_CARD)) MODE_CARD
           in if skill = [] then Inl (ValueError ''skill is required for an inline scene'')
              else if mode \<notin> set VALID_MODES then Inl (ValueError (''mode must be one of ['' @ [CHR 0x27] @ ''card'' @ [CHR 0x27] @ '', '' @ [CHR 0x27] @ ''yolo'' @ [CHR 0x27] @ '']''))
              else (case fields_from_raw L (jget d ''fields'') of
                      Inl e \<Rightarrow> Inl e
                    | Inr fds \<Rightarrow>
                        if mode = MODE_CARD \<and> fds = []
                        then Inl (ValueError ''a card-mode scene requires at least one field'')
                        else (case callback_from_payload L True (jget d ''callback'') of
                                Inl e \<Rightarrow> Inl e
                              | Inr callback \<Rightarrow>
                                  (case behaviors_from_payload True (jget d ''behaviors'') of
                                     Inl e \<Rightarrow> Inl e
                                   | Inr behaviors \<Rightarrow>
                                       (let scene_name = py_or (strip (str_get_or L d ''scene'' [])) (''inline:'' @ skill);
                                            name = py_or (strip (str_get_or L d ''name'' [])) scene_name
                                        in (case validate_deterministic_marker (jget d ''deterministic_marker'') of
                                              Inl e \<Rightarrow> Inl e
                                            | Inr marker \<Rightarrow>
                                                Inr (post_init \<lparr>sd_scene = scene_name, sd_name = name, sd_skill = skill,
                                                  sd_writer = (if mode = MODE_YOLO then [] else ''kep-pre-claim-writer''),
                                                  sd_fields = fds, sd_marker = marker, sd_callback = callback,
                                                  sd_behaviors = (case behaviors of None \<Rightarrow> default_behaviors | Some b \<Rightarrow> b),
                                                  sd_mode = mode\<rparr>)))))))
      | _ \<Rightarrow> Inl (ValueError ''scene payload must be an object''))"

definition field_json :: "scene_field \<Rightarrow> json" where
  "field_json f = JObj [(''key'', JStr (sf_key f)), (''label'', JStr (sf_label f)), (''type'', JStr (sf_type f)),
     (''required'', JBool (sf_required f)), (''risk'', JStr (sf_risk f)), (''options'', JArr (map JStr (sf_options f))),
     (''rule'', JStr (sf_rule f))]"

text \<open>\<open>json.loads(callback_to_json(...))\<close> reads the inner text back; None: it raises.\<close>

definition reread :: "pylib \<Rightarrow> json \<Rightarrow> json option" where
  "reread L j = loads L (dumps L j)"

definition spec_json :: "scene_def \<Rightarrow> json \<Rightarrow> json \<Rightarrow> json" where
  "spec_json s cb b = JObj [(''scene'', JStr (sd_scene s)), (''name'', JStr (sd_name s)), (''skill'', JStr (sd_skill s)),
     (''writer'', JStr (sd_writer s)), (''mode'', JStr (sd_mode s)), (''deterministic_marker'', JStr (sd_marker s)),
     (''fields'', JArr (map field_json (sd_fields s))), (''callback'', cb), (''behaviors'', b)]"

definition scene_to_spec_json :: "pylib \<Rightarrow> scene_def \<Rightarrow> string option" where
  "scene_to_spec_json L s =
     (case (case sd_callback s of None \<Rightarrow> Some JNull | Some cb \<Rightarrow> reread L (callback_json cb)) of
        None \<Rightarrow> None
      | Some cb \<Rightarrow> (case reread L (behaviors_json (sd_behaviors s)) of
                      None \<Rightarrow> None
                    | Some b \<Rightarrow> Some (dumps L (spec_json s cb b))))"

definition scene_from_spec_json :: "pylib \<Rightarrow> json \<Rightarrow> scene_def option" where
  "scene_from_spec_json L raw =
     (case stored_object L raw of
        None \<Rightarrow> None
      | Some d \<Rightarrow>
          (let skill = strip (str_get_or L d ''skill'' [])
           in if skill = [] then None
              else (case fields_from_raw L (jget d ''fields'') of
                      Inl e \<Rightarrow> None
                    | Inr fds \<Rightarrow>
                        (let scene_name = py_or (strip (str_get_or L d ''scene'' [])) (''inline:'' @ skill)
                         in Some (post_init \<lparr>sd_scene = scene_name, sd_name = str_get_or L d ''name'' scene_name,
                              sd_skill = skill, sd_writer = str_get_or L d ''writer'' [], sd_fields = fds,
                              sd_marker = str_get_or L d ''deterministic_marker'' [],
                              sd_callback = callback_from_json L (jget d ''callback''),
                              sd_behaviors = (case behaviors_from_json L (jget d ''behaviors'') of
                                                None \<Rightarrow> default_behaviors | Some b \<Rightarrow> b),
                              sd_mode = py_or (strip (str_get_or L d ''mode'' MODE_CARD)) MODE_CARD\<rparr>)))))"

definition scene_def_for_row :: "pylib \<Rightarrow> push_row \<Rightarrow> scene_def option" where
  "scene_def_for_row L r =
     (case scene_from_spec_json L (column (p_scene_spec_json r)) of
        Some s \<Rightarrow> Some s
      | None \<Rightarrow> get_scene (p_scene r))"

section \<open>Round trips\<close>

lemma str_get_or_JStr: "map_of d k = Some (JStr s) \<Longrightarrow> str_get_or L d k dflt = py_or s dflt"
  by (simp add: str_get_or_def jget_def truthy_def py_str_def py_or_def)

lemma py_or_simps [simp]: "py_or [] b = b" "a \<noteq> [] \<Longrightarrow> py_or a b = a"
  by (simp_all add: py_or_def)

lemma opt_text_back: "opt_text L v = Some s \<Longrightarrow> s \<noteq> [] \<and> strip s = s"
  by (auto simp: opt_text_def or_none_def split: if_splits)

lemma opt_text_JStr: "strip s = s \<Longrightarrow> s \<noteq> [] \<Longrightarrow> opt_text L (JStr s) = Some s"
  by (simp add: opt_text_def or_none_def truthy_def py_str_def)

text \<open>A callback that its own reader accepts unchanged.\<close>

definition callback_ok :: "pylib \<Rightarrow> callback_config \<Rightarrow> bool" where
  "callback_ok L cb \<longleftrightarrow> cb_url cb \<noteq> [] \<and> strip (cb_url cb) = cb_url cb \<and> secure_url L (cb_url cb) \<and> cb_timeout_s cb > 0
     \<and> (\<forall>h. cb_auth_header cb = Some h \<longrightarrow> h \<noteq> [] \<and> strip h = h)
     \<and> (\<forall>e. cb_auth_token_env cb = Some e \<longrightarrow> e \<noteq> [] \<and> strip e = e)"

lemma callback_timeout_pos: "callback_timeout strict d = Inr t \<Longrightarrow> t > 0"
  by (auto simp: callback_timeout_def bounded_int_def CALLBACK_TIMEOUT_DEFAULT_S_def CALLBACK_TIMEOUT_MIN_S_def
      split: if_splits option.splits json.splits pyfloat.splits)

lemma callback_timeout_strict: "callback_timeout True d = Inr t \<Longrightarrow> 1 \<le> t \<and> t \<le> 60"
  by (auto simp: callback_timeout_def bounded_int_def CALLBACK_TIMEOUT_DEFAULT_S_def CALLBACK_TIMEOUT_MIN_S_def
      CALLBACK_TIMEOUT_MAX_S_def split: if_splits option.splits json.splits pyfloat.splits)

lemma callback_from_payload_ok:
  assumes "callback_from_payload L strict raw = Inr (Some cb)"
  shows "callback_ok L cb"
proof (cases raw)
  case (JObj d)
  then obtain t where "callback_timeout strict d = Inr t"
    and cb: "cb = \<lparr>cb_url = strip (str_get_or L d ''url'' []), cb_auth_header = opt_text L (jget d ''auth_header''),
      cb_auth_token_env = opt_text L (jget d ''auth_token_env''), cb_timeout_s = t\<rparr>"
    and "strip (str_get_or L d ''url'' []) \<noteq> []" "secure_url L (strip (str_get_or L d ''url'' []))"
    using assms by (auto simp: callback_from_payload_def Let_def split: if_splits sum.splits)
  then show ?thesis
    unfolding callback_ok_def by (auto simp: callback_timeout_pos dest: opt_text_back)
qed (use assms in \<open>simp_all add: callback_from_payload_def\<close>)

lemma callback_from_json_ok: "callback_from_json L raw = Some cb \<Longrightarrow> callback_ok L cb"
  by (auto simp: callback_from_json_def intro: callback_from_payload_ok split: option.splits sum.splits)

lemma callback_json_back:
  assumes "callback_ok L cb"
  shows "callback_from_json L (callback_json cb) = Some cb"
proof -
  obtain url h e t where cb: "cb = \<lparr>cb_url = url, cb_auth_header = h, cb_auth_token_env = e, cb_timeout_s = t\<rparr>"
    by (cases cb) auto
  have ok: "url \<noteq> []" "strip url = url" "secure_url L url" "t > 0"
    "\<And>x. h = Some x \<Longrightarrow> x \<noteq> [] \<and> strip x = x" "\<And>x. e = Some x \<Longrightarrow> x \<noteq> [] \<and> strip x = x"
    using assms by (auto simp: callback_ok_def cb)
  define d where "d = (case callback_json cb of JObj d \<Rightarrow> d | _ \<Rightarrow> [])"
  have j: "callback_json cb = JObj d" by (simp add: d_def callback_json_def)
  have "jget d ''auth_header'' = (case h of None \<Rightarrow> JNull | Some x \<Rightarrow> JStr x)"
    "jget d ''auth_token_env'' = (case e of None \<Rightarrow> JNull | Some x \<Rightarrow> JStr x)"
    using ok(5,6) by (auto simp: d_def callback_json_def cb jget_def split: option.splits)
  then have "opt_text L (jget d ''auth_header'') = h" "opt_text L (jget d ''auth_token_env'') = e"
    using ok(5,6) by (auto simp: opt_text_JStr split: option.splits) (simp_all add: opt_text_def truthy_def)
  moreover have "map_of d ''url'' = Some (JStr url)" "jget d ''timeout_s'' = JInt t" "d \<noteq> []"
    by (auto simp: d_def callback_json_def cb jget_def)
  ultimately have "callback_from_json L (JObj d) = Some cb"
    using ok(1-4) by (simp add: callback_from_json_def stored_object_def truthy_def callback_from_payload_def
        str_get_or_JStr Let_def callback_timeout_def lenient_int_def cb)
  then show ?thesis by (simp add: j)
qed

lemma behaviors_json_back: "behaviors_from_json L (behaviors_json b) = Some b"
proof -
  obtain o1 a m where b: "b = \<lparr>sb_submit_once = o1, sb_allow_resubmit = a, sb_max_submits = m\<rparr>" by (cases b) auto
  show ?thesis
    by (cases m) (simp_all add: b behaviors_from_json_def behaviors_json_def stored_object_def truthy_def
        behaviors_from_payload_def payload_max_submits_def bool_get_def lenient_int_def)
qed

definition field_ok :: "scene_field \<Rightarrow> bool" where
  "field_ok f \<longleftrightarrow> sf_key f \<noteq> [] \<and> strip (sf_key f) = sf_key f \<and> sf_label f \<noteq> []
     \<and> sf_type f \<noteq> [] \<and> strip (sf_type f) = sf_type f \<and> sf_risk f \<in> {RISK_HIGH, RISK_LOW}"

lemma strip_plain [simp]:
  "strip ''high'' = ''high''" "strip ''low'' = ''low''" "strip ''card'' = ''card''" "strip ''yolo'' = ''yolo''"
  "strip ''text'' = ''text''"
  by (simp_all add: strip_def is_space_def)

text \<open>The texts of floats and containers are never blank.\<close>

definition repr_ok :: "pylib \<Rightarrow> bool" where
  "repr_ok L \<longleftrightarrow> (\<forall>j. strip (repr L j) \<noteq> [])"

lemma repr_nonempty: "repr_ok L \<Longrightarrow> repr L j \<noteq> []"
  unfolding repr_ok_def by (metis strip_Nil)

lemma int_str_nonempty [simp]: "int_str i \<noteq> []"
  by (simp add: int_str_def)

lemma py_str_nonempty: "repr_ok L \<Longrightarrow> truthy j \<Longrightarrow> py_str L j \<noteq> []"
  by (cases j) (simp_all add: py_str_def truthy_def repr_nonempty)

lemma str_get_or_nonempty: "repr_ok L \<Longrightarrow> dflt \<noteq> [] \<Longrightarrow> str_get_or L d k dflt \<noteq> []"
  by (simp add: str_get_or_def py_str_nonempty)

lemma field_from_raw_ok:
  assumes "repr_ok L" "field_from_raw L i raw = Inr f"
  shows "field_ok f"
proof (cases raw)
  case (JObj d)
  let ?key = "strip (str_get_or L d ''key'' [])"
  have key: "?key \<noteq> []" using assms(2) by (auto simp: JObj field_from_raw_def Let_def split: if_splits)
  have type: "py_or (strip t) ''text'' \<noteq> []" "strip (py_or (strip t) ''text'') = py_or (strip t) ''text''" for t
    by (simp_all add: py_or_def)
  show ?thesis
    using assms key str_get_or_nonempty [OF assms(1) key, of d "''label''"] type
    by (auto simp: JObj field_from_raw_def Let_def field_ok_def)
qed (use assms in \<open>simp_all add: field_from_raw_def\<close>)

lemma fields_from_list_ok: "repr_ok L \<Longrightarrow> fields_from_list L i xs = Inr fs \<Longrightarrow> list_all field_ok fs"
  by (induction L i xs arbitrary: fs rule: fields_from_list.induct)
    (auto simp: field_from_raw_ok split: sum.splits)

lemma fields_from_raw_ok: "repr_ok L \<Longrightarrow> fields_from_raw L raw = Inr fs \<Longrightarrow> list_all field_ok fs"
  by (auto simp: fields_from_raw_def fields_from_list_ok split: json.splits)

lemma field_json_back:
  assumes "field_ok f"
  shows "field_from_raw L i (field_json f) = Inr f"
proof -
  obtain k l t r ri os ru where f: "f = \<lparr>sf_key = k, sf_label = l, sf_type = t, sf_required = r, sf_risk = ri,
    sf_options = os, sf_rule = ru\<rparr>" by (cases f) auto
  have risk: "ri = RISK_HIGH \<or> ri = RISK_LOW" and key: "k \<noteq> []" "strip k = k" "l \<noteq> []" "t \<noteq> []" "strip t = t"
    using assms by (auto simp: field_ok_def f)
  from risk show ?thesis
    using key by (elim disjE) (simp_all add: f field_json_def field_from_raw_def Let_def str_get_or_def jget_def truthy_def
        py_str_def bool_get_def comp_def RISK_HIGH_def RISK_LOW_def)
qed

lemma fields_json_back: "list_all field_ok fs \<Longrightarrow> fields_from_list L i (map field_json fs) = Inr fs"
  by (induction fs arbitrary: i) (simp_all add: field_json_back)

definition scene_ok :: "pylib \<Rightarrow> scene_def \<Rightarrow> bool" where
  "scene_ok L s \<longleftrightarrow> sd_skill s \<noteq> [] \<and> strip (sd_skill s) = sd_skill s \<and> sd_scene s \<noteq> [] \<and> strip (sd_scene s) = sd_scene s
     \<and> sd_name s \<noteq> [] \<and> list_all field_ok (sd_fields s) \<and> sd_mode s \<in> set VALID_MODES
     \<and> (\<forall>cb. sd_callback s = Some cb \<longrightarrow> callback_ok L cb)"

lemma strip_inline: "k \<noteq> [] \<Longrightarrow> strip k = k \<Longrightarrow> strip (''inline:'' @ k) = ''inline:'' @ k"
  using strip_decomp [of k] strip_fixed [of "''inline:'' @ k"] by (auto simp: is_space_def)

lemma scene_from_payload_ok:
  assumes "repr_ok L" "scene_from_payload L p = Inr s"
  shows "scene_ok L s"
proof (cases p)
  case (JObj d)
  let ?skill = "strip (str_get_or L d ''skill'' [])"
  let ?scene = "py_or (strip (str_get_or L d ''scene'' [])) (''inline:'' @ ?skill)"
  have "?skill \<noteq> []" using assms(2) by (auto simp: JObj scene_from_payload_def Let_def split: if_splits)
  then have scene: "?scene \<noteq> []" "strip ?scene = ?scene"
    using strip_inline [of ?skill] by (auto simp: py_or_def)
  then have "py_or (strip (str_get_or L d ''name'' [])) ?scene \<noteq> []" by (simp add: py_or_def)
  moreover obtain fds where fds: "fields_from_raw L (jget d ''fields'') = Inr fds" "sd_fields s = fds"
    and cb: "callback_from_payload L True (jget d ''callback'') = Inr (sd_callback s)" and "sd_mode s \<in> set VALID_MODES"
    and "sd_skill s = ?skill" "sd_scene s = ?scene" "sd_name s = py_or (strip (str_get_or L d ''name'' [])) ?scene"
    using assms(2) by (auto simp: JObj scene_from_payload_def Let_def post_init_def split: if_splits sum.splits)
  moreover have "callback_ok L c" if "sd_callback s = Some c" for c
    using cb callback_from_payload_ok [of L True] by (simp add: that)
  ultimately show ?thesis
    using \<open>?skill \<noteq> []\<close> scene fields_from_raw_ok [OF assms(1) fds(1)]
    unfolding scene_ok_def by simp
qed (use assms in \<open>simp_all add: scene_from_payload_def\<close>)

lemma spec_json_back:
  assumes "scene_ok L s" "json_ok L (spec_json s cb (behaviors_json (sd_behaviors s)))"
    "callback_from_json L cb = sd_callback s"
  shows "scene_from_spec_json L (JStr (dumps L (spec_json s cb (behaviors_json (sd_behaviors s))))) = Some s"
proof -
  define d where "d = (case spec_json s cb (behaviors_json (sd_behaviors s)) of JObj d \<Rightarrow> d | _ \<Rightarrow> [])"
  have j: "spec_json s cb (behaviors_json (sd_behaviors s)) = JObj d" by (simp add: d_def spec_json_def)
  have "stored_object L (JStr (dumps L (JObj d))) = Some d"
    using assms(2) by (simp add: stored_object_def truthy_def json_ok_def j)
  moreover have "fields_from_raw L (jget d ''fields'') = Inr (sd_fields s)"
    using assms(1) by (simp add: d_def spec_json_def jget_def fields_from_raw_def fields_json_back scene_ok_def)
  moreover have "map_of d ''skill'' = Some (JStr (sd_skill s))" "map_of d ''scene'' = Some (JStr (sd_scene s))"
    "map_of d ''name'' = Some (JStr (sd_name s))" "map_of d ''writer'' = Some (JStr (sd_writer s))"
    "map_of d ''mode'' = Some (JStr (sd_mode s))" "map_of d ''deterministic_marker'' = Some (JStr (sd_marker s))"
    "jget d ''callback'' = cb" "jget d ''behaviors'' = behaviors_json (sd_behaviors s)"
    by (simp_all add: d_def spec_json_def jget_def)
  moreover have "py_or (sd_writer s) [] = sd_writer s" "py_or (sd_marker s) [] = sd_marker s" by (simp_all add: py_or_def)
  moreover have "sd_mode s \<noteq> []" "strip (sd_mode s) = sd_mode s"
    using assms(1) by (auto simp: scene_ok_def VALID_MODES_def MODE_CARD_def MODE_YOLO_def)
  ultimately show ?thesis
    using assms(1,3) by (simp add: j scene_from_spec_json_def str_get_or_JStr Let_def behaviors_json_back scene_ok_def post_init_def)
qed

text \<open>A library that codes a value by its place in a table, for concrete inputs.\<close>

definition table_lib :: "json list \<Rightarrow> pylib" where
  "table_lib js = \<lparr>loads = (\<lambda>s. if 0 < length s \<and> length s \<le> length js then Some (js ! (length s - 1)) else None),
     dumps = (\<lambda>j. replicate (Suc (length (takeWhile (\<lambda>x. x \<noteq> j) js))) (CHR ''i'')), repr = (\<lambda>j. ''?''),
     to_float = (\<lambda>s. None), ip_literal = (\<lambda>nl. True)\<rparr>"

lemma takeWhile_stops: "j \<in> set js \<Longrightarrow> length (takeWhile (\<lambda>x. x \<noteq> j) js) < length js"
  by (induction js) auto

lemma table_lib_ok: "j \<in> set js \<Longrightarrow> json_ok (table_lib js) j"
  using nth_length_takeWhile [of "\<lambda>x. x \<noteq> j" js] takeWhile_stops [of j js]
  by (auto simp: json_ok_def table_lib_def Suc_le_eq)

lemma table_lib_repr: "repr_ok (table_lib js)"
  by (simp add: repr_ok_def table_lib_def strip_def is_space_def)

section \<open>Properties\<close>

text \<open>C40. A scene that \<open>notify-card\<close> accepts inline and stores on the registry row is, at every later
  step, read back from the row as exactly that scene: fields, callback, submit behaviour, mode and marker.\<close>

theorem scene_spec_roundtrip:
  assumes "repr_ok L"
    and "scene_from_payload L payload = Inr s"
    and "json_ok L (behaviors_json (sd_behaviors s))"
    and "\<And>cb. sd_callback s = Some cb \<Longrightarrow> json_ok L (callback_json cb)"
    and "json_ok L (spec_json s (case sd_callback s of None \<Rightarrow> JNull | Some cb \<Rightarrow> callback_json cb) (behaviors_json (sd_behaviors s)))"
  shows "\<exists>text. scene_to_spec_json L s = Some text
    \<and> (\<forall>r. p_scene_spec_json r = Some text \<longrightarrow> scene_def_for_row L r = Some s)"
proof -
  let ?cb = "case sd_callback s of None \<Rightarrow> JNull | Some cb \<Rightarrow> callback_json cb"
  let ?j = "spec_json s ?cb (behaviors_json (sd_behaviors s))"
  note ok = scene_from_payload_ok [OF assms(1,2)]
  have "callback_from_json L ?cb = sd_callback s"
    using ok callback_json_back by (auto simp: scene_ok_def split: option.split)
      (simp add: callback_from_json_def stored_object_def truthy_def)
  from spec_json_back [OF ok assms(5) this]
  have read: "scene_from_spec_json L (JStr (dumps L ?j)) = Some s" .
  have "scene_to_spec_json L s = Some (dumps L ?j)"
    using assms(3,4) by (simp add: scene_to_spec_json_def reread_def json_ok_def split: option.split)
  then show ?thesis using read by (auto simp: scene_def_for_row_def column_def)
qed

definition demo_scene_payload :: json where
  "demo_scene_payload = JObj [(''skill'', JStr ''fill''), (''fields'', JArr [JObj [(''key'', JStr ''amount''), (''required'', JBool True)]]),
     (''callback'', JObj [(''url'', JStr ''https://kep/x''), (''timeout_s'', JInt 20)]), (''behaviors'', JObj [(''submit_once'', JBool False)])]"

definition demo_callback :: callback_config where
  "demo_callback = \<lparr>cb_url = ''https://kep/x'', cb_auth_header = None, cb_auth_token_env = None, cb_timeout_s = 20\<rparr>"

definition demo_behaviors :: submit_behaviors where
  "demo_behaviors = \<lparr>sb_submit_once = False, sb_allow_resubmit = True, sb_max_submits = None\<rparr>"

definition demo_scene :: scene_def where
  "demo_scene = \<lparr>sd_scene = ''inline:fill'', sd_name = ''inline:fill'', sd_skill = ''fill'', sd_writer = ''kep-pre-claim-writer'',
     sd_fields = [\<lparr>sf_key = ''amount'', sf_label = ''amount'', sf_type = ''text'', sf_required = True, sf_risk = RISK_LOW,
       sf_options = [], sf_rule = []\<rparr>], sd_marker = [], sd_callback = Some demo_callback, sd_behaviors = demo_behaviors,
     sd_mode = MODE_CARD\<rparr>"

definition demo_spec :: json where
  "demo_spec = spec_json demo_scene (callback_json demo_callback) (behaviors_json demo_behaviors)"

definition demo_lib :: pylib where
  "demo_lib = table_lib [callback_json demo_callback, behaviors_json demo_behaviors, demo_spec]"

lemma demo_secure: "secure_url L ''https://kep/x''"
  by (simp add: secure_url_def urlparse_def split_scheme_def clean_url_def bracket_error_def netloc_def ascii_alpha_def
      scheme_char_def lower_def lower_char_def Let_def)

lemma demo_scene_parsed: "scene_from_payload L demo_scene_payload = Inr demo_scene"
  by (simp add: scene_from_payload_def demo_scene_payload_def Let_def str_get_or_def jget_def truthy_def py_str_def strip_def
      is_space_def py_or_def fields_from_raw_def field_from_raw_def bool_get_def callback_from_payload_def demo_secure
      callback_timeout_def bounded_int_def lenient_int_def CALLBACK_TIMEOUT_MIN_S_def CALLBACK_TIMEOUT_MAX_S_def
      behaviors_from_payload_def payload_max_submits_def default_behaviors_def validate_deterministic_marker_def
      VALID_MODES_def MODE_CARD_def MODE_YOLO_def RISK_HIGH_def post_init_def demo_scene_def demo_callback_def
      demo_behaviors_def opt_text_def)

lemma demo_lib_ok:
  "json_ok demo_lib (callback_json demo_callback)" "json_ok demo_lib (behaviors_json demo_behaviors)" "json_ok demo_lib demo_spec"
  by (simp_all add: demo_lib_def table_lib_ok)

lemma demo_scene_parts: "sd_callback demo_scene = Some demo_callback" "sd_behaviors demo_scene = demo_behaviors"
  by (simp_all add: demo_scene_def)

theorem scene_spec_roundtrip_witness:
  "\<exists>text. scene_to_spec_json demo_lib demo_scene = Some text
    \<and> (\<forall>r. p_scene_spec_json r = Some text \<longrightarrow> scene_def_for_row demo_lib r = Some demo_scene)"
  by (rule scene_spec_roundtrip [OF _ demo_scene_parsed])
    (simp_all add: demo_scene_parts demo_lib_ok demo_spec_def [symmetric], simp add: demo_lib_def table_lib_repr)

text \<open>Where a card's values are sent is a secure address, whether it comes from the request or from the
  stored row: every callback read has an \<open>https\<close> URL or an \<open>http\<close> URL of a loopback host; a request's timeout
  is between 1 and 60 seconds and any other is refused.\<close>

lemma callbacks_are_secure:
  "callback_from_payload L strict raw = Inr (Some cb) \<or> callback_from_json L raw = Some cb
     \<or> (\<exists>s. scene_from_spec_json L raw = Some s \<and> sd_callback s = Some cb) \<Longrightarrow>
   (\<exists>scheme host. urlparse L (cb_url cb) = Some (scheme, host)
      \<and> (scheme = ''https'' \<or> (scheme = ''http'' \<and> host \<in> {''127.0.0.1'', ''::1'', ''localhost''})))
    \<and> (callback_from_payload L True raw = Inr (Some cb) \<longrightarrow> 1 \<le> cb_timeout_s cb \<and> cb_timeout_s cb \<le> 60)"
proof -
  assume src: "callback_from_payload L strict raw = Inr (Some cb) \<or> callback_from_json L raw = Some cb
     \<or> (\<exists>s. scene_from_spec_json L raw = Some s \<and> sd_callback s = Some cb)"
  have "\<exists>raw. callback_from_json L raw = Some cb" if "scene_from_spec_json L raw = Some s" "sd_callback s = Some cb" for s
    using that by (auto simp: scene_from_spec_json_def Let_def post_init_def split: option.splits if_splits sum.splits)
  with src have "callback_ok L cb" using callback_from_payload_ok callback_from_json_ok by blast
  then have "secure_url L (cb_url cb)" by (simp add: callback_ok_def)
  moreover have "1 \<le> cb_timeout_s cb \<and> cb_timeout_s cb \<le> 60" if "callback_from_payload L True raw = Inr (Some cb)"
    using that by (auto simp: callback_from_payload_def Let_def split: json.splits if_splits sum.splits dest: callback_timeout_strict)
  ultimately show ?thesis by (auto simp: secure_url_def loopback_def split: option.splits)
qed

end
