(* ===== verification/Push_Fill_Form.thy ===== *)
theory Push_Fill_Form
  imports Push_Scenes
begin

text \<open>
  The fill form of a push card (\<open>src/hermes_multitenancy/push_fill_form.py\<close>): merging one reply into the
  values collected so far, the confirm card, and reading back the form the user submits. The
  extractor (the \<open>extractor\<close> seam of the source) is an argument; cards are JSON values, with their Chinese
  texts as UTF-8 bytes; confidences are rationals.
\<close>

section \<open>Submissions\<close>

definition HIGH_RISK_PREFILL_CONF :: rat where "HIGH_RISK_PREFILL_CONF = 80 / 100"

definition LOW_RISK_PREFILL_CONF :: rat where "LOW_RISK_PREFILL_CONF = 55 / 100"

definition MAX_TEXT_CHARS :: nat where "MAX_TEXT_CHARS = 500"

record field_state =
  fs_value :: json
  fs_confidence :: rat
  fs_ai :: bool

definition has_value :: "pylib \<Rightarrow> field_state \<Rightarrow> bool" where
  "has_value L st \<longleftrightarrow> fs_value st \<noteq> JNull \<and> strip (py_str L (fs_value st)) \<noteq> []"

text \<open>A submission maps field keys to states; the echo hints ride along under a reserved key.\<close>

datatype sub_entry = Entry field_state | EchoStore "(string \<times> json) list"

type_synonym submission = "(string \<times> sub_entry) list"

definition ECHO_KEY :: string where "ECHO_KEY = ''__echo__''"

type_synonym extractor = "scene_def \<Rightarrow> string \<Rightarrow> (string \<times> json \<times> rat) list"

definition dict_pop :: "'k \<Rightarrow> ('k \<times> 'v) list \<Rightarrow> ('k \<times> 'v) list" where
  "dict_pop k d = filter (\<lambda>e. fst e \<noteq> k) d"

definition coerce :: "pylib \<Rightarrow> scene_field \<Rightarrow> json \<Rightarrow> json" where
  "coerce L f v =
     (if sf_type f = ''number'' then
        (case v of
           JInt _ \<Rightarrow> v
         | JFloat _ \<Rightarrow> v
         | JBool _ \<Rightarrow> v
         | _ \<Rightarrow> (let s = py_str L v
                  in if CHR ''.'' \<in> set s then (case to_float L s of None \<Rightarrow> v | Some x \<Rightarrow> JFloat x)
                     else (case py_int s of None \<Rightarrow> v | Some i \<Rightarrow> JInt i)))
      else if sf_type f = ''enum'' then JStr (strip (py_str L v))
      else JStr (take_chars MAX_TEXT_CHARS (strip (py_str L v))))"

definition NO_PREFILL :: string where
  "NO_PREFILL = [CHR 0xE4, CHR 0xB8, CHR 0x8D, CHR 0xE9, CHR 0xA2, CHR 0x84, CHR 0xE5, CHR 0xA1, CHR 0xAB]"

definition no_prefill :: "scene_field \<Rightarrow> bool" where
  "no_prefill f \<longleftrightarrow> occurs_in NO_PREFILL (sf_rule f)"

definition set_echo :: "submission \<Rightarrow> string \<Rightarrow> json \<Rightarrow> submission" where
  "set_echo sub k v =
     dict_set ECHO_KEY (EchoStore (dict_set k v (case map_of sub ECHO_KEY of Some (EchoStore d) \<Rightarrow> d | _ \<Rightarrow> []))) sub"

definition echo_of :: "submission \<Rightarrow> string \<Rightarrow> json" where
  "echo_of sub k = (case map_of sub ECHO_KEY of Some (EchoStore d) \<Rightarrow> jget d k | _ \<Rightarrow> JNull)"

text \<open>One field of \<open>merge\<close>. Reading the echo store as a state is the attribute error of the source.\<close>

definition ai_state :: "json \<Rightarrow> rat \<Rightarrow> sub_entry" where
  "ai_state v conf = Entry \<lparr>fs_value = v, fs_confidence = conf, fs_ai = True\<rparr>"

definition prefill_bar :: "scene_field \<Rightarrow> rat" where
  "prefill_bar f = (if sf_risk f = RISK_HIGH then HIGH_RISK_PREFILL_CONF else LOW_RISK_PREFILL_CONF)"

definition user_entered :: "pylib \<Rightarrow> submission \<Rightarrow> string \<Rightarrow> bool" where
  "user_entered L sub k = (case map_of sub k of Some (Entry st) \<Rightarrow> \<not> fs_ai st \<and> has_value L st | _ \<Rightarrow> False)"

definition is_echo :: "submission \<Rightarrow> string \<Rightarrow> bool" where
  "is_echo sub k = (case map_of sub k of Some (EchoStore _) \<Rightarrow> True | _ \<Rightarrow> False)"

definition merge_field :: "pylib \<Rightarrow> (string \<times> json \<times> rat) list \<Rightarrow> scene_field \<Rightarrow> submission \<Rightarrow> submission result" where
  "merge_field L ex f sub =
     (case map_of ex (sf_key f) of
        None \<Rightarrow> Inr sub
      | Some (raw, conf) \<Rightarrow>
          if raw = JNull then Inr (dict_pop (sf_key f) sub)
          else (let v = coerce L f raw
                in if is_echo sub (sf_key f) then Inl AttributeError
                   else if user_entered L sub (sf_key f) then Inr sub
                   else if no_prefill f
                   then (let sub' = set_echo sub (sf_key f) v
                         in if conf \<ge> HIGH_RISK_PREFILL_CONF then Inr (dict_set (sf_key f) (ai_state v conf) sub')
                            else Inr (dict_pop (sf_key f) sub'))
                   else if conf \<ge> prefill_bar f then Inr (dict_set (sf_key f) (ai_state v conf) sub)
                   else Inr sub))"

fun merge_fields :: "pylib \<Rightarrow> (string \<times> json \<times> rat) list \<Rightarrow> scene_field list \<Rightarrow> submission \<Rightarrow> submission result" where
  "merge_fields L ex [] sub = Inr sub"
| "merge_fields L ex (f # fs) sub =
     (case merge_field L ex f sub of Inl e \<Rightarrow> Inl e | Inr sub' \<Rightarrow> merge_fields L ex fs sub')"

definition merge :: "pylib \<Rightarrow> extractor \<Rightarrow> scene_def \<Rightarrow> submission \<Rightarrow> string \<Rightarrow> submission result" where
  "merge L extract scene prior text = merge_fields L (extract scene text) (sd_fields scene) prior"

text \<open>The state of a field for the readers that test \<open>has_value\<close>.\<close>

definition field_value :: "pylib \<Rightarrow> submission \<Rightarrow> string \<Rightarrow> json option result" where
  "field_value L sub k =
     (case map_of sub k of
        None \<Rightarrow> Inr None
      | Some (Entry st) \<Rightarrow> Inr (if has_value L st then Some (fs_value st) else None)
      | Some (EchoStore _) \<Rightarrow> Inl AttributeError)"

fun missing_fields :: "pylib \<Rightarrow> submission \<Rightarrow> scene_field list \<Rightarrow> scene_field list result" where
  "missing_fields L sub [] = Inr []"
| "missing_fields L sub (f # fs) =
     (if \<not> sf_required f then missing_fields L sub fs
      else (case field_value L sub (sf_key f) of
              Inl e \<Rightarrow> Inl e
            | Inr v \<Rightarrow> (case missing_fields L sub fs of
                           Inl e \<Rightarrow> Inl e
                         | Inr ms \<Rightarrow> Inr (if v = None then f # ms else ms))))"

fun values_of :: "pylib \<Rightarrow> submission \<Rightarrow> scene_field list \<Rightarrow> (string \<times> json) list \<Rightarrow> (string \<times> json) list result" where
  "values_of L sub [] out = Inr out"
| "values_of L sub (f # fs) out =
     (case field_value L sub (sf_key f) of
        Inl e \<Rightarrow> Inl e
      | Inr None \<Rightarrow> values_of L sub fs out
      | Inr (Some v) \<Rightarrow> values_of L sub fs (dict_set (sf_key f) v out))"

definition submission_values :: "pylib \<Rightarrow> scene_def \<Rightarrow> submission \<Rightarrow> (string \<times> json) list result" where
  "submission_values L scene sub = values_of L sub (sd_fields scene) []"

text \<open>\<open>submission_from_form\<close> reads the controls of a submitted form; \<open>submission_from_values\<close> the stored values.\<close>

definition user_state :: "json \<Rightarrow> sub_entry" where
  "user_state v = Entry \<lparr>fs_value = v, fs_confidence = 1, fs_ai = False\<rparr>"

definition dict_of :: "json \<Rightarrow> (string \<times> json) list" where
  "dict_of j = (case j of JObj d \<Rightarrow> d | _ \<Rightarrow> [])"

definition from_control :: "pylib \<Rightarrow> (string \<times> json) list \<Rightarrow> submission \<Rightarrow> scene_field \<Rightarrow> submission" where
  "from_control L src sub f =
     (let raw = jget src (sf_key f)
      in if raw = JNull \<or> strip (py_str L raw) = [] then sub else dict_set (sf_key f) (user_state (coerce L f raw)) sub)"

definition submission_from_form :: "pylib \<Rightarrow> scene_def \<Rightarrow> json \<Rightarrow> submission" where
  "submission_from_form L scene form_value = foldl (from_control L (dict_of form_value)) [] (sd_fields scene)"

definition submission_from_values :: "pylib \<Rightarrow> scene_def \<Rightarrow> json \<Rightarrow> submission" where
  "submission_from_values L scene vals = foldl (from_control L (dict_of vals)) [] (sd_fields scene)"

section \<open>Cards\<close>

definition plain_text :: "string \<Rightarrow> json" where
  "plain_text s = JObj [(''tag'', JStr ''plain_text''), (''content'', JStr s)]"

definition markdown :: "string \<Rightarrow> json" where
  "markdown s = JObj [(''tag'', JStr ''markdown''), (''content'', JStr s)]"

definition card :: "string \<Rightarrow> string \<Rightarrow> json list \<Rightarrow> json" where
  "card title template elements =
     JObj [(''schema'', JStr ''2.0''), (''header'', JObj [(''title'', plain_text title), (''template'', JStr template)]),
       (''body'', JObj [(''elements'', JArr elements)])]"

definition amount_of :: "pylib \<Rightarrow> submission \<Rightarrow> scene_field \<Rightarrow> json result" where
  "amount_of L sub f =
     (case field_value L sub (sf_key f) of
        Inl e \<Rightarrow> Inl e
      | Inr (Some v) \<Rightarrow> Inr v
      | Inr None \<Rightarrow> Inr (echo_of sub (sf_key f)))"

fun money_echo :: "pylib \<Rightarrow> submission \<Rightarrow> scene_field list \<Rightarrow> string option result" where
  "money_echo L sub [] = Inr None"
| "money_echo L sub (f # fs) =
     (if sf_type f \<noteq> ''number'' then money_echo L sub fs
      else (case amount_of L sub f of
              Inl e \<Rightarrow> Inl e
            | Inr a \<Rightarrow> if a \<noteq> JNull \<and> strip (py_str L a) \<noteq> []
                       then Inr (Some ([CHR 0xE5, CHR 0xB0, CHR 0x86, CHR 0xE6, CHR 0x8F, CHR 0x90, CHR 0xE4, CHR 0xBA, CHR 0xA4] @ '' '' @ sf_label f @ [CHR 0xEF, CHR 0xBC, CHR 0x9A, CHR 0xC2, CHR 0xA5] @ py_str L a @ [CHR 0xEF, CHR 0xBC, CHR 0x8C, CHR 0xE8, CHR 0xAF, CHR 0xB7, CHR 0xE7, CHR 0xA1, CHR 0xAE, CHR 0xE8, CHR 0xAE, CHR 0xA4, CHR 0xE3, CHR 0x80, CHR 0x82]))
                       else money_echo L sub fs))"

fun submit_label :: "pylib \<Rightarrow> submission \<Rightarrow> scene_field list \<Rightarrow> string result" where
  "submit_label L sub [] = Inr ([CHR 0xE7, CHR 0xA1, CHR 0xAE, CHR 0xE8, CHR 0xAE, CHR 0xA4, CHR 0xE6, CHR 0x8F, CHR 0x90, CHR 0xE4, CHR 0xBA, CHR 0xA4])"
| "submit_label L sub (f # fs) =
     (if sf_type f \<noteq> ''number'' then submit_label L sub fs
      else (case amount_of L sub f of
              Inl e \<Rightarrow> Inl e
            | Inr a \<Rightarrow> Inr ([CHR 0xE7, CHR 0xA1, CHR 0xAE, CHR 0xE8, CHR 0xAE, CHR 0xA4, CHR 0xE6, CHR 0x8F, CHR 0x90, CHR 0xE4, CHR 0xBA, CHR 0xA4] @ (if a = JNull then [] else '' '' @ [CHR 0xC2, CHR 0xA5] @ py_str L a))))"

definition field_control :: "pylib \<Rightarrow> scene_field \<Rightarrow> json option \<Rightarrow> json" where
  "field_control L f prefilled =
     (if sf_type f = ''enum'' \<and> sf_options f \<noteq> []
      then JObj ([(''tag'', JStr ''select_static''), (''name'', JStr (sf_key f)), (''required'', JBool (sf_required f)),
             (''placeholder'', plain_text ([CHR 0xE8, CHR 0xAF, CHR 0xB7, CHR 0xE9, CHR 0x80, CHR 0x89, CHR 0xE6, CHR 0x8B, CHR 0xA9] @ sf_label f)),
             (''options'', JArr (map (\<lambda>opt. JObj [(''text'', plain_text opt), (''value'', JStr opt)]) (sf_options f)))]
           @ (case prefilled of
                Some v \<Rightarrow> if py_str L v \<in> set (sf_options f) then [(''initial_option'', JStr (py_str L v))] else []
              | None \<Rightarrow> []))
      else JObj ([(''tag'', JStr ''input''), (''name'', JStr (sf_key f)), (''required'', JBool (sf_required f)),
             (''placeholder'', plain_text ([CHR 0xE8, CHR 0xAF, CHR 0xB7, CHR 0xE8, CHR 0xBE, CHR 0x93, CHR 0xE5, CHR 0x85, CHR 0xA5] @ sf_label f))]
           @ (case prefilled of Some v \<Rightarrow> [(''default_value'', JStr (py_str L v))] | None \<Rightarrow> [])))"

definition field_label :: "pylib \<Rightarrow> submission \<Rightarrow> scene_field \<Rightarrow> json option \<Rightarrow> string" where
  "field_label L sub f prefilled =
     sf_label f @ (if sf_required f then [CHR 0xEF, CHR 0xBC, CHR 0x88, CHR 0xE5, CHR 0xBF, CHR 0x85, CHR 0xE5, CHR 0xA1, CHR 0xAB, CHR 0xEF, CHR 0xBC, CHR 0x89] else [])
       @ (case map_of sub (sf_key f) of
            Some (Entry st) \<Rightarrow> if fs_ai st \<and> prefilled \<noteq> None then ''  '' @ [CHR 0xC2, CHR 0xB7] @ ''AI '' @ [CHR 0xE6, CHR 0x8F, CHR 0x90, CHR 0xE5, CHR 0x8F, CHR 0x96, CHR 0xEF, CHR 0xBC, CHR 0x8C, CHR 0xE8, CHR 0xAF, CHR 0xB7, CHR 0xE6, CHR 0xA0, CHR 0xB8, CHR 0xE5, CHR 0xAF, CHR 0xB9] else []
          | _ \<Rightarrow> [])
       @ (if no_prefill f \<and> echo_of sub (sf_key f) \<noteq> JNull \<and> prefilled = None
          then ''  '' @ [CHR 0xC2, CHR 0xB7] @ ''AI '' @ [CHR 0xE5, CHR 0x90, CHR 0xAC, CHR 0xE5, CHR 0x88, CHR 0xB0, CHR 0xEF, CHR 0xBC, CHR 0x9A] @ py_str L (echo_of sub (sf_key f)) @ [CHR 0xEF, CHR 0xBC, CHR 0x8C, CHR 0xE8, CHR 0xAF, CHR 0xB7, CHR 0xE7, CHR 0xA1, CHR 0xAE, CHR 0xE8, CHR 0xAE, CHR 0xA4, CHR 0xE5, CHR 0x90, CHR 0x8E, CHR 0xE5, CHR 0xA1, CHR 0xAB, CHR 0xE5, CHR 0x86, CHR 0x99] else [])"

fun form_fields :: "pylib \<Rightarrow> submission \<Rightarrow> scene_field list \<Rightarrow> json list result" where
  "form_fields L sub [] = Inr []"
| "form_fields L sub (f # fs) =
     (case field_value L sub (sf_key f) of
        Inl e \<Rightarrow> Inl e
      | Inr v \<Rightarrow> (case form_fields L sub fs of
                     Inl e \<Rightarrow> Inl e
                   | Inr es \<Rightarrow> Inr (markdown (''**'' @ field_label L sub f v @ ''**'') # field_control L f v # es)))"

definition routing_value :: "string \<Rightarrow> string \<Rightarrow> string \<Rightarrow> json" where
  "routing_value rid nonce opid =
     JObj [(''hermes_action'', JStr ''push_confirm''), (''registry_id'', JStr rid), (''nonce'', JStr nonce),
       (''operation_id'', JStr opid)]"

definition submit_button :: "string \<Rightarrow> string \<Rightarrow> string \<Rightarrow> string \<Rightarrow> json" where
  "submit_button label rid nonce opid =
     JObj [(''tag'', JStr ''button''), (''name'', JStr (''push_confirm_submit_'' @ opid)), (''text'', plain_text label),
       (''type'', JStr ''primary''), (''form_action_type'', JStr ''submit''), (''value'', routing_value rid nonce opid)]"

definition build_confirm_card ::
  "pylib \<Rightarrow> scene_def \<Rightarrow> submission \<Rightarrow> string \<Rightarrow> string \<Rightarrow> string \<Rightarrow> string \<Rightarrow> json result" where
  "build_confirm_card L scene sub rid nonce opid escape_hint =
     (case form_fields L sub (sd_fields scene) of
        Inl e \<Rightarrow> Inl e
      | Inr controls \<Rightarrow>
          (case money_echo L sub (sd_fields scene) of
             Inl e \<Rightarrow> Inl e
           | Inr money \<Rightarrow>
               (case (if money = None then Inr ([CHR 0xE7, CHR 0xA1, CHR 0xAE, CHR 0xE8, CHR 0xAE, CHR 0xA4, CHR 0xE6, CHR 0x8F, CHR 0x90, CHR 0xE4, CHR 0xBA, CHR 0xA4]) else submit_label L sub (sd_fields scene)) of
                  Inl e \<Rightarrow> Inl e
                | Inr label \<Rightarrow>
                    Inr (card (sd_name scene) ''blue''
                      ([markdown ([CHR 0xE8, CHR 0xAF, CHR 0xB7, CHR 0xE6, CHR 0xA0, CHR 0xB8, CHR 0xE5, CHR 0xAF, CHR 0xB9, CHR 0xE5, CHR 0xB9, CHR 0xB6, CHR 0xE7, CHR 0xA1, CHR 0xAE, CHR 0xE8, CHR 0xAE, CHR 0xA4, CHR 0xE3, CHR 0x80, CHR 0x8C] @ sd_name scene @ [CHR 0xE3, CHR 0x80, CHR 0x8D, CHR 0xEF, CHR 0xBC, CHR 0x8C, CHR 0xE7, CHR 0xA1, CHR 0xAE, CHR 0xE8, CHR 0xAE, CHR 0xA4, CHR 0xE5, CHR 0x90, CHR 0x8E, CHR 0xE5, CHR 0xB0, CHR 0x86, CHR 0xE5, CHR 0xBD, CHR 0x95, CHR 0xE5, CHR 0x85, CHR 0xA5, CHR 0xE5, CHR 0x90, CHR 0x8E, CHR 0xE7, CHR 0xAB, CHR 0xAF, CHR 0xE7, CHR 0xB3, CHR 0xBB, CHR 0xE7, CHR 0xBB, CHR 0x9F, CHR 0xE3, CHR 0x80, CHR 0x82]),
                        JObj [(''tag'', JStr ''form''), (''name'', JStr ''push_fill_form''),
                          (''elements'', JArr (controls
                             @ (case money of None \<Rightarrow> [] | Some m \<Rightarrow> [markdown ([CHR 0xE2, CHR 0x9A, CHR 0xA0, CHR 0xEF, CHR 0xB8, CHR 0x8F] @ '' '' @ m)])
                             @ [submit_button label rid nonce opid]))]]
                       @ (if escape_hint = [] then [] else [markdown (''_'' @ escape_hint @ ''_'')]))))))"

definition default_scene_card :: "scene_def \<Rightarrow> json" where
  "default_scene_card scene =
     card (sd_name scene) ''blue'' [markdown (''**'' @ sd_name scene @ ''**''),
       markdown (if sd_mode scene = MODE_YOLO
         then [CHR 0xE7, CHR 0x9B, CHR 0xB4, CHR 0xE6, CHR 0x8E, CHR 0xA5, CHR 0xE5, CHR 0x9B, CHR 0x9E, CHR 0xE5, CHR 0xA4, CHR 0x8D, CHR 0xE4, CHR 0xBD, CHR 0xA0, CHR 0xE7, CHR 0x9A, CHR 0x84, CHR 0xE8, CHR 0xA7, CHR 0x84, CHR 0xE5, CHR 0x88, CHR 0x99, CHR 0xE6, CHR 0x88, CHR 0x96, CHR 0xE9, CHR 0x9C, CHR 0x80, CHR 0xE6, CHR 0xB1, CHR 0x82, CHR 0xEF, CHR 0xBC, CHR 0x8C, CHR 0xE6, CHR 0x88, CHR 0x91, CHR 0xE6, CHR 0x9D, CHR 0xA5, CHR 0xE8, CHR 0xAE, CHR 0xA1, CHR 0xE7, CHR 0xAE, CHR 0x97, CHR 0xE5, CHR 0xB9, CHR 0xB6, CHR 0xE8, CHR 0xAF, CHR 0xB7, CHR 0xE4, CHR 0xBD, CHR 0xA0, CHR 0xE7, CHR 0xA1, CHR 0xAE, CHR 0xE8, CHR 0xAE, CHR 0xA4, CHR 0xE3, CHR 0x80, CHR 0x82]
         else [CHR 0xE7, CHR 0x9B, CHR 0xB4, CHR 0xE6, CHR 0x8E, CHR 0xA5, CHR 0xE5, CHR 0x9B, CHR 0x9E, CHR 0xE5, CHR 0xA4, CHR 0x8D, CHR 0xE6, CHR 0xAD, CHR 0xA4, CHR 0xE5, CHR 0x8D, CHR 0xA1, CHR 0xE5, CHR 0x8D, CHR 0xB3, CHR 0xE5, CHR 0x8F, CHR 0xAF, CHR 0xE5, CHR 0xA1, CHR 0xAB, CHR 0xE5, CHR 0x86, CHR 0x99, CHR 0xEF, CHR 0xBC, CHR 0x8C, CHR 0xE6, CHR 0x88, CHR 0x91, CHR 0xE4, CHR 0xBC, CHR 0x9A, CHR 0xE5, CHR 0xB8, CHR 0xAE, CHR 0xE4, CHR 0xBD, CHR 0xA0, CHR 0xE6, CHR 0x8A, CHR 0x8A, CHR 0xE5, CHR 0x86, CHR 0x85, CHR 0xE5, CHR 0xAE, CHR 0xB9, CHR 0xE6, CHR 0x95, CHR 0xB4, CHR 0xE7, CHR 0x90, CHR 0x86, CHR 0xE6, CHR 0x88, CHR 0x90, CHR 0xE8, CHR 0xA1, CHR 0xA8, CHR 0xE5, CHR 0x8D, CHR 0x95, CHR 0xE3, CHR 0x80, CHR 0x82])]"

section \<open>One fill step\<close>

datatype delivery = Deliver_Update | Deliver_New

definition delivery_mode :: "push_row option \<Rightarrow> delivery" where
  "delivery_mode row =
     (case row of
        None \<Rightarrow> Deliver_New
      | Some r \<Rightarrow> if strip (str_or_empty (p_message_id r)) \<noteq> [] then Deliver_Update else Deliver_New)"

record fill_step =
  st_card :: json
  st_values :: "(string \<times> json) list"
  st_missing :: "scene_field list"
  st_operation_id :: string
  st_delivery :: delivery

text \<open>\<open>opid\<close> is the random operation id.\<close>

definition build_fill_step ::
  "pylib \<Rightarrow> extractor \<Rightarrow> string \<Rightarrow> scene_def \<Rightarrow> json \<Rightarrow> string \<Rightarrow> string \<Rightarrow> string \<Rightarrow> push_row option \<Rightarrow> string
    \<Rightarrow> fill_step result" where
  "build_fill_step L extract opid scene prior_values text rid nonce row escape_hint =
     (case merge L extract scene (submission_from_values L scene prior_values) text of
        Inl e \<Rightarrow> Inl e
      | Inr sub \<Rightarrow>
          (case build_confirm_card L scene sub rid nonce opid escape_hint of
             Inl e \<Rightarrow> Inl e
           | Inr c \<Rightarrow>
               (case submission_values L scene sub of
                  Inl e \<Rightarrow> Inl e
                | Inr vals \<Rightarrow>
                    (case missing_fields L sub (sd_fields scene) of
                       Inl e \<Rightarrow> Inl e
                     | Inr missing \<Rightarrow>
                         Inr \<lparr>st_card = c, st_values = vals, st_missing = missing, st_operation_id = opid,
                              st_delivery = delivery_mode row\<rparr>))))"

section \<open>Reading forms\<close>

definition blank :: "pylib \<Rightarrow> json \<Rightarrow> bool" where
  "blank L v \<longleftrightarrow> v = JNull \<or> strip (py_str L v) = []"

lemma has_value_blank: "has_value L st \<longleftrightarrow> \<not> blank L (fs_value st)"
  by (simp add: has_value_def blank_def)

text \<open>The keys of a scene's fields are distinct and none is the reserved one.\<close>

definition keys_ok :: "scene_def \<Rightarrow> bool" where
  "keys_ok scene \<longleftrightarrow> distinct (map sf_key (sd_fields scene)) \<and> ECHO_KEY \<notin> sf_key ` set (sd_fields scene)"

definition entry_for :: "pylib \<Rightarrow> (string \<times> json) list \<Rightarrow> scene_field \<Rightarrow> sub_entry option" where
  "entry_for L src f = (if blank L (jget src (sf_key f)) then None else Some (user_state (coerce L f (jget src (sf_key f)))))"

lemma map_of_from_control:
  "map_of (from_control L src sub f) k =
     (if k = sf_key f \<and> entry_for L src f \<noteq> None then entry_for L src f else map_of sub k)"
  by (auto simp: from_control_def entry_for_def blank_def map_of_dict_set Let_def)

lemma map_of_controls_other:
  "k \<notin> sf_key ` set fs \<Longrightarrow> map_of (foldl (from_control L src) sub fs) k = map_of sub k"
  by (induction fs arbitrary: sub) (auto simp: map_of_from_control)

lemma map_of_controls:
  "distinct (map sf_key fs) \<Longrightarrow> (\<And>g. g \<in> set fs \<Longrightarrow> map_of sub (sf_key g) = None) \<Longrightarrow> f \<in> set fs \<Longrightarrow>
     map_of (foldl (from_control L src) sub fs) (sf_key f) = entry_for L src f"
proof (induction fs arbitrary: sub)
  case (Cons g fs)
  have fresh: "sf_key h \<noteq> sf_key g" if "h \<in> set fs" for h
    using Cons.prems(1) imageI [OF that, of sf_key] by auto
  show ?case
  proof (cases "f = g")
    case True
    have "sf_key f \<notin> sf_key ` set fs" using True fresh by (metis imageE)
    then show ?thesis using True Cons.prems(2) by (simp add: map_of_controls_other map_of_from_control)
  next
    case False
    have "map_of (from_control L src sub g) (sf_key h) = None" if "h \<in> set fs" for h
      using fresh [OF that] Cons.prems(2) that by (simp add: map_of_from_control)
    with Cons.IH False Cons.prems(1,3) show ?thesis by simp
  qed
qed simp

text \<open>Reading the values of a submission whose fields are states.\<close>

definition plain :: "submission \<Rightarrow> scene_field list \<Rightarrow> bool" where
  "plain sub fs \<longleftrightarrow> (\<forall>f \<in> set fs. \<not> is_echo sub (sf_key f))"

definition value_at :: "pylib \<Rightarrow> submission \<Rightarrow> string \<Rightarrow> json option" where
  "value_at L sub k = (case map_of sub k of Some (Entry st) \<Rightarrow> if has_value L st then Some (fs_value st) else None | _ \<Rightarrow> None)"

lemma field_value_plain: "\<not> is_echo sub k \<Longrightarrow> field_value L sub k = Inr (value_at L sub k)"
  by (auto simp: field_value_def value_at_def is_echo_def split: option.splits sub_entry.splits)

lemma plain_Cons: "plain sub (f # fs) \<longleftrightarrow> \<not> is_echo sub (sf_key f) \<and> plain sub fs"
  by (auto simp: plain_def)

lemma values_of_plain:
  "plain sub fs \<Longrightarrow> \<exists>vals. values_of L sub fs out = Inr vals
     \<and> (\<forall>k. map_of vals k = (if k \<in> sf_key ` set fs \<and> value_at L sub k \<noteq> None then value_at L sub k else map_of out k))"
proof (induction fs arbitrary: out)
  case (Cons f fs)
  then have pl: "\<not> is_echo sub (sf_key f)" "plain sub fs" by (simp_all add: plain_Cons)
  show ?case
  proof (cases "value_at L sub (sf_key f)")
    case None
    with Cons.IH [OF pl(2), of out] show ?thesis by (auto simp: field_value_plain [OF pl(1)])
  next
    case (Some v)
    with Cons.IH [OF pl(2), of "dict_set (sf_key f) v out"] show ?thesis
      by (fastforce simp: field_value_plain [OF pl(1)] map_of_dict_set)
  qed
qed simp

lemma submission_values_plain:
  assumes "plain sub (sd_fields scene)"
  obtains vals where "submission_values L scene sub = Inr vals"
    "\<And>k. map_of vals k = (if k \<in> sf_key ` set (sd_fields scene) then value_at L sub k else None)"
  using values_of_plain [OF assms, of L "[]"] by (fastforce simp: submission_values_def)

lemma missing_fields_plain:
  "plain sub fs \<Longrightarrow> missing_fields L sub fs = Inr (filter (\<lambda>f. sf_required f \<and> value_at L sub (sf_key f) = None) fs)"
  by (induction fs) (simp_all add: plain_Cons field_value_plain)

lemma controls_plain: "plain (foldl (from_control L src) [] fs) gs"
proof -
  have "\<not> is_echo (foldl (from_control L src) sub fs) k" if "\<not> is_echo sub k" for sub k
    using that
  proof (induction fs arbitrary: sub)
    case (Cons f fs)
    have "\<not> is_echo (from_control L src sub f) k"
      using Cons.prems by (auto simp: is_echo_def map_of_from_control entry_for_def user_state_def split: if_splits)
    with Cons.IH show ?case by simp
  qed simp
  then show ?thesis by (simp add: plain_def is_echo_def)
qed

lemma strip_int_str: "strip (int_str i) \<noteq> []"
proof -
  have "c \<in> set (nat_str n) \<Longrightarrow> \<not> is_space c" for c n
    using nat_str_digits [of n] by (auto simp: is_space_def)
  moreover have "\<not> is_space (CHR ''-'')" by (simp add: is_space_def)
  ultimately have "c \<in> set (int_str i) \<Longrightarrow> \<not> is_space c" for c by (auto simp: int_str_def split: if_splits)
  then have "\<not> is_space (hd (int_str i))" "\<not> is_space (last (int_str i))" by simp_all
  then have "strip (int_str i) = int_str i" by (simp add: strip_fixed)
  then show ?thesis by simp
qed

lemma strip_hd: "s \<noteq> [] \<Longrightarrow> \<not> is_space (hd s) \<Longrightarrow> strip s \<noteq> []"
  by (cases s) (auto simp: strip_def dropWhile_eq_Nil_conv)

lemma strip_take: "strip s \<noteq> [] \<Longrightarrow> strip (take_chars (Suc n) (strip s)) \<noteq> []"
  using strip_decomp [of s] by (intro strip_hd) (auto simp: neq_Nil_conv split: if_splits)

lemma coerce_solid:
  assumes "repr_ok L" "\<not> blank L v"
  shows "\<not> blank L (coerce L f v)"
proof -
  have "strip (py_str L (JFloat x)) \<noteq> []" for x using assms(1) by (simp add: py_str_def repr_ok_def)
  moreover have "strip (take_chars MAX_TEXT_CHARS (strip (py_str L v))) \<noteq> []"
    using assms(2) strip_take [of "py_str L v" 499] by (simp add: blank_def MAX_TEXT_CHARS_def)
  moreover have "strip (py_str L (JInt i)) \<noteq> []" for i by (simp add: py_str_def strip_int_str)
  moreover have "py_str L (JStr x) = x" for x by (simp add: py_str_def)
  ultimately show ?thesis
    using assms(2) unfolding coerce_def Let_def blank_def
    by (cases v) (simp_all split: option.split)
qed

lemma entry_value:
  assumes "repr_ok L" "map_of sub k = entry_for L src f" "sf_key f = k"
  shows "value_at L sub k = (if blank L (jget src k) then None else Some (coerce L f (jget src k)))"
  using assms coerce_solid [OF assms(1), of "jget src k" f]
  by (auto simp: value_at_def entry_for_def user_state_def has_value_blank)

lemma controls_value:
  assumes "repr_ok L" "keys_ok scene" "f \<in> set (sd_fields scene)"
  shows "value_at L (foldl (from_control L src) [] (sd_fields scene)) (sf_key f) =
    (if blank L (jget src (sf_key f)) then None else Some (coerce L f (jget src (sf_key f))))"
  using assms map_of_controls [of "sd_fields scene" "[]" f L src]
  by (intro entry_value) (auto simp: keys_ok_def)

section \<open>Merging replies\<close>

text \<open>What one extraction does to the entry of a field.\<close>

definition merged_entry :: "pylib \<Rightarrow> (string \<times> json \<times> rat) list \<Rightarrow> submission \<Rightarrow> scene_field \<Rightarrow> sub_entry option" where
  "merged_entry L ex prior f =
     (case map_of ex (sf_key f) of
        None \<Rightarrow> map_of prior (sf_key f)
      | Some (raw, conf) \<Rightarrow>
          if raw = JNull then None
          else if user_entered L prior (sf_key f) then map_of prior (sf_key f)
          else if conf \<ge> (if no_prefill f then HIGH_RISK_PREFILL_CONF else prefill_bar f) then Some (ai_state (coerce L f raw) conf)
          else if no_prefill f then None else map_of prior (sf_key f))"

lemma map_of_dict_pop: "map_of (dict_pop k d) j = (if j = k then None else map_of d j)"
  by (induction d) (auto simp: dict_pop_def)

lemma merge_field_effect:
  assumes "\<not> is_echo sub (sf_key f)" "sf_key f \<noteq> ECHO_KEY"
  shows "\<exists>sub'. merge_field L ex f sub = Inr sub' \<and> map_of sub' (sf_key f) = merged_entry L ex sub f
    \<and> (\<forall>k. k \<noteq> sf_key f \<longrightarrow> k \<noteq> ECHO_KEY \<longrightarrow> map_of sub' k = map_of sub k)"
proof (cases "map_of ex (sf_key f)")
  case (Some p)
  obtain raw conf where p: "p = (raw, conf)" by (cases p)
  show ?thesis
    using assms unfolding merge_field_def merged_entry_def Some p
    by (simp add: Let_def map_of_dict_pop map_of_dict_set set_echo_def)
qed (simp add: merge_field_def merged_entry_def)

lemma is_echo_cong: "map_of a k = map_of b k \<Longrightarrow> is_echo a k = is_echo b k"
  by (simp add: is_echo_def)

lemma merged_entry_cong: "map_of a (sf_key f) = map_of b (sf_key f) \<Longrightarrow> merged_entry L ex a f = merged_entry L ex b f"
  unfolding merged_entry_def user_entered_def by (simp only:)

lemma merge_fields_effect:
  "distinct (map sf_key fs) \<Longrightarrow> ECHO_KEY \<notin> sf_key ` set fs \<Longrightarrow> plain sub fs \<Longrightarrow>
     \<exists>sub'. merge_fields L ex fs sub = Inr sub'
       \<and> (\<forall>f \<in> set fs. map_of sub' (sf_key f) = merged_entry L ex sub f)
       \<and> (\<forall>k. k \<notin> sf_key ` set fs \<longrightarrow> k \<noteq> ECHO_KEY \<longrightarrow> map_of sub' k = map_of sub k)"
proof (induction fs arbitrary: sub)
  case (Cons f fs)
  have f: "\<not> is_echo sub (sf_key f)" "sf_key f \<noteq> ECHO_KEY" "sf_key f \<notin> sf_key ` set fs"
    using Cons.prems by (auto simp: plain_Cons)
  obtain u where u: "merge_field L ex f sub = Inr u" "map_of u (sf_key f) = merged_entry L ex sub f"
    "\<And>k. k \<noteq> sf_key f \<Longrightarrow> k \<noteq> ECHO_KEY \<Longrightarrow> map_of u k = map_of sub k"
    using merge_field_effect [OF f(1,2), of L ex] by blast
  have same: "map_of u (sf_key g) = map_of sub (sf_key g)" if "g \<in> set fs" for g
  proof (rule u(3))
    show "sf_key g \<noteq> sf_key f" using that f(3) by (metis imageI)
    show "sf_key g \<noteq> ECHO_KEY" using that Cons.prems(2) by (metis imageI list.set_intros(2))
  qed
  have "plain u fs"
    unfolding plain_def using Cons.prems(3) is_echo_cong [OF same] by (auto simp: plain_def)
  then obtain v where v: "merge_fields L ex fs u = Inr v"
    "\<forall>g \<in> set fs. map_of v (sf_key g) = merged_entry L ex u g"
    "\<forall>k. k \<notin> sf_key ` set fs \<longrightarrow> k \<noteq> ECHO_KEY \<longrightarrow> map_of v k = map_of u k"
    using Cons.IH [of u] Cons.prems by auto
  have "map_of v (sf_key g) = merged_entry L ex sub g" if "g \<in> set (f # fs)" for g
    using that u(2) v(2,3) f merged_entry_cong [OF same] by (cases "g = f") auto
  moreover have "map_of v k = map_of sub k" if "k \<notin> sf_key ` set (f # fs)" "k \<noteq> ECHO_KEY" for k
    using that u(3) v(3) by simp
  ultimately show ?case using u(1) v(1) by auto
qed simp

lemma merged_plain:
  assumes "keys_ok scene" "plain sub (sd_fields scene)" "f \<in> set (sd_fields scene)"
  shows "merged_entry L ex sub f \<noteq> Some (EchoStore d)"
  using assms by (auto simp: merged_entry_def plain_def is_echo_def ai_state_def split: option.splits if_splits)

lemma merge_effect:
  assumes "keys_ok scene" "plain prior (sd_fields scene)"
  obtains sub where "merge L extract scene prior text = Inr sub" "plain sub (sd_fields scene)"
    "\<And>f. f \<in> set (sd_fields scene) \<Longrightarrow> map_of sub (sf_key f) = merged_entry L (extract scene text) prior f"
proof -
  obtain sub where sub: "merge_fields L (extract scene text) (sd_fields scene) prior = Inr sub"
    "\<forall>f \<in> set (sd_fields scene). map_of sub (sf_key f) = merged_entry L (extract scene text) prior f"
    using merge_fields_effect [of "sd_fields scene" prior L "extract scene text"] assms by (auto simp: keys_ok_def)
  have "plain sub (sd_fields scene)"
    using sub(2) merged_plain [OF assms] by (auto simp: plain_def is_echo_def split: option.splits sub_entry.splits)
  with sub show ?thesis by (intro that) (auto simp: merge_def)
qed

lemma form_fields_plain: "plain sub fs \<Longrightarrow> \<exists>es. form_fields L sub fs = Inr es"
  by (induction fs) (auto simp: plain_Cons field_value_plain)

lemma money_echo_plain: "plain sub fs \<Longrightarrow> \<exists>m. money_echo L sub fs = Inr m"
  by (induction fs) (auto simp: plain_Cons field_value_plain amount_of_def split: option.splits)

lemma submit_label_plain: "plain sub fs \<Longrightarrow> \<exists>m. submit_label L sub fs = Inr m"
  by (induction fs) (auto simp: plain_Cons field_value_plain amount_of_def split: option.splits)

lemma confirm_card_plain:
  assumes "plain sub (sd_fields scene)"
  shows "\<exists>c. build_confirm_card L scene sub rid nonce opid hint = Inr c"
proof -
  obtain es m l where "form_fields L sub (sd_fields scene) = Inr es" "money_echo L sub (sd_fields scene) = Inr m"
    "submit_label L sub (sd_fields scene) = Inr l"
    using form_fields_plain money_echo_plain submit_label_plain assms by meson
  then show ?thesis by (simp add: build_confirm_card_def)
qed

text \<open>A fill step in full: it succeeds, and its values and missing fields are those of the merge.\<close>

lemma build_fill_step_effect:
  assumes "keys_ok scene"
  obtains step sub where "build_fill_step L extract opid scene pv text rid nonce row hint = Inr step"
    "\<And>f. f \<in> set (sd_fields scene) \<Longrightarrow>
       map_of sub (sf_key f) = merged_entry L (extract scene text) (submission_from_values L scene pv) f"
    "\<And>k. map_of (st_values step) k = (if k \<in> sf_key ` set (sd_fields scene) then value_at L sub k else None)"
    "st_missing step = filter (\<lambda>f. sf_required f \<and> value_at L sub (sf_key f) = None) (sd_fields scene)"
proof -
  have "plain (submission_from_values L scene pv) (sd_fields scene)"
    by (simp add: submission_from_values_def controls_plain)
  from merge_effect [OF assms this, of L "extract" "text"]
  obtain sub where sub: "merge L extract scene (submission_from_values L scene pv) text = Inr sub" "plain sub (sd_fields scene)"
    "\<And>f. f \<in> set (sd_fields scene) \<Longrightarrow>
       map_of sub (sf_key f) = merged_entry L (extract scene text) (submission_from_values L scene pv) f" by metis
  obtain c where c: "build_confirm_card L scene sub rid nonce opid hint = Inr c"
    using confirm_card_plain [OF sub(2)] by blast
  from submission_values_plain [OF sub(2), of L]
  obtain vals where vals: "submission_values L scene sub = Inr vals"
    "\<And>k. map_of vals k = (if k \<in> sf_key ` set (sd_fields scene) then value_at L sub k else None)" by metis
  have "build_fill_step L extract opid scene pv text rid nonce row hint =
    Inr \<lparr>st_card = c, st_values = vals,
      st_missing = filter (\<lambda>f. sf_required f \<and> value_at L sub (sf_key f) = None) (sd_fields scene),
      st_operation_id = opid, st_delivery = delivery_mode row\<rparr>"
    by (simp add: build_fill_step_def sub(1) c vals(1) missing_fields_plain [OF sub(2)])
  from that [OF this sub(3)] vals(2) show ?thesis by simp
qed

section \<open>Properties\<close>

text \<open>What is written to the backend is exactly what the user submitted: the values read from a form are the
  non-blank controls of the scene's fields, coerced to the field's type, and nothing else of the form.\<close>

lemma form_values_exact:
  assumes "repr_ok L" "keys_ok scene"
  shows "\<exists>vals. submission_values L scene (submission_from_form L scene form_value) = Inr vals
    \<and> (\<forall>f \<in> set (sd_fields scene). map_of vals (sf_key f) =
          (let raw = jget (dict_of form_value) (sf_key f)
           in if raw = JNull \<or> strip (py_str L raw) = [] then None else Some (coerce L f raw)))
    \<and> (\<forall>k. map_of vals k \<noteq> None \<longrightarrow> k \<in> sf_key ` set (sd_fields scene))"
proof -
  let ?sub = "submission_from_form L scene form_value"
  have "plain ?sub (sd_fields scene)" by (simp add: submission_from_form_def controls_plain)
  from submission_values_plain [OF this, of L]
  obtain vals where vals: "submission_values L scene ?sub = Inr vals"
    "\<And>k. map_of vals k = (if k \<in> sf_key ` set (sd_fields scene) then value_at L ?sub k else None)" by metis
  have "map_of vals (sf_key f) = (if blank L (jget (dict_of form_value) (sf_key f)) then None
     else Some (coerce L f (jget (dict_of form_value) (sf_key f))))" if "f \<in> set (sd_fields scene)" for f
    using that vals(2) [of "sf_key f"] controls_value [OF assms that, of "dict_of form_value"]
    by (simp add: submission_from_form_def)
  then show ?thesis using vals by (auto simp: blank_def Let_def split: if_splits)
qed

lemma demo_keys: "keys_ok demo_scene"
  by (simp add: keys_ok_def demo_scene_def ECHO_KEY_def)

lemma demo_repr: "repr_ok demo_lib"
  by (simp add: demo_lib_def table_lib_repr)

text \<open>Prefill discipline: for every field of the scene one reply either clears it (an explicit
  negation), or leaves a value the user entered, or fills it with the extracted value only when the
  confidence reaches the bar of the field's risk (0.80 for high risk and for a field marked as not to be
  prefilled, 0.55 otherwise); below the bar it is never filled.\<close>

lemma merge_prefill_discipline:
  assumes "keys_ok scene" "plain prior (sd_fields scene)" "f \<in> set (sd_fields scene)"
  shows "\<exists>sub. merge L extract scene prior text = Inr sub
    \<and> (case map_of (extract scene text) (sf_key f) of
          None \<Rightarrow> map_of sub (sf_key f) = map_of prior (sf_key f)
        | Some (raw, conf) \<Rightarrow>
            (raw = JNull \<longrightarrow> map_of sub (sf_key f) = None)
          \<and> (raw \<noteq> JNull \<longrightarrow> user_entered L prior (sf_key f) \<longrightarrow> map_of sub (sf_key f) = map_of prior (sf_key f))
          \<and> (raw \<noteq> JNull \<longrightarrow> \<not> user_entered L prior (sf_key f) \<longrightarrow>
               (if conf \<ge> (if sf_risk f = RISK_HIGH \<or> no_prefill f then 80 / 100 else 55 / 100)
                then map_of sub (sf_key f) = Some (ai_state (coerce L f raw) conf)
                else map_of sub (sf_key f) \<in> {None, map_of prior (sf_key f)})))"
proof -
  from merge_effect [OF assms(1,2), of L "extract" "text"]
  obtain sub where sub: "merge L extract scene prior text = Inr sub"
    "map_of sub (sf_key f) = merged_entry L (extract scene text) prior f" using assms(3) by metis
  then show ?thesis
    by (intro exI [of _ sub])
      (auto simp: merged_entry_def prefill_bar_def HIGH_RISK_PREFILL_CONF_def LOW_RISK_PREFILL_CONF_def split: option.split)
qed

text \<open>A captured value is frozen: once a field's value has been stored on the row, a later reply that
  extracts another value for it, however confident, changes nothing; the fill step stores the old value again.
  (Only an explicit negation clears it.)\<close>

lemma captured_value_frozen:
  assumes "repr_ok L" "keys_ok scene" "f \<in> set (sd_fields scene)"
    and "jget (dict_of prior_values) (sf_key f) \<noteq> JNull" "strip (py_str L (jget (dict_of prior_values) (sf_key f))) \<noteq> []"
    and "map_of (extract scene reply) (sf_key f) = Some (v, conf)" "v \<noteq> JNull"
  shows "\<exists>step. build_fill_step L extract opid scene prior_values reply rid nonce row hint = Inr step
    \<and> map_of (st_values step) (sf_key f) = Some (coerce L f (jget (dict_of prior_values) (sf_key f)))"
proof -
  let ?prior = "submission_from_values L scene prior_values"
  let ?old = "coerce L f (jget (dict_of prior_values) (sf_key f))"
  have e: "map_of ?prior (sf_key f) = Some (user_state ?old)"
    using assms(2-5) map_of_controls [of "sd_fields scene" "[]" f L "dict_of prior_values"]
    by (simp add: submission_from_values_def keys_ok_def entry_for_def blank_def)
  have solid: "\<not> blank L ?old" using coerce_solid [OF assms(1)] assms(4,5) by (simp add: blank_def)
  then have "user_entered L ?prior (sf_key f)"
    by (simp add: user_entered_def e user_state_def has_value_blank)
  then have m: "merged_entry L (extract scene reply) ?prior f = Some (user_state ?old)"
    using assms(6,7) by (simp add: merged_entry_def e)
  show ?thesis
  proof (rule build_fill_step_effect [OF assms(2), of L "extract" opid prior_values reply rid nonce row hint])
    fix step sub
    assume st: "build_fill_step L extract opid scene prior_values reply rid nonce row hint = Inr step"
      and sub: "\<And>f. f \<in> set (sd_fields scene) \<Longrightarrow> map_of sub (sf_key f) = merged_entry L (extract scene reply) ?prior f"
      and vals: "\<And>k. map_of (st_values step) k = (if k \<in> sf_key ` set (sd_fields scene) then value_at L sub k else None)"
    have "map_of (st_values step) (sf_key f) = value_at L sub (sf_key f)" using vals assms(3) by simp
    also have "\<dots> = Some ?old"
      using sub [OF assms(3)] solid by (simp add: value_at_def m user_state_def has_value_blank)
    finally show ?thesis using st by blast
  qed
qed

end
