(* ===== verification/Push_Confirm.thy ===== *)
theory Push_Confirm
  imports Push_Fill_Form Routing_Table
begin

text \<open>
  The confirm callback of a push card (\<open>src/hermes_multitenancy/push_card_confirm.py\<close>): the writers, the
  resolution of the callback address, and the confirm handler. The handler is a sequence of
  atomic actions (a read of the registry, a compare-and-swap, a backend write), so it is given
  as a step function over program points; \<open>handle_confirm\<close> runs one click to its end and
  \<open>sys_step\<close> interleaves any number of clicks with the other users of the registry. The HTTP exchange,
  injected writers, environment variables and random ids are arguments.
\<close>

section \<open>Writers\<close>

record write_result =
  wr_ok :: bool
  wr_backend_id :: "string option"
  wr_credential_expired :: bool
  wr_error :: "string option"

definition write_ok :: "string \<Rightarrow> write_result" where
  "write_ok bid = \<lparr>wr_ok = True, wr_backend_id = Some bid, wr_credential_expired = False, wr_error = None\<rparr>"

definition write_failed :: "bool \<Rightarrow> string \<Rightarrow> write_result" where
  "write_failed expired err = \<lparr>wr_ok = False, wr_backend_id = None, wr_credential_expired = expired, wr_error = Some err\<rparr>"

type_synonym dict = "(string \<times> json) list"

text \<open>The keyword arguments of \<open>ClaimWriter.write\<close>.\<close>

record write_args =
  wa_scene :: scene_def
  wa_values :: dict
  wa_registry_id :: string
  wa_key :: string
  wa_profile_name :: string

definition render_marker :: "string \<Rightarrow> string \<Rightarrow> string" where
  "render_marker marker rid = py_replace MARKER_PLACEHOLDER rid marker"

definition build_kep_cli_args :: "pylib \<Rightarrow> scene_def \<Rightarrow> dict \<Rightarrow> string \<Rightarrow> string \<Rightarrow> string \<Rightarrow> string \<Rightarrow> string list" where
  "build_kep_cli_args L scene vals rid profile reason env_name =
     [''kep-cli'', ''--profile'', profile, ''--env'', env_name, ''claim'', ''create'', ''--idempotency-key'', rid]
     @ concat (map (\<lambda>f. case map_of vals (sf_key f) of
           None \<Rightarrow> []
         | Some v \<Rightarrow> [''--'' @ sf_key f, if sf_key f = ''reason'' then reason else py_str L v]) (sd_fields scene))"

definition clamp_writer_timeout :: "json \<Rightarrow> rat" where
  "clamp_writer_timeout timeout =
     (let t = (case timeout of JInt i \<Rightarrow> of_int i | JFloat (Finite q) \<Rightarrow> q | _ \<Rightarrow> 10) in min (max t 1) 60)"

definition reason_with_marker :: "pylib \<Rightarrow> write_args \<Rightarrow> string" where
  "reason_with_marker L a =
     strip ((case map_of (wa_values a) ''reason'' of None \<Rightarrow> [] | Some v \<Rightarrow> py_str L v)
       @ '' '' @ render_marker (sd_marker (wa_scene a)) (wa_registry_id a))"

text \<open>\<open>MockKepPreClaimWriter\<close>.\<close>

record mock_state =
  mk_records :: "(string \<times> dict) list"
  mk_credential_expired :: bool
  mk_write_calls :: nat

definition mock_record :: "pylib \<Rightarrow> write_args \<Rightarrow> dict" where
  "mock_record L a =
     dict_set ''_marker'' (JStr (render_marker (sd_marker (wa_scene a)) (wa_registry_id a)))
       (dict_set ''_backend_id'' (JStr (''kep_pre_'' @ wa_key a))
         (dict_set ''reason'' (JStr (reason_with_marker L a)) (wa_values a)))"

definition mock_write :: "pylib \<Rightarrow> write_args \<Rightarrow> mock_state \<Rightarrow> mock_state \<times> write_result" where
  "mock_write L a m0 =
     (let m = m0\<lparr>mk_write_calls := mk_write_calls m0 + 1\<rparr>
      in if mk_credential_expired m then (m, write_failed True ''kep pre token expired'')
         else (case map_of (mk_records m) (wa_key a) of
                 Some r \<Rightarrow> (m, write_ok (py_str L (jget r ''_backend_id'')))
               | None \<Rightarrow> (m\<lparr>mk_records := mk_records m @ [(wa_key a, mock_record L a)]\<rparr>, write_ok (''kep_pre_'' @ wa_key a))))"

definition find_by_marker :: "mock_state \<Rightarrow> string \<Rightarrow> dict list" where
  "find_by_marker m marker = filter (\<lambda>r. map_of r ''_marker'' = Some (JStr marker)) (map snd (mk_records m))"

text \<open>\<open>HttpKepPreClaimWriter\<close>: the configured end point, the request it sends and the reading of the reply.\<close>

record http_cfg =
  hc_url :: string
  hc_timeout :: rat
  hc_auth_header :: "string option"
  hc_auth_token_env :: "string option"

datatype claim_writer = Http http_cfg | Injected string

record http_request =
  rq_url :: string
  rq_body :: json
  rq_headers :: "(string \<times> string) list"
  rq_timeout :: rat

datatype http_reply = Reply string | Http_Error int string | Unreachable string

text \<open>The surroundings of the handler: the library, \<open>_writers\<close>, \<open>os.environ\<close>, the HTTP exchange and the
  injected writers, each with its effect on the backend.\<close>

record 'b confirm_env =
  ce_lib :: pylib
  ce_writers :: "(string \<times> claim_writer) list"
  ce_environ :: "string \<Rightarrow> string option"
  ce_post :: "http_request \<Rightarrow> 'b \<Rightarrow> 'b \<times> http_reply"
  ce_injected :: "string \<Rightarrow> write_args \<Rightarrow> 'b \<Rightarrow> 'b \<times> write_result result"
  ce_lookup :: "push_row \<Rightarrow> 'b \<Rightarrow> json option"

definition auth_headers :: "(string \<Rightarrow> string option) \<Rightarrow> string option \<Rightarrow> string option \<Rightarrow> (string \<times> string) list" where
  "auth_headers environ header token_env =
     (case (header, token_env) of
        (Some h, Some e) \<Rightarrow>
          (let token = strip (str_or_empty (environ e)) in if h \<noteq> [] \<and> e \<noteq> [] \<and> token \<noteq> [] then [(h, token)] else [])
      | _ \<Rightarrow> [])"

definition http_body :: "pylib \<Rightarrow> write_args \<Rightarrow> json" where
  "http_body L a =
     JObj (dict_update (wa_values a)
       [(''reason'', JStr (reason_with_marker L a)), (''write_idempotency_key'', JStr (wa_key a)),
        (''registry_id'', JStr (wa_registry_id a)), (''profile_name'', JStr (wa_profile_name a)),
        (''scene'', JStr (sd_scene (wa_scene a)))])"

definition http_req :: "'b confirm_env \<Rightarrow> http_cfg \<Rightarrow> write_args \<Rightarrow> http_request" where
  "http_req E c a =
     \<lparr>rq_url = hc_url c, rq_body = http_body (ce_lib E) a,
      rq_headers = dict_update [(''Content-Type'', ''application/json'')] (auth_headers (ce_environ E) (hc_auth_header c) (hc_auth_token_env c)),
      rq_timeout = hc_timeout c\<rparr>"

definition first_truthy :: "pylib \<Rightarrow> json list \<Rightarrow> string \<Rightarrow> string" where
  "first_truthy L vs dflt = (case filter truthy vs of [] \<Rightarrow> dflt | v # _ \<Rightarrow> py_str L v)"

definition read_reply :: "pylib \<Rightarrow> string \<Rightarrow> http_reply \<Rightarrow> write_result result" where
  "read_reply L key reply =
     (case reply of
        Http_Error code reason \<Rightarrow>
          Inr (if code = 401 \<or> code = 403 then write_failed True (''kep-pre credential expired (HTTP '' @ int_str code @ '')'')
               else write_failed False (''kep-pre HTTP '' @ int_str code @ '': '' @ reason))
      | Unreachable why \<Rightarrow> Inr (write_failed False (''kep-pre unreachable: '' @ why))
      | Reply raw \<Rightarrow>
          (case loads L raw of
             None \<Rightarrow> Inr (write_failed False (''kep-pre bad response: '' @ repr L (JStr (take_chars 200 raw))))
           | Some (JObj d) \<Rightarrow>
               (let rec = dict_of (jget d ''record'')
                in Inr (write_ok (first_truthy L [jget rec ''_backend_id'', jget rec ''backend_id'', jget rec ''seq'',
                     jget d ''backend_id''] key)))
           | Some _ \<Rightarrow> Inl AttributeError))"

definition do_write :: "'b confirm_env \<Rightarrow> claim_writer \<Rightarrow> write_args \<Rightarrow> 'b \<Rightarrow> 'b \<times> write_result result" where
  "do_write E w a b =
     (case w of
        Http c \<Rightarrow> (let (b', reply) = ce_post E (http_req E c a) b in (b', read_reply (ce_lib E) (wa_key a) reply))
      | Injected name \<Rightarrow> ce_injected E name a b)"

definition get_writer :: "'b confirm_env \<Rightarrow> string \<Rightarrow> claim_writer option" where
  "get_writer E name =
     (case map_of (ce_writers E) name of
        Some w \<Rightarrow> Some w
      | None \<Rightarrow> if name = ''kep-pre-claim-writer''
                then Some (Http \<lparr>hc_url = [], hc_timeout = clamp_writer_timeout (JFloat (Finite 10)), hc_auth_header = None,
                  hc_auth_token_env = None\<rparr>)
                else None)"

definition override_writer :: "string \<Rightarrow> claim_writer option \<Rightarrow> (string \<times> claim_writer) list \<Rightarrow> (string \<times> claim_writer) list" where
  "override_writer name w ws = (case w of None \<Rightarrow> dict_pop name ws | Some w \<Rightarrow> dict_set name w ws)"

section \<open>Endpoint and behaviour\<close>

definition resolve_callback :: "'b confirm_env \<Rightarrow> scene_def option \<Rightarrow> push_row \<Rightarrow> callback_config option" where
  "resolve_callback E scene row =
     (case callback_from_json (ce_lib E) (column (p_callback_json row)) of
        Some cb \<Rightarrow> Some cb
      | None \<Rightarrow>
          (case (case scene of None \<Rightarrow> None | Some s \<Rightarrow> sd_callback s) of
             Some cb \<Rightarrow> Some cb
           | None \<Rightarrow>
               (let url = strip (str_or_empty (ce_environ E ''HERMES_PUSH_CARD_WRITER_URL''))
                in if url \<noteq> [] then Some \<lparr>cb_url = url, cb_auth_header = None, cb_auth_token_env = None, cb_timeout_s = 10\<rparr>
                   else None)))"

definition resolve_behaviors :: "pylib \<Rightarrow> scene_def option \<Rightarrow> push_row \<Rightarrow> submit_behaviors" where
  "resolve_behaviors L scene row =
     (case behaviors_from_json L (column (p_behaviors_json row)) of
        Some b \<Rightarrow> b
      | None \<Rightarrow> (case scene of Some s \<Rightarrow> sd_behaviors s | None \<Rightarrow> default_behaviors))"

text \<open>The writer bound to its address, nothing when no writer is known, or the missing address.\<close>

datatype binding = Bound claim_writer | No_Writer | No_Callback

definition bind_endpoint :: "'b confirm_env \<Rightarrow> claim_writer option \<Rightarrow> scene_def \<Rightarrow> push_row \<Rightarrow> binding" where
  "bind_endpoint E w scene row =
     (case w of
        None \<Rightarrow> No_Writer
      | Some (Injected n) \<Rightarrow> Bound (Injected n)
      | Some (Http c) \<Rightarrow>
          if hc_url c \<noteq> [] then Bound (Http c)
          else (case resolve_callback E (Some scene) row of
                  None \<Rightarrow> No_Callback
                | Some cb \<Rightarrow> Bound (Http \<lparr>hc_url = cb_url cb, hc_timeout = clamp_writer_timeout (JInt (cb_timeout_s cb)),
                    hc_auth_header = cb_auth_header cb, hc_auth_token_env = cb_auth_token_env cb\<rparr>)))"

section \<open>Replies to the clicker\<close>

fun join_with :: "string \<Rightarrow> string list \<Rightarrow> string" where
  "join_with sep [] = []"
| "join_with sep [x] = x"
| "join_with sep (x # y # ys) = x @ sep @ join_with sep (y # ys)"

datatype confirm_kind = K_Committed | K_Reauth | K_Failed | K_Reject | K_Noop | K_Not_Owner | K_Invalid | K_Retry

record confirm_result =
  co_kind :: confirm_kind
  co_toast :: "json option"
  co_card :: "json option"
  co_registry_id :: "string option"
  co_written :: bool

definition toast :: "string \<Rightarrow> string \<Rightarrow> json" where
  "toast content level = JObj [(''toast'', JObj [(''type'', JStr level), (''content'', JStr content)])]"

definition toasted :: "confirm_kind \<Rightarrow> string \<Rightarrow> string \<Rightarrow> string \<Rightarrow> confirm_result" where
  "toasted kind content level rid =
     \<lparr>co_kind = kind, co_toast = Some (toast content level), co_card = None, co_registry_id = Some rid, co_written = False\<rparr>"

definition carded :: "confirm_kind \<Rightarrow> json \<Rightarrow> string \<Rightarrow> bool \<Rightarrow> confirm_result" where
  "carded kind c rid written =
     \<lparr>co_kind = kind, co_toast = None, co_card = Some c, co_registry_id = Some rid, co_written = written\<rparr>"

definition summary_md :: "pylib \<Rightarrow> scene_def \<Rightarrow> dict \<Rightarrow> string" where
  "summary_md L scene vals =
     (let ls = concat (map (\<lambda>f. case map_of vals (sf_key f) of None \<Rightarrow> []
            | Some v \<Rightarrow> [''- '' @ sf_label f @ [CHR 0xEF, CHR 0xBC, CHR 0x9A] @ py_str L v]) (sd_fields scene))
      in if ls = [] then [CHR 0xEF, CHR 0xBC, CHR 0x88, CHR 0xE6, CHR 0x97, CHR 0xA0, CHR 0xE5, CHR 0x86, CHR 0x85, CHR 0xE5, CHR 0xAE, CHR 0xB9, CHR 0xEF, CHR 0xBC, CHR 0x89] else join_sep (CHR 0x0A) ls)"

definition button :: "string \<Rightarrow> string \<Rightarrow> bool \<Rightarrow> json \<Rightarrow> json" where
  "button name label primary v =
     JObj ([(''tag'', JStr ''button''), (''name'', JStr name), (''text'', plain_text label)]
       @ (if primary then [(''type'', JStr ''primary'')] else []) @ [(''value'', v)])"

text \<open>\<open>opid\<close> is the random operation id of the button.\<close>

definition result_card ::
  "pylib \<Rightarrow> string \<Rightarrow> scene_def \<Rightarrow> string \<Rightarrow> bool \<Rightarrow> bool \<Rightarrow> bool \<Rightarrow> string \<Rightarrow> string \<Rightarrow> dict \<Rightarrow> json" where
  "result_card L opid scene message ok retryable resubmit rid nonce vals =
     card (sd_name scene) (if ok then ''green'' else ''red'')
       ([markdown (''**'' @ sd_name scene @ ''**''), markdown (summary_md L scene vals),
         markdown ((if ok then [CHR 0xE2, CHR 0x9C, CHR 0x85] @ '' '' else [CHR 0xE2, CHR 0x9A, CHR 0xA0, CHR 0xEF, CHR 0xB8, CHR 0x8F] @ '' '') @ message)]
        @ (if retryable then [button ''push_confirm_retry'' ([CHR 0xE9, CHR 0x87, CHR 0x8D, CHR 0xE8, CHR 0xAF, CHR 0x95]) True (routing_value rid nonce opid)]
           else if resubmit then [button ''push_confirm_resubmit'' ([CHR 0xE9, CHR 0x87, CHR 0x8D, CHR 0xE6, CHR 0x96, CHR 0xB0, CHR 0xE6, CHR 0x8F, CHR 0x90, CHR 0xE4, CHR 0xBA, CHR 0xA4]) False (routing_value rid nonce opid)]
           else []))"

definition reauth_card :: "pylib \<Rightarrow> string \<Rightarrow> scene_def \<Rightarrow> string \<Rightarrow> string \<Rightarrow> dict \<Rightarrow> json" where
  "reauth_card L opid scene rid nonce vals =
     card (sd_name scene) ''orange''
       [markdown (summary_md L scene vals),
        markdown ([CHR 0xE2, CHR 0x9A, CHR 0xA0, CHR 0xEF, CHR 0xB8, CHR 0x8F] @ '' '' @ [CHR 0xE5, CHR 0x87, CHR 0xAD, CHR 0xE8, CHR 0xAF, CHR 0x81, CHR 0xE5, CHR 0xB7, CHR 0xB2, CHR 0xE8, CHR 0xBF, CHR 0x87, CHR 0xE6, CHR 0x9C, CHR 0x9F, CHR 0xEF, CHR 0xBC, CHR 0x8C, CHR 0xE6, CHR 0x9A, CHR 0x82, CHR 0xE6, CHR 0x97, CHR 0xB6, CHR 0xE6, CHR 0x97, CHR 0xA0, CHR 0xE6, CHR 0xB3, CHR 0x95, CHR 0xE5, CHR 0xBD, CHR 0x95, CHR 0xE5, CHR 0x85, CHR 0xA5, CHR 0xE3, CHR 0x80, CHR 0x82, CHR 0xE8, CHR 0xAF, CHR 0xB7, CHR 0xE5, CHR 0x85, CHR 0x88, CHR 0xE7, CHR 0xA7, CHR 0x81, CHR 0xE8, CHR 0x81, CHR 0x8A, CHR 0xE6, CHR 0x88, CHR 0x91, CHR 0xE5, CHR 0x8F, CHR 0x91, CHR 0xE9, CHR 0x80, CHR 0x81] @ '' `/auth` '' @ [CHR 0xE5, CHR 0xAE, CHR 0x8C, CHR 0xE6, CHR 0x88, CHR 0x90, CHR 0xE8, CHR 0xAE, CHR 0xA4, CHR 0xE8, CHR 0xAF, CHR 0x81, CHR 0xEF, CHR 0xBC, CHR 0x8C, CHR 0xE5, CHR 0x86, CHR 0x8D, CHR 0xE7, CHR 0x82, CHR 0xB9, CHR 0xE3, CHR 0x80, CHR 0x8C, CHR 0xE9, CHR 0x87, CHR 0x8D, CHR 0xE8, CHR 0xAF, CHR 0x95, CHR 0xE3, CHR 0x80, CHR 0x8D, CHR 0xE3, CHR 0x80, CHR 0x82]),
        button ''push_confirm_reauth'' ([CHR 0xE5, CHR 0x8E, CHR 0xBB, CHR 0xE8, CHR 0xAE, CHR 0xA4, CHR 0xE8, CHR 0xAF, CHR 0x81]) True (JObj [(''hermes_action'', JStr ''cred_auth''), (''cred'', JStr ''kep-cli-pre'')]),
        button ''push_confirm_retry'' ([CHR 0xE9, CHR 0x87, CHR 0x8D, CHR 0xE8, CHR 0xAF, CHR 0x95]) False (routing_value rid nonce opid)]"

section \<open>The confirm handler\<close>

record click =
  ck_registry_id :: string
  ck_nonce :: string
  ck_operators :: "string list"
  ck_form :: json
  ck_opid :: string

text \<open>What a click carries past the checks.\<close>

record confirm_ctx =
  cx_click :: click
  cx_nonce :: string
  cx_row :: push_row
  cx_scene :: scene_def
  cx_behaviors :: submit_behaviors
  cx_values :: dict
  cx_writer :: claim_writer

datatype pc =
    Start click
  | Claim confirm_ctx
  | Lost_Claim confirm_ctx
  | Writing confirm_ctx
  | Note_Failure confirm_ctx string
  | Commit confirm_ctx
  | Lost_Commit confirm_ctx
  | Rewriting confirm_ctx
  | Recommit confirm_ctx
  | Done confirm_result
  | Raised py_error

definition stored_submission_values :: "pylib \<Rightarrow> push_row \<Rightarrow> dict" where
  "stored_submission_values L row =
     (case stored_object L (column (p_submission_json row)) of None \<Rightarrow> [] | Some d \<Rightarrow> d)"

definition value_missing :: "pylib \<Rightarrow> dict \<Rightarrow> scene_field \<Rightarrow> bool" where
  "value_missing L vals f \<longleftrightarrow> sf_required f
     \<and> strip (if truthy (jget vals (sf_key f)) then py_str L (jget vals (sf_key f)) else []) = []"

definition cx_id :: "confirm_ctx \<Rightarrow> string" where
  "cx_id x = p_registry_id (cx_row x)"

definition the_card :: "pylib \<Rightarrow> confirm_ctx \<Rightarrow> string \<Rightarrow> bool \<Rightarrow> bool \<Rightarrow> bool \<Rightarrow> json" where
  "the_card L x message ok retryable resubmit =
     result_card L (ck_opid (cx_click x)) (cx_scene x) message ok retryable resubmit (cx_id x) (cx_nonce x) (cx_values x)"

text \<open>The checks on the row, up to the first action of the click: everything before the claim uses the one
  read of the row.\<close>

definition dispatch_click :: "'b confirm_env \<Rightarrow> confirm_ctx \<Rightarrow> pc" where
  "dispatch_click E x =
     (if p_status (cx_row x) = Committed
      then (case sb_max_submits (cx_behaviors x) of
              Some m \<Rightarrow> if int (p_write_attempts (cx_row x)) \<ge> m
                         then Done (toasted K_Reject ([CHR 0xE5, CHR 0xB7, CHR 0xB2, CHR 0xE8, CHR 0xBE, CHR 0xBE, CHR 0xE6, CHR 0x9C, CHR 0x80, CHR 0xE5, CHR 0xA4, CHR 0xA7, CHR 0xE6, CHR 0x8F, CHR 0x90, CHR 0xE4, CHR 0xBA, CHR 0xA4, CHR 0xE6, CHR 0xAC, CHR 0xA1, CHR 0xE6, CHR 0x95, CHR 0xB0, CHR 0xEF, CHR 0xBC, CHR 0x88] @ int_str m @ [CHR 0xEF, CHR 0xBC, CHR 0x89, CHR 0xEF, CHR 0xBC, CHR 0x8C, CHR 0xE6, CHR 0x97, CHR 0xA0, CHR 0xE6, CHR 0xB3, CHR 0x95, CHR 0xE5, CHR 0x86, CHR 0x8D, CHR 0xE6, CHR 0xAC, CHR 0xA1, CHR 0xE4, CHR 0xBF, CHR 0xAE, CHR 0xE6, CHR 0x94, CHR 0xB9, CHR 0xE3, CHR 0x80, CHR 0x82]) ''error'' (cx_id x))
                         else Rewriting x
            | None \<Rightarrow> Rewriting x)
      else if p_status (cx_row x) = Clarifying then Claim x
      else Writing x)"

definition check_values :: "'b confirm_env \<Rightarrow> click \<Rightarrow> string \<Rightarrow> push_row \<Rightarrow> scene_def \<Rightarrow> submit_behaviors \<Rightarrow> pc" where
  "check_values E ck nonce row scene beh =
     (case submission_values (ce_lib E) scene (submission_from_form (ce_lib E) scene (ck_form ck)) of
        Inl e \<Rightarrow> Raised e
      | Inr form_values \<Rightarrow>
          (let L = ce_lib E;
               rid = p_registry_id row;
               vals = (if form_values = [] \<and> p_status row \<in> {Confirmed, Committed} then stored_submission_values L row else form_values);
               missing = filter (value_missing L vals) (sd_fields scene)
           in if p_status row = Confirmed \<and> form_values \<noteq> [] \<and> \<not> sb_allow_resubmit beh
              then Done (toasted K_Reject ([CHR 0xE6, CHR 0x8F, CHR 0x90, CHR 0xE4, CHR 0xBA, CHR 0xA4, CHR 0xE5, CHR 0xB7, CHR 0xB2, CHR 0xE9, CHR 0x94, CHR 0x81, CHR 0xE5, CHR 0xAE, CHR 0x9A, CHR 0xEF, CHR 0xBC, CHR 0x8C, CHR 0xE8, CHR 0xAF, CHR 0xB7, CHR 0xE5, CHR 0x8B, CHR 0xBF, CHR 0xE5, CHR 0x9C, CHR 0xA8, CHR 0xE7, CHR 0xA1, CHR 0xAE, CHR 0xE8, CHR 0xAE, CHR 0xA4, CHR 0xE5, CHR 0x90, CHR 0x8E, CHR 0xE4, CHR 0xBF, CHR 0xAE, CHR 0xE6, CHR 0x94, CHR 0xB9, CHR 0xE3, CHR 0x80, CHR 0x82]) ''error'' rid)
              else if missing \<noteq> []
              then Done (toasted K_Reject ([CHR 0xE8, CHR 0xAF, CHR 0xB7, CHR 0xE5, CHR 0xA1, CHR 0xAB, CHR 0xE5, CHR 0x86, CHR 0x99, CHR 0xE5, CHR 0xAE, CHR 0x8C, CHR 0xE6, CHR 0x95, CHR 0xB4, CHR 0xEF, CHR 0xBC, CHR 0x9A] @ join_with ([CHR 0xE3, CHR 0x80, CHR 0x81]) (map sf_label missing) @ [CHR 0xE3, CHR 0x80, CHR 0x82]) ''error'' rid)
              else (case bind_endpoint E (get_writer E (sd_writer scene)) scene row of
                      No_Callback \<Rightarrow>
                        Done (carded K_Failed (result_card L (ck_opid ck) scene ([CHR 0xE6, CHR 0x9C, CHR 0xAA, CHR 0xE9, CHR 0x85, CHR 0x8D, CHR 0xE7, CHR 0xBD, CHR 0xAE, CHR 0xE5, CHR 0x9B, CHR 0x9E, CHR 0xE8, CHR 0xB0, CHR 0x83, CHR 0xE5, CHR 0x9C, CHR 0xB0, CHR 0xE5, CHR 0x9D, CHR 0x80, CHR 0xEF, CHR 0xBC, CHR 0x8C, CHR 0xE8, CHR 0xAF, CHR 0xB7, CHR 0xE4, CHR 0xB8, CHR 0xBA, CHR 0xE8, CHR 0xAF, CHR 0xA5, CHR 0xE5, CHR 0x9C, CHR 0xBA, CHR 0xE6, CHR 0x99, CHR 0xAF, CHR 0xE9, CHR 0x85, CHR 0x8D, CHR 0xE7, CHR 0xBD, CHR 0xAE, CHR 0xE8, CHR 0x90, CHR 0xBD, CHR 0xE5, CHR 0xBA, CHR 0x93, CHR 0xE6, CHR 0x8E, CHR 0xA5, CHR 0xE5, CHR 0x8F, CHR 0xA3, CHR 0xE5, CHR 0x90, CHR 0x8E, CHR 0xE9, CHR 0x87, CHR 0x8D, CHR 0xE8, CHR 0xAF, CHR 0x95, CHR 0xE3, CHR 0x80, CHR 0x82])
                          False False False rid nonce vals) rid False)
                    | No_Writer \<Rightarrow>
                        Done (carded K_Failed (result_card L (ck_opid ck) scene ([CHR 0xE5, CHR 0x86, CHR 0x99, CHR 0xE5, CHR 0x85, CHR 0xA5, CHR 0xE5, CHR 0x99, CHR 0xA8, CHR 0xE6, CHR 0x9C, CHR 0xAA, CHR 0xE5, CHR 0xB0, CHR 0xB1, CHR 0xE7, CHR 0xBB, CHR 0xAA, CHR 0xEF, CHR 0xBC, CHR 0x8C, CHR 0xE8, CHR 0xAF, CHR 0xB7, CHR 0xE7, CHR 0xA8, CHR 0x8D, CHR 0xE5, CHR 0x90, CHR 0x8E, CHR 0xE9, CHR 0x87, CHR 0x8D, CHR 0xE8, CHR 0xAF, CHR 0x95, CHR 0xE3, CHR 0x80, CHR 0x82])
                          False True False rid nonce vals) rid False)
                    | Bound w \<Rightarrow>
                        dispatch_click E \<lparr>cx_click = ck, cx_nonce = nonce, cx_row = row, cx_scene = scene, cx_behaviors = beh,
                          cx_values = vals, cx_writer = w\<rparr>)))"

definition check_row :: "'b confirm_env \<Rightarrow> click \<Rightarrow> string \<Rightarrow> push_row \<Rightarrow> pc" where
  "check_row E ck nonce row =
     (let L = ce_lib E;
          rid = p_registry_id row;
          scene = scene_def_for_row L row;
          beh = resolve_behaviors L scene row;
          target = p_target_open_id row
      in if p_status row = Committed \<and> sb_submit_once beh
         then Done (toasted K_Noop ([CHR 0xE5, CHR 0xB7, CHR 0xB2, CHR 0xE5, CHR 0xBD, CHR 0x95, CHR 0xE5, CHR 0x85, CHR 0xA5] @ '' '' @ [CHR 0xE2, CHR 0x9C, CHR 0x85, CHR 0xEF, CHR 0xBC, CHR 0x8C, CHR 0xE8, CHR 0xAF, CHR 0xB7, CHR 0xE5, CHR 0x8B, CHR 0xBF, CHR 0xE9, CHR 0x87, CHR 0x8D, CHR 0xE5, CHR 0xA4, CHR 0x8D, CHR 0xE6, CHR 0x8F, CHR 0x90, CHR 0xE4, CHR 0xBA, CHR 0xA4, CHR 0xE3, CHR 0x80, CHR 0x82]) ''info'' rid)
         else if p_status row = Expired
         then Done (toasted K_Reject ([CHR 0xE8, CHR 0xAF, CHR 0xA5, CHR 0xE5, CHR 0x8D, CHR 0xA1, CHR 0xE7, CHR 0x89, CHR 0x87, CHR 0xE5, CHR 0xB7, CHR 0xB2, CHR 0xE8, CHR 0xBF, CHR 0x87, CHR 0xE6, CHR 0x9C, CHR 0x9F, CHR 0xEF, CHR 0xBC, CHR 0x8C, CHR 0xE8, CHR 0xAF, CHR 0xB7, CHR 0xE9, CHR 0x87, CHR 0x8D, CHR 0xE6, CHR 0x96, CHR 0xB0, CHR 0xE5, CHR 0x8F, CHR 0x91, CHR 0xE8, CHR 0xB5, CHR 0xB7, CHR 0xE3, CHR 0x80, CHR 0x82]) ''error'' rid)
         else if p_status row \<notin> {Clarifying, Confirmed, Committed}
         then Done (toasted K_Reject ([CHR 0xE8, CHR 0xAF, CHR 0xA5, CHR 0xE5, CHR 0x8D, CHR 0xA1, CHR 0xE7, CHR 0x89, CHR 0x87, CHR 0xE5, CHR 0xBD, CHR 0x93, CHR 0xE5, CHR 0x89, CHR 0x8D, CHR 0xE4, CHR 0xB8, CHR 0x8D, CHR 0xE5, CHR 0x8F, CHR 0xAF, CHR 0xE6, CHR 0x8F, CHR 0x90, CHR 0xE4, CHR 0xBA, CHR 0xA4, CHR 0xE3, CHR 0x80, CHR 0x82]) ''error'' rid)
         else if target \<noteq> [] \<and> target \<notin> set (ck_operators ck)
         then Done (toasted K_Not_Owner ([CHR 0xE5, CHR 0x8F, CHR 0xAA, CHR 0xE6, CHR 0x9C, CHR 0x89, CHR 0xE5, CHR 0x8D, CHR 0xA1, CHR 0xE7, CHR 0x89, CHR 0x87, CHR 0xE7, CHR 0x9A, CHR 0x84, CHR 0xE6, CHR 0x8E, CHR 0xA5, CHR 0xE6, CHR 0x94, CHR 0xB6, CHR 0xE4, CHR 0xBA, CHR 0xBA, CHR 0xE6, CHR 0x9C, CHR 0xAC, CHR 0xE4, CHR 0xBA, CHR 0xBA, CHR 0xE5, CHR 0x8F, CHR 0xAF, CHR 0xE4, CHR 0xBB, CHR 0xA5, CHR 0xE6, CHR 0x8F, CHR 0x90, CHR 0xE4, CHR 0xBA, CHR 0xA4, CHR 0xE3, CHR 0x80, CHR 0x82]) ''error'' rid)
         else if p_nonce row \<noteq> Some nonce
         then Done (toasted K_Reject ([CHR 0xE8, CHR 0xAF, CHR 0xA5, CHR 0xE6, CHR 0x93, CHR 0x8D, CHR 0xE4, CHR 0xBD, CHR 0x9C, CHR 0xE5, CHR 0xB7, CHR 0xB2, CHR 0xE5, CHR 0xA4, CHR 0xB1, CHR 0xE6, CHR 0x95, CHR 0x88, CHR 0xEF, CHR 0xBC, CHR 0x8C, CHR 0xE8, CHR 0xAF, CHR 0xB7, CHR 0xE5, CHR 0x9C, CHR 0xA8, CHR 0xE6, CHR 0x9C, CHR 0x80, CHR 0xE6, CHR 0x96, CHR 0xB0, CHR 0xE7, CHR 0x9A, CHR 0x84, CHR 0xE5, CHR 0x8D, CHR 0xA1, CHR 0xE7, CHR 0x89, CHR 0x87, CHR 0xE4, CHR 0xB8, CHR 0x8A, CHR 0xE7, CHR 0xA1, CHR 0xAE, CHR 0xE8, CHR 0xAE, CHR 0xA4, CHR 0xE3, CHR 0x80, CHR 0x82]) ''error'' rid)
         else (case scene of
                 None \<Rightarrow> Done (toasted K_Invalid ([CHR 0xE5, CHR 0x9C, CHR 0xBA, CHR 0xE6, CHR 0x99, CHR 0xAF, CHR 0xE9, CHR 0x85, CHR 0x8D, CHR 0xE7, CHR 0xBD, CHR 0xAE, CHR 0xE7, CHR 0xBC, CHR 0xBA, CHR 0xE5, CHR 0xA4, CHR 0xB1, CHR 0xE3, CHR 0x80, CHR 0x82]) ''error'' rid)
               | Some s \<Rightarrow> check_values E ck nonce row s beh))"

definition STALE_CARD_MSG :: string where
  "STALE_CARD_MSG = [CHR 0xE8, CHR 0xAF, CHR 0xA5, CHR 0xE5, CHR 0x8D, CHR 0xA1, CHR 0xE7, CHR 0x89, CHR 0x87, CHR 0xE5, CHR 0xB7, CHR 0xB2, CHR 0xE5, CHR 0xA4, CHR 0xB1, CHR 0xE6, CHR 0x95, CHR 0x88, CHR 0xE6, CHR 0x88, CHR 0x96, CHR 0xE5, CHR 0xB7, CHR 0xB2, CHR 0xE5, CHR 0xBD, CHR 0x95, CHR 0xE5, CHR 0x85, CHR 0xA5, CHR 0xEF, CHR 0xBC, CHR 0x8C, CHR 0xE8, CHR 0xAF, CHR 0xB7, CHR 0xE4, CHR 0xBD, CHR 0xBF, CHR 0xE7, CHR 0x94, CHR 0xA8, CHR 0xE6, CHR 0x9C, CHR 0x80, CHR 0xE6, CHR 0x96, CHR 0xB0, CHR 0xE7, CHR 0x9A, CHR 0x84, CHR 0xE5, CHR 0x8D, CHR 0xA1, CHR 0xE7, CHR 0x89, CHR 0x87, CHR 0xE3, CHR 0x80, CHR 0x82]"

definition check_click :: "'b confirm_env \<Rightarrow> click \<Rightarrow> push_db \<Rightarrow> pc" where
  "check_click E ck db =
     (let rid = strip (ck_registry_id ck); nonce = strip (ck_nonce ck)
      in if rid = [] \<or> nonce = []
         then Done \<lparr>co_kind = K_Invalid, co_toast = Some (toast STALE_CARD_MSG ''error''), co_card = None,
                co_registry_id = None, co_written = False\<rparr>
         else (case push_get db rid of
                 None \<Rightarrow> Done (toasted K_Invalid STALE_CARD_MSG ''error'' rid)
               | Some row \<Rightarrow> check_row E ck nonce row))"

definition claim_args :: "pylib \<Rightarrow> confirm_ctx \<Rightarrow> advance_args" where
  "claim_args L x = confirm_args (cx_nonce x) (Some (dumps L (JObj (cx_values x))))"

definition failure_args :: "string \<Rightarrow> advance_args" where
  "failure_args err = \<lparr>aa_expect = Confirmed, aa_to = Confirmed, aa_expect_nonce = None, aa_clear_nonce = False,
     aa_submission = None, aa_message_id = None, aa_last_error = Some err, aa_bump_write_attempts = False\<rparr>"

definition commit_args :: "pylib \<Rightarrow> confirm_ctx \<Rightarrow> advance_args" where
  "commit_args L x = \<lparr>aa_expect = Confirmed, aa_to = Committed, aa_expect_nonce = None,
     aa_clear_nonce = sb_submit_once (cx_behaviors x), aa_submission = Some (dumps L (JObj (cx_values x))), aa_message_id = None,
     aa_last_error = None, aa_bump_write_attempts = True\<rparr>"

definition recommit_args :: "pylib \<Rightarrow> confirm_ctx \<Rightarrow> advance_args" where
  "recommit_args L x = \<lparr>aa_expect = Committed, aa_to = Committed, aa_expect_nonce = None, aa_clear_nonce = False,
     aa_submission = Some (dumps L (JObj (cx_values x))), aa_message_id = None, aa_last_error = None, aa_bump_write_attempts = True\<rparr>"

text \<open>A compare-and-swap, with the program points for a win and for a loss.\<close>

definition cas :: "int \<Rightarrow> push_db \<Rightarrow> string \<Rightarrow> advance_args \<Rightarrow> pc \<Rightarrow> pc \<Rightarrow> pc \<times> push_db" where
  "cas now db rid a won lost =
     (case advance_status now db rid a of Inl e \<Rightarrow> (Raised e, db) | Inr (db', ok) \<Rightarrow> (if ok then won else lost, db'))"

definition fresh_row :: "push_db \<Rightarrow> confirm_ctx \<Rightarrow> push_row" where
  "fresh_row db x = (case push_get db (cx_id x) of None \<Rightarrow> cx_row x | Some r \<Rightarrow> r)"

definition error_text :: "py_error \<Rightarrow> string" where
  "error_text e = (case e of
       ValueError m \<Rightarrow> ''ValueError: '' @ m
     | RuntimeError m \<Rightarrow> ''RuntimeError: '' @ m
     | PermissionError m \<Rightarrow> ''PermissionError: '' @ m
     | AttributeError \<Rightarrow> ''AttributeError: get''
     | _ \<Rightarrow> ''Exception: '')"

definition call_args :: "confirm_ctx \<Rightarrow> write_args" where
  "call_args x = \<lparr>wa_scene = cx_scene x, wa_values = cx_values x, wa_registry_id = cx_id x, wa_key = cx_id x,
     wa_profile_name = p_profile_name (cx_row x)\<rparr>"

text \<open>\<open>writer.write\<close> with the exception handler around it.\<close>

definition call_writer :: "'b confirm_env \<Rightarrow> confirm_ctx \<Rightarrow> 'b \<Rightarrow> 'b \<times> write_result" where
  "call_writer E x b =
     (let (b', r) = do_write E (cx_writer x) (call_args x) b
      in (b', case r of Inl e \<Rightarrow> write_failed False (error_text e) | Inr res \<Rightarrow> res))"

definition after_write :: "pylib \<Rightarrow> confirm_ctx \<Rightarrow> write_result \<Rightarrow> pc" where
  "after_write L x res =
     (if wr_credential_expired res
      then Done (carded K_Reauth (reauth_card L (ck_opid (cx_click x)) (cx_scene x) (cx_id x) (cx_nonce x) (cx_values x)) (cx_id x) False)
      else if \<not> wr_ok res then Note_Failure x (str_or_empty (wr_error res))
      else Commit x)"

definition after_rewrite :: "pylib \<Rightarrow> confirm_ctx \<Rightarrow> write_result \<Rightarrow> pc" where
  "after_rewrite L x res =
     (if wr_credential_expired res
      then Done (carded K_Reauth (reauth_card L (ck_opid (cx_click x)) (cx_scene x) (cx_id x) (cx_nonce x) (cx_values x)) (cx_id x) False)
      else if \<not> wr_ok res
      then Done (carded K_Failed (the_card L x ([CHR 0xE6, CHR 0x9B, CHR 0xB4, CHR 0xE6, CHR 0x96, CHR 0xB0, CHR 0xE5, CHR 0xA4, CHR 0xB1, CHR 0xE8, CHR 0xB4, CHR 0xA5, CHR 0xEF, CHR 0xBC, CHR 0x9A] @ py_or (str_or_empty (wr_error res)) ([CHR 0xE6, CHR 0x9C, CHR 0xAA, CHR 0xE7, CHR 0x9F, CHR 0xA5, CHR 0xE9, CHR 0x94, CHR 0x99, CHR 0xE8, CHR 0xAF, CHR 0xAF]) @ [CHR 0xEF, CHR 0xBC, CHR 0x8C, CHR 0xE8, CHR 0xAF, CHR 0xB7, CHR 0xE9, CHR 0x87, CHR 0x8D, CHR 0xE8, CHR 0xAF, CHR 0x95, CHR 0xE3, CHR 0x80, CHR 0x82])
             False True True) (cx_id x) False)
      else Recommit x)"

fun confirm_step :: "'b confirm_env \<Rightarrow> int \<Rightarrow> pc \<Rightarrow> push_db \<Rightarrow> 'b \<Rightarrow> pc \<times> push_db \<times> 'b" where
  "confirm_step E now (Start ck) db b = (check_click E ck db, db, b)"
| "confirm_step E now (Claim x) db b =
     (let (p, db') = cas now db (cx_id x) (claim_args (ce_lib E) x) (Writing x) (Lost_Claim x) in (p, db', b))"
| "confirm_step E now (Lost_Claim x) db b =
     (let fresh = fresh_row db x; L = ce_lib E
      in (if p_status fresh = Committed then Done (toasted K_Noop ([CHR 0xE5, CHR 0xB7, CHR 0xB2, CHR 0xE5, CHR 0xBD, CHR 0x95, CHR 0xE5, CHR 0x85, CHR 0xA5] @ '' '' @ [CHR 0xE2, CHR 0x9C, CHR 0x85, CHR 0xEF, CHR 0xBC, CHR 0x8C, CHR 0xE8, CHR 0xAF, CHR 0xB7, CHR 0xE5, CHR 0x8B, CHR 0xBF, CHR 0xE9, CHR 0x87, CHR 0x8D, CHR 0xE5, CHR 0xA4, CHR 0x8D, CHR 0xE6, CHR 0x8F, CHR 0x90, CHR 0xE4, CHR 0xBA, CHR 0xA4, CHR 0xE3, CHR 0x80, CHR 0x82]) ''info'' (cx_id x))
          else if p_status fresh = Confirmed
          then Done (carded K_Retry (result_card L (ck_opid (cx_click x)) (cx_scene x) ([CHR 0xE6, CHR 0xAD, CHR 0xA3, CHR 0xE5, CHR 0x9C, CHR 0xA8, CHR 0xE5, CHR 0xA4, CHR 0x84, CHR 0xE7, CHR 0x90, CHR 0x86, CHR 0xE4, CHR 0xBD, CHR 0xA0, CHR 0xE7, CHR 0x9A, CHR 0x84, CHR 0xE6, CHR 0x8F, CHR 0x90, CHR 0xE4, CHR 0xBA, CHR 0xA4, CHR 0xEF, CHR 0xBC, CHR 0x8C, CHR 0xE5, CHR 0xA6, CHR 0x82, CHR 0xE6, CHR 0x9C, CHR 0xAA, CHR 0xE5, CHR 0xAE, CHR 0x8C, CHR 0xE6, CHR 0x88, CHR 0x90, CHR 0xE5, CHR 0x8F, CHR 0xAF, CHR 0xE7, CHR 0x82, CHR 0xB9, CHR 0xE3, CHR 0x80, CHR 0x8C, CHR 0xE9, CHR 0x87, CHR 0x8D, CHR 0xE8, CHR 0xAF, CHR 0x95, CHR 0xE3, CHR 0x80, CHR 0x8D, CHR 0xE3, CHR 0x80, CHR 0x82])
                 False True False (cx_id x) (cx_nonce x)
                 (let sv = stored_submission_values L fresh in if sv = [] then cx_values x else sv)) (cx_id x) False)
          else Done (toasted K_Reject ([CHR 0xE8, CHR 0xAF, CHR 0xA5, CHR 0xE6, CHR 0x93, CHR 0x8D, CHR 0xE4, CHR 0xBD, CHR 0x9C, CHR 0xE5, CHR 0xB7, CHR 0xB2, CHR 0xE5, CHR 0xA4, CHR 0xB1, CHR 0xE6, CHR 0x95, CHR 0x88, CHR 0xEF, CHR 0xBC, CHR 0x8C, CHR 0xE8, CHR 0xAF, CHR 0xB7, CHR 0xE5, CHR 0x9C, CHR 0xA8, CHR 0xE6, CHR 0x9C, CHR 0x80, CHR 0xE6, CHR 0x96, CHR 0xB0, CHR 0xE7, CHR 0x9A, CHR 0x84, CHR 0xE5, CHR 0x8D, CHR 0xA1, CHR 0xE7, CHR 0x89, CHR 0x87, CHR 0xE4, CHR 0xB8, CHR 0x8A, CHR 0xE7, CHR 0xA1, CHR 0xAE, CHR 0xE8, CHR 0xAE, CHR 0xA4, CHR 0xE3, CHR 0x80, CHR 0x82]) ''error'' (cx_id x)), db, b))"
| "confirm_step E now (Writing x) db b =
     (let (b', res) = call_writer E x b in (after_write (ce_lib E) x res, db, b'))"
| "confirm_step E now (Note_Failure x err) db b =
     (let failed = Done (carded K_Failed (the_card (ce_lib E) x ([CHR 0xE5, CHR 0xBD, CHR 0x95, CHR 0xE5, CHR 0x85, CHR 0xA5, CHR 0xE5, CHR 0xA4, CHR 0xB1, CHR 0xE8, CHR 0xB4, CHR 0xA5, CHR 0xEF, CHR 0xBC, CHR 0x9A] @ py_or err ([CHR 0xE6, CHR 0x9C, CHR 0xAA, CHR 0xE7, CHR 0x9F, CHR 0xA5, CHR 0xE9, CHR 0x94, CHR 0x99, CHR 0xE8, CHR 0xAF, CHR 0xAF]) @ [CHR 0xEF, CHR 0xBC, CHR 0x8C, CHR 0xE8, CHR 0xAF, CHR 0xB7, CHR 0xE9, CHR 0x87, CHR 0x8D, CHR 0xE8, CHR 0xAF, CHR 0x95, CHR 0xE3, CHR 0x80, CHR 0x82])
             False True False) (cx_id x) False);
          (p, db') = cas now db (cx_id x) (failure_args (py_or err ''write failed'')) failed failed
      in (p, db', b))"
| "confirm_step E now (Commit x) db b =
     (let (p, db') = cas now db (cx_id x) (commit_args (ce_lib E) x)
            (Done (carded K_Committed (the_card (ce_lib E) x ([CHR 0xE5, CHR 0xB7, CHR 0xB2, CHR 0xE5, CHR 0xBD, CHR 0x95, CHR 0xE5, CHR 0x85, CHR 0xA5] @ '' '' @ [CHR 0xE2, CHR 0x9C, CHR 0x85]) True False (\<not> sb_submit_once (cx_behaviors x))) (cx_id x) True))
            (Lost_Commit x)
      in (p, db', b))"
| "confirm_step E now (Lost_Commit x) db b =
     (if p_status (fresh_row db x) = Committed
      then Done (toasted K_Noop ([CHR 0xE5, CHR 0xB7, CHR 0xB2, CHR 0xE5, CHR 0xBD, CHR 0x95, CHR 0xE5, CHR 0x85, CHR 0xA5] @ '' '' @ [CHR 0xE2, CHR 0x9C, CHR 0x85, CHR 0xEF, CHR 0xBC, CHR 0x8C, CHR 0xE8, CHR 0xAF, CHR 0xB7, CHR 0xE5, CHR 0x8B, CHR 0xBF, CHR 0xE9, CHR 0x87, CHR 0x8D, CHR 0xE5, CHR 0xA4, CHR 0x8D, CHR 0xE6, CHR 0x8F, CHR 0x90, CHR 0xE4, CHR 0xBA, CHR 0xA4, CHR 0xE3, CHR 0x80, CHR 0x82]) ''info'' (cx_id x))
      else Done (carded K_Retry (the_card (ce_lib E) x ([CHR 0xE5, CHR 0xBD, CHR 0x95, CHR 0xE5, CHR 0x85, CHR 0xA5, CHR 0xE7, CHR 0xBB, CHR 0x93, CHR 0xE6, CHR 0x9E, CHR 0x9C, CHR 0xE7, CHR 0xA1, CHR 0xAE, CHR 0xE8, CHR 0xAE, CHR 0xA4, CHR 0xE4, CHR 0xB8, CHR 0xAD, CHR 0xEF, CHR 0xBC, CHR 0x8C, CHR 0xE5, CHR 0xA6, CHR 0x82, CHR 0xE6, CHR 0x9C, CHR 0xAA, CHR 0xE5, CHR 0xAE, CHR 0x8C, CHR 0xE6, CHR 0x88, CHR 0x90, CHR 0xE5, CHR 0x8F, CHR 0xAF, CHR 0xE7, CHR 0x82, CHR 0xB9, CHR 0xE3, CHR 0x80, CHR 0x8C, CHR 0xE9, CHR 0x87, CHR 0x8D, CHR 0xE8, CHR 0xAF, CHR 0x95, CHR 0xE3, CHR 0x80, CHR 0x8D, CHR 0xE3, CHR 0x80, CHR 0x82]) False True False) (cx_id x) False), db, b)"
| "confirm_step E now (Rewriting x) db b =
     (let (b', res) = call_writer E x b in (after_rewrite (ce_lib E) x res, db, b'))"
| "confirm_step E now (Recommit x) db b =
     (let done = Done (carded K_Committed (the_card (ce_lib E) x ([CHR 0xE5, CHR 0xB7, CHR 0xB2, CHR 0xE6, CHR 0x9B, CHR 0xB4, CHR 0xE6, CHR 0x96, CHR 0xB0] @ '' '' @ [CHR 0xE2, CHR 0x9C, CHR 0x85]) True False True) (cx_id x) True);
          (p, db') = cas now db (cx_id x) (recommit_args (ce_lib E) x) done done
      in (p, db', b))"
| "confirm_step E now (Done r) db b = (Done r, db, b)"
| "confirm_step E now (Raised e) db b = (Raised e, db, b)"

text \<open>The longest path has five actions.\<close>

fun run_pc :: "'b confirm_env \<Rightarrow> int list \<Rightarrow> pc \<Rightarrow> push_db \<Rightarrow> 'b \<Rightarrow> pc \<times> push_db \<times> 'b" where
  "run_pc E [] p db b = (p, db, b)"
| "run_pc E (now # nows) p db b = (let (p', db', b') = confirm_step E now p db b in run_pc E nows p' db' b')"

definition handle_confirm :: "'b confirm_env \<Rightarrow> int \<Rightarrow> click \<Rightarrow> push_db \<Rightarrow> 'b \<Rightarrow> pc \<times> push_db \<times> 'b" where
  "handle_confirm E now ck db b = run_pc E (replicate 5 now) (Start ck) db b"

section \<open>From the card action to the click\<close>

text \<open>\<open>_read_action_value\<close>: an object, or a text that parses.\<close>

definition read_action_value :: "pylib \<Rightarrow> json \<Rightarrow> json" where
  "read_action_value L v = (case v of JObj d \<Rightarrow> v | JStr s \<Rightarrow> (case loads L s of None \<Rightarrow> JNull | Some j \<Rightarrow> j) | _ \<Rightarrow> JNull)"

definition is_confirm_value :: "json \<Rightarrow> bool" where
  "is_confirm_value v = (case v of JObj d \<Rightarrow> map_of d ''hermes_action'' = Some (JStr ''push_confirm'') | _ \<Rightarrow> False)"

definition is_push_confirm_action :: "pylib \<Rightarrow> json \<Rightarrow> json \<Rightarrow> json \<Rightarrow> bool" where
  "is_push_confirm_action L v form_value name \<longleftrightarrow>
     is_confirm_value v \<or> is_confirm_value (read_action_value L form_value)
     \<or> (case name of JStr n \<Rightarrow> startswith n ''push_confirm_submit_'' | _ \<Rightarrow> False)"

definition ids_from :: "pylib \<Rightarrow> json \<Rightarrow> (string \<times> string) option" where
  "ids_from L v =
     (case v of
        JObj d \<Rightarrow> if truthy (jget d ''registry_id'') then Some (str_get_or L d ''registry_id'' [], str_get_or L d ''nonce'' []) else None
      | _ \<Rightarrow> None)"

definition routing_ids :: "pylib \<Rightarrow> json \<Rightarrow> json \<Rightarrow> string \<times> string" where
  "routing_ids L v form_value =
     (case ids_from L v of
        Some p \<Rightarrow> p
      | None \<Rightarrow> (case ids_from L (read_action_value L form_value) of Some p \<Rightarrow> p | None \<Rightarrow> ([], [])))"

definition recover_open_row :: "int \<Rightarrow> push_db \<Rightarrow> string list \<Rightarrow> push_row option" where
  "recover_open_row now db operators =
     (let seen = foldl (\<lambda>d r. dict_set (p_registry_id r) r d) []
            (concat (map (\<lambda>oid. filter (\<lambda>r. p_status r = Clarifying) (list_open_for_user db oid now)) operators))
      in case seen of [(_, r)] \<Rightarrow> Some r | _ \<Rightarrow> None)"

text \<open>The signed operator of the event, and its open ids, resolved through the routing table when there is one.\<close>

definition pick :: "pylib \<Rightarrow> dict \<Rightarrow> string list \<Rightarrow> string" where
  "pick L operator names = strip (first_truthy L (map (jget operator) names) [])"

definition resolve_operator_open_ids :: "pylib \<Rightarrow> routes option \<Rightarrow> dict \<Rightarrow> string list" where
  "resolve_operator_open_ids L table operator =
     (let open_id = pick L operator [''open_id'', ''operator_open_id''];
          union_id = pick L operator [''union_id'', ''operator_union_id''];
          user_id = pick L operator [''user_id'', ''operator_user_id''];
          row = (case table of
                   None \<Rightarrow> None
                 | Some t \<Rightarrow>
                     (let by_open = (if open_id \<noteq> [] then lookup_by_open_id t open_id else None);
                          by_union = (if by_open = None \<and> union_id \<noteq> [] then lookup_by_union_id t union_id else by_open)
                      in if by_union = None \<and> user_id \<noteq> [] then lookup_by_user_id t user_id else by_union));
          resolved = strip (case row of None \<Rightarrow> [] | Some r \<Rightarrow> str_or_empty (r_open_id r))
      in (if open_id \<noteq> [] then [open_id] else []) @ (if resolved \<noteq> [] \<and> resolved \<noteq> open_id then [resolved] else []))"

definition click_of :: "pylib \<Rightarrow> routes option \<Rightarrow> int \<Rightarrow> string \<Rightarrow> push_db \<Rightarrow> dict \<Rightarrow> json \<Rightarrow> json \<Rightarrow> click" where
  "click_of L table now opid db operator v form_value =
     (let ids = routing_ids L v form_value;
          operators = resolve_operator_open_ids L table operator;
          (rid, nonce) = (if fst ids \<noteq> [] \<and> snd ids \<noteq> [] then ids
            else (case recover_open_row now db operators of
                    None \<Rightarrow> ids
                  | Some r \<Rightarrow> (p_registry_id r, str_or_empty (p_nonce r))))
      in \<lparr>ck_registry_id = rid, ck_nonce = nonce, ck_operators = operators, ck_form = form_value, ck_opid = opid\<rparr>)"

definition compute_confirm_result ::
  "'b confirm_env \<Rightarrow> routes option \<Rightarrow> int \<Rightarrow> string \<Rightarrow> dict \<Rightarrow> json \<Rightarrow> json \<Rightarrow> push_db \<Rightarrow> 'b \<Rightarrow> pc \<times> push_db \<times> 'b" where
  "compute_confirm_result E table now opid operator v form_value db b =
     handle_confirm E now (click_of (ce_lib E) table now opid db operator v form_value) db b"

section \<open>Interleavings\<close>

text \<open>One call of a writer, with what it returned.\<close>

record write_call =
  wc_ctx :: confirm_ctx
  wc_result :: write_result

record 'b confirm_sys =
  cs_db :: push_db
  cs_backend :: 'b
  cs_threads :: "pc list"
  cs_calls :: "write_call list"
  cs_found :: "(string \<times> json) list"

text \<open>What the other users of the registry do to it: any operation, but \<open>advance_status\<close> only for the fill
  loop or an expiry sweep. The reconcile sweep asks the backend and, any time later, backfills.\<close>

definition other_op :: "push_op \<Rightarrow> bool" where
  "other_op opr = (case opr of
       Advance now rid a \<Rightarrow> (aa_expect a, aa_to a) \<in> {(Pending, Clarifying), (Clarifying, Clarifying), (Sending, Expired), (Pending, Expired), (Clarifying, Expired)}
     | _ \<Rightarrow> True)"

definition reconcile_args :: "pylib \<Rightarrow> json \<Rightarrow> advance_args" where
  "reconcile_args L rec = \<lparr>aa_expect = Confirmed, aa_to = Committed, aa_expect_nonce = None, aa_clear_nonce = False,
     aa_submission = (case rec of JObj _ \<Rightarrow> Some (dumps L rec) | _ \<Rightarrow> None), aa_message_id = None, aa_last_error = None,
     aa_bump_write_attempts = False\<rparr>"

definition calls_made :: "'b confirm_env \<Rightarrow> pc \<Rightarrow> 'b \<Rightarrow> write_call list" where
  "calls_made E p b = (case p of
       Writing x \<Rightarrow> [\<lparr>wc_ctx = x, wc_result = snd (call_writer E x b)\<rparr>]
     | Rewriting x \<Rightarrow> [\<lparr>wc_ctx = x, wc_result = snd (call_writer E x b)\<rparr>]
     | _ \<Rightarrow> [])"

inductive sys_step :: "'b confirm_env \<Rightarrow> 'b confirm_sys \<Rightarrow> 'b confirm_sys \<Rightarrow> bool" for E where
  new_click: "sys_step E s (s\<lparr>cs_threads := cs_threads s @ [Start ck]\<rparr>)"
| thread: "i < length (cs_threads s) \<Longrightarrow> confirm_step E now (cs_threads s ! i) (cs_db s) (cs_backend s) = (p, db, b) \<Longrightarrow>
    sys_step E s (s\<lparr>cs_db := db, cs_backend := b, cs_threads := (cs_threads s)[i := p],
      cs_calls := cs_calls s @ calls_made E (cs_threads s ! i) (cs_backend s)\<rparr>)"
| other: "other_op opr \<Longrightarrow> sys_step E s (s\<lparr>cs_db := push_exec opr (cs_db s)\<rparr>)"
| probe: "r \<in> set (list_stale_confirmed (cs_db s) older) \<Longrightarrow> ce_lookup E r (cs_backend s) = Some rec \<Longrightarrow>
    sys_step E s (s\<lparr>cs_found := cs_found s @ [(p_registry_id r, rec)]\<rparr>)"
| backfill: "(rid, rec) \<in> set (cs_found s) \<Longrightarrow>
    sys_step E s (s\<lparr>cs_db := push_exec (Advance now rid (reconcile_args (ce_lib E) rec)) (cs_db s)\<rparr>)"

definition initial :: "'b \<Rightarrow> 'b confirm_sys" where
  "initial b = \<lparr>cs_db = empty_registry, cs_backend = b, cs_threads = [], cs_calls = [], cs_found = []\<rparr>"

definition reachable :: "'b confirm_env \<Rightarrow> 'b \<Rightarrow> 'b confirm_sys \<Rightarrow> bool" where
  "reachable E b s \<longleftrightarrow> (sys_step E)\<^sup>*\<^sup>* (initial b) s"

section \<open>Single clicks\<close>

fun pc_rank :: "pc \<Rightarrow> nat" where
  "pc_rank (Start _) = 5"
| "pc_rank (Claim _) = 4"
| "pc_rank (Writing _) = 3"
| "pc_rank (Commit _) = 2"
| "pc_rank (Rewriting _) = 2"
| "pc_rank (Lost_Claim _) = 1"
| "pc_rank (Note_Failure _ _) = 1"
| "pc_rank (Lost_Commit _) = 1"
| "pc_rank (Recommit _) = 1"
| "pc_rank (Done _) = 0"
| "pc_rank (Raised _) = 0"

fun pc_ctx :: "pc \<Rightarrow> confirm_ctx option" where
  "pc_ctx (Claim x) = Some x"
| "pc_ctx (Writing x) = Some x"
| "pc_ctx (Commit x) = Some x"
| "pc_ctx (Rewriting x) = Some x"
| "pc_ctx (Lost_Claim x) = Some x"
| "pc_ctx (Note_Failure x e) = Some x"
| "pc_ctx (Lost_Commit x) = Some x"
| "pc_ctx (Recommit x) = Some x"
| "pc_ctx _ = None"

text \<open>What the checks establish of a click that goes on to the backend.\<close>

definition authorised :: "'b confirm_env \<Rightarrow> confirm_ctx \<Rightarrow> bool" where
  "authorised E x \<longleftrightarrow>
     cx_id x = strip (ck_registry_id (cx_click x)) \<and> cx_nonce x = strip (ck_nonce (cx_click x))
   \<and> p_nonce (cx_row x) = Some (cx_nonce x)
   \<and> (p_target_open_id (cx_row x) = [] \<or> p_target_open_id (cx_row x) \<in> set (ck_operators (cx_click x)))
   \<and> p_status (cx_row x) \<in> {Clarifying, Confirmed, Committed}
   \<and> (p_status (cx_row x) = Committed \<longrightarrow> \<not> sb_submit_once (cx_behaviors x))
   \<and> scene_def_for_row (ce_lib E) (cx_row x) = Some (cx_scene x)
   \<and> bind_endpoint E (get_writer E (sd_writer (cx_scene x))) (cx_scene x) (cx_row x) = Bound (cx_writer x)
   \<and> (\<forall>f \<in> set (sd_fields (cx_scene x)). \<not> value_missing (ce_lib E) (cx_values x) f)"

lemma form_values_plain:
  "\<exists>vals. submission_values L scene (submission_from_form L scene fv) = Inr vals"
  using submission_values_plain [of "submission_from_form L scene fv" scene L]
  by (metis controls_plain submission_from_form_def)

lemma dispatch_click_cases:
  assumes "p_status (cx_row x) \<in> {Clarifying, Confirmed, Committed}"
  shows "(\<exists>r. dispatch_click E x = Done r) \<or> dispatch_click E x = Claim x \<or> dispatch_click E x = Writing x
    \<or> dispatch_click E x = Rewriting x"
  using assms by (auto simp: dispatch_click_def split: option.splits)

lemma check_values_cases:
  assumes "scene_def_for_row (ce_lib E) row = Some scene" "p_status row \<in> {Clarifying, Confirmed, Committed}"
    "p_status row = Committed \<longrightarrow> \<not> sb_submit_once beh" "p_nonce row = Some nonce"
    "p_target_open_id row = [] \<or> p_target_open_id row \<in> set (ck_operators ck)"
    "p_registry_id row = strip (ck_registry_id ck)" "nonce = strip (ck_nonce ck)"
  shows "(\<exists>r. check_values E ck nonce row scene beh = Done r)
    \<or> (\<exists>x. cx_row x = row \<and> authorised E x \<and> check_values E ck nonce row scene beh \<in> {Claim x, Writing x, Rewriting x})"
proof -
  let ?L = "ce_lib E"
  obtain fv where fv: "submission_values ?L scene (submission_from_form ?L scene (ck_form ck)) = Inr fv"
    using form_values_plain by blast
  let ?vals = "if fv = [] \<and> p_status row \<in> {Confirmed, Committed} then stored_submission_values ?L row else fv"
  show ?thesis
  proof (cases "bind_endpoint E (get_writer E (sd_writer scene)) scene row")
    case (Bound w)
    let ?x = "\<lparr>cx_click = ck, cx_nonce = nonce, cx_row = row, cx_scene = scene, cx_behaviors = beh, cx_values = ?vals, cx_writer = w\<rparr>"
    show ?thesis
    proof (cases "filter (value_missing ?L ?vals) (sd_fields scene) = []")
      case True
      have "authorised E ?x"
        using assms True Bound by (auto simp: authorised_def cx_id_def filter_empty_conv)
      moreover have "(\<exists>r. check_values E ck nonce row scene beh = Done r)
          \<or> check_values E ck nonce row scene beh = dispatch_click E ?x"
        using True by (simp add: check_values_def fv Let_def Bound)
      ultimately show ?thesis
        using dispatch_click_cases [of ?x E] assms(2) by (metis confirm_ctx.select_convs(3) insertCI)
    next
      case False
      then show ?thesis unfolding check_values_def fv Let_def by auto
    qed
  qed (auto simp: check_values_def fv Let_def)
qed

lemma check_click_cases:
  "(\<exists>r. check_click E ck db = Done r)
   \<or> (\<exists>x. push_get db (cx_id x) = Some (cx_row x) \<and> authorised E x \<and> check_click E ck db \<in> {Claim x, Writing x, Rewriting x})"
proof (cases "push_get db (strip (ck_registry_id ck))")
  case (Some row)
  let ?nonce = "strip (ck_nonce ck)"
  have rid: "p_registry_id row = strip (ck_registry_id ck)" by (rule push_get_id [OF Some])
  have "(\<exists>r. check_row E ck ?nonce row = Done r)
    \<or> (\<exists>x. cx_row x = row \<and> authorised E x \<and> check_row E ck ?nonce row \<in> {Claim x, Writing x, Rewriting x})"
  proof (cases "scene_def_for_row (ce_lib E) row")
    case None
    then show ?thesis by (auto simp: check_row_def Let_def)
  next
    case scene: (Some s)
    show ?thesis
      using check_values_cases [OF scene _ _ _ _ rid refl, of "resolve_behaviors (ce_lib E) (Some s) row"]
      unfolding check_row_def Let_def scene by auto
  qed
  then show ?thesis using Some rid unfolding check_click_def Let_def by (auto simp: cx_id_def)
qed (auto simp: check_click_def Let_def)

lemma cas_db: "snd (cas now db rid a w l) = push_exec (Advance now rid a) db"
  by (simp add: cas_def split: sum.split prod.split)

lemma cas_pc: "fst (cas now db rid a w l) \<in> {w, l} \<union> range Raised"
  by (auto simp: cas_def split: sum.split prod.split)

lemma cas_step: "(let (p, db') = cas now db rid a w l in (p, db', b)) = (fst (cas now db rid a w l), push_exec (Advance now rid a) db, b)"
  by (simp add: split_beta cas_db del: push_exec.simps)

text \<open>The step function with the compare-and-swaps written as registry operations.\<close>

lemma step_simps:
  "confirm_step E now (Claim x) db b = (fst (cas now db (cx_id x) (claim_args (ce_lib E) x) (Writing x) (Lost_Claim x)),
     push_exec (Advance now (cx_id x) (claim_args (ce_lib E) x)) db, b)"
  "confirm_step E now (Writing x) db b = (after_write (ce_lib E) x (snd (call_writer E x b)), db, fst (call_writer E x b))"
  "confirm_step E now (Rewriting x) db b = (after_rewrite (ce_lib E) x (snd (call_writer E x b)), db, fst (call_writer E x b))"
  "snd (confirm_step E now (Note_Failure x err) db b) = (push_exec (Advance now (cx_id x) (failure_args (py_or err ''write failed''))) db, b)"
  "snd (confirm_step E now (Commit x) db b) = (push_exec (Advance now (cx_id x) (commit_args (ce_lib E) x)) db, b)"
  "snd (confirm_step E now (Recommit x) db b) = (push_exec (Advance now (cx_id x) (recommit_args (ce_lib E) x)) db, b)"
  "snd (confirm_step E now (Start ck) db b) = (db, b)" "snd (confirm_step E now (Lost_Claim x) db b) = (db, b)"
  "snd (confirm_step E now (Lost_Commit x) db b) = (db, b)" "confirm_step E now (Done r) db b = (Done r, db, b)"
  "confirm_step E now (Raised e) db b = (Raised e, db, b)"
  by (simp_all add: cas_step Let_def split_beta cas_db del: push_exec.simps)

declare confirm_step.simps [simp del] push_exec.simps [simp del]

lemma step_rank: "pc_rank p > 0 \<Longrightarrow> pc_rank (fst (confirm_step E now p db b)) < pc_rank p"
proof (cases p)
  case (Start ck)
  then show ?thesis using check_click_cases [of E ck db] by (auto simp: confirm_step.simps)
next
  case (Claim x)
  then show ?thesis
    using cas_pc [of now db "cx_id x" "claim_args (ce_lib E) x" "Writing x" "Lost_Claim x"] by (auto simp: step_simps(1))
next
  case (Commit x)
  then show ?thesis by (auto simp: confirm_step.simps cas_def split: sum.split prod.split)
next
  case (Note_Failure x err)
  then show ?thesis by (auto simp: confirm_step.simps cas_def Let_def split: sum.split prod.split)
next
  case (Recommit x)
  then show ?thesis by (auto simp: confirm_step.simps cas_def Let_def split: sum.split prod.split)
qed (simp_all add: confirm_step.simps split_beta after_write_def after_rewrite_def Let_def)

lemma step_final: "pc_rank p = 0 \<Longrightarrow> confirm_step E now p db b = (p, db, b)"
  by (cases p) (simp_all add: step_simps)

lemma run_pc_final: "pc_rank p \<le> length nows \<Longrightarrow> pc_rank (fst (run_pc E nows p db b)) = 0"
proof (induction nows arbitrary: p db b)
  case (Cons now nows)
  obtain p' db' b' where st: "confirm_step E now p db b = (p', db', b')" by (metis prod_cases3)
  have "pc_rank p' \<le> length nows"
    using step_rank [of p E now db b] step_final [of p E now db b] Cons.prems st by (cases "pc_rank p = 0") auto
  with Cons.IH st show ?case by simp
qed simp

text \<open>No compare-and-swap of the handler can violate an index.\<close>

definition quiet_args :: "advance_args \<Rightarrow> bool" where
  "quiet_args a \<longleftrightarrow> (aa_to a \<in> set INFLIGHT_STATUSES \<longrightarrow> aa_expect a \<in> set INFLIGHT_STATUSES)"

lemma advance_quiet:
  assumes "push_inv db" "quiet_args a"
  shows "advance_status now db rid a =
      Inr (push_update (\<lambda>r. p_registry_id r = rid \<and> advance_guard a r) (advanced_row now a) db)"
    and "push_inv (fst (push_update (\<lambda>r. p_registry_id r = rid \<and> advance_guard a r) (advanced_row now a) db))"
proof -
  show inv: "push_inv (fst (push_update (\<lambda>r. p_registry_id r = rid \<and> advance_guard a r) (advanced_row now a) db))"
    using assms by (intro push_update_inv) (auto simp: inflight_def advance_guard_def advanced_row_def quiet_args_def)
  then show "advance_status now db rid a =
      Inr (push_update (\<lambda>r. p_registry_id r = rid \<and> advance_guard a r) (advanced_row now a) db)"
    by (simp add: advance_status_def Let_def push_inv_def)
qed

lemma quiet_confirm_args [simp]:
  "quiet_args (claim_args L x)" "quiet_args (failure_args e)" "quiet_args (commit_args L x)" "quiet_args (recommit_args L x)"
  "quiet_args (reconcile_args L rec)"
  by (simp_all add: quiet_args_def claim_args_def confirm_args_def failure_args_def commit_args_def recommit_args_def
      reconcile_args_def INFLIGHT_STATUSES_def)

text \<open>A compare-and-swap of the handler on a row it finds: it wins exactly when the guard holds.\<close>

lemma cas_quiet:
  assumes "push_inv db" "quiet_args a"
  shows "fst (cas now db rid a w l) = (if \<exists>r. push_get db rid = Some r \<and> advance_guard a r then w else l)"
    and "push_inv (push_exec (Advance now rid a) db)"
    and "push_get (push_exec (Advance now rid a) db) k =
      map_option (\<lambda>r. if p_registry_id r = rid \<and> advance_guard a r then advanced_row now a r else r) (push_get db k)"
proof -
  note q = advance_quiet [OF assms]
  show "fst (cas now db rid a w l) = (if \<exists>r. push_get db rid = Some r \<and> advance_guard a r then w else l)"
    using push_update_won [OF assms(1), of rid "advance_guard a" "advanced_row now a"]
    by (auto simp: cas_def q(1) split: prod.split option.splits)
  show "push_inv (push_exec (Advance now rid a) db)" using q(2) [of rid now] by (simp add: q(1) push_exec.simps split_beta)
  show "push_get (push_exec (Advance now rid a) db) k =
      map_option (\<lambda>r. if p_registry_id r = rid \<and> advance_guard a r then advanced_row now a r else r) (push_get db k)"
    using push_update_get [OF assms(1), of "advanced_row now a" "\<lambda>r. p_registry_id r = rid \<and> advance_guard a r" k]
    by (simp add: q(1) push_exec.simps split_beta)
qed

lemma step_inv:
  assumes "push_inv db" "\<And>e. p \<noteq> Raised e"
  shows "push_inv (fst (snd (confirm_step E now p db b)))" "fst (confirm_step E now p db b) \<noteq> Raised e"
proof -
  show "push_inv (fst (snd (confirm_step E now p db b)))"
    using assms cas_quiet(2) [OF assms(1)] by (cases p) (simp_all add: step_simps)
  show "fst (confirm_step E now p db b) \<noteq> Raised e"
  proof (cases p)
    case (Start ck)
    then show ?thesis using check_click_cases [of E ck db] by (auto simp: confirm_step.simps)
  next
    case (Note_Failure x err)
    then show ?thesis by (simp add: confirm_step.simps split_beta Let_def cas_quiet(1) [OF assms(1)])
  next
    case (Recommit x)
    then show ?thesis by (simp add: confirm_step.simps split_beta Let_def cas_quiet(1) [OF assms(1)])
  qed (use assms(2) in \<open>simp_all add: confirm_step.simps split_beta cas_quiet(1) [OF assms(1)] step_simps after_write_def after_rewrite_def Let_def
        \<close>)
qed

lemma run_pc_inv:
  "push_inv db \<Longrightarrow> (\<And>e. p \<noteq> Raised e) \<Longrightarrow>
     push_inv (fst (snd (run_pc E nows p db b))) \<and> fst (run_pc E nows p db b) \<noteq> Raised e"
proof (induction nows arbitrary: p db b)
  case (Cons now nows)
  obtain p' db' b' where st: "confirm_step E now p db b = (p', db', b')" by (metis prod_cases3)
  have "push_inv db'" "\<And>e. p' \<noteq> Raised e"
    using step_inv(1) [OF Cons.prems, of E now b] step_inv(2) [OF Cons.prems, of E now b] st by auto
  then show ?case using Cons.IH st by simp
qed simp

section \<open>The invariant of the interleavings\<close>

lemma committed_after_update:
  assumes "r \<in> set (sql_update P f t)" "p_status r = Committed"
    and "\<And>q. P q \<Longrightarrow> p_registry_id (f q) = p_registry_id q"
    and "\<And>q. P q \<Longrightarrow> p_status (f q) = Committed \<Longrightarrow> p_status q = Committed"
  shows "\<exists>q \<in> set t. p_registry_id q = p_registry_id r \<and> p_status q = Committed"
  using assms(1,2) mem_sql_update [OF assms(1)] assms(3,4) by (auto split: if_splits)

lemma committed_after_advance:
  assumes "r \<in> set (pd_rows (push_exec (Advance now rid a) db))" "p_status r = Committed"
  shows "(\<exists>q \<in> set (pd_rows db). p_registry_id q = p_registry_id r \<and> p_status q = Committed)
    \<or> (p_registry_id r = rid \<and> aa_to a = Committed \<and> aa_expect a \<noteq> Committed)"
proof (cases "advance_status now db rid a")
  case (Inl e)
  then show ?thesis using assms by (auto simp: push_exec.simps)
next
  case (Inr res)
  then have "fst res = db\<lparr>pd_rows := sql_update (\<lambda>r. p_registry_id r = rid \<and> advance_guard a r) (advanced_row now a) (pd_rows db)\<rparr>"
    by (auto simp: advance_status_def Let_def push_update_def split: if_splits)
  then have "r \<in> set (sql_update (\<lambda>r. p_registry_id r = rid \<and> advance_guard a r) (advanced_row now a) (pd_rows db))"
    using assms(1) Inr by (simp add: push_exec.simps split_beta)
  from mem_sql_update [OF this] obtain q where q: "q \<in> set (pd_rows db)"
    "r = (if p_registry_id q = rid \<and> advance_guard a q then advanced_row now a q else q)" by blast
  show ?thesis
  proof (cases "p_registry_id q = rid \<and> advance_guard a q")
    case True
    then have "p_registry_id r = rid" "p_status r = aa_to a" "p_status q = aa_expect a"
      using q(2) by (simp_all add: advanced_row_def advance_guard_def)
    then show ?thesis using assms(2) q(1) True by (cases "aa_expect a = Committed") auto
  next
    case False
    then have "r = q" using q(2) by (simp only: if_False)
    then show ?thesis using q(1) assms(2) by blast
  qed
qed

lemma committed_after_other:
  assumes "other_op opr" "r \<in> set (pd_rows (push_exec opr db))" "p_status r = Committed"
  shows "\<exists>q \<in> set (pd_rows db). p_registry_id q = p_registry_id r \<and> p_status q = Committed"
proof (cases opr)
  case (Create now rid nonce args)
  then show ?thesis
    using assms(2,3) by (auto simp: push_exec.simps create_def Let_def split: sum.splits if_splits)
next
  case (Advance now rid a)
  then show ?thesis using committed_after_advance [of r now rid a db] assms by (auto simp: other_op_def)
next
  case (ArchiveFinished now older)
  then show ?thesis
    using assms(2,3) by (auto simp: push_exec.simps archive_finished_def Let_def delete_all_eq split: if_splits)
next
  case (ExpireDue now)
  then show ?thesis using assms(2,3)
    by (simp add: push_exec.simps expire_due_def) (erule committed_after_update, simp_all add: expired_row_def)
next
  case (ResetSubmission now rid)
  then show ?thesis using assms(2,3)
    by (simp add: push_exec.simps reset_submission_def push_update_def) (erule committed_after_update, simp_all)
next
  case (MarkSent now rid mid chat)
  then show ?thesis using assms(2,3)
    by (simp add: push_exec.simps mark_sent_def push_update_def) (erule committed_after_update, simp_all add: sent_row_def)
next
  case (MarkSendFailed now rid err)
  then show ?thesis using assms(2,3)
    by (simp add: push_exec.simps mark_send_failed_def push_update_def) (erule committed_after_update, simp_all add: failed_row_def)
next
  case (NoteSendAttempt now rid err)
  then show ?thesis using assms(2,3)
    by (simp add: push_exec.simps note_send_attempt_def push_update_def) (erule committed_after_update, simp_all add: noted_row_def)
qed

definition landed :: "'b confirm_sys \<Rightarrow> string \<Rightarrow> bool" where
  "landed s rid \<longleftrightarrow> (\<exists>c \<in> set (cs_calls s). cx_id (wc_ctx c) = rid \<and> wr_ok (wc_result c)) \<or> rid \<in> fst ` set (cs_found s)"

definition sys_inv :: "'b confirm_env \<Rightarrow> 'b confirm_sys \<Rightarrow> bool" where
  "sys_inv E s \<longleftrightarrow>
     (\<forall>p \<in> set (cs_threads s). \<forall>x. pc_ctx p = Some x \<longrightarrow> authorised E x)
   \<and> (\<forall>c \<in> set (cs_calls s). authorised E (wc_ctx c))
   \<and> (\<forall>x. Commit x \<in> set (cs_threads s) \<longrightarrow> landed s (cx_id x))
   \<and> (\<forall>r \<in> set (pd_rows (cs_db s)). p_status r = Committed \<longrightarrow> landed s (p_registry_id r))"

text \<open>A step keeps the context it carries, and only a successful write leads to the commit.\<close>

lemma step_next:
  assumes "fst (confirm_step E now p db b) = q"
  shows "pc_ctx q = None \<or> (\<exists>x. pc_ctx p = Some x \<and> pc_ctx q = Some x \<and> (q = Commit x \<longrightarrow> p = Writing x \<and> wr_ok (snd (call_writer E x b))))
    \<or> (\<exists>x. pc_ctx q = Some x \<and> authorised E x \<and> q \<noteq> Commit x)"
proof (cases p)
  case (Start ck)
  then show ?thesis using assms check_click_cases [of E ck db] by (auto simp: confirm_step.simps)
next
  case (Claim x)
  then show ?thesis
    using assms cas_pc [of now db "cx_id x" "claim_args (ce_lib E) x" "Writing x" "Lost_Claim x"] by (auto simp: step_simps)
next
  case (Commit x)
  then show ?thesis using assms by (auto simp: confirm_step.simps cas_def split_beta split: sum.splits if_splits)
next
  case (Note_Failure x err)
  then show ?thesis using assms by (auto simp: confirm_step.simps cas_def split_beta Let_def split: sum.splits if_splits)
next
  case (Recommit x)
  then show ?thesis using assms by (auto simp: confirm_step.simps cas_def split_beta Let_def split: sum.splits if_splits)
next
  case (Writing x)
  then show ?thesis using assms by (auto simp: step_simps after_write_def split: if_splits)
next
  case (Rewriting x)
  then show ?thesis using assms by (auto simp: step_simps after_rewrite_def split: if_splits)
next
  case (Lost_Claim x)
  then show ?thesis using assms by (auto simp: confirm_step.simps Let_def split: if_splits)
next
  case (Lost_Commit x)
  then show ?thesis using assms by (auto simp: confirm_step.simps split: if_splits)
qed (use assms in \<open>auto simp: step_simps\<close>)

lemma args_status [simp]:
  "aa_to (claim_args L x) = Confirmed" "aa_to (failure_args e) = Confirmed" "aa_expect (recommit_args L x) = Committed"
  by (simp_all add: claim_args_def confirm_args_def failure_args_def recommit_args_def)

lemma step_committed:
  assumes "r \<in> set (pd_rows (fst (snd (confirm_step E now p db b))))" "p_status r = Committed"
  shows "(\<exists>q \<in> set (pd_rows db). p_registry_id q = p_registry_id r \<and> p_status q = Committed)
    \<or> (\<exists>x. p = Commit x \<and> cx_id x = p_registry_id r)"
  using assms by (cases p) (auto simp: step_simps dest!: committed_after_advance)

lemma landed_mono: "set (cs_calls s) \<subseteq> set (cs_calls s') \<Longrightarrow> set (cs_found s) \<subseteq> set (cs_found s') \<Longrightarrow> landed s rid \<Longrightarrow> landed s' rid"
  unfolding landed_def by blast

lemma calls_made_ctx: "c \<in> set (calls_made E p b) \<Longrightarrow> pc_ctx p = Some (wc_ctx c) \<and> wc_result c = snd (call_writer E (wc_ctx c) b)"
  by (auto simp: calls_made_def split: pc.splits)

lemma sys_inv_thread:
  assumes inv: "sys_inv E s" and i: "i < length (cs_threads s)"
    and step: "confirm_step E now (cs_threads s ! i) (cs_db s) (cs_backend s) = (p, db, b)"
  shows "sys_inv E (s\<lparr>cs_db := db, cs_backend := b, cs_threads := (cs_threads s)[i := p],
      cs_calls := cs_calls s @ calls_made E (cs_threads s ! i) (cs_backend s)\<rparr>)" (is "sys_inv E ?s")
proof -
  let ?p = "cs_threads s ! i"
  have mem: "?p \<in> set (cs_threads s)" using i by simp
  have sub: "q \<in> set (cs_threads s) \<or> q = p" if "q \<in> set (cs_threads ?s)" for q
    using that set_update_subset_insert [of "cs_threads s" i p] by auto
  have keep: "landed s rid \<Longrightarrow> landed ?s rid" for rid by (rule landed_mono) auto
  note next_pc = step_next [of E now ?p "cs_db s" "cs_backend s" p]
  have auth: "authorised E x" if "pc_ctx p = Some x" for x
    using next_pc that step inv mem by (auto simp: sys_inv_def)
  have threads: "\<forall>q \<in> set (cs_threads ?s). \<forall>x. pc_ctx q = Some x \<longrightarrow> authorised E x"
    using sub auth inv unfolding sys_inv_def by blast
  have calls: "\<forall>c \<in> set (cs_calls ?s). authorised E (wc_ctx c)"
  proof
    fix c assume "c \<in> set (cs_calls ?s)"
    then consider "c \<in> set (cs_calls s)" | "c \<in> set (calls_made E ?p (cs_backend s))" by auto
    then show "authorised E (wc_ctx c)"
      using inv mem calls_made_ctx [of c E ?p "cs_backend s"] by cases (simp_all add: sys_inv_def)
  qed
  have commits: "\<forall>x. Commit x \<in> set (cs_threads ?s) \<longrightarrow> landed ?s (cx_id x)"
  proof (intro allI impI)
    fix x assume "Commit x \<in> set (cs_threads ?s)"
    then consider "Commit x \<in> set (cs_threads s)" | "p = Commit x" using sub by auto
    then show "landed ?s (cx_id x)"
    proof cases
      case 1
      then show ?thesis using inv keep by (simp add: sys_inv_def)
    next
      case 2
      then have "?p = Writing x" "wr_ok (snd (call_writer E x (cs_backend s)))" using next_pc step by auto
      then show ?thesis by (auto simp: landed_def calls_made_def)
    qed
  qed
  have rows: "\<forall>r \<in> set (pd_rows (cs_db ?s)). p_status r = Committed \<longrightarrow> landed ?s (p_registry_id r)"
  proof (intro ballI impI)
    fix r assume "r \<in> set (pd_rows (cs_db ?s))" "p_status r = Committed"
    then have "(\<exists>q \<in> set (pd_rows (cs_db s)). p_registry_id q = p_registry_id r \<and> p_status q = Committed)
      \<or> (\<exists>x. ?p = Commit x \<and> cx_id x = p_registry_id r)"
      using step_committed [of r E now ?p "cs_db s" "cs_backend s"] step by simp
    then show "landed ?s (p_registry_id r)"
    proof
      assume "\<exists>q \<in> set (pd_rows (cs_db s)). p_registry_id q = p_registry_id r \<and> p_status q = Committed"
      then show ?thesis using inv keep unfolding sys_inv_def by metis
    next
      assume "\<exists>x. ?p = Commit x \<and> cx_id x = p_registry_id r"
      then show ?thesis using inv keep mem unfolding sys_inv_def by metis
    qed
  qed
  show ?thesis using threads calls commits rows by (simp add: sys_inv_def)
qed

lemma sys_inv_step: "sys_step E s s' \<Longrightarrow> sys_inv E s \<Longrightarrow> sys_inv E s'"
proof (induction rule: sys_step.induct)
  case (new_click s ck)
  then show ?case by (auto simp: sys_inv_def landed_def)
next
  case (thread i s now p db b)
  then show ?case by (intro sys_inv_thread)
next
  case (other opr s)
  have "landed s (p_registry_id r)" if "r \<in> set (pd_rows (push_exec opr (cs_db s)))" "p_status r = Committed" for r
    using committed_after_other [OF other(1) that] other(2) unfolding sys_inv_def by metis
  with other(2) show ?case by (auto simp: sys_inv_def landed_def)
next
  case (probe r s older rec)
  have "landed (s\<lparr>cs_found := cs_found s @ [(p_registry_id r, rec)]\<rparr>) k" if "landed s k" for k
    using that by (auto simp: landed_def)
  with probe show ?case by (simp add: sys_inv_def)
next
  case (backfill rid rec s now)
  have "landed s (p_registry_id r)"
    if "r \<in> set (pd_rows (push_exec (Advance now rid (reconcile_args (ce_lib E) rec)) (cs_db s)))" "p_status r = Committed" for r
    using committed_after_advance [OF that]
  proof
    assume "\<exists>q \<in> set (pd_rows (cs_db s)). p_registry_id q = p_registry_id r \<and> p_status q = Committed"
    then show ?thesis using backfill(2) unfolding sys_inv_def by metis
  next
    assume "p_registry_id r = rid \<and> aa_to (reconcile_args (ce_lib E) rec) = Committed \<and> aa_expect (reconcile_args (ce_lib E) rec) \<noteq> Committed"
    then show ?thesis using imageI [OF backfill(1), of fst] by (simp add: landed_def)
  qed
  with backfill show ?case by (auto simp: sys_inv_def landed_def)
qed

lemma reachable_inv: "reachable E b s \<Longrightarrow> sys_inv E s"
proof -
  assume "reachable E b s"
  then have "(sys_step E)\<^sup>*\<^sup>* (initial b) s" by (simp add: reachable_def)
  then show ?thesis
  proof (induction rule: rtranclp_induct)
    case base
    show ?case by (simp add: sys_inv_def initial_def empty_registry_def)
  next
    case (step s t)
    then show ?case using sys_inv_step by blast
  qed
qed

section \<open>The writer contract\<close>

text \<open>
  What \<open>ClaimWriter.write\<close> promises its clients: it is idempotent on the key. \<open>recs b k\<close> is the number of
  records the backend holds under \<open>k\<close>.
\<close>

primrec run_writes :: "('a \<Rightarrow> 'b \<Rightarrow> 'b \<times> write_result) \<Rightarrow> 'a list \<Rightarrow> 'b \<Rightarrow> 'b" where
  "run_writes wr [] b = b"
| "run_writes wr (a # as) b = run_writes wr as (fst (wr a b))"

lemma run_writes_append: "run_writes wr (as @ [a]) b = fst (wr a (run_writes wr as b))"
  by (induction as arbitrary: b) auto

locale idempotent_writer =
  fixes wr :: "write_args \<Rightarrow> 'b \<Rightarrow> 'b \<times> write_result"
    and recs :: "'b \<Rightarrow> string \<Rightarrow> nat"
  assumes at_most_one: "recs b k \<le> 1 \<Longrightarrow> recs (fst (wr a b)) k \<le> 1"
    and acknowledged: "recs b (wa_key a) \<le> 1 \<Longrightarrow> wr_ok (snd (wr a b)) \<Longrightarrow> recs (fst (wr a b)) (wa_key a) = 1"
    and kept: "recs b k = 1 \<Longrightarrow> recs (fst (wr a b)) k = 1"
    and only_own_key: "recs b k = 0 \<Longrightarrow> k \<noteq> wa_key a \<Longrightarrow> recs (fst (wr a b)) k = 0"
begin

lemma runs_at_most_one: "recs b k \<le> 1 \<Longrightarrow> recs (run_writes wr as b) k \<le> 1"
  by (induction as arbitrary: b) (simp_all add: at_most_one del: One_nat_def)

lemma runs_kept: "recs b k = 1 \<Longrightarrow> recs (run_writes wr as b) k = 1"
  by (induction as arbitrary: b) (simp_all add: kept del: One_nat_def)

lemma runs_none: "recs b k = 0 \<Longrightarrow> k \<notin> wa_key ` set as \<Longrightarrow> recs (run_writes wr as b) k = 0"
  by (induction as arbitrary: b) (simp_all add: only_own_key)

end

definition mock_count :: "mock_state \<Rightarrow> string \<Rightarrow> nat" where
  "mock_count m k = length (filter (\<lambda>e. fst e = k) (mk_records m))"

lemma mock_count_0: "mock_count m k = 0 \<longleftrightarrow> map_of (mk_records m) k = None"
  by (auto simp: mock_count_def filter_empty_conv map_of_eq_None_iff)

lemma mock_count_write:
  "mock_count (fst (mock_write L a m)) k =
    mock_count m k + (if k = wa_key a \<and> \<not> mk_credential_expired m \<and> mock_count m k = 0 then 1 else 0)"
  unfolding mock_count_0 by (auto simp: mock_write_def Let_def mock_count_def split: option.split)

lemma mock_write_ok: "wr_ok (snd (mock_write L a m)) \<Longrightarrow> \<not> mk_credential_expired m"
  by (auto simp: mock_write_def write_failed_def)

interpretation mock: idempotent_writer "mock_write L" mock_count
  by unfold_locales (auto simp: mock_count_write dest: mock_write_ok)

text \<open>All writers of the system are the mock.\<close>

definition uses_mock :: "mock_state confirm_env \<Rightarrow> bool" where
  "uses_mock E \<longleftrightarrow> (\<forall>n w. get_writer E n = Some w \<longrightarrow> (\<exists>k. w = Injected k))
     \<and> ce_injected E = (\<lambda>n a m. (fst (mock_write (ce_lib E) a m), Inr (snd (mock_write (ce_lib E) a m))))"

lemma mock_call:
  assumes "uses_mock E" "authorised E x"
  shows "call_writer E x m = mock_write (ce_lib E) (call_args x) m"
proof -
  have "\<exists>k. cx_writer x = Injected k"
    using assms by (auto simp: uses_mock_def authorised_def bind_endpoint_def split: option.splits claim_writer.splits if_splits)
  then show ?thesis using assms(1) by (auto simp: uses_mock_def call_writer_def do_write_def)
qed

text \<open>The backend is what the recorded calls made of it, and each acknowledged call left its record.\<close>

definition mock_inv :: "mock_state confirm_env \<Rightarrow> mock_state \<Rightarrow> mock_state confirm_sys \<Rightarrow> bool" where
  "mock_inv E b s \<longleftrightarrow> cs_backend s = run_writes (mock_write (ce_lib E)) (map (call_args \<circ> wc_ctx) (cs_calls s)) b
     \<and> (\<forall>c \<in> set (cs_calls s). wr_ok (wc_result c) \<longrightarrow> mock_count (cs_backend s) (cx_id (wc_ctx c)) = 1)"

lemma mock_inv_cong: "cs_backend s' = cs_backend s \<Longrightarrow> cs_calls s' = cs_calls s \<Longrightarrow> mock_inv E b s' = mock_inv E b s"
  by (simp only: mock_inv_def)

lemma step_backend:
  assumes "confirm_step E now p db b = (p', db', b')"
  shows "(calls_made E p b = [] \<and> b' = b)
    \<or> (\<exists>x. pc_ctx p = Some x \<and> calls_made E p b = [\<lparr>wc_ctx = x, wc_result = snd (call_writer E x b)\<rparr>] \<and> b' = fst (call_writer E x b))"
proof -
  have b': "b' = snd (snd (confirm_step E now p db b))" using assms by simp
  show ?thesis unfolding b' by (cases p) (simp_all add: step_simps calls_made_def)
qed

lemma mock_inv_thread:
  assumes mock: "uses_mock E" and b0: "mk_records b0 = []" and sys: "sys_inv E s" and inv: "mock_inv E b0 s"
    and i: "i < length (cs_threads s)"
    and step: "confirm_step E now (cs_threads s ! i) (cs_db s) (cs_backend s) = (p, db, b)"
  shows "mock_inv E b0 (s\<lparr>cs_db := db, cs_backend := b, cs_threads := (cs_threads s)[i := p],
      cs_calls := cs_calls s @ calls_made E (cs_threads s ! i) (cs_backend s)\<rparr>)"
  using step_backend [OF step]
proof
  assume "calls_made E (cs_threads s ! i) (cs_backend s) = [] \<and> b = cs_backend s"
  then show ?thesis using inv by (subst mock_inv_cong [where s = s]) simp_all
next
  assume "\<exists>x. pc_ctx (cs_threads s ! i) = Some x
    \<and> calls_made E (cs_threads s ! i) (cs_backend s) = [\<lparr>wc_ctx = x, wc_result = snd (call_writer E x (cs_backend s))\<rparr>]
    \<and> b = fst (call_writer E x (cs_backend s))"
  then obtain x where x: "pc_ctx (cs_threads s ! i) = Some x"
    "calls_made E (cs_threads s ! i) (cs_backend s) = [\<lparr>wc_ctx = x, wc_result = snd (call_writer E x (cs_backend s))\<rparr>]"
    "b = fst (call_writer E x (cs_backend s))" by blast
  have "authorised E x" using sys x(1) nth_mem [OF i] by (auto simp: sys_inv_def)
  note call = mock_call [OF mock this]
  let ?as = "map (call_args \<circ> wc_ctx) (cs_calls s)"
  have run: "cs_backend s = run_writes (mock_write (ce_lib E)) ?as b0" using inv by (simp add: mock_inv_def)
  have none: "mock_count b0 k \<le> 1" for k by (simp add: mock_count_def b0)
  have one: "mock_count (cs_backend s) k \<le> 1" for k unfolding run by (rule mock.runs_at_most_one [OF none])
  have key: "wa_key (call_args x) = cx_id x" by (simp add: call_args_def)
  have "mock_count b (cx_id x) = 1" if "wr_ok (snd (call_writer E x (cs_backend s)))"
    using mock.acknowledged [OF one, of "ce_lib E" "call_args x"] that unfolding x(3) call key by simp
  moreover have "mock_count b (cx_id (wc_ctx c)) = 1" if "c \<in> set (cs_calls s)" "wr_ok (wc_result c)" for c
    unfolding x(3) call by (rule mock.kept) (use inv that in \<open>unfold mock_inv_def, blast\<close>)
  moreover have "b = run_writes (mock_write (ce_lib E)) (?as @ [call_args x]) b0"
    unfolding x(3) call run_writes_append run [symmetric] ..
  ultimately show ?thesis unfolding x(2) by (auto simp: mock_inv_def)
qed

lemma mock_inv_step:
  assumes "uses_mock E" "mk_records b0 = []"
  shows "sys_step E s s' \<Longrightarrow> sys_inv E s \<Longrightarrow> mock_inv E b0 s \<Longrightarrow> mock_inv E b0 s'"
proof (induction rule: sys_step.induct)
  case (thread i s now p db b)
  then show ?case by (intro mock_inv_thread assms)
next
  case (new_click s ck)
  then show ?case by (subst mock_inv_cong [where s = s]) simp_all
next
  case (other opr s)
  then show ?case by (subst mock_inv_cong [where s = s]) simp_all
next
  case (probe r s older rec)
  then show ?case by (subst mock_inv_cong [where s = s]) simp_all
next
  case (backfill rid rec s now)
  then show ?case by (subst mock_inv_cong [where s = s]) simp_all
qed

lemma reachable_mock:
  assumes "uses_mock E" "mk_records b = []" "reachable E b s"
  shows "mock_inv E b s"
proof -
  have "(sys_step E)\<^sup>*\<^sup>* (initial b) s" using assms(3) by (simp add: reachable_def)
  then have "reachable E b s \<and> mock_inv E b s"
  proof (induction rule: rtranclp_induct)
    case base
    show ?case by (simp add: mock_inv_def initial_def reachable_def)
  next
    case (step s t)
    then show ?case
      using mock_inv_step [OF assms(1,2) step(2)] reachable_inv [of E b s]
      by (auto simp: reachable_def intro: rtranclp.rtrancl_into_rtrancl)
  qed
  then show ?thesis by simp
qed

section \<open>A click that commits\<close>

lemma fresh_get: "push_inv db \<Longrightarrow> push_get db (cx_id x) = Some (cx_row x) \<Longrightarrow> fresh_row db x = cx_row x"
  by (simp add: fresh_row_def)

text \<open>The row after a claim and after a commit.\<close>

definition claimed_row :: "pylib \<Rightarrow> int \<Rightarrow> confirm_ctx \<Rightarrow> push_row" where
  "claimed_row L now x = (if p_status (cx_row x) = Clarifying then advanced_row now (claim_args L x) (cx_row x) else cx_row x)"

lemma run_writing:
  assumes "push_inv db" "push_get db (cx_id x) = Some row" "p_status row = Confirmed"
    and "call_writer E x b = (b', res)" "wr_ok res" "\<not> wr_credential_expired res"
  shows "\<exists>c db'. run_pc E (now # now # nows) (Writing x) db b = (Done (carded K_Committed c (cx_id x) True), db', b')
    \<and> push_inv db' \<and> push_get db' (cx_id x) = Some (advanced_row now (commit_args (ce_lib E) x) row)"
proof -
  note q = cas_quiet [OF assms(1) quiet_confirm_args(3)]
  have id: "p_registry_id row = cx_id x" by (rule push_get_id [OF assms(2)])
  have guard: "advance_guard (commit_args (ce_lib E) x) row"
    using assms(3) by (simp add: advance_guard_def commit_args_def)
  have final: "run_pc E nows (Done r) d c = (Done r, d, c)" for r d c
    by (induction nows) (simp_all add: step_simps)
  have "confirm_step E now (Writing x) db b = (Commit x, db, b')"
    using assms(4-6) by (simp add: step_simps after_write_def)
  then show ?thesis
    using assms(2) guard id q(2,3) [of now "cx_id x" "ce_lib E" x] 
    by (simp add: confirm_step.simps split_beta q(1) cas_db final) blast
qed

lemma run_claim:
  assumes "push_inv db" "push_get db (cx_id x) = Some (cx_row x)" "p_status (cx_row x) = Clarifying" "p_nonce (cx_row x) = Some (cx_nonce x)"
  shows "\<exists>db'. confirm_step E now (Claim x) db b = (Writing x, db', b) \<and> push_inv db'
    \<and> push_get db' (cx_id x) = Some (claimed_row (ce_lib E) now x)"
proof -
  have "advance_guard (claim_args (ce_lib E) x) (cx_row x)"
    using assms(3,4) by (simp add: advance_guard_def claim_args_def confirm_args_def)
  then show ?thesis
    using assms(2,3) cas_quiet [OF assms(1) quiet_confirm_args(1), of now "cx_id x" "ce_lib E" x] push_get_id [OF assms(2)]
    by (simp add: step_simps claimed_row_def)
qed

lemma claimed_simps [simp]:
  "p_status (cx_row x) \<in> {Clarifying, Confirmed} \<Longrightarrow> p_status (claimed_row L now x) = Confirmed"
  "p_nonce (claimed_row L now x) = p_nonce (cx_row x)" "p_write_attempts (claimed_row L now x) = p_write_attempts (cx_row x)"
  by (auto simp: claimed_row_def advanced_row_def claim_args_def confirm_args_def)

lemma run_commit:
  assumes "push_inv db" "push_get db (cx_id x) = Some (cx_row x)" "p_nonce (cx_row x) = Some (cx_nonce x)"
    and "p_status (cx_row x) \<in> {Clarifying, Confirmed}" "check_click E ck db = dispatch_click E x"
    and "call_writer E x b = (b', res)" "wr_ok res" "\<not> wr_credential_expired res"
  shows "\<exists>c db'. handle_confirm E now ck db b = (Done (carded K_Committed c (cx_id x) True), db', b')
    \<and> push_inv db' \<and> push_get db' (cx_id x) = Some (advanced_row now (commit_args (ce_lib E) x) (claimed_row (ce_lib E) now x))"
proof (cases "p_status (cx_row x) = Clarifying")
  case True
  then have start: "confirm_step E now (Start ck) db b = (Claim x, db, b)"
    using assms(5) by (simp add: confirm_step.simps dispatch_click_def)
  obtain db1 where db1: "confirm_step E now (Claim x) db b = (Writing x, db1, b)" "push_inv db1"
    "push_get db1 (cx_id x) = Some (claimed_row (ce_lib E) now x)"
    using run_claim [OF assms(1,2) True assms(3), of E now b] by blast
  show ?thesis
    using run_writing [OF db1(2,3) claimed_simps(1) [OF assms(4)] assms(6-8), of now "[now]"]
    by (simp add: handle_confirm_def start db1(1) numeral_eq_Suc)
next
  case False
  then have row: "claimed_row (ce_lib E) now x = cx_row x" "p_status (cx_row x) = Confirmed"
    using assms(4) by (simp_all add: claimed_row_def)
  then have start: "confirm_step E now (Start ck) db b = (Writing x, db, b)"
    using assms(5) by (simp add: confirm_step.simps dispatch_click_def)
  show ?thesis
    using run_writing [OF assms(1,2) row(2) assms(6-8), of now "[now, now]"]
    by (simp add: handle_confirm_def start row(1) numeral_eq_Suc)
qed

lemma form_of_nothing: "submission_values L scene (submission_from_form L scene JNull) = Inr []"
proof -
  have none: "foldl (from_control L []) [] fs = []" for fs
    by (induction fs) (simp_all add: from_control_def jget_def)
  have "values_of L [] fs [] = Inr []" for fs by (induction fs) (simp_all add: field_value_def)
  then show ?thesis by (simp add: submission_values_def submission_from_form_def dict_of_def none)
qed

text \<open>The checks passed: the owner's click with the row's nonce on an open or a confirmed card.\<close>

definition good_click :: "'b confirm_env \<Rightarrow> click \<Rightarrow> push_row \<Rightarrow> scene_def \<Rightarrow> dict \<Rightarrow> claim_writer \<Rightarrow> bool" where
  "good_click E ck row scene vals w \<longleftrightarrow>
     p_registry_id row = strip (ck_registry_id ck) \<and> p_registry_id row \<noteq> [] \<and> strip (ck_nonce ck) \<noteq> []
   \<and> p_nonce row = Some (strip (ck_nonce ck)) \<and> p_target_open_id row \<in> set (ck_operators ck)
   \<and> scene_def_for_row (ce_lib E) row = Some scene
   \<and> ((p_status row = Clarifying \<and> submission_values (ce_lib E) scene (submission_from_form (ce_lib E) scene (ck_form ck)) = Inr vals)
      \<or> (p_status row = Confirmed \<and> ck_form ck = JNull
          \<and> p_submission_json row = Some (dumps (ce_lib E) (JObj vals)) \<and> json_ok (ce_lib E) (JObj vals)))
   \<and> (\<forall>f \<in> set (sd_fields scene). \<not> value_missing (ce_lib E) vals f)
   \<and> bind_endpoint E (get_writer E (sd_writer scene)) scene row = Bound w"

definition ctx_of :: "'b confirm_env \<Rightarrow> click \<Rightarrow> push_row \<Rightarrow> scene_def \<Rightarrow> dict \<Rightarrow> claim_writer \<Rightarrow> confirm_ctx" where
  "ctx_of E ck row scene vals w = \<lparr>cx_click = ck, cx_nonce = strip (ck_nonce ck), cx_row = row, cx_scene = scene,
     cx_behaviors = resolve_behaviors (ce_lib E) (Some scene) row, cx_values = vals, cx_writer = w\<rparr>"

lemma ctx_of_simps [simp]:
  "cx_click (ctx_of E ck row scene vals w) = ck" "cx_nonce (ctx_of E ck row scene vals w) = strip (ck_nonce ck)"
  "cx_row (ctx_of E ck row scene vals w) = row" "cx_scene (ctx_of E ck row scene vals w) = scene"
  "cx_behaviors (ctx_of E ck row scene vals w) = resolve_behaviors (ce_lib E) (Some scene) row"
  "cx_values (ctx_of E ck row scene vals w) = vals" "cx_writer (ctx_of E ck row scene vals w) = w"
  "cx_id (ctx_of E ck row scene vals w) = p_registry_id row"
  by (simp_all add: ctx_of_def cx_id_def)

lemma good_click_check:
  assumes "good_click E ck row scene vals w" "push_get db (strip (ck_registry_id ck)) = Some row"
  shows "check_click E ck db = dispatch_click E (ctx_of E ck row scene vals w)"
proof -
  note g = assms(1) [unfolded good_click_def]
  have miss: "filter (value_missing (ce_lib E) vals) (sd_fields scene) = []" using g by (auto simp: filter_empty_conv)
  have stored: "stored_submission_values (ce_lib E) row = vals" if "p_status row = Confirmed"
    using g that by (auto simp: stored_submission_values_def stored_object_def column_def truthy_def json_ok_def)
  have "check_values E ck (strip (ck_nonce ck)) row scene (resolve_behaviors (ce_lib E) (Some scene) row)
      = dispatch_click E (ctx_of E ck row scene vals w)"
  proof (cases "p_status row = Clarifying")
    case True
    then show ?thesis using g miss by (simp add: check_values_def Let_def ctx_of_def)
  next
    case False
    then have "p_status row = Confirmed" "ck_form ck = JNull" using g by auto
    then show ?thesis using g miss stored form_of_nothing by (simp add: check_values_def Let_def ctx_of_def)
  qed
  moreover have "p_status row \<in> {Clarifying, Confirmed}" using g by auto
  ultimately show ?thesis
    using g assms(2) by (auto simp: check_click_def check_row_def Let_def)
qed

section \<open>A concrete card\<close>

lemma run_thread:
  "reachable E b s \<Longrightarrow> i < length (cs_threads s) \<Longrightarrow> run_pc E nows (cs_threads s ! i) (cs_db s) (cs_backend s) = (p, db, b')
    \<Longrightarrow> \<exists>s'. reachable E b s' \<and> cs_db s' = db \<and> cs_backend s' = b' \<and> cs_found s' = cs_found s"
proof (induction nows arbitrary: s)
  case Nil
  then show ?case by (intro exI [of _ s]) simp
next
  case (Cons now nows)
  obtain q d c where st: "confirm_step E now (cs_threads s ! i) (cs_db s) (cs_backend s) = (q, d, c)" by (metis prod_cases3)
  let ?s = "s\<lparr>cs_db := d, cs_backend := c, cs_threads := (cs_threads s)[i := q],
      cs_calls := cs_calls s @ calls_made E (cs_threads s ! i) (cs_backend s)\<rparr>"
  have "sys_step E s ?s" by (rule sys_step.thread [OF Cons.prems(2) st])
  then have "reachable E b ?s"
    using Cons.prems(1) by (simp add: reachable_def)
  from Cons.IH [OF this] show ?case using Cons.prems(2,3) st by simp
qed

lemma run_click:
  assumes "reachable E b s" "handle_confirm E now ck (cs_db s) (cs_backend s) = (p, db, b')"
  shows "\<exists>s'. reachable E b s' \<and> cs_db s' = db \<and> cs_backend s' = b' \<and> cs_found s' = cs_found s"
proof -
  let ?s = "s\<lparr>cs_threads := cs_threads s @ [Start ck]\<rparr>"
  have "reachable E b ?s"
    using assms(1) sys_step.new_click [of E s ck] by (simp add: reachable_def)
  from run_thread [OF this, of "length (cs_threads s)" "replicate 5 now"] show ?thesis
    using assms(2) by (simp add: handle_confirm_def)
qed

definition demo_values :: dict where
  "demo_values = [(''amount'', JStr ''58'')]"

definition capped :: submit_behaviors where
  "capped = \<lparr>sb_submit_once = False, sb_allow_resubmit = True, sb_max_submits = Some 2\<rparr>"

definition confirm_lib :: pylib where
  "confirm_lib = table_lib [demo_spec, JObj demo_values, behaviors_json capped]"

definition fill_args :: advance_args where
  "fill_args = \<lparr>aa_expect = Pending, aa_to = Clarifying, aa_expect_nonce = None, aa_clear_nonce = False, aa_submission = None,
     aa_message_id = None, aa_last_error = None, aa_bump_write_attempts = False\<rparr>"

definition card_args :: push_row where
  "card_args = demo_args\<lparr>p_scene_spec_json := Some (dumps confirm_lib demo_spec)\<rparr>"

definition open_card :: push_row where
  "open_card = card_args\<lparr>p_registry_id := ''r1'', p_status := Clarifying, p_message_id := Some ''om_1'', p_send_attempts := 1,
     p_created_at := 5, p_updated_at := 7\<rparr>"

definition open_db :: push_db where
  "open_db = \<lparr>pd_rows = [open_card], pd_archive = []\<rparr>"

definition demo_env :: "mock_state confirm_env" where
  "demo_env = \<lparr>ce_lib = confirm_lib, ce_writers = [(''kep-pre-claim-writer'', Injected ''mock'')], ce_environ = (\<lambda>_. None),
     ce_post = (\<lambda>_ b. (b, Unreachable [])),
     ce_injected = (\<lambda>n a m. (fst (mock_write confirm_lib a m), Inr (snd (mock_write confirm_lib a m)))),
     ce_lookup = (\<lambda>_ _. None)\<rparr>"

definition demo_mock :: mock_state where
  "demo_mock = \<lparr>mk_records = [], mk_credential_expired = False, mk_write_calls = 0\<rparr>"

definition demo_click :: click where
  "demo_click = \<lparr>ck_registry_id = ''r1'', ck_nonce = ''n'', ck_operators = [''ou_1''],
     ck_form = JObj [(''amount'', JStr ''58'')], ck_opid = ''o''\<rparr>"

lemma open_card_fields [simp]:
  "p_registry_id open_card = ''r1''" "p_status open_card = Clarifying" "p_nonce open_card = Some ''n''"
  "p_target_open_id open_card = ''ou_1''" "p_write_attempts open_card = 0" "p_profile_name open_card = ''p''"
  "p_scene_spec_json open_card = Some (dumps confirm_lib demo_spec)"
  by (simp_all add: open_card_def card_args_def demo_args_def)

lemma open_db_rows [simp]: "pd_rows open_db = [open_card]" "push_get open_db ''r1'' = Some open_card"
  by (simp_all add: open_db_def push_get_def tbl_get_Cons)

lemma open_db_inv: "push_inv open_db"
  by (simp add: push_inv_def push_indexes_def unique_index_def)

lemma demo_env_simps [simp]: "ce_lib demo_env = confirm_lib" "get_writer demo_env ''kep-pre-claim-writer'' = Some (Injected ''mock'')"
  by (simp_all add: demo_env_def get_writer_def)

lemma demo_scene_of: "p_scene_spec_json r = Some (dumps confirm_lib demo_spec) \<Longrightarrow> scene_def_for_row confirm_lib r = Some demo_scene"
proof -
  assume r: "p_scene_spec_json r = Some (dumps confirm_lib demo_spec)"
  have lib: "json_ok confirm_lib demo_spec" "repr_ok confirm_lib" by (simp_all add: confirm_lib_def table_lib_ok table_lib_repr)
  have ok: "scene_ok confirm_lib demo_scene" by (rule scene_from_payload_ok [OF lib(2) demo_scene_parsed])
  have cb: "callback_from_json confirm_lib (callback_json demo_callback) = sd_callback demo_scene"
    using callback_json_back [of confirm_lib demo_callback] ok by (simp add: scene_ok_def demo_scene_parts)
  have "scene_from_spec_json confirm_lib (JStr (dumps confirm_lib demo_spec)) = Some demo_scene"
    using spec_json_back [OF ok _ cb] lib(1) by (simp add: demo_spec_def demo_scene_parts)
  then show ?thesis by (simp add: scene_def_for_row_def column_def r)
qed

lemma strip_r1 [simp]: "strip ''r1'' = ''r1''" "strip ''n'' = ''n''"
  by (simp_all add: strip_def is_space_def)

lemma demo_form: "submission_values confirm_lib demo_scene (submission_from_form confirm_lib demo_scene (JObj [(''amount'', JStr ''58'')])) = Inr demo_values"
  by (simp add: submission_values_def submission_from_form_def demo_scene_def from_control_def dict_of_def jget_def py_str_def
      strip_def is_space_def user_state_def coerce_def MAX_TEXT_CHARS_def field_value_def has_value_def demo_values_def Let_def)

lemma demo_good: "good_click demo_env demo_click open_card demo_scene demo_values (Injected ''mock'')"
proof -
  have w: "sd_writer demo_scene = ''kep-pre-claim-writer''" by (simp add: demo_scene_def)
  have f: "set (sd_fields demo_scene) = {\<lparr>sf_key = ''amount'', sf_label = ''amount'', sf_type = ''text'', sf_required = True,
    sf_risk = RISK_LOW, sf_options = [], sf_rule = []\<rparr>}" by (simp add: demo_scene_def)
  show ?thesis
    using demo_scene_of [of open_card] demo_form
    by (simp add: good_click_def demo_click_def w f value_missing_def jget_def demo_values_def truthy_def py_str_def strip_def
        is_space_def bind_endpoint_def)
qed

lemma open_reachable: "reachable E b ((initial b)\<lparr>cs_db := open_db\<rparr>)"
proof -
  let ?r0 = "card_args\<lparr>p_registry_id := ''r1'', p_created_at := 5, p_updated_at := 5\<rparr>"
  let ?s1 = "(initial b)\<lparr>cs_db := push_exec (Create 5 ''r1'' ''x'' card_args) empty_registry\<rparr>"
  let ?s2 = "?s1\<lparr>cs_db := push_exec (MarkSent 6 ''r1'' ''om_1'' None) (cs_db ?s1)\<rparr>"
  let ?s3 = "?s2\<lparr>cs_db := push_exec (Advance 7 ''r1'' fill_args) (cs_db ?s2)\<rparr>"
  have "sys_step E (initial b) ?s1"
    using sys_step.other [of "Create 5 ''r1'' ''x'' card_args" E "initial b"] by (simp add: other_op_def initial_def)
  moreover have "sys_step E ?s1 ?s2"
    by (rule sys_step.other) (simp add: other_op_def)
  moreover have "sys_step E ?s2 ?s3"
    by (rule sys_step.other) (simp add: other_op_def fill_args_def)
  ultimately have "reachable E b ?s3" unfolding reachable_def by (meson rtranclp.rtrancl_into_rtrancl rtranclp.rtrancl_refl)
  have "push_exec (Create 5 ''r1'' ''x'' card_args) empty_registry = \<lparr>pd_rows = [?r0], pd_archive = []\<rparr>"
    by (simp add: push_exec.simps create_def empty_registry_def Let_def push_indexes_def unique_index_def card_args_def
        demo_args_def str_or_empty_def)
  then have "cs_db ?s3 = open_db"
    by (simp add: push_exec.simps mark_sent_def push_update_def advance_status_def Let_def fill_args_def advance_guard_def
        advanced_row_def sent_row_def card_args_def demo_args_def open_db_def open_card_def push_indexes_def unique_index_def coalesce_def)
  then have "?s3 = (initial b)\<lparr>cs_db := open_db\<rparr>" by simp
  with \<open>reachable E b ?s3\<close> show ?thesis by metis
qed

lemma demo_uses_mock: "uses_mock demo_env"
  by (auto simp: uses_mock_def get_writer_def demo_env_def split: if_splits)

section \<open>Properties\<close>

text \<open>C22. A confirm click always comes to an end: within five actions, whatever the writer does, the handler
  returns a result; no exception escapes, and the indexes of the registry hold.\<close>

theorem handle_confirm_returns:
  assumes "push_inv db"
  shows "\<exists>r. fst (handle_confirm E now ck db b) = Done r \<and> push_inv (fst (snd (handle_confirm E now ck db b)))"
proof -
  let ?out = "handle_confirm E now ck db b"
  have "pc_rank (fst ?out) = 0" unfolding handle_confirm_def by (rule run_pc_final) simp
  moreover have "push_inv (fst (snd ?out))" "fst ?out \<noteq> Raised e" for e
    using run_pc_inv [OF assms, of "Start ck" E "replicate 5 now" b e] by (simp_all add: handle_confirm_def)
  ultimately show ?thesis by (cases "fst ?out") auto
qed

theorem handle_confirm_returns_witness:
  "\<exists>r. fst (handle_confirm demo_env 9 demo_click open_db demo_mock) = Done r
    \<and> push_inv (fst (snd (handle_confirm demo_env 9 demo_click open_db demo_mock)))"
  by (rule handle_confirm_returns [OF open_db_inv])


lemma demo_committed:
  "\<exists>s. reachable demo_env demo_mock s \<and> cs_found s = []
    \<and> (\<exists>r \<in> set (pd_rows (cs_db s)). p_registry_id r = ''r1'' \<and> p_status r = Committed)"
proof -
  let ?x = "ctx_of demo_env demo_click open_card demo_scene demo_values (Injected ''mock'')"
  have ok: "wr_ok (snd (mock_write confirm_lib a demo_mock))" "\<not> wr_credential_expired (snd (mock_write confirm_lib a demo_mock))" for a
    by (simp_all add: mock_write_def demo_mock_def write_ok_def)
  have call: "call_writer demo_env ?x demo_mock = mock_write confirm_lib (call_args ?x) demo_mock"
    by (simp add: call_writer_def do_write_def) (simp add: demo_env_def)
  have call': "call_writer demo_env ?x demo_mock =
      (fst (mock_write confirm_lib (call_args ?x) demo_mock), snd (mock_write confirm_lib (call_args ?x) demo_mock))"
    using call by simp
  have rid: "strip (ck_registry_id demo_click) = ''r1''" by (simp add: demo_click_def)
  have good: "check_click demo_env demo_click open_db = dispatch_click demo_env ?x"
    by (rule good_click_check [OF demo_good]) (simp add: rid)
  have nonce: "strip (ck_nonce demo_click) = ''n''" by (simp add: demo_click_def)
  obtain c db' where run: "handle_confirm demo_env 9 demo_click open_db demo_mock
      = (Done (carded K_Committed c (cx_id ?x) True), db', fst (mock_write confirm_lib (call_args ?x) demo_mock))"
    "push_get db' (cx_id ?x) = Some (advanced_row 9 (commit_args (ce_lib demo_env) ?x) (claimed_row (ce_lib demo_env) 9 ?x))"
    using run_commit [OF open_db_inv _ _ _ good call' ok, of 9] nonce by auto
  let ?r = "advanced_row 9 (commit_args (ce_lib demo_env) ?x) (claimed_row (ce_lib demo_env) 9 ?x)"
  have r: "?r \<in> set (pd_rows db')" "p_registry_id ?r = ''r1''" "p_status ?r = Committed"
    using tbl_get_mem [OF run(2) [unfolded push_get_def]] by (simp_all add: advanced_row_def commit_args_def)
  obtain s where "reachable demo_env demo_mock s" "cs_db s = db'" "cs_found s = []"
    using run_click [OF open_reachable, of demo_env 9 demo_click demo_mock] run(1) by (auto simp: initial_def)
  then show ?thesis using r by blast
qed


text \<open>C21. Exactly one record: with the in-memory kep-pre writer behind every scene, in every interleaving of
  clicks (double taps and retries included) the backend holds at most one record per card, and exactly one
  for each card whose write was acknowledged, however often it was written.\<close>

theorem exactly_one_record:
  assumes "uses_mock E" "mk_records b = []" "reachable E b s"
  shows "(\<forall>k. mock_count (cs_backend s) k \<le> 1)
    \<and> (\<forall>c \<in> set (cs_calls s). wr_ok (wc_result c) \<longrightarrow> mock_count (cs_backend s) (p_registry_id (cx_row (wc_ctx c))) = 1)
    \<and> (\<forall>r \<in> set (pd_rows (cs_db s)). p_status r = Committed \<longrightarrow> (\<forall>rec. (p_registry_id r, rec) \<notin> set (cs_found s)) \<longrightarrow>
          mock_count (cs_backend s) (p_registry_id r) = 1)"
proof -
  note inv = reachable_mock [OF assms, unfolded mock_inv_def]
  have none: "mock_count b k \<le> 1" for k by (simp add: mock_count_def assms(2))
  have "mock_count (cs_backend s) k \<le> 1" for k
    using mock.runs_at_most_one [OF none] inv by simp
  moreover have one: "\<forall>c \<in> set (cs_calls s). wr_ok (wc_result c) \<longrightarrow> mock_count (cs_backend s) (p_registry_id (cx_row (wc_ctx c))) = 1"
    using inv unfolding cx_id_def by blast
  moreover have "mock_count (cs_backend s) (p_registry_id r) = 1"
    if r: "r \<in> set (pd_rows (cs_db s))" "p_status r = Committed" "\<forall>rec. (p_registry_id r, rec) \<notin> set (cs_found s)" for r
  proof -
    have "landed s (p_registry_id r)" using reachable_inv [OF assms(3)] r unfolding sys_inv_def by blast
    then obtain c where "c \<in> set (cs_calls s)" "p_registry_id (cx_row (wc_ctx c)) = p_registry_id r" "wr_ok (wc_result c)"
      using r(3) unfolding landed_def cx_id_def by force
    then show ?thesis using one by metis
  qed
  ultimately show ?thesis by blast
qed

theorem exactly_one_record_witness:
  "\<exists>s. reachable demo_env demo_mock s \<and> (\<exists>r \<in> set (pd_rows (cs_db s)). p_registry_id r = ''r1'' \<and> p_status r = Committed)
    \<and> mock_count (cs_backend s) ''r1'' = 1"
proof -
  obtain s r where s: "reachable demo_env demo_mock s" "cs_found s = []" "r \<in> set (pd_rows (cs_db s))"
    "p_registry_id r = ''r1''" "p_status r = Committed" using demo_committed by blast
  have "mk_records demo_mock = []" by (simp add: demo_mock_def)
  from exactly_one_record [OF demo_uses_mock this s(1)] s have "mock_count (cs_backend s) ''r1'' = 1" by fastforce
  then show ?thesis using s by blast
qed

text \<open>C23. A click that meets a working writer commits: on an open card it writes the values of the submitted form, on
  a confirmed card (the retry button, which carries no form) it writes the values stored when the card was
  claimed; it calls the writer once with them under the card's id, and leaves the row committed with these
  values, one more write attempt, and the nonce cleared exactly where one submission is allowed.\<close>

theorem confirm_commits:
  assumes "push_inv db" "push_get db (strip (ck_registry_id ck)) = Some row"
    and "good_click E ck row scene vals w"
    and "do_write E w \<lparr>wa_scene = scene, wa_values = vals, wa_registry_id = p_registry_id row, wa_key = p_registry_id row,
        wa_profile_name = p_profile_name row\<rparr> b = (b', Inr res)" "wr_ok res" "\<not> wr_credential_expired res"
  shows "\<exists>r db' row'. handle_confirm E now ck db b = (Done r, db', b') \<and> co_kind r = K_Committed \<and> co_written r
    \<and> push_get db' (p_registry_id row) = Some row' \<and> p_status row' = Committed
    \<and> p_submission_json row' = Some (dumps (ce_lib E) (JObj vals))
    \<and> p_write_attempts row' = p_write_attempts row + 1
    \<and> p_nonce row' = (if sb_submit_once (resolve_behaviors (ce_lib E) (Some scene) row) then None else p_nonce row)"
proof -
  let ?x = "ctx_of E ck row scene vals w"
  note g = assms(3) [unfolded good_click_def]
  have call: "call_writer E ?x b = (b', res)"
    using assms(4) by (simp add: call_writer_def call_args_def)
  have "push_get db (p_registry_id row) = Some row" using assms(2) push_get_id [OF assms(2)] by simp
  then have x: "push_get db (cx_id ?x) = Some (cx_row ?x)" by simp
  have nonce: "p_nonce (cx_row ?x) = Some (cx_nonce ?x)" unfolding ctx_of_simps using g by blast
  have status: "p_status (cx_row ?x) \<in> {Clarifying, Confirmed}" unfolding ctx_of_simps using g by blast
  obtain c db' where run: "handle_confirm E now ck db b = (Done (carded K_Committed c (cx_id ?x) True), db', b')"
    "push_get db' (cx_id ?x) = Some (advanced_row now (commit_args (ce_lib E) ?x) (claimed_row (ce_lib E) now ?x))"
    using run_commit [OF assms(1) x nonce status good_click_check [OF assms(3,2)] call assms(5,6)] by blast
  let ?row = "advanced_row now (commit_args (ce_lib E) ?x) (claimed_row (ce_lib E) now ?x)"
  have "p_status ?row = Committed" "p_submission_json ?row = Some (dumps (ce_lib E) (JObj (cx_values ?x)))"
    "p_write_attempts ?row = p_write_attempts (cx_row ?x) + 1"
    "p_nonce ?row = (if sb_submit_once (cx_behaviors ?x) then None else p_nonce (cx_row ?x))"
    by (simp_all add: advanced_row_def commit_args_def)
  then have row: "p_status ?row = Committed" "p_submission_json ?row = Some (dumps (ce_lib E) (JObj vals))"
    "p_write_attempts ?row = p_write_attempts row + 1"
    "p_nonce ?row = (if sb_submit_once (resolve_behaviors (ce_lib E) (Some scene) row) then None else p_nonce row)"
    by simp_all
  show ?thesis
    by (rule exI [of _ "carded K_Committed c (cx_id ?x) True"], rule exI [of _ db'], rule exI [of _ ?row], intro conjI)
      (use run row in \<open>simp_all add: carded_def\<close>)
qed

theorem confirm_commits_witness:
  "\<exists>r db' row'. handle_confirm demo_env 9 demo_click open_db demo_mock
      = (Done r, db', demo_mock\<lparr>mk_records := [(''r1'', mock_record confirm_lib \<lparr>wa_scene = demo_scene, wa_values = demo_values,
           wa_registry_id = ''r1'', wa_key = ''r1'', wa_profile_name = ''p''\<rparr>)], mk_write_calls := 1\<rparr>)
    \<and> co_kind r = K_Committed \<and> push_get db' ''r1'' = Some row' \<and> p_status row' = Committed \<and> p_write_attempts row' = 1"
proof -
  let ?a = "\<lparr>wa_scene = demo_scene, wa_values = demo_values, wa_registry_id = ''r1'', wa_key = ''r1'', wa_profile_name = ''p''\<rparr>"
  let ?m = "demo_mock\<lparr>mk_records := [(''r1'', mock_record confirm_lib ?a)], mk_write_calls := 1\<rparr>"
  have w: "do_write demo_env (Injected ''mock'') ?a demo_mock = (?m, Inr (write_ok ''kep_pre_r1''))"
    by (simp add: do_write_def demo_env_def mock_write_def demo_mock_def)
  have get: "push_get open_db (strip (ck_registry_id demo_click)) = Some open_card" by (simp add: demo_click_def)
  have w': "do_write demo_env (Injected ''mock'') \<lparr>wa_scene = demo_scene, wa_values = demo_values, wa_registry_id = p_registry_id open_card,
      wa_key = p_registry_id open_card, wa_profile_name = p_profile_name open_card\<rparr> demo_mock = (?m, Inr (write_ok ''kep_pre_r1''))"
    using w by simp
  note cc = confirm_commits [where now = 9 and E = demo_env and db = open_db and ck = demo_click and row = open_card and scene = demo_scene
        and vals = demo_values and w = "Injected ''mock''" and b = demo_mock and b' = ?m and res = "write_ok ''kep_pre_r1''"]
  show ?thesis
    using cc [OF open_db_inv get demo_good w'] by (simp add: write_ok_def) blast
qed

lemma run_pc_done: "run_pc E nows (Done r) db b = (Done r, db, b)"
  by (induction nows) (simp_all add: step_simps)

text \<open>C24. A click that must not write changes nothing: where the row is gone, expired, not open for submission, already
  committed with one submission allowed, addressed to somebody else, or under another nonce, neither
  the registry nor the backend changes, and the answer is a notice, never a committed result.\<close>

theorem refused_click_inert:
  assumes "case push_get db (strip (ck_registry_id ck)) of
      None \<Rightarrow> True
    | Some row \<Rightarrow> p_status row \<notin> {Clarifying, Confirmed, Committed}
        \<or> (p_status row = Committed \<and> sb_submit_once (resolve_behaviors (ce_lib E) (scene_def_for_row (ce_lib E) row) row))
        \<or> (p_target_open_id row \<noteq> [] \<and> p_target_open_id row \<notin> set (ck_operators ck))
        \<or> p_nonce row \<noteq> Some (strip (ck_nonce ck))"
  shows "\<exists>r. handle_confirm E now ck db b = (Done r, db, b) \<and> co_card r = None \<and> co_toast r \<noteq> None
    \<and> co_kind r \<in> {K_Invalid, K_Noop, K_Reject, K_Not_Owner} \<and> \<not> co_written r"
proof -
  have "\<exists>r. check_click E ck db = Done r \<and> co_card r = None \<and> co_toast r \<noteq> None
    \<and> co_kind r \<in> {K_Invalid, K_Noop, K_Reject, K_Not_Owner} \<and> \<not> co_written r"
    using assms by (cases "push_get db (strip (ck_registry_id ck))")
      (auto simp: check_click_def check_row_def Let_def toasted_def)
  then obtain r where r: "check_click E ck db = Done r" "co_card r = None" "co_toast r \<noteq> None"
    "co_kind r \<in> {K_Invalid, K_Noop, K_Reject, K_Not_Owner}" "\<not> co_written r" by blast
  have "handle_confirm E now ck db b = run_pc E (replicate 4 now) (Done r) db b"
    by (simp add: handle_confirm_def numeral_eq_Suc confirm_step.simps r(1))
  then show ?thesis using r(2-5) by (simp add: run_pc_done)
qed

theorem refused_click_inert_witness:
  "\<exists>r. handle_confirm demo_env 9 (demo_click\<lparr>ck_operators := [''ou_2'']\<rparr>) open_db demo_mock = (Done r, open_db, demo_mock)
    \<and> \<not> co_written r"
  using refused_click_inert [where db = open_db and ck = "demo_click\<lparr>ck_operators := [''ou_2'']\<rparr>" and E = demo_env and now = 9
      and b = demo_mock]
  by (auto simp: demo_click_def)

lemma seen_keys: "fst ` set (foldl (\<lambda>d r. dict_set (p_registry_id r) r d) d rs) = fst ` set d \<union> p_registry_id ` set rs"
  by (induction rs arbitrary: d) (auto simp: fst_dict_set)

lemma set_dict_set: "e \<in> set (dict_set k v d) \<Longrightarrow> e \<in> set d \<or> e = (k, v)"
  by (induction d) (auto split: if_splits)

lemma seen_entries:
  "e \<in> set (foldl (\<lambda>d r. dict_set (p_registry_id r) r d) d rs) \<Longrightarrow> e \<in> set d \<or> (\<exists>r \<in> set rs. e = (p_registry_id r, r))"
proof (induction rs arbitrary: d)
  case (Cons r rs)
  then show ?case using set_dict_set [of e "p_registry_id r" r d] by fastforce
qed simp

text \<open>The buttons lead back: the submit button of every confirm card, and the retry and resubmit buttons of every
  result card, carry a value that is recognised as a confirm action and routes to the same registry id and
  nonce, whatever the form brings along; and a click whose value was stripped is routed only where the
  operators have exactly one open card in the fill loop, to that card, which is addressed to one of them.\<close>

lemma confirm_buttons_route:
  assumes "rid \<noteq> []"
  shows "(is_push_confirm_action L (routing_value rid nonce opid) fv name
      \<and> routing_ids L (routing_value rid nonce opid) fv = (rid, nonce))
    \<and> (\<forall>r. recover_open_row now db operators = Some r \<longrightarrow>
         r \<in> set (pd_rows db) \<and> p_status r = Clarifying \<and> p_target_open_id r \<in> set operators
         \<and> (case p_expires_at r of None \<Rightarrow> True | Some e \<Rightarrow> e > now)
         \<and> (\<forall>q \<in> set (pd_rows db). p_status q = Clarifying \<longrightarrow> p_target_open_id q \<in> set operators
              \<longrightarrow> (case p_expires_at q of None \<Rightarrow> True | Some e \<Rightarrow> e > now) \<longrightarrow> p_registry_id q = p_registry_id r))"
proof -
  define cand where "cand = concat (map (\<lambda>oid. filter (\<lambda>r. p_status r = Clarifying) (list_open_for_user db oid now)) operators)"
  have mem: "r \<in> set cand \<longleftrightarrow> r \<in> set (pd_rows db) \<and> p_status r = Clarifying \<and> p_target_open_id r \<in> set operators
      \<and> (case p_expires_at r of None \<Rightarrow> True | Some e \<Rightarrow> e > now)" for r
    by (auto simp: cand_def list_open_for_user_def OPEN_STATUSES_def)
  have "r \<in> set cand \<and> (\<forall>q \<in> set cand. p_registry_id q = p_registry_id r)" if rec: "recover_open_row now db operators = Some r" for r
  proof -
    let ?d = "foldl (\<lambda>d r. dict_set (p_registry_id r) r d) [] cand"
    obtain k where d: "?d = [(k, r)]"
      using rec unfolding recover_open_row_def cand_def [symmetric] Let_def by (auto split: list.splits)
    have "r \<in> set cand" "k = p_registry_id r" using seen_entries [of "(k, r)" "[]" cand] unfolding d by auto
    moreover have "p_registry_id ` set cand = {k}" using seen_keys [of "[]" cand] unfolding d by simp
    ultimately show ?thesis by blast
  qed
  note found = this
  have route: "is_push_confirm_action L (routing_value rid nonce opid) fv name"
    "routing_ids L (routing_value rid nonce opid) fv = (rid, nonce)"
    using assms by (simp_all add: is_push_confirm_action_def is_confirm_value_def routing_value_def routing_ids_def ids_from_def
        jget_def truthy_def str_get_or_def py_str_def)
  show ?thesis
  proof (intro conjI allI impI ballI)
    fix r assume rec: "recover_open_row now db operators = Some r"
    have r: "r \<in> set cand" using found [OF rec] by blast
    show "r \<in> set (pd_rows db)" "p_status r = Clarifying" "p_target_open_id r \<in> set operators"
      "case p_expires_at r of None \<Rightarrow> True | Some e \<Rightarrow> e > now" using r unfolding mem by blast+
    fix q assume q: "q \<in> set (pd_rows db)" "p_status q = Clarifying" "p_target_open_id q \<in> set operators"
      "case p_expires_at q of None \<Rightarrow> True | Some e \<Rightarrow> e > now"
    then have "q \<in> set cand" unfolding mem by blast
    then show "p_registry_id q = p_registry_id r" using found [OF rec] by blast
  qed (use route in simp_all)
qed

lemma move:
  assumes "(sys_step E)\<^sup>*\<^sup>* s0 s" "i < length (cs_threads s)"
    and "confirm_step E now (cs_threads s ! i) (cs_db s) (cs_backend s) = (p, db, b)"
  shows "\<exists>s'. (sys_step E)\<^sup>*\<^sup>* s0 s' \<and> cs_db s' = db \<and> cs_backend s' = b \<and> cs_threads s' = (cs_threads s)[i := p]"
  using rtranclp.rtrancl_into_rtrancl [OF assms(1) sys_step.thread [OF assms(2,3)]]
  by (intro exI conjI, assumption) simp_all

lemma recommit_step:
  assumes "push_inv db" "push_get db (cx_id x) = Some r" "p_status r = Committed"
  shows "\<exists>p db' r'. confirm_step E now (Recommit x) db b = (p, db', b) \<and> push_inv db' \<and> push_get db' (cx_id x) = Some r'
    \<and> p_status r' = Committed \<and> p_write_attempts r' = p_write_attempts r + 1"
proof -
  note q = cas_quiet [OF assms(1) quiet_confirm_args(4), of now "cx_id x" "ce_lib E" x]
  have "advance_guard (recommit_args (ce_lib E) x) r" "p_registry_id r = cx_id x"
    using assms(3) push_get_id [OF assms(2)] by (simp_all add: advance_guard_def recommit_args_def)
  then have get: "push_get (push_exec (Advance now (cx_id x) (recommit_args (ce_lib E) x)) db) (cx_id x)
      = Some (advanced_row now (recommit_args (ce_lib E) x) r)" using q(3) assms(2) by simp
  have step: "confirm_step E now (Recommit x) db b =
      (fst (confirm_step E now (Recommit x) db b), push_exec (Advance now (cx_id x) (recommit_args (ce_lib E) x)) db, b)"
    using step_simps(6) [of E now x db b] by (simp add: prod_eq_iff)
  have "p_status (advanced_row now (recommit_args (ce_lib E) x) r) = Committed"
    "p_write_attempts (advanced_row now (recommit_args (ce_lib E) x) r) = p_write_attempts r + 1"
    by (simp_all add: advanced_row_def recommit_args_def)
  with step q(2) get show ?thesis by blast
qed

text \<open>The cap on resubmissions is not a cap: it is compared with the counter the click read at its start, so two
  clicks at the last allowed submission both pass, both write, and leave more accepted submissions on the
  card than \<open>max_submits\<close> allows.\<close>

lemma resubmit_cap_race:
  assumes "push_inv (cs_db s)" "push_get (cs_db s) (cx_id x) = Some row" "p_status row = Committed"
    and "check_click E ck (cs_db s) = Rewriting x" "sb_max_submits (cx_behaviors x) = Some m" "int (p_write_attempts row) = m - 1"
    and "\<And>b. b \<in> {cs_backend s, fst (call_writer E x (cs_backend s))} \<Longrightarrow>
          wr_ok (snd (call_writer E x b)) \<and> \<not> wr_credential_expired (snd (call_writer E x b))"
  shows "\<exists>s' row'. (sys_step E)\<^sup>*\<^sup>* s s' \<and> push_get (cs_db s') (cx_id x) = Some row' \<and> int (p_write_attempts row') = m + 1"
proof -
  let ?n = "length (cs_threads s)"
  let ?s1 = "s\<lparr>cs_threads := cs_threads s @ [Start ck]\<rparr>"
  let ?s2 = "?s1\<lparr>cs_threads := cs_threads ?s1 @ [Start ck]\<rparr>"
  have slot: "(ts @ [p, q]) ! length ts = p" "(ts @ [p, q]) ! Suc (length ts) = q"
    "(ts @ [p, q])[length ts := p'] = ts @ [p', q]" "(ts @ [p, q])[Suc (length ts) := p'] = ts @ [p, p']"
    for ts and p q p' :: pc by (simp_all add: nth_append list_update_append)
  have wrote: "confirm_step E 0 (Rewriting x) db b = (Recommit x, db, fst (call_writer E x b))"
    if "b \<in> {cs_backend s, fst (call_writer E x (cs_backend s))}" for db b
    using assms(7) [OF that] by (simp add: step_simps after_rewrite_def)
  have start: "confirm_step E 0 (Start ck) (cs_db s) b = (Rewriting x, cs_db s, b)" for b
    by (simp add: confirm_step.simps assms(4))
  have s2: "(sys_step E)\<^sup>*\<^sup>* s ?s2" "cs_threads ?s2 = cs_threads s @ [Start ck, Start ck]"
    using sys_step.new_click [of E s ck] sys_step.new_click [of E ?s1 ck]
    by (meson rtranclp.rtrancl_into_rtrancl rtranclp.rtrancl_refl) simp
  obtain s3 where s3: "(sys_step E)\<^sup>*\<^sup>* s s3" "cs_db s3 = cs_db s" "cs_backend s3 = cs_backend s" "cs_threads s3 = cs_threads s @ [Rewriting x, Start ck]"
    using move [OF s2(1), of ?n 0] start [of "cs_backend s"] by (simp add: slot s2(2)) blast
  obtain s4 where s4: "(sys_step E)\<^sup>*\<^sup>* s s4" "cs_db s4 = cs_db s" "cs_backend s4 = cs_backend s" "cs_threads s4 = cs_threads s @ [Rewriting x, Rewriting x]"
    using move [OF s3(1), of "Suc ?n" 0] start [of "cs_backend s"] by (simp add: slot s3(2-4)) blast
  obtain s5 where s5: "(sys_step E)\<^sup>*\<^sup>* s s5" "cs_db s5 = cs_db s"
    "cs_backend s5 = fst (call_writer E x (cs_backend s))" "cs_threads s5 = cs_threads s @ [Recommit x, Rewriting x]"
    using move [OF s4(1), of ?n 0] wrote [of "cs_backend s" "cs_db s"] by (auto simp: slot s4(2-4))
  obtain s6 where s6: "(sys_step E)\<^sup>*\<^sup>* s s6" "cs_db s6 = cs_db s" "cs_threads s6 = cs_threads s @ [Recommit x, Recommit x]"
    using move [OF s5(1), of "Suc ?n" 0] wrote [of "cs_backend s5" "cs_db s"] by (auto simp: slot s5(2-4))
  obtain p1 d1 r1 where c1: "confirm_step E 0 (Recommit x) (cs_db s) (cs_backend s6) = (p1, d1, cs_backend s6)" "push_inv d1"
    "push_get d1 (cx_id x) = Some r1" "p_status r1 = Committed" "p_write_attempts r1 = p_write_attempts row + 1"
    using recommit_step [OF assms(1-3), of E 0 "cs_backend s6"] by blast
  obtain s7 where s7: "(sys_step E)\<^sup>*\<^sup>* s s7" "cs_db s7 = d1" "cs_threads s7 = cs_threads s @ [p1, Recommit x]"
    using move [OF s6(1), of ?n 0] c1(1) by (auto simp: slot s6(2,3))
  obtain p2 d2 r2 where c2: "confirm_step E 0 (Recommit x) d1 (cs_backend s7) = (p2, d2, cs_backend s7)"
    "push_get d2 (cx_id x) = Some r2" "p_write_attempts r2 = p_write_attempts r1 + 1"
    using recommit_step [OF c1(2-4), of E 0 "cs_backend s7"] by blast
  obtain s8 where "(sys_step E)\<^sup>*\<^sup>* s s8" "cs_db s8 = d2"
    using move [OF s7(1), of "Suc ?n" 0] c2(1) by (auto simp: slot s7(2,3))
  then show ?thesis using c2(2,3) c1(5) assms(6) by (intro exI [of _ s8] exI [of _ r2]) simp
qed

definition race_card :: push_row where
  "race_card = open_card\<lparr>p_status := Committed, p_write_attempts := 1, p_behaviors_json := Some (dumps confirm_lib (behaviors_json capped))\<rparr>"

definition race_ctx :: confirm_ctx where
  "race_ctx = \<lparr>cx_click = demo_click, cx_nonce = ''n'', cx_row = race_card, cx_scene = demo_scene, cx_behaviors = capped,
     cx_values = demo_values, cx_writer = Injected ''mock''\<rparr>"

definition race_start :: "mock_state confirm_sys" where
  "race_start = (initial demo_mock)\<lparr>cs_db := \<lparr>pd_rows = [race_card], pd_archive = []\<rparr>\<rparr>"

lemma race_check: "check_click demo_env demo_click (cs_db race_start) = Rewriting race_ctx"
proof -
  have "json_ok confirm_lib (behaviors_json capped)" by (simp add: confirm_lib_def table_lib_ok)
  then have so: "stored_object confirm_lib (column (p_behaviors_json race_card)) = stored_object confirm_lib (behaviors_json capped)"
    by (simp add: race_card_def column_def stored_object_def truthy_def json_ok_def behaviors_json_def)
  have beh: "resolve_behaviors confirm_lib sc race_card = capped" for sc
    using behaviors_json_back [of confirm_lib capped] so by (simp add: resolve_behaviors_def behaviors_from_json_def)
  have row: "push_get (cs_db race_start) ''r1'' = Some race_card" "p_registry_id race_card = ''r1''" "p_status race_card = Committed"
    "p_target_open_id race_card = ''ou_1''" "p_nonce race_card = Some ''n''" "p_write_attempts race_card = 1"
    by (simp_all add: race_start_def push_get_def tbl_get_Cons race_card_def)
  have scene: "scene_def_for_row confirm_lib race_card = Some demo_scene" by (rule demo_scene_of) (simp add: race_card_def)
  have w: "sd_writer demo_scene = ''kep-pre-claim-writer''" by (simp add: demo_scene_def)
  have miss: "filter (value_missing confirm_lib demo_values) (sd_fields demo_scene) = []"
    using demo_good by (auto simp: good_click_def filter_empty_conv)
  have nonempty: "demo_values \<noteq> []" by (simp add: demo_values_def)
  show ?thesis
    by (simp add: check_click_def check_row_def check_values_def dispatch_click_def Let_def demo_click_def row beh scene
        demo_form miss nonempty w bind_endpoint_def race_ctx_def)
      (simp add: capped_def row)
qed

end
