(* ===== verification/Push_Workers.thy ===== *)
theory Push_Workers
  imports Send_Queue Push_Confirm
begin

text \<open>
  The background sweeps of the push-card loop (\<open>src/hermes_multitenancy/push_card_workers.py\<close>): expiry, send
  re-drive and reconciliation. What other coroutines and processes do to the registry between two
  statements of a sweep is the argument \<open>env\<close>, applied before the statement that follows row \<open>i\<close>; the card
  updater, the sender and the backend answer through arguments; \<open>clk i\<close> is the clock read for row \<open>i\<close>.
\<close>

section \<open>Expiry\<close>

record expiry_counters =
  ec_due :: nat
  ec_expired :: nat
  ec_card_failed :: nat

definition expire_args :: "push_status \<Rightarrow> advance_args" where
  "expire_args st = \<lparr>aa_expect = st, aa_to = Expired, aa_expect_nonce = None, aa_clear_nonce = False, aa_submission = None,
     aa_message_id = None, aa_last_error = None, aa_bump_write_attempts = False\<rparr>"

text \<open>The updater answers whether the card was re-rendered; an exception counts as no.\<close>

definition update_failed :: "(push_row \<Rightarrow> bool) option \<Rightarrow> push_row \<Rightarrow> bool" where
  "update_failed updater r = (case updater of None \<Rightarrow> False | Some u \<Rightarrow> str_or_empty (p_message_id r) \<noteq> [] \<and> \<not> u r)"

fun expire_rows ::
  "(nat \<Rightarrow> int) \<Rightarrow> (nat \<Rightarrow> push_db \<Rightarrow> push_db) \<Rightarrow> (push_row \<Rightarrow> bool) option \<Rightarrow> nat \<Rightarrow> push_row list \<Rightarrow> push_db \<Rightarrow> expiry_counters
    \<Rightarrow> (push_db \<times> expiry_counters) result" where
  "expire_rows clk env updater i [] db c = Inr (db, c)"
| "expire_rows clk env updater i (r # rs) db c =
     (case advance_status (clk i) (env i db) (p_registry_id r) (expire_args (p_status r)) of
        Inl e \<Rightarrow> Inl e
      | Inr (db', won) \<Rightarrow>
          expire_rows clk env updater (Suc i) rs db'
            \<lparr>ec_due = ec_due c + 1, ec_expired = ec_expired c + (if won then 1 else 0),
             ec_card_failed = ec_card_failed c + (if update_failed updater r then 1 else 0)\<rparr>)"

definition run_expiry_sweep ::
  "int \<Rightarrow> (nat \<Rightarrow> int) \<Rightarrow> (nat \<Rightarrow> push_db \<Rightarrow> push_db) \<Rightarrow> (push_row \<Rightarrow> bool) option \<Rightarrow> push_db \<Rightarrow> (push_db \<times> expiry_counters) result" where
  "run_expiry_sweep now clk env updater db =
     expire_rows clk env updater 0 (list_due_open db now) db \<lparr>ec_due = 0, ec_expired = 0, ec_card_failed = 0\<rparr>"

section \<open>Send re-drive\<close>

definition SEND_REDRIVE_AFTER_S :: int where "SEND_REDRIVE_AFTER_S = 60"

definition RECONCILE_AFTER_S :: int where "RECONCILE_AFTER_S = 5 * 60"

record redrive_counters =
  rc_redriven :: nat
  rc_sent :: nat
  rc_deferred :: nat
  rc_failed :: nat
  rc_skipped :: nat

fun count_outcome :: "queue_outcome \<Rightarrow> redrive_counters \<Rightarrow> redrive_counters" where
  "count_outcome (QSent _) c = c\<lparr>rc_sent := rc_sent c + 1\<rparr>"
| "count_outcome (QDeferred _ _) c = c\<lparr>rc_deferred := rc_deferred c + 1\<rparr>"
| "count_outcome (QFailed _) c = c\<lparr>rc_failed := rc_failed c + 1\<rparr>"
| "count_outcome (QSkipped _) c = c\<lparr>rc_skipped := rc_skipped c + 1\<rparr>"

text \<open>The clocks, the interference and the sender of the queue, for each row of the sweep.\<close>

record queue_world =
  qw_clk :: "nat \<Rightarrow> int"
  qw_dt :: int
  qw_mono :: rat
  qw_env :: "nat \<Rightarrow> push_db \<Rightarrow> push_db"
  qw_sender :: "nat \<Rightarrow> send_answer"

fun redrive_rows ::
  "queue_config \<Rightarrow> (int \<Rightarrow> int) \<Rightarrow> (nat \<Rightarrow> queue_world) \<Rightarrow> nat \<Rightarrow> push_row list \<Rightarrow> push_db \<times> token_bucket \<Rightarrow> redrive_counters
    \<Rightarrow> (push_db \<times> token_bucket) \<times> redrive_counters" where
  "redrive_rows cfg to_ts world i [] s c = (s, c)"
| "redrive_rows cfg to_ts world i (r # rs) s c =
     (case process cfg to_ts (qw_clk (world i)) (qw_dt (world i)) (qw_mono (world i)) (qw_env (world i)) (qw_sender (world i))
             (snd s) (fst s) (p_registry_id r) of
        (db, bucket, wait, out) \<Rightarrow>
          redrive_rows cfg to_ts world (Suc i) rs (db, bucket) (count_outcome out (c\<lparr>rc_redriven := rc_redriven c + 1\<rparr>)))"

definition run_send_redrive_sweep ::
  "queue_config \<Rightarrow> (int \<Rightarrow> int) \<Rightarrow> (nat \<Rightarrow> queue_world) \<Rightarrow> int \<Rightarrow> int \<Rightarrow> push_db \<times> token_bucket
    \<Rightarrow> (push_db \<times> token_bucket) \<times> redrive_counters" where
  "run_send_redrive_sweep cfg to_ts world redrive_after_s now s =
     redrive_rows cfg to_ts world 0 (list_sending_stale (fst s) (now - redrive_after_s)) s
       \<lparr>rc_redriven = 0, rc_sent = 0, rc_deferred = 0, rc_failed = 0, rc_skipped = 0\<rparr>"

section \<open>Reconciliation\<close>

record reconcile_counters =
  rn_checked :: nat
  rn_committed :: nat
  rn_missing :: nat

text \<open>The lookup answers with an exception, nothing, or a value.\<close>

fun reconcile_rows ::
  "pylib \<Rightarrow> (nat \<Rightarrow> int) \<Rightarrow> (nat \<Rightarrow> push_db \<Rightarrow> push_db) \<Rightarrow> (push_row \<Rightarrow> json result) \<Rightarrow> nat \<Rightarrow> push_row list \<Rightarrow> push_db
    \<Rightarrow> reconcile_counters \<Rightarrow> (push_db \<times> reconcile_counters) result" where
  "reconcile_rows L clk env lookup i [] db c = Inr (db, c)"
| "reconcile_rows L clk env lookup i (r # rs) db c =
     (let c' = c\<lparr>rn_checked := rn_checked c + 1\<rparr>
      in (case lookup r of
            Inl e \<Rightarrow> reconcile_rows L clk env lookup (Suc i) rs (env i db) c'
          | Inr rec \<Rightarrow>
              if truthy rec
              then (case advance_status (clk i) (env i db) (p_registry_id r) (reconcile_args L rec) of
                      Inl e \<Rightarrow> Inl e
                    | Inr (db', won) \<Rightarrow>
                        reconcile_rows L clk env lookup (Suc i) rs db'
                          (c'\<lparr>rn_committed := rn_committed c' + (if won then 1 else 0)\<rparr>))
              else reconcile_rows L clk env lookup (Suc i) rs (env i db) (c'\<lparr>rn_missing := rn_missing c' + 1\<rparr>)))"

definition run_reconcile_sweep ::
  "pylib \<Rightarrow> (nat \<Rightarrow> int) \<Rightarrow> (nat \<Rightarrow> push_db \<Rightarrow> push_db) \<Rightarrow> (push_row \<Rightarrow> json result) option \<Rightarrow> int \<Rightarrow> int \<Rightarrow> push_db
    \<Rightarrow> (push_db \<times> reconcile_counters) result" where
  "run_reconcile_sweep L clk env lookup reconcile_after_s now db =
     (case lookup of
        None \<Rightarrow> Inr (db, \<lparr>rn_checked = 0, rn_committed = 0, rn_missing = 0\<rparr>)
      | Some f \<Rightarrow> reconcile_rows L clk env f 0 (list_stale_confirmed db (now - reconcile_after_s)) db
                    \<lparr>rn_checked = 0, rn_committed = 0, rn_missing = 0\<rparr>)"

text \<open>One tick: expiry, then re-drive, then reconciliation; an exception ends the tick.\<close>

definition run_all_sweeps ::
  "pylib \<Rightarrow> queue_config \<Rightarrow> (int \<Rightarrow> int) \<Rightarrow> (nat \<Rightarrow> queue_world) \<Rightarrow> (nat \<Rightarrow> int) \<Rightarrow> (nat \<Rightarrow> push_db \<Rightarrow> push_db) \<Rightarrow> (push_row \<Rightarrow> bool) option
    \<Rightarrow> (push_row \<Rightarrow> json result) option \<Rightarrow> int \<Rightarrow> push_db \<times> token_bucket
    \<Rightarrow> ((push_db \<times> token_bucket) \<times> expiry_counters \<times> redrive_counters \<times> reconcile_counters) result" where
  "run_all_sweeps L cfg to_ts world clk env updater lookup now s =
     (case run_expiry_sweep now clk env updater (fst s) of
        Inl e \<Rightarrow> Inl e
      | Inr (db1, ec) \<Rightarrow>
          (case run_send_redrive_sweep cfg to_ts world SEND_REDRIVE_AFTER_S now (db1, snd s) of
             ((db2, bucket), rc) \<Rightarrow>
               (case run_reconcile_sweep L clk env lookup RECONCILE_AFTER_S now db2 of
                  Inl e \<Rightarrow> Inl e
                | Inr (db3, nc) \<Rightarrow> Inr ((db3, bucket), ec, rc, nc))))"

section \<open>The live lookup\<close>

text \<open>The GET probe: its request and the reading of the reply.\<close>

definition percent_quote :: "string \<Rightarrow> string" where
  "percent_quote s = concat (map (\<lambda>c. if c \<in> set ''abcdefghijklmnopqrstuvwxyzABCDEFGHIJKLMNOPQRSTUVWXYZ0123456789_.-~/'' then [c]
     else (let n = of_char c :: nat in [CHR ''%'', ''0123456789ABCDEF'' ! (n div 16), ''0123456789ABCDEF'' ! (n mod 16)])) s)"

text \<open>\<open>urlparse(url).query\<close> is the part between the first question mark and the fragment.\<close>

definition url_query :: "string \<Rightarrow> string" where
  "url_query url = drop 1 (dropWhile (\<lambda>c. c \<noteq> CHR ''?'') (takeWhile (\<lambda>c. c \<noteq> CHR ''#'') (clean_url url)))"

definition probe_request :: "(string \<Rightarrow> string option) \<Rightarrow> callback_config \<Rightarrow> string \<Rightarrow> http_request" where
  "probe_request environ cb rid =
     \<lparr>rq_url = cb_url cb @ (if url_query (cb_url cb) \<noteq> [] then ''&'' else ''?'') @ ''write_idempotency_key='' @ percent_quote rid,
      rq_body = JNull,
      rq_headers = dict_update [(''Accept'', ''application/json'')] (auth_headers environ (cb_auth_header cb) (cb_auth_token_env cb)),
      rq_timeout = of_int (cb_timeout_s cb)\<rparr>"

definition probe_record :: "pylib \<Rightarrow> http_reply \<Rightarrow> json" where
  "probe_record L reply =
     (case reply of
        Reply raw \<Rightarrow>
          (case loads L raw of
             Some (JObj d) \<Rightarrow>
               (case jget d ''record'' of
                  JObj rec \<Rightarrow> if rec \<noteq> [] then JObj rec
                              else if truthy (jget d ''found'') \<or> truthy (jget d ''write_idempotency_key'') then JObj d else JNull
                | _ \<Rightarrow> if truthy (jget d ''found'') \<or> truthy (jget d ''write_idempotency_key'') then JObj d else JNull)
           | _ \<Rightarrow> JNull)
      | _ \<Rightarrow> JNull)"

definition live_reconcile_backend_lookup :: "'b confirm_env \<Rightarrow> (http_request \<Rightarrow> http_reply) \<Rightarrow> push_row \<Rightarrow> json" where
  "live_reconcile_backend_lookup E http_get r =
     (case resolve_callback E (scene_def_for_row (ce_lib E) r) r of
        None \<Rightarrow> JNull
      | Some cb \<Rightarrow> if p_registry_id r = [] then JNull
                   else probe_record (ce_lib E) (http_get (probe_request (ce_environ E) cb (p_registry_id r))))"

section \<open>The sweeps row by row\<close>

lemma expire_args_row: "advanced_row now (expire_args st) r = expired_row now r"
  by (simp add: advanced_row_def expire_args_def expired_row_def)

lemma quiet_expire [simp]: "quiet_args (expire_args st)"
  by (simp add: quiet_args_def expire_args_def INFLIGHT_STATUSES_def)

text \<open>A compare-and-swap on a listed row that has not moved rewrites that row and wins.\<close>

lemma advance_listed:
  assumes "push_inv db" "quiet_args a" "r \<in> set (pd_rows db)" "advance_guard a r"
  shows "advance_status now db (p_registry_id r) a =
      Inr (db\<lparr>pd_rows := sql_update (\<lambda>q. p_registry_id q = p_registry_id r) (advanced_row now a) (pd_rows db)\<rparr>, True)"
    and "push_inv (db\<lparr>pd_rows := sql_update (\<lambda>q. p_registry_id q = p_registry_id r) (advanced_row now a) (pd_rows db)\<rparr>)"
proof -
  have d: "inj_on p_registry_id (set (pd_rows db))"
    using assms(1) by (simp add: push_inv_def push_indexes_def distinct_map)
  have eq: "sql_update (\<lambda>q. p_registry_id q = p_registry_id r \<and> advance_guard a q) (advanced_row now a) (pd_rows db) =
      sql_update (\<lambda>q. p_registry_id q = p_registry_id r) (advanced_row now a) (pd_rows db)"
    unfolding sql_update_def
  proof (rule map_cong [OF refl])
    fix q assume q: "q \<in> set (pd_rows db)"
    have "p_registry_id q = p_registry_id r \<Longrightarrow> q = r" using inj_onD [OF d _ q assms(3)] .
    then show "(if p_registry_id q = p_registry_id r \<and> advance_guard a q then advanced_row now a q else q) =
        (if p_registry_id q = p_registry_id r then advanced_row now a q else q)" using assms(4) by auto
  qed
  have "rowcount (\<lambda>q. p_registry_id q = p_registry_id r \<and> advance_guard a q) (pd_rows db) \<noteq> 0"
    using assms(3,4) rowcount_0_iff [of _ "pd_rows db"] by auto
  then have "push_update (\<lambda>q. p_registry_id q = p_registry_id r \<and> advance_guard a q) (advanced_row now a) db =
      (db\<lparr>pd_rows := sql_update (\<lambda>q. p_registry_id q = p_registry_id r) (advanced_row now a) (pd_rows db)\<rparr>, True)"
    by (simp add: push_update_def eq)
  with advance_quiet [OF assms(1,2), where now = now and rid = "p_registry_id r"]
  show "advance_status now db (p_registry_id r) a =
      Inr (db\<lparr>pd_rows := sql_update (\<lambda>q. p_registry_id q = p_registry_id r) (advanced_row now a) (pd_rows db)\<rparr>, True)"
    and "push_inv (db\<lparr>pd_rows := sql_update (\<lambda>q. p_registry_id q = p_registry_id r) (advanced_row now a) (pd_rows db)\<rparr>)"
    by simp_all
qed

lemma sql_update_seq:
  assumes "\<And>q. key (f q) = key q" "k \<notin> K"
  shows "sql_update (\<lambda>q. key q \<in> K) f (sql_update (\<lambda>q. key q = k) f t) = sql_update (\<lambda>q. key q \<in> insert k K) f t"
  using assms by (auto simp: sql_update_def)

lemma expire_rows_exact:
  "push_inv db \<Longrightarrow> distinct (map p_registry_id rs) \<Longrightarrow> set rs \<subseteq> set (pd_rows db) \<Longrightarrow>
     \<exists>c'. expire_rows (\<lambda>_. now) (\<lambda>_ d. d) updater i rs db c =
       Inr (db\<lparr>pd_rows := sql_update (\<lambda>q. p_registry_id q \<in> p_registry_id ` set rs) (expired_row now) (pd_rows db)\<rparr>, c')
     \<and> ec_due c' = ec_due c + length rs \<and> ec_expired c' = ec_expired c + length rs
     \<and> push_inv (db\<lparr>pd_rows := sql_update (\<lambda>q. p_registry_id q \<in> p_registry_id ` set rs) (expired_row now) (pd_rows db)\<rparr>)"
proof (induction rs arbitrary: i db c)
  case Nil
  then show ?case by (intro exI [of _ c]) (simp add: sql_update_def)
next
  case (Cons r rs)
  let ?db = "db\<lparr>pd_rows := sql_update (\<lambda>q. p_registry_id q = p_registry_id r) (expired_row now) (pd_rows db)\<rparr>"
  let ?c = "\<lparr>ec_due = ec_due c + 1, ec_expired = ec_expired c + 1, ec_card_failed = ec_card_failed c + (if update_failed updater r then 1 else 0)\<rparr>"
  have r: "r \<in> set (pd_rows db)" "advance_guard (expire_args (p_status r)) r"
    using Cons.prems(3) by (auto simp: advance_guard_def expire_args_def)
  note adv = advance_listed [OF Cons.prems(1) quiet_expire r, of now, unfolded expire_args_row [abs_def]]
  have ids: "p_registry_id r \<notin> p_registry_id ` set rs" using Cons.prems(2) by simp
  have "set rs \<subseteq> set (pd_rows ?db)"
  proof
    fix q assume q: "q \<in> set rs"
    then have "p_registry_id q \<noteq> p_registry_id r" using ids by (metis imageI)
    then show "q \<in> set (pd_rows ?db)" using q Cons.prems(3) by (force simp: sql_update_def)
  qed
  from Cons.IH [OF adv(2) _ this, of "Suc i" ?c] Cons.prems(2)
  obtain c' where "expire_rows (\<lambda>_. now) (\<lambda>_ d. d) updater (Suc i) rs ?db ?c =
      Inr (?db\<lparr>pd_rows := sql_update (\<lambda>q. p_registry_id q \<in> p_registry_id ` set rs) (expired_row now) (pd_rows ?db)\<rparr>, c')"
    "ec_due c' = ec_due ?c + length rs" "ec_expired c' = ec_expired ?c + length rs"
    "push_inv (?db\<lparr>pd_rows := sql_update (\<lambda>q. p_registry_id q \<in> p_registry_id ` set rs) (expired_row now) (pd_rows ?db)\<rparr>)"
    by auto
  moreover have "sql_update (\<lambda>q. p_registry_id q \<in> p_registry_id ` set rs) (expired_row now) (pd_rows ?db) =
      sql_update (\<lambda>q. p_registry_id q \<in> p_registry_id ` set (r # rs)) (expired_row now) (pd_rows db)"
    using sql_update_seq [of p_registry_id "expired_row now" "p_registry_id r" "p_registry_id ` set rs"] ids
    by (simp add: expired_row_def)
  ultimately show ?case by (intro exI [of _ c']) (simp add: adv(1))
qed

text \<open>What the backend has of a row, and the row once backfilled.\<close>

definition found :: "(push_row \<Rightarrow> json result) \<Rightarrow> push_row \<Rightarrow> bool" where
  "found lookup r = (case lookup r of Inl e \<Rightarrow> False | Inr rec \<Rightarrow> truthy rec)"

definition backfilled :: "pylib \<Rightarrow> int \<Rightarrow> (push_row \<Rightarrow> json result) \<Rightarrow> push_row \<Rightarrow> push_row" where
  "backfilled L now lookup r = (case lookup r of Inl e \<Rightarrow> r | Inr rec \<Rightarrow> advanced_row now (reconcile_args L rec) r)"

lemma backfilled_id [simp]: "p_registry_id (backfilled L now lookup r) = p_registry_id r"
  by (simp add: backfilled_def advanced_row_def split: sum.split)

lemma reconcile_rows_exact:
  "push_inv db \<Longrightarrow> distinct (map p_registry_id rs) \<Longrightarrow> set rs \<subseteq> set (pd_rows db) \<Longrightarrow> (\<And>r. r \<in> set rs \<Longrightarrow> p_status r = Confirmed) \<Longrightarrow>
     \<exists>c'. reconcile_rows L (\<lambda>_. now) (\<lambda>_ d. d) lookup i rs db c =
       Inr (db\<lparr>pd_rows := sql_update (\<lambda>q. p_registry_id q \<in> p_registry_id ` set (filter (found lookup) rs)) (backfilled L now lookup) (pd_rows db)\<rparr>, c')
     \<and> rn_checked c' = rn_checked c + length rs \<and> rn_committed c' = rn_committed c + length (filter (found lookup) rs)"
proof (induction rs arbitrary: i db c)
  case Nil
  then show ?case by (intro exI [of _ c]) (simp add: sql_update_def)
next
  case (Cons r rs)
  have ids: "p_registry_id r \<notin> p_registry_id ` set rs" using Cons.prems(2) by simp
  have r: "r \<in> set (pd_rows db)" "p_status r = Confirmed" using Cons.prems(3,4) by auto
  show ?case
  proof (cases "found lookup r")
    case False
    then have "\<exists>c1. reconcile_rows L (\<lambda>_. now) (\<lambda>_ d. d) lookup i (r # rs) db c =
        reconcile_rows L (\<lambda>_. now) (\<lambda>_ d. d) lookup (Suc i) rs db c1 \<and> rn_checked c1 = rn_checked c + 1 \<and> rn_committed c1 = rn_committed c"
      by (cases "lookup r") (auto simp: found_def Let_def)
    then obtain c1 where c1: "reconcile_rows L (\<lambda>_. now) (\<lambda>_ d. d) lookup i (r # rs) db c =
        reconcile_rows L (\<lambda>_. now) (\<lambda>_ d. d) lookup (Suc i) rs db c1" "rn_checked c1 = rn_checked c + 1" "rn_committed c1 = rn_committed c" by blast
    from Cons.IH [of db "Suc i" c1] Cons.prems show ?thesis by (auto simp: False c1 simp del: reconcile_rows.simps)
  next
    case True
    then obtain rec where rec: "lookup r = Inr rec" "truthy rec" by (auto simp: found_def split: sum.splits)
    let ?t = "sql_update (\<lambda>q. p_registry_id q = p_registry_id r) (backfilled L now lookup) (pd_rows db)"
    have "advance_guard (reconcile_args L rec) r" using r(2) by (simp add: advance_guard_def reconcile_args_def)
    note adv = advance_listed [OF Cons.prems(1) quiet_confirm_args(5) r(1) this, of now]
    have same: "sql_update (\<lambda>q. p_registry_id q = p_registry_id r) (advanced_row now (reconcile_args L rec)) (pd_rows db) = ?t"
      unfolding sql_update_def
    proof (rule map_cong [OF refl])
      fix q assume "q \<in> set (pd_rows db)"
      then have "p_registry_id q = p_registry_id r \<Longrightarrow> q = r"
        using Cons.prems(1) r(1) by (auto simp: push_inv_def push_indexes_def distinct_map dest: inj_onD)
      then show "(if p_registry_id q = p_registry_id r then advanced_row now (reconcile_args L rec) q else q) =
          (if p_registry_id q = p_registry_id r then backfilled L now lookup q else q)"
        by (cases "p_registry_id q = p_registry_id r") (simp_all add: backfilled_def rec(1))
    qed
    have "set rs \<subseteq> set ?t"
    proof
      fix q assume q: "q \<in> set rs"
      then have "p_registry_id q \<noteq> p_registry_id r" using ids by (metis imageI)
      then show "q \<in> set ?t" using q Cons.prems(3) by (force simp: sql_update_def)
    qed
    moreover have "sql_update (\<lambda>q. p_registry_id q \<in> p_registry_id ` set (filter (found lookup) rs)) (backfilled L now lookup) ?t =
        sql_update (\<lambda>q. p_registry_id q \<in> p_registry_id ` set (filter (found lookup) (r # rs))) (backfilled L now lookup) (pd_rows db)"
    proof -
      have n: "p_registry_id r \<notin> p_registry_id ` set (filter (found lookup) rs)" using ids by auto
      have K: "p_registry_id ` set (filter (found lookup) (r # rs)) =
          insert (p_registry_id r) (p_registry_id ` set (filter (found lookup) rs))" using True by simp
      show ?thesis unfolding K by (rule sql_update_seq [where key = p_registry_id, OF backfilled_id n])
    qed
    ultimately have rest: "set rs \<subseteq> set (pd_rows (db\<lparr>pd_rows := ?t\<rparr>))" and join:
      "sql_update (\<lambda>q. p_registry_id q \<in> p_registry_id ` set (filter (found lookup) rs)) (backfilled L now lookup) ?t =
        sql_update (\<lambda>q. p_registry_id q \<in> p_registry_id ` set (filter (found lookup) (r # rs))) (backfilled L now lookup) (pd_rows db)"
      by simp_all
    let ?c = "c\<lparr>rn_checked := rn_checked c + 1, rn_committed := rn_committed c + 1\<rparr>"
    have "\<exists>c'. reconcile_rows L (\<lambda>_. now) (\<lambda>_ d. d) lookup (Suc i) rs (db\<lparr>pd_rows := ?t\<rparr>) ?c =
       Inr ((db\<lparr>pd_rows := ?t\<rparr>)\<lparr>pd_rows := sql_update (\<lambda>q. p_registry_id q \<in> p_registry_id ` set (filter (found lookup) rs)) (backfilled L now lookup) (pd_rows (db\<lparr>pd_rows := ?t\<rparr>))\<rparr>, c')
       \<and> rn_checked c' = rn_checked ?c + length rs \<and> rn_committed c' = rn_committed ?c + length (filter (found lookup) rs)"
      by (rule Cons.IH) (use Cons.prems rest adv(2) [unfolded same] in simp_all)
    then obtain c' where c': "reconcile_rows L (\<lambda>_. now) (\<lambda>_ d. d) lookup (Suc i) rs (db\<lparr>pd_rows := ?t\<rparr>) ?c =
       Inr (db\<lparr>pd_rows := sql_update (\<lambda>q. p_registry_id q \<in> p_registry_id ` set (filter (found lookup) (r # rs))) (backfilled L now lookup) (pd_rows db)\<rparr>, c')"
       "rn_checked c' = Suc (rn_checked c) + length rs" "rn_committed c' = Suc (rn_committed c) + length (filter (found lookup) rs)"
      unfolding join [symmetric] by auto
    have "reconcile_rows L (\<lambda>_. now) (\<lambda>_ d. d) lookup i (r # rs) db c =
        reconcile_rows L (\<lambda>_. now) (\<lambda>_ d. d) lookup (Suc i) rs (db\<lparr>pd_rows := ?t\<rparr>) ?c"
      by (simp add: rec adv(1) same Let_def)
    then show ?thesis unfolding c'(1) by (intro exI [of _ c']) (simp add: c'(2,3) True)
  qed
qed

interpretation backfilled_rows: row_update p_registry_id "backfilled L now lookup"
  by unfold_locales simp

lemma reconcile_sweep_effect:
  assumes "push_inv db"
  shows "\<exists>c. run_reconcile_sweep L (\<lambda>_. t) (\<lambda>_ d. d) (Some lookup) after now db =
      Inr (db\<lparr>pd_rows := sql_update (\<lambda>r. p_status r = Confirmed \<and> p_updated_at r \<le> now - after \<and> found lookup r)
          (backfilled L t lookup) (pd_rows db)\<rparr>, c)
    \<and> rn_checked c = rowcount (\<lambda>r. p_status r = Confirmed \<and> p_updated_at r \<le> now - after) (pd_rows db)
    \<and> rn_committed c = rowcount (\<lambda>r. p_status r = Confirmed \<and> p_updated_at r \<le> now - after \<and> found lookup r) (pd_rows db)"
proof -
  let ?P = "\<lambda>r. p_status r = Confirmed \<and> p_updated_at r \<le> now - after"
  let ?rs = "list_stale_confirmed db (now - after)"
  have d: "distinct (map p_registry_id (pd_rows db))" using assms by (simp add: push_inv_def push_indexes_def)
  have set: "set ?rs = {r \<in> set (pd_rows db). ?P r}" by (auto simp: list_stale_confirmed_def)
  have "distinct (map p_registry_id (filter ?P (pd_rows db)))" using d by (rule distinct_map_filter)
  then have "distinct (filter ?P (pd_rows db))" "inj_on p_registry_id (set ?rs)" by (simp_all add: distinct_map set)
  then have dist: "distinct (map p_registry_id ?rs)" by (simp add: distinct_map list_stale_confirmed_def order_by_def)
  have "p_registry_id q \<in> p_registry_id ` set (filter (found lookup) ?rs) \<longleftrightarrow> ?P q \<and> found lookup q" if "q \<in> set (pd_rows db)" for q
    using that d inj_onD [of p_registry_id "set (pd_rows db)"] by (auto simp: set distinct_map)
  then have rows: "sql_update (\<lambda>q. p_registry_id q \<in> p_registry_id ` set (filter (found lookup) ?rs)) (backfilled L t lookup) (pd_rows db) =
      sql_update (\<lambda>r. ?P r \<and> found lookup r) (backfilled L t lookup) (pd_rows db)"
    unfolding sql_update_def by (intro map_cong refl) simp
  have len: "length (filter (found lookup) ?rs) = rowcount (\<lambda>r. ?P r \<and> found lookup r) (pd_rows db)"
    by (simp add: list_stale_confirmed_def order_by_def filter_sort rowcount_def conj_ac)
  have "length ?rs = rowcount ?P (pd_rows db)" by (simp add: list_stale_confirmed_def order_by_def rowcount_def)
  moreover have sub: "set ?rs \<subseteq> set (pd_rows db)" and conf: "\<And>r. r \<in> set ?rs \<Longrightarrow> p_status r = Confirmed"
    unfolding set by blast+
  moreover have ex: "\<exists>c'. reconcile_rows L (\<lambda>_. t) (\<lambda>_ d. d) lookup 0 ?rs db \<lparr>rn_checked = 0, rn_committed = 0, rn_missing = 0\<rparr> =
       Inr (db\<lparr>pd_rows := sql_update (\<lambda>q. p_registry_id q \<in> p_registry_id ` set (filter (found lookup) ?rs)) (backfilled L t lookup) (pd_rows db)\<rparr>, c')
     \<and> rn_checked c' = rn_checked \<lparr>rn_checked = 0, rn_committed = 0, rn_missing = 0\<rparr> + length ?rs
     \<and> rn_committed c' = rn_committed \<lparr>rn_checked = 0, rn_committed = 0, rn_missing = 0\<rparr> + length (filter (found lookup) ?rs)"
    by (rule reconcile_rows_exact [OF assms dist sub conf])
  moreover obtain c where "reconcile_rows L (\<lambda>_. t) (\<lambda>_ d. d) lookup 0 ?rs db \<lparr>rn_checked = 0, rn_committed = 0, rn_missing = 0\<rparr> =
       Inr (db\<lparr>pd_rows := sql_update (\<lambda>r. ?P r \<and> found lookup r) (backfilled L t lookup) (pd_rows db)\<rparr>, c)"
     "rn_checked c = length ?rs" "rn_committed c = length (filter (found lookup) ?rs)"
    using ex unfolding rows by (elim exE conjE) (rule that, simp_all)
  ultimately show ?thesis
    by (intro exI [of _ c]) (simp add: run_reconcile_sweep_def len)
qed

section \<open>Properties\<close>

text \<open>The expiry sweep, which claims each due card by a compare-and-swap of its own after trying to re-render it,
  does what the one-statement \<open>expire_due\<close> of the registry does: the same registry and the same count,
  whether or not the cards could be re-rendered.\<close>

lemma expiry_sweep_is_expire_due:
  assumes "push_inv db"
  shows "\<exists>c. run_expiry_sweep now (\<lambda>_. now) (\<lambda>_ d. d) updater db = Inr (fst (expire_due now db), c)
    \<and> ec_due c = snd (expire_due now db) \<and> ec_expired c = snd (expire_due now db)"
proof -
  let ?rs = "list_due_open db now"
  have d: "distinct (map p_registry_id (pd_rows db))" using assms by (simp add: push_inv_def push_indexes_def)
  have set: "set ?rs = {r \<in> set (pd_rows db). due now r}" by (auto simp: list_due_open_def)
  have "distinct (map p_registry_id (filter (due now) (pd_rows db)))" using d by (rule distinct_map_filter)
  then have "distinct (filter (due now) (pd_rows db))" "inj_on p_registry_id (set ?rs)" by (simp_all add: distinct_map set)
  then have dist: "distinct (map p_registry_id ?rs)" by (simp add: distinct_map list_due_open_def)
  have "p_registry_id q \<in> p_registry_id ` set ?rs \<longleftrightarrow> due now q" if "q \<in> set (pd_rows db)" for q
    using that d inj_onD [of p_registry_id "set (pd_rows db)"] by (auto simp: set distinct_map)
  then have rows: "sql_update (\<lambda>q. p_registry_id q \<in> p_registry_id ` set ?rs) (expired_row now) (pd_rows db) =
      sql_update (due now) (expired_row now) (pd_rows db)"
    unfolding sql_update_def by (intro map_cong refl) simp
  have len: "length ?rs = rowcount (due now) (pd_rows db)" by (simp add: list_due_open_def rowcount_def)
  from expire_rows_exact [OF assms dist, of now updater 0 "\<lparr>ec_due = 0, ec_expired = 0, ec_card_failed = 0\<rparr>"]
  show ?thesis unfolding rows len by (auto simp: run_expiry_sweep_def expire_due_def set)
qed

text \<open>Reconciliation backfills and never writes: the sweep only asks the backend, and its effect on the registry is
  exactly that the confirmed cards past the window whose record the backend has become committed (with the
  record's values where it is an object); every other row, and a row whose lookup failed, is left as it was.\<close>

lemma reconcile_backfills_exact:
  assumes "push_inv db"
  shows "\<exists>c. run_reconcile_sweep L (\<lambda>_. t) (\<lambda>_ d. d) (Some lookup) after now db =
      Inr (db\<lparr>pd_rows := sql_update (\<lambda>r. p_status r = Confirmed \<and> p_updated_at r \<le> now - after \<and> found lookup r)
          (backfilled L t lookup) (pd_rows db)\<rparr>, c)
    \<and> rn_checked c = rowcount (\<lambda>r. p_status r = Confirmed \<and> p_updated_at r \<le> now - after) (pd_rows db)
    \<and> rn_committed c = rowcount (\<lambda>r. p_status r = Confirmed \<and> p_updated_at r \<le> now - after \<and> found lookup r) (pd_rows db)"
  by (rule reconcile_sweep_effect [OF assms])

definition stuck_card :: push_row where
  "stuck_card = open_card\<lparr>p_status := Confirmed\<rparr>"

text \<open>A negative answer can commit a card: a backend that answers the probe with \<open>found\<close> false but repeats the key it
  was asked for is taken to hold the record, so the sweep commits a card whose write never landed.\<close>

lemma not_found_echo_commits:
  assumes "push_inv db" "r \<in> set (pd_rows db)" "p_status r = Confirmed" "p_updated_at r \<le> now - after" "p_registry_id r \<noteq> []"
    and "resolve_callback E (scene_def_for_row (ce_lib E) r) r = Some cb"
    and "http_get (probe_request (ce_environ E) cb (p_registry_id r)) = Reply raw"
    and "loads (ce_lib E) raw = Some (JObj [(''found'', JBool False), (''write_idempotency_key'', JStr (p_registry_id r))])"
  shows "\<exists>db' c r'. run_reconcile_sweep (ce_lib E) (\<lambda>_. t) (\<lambda>_ d. d) (Some (\<lambda>r. Inr (live_reconcile_backend_lookup E http_get r))) after now db = Inr (db', c)
    \<and> push_get db' (p_registry_id r) = Some r' \<and> p_status r' = Committed"
proof -
  let ?look = "\<lambda>r. Inr (live_reconcile_backend_lookup E http_get r) :: json result"
  have rec: "live_reconcile_backend_lookup E http_get r =
      JObj [(''found'', JBool False), (''write_idempotency_key'', JStr (p_registry_id r))]"
    using assms(5-8) by (simp add: live_reconcile_backend_lookup_def probe_record_def jget_def truthy_def)
  obtain db' c where run: "run_reconcile_sweep (ce_lib E) (\<lambda>_. t) (\<lambda>_ d. d) (Some ?look) after now db = Inr (db', c)"
    "db' = db\<lparr>pd_rows := sql_update (\<lambda>r. p_status r = Confirmed \<and> p_updated_at r \<le> now - after \<and> found ?look r)
          (backfilled (ce_lib E) t ?look) (pd_rows db)\<rparr>"
    using reconcile_sweep_effect [OF assms(1), of "ce_lib E" t ?look after now] by auto
  have d: "distinct (map p_registry_id (pd_rows db))" using assms(1) by (simp add: push_inv_def push_indexes_def)
  have "found ?look r" by (simp add: found_def rec truthy_def)
  then have "push_get db' (p_registry_id r) = Some (backfilled (ce_lib E) t ?look r)"
    using tbl_get_distinct [OF d assms(2)] assms(3,4) by (simp add: push_get_def run(2) backfilled_rows.get_upd [OF d])
  moreover have "p_status (backfilled (ce_lib E) t ?look r) = Committed"
    by (simp add: backfilled_def advanced_row_def reconcile_args_def)
  ultimately show ?thesis using run(1) by blast
qed

definition echo_env :: "mock_state confirm_env" where
  "echo_env = demo_env\<lparr>ce_lib := table_lib [demo_spec, callback_json demo_callback,
     JObj [(''found'', JBool False), (''write_idempotency_key'', JStr ''r1'')]]\<rparr>"

definition echo_card :: push_row where
  "echo_card = stuck_card\<lparr>p_scene_spec_json := None, p_callback_json := Some (dumps (ce_lib echo_env) (callback_json demo_callback))\<rparr>"

end
