(* ===== verification/Push_Matcher.thy ===== *)
theory Push_Matcher
  imports Send_Queue Push_Confirm
begin

text \<open>
  The inbound matcher of the push-card loop (\<open>src/hermes_multitenancy/push_card_matcher.py\<close>): deciding whether an
  employee's message belongs to an open card, and driving the fill loop when it does. The searches of
  the module's regular expressions, the intent model, the scene lookup and the card deliveries are
  arguments; \<open>env\<close> is what the rest of the system does to the registry while the
  coroutine is suspended.
\<close>

section \<open>Decisions\<close>

datatype match_action = Route | Passthrough | Expired_Exit | Disambiguate | Retry_Grace

datatype verdict = Yes | No | Maybe

definition GRACE_WINDOW_S :: int where "GRACE_WINDOW_S = 3"

text \<open>The context a routed message carries to the fill skill.\<close>

record match_context =
  mx_registry_id :: string
  mx_scene :: string
  mx_skill :: string
  mx_status :: push_status
  mx_business_key :: string
  mx_payload :: json
  mx_submission :: json
  mx_quoted :: bool
  mx_mode :: string
  mx_escape_hint :: "string option"

record match_decision =
  md_action :: match_action
  md_row :: "push_row option"
  md_mode :: string
  md_slash_content :: "string option"
  md_context :: "match_context option"
  md_reply_text :: "string option"
  md_reason :: string

text \<open>Case folding and the searches of the module's three patterns (a digit, a date, a trailing question mark).\<close>

record text_tests =
  tt_lower :: "string \<Rightarrow> string"
  tt_number :: "string \<Rightarrow> bool"
  tt_date :: "string \<Rightarrow> bool"
  tt_question :: "string \<Rightarrow> bool"

text \<open>The matcher's collaborators: scene lookup, heuristic, the optional intent model (None: it raises).\<close>

record matcher =
  mt_lib :: pylib
  mt_tests :: text_tests
  mt_scene :: "push_row \<Rightarrow> scene_def option"
  mt_heuristic :: "string \<Rightarrow> scene_def option \<Rightarrow> verdict"
  mt_llm :: "(string \<Rightarrow> scene_def \<Rightarrow> push_row \<Rightarrow> bool option) option"

section \<open>The heuristic gate\<close>

definition ESCAPE_PHRASES :: "string list" where
  "ESCAPE_PHRASES = [[CHR 0xE4, CHR 0xB8, CHR 0x8D, CHR 0xE6, CHR 0x98, CHR 0xAF],
     [CHR 0xE4, CHR 0xB8, CHR 0x8D],
     [CHR 0xE4, CHR 0xB8, CHR 0x8D, CHR 0xE7, CHR 0x94, CHR 0xA8],
     [CHR 0xE4, CHR 0xB8, CHR 0x8D, CHR 0xE7, CHR 0x94, CHR 0xA8, CHR 0xE4, CHR 0xBA, CHR 0x86],
     [CHR 0xE4, CHR 0xB8, CHR 0x8D, CHR 0xE5, CHR 0xA1, CHR 0xAB],
     [CHR 0xE5, CHR 0x8F, CHR 0x96, CHR 0xE6, CHR 0xB6, CHR 0x88],
     [CHR 0xE7, CHR 0xAE, CHR 0x97, CHR 0xE4, CHR 0xBA, CHR 0x86],
     [CHR 0xE5, CHR 0x81, CHR 0x9C],
     [CHR 0xE9, CHR 0x80, CHR 0x80, CHR 0xE5, CHR 0x87, CHR 0xBA],
     ''no'',
     ''nope'',
     ''cancel'',
     ''stop'']"

definition CHITCHAT_HINTS :: "string list" where
  "CHITCHAT_HINTS = [[CHR 0xE5, CHR 0x9C, CHR 0xA8, CHR 0xE5, CHR 0x90, CHR 0x97],
     [CHR 0xE5, CHR 0x9C, CHR 0xA8, CHR 0xE4, CHR 0xB8, CHR 0x8D, CHR 0xE5, CHR 0x9C, CHR 0xA8],
     [CHR 0xE4, CHR 0xBD, CHR 0xA0, CHR 0xE5, CHR 0xA5, CHR 0xBD],
     [CHR 0xE8, CHR 0xB0, CHR 0xA2, CHR 0xE8, CHR 0xB0, CHR 0xA2],
     [CHR 0xE5, CHR 0x90, CHR 0x83, CHR 0xE4, CHR 0xBB, CHR 0x80, CHR 0xE4, CHR 0xB9, CHR 0x88],
     [CHR 0xE6, CHR 0x80, CHR 0x8E, CHR 0xE4, CHR 0xB9, CHR 0x88, CHR 0xE6, CHR 0xA0, CHR 0xB7],
     [CHR 0xE5, CHR 0x9C, CHR 0xA8, CHR 0xE4, CHR 0xB9, CHR 0x88],
     [CHR 0xE5, CHR 0x93, CHR 0x88, CHR 0xE5, CHR 0x96, CHR 0xBD],
     ''hi'',
     ''hello'']"

text \<open>The label up to the first opening parenthesis, ASCII or full width.\<close>

fun label_core :: "string \<Rightarrow> string" where
  "label_core [] = []"
| "label_core (c # cs) =
     (if c = CHR ''('' \<or> startswith (c # cs) [CHR 0xEF, CHR 0xBC, CHR 0x88] then [] else c # label_core cs)"

definition field_signals :: "string \<Rightarrow> scene_field \<Rightarrow> nat" where
  "field_signals text f =
     length (filter (\<lambda>opt. opt \<noteq> [] \<and> occurs_in opt text) (sf_options f))
     + (let label = strip (label_core (sf_label f)) in if char_count label \<ge> 2 \<and> occurs_in label text then 1 else 0)"

definition scene_signal_count :: "text_tests \<Rightarrow> string \<Rightarrow> scene_def option \<Rightarrow> nat" where
  "scene_signal_count T text scene =
     (case scene of
        None \<Rightarrow> 0
      | Some s \<Rightarrow> sum_list (map (field_signals text) (sd_fields s))
          + (if list_ex (\<lambda>f. sf_type f = ''number'') (sd_fields s) \<and> tt_number T text then 1 else 0)
          + (if list_ex (\<lambda>f. sf_type f = ''date'') (sd_fields s) \<and> tt_date T text then 1 else 0))"

definition default_heuristic_intent :: "text_tests \<Rightarrow> string \<Rightarrow> scene_def option \<Rightarrow> verdict" where
  "default_heuristic_intent T text scene =
     (let t = strip text
      in if t = [] then No
         else if tt_lower T t \<in> set ESCAPE_PHRASES then No
         else if scene_signal_count T t scene \<ge> 1 then Yes
         else if tt_question T t \<or> list_ex (\<lambda>h. occurs_in h (tt_lower T t)) CHITCHAT_HINTS then No
         else Maybe)"

section \<open>The decision\<close>

definition passthrough :: "string \<Rightarrow> match_decision" where
  "passthrough reason = \<lparr>md_action = Passthrough, md_row = None, md_mode = MODE_CARD, md_slash_content = None,
     md_context = None, md_reply_text = None, md_reason = reason\<rparr>"

text \<open>\<open>_loads\<close> of a nullable column.\<close>

definition loads_column :: "pylib \<Rightarrow> string option \<Rightarrow> json" where
  "loads_column L c = (case c of None \<Rightarrow> JNull | Some s \<Rightarrow> (case loads L s of None \<Rightarrow> JNull | Some j \<Rightarrow> j))"

definition rstrip :: "string \<Rightarrow> string" where
  "rstrip s = rev (dropWhile is_space (rev s))"

definition slash_content :: "push_row \<Rightarrow> string \<Rightarrow> string" where
  "slash_content r text = rstrip (''/'' @ dropWhile (\<lambda>c. c = CHR ''/'') (p_skill r) @ '' '' @ text)"

definition escape_hint :: "scene_def option \<Rightarrow> string" where
  "escape_hint s = [CHR 0xE5, CHR 0xA6, CHR 0x82, CHR 0xE6, CHR 0x9E, CHR 0x9C, CHR 0xE4, CHR 0xBD, CHR 0xA0, CHR 0xE4, CHR 0xB8, CHR 0x8D, CHR 0xE6, CHR 0x98, CHR 0xAF, CHR 0xE5, CHR 0x9C, CHR 0xA8, CHR 0xE5, CHR 0xA1, CHR 0xAB, CHR 0xE3, CHR 0x80, CHR 0x8C] @ (case s of None \<Rightarrow> [CHR 0xE8, CHR 0xBF, CHR 0x99, CHR 0xE5, CHR 0xBC, CHR 0xA0, CHR 0xE5, CHR 0x8D, CHR 0xA1] | Some sd \<Rightarrow> sd_name sd) @ [CHR 0xE3, CHR 0x80, CHR 0x8D, CHR 0xEF, CHR 0xBC, CHR 0x8C, CHR 0xE5, CHR 0x9B, CHR 0x9E, CHR 0xE5, CHR 0xA4, CHR 0x8D, CHR 0xE3, CHR 0x80, CHR 0x8E, CHR 0xE4, CHR 0xB8, CHR 0x8D, CHR 0xE6, CHR 0x98, CHR 0xAF, CHR 0xE3, CHR 0x80, CHR 0x8F, CHR 0xE5, CHR 0x8D, CHR 0xB3, CHR 0xE5, CHR 0x8F, CHR 0xAF, CHR 0xE6, CHR 0xAD, CHR 0xA3, CHR 0xE5, CHR 0xB8, CHR 0xB8, CHR 0xE5, CHR 0xAF, CHR 0xB9, CHR 0xE8, CHR 0xAF, CHR 0x9D, CHR 0xE3, CHR 0x80, CHR 0x82]"

definition route :: "matcher \<Rightarrow> push_row \<Rightarrow> string \<Rightarrow> bool \<Rightarrow> match_decision" where
  "route M r text quoted =
     (let scene = mt_scene M r;
          mode = (case scene of None \<Rightarrow> MODE_CARD | Some s \<Rightarrow> sd_mode s)
      in \<lparr>md_action = Route, md_row = Some r, md_mode = mode, md_slash_content = Some (slash_content r text),
          md_context = Some \<lparr>mx_registry_id = p_registry_id r, mx_scene = p_scene r, mx_skill = p_skill r, mx_status = p_status r,
            mx_business_key = p_business_key r, mx_payload = loads_column (mt_lib M) (p_payload_json r),
            mx_submission = loads_column (mt_lib M) (p_submission_json r), mx_quoted = quoted, mx_mode = mode,
            mx_escape_hint = (if p_status r = Pending then Some (escape_hint scene) else None)\<rparr>,
          md_reply_text = None, md_reason = (if quoted then ''quoted_hit'' else ''intent_yes'')\<rparr>)"

definition intent :: "matcher \<Rightarrow> push_row \<Rightarrow> string \<Rightarrow> verdict" where
  "intent M r text =
     (let scene = mt_scene M r;
          v = mt_heuristic M text scene;
          v = (case (v, mt_llm M, scene) of
                 (Maybe, Some llm, Some s) \<Rightarrow> (case llm text s r of None \<Rightarrow> Maybe | Some b \<Rightarrow> if b then Yes else No)
               | _ \<Rightarrow> v)
      in if v = Maybe then (if p_status r = Clarifying then Yes else No) else v)"

definition gate_single :: "matcher \<Rightarrow> push_row \<Rightarrow> string \<Rightarrow> match_decision" where
  "gate_single M r text = (if intent M r text = Yes then route M r text False else passthrough ''intent_no'')"

definition disambiguate :: "matcher \<Rightarrow> push_row list \<Rightarrow> string \<Rightarrow> match_decision" where
  "disambiguate M rs text =
     (case filter (\<lambda>r. scene_signal_count (mt_tests M) text (mt_scene M r) \<ge> 1) rs of
        [r] \<Rightarrow> route M r text False
      | _ \<Rightarrow> \<lparr>md_action = Disambiguate, md_row = None, md_mode = MODE_CARD, md_slash_content = None, md_context = None,
              md_reply_text = Some ([CHR 0xE4, CHR 0xBD, CHR 0xA0, CHR 0xE6, CHR 0x9C, CHR 0x89, CHR 0xE5, CHR 0xA4, CHR 0x9A, CHR 0xE5, CHR 0xBC, CHR 0xA0, CHR 0xE5, CHR 0xBE, CHR 0x85, CHR 0xE5, CHR 0xA1, CHR 0xAB, CHR 0xE5, CHR 0x8D, CHR 0xA1, CHR 0xE7, CHR 0x89, CHR 0x87, CHR 0xEF, CHR 0xBC, CHR 0x8C, CHR 0xE8, CHR 0xAF, CHR 0xB7, CHR 0xE5, CHR 0xBC, CHR 0x95, CHR 0xE7, CHR 0x94, CHR 0xA8, CHR 0xE5, CHR 0x85, CHR 0xB7, CHR 0xE4, CHR 0xBD, CHR 0x93, CHR 0xE7, CHR 0x9A, CHR 0x84, CHR 0xE5, CHR 0x8D, CHR 0xA1, CHR 0xE7, CHR 0x89, CHR 0x87, CHR 0xE5, CHR 0x9B, CHR 0x9E, CHR 0xE5, CHR 0xA4, CHR 0x8D, CHR 0xE3, CHR 0x80, CHR 0x82]),
              md_reason = ''ambiguous_'' @ nat_str (length rs) @ ''rows''\<rparr>)"

definition match_message :: "matcher \<Rightarrow> int \<Rightarrow> push_db \<Rightarrow> string \<Rightarrow> string \<Rightarrow> string \<Rightarrow> match_decision" where
  "match_message M now db open_id text quoted =
     (if open_id = [] then passthrough ''no_open_id''
      else if quoted \<noteq> []
      then (case get_by_message_id db (Some quoted) of
              None \<Rightarrow> passthrough ''quoted_unmatched''
            | Some r \<Rightarrow>
                if p_target_open_id r \<noteq> open_id then passthrough ''quoted_unmatched''
                else if p_status r = Expired
                then \<lparr>md_action = Expired_Exit, md_row = Some r, md_mode = MODE_CARD, md_slash_content = None, md_context = None,
                      md_reply_text = Some ([CHR 0xE8, CHR 0xBF, CHR 0x99, CHR 0xE5, CHR 0xBC, CHR 0xA0, CHR 0xE5, CHR 0x8D, CHR 0xA1, CHR 0xE5, CHR 0xB7, CHR 0xB2, CHR 0xE8, CHR 0xBF, CHR 0x87, CHR 0xE6, CHR 0x9C, CHR 0x9F, CHR 0xEF, CHR 0xBC, CHR 0x8C, CHR 0xE9, CHR 0x9C, CHR 0x80, CHR 0xE8, CHR 0xA6, CHR 0x81, CHR 0xE9, CHR 0x87, CHR 0x8D, CHR 0xE6, CHR 0x96, CHR 0xB0, CHR 0xE5, CHR 0x8F, CHR 0x91, CHR 0xE8, CHR 0xB5, CHR 0xB7, CHR 0xE5, CHR 0x90, CHR 0x97, CHR 0xEF, CHR 0xBC, CHR 0x9F]), md_reason = ''quoted_expired''\<rparr>
                else if p_status r \<in> set OPEN_STATUSES then route M r text True
                else passthrough (''quoted_status='' @ status_text (p_status r)))
      else (case list_open_for_user db open_id now of
              [] \<Rightarrow> (case get_fresh_sending db open_id (now - GRACE_WINDOW_S) of
                       Some r \<Rightarrow> \<lparr>md_action = Retry_Grace, md_row = Some r, md_mode = MODE_CARD, md_slash_content = None,
                                  md_context = None, md_reply_text = None, md_reason = ''fresh_sending''\<rparr>
                     | None \<Rightarrow> passthrough ''no_open_rows'')
            | [r] \<Rightarrow> gate_single M r text
            | rs \<Rightarrow> disambiguate M rs text))"

text \<open>One re-read after the pause when a card is just being sent: \<open>clk i\<close> is the clock of read \<open>i\<close>.\<close>

definition match_with_grace ::
  "matcher \<Rightarrow> (nat \<Rightarrow> int) \<Rightarrow> (push_db \<Rightarrow> push_db) \<Rightarrow> push_db \<Rightarrow> string \<Rightarrow> string \<Rightarrow> string \<Rightarrow> push_db \<times> match_decision" where
  "match_with_grace M clk env db open_id text quoted =
     (let d = match_message M (clk 0) db open_id text quoted
      in if md_action d \<noteq> Retry_Grace then (db, d)
         else (env db, match_message M (clk 1) (env db) open_id text quoted))"

definition handle_message_recall :: "int \<Rightarrow> push_db \<Rightarrow> string \<Rightarrow> push_db \<times> string option" where
  "handle_message_recall now db open_id =
     (case list_open_for_user db open_id now of
        [r] \<Rightarrow> (case reset_submission now db (p_registry_id r) of
                   (db', ok) \<Rightarrow> (db', if ok then Some (p_registry_id r) else None))
      | _ \<Rightarrow> (db, None))"

text \<open>The hook on a recall event: the operator's and the message's id; any exception leaves the registry as it is.\<close>

definition recall_hook :: "int \<Rightarrow> push_db \<Rightarrow> string \<Rightarrow> string \<Rightarrow> push_db" where
  "recall_hook now db open_id message_id =
     (if open_id \<noteq> [] \<and> message_id \<noteq> [] then fst (handle_message_recall now db open_id) else db)"

section \<open>Driving the fill loop\<close>

text \<open>The deliveries: whether the card was updated in place, the message id of a new card (None: no id) or the
  exception of its sending, and the interference before the claim, before the delivery and before the id is stored.\<close>

record fill_world =
  fw_extract :: extractor
  fw_opid :: string
  fw_updated :: "string \<Rightarrow> json \<Rightarrow> bool"
  fw_sent :: "string \<Rightarrow> json \<Rightarrow> string option result"
  fw_env :: "nat \<Rightarrow> push_db \<Rightarrow> push_db"
  fw_clk :: "nat \<Rightarrow> int"

definition fill_advance :: "push_status \<Rightarrow> string option \<Rightarrow> string option \<Rightarrow> advance_args" where
  "fill_advance from submission message_id = \<lparr>aa_expect = from, aa_to = Clarifying, aa_expect_nonce = None, aa_clear_nonce = False,
     aa_submission = submission, aa_message_id = message_id, aa_last_error = None, aa_bump_write_attempts = False\<rparr>"

text \<open>After the merged values are stored: update the card in place or send a new one and point the row at it.\<close>

definition deliver_step :: "fill_world \<Rightarrow> push_db \<Rightarrow> push_row \<Rightarrow> fill_step \<Rightarrow> push_db result" where
  "deliver_step W db r step =
     (let mid = str_or_empty (p_message_id r);
          db1 = fw_env W 1 db
      in if st_delivery step = Deliver_Update \<and> mid \<noteq> [] \<and> fw_updated W mid (st_card step) then Inr db1
         else (case fw_sent W (p_target_open_id r) (st_card step) of
                 Inl e \<Rightarrow> Inl e
               | Inr sent \<Rightarrow>
                   (let new_mid = str_or_empty sent
                    in if new_mid \<noteq> [] \<and> new_mid \<noteq> mid
                       then (case advance_status (fw_clk W 1) (fw_env W 2 db1) (p_registry_id r) (fill_advance Clarifying None (Some new_mid)) of
                               Inl e \<Rightarrow> Inl e
                             | Inr (db2, won) \<Rightarrow> Inr db2)
                       else Inr (fw_env W 2 db1))))"

text \<open>\<open>_drive_fill_step\<close>: the result with the registry as it is left, an exception included.\<close>

definition drive_fill_step :: "matcher \<Rightarrow> fill_world \<Rightarrow> push_db \<Rightarrow> match_decision \<Rightarrow> string \<Rightarrow> push_db \<times> bool result" where
  "drive_fill_step M W db d text =
     (case md_row d of
        None \<Rightarrow> (db, Inr False)
      | Some r0 \<Rightarrow>
          (case push_get db (p_registry_id r0) of
             None \<Rightarrow> (db, Inr False)
           | Some r \<Rightarrow>
               (case scene_def_for_row (mt_lib M) r of
                  None \<Rightarrow> (db, Inr False)
                | Some scene \<Rightarrow>
                    (case build_fill_step (mt_lib M) (fw_extract W) (fw_opid W) scene (loads_column (mt_lib M) (p_submission_json r)) text
                            (p_registry_id r) (str_or_empty (p_nonce r)) (Some r)
                            (case md_context d of None \<Rightarrow> [] | Some c \<Rightarrow> str_or_empty (mx_escape_hint c)) of
                       Inl e \<Rightarrow> (db, Inl e)
                     | Inr step \<Rightarrow>
                         if p_status r \<notin> set OPEN_STATUSES then (db, Inr False)
                         else (case advance_status (fw_clk W 0) (fw_env W 0 db) (p_registry_id r)
                                      (fill_advance (p_status r) (Some (dumps (mt_lib M) (JObj (st_values step)))) None) of
                                 Inl e \<Rightarrow> (fw_env W 0 db, Inl e)
                               | Inr (db1, won) \<Rightarrow>
                                   if \<not> won then (db1, Inr False)
                                   else (case deliver_step W db1 r step of
                                           Inl e \<Rightarrow> (fw_env W 2 (fw_env W 1 db1), Inl e)
                                         | Inr db2 \<Rightarrow> (db2, Inr True)))))))"

text \<open>The inbound event: its text and the marks that earlier processing left on it.\<close>

record inbound =
  in_open_id :: string
  in_text :: string
  in_reply_to :: string
  in_yolo_routed :: bool
  in_registry_ctx :: bool
  in_notice :: bool

definition route_yolo_to_skill :: "int \<Rightarrow> push_db \<Rightarrow> inbound \<Rightarrow> match_decision \<Rightarrow> push_db \<times> inbound result" where
  "route_yolo_to_skill now db ev d =
     (case (str_or_empty (md_slash_content d), md_row d) of
        (slash, Some r0) \<Rightarrow>
          (if slash = [] then (db, Inr ev)
           else (case push_get db (p_registry_id r0) of
             None \<Rightarrow> (db, Inr ev)
           | Some r \<Rightarrow>
               if p_status r = Pending
               then (case advance_status now db (p_registry_id r) (fill_advance Pending None None) of
                       Inl e \<Rightarrow> (db, Inl e)
                     | Inr (db', won) \<Rightarrow> (db', Inr (if won then ev\<lparr>in_text := slash, in_yolo_routed := True\<rparr> else ev)))
               else if p_status r = Clarifying then (db, Inr (ev\<lparr>in_text := slash, in_yolo_routed := True\<rparr>))
               else (db, Inr ev)))
      | _ \<Rightarrow> (db, Inr ev))"

text \<open>A sender id of another name space is resolved through the routing table.\<close>

definition canonical_open_id :: "routes option \<Rightarrow> string \<Rightarrow> string" where
  "canonical_open_id table oid =
     (if oid \<noteq> [] \<and> \<not> startswith oid ''ou_''
      then (case table of
              None \<Rightarrow> oid
            | Some t \<Rightarrow> (case resolve_context t (Some oid) (Some oid) None of
                            None \<Rightarrow> oid
                          | Some c \<Rightarrow> (case tc_open_id c of None \<Rightarrow> oid | Some x \<Rightarrow> if x = [] then oid else x)))
      else oid)"

text \<open>\<open>try_route_push_card_reply\<close>: whether the message was consumed, the event, and the registry. The notice
  is delivered or raises (\<open>noticed\<close>); any exception is a passthrough.\<close>

definition try_route_push_card_reply ::
  "matcher \<Rightarrow> fill_world \<Rightarrow> routes option \<Rightarrow> (nat \<Rightarrow> int) \<Rightarrow> (push_db \<Rightarrow> push_db) \<Rightarrow> (string \<Rightarrow> string \<Rightarrow> bool) \<Rightarrow> inbound \<Rightarrow> push_db
    \<Rightarrow> bool \<times> inbound \<times> push_db" where
  "try_route_push_card_reply M W table clk env noticed ev db =
     (if in_yolo_routed ev then (False, ev, db)
      else if in_registry_ctx ev \<or> in_notice ev then (True, ev, db)
      else (let oid = canonical_open_id table (in_open_id ev); text = in_text ev
            in if oid = [] \<or> text = [] then (False, ev, db)
               else (case match_with_grace M clk env db oid text (in_reply_to ev) of
                       (db1, d) \<Rightarrow>
                         if md_action d = Route
                         then (if md_mode d = MODE_YOLO
                               then (case route_yolo_to_skill (clk 2) db1 ev d of
                                       (db2, Inl e) \<Rightarrow> (False, ev, db2)
                                     | (db2, Inr ev') \<Rightarrow> (False, ev', db2))
                               else (case drive_fill_step M W db1 d text of
                                       (db2, Inr True) \<Rightarrow> (True, ev\<lparr>in_registry_ctx := True\<rparr>, db2)
                                     | (db2, _) \<Rightarrow> (False, ev, db2)))
                         else if md_action d \<in> {Expired_Exit, Disambiguate} \<and> md_reply_text d \<noteq> None
                         then (if noticed oid (the (md_reply_text d)) then (True, ev\<lparr>in_notice := True\<rparr>, db1) else (False, ev, db1))
                         else (False, ev, db1))))"

section \<open>What a reply may change\<close>

text \<open>A row that a reply of \<open>oid\<close> has moved: it was an open card of theirs, it is in the filling state, and only
  its draft, its message and its time differ.\<close>

definition reply_moved :: "string \<Rightarrow> push_row \<Rightarrow> push_row \<Rightarrow> bool" where
  "reply_moved oid r r' \<longleftrightarrow> r' = r \<or> p_target_open_id r = oid \<and> p_status r \<in> set OPEN_STATUSES
     \<and> r' = r\<lparr>p_status := Clarifying, p_submission_json := p_submission_json r', p_message_id := p_message_id r',
                p_updated_at := p_updated_at r'\<rparr>"

definition reply_moves :: "string \<Rightarrow> push_db \<Rightarrow> push_db \<Rightarrow> bool" where
  "reply_moves oid db db' \<longleftrightarrow> push_inv db' \<and> (\<forall>k. rel_option (reply_moved oid) (push_get db k) (push_get db' k))"

lemma reply_moved_trans:
  assumes "reply_moved oid q r" "reply_moved oid r s"
  shows "reply_moved oid q s"
proof (cases "r = q \<or> s = r")
  case True
  then show ?thesis using assms by auto
next
  case False
  have r: "r = q\<lparr>p_status := Clarifying, p_submission_json := p_submission_json r, p_message_id := p_message_id r,
      p_updated_at := p_updated_at r\<rparr>" (is "r = ?r") and q: "p_target_open_id q = oid" "p_status q \<in> set OPEN_STATUSES"
    using False assms(1) unfolding reply_moved_def by blast+
  have "s = r\<lparr>p_status := Clarifying, p_submission_json := p_submission_json s, p_message_id := p_message_id s,
      p_updated_at := p_updated_at s\<rparr>" using False assms(2) unfolding reply_moved_def by blast
  also have "\<dots> = q\<lparr>p_status := Clarifying, p_submission_json := p_submission_json s, p_message_id := p_message_id s,
      p_updated_at := p_updated_at s\<rparr>" by (subst r) simp
  finally show ?thesis unfolding reply_moved_def using q by blast
qed

lemma reply_moves_refl: "push_inv db \<Longrightarrow> reply_moves oid db db"
  by (simp add: reply_moves_def option.rel_refl reply_moved_def)

lemma reply_moves_trans:
  assumes "reply_moves oid d0 d1" "reply_moves oid d1 d2"
  shows "reply_moves oid d0 d2"
  unfolding reply_moves_def
proof (intro conjI allI)
  show "push_inv d2" using assms(2) by (simp add: reply_moves_def)
  fix k
  have "rel_option (reply_moved oid) (push_get d0 k) (push_get d1 k)" "rel_option (reply_moved oid) (push_get d1 k) (push_get d2 k)"
    using assms by (simp_all add: reply_moves_def)
  then show "rel_option (reply_moved oid) (push_get d0 k) (push_get d2 k)"
    by (auto elim!: option.rel_cases intro: reply_moved_trans)
qed

lemma quiet_fill_advance [simp]: "st \<in> set OPEN_STATUSES \<Longrightarrow> quiet_args (fill_advance st sub mid)"
  by (auto simp: quiet_args_def fill_advance_def OPEN_STATUSES_def INFLIGHT_STATUSES_def)

text \<open>A compare-and-swap of the matcher: no exception, and the row it moves was open.\<close>

lemma fill_advance_effect:
  assumes inv: "push_inv db" and r: "push_get db rid = Some r" "p_target_open_id r = oid" and st: "st \<in> set OPEN_STATUSES"
  obtains db' where "advance_status now db rid (fill_advance st sub mid) = Inr (db', p_status r = st)" "reply_moves oid db db'"
    "push_get db' rid = Some (if p_status r = st then advanced_row now (fill_advance st sub mid) r else r)"
proof -
  let ?a = "fill_advance st sub mid"
  let ?res = "push_update (\<lambda>q. p_registry_id q = rid \<and> advance_guard ?a q) (advanced_row now ?a) db"
  note adv = advance_quiet [OF inv quiet_fill_advance [OF st]]
  have guard: "advance_guard ?a q \<longleftrightarrow> p_status q = st" for q by (simp add: advance_guard_def fill_advance_def)
  have won: "snd ?res \<longleftrightarrow> p_status r = st" using push_update_won [OF inv] r(1) by (simp add: guard)
  have get: "push_get (fst ?res) k = map_option (\<lambda>q. if p_registry_id q = rid \<and> p_status q = st then advanced_row now ?a q else q)
      (push_get db k)" for k
    using push_update_get [OF inv, of "advanced_row now ?a" "\<lambda>q. p_registry_id q = rid \<and> advance_guard ?a q" k] by (simp add: guard)
  have moved: "reply_moved oid r (advanced_row now ?a r)" if "p_status r = st"
    using that r(2) st by (simp add: reply_moved_def advanced_row_def fill_advance_def)
  have "rel_option (reply_moved oid) (push_get db k) (push_get (fst ?res) k)" for k
  proof (cases "push_get db k")
    case (Some q)
    have "p_registry_id q = rid \<Longrightarrow> q = r" using push_get_id [OF Some] Some r(1) by simp
    then show ?thesis using moved by (auto simp: get Some reply_moved_def)
  qed (simp add: get)
  moreover have "push_inv (fst ?res)" by (rule adv(2))
  ultimately have m: "reply_moves oid db (fst ?res)" by (simp add: reply_moves_def)
  have e: "advance_status now db rid ?a = Inr (fst ?res, p_status r = st)" by (simp add: adv(1) won [symmetric])
  have g: "push_get (fst ?res) rid = Some (if p_status r = st then advanced_row now ?a r else r)"
    using push_get_id [OF r(1)] by (simp add: get r(1))
  show thesis by (rule that [OF e m g])
qed

lemma fill_advance_won:
  assumes "push_inv db" "push_get db rid = Some r" "p_target_open_id r = oid" "p_status r \<in> set OPEN_STATUSES"
  obtains db' where "advance_status now db rid (fill_advance (p_status r) sub mid) = Inr (db', True)" "reply_moves oid db db'"
    "push_get db' rid = Some (advanced_row now (fill_advance (p_status r) sub mid) r)"
proof (rule fill_advance_effect [OF assms, of now sub mid])
  fix db' assume "advance_status now db rid (fill_advance (p_status r) sub mid) = Inr (db', p_status r = p_status r)"
    "reply_moves oid db db'"
    "push_get db' rid = Some (if p_status r = p_status r then advanced_row now (fill_advance (p_status r) sub mid) r else r)"
  then show thesis by (intro that) simp_all
qed

lemma push_get_row: "push_inv db \<Longrightarrow> r \<in> set (pd_rows db) \<Longrightarrow> push_get db (p_registry_id r) = Some r"
  by (simp add: push_get_def push_inv_def push_indexes_def tbl_get_distinct)

text \<open>What a decision may carry: a routed row is an open card of the sender.\<close>

definition own_open :: "push_db \<Rightarrow> string \<Rightarrow> push_row \<Rightarrow> bool" where
  "own_open db oid r \<longleftrightarrow> r \<in> set (pd_rows db) \<and> p_target_open_id r = oid \<and> p_status r \<in> set OPEN_STATUSES"

lemma listed_open: "r \<in> set (list_open_for_user db oid now) \<Longrightarrow>
    own_open db oid r \<and> (case p_expires_at r of None \<Rightarrow> True | Some e \<Rightarrow> e > now)"
  by (auto simp: list_open_for_user_def own_open_def)

lemma quoted_row: "get_by_message_id db (Some q) = Some r \<Longrightarrow> r \<in> set (pd_rows db) \<and> p_message_id r = Some q"
  by (auto simp: get_by_message_id_def Let_def str_or_empty_def split: if_splits dest!: fetchone_Some_mem)

lemma route_row [simp]: "md_action (route M r s q) = Route" "md_row (route M r s q) = Some r"
  by (simp_all add: route_def Let_def)

lemma match_route:
  assumes "md_action (match_message M now db oid s q) = Route"
  obtains r where "md_row (match_message M now db oid s q) = Some r" "own_open db oid r"
    "if q = [] then (case p_expires_at r of None \<Rightarrow> True | Some e \<Rightarrow> e > now) else p_message_id r = Some q"
proof (cases "q = []")
  case False
  then have "oid \<noteq> []" using assms by (auto simp: match_message_def passthrough_def)
  with False assms obtain r where r: "get_by_message_id db (Some q) = Some r" "p_target_open_id r = oid" "p_status r \<in> set OPEN_STATUSES"
      "match_message M now db oid s q = route M r s True"
    by (auto simp: match_message_def passthrough_def split: option.splits if_splits)
  show thesis by (rule that [of r]) (use r False quoted_row [OF r(1)] in \<open>simp_all add: own_open_def\<close>)
next
  case True
  have oid: "oid \<noteq> []" using assms by (auto simp: match_message_def passthrough_def)
  let ?rs = "list_open_for_user db oid now"
  have "\<exists>r \<in> set ?rs. match_message M now db oid s q = route M r s False"
  proof (cases "?rs")
    case Nil
    then show ?thesis using assms True oid by (auto simp: match_message_def passthrough_def split: option.splits)
  next
    case (Cons r rest)
    show ?thesis
    proof (cases rest)
      case Nil
      then show ?thesis using assms True oid Cons
        by (auto simp: match_message_def gate_single_def passthrough_def split: if_splits)
    next
      case Cons': (Cons r' rest')
      have m: "match_message M now db oid s q = disambiguate M ?rs s"
        using True oid by (simp add: match_message_def Cons Cons')
      have "\<exists>r. filter (\<lambda>r. scene_signal_count (mt_tests M) s (mt_scene M r) \<ge> 1) ?rs = [r] \<and> disambiguate M ?rs s = route M r s False"
        using assms unfolding m disambiguate_def by (auto split: list.splits)
      then obtain r where r: "filter (\<lambda>r. scene_signal_count (mt_tests M) s (mt_scene M r) \<ge> 1) ?rs = [r]"
          "disambiguate M ?rs s = route M r s False" by blast
      have "r \<in> set ?rs" using arg_cong [OF r(1), of set] by auto
      with r(2) show ?thesis unfolding m by blast
    qed
  qed
  then obtain r where r: "r \<in> set ?rs" "match_message M now db oid s q = route M r s False" by blast
  show thesis by (rule that [of r]) (use r True listed_open [OF r(1)] in simp_all)
qed

lemma drive_moves:
  assumes inv: "push_inv db" and quiet: "fw_env W = (\<lambda>_ d. d)" and d: "md_row d = Some r" "own_open db oid r"
  shows "reply_moves oid db (fst (drive_fill_step M W db d s))"
proof -
  let ?rid = "p_registry_id r"
  have r: "push_get db ?rid = Some r" "p_target_open_id r = oid" "p_status r \<in> set OPEN_STATUSES"
    using d(2) push_get_row [OF inv] by (simp_all add: own_open_def)
  note same = reply_moves_refl [OF inv, of oid]
  show ?thesis
  proof (cases "scene_def_for_row (mt_lib M) r")
    case None
    then show ?thesis by (simp add: drive_fill_step_def d(1) r(1) same)
  next
    case (Some scene)
    let ?b = "build_fill_step (mt_lib M) (fw_extract W) (fw_opid W) scene (loads_column (mt_lib M) (p_submission_json r)) s ?rid
        (str_or_empty (p_nonce r)) (Some r) (case md_context d of None \<Rightarrow> [] | Some c \<Rightarrow> str_or_empty (mx_escape_hint c))"
    show ?thesis
    proof (cases ?b)
      case (Inl e)
      then show ?thesis by (simp add: drive_fill_step_def d(1) r(1) Some same)
    next
      case (Inr step)
      let ?sub = "Some (dumps (mt_lib M) (JObj (st_values step)))"
      obtain db1 where one: "advance_status (fw_clk W 0) db ?rid (fill_advance (p_status r) ?sub None) = Inr (db1, True)"
          "reply_moves oid db db1" "push_get db1 ?rid = Some (advanced_row (fw_clk W 0) (fill_advance (p_status r) ?sub None) r)"
        by (rule fill_advance_won [OF inv r(1,2,3)])
      let ?q = "advanced_row (fw_clk W 0) (fill_advance (p_status r) ?sub None) r"
      have q: "p_target_open_id ?q = oid" "p_status ?q = Clarifying" by (simp_all add: advanced_row_def fill_advance_def r(2))
      have inv1: "push_inv db1" using one(2) by (simp add: reply_moves_def)
      have two: "\<exists>db2. advance_status now db1 ?rid (fill_advance Clarifying None mid) = Inr (db2, True) \<and> reply_moves oid db1 db2"
        for now mid
      proof -
        have open_q: "p_status ?q \<in> set OPEN_STATUSES" by (simp add: q(2) OPEN_STATUSES_def)
        show ?thesis by (rule fill_advance_won [OF inv1 one(3) q(1) open_q, of now None mid]) (auto simp: q(2))
      qed
      have "(case deliver_step W db1 r step of Inl e \<Rightarrow> True | Inr db2 \<Rightarrow> reply_moves oid db1 db2)"
        using two reply_moves_refl [OF inv1, of oid]
        by (auto simp: deliver_step_def quiet Let_def split: sum.splits option.splits) (metis prod.inject sum.inject(2))+
      then show ?thesis
        using one(2) by (auto simp: drive_fill_step_def d(1) r(1,3) Some Inr quiet one(1) split: sum.splits intro: reply_moves_trans)
    qed
  qed
qed

lemma yolo_moves:
  assumes inv: "push_inv db" and d: "md_row d = Some r" "own_open db oid r"
  shows "reply_moves oid db (fst (route_yolo_to_skill now db ev d))"
    and "\<exists>ev'. snd (route_yolo_to_skill now db ev d) = Inr ev'"
proof -
  have r: "push_get db (p_registry_id r) = Some r" "p_target_open_id r = oid" "p_status r \<in> set OPEN_STATUSES"
    using d(2) push_get_row [OF inv] by (simp_all add: own_open_def)
  have pending: "Pending \<in> set OPEN_STATUSES" by (simp add: OPEN_STATUSES_def)
  obtain db' where "advance_status now db (p_registry_id r) (fill_advance Pending None None) = Inr (db', p_status r = Pending)"
      "reply_moves oid db db'"
    by (rule fill_advance_effect [OF inv r(1,2) pending])
  then show "reply_moves oid db (fst (route_yolo_to_skill now db ev d))"
      and "\<exists>ev'. snd (route_yolo_to_skill now db ev d) = Inr ev'"
    using reply_moves_refl [OF inv, of oid] by (simp_all add: route_yolo_to_skill_def d(1) r(1))
qed

text \<open>The cards a message may concern: an open card, a card just being sent, or a quoted expired one.\<close>

definition concerns :: "push_db \<Rightarrow> string \<Rightarrow> string \<Rightarrow> int \<Rightarrow> bool" where
  "concerns db oid quoted now \<longleftrightarrow>
     (if quoted \<noteq> [] then \<exists>r. get_by_message_id db (Some quoted) = Some r \<and> p_target_open_id r = oid
        \<and> p_status r \<in> set (Expired # OPEN_STATUSES)
      else list_open_for_user db oid now \<noteq> [] \<or> get_fresh_sending db oid (now - GRACE_WINDOW_S) \<noteq> None)"

lemma no_concern: "\<not> concerns db oid quoted now \<Longrightarrow> md_action (match_message M now db oid s quoted) = Passthrough"
  by (auto simp: concerns_def match_message_def passthrough_def split: option.splits if_splits list.splits)

text \<open>An event as it arrives carries no mark.\<close>

definition unmarked :: "inbound \<Rightarrow> bool" where
  "unmarked ev \<longleftrightarrow> \<not> in_yolo_routed ev \<and> \<not> in_registry_ctx ev \<and> \<not> in_notice ev"

lemma grace_decision:
  obtains now where "match_with_grace M clk (\<lambda>d. d) db oid s q = (db, match_message M now db oid s q)"
proof (cases "md_action (match_message M (clk 0) db oid s q) = Retry_Grace")
  case True
  show thesis by (rule that [of "clk 1"]) (simp add: match_with_grace_def True)
next
  case False
  show thesis by (rule that [of "clk 0"]) (simp add: match_with_grace_def False)
qed

section \<open>Properties\<close>


text \<open>The regression contract: a message that concerns no card (no quoted open or expired card of the sender,
  and, unquoted, no open card and none just being sent) passes through with event and registry untouched,
  whatever the heuristics, the intent model or the deliveries do.\<close>

lemma unrelated_message_untouched:
  assumes "unmarked ev" "\<not> concerns db (canonical_open_id table (in_open_id ev)) (in_reply_to ev) (clk 0)"
  shows "try_route_push_card_reply M W table clk env noticed ev db = (False, ev, db)"
  using assms no_concern [OF assms(2), of M "in_text ev"]
  by (simp add: try_route_push_card_reply_def unmarked_def match_with_grace_def Let_def)

text \<open>The two call sites may both see a message: once it has been consumed, a second run consumes it again without
  touching the registry or the event, and one that was rewritten for a skill passes through as it is.\<close>

lemma second_delivery_inert:
  assumes "try_route_push_card_reply M W table clk env noticed ev db = (consumed, ev', db')" "consumed \<or> in_yolo_routed ev'"
  shows "try_route_push_card_reply M2 W2 table2 clk2 env2 noticed2 ev' d = (consumed, ev', d)"
proof -
  have "(case try_route_push_card_reply M W table clk env noticed ev db of
      (c, e, d) \<Rightarrow> (c \<longrightarrow> \<not> in_yolo_routed e \<and> (in_registry_ctx e \<or> in_notice e)))"
    by (auto simp: try_route_push_card_reply_def Let_def split: prod.split sum.split bool.split)
  with assms show ?thesis by (auto simp: try_route_push_card_reply_def)
qed

text \<open>A recalled message recomputes one draft at most: with exactly one open card its submission is cleared and
  nothing else changes; with none or several the registry is as it was.\<close>

lemma recall_clears_single_draft:
  assumes "push_inv db"
  shows "case list_open_for_user db oid now of
      [r] \<Rightarrow> snd (handle_message_recall now db oid) = Some (p_registry_id r)
        \<and> (\<forall>k. push_get (fst (handle_message_recall now db oid)) k =
            (if k = p_registry_id r then Some (r\<lparr>p_submission_json := None, p_updated_at := now\<rparr>) else push_get db k))
    | _ \<Rightarrow> handle_message_recall now db oid = (db, None)"
proof (cases "\<exists>r. list_open_for_user db oid now = [r]")
  case True
  then obtain r where l: "list_open_for_user db oid now = [r]" by blast
  have o: "own_open db oid r" using listed_open [of r db oid now] by (simp add: l)
  then have r: "push_get db (p_registry_id r) = Some r" "p_status r \<in> set OPEN_STATUSES"
    using push_get_row [OF assms] by (simp_all add: own_open_def)
  let ?f = "\<lambda>q. q\<lparr>p_submission_json := None, p_updated_at := now\<rparr>"
  have won: "snd (reset_submission now db (p_registry_id r))"
    using push_update_won [OF assms, of "p_registry_id r" "\<lambda>q. p_status q \<in> set OPEN_STATUSES" ?f] r
    by (simp add: reset_submission_def)
  have "push_get (fst (reset_submission now db (p_registry_id r))) k =
      (if k = p_registry_id r then Some (?f r) else push_get db k)" for k
  proof -
    have eq: "push_get (fst (reset_submission now db (p_registry_id r))) k =
        map_option (\<lambda>q. if p_registry_id q = p_registry_id r \<and> p_status q \<in> set OPEN_STATUSES then ?f q else q) (push_get db k)"
      using push_update_get [OF assms, of ?f] by (simp add: reset_submission_def)
    show ?thesis
    proof (cases "k = p_registry_id r")
      case True
      then show ?thesis using r(2) eq by (simp add: r(1))
    next
      case False
      have "push_get db k = Some q \<Longrightarrow> p_registry_id q \<noteq> p_registry_id r" for q using push_get_id [of db k q] False by simp
      with False show ?thesis by (cases "push_get db k") (simp_all add: eq)
    qed
  qed
  with won show ?thesis by (simp add: l handle_message_recall_def split_beta)
next
  case False
  then show ?thesis by (auto simp: handle_message_recall_def split: list.splits)
qed

text \<open>A quoted reply is matched by the card's status alone: a card whose deadline has passed but which the sweep has
  not expired yet is still filled by a quoted reply, while the same reply unquoted is not matched. The
  read-time deadline guard covers the unquoted path only.\<close>

lemma overdue_quoted_reply_routed:
  assumes "get_by_message_id db (Some q) = Some r" "p_target_open_id r = oid" "p_status r \<in> set OPEN_STATUSES"
    "p_expires_at r = Some e" "e \<le> now" "oid \<noteq> []"
  shows "md_action (match_message M now db oid s q) = Route \<and> md_row (match_message M now db oid s q) = Some r
    \<and> r \<notin> set (list_open_for_user db oid now)"
proof -
  have "q \<noteq> []" using assms(1) by (auto simp: get_by_message_id_def str_or_empty_def)
  moreover have "p_status r \<noteq> Expired" using assms(3) by (auto simp: OPEN_STATUSES_def)
  moreover have "r \<notin> set (list_open_for_user db oid now)" using listed_open [of r db oid now] assms(4,5) by auto
  ultimately show ?thesis using assms by (simp add: match_message_def)
qed

section \<open>Witnesses\<close>

definition demo_matcher :: matcher where
  "demo_matcher = \<lparr>mt_lib = confirm_lib,
     mt_tests = \<lparr>tt_lower = (\<lambda>s. s), tt_number = list_ex (\<lambda>c. c \<in> set ''0123456789''), tt_date = (\<lambda>_. False), tt_question = (\<lambda>_. False)\<rparr>,
     mt_scene = (\<lambda>_. Some (demo_scene\<lparr>sd_mode := MODE_YOLO\<rparr>)), mt_heuristic = (\<lambda>_ _. Yes), mt_llm = None\<rparr>"

definition quiet_world :: fill_world where
  "quiet_world = \<lparr>fw_extract = (\<lambda>_ _. []), fw_opid = ''o'', fw_updated = (\<lambda>_ _. True), fw_sent = (\<lambda>_ _. Inr None),
     fw_env = (\<lambda>_ d. d), fw_clk = (\<lambda>_. 9)\<rparr>"

definition demo_event :: inbound where
  "demo_event = \<lparr>in_open_id = ''ou_1'', in_text = ''58'', in_reply_to = ''om_1'', in_yolo_routed = False,
     in_registry_ctx = False, in_notice = False\<rparr>"

definition routed_event :: inbound where
  "routed_event = demo_event\<lparr>in_text := ''/k 58'', in_yolo_routed := True\<rparr>"

definition pending_card :: push_row where
  "pending_card = open_card\<lparr>p_status := Pending\<rparr>"

definition pending_db :: push_db where
  "pending_db = \<lparr>pd_rows = [pending_card], pd_archive = []\<rparr>"

definition filling_db :: push_db where
  "filling_db = \<lparr>pd_rows = [open_card\<lparr>p_updated_at := 9\<rparr>], pd_archive = []\<rparr>"

lemma pending_fields [simp]:
  "p_registry_id pending_card = ''r1''" "p_status pending_card = Pending" "p_skill pending_card = ''k''"
  "p_message_id pending_card = Some ''om_1''" "p_target_open_id pending_card = ''ou_1''" "p_expires_at pending_card = Some 100"
  "p_nonce pending_card = Some ''n''" "p_idempotency_key pending_card = Some ''ik''"
  by (simp_all add: pending_card_def open_card_def card_args_def demo_args_def)

lemma pending_rows [simp]: "pd_rows pending_db = [pending_card]" "push_get pending_db ''r1'' = Some pending_card"
  by (simp_all add: pending_db_def push_get_def tbl_get_Cons)

lemma pending_db_inv: "push_inv pending_db"
  by (simp add: push_inv_def push_indexes_def unique_index_def)

lemma pending_quoted [simp]: "get_by_message_id pending_db (Some ''om_1'') = Some pending_card"
  by (simp add: get_by_message_id_def str_or_empty_def order_by_desc_def)

lemma pending_claimed: "advance_status 9 pending_db ''r1'' (fill_advance Pending None None) = Inr (filling_db, True)"
  by (simp add: advance_status_def push_update_def advance_guard_def fill_advance_def sql_update_def rowcount_def pending_db_def
      filling_db_def advanced_row_def pending_card_def push_indexes_def unique_index_def)

lemma demo_canonical [simp]: "canonical_open_id t ''ou_1'' = ''ou_1''"
  by (simp add: canonical_open_id_def)

lemma demo_routed:
  "try_route_push_card_reply demo_matcher quiet_world None (\<lambda>_. 9) (\<lambda>d. d) (\<lambda>_ _. True) demo_event pending_db =
     (False, routed_event, filling_db)"
proof -
  have o: "Pending \<in> set OPEN_STATUSES" by (simp add: OPEN_STATUSES_def)
  have m: "match_message demo_matcher 9 pending_db ''ou_1'' ''58'' ''om_1'' = route demo_matcher pending_card ''58'' True"
    by (simp add: match_message_def o)
  have s: "slash_content pending_card ''58'' = ''/k 58''" by (simp add: slash_content_def rstrip_def is_space_def)
  have r: "md_mode (route demo_matcher pending_card ''58'' True) = MODE_YOLO"
      "md_slash_content (route demo_matcher pending_card ''58'' True) = Some (slash_content pending_card ''58'')"
    by (simp_all add: route_def demo_matcher_def)
  show ?thesis
    by (simp add: try_route_push_card_reply_def Let_def demo_event_def routed_event_def match_with_grace_def m r s
        route_yolo_to_skill_def str_or_empty_def pending_claimed)
qed


lemma pending_listed: "list_open_for_user pending_db ''ou_1'' 9 = [pending_card]"
  by (simp add: list_open_for_user_def OPEN_STATUSES_def order_by_def)

end
