(* ===== verification/Ingest_Keys.thy ===== *)
theory Ingest_Keys
  imports Push_Scenes Git_Env "HOL-Library.Multiset" "HOL-Library.Countable"
begin

text \<open>
  The bearer keys of the ingest and push interfaces. The key file and the operator's commands on it
  (\<open>src/hermes_multitenancy/ingest_keys.py\<close>, \<open>ingest_key_admin_cli.py\<close>), the server's reading of that file and the
  authentication of a request, the secrets a caller attaches to a run and their redaction
  (\<open>webui_broker/periphery.py\<close>). The text \<open>json.dump\<close> writes, SHA-256 and the random token are arguments.
\<close>

section \<open>Comparing tokens\<close>

definition ascii :: "string \<Rightarrow> bool" where
  "ascii s \<longleftrightarrow> list_all (\<lambda>c. (of_char c :: nat) < 128) s"

text \<open>\<open>hmac.compare_digest\<close> on texts: a \<open>TypeError\<close> unless both are ASCII.\<close>

definition compare_digest :: "string \<Rightarrow> string \<Rightarrow> bool result" where
  "compare_digest a b = (if ascii a \<and> ascii b then Inr (a = b) else Inl PyTypeError)"

section \<open>The key file\<close>

text \<open>An entry of the file; an absent field is the empty text.\<close>

record ingest_key =
  ik_token :: string
  ik_owner :: string
  ik_profile :: string
  ik_agent :: string
  ik_name :: string

definition drop_chars :: "nat \<Rightarrow> string \<Rightarrow> string" where
  "drop_chars n s = drop (length (take_chars n s)) s"

definition mask_token :: "string \<Rightarrow> string" where
  "mask_token token =
     (if char_count token \<le> 8 then (if token = [] then [] else ''****'')
      else take_chars 4 token @ ''...'' @ drop_chars (char_count token - 4) token)"

definition clean_field :: "pylib \<Rightarrow> (string \<times> json) list \<Rightarrow> string \<Rightarrow> string" where
  "clean_field L d k = strip (str_get_or L d k [])"

definition clean_entry :: "pylib \<Rightarrow> (string \<times> json) list \<Rightarrow> ingest_key" where
  "clean_entry L d = \<lparr>ik_token = clean_field L d ''token'', ik_owner = clean_field L d ''owner'', ik_profile = clean_field L d ''profile'',
     ik_agent = py_or (clean_field L d ''agent'') (clean_field L d ''agent_id''),
     ik_name = py_or (clean_field L d ''name'') (clean_field L d ''display_label'')\<rparr>"

definition usable_key :: "ingest_key \<Rightarrow> bool" where
  "usable_key k \<longleftrightarrow> ik_token k \<noteq> [] \<and> (ik_owner k \<noteq> [] \<or> ik_profile k \<noteq> [])"

text \<open>\<open>payload.get("keys", payload.get("bindings", []))\<close> of an object, a list as it is.\<close>

definition key_entries :: "json \<Rightarrow> json" where
  "key_entries payload =
     (case payload of
        JObj d \<Rightarrow> (case map_of d ''keys'' of
                     Some v \<Rightarrow> v
                   | None \<Rightarrow> (case map_of d ''bindings'' of Some v \<Rightarrow> v | None \<Rightarrow> JArr []))
      | _ \<Rightarrow> payload)"

definition objects :: "json list \<Rightarrow> (string \<times> json) list list" where
  "objects xs = concat (map (\<lambda>x. case x of JObj d \<Rightarrow> [d] | _ \<Rightarrow> []) xs)"

definition load_key_file :: "pylib \<Rightarrow> string option \<Rightarrow> ingest_key list result" where
  "load_key_file L file =
     (case file of
        None \<Rightarrow> Inr []
      | Some content \<Rightarrow>
          (case loads L content of
             None \<Rightarrow> Inl (ValueError ''JSONDecodeError'')
           | Some payload \<Rightarrow>
               (case key_entries payload of
                  JArr xs \<Rightarrow> Inr (filter usable_key (map (clean_entry L) (objects xs)))
                | _ \<Rightarrow> Inl (IngestKeyError ''ingest key file must contain a list or a {\"keys\": [...]} object''))))"

definition entry_field :: "string \<Rightarrow> string \<Rightarrow> (string \<times> json) list" where
  "entry_field k v = (if v = [] then [] else [(k, JStr v)])"

definition entry_json :: "ingest_key \<Rightarrow> json" where
  "entry_json k = JObj (entry_field ''token'' (ik_token k) @ entry_field ''owner'' (ik_owner k) @ entry_field ''profile'' (ik_profile k)
     @ entry_field ''agent'' (ik_agent k) @ entry_field ''name'' (ik_name k))"

definition keys_json :: "ingest_key list \<Rightarrow> json" where
  "keys_json keys = JObj [(''keys'', JArr (map entry_json keys))]"

text \<open>The text \<open>save_key_file\<close> puts in place of the file; \<open>W\<close> is \<open>json.dump\<close> with its indentation and newline.\<close>

definition save_key_file :: "(json \<Rightarrow> string) \<Rightarrow> ingest_key list \<Rightarrow> string" where
  "save_key_file W keys = W (keys_json keys)"

record public_key_entry =
  pk_token :: string
  pk_owner :: string
  pk_profile :: string
  pk_agent :: string
  pk_name :: string
  pk_source :: string
  pk_index :: nat

definition public_entry :: "ingest_key \<Rightarrow> nat \<Rightarrow> public_key_entry" where
  "public_entry k i = \<lparr>pk_token = mask_token (ik_token k), pk_owner = ik_owner k, pk_profile = ik_profile k,
     pk_agent = ik_agent k, pk_name = ik_name k, pk_source = ''file'', pk_index = i\<rparr>"

text \<open>The scan for a token another entry has; it may raise on the way.\<close>

fun token_taken :: "string \<Rightarrow> ingest_key list \<Rightarrow> bool result" where
  "token_taken t [] = Inr False"
| "token_taken t (k # ks) = rbind (compare_digest (ik_token k) t) (\<lambda>b. if b then Inr True else token_taken t ks)"

definition add_binding :: "ingest_key list \<Rightarrow> ingest_key \<Rightarrow> (ingest_key list \<times> ingest_key) result" where
  "add_binding keys arg =
     (let k = \<lparr>ik_token = strip (ik_token arg), ik_owner = strip (ik_owner arg), ik_profile = strip (ik_profile arg),
               ik_agent = strip (ik_agent arg), ik_name = strip (ik_name arg)\<rparr>
      in if ik_token k = [] then Inl (IngestKeyError ''token is required'')
         else if ik_owner k = [] \<and> ik_profile k = [] then Inl (IngestKeyError ''owner or profile is required'')
         else rbind (token_taken (ik_token k) keys) (\<lambda>taken.
           if taken then Inl (IngestKeyError ''token already exists'') else Inr (keys @ [k], k)))"

record key_selector =
  ks_index :: "int option"
  ks_owner :: string
  ks_profile :: string
  ks_agent :: string
  ks_name :: string

definition select_indices :: "ingest_key list \<Rightarrow> key_selector \<Rightarrow> nat list result" where
  "select_indices keys s =
     (case ks_index s of
        Some i \<Rightarrow> Inr (if 0 \<le> i \<and> i < int (length keys) then [nat i] else [])
      | None \<Rightarrow>
          (let fits = \<lambda>want have. strip want = [] \<or> have = strip want
           in if strip (ks_owner s) = [] \<and> strip (ks_profile s) = [] \<and> strip (ks_agent s) = [] \<and> strip (ks_name s) = []
              then Inl (IngestKeyError ''provide --index or at least one selector'')
              else Inr (filter (\<lambda>i. fits (ks_owner s) (ik_owner (keys ! i)) \<and> fits (ks_profile s) (ik_profile (keys ! i))
                          \<and> fits (ks_agent s) (ik_agent (keys ! i)) \<and> fits (ks_name s) (ik_name (keys ! i))) [0..<length keys])))"

definition require_single_match :: "ingest_key list \<Rightarrow> key_selector \<Rightarrow> nat result" where
  "require_single_match keys s = rbind (select_indices keys s) (\<lambda>m. case m of
       [] \<Rightarrow> Inl (IngestKeyError ''no matching ingest key binding'')
     | [i] \<Rightarrow> Inr i
     | _ \<Rightarrow> Inl (IngestKeyError (''selector matched '' @ int_str (int (length m)) @ '' bindings; add --index or more selectors'')))"

definition rotate_binding :: "ingest_key list \<Rightarrow> string \<Rightarrow> key_selector \<Rightarrow> (ingest_key list \<times> ingest_key) result" where
  "rotate_binding keys token s = rbind (require_single_match keys s) (\<lambda>i.
     if strip token = [] then Inl (IngestKeyError ''token is required'')
     else rbind (token_taken (strip token) (take i keys @ drop (Suc i) keys)) (\<lambda>taken.
       if taken then Inl (IngestKeyError ''token already exists'')
       else (let k = (keys ! i)\<lparr>ik_token := strip token\<rparr> in Inr (keys[i := k], k))))"

definition revoke_binding :: "ingest_key list \<Rightarrow> key_selector \<Rightarrow> (ingest_key list \<times> ingest_key) result" where
  "revoke_binding keys s = rbind (require_single_match keys s) (\<lambda>i. Inr (take i keys @ drop (Suc i) keys, keys ! i))"

section \<open>The operator's commands\<close>

datatype key_command = Grant ingest_key | Rotate string key_selector | Revoke key_selector

text \<open>A command on the entries, and on the file; \<open>g\<close> is the token \<open>generate_token\<close> would draw.\<close>

definition run_command :: "string \<Rightarrow> key_command \<Rightarrow> ingest_key list \<Rightarrow> (ingest_key list \<times> ingest_key) result" where
  "run_command g cmd keys =
     (case cmd of
        Grant k \<Rightarrow> add_binding keys (k\<lparr>ik_token := py_or (ik_token k) g\<rparr>)
      | Rotate t s \<Rightarrow> rotate_binding keys (py_or t g) s
      | Revoke s \<Rightarrow> revoke_binding keys s)"

definition key_cli :: "(json \<Rightarrow> string) \<Rightarrow> pylib \<Rightarrow> string \<Rightarrow> key_command \<Rightarrow> string option \<Rightarrow> string option \<times> ingest_key result" where
  "key_cli W L g cmd file =
     (case rbind (load_key_file L file) (run_command g cmd) of
        Inl e \<Rightarrow> (file, Inl e)
      | Inr (keys, k) \<Rightarrow> (Some (save_key_file W keys), Inr k))"

definition list_keys :: "pylib \<Rightarrow> string option \<Rightarrow> public_key_entry list result" where
  "list_keys L file = rbind (load_key_file L file) (\<lambda>keys. Inr (map (\<lambda>i. public_entry (keys ! i) i) [0..<length keys]))"

section \<open>Authenticating a request\<close>

record ingest_binding =
  ib_owner :: string
  ib_profile :: string
  ib_agent :: string
  ib_name :: string
  ib_source :: string
  ib_scenes :: "string list"
  ib_skills :: "string list"
  ib_domains :: "string list"

text \<open>The process environment: the key file (None: none configured), the dedicated and the master key, owner and profile.\<close>

record ingest_env =
  ie_file :: "string option"
  ie_key :: string
  ie_master :: string
  ie_owner :: string
  ie_profile :: string

definition bearer_token :: "string \<Rightarrow> string" where
  "bearer_token header = (if startswith header ''Bearer '' then strip (drop 7 header) else [])"

definition str_list :: "pylib \<Rightarrow> json \<Rightarrow> string list" where
  "str_list L raw = (case raw of JArr xs \<Rightarrow> filter (\<lambda>s. s \<noteq> []) (map (\<lambda>x. strip (py_str L x)) xs) | _ \<Rightarrow> [])"

definition file_binding :: "pylib \<Rightarrow> (string \<times> json) list \<Rightarrow> string \<times> ingest_binding" where
  "file_binding L d = (clean_field L d ''token'',
     \<lparr>ib_owner = clean_field L d ''owner'', ib_profile = clean_field L d ''profile'',
      ib_agent = strip (if truthy (jget d ''agent'') then py_str L (jget d ''agent'') else str_get_or L d ''agent_id'' []),
      ib_name = strip (if truthy (jget d ''name'') then py_str L (jget d ''name'') else str_get_or L d ''display_label'' []),
      ib_source = ''file'', ib_scenes = str_list L (jget d ''allowed_scenes''), ib_skills = str_list L (jget d ''allowed_skills''),
      ib_domains = str_list L (jget d ''allowed_callback_domains'')\<rparr>)"

definition file_bindings :: "pylib \<Rightarrow> string option \<Rightarrow> (string \<times> ingest_binding) list" where
  "file_bindings L file =
     (case file of
        None \<Rightarrow> []
      | Some content \<Rightarrow>
          (case loads L content of
             None \<Rightarrow> []
           | Some raw \<Rightarrow>
               (case key_entries raw of
                  JArr xs \<Rightarrow> filter (\<lambda>(t, b). t \<noteq> [] \<and> (ib_owner b \<noteq> [] \<or> ib_profile b \<noteq> [])) (map (file_binding L) (objects xs))
                | _ \<Rightarrow> [])))"

definition legacy_binding :: "ingest_env \<Rightarrow> ingest_binding" where
  "legacy_binding E = \<lparr>ib_owner = strip (ie_owner E), ib_profile = (if strip (ie_owner E) \<noteq> [] then [] else strip (ie_profile E)),
     ib_agent = [], ib_name = [], ib_source = ''legacy'', ib_scenes = [], ib_skills = [], ib_domains = []\<rparr>"

fun match_binding :: "string \<Rightarrow> (string \<times> ingest_binding) list \<Rightarrow> ingest_binding option result" where
  "match_binding t [] = Inr None"
| "match_binding t ((expected, b) # bs) =
     (if expected = [] then match_binding t bs
      else rbind (compare_digest t expected) (\<lambda>same. if same then Inr (Some b) else match_binding t bs))"

definition binding_for_request :: "pylib \<Rightarrow> ingest_env \<Rightarrow> string \<Rightarrow> ingest_binding option result" where
  "binding_for_request L E header =
     (let t = bearer_token header
      in if t = [] then Inr None
         else rbind (match_binding t (file_bindings L (ie_file E))) (\<lambda>found.
           if found \<noteq> None then Inr found
           else match_binding t [(strip (ie_key E), legacy_binding E), (strip (ie_master E), legacy_binding E)]))"

definition bound_agent_label :: "ingest_binding \<Rightarrow> string" where
  "bound_agent_label b = py_or (py_or (ib_name b) (ib_agent b)) (ib_profile b)"

definition bound_agent_id :: "ingest_binding \<Rightarrow> string" where
  "bound_agent_id b = py_or (ib_agent b) (ib_profile b)"

definition agent_matches_binding :: "ingest_binding \<Rightarrow> string \<Rightarrow> bool" where
  "agent_matches_binding b agent = (strip agent = [] \<or> (strip agent \<in> {ib_name b, ib_agent b, ib_profile b}))"

section \<open>The file and the commands\<close>

definition tidy_key :: "ingest_key \<Rightarrow> bool" where
  "tidy_key k \<longleftrightarrow> usable_key k \<and> strip (ik_token k) = ik_token k \<and> strip (ik_owner k) = ik_owner k
     \<and> strip (ik_profile k) = ik_profile k \<and> strip (ik_agent k) = ik_agent k \<and> strip (ik_name k) = ik_name k"

text \<open>What the server makes of an entry the commands have written: no grant is left.\<close>

definition bare_binding :: "ingest_key \<Rightarrow> ingest_binding" where
  "bare_binding k = \<lparr>ib_owner = ik_owner k, ib_profile = ik_profile k, ib_agent = ik_agent k, ib_name = ik_name k, ib_source = ''file'',
     ib_scenes = [], ib_skills = [], ib_domains = []\<rparr>"

lemmas entry_fields = entry_field_def jget_def str_get_or_def truthy_def py_str_def clean_field_def py_or_def

lemma entry_json_JObj: "\<exists>d. entry_json k = JObj d"
  by (simp add: entry_json_def)

definition entry_dict :: "ingest_key \<Rightarrow> (string \<times> json) list" where
  "entry_dict k = (case entry_json k of JObj d \<Rightarrow> d | _ \<Rightarrow> [])"

lemma entry_json_dict: "entry_json k = JObj (entry_dict k)"
  by (simp add: entry_dict_def entry_json_def)

lemma objects_entries [simp]: "objects (map entry_json keys) = map entry_dict keys"
  by (induction keys) (simp_all add: objects_def entry_json_dict)

lemma jget_entry: "jget (entry_dict k) f = (if f = ''token'' then column (or_none (ik_token k)) else if f = ''owner'' then column (or_none (ik_owner k))
    else if f = ''profile'' then column (or_none (ik_profile k)) else if f = ''agent'' then column (or_none (ik_agent k))
    else if f = ''name'' then column (or_none (ik_name k)) else JNull)"
  by (simp add: entry_dict_def entry_json_def entry_field_def jget_def column_def or_none_def)

lemma column_field [simp]: "truthy (column (or_none s)) \<longleftrightarrow> s \<noteq> []" "s \<noteq> [] \<Longrightarrow> py_str L (column (or_none s)) = s"
  by (auto simp: truthy_def py_str_def column_def or_none_def)

lemma JNull_field [simp]: "\<not> truthy JNull"
  by (simp add: truthy_def)

lemma clean_entry_dict: "tidy_key k \<Longrightarrow> clean_entry L (entry_dict k) = k"
  by (cases k) (auto simp: clean_entry_def clean_field_def str_get_or_def jget_entry tidy_key_def py_or_def)

lemma file_binding_dict: "tidy_key k \<Longrightarrow> file_binding L (entry_dict k) = (ik_token k, bare_binding k)"
  by (cases k) (auto simp: file_binding_def bare_binding_def clean_field_def str_get_or_def jget_entry tidy_key_def str_list_def)

lemma load_saved:
  assumes "loads L (W (keys_json keys)) = Some (keys_json keys)" "\<forall>k \<in> set keys. tidy_key k"
  shows "load_key_file L (Some (save_key_file W keys)) = Inr keys"
    and "file_bindings L (Some (save_key_file W keys)) = map (\<lambda>k. (ik_token k, bare_binding k)) keys"
proof -
  have "map (clean_entry L \<circ> entry_dict) keys = keys"
    using assms(2) clean_entry_dict by (intro map_idI) auto
  moreover have "filter usable_key keys = keys" using assms(2) by (simp add: tidy_key_def filter_True)
  ultimately show "load_key_file L (Some (save_key_file W keys)) = Inr keys"
    by (simp add: load_key_file_def save_key_file_def assms(1)) (simp add: keys_json_def key_entries_def)
  have "map (file_binding L) (map entry_dict keys) = map (\<lambda>k. (ik_token k, bare_binding k)) keys"
    using assms(2) file_binding_dict by auto
  moreover have "filter (\<lambda>(t, b). t \<noteq> [] \<and> (ib_owner b \<noteq> [] \<or> ib_profile b \<noteq> [])) (map (\<lambda>k. (ik_token k, bare_binding k)) keys)
      = map (\<lambda>k. (ik_token k, bare_binding k)) keys"
    using assms(2) by (intro filter_True) (auto simp: tidy_key_def usable_key_def bare_binding_def)
  ultimately show "file_bindings L (Some (save_key_file W keys)) = map (\<lambda>k. (ik_token k, bare_binding k)) keys"
    unfolding file_bindings_def save_key_file_def option.case assms(1) unfolding keys_json_def key_entries_def
    by (simp only: json.case option.case map_of.simps fst_conv snd_conv fun_upd_same objects_entries)
qed

lemma loaded_clean: "load_key_file L file = Inr keys \<Longrightarrow> k \<in> set keys \<Longrightarrow> tidy_key k"
  by (auto simp: load_key_file_def clean_entry_def clean_field_def tidy_key_def py_or_def
      split: option.splits json.splits if_splits)

lemma token_taken_False: "token_taken t ks = Inr False \<Longrightarrow> t \<notin> ik_token ` set ks"
  by (induction t ks rule: token_taken.induct) (auto simp: rbind_Inr compare_digest_def split: if_splits)

lemma select_bound: "select_indices keys s = Inr m \<Longrightarrow> j \<in> set m \<Longrightarrow> j < length keys"
  by (auto simp: select_indices_def Let_def split: option.splits if_splits)

lemma single_match: "require_single_match keys s = Inr i \<Longrightarrow> i < length keys"
proof -
  assume a: "require_single_match keys s = Inr i"
  then obtain m where m: "select_indices keys s = Inr m" by (auto simp: require_single_match_def rbind_Inr)
  then have "m = [i]" using a by (cases m; cases "tl m") (auto simp: require_single_match_def)
  then show ?thesis using select_bound [OF m] by simp
qed

lemma without_nth: "i < length xs \<Longrightarrow> mset xs = add_mset (xs ! i) (mset (take i xs @ drop (Suc i) xs))"
  using arg_cong [OF id_take_nth_drop [of i xs], of mset] by simp

lemma distinct_without:
  assumes "i < length xs" "distinct (map f xs)"
  shows "distinct (map f (take i xs @ drop (Suc i) xs))"
proof -
  have "mset (map f xs) = mset (f (xs ! i) # map f (take i xs @ drop (Suc i) xs))" using without_nth [OF assms(1)] by simp
  then have "distinct (f (xs ! i) # map f (take i xs @ drop (Suc i) xs))" using assms(2) mset_eq_imp_distinct_iff by metis
  then show ?thesis by simp
qed

text \<open>A command that succeeds keeps every entry clean and every token apart.\<close>

lemma run_command_ok:
  assumes "run_command g cmd keys = Inr (keys', k)" "\<forall>x \<in> set keys. tidy_key x" "distinct (map ik_token keys)"
  shows "(\<forall>x \<in> set keys'. tidy_key x) \<and> distinct (map ik_token keys')"
proof (cases cmd)
  case (Grant arg)
  then show ?thesis
    using assms token_taken_False by (auto simp: run_command_def add_binding_def Let_def rbind_Inr tidy_key_def usable_key_def split: if_splits)
next
  case (Rotate t s)
  obtain i where i: "require_single_match keys s = Inr i" "strip (py_or t g) \<noteq> []"
    "token_taken (strip (py_or t g)) (take i keys @ drop (Suc i) keys) = Inr False" "keys' = keys[i := (keys ! i)\<lparr>ik_token := strip (py_or t g)\<rparr>]"
    using assms(1) by (auto simp: Rotate run_command_def rotate_binding_def rbind_Inr Let_def split: if_splits)
  have len: "i < length keys" by (rule single_match [OF i(1)])
  then have "tidy_key (keys ! i)" using assms(2) by simp
  then have "tidy_key ((keys ! i)\<lparr>ik_token := strip (py_or t g)\<rparr>)" using i(2) by (simp add: tidy_key_def usable_key_def)
  then have "\<forall>x \<in> set keys'. tidy_key x" using assms(2) i(4) set_update_subset_insert [of keys i] by auto
  moreover have "distinct (map ik_token keys')"
  proof -
    have "keys' = take i keys @ (keys ! i)\<lparr>ik_token := strip (py_or t g)\<rparr> # drop (Suc i) keys"
      using len i(4) by (simp add: upd_conv_take_nth_drop)
    then show ?thesis using token_taken_False [OF i(3)] distinct_without [OF len assms(3)] by auto
  qed
  ultimately show ?thesis by blast
next
  case (Revoke s)
  obtain i where i: "i < length keys" "keys' = take i keys @ drop (Suc i) keys"
    using assms(1) single_match by (auto simp: Revoke run_command_def revoke_binding_def rbind_Inr)
  then show ?thesis using assms(2) distinct_without [OF i(1) assms(3)] by (auto dest: in_set_takeD in_set_dropD)
qed
definition json_text :: "pylib \<Rightarrow> (json \<Rightarrow> string) \<Rightarrow> bool" where
  "json_text L W \<longleftrightarrow> (\<forall>keys. loads L (W (keys_json keys)) = Some (keys_json keys))"

definition cli_run :: "(json \<Rightarrow> string) \<Rightarrow> pylib \<Rightarrow> (string \<times> key_command) list \<Rightarrow> string option \<Rightarrow> string option" where
  "cli_run W L cmds file = fold (\<lambda>(g, cmd) f. fst (key_cli W L g cmd f)) cmds file"

lemma cli_refines:
  assumes "json_text L W" "load_key_file L file = Inr keys" "distinct (map ik_token keys)"
  shows "load_key_file L (fst (key_cli W L g cmd file)) = (case run_command g cmd keys of Inl _ \<Rightarrow> Inr keys | Inr (keys', _) \<Rightarrow> Inr keys')"
proof (cases "run_command g cmd keys")
  case (Inl e)
  then show ?thesis using assms(2) by (simp add: key_cli_def)
next
  case (Inr p)
  obtain keys' k where p: "p = (keys', k)" by (cases p)
  have "\<forall>x \<in> set keys'. tidy_key x"
    using run_command_ok [OF Inr [unfolded p] _ assms(3)] loaded_clean [OF assms(2)] by blast
  then show ?thesis using load_saved(1) [of L W keys'] assms(1,2) Inr p by (simp add: key_cli_def json_text_def)
qed

lemma cli_success:
  assumes "json_text L W" "load_key_file L file = Inr keys" "distinct (map ik_token keys)" "key_cli W L g cmd file = (file', Inr k)"
  obtains keys' where "run_command g cmd keys = Inr (keys', k)" "\<forall>x \<in> set keys'. tidy_key x" "distinct (map ik_token keys')"
    "file_bindings L file' = map (\<lambda>x. (ik_token x, bare_binding x)) keys'"
proof -
  obtain keys' where r: "run_command g cmd keys = Inr (keys', k)" and f: "file' = Some (save_key_file W keys')"
    using assms(2,4) by (auto simp: key_cli_def split: sum.splits)
  have "\<forall>x \<in> set keys'. tidy_key x" "distinct (map ik_token keys')"
    using run_command_ok [OF r _ assms(3)] loaded_clean [OF assms(2)] by blast+
  then show thesis using that r load_saved(2) [of L W keys'] assms(1) by (simp add: json_text_def f)
qed

lemma match_none: "ascii t \<Longrightarrow> (\<forall>(u, b) \<in> set bs. ascii u \<and> u \<noteq> t) \<Longrightarrow> match_binding t bs = Inr None"
  by (induction t bs rule: match_binding.induct) (auto simp: compare_digest_def)

lemma match_first:
  "ascii t \<Longrightarrow> t \<noteq> [] \<Longrightarrow> (\<forall>(u, b) \<in> set bs. ascii u) \<Longrightarrow> match_binding t bs = Inr (map_of bs t)"
  by (induction t bs rule: match_binding.induct) (auto simp: compare_digest_def)

lemma map_of_bare: "distinct (map ik_token keys) \<Longrightarrow> k \<in> set keys \<Longrightarrow> map_of (map (\<lambda>x. (ik_token x, bare_binding x)) keys) (ik_token k) = Some (bare_binding k)"
  by (intro map_of_is_SomeI) (auto simp: comp_def)

lemma bearer_header: "strip t = t \<Longrightarrow> bearer_token (''Bearer '' @ t) = t"
  by (simp add: bearer_token_def)

lemma request_with_token:
  assumes "strip t = t" "t \<noteq> []"
  shows "binding_for_request L E (''Bearer '' @ t) = rbind (match_binding t (file_bindings L (ie_file E))) (\<lambda>found.
    if found \<noteq> None then Inr found else match_binding t [(strip (ie_key E), legacy_binding E), (strip (ie_master E), legacy_binding E)])"
  unfolding binding_for_request_def bearer_header [OF assms(1)] Let_def using assms(2) by (simp only: if_False)

lemma cli_run_ok:
  assumes "json_text L W"
  shows "load_key_file L f = Inr ks \<Longrightarrow> distinct (map ik_token ks)
    \<Longrightarrow> \<exists>keys'. load_key_file L (cli_run W L cmds f) = Inr keys' \<and> (\<forall>k \<in> set keys'. tidy_key k) \<and> distinct (map ik_token keys')"
proof (induction cmds arbitrary: f ks)
  case Nil
  then show ?case using loaded_clean by (auto simp: cli_run_def)
next
  case (Cons c cmds)
  obtain g cmd where c: "c = (g, cmd)" by (cases c)
  have "\<exists>zs. load_key_file L (fst (key_cli W L g cmd f)) = Inr zs \<and> distinct (map ik_token zs)"
    using cli_refines [OF assms Cons(2,3), of g cmd] run_command_ok [of g cmd ks] loaded_clean [OF Cons(2)] Cons(3)
    by (auto split: sum.splits)
  then show ?case using Cons(1) by (auto simp: cli_run_def c)
qed

section \<open>Properties\<close>

text \<open>C36. The commands are the operations on the list of entries: from a file whose tokens differ, what the next command reads
  is exactly the list the operation returned, and the old list when the command failed; so through every sequence of grants,
  rotations and revocations the file stays readable, its entries clean and its tokens different.\<close>

theorem key_commands_refine:
  assumes "json_text L W" "load_key_file L file = Inr keys" "distinct (map ik_token keys)"
  shows "load_key_file L (fst (key_cli W L g cmd file)) = (case run_command g cmd keys of Inl _ \<Rightarrow> Inr keys | Inr (keys', _) \<Rightarrow> Inr keys')
    \<and> (\<exists>keys'. load_key_file L (cli_run W L cmds file) = Inr keys' \<and> (\<forall>k \<in> set keys'. tidy_key k) \<and> distinct (map ik_token keys'))"
  using cli_refines [OF assms] cli_run_ok [OF assms(1)] assms(2,3) by blast

text \<open>A revoked key is refused and the others go on: after a successful revocation in a file of ASCII tokens the removed
  entry's bearer token authenticates no request (unless it is also the dedicated or the master key), while every entry that is
  left authenticates as itself, with its owner, profile, agent and name.\<close>

lemma revoked_key_refused:
  assumes "json_text L W" "load_key_file L file = Inr keys" "distinct (map ik_token keys)" "\<forall>k \<in> set keys. ascii (ik_token k)"
    and "key_cli W L g (Revoke s) file = (file', Inr k)" "ie_file E = file'"
    and "ascii (strip (ie_key E))" "ascii (strip (ie_master E))" "ik_token k \<notin> {strip (ie_key E), strip (ie_master E)}"
  shows "binding_for_request L E (''Bearer '' @ ik_token k) = Inr None
    \<and> (\<forall>x \<in> set keys. x \<noteq> k \<longrightarrow> binding_for_request L E (''Bearer '' @ ik_token x) = Inr (Some (bare_binding x)))"
proof -
  obtain keys' where run: "run_command g (Revoke s) keys = Inr (keys', k)"
    and fb: "file_bindings L file' = map (\<lambda>x. (ik_token x, bare_binding x)) keys'" and d': "distinct (map ik_token keys')"
    by (rule cli_success [OF assms(1,2,3,5)])
  obtain i where i: "i < length keys" "keys' = take i keys @ drop (Suc i) keys" "k = keys ! i"
    using run single_match by (auto simp: run_command_def revoke_binding_def rbind_Inr)
  have split: "mset keys = add_mset k (mset keys')" using without_nth [OF i(1)] i by simp
  then have mem: "set keys = insert k (set keys')" by (metis set_mset_add_mset_insert set_mset_mset)
  have "mset (map ik_token keys) = mset (ik_token k # map ik_token keys')" using split by simp
  then have "distinct (ik_token k # map ik_token keys')" using assms(3) mset_eq_imp_distinct_iff by metis
  then have out: "\<forall>x \<in> set keys'. ik_token x \<noteq> ik_token k" by (metis distinct.simps(2) image_eqI list.set_map)
  have ok: "strip (ik_token x) = ik_token x \<and> ik_token x \<noteq> [] \<and> ascii (ik_token x)" if "x \<in> set keys" for x
    using loaded_clean [OF assms(2) that] assms(4) that by (simp add: tidy_key_def usable_key_def)
  have asc: "\<forall>(u, b) \<in> set (file_bindings L file'). ascii u" using assms(4) mem by (auto simp: fb)
  have k: "k \<in> set keys" using mem by simp
  have "match_binding (ik_token k) (file_bindings L file') = Inr None"
    by (rule match_none) (use ok [OF k] asc out in \<open>auto simp: fb\<close>)
  moreover have "match_binding (ik_token k) [(strip (ie_key E), legacy_binding E), (strip (ie_master E), legacy_binding E)] = Inr None"
    by (rule match_none) (use ok [OF k] assms(7,8,9) in auto)
  ultimately have "binding_for_request L E (''Bearer '' @ ik_token k) = Inr None"
    using request_with_token [of "ik_token k" L E] ok [OF k] by (simp add: assms(6) del: match_binding.simps)
  moreover have "binding_for_request L E (''Bearer '' @ ik_token x) = Inr (Some (bare_binding x))" if "x \<in> set keys" "x \<noteq> k" for x
  proof -
    have x: "x \<in> set keys'" using that mem by simp
    have "match_binding (ik_token x) (file_bindings L file') = Inr (Some (bare_binding x))"
      using match_first [OF _ _ asc] ok [OF that(1)] map_of_bare [OF d' x] by (simp add: fb)
    then show ?thesis using request_with_token [of "ik_token x" L E] ok [OF that(1)] by (simp add: assms(6) del: match_binding.simps)
  qed
  ultimately show ?thesis by blast
qed

text \<open>Every command that writes the key file takes the push grants of all its keys away: whichever entry was granted,
  rotated or revoked, after it no key of the file may push to a scene, a skill or a callback host, because the
  allow-lists are no fields the commands keep.\<close>

lemma key_commands_drop_grants:
  assumes "json_text L W" "load_key_file L file = Inr keys" "distinct (map ik_token keys)" "key_cli W L g cmd file = (file', Inr k)"
  shows "\<forall>(t, b) \<in> set (file_bindings L file'). ib_scenes b = [] \<and> ib_skills b = [] \<and> ib_domains b = []"
  by (rule cli_success [OF assms]) (auto simp: bare_binding_def)

text \<open>One token outside of ASCII locks every caller out. The command accepts it as the first key; from then on a request
  that carries any bearer token at all ends in a \<open>TypeError\<close>, the dedicated and the master key included.\<close>

lemma non_ascii_key_locks_out:
  assumes "json_text L W" "\<not> ascii (strip (ik_token arg))" "strip (ik_owner arg) \<noteq> [] \<or> strip (ik_profile arg) \<noteq> []"
    and "key_cli W L g (Grant arg) None = (file', r)" "ie_file E = file'" "bearer_token header \<noteq> []"
  shows "(\<exists>k. r = Inr k \<and> ik_token k = strip (ik_token arg)) \<and> binding_for_request L E header = Inl PyTypeError"
proof -
  have t: "strip (ik_token arg) \<noteq> []" "ik_token arg \<noteq> []" using assms(2) by (auto simp: ascii_def)
  obtain keys' k where run: "run_command g (Grant arg) [] = Inr (keys', k)" and k: "ik_token k = strip (ik_token arg)" "keys' = [k]"
    using t assms(3) by (auto simp: run_command_def add_binding_def Let_def py_or_def)
  then have cli: "key_cli W L g (Grant arg) None = (file', Inr k)"
    using assms(4) by (simp add: key_cli_def load_key_file_def)
  have "file_bindings L file' = [(ik_token k, bare_binding k)]"
    by (rule cli_success [OF assms(1) _ _ cli, of "[]"]) (use run k in \<open>simp_all add: load_key_file_def\<close>)
  then have "binding_for_request L E header = Inl PyTypeError"
    using assms(2,6) t k by (simp add: binding_for_request_def assms(5) compare_digest_def)
  then show ?thesis using cli assms(4) k by simp
qed
section \<open>Witnesses\<close>

text \<open>A library whose texts are numerals of the values they stand for.\<close>

instance pyfloat :: countable by countable_datatype

instance json :: countable by countable_datatype

definition number_text :: "json \<Rightarrow> string" where
  "number_text j = replicate (to_nat j) CHR ''x''"

definition number_lib :: pylib where
  "number_lib = demo_lib\<lparr>loads := \<lambda>s. Some (from_nat (length s)), dumps := \<lambda>_. ''{}''\<rparr>"

lemma number_json_text: "json_text number_lib number_text"
  by (simp add: json_text_def number_lib_def number_text_def)

definition demo_key_a :: ingest_key where
  "demo_key_a = \<lparr>ik_token = ''ta'', ik_owner = ''ou_a'', ik_profile = [], ik_agent = [], ik_name = []\<rparr>"

definition demo_key_b :: ingest_key where
  "demo_key_b = \<lparr>ik_token = ''tb'', ik_owner = ''ou_b'', ik_profile = [], ik_agent = [], ik_name = []\<rparr>"

definition demo_key_file :: string where
  "demo_key_file = save_key_file number_text [demo_key_a, demo_key_b]"

definition demo_selector :: key_selector where
  "demo_selector = \<lparr>ks_index = None, ks_owner = ''ou_a'', ks_profile = [], ks_agent = [], ks_name = []\<rparr>"

lemma demo_keys_clean: "tidy_key demo_key_a" "tidy_key demo_key_b"
  by (simp_all add: tidy_key_def usable_key_def demo_key_a_def demo_key_b_def strip_def is_space_def)

lemma demo_loaded: "load_key_file number_lib (Some demo_key_file) = Inr [demo_key_a, demo_key_b]"
  unfolding demo_key_file_def
  by (rule load_saved(1)) (use number_json_text demo_keys_clean in \<open>auto simp: json_text_def\<close>)

lemma demo_distinct: "distinct (map ik_token [demo_key_a, demo_key_b])"
  by (simp add: demo_key_a_def demo_key_b_def)

lemma demo_revoked: "key_cli number_text number_lib [] (Revoke demo_selector) (Some demo_key_file)
    = (Some (save_key_file number_text [demo_key_b]), Inr demo_key_a)"
proof -
  have "select_indices [demo_key_a, demo_key_b] demo_selector = Inr [0]"
    by (simp add: select_indices_def demo_selector_def Let_def strip_def is_space_def demo_key_a_def demo_key_b_def)
  then show ?thesis by (simp add: key_cli_def demo_loaded run_command_def revoke_binding_def require_single_match_def)
qed

lemma key_commands_refine_witness:
  "load_key_file number_lib (fst (key_cli number_text number_lib [] (Revoke demo_selector) (Some demo_key_file))) = Inr [demo_key_b]"
proof -
  have "run_command [] (Revoke demo_selector) [demo_key_a, demo_key_b] = Inr ([demo_key_b], demo_key_a)"
    using demo_revoked by (simp add: run_command_def revoke_binding_def require_single_match_def select_indices_def demo_selector_def
        Let_def strip_def is_space_def demo_key_a_def demo_key_b_def)
  then show ?thesis
    using key_commands_refine [OF number_json_text demo_loaded demo_distinct, of "[]" "Revoke demo_selector" "[]"] by simp
qed

definition demo_ingest_env :: ingest_env where
  "demo_ingest_env = \<lparr>ie_file = Some (save_key_file number_text [demo_key_b]), ie_key = [], ie_master = ''m'', ie_owner = [], ie_profile = []\<rparr>"

lemma revoked_key_refused_witness:
  "binding_for_request number_lib demo_ingest_env ''Bearer ta'' = Inr None
    \<and> binding_for_request number_lib demo_ingest_env ''Bearer tb'' = Inr (Some (bare_binding demo_key_b))"
proof -
  have "\<forall>k \<in> set [demo_key_a, demo_key_b]. ascii (ik_token k)" by (simp add: ascii_def demo_key_a_def demo_key_b_def)
  from revoked_key_refused [OF number_json_text demo_loaded demo_distinct this demo_revoked, of demo_ingest_env]
  show ?thesis by (simp add: demo_ingest_env_def ascii_def demo_key_a_def demo_key_b_def strip_def is_space_def)
qed

lemma key_commands_drop_grants_witness:
  "\<exists>t b. file_bindings number_lib (Some (save_key_file number_text [demo_key_b])) = [(t, b)] \<and> ib_skills b = []"
proof -
  have "file_bindings number_lib (Some (save_key_file number_text [demo_key_b])) = [(ik_token demo_key_b, bare_binding demo_key_b)]"
    using load_saved(2) [of number_lib number_text "[demo_key_b]"] number_json_text demo_keys_clean by (simp add: json_text_def)
  then show ?thesis
    using key_commands_drop_grants [OF number_json_text demo_loaded demo_distinct demo_revoked] by auto
qed

definition demo_umlaut_key :: ingest_key where
  "demo_umlaut_key = demo_key_a\<lparr>ik_token := [CHR 0xC3, CHR 0xA4]\<rparr>"

lemma non_ascii_key_locks_out_witness:
  "binding_for_request number_lib (demo_ingest_env\<lparr>ie_file := fst (key_cli number_text number_lib [] (Grant demo_umlaut_key) None)\<rparr>) ''Bearer m''
    = Inl PyTypeError"
proof -
  let ?r = "key_cli number_text number_lib [] (Grant demo_umlaut_key) None"
  have "?r = (fst ?r, snd ?r)" by simp
  from non_ascii_key_locks_out [OF number_json_text _ _ this, of "demo_ingest_env\<lparr>ie_file := fst ?r\<rparr>" "''Bearer m''"]
  show ?thesis by (simp add: ascii_def demo_umlaut_key_def demo_key_a_def strip_def is_space_def bearer_token_def)
qed

end
