(* ===== verification/Push_Routes.thy ===== *)
theory Push_Routes
  imports Routing_Table Push_Registry Push_Fill_Form Ingest_Keys
begin

text \<open>
  The push endpoints of the run broker (\<open>src/hermes_multitenancy/push_card_routes.py\<close>, \<open>push_message_routes.py\<close>,
  \<open>push_env_map.py\<close>): a caller is authenticated by its ingest key, the request is checked step by step, and a row is
  created or a message sent. The clock, the local calendar and the random values are arguments, and so are the two seams of
  the message endpoint, the bot credentials and the send.
\<close>

section \<open>Helpers\<close>

definition MAX_EXPIRES_AHEAD_S :: int where "MAX_EXPIRES_AHEAD_S = 30 * 24 * 3600"

record push_target =
  tg_open_id :: string
  tg_union_id :: string
  tg_profile_name :: string
  tg_chat_id :: "string option"

definition target_resolver :: "routes \<Rightarrow> string \<Rightarrow> string \<Rightarrow> string \<Rightarrow> push_target option" where
  "target_resolver t open_id union_id user_id =
     (let row = (if open_id \<noteq> [] then lookup_by_open_id t open_id else None);
          row = (if row = None \<and> union_id \<noteq> [] then lookup_by_union_id t union_id else row);
          row = (if row = None \<and> user_id \<noteq> [] then lookup_by_user_id t user_id else row)
      in map_option (\<lambda>r. \<lparr>tg_open_id = py_or (str_or_empty (r_open_id r)) open_id, tg_union_id = py_or (str_or_empty (r_union_id r)) union_id,
           tg_profile_name = r_profile_name r, tg_chat_id = r_chat_id r\<rparr>) row)"

text \<open>The next day from Monday to Friday, as a number of days from today; \<open>w\<close> is today's weekday, Monday being 0.\<close>

function next_working_day :: "nat \<Rightarrow> nat \<Rightarrow> nat" where
  "next_working_day w d = (if (w + d) mod 7 \<ge> 5 then next_working_day w (Suc d) else d)"
  by pat_completeness auto
termination
  by (relation "measure (\<lambda>(w, d). if (w + d) mod 7 \<ge> 5 then 7 - (w + d) mod 7 else 0)") (auto simp: mod_Suc)

declare next_working_day.simps [simp del]

text \<open>The local calendar: today's weekday, today's date as text, the time stamp of 23:59:59 a number of days ahead.\<close>

record calendar =
  ca_weekday :: nat
  ca_today :: string
  ca_eod :: "nat \<Rightarrow> int"

definition next_working_day_eod :: "calendar \<Rightarrow> int" where
  "next_working_day_eod c = ca_eod c (next_working_day (ca_weekday c) 1)"

definition default_business_key :: "calendar \<Rightarrow> string \<Rightarrow> string \<Rightarrow> string" where
  "default_business_key c scene open_id = scene @ '':'' @ open_id @ '':'' @ ca_today c"

definition endswith :: "string \<Rightarrow> string \<Rightarrow> bool" where
  "endswith s e = startswith (rev s) (rev e)"

definition callback_host :: "pylib \<Rightarrow> string \<Rightarrow> string" where
  "callback_host L url = (case urlparse L url of None \<Rightarrow> [] | Some (_, host) \<Rightarrow> lower host)"

definition domain_covers :: "string \<Rightarrow> string \<Rightarrow> bool" where
  "domain_covers raw host \<longleftrightarrow>
     (let d = dropWhile (\<lambda>c. c = CHR ''.'') (lower (strip raw)) in d \<noteq> [] \<and> (host = d \<or> endswith host (CHR ''.'' # d)))"

text \<open>None: the callback is allowed.\<close>

definition callback_domain_error :: "pylib \<Rightarrow> ingest_binding \<Rightarrow> callback_config option \<Rightarrow> string option" where
  "callback_domain_error L b callback =
     (case callback of
        None \<Rightarrow> None
      | Some cb \<Rightarrow>
          if ib_domains b = [] then Some ''per-push callback requires a callback-domain allowlist on this key''
          else if callback_host L (cb_url cb) = [] then Some ''callback url has no host''
          else if list_ex (\<lambda>raw. domain_covers raw (callback_host L (cb_url cb))) (ib_domains b) then None
          else Some (''callback domain not authorized for this key: '' @ callback_host L (cb_url cb)))"

definition binding_allows_row :: "ingest_binding \<Rightarrow> push_row \<Rightarrow> bool" where
  "binding_allows_row b r \<longleftrightarrow>
     (if str_or_empty (p_scene_spec_json r) \<noteq> [] then p_skill r \<in> set (ib_skills b) else p_scene r \<in> set (ib_scenes b))"

record public_push_row =
  pp_registry_id :: string
  pp_scene :: string
  pp_status :: push_status
  pp_target_open_id :: string
  pp_message_id :: "string option"
  pp_business_key :: string
  pp_idempotency_key :: "string option"
  pp_expires_at :: "int option"
  pp_last_error :: "string option"
  pp_created_at :: int
  pp_updated_at :: int

definition public_push_row :: "push_row \<Rightarrow> public_push_row" where
  "public_push_row r = \<lparr>pp_registry_id = p_registry_id r, pp_scene = p_scene r, pp_status = p_status r,
     pp_target_open_id = p_target_open_id r, pp_message_id = p_message_id r, pp_business_key = p_business_key r,
     pp_idempotency_key = p_idempotency_key r, pp_expires_at = p_expires_at r, pp_last_error = p_last_error r,
     pp_created_at = p_created_at r, pp_updated_at = p_updated_at r\<rparr>"

section \<open>The card endpoint\<close>

text \<open>The replies; a crash is an exception nothing catches (status 500).\<close>

datatype notify_reply =
    NotifyError nat string
  | NotifyDuplicate string push_status
  | NotifyBusy string push_status
  | NotifyAccepted string
  | NotifyCrash py_error

text \<open>The scene of a request: described inline when a skill is given, else named. The error is a reply.\<close>

definition is_inline :: "pylib \<Rightarrow> (string \<times> json) list \<Rightarrow> bool" where
  "is_inline L d \<longleftrightarrow> strip (str_get_or L d ''skill'' []) \<noteq> []"

definition request_scene :: "pylib \<Rightarrow> ingest_binding \<Rightarrow> (string \<times> json) list \<Rightarrow> notify_reply + string \<times> scene_def" where
  "request_scene L b d =
     (if is_inline L d
      then (case scene_from_payload L (JObj d) of
              Inl (ValueError m) \<Rightarrow> Inl (NotifyError 400 (''invalid scene spec: '' @ m))
            | Inl e \<Rightarrow> Inl (NotifyCrash e)
            | Inr s \<Rightarrow> if sd_skill s \<notin> set (ib_skills b)
                       then Inl (NotifyError 403 (''skill not authorized for this key: '' @ sd_skill s)) else Inr (sd_scene s, s))
      else (let scene = strip (str_get_or L d ''scene'' [])
            in if scene = [] then Inl (NotifyError 400 ''scene (or inline skill) is required'')
               else (case get_scene scene of
                       None \<Rightarrow> Inl (NotifyError 400 (''unknown scene: '' @ scene))
                     | Some s \<Rightarrow> if scene \<notin> set (ib_scenes b)
                                then Inl (NotifyError 403 (''scene not authorized for this key: '' @ scene)) else Inr (scene, s))))"

definition request_target :: "pylib \<Rightarrow> routes \<Rightarrow> (string \<times> json) list \<Rightarrow> notify_reply + push_target" where
  "request_target L t d =
     (let open_id = strip (str_get_or L d ''open_id'' []); union_id = strip (str_get_or L d ''union_id'' []);
          user_id = strip (str_get_or L d ''user_id'' [])
      in if open_id = [] \<and> union_id = [] \<and> user_id = [] then Inl (NotifyError 400 ''one of open_id / union_id / user_id is required'')
         else (case target_resolver t open_id union_id user_id of
                 None \<Rightarrow> Inl (NotifyError 404 ''target not registered'')
               | Some target \<Rightarrow> if strip (tg_profile_name target) = [] then Inl (NotifyError 404 ''target has no sending profile'')
                               else Inr (target\<lparr>tg_profile_name := strip (tg_profile_name target)\<rparr>)))"

definition request_expiry :: "int \<Rightarrow> calendar \<Rightarrow> (string \<times> json) list \<Rightarrow> notify_reply + int" where
  "request_expiry now c d =
     (case jget d ''expires_at'' of
        JNull \<Rightarrow> Inr (next_working_day_eod c)
      | JInt e \<Rightarrow> if now < e \<and> e \<le> now + MAX_EXPIRES_AHEAD_S then Inr e
                  else Inl (NotifyError 400 ''expires_at must be in the future and within 30 days'')
      | _ \<Rightarrow> Inl (NotifyError 400 ''expires_at must be an integer unix timestamp''))"

definition request_callback :: "pylib \<Rightarrow> ingest_binding \<Rightarrow> (string \<times> json) list \<Rightarrow> notify_reply + callback_config option" where
  "request_callback L b d =
     (case callback_from_payload L True (jget d ''callback'') of
        Inl (ValueError m) \<Rightarrow> Inl (NotifyError 400 (''invalid callback: '' @ m))
      | Inl e \<Rightarrow> Inl (NotifyCrash e)
      | Inr cb \<Rightarrow> (case callback_domain_error L b cb of Some m \<Rightarrow> Inl (NotifyError 403 m) | None \<Rightarrow> Inr cb))"

definition request_behaviors :: "(string \<times> json) list \<Rightarrow> notify_reply + submit_behaviors option" where
  "request_behaviors d =
     (case behaviors_from_payload True (jget d ''behaviors'') of
        Inl (ValueError m) \<Rightarrow> Inl (NotifyError 400 (''invalid behaviors: '' @ m))
      | Inl e \<Rightarrow> Inl (NotifyCrash e)
      | Inr bs \<Rightarrow> Inr bs)"

definition request_card :: "scene_def \<Rightarrow> (string \<times> json) list \<Rightarrow> json" where
  "request_card s d = (case jget d ''card'' of JObj c \<Rightarrow> JObj c | _ \<Rightarrow> default_scene_card s)"

definition request_payload :: "(string \<times> json) list \<Rightarrow> notify_reply + json" where
  "request_payload d = (case jget d ''payload'' of JNull \<Rightarrow> Inr JNull | JObj p \<Rightarrow> Inr (JObj p)
     | _ \<Rightarrow> Inl (NotifyError 400 ''payload must be an object''))"

text \<open>Sequencing of the checks: the first reply ends the request.\<close>

definition nbind :: "notify_reply + 'a \<Rightarrow> ('a \<Rightarrow> notify_reply + 'b) \<Rightarrow> notify_reply + 'b" where
  "nbind r f = (case r of Inl e \<Rightarrow> Inl e | Inr x \<Rightarrow> f x)"

lemma nbind_Inr: "nbind r f = Inr y \<longleftrightarrow> (\<exists>x. r = Inr x \<and> f x = Inr y)"
  by (cases r) (simp_all add: nbind_def)

text \<open>The row a request asks the store for.\<close>

definition request_row :: "pylib \<Rightarrow> routes \<Rightarrow> calendar \<Rightarrow> int \<Rightarrow> ingest_binding \<Rightarrow> (string \<times> json) list \<Rightarrow> notify_reply + push_row" where
  "request_row L t c now b d =
     nbind (request_scene L b d) (\<lambda>(scene, s). nbind (request_target L t d) (\<lambda>target. nbind (request_payload d) (\<lambda>payload.
     nbind (request_expiry now c d) (\<lambda>expires. nbind (request_callback L b d) (\<lambda>callback. nbind (request_behaviors d) (\<lambda>behaviors.
     nbind (if is_inline L d then (case scene_to_spec_json L s of None \<Rightarrow> Inl (NotifyCrash (ValueError ''JSONDecodeError'')) | Some j \<Rightarrow> Inr (Some j))
            else Inr None) (\<lambda>spec.
       Inr \<lparr>p_registry_id = [], p_scene = scene, p_skill = sd_skill s, p_target_open_id = tg_open_id target,
            p_target_union_id = or_none (tg_union_id target), p_profile_name = tg_profile_name target, p_chat_id = tg_chat_id target,
            p_message_id = None, p_payload_json = (if payload = JNull then None else Some (dumps L payload)),
            p_card_json = Some (dumps L (request_card s d)), p_submission_json = None,
            p_callback_json = map_option (callback_to_json L) callback, p_behaviors_json = map_option (behaviors_to_json L) behaviors,
            p_scene_spec_json = spec, p_status = Sending,
            p_business_key = py_or (strip (str_get_or L d ''business_key'' [])) (default_business_key c scene (tg_open_id target)),
            p_idempotency_key = or_none (strip (str_get_or L d ''idempotency_key'' [])), p_nonce = None, p_send_attempts = 0,
            p_write_attempts = 0, p_last_error = None, p_expires_at = Some expires, p_created_at = 0, p_updated_at = 0\<rparr>)))))))"

text \<open>What a request finds on its way in: its binding, and its body as an object.\<close>

definition request_binding :: "pylib \<Rightarrow> ingest_env \<Rightarrow> string \<Rightarrow> notify_reply + ingest_binding" where
  "request_binding L E header =
     (case binding_for_request L E header of
        Inl e \<Rightarrow> Inl (NotifyCrash e)
      | Inr None \<Rightarrow> Inl (NotifyError 401 ''unauthorized'')
      | Inr (Some b) \<Rightarrow> Inr b)"

definition request_body :: "json option \<Rightarrow> notify_reply + (string \<times> json) list" where
  "request_body body =
     (case body of
        None \<Rightarrow> Inl (NotifyError 400 ''invalid json'')
      | Some (JObj d) \<Rightarrow> Inr d
      | Some _ \<Rightarrow> Inl (NotifyError 400 ''body must be a JSON object''))"

text \<open>\<open>handle_notify_card\<close>; an accepted row is handed to the send queue.\<close>

definition notify_card :: "pylib \<Rightarrow> ingest_env \<Rightarrow> routes \<Rightarrow> calendar \<Rightarrow> int \<Rightarrow> string \<Rightarrow> string \<Rightarrow> push_db \<Rightarrow> string \<Rightarrow> json option
    \<Rightarrow> push_db \<times> notify_reply" where
  "notify_card L E t c now rid nonce db header body =
     (case nbind (request_binding L E header) (\<lambda>b. nbind (request_body body) (request_row L t c now b)) of
        Inl reply \<Rightarrow> (db, reply)
      | Inr args \<Rightarrow>
          (case create now rid nonce db args of
             Inl e \<Rightarrow> (db, NotifyCrash e)
           | Inr (db', res) \<Rightarrow>
               (case cr_conflict res of
                  Some Idempotent \<Rightarrow> (db', NotifyDuplicate (p_registry_id (cr_row res)) (p_status (cr_row res)))
                | Some Business_Key \<Rightarrow> (db', NotifyBusy (p_registry_id (cr_row res)) (p_status (cr_row res)))
                | None \<Rightarrow> (db', NotifyAccepted (p_registry_id (cr_row res))))))"

definition notify_card_status :: "pylib \<Rightarrow> ingest_env \<Rightarrow> push_db \<Rightarrow> string \<Rightarrow> string \<Rightarrow> notify_reply + public_push_row" where
  "notify_card_status L E db header rid =
     nbind (request_binding L E header) (\<lambda>b.
       case push_get db (strip rid) of
         None \<Rightarrow> Inl (NotifyError 404 ''not found'')
       | Some r \<Rightarrow> if binding_allows_row b r then Inr (public_push_row r) else Inl (NotifyError 404 ''not found''))"

section \<open>The message endpoint\<close>

text \<open>\<open>push_env_map\<close>: the environment a message was sent for.\<close>

record env_row =
  em_message_id :: string
  em_env :: string
  em_key_owner :: string
  em_ts :: int

definition env_record :: "int \<Rightarrow> env_row list \<Rightarrow> string \<Rightarrow> string \<Rightarrow> string \<Rightarrow> env_row list" where
  "env_record now t message_id env key_owner =
     (let mid = strip message_id
      in if mid = [] then t
         else sql_upsert (\<lambda>r. em_message_id r = mid) \<lparr>em_message_id = mid, em_env = env, em_key_owner = key_owner, em_ts = now\<rparr>
                (\<lambda>r. r\<lparr>em_env := env, em_key_owner := key_owner, em_ts := now\<rparr>) t)"

definition env_get :: "env_row list \<Rightarrow> string \<Rightarrow> env_row option" where
  "env_get t message_id = (if strip message_id = [] then None else tbl_get em_message_id t (strip message_id))"

definition MAX_CONTENT_BYTES :: nat where "MAX_CONTENT_BYTES = 30 * 1024"

definition VALID_MSG_TYPES :: "string list" where "VALID_MSG_TYPES = [''text'', ''post'', ''interactive'']"

definition VALID_RECEIVE_ID_TYPES :: "string list" where "VALID_RECEIVE_ID_TYPES = [''user_id'', ''open_id'', ''chat_id'']"

definition VALID_ENVS :: "string list" where "VALID_ENVS = [''pre'', ''online'']"

record message_send =
  ms_client_id :: string
  ms_client_secret :: string
  ms_receive_id_type :: string
  ms_receive_id :: string
  ms_msg_type :: string
  ms_content :: string
  ms_uuid :: "string option"

datatype bot_credentials = Bot string string | Bot_Not_Registered | Bot_Unavailable string

datatype send_outcome = Sent string | Send_Timeout | Feishu_Error int string | Send_Failed

datatype push_reply =
    PushError nat string
  | PushTimeout
  | PushFeishu int string
  | PushSent string string
  | PushCrash py_error

definition is_text :: "json \<Rightarrow> bool" where
  "is_text j = (case j of JStr _ \<Rightarrow> True | _ \<Rightarrow> False)"

text \<open>A list of names as an error message shows it.\<close>

fun name_list :: "string list \<Rightarrow> string" where
  "name_list [] = []"
| "name_list [x] = [CHR 0x27] @ x @ [CHR 0x27]"
| "name_list (x # xs) = [CHR 0x27] @ x @ [CHR 0x27] @ '', '' @ name_list xs"

text \<open>The checks of the body, and the message they lead to; the credentials come from the seam \<open>bots\<close>.\<close>

definition message_request :: "pylib \<Rightarrow> (string \<Rightarrow> bot_credentials) \<Rightarrow> (string \<times> json) list \<Rightarrow> push_reply + message_send \<times> string" where
  "message_request L bots d =
     (let target = strip (str_get_or L d ''target'' []); msg_type = strip (str_get_or L d ''msg_type'' []);
          rid = strip (str_get_or L d ''receive_id_type'' []); env = strip (str_get_or L d ''env'' ''pre'');
          app_id = strip (str_get_or L d ''app_id'' [])
      in if target = [] then Inl (PushError 400 ''target is required'')
         else if msg_type \<notin> set VALID_MSG_TYPES then Inl (PushError 400 (''msg_type must be one of ['' @ name_list VALID_MSG_TYPES @ '']''))
         else (case jget d ''content'' of
           JObj content \<Rightarrow>
             if msg_type = ''text'' \<and> \<not> is_text (jget content ''text'') then Inl (PushError 400 ''text content must be {\"text\": \"<string>\"}'')
             else if rid \<noteq> [] \<and> rid \<notin> set VALID_RECEIVE_ID_TYPES then Inl (PushError 400 (''receive_id_type must be one of ['' @ name_list VALID_RECEIVE_ID_TYPES @ '']''))
             else if env \<notin> set VALID_ENVS then Inl (PushError 400 (''env must be one of ['' @ name_list VALID_ENVS @ '']''))
             else if length (dumps L (JObj content)) > MAX_CONTENT_BYTES then Inl (PushError 400 ''content exceeds 30720 bytes'')
             else (case bots app_id of
               Bot_Not_Registered \<Rightarrow> Inl (PushError 400 (''app_id not registered: '' @ app_id))
             | Bot_Unavailable m \<Rightarrow> Inl (PushError 503 (''bot credentials unavailable: '' @ m))
             | Bot cid secret \<Rightarrow>
                 Inr (\<lparr>ms_client_id = cid, ms_client_secret = secret,
                       ms_receive_id_type = (if rid \<noteq> [] then rid else if startswith target ''oc_'' then ''chat_id'' else ''user_id''),
                       ms_receive_id = target, ms_msg_type = msg_type, ms_content = dumps L (JObj content),
                       ms_uuid = or_none (strip (str_get_or L d ''uuid'' []))\<rparr>, env))
         | _ \<Rightarrow> Inl (PushError 400 ''content must be a JSON object'')))"

text \<open>\<open>handle_push\<close>: the message sent, if any, comes first; \<open>send\<close> is the seam that sends, within the time limit.\<close>

definition handle_push :: "pylib \<Rightarrow> ingest_env \<Rightarrow> int \<Rightarrow> (string \<Rightarrow> bot_credentials) \<Rightarrow> (message_send \<Rightarrow> send_outcome) \<Rightarrow> env_row list
    \<Rightarrow> string \<Rightarrow> json option \<Rightarrow> message_send option \<times> env_row list \<times> push_reply" where
  "handle_push L E now bots send t header body =
     (case binding_for_request L E header of
        Inl e \<Rightarrow> (None, t, PushCrash e)
      | Inr None \<Rightarrow> (None, t, PushError 401 ''unauthorized'')
      | Inr (Some b) \<Rightarrow>
          (case body of
             None \<Rightarrow> (None, t, PushError 400 ''invalid json'')
           | Some (JObj d) \<Rightarrow>
               (case message_request L bots d of
                  Inl reply \<Rightarrow> (None, t, reply)
                | Inr (m, env) \<Rightarrow>
                    (Some m,
                     (case send m of
                        Sent mid \<Rightarrow> (env_record now t mid env (py_or (py_or (ib_owner b) (ib_name b)) (ib_profile b)), PushSent mid env)
                      | Send_Timeout \<Rightarrow> (t, PushTimeout)
                      | Feishu_Error code msg \<Rightarrow> (t, PushFeishu code msg)
                      | Send_Failed \<Rightarrow> (t, PushError 502 ''feishu send failed''))))
           | Some _ \<Rightarrow> (None, t, PushError 400 ''body must be a JSON object'')))"
section \<open>Authorised pushes\<close>

lemma match_binding_mem: "match_binding t bs = Inr (Some b) \<Longrightarrow> (t, b) \<in> set bs"
  by (induction t bs rule: match_binding.induct) (auto simp: rbind_Inr compare_digest_def split: if_splits)

lemma binding_cases:
  assumes "binding_for_request L E header = Inr (Some b)"
  shows "(bearer_token header, b) \<in> set (file_bindings L (ie_file E)) \<or> b = legacy_binding E"
proof -
  let ?t = "bearer_token header"
  obtain found where f: "match_binding ?t (file_bindings L (ie_file E)) = Inr found"
    "(if found \<noteq> None then Inr found else match_binding ?t [(strip (ie_key E), legacy_binding E), (strip (ie_master E), legacy_binding E)]) = Inr (Some b)"
    using assms by (auto simp: binding_for_request_def Let_def rbind_Inr simp del: match_binding.simps split: if_splits)
  show ?thesis
  proof (cases found)
    case None
    then have "match_binding ?t [(strip (ie_key E), legacy_binding E), (strip (ie_master E), legacy_binding E)] = Inr (Some b)"
      using f(2) by (simp del: match_binding.simps)
    from match_binding_mem [OF this] show ?thesis by auto
  next
    case (Some b')
    then show ?thesis using f match_binding_mem by auto
  qed
qed

lemma legacy_grants [simp]: "ib_scenes (legacy_binding E) = []" "ib_skills (legacy_binding E) = []" "ib_domains (legacy_binding E) = []"
  by (simp_all add: legacy_binding_def)

text \<open>What an accepted request has passed.\<close>

lemma request_row_parts:
  assumes "request_row L t c now b d = Inr args"
  obtains scene s target expires callback spec where "request_scene L b d = Inr (scene, s)" "request_target L t d = Inr target"
    "request_expiry now c d = Inr expires" "request_callback L b d = Inr callback"
    "(if is_inline L d then spec = scene_to_spec_json L s \<and> spec \<noteq> None else spec = None)"
    "p_scene args = scene" "p_skill args = sd_skill s" "p_target_open_id args = tg_open_id target"
    "p_profile_name args = tg_profile_name target" "p_callback_json args = map_option (callback_to_json L) callback"
    "p_scene_spec_json args = spec" "p_expires_at args = Some expires"
    "p_idempotency_key args = or_none (strip (str_get_or L d ''idempotency_key'' []))"
proof -
  obtain scene s target expires callback spec where parts: "request_scene L b d = Inr (scene, s)" "request_target L t d = Inr target"
    "request_expiry now c d = Inr expires" "request_callback L b d = Inr callback"
    "(if is_inline L d then (case scene_to_spec_json L s of None \<Rightarrow> Inl (NotifyCrash (ValueError ''JSONDecodeError'')) | Some j \<Rightarrow> Inr (Some j))
            else Inr None) = Inr spec"
    and args: "p_scene args = scene" "p_skill args = sd_skill s" "p_target_open_id args = tg_open_id target"
    "p_profile_name args = tg_profile_name target" "p_callback_json args = map_option (callback_to_json L) callback"
    "p_scene_spec_json args = spec" "p_expires_at args = Some expires"
    "p_idempotency_key args = or_none (strip (str_get_or L d ''idempotency_key'' []))"
    using assms unfolding request_row_def nbind_Inr by (auto simp: nbind_Inr)
  show thesis by (rule that [OF parts(1-4) _ args]) (use parts(5) in \<open>cases "scene_to_spec_json L s"; cases spec; simp split: if_splits\<close>)
qed

lemma request_scene_ok:
  "request_scene L b d = Inr (scene, s) \<Longrightarrow> (if is_inline L d then sd_skill s \<in> set (ib_skills b) else scene \<in> set (ib_scenes b))"
  by (auto simp: request_scene_def Let_def split: if_splits sum.splits option.splits py_error.splits)

lemma spec_json_ne: "\<forall>j. dumps L j \<noteq> [] \<Longrightarrow> scene_to_spec_json L s = Some j \<Longrightarrow> j \<noteq> []"
  by (auto simp: scene_to_spec_json_def split: option.splits)

lemma resolved_row:
  assumes "target_resolver t oid uid usr = Some target"
  shows "\<exists>r \<in> set t. r_active r \<and> tg_profile_name target = r_profile_name r \<and> tg_open_id target = py_or (str_or_empty (r_open_id r)) oid"
proof -
  define r1 where "r1 = (if oid \<noteq> [] then lookup_by_open_id t oid else None)"
  define r2 where "r2 = (if r1 = None \<and> uid \<noteq> [] then lookup_by_union_id t uid else r1)"
  define r3 where "r3 = (if r2 = None \<and> usr \<noteq> [] then lookup_by_user_id t usr else r2)"
  obtain r where r: "r3 = Some r" and target: "tg_profile_name target = r_profile_name r" "tg_open_id target = py_or (str_or_empty (r_open_id r)) oid"
    using assms unfolding target_resolver_def Let_def r1_def [symmetric] r2_def [symmetric] r3_def [symmetric] by auto
  have "r1 = Some r \<Longrightarrow> r \<in> set t \<and> r_active r"
    using fetch_unique_mem by (fastforce simp: r1_def lookup_by_open_id_def split: if_splits)
  then have "r2 = Some r \<Longrightarrow> r \<in> set t \<and> r_active r"
    using fetch_unique_mem by (fastforce simp: r2_def lookup_by_union_id_def split: if_splits)
  then have "r \<in> set t \<and> r_active r"
    using r fetchone_Some_mem by (fastforce simp: r3_def lookup_by_user_id_def split: if_splits)
  then show ?thesis using target by blast
qed

lemma request_target_ok:
  assumes "request_target L t d = Inr target"
  shows "tg_profile_name target \<noteq> [] \<and> (\<exists>r \<in> set t. r_active r \<and> tg_profile_name target = strip (r_profile_name r)
    \<and> tg_open_id target = py_or (str_or_empty (r_open_id r)) (strip (str_get_or L d ''open_id'' [])))"
  using assms resolved_row by (fastforce simp: request_target_def Let_def split: if_splits option.splits)

lemma next_working_day_spec:
  "(w + next_working_day w d) mod 7 < 5 \<and> d \<le> next_working_day w d \<and> (\<forall>k. d \<le> k \<and> k < next_working_day w d \<longrightarrow> (w + k) mod 7 \<ge> 5)"
proof (induction w d rule: next_working_day.induct)
  case (1 w d)
  show ?case
  proof (cases "(w + d) mod 7 \<ge> 5")
    case True
    then have "next_working_day w d = next_working_day w (Suc d)" by (subst next_working_day.simps) simp
    then show ?thesis using 1 [OF True] True by (metis Suc_leD Suc_leI le_neq_implies_less)
  next
    case False
    then have "next_working_day w d = d" by (subst next_working_day.simps) simp
    then show ?thesis using False by simp
  qed
qed

lemma callback_allowed:
  assumes "request_callback L b d = Inr (Some cb)"
  shows "secure_url L (cb_url cb) \<and> callback_host L (cb_url cb) \<noteq> [] \<and> (\<exists>dom \<in> set (ib_domains b). domain_covers dom (callback_host L (cb_url cb)))"
proof -
  have p: "callback_from_payload L True (jget d ''callback'') = Inr (Some cb)" and v: "callback_domain_error L b (Some cb) = None"
    using assms by (auto simp: request_callback_def split: sum.splits option.splits py_error.splits)
  have "secure_url L (cb_url cb)" using p by (auto simp: callback_from_payload_def Let_def split: json.splits if_splits sum.splits)
  then show ?thesis using v by (auto simp: callback_domain_error_def list_ex_iff split: if_splits)
qed

lemma nbind_Inl: "nbind r f = Inl e \<longleftrightarrow> r = Inl e \<or> (\<exists>x. r = Inr x \<and> f x = Inl e)"
  by (cases r) (simp_all add: nbind_def)

lemma checks_refuse:
  "request_binding L E header \<noteq> Inl (NotifyAccepted x)" "request_body body \<noteq> Inl (NotifyAccepted x)"
  "request_scene L b d \<noteq> Inl (NotifyAccepted x)" "request_target L t d \<noteq> Inl (NotifyAccepted x)"
  "request_payload d \<noteq> Inl (NotifyAccepted x)" "request_expiry now c d \<noteq> Inl (NotifyAccepted x)"
  "request_callback L b d \<noteq> Inl (NotifyAccepted x)" "request_behaviors d \<noteq> Inl (NotifyAccepted x)"
  by (simp_all add: request_binding_def request_body_def request_scene_def request_target_def request_payload_def request_expiry_def
      request_callback_def request_behaviors_def Let_def split: sum.splits option.splits json.splits py_error.splits)

lemma request_row_refuses: "request_row L t c now b d \<noteq> Inl (NotifyAccepted x)"
  by (auto simp: request_row_def nbind_Inl checks_refuse split: if_splits option.splits)

lemma notify_cases:
  assumes "notify_card L E t c now rid nonce db header body = (db', reply)"
  obtains (refused) "db' = db" "\<And>x. reply \<noteq> NotifyAccepted x"
  | (accepted) b d args where "binding_for_request L E header = Inr (Some b)" "body = Some (JObj d)" "request_row L t c now b d = Inr args"
      "reply = NotifyAccepted rid" "pd_archive db' = pd_archive db"
      "pd_rows db' = pd_rows db @ [args\<lparr>p_registry_id := rid, p_message_id := None, p_submission_json := None, p_status := Sending,
         p_nonce := Some (py_or (str_or_empty (p_nonce args)) nonce), p_send_attempts := 0, p_write_attempts := 0,
         p_last_error := None, p_created_at := now, p_updated_at := now\<rparr>]"
proof (cases "nbind (request_binding L E header) (\<lambda>b. nbind (request_body body) (request_row L t c now b))")
  case (Inl e)
  then have "e \<noteq> NotifyAccepted x" for x
    using checks_refuse request_row_refuses by (auto simp: nbind_Inl)
  then show thesis using refused assms Inl by (auto simp: notify_card_def)
next
  case (Inr args)
  obtain b d where bd: "binding_for_request L E header = Inr (Some b)" "body = Some (JObj d)" "request_row L t c now b d = Inr args"
    using Inr by (auto simp: nbind_Inr request_binding_def request_body_def split: sum.splits option.splits json.splits)
  show thesis
  proof (cases "create now rid nonce db args")
    case (Inl e)
    then show thesis using refused assms Inr by (auto simp: notify_card_def)
  next
    case (Inr p)
    show thesis
    proof (cases "cr_conflict (snd p)")
      case None
      then show thesis using accepted [OF bd] assms Inr \<open>nbind _ _ = Inr args\<close>
        by (cases p) (auto simp: notify_card_def create_def Let_def split: if_splits)
    next
      case (Some x)
      then show thesis using refused assms Inr \<open>nbind _ _ = Inr args\<close>
        by (cases p; cases x) (auto simp: notify_card_def create_def Let_def split: if_splits)
    qed
  qed
qed
text \<open>A row a caller with binding \<open>b\<close> may have created at \<open>now\<close> for the body \<open>d\<close>.\<close>

definition callback_vetted :: "pylib \<Rightarrow> ingest_binding \<Rightarrow> push_row \<Rightarrow> bool" where
  "callback_vetted L b r \<longleftrightarrow> (\<forall>j. p_callback_json r = Some j \<longrightarrow> (\<exists>cb. j = callback_to_json L cb \<and> secure_url L (cb_url cb)
     \<and> callback_host L (cb_url cb) \<noteq> [] \<and> (\<exists>dom \<in> set (ib_domains b). domain_covers dom (callback_host L (cb_url cb)))))"

definition target_known :: "routes \<Rightarrow> push_row \<Rightarrow> bool" where
  "target_known t r \<longleftrightarrow> p_profile_name r \<noteq> [] \<and> (\<exists>q \<in> set t. r_active q \<and> p_profile_name r = strip (r_profile_name q)
     \<and> (str_or_empty (r_open_id q) \<noteq> [] \<longrightarrow> p_target_open_id r = str_or_empty (r_open_id q)))"

definition expiry_bounded :: "int \<Rightarrow> calendar \<Rightarrow> push_row \<Rightarrow> bool" where
  "expiry_bounded now c r \<longleftrightarrow> (\<exists>e. p_expires_at r = Some e \<and> (now < e \<and> e \<le> now + 30 * 24 * 3600
     \<or> (\<exists>k. 1 \<le> k \<and> (ca_weekday c + k) mod 7 < 5 \<and> (\<forall>m. 1 \<le> m \<and> m < k \<longrightarrow> (ca_weekday c + m) mod 7 \<ge> 5) \<and> e = ca_eod c k)))"

lemma row_authorised:
  assumes "\<forall>j. dumps L j \<noteq> []" "request_row L t c now b d = Inr args"
  shows "binding_allows_row b args \<and> callback_vetted L b args \<and> target_known t args \<and> expiry_bounded now c args"
proof -
  obtain scene s target expires callback spec where p: "request_scene L b d = Inr (scene, s)" "request_target L t d = Inr target"
    "request_expiry now c d = Inr expires" "request_callback L b d = Inr callback"
    "(if is_inline L d then spec = scene_to_spec_json L s \<and> spec \<noteq> None else spec = None)"
    and a: "p_scene args = scene" "p_skill args = sd_skill s" "p_target_open_id args = tg_open_id target"
    "p_profile_name args = tg_profile_name target" "p_callback_json args = map_option (callback_to_json L) callback"
    "p_scene_spec_json args = spec" "p_expires_at args = Some expires"
    by (rule request_row_parts [OF assms(2)])
  have "binding_allows_row b args"
  proof (cases "is_inline L d")
    case True
    then obtain j where "spec = Some j" "j \<noteq> []" using p(5) spec_json_ne [OF assms(1)] by fastforce
    then show ?thesis using request_scene_ok [OF p(1)] True by (simp add: binding_allows_row_def a str_or_empty_def)
  next
    case False
    then show ?thesis using request_scene_ok [OF p(1)] p(5) by (simp add: binding_allows_row_def a str_or_empty_def)
  qed
  moreover have "callback_vetted L b args"
    using callback_allowed p(4) by (cases callback) (auto simp: callback_vetted_def a)
  moreover have "target_known t args"
    using request_target_ok [OF p(2)] by (auto simp: target_known_def a py_or_def)
  moreover have "expiry_bounded now c args"
    using p(3) next_working_day_spec [of "ca_weekday c" 1]
    by (auto simp: expiry_bounded_def a request_expiry_def next_working_day_eod_def MAX_EXPIRES_AHEAD_S_def split: json.splits if_splits)
  ultimately show ?thesis by blast
qed

lemma fetch_by_index:
  assumes "unique_index (\<lambda>_. True) k t" "r \<in> set t" "k r = Some v"
  shows "fetchone (filter (\<lambda>q. k q = Some v) t) = Some r"
proof (cases "filter (\<lambda>q. k q = Some v) t")
  case Nil
  then show ?thesis using assms(2,3) by (auto simp: filter_empty_conv)
next
  case (Cons x xs)
  then have "x \<in> set (filter (\<lambda>q. k q = Some v) t)" by simp
  then have "x = r" using unique_index_inj [OF assms(1), of x r v] assms(2,3) by simp
  then show ?thesis using Cons by (simp add: fetchone_def)
qed

section \<open>Properties\<close>

text \<open>C16. A card is only pushed within the grants of the key that asked for it. Without acceptance nothing is written. With it
  exactly one row is appended, in status sending, and the caller's bearer token is one of the key file's, whose entry grants
  the row's skill (inline scene) or scene (named scene); a callback stored with the row is secure and its host is covered by an
  allow-listed domain of that key; the target is an active routing row and gets its profile; and the row expires within
  thirty days or on the next working day. The dedicated and the master key push nothing.\<close>

theorem pushed_card_authorised:
  assumes "\<forall>j. dumps L j \<noteq> []" "notify_card L E t c now rid nonce db header body = (db', reply)"
  shows "if reply = NotifyAccepted rid
    then (\<exists>b row. (bearer_token header, b) \<in> set (file_bindings L (ie_file E)) \<and> pd_rows db' = pd_rows db @ [row]
        \<and> pd_archive db' = pd_archive db \<and> p_registry_id row = rid \<and> p_status row = Sending \<and> binding_allows_row b row
        \<and> callback_vetted L b row \<and> target_known t row \<and> expiry_bounded now c row)
    else db' = db"
  using assms(2)
proof (cases rule: notify_cases)
  case (accepted b d args)
  note ok = row_authorised [OF assms(1) accepted(3)]
  have "ib_scenes b \<noteq> [] \<or> ib_skills b \<noteq> []" using ok by (auto simp: binding_allows_row_def split: if_splits)
  then have "(bearer_token header, b) \<in> set (file_bindings L (ie_file E))"
    using binding_cases [OF accepted(1)] by auto
  then show ?thesis using ok accepted(4,5,6)
    by (auto simp: binding_allows_row_def callback_vetted_def target_known_def expiry_bounded_def)
qed simp

text \<open>The status of a row is only read within the grants of the key: what the endpoint shows is the projection of the row
  with that identifier, to a caller whose binding allows the row; and an existing row outside of the grants gets the very
  reply of a row that does not exist.\<close>

lemma card_status_authorised:
  "(notify_card_status L E db header rid = Inr v \<longleftrightarrow>
      (\<exists>b r. binding_for_request L E header = Inr (Some b) \<and> push_get db (strip rid) = Some r \<and> binding_allows_row b r \<and> v = public_push_row r))
   \<and> (\<forall>b. binding_for_request L E header = Inr (Some b) \<and> (\<forall>r. push_get db (strip rid) = Some r \<longrightarrow> \<not> binding_allows_row b r)
        \<longrightarrow> notify_card_status L E db header rid = Inl (NotifyError 404 ''not found''))"
  by (auto simp: notify_card_status_def nbind_Inr request_binding_def nbind_def split: option.splits sum.splits if_splits)

text \<open>Idempotency keys are not scoped to the caller. A request whose idempotency key another key's row already has is
  answered with that row's identifier and status, pushes no card of its own, and does so for a caller to whom the status
  endpoint denies that the row exists.\<close>

lemma idempotency_key_crosses_callers:
  assumes "push_inv db" "r \<in> set (pd_rows db)" "p_idempotency_key r = Some key" "key \<noteq> []"
    and "binding_for_request L E header = Inr (Some b)" "\<not> binding_allows_row b r"
    and "request_row L t c now b d = Inr args" "p_idempotency_key args = Some key" "strip (p_registry_id r) = p_registry_id r"
  shows "notify_card L E t c now rid nonce db header (Some (JObj d)) = (db, NotifyDuplicate (p_registry_id r) (p_status r))
    \<and> notify_card_status L E db header (p_registry_id r) = Inl (NotifyError 404 ''not found'')"
proof
  have "fetchone (filter (\<lambda>q. p_idempotency_key q = Some key) (pd_rows db)) = Some r"
    using assms(1-3) by (intro fetch_by_index) (auto simp: push_inv_def push_indexes_def)
  then show "notify_card L E t c now rid nonce db header (Some (JObj d)) = (db, NotifyDuplicate (p_registry_id r) (p_status r))"
    using assms(4,5,7,8) by (simp add: notify_card_def nbind_def request_binding_def request_body_def create_def Let_def str_or_empty_def)
  have "push_get db (p_registry_id r) = Some r"
    using assms(1,2) by (auto simp: push_get_def push_inv_def push_indexes_def intro!: tbl_get_distinct)
  then show "notify_card_status L E db header (p_registry_id r) = Inl (NotifyError 404 ''not found'')"
    using assms(5,6,9) by (simp add: notify_card_status_def nbind_def request_binding_def)
qed

lemma message_request_ok:
  "message_request L bots d = Inr (m, env) \<Longrightarrow> env \<in> set VALID_ENVS \<and> ms_msg_type m \<in> set VALID_MSG_TYPES \<and> length (ms_content m) \<le> 30720
    \<and> ms_receive_id m \<noteq> [] \<and> ms_receive_id_type m \<in> set VALID_RECEIVE_ID_TYPES"
  by (auto simp: message_request_def Let_def MAX_CONTENT_BYTES_def VALID_RECEIVE_ID_TYPES_def split: if_splits json.splits bot_credentials.splits)

lemma message_refuses: "message_request L bots d \<noteq> Inl (PushSent mid env)"
  by (simp add: message_request_def Let_def split: json.splits bot_credentials.splits)

lemma env_update_get:
  "tbl_get em_message_id (sql_update (\<lambda>r. em_message_id r = k) (\<lambda>r. r\<lparr>em_env := e, em_key_owner := w, em_ts := now\<rparr>) t) x
   = map_option (\<lambda>r. if x = k then r\<lparr>em_env := e, em_key_owner := w, em_ts := now\<rparr> else r) (tbl_get em_message_id t x)"
  by (induction t) (auto simp: sql_update_def tbl_get_Cons)

lemma env_record_get:
  "strip mid \<noteq> [] \<Longrightarrow> \<exists>r. env_get (env_record now t mid env owner) mid = Some r \<and> em_env r = env \<and> em_key_owner r = owner"
  "strip other \<noteq> strip mid \<Longrightarrow> env_get (env_record now t mid env owner) other = env_get t other"
proof -
  have ex: "list_ex (\<lambda>r. em_message_id r = x) t \<longleftrightarrow> (\<exists>r. tbl_get em_message_id t x = Some r)" for x
    using tbl_get_None [of em_message_id t x] by (auto simp: list_ex_iff)
  show "strip mid \<noteq> [] \<Longrightarrow> \<exists>r. env_get (env_record now t mid env owner) mid = Some r \<and> em_env r = env \<and> em_key_owner r = owner"
    using ex [of "strip mid"]
    by (auto simp: env_record_def env_get_def Let_def sql_upsert_def env_update_get tbl_get_append tbl_get_Cons split: option.splits)
  show "strip other \<noteq> strip mid \<Longrightarrow> env_get (env_record now t mid env owner) other = env_get t other"
    by (auto simp: env_record_def env_get_def Let_def sql_upsert_def env_update_get tbl_get_append tbl_get_Cons map_option.id split: option.splits)
qed

text \<open>A success of the message endpoint is a message that was sent. It is only reported to an authenticated caller, for a
  well-formed message within the size limit that the sending bot delivered under the reported identifier, and the
  environment of the request is then on record for that message; every other reply leaves the record alone, and a caller
  without a binding sends nothing.\<close>

lemma push_success_is_sent:
  assumes "handle_push L E now bots send t header body = (sent, t', reply)"
  shows "(\<forall>mid env. reply = PushSent mid env \<longrightarrow> (\<exists>b m. binding_for_request L E header = Inr (Some b) \<and> sent = Some m \<and> send m = Sent mid
        \<and> env \<in> set VALID_ENVS \<and> ms_msg_type m \<in> set VALID_MSG_TYPES \<and> length (ms_content m) \<le> 30720
        \<and> (strip mid \<noteq> [] \<longrightarrow> (\<exists>r. env_get t' mid = Some r \<and> em_env r = env))
        \<and> (\<forall>other. strip other \<noteq> strip mid \<longrightarrow> env_get t' other = env_get t other)))
    \<and> ((\<forall>mid env. reply \<noteq> PushSent mid env) \<longrightarrow> t' = t)
    \<and> (sent \<noteq> None \<longrightarrow> (\<exists>b. binding_for_request L E header = Inr (Some b)))"
proof (cases "\<exists>b d m env. binding_for_request L E header = Inr (Some b) \<and> body = Some (JObj d) \<and> message_request L bots d = Inr (m, env)")
  case True
  then obtain b d m env where h: "binding_for_request L E header = Inr (Some b)" "body = Some (JObj d)" "message_request L bots d = Inr (m, env)"
    by blast
  have same: "strip mid = [] \<Longrightarrow> env_record now t mid env owner = t" for mid owner by (simp add: env_record_def)
  have recorded: "strip mid \<noteq> [] \<Longrightarrow> \<exists>r. env_get (env_record now t mid env owner) mid = Some r \<and> em_env r = env" for mid owner
    using env_record_get(1) by metis
  show ?thesis
    using assms h message_request_ok [OF h(3)] recorded env_record_get(2) [where now = now and t = t and env = env] same
    by (cases "send m") (auto simp: handle_push_def)
next
  case False
  have "handle_push L E now bots send t header body = (None, t, r) \<Longrightarrow> r = reply \<and> sent = None \<and> t' = t" for r using assms by simp
  moreover have "\<exists>r. handle_push L E now bots send t header body = (None, t, r) \<and> (\<forall>mid env. r \<noteq> PushSent mid env)"
  proof (cases "binding_for_request L E header")
    case (Inr found)
    show ?thesis
    proof (cases found)
      case (Some b)
      show ?thesis
      proof (cases body)
        case (Some j)
        show ?thesis
        proof (cases j)
          case (JObj d)
          then obtain r where "message_request L bots d = Inl r"
            using False Inr \<open>found = Some b\<close> Some by (cases "message_request L bots d") auto
          then show ?thesis using Inr \<open>found = Some b\<close> Some JObj message_refuses by (auto simp: handle_push_def)
        qed (use Inr \<open>found = Some b\<close> Some in \<open>simp_all add: handle_push_def\<close>)
      qed (use Inr Some in \<open>simp add: handle_push_def\<close>)
    qed (use Inr in \<open>simp add: handle_push_def\<close>)
  qed (simp add: handle_push_def)
  ultimately show ?thesis by blast
qed
section \<open>Witnesses\<close>

text \<open>A key file with one granted entry, and a request for the named scene.\<close>

definition demo_granted :: "(string \<times> json) list" where
  "demo_granted = [(''token'', JStr ''tk''), (''owner'', JStr ''ou_x''), (''allowed_scenes'', JArr [JStr ''dev-yolo-echo''])]"

definition granted_env :: ingest_env where
  "granted_env = \<lparr>ie_file = Some (number_text (JArr [JObj demo_granted])), ie_key = [], ie_master = [], ie_owner = [], ie_profile = []\<rparr>"

definition granted_binding :: ingest_binding where
  "granted_binding = \<lparr>ib_owner = ''ou_x'', ib_profile = [], ib_agent = [], ib_name = [], ib_source = ''file'',
     ib_scenes = [''dev-yolo-echo''], ib_skills = [], ib_domains = []\<rparr>"

lemma granted_bindings: "file_bindings number_lib (ie_file granted_env) = [(''tk'', granted_binding)]"
  by (simp add: file_bindings_def granted_env_def number_lib_def number_text_def key_entries_def objects_def)
    (simp add: file_binding_def demo_granted_def granted_binding_def clean_field_def str_get_or_def jget_def truthy_def py_str_def
      strip_def is_space_def str_list_def)

lemma granted_request: "binding_for_request number_lib granted_env ''Bearer tk'' = Inr (Some granted_binding)"
  by (simp add: binding_for_request_def bearer_token_def strip_def is_space_def granted_bindings compare_digest_def ascii_def Let_def)

definition demo_calendar :: calendar where
  "demo_calendar = \<lparr>ca_weekday = 4, ca_today = ''2026-01-02'', ca_eod = \<lambda>k. 1000 + 86400 * int k\<rparr>"

definition demo_routing_row :: routing_row where
  "demo_routing_row = \<lparr>r_user_id = ''u1'', r_profile_name = ''p1'', r_open_id = Some ''ou_1'', r_union_id = None, r_active = True,
     r_deleted_at = None, r_synced_at = 0, r_version = 1, r_last_active_at = None, r_created_at = 0, r_updated_at = 0,
     r_kind = KIND_USER, r_chat_id = None, r_owner_open_id = None, r_display_label = None, r_agent_id = None, r_provenance = ''sync'',
     r_upstream_profile = None\<rparr>"

definition demo_body :: "string \<Rightarrow> (string \<times> json) list" where
  "demo_body key = [(''scene'', JStr ''dev-yolo-echo''), (''user_id'', JStr ''u1''), (''idempotency_key'', JStr key), (''expires_at'', JInt 200)]"

lemma demo_request:
  "\<exists>args. request_row number_lib [demo_routing_row] demo_calendar 100 granted_binding (demo_body ''ik'') = Inr args
    \<and> p_idempotency_key args = Some ''ik''"
  by (simp add: request_row_def nbind_def request_scene_def is_inline_def demo_body_def str_get_or_def jget_def truthy_def py_str_def
      strip_def is_space_def get_scene_def BUILTIN_SCENES_def DEV_ACCEPTANCE_CLAIM_def DEV_YOLO_ECHO_def post_init_def VALID_MODES_def
      MODE_CARD_def MODE_YOLO_def granted_binding_def request_target_def target_resolver_def lookup_by_user_id_def fetchone_def
      demo_routing_row_def request_payload_def request_expiry_def MAX_EXPIRES_AHEAD_S_def request_callback_def callback_from_payload_def
      callback_domain_error_def request_behaviors_def behaviors_from_payload_def or_none_def Let_def str_or_empty_def py_or_def)

lemma number_dumps [simp]: "dumps number_lib j = ''{}''"
  by (simp add: number_lib_def)

lemma dumps_not_empty: "\<forall>j. dumps number_lib j \<noteq> []"
  by simp

lemma pushed_card_authorised_witness:
  "\<exists>b row. (''tk'', b) \<in> set (file_bindings number_lib (ie_file granted_env)) \<and> binding_allows_row b row
    \<and> pd_rows (fst (notify_card number_lib granted_env [demo_routing_row] demo_calendar 100 ''r9'' ''n'' empty_registry ''Bearer tk''
        (Some (JObj (demo_body ''ik''))))) = [row]"
proof -
  let ?n = "notify_card number_lib granted_env [demo_routing_row] demo_calendar 100 ''r9'' ''n'' empty_registry ''Bearer tk''
    (Some (JObj (demo_body ''ik'')))"
  obtain args where args: "request_row number_lib [demo_routing_row] demo_calendar 100 granted_binding (demo_body ''ik'') = Inr args"
    using demo_request by blast
  have "snd ?n = NotifyAccepted ''r9''"
    by (simp add: notify_card_def nbind_def request_binding_def granted_request request_body_def args create_def empty_registry_def
        fetchone_def push_indexes_def unique_index_def Let_def)
  moreover have "?n = (fst ?n, snd ?n)" by simp
  note pushed_card_authorised [OF dumps_not_empty this]
  ultimately show ?thesis by (auto simp: bearer_token_def strip_def is_space_def empty_registry_def)
qed

lemma idempotency_key_crosses_callers_witness:
  "notify_card number_lib granted_env [demo_routing_row] demo_calendar 100 ''r9'' ''n'' \<lparr>pd_rows = [demo_row], pd_archive = []\<rparr>
     ''Bearer tk'' (Some (JObj (demo_body ''ik''))) = (\<lparr>pd_rows = [demo_row], pd_archive = []\<rparr>, NotifyDuplicate ''r1'' Sending)"
proof -
  obtain args where args: "request_row number_lib [demo_routing_row] demo_calendar 100 granted_binding (demo_body ''ik'') = Inr args"
    "p_idempotency_key args = Some ''ik''"
    using demo_request by blast
  show ?thesis
    using idempotency_key_crosses_callers [OF demo_inv _ _ _ granted_request _ args(1), of demo_row "''ik''" "''r9''" "''n''"] args(2)
    by (simp add: demo_row_def demo_args_def binding_allows_row_def granted_binding_def str_or_empty_def strip_def is_space_def)
qed

definition demo_push_body :: json where
  "demo_push_body = JObj [(''target'', JStr ''oc_1''), (''msg_type'', JStr ''text''), (''content'', JObj [(''text'', JStr ''hi'')])]"

lemma push_success_is_sent_witness:
  "\<exists>t'. handle_push number_lib granted_env 5 (\<lambda>_. Bot ''id'' ''s'') (\<lambda>_. Sent ''om_1'') [] ''Bearer tk'' (Some demo_push_body)
      = (Some \<lparr>ms_client_id = ''id'', ms_client_secret = ''s'', ms_receive_id_type = ''chat_id'', ms_receive_id = ''oc_1'',
          ms_msg_type = ''text'', ms_content = ''{}'', ms_uuid = None\<rparr>, t', PushSent ''om_1'' ''pre'')
    \<and> (\<exists>r. env_get t' ''om_1'' = Some r \<and> em_env r = ''pre'')"
proof -
  let ?p = "handle_push number_lib granted_env 5 (\<lambda>_. Bot ''id'' ''s'') (\<lambda>_. Sent ''om_1'') [] ''Bearer tk'' (Some demo_push_body)"
  obtain t' where p: "?p = (Some \<lparr>ms_client_id = ''id'', ms_client_secret = ''s'', ms_receive_id_type = ''chat_id'', ms_receive_id = ''oc_1'',
          ms_msg_type = ''text'', ms_content = ''{}'', ms_uuid = None\<rparr>, t', PushSent ''om_1'' ''pre'')"
    by (simp add: handle_push_def granted_request demo_push_body_def message_request_def str_get_or_def jget_def truthy_def py_str_def
        strip_def is_space_def VALID_MSG_TYPES_def VALID_ENVS_def is_text_def MAX_CONTENT_BYTES_def or_none_def Let_def)
  from push_success_is_sent [OF p] show ?thesis using p by (simp add: strip_def is_space_def)
qed

end
