(* ===== verification/Ingest_Secrets.thy ===== *)
theory Ingest_Secrets
  imports Push_Scenes Git_Env "HOL-Library.List_Lexorder" "HOL-Library.Char_ord" "HOL-Library.Multiset"
begin

text \<open>
  The secrets a caller attaches to an ingest run (\<open>src/hermes_multitenancy/webui_broker/periphery.py\<close>): they are checked
  and listed without their values, and every text that goes back to the caller or to the log is redacted. SHA-256 and the
  canonical JSON text are arguments, and so is the Unicode table that says which non-ASCII characters are word characters.
\<close>

section \<open>Parsing\<close>

definition SECRET_TYPES :: "string list" where
  "SECRET_TYPES = [''bearer_token'', ''api_key'', ''cookie'', ''basic'', ''opaque'']"

definition SECRET_MAX_VALUE_BYTES :: nat where "SECRET_MAX_VALUE_BYTES = 16 * 1024"

definition SECRET_MAX_TOTAL_BYTES :: nat where "SECRET_MAX_TOTAL_BYTES = 64 * 1024"

definition secret_usage :: "string \<Rightarrow> string" where
  "secret_usage t = (case map_of [(''bearer_token'', ''Authorization Bearer''), (''api_key'', ''API key/header/query credential''),
       (''cookie'', ''Cookie header''), (''basic'', ''HTTP Basic authorization''), (''opaque'', ''caller-defined opaque secret'')] t of
     Some u \<Rightarrow> u | None \<Rightarrow> ''caller-defined secret'')"

definition secret_name_ok :: "string \<Rightarrow> bool" where
  "secret_name_ok s \<longleftrightarrow> s \<noteq> [] \<and> length s \<le> 64 \<and> list_all (\<lambda>c. ascii_alnum c \<or> c \<in> set ''_.-'') s"

record secret_entry =
  se_name :: string
  se_type :: string
  se_value :: string
  se_sha :: string
  se_usage :: string

record secret_spec =
  sp_entries :: "secret_entry list"
  sp_manifest :: "(string \<times> string \<times> string) list"
  sp_fingerprint :: string

text \<open>The entries in the order of their names; the count of bytes so far comes along.\<close>

fun secret_entries :: "pylib \<Rightarrow> (string \<Rightarrow> string) \<Rightarrow> nat \<Rightarrow> (string \<times> json) list \<Rightarrow> string + secret_entry list" where
  "secret_entries L sha used [] = Inr []"
| "secret_entries L sha used ((name, item) # rest) =
     (if \<not> secret_name_ok name then Inl ''invalid secret name''
      else case item of
        JObj d \<Rightarrow>
          (let t = strip (str_get_or L d ''type'' [])
           in if t \<notin> set SECRET_TYPES then Inl ''invalid secret type''
              else case jget d ''value'' of
                JStr v \<Rightarrow>
                  if v = [] then Inl ''secret value must be a non-empty string''
                  else if length v > SECRET_MAX_VALUE_BYTES then Inl ''secret value too large''
                  else if used + length v > SECRET_MAX_TOTAL_BYTES then Inl ''secrets payload too large''
                  else (case secret_entries L sha (used + length v) rest of
                          Inl e \<Rightarrow> Inl e
                        | Inr es \<Rightarrow> Inr (\<lparr>se_name = name, se_type = t, se_value = v, se_sha = sha v, se_usage = secret_usage t\<rparr> # es))
              | _ \<Rightarrow> Inl ''secret value must be a non-empty string'')
      | _ \<Rightarrow> Inl ''secret entry must be an object'')"

definition fingerprint_source :: "secret_entry list \<Rightarrow> json" where
  "fingerprint_source es = JArr (map (\<lambda>e. JObj [(''name'', JStr (se_name e)), (''type'', JStr (se_type e)), (''sha256'', JStr (se_sha e))]) es)"

definition parse_secrets :: "pylib \<Rightarrow> (string \<Rightarrow> string) \<Rightarrow> (json \<Rightarrow> string) \<Rightarrow> json \<Rightarrow> string + secret_spec" where
  "parse_secrets L sha canon raw =
     (case raw of
        JNull \<Rightarrow> Inr \<lparr>sp_entries = [], sp_manifest = [], sp_fingerprint = sha ''[]''\<rparr>
      | JObj d \<Rightarrow>
          (case secret_entries L sha 0 (sort_key fst d) of
             Inl e \<Rightarrow> Inl e
           | Inr es \<Rightarrow> Inr \<lparr>sp_entries = es, sp_manifest = map (\<lambda>e. (se_name e, se_type e, se_usage e)) es,
                          sp_fingerprint = sha (canon (fingerprint_source es))\<rparr>)
      | _ \<Rightarrow> Inl ''secrets must be a JSON object'')"

section \<open>Redaction\<close>

definition marker :: "string \<Rightarrow> string" where
  "marker m = ''[REDACTED:'' @ m @ '']''"

text \<open>The prefixes of a value, from the longest to its first eight characters.\<close>

definition prefix_lengths :: "string \<Rightarrow> nat list" where
  "prefix_lengths v = rev [8..<Suc (min (char_count v - 1) 64)]"

definition redact_prefixes :: "string \<Rightarrow> string \<Rightarrow> string \<Rightarrow> string" where
  "redact_prefixes text name v =
     (if char_count v < 8 then text
      else fold (\<lambda>n t. py_replace (take_chars n v) (marker (name @ '':prefix'')) t) (prefix_lengths v) text)"

definition redact_entry :: "secret_entry \<Rightarrow> string \<Rightarrow> string" where
  "redact_entry e text =
     (if se_value e = [] then text
      else redact_prefixes (py_replace (se_value e) (marker (py_or (se_name e) ''secret'')) text) (py_or (se_name e) ''secret'') (se_value e))"

text \<open>
  The two patterns of texts that look like credentials. \<open>U\<close> tells whether a non-ASCII character (its bytes) is a word
  character; \<open>prev\<close> is the character before the position.
\<close>

definition word_char :: "(string \<Rightarrow> bool) \<Rightarrow> string \<Rightarrow> bool" where
  "word_char U ch = (case ch of [] \<Rightarrow> False | [c] \<Rightarrow> ascii_alnum c \<or> c = CHR ''_'' | _ \<Rightarrow> U ch)"

definition next_prev :: "string \<Rightarrow> char \<Rightarrow> string" where
  "next_prev prev c = (if continues c then prev @ [c] else [c])"

definition skip_space :: "string \<Rightarrow> string" where
  "skip_space s = dropWhile is_space s"

definition value_char :: "char \<Rightarrow> bool" where
  "value_char c \<longleftrightarrow> ascii_alnum c \<or> c \<in> set ''._~+/=-''"

definition jwt_char :: "char \<Rightarrow> bool" where
  "jwt_char c \<longleftrightarrow> ascii_alnum c \<or> c \<in> set ''._-''"

definition after_word :: "string \<Rightarrow> string \<Rightarrow> string option" where
  "after_word w s = (if startswith (lower s) w then Some (drop (length w) s) else None)"

text \<open>\<open>authorization\s*[:=]\s*bearer\s+\<close> and a value of eight characters or more: the lengths of the two groups.\<close>

definition auth_match :: "string \<Rightarrow> (nat \<times> nat) option" where
  "auth_match s =
     (case after_word ''authorization'' s of
        None \<Rightarrow> None
      | Some s1 \<Rightarrow>
          (case skip_space s1 of
             [] \<Rightarrow> None
           | c # s2 \<Rightarrow>
               if c \<noteq> CHR '':'' \<and> c \<noteq> CHR ''='' then None
               else (case after_word ''bearer'' (skip_space s2) of
                       None \<Rightarrow> None
                     | Some s3 \<Rightarrow>
                         (let s4 = skip_space s3; v = takeWhile value_char s4
                          in if s4 = s3 \<or> length v < 8 then None else Some (length s - length s4, length v)))))"

function redact_auth :: "(string \<Rightarrow> bool) \<Rightarrow> string \<Rightarrow> string \<Rightarrow> string" where
  "redact_auth U prev [] = []"
| "redact_auth U prev (c # cs) =
     (case (if word_char U prev then None else auth_match (c # cs)) of
        Some (g, n) \<Rightarrow> take g (c # cs) @ marker ''authorization'' @ redact_auth U [(c # cs) ! (g + n - 1)] (drop (g + n - 1) cs)
      | None \<Rightarrow> c # redact_auth U (next_prev prev c) cs)"
  by pat_completeness auto
termination by (relation "measure (\<lambda>(U, prev, s). length s)") auto

text \<open>\<open>eyJ\<close> and the longest run of sixteen or more characters that ends at a word boundary.\<close>

definition jwt_match :: "(string \<Rightarrow> bool) \<Rightarrow> string \<Rightarrow> nat option" where
  "jwt_match U s =
     (if \<not> startswith s ''eyJ'' then None
      else (let t = drop 3 s; run = length (takeWhile jwt_char t)
            in map_option (\<lambda>n. n + 3) (find (\<lambda>n. word_char U [t ! (n - 1)] \<noteq> word_char U (take_chars 1 (drop n t))) (rev [16..<Suc run]))))"

function redact_jwt :: "(string \<Rightarrow> bool) \<Rightarrow> string \<Rightarrow> string \<Rightarrow> string" where
  "redact_jwt U prev [] = []"
| "redact_jwt U prev (c # cs) =
     (case (if word_char U prev then None else jwt_match U (c # cs)) of
        Some n \<Rightarrow> marker ''jwt'' @ redact_jwt U [(c # cs) ! (n - 1)] (drop (n - 1) cs)
      | None \<Rightarrow> c # redact_jwt U (next_prev prev c) cs)"
  by pat_completeness auto
termination by (relation "measure (\<lambda>(U, prev, s). length s)") auto

definition redact_secret_like :: "(string \<Rightarrow> bool) \<Rightarrow> string \<Rightarrow> string" where
  "redact_secret_like U text = redact_jwt U [] (redact_auth U [] text)"

definition redact_text :: "(string \<Rightarrow> bool) \<Rightarrow> secret_spec option \<Rightarrow> string \<Rightarrow> string" where
  "redact_text U spec text = redact_secret_like U
     (case spec of None \<Rightarrow> text | Some sp \<Rightarrow> fold redact_entry (sort_key (\<lambda>e. - int (char_count (se_value e))) (sp_entries sp)) text)"

section \<open>What leaves the server\<close>

definition RESERVED_METADATA_KEYS :: "string list" where
  "RESERVED_METADATA_KEYS = [''agent_share_context'', ''ingest_secret_dir'', ''ingest_secret_fingerprint'', ''ingest_secrets'',
     ''_trusted_project_id'', ''_trusted_project_session'']"

definition sanitize_metadata :: "(string \<times> json) list \<Rightarrow> (string \<times> json) list" where
  "sanitize_metadata m = filter (\<lambda>e. fst e \<notin> set RESERVED_METADATA_KEYS) m"

definition public_interaction :: "(string \<times> json) list \<Rightarrow> (string \<times> json) list" where
  "public_interaction p = filter (\<lambda>e. fst e \<notin> set [''response_path'', ''decision_path'', ''session_key'']) p"

section \<open>Redaction removes secrets\<close>

definition bracketless :: "string \<Rightarrow> bool" where
  "bracketless s \<longleftrightarrow> s \<noteq> [] \<and> CHR ''['' \<notin> set s \<and> CHR '']'' \<notin> set s"

definition inside :: "string \<Rightarrow> string" where
  "inside m = ''REDACTED:'' @ m"

text \<open>\<open>patched M t r\<close>: \<open>r\<close> is \<open>t\<close> with parts replaced by markers named in \<open>M\<close>.\<close>

inductive patched :: "string set \<Rightarrow> string \<Rightarrow> string \<Rightarrow> bool" for M where
  patched_Nil: "patched M [] []"
| patched_keep: "patched M t r \<Longrightarrow> patched M (c # t) (c # r)"
| patched_cut: "patched M t r \<Longrightarrow> m \<in> M \<Longrightarrow> patched M (u @ t) (marker m @ r)"

lemma startswith_split: "startswith s p \<Longrightarrow> s = p @ drop (length p) s"
  by (induction s p rule: startswith.induct) auto

lemma startswith_cut: "b \<notin> set s \<Longrightarrow> startswith (x @ b # r) s \<Longrightarrow> startswith x s"
proof (induction x arbitrary: s)
  case Nil then show ?case by (cases s) auto
next
  case (Cons c x) then show ?case by (cases s) auto
qed

lemma occurs_cut: "s \<noteq> [] \<Longrightarrow> b \<notin> set s \<Longrightarrow> occurs_in s (x @ b # r) \<Longrightarrow> occurs_in s x \<or> occurs_in s r"
proof (induction x)
  case Nil then show ?case by (cases s) auto
next
  case (Cons c x) then show ?case using startswith_cut [of b s "c # x" r] by auto
qed

lemma occurs_marker:
  assumes "bracketless s" "occurs_in s (marker m @ r)"
  shows "occurs_in s (inside m) \<or> occurs_in s r"
proof -
  have "occurs_in s ([] @ CHR ''['' # ((inside m) @ CHR '']'' # r))" using assms(2) by (simp add: marker_def inside_def)
  then have "occurs_in s [] \<or> occurs_in s ((inside m) @ CHR '']'' # r)"
    using assms(1) by (intro occurs_cut) (auto simp: bracketless_def)
  then show ?thesis using assms(1) occurs_cut [of s "CHR '']''" "inside m" r] by (auto simp: bracketless_def)
qed

lemma patched_prefix: "patched M t r \<Longrightarrow> CHR ''['' \<notin> set s \<Longrightarrow> startswith r s \<Longrightarrow> startswith t s"
proof (induction arbitrary: s rule: patched.induct)
  case (patched_keep t r c) then show ?case by (cases s) auto
next
  case (patched_cut t r m u) then show ?case by (cases s) (auto simp: marker_def)
qed auto

lemma patched_occurs:
  "patched M t r \<Longrightarrow> bracketless s \<Longrightarrow> occurs_in s r \<Longrightarrow> occurs_in s t \<or> (\<exists>m \<in> M. occurs_in s (inside m))"
proof (induction rule: patched.induct)
  case (patched_keep t r c)
  show ?case
  proof (cases "startswith (c # r) s")
    case True
    have "startswith (c # t) s"
      using patched_prefix [OF patched.patched_keep [OF patched_keep(1)] _ True] patched_keep(3) by (simp add: bracketless_def)
    then show ?thesis by simp
  next
    case False
    then show ?thesis using patched_keep by auto
  qed
next
  case (patched_cut t r m u)
  have "occurs_in s t \<Longrightarrow> occurs_in s (u @ t)" by (induction u) auto
  then show ?case using occurs_marker [OF patched_cut(4,5)] patched_cut by blast
qed auto

lemma patched_refl: "patched M t t"
  by (induction t) (auto intro: patched.intros)

lemma patched_append_keep: "patched M t r \<Longrightarrow> patched M (p @ t) (p @ r)"
  by (induction p) (auto intro: patched.intros)

lemma replace_split: "startswith (c # cs) old \<Longrightarrow> old \<noteq> [] \<Longrightarrow> c # cs = old @ drop (length old - 1) cs"
  using startswith_split [of "c # cs" old] by (cases old) auto

lemma replace_patched: "patched {m} t (py_replace old (marker m) t)"
proof (induction old "marker m" t rule: py_replace.induct)
  case (2 old c cs)
  show ?case
  proof (cases "old \<noteq> [] \<and> startswith (c # cs) old")
    case True
    then have "patched {m} (old @ drop (length old - 1) cs) (marker m @ py_replace old (marker m) (drop (length old - 1) cs))"
      using 2 by (intro patched_cut) auto
    moreover have "py_replace old (marker m) (c # cs) = marker m @ py_replace old (marker m) (drop (length old - 1) cs)"
      using True by simp
    ultimately show ?thesis using True replace_split [of c cs old] by metis
  next
    case False
    then show ?thesis using 2 by (auto intro: patched_keep)
  qed
qed (simp add: patched_Nil)

lemma replace_removes:
  "bracketless old \<Longrightarrow> occurs_in old (py_replace old (marker m) t) \<Longrightarrow> occurs_in old (inside m)"
proof (induction old "marker m" t rule: py_replace.induct)
  case (1 old) then show ?case by (simp add: bracketless_def)
next
  case (2 old c cs)
  show ?case
  proof (cases "old \<noteq> [] \<and> startswith (c # cs) old")
    case True
    then have "occurs_in old (marker m @ py_replace old (marker m) (drop (length old - 1) cs))" using 2(4) by simp
    then show ?thesis using 2(1,3) True occurs_marker by blast
  next
    case False
    then have "\<not> startswith (c # py_replace old (marker m) cs) old"
      using patched_prefix [OF patched_keep [OF replace_patched]] 2(3) by (auto simp: bracketless_def)
    then show ?thesis using 2 False by auto
  qed
qed

lemma redact_auth_patched: "patched {''authorization''} t (redact_auth U prev t)"
proof (induction U prev t rule: redact_auth.induct)
  case (2 U prev c cs)
  show ?case
  proof (cases "if word_char U prev then None else auth_match (c # cs)")
    case None
    then show ?thesis using patched_keep [OF 2(1) [OF None], of c] by simp
  next
    case (Some p)
    obtain g n where p: "p = (g, n)" by (cases p)
    have m: "auth_match (c # cs) = Some (g, n)" using Some p by (auto split: if_splits)
    then have n: "n \<ge> 8" by (auto simp: auth_match_def Let_def split: option.splits list.splits if_splits)
    have cut: "c # cs = take g (c # cs) @ take n (drop g (c # cs)) @ drop (g + n) (c # cs)"
      by (metis append_assoc append_take_drop_id take_add)
    have tail: "drop (g + n) (c # cs) = drop (g + n - 1) cs" using n by (simp add: drop_Cons')
    have "patched {''authorization''} (take g (c # cs) @ take n (drop g (c # cs)) @ drop (g + n - 1) cs)
        (take g (c # cs) @ marker ''authorization'' @ redact_auth U [(c # cs) ! (g + n - 1)] (drop (g + n - 1) cs))"
      using 2(2) [OF Some, of g n] p by (intro patched_append_keep patched_cut) auto
    then show ?thesis using cut tail Some p by simp
  qed
qed (simp add: patched_Nil)

lemma redact_jwt_patched: "patched {''jwt''} t (redact_jwt U prev t)"
proof (induction U prev t rule: redact_jwt.induct)
  case (2 U prev c cs)
  show ?case
  proof (cases "if word_char U prev then None else jwt_match U (c # cs)")
    case None
    then show ?thesis using patched_keep [OF 2(1) [OF None], of c] by simp
  next
    case (Some n)
    then have n: "n \<ge> 1" by (auto simp: jwt_match_def Let_def split: if_splits)
    then have "c # cs = take n (c # cs) @ drop (n - 1) cs" by (simp add: take_Cons' )
    moreover have "patched {''jwt''} (take n (c # cs) @ drop (n - 1) cs) (marker ''jwt'' @ redact_jwt U [(c # cs) ! (n - 1)] (drop (n - 1) cs))"
      using 2(2) [OF Some] by (intro patched_cut) auto
    ultimately show ?thesis using Some by simp
  qed
qed (simp add: patched_Nil)
lemma fold_preserves: "(\<And>x a. x \<in> set xs \<Longrightarrow> Q a \<Longrightarrow> Q (step x a)) \<Longrightarrow> Q a \<Longrightarrow> Q (fold step xs a)"
  by (induction xs arbitrary: a) auto

lemma fold_reaches:
  assumes "x \<in> set xs" "\<And>a. Q (step x a)" "\<And>y a. y \<in> set xs \<Longrightarrow> Q a \<Longrightarrow> Q (step y a)"
  shows "Q (fold step xs a)"
  using assms
proof (induction xs arbitrary: a)
  case (Cons y ys)
  show ?case
  proof (cases "x \<in> set ys")
    case True
    then show ?thesis using Cons by simp
  next
    case False
    then have "Q (step y a)" using Cons(2,3) by auto
    then show ?thesis using fold_preserves [of ys Q step "step y a"] Cons(4) by simp
  qed
qed simp

text \<open>The names a redaction may put into a text, and what of a value must not be left: its first eight characters.\<close>

definition marker_names :: "secret_spec \<Rightarrow> string set" where
  "marker_names sp = {''authorization'', ''jwt''}
     \<union> (\<Union>e \<in> set (sp_entries sp). {py_or (se_name e) ''secret'', py_or (se_name e) ''secret'' @ '':prefix''})"

definition secret_core :: "string \<Rightarrow> string" where
  "secret_core v = (if char_count v > 8 then take_chars 8 v else v)"

definition recognisable :: "string set \<Rightarrow> string \<Rightarrow> bool" where
  "recognisable M s \<longleftrightarrow> bracketless s \<and> (\<forall>m \<in> M. \<not> occurs_in s (inside m))"

lemma patched_clean: "recognisable M s \<Longrightarrow> patched N t r \<Longrightarrow> N \<subseteq> M \<Longrightarrow> \<not> occurs_in s t \<Longrightarrow> \<not> occurs_in s r"
  unfolding recognisable_def using patched_occurs by blast

lemma replace_keeps_clean: "recognisable M s \<Longrightarrow> m \<in> M \<Longrightarrow> \<not> occurs_in s t \<Longrightarrow> \<not> occurs_in s (py_replace old (marker m) t)"
  using patched_clean [OF _ replace_patched] by auto

lemma replace_cleans: "recognisable M s \<Longrightarrow> m \<in> M \<Longrightarrow> \<not> occurs_in s (py_replace s (marker m) t)"
  unfolding recognisable_def using replace_removes by blast

lemma redact_prefixes_clean:
  assumes "recognisable M s" "n @ '':prefix'' \<in> M" "\<not> occurs_in s t"
  shows "\<not> occurs_in s (redact_prefixes t n v)"
proof -
  have "\<not> occurs_in s (fold (\<lambda>k t. py_replace (take_chars k v) (marker (n @ '':prefix'')) t) (prefix_lengths v) t)"
    by (rule fold_preserves [where Q = "\<lambda>t. \<not> occurs_in s t"]) (use replace_keeps_clean [OF assms(1,2)] assms(3) in auto)
  then show ?thesis using assms(3) by (simp add: redact_prefixes_def)
qed

lemma redact_prefixes_cuts:
  assumes "recognisable M (take_chars 8 v)" "n @ '':prefix'' \<in> M" "char_count v > 8"
  shows "\<not> occurs_in (take_chars 8 v) (redact_prefixes t n v)"
proof -
  have "8 \<in> set (prefix_lengths v)" using assms(3) by (auto simp: prefix_lengths_def)
  then have "\<not> occurs_in (take_chars 8 v) (fold (\<lambda>k t. py_replace (take_chars k v) (marker (n @ '':prefix'')) t) (prefix_lengths v) t)"
    by (rule fold_reaches [where Q = "\<lambda>t. \<not> occurs_in (take_chars 8 v) t"])
      (use replace_cleans [OF assms(1,2)] replace_keeps_clean [OF assms(1,2)] in auto)
  then show ?thesis using assms(3) by (simp add: redact_prefixes_def)
qed

lemma redact_entry_clean:
  assumes "recognisable M s" "e \<in> set (sp_entries sp)" "marker_names sp \<subseteq> M" "\<not> occurs_in s t"
  shows "\<not> occurs_in s (redact_entry e t)"
proof -
  have "py_or (se_name e) ''secret'' \<in> M" "py_or (se_name e) ''secret'' @ '':prefix'' \<in> M"
    using assms(2,3) by (auto simp: marker_names_def)
  then show ?thesis
    using assms redact_prefixes_clean [OF assms(1)] replace_keeps_clean [OF assms(1)] by (auto simp: redact_entry_def)
qed

lemma redact_entry_cuts:
  assumes "recognisable M (secret_core (se_value e))" "e \<in> set (sp_entries sp)" "marker_names sp \<subseteq> M"
  shows "\<not> occurs_in (secret_core (se_value e)) (redact_entry e t)"
proof -
  have m: "py_or (se_name e) ''secret'' \<in> M" "py_or (se_name e) ''secret'' @ '':prefix'' \<in> M"
    using assms(2,3) by (auto simp: marker_names_def)
  have "secret_core [] = []" by (simp add: secret_core_def char_count_def)
  then have ne: "se_value e \<noteq> []" using assms(1) by (auto simp: recognisable_def bracketless_def)
  show ?thesis
  proof (cases "char_count (se_value e) > 8")
    case True
    then show ?thesis using redact_prefixes_cuts [OF _ m(2) True] assms(1) ne by (simp add: redact_entry_def secret_core_def)
  next
    case False
    then show ?thesis
      using redact_prefixes_clean [OF assms(1) m(2)] replace_cleans [OF assms(1) m(1)] ne by (simp add: redact_entry_def secret_core_def)
  qed
qed

section \<open>Properties\<close>

text \<open>C17. No text that passes the redaction shows a secret of the run: neither the value of an entry nor, for a value of more
  than eight characters, its first eight characters are left anywhere in it, whatever the text, the other entries and the
  order of their values. (Two kinds of value are outside of this: one with a square bracket in what must not be left, and
  one that is itself a part of a redaction marker.)\<close>

theorem redaction_hides_secrets:
  assumes "e \<in> set (sp_entries sp)" "recognisable (marker_names sp) (secret_core (se_value e))"
  shows "\<not> occurs_in (secret_core (se_value e)) (redact_text U (Some sp) text) \<and> \<not> occurs_in (se_value e) (redact_text U (Some sp) text)"
proof -
  let ?s = "secret_core (se_value e)"
  have "\<not> occurs_in ?s (fold redact_entry (sort_key (\<lambda>e. - int (char_count (se_value e))) (sp_entries sp)) text)"
    by (rule fold_reaches [where x = e and Q = "\<lambda>t. \<not> occurs_in ?s t"])
      (use assms redact_entry_cuts [OF assms(2,1)] redact_entry_clean [OF assms(2)] in auto)
  then have core: "\<not> occurs_in ?s (redact_text U (Some sp) text)"
    unfolding redact_text_def redact_secret_like_def option.case
    by (intro patched_clean [OF assms(2) redact_jwt_patched] patched_clean [OF assms(2) redact_auth_patched]) (auto simp: marker_names_def)
  have pre: "\<exists>x. take_chars n v @ x = v" for n v by (induction n v rule: take_chars.induct) (auto split: nat.splits)
  have "occurs_in (se_value e) t \<Longrightarrow> occurs_in ?s t" for t
  proof (induction t)
    case (Cons c t)
    then show ?case using pre [of 8 "se_value e"] by (auto simp: secret_core_def startswith_iff) (metis append_assoc)
  qed (auto simp: secret_core_def)
  then show ?thesis using core by blast
qed
definition demo_secret :: secret_entry where
  "demo_secret = \<lparr>se_name = ''kep'', se_type = ''opaque'', se_value = ''hunter2-hunter2'', se_sha = [], se_usage = []\<rparr>"

definition demo_secrets :: secret_spec where
  "demo_secrets = \<lparr>sp_entries = [demo_secret], sp_manifest = [], sp_fingerprint = []\<rparr>"

lemma redaction_hides_secrets_witness:
  "\<not> occurs_in ''hunter2-'' (redact_text (\<lambda>_. False) (Some demo_secrets) ''the key hunter2-hun leaks'')"
proof -
  have core: "secret_core (se_value demo_secret) = ''hunter2-''"
    by (simp add: secret_core_def demo_secret_def char_count_def continues_def eval_nat_numeral)
  have "recognisable (marker_names demo_secrets) (secret_core (se_value demo_secret))"
    unfolding core
    by (simp add: recognisable_def bracketless_def marker_names_def demo_secrets_def demo_secret_def inside_def py_or_def)
  then show ?thesis
    using redaction_hides_secrets [of demo_secret demo_secrets "\<lambda>_. False" "''the key hunter2-hun leaks''"] core
    by (simp add: demo_secrets_def)
qed

lemma secret_entries_ok:
  assumes "secret_entries L sha used d = Inr es" "used \<le> SECRET_MAX_TOTAL_BYTES"
  shows "map se_name es = map fst d \<and> used + (\<Sum>e\<leftarrow>es. length (se_value e)) \<le> SECRET_MAX_TOTAL_BYTES
    \<and> (\<forall>e \<in> set es. secret_name_ok (se_name e) \<and> se_type e \<in> set SECRET_TYPES \<and> se_value e \<noteq> []
         \<and> length (se_value e) \<le> SECRET_MAX_VALUE_BYTES \<and> se_sha e = sha (se_value e))"
  using assms
proof (induction L sha used d arbitrary: es rule: secret_entries.induct)
  case (2 L sha used name item rest)
  obtain d v es' where d: "item = JObj d" "jget d ''value'' = JStr v" and ok: "secret_name_ok name"
    "strip (str_get_or L d ''type'' []) \<in> set SECRET_TYPES" "v \<noteq> []" "length v \<le> SECRET_MAX_VALUE_BYTES"
    "used + length v \<le> SECRET_MAX_TOTAL_BYTES" "secret_entries L sha (used + length v) rest = Inr es'"
    and es: "es = \<lparr>se_name = name, se_type = strip (str_get_or L d ''type'' []), se_value = v, se_sha = sha v,
      se_usage = secret_usage (strip (str_get_or L d ''type'' []))\<rparr> # es'"
    using 2(2) by (auto simp: Let_def split: if_splits json.splits sum.splits)
  have "map se_name es' = map fst rest \<and> (used + length v) + (\<Sum>e\<leftarrow>es'. length (se_value e)) \<le> SECRET_MAX_TOTAL_BYTES
    \<and> (\<forall>e \<in> set es'. secret_name_ok (se_name e) \<and> se_type e \<in> set SECRET_TYPES \<and> se_value e \<noteq> []
         \<and> length (se_value e) \<le> SECRET_MAX_VALUE_BYTES \<and> se_sha e = sha (se_value e))"
    using 2(1) ok d by auto
  then show ?case using ok by (simp add: es)
qed simp

text \<open>The secrets of an accepted request are well-formed and small: admissible and distinct names in their order, known
  types, values of at most 16384 bytes and of at most 65536 together, a manifest without the values; and neither the
  entries nor the fingerprint depend on the order in which the caller wrote them.\<close>

lemma accepted_secrets_bounded:
  assumes "distinct (map fst d)" "parse_secrets L sha canon (JObj d) = Inr sp"
  shows "sorted (map se_name (sp_entries sp)) \<and> distinct (map se_name (sp_entries sp)) \<and> set (map se_name (sp_entries sp)) = fst ` set d
    \<and> (\<Sum>e\<leftarrow>sp_entries sp. length (se_value e)) \<le> 65536
    \<and> (\<forall>e \<in> set (sp_entries sp). secret_name_ok (se_name e) \<and> se_type e \<in> set SECRET_TYPES \<and> se_value e \<noteq> [] \<and> length (se_value e) \<le> 16384)
    \<and> sp_manifest sp = map (\<lambda>e. (se_name e, se_type e, se_usage e)) (sp_entries sp)
    \<and> (\<forall>d'. mset d' = mset d \<longrightarrow> parse_secrets L sha canon (JObj d') = Inr sp)"
proof -
  obtain es where es: "secret_entries L sha 0 (sort_key fst d) = Inr es"
    and sp: "sp = \<lparr>sp_entries = es, sp_manifest = map (\<lambda>e. (se_name e, se_type e, se_usage e)) es,
      sp_fingerprint = sha (canon (fingerprint_source es))\<rparr>"
    using assms(2) by (auto simp: parse_secrets_def split: sum.splits)
  have ok: "map se_name es = map fst (sort_key fst d)" "(\<Sum>e\<leftarrow>es. length (se_value e)) \<le> 65536"
    "\<forall>e \<in> set es. secret_name_ok (se_name e) \<and> se_type e \<in> set SECRET_TYPES \<and> se_value e \<noteq> [] \<and> length (se_value e) \<le> 16384"
    using secret_entries_ok [OF es] by (simp_all add: SECRET_MAX_TOTAL_BYTES_def SECRET_MAX_VALUE_BYTES_def)
  have "mset (map fst (sort_key fst d)) = mset (map fst d)" by simp
  then have "distinct (map fst (sort_key fst d))" using assms(1) mset_eq_imp_distinct_iff by metis
  moreover have "parse_secrets L sha canon (JObj d') = Inr sp" if "mset d' = mset d" for d'
  proof -
    have "inj_on fst (set d')" using assms(1) mset_eq_setD [OF that] by (simp add: distinct_map)
    then have "sort_key fst d' = sort_key fst d" using that by (intro sort_key_inj_key_eq) auto
    then show ?thesis using assms(2) by (simp add: parse_secrets_def)
  qed
  ultimately show ?thesis using ok by (simp add: sp)
qed

lemma accepted_secrets_bounded_witness:
  "\<exists>sp. parse_secrets demo_lib (\<lambda>s. s) (dumps demo_lib)
      (JObj [(''a'', JObj [(''value'', JStr ''v''), (''type'', JStr ''cookie'')]), (''B'', JObj [(''value'', JStr ''w''), (''type'', JStr ''basic'')])]) = Inr sp"
proof -
  let ?d = "[(''B'', JObj [(''value'', JStr ''w''), (''type'', JStr ''basic'')]), (''a'', JObj [(''value'', JStr ''v''), (''type'', JStr ''cookie'')])]"
  have "sort_key fst ?d = ?d"
    by (rule sort_key_id_if_sorted) (simp add: less_char_def less_eq_char_def)
  then obtain sp where "parse_secrets demo_lib (\<lambda>s. s) (dumps demo_lib) (JObj ?d) = Inr sp"
    by (simp add: parse_secrets_def Let_def secret_name_ok_def ascii_alnum_def str_get_or_def jget_def truthy_def py_str_def strip_def
        is_space_def SECRET_TYPES_def SECRET_MAX_VALUE_BYTES_def SECRET_MAX_TOTAL_BYTES_def)
  then show ?thesis using accepted_secrets_bounded [of ?d demo_lib "\<lambda>s. s" "dumps demo_lib" sp] by auto
qed

text \<open>The names \<open>.\<close> and \<open>..\<close> are admissible although no file of the secret directory can have them.\<close>

lemma dot_names_pass: "secret_name_ok ''.'' \<and> secret_name_ok ''..''"
  by (simp add: secret_name_ok_def)

end
