(* ===== verification/Account_Ledger.thy ===== *)
theory Account_Ledger
  imports Push_Scenes Git_Env "HOL-Library.Multiset" "HOL-Library.Product_Lexorder" "HOL-Library.List_Lexorder" "HOL-Library.Char_ord"
begin

text \<open>
  The reconciliation of billing snapshots (\<open>src/hermes_multitenancy/account_ledger.py\<close>): four signed layers of
  rows (employees, routes, accounts, keys) are read and audited against each other. The signature check,
  base64, the canonical JSON text and the fingerprint are arguments; so is the clock in milliseconds.
\<close>

section \<open>Reading a snapshot\<close>

definition AUDIENCE :: string where "AUDIENCE = ''hermes-1''"

definition LAYERS :: "string list" where "LAYERS = [''employees'', ''routes'', ''accounts'', ''keys'']"

type_synonym ledger_row = "(string \<times> json) list"

text \<open>\<open>int(v)\<close>: what is no number raises, an infinite float with \<open>OverflowError\<close>.\<close>

definition py_int_of :: "json \<Rightarrow> int result" where
  "py_int_of j = (case j of
       JInt i \<Rightarrow> Inr i
     | JBool b \<Rightarrow> Inr (if b then 1 else 0)
     | JFloat (Finite q) \<Rightarrow> Inr (py_trunc q)
     | JFloat (Infinite _) \<Rightarrow> Inl OverflowError
     | JStr s \<Rightarrow> (case py_int s of None \<Rightarrow> Inl InvalidLedgerInput | Some i \<Rightarrow> Inr i)
     | _ \<Rightarrow> Inl InvalidLedgerInput)"

text \<open>\<open>x == 1\<close> of a JSON value.\<close>

definition equals_one :: "json \<Rightarrow> bool" where
  "equals_one j \<longleftrightarrow> j \<in> {JInt 1, JBool True, JFloat (Finite 1)}"

definition snapshot_id_ok :: "string \<Rightarrow> bool" where
  "snapshot_id_ok s \<longleftrightarrow> length s = 32 \<and> list_all (\<lambda>c. c \<in> set ''0123456789abcdef'') s"

record trust =
  tr_b64 :: "string \<Rightarrow> string option"
  tr_verify :: "string \<Rightarrow> string \<Rightarrow> bool"
  tr_canon :: "json \<Rightarrow> string"
  tr_fp :: "string \<Rightarrow> string"

definition as_row :: "json \<Rightarrow> ledger_row option" where
  "as_row j = (case j of JObj d \<Rightarrow> Some d | _ \<Rightarrow> None)"

definition snapshot_rows :: "json \<Rightarrow> ledger_row list option" where
  "snapshot_rows j = (case j of JArr xs \<Rightarrow> if list_all (\<lambda>x. as_row x \<noteq> None) xs then Some (map (the \<circ> as_row) xs) else None | _ \<Rightarrow> None)"

definition load_layer :: "trust \<Rightarrow> pylib \<Rightarrow> int \<Rightarrow> json \<Rightarrow> string \<Rightarrow> (ledger_row list \<times> string) result" where
  "load_layer T L now value layer =
     (case as_row value of
        None \<Rightarrow> Inl InvalidLedgerInput
      | Some d \<Rightarrow>
          if fst ` set d \<noteq> {''version'', ''audience'', ''snapshot_id'', ''issued_at_ms'', ''expires_at_ms'', ''rows'', ''signature''}
          then Inl InvalidLedgerInput
          else rbind (py_int_of (jget d ''issued_at_ms'')) (\<lambda>issued. rbind (py_int_of (jget d ''expires_at_ms'')) (\<lambda>expires.
            case snapshot_rows (jget d ''rows'') of
              None \<Rightarrow> Inl InvalidLedgerInput
            | Some rows \<Rightarrow>
                if \<not> equals_one (jget d ''version'') \<or> jget d ''audience'' \<noteq> JStr AUDIENCE
                  \<or> \<not> snapshot_id_ok (py_str L (jget d ''snapshot_id'')) \<or> issued \<le> 0 \<or> expires \<le> issued
                  \<or> expires - issued > 1800000 \<or> now < issued \<or> now \<ge> expires
                then Inl InvalidLedgerInput
                else (case tr_b64 T (py_str L (jget d ''signature'')) of
                        None \<Rightarrow> Inl InvalidLedgerInput
                      | Some sig \<Rightarrow>
                          if tr_verify T sig (''hermes-account-ledger:'' @ layer @ '':v1'' @ [CHR 0x0A]
                               @ tr_canon T (JObj (filter (\<lambda>e. fst e \<noteq> ''signature'') d)))
                          then Inr (rows, py_str L (jget d ''snapshot_id'')) else Inl InvalidLedgerInput))))"

section \<open>The audit\<close>

definition employee_id_ok :: "string \<Rightarrow> bool" where
  "employee_id_ok s \<longleftrightarrow> s \<noteq> [] \<and> ascii_alnum (hd s) \<and> length s \<le> 64
     \<and> list_all (\<lambda>c. ascii_alnum c \<or> c \<in> set ''._-'') (tl s) \<and> \<not> startswith s ''ou_''"

text \<open>A column as text, and the subject of a row.\<close>

definition col :: "pylib \<Rightarrow> string \<Rightarrow> ledger_row \<Rightarrow> string" where
  "col L k r = str_get_or L r k []"

definition solid :: "pylib \<Rightarrow> string \<Rightarrow> ledger_row \<Rightarrow> bool" where
  "solid L k r \<longleftrightarrow> strip (col L k r) \<noteq> []"

definition has_subject :: "pylib \<Rightarrow> ledger_row \<Rightarrow> bool" where
  "has_subject L r \<longleftrightarrow> employee_id_ok (strip (col L ''employee_id'' r))"

definition subject :: "pylib \<Rightarrow> ledger_row \<Rightarrow> string" where
  "subject L r = lower (strip (col L ''employee_id'' r))"

definition is_bool :: "json \<Rightarrow> bool" where
  "is_bool j \<longleftrightarrow> j \<in> {JBool True, JBool False}"

definition route_live :: "pylib \<Rightarrow> ledger_row \<Rightarrow> bool" where
  "route_live L r \<longleftrightarrow> jget r ''active'' = JBool True \<and> jget r ''kind'' = JStr ''user'' \<and> jget r ''provenance'' = JStr ''sync''
     \<and> solid L ''profile'' r \<and> startswith (col L ''open_id'' r) ''ou_''"

definition account_live :: "pylib \<Rightarrow> ledger_row \<Rightarrow> bool" where
  "account_live L r \<longleftrightarrow> jget r ''active'' = JBool True \<and> jget r ''migration_state'' = JStr ''enforced''
     \<and> solid L ''profile'' r \<and> solid L ''litellm_user_id'' r"

definition key_live :: "pylib \<Rightarrow> int \<Rightarrow> ledger_row \<Rightarrow> bool" where
  "key_live L now r \<longleftrightarrow> jget r ''active'' = JBool True \<and> (case py_int_of (jget r ''expires_at'') of Inr e \<Rightarrow> e > now | Inl _ \<Rightarrow> False)
     \<and> solid L ''profile'' r \<and> solid L ''litellm_user_id'' r \<and> solid L ''key_id'' r"

text \<open>The keys in order: a bad subject or expiry stops the audit.\<close>

fun check_keys :: "pylib \<Rightarrow> ledger_row list \<Rightarrow> unit result" where
  "check_keys L [] = Inr ()"
| "check_keys L (r # rs) =
     (if \<not> has_subject L r then Inl InvalidLedgerInput
      else rbind (py_int_of (jget r ''expires_at'')) (\<lambda>_. check_keys L rs))"

definition of_subject :: "pylib \<Rightarrow> string \<Rightarrow> ledger_row list \<Rightarrow> ledger_row list" where
  "of_subject L s rows = filter (\<lambda>r. subject L r = s) rows"

text \<open>The findings, pairs of a kind and a subject.\<close>

definition stale_findings :: "pylib \<Rightarrow> string \<Rightarrow> (ledger_row \<Rightarrow> bool) \<Rightarrow> ledger_row list \<Rightarrow> (string \<times> string) set" where
  "stale_findings L kind live rows = (\<lambda>r. (kind, subject L r)) ` set (filter (\<lambda>r. \<not> live r) rows)"

definition count_findings :: "pylib \<Rightarrow> string \<Rightarrow> string \<Rightarrow> ledger_row list \<Rightarrow> string \<Rightarrow> (string \<times> string) set" where
  "count_findings L missing duplicate rows s =
     (case of_subject L s rows of [] \<Rightarrow> {(missing, s)} | [_] \<Rightarrow> {} | _ \<Rightarrow> {(duplicate, s)})"

definition roster_findings :: "pylib \<Rightarrow> ledger_row \<Rightarrow> ledger_row list \<Rightarrow> (string \<times> string) set" where
  "roster_findings L e routes =
     (case of_subject L (subject L e) routes of
        [r] \<Rightarrow> if col L ''open_id'' r \<noteq> py_str L (jget e ''open_id'') \<or> col L ''profile'' r \<noteq> py_str L (jget e ''profile'')
               then {(''roster_route_mismatch'', subject L e)} else {}
      | _ \<Rightarrow> {})"

definition key_findings :: "pylib \<Rightarrow> string \<Rightarrow> ledger_row list \<Rightarrow> ledger_row list \<Rightarrow> ledger_row list \<Rightarrow> (string \<times> string) set" where
  "key_findings L s routes accounts keys =
     (case (of_subject L s accounts, of_subject L s keys) of
        ([a], [k]) \<Rightarrow>
          (if col L ''litellm_user_id'' a = [] \<or> col L ''litellm_user_id'' a \<noteq> col L ''litellm_user_id'' k
             \<or> col L ''profile'' a \<noteq> col L ''profile'' k then {(''key_account_mismatch'', s)} else {})
          \<union> (case of_subject L s routes of
               [r] \<Rightarrow> if col L ''profile'' r \<noteq> col L ''profile'' a \<or> col L ''profile'' r \<noteq> col L ''profile'' k
                      then {(''key_account_mismatch'', s)} else {}
             | _ \<Rightarrow> {})
      | _ \<Rightarrow> {})"

definition shared_findings :: "pylib \<Rightarrow> ledger_row list \<Rightarrow> string \<Rightarrow> string \<Rightarrow> (string \<times> string) set" where
  "shared_findings L rows field kind =
     (\<lambda>r. if solid L field r then (kind, subject L r) else (''missing_'' @ field, subject L r)) `
       set (filter (\<lambda>r. \<not> solid L field r
         \<or> list_ex (\<lambda>q. strip (col L field q) = strip (col L field r) \<and> subject L q \<noteq> subject L r) rows) rows)"

definition CROSS_KINDS :: "string list" where
  "CROSS_KINDS = [''roster_route_mismatch'', ''key_account_mismatch'', ''shared_profile'', ''shared_open_id'', ''shared_account'', ''shared_key'']"

definition ledger_findings :: "pylib \<Rightarrow> int \<Rightarrow> ledger_row list \<Rightarrow> ledger_row list \<Rightarrow> ledger_row list \<Rightarrow> ledger_row list
    \<Rightarrow> (string \<times> string) set" where
  "ledger_findings L now employees routes accounts keys =
     (let R = filter (route_live L) routes; A = filter (account_live L) accounts; K = filter (key_live L now) keys
      in stale_findings L ''route_not_active_trusted'' (route_live L) routes
         \<union> stale_findings L ''account_not_active_enforced'' (account_live L) accounts
         \<union> stale_findings L ''key_not_current'' (key_live L now) keys
         \<union> (\<Union>e \<in> set employees. count_findings L ''missing_route'' ''duplicate_route'' R (subject L e)
              \<union> count_findings L ''missing_account'' ''duplicate_account'' A (subject L e)
              \<union> count_findings L ''missing_current_key'' ''duplicate_current_key'' K (subject L e)
              \<union> roster_findings L e R \<union> key_findings L (subject L e) R A K)
         \<union> shared_findings L R ''profile'' ''shared_profile'' \<union> shared_findings L R ''open_id'' ''shared_open_id''
         \<union> shared_findings L A ''litellm_user_id'' ''shared_account'' \<union> shared_findings L K ''key_id'' ''shared_key''
         \<union> (\<lambda>s. (''unexpected_subject'', s)) ` (subject L ` set (routes @ accounts @ keys) - subject L ` set employees))"

record ledger_report =
  lr_pass :: bool
  lr_counts :: "nat \<times> nat \<times> nat \<times> nat"
  lr_missing :: "nat \<times> nat \<times> nat"
  lr_duplicate :: "nat \<times> nat \<times> nat"
  lr_cross_identity :: nat
  lr_unexpected :: nat
  lr_findings :: "(string \<times> string) list"

definition count_subjects :: "(string \<Rightarrow> nat \<Rightarrow> bool) \<Rightarrow> pylib \<Rightarrow> ledger_row list \<Rightarrow> ledger_row list \<Rightarrow> nat" where
  "count_subjects P L employees rows = length (filter (\<lambda>e. P (subject L e) (length (of_subject L (subject L e) rows))) employees)"

definition ledger_report_of :: "trust \<Rightarrow> pylib \<Rightarrow> int \<Rightarrow> ledger_row list \<Rightarrow> ledger_row list \<Rightarrow> ledger_row list \<Rightarrow> ledger_row list
    \<Rightarrow> ledger_report" where
  "ledger_report_of T L now employees routes accounts keys =
     (let R = filter (route_live L) routes; A = filter (account_live L) accounts; K = filter (key_live L now) keys;
          F = ledger_findings L now employees routes accounts keys;
          missing = count_subjects (\<lambda>_ n. n = 0) L employees; duplicate = count_subjects (\<lambda>_ n. n > 1) L employees
      in \<lparr>lr_pass = (F = {}), lr_counts = (length employees, length R, length A, length K),
          lr_missing = (missing R, missing A, missing K), lr_duplicate = (duplicate R, duplicate A, duplicate K),
          lr_cross_identity = card {f \<in> F. fst f \<in> set CROSS_KINDS},
          lr_unexpected = card (subject L ` set (routes @ accounts @ keys) - subject L ` set employees),
          lr_findings = map (\<lambda>f. (fst f, tr_fp T (snd f))) (sorted_list_of_set F)\<rparr>)"

definition audit_ledger :: "trust \<Rightarrow> pylib \<Rightarrow> int \<Rightarrow> ledger_row list \<Rightarrow> ledger_row list \<Rightarrow> ledger_row list \<Rightarrow> ledger_row list
    \<Rightarrow> nat \<Rightarrow> ledger_report result" where
  "audit_ledger T L now employees routes accounts keys key_len =
     (if key_len < 16 then Inl InvalidLedgerInput
      else if \<not> list_all (has_subject L) employees \<or> employees = [] \<or> \<not> distinct (map (subject L) employees)
        \<or> \<not> list_all (\<lambda>e. solid L ''profile'' e \<and> startswith (col L ''open_id'' e) ''ou_'') employees
        \<or> \<not> distinct (map (\<lambda>e. py_str L (jget e ''profile'')) employees)
        \<or> \<not> distinct (map (\<lambda>e. py_str L (jget e ''open_id'')) employees)
        \<or> \<not> list_all (\<lambda>r. is_bool (jget r ''active'')) (routes @ accounts @ keys)
        \<or> \<not> list_all (has_subject L) routes \<or> \<not> list_all (has_subject L) accounts
      then Inl InvalidLedgerInput
      else rbind (check_keys L keys) (\<lambda>_. Inr (ledger_report_of T L now employees routes accounts keys)))"

text \<open>\<open>verify_snapshot\<close>: the four layers (None: the pinned read or the JSON text failed) carry one identifier.\<close>

definition verify_snapshot :: "trust \<Rightarrow> pylib \<Rightarrow> (string \<Rightarrow> int) \<Rightarrow> (string \<Rightarrow> json option) \<Rightarrow> nat \<Rightarrow> ledger_report result" where
  "verify_snapshot T L clk files key_len =
     (let load = \<lambda>layer. (case files layer of None \<Rightarrow> Inl InvalidLedgerInput | Some v \<Rightarrow> load_layer T L (clk layer) v layer)
      in if key_len < 16 \<or> key_len > 4096 then Inl InvalidLedgerInput
         else rbind (load ''employees'') (\<lambda>e. rbind (load ''routes'') (\<lambda>r. rbind (load ''accounts'') (\<lambda>a. rbind (load ''keys'') (\<lambda>k.
           if snd r \<noteq> snd e \<or> snd a \<noteq> snd e \<or> snd k \<noteq> snd e then Inl InvalidLedgerInput
           else audit_ledger T L (clk ''audit'') (fst e) (fst r) (fst a) (fst k) key_len)))))"

section \<open>What a passing report means\<close>

text \<open>The reference: the three layers are bijective with the roster and agree with it.\<close>

definition ledger_consistent :: "pylib \<Rightarrow> int \<Rightarrow> ledger_row list \<Rightarrow> ledger_row list \<Rightarrow> ledger_row list \<Rightarrow> ledger_row list \<Rightarrow> bool" where
  "ledger_consistent L now E R A K \<longleftrightarrow>
     (\<forall>r \<in> set R. route_live L r) \<and> (\<forall>a \<in> set A. account_live L a) \<and> (\<forall>k \<in> set K. key_live L now k)
     \<and> mset (map (subject L) R) = mset (map (subject L) E) \<and> mset (map (subject L) A) = mset (map (subject L) E)
     \<and> mset (map (subject L) K) = mset (map (subject L) E)
     \<and> (\<forall>e \<in> set E. \<forall>r \<in> set R. \<forall>a \<in> set A. \<forall>k \<in> set K.
          subject L r = subject L e \<and> subject L a = subject L e \<and> subject L k = subject L e \<longrightarrow>
          col L ''open_id'' r = col L ''open_id'' e \<and> col L ''profile'' r = col L ''profile'' e
          \<and> col L ''profile'' a = col L ''profile'' e \<and> col L ''profile'' k = col L ''profile'' e
          \<and> col L ''litellm_user_id'' k = col L ''litellm_user_id'' a)
     \<and> distinct (map (strip \<circ> col L ''profile'') R) \<and> distinct (map (strip \<circ> col L ''open_id'') R)
     \<and> distinct (map (strip \<circ> col L ''litellm_user_id'') A) \<and> distinct (map (strip \<circ> col L ''key_id'') K)"

lemma mset_map_eq_iff:
  assumes "distinct ys"
  shows "mset (map f xs) = mset ys \<longleftrightarrow> (\<forall>y \<in> set ys. length (filter (\<lambda>x. f x = y) xs) = 1) \<and> f ` set xs \<subseteq> set ys"
proof -
  have count: "count (mset (map f xs)) y = length (filter (\<lambda>x. f x = y) xs)" for y
    by (induction xs) auto
  have one: "count (mset ys) y = (if y \<in> set ys then 1 else 0)" for y
    using assms distinct_count_atmost_1 by metis
  have none: "length (filter (\<lambda>x. f x = y) xs) = 0 \<longleftrightarrow> y \<notin> f ` set xs" for y
    by (auto simp: filter_empty_conv)
  show ?thesis unfolding multiset_eq_iff count one using none by (auto split: if_splits)
qed

lemma distinct_map_through:
  assumes "distinct (map s xs)"
  shows "(\<forall>q \<in> set xs. \<forall>r \<in> set xs. v q = v r \<longrightarrow> s q = s r) \<longleftrightarrow> distinct (map v xs)"
  using assms by (auto simp: distinct_map inj_on_def)

lemma stale_empty [simp]: "stale_findings L k live rows = {} \<longleftrightarrow> (\<forall>r \<in> set rows. live r)"
  by (auto simp: stale_findings_def filter_empty_conv)

lemma length_one_list: "length xs = 1 \<longleftrightarrow> (\<exists>x. xs = [x])"
  by (simp add: length_Suc_conv)

lemma count_findings_empty [simp]: "count_findings L m d rows s = {} \<longleftrightarrow> length (of_subject L s rows) = 1"
  by (auto simp: count_findings_def split: list.splits)

lemma shared_empty:
  assumes "\<And>r. r \<in> set rows \<Longrightarrow> solid L field r" "distinct (map (subject L) rows)"
  shows "shared_findings L rows field kind = {} \<longleftrightarrow> distinct (map (strip \<circ> col L field) rows)"
  unfolding distinct_map_through [OF assms(2), symmetric]
  by (auto simp: shared_findings_def filter_empty_conv list_ex_iff assms(1))

lemma strip_Nil_iff: "strip s = [] \<longleftrightarrow> (\<forall>c \<in> set s. is_space c)"
proof -
  have "strip s = [] \<longleftrightarrow> (\<forall>c \<in> set (dropWhile is_space s). is_space c)" by (simp add: strip_def dropWhile_eq_Nil_conv)
  also have "\<dots> \<longleftrightarrow> (\<forall>c \<in> set s. is_space c)"
    by (induction s) auto
  finally show ?thesis .
qed

lemma solid_open: "startswith (col L ''open_id'' r) ''ou_'' \<Longrightarrow> solid L ''open_id'' r"
  by (cases "col L ''open_id'' r") (auto simp: solid_def strip_Nil_iff is_space_def)

lemma col_py_str: "col L k r \<noteq> [] \<Longrightarrow> py_str L (jget r k) = col L k r"
  by (simp add: col_def str_get_or_def split: if_splits)
lemma set_of_subject: "set (of_subject L s rows) = {r \<in> set rows. subject L r = s}"
  by (auto simp: of_subject_def)

lemma col_solid: "solid L k r \<Longrightarrow> py_str L (jget r k) = col L k r" "solid L k r \<Longrightarrow> col L k r \<noteq> []"
  using col_py_str [of L k r] by (cases "col L k r"; simp add: solid_def strip_Nil_iff)+

definition chained :: "pylib \<Rightarrow> ledger_row \<Rightarrow> ledger_row list \<Rightarrow> ledger_row list \<Rightarrow> ledger_row list \<Rightarrow> bool" where
  "chained L e R A K \<longleftrightarrow>
     (\<forall>r \<in> set R. \<forall>a \<in> set A. \<forall>k \<in> set K.
        subject L r = subject L e \<and> subject L a = subject L e \<and> subject L k = subject L e \<longrightarrow>
        col L ''open_id'' r = col L ''open_id'' e \<and> col L ''profile'' r = col L ''profile'' e
        \<and> col L ''profile'' a = col L ''profile'' e \<and> col L ''profile'' k = col L ''profile'' e
        \<and> col L ''litellm_user_id'' k = col L ''litellm_user_id'' a)"

lemma chained_iff:
  assumes one: "of_subject L (subject L e) R = [r]" "of_subject L (subject L e) A = [a]" "of_subject L (subject L e) K = [k]"
    and e: "solid L ''profile'' e" "solid L ''open_id'' e" and a: "solid L ''litellm_user_id'' a"
  shows "roster_findings L e R = {} \<and> key_findings L (subject L e) R A K = {} \<longleftrightarrow> chained L e R A K"
proof -
  have only: "x \<in> set R \<and> subject L x = subject L e \<longleftrightarrow> x = r" "x \<in> set A \<and> subject L x = subject L e \<longleftrightarrow> x = a"
    "x \<in> set K \<and> subject L x = subject L e \<longleftrightarrow> x = k" for x
    using one [THEN arg_cong [of _ _ set]] by (auto simp: set_of_subject)
  have "chained L e R A K \<longleftrightarrow> col L ''open_id'' r = col L ''open_id'' e \<and> col L ''profile'' r = col L ''profile'' e
        \<and> col L ''profile'' a = col L ''profile'' e \<and> col L ''profile'' k = col L ''profile'' e
        \<and> col L ''litellm_user_id'' k = col L ''litellm_user_id'' a"
    unfolding chained_def using only by metis
  then show ?thesis
    by (auto simp: roster_findings_def key_findings_def one col_solid [OF e(1)] col_solid [OF e(2)] col_solid(2) [OF a])
qed

lemma bijective_iff:
  assumes "distinct (map (subject L) E)"
  shows "mset (map (subject L) R) = mset (map (subject L) E) \<longleftrightarrow>
    (\<forall>e \<in> set E. length (of_subject L (subject L e) R) = 1) \<and> subject L ` set R \<subseteq> subject L ` set E"
  unfolding mset_map_eq_iff [OF assms] by (auto simp: of_subject_def)

lemma ledger_consistent_alt:
  "ledger_consistent L now E R A K \<longleftrightarrow>
     (\<forall>r \<in> set R. route_live L r) \<and> (\<forall>a \<in> set A. account_live L a) \<and> (\<forall>k \<in> set K. key_live L now k)
     \<and> mset (map (subject L) R) = mset (map (subject L) E) \<and> mset (map (subject L) A) = mset (map (subject L) E)
     \<and> mset (map (subject L) K) = mset (map (subject L) E)
     \<and> (\<forall>e \<in> set E. chained L e R A K)
     \<and> distinct (map (strip \<circ> col L ''profile'') R) \<and> distinct (map (strip \<circ> col L ''open_id'') R)
     \<and> distinct (map (strip \<circ> col L ''litellm_user_id'') A) \<and> distinct (map (strip \<circ> col L ''key_id'') K)"
  unfolding ledger_consistent_def chained_def by blast

lemma live_solid:
  "route_live L r \<Longrightarrow> solid L ''profile'' r" "route_live L r \<Longrightarrow> solid L ''open_id'' r"
  "account_live L r \<Longrightarrow> solid L ''litellm_user_id'' r" "key_live L now r \<Longrightarrow> solid L ''key_id'' r"
  by (auto simp: route_live_def account_live_def key_live_def intro: solid_open)

lemma findings_live:
  "ledger_findings L now E R A K = {} \<longleftrightarrow>
     (\<forall>r \<in> set R. route_live L r) \<and> (\<forall>a \<in> set A. account_live L a) \<and> (\<forall>k \<in> set K. key_live L now k)
     \<and> (\<forall>e \<in> set E. length (of_subject L (subject L e) R) = 1 \<and> length (of_subject L (subject L e) A) = 1
          \<and> length (of_subject L (subject L e) K) = 1 \<and> roster_findings L e R = {} \<and> key_findings L (subject L e) R A K = {})
     \<and> shared_findings L R ''profile'' ''shared_profile'' = {} \<and> shared_findings L R ''open_id'' ''shared_open_id'' = {}
     \<and> shared_findings L A ''litellm_user_id'' ''shared_account'' = {} \<and> shared_findings L K ''key_id'' ''shared_key'' = {}
     \<and> subject L ` set R \<subseteq> subject L ` set E \<and> subject L ` set A \<subseteq> subject L ` set E \<and> subject L ` set K \<subseteq> subject L ` set E"
  (is "_ \<longleftrightarrow> ?rhs")
proof (cases "(\<forall>r \<in> set R. route_live L r) \<and> (\<forall>a \<in> set A. account_live L a) \<and> (\<forall>k \<in> set K. key_live L now k)")
  case True
  then have "filter (route_live L) R = R" "filter (account_live L) A = A" "filter (key_live L now) K = K"
    by (simp_all add: filter_True)
  with True show ?thesis
    by (simp add: ledger_findings_def image_Un Un_Diff Diff_eq_empty_iff ball_conj_distrib conj_ac del: One_nat_def)
next
  case False
  then have "ledger_findings L now E R A K \<noteq> {}"
    using stale_empty [of L "''route_not_active_trusted''" "route_live L" R]
      stale_empty [of L "''account_not_active_enforced''" "account_live L" A] stale_empty [of L "''key_not_current''" "key_live L now" K]
    unfolding ledger_findings_def Let_def by blast
  with False show ?thesis by blast
qed

lemma findings_empty_iff:
  assumes E: "distinct (map (subject L) E)"
    and solid: "\<And>e. e \<in> set E \<Longrightarrow> solid L ''profile'' e \<and> startswith (col L ''open_id'' e) ''ou_''"
  shows "ledger_findings L now E R A K = {} \<longleftrightarrow> ledger_consistent L now E R A K"
proof (cases "(\<forall>r \<in> set R. route_live L r) \<and> (\<forall>a \<in> set A. account_live L a) \<and> (\<forall>k \<in> set K. key_live L now k)
    \<and> mset (map (subject L) R) = mset (map (subject L) E) \<and> mset (map (subject L) A) = mset (map (subject L) E)
    \<and> mset (map (subject L) K) = mset (map (subject L) E)")
  case True
  note bij = True [unfolded bijective_iff [OF E]]
  have "distinct (map (subject L) R)" "distinct (map (subject L) A)" "distinct (map (subject L) K)"
    using True E by (metis mset_eq_imp_distinct_iff)+
  then have shared: "shared_findings L R ''profile'' k = {} \<longleftrightarrow> distinct (map (strip \<circ> col L ''profile'') R)"
    "shared_findings L R ''open_id'' k = {} \<longleftrightarrow> distinct (map (strip \<circ> col L ''open_id'') R)"
    "shared_findings L A ''litellm_user_id'' k = {} \<longleftrightarrow> distinct (map (strip \<circ> col L ''litellm_user_id'') A)"
    "shared_findings L K ''key_id'' k = {} \<longleftrightarrow> distinct (map (strip \<circ> col L ''key_id'') K)" for k
    using True live_solid by (auto intro!: shared_empty)
  have link: "roster_findings L e R = {} \<and> key_findings L (subject L e) R A K = {} \<longleftrightarrow> chained L e R A K" if e: "e \<in> set E" for e
  proof -
    obtain r a k where one: "of_subject L (subject L e) R = [r]" "of_subject L (subject L e) A = [a]" "of_subject L (subject L e) K = [k]"
      using bij e unfolding length_one_list by metis
    have "a \<in> set A" using arg_cong [OF one(2), of set] by (auto simp: set_of_subject)
    then have "account_live L a" using True by blast
    then show ?thesis using solid [OF e] by (intro chained_iff [OF one] solid_open live_solid(3)) auto
  qed
  have ones: "length (of_subject L (subject L e) R) = 1" "length (of_subject L (subject L e) A) = 1"
    "length (of_subject L (subject L e) K) = 1" if "e \<in> set E" for e
    using bij that by auto
  have each: "(\<forall>e \<in> set E. length (of_subject L (subject L e) R) = 1 \<and> length (of_subject L (subject L e) A) = 1
          \<and> length (of_subject L (subject L e) K) = 1 \<and> roster_findings L e R = {} \<and> key_findings L (subject L e) R A K = {})
      \<longleftrightarrow> (\<forall>e \<in> set E. chained L e R A K)"
    using ones link by (intro ball_cong) simp_all
  show ?thesis unfolding findings_live ledger_consistent_alt shared each using bij True by simp
next
  case False
  have "ledger_findings L now E R A K \<noteq> {}"
  proof
    assume "ledger_findings L now E R A K = {}"
    note F = this [unfolded findings_live]
    have "mset (map (subject L) X) = mset (map (subject L) E)" if "X \<in> {R, A, K}" for X
      unfolding bijective_iff [OF E] using F that by auto
    then show False using False F by simp
  qed
  moreover have "\<not> ledger_consistent L now E R A K" using False unfolding ledger_consistent_alt by argo
  ultimately show ?thesis by blast
qed
lemma check_keys_ok: "check_keys L K = Inr () \<Longrightarrow> k \<in> set K \<Longrightarrow> has_subject L k \<and> (\<exists>e. py_int_of (jget k ''expires_at'') = Inr e)"
  by (induction L K rule: check_keys.induct) (auto simp: rbind_Inr split: if_splits)

lemma audit_cases:
  assumes "audit_ledger T L now E R A K n = Inr rep"
  obtains "16 \<le> n" "E \<noteq> []" "distinct (map (subject L) E)"
    "\<And>e. e \<in> set E \<Longrightarrow> solid L ''profile'' e \<and> startswith (col L ''open_id'' e) ''ou_''"
    "check_keys L K = Inr ()" "rep = ledger_report_of T L now E R A K"
  using assms by (auto simp: audit_ledger_def rbind_Inr list_all_iff split: if_splits)

lemma finite_ledger_findings: "finite (ledger_findings L now E R A K)"
proof -
  have "finite (count_findings L m d rows s)" for m d rows s by (auto simp: count_findings_def split: list.splits)
  moreover have "finite (roster_findings L e rows)" for e rows by (auto simp: roster_findings_def split: list.splits)
  moreover have "finite (key_findings L s r a k)" for s r a k by (auto simp: key_findings_def split: list.splits)
  ultimately show ?thesis by (simp add: ledger_findings_def Let_def stale_findings_def shared_findings_def)
qed

lemma consistent_counts:
  assumes E: "distinct (map (subject L) E)" and ok: "ledger_consistent L now E R A K"
  shows "lr_counts (ledger_report_of T L now E R A K) = (length E, length E, length E, length E)"
    "lr_missing (ledger_report_of T L now E R A K) = (0, 0, 0)" "lr_duplicate (ledger_report_of T L now E R A K) = (0, 0, 0)"
proof -
  note ok = ok [unfolded ledger_consistent_alt]
  have live: "filter (route_live L) R = R" "filter (account_live L) A = A" "filter (key_live L now) K = K"
    using ok by (simp_all add: filter_True)
  have len: "length R = length E" "length A = length E" "length K = length E"
    using ok by (metis size_mset length_map)+
  have one: "length (of_subject L (subject L e) rows) = 1" if "rows \<in> {R, A, K}" "e \<in> set E" for e rows
    using that ok bijective_iff [OF E, of R] bijective_iff [OF E, of A] bijective_iff [OF E, of K] by auto
  have none: "count_subjects P L E rows = 0" if "rows \<in> {R, A, K}" "\<And>s. \<not> P s 1" for P rows
    using one [OF that(1)] that(2) by (auto simp: count_subjects_def filter_empty_conv)
  show "lr_counts (ledger_report_of T L now E R A K) = (length E, length E, length E, length E)"
    by (simp add: ledger_report_of_def Let_def live len)
  show "lr_missing (ledger_report_of T L now E R A K) = (0, 0, 0)" "lr_duplicate (ledger_report_of T L now E R A K) = (0, 0, 0)"
    by (simp_all add: ledger_report_of_def Let_def live none)
qed

section \<open>Properties\<close>

text \<open>C18. A report passes exactly when the snapshot is consistent with the roster: every row is live, routes, accounts
  and keys each hold every employee exactly once and nobody else, each employee's route, account and key agree on
  identity, profile and billing user, and no profile, identity, billing user or key belongs to two people. The
  counts of a passing report are then the roster's, with nothing missing or duplicated, and it lists no finding.\<close>

theorem ledger_pass_iff_consistent:
  assumes "audit_ledger T L now E R A K n = Inr rep"
  shows "(lr_pass rep \<longleftrightarrow> ledger_consistent L now E R A K) \<and> (lr_pass rep \<longleftrightarrow> lr_findings rep = [])
    \<and> (lr_pass rep \<longrightarrow> lr_counts rep = (length E, length E, length E, length E) \<and> lr_missing rep = (0, 0, 0)
        \<and> lr_duplicate rep = (0, 0, 0) \<and> lr_cross_identity rep = 0 \<and> lr_unexpected rep = 0)"
proof -
  obtain E: "distinct (map (subject L) E)"
    "\<And>e. e \<in> set E \<Longrightarrow> solid L ''profile'' e \<and> startswith (col L ''open_id'' e) ''ou_''"
    and rep: "rep = ledger_report_of T L now E R A K"
    using audit_cases [OF assms] by metis
  have pass: "lr_pass rep \<longleftrightarrow> ledger_findings L now E R A K = {}" by (simp add: rep ledger_report_of_def Let_def)
  have iff: "lr_pass rep \<longleftrightarrow> ledger_consistent L now E R A K"
    unfolding pass by (rule findings_empty_iff [OF E])
  have "lr_pass rep \<longleftrightarrow> lr_findings rep = []"
    unfolding pass using finite_ledger_findings by (simp add: rep ledger_report_of_def Let_def)
  moreover have "lr_cross_identity rep = 0" "lr_unexpected rep = 0" if "lr_pass rep"
  proof -
    have F: "ledger_findings L now E R A K = {}" using that pass by blast
    then show "lr_cross_identity rep = 0" by (simp add: rep ledger_report_of_def Let_def)
    have "subject L ` set (R @ A @ K) - subject L ` set E = {}" using F [unfolded findings_live] by auto
    then show "lr_unexpected rep = 0" by (simp add: rep ledger_report_of_def Let_def)
  qed
  ultimately show ?thesis using iff consistent_counts [OF E(1)] unfolding rep by blast
qed

lemma infinite_expiry_overflows:
  "check_keys L ([(''employee_id'', JStr ''e1''), (''expires_at'', JFloat (Infinite True))] # K) = Inl OverflowError"
  by (simp add: has_subject_def col_def str_get_or_def jget_def truthy_def py_str_def employee_id_ok_def strip_def is_space_def
      ascii_alnum_def py_int_of_def)
definition demo_ledger_row :: "(string \<times> json) list \<Rightarrow> ledger_row" where
  "demo_ledger_row extra = [(''employee_id'', JStr ''E1''), (''profile'', JStr ''p''), (''open_id'', JStr ''ou_a''), (''active'', JBool True)] @ extra"

definition demo_employee :: ledger_row where "demo_employee = demo_ledger_row []"

definition demo_route_row :: ledger_row where
  "demo_route_row = demo_ledger_row [(''kind'', JStr ''user''), (''provenance'', JStr ''sync'')]"

definition demo_account :: ledger_row where
  "demo_account = demo_ledger_row [(''migration_state'', JStr ''enforced''), (''litellm_user_id'', JStr ''u'')]"

definition demo_key :: ledger_row where
  "demo_key = demo_ledger_row [(''expires_at'', JInt 50), (''litellm_user_id'', JStr ''u''), (''key_id'', JStr ''k'')]"

lemmas demo_ledger = demo_employee_def demo_route_row_def demo_account_def demo_key_def demo_ledger_row_def has_subject_def col_def
  str_get_or_def jget_def truthy_def py_str_def employee_id_ok_def strip_def is_space_def ascii_alnum_def solid_def is_bool_def
  subject_def lower_def lower_char_def py_int_of_def route_live_def account_live_def key_live_def

lemma demo_audit: "audit_ledger T L 10 [demo_employee] [demo_route_row] [demo_account] [demo_key] 16 =
    Inr (ledger_report_of T L 10 [demo_employee] [demo_route_row] [demo_account] [demo_key])"
  by (simp add: audit_ledger_def demo_ledger)

definition demo_trust :: trust where
  "demo_trust = \<lparr>tr_b64 = \<lambda>s. Some s, tr_verify = \<lambda>s m. startswith m s, tr_canon = \<lambda>_. ''c'', tr_fp = id\<rparr>"

lemma ledger_pass_iff_consistent_witness:
  "lr_pass (ledger_report_of demo_trust demo_lib 10 [demo_employee] [demo_route_row] [demo_account] [demo_key])"
proof -
  have "ledger_consistent demo_lib 10 [demo_employee] [demo_route_row] [demo_account] [demo_key]"
    by (simp add: ledger_consistent_def demo_ledger)
  then show ?thesis using ledger_pass_iff_consistent [OF demo_audit [of demo_trust demo_lib]] by blast
qed

text \<open>One layer as the operator signed it, read at \<open>now\<close>.\<close>

definition signed_layer :: "trust \<Rightarrow> pylib \<Rightarrow> int \<Rightarrow> json option \<Rightarrow> string \<Rightarrow> ledger_row list \<Rightarrow> string \<Rightarrow> bool" where
  "signed_layer T L now file layer rows sid \<longleftrightarrow> (\<exists>d i e sig. file = Some (JObj d) \<and> jget d ''audience'' = JStr AUDIENCE
     \<and> py_str L (jget d ''snapshot_id'') = sid \<and> snapshot_id_ok sid \<and> snapshot_rows (jget d ''rows'') = Some rows
     \<and> py_int_of (jget d ''issued_at_ms'') = Inr i \<and> py_int_of (jget d ''expires_at_ms'') = Inr e
     \<and> 0 < i \<and> i \<le> now \<and> now < e \<and> e \<le> i + 1800000 \<and> tr_b64 T (py_str L (jget d ''signature'')) = Some sig
     \<and> tr_verify T sig (''hermes-account-ledger:'' @ layer @ '':v1'' @ [CHR 0x0A]
          @ tr_canon T (JObj (filter (\<lambda>e. fst e \<noteq> ''signature'') d))))"

lemma load_layer_signed:
  assumes "load_layer T L now v layer = Inr (rows, sid)"
  shows "signed_layer T L now (Some v) layer rows sid"
proof -
  obtain d where d: "v = JObj d" using assms by (auto simp: load_layer_def as_row_def split: json.splits)
  obtain i e where ie: "py_int_of (jget d ''issued_at_ms'') = Inr i" "py_int_of (jget d ''expires_at_ms'') = Inr e"
    using assms by (auto simp: load_layer_def as_row_def d rbind_Inr split: if_splits)
  obtain rs where rs: "snapshot_rows (jget d ''rows'') = Some rs"
    using assms by (auto simp: load_layer_def as_row_def d ie split: if_splits option.splits)
  obtain sig where sig: "tr_b64 T (py_str L (jget d ''signature'')) = Some sig"
    using assms by (auto simp: load_layer_def as_row_def d ie rs split: if_splits option.splits)
  show ?thesis
    using assms unfolding signed_layer_def
    by (intro exI [of _ d] exI [of _ i] exI [of _ e] exI [of _ sig])
      (simp add: load_layer_def as_row_def d ie rs sig split: if_splits)
qed

text \<open>A snapshot is only audited when each of its four layers is a file signed for that very layer, for this
  audience, read within its validity window of at most thirty minutes, and all four carry one snapshot identifier:
  layers of different snapshots, an expired layer, or a layer signed as another are refused. The report is about
  exactly the signed rows.\<close>

lemma audited_snapshot_signed:
  assumes "verify_snapshot T L clk files n = Inr rep"
  shows "16 \<le> n \<and> n \<le> 4096 \<and> (\<exists>sid rows. (\<forall>layer \<in> set LAYERS. signed_layer T L (clk layer) (files layer) layer (rows layer) sid)
    \<and> rep = ledger_report_of T L (clk ''audit'') (rows ''employees'') (rows ''routes'') (rows ''accounts'') (rows ''keys''))"
proof -
  let ?load = "\<lambda>layer. (case files layer of None \<Rightarrow> Inl InvalidLedgerInput | Some v \<Rightarrow> load_layer T L (clk layer) v layer)"
  obtain E R A K where n: "16 \<le> n" "n \<le> 4096"
    and ld: "?load ''employees'' = Inr E" "?load ''routes'' = Inr R" "?load ''accounts'' = Inr A" "?load ''keys'' = Inr K"
    and same: "snd R = snd E" "snd A = snd E" "snd K = snd E"
    and au: "audit_ledger T L (clk ''audit'') (fst E) (fst R) (fst A) (fst K) n = Inr rep"
    using assms by (auto simp: verify_snapshot_def rbind_Inr split: if_splits)
  define rows where "rows layer = (if layer = ''employees'' then fst E else if layer = ''routes'' then fst R
    else if layer = ''accounts'' then fst A else fst K)" for layer :: string
  have signed: "signed_layer T L (clk layer) (files layer) layer (fst x) (snd E)" if "?load layer = Inr x" "snd x = snd E" for layer x
    using that by (cases "files layer"; cases x) (auto intro: load_layer_signed)
  have "\<forall>layer \<in> set LAYERS. signed_layer T L (clk layer) (files layer) layer (rows layer) (snd E)"
    using signed [OF ld(1) refl] signed [OF ld(2) same(1)] signed [OF ld(3) same(2)] signed [OF ld(4) same(3)]
    by (simp add: LAYERS_def rows_def)
  moreover have "rep = ledger_report_of T L (clk ''audit'') (rows ''employees'') (rows ''routes'') (rows ''accounts'') (rows ''keys'')"
    using audit_cases [OF au] by (simp add: rows_def)
  ultimately show ?thesis using n by blast
qed

definition demo_layer :: "ledger_row \<Rightarrow> string \<Rightarrow> json" where
  "demo_layer r layer = JObj [(''version'', JInt 1), (''audience'', JStr AUDIENCE), (''snapshot_id'', JStr (replicate 32 CHR ''a'')),
     (''issued_at_ms'', JInt 5), (''expires_at_ms'', JInt 100), (''rows'', JArr [JObj r]),
     (''signature'', JStr (''hermes-account-ledger:'' @ layer))]"

definition demo_files :: "string \<Rightarrow> json option" where
  "demo_files = (\<lambda>_. None)(''employees'' := Some (demo_layer demo_employee ''employees''), ''routes'' := Some (demo_layer demo_route_row ''routes''),
     ''accounts'' := Some (demo_layer demo_account ''accounts''), ''keys'' := Some (demo_layer demo_key ''keys''))"

lemma demo_layer_loads: "load_layer demo_trust L 10 (demo_layer r layer) layer = Inr ([r], replicate 32 CHR ''a'')"
proof -
  have "startswith (s @ t) s" for s t by (induction s) auto
  from this [of "''hermes-account-ledger:'' @ layer" "'':v1'' @ [CHR 0x0A] @ ''c''"] show ?thesis
    by (simp add: load_layer_def demo_layer_def as_row_def jget_def py_int_of_def snapshot_rows_def equals_one_def snapshot_id_ok_def
        py_str_def demo_trust_def insert_commute list_all_iff)
qed

lemma audited_snapshot_signed_witness:
  "\<exists>rows sid. signed_layer demo_trust demo_lib 10 (demo_files ''keys'') ''keys'' rows sid"
proof -
  have "verify_snapshot demo_trust demo_lib (\<lambda>_. 10) demo_files 16
      = Inr (ledger_report_of demo_trust demo_lib 10 [demo_employee] [demo_route_row] [demo_account] [demo_key])"
    by (simp add: verify_snapshot_def demo_files_def demo_layer_loads demo_audit)
  from audited_snapshot_signed [OF this] show ?thesis by (auto simp: LAYERS_def)
qed

end
