(* ===== verification/Operation_Checkpoint.thy ===== *)
theory Operation_Checkpoint
  imports Hermes_Prelude "HOL-Library.List_Lexorder"
begin

text \<open>
  The checkpoint ledger of connector operations (\<open>src/hermes_multitenancy/operation_checkpoint.py\<close>): opaque
  rows bound to an actor and an intent, claimed once, moved by compare-and-swap and found again for recovery.
  SHA-256 (as hexadecimal digits) is the argument \<open>H\<close>, the clock's reading \<open>now\<close>.
\<close>

section \<open>Model\<close>

definition STATES :: "string list" where
  "STATES = [''pending'', ''running'', ''waiting_auth'', ''uncertain'', ''confirmed'', ''failed'', ''consumed'']"

definition NO_REF_RECOVERY_MAX_AGE :: int where "NO_REF_RECOVERY_MAX_AGE = 15 * 60"

record checkpoint =
  oc_id :: string
  oc_owner :: string
  oc_connector :: string
  oc_intent :: string
  oc_step :: string
  oc_state :: string
  oc_session :: "string option"
  oc_call :: "string option"
  oc_result :: "string option"
  oc_scope :: "string option"
  oc_chat_type :: "string option"
  oc_chat_fence :: "string option"
  oc_updated_at :: int

definition NUL :: char where "NUL = CHR 0x00"

definition digest :: "(string \<Rightarrow> string) \<Rightarrow> string list \<Rightarrow> string" where
  "digest H parts = H (join_sep NUL parts)"

text \<open>\<open>_required\<close>, and its use on an optional reference: an empty one is NULL.\<close>

definition required :: "string \<Rightarrow> string \<Rightarrow> string result" where
  "required v name =
     (let clean = strip v
      in if clean = [] \<or> char_count clean > 240
         then Inl (ValueError (name @ '' is required and must be at most 240 characters'')) else Inr clean)"

definition optional :: "string option \<Rightarrow> string \<Rightarrow> string option result" where
  "optional v name = (if str_or_empty v = [] then Inr None else rbind (required (str_or_empty v) name) (\<lambda>x. Inr (Some x)))"

definition stable_operation_id :: "(string \<Rightarrow> string) \<Rightarrow> string \<Rightarrow> string \<Rightarrow> string \<Rightarrow> string \<Rightarrow> string result" where
  "stable_operation_id H profile subject connector intent =
     rbind (required profile ''profile_name'') (\<lambda>p. rbind (required subject ''subject'') (\<lambda>s.
     rbind (required connector ''connector'') (\<lambda>c. rbind (required intent ''intent_key'') (\<lambda>i.
     Inr (''op_'' @ take 40 (digest H [p, s, c, i]))))))"

definition owner_of :: "(string \<Rightarrow> string) \<Rightarrow> string \<Rightarrow> string \<Rightarrow> string result" where
  "owner_of H profile subject =
     rbind (required profile ''profile_name'') (\<lambda>p. rbind (required subject ''subject'') (\<lambda>s. Inr (digest H [p, s])))"

text \<open>The indexes: the primary key and one row per owner, connector and intent.\<close>

definition intent_key :: "checkpoint \<Rightarrow> string \<times> string \<times> string" where
  "intent_key r = (oc_owner r, oc_connector r, oc_intent r)"

definition checkpoint_indexes :: "checkpoint list \<Rightarrow> bool" where
  "checkpoint_indexes t \<longleftrightarrow> distinct (map oc_id t) \<and> distinct (map intent_key t)"

text \<open>The columns that the caller sees.\<close>

record public_checkpoint =
  pc_id :: string
  pc_connector :: string
  pc_step :: string
  pc_state :: string
  pc_refs :: "string option \<times> string option \<times> string option"
  pc_sealed :: "(string option \<times> string option \<times> string option) option"

definition public_row :: "checkpoint \<Rightarrow> public_checkpoint" where
  "public_row r = \<lparr>pc_id = oc_id r, pc_connector = oc_connector r, pc_step = oc_step r, pc_state = oc_state r,
     pc_refs = (oc_session r, oc_call r, oc_result r),
     pc_sealed = (if str_or_empty (oc_scope r) \<noteq> [] \<or> str_or_empty (oc_chat_type r) \<noteq> [] \<or> str_or_empty (oc_chat_fence r) \<noteq> []
       then Some (oc_scope r, oc_chat_type r, oc_chat_fence r) else None)\<rparr>"

text \<open>A sealed scope is absent or complete and consistent.\<close>

definition scope_ok :: "string option \<Rightarrow> string option \<Rightarrow> string option \<Rightarrow> bool" where
  "scope_ok scope chat_type fence \<longleftrightarrow> scope = None \<and> chat_type = None \<and> fence = None
     \<or> scope \<in> {Some ''feishu:user'', Some ''feishu:bot''} \<and> chat_type \<in> {Some ''p2p'', Some ''group''}
       \<and> ((scope = Some ''feishu:bot'') = (chat_type = Some ''group'')) \<and> fence \<noteq> None"

record checkpoint_args =
  ca_profile :: string
  ca_subject :: string
  ca_connector :: string
  ca_intent :: string
  ca_step :: string
  ca_session :: "string option"
  ca_call :: "string option"
  ca_result :: "string option"
  ca_scope :: "string option"
  ca_chat_type :: "string option"
  ca_chat_fence :: "string option"

text \<open>The last validations that \<open>put\<close> and \<open>claim\<close> share, giving the row to be written.\<close>

definition sealed_row :: "int \<Rightarrow> string \<Rightarrow> string \<Rightarrow> string \<Rightarrow> string \<Rightarrow> string \<Rightarrow> string \<Rightarrow> string option \<Rightarrow> string option \<Rightarrow> string option
    \<Rightarrow> checkpoint_args \<Rightarrow> checkpoint result" where
  "sealed_row now oid owner connector intent step state session call res a =
     rbind (optional (ca_scope a) ''tool_scope'') (\<lambda>scope. rbind (optional (ca_chat_type a) ''chat_type'') (\<lambda>ct.
     rbind (optional (ca_chat_fence a) ''chat_fence'') (\<lambda>fence.
     if \<not> scope_ok scope ct fence then Inl (ValueError ''sealed Feishu scope is incomplete or inconsistent'')
     else Inr \<lparr>oc_id = oid, oc_owner = owner, oc_connector = connector, oc_intent = intent, oc_step = step, oc_state = state,
       oc_session = session, oc_call = call, oc_result = res, oc_scope = scope, oc_chat_type = ct, oc_chat_fence = fence,
       oc_updated_at = now\<rparr>)))"

definition put_row :: "(string \<Rightarrow> string) \<Rightarrow> int \<Rightarrow> string \<Rightarrow> string \<Rightarrow> checkpoint_args \<Rightarrow> checkpoint result" where
  "put_row H now operation_id state a =
     rbind (required operation_id ''operation_id'') (\<lambda>oid. rbind (required (ca_connector a) ''connector'') (\<lambda>connector.
     rbind (required (ca_step a) ''step'') (\<lambda>step. rbind (required state ''state'') (\<lambda>st.
     if st \<notin> set STATES then Inl (ValueError (''unsupported checkpoint state '' @ st))
     else rbind (owner_of H (ca_profile a) (ca_subject a)) (\<lambda>owner. rbind (required (ca_intent a) ''intent_key'') (\<lambda>i.
     rbind (optional (ca_session a) ''session_ref'') (\<lambda>session. rbind (optional (ca_call a) ''call_ref'') (\<lambda>call.
     rbind (optional (ca_result a) ''result_ref'') (\<lambda>res.
     sealed_row now oid owner connector (digest H [i]) step st session call res a)))))))))"

text \<open>\<open>ON CONFLICT(operation_id) DO UPDATE\<close> leaves the owner; a clash with another row's intent raises.\<close>

definition put_set :: "checkpoint \<Rightarrow> checkpoint \<Rightarrow> checkpoint" where
  "put_set new r = new\<lparr>oc_id := oc_id r, oc_owner := oc_owner r\<rparr>"

definition checkpoint_put :: "(string \<Rightarrow> string) \<Rightarrow> int \<Rightarrow> checkpoint list \<Rightarrow> string \<Rightarrow> string \<Rightarrow> checkpoint_args \<Rightarrow> checkpoint list result" where
  "checkpoint_put H now db operation_id state a =
     rbind (put_row H now operation_id state a) (\<lambda>new.
     case tbl_get oc_id db (oc_id new) of
       Some r \<Rightarrow> if oc_owner r \<noteq> oc_owner new then Inl (PermissionError ''operation checkpoint belongs to another actor'')
                 else (let t = sql_update (\<lambda>q. oc_id q = oc_id new) (put_set new) db
                       in if checkpoint_indexes t then Inr t else Inl IntegrityError)
     | None \<Rightarrow> if checkpoint_indexes (db @ [new]) then Inr (db @ [new]) else Inl IntegrityError)"

definition claim_row :: "(string \<Rightarrow> string) \<Rightarrow> int \<Rightarrow> checkpoint_args \<Rightarrow> checkpoint result" where
  "claim_row H now a =
     rbind (stable_operation_id H (ca_profile a) (ca_subject a) (ca_connector a) (ca_intent a)) (\<lambda>oid.
     rbind (owner_of H (ca_profile a) (ca_subject a)) (\<lambda>owner. rbind (required (ca_connector a) ''connector'') (\<lambda>connector.
     rbind (required (ca_intent a) ''intent_key'') (\<lambda>i. rbind (required (ca_step a) ''step'') (\<lambda>step.
     rbind (optional (ca_session a) ''session_ref'') (\<lambda>session. rbind (optional (ca_call a) ''call_ref'') (\<lambda>call.
     sealed_row now oid owner connector (digest H [i]) step ''running'' session call None a)))))))"

text \<open>\<open>INSERT OR IGNORE\<close>, then the read of the row under the same identifier and owner.\<close>

definition checkpoint_claim :: "(string \<Rightarrow> string) \<Rightarrow> int \<Rightarrow> checkpoint list \<Rightarrow> checkpoint_args
    \<Rightarrow> (checkpoint list \<times> (public_checkpoint \<times> bool) result) result" where
  "checkpoint_claim H now db a =
     rbind (claim_row H now a) (\<lambda>new.
     let created = checkpoint_indexes (db @ [new]); db' = (if created then db @ [new] else db)
     in Inr (db', case fetchone (filter (\<lambda>r. oc_id r = oc_id new \<and> oc_owner r = oc_owner new) db') of
          None \<Rightarrow> Inl (RuntimeError ''operation checkpoint claim failed'')
        | Some r \<Rightarrow> Inr (public_row r, created)))"

definition checkpoint_get :: "(string \<Rightarrow> string) \<Rightarrow> checkpoint list \<Rightarrow> string \<Rightarrow> string \<Rightarrow> string \<Rightarrow> public_checkpoint option result" where
  "checkpoint_get H db operation_id profile subject =
     rbind (owner_of H profile subject) (\<lambda>owner. rbind (required operation_id ''operation_id'') (\<lambda>oid.
     Inr (map_option public_row (fetchone (filter (\<lambda>r. oc_id r = oid \<and> oc_owner r = owner) db)))))"

text \<open>\<open>ORDER BY updated_at DESC, operation_id DESC\<close>; the second key orders the rows of one second.\<close>

definition by_recency :: "checkpoint list \<Rightarrow> checkpoint list" where
  "by_recency t = sort_key (\<lambda>r. - oc_updated_at r) (rev (sort_key (\<lambda>r. map (of_char :: char \<Rightarrow> nat) (oc_id r)) t))"

definition find_pending :: "(string \<Rightarrow> string) \<Rightarrow> int \<Rightarrow> checkpoint list \<Rightarrow> string \<Rightarrow> string \<Rightarrow> string \<Rightarrow> string option \<Rightarrow> string option
    \<Rightarrow> public_checkpoint option result" where
  "find_pending H now db profile subject connector session_ref call_ref =
     rbind (owner_of H profile subject) (\<lambda>owner. rbind (optional session_ref ''session_ref'') (\<lambda>session.
     rbind (optional call_ref ''call_ref'') (\<lambda>call. rbind (required connector ''connector'') (\<lambda>c.
     Inr (if (session = None) \<noteq> (call = None) then None
          else if session = None
          then map_option public_row (fetch_unique (take 2 (by_recency (filter (\<lambda>r. oc_owner r = owner \<and> oc_connector r = c
                 \<and> oc_state r = ''waiting_auth'' \<and> oc_session r \<noteq> None \<and> oc_call r \<noteq> None
                 \<and> oc_updated_at r \<ge> now - NO_REF_RECOVERY_MAX_AGE) db))))
          else map_option public_row (fetchone (by_recency (filter (\<lambda>r. oc_owner r = owner \<and> oc_connector r = c
                 \<and> oc_state r \<in> {''running'', ''waiting_auth'', ''uncertain''} \<and> oc_session r = session \<and> oc_call r = call) db))))))))"

definition transition_set :: "int \<Rightarrow> string \<Rightarrow> string \<Rightarrow> string option \<Rightarrow> checkpoint \<Rightarrow> checkpoint" where
  "transition_set now state step res r =
     r\<lparr>oc_state := state, oc_step := step, oc_result := coalesce res (oc_result r), oc_updated_at := now\<rparr>"

definition transition :: "(string \<Rightarrow> string) \<Rightarrow> int \<Rightarrow> checkpoint list \<Rightarrow> string \<Rightarrow> string \<Rightarrow> string \<Rightarrow> string \<Rightarrow> string \<Rightarrow> string
    \<Rightarrow> string option \<Rightarrow> (checkpoint list \<times> bool) result" where
  "transition H now db operation_id profile subject expected state step result_ref =
     rbind (required expected ''expected_state'') (\<lambda>ex. rbind (required state ''state'') (\<lambda>st.
     if ex \<notin> set STATES \<or> st \<notin> set STATES then Inl (ValueError ''unsupported checkpoint state'')
     else rbind (owner_of H profile subject) (\<lambda>owner. rbind (optional result_ref ''result_ref'') (\<lambda>res.
     rbind (required step ''step'') (\<lambda>sp. rbind (required operation_id ''operation_id'') (\<lambda>oid.
     let P = \<lambda>r. oc_id r = oid \<and> oc_owner r = owner \<and> oc_state r = ex
     in Inr (sql_update P (transition_set now st sp res) db, rowcount P db = 1)))))))"

section \<open>Runs\<close>

datatype checkpoint_op =
    Put int string string checkpoint_args
  | Claim int checkpoint_args
  | Transition int string string string string string string "string option"

fun checkpoint_exec :: "(string \<Rightarrow> string) \<Rightarrow> checkpoint list \<Rightarrow> checkpoint_op \<Rightarrow> checkpoint list" where
  "checkpoint_exec H db (Put now oid st a) = (case checkpoint_put H now db oid st a of Inl _ \<Rightarrow> db | Inr t \<Rightarrow> t)"
| "checkpoint_exec H db (Claim now a) = (case checkpoint_claim H now db a of Inl _ \<Rightarrow> db | Inr (t, _) \<Rightarrow> t)"
| "checkpoint_exec H db (Transition now oid p s ex st step res) =
     (case transition H now db oid p s ex st step res of Inl _ \<Rightarrow> db | Inr (t, _) \<Rightarrow> t)"

text \<open>The actor of a call, as the ledger knows them.\<close>

fun op_owner :: "(string \<Rightarrow> string) \<Rightarrow> checkpoint_op \<Rightarrow> string result" where
  "op_owner H (Put now oid st a) = owner_of H (ca_profile a) (ca_subject a)"
| "op_owner H (Claim now a) = owner_of H (ca_profile a) (ca_subject a)"
| "op_owner H (Transition now oid p s ex st step res) = owner_of H p s"

section \<open>Library\<close>

text \<open>A row evolves under its identifier and owner.\<close>

definition same_owner :: "checkpoint \<Rightarrow> checkpoint \<Rightarrow> bool" where
  "same_owner r q \<longleftrightarrow> oc_id q = oc_id r \<and> oc_owner q = oc_owner r"

interpretation ledger: evolving_table oc_id same_owner
  by unfold_locales (simp_all add: same_owner_def)

lemma sealed_row_fields:
  "sealed_row now oid owner connector intent step state session call res a = Inr r \<Longrightarrow>
     oc_id r = oid \<and> oc_owner r = owner \<and> oc_connector r = connector \<and> oc_intent r = intent \<and> oc_step r = step
     \<and> oc_state r = state \<and> oc_session r = session \<and> oc_call r = call \<and> oc_result r = res \<and> oc_updated_at r = now
     \<and> scope_ok (oc_scope r) (oc_chat_type r) (oc_chat_fence r)"
  by (auto simp: sealed_row_def rbind_Inr split: if_splits)

lemma put_row_fields:
  assumes "put_row H now oid st a = Inr r"
  shows "owner_of H (ca_profile a) (ca_subject a) = Inr (oc_owner r)" "oc_state r \<in> set STATES"
    "scope_ok (oc_scope r) (oc_chat_type r) (oc_chat_fence r)" "oc_id r = strip oid"
  using assms
  by (auto simp: put_row_def rbind_Inr required_def Let_def split: if_splits dest!: sealed_row_fields)

lemma claim_row_fields:
  assumes "claim_row H now a = Inr r"
  shows "owner_of H (ca_profile a) (ca_subject a) = Inr (oc_owner r)" "oc_state r = ''running''"
    "stable_operation_id H (ca_profile a) (ca_subject a) (ca_connector a) (ca_intent a) = Inr (oc_id r)"
    "scope_ok (oc_scope r) (oc_chat_type r) (oc_chat_fence r)"
  using assms by (auto simp: claim_row_def rbind_Inr dest!: sealed_row_fields)

lemma put_cases:
  assumes "checkpoint_put H now db oid st a = Inr db'"
  obtains (fresh) new where "put_row H now oid st a = Inr new" "db' = db @ [new]" "tbl_get oc_id db (oc_id new) = None"
      "checkpoint_indexes db'"
  | (again) new r where "put_row H now oid st a = Inr new" "db' = sql_update (\<lambda>q. oc_id q = oc_id new) (put_set new) db"
      "tbl_get oc_id db (oc_id new) = Some r" "oc_owner r = oc_owner new" "checkpoint_indexes db'"
proof -
  obtain new where new: "put_row H now oid st a = Inr new" using assms by (auto simp: checkpoint_put_def rbind_Inr)
  show thesis
  proof (cases "tbl_get oc_id db (oc_id new)")
    case None
    with assms new show thesis by (intro fresh) (auto simp: checkpoint_put_def split: if_splits)
  next
    case (Some r)
    with assms new show thesis by (intro again [of new r]) (auto simp: checkpoint_put_def Let_def split: if_splits)
  qed
qed

lemma put_grows: "checkpoint_put H now db oid st a = Inr db' \<Longrightarrow> grows same_owner db db'"
  by (erule put_cases) (auto simp: same_owner_def put_set_def intro!: ledger.grows_append ledger.grows_update)

lemma claim_grows: "checkpoint_claim H now db a = Inr (db', res) \<Longrightarrow> grows same_owner db db'"
  using ledger.grows_append ledger.grows_refl by (auto simp: checkpoint_claim_def rbind_Inr Let_def split: if_splits)

lemma transition_grows: "transition H now db oid p s ex st step res = Inr (db', won) \<Longrightarrow> grows same_owner db db'"
  by (auto simp: transition_def rbind_Inr Let_def same_owner_def transition_set_def split: if_splits intro!: ledger.grows_update)

lemma exec_grows: "grows same_owner db (checkpoint_exec H db x)"
  by (cases x) (auto split: sum.splits prod.splits intro: put_grows claim_grows transition_grows ledger.grows_refl)

lemma run_grows: "grows same_owner db (foldl (checkpoint_exec H) db xs)"
proof (induction xs arbitrary: db)
  case (Cons x xs)
  show ?case using ledger.grows_trans [OF exec_grows Cons.IH] by simp
qed (simp add: ledger.grows_refl)

text \<open>The indexes and the validity of states and scopes are kept.\<close>

definition checkpoint_inv :: "checkpoint list \<Rightarrow> bool" where
  "checkpoint_inv t \<longleftrightarrow> checkpoint_indexes t
     \<and> (\<forall>r \<in> set t. oc_state r \<in> set STATES \<and> scope_ok (oc_scope r) (oc_chat_type r) (oc_chat_fence r))"

lemma put_inv: "checkpoint_inv db \<Longrightarrow> checkpoint_put H now db oid st a = Inr db' \<Longrightarrow> checkpoint_inv db'"
  by (erule put_cases)
    (auto simp: checkpoint_inv_def put_set_def dest: put_row_fields(2,3) dest!: mem_sql_update split: if_splits)

lemma claim_inv: "checkpoint_inv db \<Longrightarrow> checkpoint_claim H now db a = Inr (db', res) \<Longrightarrow> checkpoint_inv db'"
  by (auto simp: checkpoint_claim_def rbind_Inr Let_def checkpoint_inv_def STATES_def dest: claim_row_fields(2,4) split: if_splits)

lemma transition_inv:
  assumes "checkpoint_inv db" "transition H now db oid p s ex st step res = Inr (db', won)"
  shows "checkpoint_inv db'"
proof -
  obtain P st' sp r where db': "db' = sql_update P (transition_set now st' sp r) db" "st' \<in> set STATES"
    using assms(2) by (auto simp: transition_def rbind_Inr Let_def split: if_splits)
  have "map oc_id db' = map oc_id db" "map intent_key db' = map intent_key db"
    unfolding db'(1) by (rule map_sql_update, simp add: transition_set_def intent_key_def)+
  with assms(1) show ?thesis
    by (auto simp: checkpoint_inv_def checkpoint_indexes_def db' transition_set_def dest!: mem_sql_update)
qed

lemma checkpoint_exec_inv: "checkpoint_inv db \<Longrightarrow> checkpoint_inv (checkpoint_exec H db x)"
  by (cases x) (auto split: sum.splits prod.splits intro: put_inv claim_inv transition_inv)

lemma checkpoint_run_inv: "checkpoint_inv db \<Longrightarrow> checkpoint_inv (foldl (checkpoint_exec H) db xs)"
  by (induction xs arbitrary: db) (simp_all add: checkpoint_exec_inv)

text \<open>A claim that validates: the row it wants, and what the ledger holds under its identifier and owner afterwards.\<close>

lemma claim_result:
  assumes "checkpoint_claim H now db a = Inr (db', res)"
  obtains new where "claim_row H now a = Inr new"
    "db' = (if checkpoint_indexes (db @ [new]) then db @ [new] else db)"
    "res = (case fetchone (filter (\<lambda>r. oc_id r = oc_id new \<and> oc_owner r = oc_owner new) db') of
        None \<Rightarrow> Inl (RuntimeError ''operation checkpoint claim failed'')
      | Some r \<Rightarrow> Inr (public_row r, checkpoint_indexes (db @ [new])))"
  using assms that by (auto simp: checkpoint_claim_def rbind_Inr Let_def)

lemma row_after_claim:
  assumes "checkpoint_inv db'" "tbl_get oc_id db' i = Some r" "oc_owner r = w"
  shows "fetchone (filter (\<lambda>q. oc_id q = i \<and> oc_owner q = w) db') = Some r"
proof -
  have "distinct (map oc_id db')" using assms(1) by (simp add: checkpoint_inv_def checkpoint_indexes_def)
  from filter_key_distinct [OF this assms(2)] assms(3) show ?thesis by simp
qed

lemma filter_other_update:
  "(\<And>r. r \<in> set t \<Longrightarrow> P r \<Longrightarrow> \<not> Q r \<and> \<not> Q (f r)) \<Longrightarrow> filter Q (sql_update P f t) = filter Q t"
  by (induction t) auto

text \<open>Every call leaves the rows of the other actors.\<close>

lemma exec_others:
  assumes "checkpoint_inv db" "op_owner H x \<noteq> Inr w"
  shows "filter (\<lambda>r. oc_owner r = w) (checkpoint_exec H db x) = filter (\<lambda>r. oc_owner r = w) db"
proof (cases x)
  case (Put now oid st a)
  show ?thesis
  proof (cases "checkpoint_put H now db oid st a")
    case (Inr db')
    then show ?thesis
    proof (cases rule: put_cases)
      case (fresh new)
      then show ?thesis using assms(2) put_row_fields(1) [OF fresh(1)] Inr by (simp add: Put)
    next
      case (again new r)
      have d: "distinct (map oc_id db)" using assms(1) by (simp add: checkpoint_inv_def checkpoint_indexes_def)
      have "oc_owner q = oc_owner new" if "q \<in> set db" "oc_id q = oc_id new" for q
        using tbl_get_distinct [OF d that(1)] that(2) again(3,4) by simp
      then show ?thesis
        using assms(2) put_row_fields(1) [OF again(1)] Inr again(2)
        by (simp add: Put filter_other_update put_set_def)
    qed
  qed (simp add: Put)
next
  case (Claim now a)
  show ?thesis
  proof (cases "checkpoint_claim H now db a")
    case (Inr y)
    obtain db' res where y: "y = (db', res)" by (cases y)
    from Inr y have c: "checkpoint_claim H now db a = Inr (db', res)" by simp
    from c show ?thesis
      by (rule claim_result) (use assms(2) c in \<open>auto simp: Claim dest: claim_row_fields(1)\<close>)
  qed (simp add: Claim)
next
  case (Transition now oid p s ex st step res)
  show ?thesis
    using assms(2)
    by (cases "transition H now db oid p s ex st step res")
      (auto simp: Transition transition_def rbind_Inr Let_def transition_set_def split: if_splits intro!: filter_other_update)
qed

section \<open>Moves as compare-and-swap\<close>

definition at_state :: "(string \<Rightarrow> string) \<Rightarrow> string \<Rightarrow> string \<Rightarrow> string \<Rightarrow> checkpoint list \<Rightarrow> string \<Rightarrow> bool" where
  "at_state H profile subject ex db oid \<longleftrightarrow>
     list_ex (\<lambda>r. oc_id r = strip oid \<and> owner_of H profile subject = Inr (oc_owner r) \<and> oc_state r = strip ex) db"

text \<open>An attempt to move an operation out of the state \<open>ex\<close>.\<close>

definition try_leave :: "(string \<Rightarrow> string) \<Rightarrow> string \<Rightarrow> string \<Rightarrow> string \<Rightarrow> int \<times> string \<times> string \<times> string option
    \<Rightarrow> checkpoint list \<Rightarrow> string \<Rightarrow> checkpoint list \<times> bool" where
  "try_leave H profile subject ex a db oid =
     (case a of (now, st, step, res) \<Rightarrow>
        if strip st = strip ex then (db, False)
        else case transition H now db oid profile subject ex st step res of Inl _ \<Rightarrow> (db, False) | Inr x \<Rightarrow> x)"

lemma try_leave_cases:
  obtains "try_leave H p s ex a db oid = (db, False)"
  | now st sp r w stepx statex resx where "owner_of H p s = Inr w" "st \<noteq> strip ex"
      "try_leave H p s ex a db oid = (sql_update (\<lambda>r. oc_id r = strip oid \<and> oc_owner r = w \<and> oc_state r = strip ex)
         (transition_set now st sp r) db, rowcount (\<lambda>r. oc_id r = strip oid \<and> oc_owner r = w \<and> oc_state r = strip ex) db = 1)"
      "transition H now db oid p s ex statex stepx resx = Inr (try_leave H p s ex a db oid)"
proof -
  obtain now st step res where a: "a = (now, st, step, res)" by (cases a) auto
  show thesis
  proof (cases "transition H now db oid p s ex st step res")
    case (Inl e)
    then show thesis using that(1) by (simp add: try_leave_def a)
  next
    case (Inr x)
    show thesis
    proof (cases "strip st = strip ex")
      case True
      then show thesis using that(1) by (simp add: try_leave_def a)
    next
      case False
      from Inr obtain w r sp where w: "owner_of H p s = Inr w"
        and x: "x = (sql_update (\<lambda>r. oc_id r = strip oid \<and> oc_owner r = w \<and> oc_state r = strip ex)
           (transition_set now (strip st) sp r) db, rowcount (\<lambda>r. oc_id r = strip oid \<and> oc_owner r = w \<and> oc_state r = strip ex) db = 1)"
        by (auto simp: transition_def rbind_Inr Let_def required_def split: if_splits)
      have t: "try_leave H p s ex a db oid = x" using False Inr by (simp add: try_leave_def a)
      show thesis by (rule that(2) [OF w False t [unfolded x]]) (use t Inr in simp)
    qed
  qed
qed

lemma rowcount_one: "rowcount P t = Suc 0 \<Longrightarrow> \<exists>r \<in> set t. P r"
  using rowcount_0_iff [of P t] by auto

lemma left_state:
  assumes "st \<noteq> strip ex" "owner_of H p s = Inr w"
    and "at_state H p s ex (sql_update (\<lambda>r. oc_id r = strip k \<and> oc_owner r = w \<and> oc_state r = strip ex)
      (transition_set now st sp res) db) k'"
  shows "at_state H p s ex db k' \<and> strip k' \<noteq> strip k"
proof -
  from assms(3) obtain r where r: "r \<in> set (sql_update (\<lambda>r. oc_id r = strip k \<and> oc_owner r = w \<and> oc_state r = strip ex)
      (transition_set now st sp res) db)" "oc_id r = strip k'" "w = oc_owner r" "oc_state r = strip ex"
    using assms(2) by (auto simp: at_state_def list_ex_iff)
  from mem_sql_update [OF r(1)] obtain q where q: "q \<in> set db"
    "r = (if oc_id q = strip k \<and> oc_owner q = w \<and> oc_state q = strip ex then transition_set now st sp res q else q)" by blast
  have other: "\<not> (oc_id q = strip k \<and> oc_owner q = w \<and> oc_state q = strip ex)"
  proof
    assume "oc_id q = strip k \<and> oc_owner q = w \<and> oc_state q = strip ex"
    then have "oc_state r = st" using q(2) by (simp add: transition_set_def)
    with r(4) assms(1) show False by simp
  qed
  have "q = r" using q(2) other by (metis (no_types, lifting))
  with q(1) r assms(2) other show ?thesis by (auto simp: at_state_def list_ex_iff)
qed

interpretation leave_cas: cas_op checkpoint_inv "at_state H p s ex" "try_leave H p s ex" for H p s ex
proof
  fix db a k assume inv: "checkpoint_inv db"
  show "checkpoint_inv (fst (try_leave H p s ex a db k))"
    by (rule try_leave_cases [of H p s ex a db k]) (use inv transition_inv [OF inv] in \<open>auto simp del: split_paired_All\<close>)
  show "at_state H p s ex db k" if "snd (try_leave H p s ex a db k)"
    using that by (rule_tac try_leave_cases [of H p s ex a db k])
      (auto simp: at_state_def list_ex_iff dest!: rowcount_one)
  show "\<not> at_state H p s ex (fst (try_leave H p s ex a db k)) k" if "snd (try_leave H p s ex a db k)"
    using that by (rule_tac try_leave_cases [of H p s ex a db k]) (auto dest: left_state)
  show "\<not> at_state H p s ex (fst (try_leave H p s ex a db k)) k'" if "\<not> at_state H p s ex db k'" for k'
    using that by (rule_tac try_leave_cases [of H p s ex a db k]) (auto dest: left_state)
qed

section \<open>Properties\<close>


text \<open>Calls of other actors leave an actor's operations exactly as they are: no put, claim or transition of anybody
  with another profile or subject digest creates, moves, overwrites or removes one of their rows.\<close>

lemma checkpoints_isolated:
  assumes "checkpoint_inv db" "\<forall>x \<in> set ops. op_owner H x \<noteq> Inr w"
  shows "filter (\<lambda>r. oc_owner r = w) (foldl (checkpoint_exec H) db ops) = filter (\<lambda>r. oc_owner r = w) db"
  using assms
proof (induction ops arbitrary: db)
  case (Cons x xs)
  have "filter (\<lambda>r. oc_owner r = w) (foldl (checkpoint_exec H) (checkpoint_exec H db x) xs)
      = filter (\<lambda>r. oc_owner r = w) (checkpoint_exec H db x)"
    using Cons.prems checkpoint_exec_inv by (intro Cons.IH) simp_all
  also have "\<dots> = filter (\<lambda>r. oc_owner r = w) db" using Cons.prems exec_others by simp
  finally show ?case by simp
qed simp

text \<open>A state is left once: of any number of concurrent attempts to move operations out of a state, at most one per
  operation wins.\<close>

lemma checkpoint_moved_once:
  assumes "checkpoint_inv db"
  shows "distinct (cas_attempts (try_leave H profile subject ex) xs db)"
  by (rule leave_cas.one_winner [OF assms])

text \<open>The identifier of a claim is not the only one an intent can have: where \<open>put\<close> stored the intent first under another
  identifier, the claim of that intent is ignored by the unique index and then raises, although the code
  takes that branch for unreachable.\<close>

lemma put_blocks_claim:
  assumes "checkpoint_inv db" "checkpoint_put H now db oid st a = Inr db1" "tbl_get oc_id db1 sid = None"
    and "stable_operation_id H (ca_profile a) (ca_subject a) (ca_connector a) (ca_intent a) = Inr sid"
    and "checkpoint_claim H later db1 a = Inr (db2, res)"
  shows "db2 = db1 \<and> res = Inl (RuntimeError ''operation checkpoint claim failed'')"
proof -
  from assms(5) obtain new where new: "claim_row H later a = Inr new"
    and db2: "db2 = (if checkpoint_indexes (db1 @ [new]) then db1 @ [new] else db1)"
    and res: "res = (case fetchone (filter (\<lambda>r. oc_id r = oc_id new \<and> oc_owner r = oc_owner new) db2) of
        None \<Rightarrow> Inl (RuntimeError ''operation checkpoint claim failed'')
      | Some r \<Rightarrow> Inr (public_row r, checkpoint_indexes (db1 @ [new])))" by (rule claim_result)
  have id: "oc_id new = sid" using claim_row_fields(3) [OF new] assms(4) by simp
  have absent: "filter (\<lambda>r. oc_id r = sid \<and> oc_owner r = w) db1 = []" for w
    using filter_key_absent [OF assms(3)] by simp
  obtain r where r: "r \<in> set db1" "intent_key r = intent_key new"
    using assms(2)
  proof (cases rule: put_cases)
    case (fresh p)
    then have "intent_key p = intent_key new"
      using new by (auto simp: put_row_def claim_row_def rbind_Inr intent_key_def split: if_splits dest!: sealed_row_fields)
    then show thesis using that [of p] fresh(2) by simp
  next
    case (again p q)
    then have "intent_key p = intent_key new"
      using new by (auto simp: put_row_def claim_row_def rbind_Inr intent_key_def split: if_splits dest!: sealed_row_fields)
    then have "intent_key (put_set p q) = intent_key new" using again(4) by (simp add: intent_key_def put_set_def)
    moreover have "put_set p q \<in> set db1" using tbl_get_mem [OF again(3)] again(2) by (auto simp: set_sql_update)
    ultimately show thesis using that by blast
  qed
  then have "\<not> checkpoint_indexes (db1 @ [new])" by (auto simp: checkpoint_indexes_def rev_image_eqI)
  then show ?thesis using db2 res absent by (simp add: id)
qed

section \<open>Witnesses\<close>

definition demo_call :: checkpoint_args where
  "demo_call = \<lparr>ca_profile = ''p'', ca_subject = ''s'', ca_connector = ''c'', ca_intent = ''i'', ca_step = ''call'',
     ca_session = None, ca_call = None, ca_result = None, ca_scope = None, ca_chat_type = None, ca_chat_fence = None\<rparr>"

definition demo_checkpoint :: checkpoint where
  "demo_checkpoint = \<lparr>oc_id = ''op_p'' @ NUL # ''s'' @ NUL # ''c'' @ NUL # ''i'', oc_owner = ''p'' @ NUL # ''s'', oc_connector = ''c'',
     oc_intent = ''i'', oc_step = ''call'', oc_state = ''running'', oc_session = None, oc_call = None, oc_result = None,
     oc_scope = None, oc_chat_type = None, oc_chat_fence = None, oc_updated_at = 5\<rparr>"

lemma demo_claim_row: "claim_row (\<lambda>s. s) 5 demo_call = Inr demo_checkpoint" "claim_row (\<lambda>s. s) 9 demo_call = Inr (demo_checkpoint\<lparr>oc_updated_at := 9\<rparr>)"
  by (simp_all add: claim_row_def demo_call_def stable_operation_id_def required_def strip_def is_space_def char_count_def continues_def
      owner_of_def digest_def optional_def str_or_empty_def sealed_row_def scope_ok_def demo_checkpoint_def Let_def)

lemma demo_claim: "checkpoint_claim (\<lambda>s. s) 5 [] demo_call = Inr ([demo_checkpoint], Inr (public_row demo_checkpoint, True))"
  by (simp add: checkpoint_claim_def demo_claim_row checkpoint_indexes_def)

lemma demo_again: "checkpoint_claim (\<lambda>s. s) 9 [demo_checkpoint] demo_call =
    Inr ([demo_checkpoint], Inr (public_row demo_checkpoint, False))"
  by (simp add: checkpoint_claim_def demo_claim_row checkpoint_indexes_def)

lemma demo_ledger_inv: "checkpoint_inv []" "checkpoint_inv [demo_checkpoint]"
  by (simp_all add: checkpoint_inv_def checkpoint_indexes_def STATES_def scope_ok_def demo_checkpoint_def)


definition put_checkpoint :: checkpoint where
  "put_checkpoint = demo_checkpoint\<lparr>oc_id := ''x''\<rparr>"

lemma demo_put: "checkpoint_put (\<lambda>s. s) 5 [] ''x'' ''running'' demo_call = Inr [put_checkpoint]"
  by (simp add: checkpoint_put_def put_row_def demo_call_def required_def strip_def is_space_def char_count_def continues_def
      owner_of_def digest_def optional_def str_or_empty_def sealed_row_def scope_ok_def demo_checkpoint_def put_checkpoint_def
      Let_def STATES_def checkpoint_indexes_def)

lemma demo_blocked: "checkpoint_claim (\<lambda>s. s) 9 [put_checkpoint] demo_call =
    Inr ([put_checkpoint], Inl (RuntimeError ''operation checkpoint claim failed''))"
  by (simp add: checkpoint_claim_def demo_claim_row checkpoint_indexes_def put_checkpoint_def intent_key_def demo_checkpoint_def)

lemma demo_sid: "stable_operation_id (\<lambda>s. s) ''p'' ''s'' ''c'' ''i'' = Inr (oc_id demo_checkpoint)"
  by (simp add: stable_operation_id_def required_def strip_def is_space_def char_count_def continues_def digest_def demo_checkpoint_def)

end
