(* ===== verification/Run_Requests.thy ===== *)
theory Run_Requests
  imports Push_Scenes Session_Store Git_Env
begin

text \<open>
  The contract of a run (\<open>src/hermes_multitenancy/run_models.py\<close>): the request of any channel and its idempotency key, the key under
  which the router remembers it (\<open>router/__init__.py\<close>), and the terminal record a finished run leaves in the audit log
  (\<open>run_broker.py\<close>, \<open>conversation_audit.py\<close>). SHA-256 (as hexadecimal digits) is the argument \<open>H\<close>.
\<close>

section \<open>Requests\<close>

record run_request =
  rq_channel :: string
  rq_profile_name :: string
  rq_user_key :: string
  rq_content :: string
  rq_chat_id :: "string option"
  rq_session_id :: "string option"
  rq_message_id :: "string option"
  rq_idempotency_key :: "string option"
  rq_delivery_mode :: string
  rq_credential_subject :: "string option"
  rq_requires_host_tools :: bool
  rq_workspace :: "string option"
  rq_metadata :: "(string \<times> json) list"
  rq_messages :: "json list"

definition VALID_CHANNELS :: "string list" where
  "VALID_CHANNELS = [''feishu'', ''webui'', ''cron'', ''kanban'']"

definition is_dict :: "json \<Rightarrow> bool" where
  "is_dict j = (case j of JObj _ \<Rightarrow> True | _ \<Rightarrow> False)"

text \<open>The construction of a request from its raw fields: \<open>__post_init__\<close>.\<close>

definition make_run_request :: "run_request \<Rightarrow> run_request result" where
  "make_run_request r =
     (let channel = strip (rq_channel r); profile_name = strip (rq_profile_name r);
          user_key = strip (rq_user_key r); content = strip (rq_content r)
      in if channel \<notin> set VALID_CHANNELS then Inl (ValueError ''channel must be one of ['cron', 'feishu', 'kanban', 'webui']'')
         else if profile_name = [] then Inl (ValueError ''profile_name is required'')
         else if user_key = [] then Inl (ValueError ''user_key is required'')
         else if content = [] then Inl (ValueError ''content is required'')
         else Inr (r\<lparr>rq_channel := channel, rq_profile_name := profile_name, rq_user_key := user_key, rq_content := content,
                     rq_delivery_mode := py_or (strip (rq_delivery_mode r)) ''stream'',
                     rq_workspace := (case rq_workspace r of None \<Rightarrow> None | Some w \<Rightarrow> or_none (strip w)),
                     rq_messages := filter is_dict (rq_messages r),
                     rq_credential_subject := (case rq_credential_subject r of None \<Rightarrow> Some user_key | Some s \<Rightarrow> Some s)\<rparr>))"

text \<open>\<open>re.sub(r"\s+", " ", s)\<close>: a run of white space becomes one space.\<close>

fun squeeze :: "string \<Rightarrow> string" where
  "squeeze [] = []"
| "squeeze (c # cs) =
     (if is_space c then (case squeeze cs of [] \<Rightarrow> [CHR '' ''] | d # ds \<Rightarrow> if d = CHR '' '' then d # ds else CHR '' '' # d # ds)
      else c # squeeze cs)"

definition normalize_text :: "string \<Rightarrow> string" where
  "normalize_text s = strip (squeeze s)"

definition content_key :: "(string \<Rightarrow> string) \<Rightarrow> string \<Rightarrow> string" where
  "content_key H content = H (normalize_text content)"

definition effective_idempotency_key :: "(string \<Rightarrow> string) \<Rightarrow> run_request \<Rightarrow> string" where
  "effective_idempotency_key H r =
     (let explicit = strip (str_or_empty (rq_idempotency_key r)); message_id = strip (str_or_empty (rq_message_id r));
          prefix = rq_channel r @ '':'' @ rq_profile_name r @ '':'' @ rq_user_key r @ '':''
      in if explicit \<noteq> [] then explicit
         else if message_id \<noteq> [] then prefix @ message_id
         else prefix @ ''content:'' @ content_key H (rq_content r))"

type_synonym identity = "string \<times> string \<times> string \<times> string"

definition request_identity :: "(string \<Rightarrow> string) \<Rightarrow> run_request \<Rightarrow> identity" where
  "request_identity H r = (rq_channel r, rq_profile_name r, rq_user_key r, effective_idempotency_key H r)"

section \<open>The router's record of a request\<close>

definition DEDUPE_MESSAGE_TTL_SECONDS :: int where "DEDUPE_MESSAGE_TTL_SECONDS = 24 * 60 * 60"
definition DEDUPE_CONTENT_TTL_SECONDS :: int where "DEDUPE_CONTENT_TTL_SECONDS = 2 * 60 * 60"
definition DEDUPE_CONTENT_MIN_CHARS :: int where "DEDUPE_CONTENT_MIN_CHARS = 40"

text \<open>The three environment variables.\<close>

record dedupe_env =
  de_event_ttl :: "string option"
  de_content_ttl :: "string option"
  de_min_chars :: "string option"

definition dedupe_env_int :: "string option \<Rightarrow> int \<Rightarrow> int" where
  "dedupe_env_int v dflt =
     (case v of None \<Rightarrow> max 0 dflt | Some s \<Rightarrow> (case py_int (strip s) of None \<Rightarrow> dflt | Some i \<Rightarrow> max 0 i))"

record dedupe_record =
  dr_key :: string
  dr_message_id :: "string option"
  dr_content_hash :: "string option"
  dr_ttl :: int

definition run_request_dedupe_record :: "(string \<Rightarrow> string) \<Rightarrow> dedupe_env \<Rightarrow> run_request \<Rightarrow> dedupe_record option" where
  "run_request_dedupe_record H env r =
     (let idempotency_key = strip (str_or_empty (rq_idempotency_key r)); channel = strip (rq_channel r);
          message_id = strip (str_or_empty (rq_message_id r)); profile_name = strip (rq_profile_name r);
          user_key = strip (rq_user_key r); ttl = dedupe_env_int (de_event_ttl env) DEDUPE_MESSAGE_TTL_SECONDS
      in if idempotency_key \<noteq> []
         then Some \<lparr>dr_key = ''idem:'' @ channel @ '':'' @ profile_name @ '':'' @ user_key @ '':'' @ H idempotency_key,
                dr_message_id = None, dr_content_hash = None, dr_ttl = ttl\<rparr>
         else if message_id \<noteq> []
         then Some \<lparr>dr_key = ''msg:'' @ profile_name @ '':'' @ user_key @ '':'' @ message_id,
                dr_message_id = Some message_id, dr_content_hash = None, dr_ttl = ttl\<rparr>
         else if channel = ''webui'' then None
         else let normalized = normalize_text (rq_content r)
              in if int (char_count normalized) < dedupe_env_int (de_min_chars env) DEDUPE_CONTENT_MIN_CHARS then None
                 else Some \<lparr>dr_key = ''content:'' @ profile_name @ '':'' @ user_key @ '':'' @ H normalized,
                        dr_message_id = None, dr_content_hash = Some (H normalized),
                        dr_ttl = dedupe_env_int (de_content_ttl env) DEDUPE_CONTENT_TTL_SECONDS\<rparr>)"

text \<open>\<open>store\<close> is None when the session store cannot be opened.\<close>

definition mark_run_request_seen ::
    "(string \<Rightarrow> string) \<Rightarrow> dedupe_env \<Rightarrow> int \<Rightarrow> session_store option \<Rightarrow> run_request \<Rightarrow> session_store option \<times> bool result" where
  "mark_run_request_seen H env now store r =
     (case run_request_dedupe_record H env r of
        None \<Rightarrow> (store, Inr True)
      | Some d \<Rightarrow>
          (case store of
             None \<Rightarrow> (None, Inl (RuntimeError ''SessionStore unavailable for idempotent run''))
           | Some st \<Rightarrow>
               (case mark_event_processed now (dr_ttl d) st
                       \<lparr>ev_key = dr_key d, ev_profile_name = rq_profile_name r, ev_user_key = rq_user_key r,
                        ev_message_id = dr_message_id d, ev_content_hash = dr_content_hash d, ev_ts = now\<rparr> of
                  (st', fresh) \<Rightarrow> (Some st', Inr fresh))))"

definition is_run_request_seen ::
    "(string \<Rightarrow> string) \<Rightarrow> dedupe_env \<Rightarrow> int \<Rightarrow> session_store option \<Rightarrow> run_request \<Rightarrow> bool result" where
  "is_run_request_seen H env now store r =
     (case run_request_dedupe_record H env r of
        None \<Rightarrow> Inr False
      | Some d \<Rightarrow>
          (case store of
             None \<Rightarrow> Inl (RuntimeError ''SessionStore unavailable for idempotent run'')
           | Some st \<Rightarrow> Inr (is_event_processed now (dr_ttl d) st (dr_key d))))"

section \<open>The execution of an admitted run\<close>

text \<open>An exception as the broker looks at it: its class and the three attributes; \<open>ex_retryable\<close> is None when absent.\<close>

record run_exn =
  ex_type :: string
  ex_error_code :: string
  ex_failure_subsystem :: string
  ex_retryable :: "bool option"

definition plain_exn :: "string \<Rightarrow> run_exn" where
  "plain_exn name = \<lparr>ex_type = name, ex_error_code = [], ex_failure_subsystem = [], ex_retryable = None\<rparr>"

definition cancelled_error :: run_exn where "cancelled_error = plain_exn ''CancelledError''"

definition is_cancel :: "run_exn \<Rightarrow> bool" where "is_cancel e \<longleftrightarrow> ex_type e = ''CancelledError''"

record run_result =
  rr_content :: string
  rr_duplicate :: bool
  rr_completed :: bool

definition duplicate_result :: run_result where
  "duplicate_result = \<lparr>rr_content = [], rr_duplicate = True, rr_completed = True\<rparr>"

datatype outcome = Returned run_result | Raised run_exn

type_synonym source_ref = "(string \<times> string) list"

record run_event =
  re_kind :: string
  re_text :: string
  re_source_refs :: "source_ref list option"

definition MAX_SOURCE_REFS :: nat where "MAX_SOURCE_REFS = 20"

fun add_source_refs :: "source_ref list \<Rightarrow> string option set \<Rightarrow> source_ref list \<Rightarrow> source_ref list" where
  "add_source_refs existing seen_ids [] = existing"
| "add_source_refs existing seen_ids (ref # refs) =
     (if length existing \<ge> MAX_SOURCE_REFS then existing
      else (case map_of ref ''id'' of
              Some i \<Rightarrow> if i \<noteq> [] \<and> Some i \<notin> seen_ids
                        then add_source_refs (existing @ [ref]) (insert (Some i) seen_ids) refs
                        else add_source_refs existing seen_ids refs
            | None \<Rightarrow> add_source_refs existing seen_ids refs))"

definition record_source_refs :: "source_ref list \<Rightarrow> source_ref list \<Rightarrow> source_ref list" where
  "record_source_refs existing refs = add_source_refs existing (set (map (\<lambda>r. map_of r ''id'') existing)) refs"

text \<open>
  What a dispatch does: its response or exception, and what it left in the context variables of its run
  (whether it retried, the classified failure, whether the output is incomplete, the calls that recorded references).
\<close>

record dispatch_run =
  dx_response :: "run_exn + string"
  dx_retried :: bool
  dx_failure :: "(string \<times> string \<times> bool) option"
  dx_incomplete :: bool
  dx_refs :: "source_ref list list"

definition source_refs_of :: "dispatch_run \<Rightarrow> source_ref list" where
  "source_refs_of x = foldl record_source_refs [] (dx_refs x)"

text \<open>One-shot authority to dispatch; brokers are numbered.\<close>

record admitted =
  ad_request :: run_request
  ad_broker :: nat
  ad_claimed :: bool
  ad_event_id :: string

definition terminal_event_id :: "(string \<Rightarrow> string) \<Rightarrow> string \<Rightarrow> run_request \<Rightarrow> string" where
  "terminal_event_id H uuid r =
     uuid @ ''.'' @ take 16 (H (join_sep CHR ''|'' [rq_channel r, rq_profile_name r, effective_idempotency_key H r]))"

definition issue_admitted :: "(string \<Rightarrow> string) \<Rightarrow> string \<Rightarrow> nat \<Rightarrow> run_request \<Rightarrow> admitted" where
  "issue_admitted H uuid broker r =
     \<lparr>ad_request = r, ad_broker = broker, ad_claimed = False, ad_event_id = terminal_event_id H uuid r\<rparr>"

record run_terminal =
  tm_event_id :: string
  tm_profile_name :: string
  tm_platform :: string
  tm_chat_type :: string
  tm_expert_requested :: bool
  tm_expert_id :: "string option"
  tm_expert_resolution :: string
  tm_status :: string
  tm_error_code :: "string option"
  tm_failure_subsystem :: "string option"
  tm_retryable :: bool
  tm_retried :: bool
  tm_answer_completed :: bool
  tm_duration_ms :: int

definition FAILURE_SUBSYSTEMS :: "string list" where
  "FAILURE_SUBSYSTEMS = [''expert_resolution'', ''credential'', ''identity'', ''permission'', ''lark_api'',
     ''transport'', ''tool'', ''model'', ''runtime'', ''output'']"

definition REGISTERED_ERROR_CODES :: "string list" where
  "REGISTERED_ERROR_CODES = [''EXPERT_UNAVAILABLE'', ''RUN_CANCELLED'', ''MODEL_FAILED'', ''TOOL_FAILED'', ''OUTPUT_INCOMPLETE'',
     ''UNKNOWN'', ''FEISHU_AUTH_REAUTH_REQUIRED'', ''FEISHU_IDENTITY_UNBOUND'', ''FEISHU_IDENTITY_MISMATCH'',
     ''FEISHU_PERMISSION_DENIED'', ''FEISHU_RATE_LIMITED'', ''FEISHU_DEPENDENCY_TIMEOUT'', ''FEISHU_DEPENDENCY_UNAVAILABLE'',
     ''FEISHU_REQUEST_INVALID'', ''FEISHU_BUSINESS_ERROR'', ''FEISHU_UNKNOWN'']"

text \<open>The status fields of the terminal record.\<close>

record run_verdict =
  vd_status :: string
  vd_error_code :: "string option"
  vd_subsystem :: "string option"
  vd_retryable :: bool

text \<open>The two \<open>except\<close> clauses.\<close>

definition classify_exn :: "(string \<times> string \<times> bool) option \<Rightarrow> run_exn \<Rightarrow> run_verdict" where
  "classify_exn classified e =
     (if is_cancel e
      then \<lparr>vd_status = ''cancelled'', vd_error_code = Some ''RUN_CANCELLED'', vd_subsystem = Some ''runtime'', vd_retryable = False\<rparr>
      else let code = ex_error_code e; subsystem = ex_failure_subsystem e;
               (subsystem, code, retryable) =
                 (case classified of
                    Some c \<Rightarrow> if code = [] \<and> subsystem = [] then c else (subsystem, code, False)
                  | None \<Rightarrow> (subsystem, code, False));
               retryable = (if classified = None \<or> ex_retryable e \<noteq> None then ex_retryable e = Some True else retryable)
           in if code = ''EXPERT_UNAVAILABLE''
              then \<lparr>vd_status = ''rejected'', vd_error_code = Some code, vd_subsystem = Some ''expert_resolution'', vd_retryable = retryable\<rparr>
              else \<lparr>vd_status = ''failed'', vd_error_code = Some (py_or code ''UNKNOWN''),
                     vd_subsystem = Some (py_or subsystem ''runtime''), vd_retryable = retryable\<rparr>)"

text \<open>The events a response is answered with, up to the first one whose emission raises.\<close>

fun emit_all :: "(run_event \<Rightarrow> run_exn option) \<Rightarrow> run_event list \<Rightarrow> run_event list \<times> run_exn option" where
  "emit_all emit [] = ([], None)"
| "emit_all emit (e # es) =
     (case emit e of Some x \<Rightarrow> ([e], Some x) | None \<Rightarrow> (case emit_all emit es of (done, x) \<Rightarrow> (e # done, x)))"

definition answer_events :: "dispatch_run \<Rightarrow> string \<Rightarrow> run_event list" where
  "answer_events x content =
     (if content = [] then [] else [\<lparr>re_kind = ''content'', re_text = content, re_source_refs = None\<rparr>])
     @ [\<lparr>re_kind = ''done'', re_text = [],
          re_source_refs = (if dx_incomplete x \<or> source_refs_of x = [] then None else Some (source_refs_of x))\<rparr>]"

text \<open>The body of the \<open>try\<close>: the outcome, the emitted events, the run_verdict.\<close>

definition run_dispatch :: "(run_event \<Rightarrow> run_exn option) \<Rightarrow> dispatch_run \<Rightarrow> outcome \<times> run_event list \<times> run_verdict" where
  "run_dispatch emit x =
     (case dx_response x of
        Inl e \<Rightarrow> (Raised e, [], classify_exn (dx_failure x) e)
      | Inr content \<Rightarrow>
          (case emit_all emit (answer_events x content) of
             (events, Some e) \<Rightarrow> (Raised e, events, classify_exn (dx_failure x) e)
           | (events, None) \<Rightarrow>
               (Returned \<lparr>rr_content = content, rr_duplicate = False, rr_completed = \<not> dx_incomplete x\<rparr>, events,
                if dx_incomplete x
                then \<lparr>vd_status = ''failed'', vd_error_code = Some ''OUTPUT_INCOMPLETE'', vd_subsystem = Some ''output'', vd_retryable = False\<rparr>
                else \<lparr>vd_status = ''completed'', vd_error_code = None, vd_subsystem = None, vd_retryable = False\<rparr>)))"

text \<open>The \<open>finally\<close> clause: the record it hands to the audit log. \<open>alnum\<close> says which non-ASCII characters are alphanumeric.\<close>

fun expert_id_safe :: "(string \<Rightarrow> bool) \<Rightarrow> string \<Rightarrow> bool" where
  "expert_id_safe alnum [] = True"
| "expert_id_safe alnum (c # cs) =
     ((if (of_char c :: nat) < 128 then ascii_alnum c \<or> c \<in> set ''-_.:'' else continues c \<or> alnum (take_chars 1 (c # cs)))
      \<and> expert_id_safe alnum cs)"

definition run_terminal_of :: "pylib \<Rightarrow> (string \<Rightarrow> bool) \<Rightarrow> admitted \<Rightarrow> dispatch_run \<Rightarrow> run_verdict \<Rightarrow> int \<Rightarrow> run_terminal" where
  "run_terminal_of L alnum ad x v duration_ms =
     (let r = ad_request ad; expert_id = strip (str_get_or L (rq_metadata r) ''expert_id'' []);
          completed = (vd_status v = ''completed'')
      in \<lparr>tm_event_id = ad_event_id ad, tm_profile_name = rq_profile_name r, tm_platform = rq_channel r,
          tm_chat_type = str_get_or L (rq_metadata r) ''chat_type'' (rq_channel r),
          tm_expert_requested = (expert_id \<noteq> []),
          tm_expert_id = (if expert_id \<noteq> [] \<and> expert_id_safe alnum expert_id then Some expert_id else None),
          tm_expert_resolution = (if expert_id = [] then ''not_requested'' else if vd_status v = ''rejected'' then ''rejected'' else ''resolved''),
          tm_status = vd_status v,
          tm_error_code = (if completed then vd_error_code v
             else case vd_error_code v of Some c \<Rightarrow> Some (if c \<in> set REGISTERED_ERROR_CODES then c else ''UNKNOWN'') | None \<Rightarrow> Some ''UNKNOWN''),
          tm_failure_subsystem = (if completed then vd_subsystem v
             else case vd_subsystem v of Some c \<Rightarrow> Some (if c \<in> set FAILURE_SUBSYSTEMS then c else ''runtime'') | None \<Rightarrow> Some ''runtime''),
          tm_retryable = vd_retryable v, tm_retried = dx_retried x, tm_answer_completed = completed, tm_duration_ms = duration_ms\<rparr>)"

text \<open>\<open>_run_admitted\<close>; the dispatch \<open>x\<close> and the record are None when the capability is refused.\<close>

definition run_admitted ::
    "pylib \<Rightarrow> (string \<Rightarrow> bool) \<Rightarrow> nat \<Rightarrow> (run_event \<Rightarrow> run_exn option) \<Rightarrow> (run_request \<Rightarrow> dispatch_run) \<Rightarrow> int \<Rightarrow> admitted
      \<Rightarrow> admitted \<times> outcome \<times> run_event list \<times> run_terminal option" where
  "run_admitted L alnum self emit dispatch duration_ms ad =
     (if ad_broker ad \<noteq> self \<or> ad_claimed ad then (ad, Raised (plain_exn ''TypeError''), [], None)
      else let x = dispatch (ad_request ad); (out, events, v) = run_dispatch emit x
           in (ad\<lparr>ad_claimed := True\<rparr>, out, events, Some (run_terminal_of L alnum ad x v duration_ms)))"

section \<open>The audit log\<close>

text \<open>Identifiers inside a text are replaced by a digest: \<open>(?<![A-Za-z0-9])(ou|oc)_[A-Za-z0-9_-]+\<close>.\<close>

definition id_char :: "char \<Rightarrow> bool" where
  "id_char c \<longleftrightarrow> ascii_alnum c \<or> c \<in> set ''_-''"

definition hash_id :: "(string \<Rightarrow> string) \<Rightarrow> string \<Rightarrow> string" where
  "hash_id H s = take 12 (H s)"

text \<open>The identifier at the head of a text that follows \<open>prev\<close>.\<close>

definition id_match :: "char option \<Rightarrow> string \<Rightarrow> string option" where
  "id_match prev s =
     (let body = takeWhile id_char (drop 3 s)
      in if (case prev of Some p \<Rightarrow> \<not> ascii_alnum p | None \<Rightarrow> True) \<and> (startswith s ''ou_'' \<or> startswith s ''oc_'') \<and> body \<noteq> []
         then Some (take 3 s @ body) else None)"

function redact_embedded_ids :: "(string \<Rightarrow> string) \<Rightarrow> char option \<Rightarrow> string \<Rightarrow> string" where
  "redact_embedded_ids H prev [] = []"
| "redact_embedded_ids H prev (c # cs) =
     (case id_match prev (c # cs) of
        Some m \<Rightarrow> take 3 m @ hash_id H m @ redact_embedded_ids H (Some (last m)) (drop (length m - 1) cs)
      | None \<Rightarrow> c # redact_embedded_ids H (Some c) cs)"
  by pat_completeness auto
termination by (relation "measure (\<lambda>(H, p, s). length s)") auto

definition terminal_valid :: "run_terminal \<Rightarrow> bool" where
  "terminal_valid t \<longleftrightarrow>
     tm_status t \<in> set [''completed'', ''failed'', ''cancelled'', ''rejected'']
     \<and> (case tm_failure_subsystem t of Some c \<Rightarrow> c \<in> set FAILURE_SUBSYSTEMS | None \<Rightarrow> True)
     \<and> (case tm_error_code t of Some c \<Rightarrow> c \<in> set REGISTERED_ERROR_CODES | None \<Rightarrow> True)
     \<and> (if tm_status t = ''completed'' then tm_error_code t = None \<and> tm_failure_subsystem t = None \<and> tm_answer_completed t
        else \<not> tm_answer_completed t)"

text \<open>The line for one record: None when the log is off, \<open>Inl\<close> when the record is refused (a \<open>ValueError\<close>).\<close>

definition append_run_terminal_event ::
    "(string \<Rightarrow> string) \<Rightarrow> string option \<Rightarrow> run_terminal \<Rightarrow> run_terminal option result" where
  "append_run_terminal_event H env t =
     (if lower (strip (str_or_empty env)) \<notin> set [''1'', ''true'', ''yes'', ''on''] then Inr None
      else if \<not> terminal_valid t then Inl (ValueError ''invalid terminal record'')
      else Inr (Some (t\<lparr>tm_profile_name := redact_embedded_ids H None (tm_profile_name t),
                       tm_expert_id := or_none (str_or_empty (tm_expert_id t)), tm_duration_ms := max 0 (tm_duration_ms t)\<rparr>)))"

section \<open>Well-formed requests\<close>

definition clean_text :: "string \<Rightarrow> bool" where
  "clean_text s \<longleftrightarrow> strip s = s \<and> s \<noteq> []"

text \<open>The type of a constructed request.\<close>

definition request_wf :: "run_request \<Rightarrow> bool" where
  "request_wf r \<longleftrightarrow> rq_channel r \<in> set VALID_CHANNELS \<and> clean_text (rq_profile_name r) \<and> clean_text (rq_user_key r)
     \<and> clean_text (rq_content r) \<and> clean_text (rq_delivery_mode r)
     \<and> (case rq_workspace r of None \<Rightarrow> True | Some w \<Rightarrow> clean_text w)
     \<and> list_all is_dict (rq_messages r) \<and> rq_credential_subject r \<noteq> None"

lemma valid_channel_clean: "c \<in> set VALID_CHANNELS \<Longrightarrow> clean_text c"
  by (auto simp: VALID_CHANNELS_def clean_text_def strip_def is_space_def)

lemma clean_text_strip: "strip s \<noteq> [] \<Longrightarrow> clean_text (strip s)"
  by (simp add: clean_text_def)

lemma clean_text_or: "clean_text (py_or (strip s) ''stream'')"
  by (simp add: py_or_def clean_text_def) (simp add: strip_def is_space_def)

lemma make_run_request_wf:
  assumes "make_run_request raw = Inr r"
  shows "request_wf r"
proof -
  have checks: "strip (rq_channel raw) \<in> set VALID_CHANNELS" "strip (rq_profile_name raw) \<noteq> []"
    "strip (rq_user_key raw) \<noteq> []" "strip (rq_content raw) \<noteq> []"
    using assms by (simp_all add: make_run_request_def Let_def split: if_splits)
  then show ?thesis using assms clean_text_or [of "rq_delivery_mode raw"]
    by (simp add: make_run_request_def Let_def request_wf_def clean_text_strip list_all_iff or_none_def split: option.split)
      (auto simp: clean_text_strip list_all_iff or_none_def split: option.splits if_splits)
qed

lemma make_run_request_fixed: "request_wf r \<Longrightarrow> make_run_request r = Inr r"
  using valid_channel_clean [of "rq_channel r"]
  by (cases r) (auto simp: make_run_request_def Let_def request_wf_def clean_text_def py_or_def or_none_def list_all_iff
      filter_id_conv split: option.splits)

section \<open>Durable keys\<close>

text \<open>What a durable key stands for.\<close>

datatype dedupe_subject =
    ByKey string string string string
  | ByMessage string string string
  | ByContent string string string

definition dedupe_subject_of :: "run_request \<Rightarrow> dedupe_subject" where
  "dedupe_subject_of r =
     (let idempotency_key = strip (str_or_empty (rq_idempotency_key r)); message_id = strip (str_or_empty (rq_message_id r))
      in if idempotency_key \<noteq> [] then ByKey (rq_channel r) (rq_profile_name r) (rq_user_key r) idempotency_key
         else if message_id \<noteq> [] then ByMessage (rq_profile_name r) (rq_user_key r) message_id
         else ByContent (rq_profile_name r) (rq_user_key r) (normalize_text (rq_content r)))"

fun dedupe_key :: "(string \<Rightarrow> string) \<Rightarrow> dedupe_subject \<Rightarrow> string" where
  "dedupe_key H (ByKey c p u k) = ''idem:'' @ c @ '':'' @ p @ '':'' @ u @ '':'' @ H k"
| "dedupe_key H (ByMessage p u m) = ''msg:'' @ p @ '':'' @ u @ '':'' @ m"
| "dedupe_key H (ByContent p u t) = ''content:'' @ p @ '':'' @ u @ '':'' @ H t"

lemma dedupe_record_key:
  assumes "request_wf r" "run_request_dedupe_record H env r = Some d"
  shows "dr_key d = dedupe_key H (dedupe_subject_of r)"
  using assms valid_channel_clean [of "rq_channel r"]
  by (auto simp: run_request_dedupe_record_def Let_def dedupe_subject_of_def request_wf_def clean_text_def split: if_splits)

definition colon_free :: "string \<Rightarrow> bool" where
  "colon_free s \<longleftrightarrow> CHR '':'' \<notin> set s"

lemma colon_split:
  assumes "colon_free a" "colon_free b"
  shows "a @ CHR '':'' # x = b @ CHR '':'' # y \<longleftrightarrow> a = b \<and> x = y"
  using assms by (auto simp: colon_free_def append_eq_append_conv2 Cons_eq_append_conv append_eq_Cons_conv)

lemma dedupe_key_inject:
  assumes "inj H" "colon_free (rq_profile_name r)" "colon_free (rq_profile_name r')" "colon_free (rq_user_key r)" "colon_free (rq_user_key r')"
    "rq_channel r \<in> set VALID_CHANNELS" "rq_channel r' \<in> set VALID_CHANNELS"
  shows "dedupe_key H (dedupe_subject_of r) = dedupe_key H (dedupe_subject_of r') \<longleftrightarrow> dedupe_subject_of r = dedupe_subject_of r'"
proof -
  have ch: "colon_free (rq_channel r)" "colon_free (rq_channel r')"
    using assms(6,7) by (auto simp: VALID_CHANNELS_def colon_free_def)
  show ?thesis
    using assms(2-5) ch by (auto simp: dedupe_subject_of_def Let_def colon_split inj_eq [OF assms(1)])
qed

section \<open>Source references\<close>

definition ref_id :: "source_ref \<Rightarrow> string option" where "ref_id r = map_of r ''id''"

lemma add_source_refs_ok:
  assumes "length es \<le> MAX_SOURCE_REFS" "distinct (map ref_id es)" "set (map ref_id es) \<subseteq> seen"
    "\<forall>e \<in> set es. \<exists>i. ref_id e = Some i \<and> i \<noteq> []"
  shows "length (add_source_refs es seen refs) \<le> MAX_SOURCE_REFS \<and> distinct (map ref_id (add_source_refs es seen refs))
    \<and> (\<forall>e \<in> set (add_source_refs es seen refs). \<exists>i. ref_id e = Some i \<and> i \<noteq> [])"
  using assms
proof (induction es seen refs rule: add_source_refs.induct)
  case (2 existing seen_ids ref refs)
  show ?case
  proof (cases "length existing \<ge> MAX_SOURCE_REFS")
    case True
    then show ?thesis using "2.prems" by auto
  next
    case len: False
    show ?thesis
    proof (cases "map_of ref ''id''")
      case None
      then show ?thesis using len "2.IH"(1) [OF len None] "2.prems" by auto
    next
      case (Some i)
      show ?thesis
      proof (cases "i \<noteq> [] \<and> Some i \<notin> seen_ids")
        case True
        with "2.IH"(2) [OF len Some True] "2.prems" Some True len show ?thesis
          by (auto simp: ref_id_def)
      next
        case False
        with "2.IH"(3) [OF len Some False] "2.prems" Some len show ?thesis by auto
      qed
    qed
  qed
qed simp

lemma record_source_refs_ok:
  assumes "length es \<le> MAX_SOURCE_REFS" "distinct (map ref_id es)" "\<forall>e \<in> set es. \<exists>i. ref_id e = Some i \<and> i \<noteq> []"
  shows "length (record_source_refs es refs) \<le> MAX_SOURCE_REFS \<and> distinct (map ref_id (record_source_refs es refs))
    \<and> (\<forall>e \<in> set (record_source_refs es refs). \<exists>i. ref_id e = Some i \<and> i \<noteq> [])"
  using add_source_refs_ok [OF assms(1,2) _ assms(3), of "set (map (\<lambda>r. map_of r ''id'') es)" refs]
  by (auto simp: record_source_refs_def ref_id_def)

text \<open>The references of a finished run: at most twenty, each with an identifier, no identifier twice.\<close>

lemma source_refs_bounded:
  "length (source_refs_of x) \<le> MAX_SOURCE_REFS \<and> distinct (map ref_id (source_refs_of x))
    \<and> (\<forall>e \<in> set (source_refs_of x). \<exists>i. ref_id e = Some i \<and> i \<noteq> [])"
proof -
  have "length (foldl record_source_refs es rs) \<le> MAX_SOURCE_REFS \<and> distinct (map ref_id (foldl record_source_refs es rs))
    \<and> (\<forall>e \<in> set (foldl record_source_refs es rs). \<exists>i. ref_id e = Some i \<and> i \<noteq> [])"
    if "length es \<le> MAX_SOURCE_REFS" "distinct (map ref_id es)" "\<forall>e \<in> set es. \<exists>i. ref_id e = Some i \<and> i \<noteq> []" for es rs
    using that
  proof (induction rs arbitrary: es)
    case (Cons r rs)
    have ok: "length (record_source_refs es r) \<le> MAX_SOURCE_REFS \<and> distinct (map ref_id (record_source_refs es r))
        \<and> (\<forall>e \<in> set (record_source_refs es r). \<exists>i. ref_id e = Some i \<and> i \<noteq> [])"
      by (rule record_source_refs_ok) (use Cons.prems in auto)
    show ?case using Cons.IH [of "record_source_refs es r"] ok by simp
  qed simp
  from this [of "[]"] show ?thesis by (simp add: source_refs_of_def)
qed

section \<open>Redaction\<close>

function embedded_ids :: "char option \<Rightarrow> string \<Rightarrow> string list" where
  "embedded_ids prev [] = []"
| "embedded_ids prev (c # cs) =
     (case id_match prev (c # cs) of
        Some m \<Rightarrow> m # embedded_ids (Some (last m)) (drop (length m - 1) cs)
      | None \<Rightarrow> embedded_ids (Some c) cs)"
  by pat_completeness auto
termination by (relation "measure (\<lambda>(p, s). length s)") auto

declare embedded_ids.simps(2) [simp del] redact_embedded_ids.simps(2) [simp del]

lemma startswith_decomp: "startswith s p \<longleftrightarrow> (\<exists>t. s = p @ t)"
  by (induction s p rule: startswith.induct) auto

lemma id_matchD:
  assumes "id_match prev s = Some m"
  obtains a body rest where "a \<in> {CHR ''u'', CHR ''c''}" "m = [CHR ''o'', a, CHR ''_''] @ body" "body \<noteq> []"
    "list_all id_char body" "s = m @ rest" "rest = [] \<or> \<not> id_char (hd rest)"
    "case prev of Some p \<Rightarrow> \<not> ascii_alnum p | None \<Rightarrow> True"
proof -
  let ?body = "takeWhile id_char (drop 3 s)" and ?rest = "dropWhile id_char (drop 3 s)"
  from assms have m: "m = take 3 s @ ?body" "?body \<noteq> []" and p: "case prev of Some p \<Rightarrow> \<not> ascii_alnum p | None \<Rightarrow> True"
    and "startswith s ''ou_'' \<or> startswith s ''oc_''"
    by (auto simp: id_match_def Let_def split: if_splits)
  then obtain a t where a: "a \<in> {CHR ''u'', CHR ''c''}" "s = [CHR ''o'', a, CHR ''_''] @ t"
    unfolding startswith_decomp by auto
  show thesis
  proof (rule that [OF a(1), of ?body ?rest])
    show "m = [CHR ''o'', a, CHR ''_''] @ ?body" using m a by (simp add: numeral_3_eq_3)
    show "?rest = [] \<or> \<not> id_char (hd ?rest)" using hd_dropWhile by blast
    show "list_all id_char ?body" by (auto simp: list_all_iff dest: set_takeWhileD)
    show "s = m @ ?rest" unfolding m(1) append_assoc takeWhile_dropWhile_id append_take_drop_id ..
  qed (use m p in auto)
qed

lemma id_matchI:
  assumes "a \<in> {CHR ''u'', CHR ''c''}" "body \<noteq> []" "list_all id_char body" "rest = [] \<or> \<not> id_char (hd rest)"
    "case prev of Some p \<Rightarrow> \<not> ascii_alnum p | None \<Rightarrow> True"
  shows "id_match prev ([CHR ''o'', a, CHR ''_''] @ body @ rest) = Some ([CHR ''o'', a, CHR ''_''] @ body)"
proof -
  have "takeWhile id_char (body @ rest) = body"
    using assms(3,4) by (cases rest) (auto simp: list_all_iff takeWhile_append)
  with assms show ?thesis by (auto simp: id_match_def Let_def numeral_3_eq_3)
qed

lemma redact_match:
  assumes "id_match p s = Some m" "s = m @ rest"
  shows "redact_embedded_ids H p s = take 3 m @ hash_id H m @ redact_embedded_ids H (Some (last m)) rest"
    and "embedded_ids p s = m # embedded_ids (Some (last m)) rest"
proof -
  from assms(1) obtain b where m: "m = CHR ''o'' # b" by (rule id_matchD) auto
  with assms show "redact_embedded_ids H p s = take 3 m @ hash_id H m @ redact_embedded_ids H (Some (last m)) rest"
    "embedded_ids p s = m # embedded_ids (Some (last m)) rest"
    by (simp_all add: redact_embedded_ids.simps(2) embedded_ids.simps(2))
qed

lemma redact_no_match:
  assumes "id_match p (c # cs) = None"
  shows "redact_embedded_ids H p (c # cs) = c # redact_embedded_ids H (Some c) cs" "embedded_ids p (c # cs) = embedded_ids (Some c) cs"
  using assms by (simp_all add: redact_embedded_ids.simps(2) embedded_ids.simps(2))

lemma redact_head: "\<exists>t. redact_embedded_ids H p (c # cs) = c # t"
proof (cases "id_match p (c # cs)")
  case (Some m)
  then obtain b rest where "m = CHR ''o'' # b" "c # cs = m @ rest" by (rule id_matchD) auto
  with redact_match(1) [OF Some] show ?thesis by (auto simp: numeral_3_eq_3)
qed (simp add: redact_no_match)

lemma no_match_after_alnum: "ascii_alnum p \<Longrightarrow> id_match (Some p) s = None"
  by (simp add: id_match_def)

lemma no_match_head: "c \<noteq> CHR ''o'' \<Longrightarrow> id_match p (c # cs) = None"
  by (cases "id_match p (c # cs)") (auto elim: id_matchD)

lemma prev_irrelevant:
  assumes "\<not> id_char (hd s)"
  shows "embedded_ids p s = embedded_ids q s"
proof (cases s)
  case (Cons c cs)
  with assms have "c \<noteq> CHR ''o''" by (auto simp: id_char_def ascii_alnum_def)
  with Cons show ?thesis by (simp add: redact_no_match no_match_head)
qed simp

lemma redact_keeps_no_match:
  assumes none: "id_match p (c # cs) = None"
  shows "id_match p (c # redact_embedded_ids H (Some c) cs) = None"
proof (cases "id_match p (c # redact_embedded_ids H (Some c) cs)")
  case (Some m)
  then obtain a body rest where a: "a \<in> {CHR ''u'', CHR ''c''}" and b: "body \<noteq> []" "list_all id_char body"
    and s: "c # redact_embedded_ids H (Some c) cs = ([CHR ''o'', a, CHR ''_''] @ body) @ rest"
    and p: "case p of Some p \<Rightarrow> \<not> ascii_alnum p | None \<Rightarrow> True"
    by (rule id_matchD) blast
  have al: "ascii_alnum (CHR ''o'')" "ascii_alnum a" using a by (auto simp: ascii_alnum_def)
  from s have c: "c = CHR ''o''" and r: "redact_embedded_ids H (Some c) cs = a # CHR ''_'' # body @ rest" by auto
  from r obtain ds where ds: "cs = a # ds" "redact_embedded_ids H (Some a) ds = CHR ''_'' # body @ rest"
    by (cases cs) (auto simp: c redact_no_match no_match_after_alnum al)
  from ds(2) obtain es where es: "ds = CHR ''_'' # es" "redact_embedded_ids H (Some CHR ''_'') es = body @ rest"
    by (cases ds) (auto simp: redact_no_match no_match_after_alnum al)
  obtain x xs where x: "es = x # xs" "id_char x"
  proof (cases es)
    case Nil
    with es(2) b show ?thesis by simp
  next
    case (Cons x xs)
    obtain t where "redact_embedded_ids H (Some CHR ''_'') es = x # t" using redact_head Cons by blast
    with es(2) b have "id_char x" by (cases body) auto
    with Cons show ?thesis by (rule that)
  qed
  have "id_match p ([CHR ''o'', a, CHR ''_''] @ takeWhile id_char es @ dropWhile id_char es)
      = Some ([CHR ''o'', a, CHR ''_''] @ takeWhile id_char es)"
  proof (rule id_matchI [OF a _ _ _ p])
    show "takeWhile id_char es \<noteq> []" using x by simp
    show "list_all id_char (takeWhile id_char es)" by (auto simp: list_all_iff dest: set_takeWhileD)
    show "dropWhile id_char es = [] \<or> \<not> id_char (hd (dropWhile id_char es))" using hd_dropWhile by blast
  qed
  with none c ds es show ?thesis by simp
qed

text \<open>Every identifier of a redacted text is the digest of the one that stood there.\<close>

lemma redacted_ids_hashed:
  assumes "\<And>m. hash_id H m \<noteq> []" "\<And>m. list_all id_char (hash_id H m)"
  shows "embedded_ids p (redact_embedded_ids H p s) = map (\<lambda>m. take 3 m @ hash_id H m) (embedded_ids p s)"
  using assms
proof (induction H p s rule: redact_embedded_ids.induct)
  case (2 H p c cs)
  show ?case
  proof (cases "id_match p (c # cs)")
    case None
    then show ?thesis using "2.IH"(1) [OF None] "2.prems"
      by (simp add: redact_no_match redact_keeps_no_match)
  next
    case (Some m)
    then obtain a body rest where a: "a \<in> {CHR ''u'', CHR ''c''}" and m: "m = [CHR ''o'', a, CHR ''_''] @ body"
      and s: "c # cs = m @ rest" and rest: "rest = [] \<or> \<not> id_char (hd rest)" and p: "case p of Some p \<Rightarrow> \<not> ascii_alnum p | None \<Rightarrow> True"
      by (rule id_matchD) blast
    have m3: "take 3 m = [CHR ''o'', a, CHR ''_'']" using m by (simp add: numeral_3_eq_3)
    let ?R = "redact_embedded_ids H (Some (last m)) rest"
    have R: "?R = [] \<or> \<not> id_char (hd ?R)"
    proof (cases rest)
      case (Cons x xs)
      obtain t where "?R = x # t" using redact_head Cons by blast
      with rest Cons show ?thesis by simp
    qed simp
    have "id_match p ([CHR ''o'', a, CHR ''_''] @ hash_id H m @ ?R) = Some ([CHR ''o'', a, CHR ''_''] @ hash_id H m)"
      by (rule id_matchI [OF a _ _ R p]) (use "2.prems" in auto)
    then have "embedded_ids p (redact_embedded_ids H p (c # cs)) = (take 3 m @ hash_id H m) # embedded_ids (Some (last (take 3 m @ hash_id H m))) ?R"
      unfolding redact_match(1) [OF Some s] m3 by (intro redact_match(2)) simp_all
    also have "embedded_ids (Some (last (take 3 m @ hash_id H m))) ?R = embedded_ids (Some (last m)) ?R"
      using R by (cases "?R = []") (auto intro: prev_irrelevant)
    also have "drop (length m - 1) cs = rest" using s m by (auto simp: Cons_eq_append_conv)
    then have "embedded_ids (Some (last m)) ?R = map (\<lambda>m. take 3 m @ hash_id H m) (embedded_ids (Some (last m)) rest)"
      using "2.IH"(2) [OF Some] "2.prems" by simp
    finally show ?thesis by (simp add: redact_match(2) [OF Some s])
  qed
qed simp

section \<open>Terminal records\<close>

lemma classify_exn_status:
  "vd_status (classify_exn c e) = ''cancelled'' \<longleftrightarrow> is_cancel e"
  "vd_status (classify_exn c e) \<in> {''cancelled'', ''rejected'', ''failed''}"
  "vd_status (classify_exn c e) \<noteq> ''completed''"
  by (auto simp: classify_exn_def Let_def split: prod.splits)

lemma emit_all_done: "emit_all emit es = (done, None) \<Longrightarrow> done = es"
  by (induction es arbitrary: "done") (auto split: option.splits prod.splits)

lemma run_dispatch_verdict:
  assumes "run_dispatch emit x = (out, events, v)"
  shows "(\<exists>e. out = Raised e \<and> v = classify_exn (dx_failure x) e)
    \<or> (\<exists>content. dx_response x = Inr content \<and> events = answer_events x content
         \<and> out = Returned \<lparr>rr_content = content, rr_duplicate = False, rr_completed = \<not> dx_incomplete x\<rparr>
         \<and> v = (if dx_incomplete x
             then \<lparr>vd_status = ''failed'', vd_error_code = Some ''OUTPUT_INCOMPLETE'', vd_subsystem = Some ''output'', vd_retryable = False\<rparr>
             else \<lparr>vd_status = ''completed'', vd_error_code = None, vd_subsystem = None, vd_retryable = False\<rparr>))"
proof (cases "dx_response x")
  case (Inr content)
  obtain es y where e: "emit_all emit (answer_events x content) = (es, y)" by fastforce
  with Inr assms emit_all_done [of emit "answer_events x content" es] show ?thesis
    by (cases y) (auto simp: run_dispatch_def)
qed (use assms in \<open>auto simp: run_dispatch_def\<close>)

lemma run_dispatch_status:
  assumes "run_dispatch emit x = (out, events, v)"
  shows "vd_status v = ''completed'' \<longleftrightarrow> (\<exists>res. out = Returned res \<and> rr_completed res)"
    and "vd_status v = ''cancelled'' \<longleftrightarrow> (\<exists>e. out = Raised e \<and> is_cancel e)"
    and "vd_status v \<in> {''completed'', ''failed'', ''cancelled'', ''rejected''}"
    and "vd_status v = ''completed'' \<Longrightarrow> vd_error_code v = None \<and> vd_subsystem v = None"
  using run_dispatch_verdict [OF assms] classify_exn_status [of "dx_failure x"]
  by (auto split: if_splits)

lemma run_terminal_valid:
  assumes "run_dispatch emit x = (out, events, v)"
  shows "terminal_valid (run_terminal_of L alnum ad x v ms)"
  using run_dispatch_status(3,4) [OF assms]
  by (auto simp: terminal_valid_def run_terminal_of_def Let_def REGISTERED_ERROR_CODES_def FAILURE_SUBSYSTEMS_def split: option.splits)

text \<open>The audit switch is on.\<close>

definition audit_on :: "string option \<Rightarrow> bool" where
  "audit_on env \<longleftrightarrow> lower (strip (str_or_empty env)) \<in> set [''1'', ''true'', ''yes'', ''on'']"

lemma refused_capability:
  "ad_broker ad \<noteq> self \<or> ad_claimed ad \<Longrightarrow> run_admitted L alnum self emit dispatch ms ad = (ad, Raised (plain_exn ''TypeError''), [], None)"
  by (auto simp: run_admitted_def)

lemma audited_run:
  assumes "ad_broker ad = self" "\<not> ad_claimed ad" "audit_on env"
    and "run_admitted L alnum self emit dispatch ms ad = (ad', out, events, t)"
  shows "\<exists>tm line. t = Some tm \<and> append_run_terminal_event H env tm = Inr (Some line)
    \<and> tm_profile_name line = redact_embedded_ids H None (rq_profile_name (ad_request ad))
    \<and> (tm_status line = ''completed'' \<longleftrightarrow> (\<exists>res. out = Returned res \<and> rr_completed res))
    \<and> (tm_status line = ''cancelled'' \<longleftrightarrow> (\<exists>e. out = Raised e \<and> is_cancel e))
    \<and> (tm_answer_completed line \<longleftrightarrow> tm_status line = ''completed'') \<and> 0 \<le> tm_duration_ms line"
proof -
  let ?x = "dispatch (ad_request ad)"
  obtain o' es v where d: "run_dispatch emit ?x = (o', es, v)" by (cases "run_dispatch emit ?x") auto
  with assms(1,2,4) have t: "t = Some (run_terminal_of L alnum ad ?x v ms)" and o': "out = o'"
    by (auto simp: run_admitted_def Let_def)
  from run_terminal_valid [OF d] assms(3) have "append_run_terminal_event H env (run_terminal_of L alnum ad ?x v ms) =
      Inr (Some ((run_terminal_of L alnum ad ?x v ms)\<lparr>tm_profile_name := redact_embedded_ids H None (rq_profile_name (ad_request ad)),
        tm_expert_id := or_none (str_or_empty (tm_expert_id (run_terminal_of L alnum ad ?x v ms))), tm_duration_ms := max 0 ms\<rparr>))"
    by (simp add: append_run_terminal_event_def audit_on_def run_terminal_of_def Let_def)
  with t o' run_dispatch_status(1,2) [OF d] show ?thesis
    by (simp add: run_terminal_of_def Let_def)
qed

section \<open>Properties\<close>

text \<open>C13. The type of a request: whatever the raw fields, a constructed request has a known channel, non-empty names and
  content without surrounding white space, a delivery mode, a workspace that is absent or clean, dictionaries as messages and a
  credential subject; constructing it anew changes nothing, and only such requests are fixed by construction.\<close>

theorem constructed_request_typed:
  assumes "make_run_request raw = Inr r"
  shows "request_wf r \<and> make_run_request r = Inr r \<and> (\<forall>q. make_run_request q = Inr q \<longleftrightarrow> request_wf q)"
  using make_run_request_wf [OF assms] make_run_request_fixed make_run_request_wf by blast

definition demo_request :: run_request where
  "demo_request = \<lparr>rq_channel = ''feishu'', rq_profile_name = ''feishu_ou_x1'', rq_user_key = ''ou_x1'', rq_content = ''hi'',
     rq_chat_id = None, rq_session_id = None, rq_message_id = Some ''om_1'', rq_idempotency_key = None, rq_delivery_mode = ''stream'',
     rq_credential_subject = Some ''ou_x1'', rq_requires_host_tools = False, rq_workspace = None, rq_metadata = [], rq_messages = []\<rparr>"

lemma demo_request_wf: "request_wf demo_request"
  by (simp add: request_wf_def demo_request_def VALID_CHANNELS_def clean_text_def strip_def is_space_def)

theorem constructed_request_typed_witness:
  "make_run_request (demo_request\<lparr>rq_content := ''  hi '', rq_credential_subject := None\<rparr>) = Inr demo_request \<and> request_wf demo_request"
proof -
  have m: "make_run_request (demo_request\<lparr>rq_content := ''  hi '', rq_credential_subject := None\<rparr>) = Inr demo_request"
    by (simp add: make_run_request_def demo_request_def VALID_CHANNELS_def strip_def is_space_def py_or_def Let_def)
  with constructed_request_typed [OF m] show ?thesis by simp
qed

text \<open>C14. The durable keys separate what must not be taken for a duplicate: for profile and user names without a colon and a
  collision-free digest, two requests have the same key exactly when they have the same explicit key on the same channel, or the
  same message, or the same normalised content, always of the same profile and user.\<close>

theorem durable_keys_separate:
  assumes "request_wf r" "request_wf r'" "run_request_dedupe_record H env r = Some d" "run_request_dedupe_record H env r' = Some d'"
    and "inj H" "colon_free (rq_profile_name r)" "colon_free (rq_profile_name r')" "colon_free (rq_user_key r)" "colon_free (rq_user_key r')"
  shows "dr_key d = dr_key d' \<longleftrightarrow> dedupe_subject_of r = dedupe_subject_of r'"
proof -
  have "rq_channel r \<in> set VALID_CHANNELS" "rq_channel r' \<in> set VALID_CHANNELS" using assms(1,2) by (simp_all add: request_wf_def)
  then show ?thesis
    unfolding dedupe_record_key [OF assms(1,3)] dedupe_record_key [OF assms(2,4)] by (rule dedupe_key_inject [OF assms(5-9)])
qed

definition dedupe_demo_env :: dedupe_env where
  "dedupe_demo_env = \<lparr>de_event_ttl = None, de_content_ttl = None, de_min_chars = None\<rparr>"

definition demo_record :: "string \<Rightarrow> dedupe_record" where
  "demo_record m = \<lparr>dr_key = ''msg:feishu_ou_x1:ou_x1:'' @ m, dr_message_id = Some m, dr_content_hash = None, dr_ttl = 86400\<rparr>"

lemma demo_dedupe:
  "strip m = m \<Longrightarrow> m \<noteq> [] \<Longrightarrow> run_request_dedupe_record H dedupe_demo_env (demo_request\<lparr>rq_message_id := Some m\<rparr>) = Some (demo_record m)"
  by (simp add: run_request_dedupe_record_def demo_request_def dedupe_demo_env_def demo_record_def Let_def str_or_empty_def strip_def is_space_def
      dedupe_env_int_def DEDUPE_MESSAGE_TTL_SECONDS_def)

theorem durable_keys_separate_witness:
  "dr_key (demo_record ''om_1'') \<noteq> dr_key (demo_record ''om_2'')"
proof -
  let ?r = "\<lambda>m. demo_request\<lparr>rq_message_id := Some m\<rparr>"
  have wf: "request_wf (?r m)" for m using demo_request_wf by (simp add: request_wf_def)
  have d: "run_request_dedupe_record (\<lambda>s. s) dedupe_demo_env (?r m) = Some (demo_record m)" if "m \<in> {''om_1'', ''om_2''}" for m
    by (rule demo_dedupe) (use that in \<open>auto simp: strip_def is_space_def\<close>)
  have "dr_key (demo_record ''om_1'') = dr_key (demo_record ''om_2'') \<longleftrightarrow>
      dedupe_subject_of (?r ''om_1'') = dedupe_subject_of (?r ''om_2'')"
    by (rule durable_keys_separate [OF wf wf d d]) (simp_all add: inj_def colon_free_def demo_request_def)
  then show ?thesis by (simp add: dedupe_subject_of_def Let_def demo_request_def str_or_empty_def strip_def is_space_def)
qed

text \<open>C15. Every admitted run that is dispatched leaves exactly one terminal record, and the audit log accepts it: it is
  completed exactly when the caller gets a complete answer, cancelled exactly when the run was cancelled, and the line names no
  identifier of the profile but its digest. The capability is spent: a second dispatch is refused before anything runs.\<close>

theorem admitted_run_audited:
  assumes "ad_broker ad = self" "\<not> ad_claimed ad" "audit_on env"
    and "run_admitted L alnum self emit dispatch ms ad = (ad', out, events, t)"
    and "\<And>m. hash_id H m \<noteq> []" "\<And>m. list_all id_char (hash_id H m)"
  shows "(\<exists>tm line. t = Some tm \<and> append_run_terminal_event H env tm = Inr (Some line)
      \<and> (tm_status line = ''completed'' \<longleftrightarrow> (\<exists>res. out = Returned res \<and> rr_completed res))
      \<and> (tm_status line = ''cancelled'' \<longleftrightarrow> (\<exists>e. out = Raised e \<and> is_cancel e))
      \<and> embedded_ids None (tm_profile_name line) = map (\<lambda>m. take 3 m @ hash_id H m) (embedded_ids None (rq_profile_name (ad_request ad))))
    \<and> run_admitted L alnum self emit' dispatch' ms' ad' = (ad', Raised (plain_exn ''TypeError''), [], None)"
proof -
  have "ad' = ad\<lparr>ad_claimed := True\<rparr>" using assms(1,2,4) by (auto simp: run_admitted_def Let_def split: prod.splits)
  then show ?thesis
    using audited_run [OF assms(1-4), of H] redacted_ids_hashed [OF assms(5,6), of None "rq_profile_name (ad_request ad)"]
      refused_capability [of ad' self] by auto
qed

definition demo_dispatch :: dispatch_run where
  "demo_dispatch = \<lparr>dx_response = Inr ''hello'', dx_retried = False, dx_failure = None, dx_incomplete = False, dx_refs = []\<rparr>"

lemma demo_ids: "embedded_ids None ''feishu_ou_x1'' = [''ou_x1'']"
  by (simp add: embedded_ids.simps(2) id_match_def ascii_alnum_def id_char_def)

theorem admitted_run_audited_witness:
  "\<exists>ad' events tm line. run_admitted demo_lib (\<lambda>_. False) 3 (\<lambda>_. None) (\<lambda>_. demo_dispatch) 5 (issue_admitted (\<lambda>_. ''abc'') ''u'' 3 demo_request)
       = (ad', Returned \<lparr>rr_content = ''hello'', rr_duplicate = False, rr_completed = True\<rparr>, events, Some tm)
     \<and> append_run_terminal_event (\<lambda>_. ''abc'') (Some ''on'') tm = Inr (Some line) \<and> tm_status line = ''completed''
     \<and> embedded_ids None (tm_profile_name line) = [''ou_abc'']"
proof -
  let ?ad = "issue_admitted (\<lambda>_. ''abc'') ''u'' 3 demo_request"
  obtain ad' out events t where r: "run_admitted demo_lib (\<lambda>_. False) 3 (\<lambda>_. None) (\<lambda>_. demo_dispatch) 5 ?ad = (ad', out, events, t)"
    by (cases "run_admitted demo_lib (\<lambda>_. False) 3 (\<lambda>_. None) (\<lambda>_. demo_dispatch) 5 ?ad") auto
  then have out: "out = Returned \<lparr>rr_content = ''hello'', rr_duplicate = False, rr_completed = True\<rparr>"
    by (auto simp: run_admitted_def issue_admitted_def Let_def run_dispatch_def demo_dispatch_def answer_events_def)
  have on: "audit_on (Some ''on'')" by (simp add: audit_on_def str_or_empty_def strip_def is_space_def lower_def lower_char_def)
  have H: "hash_id (\<lambda>_. ''abc'') m \<noteq> []" "list_all id_char (hash_id (\<lambda>_. ''abc'') m)" for m
    by (simp_all add: hash_id_def id_char_def ascii_alnum_def)
  have ad: "ad_broker ?ad = 3" "\<not> ad_claimed ?ad" "rq_profile_name (ad_request ?ad) = ''feishu_ou_x1''"
    by (simp_all add: issue_admitted_def demo_request_def)
  from admitted_run_audited [OF ad(1,2) on r H, of undefined undefined undefined] out r show ?thesis
    by (auto simp: ad(3) demo_ids hash_id_def)
qed

end
