(* ===== verification/Run_Broker.thy ===== *)
theory Run_Broker
  imports Run_Requests
begin

text \<open>
  The run broker (\<open>src/hermes_multitenancy/run_broker.py\<close>): concurrent submissions of one request share an in-flight entry,
  whose task prepares the request, admits it against the durable record of seen events and hands it to one execution; callers
  wait for the entry, leave it, and divide its answer. A state holds the entries, the callers and the store; a step is the code
  between two suspension points of one task. Brokers are numbered by their preparation authority; they share one loop and one
  \<open>mark_seen\<close>.
\<close>

section \<open>Policy\<close>

text \<open>Whether the profile has stale plugin state, the text the slash rewriting yields, and the two sandbox switches.\<close>

record broker_policy =
  bp_stale :: "string \<Rightarrow> bool"
  bp_rewrite :: "run_request \<Rightarrow> string"
  bp_require_sandbox :: bool
  bp_sandbox_available :: bool

definition exn_of :: "py_error \<Rightarrow> run_exn" where
  "exn_of e = plain_exn (case e of ValueError _ \<Rightarrow> ''ValueError'' | RuntimeError _ \<Rightarrow> ''RuntimeError'' | PyTypeError \<Rightarrow> ''TypeError''
     | _ \<Rightarrow> ''Exception'')"

definition assert_policy :: "broker_policy \<Rightarrow> run_request \<Rightarrow> run_exn + run_request" where
  "assert_policy P r =
     (if rq_requires_host_tools r \<and> bp_require_sandbox P \<and> \<not> bp_sandbox_available P then Inl (plain_exn ''RunRejected'') else Inr r)"

text \<open>\<open>replace(request, content=...)\<close> constructs the request anew.\<close>

definition rewrite_skill_slash_request :: "broker_policy \<Rightarrow> run_request \<Rightarrow> run_exn + run_request" where
  "rewrite_skill_slash_request P r =
     (let rewritten = bp_rewrite P r
      in if rewritten = [] \<or> rewritten = rq_content r then Inr r
         else (case make_run_request (r\<lparr>rq_content := rewritten\<rparr>) of Inl e \<Rightarrow> Inl (exn_of e) | Inr r' \<Rightarrow> Inr r'))"

definition check_policy :: "broker_policy \<Rightarrow> run_request \<Rightarrow> run_exn + run_request" where
  "check_policy P r =
     (if bp_stale P (rq_profile_name r) then Inl (plain_exn ''RunRejected'')
      else case rewrite_skill_slash_request P r of Inl e \<Rightarrow> Inl e | Inr r' \<Rightarrow> assert_policy P r')"

section \<open>Prepared capabilities\<close>

text \<open>\<open>PreparedRun\<close>; \<open>pr_state\<close> identifies the admission state that the copies made by \<open>with_request\<close> share.\<close>

record prepared =
  pr_request :: run_request
  pr_admission_request :: run_request
  pr_identity :: identity
  pr_authority :: nat
  pr_state :: nat

definition issue_prepared :: "(string \<Rightarrow> string) \<Rightarrow> nat \<Rightarrow> nat \<Rightarrow> run_request \<Rightarrow> run_request \<Rightarrow> prepared" where
  "issue_prepared H authority st r admission =
     \<lparr>pr_request = r, pr_admission_request = admission, pr_identity = request_identity H admission, pr_authority = authority, pr_state = st\<rparr>"

definition identity3 :: "identity \<Rightarrow> string \<times> string \<times> string" where
  "identity3 i = (case i of (c, p, u, k) \<Rightarrow> (c, p, u))"

definition with_request :: "(string \<Rightarrow> string) \<Rightarrow> prepared \<Rightarrow> run_request \<Rightarrow> run_exn + prepared" where
  "with_request H p r =
     (if identity3 (request_identity H r) \<noteq> identity3 (pr_identity p) then Inl (plain_exn ''ValueError'')
      else Inr (p\<lparr>pr_request := r\<rparr>))"

text \<open>\<open>_prepare_once\<close>; \<open>res\<close> is what the \<open>prepare_request\<close> callback does, None when the broker has none.\<close>

definition prepare_once ::
    "(string \<Rightarrow> string) \<Rightarrow> broker_policy \<Rightarrow> nat \<Rightarrow> nat \<Rightarrow> run_request \<Rightarrow> (run_exn + run_request) option \<Rightarrow> run_exn + prepared" where
  "prepare_once H P authority st r res =
     (case res of
        None \<Rightarrow> Inr (issue_prepared H authority st r r)
      | Some (Inl e) \<Rightarrow> Inl e
      | Some (Inr r') \<Rightarrow>
          if request_identity H r' \<noteq> request_identity H r then Inl (plain_exn ''ValueError'')
          else (case assert_policy P r' of Inl e \<Rightarrow> Inl e | Inr r' \<Rightarrow> Inr (issue_prepared H authority st r' r)))"

text \<open>What the \<open>transform_request\<close> callback returns.\<close>

datatype transformed = NoTransform | ToRequest run_request | ToPrepared prepared | ToOther | TransformRaises run_exn

definition apply_transform :: "(string \<Rightarrow> string) \<Rightarrow> broker_policy \<Rightarrow> prepared \<Rightarrow> transformed \<Rightarrow> run_exn + prepared" where
  "apply_transform H P p t =
     (case t of
        NoTransform \<Rightarrow> Inr p
      | TransformRaises e \<Rightarrow> Inl e
      | ToOther \<Rightarrow> Inl (plain_exn ''TypeError'')
      | ToPrepared q \<Rightarrow>
          if pr_state q \<noteq> pr_state p then Inl (plain_exn ''ValueError'')
          else (case check_policy P (pr_request q) of Inl e \<Rightarrow> Inl e | Inr r \<Rightarrow> with_request H q r)
      | ToRequest r \<Rightarrow> (case check_policy P r of Inl e \<Rightarrow> Inl e | Inr r' \<Rightarrow> with_request H p r'))"

section \<open>State\<close>

text \<open>The phases of an entry's task. \<open>Closing\<close>: it waits for the finalizer of the entry.\<close>

datatype task_phase = Created | Preparing | Transforming prepared | Executing | Closing outcome | Finished outcome

datatype callback = OnAbandon | OnExecutionDone | OnEntryDone bool

text \<open>Which callbacks a caller passes.\<close>

record callbacks =
  cb_on_abandon :: bool
  cb_on_execution_done :: bool
  cb_on_entry_done :: bool

text \<open>The key of an entry: the broker and the identity of the request.\<close>

datatype key = Key (key_broker: nat) (key_identity: identity)

text \<open>
  \<open>en_cancel\<close>: a cancellation is pending. \<open>en_exec\<close>: the execution, None before admission, \<open>Some None\<close> while it runs.
  \<open>en_gate\<close>: the finalizer's gate, None without one, \<open>Some None\<close> while it is closed. \<open>en_calls\<close>: the callbacks that have run.
\<close>

record entry =
  en_key :: key
  en_request :: run_request
  en_phase :: task_phase
  en_committed :: bool
  en_delivered :: bool
  en_waiters :: int
  en_abandoned :: bool
  en_cancel :: bool
  en_cleaned :: bool
  en_exec :: "outcome option option"
  en_gate :: "bool option option"
  en_callbacks :: callbacks
  en_calls :: "callback list"

text \<open>A caller waits for an entry or for a dispatch of its own, or has its answer (and the entry it came from).\<close>

datatype wait = Waiting nat | Dispatched | Answered "nat option" outcome

record caller =
  ca_key :: key
  ca_wait :: wait

text \<open>A run: the request that was admitted, when, by which entry, on which capability.\<close>

record run =
  ru_request :: run_request
  ru_at :: int
  ru_entry :: "nat option"
  ru_state :: nat

record 's broker =
  br_now :: int
  br_store :: 's
  br_inflight :: "key \<Rightarrow> nat option"
  br_entry :: "nat \<Rightarrow> entry option"
  br_caller :: "nat \<Rightarrow> caller option"
  br_prepared :: "prepared list"
  br_spent :: "nat list"
  br_runs :: "run list"

text \<open>What a broker is built from: SHA-256, \<open>mark_seen\<close> and \<open>is_seen\<close> at a time, and what others do to the same store.\<close>

record ('s, 'o) broker_lib =
  bl_H :: "string \<Rightarrow> string"
  bl_mark :: "int \<Rightarrow> 's \<Rightarrow> run_request \<Rightarrow> 's \<times> bool result"
  bl_seen :: "int \<Rightarrow> 's \<Rightarrow> run_request \<Rightarrow> bool result"
  bl_other :: "int \<Rightarrow> 'o \<Rightarrow> 's \<Rightarrow> 's"

definition broker_init :: "int \<Rightarrow> 's \<Rightarrow> 's broker" where
  "broker_init now st = \<lparr>br_now = now, br_store = st, br_inflight = (\<lambda>_. None), br_entry = (\<lambda>_. None),
     br_caller = (\<lambda>_. None), br_prepared = [], br_spent = [], br_runs = []\<rparr>"

definition set_entry :: "nat \<Rightarrow> entry \<Rightarrow> 's broker \<Rightarrow> 's broker" where
  "set_entry e en s = s\<lparr>br_entry := (br_entry s)(e \<mapsto> en)\<rparr>"

definition set_wait :: "nat \<Rightarrow> key \<Rightarrow> wait \<Rightarrow> 's broker \<Rightarrow> 's broker" where
  "set_wait i k w s = s\<lparr>br_caller := (br_caller s)(i \<mapsto> \<lparr>ca_key = k, ca_wait = w\<rparr>)\<rparr>"

section \<open>The entry's task\<close>

text \<open>\<open>_run_on_abandon_once\<close> and the finalizer's \<open>ensure\<close>.\<close>

definition run_on_abandon_once :: "entry \<Rightarrow> entry" where
  "run_on_abandon_once en =
     (if \<not> cb_on_abandon (en_callbacks en) \<or> en_committed en \<or> en_abandoned en then en
      else en\<lparr>en_abandoned := True, en_calls := en_calls en @ [OnAbandon]\<rparr>)"

definition ensure_gate :: "bool \<Rightarrow> entry \<Rightarrow> entry" where
  "ensure_gate failed en = (if en_gate en = Some None then en\<lparr>en_gate := Some (Some failed)\<rparr> else en)"

definition failed_outcome :: "outcome \<Rightarrow> bool" where
  "failed_outcome out = (case out of Returned _ \<Rightarrow> False | Raised _ \<Rightarrow> True)"

text \<open>The \<open>finally\<close> clause of \<open>_prepare_admit_execute_once\<close>.\<close>

definition close_task :: "outcome \<Rightarrow> entry \<Rightarrow> entry" where
  "close_task out en =
     (let en' = ensure_gate (failed_outcome out) (run_on_abandon_once en)
      in en'\<lparr>en_cancel := False, en_phase := (if en_gate en' = None then Finished out else Closing out)\<rparr>)"

text \<open>The first step: \<open>_known_duplicate\<close>.\<close>

definition start_task :: "('s, 'o) broker_lib \<Rightarrow> nat \<Rightarrow> entry \<Rightarrow> 's broker \<Rightarrow> 's broker" where
  "start_task B e en s =
     set_entry e (case bl_seen B (br_now s) (br_store s) (en_request en) of
         Inl x \<Rightarrow> close_task (Raised (exn_of x)) en
       | Inr True \<Rightarrow> close_task (Returned duplicate_result) en
       | Inr False \<Rightarrow> en\<lparr>en_phase := Preparing\<rparr>) s"

definition prepare_task ::
    "('s, 'o) broker_lib \<Rightarrow> broker_policy \<Rightarrow> nat \<Rightarrow> (run_exn + run_request) option \<Rightarrow> nat \<Rightarrow> entry \<Rightarrow> 's broker \<Rightarrow> 's broker" where
  "prepare_task B P st res e en s =
     (case prepare_once (bl_H B) P (key_broker (en_key en)) st (en_request en) res of
        Inl x \<Rightarrow> set_entry e (close_task (Raised x) en) s
      | Inr p \<Rightarrow> set_entry e (en\<lparr>en_phase := Transforming p\<rparr>) (s\<lparr>br_prepared := p # br_prepared s\<rparr>))"

text \<open>From the end of \<open>before_admit\<close> to the await of the execution: claim, durable mark, commit, without a suspension between.\<close>

definition admit_task :: "('s, 'o) broker_lib \<Rightarrow> prepared \<Rightarrow> nat \<Rightarrow> entry \<Rightarrow> 's broker \<Rightarrow> 's broker" where
  "admit_task B p e en s =
     (if pr_authority p \<noteq> key_broker (en_key en) then set_entry e (close_task (Raised (plain_exn ''TypeError'')) en) s
      else if pr_state p \<in> set (br_spent s) then set_entry e (close_task (Returned duplicate_result) en) s
      else (case bl_mark B (br_now s) (br_store s) (pr_admission_request p) of
              (st, Inl x) \<Rightarrow> set_entry e (close_task (Raised (exn_of x)) en) (s\<lparr>br_spent := pr_state p # br_spent s, br_store := st\<rparr>)
            | (st, Inr False) \<Rightarrow>
                set_entry e (close_task (Returned duplicate_result) en) (s\<lparr>br_spent := pr_state p # br_spent s, br_store := st\<rparr>)
            | (st, Inr True) \<Rightarrow>
                set_entry e (en\<lparr>en_committed := True, en_exec := Some None, en_phase := Executing\<rparr>)
                  (s\<lparr>br_spent := pr_state p # br_spent s, br_store := st,
                     br_runs := br_runs s @ [\<lparr>ru_request = pr_admission_request p, ru_at = br_now s, ru_entry = Some e, ru_state = pr_state p\<rparr>]\<rparr>)))"

text \<open>The transform, \<open>before_admit\<close> and the admission.\<close>

definition proceed_task ::
    "('s, 'o) broker_lib \<Rightarrow> broker_policy \<Rightarrow> transformed \<Rightarrow> run_exn option \<Rightarrow> prepared \<Rightarrow> nat \<Rightarrow> entry \<Rightarrow> 's broker \<Rightarrow> 's broker" where
  "proceed_task B P t before p e en s =
     (case apply_transform (bl_H B) P p t of
        Inl x \<Rightarrow> set_entry e (close_task (Raised x) en) s
      | Inr q \<Rightarrow> (case before of Some x \<Rightarrow> set_entry e (close_task (Raised x) en) s | None \<Rightarrow> admit_task B q e en s))"

text \<open>The execution ends; \<open>_finalize_execution\<close> runs.\<close>

definition end_execution :: "outcome \<Rightarrow> entry \<Rightarrow> entry" where
  "end_execution out en =
     en\<lparr>en_exec := Some (Some out),
        en_calls := en_calls en @ (if cb_on_execution_done (en_callbacks en) \<and> en_committed en then [OnExecutionDone] else [])\<rparr>"

text \<open>\<open>_cleanup_execution\<close>, the done callback of the task.\<close>

definition drop_inflight :: "key \<Rightarrow> nat \<Rightarrow> 's broker \<Rightarrow> 's broker" where
  "drop_inflight k e s = (if br_inflight s k = Some e then s\<lparr>br_inflight := (br_inflight s)(k := None)\<rparr> else s)"

definition cleanup_execution :: "outcome \<Rightarrow> nat \<Rightarrow> entry \<Rightarrow> 's broker \<Rightarrow> 's broker" where
  "cleanup_execution out e en s =
     drop_inflight (en_key en) e
       (set_entry e ((run_on_abandon_once (ensure_gate (failed_outcome out) en))\<lparr>en_cleaned := True\<rparr>) s)"

section \<open>Callers\<close>

definition new_entry :: "key \<Rightarrow> run_request \<Rightarrow> callbacks \<Rightarrow> entry" where
  "new_entry k r cb = \<lparr>en_key = k, en_request = r, en_phase = Created, en_committed = False, en_delivered = False, en_waiters = 1,
     en_abandoned = False, en_cancel = False, en_cleaned = False, en_exec = None,
     en_gate = (if cb_on_entry_done cb then Some None else None), en_callbacks = cb, en_calls = []\<rparr>"

text \<open>\<open>prepare_and_execute\<close> up to the await; \<open>a\<close> is the broker, \<open>i\<close> the caller, \<open>n\<close> an unused number.\<close>

definition enter :: "('s, 'o) broker_lib \<Rightarrow> broker_policy \<Rightarrow> nat \<Rightarrow> nat \<Rightarrow> nat \<Rightarrow> callbacks \<Rightarrow> run_request \<Rightarrow> 's broker \<Rightarrow> 's broker" where
  "enter B P a i n cb raw s =
     (case check_policy P raw of
        Inl x \<Rightarrow> set_wait i (Key a (request_identity (bl_H B) raw)) (Answered None (Raised x)) s
      | Inr r \<Rightarrow>
          let k = Key a (request_identity (bl_H B) r)
          in (case br_inflight s k of
                Some e \<Rightarrow>
                  (case br_entry s e of
                     None \<Rightarrow> s
                   | Some en \<Rightarrow>
                       if en_committed en \<and> en_waiters en = 0 then set_wait i k (Answered None (Returned duplicate_result)) s
                       else set_wait i k (Waiting e) (set_entry e (en\<lparr>en_waiters := en_waiters en + 1\<rparr>) s))
              | None \<Rightarrow>
                  set_wait i k (Waiting n) (set_entry n (new_entry k r cb) (s\<lparr>br_inflight := (br_inflight s)(k \<mapsto> n)\<rparr>))))"

definition task_done :: "entry \<Rightarrow> bool" where
  "task_done en = (case en_phase en of Finished _ \<Rightarrow> True | _ \<Rightarrow> False)"

text \<open>\<open>_release_execution_waiter\<close>.\<close>

definition release_waiter :: "bool \<Rightarrow> nat \<Rightarrow> entry \<Rightarrow> 's broker \<Rightarrow> 's broker" where
  "release_waiter cancel_if_last e en s =
     (let en = en\<lparr>en_waiters := en_waiters en - 1\<rparr>
      in if cancel_if_last \<and> en_waiters en = 0 \<and> \<not> en_committed en
         then drop_inflight (en_key en) e (set_entry e (if task_done en then en else en\<lparr>en_cancel := True\<rparr>) s)
         else set_entry e en s)"

text \<open>A waiting caller resumes once the task has finished.\<close>

definition wake :: "nat \<Rightarrow> key \<Rightarrow> nat \<Rightarrow> entry \<Rightarrow> outcome \<Rightarrow> 's broker \<Rightarrow> 's broker" where
  "wake i k e en out s =
     (case out of
        Raised x \<Rightarrow>
          set_wait i k (Answered (Some e) (Raised x))
            (if is_cancel x then release_waiter True e en s else release_waiter False e en (drop_inflight (en_key en) e s))
      | Returned res \<Rightarrow>
          if rr_duplicate res \<or> en_delivered en
          then set_wait i k (Answered (Some e) (Returned (if rr_duplicate res then res else duplicate_result)))
                 (release_waiter False e en (drop_inflight (en_key en) e s))
          else set_wait i k (Answered (Some e) (Returned res))
                 (release_waiter False e (en\<lparr>en_delivered := True\<rparr>) (drop_inflight (en_key en) e s)))"

text \<open>\<open>run_prepared\<close> up to the await of its own execution.\<close>

definition run_prepared :: "('s, 'o) broker_lib \<Rightarrow> broker_policy \<Rightarrow> nat \<Rightarrow> nat \<Rightarrow> prepared \<Rightarrow> 's broker \<Rightarrow> 's broker" where
  "run_prepared B P a i p s =
     (let k = Key a (pr_identity p); answer = (\<lambda>out. set_wait i k (Answered None out))
      in if pr_authority p \<noteq> a then answer (Raised (plain_exn ''TypeError'')) s
         else if pr_state p \<in> set (br_spent s) then answer (Returned duplicate_result) s
         else let s = s\<lparr>br_spent := pr_state p # br_spent s\<rparr>
              in (case assert_policy P (pr_request p) of
                    Inl x \<Rightarrow> answer (Raised x) s
                  | Inr _ \<Rightarrow>
                      (case bl_mark B (br_now s) (br_store s) (pr_admission_request p) of
                         (st, Inl x) \<Rightarrow> answer (Raised (exn_of x)) (s\<lparr>br_store := st\<rparr>)
                       | (st, Inr False) \<Rightarrow> answer (Returned duplicate_result) (s\<lparr>br_store := st\<rparr>)
                       | (st, Inr True) \<Rightarrow>
                           set_wait i k Dispatched
                             (s\<lparr>br_store := st, br_runs := br_runs s @ [\<lparr>ru_request = pr_admission_request p, ru_at = br_now s,
                                  ru_entry = None, ru_state = pr_state p\<rparr>]\<rparr>))))"

section \<open>Steps\<close>

text \<open>
  \<open>CancelStarted\<close>: the cancellation is raised at the await in the callback. \<open>SwallowCancel\<close>: the callback catches it.
  \<open>CancelUnstarted\<close>: the coroutine body never runs. \<open>CancelClosing\<close>: it is raised while the task awaits the finalizer.
\<close>

inductive broker_step :: "('s, 'o) broker_lib \<Rightarrow> 's broker \<Rightarrow> 's broker \<Rightarrow> bool" for B where
  Tick: "br_now s \<le> t \<Longrightarrow> broker_step B s (s\<lparr>br_now := t\<rparr>)"
| Other: "broker_step B s (s\<lparr>br_store := bl_other B (br_now s) w (br_store s)\<rparr>)"
| Enter: "br_caller s i = None \<Longrightarrow> br_entry s n = None \<Longrightarrow> broker_step B s (enter B P a i n cb raw s)"
| Start: "br_entry s e = Some en \<Longrightarrow> en_phase en = Created \<Longrightarrow> \<not> en_cancel en \<Longrightarrow> broker_step B s (start_task B e en s)"
| CancelUnstarted: "br_entry s e = Some en \<Longrightarrow> en_phase en = Created \<Longrightarrow> en_cancel en
    \<Longrightarrow> broker_step B s (set_entry e (en\<lparr>en_phase := Finished (Raised cancelled_error), en_cancel := False\<rparr>) s)"
| Prepare: "br_entry s e = Some en \<Longrightarrow> en_phase en = Preparing \<Longrightarrow> \<not> en_cancel en \<Longrightarrow> st \<notin> pr_state ` set (br_prepared s)
    \<Longrightarrow> broker_step B s (prepare_task B P st res e en s)"
| Proceed: "br_entry s e = Some en \<Longrightarrow> en_phase en = Transforming p \<Longrightarrow> \<not> en_cancel en
    \<Longrightarrow> (\<And>q. t = ToPrepared q \<Longrightarrow> q \<in> set (br_prepared s)) \<Longrightarrow> broker_step B s (proceed_task B P t before p e en s)"
| CancelStarted: "br_entry s e = Some en \<Longrightarrow> en_phase en = Preparing \<or> en_phase en = Transforming p \<Longrightarrow> en_cancel en
    \<Longrightarrow> broker_step B s (set_entry e (close_task (Raised cancelled_error) en) s)"
| SwallowCancel: "br_entry s e = Some en \<Longrightarrow> en_phase en = Preparing \<or> en_phase en = Transforming p
    \<Longrightarrow> broker_step B s (set_entry e (en\<lparr>en_cancel := False\<rparr>) s)"
| EndExecution: "br_entry s e = Some en \<Longrightarrow> en_exec en = Some None \<Longrightarrow> broker_step B s (set_entry e (end_execution out en) s)"
| Resume: "br_entry s e = Some en \<Longrightarrow> en_phase en = Executing \<Longrightarrow> en_exec en = Some (Some out)
    \<Longrightarrow> broker_step B s (set_entry e (close_task out en) s)"
| EntryDone: "br_entry s e = Some en \<Longrightarrow> en_gate en = Some (Some failed) \<Longrightarrow> OnEntryDone failed \<notin> set (en_calls en)
    \<Longrightarrow> broker_step B s (set_entry e (en\<lparr>en_calls := en_calls en @ [OnEntryDone failed]\<rparr>) s)"
| Closed: "br_entry s e = Some en \<Longrightarrow> en_phase en = Closing out \<Longrightarrow> \<not> en_cancel en \<Longrightarrow> en_gate en = Some (Some failed)
    \<Longrightarrow> OnEntryDone failed \<in> set (en_calls en) \<Longrightarrow> broker_step B s (set_entry e (en\<lparr>en_phase := Finished out\<rparr>) s)"
| CancelClosing: "br_entry s e = Some en \<Longrightarrow> en_phase en = Closing out \<Longrightarrow> en_cancel en
    \<Longrightarrow> broker_step B s (set_entry e (en\<lparr>en_phase := Finished (Raised cancelled_error), en_cancel := False\<rparr>) s)"
| Cleanup: "br_entry s e = Some en \<Longrightarrow> en_phase en = Finished out \<Longrightarrow> \<not> en_cleaned en
    \<Longrightarrow> broker_step B s (cleanup_execution out e en s)"
| Wake: "br_caller s i = Some c \<Longrightarrow> ca_wait c = Waiting e \<Longrightarrow> br_entry s e = Some en \<Longrightarrow> en_phase en = Finished out
    \<Longrightarrow> broker_step B s (wake i (ca_key c) e en out s)"
| CancelCaller: "br_caller s i = Some c \<Longrightarrow> ca_wait c = Waiting e \<Longrightarrow> br_entry s e = Some en
    \<Longrightarrow> broker_step B s (set_wait i (ca_key c) (Answered (Some e) (Raised cancelled_error)) (release_waiter True e en s))"
| Derive: "p \<in> set (br_prepared s) \<Longrightarrow> with_request (bl_H B) p r = Inr q
    \<Longrightarrow> broker_step B s (s\<lparr>br_prepared := q # br_prepared s\<rparr>)"
| Issue: "prepare_once (bl_H B) P a st r res = Inr p \<Longrightarrow> st \<notin> pr_state ` set (br_prepared s)
    \<Longrightarrow> broker_step B s (s\<lparr>br_prepared := p # br_prepared s\<rparr>)"
| RunPrepared: "br_caller s i = None \<Longrightarrow> p \<in> set (br_prepared s) \<Longrightarrow> broker_step B s (run_prepared B P a i p s)"
| EndDispatch: "br_caller s i = Some c \<Longrightarrow> ca_wait c = Dispatched
    \<Longrightarrow> broker_step B s (set_wait i (ca_key c) (Answered None out) s)"

inductive broker_reachable :: "('s, 'o) broker_lib \<Rightarrow> int \<Rightarrow> 's \<Rightarrow> 's broker \<Rightarrow> bool" for B now st where
  broker_start: "broker_reachable B now st (broker_init now st)"
| broker_next: "broker_reachable B now st s \<Longrightarrow> broker_step B s s' \<Longrightarrow> broker_reachable B now st s'"

section \<open>Fields\<close>

lemma set_entry_simps [simp]:
  "br_now (set_entry e en s) = br_now s" "br_store (set_entry e en s) = br_store s"
  "br_inflight (set_entry e en s) = br_inflight s" "br_entry (set_entry e en s) = (br_entry s)(e \<mapsto> en)"
  "br_caller (set_entry e en s) = br_caller s" "br_prepared (set_entry e en s) = br_prepared s"
  "br_spent (set_entry e en s) = br_spent s" "br_runs (set_entry e en s) = br_runs s"
  by (simp_all add: set_entry_def)

lemma set_wait_simps [simp]:
  "br_now (set_wait i k w s) = br_now s" "br_store (set_wait i k w s) = br_store s"
  "br_inflight (set_wait i k w s) = br_inflight s" "br_entry (set_wait i k w s) = br_entry s"
  "br_caller (set_wait i k w s) = (br_caller s)(i \<mapsto> \<lparr>ca_key = k, ca_wait = w\<rparr>)" "br_prepared (set_wait i k w s) = br_prepared s"
  "br_spent (set_wait i k w s) = br_spent s" "br_runs (set_wait i k w s) = br_runs s"
  by (simp_all add: set_wait_def)

lemma drop_inflight_simps [simp]:
  "br_now (drop_inflight k e s) = br_now s" "br_store (drop_inflight k e s) = br_store s"
  "br_entry (drop_inflight k e s) = br_entry s" "br_caller (drop_inflight k e s) = br_caller s"
  "br_prepared (drop_inflight k e s) = br_prepared s" "br_spent (drop_inflight k e s) = br_spent s"
  "br_runs (drop_inflight k e s) = br_runs s"
  "br_inflight (drop_inflight k e s) = (if br_inflight s k = Some e then (br_inflight s)(k := None) else br_inflight s)"
  by (simp_all add: drop_inflight_def)

text \<open>The entry after a caller has left it.\<close>

definition released :: "bool \<Rightarrow> entry \<Rightarrow> entry" where
  "released cancel_if_last en =
     (let en = en\<lparr>en_waiters := en_waiters en - 1\<rparr>
      in if cancel_if_last \<and> en_waiters en = 0 \<and> \<not> en_committed en \<and> \<not> task_done en then en\<lparr>en_cancel := True\<rparr> else en)"

lemma task_done_update [simp]: "task_done (en\<lparr>en_waiters := w\<rparr>) = task_done en"
  by (simp add: task_done_def)

lemma release_waiter_simps [simp]:
  "br_now (release_waiter b e en s) = br_now s" "br_store (release_waiter b e en s) = br_store s"
  "br_entry (release_waiter b e en s) = (br_entry s)(e \<mapsto> released b en)"
  "br_caller (release_waiter b e en s) = br_caller s" "br_prepared (release_waiter b e en s) = br_prepared s"
  "br_spent (release_waiter b e en s) = br_spent s" "br_runs (release_waiter b e en s) = br_runs s"
  "br_inflight (release_waiter b e en s) =
     (if b \<and> en_waiters en = 1 \<and> \<not> en_committed en \<and> br_inflight s (en_key en) = Some e
      then (br_inflight s)(en_key en := None) else br_inflight s)"
  by (simp_all add: release_waiter_def released_def Let_def)

section \<open>The journal of admissions\<close>

text \<open>
  The abstract specification: a clock, the durable store and the runs admitted so far. A run is admitted by a successful
  durable mark of its request, and by nothing else.
\<close>

type_synonym 's journal = "int \<times> 's \<times> run list"

definition journal :: "'s broker \<Rightarrow> 's journal" where
  "journal s = (br_now s, br_store s, br_runs s)"

inductive journal_step ::
    "(int \<Rightarrow> 's \<Rightarrow> run_request \<Rightarrow> 's \<times> bool result) \<Rightarrow> (int \<Rightarrow> 'o \<Rightarrow> 's \<Rightarrow> 's) \<Rightarrow> 's journal \<Rightarrow> 's journal \<Rightarrow> bool"
  for mark other where
  Idle: "journal_step mark other j j"
| Later: "n \<le> t \<Longrightarrow> journal_step mark other (n, st, rs) (t, st, rs)"
| Foreign: "journal_step mark other (n, st, rs) (n, other n w st, rs)"
| Refused: "mark n st r = (st', x) \<Longrightarrow> x \<noteq> Inr True \<Longrightarrow> journal_step mark other (n, st, rs) (n, st', rs)"
| Admitted: "mark n st r = (st', Inr True) \<Longrightarrow> ru_request x = r \<Longrightarrow> ru_at x = n
    \<Longrightarrow> journal_step mark other (n, st, rs) (n, st', rs @ [x])"

lemma journal_idle: "journal s' = journal s \<Longrightarrow> journal_step m other (journal s) (journal s')"
  by (simp add: Idle)

lemma journal_enter: "journal (enter B P a i n cb raw s) = journal s"
  by (auto simp: enter_def journal_def Let_def split: sum.split option.split)

lemma journal_wake: "journal (wake i k e en out s) = journal s"
  by (simp add: wake_def journal_def split: outcome.split)

lemma journal_set [simp]:
  "journal (set_entry e en s) = journal s" "journal (set_wait i k w s) = journal s" "journal (drop_inflight k e s) = journal s"
  "journal (release_waiter b e en s) = journal s"
  by (simp_all add: journal_def)

lemma journal_prepare: "journal (prepare_task B P st res e en s) = journal s"
  by (simp add: prepare_task_def journal_def split: sum.split)

lemma journal_admit: "journal_step (bl_mark B) (bl_other B) (journal s) (journal (admit_task B p e en s))"
proof (cases "pr_authority p \<noteq> key_broker (en_key en) \<or> pr_state p \<in> set (br_spent s)")
  case True
  then show ?thesis by (auto simp: admit_task_def Idle)
next
  case False
  obtain st x where m: "bl_mark B (br_now s) (br_store s) (pr_admission_request p) = (st, x)" by fastforce
  show ?thesis
  proof (cases "x = Inr True")
    case True
    with m False show ?thesis by (auto simp: admit_task_def journal_def intro: Admitted)
  next
    case no: False
    with m False have "journal (admit_task B p e en s) = (br_now s, st, br_runs s)"
      by (auto simp: admit_task_def journal_def split: sum.split bool.split)
    moreover have "journal_step (bl_mark B) (bl_other B) (br_now s, br_store s, br_runs s) (br_now s, st, br_runs s)"
      by (rule Refused [where mark = "bl_mark B", OF m no])
    ultimately show ?thesis by (simp add: journal_def)
  qed
qed

lemma journal_run_prepared: "journal_step (bl_mark B) (bl_other B) (journal s) (journal (run_prepared B P a i p s))"
proof (cases "pr_authority p \<noteq> a \<or> pr_state p \<in> set (br_spent s) \<or> (\<exists>x. assert_policy P (pr_request p) = Inl x)")
  case True
  then have "journal (run_prepared B P a i p s) = journal s"
    by (auto simp: run_prepared_def Let_def journal_def)
  then show ?thesis by (simp add: Idle)
next
  case False
  then obtain r where r: "assert_policy P (pr_request p) = Inr r" by (cases "assert_policy P (pr_request p)") auto
  obtain st x where m: "bl_mark B (br_now s) (br_store s) (pr_admission_request p) = (st, x)" by fastforce
  show ?thesis
  proof (cases "x = Inr True")
    case True
    with m r False show ?thesis by (auto simp: run_prepared_def Let_def journal_def intro: Admitted)
  next
    case no: False
    with m r False have "journal (run_prepared B P a i p s) = (br_now s, st, br_runs s)"
      by (auto simp: run_prepared_def Let_def journal_def split: sum.split bool.split)
    moreover have "journal_step (bl_mark B) (bl_other B) (br_now s, br_store s, br_runs s) (br_now s, st, br_runs s)"
      by (rule Refused [where mark = "bl_mark B", OF m no])
    ultimately show ?thesis by (simp add: journal_def)
  qed
qed

lemma broker_refines_journal:
  assumes "broker_step B s s'"
  shows "journal_step (bl_mark B) (bl_other B) (journal s) (journal s')"
  using assms
proof cases
  case (Tick t)
  then show ?thesis by (simp add: journal_def Later)
next
  case (Other w)
  then show ?thesis by (simp add: journal_def Foreign)
next
  case (Proceed e en p t P before)
  then show ?thesis
    by (auto simp: proceed_task_def journal_admit Idle split: sum.split option.split)
next
  case (RunPrepared i p P a)
  then show ?thesis by (simp add: journal_run_prepared)
qed (auto simp: journal_enter journal_wake journal_prepare start_task_def cleanup_execution_def journal_def [of "br_prepared_update _ _"] intro: journal_idle, simp_all add: journal_def Idle)

lemma broker_journal:
  "broker_reachable B now st s \<Longrightarrow> (journal_step (bl_mark B) (bl_other B))\<^sup>*\<^sup>* (now, st, []) (journal s)"
proof (induction rule: broker_reachable.induct)
  case broker_start
  then show ?case by (simp add: journal_def broker_init_def)
next
  case (broker_next s s')
  then show ?case using broker_refines_journal by (meson rtranclp.rtrancl_into_rtrancl)
qed

section \<open>Durable marks\<close>

text \<open>
  The contract of the durable record. \<open>dkey\<close> is the key of a request, None when it has none; \<open>marked s k t\<close>: the store \<open>s\<close>
  remembers that \<open>k\<close> was accepted at \<open>t\<close> or later. It does so for \<open>horizon\<close> seconds, whatever is marked in between, and a
  request whose key is remembered is refused for its \<open>window\<close>.
\<close>

locale durable_mark =
  fixes mark :: "int \<Rightarrow> 's \<Rightarrow> run_request \<Rightarrow> 's \<times> bool result"
    and other :: "int \<Rightarrow> 'o \<Rightarrow> 's \<Rightarrow> 's"
    and dkey :: "run_request \<Rightarrow> string option"
    and window :: "run_request \<Rightarrow> int"
    and horizon :: int
    and ok :: "'s \<Rightarrow> bool"
    and marked :: "'s \<Rightarrow> string \<Rightarrow> int \<Rightarrow> bool"
  assumes ok_mark: "ok s \<Longrightarrow> ok (fst (mark now s r))"
    and ok_other: "ok s \<Longrightarrow> ok (other now w s)"
    and accepted_marks: "ok s \<Longrightarrow> mark now s r = (s', Inr True) \<Longrightarrow> dkey r = Some k \<Longrightarrow> marked s' k now"
    and mark_keeps: "ok s \<Longrightarrow> marked s k t \<Longrightarrow> t \<le> now \<Longrightarrow> now \<le> t + horizon \<Longrightarrow> marked (fst (mark now s r)) k t"
    and other_keeps: "ok s \<Longrightarrow> marked s k t \<Longrightarrow> t \<le> now \<Longrightarrow> now \<le> t + horizon \<Longrightarrow> marked (other now w s) k t"
    and marked_refuses: "marked s k t \<Longrightarrow> dkey r = Some k \<Longrightarrow> mark now s r = (s', Inr True) \<Longrightarrow> t + window r < now"
begin

definition same_key :: "run \<Rightarrow> run \<Rightarrow> bool" where
  "same_key x y \<longleftrightarrow> dkey (ru_request x) = dkey (ru_request y) \<and> dkey (ru_request x) \<noteq> None"

definition apart :: "run \<Rightarrow> run \<Rightarrow> bool" where
  "apart x y \<longleftrightarrow> (same_key x y \<longrightarrow> ru_at x + min (window (ru_request y)) horizon < ru_at y)"

definition journal_ok :: "'s journal \<Rightarrow> bool" where
  "journal_ok j = (case j of (now, st, rs) \<Rightarrow> ok st
     \<and> (\<forall>x \<in> set rs. ru_at x \<le> now \<and> (\<forall>k. dkey (ru_request x) = Some k \<longrightarrow> now \<le> ru_at x + horizon \<longrightarrow> marked st k (ru_at x)))
     \<and> sorted_wrt apart rs)"

lemma journal_ok_step: "journal_step mark other j j' \<Longrightarrow> journal_ok j \<Longrightarrow> journal_ok j'"
proof (induction rule: journal_step.induct)
  case (Later n t st rs)
  then show ?case by (fastforce simp: journal_ok_def)
next
  case (Foreign n st rs w)
  then show ?case using other_keeps [of st _ _ n w] by (auto simp: journal_ok_def ok_other)
next
  case (Refused n st r st' x rs)
  then have "st' = fst (mark n st r)" by simp
  then show ?case using Refused mark_keeps [of st _ _ n r] ok_mark [of st n r] by (auto simp: journal_ok_def)
next
  case (Admitted n st r st' x rs)
  then have st': "st' = fst (mark n st r)" by simp
  from Admitted have ok: "ok st" by (simp add: journal_ok_def)
  have "apart y x" if "y \<in> set rs" for y
  proof (cases "same_key y x \<and> n \<le> ru_at y + horizon")
    case True
    then obtain k where k: "dkey (ru_request y) = Some k" "dkey r = Some k" using Admitted by (cases "dkey (ru_request y)") (auto simp: same_key_def)
    with that True Admitted have "marked st k (ru_at y)" by (auto simp: journal_ok_def)
    from marked_refuses [OF this k(2) Admitted.hyps(1)] Admitted show ?thesis by (simp add: apart_def min_def)
  qed (use Admitted in \<open>auto simp: apart_def\<close>)
  moreover have "marked st' k n" if "dkey r = Some k" for k
    using accepted_marks [OF ok Admitted.hyps(1) that] .
  moreover have "marked st' k (ru_at y)" if "y \<in> set rs" "dkey (ru_request y) = Some k" "n \<le> ru_at y + horizon" for y k
    unfolding st' by (rule mark_keeps [OF ok]) (use that Admitted in \<open>auto simp: journal_ok_def\<close>)
  moreover have "ok st'" unfolding st' by (rule ok_mark [OF ok])
  moreover have "sorted_wrt apart rs" "\<forall>y \<in> set rs. ru_at y \<le> n" using Admitted.prems by (auto simp: journal_ok_def)
  ultimately show ?case using Admitted.hyps(2,3) by (simp add: journal_ok_def sorted_wrt_append)
qed simp

lemma journal_ok_steps: "(journal_step mark other)\<^sup>*\<^sup>* j j' \<Longrightarrow> journal_ok j \<Longrightarrow> journal_ok j'"
  by (induction rule: rtranclp_induct) (auto intro: journal_ok_step)

text \<open>In every run of the broker, two admissions of one durable key are more than the window apart.\<close>

lemma admitted_once:
  assumes "broker_reachable B now st s" "bl_mark B = mark" "bl_other B = other" "ok st"
  shows "sorted_wrt apart (br_runs s)"
proof -
  have "journal_ok (journal s)"
    using journal_ok_steps [OF broker_journal [OF assms(1), unfolded assms(2,3)]] assms(4) by (simp add: journal_ok_def)
  then show ?thesis by (simp add: journal_ok_def journal_def)
qed

end

text \<open>The router's record, shared with every other writer of the table of events.\<close>

definition other_event :: "int \<Rightarrow> event_row \<times> int \<Rightarrow> session_store option \<Rightarrow> session_store option" where
  "other_event now w store = map_option (\<lambda>st. fst (mark_event_processed now (snd w) st (fst w))) store"

definition durable_key :: "(string \<Rightarrow> string) \<Rightarrow> dedupe_env \<Rightarrow> run_request \<Rightarrow> string option" where
  "durable_key H env r = map_option dr_key (run_request_dedupe_record H env r)"

definition dedupe_window :: "(string \<Rightarrow> string) \<Rightarrow> dedupe_env \<Rightarrow> run_request \<Rightarrow> int" where
  "dedupe_window H env r = (case run_request_dedupe_record H env r of None \<Rightarrow> 0 | Some d \<Rightarrow> max 0 (dr_ttl d))"

definition store_ok :: "session_store option \<Rightarrow> bool" where
  "store_ok store = (case store of None \<Rightarrow> True | Some st \<Rightarrow> events_ok st)"

definition store_marked :: "session_store option \<Rightarrow> string \<Rightarrow> int \<Rightarrow> bool" where
  "store_marked store k t = (case store of None \<Rightarrow> True | Some st \<Rightarrow> marked_at st k t)"

definition event_of :: "dedupe_record \<Rightarrow> run_request \<Rightarrow> int \<Rightarrow> event_row" where
  "event_of d r now = \<lparr>ev_key = dr_key d, ev_profile_name = rq_profile_name r, ev_user_key = rq_user_key r,
     ev_message_id = dr_message_id d, ev_content_hash = dr_content_hash d, ev_ts = now\<rparr>"

lemma mark_run_request_seen_cases:
  "mark_run_request_seen H env now store r =
     (case run_request_dedupe_record H env r of
        None \<Rightarrow> (store, Inr True)
      | Some d \<Rightarrow> (case store of None \<Rightarrow> (None, Inl (RuntimeError ''SessionStore unavailable for idempotent run''))
          | Some st \<Rightarrow> (Some (fst (mark_event_processed now (dr_ttl d) st (event_of d r now))),
              Inr (snd (mark_event_processed now (dr_ttl d) st (event_of d r now))))))"
  by (simp add: mark_run_request_seen_def event_of_def split: option.split prod.split)

lemma marked_at_window:
  "marked_at st k t \<Longrightarrow> snd (mark_event_processed now ttl st ev) \<Longrightarrow> ev_key ev = k \<Longrightarrow> t + max 0 ttl < now"
  by (auto simp: mark_event_accepts_iff is_event_processed_def marked_at_def)

interpretation router_mark: durable_mark "mark_run_request_seen H env" other_event "durable_key H env" "dedupe_window H env" 86400
    store_ok store_marked for H env
proof unfold_locales
  fix now s r
  assume "store_ok s"
  then show "store_ok (fst (mark_run_request_seen H env now s r))"
    by (auto simp: mark_run_request_seen_cases store_ok_def mark_event_ok split: option.splits)
next
  fix s now w
  assume "store_ok s"
  then show "store_ok (other_event now w s)"
    by (auto simp: other_event_def store_ok_def mark_event_ok split: option.splits)
next
  fix s now r s' k
  assume ok: "store_ok s" and m: "mark_run_request_seen H env now s r = (s', Inr True)" and k: "durable_key H env r = Some k"
  then obtain d st where d: "run_request_dedupe_record H env r = Some d" "s = Some st" "dr_key d = k"
    by (auto simp: mark_run_request_seen_cases durable_key_def split: option.splits)
  with ok m have "events_ok st" "snd (mark_event_processed now (dr_ttl d) st (event_of d r now))"
    and s': "s' = Some (fst (mark_event_processed now (dr_ttl d) st (event_of d r now)))"
    by (auto simp: mark_run_request_seen_cases store_ok_def)
  from mark_event_marks [OF this(1,2)] d s' show "store_marked s' k now" by (simp add: store_marked_def event_of_def)
next
  fix s k t now r
  assume "store_ok s" "store_marked s k t" "t \<le> now" "now \<le> t + 86400"
  then show "store_marked (fst (mark_run_request_seen H env now s r)) k t"
    by (auto simp: mark_run_request_seen_cases store_ok_def store_marked_def intro!: mark_event_keeps split: option.splits)
next
  fix s k t now w
  assume "store_ok s" "store_marked s k t" "t \<le> now" "now \<le> t + 86400"
  then show "store_marked (other_event now w s) k t"
    by (auto simp: other_event_def store_ok_def store_marked_def intro!: mark_event_keeps split: option.splits)
next
  fix s k t r now s'
  assume m: "store_marked s k t" and k: "durable_key H env r = Some k" and a: "mark_run_request_seen H env now s r = (s', Inr True)"
  then obtain d st where d: "run_request_dedupe_record H env r = Some d" "s = Some st" "dr_key d = k"
    and acc: "snd (mark_event_processed now (dr_ttl d) st (event_of d r now))"
    by (auto simp: mark_run_request_seen_cases durable_key_def split: option.splits)
  from m d have "marked_at st k t" by (simp add: store_marked_def)
  from marked_at_window [OF this acc] d show "t + dedupe_window H env r < now" by (simp add: event_of_def dedupe_window_def)
qed

section \<open>Entries\<close>

text \<open>What an outcome says of the entry: a committed one ends as its execution did, another one answers no content.\<close>

definition settled :: "outcome \<Rightarrow> entry \<Rightarrow> bool" where
  "settled out en \<longleftrightarrow> (if en_committed en then en_exec en = Some (Some out)
     else case out of Returned res \<Rightarrow> rr_duplicate res | Raised _ \<Rightarrow> True)"

definition gate_open :: "entry \<Rightarrow> bool" where
  "gate_open en \<longleftrightarrow> (\<forall>f. en_gate en \<noteq> Some (Some f))"

definition owes_abandon :: "entry \<Rightarrow> bool" where
  "owes_abandon en \<longleftrightarrow> cb_on_abandon (en_callbacks en) \<and> \<not> en_committed en \<and> \<not> en_abandoned en"

definition phase_ok :: "entry \<Rightarrow> bool" where
  "phase_ok en =
     (case en_phase en of
        Closing out \<Rightarrow> settled out en \<and> \<not> en_cleaned en \<and> \<not> en_delivered en \<and> \<not> owes_abandon en
          \<and> en_gate en = Some (Some (failed_outcome out))
      | Finished out \<Rightarrow> settled out en \<and> \<not> en_cancel en \<and> (en_committed en \<longrightarrow> en_gate en \<noteq> Some None)
          \<and> (en_cleaned en \<longrightarrow> \<not> owes_abandon en \<and> en_gate en \<noteq> Some None)
          \<and> (\<forall>f. en_gate en = Some (Some f) \<longrightarrow> f = failed_outcome out \<or> \<not> en_committed en \<and> out = Raised cancelled_error)
          \<and> (en_delivered en \<longrightarrow> en_committed en \<and> (\<exists>res. out = Returned res \<and> \<not> rr_duplicate res))
      | Executing \<Rightarrow> en_committed en \<and> \<not> en_cleaned en \<and> \<not> en_delivered en \<and> gate_open en
      | _ \<Rightarrow> \<not> en_committed en \<and> \<not> en_abandoned en \<and> \<not> en_cleaned en \<and> \<not> en_delivered en \<and> gate_open en)"

definition calls_ok :: "entry \<Rightarrow> bool" where
  "calls_ok en \<longleftrightarrow>
     count_list (en_calls en) OnAbandon = (if en_abandoned en then 1 else 0)
     \<and> count_list (en_calls en) OnExecutionDone = (if cb_on_execution_done (en_callbacks en) \<and> (\<exists>out. en_exec en = Some (Some out)) then 1 else 0)
     \<and> (\<forall>f. count_list (en_calls en) (OnEntryDone f) \<le> 1 \<and> (OnEntryDone f \<in> set (en_calls en) \<longrightarrow> en_gate en = Some (Some f)))"

definition entry_inv :: "entry \<Rightarrow> bool" where
  "entry_inv en \<longleftrightarrow> (en_committed en \<longleftrightarrow> en_exec en \<noteq> None) \<and> (en_committed en \<longrightarrow> \<not> en_cancel en \<and> \<not> en_abandoned en)
     \<and> (en_gate en = None \<longleftrightarrow> \<not> cb_on_entry_done (en_callbacks en)) \<and> phase_ok en \<and> calls_ok en"

lemmas entry_defs = entry_inv_def phase_ok_def calls_ok_def settled_def gate_open_def owes_abandon_def

definition early :: "entry \<Rightarrow> bool" where
  "early en \<longleftrightarrow> (case en_phase en of Created \<Rightarrow> True | Preparing \<Rightarrow> True | Transforming _ \<Rightarrow> True | _ \<Rightarrow> False)"

lemma entry_inv_new: "entry_inv (new_entry k r cb)"
  by (simp add: new_entry_def entry_defs)

lemma entry_inv_waiters [simp]: "entry_inv (en\<lparr>en_waiters := w\<rparr>) = entry_inv en"
  by (simp add: entry_defs cong: task_phase.case_cong)

lemma entry_inv_early:
  assumes "entry_inv en" "early en" "early (en\<lparr>en_phase := ph\<rparr>)"
  shows "entry_inv (en\<lparr>en_phase := ph\<rparr>)"
  using assms by (auto simp: entry_defs early_def split: task_phase.splits)

lemma run_on_abandon_once_fields [simp]:
  "en_committed (run_on_abandon_once en) = en_committed en" "en_exec (run_on_abandon_once en) = en_exec en"
  "en_gate (run_on_abandon_once en) = en_gate en" "en_phase (run_on_abandon_once en) = en_phase en"
  "en_cleaned (run_on_abandon_once en) = en_cleaned en" "en_delivered (run_on_abandon_once en) = en_delivered en"
  "en_cancel (run_on_abandon_once en) = en_cancel en" "en_callbacks (run_on_abandon_once en) = en_callbacks en"
  "en_key (run_on_abandon_once en) = en_key en" "en_waiters (run_on_abandon_once en) = en_waiters en"
  by (simp_all add: run_on_abandon_once_def)

lemma ensure_gate_fields [simp]:
  "en_committed (ensure_gate f en) = en_committed en" "en_exec (ensure_gate f en) = en_exec en"
  "en_phase (ensure_gate f en) = en_phase en" "en_cleaned (ensure_gate f en) = en_cleaned en"
  "en_delivered (ensure_gate f en) = en_delivered en" "en_cancel (ensure_gate f en) = en_cancel en"
  "en_callbacks (ensure_gate f en) = en_callbacks en" "en_key (ensure_gate f en) = en_key en"
  "en_waiters (ensure_gate f en) = en_waiters en" "en_abandoned (ensure_gate f en) = en_abandoned en"
  "en_calls (ensure_gate f en) = en_calls en"
  "en_gate (ensure_gate f en) = (if en_gate en = Some None then Some (Some f) else en_gate en)"
  by (simp_all add: ensure_gate_def)

lemma calls_ok_abandon: "calls_ok en \<Longrightarrow> calls_ok (run_on_abandon_once en)"
  by (auto simp: calls_ok_def run_on_abandon_once_def)

lemma calls_ok_ensure: "calls_ok en \<Longrightarrow> calls_ok (ensure_gate f en)"
  by (auto simp: calls_ok_def)

lemma owes_abandon_once: "\<not> owes_abandon (run_on_abandon_once en)"
  by (auto simp: owes_abandon_def run_on_abandon_once_def)

lemma owes_abandon_ensure [simp]: "owes_abandon (ensure_gate f en) = owes_abandon en"
  by (simp add: owes_abandon_def)

text \<open>A task closes from an early phase without content, and from \<open>Executing\<close> with the outcome of its execution.\<close>

lemma entry_inv_close:
  assumes "entry_inv en" "early en \<and> settled out en \<or> en_phase en = Executing \<and> en_exec en = Some (Some out)"
  shows "entry_inv (close_task out en)"
proof -
  let ?en = "ensure_gate (failed_outcome out) (run_on_abandon_once en)"
  have "calls_ok ?en" using assms(1) by (simp add: entry_inv_def calls_ok_abandon calls_ok_ensure)
  then have calls: "calls_ok (?en\<lparr>en_cancel := c, en_phase := ph\<rparr>)" for c ph by (simp add: calls_ok_def)
  have owes: "\<not> owes_abandon (?en\<lparr>en_cancel := c, en_phase := ph\<rparr>)" for c ph
    using owes_abandon_once [of en] by (simp add: owes_abandon_def)
  have ab: "en_committed en \<Longrightarrow> \<not> en_abandoned ?en" using assms(1) by (simp add: entry_inv_def run_on_abandon_once_def)
  have "\<not> en_cleaned en" "\<not> en_delivered en" "gate_open en" "settled out en" "en_committed en \<longleftrightarrow> en_exec en \<noteq> None"
    using assms by (auto simp: entry_inv_def phase_ok_def early_def settled_def split: task_phase.splits)
  moreover have "en_gate en = None \<longleftrightarrow> \<not> cb_on_entry_done (en_callbacks en)" using assms(1) by (simp add: entry_inv_def)
  ultimately show ?thesis
    using calls [where c = False] owes [where c = False] ab
    by (auto simp: close_task_def Let_def entry_inv_def phase_ok_def settled_def gate_open_def)
qed

lemma entry_inv_admit:
  assumes "entry_inv en" "early en" "\<not> en_cancel en"
  shows "entry_inv (en\<lparr>en_committed := True, en_exec := Some None, en_phase := Executing\<rparr>)"
  using assms by (auto simp: entry_defs early_def split: task_phase.splits)

lemma entry_inv_cancel:
  assumes "entry_inv en" "\<not> en_committed en" "\<not> task_done en"
  shows "entry_inv (en\<lparr>en_cancel := c\<rparr>)"
  using assms by (auto simp: entry_defs task_done_def split: task_phase.splits)

lemma entry_inv_released: "entry_inv en \<Longrightarrow> entry_inv (released b en)"
  using entry_inv_cancel [of "en\<lparr>en_waiters := 0\<rparr>" True] by (simp add: released_def Let_def)

lemma entry_inv_unstarted:
  assumes "entry_inv en" "en_phase en = Created"
  shows "entry_inv (en\<lparr>en_phase := Finished (Raised cancelled_error), en_cancel := False\<rparr>)"
  using assms by (auto simp: entry_defs)

lemma entry_inv_closing:
  assumes "entry_inv en" "en_phase en = Closing out"
  shows "\<not> en_cancel en \<Longrightarrow> entry_inv (en\<lparr>en_phase := Finished out\<rparr>)"
    and "en_cancel en \<Longrightarrow> entry_inv (en\<lparr>en_phase := Finished (Raised cancelled_error), en_cancel := False\<rparr>)"
  using assms by (auto simp: entry_defs)

lemma entry_inv_end:
  assumes "entry_inv en" "en_exec en = Some None"
  shows "entry_inv (end_execution out en)"
  using assms by (auto simp: entry_defs end_execution_def split: task_phase.splits)

lemma entry_inv_entry_done:
  assumes "entry_inv en" "en_gate en = Some (Some f)" "OnEntryDone f \<notin> set (en_calls en)"
  shows "entry_inv (en\<lparr>en_calls := en_calls en @ [OnEntryDone f]\<rparr>)"
  using assms by (auto simp: entry_defs count_list_0_iff split: task_phase.splits)

lemma entry_inv_cleanup:
  assumes "entry_inv en" "en_phase en = Finished out"
  shows "entry_inv ((run_on_abandon_once (ensure_gate (failed_outcome out) en))\<lparr>en_cleaned := True\<rparr>)"
proof -
  let ?en = "run_on_abandon_once (ensure_gate (failed_outcome out) en)"
  have "calls_ok ?en" using assms(1) by (simp add: entry_inv_def calls_ok_abandon calls_ok_ensure)
  then have calls: "calls_ok (?en\<lparr>en_cleaned := True\<rparr>)" by (simp add: calls_ok_def)
  have owes: "\<not> owes_abandon (?en\<lparr>en_cleaned := True\<rparr>)"
    using owes_abandon_once [of "ensure_gate (failed_outcome out) en"] by (simp add: owes_abandon_def)
  have "en_committed en \<Longrightarrow> \<not> en_abandoned ?en" using assms(1) by (simp add: entry_inv_def run_on_abandon_once_def)
  with calls owes assms show ?thesis by (auto simp: entry_inv_def phase_ok_def settled_def)
qed

lemma entry_inv_deliver:
  assumes "entry_inv en" "en_phase en = Finished (Returned res)" "\<not> rr_duplicate res"
  shows "entry_inv (en\<lparr>en_delivered := True\<rparr>)"
  using assms by (auto simp: entry_defs split: if_splits)

section \<open>Reachable states\<close>

definition entries_ok :: "'s broker \<Rightarrow> bool" where
  "entries_ok s \<longleftrightarrow> (\<forall>e en. br_entry s e = Some en \<longrightarrow> entry_inv en)"

lemma entries_okI: "(\<And>e en. br_entry s e = Some en \<Longrightarrow> entry_inv en) \<Longrightarrow> entries_ok s"
  by (simp add: entries_ok_def)

lemma entries_okD: "entries_ok s \<Longrightarrow> br_entry s e = Some en \<Longrightarrow> entry_inv en"
  by (simp add: entries_ok_def)

lemma entries_ok_set_entry: "entries_ok s \<Longrightarrow> entry_inv en \<Longrightarrow> entries_ok (set_entry e en s)"
  by (auto simp: entries_ok_def)

lemma entries_ok_cong: "br_entry s' = br_entry s \<Longrightarrow> entries_ok s' = entries_ok s"
  by (simp add: entries_ok_def)

lemma entries_ok_frame [simp]:
  "entries_ok (set_wait i k w s) = entries_ok s" "entries_ok (drop_inflight k e s) = entries_ok s"
  "entries_ok (s\<lparr>br_now := t\<rparr>) = entries_ok s" "entries_ok (s\<lparr>br_store := st\<rparr>) = entries_ok s"
  "entries_ok (s\<lparr>br_spent := sp\<rparr>) = entries_ok s" "entries_ok (s\<lparr>br_runs := rs\<rparr>) = entries_ok s"
  "entries_ok (s\<lparr>br_prepared := ps\<rparr>) = entries_ok s" "entries_ok (s\<lparr>br_inflight := f\<rparr>) = entries_ok s"
  by (simp_all add: entries_ok_def)

lemma entries_ok_release: "entries_ok s \<Longrightarrow> entry_inv en \<Longrightarrow> entries_ok (release_waiter b e en s)"
  by (auto simp: entries_ok_def entry_inv_released)

lemma settled_raised: "early en \<Longrightarrow> entry_inv en \<Longrightarrow> settled (Raised x) en"
  by (auto simp: settled_def entry_inv_def phase_ok_def early_def split: task_phase.splits)

lemma settled_duplicate: "early en \<Longrightarrow> entry_inv en \<Longrightarrow> settled (Returned duplicate_result) en"
  by (auto simp: settled_def entry_inv_def phase_ok_def early_def duplicate_result_def split: task_phase.splits)

lemma entry_inv_close_early:
  "entry_inv en \<Longrightarrow> early en \<Longrightarrow> entry_inv (close_task (Raised x) en)"
  "entry_inv en \<Longrightarrow> early en \<Longrightarrow> entry_inv (close_task (Returned duplicate_result) en)"
  by (simp_all add: entry_inv_close settled_raised settled_duplicate)

lemma entries_ok_start:
  assumes "entries_ok s" "br_entry s e = Some en" "en_phase en = Created"
  shows "entries_ok (start_task B e en s)"
proof -
  have ok: "entry_inv en" and "early en" using entries_okD [OF assms(1,2)] assms(3) by (simp_all add: early_def)
  moreover have "entry_inv (en\<lparr>en_phase := Preparing\<rparr>)" by (rule entry_inv_early [OF ok \<open>early en\<close>]) (simp add: early_def)
  ultimately show ?thesis using assms(1)
    by (auto simp: start_task_def entry_inv_close_early intro!: entries_ok_set_entry split: sum.split bool.split)
qed

lemma entries_ok_prepare:
  assumes "entries_ok s" "br_entry s e = Some en" "en_phase en = Preparing"
  shows "entries_ok (prepare_task B P st res e en s)"
proof -
  have ok: "entry_inv en" and "early en" using entries_okD [OF assms(1,2)] assms(3) by (simp_all add: early_def)
  moreover have "entry_inv (en\<lparr>en_phase := Transforming p\<rparr>)" for p
    by (rule entry_inv_early [OF ok \<open>early en\<close>]) (simp add: early_def)
  ultimately show ?thesis using assms(1)
    by (auto simp: prepare_task_def entry_inv_close_early intro!: entries_ok_set_entry split: sum.split)
qed

lemma entries_ok_proceed:
  assumes "entries_ok s" "br_entry s e = Some en" "en_phase en = Transforming p" "\<not> en_cancel en"
  shows "entries_ok (proceed_task B P t before p e en s)"
proof -
  have ok: "entry_inv en" and "early en" using entries_okD [OF assms(1,2)] assms(3) by (simp_all add: early_def)
  then show ?thesis using assms(1,4)
    by (auto simp: proceed_task_def admit_task_def entry_inv_close_early entry_inv_admit intro!: entries_ok_set_entry
        split: sum.split option.split prod.split bool.split)
qed

lemma entries_ok_wake:
  assumes "entries_ok s" "br_entry s e = Some en" "en_phase en = Finished out"
  shows "entries_ok (wake i k e en out s)"
  using assms entries_okD [OF assms(1,2)] entry_inv_deliver [of en]
  by (auto simp: wake_def intro!: entries_ok_release split: outcome.split)

lemma entries_ok_enter:
  assumes "entries_ok s"
  shows "entries_ok (enter B P a i n cb raw s)"
  using assms entries_okD [OF assms]
  by (auto simp: enter_def Let_def entry_inv_new intro!: entries_ok_set_entry split: sum.split option.split)

lemma entries_ok_run_prepared: "entries_ok (run_prepared B P a i p s) = entries_ok s"
  by (rule entries_ok_cong) (simp add: run_prepared_def Let_def split: sum.split prod.split bool.split)

lemma entries_ok_step:
  assumes "broker_step B s s'" "entries_ok s"
  shows "entries_ok s'"
  using assms(1)
proof cases
  case (Enter i n P a cb raw)
  then show ?thesis using assms(2) by (simp add: entries_ok_enter)
next
  case (Start e en)
  then show ?thesis using assms(2) by (simp add: entries_ok_start)
next
  case (Prepare e en st P res)
  then show ?thesis using assms(2) by (simp add: entries_ok_prepare)
next
  case (Proceed e en p t P before)
  then show ?thesis using assms(2) by (simp add: entries_ok_proceed)
next
  case (CancelUnstarted e en)
  then show ?thesis using assms(2) by (auto intro!: entries_ok_set_entry entry_inv_unstarted dest: entries_okD)
next
  case (CancelStarted e en p)
  then have "early en" by (auto simp: early_def)
  then show ?thesis using CancelStarted assms(2)
    by (auto intro!: entries_ok_set_entry entry_inv_close_early dest: entries_okD)
next
  case (SwallowCancel e en p)
  then have "\<not> en_committed en" "\<not> task_done en"
    using entries_okD [OF assms(2) SwallowCancel(2)] SwallowCancel(3) by (auto simp: entry_inv_def phase_ok_def task_done_def)
  then show ?thesis using SwallowCancel assms(2) by (auto intro!: entries_ok_set_entry entry_inv_cancel dest: entries_okD)
next
  case (EndExecution e en out)
  then show ?thesis using assms(2) by (auto intro!: entries_ok_set_entry entry_inv_end dest: entries_okD)
next
  case (Resume e en out)
  then show ?thesis using assms(2) by (auto intro!: entries_ok_set_entry entry_inv_close dest: entries_okD)
next
  case (EntryDone e en failed)
  then show ?thesis using assms(2) by (auto intro!: entries_ok_set_entry entry_inv_entry_done dest: entries_okD)
next
  case (Closed e en out failed)
  then show ?thesis using assms(2) by (auto intro!: entries_ok_set_entry entry_inv_closing(1) dest: entries_okD)
next
  case (CancelClosing e en out)
  then show ?thesis using assms(2) by (auto intro!: entries_ok_set_entry entry_inv_closing(2) dest: entries_okD)
next
  case (Cleanup e en out)
  then show ?thesis using assms(2)
    by (auto simp: cleanup_execution_def intro!: entries_ok_set_entry entry_inv_cleanup dest: entries_okD)
next
  case (Wake i c e en out)
  then show ?thesis using assms(2) by (simp add: entries_ok_wake)
next
  case (CancelCaller i c e en)
  then show ?thesis using assms(2) by (auto intro!: entries_ok_release dest: entries_okD)
next
  case (RunPrepared i p P a)
  then show ?thesis using assms(2) by (simp add: entries_ok_run_prepared)
qed (use assms(2) in \<open>simp_all\<close>)

lemma reachable_entries_ok: "broker_reachable B now st s \<Longrightarrow> entries_ok s"
  by (induction rule: broker_reachable.induct) (auto simp: broker_init_def entries_ok_def [of "\<lparr>br_now = _, br_store = _, br_inflight = _, br_entry = _, br_caller = _, br_prepared = _, br_spent = _, br_runs = _\<rparr>"] intro: entries_ok_step)

section \<open>Waiting callers\<close>

definition waiting_on :: "'s broker \<Rightarrow> nat \<Rightarrow> nat set" where
  "waiting_on s e = {i. \<exists>c. br_caller s i = Some c \<and> ca_wait c = Waiting e}"

lemma close_task_fields [simp]:
  "en_key (close_task out en) = en_key en" "en_waiters (close_task out en) = en_waiters en"
  "en_request (close_task out en) = en_request en" "en_committed (close_task out en) = en_committed en"
  "en_delivered (close_task out en) = en_delivered en" "en_exec (close_task out en) = en_exec en"
  "en_cancel (close_task out en) = False" "en_phase (close_task out en) \<noteq> Transforming p"
  by (simp_all add: close_task_def Let_def run_on_abandon_once_def ensure_gate_def)

definition wired :: "'s broker \<Rightarrow> bool" where
  "wired s \<longleftrightarrow> (\<forall>k e. br_inflight s k = Some e \<longrightarrow> (\<exists>en. br_entry s e = Some en \<and> en_key en = k))
     \<and> (\<forall>i c e. br_caller s i = Some c \<longrightarrow> ca_wait c = Waiting e \<longrightarrow> (\<exists>en. br_entry s e = Some en \<and> en_key en = ca_key c))
     \<and> (\<forall>e. finite (waiting_on s e))
     \<and> (\<forall>e en. br_entry s e = Some en \<longrightarrow> en_waiters en = int (card (waiting_on s e))
          \<and> (en_cancel en \<longrightarrow> waiting_on s e = {} \<and> br_inflight s (en_key en) \<noteq> Some e))"

lemma waiting_on_cong: "br_caller s' = br_caller s \<Longrightarrow> waiting_on s' = waiting_on s"
  by (simp add: waiting_on_def fun_eq_iff)

lemma wiredI:
  assumes "\<And>k e. br_inflight s k = Some e \<Longrightarrow> \<exists>en. br_entry s e = Some en \<and> en_key en = k"
    and "\<And>i c e. br_caller s i = Some c \<Longrightarrow> ca_wait c = Waiting e \<Longrightarrow> \<exists>en. br_entry s e = Some en \<and> en_key en = ca_key c"
    and "\<And>e. finite (waiting_on s e)"
    and "\<And>e en. br_entry s e = Some en \<Longrightarrow> en_waiters en = int (card (waiting_on s e))"
    and "\<And>e en. br_entry s e = Some en \<Longrightarrow> en_cancel en \<Longrightarrow> waiting_on s e = {}"
    and "\<And>e en. br_entry s e = Some en \<Longrightarrow> en_cancel en \<Longrightarrow> br_inflight s (en_key en) \<noteq> Some e"
  shows "wired s"
  unfolding wired_def
proof (intro conjI allI impI)
  fix k e assume "br_inflight s k = Some e"
  then show "\<exists>en. br_entry s e = Some en \<and> en_key en = k" by (rule assms(1))
next
  fix i c e assume "br_caller s i = Some c" "ca_wait c = Waiting e"
  then show "\<exists>en. br_entry s e = Some en \<and> en_key en = ca_key c" by (rule assms(2))
next
  fix e show "finite (waiting_on s e)" by (rule assms(3))
next
  fix e en assume e: "br_entry s e = Some en"
  show "en_waiters en = int (card (waiting_on s e))" by (rule assms(4) [OF e])
  assume c: "en_cancel en"
  show "waiting_on s e = {}" by (rule assms(5) [OF e c])
  show "br_inflight s (en_key en) \<noteq> Some e" by (rule assms(6) [OF e c])
qed

lemma wired_inflight:
  assumes "wired s" "br_inflight s k = Some e"
  shows "\<exists>en. br_entry s e = Some en \<and> en_key en = k"
proof -
  have "\<forall>k e. br_inflight s k = Some e \<longrightarrow> (\<exists>en. br_entry s e = Some en \<and> en_key en = k)"
    using assms(1) unfolding wired_def by (rule conjunct1)
  from this [rule_format, OF assms(2)] show ?thesis .
qed

lemma wired_waiting:
  assumes "wired s" "br_caller s i = Some c" "ca_wait c = Waiting e"
  shows "\<exists>en. br_entry s e = Some en \<and> en_key en = ca_key c"
proof -
  have "\<forall>i c e. br_caller s i = Some c \<longrightarrow> ca_wait c = Waiting e \<longrightarrow> (\<exists>en. br_entry s e = Some en \<and> en_key en = ca_key c)"
    using assms(1) unfolding wired_def by (elim conjE) assumption
  from this [rule_format, OF assms(2,3)] show ?thesis .
qed

lemma wired_finite: "wired s \<Longrightarrow> finite (waiting_on s e)"
  by (simp add: wired_def)

lemma wired_entry:
  assumes "wired s" "br_entry s e = Some en"
  shows "en_waiters en = int (card (waiting_on s e)) \<and> (en_cancel en \<longrightarrow> waiting_on s e = {} \<and> br_inflight s (en_key en) \<noteq> Some e)"
proof -
  have "\<forall>e en. br_entry s e = Some en \<longrightarrow> en_waiters en = int (card (waiting_on s e))
      \<and> (en_cancel en \<longrightarrow> waiting_on s e = {} \<and> br_inflight s (en_key en) \<noteq> Some e)"
    using assms(1) unfolding wired_def by (elim conjE) assumption
  from this [rule_format, OF assms(2)] show ?thesis .
qed

lemma wired_count: "wired s \<Longrightarrow> br_entry s e = Some en \<Longrightarrow> en_waiters en = int (card (waiting_on s e))"
  by (rule conjunct1 [OF wired_entry])

lemma wired_cancel:
  assumes "wired s" "br_entry s e = Some en" "en_cancel en"
  shows "waiting_on s e = {}" "br_inflight s (en_key en) \<noteq> Some e"
  using wired_entry [OF assms(1,2)] assms(3) by blast+

lemma waiting_on_set_wait:
  "waiting_on (set_wait i k w s) e = (if w = Waiting e then insert i (waiting_on s e) else waiting_on s e - {i})"
  by (auto simp: waiting_on_def)

lemma waiting_on_frame [simp]:
  "waiting_on (set_entry x en s) e = waiting_on s e" "waiting_on (drop_inflight k x s) e = waiting_on s e"
  "waiting_on (release_waiter b x en s) e = waiting_on s e" "waiting_on (s\<lparr>br_inflight := f\<rparr>) e = waiting_on s e"
  by (simp_all add: waiting_on_def)

lemma not_waiting: "br_caller s i = None \<Longrightarrow> i \<notin> waiting_on s e"
  by (simp add: waiting_on_def)

lemma wired_idle_caller:
  assumes "wired s" "\<And>e. i \<notin> waiting_on s e" "\<And>e. w \<noteq> Waiting e"
  shows "wired (set_wait i k w s)"
proof -
  have on: "waiting_on (set_wait i k w s) e = waiting_on s e" for e using assms(2,3) by (simp add: waiting_on_set_wait)
  show ?thesis
  proof (rule wiredI)
    fix j d x assume d: "br_caller (set_wait i k w s) j = Some d" "ca_wait d = Waiting x"
    then have "br_caller s j = Some d" using assms(3) by (cases "j = i") auto
    with d show "\<exists>y. br_entry (set_wait i k w s) x = Some y \<and> en_key y = ca_key d"
      using wired_waiting [OF assms(1)] by simp
  next
    fix k' x assume "br_inflight (set_wait i k w s) k' = Some x"
    then show "\<exists>y. br_entry (set_wait i k w s) x = Some y \<and> en_key y = k'" using wired_inflight [OF assms(1)] by simp
  next
    fix x y assume "br_entry (set_wait i k w s) x = Some y" "en_cancel y"
    then show "waiting_on (set_wait i k w s) x = {}" "br_inflight (set_wait i k w s) (en_key y) \<noteq> Some x"
      using wired_cancel [OF assms(1), of x y] on by simp_all
  qed (use wired_count [OF assms(1)] wired_finite [OF assms(1)] on in simp_all)
qed

lemma wired_new:
  assumes "wired s" "br_caller s i = None" "br_entry s n = None"
  shows "wired (set_wait i k (Waiting n) (set_entry n (new_entry k r cb) (s\<lparr>br_inflight := (br_inflight s)(k \<mapsto> n)\<rparr>)))"
    (is "wired ?s")
proof -
  have none: "waiting_on s n = {}" using wired_waiting [OF assms(1)] assms(3) by (fastforce simp: waiting_on_def)
  have on: "waiting_on ?s e = (if e = n then {i} else waiting_on s e)" for e
    using none not_waiting [OF assms(2)] by (simp add: waiting_on_set_wait)
  have entry: "br_entry ?s = (br_entry s)(n \<mapsto> new_entry k r cb)" by simp
  have key: "en_key (new_entry k r cb) = k" "\<not> en_cancel (new_entry k r cb)" "en_waiters (new_entry k r cb) = 1"
    by (simp_all add: new_entry_def)
  have not_n: "br_inflight s k' = Some x \<Longrightarrow> x \<noteq> n" for k' x
    using wired_inflight [OF assms(1), of k' x] assms(3) by auto
  show ?thesis
  proof (rule wiredI)
    fix k' x assume "br_inflight ?s k' = Some x"
    then show "\<exists>y. br_entry ?s x = Some y \<and> en_key y = k'"
      using wired_inflight [OF assms(1), of k' x] not_n [of k' x] key unfolding entry by (cases "k' = k") auto
  next
    fix j d x assume d: "br_caller ?s j = Some d" "ca_wait d = Waiting x"
    then show "\<exists>y. br_entry ?s x = Some y \<and> en_key y = ca_key d"
      using wired_waiting [OF assms(1), of j d x] assms(3) key unfolding entry by (cases "j = i") auto
  next
    fix x show "finite (waiting_on ?s x)" using wired_finite [OF assms(1)] on by simp
  next
    fix x y assume "br_entry ?s x = Some y"
    then show "en_waiters y = int (card (waiting_on ?s x))"
      using wired_count [OF assms(1)] key on unfolding entry by (cases "x = n") auto
  next
    fix x y assume y: "br_entry ?s x = Some y" "en_cancel y"
    then have x: "x \<noteq> n" "br_entry s x = Some y" using key unfolding entry by (auto split: if_splits)
    show "waiting_on ?s x = {}" using wired_cancel(1) [OF assms(1) x(2) y(2)] x(1) on by simp
    show "br_inflight ?s (en_key y) \<noteq> Some x" using wired_cancel(2) [OF assms(1) x(2) y(2)] x(1) by simp
  qed
qed

text \<open>A caller joins an entry or leaves one.\<close>

lemma wired_change:
  assumes "wired s" "br_entry s e = Some en" "br_entry s' = (br_entry s)(e \<mapsto> en')" "en_key en' = en_key en"
    and "\<And>x. waiting_on s' x = (if x = e then W else waiting_on s x)" "finite W" "en_waiters en' = int (card W)"
    and "\<And>j d x. br_caller s' j = Some d \<Longrightarrow> ca_wait d = Waiting x
      \<Longrightarrow> (\<exists>c. br_caller s j = Some c \<and> ca_wait c = Waiting x \<and> ca_key c = ca_key d) \<or> x = e \<and> ca_key d = en_key en"
    and "en_cancel en' \<Longrightarrow> W = {} \<and> br_inflight s' (en_key en) \<noteq> Some e"
    and f: "\<And>k x. br_inflight s' k = Some x \<Longrightarrow> br_inflight s k = Some x"
  shows "wired s'"
proof -
  have key: "\<exists>y. br_entry s' x = Some y \<and> en_key y = k" if "\<exists>z. br_entry s x = Some z \<and> en_key z = k" for x k
    using that assms(2-4) by auto
  show ?thesis
  proof (rule wiredI)
    fix k x assume "br_inflight s' k = Some x"
    then show "\<exists>y. br_entry s' x = Some y \<and> en_key y = k" by (rule key [OF wired_inflight [OF assms(1) f]])
  next
    fix j d x assume "br_caller s' j = Some d" "ca_wait d = Waiting x"
    with assms(8) consider c where "br_caller s j = Some c" "ca_wait c = Waiting x" "ca_key c = ca_key d" | "x = e" "ca_key d = en_key en"
      by blast
    then show "\<exists>y. br_entry s' x = Some y \<and> en_key y = ca_key d"
    proof cases
      case (1 c)
      from key [OF wired_waiting [OF assms(1) 1(1,2)]] 1(3) show ?thesis by simp
    qed (use assms(2-4) in simp)
  next
    fix x show "finite (waiting_on s' x)" using wired_finite [OF assms(1)] assms(5,6) by simp
  next
    fix x y assume "br_entry s' x = Some y"
    then show "en_waiters y = int (card (waiting_on s' x))"
      using wired_count [OF assms(1)] assms(3,5,7) by (cases "x = e") auto
  next
    fix x y assume y: "br_entry s' x = Some y" "en_cancel y"
    show "waiting_on s' x = {}"
      using y wired_cancel(1) [OF assms(1)] assms(3,5,9) by (cases "x = e") auto
    show "br_inflight s' (en_key y) \<noteq> Some x"
      using y wired_cancel(2) [OF assms(1), of x y] assms(3,4,9) f by (cases "x = e") auto
  qed
qed

lemma waiting_on_iff: "i \<in> waiting_on s e \<longleftrightarrow> (\<exists>c. br_caller s i = Some c \<and> ca_wait c = Waiting e)"
  by (simp add: waiting_on_def)

lemma wired_join:
  assumes "wired s" "br_caller s i = None" "br_entry s e = Some en" "br_inflight s k = Some e"
  shows "wired (set_wait i k (Waiting e) (set_entry e (en\<lparr>en_waiters := en_waiters en + 1\<rparr>) s))" (is "wired ?s")
proof -
  have k: "en_key en = k" using wired_inflight [OF assms(1,4)] assms(3) by auto
  have i: "i \<notin> waiting_on s x" for x by (rule not_waiting [OF assms(2)])
  have nc: "\<not> en_cancel en" using wired_cancel(2) [OF assms(1,3)] assms(4) k by blast
  show ?thesis
  proof (rule wired_change [OF assms(1,3), where s' = ?s and W = "insert i (waiting_on s e)"])
    show "waiting_on ?s x = (if x = e then insert i (waiting_on s e) else waiting_on s x)" for x
      using i by (simp add: waiting_on_set_wait)
    show "en_waiters (en\<lparr>en_waiters := en_waiters en + 1\<rparr>) = int (card (insert i (waiting_on s e)))"
      using i wired_count [OF assms(1,3)] wired_finite [OF assms(1)] by simp
    show "(\<exists>c. br_caller s j = Some c \<and> ca_wait c = Waiting x \<and> ca_key c = ca_key d) \<or> x = e \<and> ca_key d = en_key en"
      if "br_caller ?s j = Some d" "ca_wait d = Waiting x" for j d x
      using that k by (cases "j = i") auto
  qed (use wired_finite [OF assms(1)] nc in simp_all)
qed

lemma wired_leave:
  assumes "wired s" "br_caller s i = Some c" "ca_wait c = Waiting e" "br_entry s e = Some en"
    "en_key en' = en_key en" "en_waiters en' = en_waiters en - 1"
    "en_cancel en' \<Longrightarrow> en_waiters en' = 0 \<and> br_inflight s' (en_key en) \<noteq> Some e"
    "br_entry s' = (br_entry s)(e \<mapsto> en')" "br_caller s' = br_caller s"
    "\<And>k x. br_inflight s' k = Some x \<Longrightarrow> br_inflight s k = Some x" "\<And>x. w \<noteq> Waiting x"
  shows "wired (set_wait i k w s')" (is "wired ?s")
proof -
  have i: "i \<in> waiting_on s x \<longleftrightarrow> x = e" for x using assms(2,3) by (auto simp: waiting_on_iff)
  have fin: "finite (waiting_on s e)" by (rule wired_finite [OF assms(1)])
  have "Suc (card (waiting_on s e - {i})) = card (waiting_on s e)" using i fin by (intro card_Suc_Diff1) auto
  then have card: "en_waiters en' = int (card (waiting_on s e - {i}))"
    using wired_count [OF assms(1,4)] assms(6) by simp
  show ?thesis
  proof (rule wired_change [OF assms(1,4), where s' = ?s and en' = en' and W = "waiting_on s e - {i}"])
    show "waiting_on ?s x = (if x = e then waiting_on s e - {i} else waiting_on s x)" for x
      using i [of x] assms(11) by (simp add: waiting_on_set_wait waiting_on_cong [OF assms(9)])
    show "(\<exists>c. br_caller s j = Some c \<and> ca_wait c = Waiting x \<and> ca_key c = ca_key d) \<or> x = e \<and> ca_key d = en_key en"
      if "br_caller ?s j = Some d" "ca_wait d = Waiting x" for j d x
      using that assms(9,11) by (cases "j = i") auto
    show "waiting_on s e - {i} = {} \<and> br_inflight ?s (en_key en) \<noteq> Some e" if "en_cancel en'"
      using assms(7) [OF that] card fin by simp
  qed (use assms(5,8,10) card fin in simp_all)
qed

lemma released_fields [simp]:
  "en_key (released b en) = en_key en" "en_waiters (released b en) = en_waiters en - 1" "en_exec (released b en) = en_exec en"
  "en_committed (released b en) = en_committed en" "en_delivered (released b en) = en_delivered en"
  "en_phase (released b en) = en_phase en" "en_request (released b en) = en_request en"
  by (simp_all add: released_def Let_def)

lemma released_cancel:
  "en_cancel (released b en) \<longleftrightarrow> en_cancel en \<or> b \<and> en_waiters en = 1 \<and> \<not> en_committed en \<and> \<not> task_done en"
  by (auto simp: released_def Let_def)

lemma wired_release:
  assumes "wired s" "br_caller s i = Some c" "ca_wait c = Waiting e" "br_entry s e = Some en"
    "en_key en' = en_key en" "en_waiters en' = en_waiters en" "\<not> en_cancel en'" "\<And>x. w \<noteq> Waiting x"
  shows "wired (set_wait i k w (release_waiter b e en' s))"
  by (rule wired_leave [OF assms(1-4)]) (use assms(5-8) in \<open>auto simp: released_cancel split: if_splits\<close>)

lemma no_cancel_waiting:
  assumes "wired s" "br_caller s i = Some c" "ca_wait c = Waiting e" "br_entry s e = Some en"
  shows "\<not> en_cancel en"
  using wired_cancel(1) [OF assms(1,4)] assms(2,3) waiting_on_iff [of i s e] by auto

lemma wired_drop:
  assumes "wired s"
  shows "wired (drop_inflight k e s)"
proof (rule wiredI)
  fix k' x assume "br_inflight (drop_inflight k e s) k' = Some x"
  then have "br_inflight s k' = Some x" by (auto split: if_splits)
  from wired_inflight [OF assms this] show "\<exists>y. br_entry (drop_inflight k e s) x = Some y \<and> en_key y = k'" by simp
next
  fix i c x assume "br_caller (drop_inflight k e s) i = Some c" "ca_wait c = Waiting x"
  then show "\<exists>y. br_entry (drop_inflight k e s) x = Some y \<and> en_key y = ca_key c"
    using wired_waiting [OF assms] by simp
next
  fix x y assume y: "br_entry (drop_inflight k e s) x = Some y" "en_cancel y"
  then show "waiting_on (drop_inflight k e s) x = {}" "br_inflight (drop_inflight k e s) (en_key y) \<noteq> Some x"
    using wired_cancel [OF assms, of x y] by simp_all
qed (use wired_finite [OF assms] wired_count [OF assms] in simp_all)

lemma wired_wake:
  assumes "wired s" "br_caller s i = Some c" "ca_wait c = Waiting e" "br_entry s e = Some en"
  shows "wired (wake i (ca_key c) e en out s)"
proof -
  have nc: "\<not> en_cancel en" by (rule no_cancel_waiting [OF assms])
  have drop: "wired (set_wait i (ca_key c) w (release_waiter b e en' (drop_inflight (en_key en) e s)))"
    if "en_key en' = en_key en" "en_waiters en' = en_waiters en" "\<not> en_cancel en'" "\<And>x. w \<noteq> Waiting x" for w b en'
    by (rule wired_release [OF wired_drop [OF assms(1)]]) (use assms(2-4) that in simp_all)
  have "wired (set_wait i (ca_key c) w (release_waiter True e en s))" if "\<And>x. w \<noteq> Waiting x" for w
    by (rule wired_release [OF assms]) (use nc that in simp_all)
  then show ?thesis using drop nc by (simp add: wake_def split: outcome.split)
qed

lemma wired_frame [simp]:
  "wired (s\<lparr>br_now := t\<rparr>) = wired s" "wired (s\<lparr>br_store := st\<rparr>) = wired s" "wired (s\<lparr>br_spent := sp\<rparr>) = wired s"
  "wired (s\<lparr>br_runs := rs\<rparr>) = wired s" "wired (s\<lparr>br_prepared := ps\<rparr>) = wired s"
  by (simp_all add: wired_def waiting_on_def)

lemma wired_set_entry:
  assumes "wired s" "br_entry s e = Some en" "en_key en' = en_key en" "en_waiters en' = en_waiters en" "en_cancel en' \<longrightarrow> en_cancel en"
  shows "wired (set_entry e en' s)"
proof (rule wired_change [OF assms(1,2), where en' = en' and W = "waiting_on s e"])
  show "waiting_on s e = {} \<and> br_inflight (set_entry e en' s) (en_key en) \<noteq> Some e" if "en_cancel en'"
    using that assms(5) wired_cancel [OF assms(1,2)] by simp
qed (use assms wired_count [OF assms(1,2)] wired_finite [OF assms(1)] in auto)

lemma wired_enter:
  assumes "wired s" "br_caller s i = None" "br_entry s n = None"
  shows "wired (enter B P a i n cb raw s)"
proof (cases "check_policy P raw")
  case (Inl x)
  then show ?thesis using assms by (simp add: enter_def wired_idle_caller not_waiting)
next
  case (Inr r)
  let ?k = "Key a (request_identity (bl_H B) r)"
  show ?thesis
  proof (cases "br_inflight s ?k")
    case None
    with Inr wired_new [OF assms] show ?thesis by (simp add: enter_def Let_def)
  next
    case (Some e)
    from wired_inflight [OF assms(1) Some] obtain en where en: "br_entry s e = Some en" by blast
    show ?thesis
      using Inr Some en wired_join [OF assms(1,2) en Some] wired_idle_caller [OF assms(1) not_waiting [OF assms(2)]]
      by (simp add: enter_def Let_def)
  qed
qed

lemma wired_admit:
  assumes "wired s" "br_entry s e = Some en"
  shows "wired (admit_task B p e en s)"
  using assms by (auto simp: admit_task_def intro!: wired_set_entry split: prod.split sum.split bool.split)

lemma wired_run_prepared:
  assumes "wired s" "br_caller s i = None"
  shows "wired (run_prepared B P a i p s)"
proof -
  have "wired (set_wait i k w t)" if "wired t" "br_caller t = br_caller s" "\<And>x. w \<noteq> Waiting x" for k w and t :: "'a broker"
    by (rule wired_idle_caller [OF that(1) not_waiting that(3)]) (use that(2) assms(2) in simp)
  then show ?thesis using assms(1) by (simp add: run_prepared_def Let_def split: prod.split sum.split bool.split)
qed

lemma wired_step:
  assumes "broker_step B s s'" "wired s"
  shows "wired s'"
  using assms(1)
proof cases
  case (Enter i n P a cb raw)
  then show ?thesis using assms(2) by (simp add: wired_enter)
next
  case (Start e en)
  then show ?thesis using assms(2) by (auto simp: start_task_def intro!: wired_set_entry split: sum.split bool.split)
next
  case (Prepare e en st P res)
  then show ?thesis using assms(2) by (auto simp: prepare_task_def intro!: wired_set_entry split: sum.split)
next
  case (Proceed e en p t P before)
  then show ?thesis using assms(2)
    by (auto simp: proceed_task_def wired_admit intro!: wired_set_entry split: sum.split option.split)
next
  case (Cleanup e en out)
  then show ?thesis using assms(2) by (auto simp: cleanup_execution_def intro!: wired_drop wired_set_entry)
next
  case (Wake i c e en out)
  then show ?thesis using assms(2) by (simp add: wired_wake)
next
  case (CancelCaller i c e en)
  then show ?thesis using wired_release [OF assms(2) CancelCaller(2-4)] no_cancel_waiting [OF assms(2) CancelCaller(2-4)] by simp
next
  case (RunPrepared i p P a)
  then show ?thesis using assms(2) by (simp add: wired_run_prepared)
next
  case (EndDispatch i c out)
  then have "i \<notin> waiting_on s e" for e by (simp add: waiting_on_iff)
  with EndDispatch assms(2) show ?thesis by (simp add: wired_idle_caller)
qed (use assms(2) in \<open>auto simp: end_execution_def intro!: wired_set_entry\<close>)

lemma wired_init: "wired (broker_init now st)"
  by (rule wiredI) (simp_all add: broker_init_def waiting_on_def)

lemma reachable_wired: "broker_reachable B now st s \<Longrightarrow> wired s"
  by (induction rule: broker_reachable.induct) (simp_all add: wired_init wired_step)

text \<open>A pending cancellation means that every caller has left: nobody's departure ends a run that another caller waits for.\<close>

lemma cancelled_run_has_no_caller:
  "broker_reachable B now st s \<Longrightarrow> br_entry s e = Some en \<Longrightarrow> en_cancel en \<Longrightarrow> waiting_on s e = {} \<and> \<not> en_committed en"
  using wired_cancel(1) [OF reachable_wired] entries_okD [OF reachable_entries_ok] by (metis entry_inv_def)

section \<open>Capabilities and runs\<close>

definition prepared_ok :: "(string \<Rightarrow> string) \<Rightarrow> prepared list \<Rightarrow> bool" where
  "prepared_ok H ps \<longleftrightarrow> (\<forall>p \<in> set ps. pr_identity p = request_identity H (pr_admission_request p))
     \<and> (\<exists>f. \<forall>p \<in> set ps. (pr_admission_request p, pr_authority p) = f (pr_state p))"

definition entry_bound :: "(string \<Rightarrow> string) \<Rightarrow> prepared list \<Rightarrow> entry \<Rightarrow> bool" where
  "entry_bound H ps en \<longleftrightarrow> key_identity (en_key en) = request_identity H (en_request en)
     \<and> (\<forall>p. en_phase en = Transforming p \<longrightarrow>
          p \<in> set ps \<and> pr_identity p = key_identity (en_key en) \<and> pr_authority p = key_broker (en_key en))"

text \<open>The runs an entry has started.\<close>

definition runs_of :: "'s broker \<Rightarrow> nat \<Rightarrow> run list" where
  "runs_of s e = filter (\<lambda>x. ru_entry x = Some e) (br_runs s)"

definition runs_bound :: "(string \<Rightarrow> string) \<Rightarrow> 's broker \<Rightarrow> nat \<Rightarrow> bool" where
  "runs_bound H s e \<longleftrightarrow>
     (case br_entry s e of
        None \<Rightarrow> runs_of s e = []
      | Some en \<Rightarrow> if en_committed en then \<exists>x. runs_of s e = [x] \<and> request_identity H (ru_request x) = key_identity (en_key en)
                    else runs_of s e = [])"

definition capable :: "(string \<Rightarrow> string) \<Rightarrow> 's broker \<Rightarrow> bool" where
  "capable H s \<longleftrightarrow> prepared_ok H (br_prepared s) \<and> (\<forall>e en. br_entry s e = Some en \<longrightarrow> entry_bound H (br_prepared s) en)
     \<and> (\<forall>e. runs_bound H s e) \<and> ru_state ` set (br_runs s) \<subseteq> set (br_spent s) \<and> distinct (map ru_state (br_runs s))"

lemma capableI:
  assumes "prepared_ok H (br_prepared s)" "\<And>e en. br_entry s e = Some en \<Longrightarrow> entry_bound H (br_prepared s) en"
    "\<And>e. runs_bound H s e" "ru_state ` set (br_runs s) \<subseteq> set (br_spent s)" "distinct (map ru_state (br_runs s))"
  shows "capable H s"
  unfolding capable_def using assms(1,3-5) by (intro conjI allI impI assms(2)) simp_all

lemma capableD:
  assumes "capable H s"
  shows "prepared_ok H (br_prepared s)" "runs_bound H s e" "ru_state ` set (br_runs s) \<subseteq> set (br_spent s)"
    "distinct (map ru_state (br_runs s))"
  using assms unfolding capable_def by simp_all

lemma capable_entry:
  assumes "capable H s" "br_entry s e = Some en"
  shows "entry_bound H (br_prepared s) en"
proof -
  have "\<forall>e en. br_entry s e = Some en \<longrightarrow> entry_bound H (br_prepared s) en"
    using assms(1) unfolding capable_def by (elim conjE) assumption
  from this [rule_format, OF assms(2)] show ?thesis .
qed

lemma runs_bound_cong:
  "br_entry s' e = br_entry s e \<Longrightarrow> runs_of s' e = runs_of s e \<Longrightarrow> runs_bound H s' e = runs_bound H s e"
  by (simp add: runs_bound_def cong: option.case_cong)

lemma runs_of_cong: "br_runs s' = br_runs s \<Longrightarrow> runs_of s' e = runs_of s e"
  by (simp add: runs_of_def)

lemma capable_cong:
  assumes "br_entry s' = br_entry s" "br_prepared s' = br_prepared s" "br_runs s' = br_runs s" "br_spent s' = br_spent s"
  shows "capable H s' = capable H s"
proof -
  have "runs_bound H s' = runs_bound H s" by (rule ext, rule runs_bound_cong) (simp_all add: assms(1) runs_of_cong [OF assms(3)])
  then show ?thesis by (simp add: capable_def assms)
qed

lemma capable_frame [simp]:
  "capable H (s\<lparr>br_now := t\<rparr>) = capable H s" "capable H (s\<lparr>br_store := st\<rparr>) = capable H s"
  "capable H (s\<lparr>br_inflight := f\<rparr>) = capable H s" "capable H (set_wait i k w s) = capable H s" "capable H (drop_inflight k e s) = capable H s"
  by (rule capable_cong; simp)+

lemma runs_of_frame [simp]:
  "runs_of (set_entry x en s) e = runs_of s e" "runs_of (s\<lparr>br_store := st\<rparr>) e = runs_of s e"
  "runs_of (s\<lparr>br_spent := sp\<rparr>) e = runs_of s e" "runs_of (s\<lparr>br_prepared := ps\<rparr>) e = runs_of s e"
  by (simp_all add: runs_of_def)

lemma entry_bound_same:
  assumes "entry_bound H ps en" "en_key en' = en_key en" "en_request en' = en_request en"
    "\<And>p. en_phase en' = Transforming p \<Longrightarrow> en_phase en = Transforming p"
  shows "entry_bound H ps en'"
  unfolding entry_bound_def
proof (intro conjI allI impI)
  fix p assume "en_phase en' = Transforming p"
  then have "en_phase en = Transforming p" by (rule assms(4))
  with assms(1) have "p \<in> set ps \<and> pr_identity p = key_identity (en_key en) \<and> pr_authority p = key_broker (en_key en)"
    unfolding entry_bound_def by simp
  then show "p \<in> set ps" "pr_identity p = key_identity (en_key en')" "pr_authority p = key_broker (en_key en')"
    using assms(2) by simp_all
qed (use assms(1-3) in \<open>simp add: entry_bound_def\<close>)

text \<open>An entry changes without a commitment.\<close>

lemma capable_set_entry:
  assumes "capable H s" "br_entry s e = Some en" "en_key en' = en_key en" "en_request en' = en_request en"
    "en_committed en' = en_committed en" "\<And>p. en_phase en' = Transforming p \<Longrightarrow> en_phase en = Transforming p"
  shows "capable H (set_entry e en' s)"
proof (rule capableI)
  fix x y assume "br_entry (set_entry e en' s) x = Some y"
  then show "entry_bound H (br_prepared (set_entry e en' s)) y"
    using entry_bound_same [OF capable_entry [OF assms(1,2)] assms(3,4,6)] capable_entry [OF assms(1), of x y]
    by (cases "x = e") simp_all
next
  fix x show "runs_bound H (set_entry e en' s) x"
    using capableD(2) [OF assms(1), of x] assms(2,3,5) using runs_bound_cong [of "set_entry e en' s" x s]
    by (cases "x = e") (simp_all add: runs_bound_def)
qed (use capableD [OF assms(1)] in simp_all)

lemma runs_bound_frame [simp]:
  "runs_bound H (s\<lparr>br_spent := sp\<rparr>) e = runs_bound H s e" "runs_bound H (s\<lparr>br_prepared := ps\<rparr>) e = runs_bound H s e"
  by (rule runs_bound_cong; simp)+

lemma capable_spend: "capable H s \<Longrightarrow> capable H (s\<lparr>br_spent := n # br_spent s\<rparr>)"
  by (rule capableI) (use capableD [of H s] capable_entry [of H s] in auto)

lemma prepared_ok_new:
  assumes "prepared_ok H ps" "pr_state p \<notin> pr_state ` set ps" "pr_identity p = request_identity H (pr_admission_request p)"
  shows "prepared_ok H (p # ps)"
proof -
  from assms(1) obtain f where "\<forall>q \<in> set ps. (pr_admission_request q, pr_authority q) = f (pr_state q)"
    unfolding prepared_ok_def by blast
  with assms(2) have "\<forall>q \<in> set (p # ps). (pr_admission_request q, pr_authority q)
      = (f(pr_state p := (pr_admission_request p, pr_authority p))) (pr_state q)" by (simp add: image_iff) metis
  then have "\<exists>f. \<forall>q \<in> set (p # ps). (pr_admission_request q, pr_authority q) = f (pr_state q)"
    by (rule exI [of _ "f(pr_state p := (pr_admission_request p, pr_authority p))"])
  moreover have "\<forall>q \<in> set (p # ps). pr_identity q = request_identity H (pr_admission_request q)"
    using assms(1,3) by (simp add: prepared_ok_def)
  ultimately show ?thesis unfolding prepared_ok_def by (rule conjI [rotated])
qed

lemma prepared_ok_copy:
  assumes "prepared_ok H ps" "p \<in> set ps" "pr_state q = pr_state p" "pr_admission_request q = pr_admission_request p"
    "pr_authority q = pr_authority p" "pr_identity q = pr_identity p"
  shows "prepared_ok H (q # ps)"
proof -
  from assms(1) obtain f where f: "\<forall>p \<in> set ps. (pr_admission_request p, pr_authority p) = f (pr_state p)"
    unfolding prepared_ok_def by blast
  then have "(pr_admission_request p, pr_authority p) = f (pr_state p)" using assms(2) by blast
  with f assms(3-5) have "\<exists>f. \<forall>p \<in> set (q # ps). (pr_admission_request p, pr_authority p) = f (pr_state p)"
    by (intro exI [of _ f]) simp
  moreover have "\<forall>p \<in> set (q # ps). pr_identity p = request_identity H (pr_admission_request p)"
    using assms by (simp add: prepared_ok_def)
  ultimately show ?thesis unfolding prepared_ok_def by (rule conjI [rotated])
qed

lemma prepared_same_state:
  assumes "prepared_ok H ps" "p \<in> set ps" "q \<in> set ps" "pr_state q = pr_state p"
  shows "pr_admission_request q = pr_admission_request p" "pr_authority q = pr_authority p"
proof -
  from assms(1) obtain f where f: "\<forall>q \<in> set ps. (pr_admission_request q, pr_authority q) = f (pr_state q)"
    unfolding prepared_ok_def by blast
  have "(pr_admission_request q, pr_authority q) = (pr_admission_request p, pr_authority p)"
    using f assms(2-4) by metis
  then show "pr_admission_request q = pr_admission_request p" "pr_authority q = pr_authority p" by simp_all
qed

lemma capable_prepared:
  assumes "capable H s" "prepared_ok H (p # br_prepared s)"
  shows "capable H (s\<lparr>br_prepared := p # br_prepared s\<rparr>)"
proof (rule capableI)
  fix e en assume "br_entry (s\<lparr>br_prepared := p # br_prepared s\<rparr>) e = Some en"
  then show "entry_bound H (br_prepared (s\<lparr>br_prepared := p # br_prepared s\<rparr>)) en"
    using capable_entry [OF assms(1), of e en] by (auto simp: entry_bound_def)
next
  fix e show "runs_bound H (s\<lparr>br_prepared := p # br_prepared s\<rparr>) e"
    using capableD(2) [OF assms(1), of e] by simp
qed (use assms capableD [OF assms(1)] in simp_all)

lemma prepare_once_issues:
  "prepare_once H P a st r res = Inr p \<Longrightarrow>
    pr_state p = st \<and> pr_authority p = a \<and> pr_admission_request p = r \<and> pr_identity p = request_identity H r"
  by (auto simp: prepare_once_def issue_prepared_def split: option.splits sum.splits if_splits)

lemma with_request_copies:
  "with_request H p r = Inr q \<Longrightarrow> pr_state q = pr_state p \<and> pr_authority q = pr_authority p
    \<and> pr_admission_request q = pr_admission_request p \<and> pr_identity q = pr_identity p"
  by (auto simp: with_request_def split: if_splits)

lemma apply_transform_keeps:
  assumes "prepared_ok H ps" "p \<in> set ps" "\<And>q. t = ToPrepared q \<Longrightarrow> q \<in> set ps" "apply_transform H P p t = Inr q"
  shows "pr_state q = pr_state p \<and> pr_authority q = pr_authority p \<and> pr_admission_request q = pr_admission_request p"
proof (cases t)
  case (ToRequest r)
  with assms(4) show ?thesis by (auto simp: apply_transform_def dest: with_request_copies split: sum.splits)
next
  case (ToPrepared q')
  with assms(3) have "q' \<in> set ps" by simp
  moreover from ToPrepared assms(4) obtain r where "pr_state q' = pr_state p" "with_request H q' r = Inr q"
    by (auto simp: apply_transform_def split: sum.splits if_splits)
  ultimately show ?thesis using prepared_same_state [OF assms(1,2)] with_request_copies [of H q' r q] by simp
qed (use assms(4) in \<open>simp_all add: apply_transform_def\<close>)

lemma capable_admit:
  assumes "capable (bl_H B) s" "br_entry s e = Some en" "early en" "entry_inv en"
    "request_identity (bl_H B) (pr_admission_request p) = key_identity (en_key en)"
  shows "capable (bl_H B) (admit_task B p e en s)"
proof -
  have nc: "\<not> en_committed en" using assms(3,4) by (auto simp: entry_inv_def phase_ok_def early_def split: task_phase.splits)
  let ?s = "\<lambda>st. s\<lparr>br_spent := pr_state p # br_spent s, br_store := st\<rparr>"
  let ?x = "\<lparr>ru_request = pr_admission_request p, ru_at = br_now s, ru_entry = Some e, ru_state = pr_state p\<rparr>"
  let ?en = "en\<lparr>en_committed := True, en_exec := Some None, en_phase := Executing\<rparr>"
  let ?t = "\<lambda>st. set_entry e ?en (s\<lparr>br_spent := pr_state p # br_spent s, br_store := st, br_runs := br_runs s @ [?x]\<rparr>)"
  have closed: "capable (bl_H B) (set_entry e (close_task out en) s)" for out
    by (rule capable_set_entry [OF assms(1,2)]) simp_all
  have spent: "capable (bl_H B) (set_entry e (close_task out en) (?s st))" for out st
    by (rule capable_set_entry [where en = en]) (simp_all add: capable_spend assms(1,2))
  have commit: "capable (bl_H B) (?t st)" if "pr_state p \<notin> set (br_spent s)" for st
  proof (rule capableI)
    fix x y assume "br_entry (?t st) x = Some y"
    then show "entry_bound (bl_H B) (br_prepared (?t st)) y"
      using entry_bound_same [OF capable_entry [OF assms(1,2)], of ?en] capable_entry [OF assms(1), of x y] by (cases "x = e") auto
  next
    fix x
    have "runs_of (?t st) x = runs_of s x @ (if x = e then [?x] else [])" by (simp add: runs_of_def)
    then show "runs_bound (bl_H B) (?t st) x"
      using capableD(2) [OF assms(1), of x] assms(2,5) nc runs_bound_cong [of "?t st" x s]
      by (cases "x = e") (simp_all add: runs_bound_def)
  next
    show "ru_state ` set (br_runs (?t st)) \<subseteq> set (br_spent (?t st))" using capableD(3) [OF assms(1)] by auto
    show "distinct (map ru_state (br_runs (?t st)))" using capableD(3,4) [OF assms(1)] that by auto
  qed (use capableD(1) [OF assms(1)] in simp)
  show ?thesis
    using closed spent commit by (auto simp: admit_task_def split: prod.split sum.split bool.split)
qed

lemma capable_run_prepared:
  assumes "capable (bl_H B) s"
  shows "capable (bl_H B) (run_prepared B P a i p s)"
proof -
  let ?x = "\<lparr>ru_request = pr_admission_request p, ru_at = br_now s, ru_entry = None, ru_state = pr_state p\<rparr>"
  let ?t = "\<lambda>st. s\<lparr>br_spent := pr_state p # br_spent s, br_store := st, br_runs := br_runs s @ [?x]\<rparr>"
  have run: "capable (bl_H B) (?t st)" if "pr_state p \<notin> set (br_spent s)" for st
  proof (rule capableI)
    fix e show "runs_bound (bl_H B) (?t st) e"
      using capableD(2) [OF assms, of e] runs_bound_cong [of "?t st" e s] by (simp add: runs_of_def)
  next
    show "ru_state ` set (br_runs (?t st)) \<subseteq> set (br_spent (?t st))" using capableD(3) [OF assms] by auto
    show "distinct (map ru_state (br_runs (?t st)))" using capableD(3,4) [OF assms] that by auto
  qed (use capableD(1) [OF assms] capable_entry [OF assms] in simp_all)
  show ?thesis
    using run assms capable_spend [OF assms] by (auto simp: run_prepared_def Let_def split: prod.split sum.split bool.split)
qed

lemma capable_release: 
  assumes "capable H s" "br_entry s e = Some en" "en_key en' = en_key en" "en_request en' = en_request en"
    "en_committed en' = en_committed en" "en_phase en' = en_phase en"
  shows "capable H (release_waiter b e en' s)"
proof -
  have "capable H (release_waiter b e en' s) = capable H (set_entry e (released b en') s)"
    by (rule capable_cong) simp_all
  also have "capable H (set_entry e (released b en') s)"
    by (rule capable_set_entry [OF assms(1,2)]) (use assms(3-6) in simp_all)
  finally show ?thesis by simp
qed

lemma entry_bound_transforming:
  "entry_bound H ps en \<Longrightarrow> en_phase en = Transforming p
    \<Longrightarrow> p \<in> set ps \<and> pr_identity p = key_identity (en_key en) \<and> pr_authority p = key_broker (en_key en)"
  by (simp add: entry_bound_def)

lemma capable_proceed:
  assumes "capable (bl_H B) s" "br_entry s e = Some en" "entry_inv en" "en_phase en = Transforming p"
    "\<And>q. t = ToPrepared q \<Longrightarrow> q \<in> set (br_prepared s)"
  shows "capable (bl_H B) (proceed_task B P t before p e en s)"
proof -
  have closed: "capable (bl_H B) (set_entry e (close_task out en) s)" for out
    by (rule capable_set_entry [OF assms(1,2)]) simp_all
  have p: "p \<in> set (br_prepared s)" "pr_identity p = key_identity (en_key en)"
    using entry_bound_transforming [OF capable_entry [OF assms(1,2)] assms(4)] by simp_all
  then have id: "request_identity (bl_H B) (pr_admission_request p) = key_identity (en_key en)"
    using capableD(1) [OF assms(1)] by (simp add: prepared_ok_def)
  have "early en" using assms(4) by (simp add: early_def)
  have "capable (bl_H B) (admit_task B q e en s)" if q: "apply_transform (bl_H B) P p t = Inr q" for q
    by (rule capable_admit [OF assms(1,2) \<open>early en\<close> assms(3)])
      (use apply_transform_keeps [OF capableD(1) [OF assms(1)] p(1) assms(5) q] id in simp)
  with closed show ?thesis by (simp add: proceed_task_def split: sum.split option.split)
qed

lemma capable_prepare:
  assumes "capable (bl_H B) s" "br_entry s e = Some en" "st \<notin> pr_state ` set (br_prepared s)"
    "entry_inv en" "en_phase en = Preparing"
  shows "capable (bl_H B) (prepare_task B P st res e en s)"
proof (cases "prepare_once (bl_H B) P (key_broker (en_key en)) st (en_request en) res")
  case (Inl x)
  have "capable (bl_H B) (set_entry e (close_task (Raised x) en) s)" by (rule capable_set_entry [OF assms(1,2)]) simp_all
  with Inl show ?thesis by (simp add: prepare_task_def)
next
  case (Inr p)
  have p: "pr_state p = st" "pr_authority p = key_broker (en_key en)" "pr_admission_request p = en_request en"
    "pr_identity p = request_identity (bl_H B) (en_request en)"
    using prepare_once_issues [OF Inr] by simp_all
  let ?s = "s\<lparr>br_prepared := p # br_prepared s\<rparr>" and ?en = "en\<lparr>en_phase := Transforming p\<rparr>"
  have ok: "capable (bl_H B) ?s"
    by (rule capable_prepared [OF assms(1) prepared_ok_new]) (use capableD(1) [OF assms(1)] assms(3) p in simp_all)
  have en: "br_entry ?s e = Some en" using assms(2) by simp
  have bound: "entry_bound (bl_H B) (br_prepared ?s) ?en"
    using capable_entry [OF assms(1,2)] p by (simp add: entry_bound_def)
  have "capable (bl_H B) (set_entry e ?en ?s)"
  proof (rule capableI)
    fix x y assume "br_entry (set_entry e ?en ?s) x = Some y"
    then show "entry_bound (bl_H B) (br_prepared (set_entry e ?en ?s)) y"
      using bound capable_entry [OF ok, of x y] by (cases "x = e") auto
  next
    fix x show "runs_bound (bl_H B) (set_entry e ?en ?s) x"
      using capableD(2) [OF assms(1), of x] assms(2) runs_bound_cong [of "set_entry e ?en ?s" x s]
      by (cases "x = e") (simp_all add: runs_bound_def)
  qed (use capableD [OF ok] in simp_all)
  with Inr show ?thesis by (simp add: prepare_task_def)
qed

lemma capable_wake:
  assumes "capable H s" "br_entry s e = Some en"
  shows "capable H (wake i k e en out s)"
  using assms by (auto simp: wake_def intro!: capable_release split: outcome.split)

lemma capable_enter:
  assumes "capable (bl_H B) s" "br_entry s n = None"
  shows "capable (bl_H B) (enter B P a i n cb raw s)"
proof (cases "check_policy P raw")
  case (Inl x)
  with assms show ?thesis by (simp add: enter_def)
next
  case (Inr r)
  let ?k = "Key a (request_identity (bl_H B) r)"
  show ?thesis
  proof (cases "br_inflight s ?k")
    case (Some e)
    have "capable (bl_H B) (set_entry e (en\<lparr>en_waiters := w\<rparr>) s)" if "br_entry s e = Some en" for en w
      by (rule capable_set_entry [OF assms(1) that]) simp_all
    with Some Inr assms(1) show ?thesis by (simp add: enter_def Let_def split: option.split)
  next
    case None
    let ?t = "set_entry n (new_entry ?k r cb) (s\<lparr>br_inflight := (br_inflight s)(?k \<mapsto> n)\<rparr>)"
    have "capable (bl_H B) ?t"
    proof (rule capableI)
      fix x y assume "br_entry ?t x = Some y"
      then show "entry_bound (bl_H B) (br_prepared ?t) y"
        using capable_entry [OF assms(1), of x y] by (cases "x = n") (auto simp: entry_bound_def new_entry_def)
    next
      fix x
      have "runs_of ?t x = runs_of s x" by (simp add: runs_of_def)
      then show "runs_bound (bl_H B) ?t x"
        using capableD(2) [OF assms(1), of x] assms(2) runs_bound_cong [of ?t x s]
        by (cases "x = n") (simp_all add: runs_bound_def new_entry_def)
    qed (use capableD [OF assms(1)] in simp_all)
    with None Inr show ?thesis by (simp add: enter_def Let_def)
  qed
qed

lemma capable_step:
  assumes "broker_step B s s'" "capable (bl_H B) s" "entries_ok s"
  shows "capable (bl_H B) s'"
  using assms(1)
proof cases
  case (Enter i n P a cb raw)
  then show ?thesis using assms(2) by (simp add: capable_enter)
next
  case (Start e en)
  then show ?thesis using assms(2) by (auto simp: start_task_def intro!: capable_set_entry split: sum.split bool.split)
next
  case (Prepare e en st P res)
  then show ?thesis using assms(2) entries_okD [OF assms(3)] by (simp add: capable_prepare)
next
  case (Proceed e en p t P before)
  then show ?thesis using assms(2) entries_okD [OF assms(3)] by (simp add: capable_proceed)
next
  case (Cleanup e en out)
  then show ?thesis using assms(2) by (auto simp: cleanup_execution_def run_on_abandon_once_def ensure_gate_def intro!: capable_set_entry)
next
  case (Wake i c e en out)
  then show ?thesis using assms(2) by (simp add: capable_wake)
next
  case (CancelCaller i c e en)
  then show ?thesis using assms(2) by (auto intro!: capable_release)
next
  case (Derive p r q)
  then show ?thesis using assms(2)
    by (auto intro!: capable_prepared prepared_ok_copy [of _ _ p] dest: with_request_copies capableD(1))
next
  case (Issue P a st r res p)
  then show ?thesis using assms(2)
    by (auto intro!: capable_prepared prepared_ok_new dest: prepare_once_issues capableD(1))
next
  case (RunPrepared i p P a)
  then show ?thesis using assms(2) by (simp add: capable_run_prepared)
qed (use assms(2) in \<open>auto simp: end_execution_def intro!: capable_set_entry\<close>)

lemma capable_init: "capable H (broker_init now st)"
  by (rule capableI) (simp_all add: broker_init_def prepared_ok_def runs_bound_def runs_of_def)

lemma reachable_capable: "broker_reachable B now st s \<Longrightarrow> capable (bl_H B) s"
proof (induction rule: broker_reachable.induct)
  case (broker_next s s')
  show ?case by (rule capable_step [OF broker_next.hyps(2) broker_next.IH reachable_entries_ok [OF broker_next.hyps(1)]])
qed (rule capable_init)

section \<open>Answers\<close>

text \<open>Caller \<open>i\<close> got content from the run of entry \<open>e\<close>.\<close>

definition got :: "'s broker \<Rightarrow> nat \<Rightarrow> nat \<Rightarrow> run_result \<Rightarrow> bool" where
  "got s i e res \<longleftrightarrow> (\<exists>c. br_caller s i = Some c \<and> ca_wait c = Answered (Some e) (Returned res)) \<and> \<not> rr_duplicate res"

definition served_by :: "'s broker \<Rightarrow> nat \<Rightarrow> nat \<Rightarrow> run_result \<Rightarrow> bool" where
  "served_by s i e res \<longleftrightarrow> (\<exists>c en. br_caller s i = Some c \<and> br_entry s e = Some en \<and> ca_key c = en_key en
     \<and> en_delivered en \<and> en_exec en = Some (Some (Returned res)))"

definition served :: "'s broker \<Rightarrow> bool" where
  "served s \<longleftrightarrow> (\<forall>i e res. got s i e res \<longrightarrow> served_by s i e res) \<and> (\<forall>i j e r r'. got s i e r \<longrightarrow> got s j e r' \<longrightarrow> i = j)"

lemma servedI:
  assumes "\<And>i e res. got s i e res \<Longrightarrow> served_by s i e res" "\<And>i j e r r'. got s i e r \<Longrightarrow> got s j e r' \<Longrightarrow> i = j"
  shows "served s"
  unfolding served_def using assms by blast

lemma servedD:
  assumes "served s" "got s i e res"
  shows "served_by s i e res" and "got s j e r' \<Longrightarrow> j = i"
  using assms unfolding served_def by blast+

lemma got_cong: "br_caller s' = br_caller s \<Longrightarrow> got s' = got s"
  by (simp add: got_def fun_eq_iff)

lemma served_by_keep:
  assumes "served_by s i e res" "br_caller s' i = br_caller s i"
    and "\<And>en. br_entry s e = Some en \<Longrightarrow> en_delivered en \<Longrightarrow>
      \<exists>en'. br_entry s' e = Some en' \<and> en_key en' = en_key en \<and> en_delivered en' \<and> en_exec en' = en_exec en"
  shows "served_by s' i e res"
proof -
  from assms(1) obtain c en where c: "br_caller s i = Some c" "br_entry s e = Some en" "ca_key c = en_key en"
    "en_delivered en" "en_exec en = Some (Some (Returned res))" unfolding served_by_def by blast
  from assms(3) [OF c(2,4)] obtain en' where "br_entry s' e = Some en'" "en_key en' = en_key en" "en_delivered en'" "en_exec en' = en_exec en"
    by blast
  with c assms(2) show ?thesis unfolding served_by_def by auto
qed

lemma served_same_callers:
  assumes "served s" "br_caller s' = br_caller s"
    and "\<And>e en. br_entry s e = Some en \<Longrightarrow> en_delivered en \<Longrightarrow>
      \<exists>en'. br_entry s' e = Some en' \<and> en_key en' = en_key en \<and> en_delivered en' \<and> en_exec en' = en_exec en"
  shows "served s'"
proof (rule servedI)
  fix i e res assume "got s' i e res"
  then have "got s i e res" by (simp add: got_cong [OF assms(2)])
  show "served_by s' i e res"
    by (rule served_by_keep [OF servedD(1) [OF assms(1) \<open>got s i e res\<close>]]) (simp add: assms(2), rule assms(3))
qed (use servedD(2) [OF assms(1)] got_cong [OF assms(2)] in auto)

text \<open>The answer of one caller, without content of an entry.\<close>

lemma served_plain_answer:
  assumes "served s" "\<And>e res. w = Answered (Some e) (Returned res) \<Longrightarrow> rr_duplicate res"
  shows "served (set_wait i k w s)"
proof -
  have old: "got s j e res \<and> j \<noteq> i" if "got (set_wait i k w s) j e res" for j e res
    using that assms(2) by (cases "j = i") (auto simp: got_def)
  show ?thesis
  proof (rule servedI)
    fix j e res assume "got (set_wait i k w s) j e res"
    then have g: "got s j e res" "j \<noteq> i" using old by blast+
    show "served_by (set_wait i k w s) j e res"
      by (rule served_by_keep [OF servedD(1) [OF assms(1) g(1)]]) (use g(2) in simp_all)
  next
    fix j j' e r r' assume "got (set_wait i k w s) j e r" "got (set_wait i k w s) j' e r'"
    then show "j = j'" using old servedD(2) [OF assms(1)] by blast
  qed
qed

lemma served_content:
  assumes "served s" "br_entry s e = Some en" "\<not> en_delivered en" "en_exec en = Some (Some (Returned res))"
  shows "served (set_wait i (en_key en) (Answered (Some e) (Returned res)) (set_entry e (en\<lparr>en_delivered := True\<rparr>) s))"
    (is "served ?s")
proof -
  have none: "\<not> got s j e r" for j r
    using servedD(1) [OF assms(1), of j e r] assms(2,3) by (auto simp: served_by_def)
  have old: "j = i \<and> x = e \<and> r = res \<or> j \<noteq> i \<and> x \<noteq> e \<and> got s j x r" if "got ?s j x r" for j x r
    using that none [of j r] by (cases "j = i") (auto simp: got_def)
  show ?thesis
  proof (rule servedI)
    fix j x r assume "got ?s j x r"
    with old consider "j = i" "x = e" "r = res" | "j \<noteq> i" "x \<noteq> e" "got s j x r" by blast
    then show "served_by ?s j x r"
    proof cases
      case 1
      then show ?thesis using assms(4) by (simp add: served_by_def)
    next
      case 2
      show ?thesis by (rule served_by_keep [OF servedD(1) [OF assms(1) 2(3)]]) (use 2(1,2) in simp_all)
    qed
  next
    fix j j' x r r' assume "got ?s j x r" "got ?s j' x r'"
    then show "j = j'" using old servedD(2) [OF assms(1)] by metis
  qed
qed

lemma served_cong: "br_caller s' = br_caller s \<Longrightarrow> br_entry s' = br_entry s \<Longrightarrow> served s' = served s"
  by (simp add: served_def served_by_def got_def)

lemma served_frame [simp]:
  "served (s\<lparr>br_now := t\<rparr>) = served s" "served (s\<lparr>br_store := st\<rparr>) = served s" "served (s\<lparr>br_spent := sp\<rparr>) = served s"
  "served (s\<lparr>br_runs := rs\<rparr>) = served s" "served (s\<lparr>br_prepared := ps\<rparr>) = served s" "served (s\<lparr>br_inflight := f\<rparr>) = served s"
  "served (drop_inflight k e s) = served s" "served (release_waiter b e en s) = served (set_entry e (released b en) s)"
  by (rule served_cong; simp)+

lemma served_set_entry:
  assumes "served s" "br_entry s e = Some en" "en_key en' = en_key en"
    "en_delivered en \<Longrightarrow> en_delivered en' \<and> en_exec en' = en_exec en"
  shows "served (set_entry e en' s)"
proof (rule served_same_callers [OF assms(1)])
  fix x y assume y: "br_entry s x = Some y" "en_delivered y"
  show "\<exists>y'. br_entry (set_entry e en' s) x = Some y' \<and> en_key y' = en_key y \<and> en_delivered y' \<and> en_exec y' = en_exec y"
    using y assms(2-4) by (cases "x = e") simp_all
qed simp

lemma served_release:
  assumes "served s" "br_entry s e = Some en"
  shows "served (release_waiter b e en s)"
  using served_set_entry [OF assms, of "released b en"] by simp

lemma served_release_drop:
  assumes "served s" "br_entry s e = Some en"
  shows "served (release_waiter b e en (drop_inflight k e s))"
  by (rule served_release) (use assms in simp_all)

lemma served_raised: "served s \<Longrightarrow> served (set_wait i k (Answered w (Raised x)) s)"
  by (rule served_plain_answer) simp_all

lemma served_unshared: "served s \<Longrightarrow> served (set_wait i k (Answered None out) s)"
  by (rule served_plain_answer) simp_all

lemma served_new_entry:
  assumes "served s" "br_entry s n = None"
  shows "served (set_entry n en s)"
proof (rule served_same_callers [OF assms(1)])
  fix x y assume y: "br_entry s x = Some y" "en_delivered y"
  show "\<exists>y'. br_entry (set_entry n en s) x = Some y' \<and> en_key y' = en_key y \<and> en_delivered y' \<and> en_exec y' = en_exec y"
    using y assms(2) by (cases "x = n") simp_all
qed simp

lemma delivered_ended: "entry_inv en \<Longrightarrow> en_delivered en \<Longrightarrow> \<exists>out. en_phase en = Finished out \<and> en_exec en = Some (Some out)"
  by (auto simp: entry_inv_def phase_ok_def settled_def split: task_phase.splits)

lemma content_ended:
  "entry_inv en \<Longrightarrow> en_phase en = Finished (Returned res) \<Longrightarrow> \<not> rr_duplicate res \<Longrightarrow> en_exec en = Some (Some (Returned res))"
  by (auto simp: entry_inv_def phase_ok_def settled_def split: if_splits)

lemma served_admit:
  assumes "served s" "br_entry s e = Some en" "\<not> en_delivered en"
  shows "served (admit_task B p e en s)"
  using assms by (auto simp: admit_task_def intro!: served_set_entry split: prod.split sum.split bool.split)

lemma served_wake:
  assumes "served s" "br_entry s e = Some en" "entry_inv en" "en_phase en = Finished out"
  shows "served (wake i (en_key en) e en out s)"
proof (cases out)
  case (Raised x)
  with served_release [OF assms(1,2)] served_release_drop [OF assms(1,2)] show ?thesis
    by (simp add: wake_def served_raised del: served_frame)
next
  case (Returned res)
  show ?thesis
  proof (cases "rr_duplicate res \<or> en_delivered en")
    case True
    let ?w = "Answered (Some e) (Returned (if rr_duplicate res then res else duplicate_result))"
    have "served (set_wait i (en_key en) ?w (release_waiter False e en (drop_inflight (en_key en) e s)))"
      by (rule served_plain_answer [OF served_release_drop [OF assms(1,2)]]) (auto simp: duplicate_result_def split: if_splits)
    with Returned True show ?thesis by (simp add: wake_def)
  next
    case False
    let ?w = "Answered (Some e) (Returned res)" and ?en = "en\<lparr>en_delivered := True\<rparr>"
    let ?t = "set_wait i (en_key en) ?w (set_entry e ?en s)"
    have "served ?t"
      by (rule served_content [OF assms(1,2)]) (use False content_ended [OF assms(3)] assms(4) Returned in simp_all)
    then have "served (set_entry e (released False ?en) ?t)" by (rule served_set_entry [where en = ?en]) simp_all
    then have "served (set_wait i (en_key en) ?w (release_waiter False e ?en (drop_inflight (en_key en) e s)))"
      by (subst served_cong [where s = "set_entry e (released False ?en) ?t"]) simp_all
    with Returned False show ?thesis by (simp add: wake_def)
  qed
qed

lemma served_enter:
  assumes "served s" "br_entry s n = None"
  shows "served (enter B P a i n cb raw s)"
proof (cases "check_policy P raw")
  case (Inl x)
  with assms show ?thesis by (simp add: enter_def served_unshared)
next
  case (Inr r)
  let ?k = "Key a (request_identity (bl_H B) r)"
  show ?thesis
  proof (cases "br_inflight s ?k")
    case (Some e)
    have "served (set_wait i ?k (Waiting e) (set_entry e (en\<lparr>en_waiters := w\<rparr>) s))" if "br_entry s e = Some en" for en w
      by (rule served_plain_answer [OF served_set_entry [OF assms(1) that]]) simp_all
    then show ?thesis using Some Inr assms(1) by (simp add: enter_def Let_def served_unshared split: option.split)
  next
    case None
    have "served (set_entry n (new_entry ?k r cb) (s\<lparr>br_inflight := (br_inflight s)(?k \<mapsto> n)\<rparr>))"
      by (rule served_new_entry) (use assms in simp_all)
    with None Inr show ?thesis by (auto simp: enter_def Let_def intro!: served_plain_answer)
  qed
qed

lemma served_step:
  assumes "broker_step B s s'" "served s" "entries_ok s" "wired s"
  shows "served s'"
  using assms(1)
proof cases
  case (Enter i n P a cb raw)
  then show ?thesis using assms(2) by (simp add: served_enter)
next
  case (Start e en)
  then show ?thesis using assms(2) by (auto simp: start_task_def intro!: served_set_entry split: sum.split bool.split)
next
  case (Prepare e en st P res)
  then show ?thesis using assms(2) by (auto simp: prepare_task_def intro!: served_set_entry split: sum.split)
next
  case (Proceed e en p t P before)
  then have "\<not> en_delivered en" using delivered_ended [OF entries_okD [OF assms(3) Proceed(2)]] by auto
  then show ?thesis using Proceed assms(2)
    by (auto simp: proceed_task_def served_admit intro!: served_set_entry split: sum.split option.split)
next
  case (EndExecution e en out)
  then have "\<not> en_delivered en" using delivered_ended [OF entries_okD [OF assms(3) EndExecution(2)]] by auto
  then show ?thesis using EndExecution assms(2) by (auto simp: end_execution_def intro!: served_set_entry)
next
  case (Cleanup e en out)
  then show ?thesis using assms(2)
    by (auto simp: cleanup_execution_def run_on_abandon_once_def ensure_gate_def intro!: served_set_entry)
next
  case (Wake i c e en out)
  have "en_key en = ca_key c" using wired_waiting [OF assms(4) Wake(2,3)] Wake(4) by simp
  with served_wake [OF assms(2) Wake(4) entries_okD [OF assms(3) Wake(4)] Wake(5)] Wake(1) show ?thesis by simp
next
  case (CancelCaller i c e en)
  then show ?thesis using served_release [OF assms(2) CancelCaller(4)] by (simp add: served_raised del: served_frame)
next
  case (RunPrepared i p P a)
  have "served (set_wait i k w t)" if "served t" "w = Dispatched \<or> (\<exists>out. w = Answered None out)" for k w and t :: "'a broker"
    by (rule served_plain_answer [OF that(1)]) (use that(2) in auto)
  then show ?thesis using RunPrepared assms(2) by (simp add: run_prepared_def Let_def split: prod.split sum.split bool.split)
next
  case (EndDispatch i c out)
  then show ?thesis using assms(2) by (simp add: served_unshared)
qed (use assms(2) in \<open>auto intro!: served_set_entry\<close>)

lemma served_init: "served (broker_init now st)"
  by (rule servedI) (simp_all add: broker_init_def got_def)

lemma reachable_served: "broker_reachable B now st s \<Longrightarrow> served s"
proof (induction rule: broker_reachable.induct)
  case (broker_next s s')
  show ?case
    by (rule served_step [OF broker_next.hyps(2) broker_next.IH reachable_entries_ok [OF broker_next.hyps(1)] reachable_wired [OF broker_next.hyps(1)]])
qed (rule served_init)

section \<open>Properties\<close>

text \<open>C12. The broker implements the journal: whatever its tasks, callers and cancellations do, a step of the broker is a step of
  the abstract journal, which admits a run only by a successful durable mark of its request at that moment.\<close>

theorem broker_implements_journal:
  assumes "broker_reachable B now st s"
  shows "(journal_step (bl_mark B) (bl_other B))\<^sup>*\<^sup>* (now, st, []) (journal s)
    \<and> (\<forall>s'. broker_step B s s' \<longrightarrow> journal_step (bl_mark B) (bl_other B) (journal s) (journal s'))"
  using broker_journal [OF assms] broker_refines_journal by (intro conjI allI impI) simp_all

text \<open>C9. Exactly-once execution: in every reachable state of a broker over the router's durable record, whatever other processes
  mark in the same table, two runs of one durable key are admitted more than the time-to-live (or a day, if that is less) apart,
  and no two runs come from one prepared capability.\<close>

theorem durable_request_admitted_once:
  assumes "broker_reachable B now st s" "bl_mark B = mark_run_request_seen H env" "bl_other B = other_event" "store_ok st"
  shows "sorted_wrt (\<lambda>x y. durable_key H env (ru_request x) = durable_key H env (ru_request y) \<and> durable_key H env (ru_request x) \<noteq> None
      \<longrightarrow> ru_at x + min (dedupe_window H env (ru_request y)) 86400 < ru_at y) (br_runs s)
    \<and> distinct (map ru_state (br_runs s))"
  using router_mark.admitted_once [OF assms] capableD(4) [OF reachable_capable [OF assms(1)]]
  unfolding router_mark.apart_def router_mark.same_key_def by simp

text \<open>C10. One answer per run, to the right caller: a caller that gets content through an entry gets the result of the one run
  of that entry, the run's request has the caller's own channel, profile, user and idempotency key, and no other caller of the
  entry gets its content.\<close>

theorem content_reaches_one_caller:
  assumes "broker_reachable B now st s" "got s i e res"
  shows "\<exists>c en x. br_caller s i = Some c \<and> br_entry s e = Some en \<and> ca_key c = en_key en \<and> runs_of s e = [x]
    \<and> request_identity (bl_H B) (ru_request x) = key_identity (ca_key c) \<and> en_exec en = Some (Some (Returned res))
    \<and> (\<forall>j r. got s j e r \<longrightarrow> j = i)"
proof -
  note sv = reachable_served [OF assms(1)]
  obtain c en where c: "br_caller s i = Some c" "br_entry s e = Some en" "ca_key c = en_key en" "en_exec en = Some (Some (Returned res))"
    using servedD(1) [OF sv assms(2)] unfolding served_by_def by blast
  have "en_committed en" using entries_okD [OF reachable_entries_ok [OF assms(1)] c(2)] c(4) by (simp add: entry_inv_def)
  then obtain x where "runs_of s e = [x]" "request_identity (bl_H B) (ru_request x) = key_identity (en_key en)"
    using capableD(2) [OF reachable_capable [OF assms(1)], of e] c(2) by (auto simp: runs_bound_def)
  with c servedD(2) [OF sv assms(2)] show ?thesis by auto
qed

text \<open>C11. Ownership of staged resources: once the task of an entry is over and cleaned up, exactly one of \<open>on_abandon\<close> and
  \<open>on_execution_done\<close> has run, and exactly once, the latter if the entry was committed, the former if not; \<open>on_entry_done\<close> has run at most
  once. Before that, a cancellation is pending only when no caller waits, and never after the commitment.\<close>

theorem staged_resources_released_once:
  assumes "broker_reachable B now st s" "br_entry s e = Some en" "cb_on_abandon (en_callbacks en)" "cb_on_execution_done (en_callbacks en)"
  shows "(en_cleaned en \<longrightarrow> count_list (en_calls en) OnAbandon = (if en_committed en then 0 else 1)
      \<and> count_list (en_calls en) OnExecutionDone = (if en_committed en then 1 else 0))
    \<and> (\<forall>f. count_list (en_calls en) (OnEntryDone f) \<le> 1) \<and> \<not> {OnEntryDone True, OnEntryDone False} \<subseteq> set (en_calls en)
    \<and> (en_cancel en \<longrightarrow> waiting_on s e = {} \<and> \<not> en_committed en)"
proof -
  have ok: "entry_inv en" by (rule entries_okD [OF reachable_entries_ok [OF assms(1)] assms(2)])
  have calls: "calls_ok en" using ok by (simp add: entry_inv_def)
  have ended: "if en_committed en then (\<exists>out. en_exec en = Some (Some out)) \<and> \<not> en_abandoned en else en_exec en = None \<and> en_abandoned en"
    if "en_cleaned en"
    using ok that assms(3) by (auto simp: entry_inv_def phase_ok_def settled_def owes_abandon_def split: task_phase.splits if_splits)
  have "OnEntryDone f \<in> set (en_calls en) \<Longrightarrow> en_gate en = Some (Some f)" for f using calls by (simp add: calls_ok_def)
  from this [of True] this [of False] have "\<not> {OnEntryDone True, OnEntryDone False} \<subseteq> set (en_calls en)" by auto
  with calls ended assms(4) cancelled_run_has_no_caller [OF assms(1,2)] show ?thesis
    by (auto simp: calls_ok_def split: if_splits)
qed

section \<open>A shared run\<close>

definition demo_policy :: broker_policy where
  "demo_policy = \<lparr>bp_stale = (\<lambda>_. False), bp_rewrite = rq_content, bp_require_sandbox = False, bp_sandbox_available = False\<rparr>"

definition demo_broker :: "(session_store option, event_row \<times> int) broker_lib" where
  "demo_broker = \<lparr>bl_H = (\<lambda>s. s), bl_mark = mark_run_request_seen (\<lambda>s. s) dedupe_demo_env, bl_seen = is_run_request_seen (\<lambda>s. s) dedupe_demo_env,
     bl_other = other_event\<rparr>"

definition shared_key :: key where "shared_key = Key 0 (request_identity (\<lambda>s. s) demo_request)"

definition demo_prepared :: "nat \<Rightarrow> prepared" where
  "demo_prepared n = issue_prepared (\<lambda>s. s) 0 n demo_request demo_request"

definition demo_callbacks :: callbacks where
  "demo_callbacks = \<lparr>cb_on_abandon = True, cb_on_execution_done = True, cb_on_entry_done = False\<rparr>"

definition demo_outcome :: outcome where
  "demo_outcome = Returned \<lparr>rr_content = ''hello'', rr_duplicate = False, rr_completed = True\<rparr>"

definition demo_created :: entry where "demo_created = new_entry shared_key demo_request demo_callbacks"
definition demo_running :: entry where
  "demo_running = demo_created\<lparr>en_phase := Executing, en_committed := True, en_exec := Some None\<rparr>"
definition demo_ended :: entry where "demo_ended = end_execution demo_outcome demo_running"
definition demo_closed :: entry where "demo_closed = close_task demo_outcome demo_ended"
definition demo_cleaned :: entry where
  "demo_cleaned = (run_on_abandon_once (ensure_gate (failed_outcome demo_outcome) demo_closed))\<lparr>en_cleaned := True\<rparr>"

definition demo_marked :: "session_store option" where
  "demo_marked = fst (mark_run_request_seen (\<lambda>s. s) dedupe_demo_env 0 (Some empty_store) demo_request)"

definition demo_state :: "entry \<Rightarrow> wait \<Rightarrow> session_store option broker" where
  "demo_state en w = \<lparr>br_now = 0, br_store = (if en_committed en then demo_marked else Some empty_store),
     br_inflight = (if en_cleaned en then (\<lambda>_. None)(shared_key := None) else [shared_key \<mapsto> 0]), br_entry = [0 \<mapsto> en],
     br_caller = [7 \<mapsto> \<lparr>ca_key = shared_key, ca_wait = w\<rparr>],
     br_prepared = (if en_phase en = Created \<or> en_phase en = Preparing then [] else [demo_prepared 1]),
     br_spent = (if en_committed en then [1] else []),
     br_runs = (if en_committed en then [\<lparr>ru_request = demo_request, ru_at = 0, ru_entry = Some 0, ru_state = 1\<rparr>] else [])\<rparr>"

lemma demo_request_check: "check_policy demo_policy demo_request = Inr demo_request"
  by (simp add: check_policy_def demo_policy_def rewrite_skill_slash_request_def assert_policy_def)

lemma demo_request_record: "run_request_dedupe_record H dedupe_demo_env demo_request = Some (demo_record ''om_1'')"
  using demo_dedupe [of "''om_1''" H] by (simp add: demo_request_def strip_def is_space_def)

lemma demo_mark: "mark_run_request_seen (\<lambda>s. s) dedupe_demo_env 0 (Some empty_store) demo_request = (demo_marked, Inr True)"
  unfolding demo_marked_def mark_run_request_seen_cases demo_request_record
  by (simp add: mark_event_processed_def empty_store_def event_of_def Let_def)

lemma demo_seen: "is_run_request_seen (\<lambda>s. s) dedupe_demo_env 0 (Some empty_store) demo_request = Inr False"
  unfolding is_run_request_seen_def demo_request_record by (simp add: is_event_processed_def empty_store_def)

lemmas demo_defs = demo_state_def demo_broker_def demo_created_def demo_running_def new_entry_def demo_callbacks_def demo_prepared_def
  issue_prepared_def shared_key_def set_entry_def

lemma demo_prepare: "prepare_once (\<lambda>s. s) demo_policy 0 1 demo_request None = Inr (demo_prepared 1)"
  by (simp add: prepare_once_def demo_prepared_def)

lemma demo_enter: "broker_reachable demo_broker 0 (Some empty_store) (demo_state demo_created (Waiting 0))"
proof -
  have "broker_step demo_broker (broker_init 0 (Some empty_store))
      (enter demo_broker demo_policy 0 7 0 demo_callbacks demo_request (broker_init 0 (Some empty_store)))"
    by (rule Enter) (simp_all add: broker_init_def)
  also have "enter demo_broker demo_policy 0 7 0 demo_callbacks demo_request (broker_init 0 (Some empty_store))
      = demo_state demo_created (Waiting 0)"
    by (simp add: enter_def demo_request_check broker_init_def set_wait_def demo_defs Let_def)
  finally show ?thesis by (rule broker_next [OF broker_start])
qed

lemma demo_running_reachable: "broker_reachable demo_broker 0 (Some empty_store) (demo_state demo_running (Waiting 0))"
proof -
  let ?R = "broker_reachable demo_broker 0 (Some empty_store)"
  let ?preparing = "demo_created\<lparr>en_phase := Preparing\<rparr>" and ?transforming = "demo_created\<lparr>en_phase := Transforming (demo_prepared 1)\<rparr>"
  have "broker_step demo_broker (demo_state demo_created (Waiting 0)) (start_task demo_broker 0 demo_created (demo_state demo_created (Waiting 0)))"
    by (rule Start) (simp_all add: demo_defs)
  also have "start_task demo_broker 0 demo_created (demo_state demo_created (Waiting 0)) = demo_state ?preparing (Waiting 0)"
    by (simp add: start_task_def demo_seen demo_defs)
  finally have 1: "?R (demo_state ?preparing (Waiting 0))" by (rule broker_next [OF demo_enter])
  have "broker_step demo_broker (demo_state ?preparing (Waiting 0)) (prepare_task demo_broker demo_policy 1 None 0 ?preparing (demo_state ?preparing (Waiting 0)))"
    by (rule Prepare) (simp_all add: demo_defs)
  also have "prepare_task demo_broker demo_policy 1 None 0 ?preparing (demo_state ?preparing (Waiting 0)) = demo_state ?transforming (Waiting 0)"
    using demo_prepare by (simp add: prepare_task_def demo_defs)
  finally have 2: "?R (demo_state ?transforming (Waiting 0))" by (rule broker_next [OF 1])
  have "broker_step demo_broker (demo_state ?transforming (Waiting 0))
      (proceed_task demo_broker demo_policy NoTransform None (demo_prepared 1) 0 ?transforming (demo_state ?transforming (Waiting 0)))"
    by (rule Proceed) (simp_all add: demo_defs)
  also have "proceed_task demo_broker demo_policy NoTransform None (demo_prepared 1) 0 ?transforming (demo_state ?transforming (Waiting 0))
      = demo_state demo_running (Waiting 0)"
    by (simp add: proceed_task_def apply_transform_def admit_task_def demo_mark demo_defs)
  finally show ?thesis by (rule broker_next [OF 2])
qed

lemma demo_finish: "broker_reachable demo_broker 0 (Some empty_store) (demo_state demo_cleaned (Waiting 0))"
proof -
  let ?R = "broker_reachable demo_broker 0 (Some empty_store)"
  note ds = demo_defs demo_ended_def end_execution_def demo_closed_def close_task_def demo_cleaned_def run_on_abandon_once_def
    ensure_gate_def failed_outcome_def demo_outcome_def
  have "broker_step demo_broker (demo_state demo_running (Waiting 0)) (set_entry 0 demo_ended (demo_state demo_running (Waiting 0)))"
    unfolding demo_ended_def by (rule EndExecution) (simp_all add: demo_defs)
  also have "set_entry 0 demo_ended (demo_state demo_running (Waiting 0)) = demo_state demo_ended (Waiting 0)" by (simp add: ds)
  finally have 1: "?R (demo_state demo_ended (Waiting 0))" by (rule broker_next [OF demo_running_reachable])
  have "broker_step demo_broker (demo_state demo_ended (Waiting 0)) (set_entry 0 demo_closed (demo_state demo_ended (Waiting 0)))"
    unfolding demo_closed_def by (rule Resume) (simp_all add: ds)
  also have "set_entry 0 demo_closed (demo_state demo_ended (Waiting 0)) = demo_state demo_closed (Waiting 0)" by (simp add: ds Let_def)
  finally have 2: "?R (demo_state demo_closed (Waiting 0))" by (rule broker_next [OF 1])
  have "broker_step demo_broker (demo_state demo_closed (Waiting 0)) (cleanup_execution demo_outcome 0 demo_closed (demo_state demo_closed (Waiting 0)))"
    by (rule Cleanup) (simp_all add: ds Let_def)
  also have "cleanup_execution demo_outcome 0 demo_closed (demo_state demo_closed (Waiting 0)) = demo_state demo_cleaned (Waiting 0)"
    by (simp add: cleanup_execution_def drop_inflight_def ds Let_def)
  finally show ?thesis by (rule broker_next [OF 2])
qed

text \<open>The caller of the shared run gets its content.\<close>

definition demo_served :: "session_store option broker" where
  "demo_served = wake 7 shared_key 0 demo_cleaned demo_outcome (demo_state demo_cleaned (Waiting 0))"

lemma demo_cleaned_fields:
  "en_phase demo_cleaned = Finished demo_outcome" "en_cleaned demo_cleaned" "en_committed demo_cleaned" "\<not> en_delivered demo_cleaned"
  "en_callbacks demo_cleaned = demo_callbacks" "en_key demo_cleaned = shared_key" "en_calls demo_cleaned = [OnExecutionDone]"
  by (simp_all add: demo_defs demo_ended_def end_execution_def demo_closed_def close_task_def demo_cleaned_def run_on_abandon_once_def
    ensure_gate_def failed_outcome_def demo_outcome_def Let_def)

lemma demo_served_reachable: "broker_reachable demo_broker 0 (Some empty_store) demo_served"
proof -
  have "broker_step demo_broker (demo_state demo_cleaned (Waiting 0))
      (wake 7 (ca_key \<lparr>ca_key = shared_key, ca_wait = Waiting 0\<rparr>) 0 demo_cleaned demo_outcome (demo_state demo_cleaned (Waiting 0)))"
    by (rule Wake) (simp_all add: demo_state_def demo_cleaned_fields)
  then show ?thesis unfolding demo_served_def by (auto intro: broker_next [OF demo_finish])
qed

lemma demo_got: "got demo_served 7 0 \<lparr>rr_content = ''hello'', rr_duplicate = False, rr_completed = True\<rparr>"
proof -
  note d = demo_cleaned_fields(4)
  show ?thesis by (simp add: got_def demo_served_def wake_def d demo_outcome_def)
qed

theorem broker_implements_journal_witness:
  "(journal_step (mark_run_request_seen (\<lambda>s. s) dedupe_demo_env) other_event)\<^sup>*\<^sup>* (0, Some empty_store, []) (journal (demo_state demo_running (Waiting 0)))
    \<and> length (br_runs (demo_state demo_running (Waiting 0))) = 1"
  using broker_implements_journal [OF demo_running_reachable] by (simp add: demo_broker_def) (simp add: demo_state_def demo_running_def)

theorem content_reaches_one_caller_witness:
  "\<exists>c x. br_caller demo_served 7 = Some c \<and> runs_of demo_served 0 = [x] \<and> request_identity (\<lambda>s. s) (ru_request x) = key_identity (ca_key c)"
  using content_reaches_one_caller [OF demo_served_reachable demo_got] by (auto simp: demo_broker_def)

theorem staged_resources_released_once_witness:
  "count_list (en_calls demo_cleaned) OnAbandon = 0 \<and> count_list (en_calls demo_cleaned) OnExecutionDone = 1"
proof -
  have e: "br_entry (demo_state demo_cleaned (Waiting 0)) 0 = Some demo_cleaned" by (simp add: demo_state_def)
  from staged_resources_released_once [OF demo_finish e] show ?thesis
    by (simp add: demo_cleaned_fields(2,3,5)) (simp add: demo_callbacks_def demo_cleaned_fields)
qed

text \<open>The same request in two prepared capabilities, more than a day apart.\<close>

definition demo_ran :: "nat \<Rightarrow> int \<Rightarrow> session_store option broker \<Rightarrow> session_store option broker" where
  "demo_ran n t s = run_prepared demo_broker demo_policy 0 n (demo_prepared n)
     (s\<lparr>br_now := t, br_prepared := demo_prepared n # br_prepared s\<rparr>)"

lemma demo_ran_reachable:
  assumes "broker_reachable demo_broker 0 st s" "br_now s \<le> t" "n \<notin> pr_state ` set (br_prepared s)" "br_caller s n = None"
  shows "broker_reachable demo_broker 0 st (demo_ran n t s)"
proof -
  have 1: "broker_reachable demo_broker 0 st (s\<lparr>br_now := t\<rparr>)" by (rule broker_next [OF assms(1) Tick]) (rule assms(2))
  have "broker_step demo_broker (s\<lparr>br_now := t\<rparr>) ((s\<lparr>br_now := t\<rparr>)\<lparr>br_prepared := demo_prepared n # br_prepared (s\<lparr>br_now := t\<rparr>)\<rparr>)"
    by (rule Issue [where P = demo_policy and a = 0 and st = n and r = demo_request and res = None])
      (use assms(3) in \<open>simp_all add: prepare_once_def demo_prepared_def demo_broker_def\<close>)
  from broker_next [OF 1 this] have 2: "broker_reachable demo_broker 0 st (s\<lparr>br_now := t, br_prepared := demo_prepared n # br_prepared s\<rparr>)"
    by simp
  show ?thesis unfolding demo_ran_def by (rule broker_next [OF 2 RunPrepared]) (simp_all add: assms(4))
qed

definition demo_first :: "session_store option broker" where
  "demo_first = demo_ran 1 0 (broker_init 0 (Some empty_store))"

lemma demo_ran_init:
  "br_now demo_first = 0"
  "br_prepared demo_first = [demo_prepared 1]"
  "br_caller demo_first 2 = None"
  "br_store demo_first = demo_marked"
  "br_spent demo_first = [1]"
  "br_runs demo_first = [\<lparr>ru_request = demo_request, ru_at = 0, ru_entry = None, ru_state = 1\<rparr>]"
  by (simp_all add: demo_first_def demo_ran_def run_prepared_def broker_init_def demo_prepared_def issue_prepared_def assert_policy_def demo_policy_def
      demo_broker_def demo_mark set_wait_def)

lemma demo_marked_rows: "demo_marked = Some (empty_store\<lparr>event_rows := [event_of (demo_record ''om_1'') demo_request 0]\<rparr>)"
  unfolding demo_marked_def mark_run_request_seen_cases demo_request_record
  by (simp add: mark_event_processed_def empty_store_def event_of_def Let_def sql_delete_def)

lemma demo_mark_again: "\<exists>st. mark_run_request_seen (\<lambda>s. s) dedupe_demo_env 86401 demo_marked demo_request = (st, Inr True)"
  unfolding demo_marked_rows mark_run_request_seen_cases demo_request_record
  by (simp add: mark_event_processed_def empty_store_def event_of_def Let_def demo_record_def tbl_get_Cons)

lemma demo_ran_again:
  "map ru_at (br_runs (demo_ran 2 86401 demo_first)) = [0, 86401]"
  "map ru_request (br_runs (demo_ran 2 86401 demo_first)) = [demo_request, demo_request]"
  using demo_mark_again
  by (auto simp: demo_ran_def [of 2] run_prepared_def demo_ran_init demo_prepared_def issue_prepared_def assert_policy_def demo_policy_def
      demo_broker_def Let_def)

theorem durable_request_admitted_once_witness:
  "\<exists>s x y. broker_reachable demo_broker 0 (Some empty_store) s \<and> br_runs s = [x, y] \<and> ru_request x = ru_request y
    \<and> ru_at x + min (dedupe_window (\<lambda>s. s) dedupe_demo_env (ru_request y)) 86400 < ru_at y \<and> ru_state x \<noteq> ru_state y"
proof -
  let ?s = "demo_ran 2 86401 demo_first"
  have "broker_reachable demo_broker 0 (Some empty_store) demo_first"
    unfolding demo_first_def
    by (rule demo_ran_reachable [OF broker_start]) (simp_all add: broker_init_def)
  then have r: "broker_reachable demo_broker 0 (Some empty_store) ?s"
    by (rule demo_ran_reachable) (simp_all add: demo_ran_init demo_prepared_def issue_prepared_def)
  have lib: "bl_mark demo_broker = mark_run_request_seen (\<lambda>s. s) dedupe_demo_env" "bl_other demo_broker = other_event"
    by (simp_all add: demo_broker_def)
  have ok: "store_ok (Some empty_store)" by (simp add: store_ok_def events_ok_def empty_store_def)
  obtain x y where xy: "br_runs ?s = [x, y]" using demo_ran_again(1) by (auto simp: map_eq_Cons_conv)
  then have rq: "ru_request x = demo_request" "ru_request y = demo_request" using demo_ran_again(2) by simp_all
  have "durable_key (\<lambda>s. s) dedupe_demo_env demo_request \<noteq> None" by (simp add: durable_key_def demo_request_record)
  with durable_request_admitted_once [OF r lib ok] xy rq r show ?thesis by (auto simp del: min_less_iff_disj)
qed

text \<open>The rows are pruned by the time-to-live of whoever marks next: with a time-to-live of two days for messages, a message
  processed at 0 is accepted again at 90001, because a record with the two hours of content keys was marked at 90000.\<close>

definition long_env :: dedupe_env where "long_env = dedupe_demo_env\<lparr>de_event_ttl := Some ''172800''\<rparr>"

lemma long_record: "run_request_dedupe_record H long_env demo_request = Some (demo_record ''om_1''\<lparr>dr_ttl := 172800\<rparr>)"
  by (simp add: run_request_dedupe_record_def demo_request_def long_env_def dedupe_demo_env_def demo_record_def Let_def str_or_empty_def strip_def
      is_space_def dedupe_env_int_def py_int_def)

lemma long_window_cut_short:
  "dedupe_window H long_env demo_request = 172800
    \<and> snd (mark_run_request_seen H long_env 90001
        (other_event 90000 (event_of (demo_record ''om_2'') demo_request 90000, 7200)
          (fst (mark_run_request_seen H long_env 0 (Some empty_store) demo_request))) demo_request) = Inr True"
  unfolding mark_run_request_seen_cases long_record dedupe_window_def
  by (simp add: mark_event_processed_def empty_store_def event_of_def Let_def demo_record_def tbl_get_Cons sql_delete_def other_event_def)

end
