(* ===== verification/Feishu_Tickets.thy ===== *)
theory Feishu_Tickets
  imports Routing_Table Push_Scenes
begin

text \<open>
  The tickets and admissions of the Feishu ingress: the signed ticket that an adapter callback issues
  (\<open>src/hermes_multitenancy/feishu_ingress_compat.py\<close>, \<open>TrustedFeishuIngressTicket\<close> and \<open>_TicketMethods\<close>), and the admission that
  binds it to one route and one credential (\<open>src/hermes_multitenancy/trusted_feishu_ingress.py\<close>). Two tables of the process are its
  state: the events claimed, and the last bot run of each chat; both are bounded and expire, by the same loop (locale
  \<open>expiring_slots\<close>). SHA-256 and the HMAC under the process key, both as hexadecimal digits, and the JSON writer are arguments.
  The clock is a rational number; a time of a ticket is a Python float.
\<close>

section \<open>Tickets\<close>

record ingress_lib =
  il_py :: pylib
  il_sha :: "string \<Rightarrow> string"
  il_mac :: "string \<Rightarrow> string"

text \<open>\<open>_feishu_value\<close>: a key of a dict or an attribute of an object, None when there is none.\<close>

definition feishu_value :: "json \<Rightarrow> string \<Rightarrow> json" where
  "feishu_value obj k = (case obj of JObj d \<Rightarrow> jget d k | _ \<Rightarrow> JNull)"

definition feishu_namespace :: "(string \<Rightarrow> string) \<Rightarrow> string \<Rightarrow> string" where
  "feishu_namespace H account_id = ''feishu:'' @ take 16 (H account_id)"

definition FEISHU_TRUSTED_INGRESS_TTL_SECONDS :: rat where "FEISHU_TRUSTED_INGRESS_TTL_SECONDS = 300"

text \<open>A ticket; \<open>tk_class\<close> is the identity of its class (\<open>type(ticket)\<close>).\<close>

record ticket =
  tk_class :: nat
  tk_version :: int
  tk_transport :: string
  tk_event_kind :: string
  tk_event_type :: string
  tk_event_key :: string
  tk_account_id :: string
  tk_namespace :: string
  tk_actor_id :: string
  tk_actor_id_type :: string
  tk_principal_kind :: string
  tk_chat_id :: string
  tk_thread_id :: string
  tk_message_id :: string
  tk_issued_at :: pyfloat
  tk_expires_at :: pyfloat
  tk_signature :: string

definition signed_fields :: "ticket \<Rightarrow> json list" where
  "signed_fields t =
     [JInt (tk_version t), JStr (tk_transport t), JStr (tk_event_kind t), JStr (tk_event_type t), JStr (tk_event_key t),
      JStr (tk_account_id t), JStr (tk_namespace t), JStr (tk_actor_id t), JStr (tk_actor_id_type t), JStr (tk_principal_kind t),
      JStr (tk_chat_id t), JStr (tk_thread_id t), JStr (tk_message_id t), JFloat (tk_issued_at t), JFloat (tk_expires_at t)]"

definition ticket_mac :: "ingress_lib \<Rightarrow> ticket \<Rightarrow> string" where
  "ticket_mac L t = il_mac L (dumps (il_py L) (JArr (signed_fields t)))"

text \<open>\<open>issue\<close>, as the adapter calls it: its arguments are the fields of \<open>t\<close> that it does not set.\<close>

definition issue_ticket :: "ingress_lib \<Rightarrow> rat \<Rightarrow> ticket \<Rightarrow> ticket" where
  "issue_ticket L now t =
     (let unsigned = t\<lparr>tk_version := 1, tk_issued_at := Finite now,
                       tk_expires_at := Finite (now + FEISHU_TRUSTED_INGRESS_TTL_SECONDS), tk_signature := []\<rparr>
      in unsigned\<lparr>tk_signature := ticket_mac L unsigned\<rparr>)"

text \<open>The test of the two times; a time that is not finite fails it.\<close>

definition lifetime_valid :: "rat \<Rightarrow> pyfloat \<Rightarrow> pyfloat \<Rightarrow> bool" where
  "lifetime_valid checked_at issued_at expires_at =
     (case (issued_at, expires_at) of
        (Finite i, Finite e) \<Rightarrow>
          \<not> (i > checked_at + 30 \<or> e - i \<le> 0 \<or> e - i > FEISHU_TRUSTED_INGRESS_TTL_SECONDS \<or> e \<le> checked_at)
      | _ \<Rightarrow> False)"

definition chat_kind :: "string \<Rightarrow> bool" where
  "chat_kind kind \<longleftrightarrow> kind \<in> set [''message'', ''reaction'', ''button'', ''form'']"

definition ticket_valid :: "ingress_lib \<Rightarrow> rat \<Rightarrow> string \<Rightarrow> ticket \<Rightarrow> bool" where
  "ticket_valid L now account_id t =
     (if tk_version t \<noteq> 1
         \<or> tk_account_id t \<noteq> account_id
         \<or> tk_namespace t \<noteq> feishu_namespace (il_sha L) account_id
         \<or> tk_transport t \<notin> set [''websocket'', ''webhook'']
         \<or> \<not> (chat_kind (tk_event_kind t) \<or> tk_event_kind t \<in> set [''comment'', ''vc''])
         \<or> tk_actor_id_type t \<notin> set [''open_id'', ''union_id'', ''user_id'']
         \<or> tk_principal_kind t \<notin> set [''human'', ''bot'', ''system'']
         \<or> tk_event_key t = []
         \<or> tk_actor_id t = []
         \<or> (chat_kind (tk_event_kind t) \<and> tk_chat_id t = [])
         \<or> \<not> lifetime_valid now (tk_issued_at t) (tk_expires_at t)
      then False
      else tk_signature t = ticket_mac L t)"

text \<open>\<open>_trusted_ingress_kind\<close>.\<close>

definition ingress_kind :: "string \<Rightarrow> json \<Rightarrow> string" where
  "ingress_kind event_type data =
     (if event_type = ''im.message.receive_v1'' then ''message''
      else if startswith event_type ''im.message.reaction.'' then ''reaction''
      else if event_type = ''card.action.trigger''
      then (let action = feishu_value (feishu_value data ''event'') ''action''
            in if feishu_value action ''form_value'' \<noteq> JNull then ''form'' else ''button'')
      else if event_type = ''drive.notice.comment_add_v1'' then ''comment''
      else ''vc'')"

text \<open>\<open>a or b\<close> on values, and \<open>str(x or "")\<close>.\<close>

definition j_or :: "json \<Rightarrow> json \<Rightarrow> json" where
  "j_or a b = (if truthy a then a else b)"

definition str_or :: "pylib \<Rightarrow> json \<Rightarrow> string" where
  "str_or P j = py_str P (j_or j (JStr []))"

text \<open>The actor of a callback: the first of its three identifiers that is there.\<close>

definition actor_value :: "json \<Rightarrow> string \<Rightarrow> json" where
  "actor_value event k =
     j_or (feishu_value (feishu_value (feishu_value event ''sender'') ''sender_id'') k)
       (j_or (feishu_value (feishu_value event ''user_id'') k) (feishu_value (feishu_value event ''operator'') k))"

definition callback_actor :: "pylib \<Rightarrow> json \<Rightarrow> string \<times> string" where
  "callback_actor P event =
     (case filter (\<lambda>k. truthy (actor_value event k)) [''open_id'', ''union_id'', ''user_id''] of
        [] \<Rightarrow> (''open_id'', [])
      | k # _ \<Rightarrow> (k, py_str P (actor_value event k)))"

definition callback_chat :: "pylib \<Rightarrow> string \<Rightarrow> json \<Rightarrow> string" where
  "callback_chat P trusted_chat_id event =
     str_or P (j_or (JStr trusted_chat_id) (j_or (feishu_value (feishu_value event ''message'') ''chat_id'')
       (j_or (feishu_value (feishu_value event ''context'') ''open_chat_id'') (feishu_value event ''chat_id''))))"

definition callback_thread :: "pylib \<Rightarrow> json \<Rightarrow> string" where
  "callback_thread P event =
     str_or P (j_or (feishu_value (feishu_value event ''message'') ''thread_id'')
       (j_or (feishu_value (feishu_value event ''message'') ''root_id'')
         (feishu_value (feishu_value event ''context'') ''open_thread_id'')))"

definition callback_message :: "pylib \<Rightarrow> json \<Rightarrow> string" where
  "callback_message P event =
     str_or P (j_or (feishu_value (feishu_value event ''message'') ''message_id'')
       (j_or (feishu_value event ''message_id'') (feishu_value (feishu_value event ''context'') ''open_message_id'')))"

definition callback_event_id :: "pylib \<Rightarrow> json \<Rightarrow> json \<Rightarrow> string" where
  "callback_event_id P header event =
     str_or P (j_or (feishu_value header ''event_id'') (j_or (feishu_value event ''event_id'') (feishu_value event ''token'')))"

definition callback_principal :: "pylib \<Rightarrow> json \<Rightarrow> string" where
  "callback_principal P event =
     (if lower (py_str P (j_or (feishu_value (feishu_value event ''sender'') ''sender_type'')
            (j_or (feishu_value event ''operator_type'') (JStr ''user'')))) \<in> set [''bot'', ''app'']
      then ''bot'' else ''human'')"

text \<open>
  \<open>_issue_trusted_ingress_ticket\<close>. A comment names its actor and its message differently; an event without an identifier
  takes a hash of what it acts on.
\<close>

definition issue_trusted_ingress_ticket ::
    "ingress_lib \<Rightarrow> nat \<Rightarrow> rat \<Rightarrow> string \<Rightarrow> string \<Rightarrow> json \<Rightarrow> string \<Rightarrow> string \<Rightarrow> ticket option" where
  "issue_trusted_ingress_ticket L class now account_id event_type data transport trusted_chat_id =
     (let P = il_py L; event = feishu_value data ''event''; kind = ingress_kind event_type data;
          action = feishu_value event ''action''; comment = (kind = ''comment'');
          meta_user = feishu_value (feishu_value event ''notice_meta'') ''from_user_id'';
          actor_id_type = (if comment then ''open_id'' else fst (callback_actor P event));
          actor_id = (if comment then py_str P (j_or (feishu_value meta_user ''open_id'') (JStr (snd (callback_actor P event))))
                      else snd (callback_actor P event));
          message_id = (if comment then py_str P (j_or (feishu_value event ''reply_id'') (j_or (feishu_value event ''comment_id'')
                          (JStr (callback_message P event)))) else callback_message P event);
          event_id0 = callback_event_id P (feishu_value data ''header'') event;
          action_name = str_or P (j_or (feishu_value action ''name'') (feishu_value action ''tag''));
          event_id = (if event_id0 = [] \<and> message_id \<noteq> []
                      then il_sha L (join_sep (CHR 0x1F) [event_type, message_id, actor_id, action_name]) else event_id0)
      in if account_id = [] \<or> actor_id = [] \<or> event_id = [] then None
         else Some (issue_ticket L now
                \<lparr>tk_class = class, tk_version = 1, tk_transport = transport, tk_event_kind = kind, tk_event_type = event_type,
                 tk_event_key = event_id, tk_account_id = account_id, tk_namespace = feishu_namespace (il_sha L) account_id,
                 tk_actor_id = actor_id, tk_actor_id_type = actor_id_type, tk_principal_kind = callback_principal P event,
                 tk_chat_id = callback_chat P trusted_chat_id event, tk_thread_id = callback_thread P event,
                 tk_message_id = message_id, tk_issued_at = Finite 0, tk_expires_at = Finite 0, tk_signature = []\<rparr>))"

section \<open>The tables of claims\<close>

definition SEEN_TTL_SECONDS :: rat where "SEEN_TTL_SECONDS = 15 * 60"
definition SEEN_MAX :: nat where "SEEN_MAX = 4096"
definition TICKET_MAX_AGE_SECONDS :: rat where "TICKET_MAX_AGE_SECONDS = 300"
definition TICKET_CLOCK_SKEW_SECONDS :: rat where "TICKET_CLOCK_SKEW_SECONDS = 30"
definition BOT_MIN_INTERVAL_SECONDS :: rat where "BOT_MIN_INTERVAL_SECONDS = 30"
definition BOT_ADMIT_TTL_SECONDS :: rat where "BOT_ADMIT_TTL_SECONDS = 15 * 60"
definition BOT_ADMIT_MAX :: nat where "BOT_ADMIT_MAX = 1024"

text \<open>An ordered dict of times. The loop that drops its oldest entries stops at a young one once there is room.\<close>

fun drop_oldest :: "rat \<Rightarrow> nat \<Rightarrow> rat \<Rightarrow> ('k \<times> rat) list \<Rightarrow> ('k \<times> rat) list" where
  "drop_oldest ttl mx now [] = []"
| "drop_oldest ttl mx now (e # d) =
     (if now - snd e \<le> ttl \<and> length (e # d) < mx then e # d else drop_oldest ttl mx now d)"

text \<open>\<open>d.move_to_end(k)\<close> after an assignment to the key.\<close>

definition set_at_end :: "'k \<Rightarrow> 'v \<Rightarrow> ('k \<times> 'v) list \<Rightarrow> ('k \<times> 'v) list" where
  "set_at_end k v d = filter (\<lambda>e. fst e \<noteq> k) d @ [(k, v)]"

type_synonym claims = "((string \<times> string) \<times> rat) list"

definition claim_once :: "rat \<Rightarrow> string \<times> string \<Rightarrow> claims \<Rightarrow> bool \<times> claims" where
  "claim_once now key seen =
     (let d = drop_oldest SEEN_TTL_SECONDS SEEN_MAX now seen
      in if map_of d key \<noteq> None then (False, d) else (True, dict_set key now d))"

type_synonym bot_slots = "(string \<times> rat) list"

definition bot_throttle_claim :: "rat \<Rightarrow> string \<Rightarrow> bot_slots \<Rightarrow> bool \<times> bot_slots" where
  "bot_throttle_claim now chat_id slots =
     (let d = drop_oldest BOT_ADMIT_TTL_SECONDS BOT_ADMIT_MAX now slots
      in case map_of d chat_id of
           Some claimed \<Rightarrow> if now - claimed < BOT_MIN_INTERVAL_SECONDS then (False, d) else (True, set_at_end chat_id now d)
         | None \<Rightarrow> (True, set_at_end chat_id now d))"

section \<open>Admission\<close>

record admission =
  am_profile_name :: string
  am_route_version :: int
  am_actor_id :: string
  am_actor_id_type :: string
  am_actor_subject :: string
  am_chat_type :: string
  am_chat_id :: string
  am_message_id :: string
  am_credential_subject :: string
  am_tool_scope :: string
  am_ticket_fingerprint :: string
  am_actor_kind :: string
  am_authentic :: bool

text \<open>An adapter: its app, its own identities, and the ticket class in the globals of its issuer (None: it has none).\<close>

record feishu_adapter =
  fa_app_id :: string
  fa_bot_open_id :: string
  fa_bot_user_id :: string
  fa_issuer_class :: "nat option"

text \<open>
  What an admission reads of its process: the clock, the routing table (None: there is none), which profiles have a home
  directory, and the ticket class of the loaded Feishu module.
\<close>

record ingress_world =
  iw_now :: rat
  iw_table :: "routes option"
  iw_home_is_dir :: "string \<Rightarrow> bool"
  iw_module_class :: "nat option"

record ingress_state =
  ig_seen :: claims
  ig_bot_last :: bot_slots

definition fingerprint :: "(string \<Rightarrow> string) \<Rightarrow> string \<Rightarrow> string" where
  "fingerprint H value = take 16 (H value)"

definition ticket_fingerprint :: "(string \<Rightarrow> string) \<Rightarrow> ticket \<Rightarrow> string" where
  "ticket_fingerprint H t = fingerprint H (tk_namespace t @ CHR 0x1F # tk_event_key t @ CHR 0x1F # tk_signature t)"

definition ticket_type_for_adapter :: "ingress_world \<Rightarrow> feishu_adapter \<Rightarrow> nat option" where
  "ticket_type_for_adapter w a = (case fa_issuer_class a of Some c \<Rightarrow> Some c | None \<Rightarrow> iw_module_class w)"

definition ticket_is_fresh :: "rat \<Rightarrow> ticket \<Rightarrow> bool" where
  "ticket_is_fresh checked_at t =
     (case (tk_issued_at t, tk_expires_at t) of
        (Finite i, Finite e) \<Rightarrow>
          i \<le> checked_at + TICKET_CLOCK_SKEW_SECONDS
          \<and> checked_at - i \<le> TICKET_MAX_AGE_SECONDS
          \<and> 0 < e - i \<and> e - i \<le> TICKET_MAX_AGE_SECONDS
          \<and> e > checked_at
      | _ \<Rightarrow> False)"

definition actor_row_of :: "routes \<Rightarrow> ticket \<Rightarrow> routing_row option" where
  "actor_row_of table t =
     (if tk_actor_id_type t = ''open_id'' then lookup_by_open_id table (tk_actor_id t)
      else if tk_actor_id_type t = ''union_id'' then lookup_by_union_id table (tk_actor_id t)
      else if tk_actor_id_type t = ''user_id'' then lookup_by_user_id table (tk_actor_id t)
      else None)"

text \<open>\<open>_resolve_ticket_context\<close>: the context, the credential subject and the actor's subject.\<close>

definition resolve_ticket_context :: "routes \<Rightarrow> ticket \<Rightarrow> (tenant_context \<times> string \<times> string) option" where
  "resolve_ticket_context table t =
     (case actor_row_of table t of
        None \<Rightarrow> None
      | Some row \<Rightarrow>
          if r_kind row \<noteq> KIND_USER \<or> str_or_empty (r_open_id row) = [] then None
          else (case resolve_context table (Some (tk_actor_id t)) (Some (tk_actor_id t)) None of
                  None \<Rightarrow> None
                | Some actor_context \<Rightarrow>
                    if tc_profile_name actor_context \<noteq> r_profile_name row then None
                    else if tk_actor_id_type t = ''open_id'' \<and> r_open_id row \<noteq> Some (tk_actor_id t) then None
                    else if tk_actor_id_type t = ''union_id'' \<and> r_union_id row \<noteq> Some (tk_actor_id t) then None
                    else if tk_actor_id_type t = ''user_id'' \<and> r_user_id row \<noteq> tk_actor_id t then None
                    else (case (if tk_chat_id t \<noteq> [] then lookup_by_chat_id table (tk_chat_id t) else None) of
                            Some group_row \<Rightarrow>
                              (case resolve_context table (Some (tk_actor_id t)) (Some (tk_actor_id t)) (Some (tk_chat_id t)) of
                                 None \<Rightarrow> None
                               | Some context \<Rightarrow>
                                   if \<not> is_group context \<or> tc_profile_name context \<noteq> r_profile_name group_row then None
                                   else Some (context, tk_account_id t, str_or_empty (r_open_id row)))
                          | None \<Rightarrow> Some (actor_context, str_or_empty (r_open_id row), str_or_empty (r_open_id row)))))"

definition bot_actor_subject :: "ticket \<Rightarrow> string" where
  "bot_actor_subject t = (let actor = strip (tk_actor_id t) in if actor \<noteq> [] then ''bot:'' @ actor else ''bot:unknown'')"

definition admit_bot_ticket ::
    "ingress_lib \<Rightarrow> ingress_world \<Rightarrow> string list \<Rightarrow> string \<Rightarrow> ticket \<Rightarrow> ingress_state \<Rightarrow> admission option \<times> ingress_state" where
  "admit_bot_ticket L w self_ids account_id t s =
     (let chat_id = tk_chat_id t; actor = strip (tk_actor_id t)
      in if tk_event_kind t \<noteq> ''message'' then (None, s)
         else if actor \<noteq> [] \<and> actor \<in> set self_ids then (None, s)
         else (case iw_table w of
                 None \<Rightarrow> (None, s)
               | Some table \<Rightarrow>
                   (case (if chat_id \<noteq> [] then lookup_by_chat_id table chat_id else None) of
                      None \<Rightarrow> (None, s)
                    | Some row \<Rightarrow>
                        if \<not> r_active row \<or> r_kind row \<noteq> KIND_GROUP then (None, s)
                        else if \<not> iw_home_is_dir w (r_profile_name row) then (None, s)
                        else (case bot_throttle_claim (iw_now w) chat_id (ig_bot_last s) of
                                (False, slots) \<Rightarrow> (None, s\<lparr>ig_bot_last := slots\<rparr>)
                              | (True, slots) \<Rightarrow>
                                  (case claim_once (iw_now w) (tk_namespace t, tk_event_key t) (ig_seen s) of
                                     (False, seen) \<Rightarrow> (None, s\<lparr>ig_bot_last := slots, ig_seen := seen\<rparr>)
                                   | (True, seen) \<Rightarrow>
                                       (Some \<lparr>am_profile_name = r_profile_name row, am_route_version = r_version row,
                                          am_actor_id = tk_actor_id t, am_actor_id_type = tk_actor_id_type t,
                                          am_actor_subject = bot_actor_subject t, am_chat_type = ''group'', am_chat_id = chat_id,
                                          am_message_id = tk_message_id t, am_credential_subject = account_id,
                                          am_tool_scope = ''feishu:bot'', am_ticket_fingerprint = ticket_fingerprint (il_sha L) t,
                                          am_actor_kind = ''bot'', am_authentic = True\<rparr>,
                                        s\<lparr>ig_bot_last := slots, ig_seen := seen\<rparr>))))))"

definition self_ids :: "feishu_adapter \<Rightarrow> string list" where
  "self_ids a = filter (\<lambda>v. v \<noteq> []) [fa_bot_open_id a, fa_bot_user_id a, fa_app_id a]"

definition admit_human_ticket ::
    "ingress_lib \<Rightarrow> ingress_world \<Rightarrow> ticket \<Rightarrow> ingress_state \<Rightarrow> admission option \<times> ingress_state" where
  "admit_human_ticket L w t s =
     (case iw_table w of
        None \<Rightarrow> (None, s)
      | Some table \<Rightarrow>
          (case resolve_ticket_context table t of
             None \<Rightarrow> (None, s)
           | Some (context, credential_subject, actor_subject) \<Rightarrow>
               if \<not> iw_home_is_dir w (tc_profile_name context) then (None, s)
               else (case claim_once (iw_now w) (tk_namespace t, tk_event_key t) (ig_seen s) of
                       (False, seen) \<Rightarrow> (None, s\<lparr>ig_seen := seen\<rparr>)
                     | (True, seen) \<Rightarrow>
                         (Some \<lparr>am_profile_name = tc_profile_name context, am_route_version = tc_route_version context,
                            am_actor_id = tk_actor_id t, am_actor_id_type = tk_actor_id_type t, am_actor_subject = actor_subject,
                            am_chat_type = (if is_group context then ''group'' else ''p2p''), am_chat_id = tk_chat_id t,
                            am_message_id = tk_message_id t, am_credential_subject = credential_subject,
                            am_tool_scope = (if is_group context then ''feishu:bot'' else ''feishu:user''),
                            am_ticket_fingerprint = ticket_fingerprint (il_sha L) t,
                            am_actor_kind = ''user'', am_authentic = True\<rparr>,
                          s\<lparr>ig_seen := seen\<rparr>))))"

definition admit_trusted_feishu_ingress ::
    "ingress_lib \<Rightarrow> ingress_world \<Rightarrow> feishu_adapter \<Rightarrow> ticket \<Rightarrow> ingress_state \<Rightarrow> admission option \<times> ingress_state" where
  "admit_trusted_feishu_ingress L w a t s =
     (if ticket_type_for_adapter w a \<noteq> Some (tk_class t) then (None, s)
      else if \<not> ticket_valid L (iw_now w) (fa_app_id a) t \<or> \<not> ticket_is_fresh (iw_now w) t then (None, s)
      else if tk_event_kind t \<in> set [''comment'', ''vc''] then (None, s)
      else if tk_principal_kind t = ''bot'' then admit_bot_ticket L w (self_ids a) (fa_app_id a) t s
      else if tk_principal_kind t \<noteq> ''human'' then (None, s)
      else admit_human_ticket L w t s)"

section \<open>Expiring slots\<close>

text \<open>\<open>recent d k t n\<close>: the entry of \<open>k\<close> is the one set at \<open>t\<close>, and at most \<open>n\<close> entries are younger.\<close>

definition recent :: "('k \<times> rat) list \<Rightarrow> 'k \<Rightarrow> rat \<Rightarrow> nat \<Rightarrow> bool" where
  "recent d k t n \<longleftrightarrow> (\<exists>pre post. d = pre @ (k, t) # post \<and> k \<notin> fst ` set pre \<and> length post \<le> n)"

lemma recent_lookup: "recent d k t n \<Longrightarrow> map_of d k = Some t"
  by (auto simp: recent_def map_add_def split: option.splits dest: map_of_SomeD)
     (metis fst_conv image_eqI map_of_SomeD)

lemma recent_mono: "recent d k t n \<Longrightarrow> n \<le> m \<Longrightarrow> recent d k t m"
  unfolding recent_def using le_trans by blast

lemma recent_drop_oldest:
  assumes "recent d k t n" "now - t \<le> ttl" "Suc n < mx"
  shows "recent (drop_oldest ttl mx now d) k t n"
proof -
  obtain pre post where d: "d = pre @ (k, t) # post" "k \<notin> fst ` set pre" "length post \<le> n"
    using assms(1) by (auto simp: recent_def)
  have "recent (drop_oldest ttl mx now (pre @ (k, t) # post)) k t n"
    using d(2)
  proof (induction pre)
    case Nil
    have "length post + 1 < mx" using d(3) assms(3) by simp
    with assms(2) d(3) show ?case by (auto simp: recent_def intro: exI [of _ "[]"])
  next
    case (Cons e pre)
    show ?case
    proof (cases "now - snd e \<le> ttl \<and> length (e # pre @ (k, t) # post) < mx")
      case True
      then have "drop_oldest ttl mx now ((e # pre) @ (k, t) # post) = (e # pre) @ (k, t) # post" by simp
      then show ?thesis unfolding recent_def using Cons.prems d(3) by blast
    next
      case False
      then have "drop_oldest ttl mx now ((e # pre) @ (k, t) # post) = drop_oldest ttl mx now (pre @ (k, t) # post)"
        by (simp only: drop_oldest.simps append_Cons if_False)
      with Cons show ?thesis by simp
    qed
  qed
  with d(1) show ?thesis by simp
qed

lemma recent_set_other: "recent d k t n \<Longrightarrow> j \<noteq> k \<Longrightarrow> recent (set_at_end j v d) k t (Suc n)"
proof -
  assume r: "recent d k t n" and j: "j \<noteq> k"
  let ?f = "filter (\<lambda>e. fst e \<noteq> j)"
  obtain pre post where d: "d = pre @ (k, t) # post" "k \<notin> fst ` set pre" "length post \<le> n"
    using r by (auto simp: recent_def)
  have "set_at_end j v d = ?f pre @ (k, t) # (?f post @ [(j, v)])"
    using j by (simp add: set_at_end_def d(1))
  moreover have "k \<notin> fst ` set (?f pre)" using d(2) by auto
  moreover have "length (?f post @ [(j, v)]) \<le> Suc n"
    using d(3) le_trans [OF length_filter_le d(3)] by simp
  ultimately show ?thesis unfolding recent_def by blast
qed

lemma recent_set: "recent (set_at_end k t d) k t 0"
  by (auto simp: recent_def set_at_end_def)

text \<open>
  A bounded table of slots. A claim first drops the oldest entries, and is refused while the slot is \<open>held\<close>: a test of the
  time since it was claimed. A granted claim makes the slot the youngest.
\<close>

locale expiring_slots =
  fixes claim :: "rat \<Rightarrow> 'k \<Rightarrow> ('k \<times> rat) list \<Rightarrow> bool \<times> ('k \<times> rat) list"
    and ttl :: rat
    and mx :: nat
    and held :: "rat \<Rightarrow> bool"
  assumes granted: "claim now k d = (True, d') \<Longrightarrow> d' = set_at_end k now (drop_oldest ttl mx now d)"
    and refused: "claim now k d = (False, d') \<Longrightarrow> d' = drop_oldest ttl mx now d"
    and held_refuses: "map_of (drop_oldest ttl mx now d) k = Some t \<Longrightarrow> held (now - t) \<Longrightarrow> \<not> fst (claim now k d)"
begin

lemma granted_recent: "claim now k d = (True, d') \<Longrightarrow> recent d' k now 0"
  using recent_set granted by metis

lemma recent_refuses:
  assumes "recent d k t n" "now - t \<le> ttl" "Suc n < mx" "held (now - t)"
  shows "\<not> fst (claim now k d)"
  using held_refuses recent_lookup [OF recent_drop_oldest [OF assms(1-3)]] assms(4) by blast

lemma recent_claim:
  assumes "recent d k t n" "now - t \<le> ttl" "Suc n < mx" "held (now - t)"
  shows "recent (snd (claim now j d)) k t (Suc n)"
proof -
  note kept = recent_drop_oldest [OF assms(1-3)]
  obtain ok d' where c: "claim now j d = (ok, d')" by fastforce
  show ?thesis
  proof (cases ok)
    case True
    then have "j \<noteq> k" using recent_refuses [OF assms] c by auto
    with recent_set_other [OF kept] granted [of now j d d'] c True show ?thesis by simp
  next
    case False
    with refused [of now j d d'] c kept recent_mono [OF kept] show ?thesis by simp
  qed
qed

text \<open>Over a sequence of calls that each leave the table alone or make one claim.\<close>

lemma recent_run:
  assumes step: "\<And>c s. proj (snd (step c s)) = proj s \<or> (\<exists>j. proj (snd (step c s)) = snd (claim (time c) j (proj s)))"
    and "recent (proj s) k t n" "n + length cs < mx"
    and "\<And>c. c \<in> set cs \<Longrightarrow> time c - t \<le> ttl \<and> held (time c - t)"
  shows "recent (proj (foldl (\<lambda>s c. snd (step c s)) s cs)) k t (n + length cs)"
  using assms(2-)
proof (induction cs arbitrary: s n)
  case (Cons c cs)
  have c: "time c - t \<le> ttl" "held (time c - t)" using Cons.prems(3) by simp_all
  have "recent (proj (snd (step c s))) k t (Suc n)"
    using step [of c s] recent_claim [OF Cons.prems(1) c(1) _ c(2)] recent_mono [OF Cons.prems(1)] Cons.prems(2) by auto
  from Cons.IH [OF this] Cons.prems show ?case by simp
qed simp

end

lemma dict_set_absent: "map_of d k = None \<Longrightarrow> dict_set k v d = set_at_end k v d"
  by (induction d) (auto simp: set_at_end_def split: if_splits)

interpretation seen_slots: expiring_slots claim_once SEEN_TTL_SECONDS SEEN_MAX "\<lambda>_. True"
  by unfold_locales (auto simp: claim_once_def Let_def dict_set_absent split: if_splits)

interpretation bot_slots: expiring_slots bot_throttle_claim BOT_ADMIT_TTL_SECONDS BOT_ADMIT_MAX "\<lambda>e. e < BOT_MIN_INTERVAL_SECONDS"
  by unfold_locales (auto simp: bot_throttle_claim_def Let_def split: if_splits option.splits)

section \<open>Admission\<close>

record ingress_call =
  ic_world :: ingress_world
  ic_adapter :: feishu_adapter
  ic_ticket :: ticket

definition admit_call :: "ingress_lib \<Rightarrow> ingress_call \<Rightarrow> ingress_state \<Rightarrow> admission option \<times> ingress_state" where
  "admit_call L c s = admit_trusted_feishu_ingress L (ic_world c) (ic_adapter c) (ic_ticket c) s"

abbreviation call_time :: "ingress_call \<Rightarrow> rat" where "call_time c \<equiv> iw_now (ic_world c)"

definition admit_all :: "ingress_lib \<Rightarrow> ingress_call list \<Rightarrow> ingress_state \<Rightarrow> ingress_state" where
  "admit_all L cs s = foldl (\<lambda>s c. snd (admit_call L c s)) s cs"

definition ticket_key :: "ticket \<Rightarrow> string \<times> string" where
  "ticket_key t = (tk_namespace t, tk_event_key t)"

lemmas admit_defs = admit_trusted_feishu_ingress_def admit_bot_ticket_def admit_human_ticket_def Let_def

lemma admit_seen:
  "ig_seen (snd (admit_call L c s)) = ig_seen s
     \<or> (\<exists>j. ig_seen (snd (admit_call L c s)) = snd (claim_once (call_time c) j (ig_seen s)))"
proof -
  have "ig_seen (snd (admit_trusted_feishu_ingress L w a t s)) \<in>
      {ig_seen s, snd (claim_once (iw_now w) (tk_namespace t, tk_event_key t) (ig_seen s))}" for w a t
    by (simp add: admit_defs split: option.split prod.split bool.split)
  then show ?thesis unfolding admit_call_def by blast
qed

lemma admit_slots:
  "ig_bot_last (snd (admit_call L c s)) = ig_bot_last s
     \<or> (\<exists>j. ig_bot_last (snd (admit_call L c s)) = snd (bot_throttle_claim (call_time c) j (ig_bot_last s)))"
proof -
  have "ig_bot_last (snd (admit_trusted_feishu_ingress L w a t s)) \<in>
      {ig_bot_last s, snd (bot_throttle_claim (iw_now w) (tk_chat_id t) (ig_bot_last s))}" for w a t
    by (simp add: admit_defs split: option.split prod.split bool.split)
  then show ?thesis unfolding admit_call_def by blast
qed

lemma admitted_claims:
  assumes "admit_call L c s = (Some a, s')"
  shows "claim_once (call_time c) (ticket_key (ic_ticket c)) (ig_seen s) = (True, ig_seen s')"
  using assms unfolding admit_call_def ticket_key_def
  by (auto simp: admit_defs split: option.splits prod.splits bool.splits if_splits)

lemma bot_admitted_claims:
  assumes "admit_call L c s = (Some a, s')" "am_actor_kind a = ''bot''"
  shows "bot_throttle_claim (call_time c) (am_chat_id a) (ig_bot_last s) = (True, ig_bot_last s')"
  using assms unfolding admit_call_def
  by (auto simp: admit_defs split: option.splits prod.splits bool.splits if_splits)

text \<open>What the context of a ticket rests on: the sender's own active employee row, and the chat's active group if it has one.\<close>

lemma actor_row_of_sound:
  assumes "actor_row_of table t = Some r" "r_kind r = KIND_USER"
  shows "r \<in> set table \<and> r_active r"
  using assms unfolding actor_row_of_def lookup_by_open_id_def lookup_by_union_id_def lookup_by_user_id_def
  by (auto dest!: fetch_unique_mem fetchone_Some_mem split: if_splits)

lemma context_row:
  assumes "resolve_context table sender alt chat = Some c"
  shows "\<exists>q \<in> set table. r_active q \<and> tc_profile_name c = r_profile_name q \<and> tc_route_version c = r_version q
    \<and> tc_kind c = r_kind q"
  using resolve_context_sound [OF assms] by metis

lemma chat_context:
  assumes "lookup_by_chat_id table chat = Some g" "chat \<noteq> []"
  shows "\<exists>c. resolve_context table sender alt (Some chat) = Some c \<and> tc_profile_name c = r_profile_name g
    \<and> tc_route_version c = r_version g \<and> is_group c"
proof -
  have "r_active g" "r_kind g = KIND_GROUP"
    using assms(1) by (auto simp: lookup_by_chat_id_def dest!: fetch_unique_mem)
  with assms show ?thesis by (simp add: resolve_context_def Let_def str_or_empty_def is_group_def)
qed

definition alias_of :: "ticket \<Rightarrow> routing_row \<Rightarrow> bool" where
  "alias_of t r \<longleftrightarrow> (tk_actor_id_type t = ''open_id'' \<and> r_open_id r = Some (tk_actor_id t))
     \<or> (tk_actor_id_type t = ''union_id'' \<and> r_union_id r = Some (tk_actor_id t))
     \<or> (tk_actor_id_type t = ''user_id'' \<and> r_user_id r = tk_actor_id t)"

lemma resolve_ticket_context_sound:
  assumes "resolve_ticket_context table t = Some (c, cred, subj)"
  shows "\<exists>r \<in> set table. active_user r \<and> alias_of t r \<and> r_open_id r = Some subj \<and> subj \<noteq> []
    \<and> (\<exists>q \<in> set table. r_active q \<and> tc_profile_name c = r_profile_name q \<and> tc_route_version c = r_version q)
    \<and> (if tk_chat_id t \<noteq> [] \<and> lookup_by_chat_id table (tk_chat_id t) \<noteq> None
       then is_group c \<and> cred = tk_account_id t
         \<and> (\<exists>g. lookup_by_chat_id table (tk_chat_id t) = Some g \<and> tc_profile_name c = r_profile_name g \<and> tc_route_version c = r_version g)
       else cred = subj \<and> tc_profile_name c = r_profile_name r)"
proof -
  obtain r where r: "actor_row_of table t = Some r" "r_kind r = KIND_USER" "str_or_empty (r_open_id r) \<noteq> []"
    using assms by (auto simp: resolve_ticket_context_def split: option.splits if_splits)
  have ty: "tk_actor_id_type t \<in> {''open_id'', ''union_id'', ''user_id''}"
    using r(1) by (auto simp: actor_row_of_def split: if_splits)
  obtain ac where ac: "resolve_context table (Some (tk_actor_id t)) (Some (tk_actor_id t)) None = Some ac"
      "tc_profile_name ac = r_profile_name r" and al: "alias_of t r"
    using assms r ty by (auto simp: resolve_ticket_context_def alias_of_def split: option.splits if_splits)
  note ty' = al [unfolded alias_of_def]
  let ?g = "if tk_chat_id t \<noteq> [] then lookup_by_chat_id table (tk_chat_id t) else None"
  have step: "resolve_ticket_context table t = (case ?g of
      Some g \<Rightarrow> (case resolve_context table (Some (tk_actor_id t)) (Some (tk_actor_id t)) (Some (tk_chat_id t)) of None \<Rightarrow> None
        | Some c \<Rightarrow> if \<not> is_group c \<or> tc_profile_name c \<noteq> r_profile_name g then None else Some (c, tk_account_id t, str_or_empty (r_open_id r)))
    | None \<Rightarrow> Some (ac, str_or_empty (r_open_id r), str_or_empty (r_open_id r)))"
    using ty' r ac by (auto simp: resolve_ticket_context_def)
  have subj: "subj = str_or_empty (r_open_id r)" using assms step by (auto split: option.splits if_splits)
  have ro: "r_open_id r = Some subj" using r(3) subj by (auto simp: str_or_empty_def split: option.splits)
  have rest: "(\<exists>q \<in> set table. r_active q \<and> tc_profile_name c = r_profile_name q \<and> tc_route_version c = r_version q)
    \<and> (if tk_chat_id t \<noteq> [] \<and> lookup_by_chat_id table (tk_chat_id t) \<noteq> None
       then is_group c \<and> cred = tk_account_id t
         \<and> (\<exists>g. lookup_by_chat_id table (tk_chat_id t) = Some g \<and> tc_profile_name c = r_profile_name g \<and> tc_route_version c = r_version g)
       else cred = subj \<and> tc_profile_name c = r_profile_name r)"
  proof (cases ?g)
    case None
    then have "c = ac" "cred = subj" using assms step subj by simp_all
    with None context_row [OF ac(1)] ac(2) show ?thesis by (auto split: if_splits)
  next
    case (Some g)
    then have g: "tk_chat_id t \<noteq> []" "lookup_by_chat_id table (tk_chat_id t) = Some g" by (simp_all split: if_splits)
    obtain c' where c': "resolve_context table (Some (tk_actor_id t)) (Some (tk_actor_id t)) (Some (tk_chat_id t)) = Some c'"
        "tc_profile_name c' = r_profile_name g" "tc_route_version c' = r_version g" "is_group c'"
      using chat_context [OF g(2,1)] by blast
    then have "c = c'" "cred = tk_account_id t" using assms step Some by simp_all
    with c' g context_row [OF c'(1)] show ?thesis by auto
  qed
  have mem: "r \<in> set table" and act: "active_user r" using actor_row_of_sound [OF r(1,2)] r(2) by simp_all
  have "subj \<noteq> []" using r(3) subj by simp
  then show ?thesis by (intro bexI [OF _ mem] conjI act al ro rest [THEN conjunct1] rest [THEN conjunct2])
qed

section \<open>What a ticket is worth\<close>

lemma issued_times:
  "tk_issued_at (issue_ticket L now u) = Finite now" "tk_expires_at (issue_ticket L now u) = Finite (now + 300)"
  "tk_version (issue_ticket L now u) = 1" "signed_fields (u\<lparr>tk_signature := s\<rparr>) = signed_fields u"
  by (simp_all add: issue_ticket_def Let_def FEISHU_TRUSTED_INGRESS_TTL_SECONDS_def signed_fields_def)

lemma issued_signature: "tk_signature (issue_ticket L now u) = ticket_mac L (issue_ticket L now u)"
  by (simp add: issue_ticket_def Let_def ticket_mac_def issued_times(4))

lemma signed_fields_inj:
  assumes "signed_fields t = signed_fields u" "tk_signature t = tk_signature u"
  shows "t = u\<lparr>tk_class := tk_class t\<rparr>"
  using assms by (cases t; cases u) (simp add: signed_fields_def)

lemma valid_is_fresh: "ticket_valid L now account t \<Longrightarrow> ticket_is_fresh now t"
  unfolding ticket_valid_def ticket_is_fresh_def lifetime_valid_def FEISHU_TRUSTED_INGRESS_TTL_SECONDS_def
    TICKET_MAX_AGE_SECONDS_def TICKET_CLOCK_SKEW_SECONDS_def
  by (auto split: if_splits pyfloat.splits)

lemma if_None_Some: "(if C then None else Some x) = Some t \<longleftrightarrow> \<not> C \<and> t = x"
  by auto

lemma issue_Some:
  assumes "issue_trusted_ingress_ticket L class now account event_type data transport chat = Some t"
  shows "\<exists>u. t = issue_ticket L now u \<and> tk_transport u = transport \<and> tk_account_id u = account \<and> tk_class u = class
    \<and> tk_namespace u = feishu_namespace (il_sha L) account \<and> tk_event_kind u = ingress_kind event_type data
    \<and> tk_actor_id u \<noteq> [] \<and> tk_event_key u \<noteq> [] \<and> tk_actor_id_type u \<in> set [''open_id'', ''union_id'', ''user_id'']
    \<and> tk_principal_kind u \<in> set [''human'', ''bot'']"
proof -
  have ty: "fst (callback_actor P e) \<in> set [''open_id'', ''union_id'', ''user_id'']" for P e
    by (simp add: callback_actor_def)
  have pk: "callback_principal P e \<in> set [''human'', ''bot'']" for P e by (simp add: callback_principal_def)
  note a = assms [unfolded issue_trusted_ingress_ticket_def Let_def if_None_Some]
  show ?thesis
    by (intro exI conjI, rule conjunct2 [OF a]) (use a ty pk in simp_all)
qed

lemma ticket_valid_iff:
  "ticket_valid L now account t \<longleftrightarrow> tk_version t = 1 \<and> account = tk_account_id t
     \<and> tk_namespace t = feishu_namespace (il_sha L) account \<and> tk_transport t \<in> set [''websocket'', ''webhook'']
     \<and> (chat_kind (tk_event_kind t) \<or> tk_event_kind t \<in> set [''comment'', ''vc''])
     \<and> tk_actor_id_type t \<in> set [''open_id'', ''union_id'', ''user_id'']
     \<and> tk_principal_kind t \<in> set [''human'', ''bot'', ''system''] \<and> tk_event_key t \<noteq> [] \<and> tk_actor_id t \<noteq> []
     \<and> (chat_kind (tk_event_kind t) \<longrightarrow> tk_chat_id t \<noteq> [])
     \<and> lifetime_valid now (tk_issued_at t) (tk_expires_at t) \<and> tk_signature t = ticket_mac L t"
  unfolding ticket_valid_def by (simp only: if_False if_True simp_thms de_Morgan_disj de_Morgan_conj not_not if_cancel split: if_split) blast

lemma kind_known: "chat_kind (ingress_kind event_type data) \<or> ingress_kind event_type data \<in> set [''comment'', ''vc'']"
  by (simp add: ingress_kind_def chat_kind_def Let_def)

lemma issue_fields:
  "tk_transport (issue_ticket L now u) = tk_transport u" "tk_account_id (issue_ticket L now u) = tk_account_id u"
  "tk_namespace (issue_ticket L now u) = tk_namespace u" "tk_event_kind (issue_ticket L now u) = tk_event_kind u"
  "tk_actor_id (issue_ticket L now u) = tk_actor_id u" "tk_event_key (issue_ticket L now u) = tk_event_key u"
  "tk_actor_id_type (issue_ticket L now u) = tk_actor_id_type u" "tk_chat_id (issue_ticket L now u) = tk_chat_id u"
  "tk_principal_kind (issue_ticket L now u) = tk_principal_kind u" "tk_class (issue_ticket L now u) = tk_class u"
  by (simp_all add: issue_ticket_def Let_def)

text \<open>A ticket that a callback issues is accepted by its own account, and by no other, exactly from 30 seconds before
  to 300 seconds after its issue, and only if it names a chat wherever the event has one; the freshness test of the admission
  refuses nothing that the ticket's own test accepts.\<close>

lemma issued_ticket_lives:
  assumes "issue_trusted_ingress_ticket L class now account event_type data transport chat = Some t"
    and "transport \<in> set [''websocket'', ''webhook'']"
  shows "(ticket_valid L later owner t \<longleftrightarrow> owner = account \<and> now - 30 \<le> later \<and> later < now + 300
      \<and> (chat_kind (tk_event_kind t) \<longrightarrow> tk_chat_id t \<noteq> []))
    \<and> (ticket_valid L later owner t \<longrightarrow> ticket_is_fresh later t)"
proof -
  obtain u where u: "t = issue_ticket L now u" "tk_transport u = transport" "tk_account_id u = account"
      "tk_namespace u = feishu_namespace (il_sha L) account" "tk_event_kind u = ingress_kind event_type data"
      "tk_actor_id u \<noteq> []" "tk_event_key u \<noteq> []" "tk_actor_id_type u \<in> set [''open_id'', ''union_id'', ''user_id'']"
      "tk_principal_kind u \<in> set [''human'', ''bot'']"
    using issue_Some [OF assms(1)] by blast
  have life: "lifetime_valid later (Finite now) (Finite (now + 300)) \<longleftrightarrow> now - 30 \<le> later \<and> later < now + 300"
    by (auto simp: lifetime_valid_def FEISHU_TRUSTED_INGRESS_TTL_SECONDS_def)
  have pk: "tk_principal_kind u \<in> set [''human'', ''bot'', ''system'']" using u(9) by auto
  have "ticket_valid L later owner t \<longleftrightarrow> owner = account \<and> now - 30 \<le> later \<and> later < now + 300
      \<and> (chat_kind (tk_event_kind t) \<longrightarrow> tk_chat_id t \<noteq> [])"
    unfolding ticket_valid_iff u(1) issue_fields issued_times u(2-5) life issued_signature
    using u(6-8) pk assms(2) kind_known [of event_type data] by blast
  then show ?thesis using valid_is_fresh by blast
qed

text \<open>C4. A ticket can not be altered: where the HMAC does not map the JSON texts of the two tickets to one digest, and these texts are read
  back, a valid ticket that carries the signature of an issued one is that ticket, in every field that the ingress reads.\<close>

theorem ticket_cannot_be_altered:
  assumes "ticket_valid L later account t" "tk_signature t = tk_signature (issue_ticket L now u)"
    and "inj_on (il_mac L) {dumps (il_py L) (JArr (signed_fields t)), dumps (il_py L) (JArr (signed_fields (issue_ticket L now u)))}"
    and "json_ok (il_py L) (JArr (signed_fields t))" "json_ok (il_py L) (JArr (signed_fields (issue_ticket L now u)))"
  shows "t = (issue_ticket L now u)\<lparr>tk_class := tk_class t\<rparr> \<and> account = tk_account_id u \<and> later < now + 300"
proof -
  let ?i = "issue_ticket L now u"
  have mac: "tk_signature t = ticket_mac L t" and acc: "tk_account_id t = account"
    and life: "lifetime_valid later (tk_issued_at t) (tk_expires_at t)"
    using assms(1) by (auto simp: ticket_valid_def split: if_splits)
  have "ticket_mac L t = ticket_mac L ?i" using mac assms(2) issued_signature [of L now u] by argo
  then have "dumps (il_py L) (JArr (signed_fields t)) = dumps (il_py L) (JArr (signed_fields ?i))"
    unfolding ticket_mac_def by (rule inj_onD [OF assms(3)]) (intro insertI1 insertI2)+
  then have "signed_fields t = signed_fields ?i"
    using assms(4,5) unfolding json_ok_def by (metis json.inject(5) option.inject)
  from signed_fields_inj [OF this assms(2)] have t: "t = ?i\<lparr>tk_class := tk_class t\<rparr>" .
  have f: "tk_account_id t = tk_account_id u" "tk_issued_at t = Finite now" "tk_expires_at t = Finite (now + 300)"
    by (subst t, simp add: issue_fields issued_times)+
  have "later < now + 300" using life unfolding f lifetime_valid_def by simp
  with t f acc show ?thesis by blast
qed

section \<open>Admitted once, and spaced\<close>

text \<open>C2. An event is admitted once: two admissions of one event in the same process are more than 900 seconds apart, or at
  least 4095 other admissions were tried in between; whatever the adapters, the tables and the other events are.\<close>

theorem event_admitted_once:
  assumes "admit_call L c s = (Some a, s1)" "admit_call L c' (admit_all L cs s1) = (Some a', s2)"
    and "ticket_key (ic_ticket c') = ticket_key (ic_ticket c)"
    and "\<And>x. x \<in> set cs \<Longrightarrow> call_time x \<le> call_time c'"
  shows "call_time c' - call_time c > 900 \<or> length cs \<ge> 4095"
proof (rule ccontr)
  assume "\<not> ?thesis"
  then have near: "call_time c' - call_time c \<le> SEEN_TTL_SECONDS" and few: "Suc (length cs) < SEEN_MAX"
    by (simp_all add: SEEN_TTL_SECONDS_def SEEN_MAX_def)
  let ?k = "ticket_key (ic_ticket c)" and ?t = "call_time c"
  have start: "recent (ig_seen s1) ?k ?t 0" by (rule seen_slots.granted_recent [OF admitted_claims [OF assms(1)]])
  have "recent (ig_seen (admit_all L cs s1)) ?k ?t (0 + length cs)"
    unfolding admit_all_def
    by (rule seen_slots.recent_run [where time = call_time, OF admit_seen start])
       (use near few assms(4) in \<open>force+\<close>)
  then have "recent (ig_seen (admit_all L cs s1)) ?k ?t (length cs)" by simp
  from seen_slots.recent_refuses [OF this near few TrueI] admitted_claims [OF assms(2)] assms(3)
  show False by simp
qed

lemma bot_admission_fields:
  assumes "admit_call L c s = (Some a, s')" "am_actor_kind a = ''bot''"
  shows "\<exists>table g. iw_table (ic_world c) = Some table \<and> lookup_by_chat_id table (am_chat_id a) = Some g
    \<and> am_chat_id a = tk_chat_id (ic_ticket c) \<and> am_profile_name a = r_profile_name g \<and> am_route_version a = r_version g
    \<and> am_credential_subject a = fa_app_id (ic_adapter c) \<and> am_tool_scope a = ''feishu:bot''
    \<and> startswith (am_actor_subject a) ''bot:''"
  using assms unfolding admit_call_def
  by (auto simp: admit_defs bot_actor_subject_def split: option.splits prod.splits bool.splits if_splits)

text \<open>C5. A run that a bot triggers is confined and spaced: its admission names the profile of the chat's active group, the
  credential of the app and a subject that is no employee's; and two bot admissions in one chat are at least 30 seconds apart,
  or at least 1023 other admissions were tried in between.\<close>

theorem bot_runs_confined_and_spaced:
  assumes "admit_call L c s = (Some a, s1)" "admit_call L c' (admit_all L cs s1) = (Some a', s2)"
    and "am_actor_kind a = ''bot''" "am_actor_kind a' = ''bot''" "am_chat_id a' = am_chat_id a"
    and "\<And>x. x \<in> set cs \<Longrightarrow> call_time x \<le> call_time c'"
  shows "(call_time c' - call_time c \<ge> 30 \<or> length cs \<ge> 1023)
    \<and> (\<exists>table g. iw_table (ic_world c) = Some table \<and> lookup_by_chat_id table (am_chat_id a) = Some g
        \<and> am_profile_name a = r_profile_name g \<and> am_route_version a = r_version g)
    \<and> am_credential_subject a = fa_app_id (ic_adapter c) \<and> am_tool_scope a = ''feishu:bot''
    \<and> startswith (am_actor_subject a) ''bot:''"
proof -
  have "call_time c' - call_time c \<ge> 30 \<or> length cs \<ge> 1023"
  proof (rule ccontr)
    assume "\<not> ?thesis"
    then have held: "call_time c' - call_time c < BOT_MIN_INTERVAL_SECONDS" and few: "Suc (length cs) < BOT_ADMIT_MAX"
      by (simp_all add: BOT_MIN_INTERVAL_SECONDS_def BOT_ADMIT_MAX_def)
    then have near: "call_time c' - call_time c \<le> BOT_ADMIT_TTL_SECONDS"
      by (simp add: BOT_MIN_INTERVAL_SECONDS_def BOT_ADMIT_TTL_SECONDS_def)
    let ?k = "am_chat_id a" and ?t = "call_time c"
    have start: "recent (ig_bot_last s1) ?k ?t 0"
      by (rule bot_slots.granted_recent [OF bot_admitted_claims [OF assms(1,3)]])
    have "recent (ig_bot_last (admit_all L cs s1)) ?k ?t (0 + length cs)"
      unfolding admit_all_def
      by (rule bot_slots.recent_run [where time = call_time, OF admit_slots start])
         (use near held few assms(6) in \<open>force+\<close>)
    then have "recent (ig_bot_last (admit_all L cs s1)) ?k ?t (length cs)" by simp
    from bot_slots.recent_refuses [OF this near few held] bot_admitted_claims [OF assms(2,4)] assms(5)
    show False by simp
  qed
  with bot_admission_fields [OF assms(1,3)] show ?thesis by blast
qed

section \<open>Witnesses and findings\<close>

definition demo_ingress_lib :: ingress_lib where
  "demo_ingress_lib = \<lparr>il_py = \<lparr>loads = (\<lambda>s. None), dumps = (\<lambda>j. ''json''), repr = (\<lambda>j. ''repr''),
     to_float = (\<lambda>s. None), ip_literal = (\<lambda>s. True)\<rparr>, il_sha = (\<lambda>s. s), il_mac = (\<lambda>s. s)\<rparr>"

text \<open>A bot message of \<open>ou_bot\<close> in the group chat \<open>oc_1\<close>.\<close>

definition demo_bot_callback :: json where
  "demo_bot_callback = JObj [(''header'', JObj [(''event_id'', JStr ''ev1'')]),
     (''event'', JObj [(''sender'', JObj [(''sender_id'', JObj [(''open_id'', JStr ''ou_bot'')]), (''sender_type'', JStr ''bot'')]),
       (''message'', JObj [(''chat_id'', JStr ''oc_1''), (''message_id'', JStr ''om_1'')])])]"

definition demo_ticket :: "rat \<Rightarrow> ticket" where
  "demo_ticket now = the (issue_trusted_ingress_ticket demo_ingress_lib 1 now ''cli'' ''im.message.receive_v1'' demo_bot_callback ''websocket'' [])"

definition demo_adapter :: feishu_adapter where
  "demo_adapter = \<lparr>fa_app_id = ''cli'', fa_bot_open_id = ''ou_self'', fa_bot_user_id = [], fa_issuer_class = Some 1\<rparr>"

definition demo_ingress_call :: "rat \<Rightarrow> ingress_call" where
  "demo_ingress_call now = \<lparr>ic_world = \<lparr>iw_now = now, iw_table = Some [demo_group], iw_home_is_dir = (\<lambda>p. True), iw_module_class = None\<rparr>,
     ic_adapter = demo_adapter, ic_ticket = demo_ticket now\<rparr>"

definition no_claims :: ingress_state where "no_claims = \<lparr>ig_seen = [], ig_bot_last = []\<rparr>"

definition after_first :: ingress_state where "after_first = snd (admit_call demo_ingress_lib (demo_ingress_call 0) no_claims)"

lemma some_admission: "fst p \<noteq> None \<Longrightarrow> p = (Some (the (fst p)), snd p)"
  by (cases p) simp

lemma demo_first_admitted: "fst (admit_call demo_ingress_lib (demo_ingress_call 0) no_claims) \<noteq> None"
  by code_simp

lemma demo_again_admitted: "fst (admit_call demo_ingress_lib (demo_ingress_call 901) after_first) \<noteq> None"
  by code_simp

lemma demo_bots:
  "am_actor_kind (the (fst (admit_call demo_ingress_lib (demo_ingress_call 0) no_claims))) = ''bot''"
  "am_actor_kind (the (fst (admit_call demo_ingress_lib (demo_ingress_call 901) after_first))) = ''bot''"
  "am_chat_id (the (fst (admit_call demo_ingress_lib (demo_ingress_call 901) after_first)))
     = am_chat_id (the (fst (admit_call demo_ingress_lib (demo_ingress_call 0) no_claims)))"
  by code_simp+

definition demo_unsigned :: ticket where "demo_unsigned = demo_ticket 0"

definition demo_json_lib :: ingress_lib where
  "demo_json_lib = demo_ingress_lib\<lparr>il_py := (il_py demo_ingress_lib)\<lparr>loads :=
     (\<lambda>s. Some (JArr (signed_fields (issue_ticket demo_ingress_lib 0 demo_unsigned))))\<rparr>\<rparr>"

theorem ticket_cannot_be_altered_witness:
  "issue_ticket demo_json_lib 0 demo_unsigned
     = (issue_ticket demo_json_lib 0 demo_unsigned)\<lparr>tk_class := tk_class (issue_ticket demo_json_lib 0 demo_unsigned)\<rparr>
    \<and> ''cli'' = tk_account_id demo_unsigned \<and> (1 :: rat) < 0 + 300"
proof (rule ticket_cannot_be_altered [OF _ refl])
  let ?t = "issue_ticket demo_json_lib 0 demo_unsigned"
  show "ticket_valid demo_json_lib 1 ''cli'' ?t" by code_simp
  show "inj_on (il_mac demo_json_lib) {dumps (il_py demo_json_lib) (JArr (signed_fields ?t)),
      dumps (il_py demo_json_lib) (JArr (signed_fields ?t))}" by simp
  have "loads (il_py demo_json_lib) (dumps (il_py demo_json_lib) (JArr (signed_fields ?t))) = Some (JArr (signed_fields ?t))"
    by code_simp
  moreover have "dumps (il_py demo_json_lib) (JArr (signed_fields ?t)) \<noteq> []" by code_simp
  ultimately show "json_ok (il_py demo_json_lib) (JArr (signed_fields ?t))" "json_ok (il_py demo_json_lib) (JArr (signed_fields ?t))"
    by (simp_all add: json_ok_def)
qed

theorem event_admitted_once_witness:
  "call_time (demo_ingress_call 901) - call_time (demo_ingress_call 0) > 900 \<or> length ([] :: ingress_call list) \<ge> 4095"
proof (rule event_admitted_once)
  show "admit_call demo_ingress_lib (demo_ingress_call 0) no_claims
      = (Some (the (fst (admit_call demo_ingress_lib (demo_ingress_call 0) no_claims))), after_first)"
    unfolding after_first_def by (rule some_admission [OF demo_first_admitted])
  show "admit_call demo_ingress_lib (demo_ingress_call 901) (admit_all demo_ingress_lib [] after_first)
      = (Some (the (fst (admit_call demo_ingress_lib (demo_ingress_call 901) after_first))),
         snd (admit_call demo_ingress_lib (demo_ingress_call 901) after_first))"
    using some_admission [OF demo_again_admitted] by (simp add: admit_all_def)
  show "ticket_key (ic_ticket (demo_ingress_call 901)) = ticket_key (ic_ticket (demo_ingress_call 0))" by code_simp
qed simp

theorem bot_runs_confined_and_spaced_witness:
  "am_credential_subject (the (fst (admit_call demo_ingress_lib (demo_ingress_call 0) no_claims))) = ''cli''"
proof -
  have one: "admit_call demo_ingress_lib (demo_ingress_call 0) no_claims
      = (Some (the (fst (admit_call demo_ingress_lib (demo_ingress_call 0) no_claims))), after_first)"
    unfolding after_first_def by (rule some_admission [OF demo_first_admitted])
  have two: "admit_call demo_ingress_lib (demo_ingress_call 901) (admit_all demo_ingress_lib [] after_first)
      = (Some (the (fst (admit_call demo_ingress_lib (demo_ingress_call 901) after_first))),
         snd (admit_call demo_ingress_lib (demo_ingress_call 901) after_first))"
    using some_admission [OF demo_again_admitted] by (simp add: admit_all_def)
  from bot_runs_confined_and_spaced [OF one two demo_bots(1,2,3)] show ?thesis
    by (simp add: demo_ingress_call_def demo_adapter_def)
qed

text \<open>
  A redelivered bot event takes the slot of its chat before it is found to be a duplicate: nothing runs, and yet every bot
  message of the chat is refused for the next 30 seconds.
\<close>

lemma duplicate_burns_slot:
  assumes "admit_call L c (s\<lparr>ig_seen := []\<rparr>) = (Some a, s0)" "am_actor_kind a = ''bot''"
    and "\<not> fst (claim_once (call_time c) (ticket_key (ic_ticket c)) (ig_seen s))"
    and "admit_call L c s = (r, s1)"
    and "tk_chat_id (ic_ticket c') = tk_chat_id (ic_ticket c)" "tk_principal_kind (ic_ticket c') = ''bot''"
    and "call_time c \<le> call_time c'" "call_time c' - call_time c < 30"
  shows "r = None \<and> fst (admit_call L c' s1) = None"
proof -
  have chat: "am_chat_id a = tk_chat_id (ic_ticket c)" using bot_admission_fields [OF assms(1,2)] by blast
  have claim: "bot_throttle_claim (call_time c) (tk_chat_id (ic_ticket c)) (ig_bot_last s) = (True, ig_bot_last s0)"
    using bot_admitted_claims [OF assms(1,2)] chat by simp
  have r: "r = None \<and> ig_bot_last s1 = ig_bot_last s0"
    using assms(1-4) claim unfolding admit_call_def ticket_key_def
    by (auto simp: admit_defs split: option.splits prod.splits bool.splits if_splits)
  have "fst (admit_call L c' s1) = None"
  proof (rule ccontr)
    assume n: "fst (admit_call L c' s1) \<noteq> None"
    then obtain a' s2 where a': "admit_call L c' s1 = (Some a', s2)" by (cases "admit_call L c' s1") auto
    then have k: "am_actor_kind a' = ''bot''"
      using assms(6) unfolding admit_call_def
      by (auto simp: admit_defs split: option.splits prod.splits bool.splits if_splits)
    have chat': "am_chat_id a' = tk_chat_id (ic_ticket c)" using bot_admission_fields [OF a' k] assms(5) by auto
    have "recent (ig_bot_last s1) (tk_chat_id (ic_ticket c)) (call_time c) 0"
      using bot_slots.granted_recent [OF claim] r by simp
    from bot_slots.recent_refuses [OF this, of "call_time c'"] bot_admitted_claims [OF a' k] assms(8) chat'
    show False by (simp add: BOT_ADMIT_TTL_SECONDS_def BOT_ADMIT_MAX_def BOT_MIN_INTERVAL_SECONDS_def)
  qed
  with r show ?thesis by blast
qed

text \<open>A callback without any sender identifier never gets a ticket, so the subject \<open>bot:unknown\<close> is never admitted.\<close>

lemma no_actor_no_ticket:
  assumes "ingress_kind event_type data \<noteq> ''comment''"
    and "\<forall>k \<in> set [''open_id'', ''union_id'', ''user_id'']. \<not> truthy (actor_value (feishu_value data ''event'') k)"
  shows "issue_trusted_ingress_ticket L class now account event_type data transport chat = None"
  using assms by (simp add: issue_trusted_ingress_ticket_def callback_actor_def Let_def)

end
