(* ===== verification/Feishu_Callbacks.thy ===== *)
theory Feishu_Callbacks
  imports Feishu_Tickets
begin

text \<open>
  What stands between a Feishu callback and the code it triggers: the recheck of an admission before model or tool work
  (\<open>src/hermes_multitenancy/trusted_feishu_ingress.py\<close>, \<open>validate_admitted_feishu_event\<close>), the wrappers that
  \<open>install_stock_feishu_ingress\<close> puts around the adapter's callbacks, the binding of prompts to their owner and the owners of
  pending approvals (\<open>src/hermes_multitenancy/feishu_ingress_compat.py\<close>), and the gateway's guard of textual approvals
  (\<open>gateway_ownership.py\<close>). A wrapper is a function to what it does with the wrapped call: the arguments it passes on, or
  nothing. An attribute that is missing, None or empty is the empty string; every test of the code treats the three alike.
\<close>

section \<open>The recheck\<close>

record source =
  so_platform :: string
  so_open_id :: string
  so_user_id :: string
  so_user_id_alt :: string
  so_chat_id :: string
  so_chat_type :: string
  so_message_id :: string

record feishu_event =
  fe_source :: source
  fe_sender_open_id :: string
  fe_message_id :: string
  fe_ticket :: "ticket option"
  fe_admission :: "admission option"

definition source_ids :: "feishu_event \<Rightarrow> string list" where
  "source_ids e = filter (\<lambda>v. v \<noteq> [])
     [fe_sender_open_id e, so_open_id (fe_source e), so_user_id (fe_source e), so_user_id_alt (fe_source e)]"

definition event_message_id :: "feishu_event \<Rightarrow> string" where
  "event_message_id e = py_or (fe_message_id e) (so_message_id (fe_source e))"

definition group_chat_type :: "string \<Rightarrow> bool" where
  "group_chat_type ct \<longleftrightarrow> lower (strip ct) \<in> set [''group'', ''topic'', ''group_chat'']"

definition direct_chat_type :: "string \<Rightarrow> bool" where
  "direct_chat_type ct \<longleftrightarrow> lower (strip ct) \<in> set [''dm'', ''p2p'', ''private'']"

text \<open>The equalities that pin an admission and an event to one ticket.\<close>

definition pinned :: "admission \<Rightarrow> ticket \<Rightarrow> feishu_event \<Rightarrow> bool" where
  "pinned m t e \<longleftrightarrow>
     \<not> (so_chat_id (fe_source e) \<noteq> tk_chat_id t
        \<or> event_message_id e \<noteq> tk_message_id t
        \<or> am_actor_id m \<noteq> tk_actor_id t
        \<or> am_actor_id_type m \<noteq> tk_actor_id_type t
        \<or> am_chat_id m \<noteq> tk_chat_id t
        \<or> am_message_id m \<noteq> tk_message_id t)"

definition validate_bot_admission :: "ingress_lib \<Rightarrow> ingress_world \<Rightarrow> admission \<Rightarrow> ticket \<Rightarrow> feishu_event \<Rightarrow> bool" where
  "validate_bot_admission L w m t e =
     (if tk_principal_kind t \<noteq> ''bot'' \<or> tk_event_kind t \<noteq> ''message'' then False
      else if \<not> pinned m t e then False
      else if am_ticket_fingerprint m \<noteq> ticket_fingerprint (il_sha L) t then False
      else if \<not> group_chat_type (so_chat_type (fe_source e)) then False
      else (case (case iw_table w of None \<Rightarrow> None
                    | Some table \<Rightarrow> if tk_chat_id t \<noteq> [] then lookup_by_chat_id table (tk_chat_id t) else None) of
              None \<Rightarrow> False
            | Some row \<Rightarrow>
                r_active row \<and> r_kind row = KIND_GROUP \<and> am_chat_type m = ''group'' \<and> am_profile_name m = r_profile_name row
                \<and> am_route_version m = r_version row \<and> am_actor_subject m = bot_actor_subject t
                \<and> am_credential_subject m = tk_account_id t \<and> am_tool_scope m = ''feishu:bot''))"

definition validate_user_admission :: "ingress_lib \<Rightarrow> ingress_world \<Rightarrow> admission \<Rightarrow> ticket \<Rightarrow> feishu_event \<Rightarrow> bool" where
  "validate_user_admission L w m t e =
     (if tk_actor_id t \<notin> set (source_ids e) \<or> \<not> pinned m t e then False
      else if am_ticket_fingerprint m \<noteq> ticket_fingerprint (il_sha L) t then False
      else (case (case iw_table w of None \<Rightarrow> None | Some table \<Rightarrow> resolve_ticket_context table t) of
              None \<Rightarrow> False
            | Some (context, expected_subject, actor_subject) \<Rightarrow>
                (let event_is_group = group_chat_type (so_chat_type (fe_source e));
                     event_is_direct = direct_chat_type (so_chat_type (fe_source e))
                 in (event_is_group \<or> event_is_direct)
                    \<and> event_is_group = is_group context
                    \<and> am_chat_type m = (if is_group context then ''group'' else ''p2p'')
                    \<and> tc_profile_name context = am_profile_name m
                    \<and> tc_route_version context = am_route_version m
                    \<and> am_actor_subject m = actor_subject
                    \<and> am_credential_subject m = expected_subject
                    \<and> am_tool_scope m = (if is_group context then ''feishu:bot'' else ''feishu:user''))))"

text \<open>
  \<open>validate_admitted_feishu_event\<close>. The caller gives its adapter, or a gateway (outer \<open>Some\<close>) whose adapter is looked up
  (inner None: it has none), or neither.
\<close>

definition validate_admitted_feishu_event ::
    "ingress_lib \<Rightarrow> ingress_world \<Rightarrow> feishu_event \<Rightarrow> feishu_adapter option option \<Rightarrow> feishu_adapter option \<Rightarrow> bool" where
  "validate_admitted_feishu_event L w e gateway adapter0 =
     (if so_platform (fe_source e) \<noteq> ''feishu'' then True
      else (case fe_admission e of
              None \<Rightarrow> False
            | Some m \<Rightarrow>
                if \<not> am_authentic m then False
                else if adapter0 = None \<and> gateway = Some None then False
                else let adapter = (case adapter0 of Some a \<Rightarrow> Some a | None \<Rightarrow> (case gateway of None \<Rightarrow> None | Some g \<Rightarrow> g));
                         ticket_type = (case adapter of Some a \<Rightarrow> ticket_type_for_adapter w a | None \<Rightarrow> iw_module_class w)
                     in (case fe_ticket e of
                           None \<Rightarrow> False
                         | Some t \<Rightarrow>
                             if ticket_type \<noteq> Some (tk_class t) then False
                             else let expected_account = (case adapter of Some a \<Rightarrow> fa_app_id a | None \<Rightarrow> tk_account_id t)
                                  in if \<not> ticket_valid L (iw_now w) expected_account t \<or> \<not> ticket_is_fresh (iw_now w) t then False
                                     else if am_actor_kind m = ''bot'' then validate_bot_admission L w m t e
                                     else validate_user_admission L w m t e)))"

section \<open>Envelopes and the wrapped callbacks\<close>

record envelope =
  en_raw :: json
  en_ticket :: ticket
  en_admission :: admission

text \<open>\<open>_admit_trusted_ingress_ticket\<close> (with the admitter installed).\<close>

definition admit_ingress_ticket ::
    "ingress_lib \<Rightarrow> ingress_world \<Rightarrow> feishu_adapter \<Rightarrow> ticket option \<Rightarrow> ingress_state \<Rightarrow> admission option \<times> ingress_state" where
  "admit_ingress_ticket L w a ticket s =
     (case ticket of
        None \<Rightarrow> (None, s)
      | Some t \<Rightarrow> if \<not> ticket_valid L (iw_now w) (fa_app_id a) t then (None, s) else admit_trusted_feishu_ingress L w a t s)"

text \<open>The event that \<open>_envelope_allowed\<close> builds of an envelope, and its test.\<close>

definition envelope_event :: "envelope \<Rightarrow> feishu_event" where
  "envelope_event d =
     \<lparr>fe_source = \<lparr>so_platform = ''feishu'', so_open_id = [], so_user_id = tk_actor_id (en_ticket d), so_user_id_alt = [],
        so_chat_id = tk_chat_id (en_ticket d), so_chat_type = am_chat_type (en_admission d), so_message_id = []\<rparr>,
      fe_sender_open_id = [], fe_message_id = tk_message_id (en_ticket d),
      fe_ticket = Some (en_ticket d), fe_admission = Some (en_admission d)\<rparr>"

definition envelope_allowed :: "ingress_lib \<Rightarrow> ingress_world \<Rightarrow> feishu_adapter \<Rightarrow> envelope option \<Rightarrow> bool" where
  "envelope_allowed L w a data =
     (case data of
        None \<Rightarrow> False
      | Some d \<Rightarrow> ticket_valid L (iw_now w) (fa_app_id a) (en_ticket d)
          \<and> validate_admitted_feishu_event L w (envelope_event d) None (Some a))"

text \<open>What \<open>dispatch\<close> does with a raw callback: nothing, the reaction handler, an empty card, or the wrapped callback again.\<close>

datatype dispatched = Dropped | PendingReaction | EmptyCard | Callback envelope

definition dispatch_trusted_ingress ::
    "ingress_lib \<Rightarrow> ingress_world \<Rightarrow> feishu_adapter \<Rightarrow> nat \<Rightarrow> string \<Rightarrow> json \<Rightarrow> string \<Rightarrow> ingress_state \<Rightarrow> dispatched \<times> ingress_state" where
  "dispatch_trusted_ingress L w a class event_type data transport s =
     (let kind = ingress_kind event_type data
      in if kind \<in> set [''comment'', ''vc''] then (Dropped, s)
         else if kind = ''reaction'' then (PendingReaction, s)
         else let ticket = issue_trusted_ingress_ticket L class (iw_now w) (fa_app_id a) event_type data transport []
              in (case admit_ingress_ticket L w a ticket s of
                    (None, s') \<Rightarrow> (if kind \<in> set [''button'', ''form''] then EmptyCard else Dropped, s')
                  | (Some m, s') \<Rightarrow> (Callback \<lparr>en_raw = data, en_ticket = the ticket, en_admission = m\<rparr>, s')))"

text \<open>\<open>admitted\<close> on an envelope: the inner callback runs with this envelope as the prompt's ingress, or not at all.\<close>

definition admitted_callback :: "ingress_lib \<Rightarrow> ingress_world \<Rightarrow> feishu_adapter \<Rightarrow> envelope \<Rightarrow> envelope option" where
  "admitted_callback L w a d = (if envelope_allowed L w a (Some d) then Some d else None)"

text \<open>
  \<open>admitted\<close> on a raw callback: \<open>dispatch\<close>, and for an admitted one the wrapped callback on its envelope. The second world is
  the one at the recheck.
\<close>

definition raw_callback ::
    "ingress_lib \<Rightarrow> ingress_world \<Rightarrow> ingress_world \<Rightarrow> feishu_adapter \<Rightarrow> nat \<Rightarrow> string \<Rightarrow> json \<Rightarrow> string \<Rightarrow> ingress_state
      \<Rightarrow> envelope option \<times> ingress_state" where
  "raw_callback L w w' a class event_type data transport s =
     (case dispatch_trusted_ingress L w a class event_type data transport s of
        (Callback d, s') \<Rightarrow> (admitted_callback L w' a d, s')
      | (_, s') \<Rightarrow> (None, s'))"

text \<open>
  \<open>synthetic\<close>: a reaction gets its ticket here, bound to the chat that the core resolved; the inner dispatch is called with
  the envelope, the ticket's message and the admission's chat type.
\<close>

datatype raw_message = RawReaction string json string | RawEnvelope envelope | RawOther

definition synthetic_event ::
    "ingress_lib \<Rightarrow> ingress_world \<Rightarrow> feishu_adapter \<Rightarrow> nat \<Rightarrow> string \<Rightarrow> raw_message \<Rightarrow> ingress_state
      \<Rightarrow> (envelope \<times> string \<times> string) option \<times> ingress_state" where
  "synthetic_event L w a class chat_id raw s =
     (case (case raw of
              RawReaction event_type data transport \<Rightarrow>
                (let ticket = issue_trusted_ingress_ticket L class (iw_now w) (fa_app_id a) event_type data transport chat_id
                 in (case admit_ingress_ticket L w a ticket s of
                       (None, s') \<Rightarrow> (None, s')
                     | (Some m, s') \<Rightarrow> (Some \<lparr>en_raw = data, en_ticket = the ticket, en_admission = m\<rparr>, s')))
            | RawEnvelope d \<Rightarrow> (Some d, s)
            | RawOther \<Rightarrow> (None, s)) of
        (None, s') \<Rightarrow> (None, s')
      | (Some d, s') \<Rightarrow>
          if \<not> envelope_allowed L w a (Some d) then (None, s')
          else if chat_id \<noteq> tk_chat_id (en_ticket d) then (None, s')
          else (Some (d, tk_message_id (en_ticket d), am_chat_type (en_admission d)), s'))"

section \<open>Prompts and their owners\<close>

record prompt_identity =
  pb_actor_id :: string
  pb_actor_id_type :: string
  pb_actor_subject :: string
  pb_profile_name :: string
  pb_route_version :: int

definition prompt_binding :: "ingress_lib \<Rightarrow> ingress_world \<Rightarrow> feishu_adapter \<Rightarrow> envelope option \<Rightarrow> string \<Rightarrow> prompt_identity option" where
  "prompt_binding L w a data chat_id =
     (case data of
        None \<Rightarrow> None
      | Some d \<Rightarrow>
          if \<not> envelope_allowed L w a (Some d) then None
          else if am_actor_kind (en_admission d) \<noteq> ''user'' \<or> chat_id = [] \<or> tk_chat_id (en_ticket d) \<noteq> chat_id then None
          else Some \<lparr>pb_actor_id = tk_actor_id (en_ticket d), pb_actor_id_type = tk_actor_id_type (en_ticket d),
                 pb_actor_subject = am_actor_subject (en_admission d), pb_profile_name = am_profile_name (en_admission d),
                 pb_route_version = am_route_version (en_admission d)\<rparr>)"

record prompt_owner =
  po_binding :: prompt_identity
  po_ticket :: ticket

definition seal_prompt_owner :: "ingress_lib \<Rightarrow> ingress_world \<Rightarrow> feishu_adapter \<Rightarrow> envelope \<Rightarrow> prompt_owner option" where
  "seal_prompt_owner L w a d =
     (case prompt_binding L w a (Some d) (tk_chat_id (en_ticket d)) of
        None \<Rightarrow> None
      | Some b \<Rightarrow> Some \<lparr>po_binding = b, po_ticket = en_ticket d\<rparr>)"

definition sealed_owner_binding :: "ingress_world \<Rightarrow> prompt_owner option \<Rightarrow> string \<Rightarrow> prompt_identity option" where
  "sealed_owner_binding w owner chat_id =
     (case owner of
        None \<Rightarrow> None
      | Some p \<Rightarrow>
          if chat_id = [] \<or> tk_chat_id (po_ticket p) \<noteq> chat_id then None
          else (case (case iw_table w of None \<Rightarrow> None | Some table \<Rightarrow> resolve_ticket_context table (po_ticket p)) of
                  None \<Rightarrow> None
                | Some (context, _, actor_subject) \<Rightarrow>
                    if tc_profile_name context \<noteq> pb_profile_name (po_binding p)
                       \<or> tc_route_version context \<noteq> pb_route_version (po_binding p)
                       \<or> actor_subject \<noteq> pb_actor_subject (po_binding p)
                    then None else Some (po_binding p)))"

text \<open>The binding that \<open>send\<close> stores with an interactive card; None: the card is not sent.\<close>

definition card_binding ::
    "ingress_lib \<Rightarrow> ingress_world \<Rightarrow> feishu_adapter \<Rightarrow> prompt_owner option \<Rightarrow> envelope option \<Rightarrow> string \<Rightarrow> prompt_identity option" where
  "card_binding L w a owner ingress chat_id =
     (case sealed_owner_binding w owner chat_id of
        Some b \<Rightarrow> Some b
      | None \<Rightarrow> prompt_binding L w a ingress chat_id)"

text \<open>A stored prompt: the card's state and the binding it was sent with (None: sent before the wrapper).\<close>

record prompt_state =
  ps_chat_id :: string
  ps_message_id :: string
  ps_binding :: "prompt_identity option"

definition bound_prompt_click ::
    "ingress_lib \<Rightarrow> ingress_world \<Rightarrow> feishu_adapter \<Rightarrow> envelope option \<Rightarrow> prompt_state \<Rightarrow> json \<Rightarrow> bool" where
  "bound_prompt_click L w a ingress state event =
     (case ingress of
        None \<Rightarrow> False
      | Some d \<Rightarrow>
          (case prompt_binding L w a (Some d) (ps_chat_id state) of
             None \<Rightarrow> False
           | Some b \<Rightarrow>
               if ps_binding state \<noteq> Some b then False
               else let t = en_ticket d
                    in tk_event_kind t \<in> set [''button'', ''form'']
                       \<and> feishu_value (feishu_value event ''operator'') (tk_actor_id_type t) = JStr (tk_actor_id t)
                       \<and> feishu_value (feishu_value event ''context'') ''open_chat_id'' = JStr (tk_chat_id t)
                       \<and> feishu_value (feishu_value event ''context'') ''open_message_id'' = JStr (tk_message_id t)
                       \<and> tk_message_id t = ps_message_id state))"

text \<open>\<open>validate\<close> and \<open>pop\<close>: whether the wrapped method is called. \<open>pop\<close> reads the event of the ingress itself.\<close>

definition validate_card_action ::
    "ingress_lib \<Rightarrow> ingress_world \<Rightarrow> feishu_adapter \<Rightarrow> envelope option \<Rightarrow> prompt_state \<Rightarrow> json \<Rightarrow> bool" where
  "validate_card_action L w a ingress state event = bound_prompt_click L w a ingress state event"

definition pop_validated_prompt_state ::
    "ingress_lib \<Rightarrow> ingress_world \<Rightarrow> feishu_adapter \<Rightarrow> envelope option \<Rightarrow> (string \<times> prompt_state) list \<Rightarrow> string \<Rightarrow> prompt_state option" where
  "pop_validated_prompt_state L w a ingress states ident =
     (case map_of states ident of
        None \<Rightarrow> None
      | Some state \<Rightarrow>
          if bound_prompt_click L w a ingress state (feishu_value (case ingress of None \<Rightarrow> JNull | Some d \<Rightarrow> en_raw d) ''event'')
          then Some state else None)"

section \<open>The guard of the message handler\<close>

text \<open>
  \<open>guarded\<close>: the event that the core handler receives and the prompt owner it runs under, or None. The three worlds are those
  at the envelope's recheck with the read of the actor's row, at the event's recheck, and at the sealing of the owner.
\<close>

definition row_aliases :: "routing_row \<Rightarrow> string list" where
  "row_aliases r = filter (\<lambda>v. v \<noteq> []) [str_or_empty (r_open_id r), r_user_id r, str_or_empty (r_union_id r)]"

definition stamp_event :: "envelope \<Rightarrow> feishu_event \<Rightarrow> feishu_event" where
  "stamp_event d e = e\<lparr>fe_ticket := Some (en_ticket d), fe_admission := Some (en_admission d)\<rparr>"

definition name_sender :: "ingress_world \<Rightarrow> admission \<Rightarrow> feishu_event \<Rightarrow> feishu_event option" where
  "name_sender w m e =
     (if am_actor_kind m = ''user''
      then (case (case iw_table w of None \<Rightarrow> None | Some table \<Rightarrow> lookup_by_open_id table (am_actor_subject m)) of
              None \<Rightarrow> None
            | Some row \<Rightarrow> if source_ids e = [] \<or> \<not> set (source_ids e) \<subseteq> set (row_aliases row) then None
                         else Some (e\<lparr>fe_sender_open_id := str_or_empty (r_open_id row)\<rparr>))
      else Some e)"

definition guarded_message ::
    "ingress_lib \<Rightarrow> ingress_world \<Rightarrow> ingress_world \<Rightarrow> ingress_world \<Rightarrow> feishu_adapter \<Rightarrow> envelope option \<Rightarrow> feishu_event
      \<Rightarrow> (feishu_event \<times> prompt_owner option) option" where
  "guarded_message L w w' w'' a raw e =
     (case raw of
        None \<Rightarrow> None
      | Some d \<Rightarrow>
          if \<not> envelope_allowed L w a (Some d) then None
          else (case name_sender w (en_admission d) e of
                  None \<Rightarrow> None
                | Some e1 \<Rightarrow>
                    let e2 = stamp_event d e1
                    in if \<not> validate_admitted_feishu_event L w' e2 None (Some a) then None
                       else Some (e2, seal_prompt_owner L w'' a d)))"

section \<open>Approvals by text\<close>

type_synonym approval_owners = "(string \<times> string) list"

definition APPROVAL_OWNERS_MAX :: nat where "APPROVAL_OWNERS_MAX = 4096"

definition owner_fingerprint :: "(string \<Rightarrow> string) \<Rightarrow> string \<Rightarrow> string \<Rightarrow> string" where
  "owner_fingerprint H profile_name actor_subject = take 32 (H (profile_name @ CHR 0x1F # actor_subject))"

definition record_approval_owner ::
    "ingress_lib \<Rightarrow> prompt_owner option \<Rightarrow> json \<Rightarrow> approval_owners \<Rightarrow> approval_owners" where
  "record_approval_owner L owner approval_data owners =
     (let request_id = str_or (il_py L) (feishu_value approval_data ''request_id'')
      in case owner of
           None \<Rightarrow> owners
         | Some p \<Rightarrow>
             if request_id = [] then owners
             else let d = set_at_end request_id
                            (owner_fingerprint (il_sha L) (pb_profile_name (po_binding p)) (pb_actor_subject (po_binding p))) owners
                  in drop (length d - APPROVAL_OWNERS_MAX) d)"

definition text_approval_allowed ::
    "ingress_lib \<Rightarrow> feishu_event \<Rightarrow> json list \<Rightarrow> bool \<Rightarrow> approval_owners \<Rightarrow> bool" where
  "text_approval_allowed L e pending resolve_all owners =
     (case fe_admission e of
        None \<Rightarrow> False
      | Some m \<Rightarrow>
          if \<not> am_authentic m \<or> am_actor_kind m \<noteq> ''user'' then False
          else let sender = owner_fingerprint (il_sha L) (am_profile_name m) (am_actor_subject m);
                   targets = (if resolve_all then pending else take 1 pending);
                   found = map (\<lambda>item. map_of owners (str_or (il_py L) (feishu_value item ''request_id''))) targets
               in found \<noteq> [] \<and> list_all (\<lambda>o'. o' = Some sender) found)"

text \<open>The gateway's handler of \<open>/approve\<close> and \<open>/deny\<close>: whether the core's own handler is called. \<open>tokens\<close> are the
  arguments in lower case.\<close>

definition approval_handler_runs ::
    "ingress_lib \<Rightarrow> bool \<Rightarrow> string list \<Rightarrow> feishu_event \<Rightarrow> json list \<Rightarrow> approval_owners \<Rightarrow> bool" where
  "approval_handler_runs L approve tokens e pending owners =
     (if lower (strip (so_platform (fe_source e))) \<noteq> ''feishu'' then True
      else if pending \<noteq> []
      then (let resolve_all = (if approve then ''all'' \<in> set tokens else take 1 tokens = [''all''])
            in text_approval_allowed L e pending resolve_all owners)
      else True)"

section \<open>What passes the recheck\<close>

text \<open>\<open>route_authorised a table m t\<close>: the route and the credential of an admission are those that the table gives its ticket now.\<close>

definition route_authorised :: "feishu_adapter \<Rightarrow> routes \<Rightarrow> admission \<Rightarrow> ticket \<Rightarrow> bool" where
  "route_authorised a table m t \<longleftrightarrow>
     (if am_actor_kind m = ''bot''
      then (\<exists>g. lookup_by_chat_id table (tk_chat_id t) = Some g \<and> am_profile_name m = r_profile_name g \<and> am_route_version m = r_version g
         \<and> am_credential_subject m = fa_app_id a \<and> am_actor_subject m = bot_actor_subject t)
      else (\<exists>r \<in> set table. active_user r \<and> alias_of t r \<and> r_open_id r = Some (am_actor_subject m)
         \<and> (if tk_chat_id t \<noteq> [] \<and> lookup_by_chat_id table (tk_chat_id t) \<noteq> None
            then (\<exists>g. lookup_by_chat_id table (tk_chat_id t) = Some g \<and> am_profile_name m = r_profile_name g \<and> am_route_version m = r_version g
               \<and> am_credential_subject m = fa_app_id a \<and> am_tool_scope m = ''feishu:bot'')
            else am_profile_name m = r_profile_name r \<and> am_credential_subject m = am_actor_subject m
               \<and> (\<exists>q \<in> set table. r_active q \<and> am_profile_name m = r_profile_name q \<and> am_route_version m = r_version q))))"

lemma pinned_iff:
  "pinned m t e \<longleftrightarrow> so_chat_id (fe_source e) = tk_chat_id t \<and> event_message_id e = tk_message_id t
     \<and> am_actor_id m = tk_actor_id t \<and> am_actor_id_type m = tk_actor_id_type t \<and> am_chat_id m = tk_chat_id t
     \<and> am_message_id m = tk_message_id t"
  unfolding pinned_def by blast

lemma ticket_valid_account: "ticket_valid L now account t \<Longrightarrow> tk_account_id t = account \<and> tk_signature t = ticket_mac L t"
  by (simp add: ticket_valid_iff)

lemma bot_admission_authorised:
  assumes "validate_bot_admission L w m t e" "am_actor_kind m = ''bot''" "tk_account_id t = fa_app_id a"
  shows "pinned m t e \<and> am_ticket_fingerprint m = ticket_fingerprint (il_sha L) t
    \<and> (\<exists>table. iw_table w = Some table \<and> route_authorised a table m t)"
  using assms by (auto simp: validate_bot_admission_def route_authorised_def split: if_splits option.splits)

lemma user_admission_authorised:
  assumes "validate_user_admission L w m t e" "am_actor_kind m \<noteq> ''bot''" "tk_account_id t = fa_app_id a"
  shows "pinned m t e \<and> am_ticket_fingerprint m = ticket_fingerprint (il_sha L) t
    \<and> (\<exists>table. iw_table w = Some table \<and> route_authorised a table m t)"
proof -
  have pin: "pinned m t e" "am_ticket_fingerprint m = ticket_fingerprint (il_sha L) t"
    using assms(1) by (simp_all add: validate_user_admission_def split: if_splits)
  obtain table c cred subj where tbl: "iw_table w = Some table" and res: "resolve_ticket_context table t = Some (c, cred, subj)"
    and m: "tc_profile_name c = am_profile_name m" "tc_route_version c = am_route_version m" "am_actor_subject m = subj"
      "am_credential_subject m = cred" "am_tool_scope m = (if is_group c then ''feishu:bot'' else ''feishu:user'')"
    using assms(1) by (auto simp: validate_user_admission_def Let_def split: if_splits option.splits)
  obtain r where r: "r \<in> set table" "active_user r" "alias_of t r" "r_open_id r = Some subj"
    and q: "\<exists>q \<in> set table. r_active q \<and> tc_profile_name c = r_profile_name q \<and> tc_route_version c = r_version q"
    and g: "if tk_chat_id t \<noteq> [] \<and> lookup_by_chat_id table (tk_chat_id t) \<noteq> None
       then is_group c \<and> cred = tk_account_id t
         \<and> (\<exists>g. lookup_by_chat_id table (tk_chat_id t) = Some g \<and> tc_profile_name c = r_profile_name g \<and> tc_route_version c = r_version g)
       else cred = subj \<and> tc_profile_name c = r_profile_name r"
    using resolve_ticket_context_sound [OF res] by blast
  have cred: "if tk_chat_id t \<noteq> [] \<and> lookup_by_chat_id table (tk_chat_id t) \<noteq> None
        then (\<exists>g. lookup_by_chat_id table (tk_chat_id t) = Some g \<and> am_profile_name m = r_profile_name g \<and> am_route_version m = r_version g
               \<and> am_credential_subject m = fa_app_id a \<and> am_tool_scope m = ''feishu:bot'')
        else am_profile_name m = r_profile_name r \<and> am_credential_subject m = am_actor_subject m
               \<and> (\<exists>q \<in> set table. r_active q \<and> am_profile_name m = r_profile_name q \<and> am_route_version m = r_version q)"
  proof (cases "tk_chat_id t \<noteq> [] \<and> lookup_by_chat_id table (tk_chat_id t) \<noteq> None")
    case True
    have "is_group c" "cred = tk_account_id t" using g [unfolded if_P [OF True]] by blast+
    with g [unfolded if_P [OF True]] m assms(3) show ?thesis unfolding if_P [OF True] by simp
  next
    case False
    from g [unfolded if_not_P [OF False]] q m show ?thesis unfolding if_not_P [OF False] by simp
  qed
  have ro: "r_open_id r = Some (am_actor_subject m)" using r(4) m(3) by simp
  have "route_authorised a table m t"
    unfolding route_authorised_def if_not_P [OF assms(2)]
    by (rule bexI [OF _ r(1)]) (intro conjI conjunct1 [OF r(2)] conjunct2 [OF r(2)] r(3) ro cred)
  with pin tbl show ?thesis by blast
qed

lemma validated_authorised:
  assumes "validate_admitted_feishu_event L w e gateway (Some a)" "so_platform (fe_source e) = ''feishu''"
  shows "\<exists>t m table. fe_ticket e = Some t \<and> fe_admission e = Some m \<and> am_authentic m
    \<and> ticket_valid L (iw_now w) (fa_app_id a) t \<and> pinned m t e \<and> am_ticket_fingerprint m = ticket_fingerprint (il_sha L) t
    \<and> iw_table w = Some table \<and> route_authorised a table m t"
proof -
  obtain m where m: "fe_admission e = Some m" "am_authentic m"
    using assms by (auto simp: validate_admitted_feishu_event_def split: option.splits if_splits)
  obtain t where t: "fe_ticket e = Some t" "ticket_valid L (iw_now w) (fa_app_id a) t"
    "if am_actor_kind m = ''bot'' then validate_bot_admission L w m t e else validate_user_admission L w m t e"
    using assms m by (auto simp: validate_admitted_feishu_event_def Let_def split: option.splits if_splits)
  have acc: "tk_account_id t = fa_app_id a" using ticket_valid_account [OF t(2)] by simp
  have "pinned m t e \<and> am_ticket_fingerprint m = ticket_fingerprint (il_sha L) t
      \<and> (\<exists>table. iw_table w = Some table \<and> route_authorised a table m t)"
    using t(3) bot_admission_authorised [OF _ _ acc] user_admission_authorised [OF _ _ acc] by (cases "am_actor_kind m = ''bot''") simp_all
  with m t show ?thesis by blast
qed

lemma envelope_authorised:
  assumes "envelope_allowed L w a (Some d)"
  shows "am_authentic (en_admission d) \<and> ticket_valid L (iw_now w) (fa_app_id a) (en_ticket d)
    \<and> am_ticket_fingerprint (en_admission d) = ticket_fingerprint (il_sha L) (en_ticket d)
    \<and> am_actor_id (en_admission d) = tk_actor_id (en_ticket d) \<and> am_actor_id_type (en_admission d) = tk_actor_id_type (en_ticket d)
    \<and> (\<exists>table. iw_table w = Some table \<and> route_authorised a table (en_admission d) (en_ticket d))"
proof -
  have v: "validate_admitted_feishu_event L w (envelope_event d) None (Some a)"
    using assms by (simp add: envelope_allowed_def)
  from validated_authorised [OF v] show ?thesis by (auto simp: envelope_event_def pinned_iff)
qed

lemma name_sender_keeps: "name_sender w m e = Some e1 \<Longrightarrow> fe_source e1 = fe_source e \<and> fe_message_id e1 = fe_message_id e"
  by (auto simp: name_sender_def split: option.splits if_splits)

lemma name_sender_user:
  assumes "name_sender w m e = Some e1" "am_actor_kind m = ''user''"
  shows "\<exists>table0 r. iw_table w = Some table0 \<and> lookup_by_open_id table0 (am_actor_subject m) = Some r
    \<and> source_ids e \<noteq> [] \<and> set (source_ids e) \<subseteq> set (row_aliases r) \<and> e1 = e\<lparr>fe_sender_open_id := str_or_empty (r_open_id r)\<rparr>"
  using assms by (simp add: name_sender_def split: option.splits if_splits)

text \<open>C1. The core's message handler runs only for what the ingress authorised: the event carries the envelope's ticket, signed
  here for this account and not expired, and names its chat and message; the routing table read at the last check gives the
  admission's profile, route version and credential, the credential of the sender only in a chat without a group and of the
  app in a group; and an employee's event leaves with the open_id of its row, of which every identifier it came with is an alias.\<close>

theorem handled_event_authorised:
  assumes "guarded_message L w w' w'' a raw e = Some (e', owner)" "so_platform (fe_source e) = ''feishu''"
  shows "\<exists>d table. raw = Some d \<and> fe_ticket e' = Some (en_ticket d) \<and> fe_admission e' = Some (en_admission d)
    \<and> am_authentic (en_admission d) \<and> ticket_valid L (iw_now w') (fa_app_id a) (en_ticket d)
    \<and> so_chat_id (fe_source e) = tk_chat_id (en_ticket d) \<and> event_message_id e = tk_message_id (en_ticket d)
    \<and> iw_table w' = Some table \<and> route_authorised a table (en_admission d) (en_ticket d)
    \<and> (am_actor_kind (en_admission d) = ''user'' \<longrightarrow>
        (\<exists>table0 r. iw_table w = Some table0 \<and> lookup_by_open_id table0 (am_actor_subject (en_admission d)) = Some r
          \<and> fe_sender_open_id e' = am_actor_subject (en_admission d) \<and> source_ids e \<noteq> [] \<and> set (source_ids e) \<subseteq> set (row_aliases r)))"
proof -
  obtain d where d: "raw = Some d" "envelope_allowed L w a (Some d)"
    using assms(1) by (auto simp: guarded_message_def split: option.splits if_splits)
  let ?m = "en_admission d"
  obtain e1 where e1: "name_sender w ?m e = Some e1"
    and v: "validate_admitted_feishu_event L w' (stamp_event d e1) None (Some a)" and e': "e' = stamp_event d e1"
    using assms(1) d by (simp add: guarded_message_def Let_def split: option.splits if_splits)
  have src: "fe_source e1 = fe_source e" "fe_message_id e1 = fe_message_id e" using name_sender_keeps [OF e1] by simp_all
  then have fs: "so_platform (fe_source (stamp_event d e1)) = ''feishu''" using assms(2) by (simp add: stamp_event_def)
  obtain table where t: "ticket_valid L (iw_now w') (fa_app_id a) (en_ticket d)" "am_authentic ?m"
      "pinned ?m (en_ticket d) (stamp_event d e1)" "iw_table w' = Some table" "route_authorised a table ?m (en_ticket d)"
    using validated_authorised [OF v fs] by (auto simp: stamp_event_def)
  have pin: "so_chat_id (fe_source e) = tk_chat_id (en_ticket d)" "event_message_id e = tk_message_id (en_ticket d)"
    using t(3) src by (simp_all add: pinned_iff stamp_event_def event_message_id_def)
  have named: "\<exists>table0 r. iw_table w = Some table0 \<and> lookup_by_open_id table0 (am_actor_subject ?m) = Some r
      \<and> fe_sender_open_id e' = am_actor_subject ?m \<and> source_ids e \<noteq> [] \<and> set (source_ids e) \<subseteq> set (row_aliases r)"
    if user: "am_actor_kind ?m = ''user''"
  proof -
    obtain table0 r where r: "iw_table w = Some table0" "lookup_by_open_id table0 (am_actor_subject ?m) = Some r"
        "source_ids e \<noteq> []" "set (source_ids e) \<subseteq> set (row_aliases r)" "e1 = e\<lparr>fe_sender_open_id := str_or_empty (r_open_id r)\<rparr>"
      using name_sender_user [OF e1 user] by blast
    have "r_open_id r = Some (am_actor_subject ?m)"
      using r(2) by (auto simp: lookup_by_open_id_def dest!: fetch_unique_mem)
    then have "fe_sender_open_id e' = am_actor_subject ?m" by (simp add: e' r(5) stamp_event_def str_or_empty_def)
    with r show ?thesis by blast
  qed
  have "fe_ticket e' = Some (en_ticket d)" "fe_admission e' = Some ?m" by (simp_all add: e' stamp_event_def)
  with d(1) t pin named show ?thesis by blast
qed

text \<open>An interactive prompt is answered by the one it was sent for: where a card was bound to the owner sealed with a message,
  a click that the wrapper lets through is an admitted click, still authorised, of the sender of that message, with the route of
  then: the same actor, profile and route version.\<close>

lemma prompt_clicked_by_its_owner:
  assumes "seal_prompt_owner L w a d = Some p" "sealed_owner_binding w1 (Some p) chat = Some b" "ps_binding state = Some b"
    and "bound_prompt_click L w2 a click state event"
  shows "\<exists>c table. click = Some c \<and> tk_event_kind (en_ticket c) \<in> {''button'', ''form''}
    \<and> tk_actor_id (en_ticket c) = tk_actor_id (en_ticket d) \<and> tk_actor_id_type (en_ticket c) = tk_actor_id_type (en_ticket d)
    \<and> am_actor_subject (en_admission c) = am_actor_subject (en_admission d)
    \<and> am_profile_name (en_admission c) = am_profile_name (en_admission d)
    \<and> am_route_version (en_admission c) = am_route_version (en_admission d)
    \<and> feishu_value (feishu_value event ''operator'') (tk_actor_id_type (en_ticket d)) = JStr (tk_actor_id (en_ticket d))
    \<and> tk_message_id (en_ticket c) = ps_message_id state
    \<and> ticket_valid L (iw_now w2) (fa_app_id a) (en_ticket c)
    \<and> iw_table w2 = Some table \<and> route_authorised a table (en_admission c) (en_ticket c)"
proof -
  have bind: "b = \<lparr>pb_actor_id = tk_actor_id (en_ticket x), pb_actor_id_type = tk_actor_id_type (en_ticket x),
      pb_actor_subject = am_actor_subject (en_admission x), pb_profile_name = am_profile_name (en_admission x),
      pb_route_version = am_route_version (en_admission x)\<rparr> \<and> envelope_allowed L v a (Some x)"
    if "prompt_binding L v a (Some x) ct = Some b" for v x ct
    using that by (auto simp: prompt_binding_def split: if_splits)
  have "prompt_binding L w a (Some d) (tk_chat_id (en_ticket d)) = Some (po_binding p)"
    using assms(1) by (auto simp: seal_prompt_owner_def split: option.splits)
  moreover have "po_binding p = b"
    using assms(2) by (auto simp: sealed_owner_binding_def split: option.splits if_splits)
  ultimately have bd: "prompt_binding L w a (Some d) (tk_chat_id (en_ticket d)) = Some b" by simp
  obtain c where c: "click = Some c" "prompt_binding L w2 a (Some c) (ps_chat_id state) = Some b"
      "tk_event_kind (en_ticket c) \<in> {''button'', ''form''}" "tk_message_id (en_ticket c) = ps_message_id state"
      "feishu_value (feishu_value event ''operator'') (tk_actor_id_type (en_ticket c)) = JStr (tk_actor_id (en_ticket c))"
    using assms(3,4) by (auto simp: bound_prompt_click_def Let_def split: option.splits if_splits)
  note b1 = bind [OF bd] and b2 = bind [OF c(2)]
  have eqs: "tk_actor_id (en_ticket c) = tk_actor_id (en_ticket d)" "tk_actor_id_type (en_ticket c) = tk_actor_id_type (en_ticket d)"
    "am_actor_subject (en_admission c) = am_actor_subject (en_admission d)"
    "am_profile_name (en_admission c) = am_profile_name (en_admission d)"
    "am_route_version (en_admission c) = am_route_version (en_admission d)"
    using b1 b2 by simp_all
  obtain table where "ticket_valid L (iw_now w2) (fa_app_id a) (en_ticket c)" "iw_table w2 = Some table"
      "route_authorised a table (en_admission c) (en_ticket c)"
    using envelope_authorised [OF conjunct2 [OF b2]] by blast
  with c eqs show ?thesis by simp
qed

section \<open>Approvals\<close>

definition recorded_owners :: "ingress_lib \<Rightarrow> (prompt_owner option \<times> json) list \<Rightarrow> approval_owners" where
  "recorded_owners L rs = foldl (\<lambda>owners x. record_approval_owner L (fst x) (snd x) owners) [] rs"

abbreviation request_id :: "ingress_lib \<Rightarrow> json \<Rightarrow> string" where
  "request_id L j \<equiv> str_or (il_py L) (feishu_value j ''request_id'')"

abbreviation fingerprint_of :: "ingress_lib \<Rightarrow> prompt_owner \<Rightarrow> string" where
  "fingerprint_of L p \<equiv> owner_fingerprint (il_sha L) (pb_profile_name (po_binding p)) (pb_actor_subject (po_binding p))"

lemma recorded_nonempty: "([], f) \<notin> set (recorded_owners L rs)"
proof (induction rs rule: rev_induct)
  case (snoc x rs)
  then show ?case
    by (auto simp: recorded_owners_def record_approval_owner_def set_at_end_def Let_def split: option.splits dest!: in_set_dropD)
qed (simp add: recorded_owners_def)

lemma recorded_owner_last:
  assumes "(k, f) \<in> set (recorded_owners L rs)"
  shows "\<exists>pre p data post. rs = pre @ (Some p, data) # post \<and> request_id L data = k \<and> f = fingerprint_of L p
    \<and> (\<forall>x \<in> set post. request_id L (snd x) = k \<longrightarrow> fst x = None)"
  using assms
proof (induction rs rule: rev_induct)
  case Nil
  then show ?case by (simp add: recorded_owners_def)
next
  case (snoc x rs)
  let ?k = "request_id L (snd x)"
  have step: "recorded_owners L (rs @ [x]) = record_approval_owner L (fst x) (snd x) (recorded_owners L rs)"
    by (simp add: recorded_owners_def)
  consider (new) p where "fst x = Some p" "k = ?k" "f = fingerprint_of L p"
    | (old) "(k, f) \<in> set (recorded_owners L rs)" "fst x = None \<or> ?k = [] \<or> k \<noteq> ?k"
    using snoc.prems unfolding step record_approval_owner_def Let_def
    by (auto simp: set_at_end_def split: option.splits if_splits dest!: in_set_dropD)
  then show ?case
  proof cases
    case new
    then show ?thesis by (intro exI [of _ rs] exI [of _ p] exI [of _ "snd x"] exI [of _ "[]"]) (cases x, simp)
  next
    case old
    obtain pre p data post where r: "rs = pre @ (Some p, data) # post" "request_id L data = k" "f = fingerprint_of L p"
      "\<forall>y \<in> set post. request_id L (snd y) = k \<longrightarrow> fst y = None" using snoc.IH [OF old(1)] by blast
    have "k \<noteq> []" using old(1) recorded_nonempty by blast
    then have "request_id L (snd x) = k \<longrightarrow> fst x = None" using old(2) by blast
    with r show ?thesis by (intro exI [of _ pre] exI [of _ p] exI [of _ data] exI [of _ "post @ [x]"]) auto
  qed
qed

section \<open>Witnesses\<close>

text \<open>Alice writes to the bot in her direct chat, and later clicks the card it sent her.\<close>

definition demo_user :: routing_row where
  "demo_user = (blank_row 1 ''u1'' ''alice'')\<lparr>r_open_id := Some ''ou_1''\<rparr>"

definition demo_world :: "rat \<Rightarrow> ingress_world" where
  "demo_world now = \<lparr>iw_now = now, iw_table = Some [demo_user], iw_home_is_dir = (\<lambda>p. p = ''alice''), iw_module_class = None\<rparr>"

definition demo_message_data :: json where
  "demo_message_data = JObj [(''header'', JObj [(''event_id'', JStr ''ev2'')]),
     (''event'', JObj [(''sender'', JObj [(''sender_id'', JObj [(''open_id'', JStr ''ou_1'')]), (''sender_type'', JStr ''user'')]),
       (''message'', JObj [(''chat_id'', JStr ''oc_dm''), (''message_id'', JStr ''om_2'')])])]"

definition demo_click_event :: json where
  "demo_click_event = JObj [(''operator'', JObj [(''open_id'', JStr ''ou_1'')]),
     (''context'', JObj [(''open_chat_id'', JStr ''oc_dm''), (''open_message_id'', JStr ''om_card'')])]"

definition demo_click_data :: json where
  "demo_click_data = JObj [(''header'', JObj [(''event_id'', JStr ''ev3'')]), (''event'', demo_click_event)]"

definition demo_envelope :: "rat \<Rightarrow> string \<Rightarrow> json \<Rightarrow> envelope" where
  "demo_envelope now event_type data = the (fst (raw_callback demo_ingress_lib (demo_world now) (demo_world now) demo_adapter 1
     event_type data ''websocket'' no_claims))"

definition message_envelope :: envelope where "message_envelope = demo_envelope 0 ''im.message.receive_v1'' demo_message_data"

definition click_envelope :: envelope where "click_envelope = demo_envelope 1000 ''card.action.trigger'' demo_click_data"

definition demo_incoming :: feishu_event where
  "demo_incoming = \<lparr>fe_source = \<lparr>so_platform = ''feishu'', so_open_id = [], so_user_id = ''u1'', so_user_id_alt = ''ou_1'',
     so_chat_id = ''oc_dm'', so_chat_type = ''p2p'', so_message_id = []\<rparr>, fe_sender_open_id = ''ou_1'', fe_message_id = ''om_2'',
     fe_ticket = None, fe_admission = None\<rparr>"

definition demo_handled :: "(feishu_event \<times> prompt_owner option) option" where
  "demo_handled = guarded_message demo_ingress_lib (demo_world 1) (demo_world 2) (demo_world 3) demo_adapter (Some message_envelope)
     demo_incoming"

lemma demo_handled_Some: "demo_handled \<noteq> None"
  by code_simp

theorem handled_event_authorised_witness:
  "\<exists>d table. Some message_envelope = Some d \<and> route_authorised demo_adapter table (en_admission d) (en_ticket d)"
proof -
  have h: "guarded_message demo_ingress_lib (demo_world 1) (demo_world 2) (demo_world 3) demo_adapter (Some message_envelope)
      demo_incoming = Some (fst (the demo_handled), snd (the demo_handled))"
    using demo_handled_Some unfolding demo_handled_def by (metis option.collapse prod.collapse)
  have f: "so_platform (fe_source demo_incoming) = ''feishu''" by (simp add: demo_incoming_def)
  from handled_event_authorised [OF h f] show ?thesis by blast
qed

definition demo_owner :: prompt_owner where
  "demo_owner = the (seal_prompt_owner demo_ingress_lib (demo_world 3) demo_adapter message_envelope)"

definition demo_prompt_state :: prompt_state where
  "demo_prompt_state = \<lparr>ps_chat_id = ''oc_dm'', ps_message_id = ''om_card'', ps_binding = Some (po_binding demo_owner)\<rparr>"

lemma some_the: "x \<noteq> None \<Longrightarrow> x = Some (the x)"
  by simp

lemma demo_owner_sealed: "seal_prompt_owner demo_ingress_lib (demo_world 3) demo_adapter message_envelope = Some demo_owner"
proof -
  have "seal_prompt_owner demo_ingress_lib (demo_world 3) demo_adapter message_envelope \<noteq> None" by code_simp
  then show ?thesis unfolding demo_owner_def by (rule some_the)
qed

definition demo_approval :: json where "demo_approval = JObj [(''request_id'', JStr ''r1'')]"


section \<open>The wrapped calls\<close>

text \<open>Each wrapper lets its call through only on an envelope that is authorised at that moment.\<close>

lemma raw_callback_authorised:
  assumes "raw_callback L w w' a class event_type data transport s = (Some d, s')"
  shows "en_raw d = data \<and> tk_event_kind (en_ticket d) = ingress_kind event_type data
    \<and> tk_event_kind (en_ticket d) \<in> {''message'', ''button'', ''form''}
    \<and> (\<exists>table. iw_table w' = Some table \<and> route_authorised a table (en_admission d) (en_ticket d))"
proof -
  have disp: "dispatch_trusted_ingress L w a class event_type data transport s = (Callback d, s')"
    and ok: "envelope_allowed L w' a (Some d)"
    using assms by (auto simp: raw_callback_def admitted_callback_def split: prod.splits dispatched.splits if_splits)
  obtain t where t: "issue_trusted_ingress_ticket L class (iw_now w) (fa_app_id a) event_type data transport [] = Some t"
      "en_ticket d = t" "en_raw d = data" and k: "ingress_kind event_type data \<notin> set [''comment'', ''vc'', ''reaction'']"
    using disp unfolding dispatch_trusted_ingress_def Let_def admit_ingress_ticket_def
    by (auto split: if_splits option.splits prod.splits)
  have "tk_event_kind t = ingress_kind event_type data" using issue_Some [OF t(1)] by (auto simp: issue_fields)
  moreover have "ingress_kind event_type data \<in> {''message'', ''button'', ''form''}"
    using k by (auto simp: ingress_kind_def Let_def split: if_splits)
  ultimately show ?thesis using t(2,3) envelope_authorised [OF ok] by simp
qed

lemma synthetic_event_authorised:
  assumes "synthetic_event L w a class chat raw s = (Some (d, message_id, chat_type), s')"
  shows "tk_chat_id (en_ticket d) = chat \<and> message_id = tk_message_id (en_ticket d) \<and> chat_type = am_chat_type (en_admission d)
    \<and> (\<exists>table. iw_table w = Some table \<and> route_authorised a table (en_admission d) (en_ticket d))"
proof -
  have ok: "envelope_allowed L w a (Some d)" and eq: "tk_chat_id (en_ticket d) = chat" "message_id = tk_message_id (en_ticket d)"
      "chat_type = am_chat_type (en_admission d)"
    using assms by (auto simp: synthetic_event_def split: prod.splits option.splits if_splits)
  with envelope_authorised [OF ok] show ?thesis by blast
qed

lemma popped_prompt_bound:
  assumes "pop_validated_prompt_state L w a ingress states ident = Some state"
  shows "map_of states ident = Some state
    \<and> (\<exists>d. ingress = Some d \<and> bound_prompt_click L w a ingress state (feishu_value (en_raw d) ''event''))"
proof -
  have m: "map_of states ident = Some state"
    and b: "bound_prompt_click L w a ingress state (feishu_value (case ingress of None \<Rightarrow> JNull | Some d \<Rightarrow> en_raw d) ''event'')"
    using assms by (auto simp: pop_validated_prompt_state_def split: option.splits if_splits)
  show ?thesis
  proof (cases ingress)
    case None
    with b show ?thesis by (simp add: bound_prompt_click_def)
  next
    case (Some d)
    with m b show ?thesis by simp
  qed
qed

text \<open>A card is sent only with a binding: of the sealed owner while its route stands, or of the current click.\<close>

lemma card_bound_to_sender:
  assumes "card_binding L w a owner ingress chat = Some b"
  shows "(\<exists>p. owner = Some p \<and> b = po_binding p \<and> tk_chat_id (po_ticket p) = chat)
    \<or> (\<exists>d. ingress = Some d \<and> envelope_allowed L w a (Some d) \<and> tk_chat_id (en_ticket d) = chat
        \<and> pb_actor_id b = tk_actor_id (en_ticket d) \<and> pb_actor_subject b = am_actor_subject (en_admission d))"
  using assms unfolding card_binding_def sealed_owner_binding_def prompt_binding_def
  by (auto split: option.splits if_splits)

lemma approval_handler_guarded:
  assumes "approval_handler_runs L approve tokens e pending owners" "so_platform (fe_source e) = ''feishu''" "pending \<noteq> []"
  shows "\<exists>resolve_all. text_approval_allowed L e pending resolve_all owners \<and> (''all'' \<notin> set tokens \<longrightarrow> \<not> resolve_all)"
proof -
  have p: "lower (strip ''feishu'') = ''feishu''" by code_simp
  have t: "take 1 tokens = [''all''] \<Longrightarrow> ''all'' \<in> set tokens" by (cases tokens) auto
  from assms p t show ?thesis by (auto simp: approval_handler_runs_def Let_def split: if_splits)
qed

end
