(* ===== verification/Projects.thy ===== *)
theory Projects
  imports Push_Scenes "HOL-Library.List_Lexorder"
begin

text \<open>
  The projects of a profile (\<open>src/hermes_multitenancy/projects.py\<close>) and the resolution of a workspace inside the profile
  (\<open>run_models.py\<close>, \<open>resolve_profile_workspace\<close>). A store is the two tables of one profile's \<open>projects.db\<close>. A method that
  reads and then writes in a second transaction takes what other requests commit in between as the argument \<open>other\<close>. SHA-256
  is the argument \<open>H\<close>; the file system is a \<open>workspace_fs\<close>; the clock and the random token are arguments.
\<close>

section \<open>Workspaces\<close>

text \<open>
  \<open>wf_root_ok\<close>: the workspace root can be made and is a real directory; \<open>wf_root\<close> its resolved path, by components;
  \<open>wf_resolve\<close> what a path below it resolves to, with whether it is a directory (None: \<open>OSError\<close> or \<open>ValueError\<close>).
\<close>

record workspace_fs =
  wf_root_ok :: bool
  wf_root :: "string list"
  wf_resolve :: "string \<Rightarrow> (string list \<times> bool) option"

text \<open>\<open>target.relative_to(root)\<close> and its text.\<close>

definition relative_to :: "string list \<Rightarrow> string list \<Rightarrow> string list option" where
  "relative_to target base = (if take (length base) target = base then Some (drop (length base) target) else None)"

definition as_posix :: "string list \<Rightarrow> string" where
  "as_posix parts = (if parts = [] then ''.'' else join_sep CHR ''/'' parts)"

definition invalid_workspace :: py_error where "invalid_workspace = ValueError ''invalid workspace''"

definition resolve_profile_workspace :: "workspace_fs \<Rightarrow> json \<Rightarrow> (string option \<times> string list) result" where
  "resolve_profile_workspace fs workspace =
     (if \<not> wf_root_ok fs then Inl invalid_workspace
      else if workspace = JNull \<or> workspace = JStr [] then Inr (None, wf_root fs)
      else (case workspace of
              JStr s \<Rightarrow>
                let raw = strip s
                in if raw = [] \<or> CHR 0x5C \<in> set raw \<or> CHR 0x00 \<in> set raw \<or> startswith raw ''/''
                      \<or> list_ex (\<lambda>part. part \<in> set [''.'', ''..'']) (split_on CHR ''/'' raw)
                   then Inl invalid_workspace
                   else (case wf_resolve fs raw of
                           None \<Rightarrow> Inl invalid_workspace
                         | Some (target, is_dir) \<Rightarrow>
                             (case relative_to target (wf_root fs) of
                                None \<Rightarrow> Inl invalid_workspace
                              | Some parts \<Rightarrow>
                                  if \<not> is_dir then Inl invalid_workspace
                                  else let normalized = as_posix parts
                                       in Inr (if normalized \<noteq> ''.'' then Some normalized else None, target)))
            | _ \<Rightarrow> Inl invalid_workspace))"

section \<open>Data\<close>

text \<open>The errors a method raises; a value that can not be hashed raises \<open>TypeError\<close> where it is looked up in a set.\<close>

datatype project_error =
    ProjectInvalid string
  | ProjectNotFound string
  | ProjectConflict string
  | ProjectIntegrity
  | UnhashableType

type_synonym 'a project_result = "project_error + 'a"

definition pbind :: "'a project_result \<Rightarrow> ('a \<Rightarrow> 'b project_result) \<Rightarrow> 'b project_result" where
  "pbind r f = (case r of Inl e \<Rightarrow> Inl e | Inr x \<Rightarrow> f x)"

record project_row =
  pj_id :: string
  pj_owner_hash :: string
  pj_name :: string
  pj_description :: string
  pj_instructions :: string
  pj_icon :: string
  pj_color :: string
  pj_primary_folder :: "string option"
  pj_status :: string
  pj_created_at :: int
  pj_updated_at :: int

record session_project =
  sj_session_id :: string
  sj_owner_hash :: string
  sj_project_id :: "string option"
  sj_project_name :: "string option"
  sj_description :: string
  sj_workspace :: "string option"
  sj_instructions :: string
  sj_fingerprint :: string
  sj_created_at :: int

record project_db =
  pd_projects :: "project_row list"
  pd_sessions :: "session_project list"

record project_context =
  px_session_id :: string
  px_project_id :: "string option"
  px_project_name :: "string option"
  px_description :: string
  px_workspace :: "string option"
  px_instructions :: string
  px_fingerprint :: string
  px_skip_memory :: bool
  px_disabled_toolsets :: "string list"

text \<open>What the API shows of a project: every column but the owner.\<close>

type_synonym project_json =
  "string \<times> string \<times> string \<times> string \<times> string \<times> string \<times> string option \<times> string \<times> int \<times> int"

definition project_view :: "project_row \<Rightarrow> project_json" where
  "project_view r = (pj_id r, pj_name r, pj_description r, pj_instructions r, pj_icon r, pj_color r, pj_primary_folder r,
     pj_status r, pj_created_at r, pj_updated_at r)"

section \<open>Checks\<close>

definition clean_project_text :: "json \<Rightarrow> string \<Rightarrow> nat \<Rightarrow> bool \<Rightarrow> string project_result" where
  "clean_project_text value0 name limit required =
     (case (if value0 = JNull then JStr [] else value0) of
        JStr s \<Rightarrow>
          (let t = strip s
           in if required \<and> t = [] then Inl (ProjectInvalid (name @ '' is required''))
              else if char_count t > limit then Inl (ProjectInvalid (name @ '' is too long''))
              else Inr t)
      | _ \<Rightarrow> Inl (ProjectInvalid (name @ '' must be a string'')))"

definition actor_hash :: "(string \<Rightarrow> string) \<Rightarrow> string \<Rightarrow> string project_result" where
  "actor_hash H actor_subject =
     (let actor = strip actor_subject
      in if actor = [] then Inl (ProjectInvalid ''verified owner identity is required'') else Inr (H actor))"

text \<open>\<open>value in {None, ""}\<close>: None if the value can not be hashed.\<close>

definition in_none_or_empty :: "json \<Rightarrow> bool option" where
  "in_none_or_empty v = (case v of JArr _ \<Rightarrow> None | JObj _ \<Rightarrow> None | _ \<Rightarrow> Some (v = JNull \<or> v = JStr []))"

definition normalize_folder :: "workspace_fs \<Rightarrow> json \<Rightarrow> string option project_result" where
  "normalize_folder fs value0 =
     (case in_none_or_empty value0 of
        None \<Rightarrow> Inl UnhashableType
      | Some True \<Rightarrow> Inr None
      | Some False \<Rightarrow>
          pbind (clean_project_text value0 ''primary_folder'' 512 True) (\<lambda>folder.
            case resolve_profile_workspace fs (JStr folder) of
              Inl e \<Rightarrow> Inl (ProjectInvalid ''invalid workspace'')
            | Inr (None, _) \<Rightarrow> Inl (ProjectInvalid ''primary_folder must be below the workspace root'')
            | Inr (Some normalized, _) \<Rightarrow> Inr (Some normalized)))"

text \<open>The sorted names of a set of fields.\<close>

definition code_points :: "string \<Rightarrow> nat list" where
  "code_points s = map of_char s"

fun join_names :: "string list \<Rightarrow> string" where
  "join_names [] = []"
| "join_names [x] = x"
| "join_names (x # y # ys) = x @ '', '' @ join_names (y # ys)"

section \<open>Projects\<close>

definition find_project :: "project_db \<Rightarrow> string \<Rightarrow> string \<Rightarrow> project_row option" where
  "find_project db project_id owner = fetchone (filter (\<lambda>r. pj_id r = project_id \<and> pj_owner_hash r = owner) (pd_projects db))"

definition get_project_row :: "(string \<Rightarrow> string) \<Rightarrow> project_db \<Rightarrow> string \<Rightarrow> string \<Rightarrow> project_row project_result" where
  "get_project_row H db actor project_id0 =
     pbind (actor_hash H actor) (\<lambda>owner.
     pbind (clean_project_text (JStr project_id0) ''project_id'' 128 True) (\<lambda>project_id.
       case find_project db project_id owner of
         None \<Rightarrow> Inl (ProjectNotFound ''project not found'')
       | Some row \<Rightarrow> Inr row))"

definition get_project :: "(string \<Rightarrow> string) \<Rightarrow> project_db \<Rightarrow> string \<Rightarrow> string \<Rightarrow> project_json project_result" where
  "get_project H db actor project_id = pbind (get_project_row H db actor project_id) (\<lambda>row. Inr (project_view row))"

definition new_project ::
    "(string \<Rightarrow> string) \<Rightarrow> workspace_fs \<Rightarrow> int \<Rightarrow> string \<Rightarrow> string \<Rightarrow> (string \<times> json) list \<Rightarrow> project_row project_result" where
  "new_project H fs now token actor p =
     pbind (actor_hash H actor) (\<lambda>owner.
     pbind (clean_project_text (jget p ''name'') ''name'' 80 True) (\<lambda>name.
     pbind (clean_project_text (jget p ''description'') ''description'' 2000 False) (\<lambda>description.
     pbind (clean_project_text (jget p ''instructions'') ''instructions'' 8000 False) (\<lambda>instructions.
     pbind (clean_project_text (jget p ''icon'') ''icon'' 32 False) (\<lambda>icon.
     pbind (clean_project_text (jget p ''color'') ''color'' 32 False) (\<lambda>color.
     pbind (normalize_folder fs (jget p ''primary_folder'')) (\<lambda>folder.
       Inr \<lparr>pj_id = ''prj_'' @ token, pj_owner_hash = owner, pj_name = name, pj_description = description,
            pj_instructions = instructions, pj_icon = icon, pj_color = color, pj_primary_folder = folder,
            pj_status = ''active'', pj_created_at = now, pj_updated_at = now\<rparr>)))))))"

definition create_project ::
    "(string \<Rightarrow> string) \<Rightarrow> workspace_fs \<Rightarrow> int \<Rightarrow> string \<Rightarrow> project_db \<Rightarrow> string \<Rightarrow> json \<Rightarrow> project_db \<times> project_json project_result" where
  "create_project H fs now token db actor payload =
     (case payload of
        JObj p \<Rightarrow>
          (case new_project H fs now token actor p of
             Inl e \<Rightarrow> (db, Inl e)
           | Inr row \<Rightarrow>
               if pj_id row \<in> pj_id ` set (pd_projects db) then (db, Inl ProjectIntegrity)
               else let db' = db\<lparr>pd_projects := pd_projects db @ [row]\<rparr> in (db', get_project H db' actor (pj_id row)))
      | _ \<Rightarrow> (db, Inl (ProjectInvalid ''request body must be an object'')))"

definition list_projects :: "(string \<Rightarrow> string) \<Rightarrow> project_db \<Rightarrow> string \<Rightarrow> bool \<Rightarrow> project_json list project_result" where
  "list_projects H db actor include_archived =
     pbind (actor_hash H actor) (\<lambda>owner.
       Inr (map project_view (order_by_desc pj_updated_at (sort_key (\<lambda>r. code_points (pj_id r))
         (filter (\<lambda>r. pj_owner_hash r = owner \<and> (include_archived \<or> pj_status r = ''active'')) (pd_projects db))))))"

definition PROJECT_FIELDS :: "string list" where
  "PROJECT_FIELDS = [''name'', ''description'', ''instructions'', ''icon'', ''color'', ''primary_folder'']"

text \<open>A field of the payload that is there is cleaned, one that is not keeps the value read.\<close>

definition updated_text :: "(string \<times> json) list \<Rightarrow> string \<Rightarrow> nat \<Rightarrow> bool \<Rightarrow> string \<Rightarrow> string project_result" where
  "updated_text p key limit required current =
     (case map_of p key of None \<Rightarrow> Inr current | Some v \<Rightarrow> clean_project_text v key limit required)"

definition updated_row :: "workspace_fs \<Rightarrow> (string \<times> json) list \<Rightarrow> project_row \<Rightarrow> project_row project_result" where
  "updated_row fs p r =
     pbind (updated_text p ''name'' 80 True (pj_name r)) (\<lambda>name.
     pbind (updated_text p ''description'' 2000 False (pj_description r)) (\<lambda>description.
     pbind (updated_text p ''instructions'' 8000 False (pj_instructions r)) (\<lambda>instructions.
     pbind (updated_text p ''icon'' 32 False (pj_icon r)) (\<lambda>icon.
     pbind (updated_text p ''color'' 32 False (pj_color r)) (\<lambda>color.
     pbind (case map_of p ''primary_folder'' of None \<Rightarrow> Inr (pj_primary_folder r) | Some v \<Rightarrow> normalize_folder fs v) (\<lambda>folder.
       Inr (r\<lparr>pj_name := name, pj_description := description, pj_instructions := instructions, pj_icon := icon,
              pj_color := color, pj_primary_folder := folder\<rparr>)))))))"

text \<open>The values to write and the owner: the checks of \<open>update_project\<close> on the project as read.\<close>

definition checked_update ::
    "(string \<Rightarrow> string) \<Rightarrow> workspace_fs \<Rightarrow> project_db \<Rightarrow> string \<Rightarrow> string \<Rightarrow> (string \<times> json) list \<Rightarrow> (project_row \<times> string) project_result" where
  "checked_update H fs db actor project_id p =
     pbind (get_project_row H db actor project_id) (\<lambda>current.
       if pj_status current \<noteq> ''active'' then Inl (ProjectConflict ''project is archived'')
       else let unknown = sort_key code_points (remdups (filter (\<lambda>k. k \<notin> set PROJECT_FIELDS) (map fst p)))
            in if unknown \<noteq> [] then Inl (ProjectInvalid (''unsupported fields: '' @ join_names unknown))
               else pbind (updated_row fs p current) (\<lambda>vals.
                    pbind (actor_hash H actor) (\<lambda>owner. Inr (vals, owner))))"

definition overwrite :: "int \<Rightarrow> project_row \<Rightarrow> project_row \<Rightarrow> project_row" where
  "overwrite now vals r =
     r\<lparr>pj_name := pj_name vals, pj_description := pj_description vals, pj_instructions := pj_instructions vals,
       pj_icon := pj_icon vals, pj_color := pj_color vals, pj_primary_folder := pj_primary_folder vals, pj_updated_at := now\<rparr>"

definition update_project ::
    "(string \<Rightarrow> string) \<Rightarrow> workspace_fs \<Rightarrow> int \<Rightarrow> (project_db \<Rightarrow> project_db) \<Rightarrow> project_db \<Rightarrow> string \<Rightarrow> string \<Rightarrow> json
      \<Rightarrow> project_db \<times> project_json project_result" where
  "update_project H fs now other db actor project_id payload =
     (case payload of
        JObj p \<Rightarrow>
          (case checked_update H fs db actor project_id p of
             Inl e \<Rightarrow> (db, Inl e)
           | Inr (vals, owner) \<Rightarrow>
               let db1 = other db;
                   db2 = db1\<lparr>pd_projects := sql_update
                           (\<lambda>r. pj_id r = project_id \<and> pj_owner_hash r = owner \<and> pj_status r = ''active'')
                           (overwrite now vals) (pd_projects db1)\<rparr>
               in (db2, get_project H db2 actor project_id))
      | _ \<Rightarrow> (db, Inl (ProjectInvalid ''request body must be an object'')))"

definition archive_project ::
    "(string \<Rightarrow> string) \<Rightarrow> int \<Rightarrow> (project_db \<Rightarrow> project_db) \<Rightarrow> project_db \<Rightarrow> string \<Rightarrow> string \<Rightarrow> project_db \<times> project_json project_result" where
  "archive_project H now other db actor project_id =
     (case pbind (get_project_row H db actor project_id) (\<lambda>_. actor_hash H actor) of
        Inl e \<Rightarrow> (db, Inl e)
      | Inr owner \<Rightarrow>
          let db1 = other db;
              db2 = db1\<lparr>pd_projects := sql_update (\<lambda>r. pj_id r = project_id \<and> pj_owner_hash r = owner)
                      (\<lambda>r. r\<lparr>pj_status := ''archived'', pj_updated_at := now\<rparr>) (pd_projects db1)\<rparr>
          in (db2, get_project H db2 actor project_id))"

section \<open>Sessions\<close>

definition context_from_row :: "session_project \<Rightarrow> project_context" where
  "context_from_row r =
     (let bound = str_or_empty (sj_project_id r) \<noteq> []; folder = str_or_empty (sj_workspace r) \<noteq> []
      in \<lparr>px_session_id = sj_session_id r, px_project_id = sj_project_id r, px_project_name = sj_project_name r,
          px_description = sj_description r, px_workspace = sj_workspace r, px_instructions = sj_instructions r,
          px_fingerprint = sj_fingerprint r, px_skip_memory = bound,
          px_disabled_toolsets =
            (if bound \<and> \<not> folder
             then [''code_execution'', ''delegation'', ''file'', ''memory'', ''session_search'', ''terminal'']
             else if bound then [''memory'', ''session_search''] else [])\<rparr>)"

text \<open>The status of the joined project; None when there is none.\<close>

definition joined_status :: "project_db \<Rightarrow> session_project \<Rightarrow> string option" where
  "joined_status db r =
     (case sj_project_id r of
        None \<Rightarrow> None
      | Some i \<Rightarrow> map_option pj_status (fetchone (filter (\<lambda>p. pj_id p = i) (pd_projects db))))"

definition workspace_available :: "workspace_fs \<Rightarrow> string \<Rightarrow> unit project_result" where
  "workspace_available fs w =
     (case resolve_profile_workspace fs (JStr w) of
        Inl e \<Rightarrow> Inl (ProjectConflict ''project workspace is unavailable'')
      | Inr (normalized, _) \<Rightarrow>
          if normalized \<noteq> Some w then Inl (ProjectConflict ''project workspace is unavailable'') else Inr ())"

definition validated_context_from_row ::
    "workspace_fs \<Rightarrow> project_db \<Rightarrow> session_project \<Rightarrow> project_context project_result" where
  "validated_context_from_row fs db r =
     (if str_or_empty (sj_project_id r) \<noteq> [] \<and> joined_status db r \<noteq> Some ''active'' then Inl (ProjectConflict ''project is archived'')
      else pbind (if str_or_empty (sj_workspace r) \<noteq> [] then workspace_available fs (str_or_empty (sj_workspace r)) else Inr ())
             (\<lambda>_. Inr (context_from_row r)))"

definition find_session :: "project_db \<Rightarrow> string \<Rightarrow> session_project option" where
  "find_session db session_id = tbl_get sj_session_id (pd_sessions db) session_id"

text \<open>The first checks of \<open>bind_session\<close>: the owner, the session, the project asked for and the workspace asked for.\<close>

definition bind_request ::
    "(string \<Rightarrow> string) \<Rightarrow> workspace_fs \<Rightarrow> string \<Rightarrow> string \<Rightarrow> json \<Rightarrow> bool \<Rightarrow> json
      \<Rightarrow> (string \<times> string \<times> string option \<times> string option) project_result" where
  "bind_request H fs actor session_id0 requested_project_id requested_supplied requested_workspace =
     pbind (actor_hash H actor) (\<lambda>owner.
     pbind (clean_project_text (JStr session_id0) ''session_id'' 256 True) (\<lambda>session_id.
     pbind (if requested_supplied then pbind (clean_project_text requested_project_id ''project_id'' 128 True) (\<lambda>i. Inr (Some i)) else Inr None)
       (\<lambda>project_id.
     pbind (case in_none_or_empty requested_workspace of
              None \<Rightarrow> Inl UnhashableType
            | Some True \<Rightarrow> Inr None
            | Some False \<Rightarrow> (case resolve_profile_workspace fs requested_workspace of
                              Inl e \<Rightarrow> Inl (ProjectInvalid ''invalid workspace'')
                            | Inr (normalized, _) \<Rightarrow> Inr normalized))
       (\<lambda>requested_normalized. Inr (owner, session_id, project_id, requested_normalized)))))"

text \<open>The row of a session that has none yet.\<close>

definition new_binding ::
    "(string \<Rightarrow> string) \<Rightarrow> workspace_fs \<Rightarrow> int \<Rightarrow> project_db \<Rightarrow> string \<Rightarrow> string \<Rightarrow> string option \<Rightarrow> string option
      \<Rightarrow> session_project project_result" where
  "new_binding H fs now db owner session_id project_id requested_normalized =
     (let row = (\<lambda>name description workspace instructions.
            \<lparr>sj_session_id = session_id, sj_owner_hash = owner, sj_project_id = project_id, sj_project_name = name,
             sj_description = description, sj_workspace = workspace, sj_instructions = instructions,
             sj_fingerprint = H instructions, sj_created_at = now\<rparr>)
      in case project_id of
           None \<Rightarrow> Inr (row None [] requested_normalized [])
         | Some i \<Rightarrow>
             (case find_project db i owner of
                None \<Rightarrow> Inl (ProjectNotFound ''project not found'')
              | Some p \<Rightarrow>
                  if pj_status p \<noteq> ''active'' then Inl (ProjectConflict ''project is archived'')
                  else if requested_normalized \<noteq> None \<and> requested_normalized \<noteq> pj_primary_folder p
                  then Inl (ProjectConflict ''requested workspace does not match project'')
                  else pbind (if str_or_empty (pj_primary_folder p) \<noteq> []
                              then workspace_available fs (str_or_empty (pj_primary_folder p)) else Inr ())
                         (\<lambda>_. Inr (row (Some (pj_name p)) (pj_description p) (pj_primary_folder p) (pj_instructions p)))))"

definition bind_session ::
    "(string \<Rightarrow> string) \<Rightarrow> workspace_fs \<Rightarrow> int \<Rightarrow> project_db \<Rightarrow> string \<Rightarrow> string \<Rightarrow> json \<Rightarrow> bool \<Rightarrow> json
      \<Rightarrow> project_db \<times> project_context project_result" where
  "bind_session H fs now db actor session_id requested_project_id requested_supplied requested_workspace =
     (case bind_request H fs actor session_id requested_project_id requested_supplied requested_workspace of
        Inl e \<Rightarrow> (db, Inl e)
      | Inr (owner, sid, project_id, requested_normalized) \<Rightarrow>
          (case find_session db sid of
             Some existing \<Rightarrow>
               (db, if sj_owner_hash existing \<noteq> owner then Inl (ProjectNotFound ''session project not found'')
                    else if requested_supplied \<and> project_id \<noteq> sj_project_id existing
                    then Inl (ProjectConflict ''session is already bound to a different project'')
                    else if requested_normalized \<noteq> None \<and> requested_normalized \<noteq> sj_workspace existing
                    then Inl (ProjectConflict ''session is already bound to a different workspace'')
                    else validated_context_from_row fs db existing)
           | None \<Rightarrow>
               (case new_binding H fs now db owner sid project_id requested_normalized of
                  Inl e \<Rightarrow> (db, Inl e)
                | Inr row \<Rightarrow> (db\<lparr>pd_sessions := pd_sessions db @ [row]\<rparr>, Inr (context_from_row row)))))"

definition get_session_context ::
    "(string \<Rightarrow> string) \<Rightarrow> workspace_fs \<Rightarrow> project_db \<Rightarrow> string \<Rightarrow> string \<Rightarrow> project_context project_result" where
  "get_session_context H fs db actor session_id0 =
     pbind (actor_hash H actor) (\<lambda>owner.
     pbind (clean_project_text (JStr session_id0) ''session_id'' 256 True) (\<lambda>session_id.
       case fetchone (filter (\<lambda>r. sj_session_id r = session_id \<and> sj_owner_hash r = owner) (pd_sessions db)) of
         None \<Rightarrow> Inl (ProjectNotFound ''session project not found'')
       | Some row \<Rightarrow> validated_context_from_row fs db row))"

definition list_project_sessions ::
    "(string \<Rightarrow> string) \<Rightarrow> (project_db \<Rightarrow> project_db) \<Rightarrow> project_db \<Rightarrow> string \<Rightarrow> string \<Rightarrow> (string \<times> int) list project_result" where
  "list_project_sessions H other db actor project_id =
     pbind (get_project H db actor project_id) (\<lambda>_.
     pbind (actor_hash H actor) (\<lambda>owner.
       Inr (map (\<lambda>r. (sj_session_id r, sj_created_at r)) (order_by_desc sj_created_at
         (filter (\<lambda>r. sj_owner_hash r = owner \<and> sj_project_id r = Some project_id) (pd_sessions (other db)))))))"

section \<open>Requests\<close>

datatype project_call =
    ListProjects bool
  | CreateProject "json option"
  | GetProject string
  | UpdateProject string "json option"
  | ArchiveProject string
  | ProjectSessions string
  | SessionContext string

text \<open>
  A request as \<open>register_routes\<close> sees it: whether \<open>authorize\<close> accepts it, the profile and actor that \<open>owner_tenant\<close> verifies for
  a read or (True) a write (None: \<open>PermissionError\<close>), and the call. A body that is no JSON is None.
\<close>

record project_request =
  pq_authorized :: bool
  pq_tenant :: "bool \<Rightarrow> (string \<times> string) option"
  pq_call :: project_call

record receipt_view =
  pt_session_id :: string
  pt_project_id :: "string option"
  pt_project_name :: "string option"
  pt_workspace :: "string option"
  pt_fingerprint :: string
  pt_memory_enabled :: bool
  pt_session_search_enabled :: bool
  pt_folder_bound :: "bool option"

definition project_receipt :: "project_context \<Rightarrow> receipt_view" where
  "project_receipt c =
     \<lparr>pt_session_id = px_session_id c, pt_project_id = px_project_id c, pt_project_name = px_project_name c,
      pt_workspace = px_workspace c, pt_fingerprint = px_fingerprint c, pt_memory_enabled = (\<not> px_skip_memory c),
      pt_session_search_enabled = (''session_search'' \<notin> set (px_disabled_toolsets c)),
      pt_folder_bound = (if str_or_empty (px_project_id c) \<noteq> [] then Some (str_or_empty (px_workspace c) \<noteq> []) else None)\<rparr>"

datatype project_response =
    ProjectFailure int string
  | ProjectItems "project_json list"
  | ProjectShown int project_json
  | SessionItems "(string \<times> int) list"
  | SessionReceipt receipt_view

text \<open>\<open>_error\<close>; what is no \<open>ProjectError\<close> leaves the handler, a status 500 without a body of its own.\<close>

definition project_failure :: "project_error \<Rightarrow> project_response" where
  "project_failure e = (case e of
       ProjectInvalid m \<Rightarrow> ProjectFailure 400 m
     | ProjectNotFound m \<Rightarrow> ProjectFailure 404 m
     | ProjectConflict m \<Rightarrow> ProjectFailure 409 m
     | ProjectIntegrity \<Rightarrow> ProjectFailure 500 []
     | UnhashableType \<Rightarrow> ProjectFailure 500 [])"

definition respond :: "('a \<Rightarrow> project_response) \<Rightarrow> 'a project_result \<Rightarrow> project_response" where
  "respond f r = (case r of Inl e \<Rightarrow> project_failure e | Inr x \<Rightarrow> f x)"

text \<open>\<open>_payload\<close>.\<close>

definition project_payload :: "json option \<Rightarrow> json project_result" where
  "project_payload body = (case body of
       None \<Rightarrow> Inl (ProjectInvalid ''invalid json'')
     | Some (JObj p) \<Rightarrow> Inr (JObj p)
     | Some _ \<Rightarrow> Inl (ProjectInvalid ''request body must be an object''))"

text \<open>\<open>_identity\<close>: the failure, or the profile and the actor.\<close>

definition project_identity :: "project_request \<Rightarrow> bool \<Rightarrow> project_response + (string \<times> string)" where
  "project_identity q write =
     (if \<not> pq_authorized q then Inl (ProjectFailure 401 ''unauthorized'')
      else (case pq_tenant q write of
              None \<Rightarrow> Inl (ProjectFailure 403 ''project access denied'')
            | Some (profile, actor) \<Rightarrow>
                if profile = [] \<or> actor = [] then Inl (ProjectFailure 403 ''verified owner identity is required'')
                else Inr (profile, actor)))"

text \<open>The stores by profile; \<open>other\<close> is what other requests commit inside this one.\<close>

type_synonym project_stores = "string \<Rightarrow> project_db"

definition with_identity ::
    "project_stores \<Rightarrow> project_request \<Rightarrow> bool \<Rightarrow> (project_db \<Rightarrow> string \<Rightarrow> string \<Rightarrow> project_db \<times> project_response)
      \<Rightarrow> project_stores \<times> project_response" where
  "with_identity stores q write f =
     (case project_identity q write of
        Inl failure \<Rightarrow> (stores, failure)
      | Inr (profile, actor) \<Rightarrow>
          (case f (stores profile) profile actor of (db, response) \<Rightarrow> (stores(profile := db), response)))"

definition handle_project ::
    "(string \<Rightarrow> string) \<Rightarrow> (string \<Rightarrow> workspace_fs) \<Rightarrow> int \<Rightarrow> string \<Rightarrow> (project_db \<Rightarrow> project_db) \<Rightarrow> project_stores \<Rightarrow> project_request
      \<Rightarrow> project_stores \<times> project_response" where
  "handle_project H fs now token other stores q =
     (case pq_call q of
        ListProjects archived \<Rightarrow>
          with_identity stores q False (\<lambda>db profile actor. (db, respond ProjectItems (list_projects H db actor archived)))
      | CreateProject body \<Rightarrow>
          (case project_payload body of
             Inl e \<Rightarrow> (stores, project_failure e)
           | Inr payload \<Rightarrow> with_identity stores q True (\<lambda>db profile actor.
               case create_project H (fs profile) now token db actor payload of (db', r) \<Rightarrow> (db', respond (ProjectShown 201) r)))
      | GetProject i \<Rightarrow>
          with_identity stores q False (\<lambda>db profile actor. (db, respond (ProjectShown 200) (get_project H db actor i)))
      | UpdateProject i body \<Rightarrow>
          (case project_payload body of
             Inl e \<Rightarrow> (stores, project_failure e)
           | Inr payload \<Rightarrow> with_identity stores q True (\<lambda>db profile actor.
               case update_project H (fs profile) now other db actor i payload of (db', r) \<Rightarrow> (db', respond (ProjectShown 200) r)))
      | ArchiveProject i \<Rightarrow>
          with_identity stores q True (\<lambda>db profile actor.
            case archive_project H now other db actor i of (db', r) \<Rightarrow> (db', respond (ProjectShown 200) r))
      | ProjectSessions i \<Rightarrow>
          with_identity stores q False (\<lambda>db profile actor. (db, respond SessionItems (list_project_sessions H other db actor i)))
      | SessionContext i \<Rightarrow>
          with_identity stores q False (\<lambda>db profile actor.
            (db, respond (\<lambda>c. SessionReceipt (project_receipt c)) (get_session_context H (fs profile) db actor i))))"

section \<open>What a store keeps\<close>

lemma pbind_simps [simp]: "pbind (Inl e) f = Inl e" "pbind (Inr x) f = f x"
  by (simp_all add: pbind_def)

lemma pbind_Inr: "pbind r f = Inr y \<longleftrightarrow> (\<exists>x. r = Inr x \<and> f x = Inr y)"
  by (cases r) simp_all

text \<open>
  \<open>db_evolves Ow H db db'\<close>: the sessions of \<open>db\<close> are still there, unchanged and first, those added belong to an owner in \<open>Ow\<close>,
  concern other sessions and carry the fingerprint of their instructions; and of the projects only those of an owner in \<open>Ow\<close>
  may differ, by added rows or rewritten ones of the same identity.
\<close>

definition same_project :: "project_row \<Rightarrow> project_row \<Rightarrow> bool" where
  "same_project r q \<longleftrightarrow> pj_id q = pj_id r \<and> pj_owner_hash q = pj_owner_hash r \<and> pj_created_at q = pj_created_at r
     \<and> (pj_status r \<noteq> ''active'' \<longrightarrow> pj_status q \<noteq> ''active'' \<and> project_view q = project_view (r\<lparr>pj_status := pj_status q, pj_updated_at := pj_updated_at q\<rparr>))"

definition added_session :: "string set \<Rightarrow> (string \<Rightarrow> string) \<Rightarrow> session_project list \<Rightarrow> session_project \<Rightarrow> bool" where
  "added_session Ow H ss r \<longleftrightarrow> sj_owner_hash r \<in> Ow \<and> sj_session_id r \<notin> sj_session_id ` set ss \<and> sj_fingerprint r = H (sj_instructions r)"

definition sessions_kept :: "string set \<Rightarrow> (string \<Rightarrow> string) \<Rightarrow> session_project list \<Rightarrow> session_project list \<Rightarrow> bool" where
  "sessions_kept Ow H ss ss' \<longleftrightarrow> (\<exists>new. ss' = ss @ new \<and> list_all (added_session Ow H ss) new)"

abbreviation kept_project :: "string set \<Rightarrow> project_row \<Rightarrow> project_row \<Rightarrow> bool" where
  "kept_project Ow \<equiv> \<lambda>r q. same_project r q \<and> (pj_owner_hash r \<notin> Ow \<longrightarrow> q = r)"

abbreviation foreign :: "string set \<Rightarrow> project_row list \<Rightarrow> project_row list" where
  "foreign Ow ps \<equiv> filter (\<lambda>r. pj_owner_hash r \<notin> Ow) ps"

definition db_evolves :: "string set \<Rightarrow> (string \<Rightarrow> string) \<Rightarrow> project_db \<Rightarrow> project_db \<Rightarrow> bool" where
  "db_evolves Ow H db db' \<longleftrightarrow> sessions_kept Ow H (pd_sessions db) (pd_sessions db')
     \<and> grows (kept_project Ow) (pd_projects db) (pd_projects db')
     \<and> foreign Ow (pd_projects db') = foreign Ow (pd_projects db)"

interpretation kept_projects: evolving_table pj_id "kept_project Ow"
  by unfold_locales (auto simp: same_project_def project_view_def)

lemma sessions_kept_refl: "sessions_kept Ow H ss ss"
  by (simp add: sessions_kept_def)

lemma sessions_kept_trans:
  assumes "sessions_kept Ow H a b" "sessions_kept Ow H b c"
  shows "sessions_kept Ow H a c"
proof -
  obtain n1 n2 where n: "b = a @ n1" "list_all (added_session Ow H a) n1" "c = b @ n2" "list_all (added_session Ow H b) n2"
    using assms unfolding sessions_kept_def by blast
  have mono: "added_session Ow H a r" if "added_session Ow H b r" for r
    using that by (auto simp: added_session_def n(1))
  have "list_all (added_session Ow H a) n2" by (rule list.pred_mono_strong [OF n(4) mono])
  then have "list_all (added_session Ow H a) (n1 @ n2)" using n(2) by simp
  then show ?thesis unfolding sessions_kept_def n(3) n(1) append_assoc by blast
qed

lemma sessions_kept_widen: "sessions_kept Ow H a b \<Longrightarrow> Ow \<subseteq> P \<Longrightarrow> sessions_kept P H a b"
  unfolding sessions_kept_def added_session_def list_all_iff by blast

lemma grows_mono: "grows R t t' \<Longrightarrow> (\<And>r q. R r q \<Longrightarrow> S r q) \<Longrightarrow> grows S t t'"
  unfolding grows_def using list_all2_mono by blast

lemma db_evolves_refl: "db_evolves Ow H db db"
  by (simp add: db_evolves_def kept_projects.grows_refl sessions_kept_refl)

lemma db_evolves_trans:
  assumes "db_evolves Ow H a b" "db_evolves Ow H b c"
  shows "db_evolves Ow H a c"
proof -
  note a = assms(1) [unfolded db_evolves_def] and b = assms(2) [unfolded db_evolves_def]
  note s = sessions_kept_trans [OF conjunct1 [OF a] conjunct1 [OF b]]
  note g = kept_projects.grows_trans [OF conjunct1 [OF conjunct2 [OF a]] conjunct1 [OF conjunct2 [OF b]]]
  note f = trans [OF conjunct2 [OF conjunct2 [OF b]] conjunct2 [OF conjunct2 [OF a]]]
  show ?thesis unfolding db_evolves_def by (intro conjI s g f)
qed

lemma db_evolves_widen:
  assumes "db_evolves Ow H a b" "Ow \<subseteq> P"
  shows "db_evolves P H a b"
proof -
  have g: "grows (kept_project P) (pd_projects a) (pd_projects b)"
    by (rule grows_mono [of "kept_project Ow"]) (use assms in \<open>auto simp: db_evolves_def\<close>)
  have sub: "foreign P xs = foreign P (foreign Ow xs)" for xs
    using assms(2) by (auto simp: filter_filter intro!: filter_cong)
  have f: "foreign P (pd_projects b) = foreign P (pd_projects a)"
    using assms(1) sub [of "pd_projects a"] sub [of "pd_projects b"] by (simp add: db_evolves_def)
  have "sessions_kept Ow H (pd_sessions a) (pd_sessions b)" using assms(1) by (simp add: db_evolves_def)
  then have k: "sessions_kept P H (pd_sessions a) (pd_sessions b)" by (rule sessions_kept_widen [OF _ assms(2)])
  show ?thesis unfolding db_evolves_def by (intro conjI k g f)
qed

lemma db_evolves_update:
  assumes "\<And>r. P r \<Longrightarrow> pj_owner_hash r \<in> Ow \<and> same_project r (f r)"
  shows "db_evolves Ow H db (db\<lparr>pd_projects := sql_update P f (pd_projects db)\<rparr>)"
proof -
  have "foreign Ow (sql_update P f t) = foreign Ow t" for t
  proof (induction t)
    case (Cons r t)
    have "pj_owner_hash (f r) \<in> Ow" if "P r" using assms [OF that] by (simp add: same_project_def)
    with Cons assms [of r] show ?case by auto
  qed simp
  moreover have "grows (kept_project Ow) (pd_projects db) (sql_update P f (pd_projects db))"
    by (rule kept_projects.grows_update) (use assms in blast)
  ultimately show ?thesis by (simp add: db_evolves_def sessions_kept_refl)
qed

lemma db_evolves_insert:
  assumes "pj_owner_hash r \<in> Ow"
  shows "db_evolves Ow H db (db\<lparr>pd_projects := pd_projects db @ [r]\<rparr>)"
  using assms kept_projects.grows_append [of Ow "pd_projects db" "[r]"] by (simp add: db_evolves_def sessions_kept_refl)

lemma actor_hash_Inr: "actor_hash H actor = Inr owner \<longleftrightarrow> strip actor \<noteq> [] \<and> owner = H (strip actor)"
  by (auto simp: actor_hash_def Let_def)

lemma clean_project_text_Inr: "clean_project_text (JStr s) name limit required = Inr t \<Longrightarrow> t = strip s"
  by (auto simp: clean_project_text_def Let_def split: if_splits)

lemma get_project_row_Inr:
  assumes "get_project_row H db actor i = Inr r"
  shows "r \<in> set (pd_projects db) \<and> pj_id r = strip i \<and> pj_owner_hash r = H (strip actor) \<and> strip actor \<noteq> []"
proof -
  obtain k where k: "strip actor \<noteq> []" "clean_project_text (JStr i) ''project_id'' 128 True = Inr k"
      "find_project db k (H (strip actor)) = Some r"
    using assms by (auto simp: get_project_row_def pbind_Inr actor_hash_Inr split: option.splits)
  from k(3) have "r \<in> set (filter (\<lambda>r. pj_id r = k \<and> pj_owner_hash r = H (strip actor)) (pd_projects db))"
    unfolding find_project_def by (rule fetchone_Some_mem)
  with k(1) clean_project_text_Inr [OF k(2)] show ?thesis by simp
qed

definition own_views :: "(string \<Rightarrow> string) \<Rightarrow> project_db \<Rightarrow> string \<Rightarrow> project_json set" where
  "own_views H db actor = project_view ` {r \<in> set (pd_projects db). pj_owner_hash r = H (strip actor)}"

lemma get_project_own: "get_project H db actor i = Inr v \<Longrightarrow> v \<in> own_views H db actor"
  by (auto simp: get_project_def pbind_Inr own_views_def dest!: get_project_row_Inr)

lemma list_projects_own: "list_projects H db actor archived = Inr vs \<Longrightarrow> set vs \<subseteq> own_views H db actor"
  by (auto simp: list_projects_def pbind_Inr actor_hash_Inr own_views_def)

lemma new_project_owner: "new_project H fs now token actor p = Inr row \<Longrightarrow> pj_owner_hash row = H (strip actor)"
  by (auto simp: new_project_def pbind_Inr actor_hash_Inr)

lemma checked_update_owner: "checked_update H fs db actor i p = Inr (vals, owner) \<Longrightarrow> owner = H (strip actor)"
  by (auto simp: checked_update_def pbind_Inr actor_hash_Inr Let_def split: if_splits)

text \<open>What an operation of an actor does to a store, and what it shows.\<close>

definition own_change ::
    "(string \<Rightarrow> string) \<Rightarrow> string \<Rightarrow> project_db set \<Rightarrow> project_db \<times> project_json project_result \<Rightarrow> bool" where
  "own_change H actor before c \<longleftrightarrow> (\<exists>d \<in> before. db_evolves {H (strip actor)} H d (fst c))
     \<and> (\<forall>v. snd c = Inr v \<longrightarrow> v \<in> own_views H (fst c) actor)"

lemma own_change_error: "d \<in> before \<Longrightarrow> own_change H actor before (d, Inl e)"
  using db_evolves_refl by (auto simp: own_change_def)

lemma own_change_get:
  "d \<in> before \<Longrightarrow> db_evolves {H (strip actor)} H d d' \<Longrightarrow> own_change H actor before (d', get_project H d' actor i)"
  using get_project_own by (auto simp: own_change_def)

lemma create_project_own: "own_change H actor {db} (create_project H fs now token db actor payload)"
proof (cases payload)
  case (JObj p)
  show ?thesis
  proof (cases "new_project H fs now token actor p")
    case (Inr row)
    have "db_evolves {H (strip actor)} H db (db\<lparr>pd_projects := pd_projects db @ [row]\<rparr>)"
      by (rule db_evolves_insert) (simp add: new_project_owner [OF Inr])
    from own_change_get [OF _ this, of "{db}" "pj_id row"] JObj Inr show ?thesis by (simp add: create_project_def Let_def own_change_error)
  qed (simp add: JObj create_project_def own_change_error)
qed (simp_all add: create_project_def own_change_error)

lemma update_project_own: "own_change H actor {db, other db} (update_project H fs now other db actor i payload)"
proof (cases payload)
  case (JObj p)
  show ?thesis
  proof (cases "checked_update H fs db actor i p")
    case (Inr x)
    obtain vals owner where x: "checked_update H fs db actor i p = Inr (vals, owner)" using Inr by (cases x) auto
    let ?d = "(other db)\<lparr>pd_projects := sql_update (\<lambda>r. pj_id r = i \<and> pj_owner_hash r = owner \<and> pj_status r = ''active'')
        (overwrite now vals) (pd_projects (other db))\<rparr>"
    have "db_evolves {H (strip actor)} H (other db) ?d"
      by (rule db_evolves_update) (simp add: same_project_def overwrite_def checked_update_owner [OF x])
    from own_change_get [OF _ this, of "{db, other db}" i] JObj x show ?thesis by (simp add: update_project_def Let_def)
  qed (simp add: JObj update_project_def own_change_error)
qed (simp_all add: update_project_def own_change_error)

lemma archive_project_own: "own_change H actor {db, other db} (archive_project H now other db actor i)"
proof (cases "pbind (get_project_row H db actor i) (\<lambda>_. actor_hash H actor)")
  case (Inr owner)
  then have o: "owner = H (strip actor)" by (auto simp: pbind_Inr actor_hash_Inr)
  let ?d = "(other db)\<lparr>pd_projects := sql_update (\<lambda>r. pj_id r = i \<and> pj_owner_hash r = owner)
      (\<lambda>r. r\<lparr>pj_status := ''archived'', pj_updated_at := now\<rparr>) (pd_projects (other db))\<rparr>"
  have "db_evolves {H (strip actor)} H (other db) ?d"
    by (rule db_evolves_update) (simp add: same_project_def project_view_def o)
  from own_change_get [OF _ this, of "{db, other db}" i] Inr show ?thesis by (simp add: archive_project_def Let_def)
qed (simp add: archive_project_def own_change_error)

lemma bind_request_Inr:
  assumes "bind_request H fs actor sid pid supplied ws = Inr (owner, s, p, n)"
  shows "owner = H (strip actor) \<and> strip actor \<noteq> [] \<and> s = strip sid
    \<and> (\<forall>w. n = Some w \<longrightarrow> (\<exists>target. resolve_profile_workspace fs ws = Inr (Some w, target)))"
  using assms unfolding bind_request_def
  by (auto simp: pbind_Inr actor_hash_Inr dest!: clean_project_text_Inr split: option.splits bool.splits sum.splits)

lemma new_binding_Inr:
  assumes "new_binding H fs now db owner s p n = Inr row"
  shows "sj_session_id row = s \<and> sj_owner_hash row = owner \<and> sj_fingerprint row = H (sj_instructions row)"
  using assms unfolding new_binding_def Let_def by (auto simp: pbind_Inr split: option.splits if_splits)

lemma bind_session_cases:
  obtains (kept) "fst (bind_session H fs now db actor sid pid supplied ws) = db"
  | (bound) row where "fst (bind_session H fs now db actor sid pid supplied ws) = db\<lparr>pd_sessions := pd_sessions db @ [row]\<rparr>"
      "find_session db (strip sid) = None" "sj_session_id row = strip sid" "sj_owner_hash row = H (strip actor)"
      "sj_fingerprint row = H (sj_instructions row)"
      "snd (bind_session H fs now db actor sid pid supplied ws) = Inr (context_from_row row)"
proof (cases "bind_request H fs actor sid pid supplied ws")
  case (Inl e)
  then show ?thesis using kept by (simp add: bind_session_def)
next
  case (Inr x)
  obtain owner s p n where x: "bind_request H fs actor sid pid supplied ws = Inr (owner, s, p, n)" using Inr by (cases x) auto
  note bx = bind_request_Inr [OF x]
  show ?thesis
  proof (cases "find_session db s")
    case None
    show ?thesis
    proof (cases "new_binding H fs now db owner s p n")
      case (Inl e)
      then show ?thesis using kept x None by (simp add: bind_session_def)
    next
      case (Inr row)
      then show ?thesis using bound x None bx new_binding_Inr [OF Inr] by (simp add: bind_session_def)
    qed
  next
    case (Some r)
    then show ?thesis using kept x by (simp add: bind_session_def)
  qed
qed

lemma find_session_None: "find_session db s = None \<longleftrightarrow> s \<notin> sj_session_id ` set (pd_sessions db)"
  by (simp add: find_session_def tbl_get_None)

lemma bind_session_db_evolves: "db_evolves {H (strip actor)} H db (fst (bind_session H fs now db actor sid pid supplied ws))"
proof (cases rule: bind_session_cases [of H fs now db actor sid pid supplied ws])
  case kept
  then show ?thesis using db_evolves_refl by simp
next
  case (bound row)
  have "sessions_kept {H (strip actor)} H (pd_sessions db) (pd_sessions db @ [row])"
    using bound(2-5) by (simp add: sessions_kept_def added_session_def find_session_None)
  moreover have "grows (kept_project {H (strip actor)}) (pd_projects db) (pd_projects db)" by (rule kept_projects.grows_refl)
  ultimately show ?thesis unfolding bound(1) db_evolves_def by simp
qed
section \<open>Owners are isolated\<close>

definition shown_views :: "project_response \<Rightarrow> project_json set" where
  "shown_views r = (case r of ProjectItems vs \<Rightarrow> set vs | ProjectShown _ v \<Rightarrow> {v} | _ \<Rightarrow> {})"

lemma shown_failure [simp]: "shown_views (project_failure e) = {}"
  by (simp add: shown_views_def project_failure_def split: project_error.split)

lemma identity_failure: "project_identity q wr = Inl f \<Longrightarrow> shown_views f = {}"
  by (auto simp: project_identity_def shown_views_def split: if_splits option.splits)

lemma own_change_shown: "own_change H actor before c \<Longrightarrow> shown_views (respond (ProjectShown n) (snd c)) \<subseteq> own_views H (fst c) actor"
  by (auto simp: own_change_def respond_def shown_views_def split: sum.splits) (auto simp: project_failure_def split: project_error.splits)

text \<open>\<open>isolated H before after q resp\<close>: the request changes nothing, or as the verified actor of one profile that profile's
  store alone; and shows rows of that actor only.\<close>

definition isolated ::
    "(string \<Rightarrow> string) \<Rightarrow> (project_db \<Rightarrow> project_db) \<Rightarrow> project_stores \<Rightarrow> project_request \<Rightarrow> project_stores \<times> project_response \<Rightarrow> bool" where
  "isolated H other stores q c \<longleftrightarrow> (fst c = stores \<and> shown_views (snd c) = {})
     \<or> (\<exists>wr profile actor. project_identity q wr = Inr (profile, actor)
         \<and> fst c = stores(profile := fst c profile)
         \<and> (\<exists>d \<in> {stores profile, other (stores profile)}. db_evolves {H (strip actor)} H d (fst c profile))
         \<and> shown_views (snd c) \<subseteq> own_views H (fst c profile) actor)"

lemma with_identity_isolated:
  assumes "\<And>profile actor. project_identity q wr = Inr (profile, actor) \<Longrightarrow>
      (\<exists>d \<in> {stores profile, other (stores profile)}. db_evolves {H (strip actor)} H d (fst (f (stores profile) profile actor)))
      \<and> shown_views (snd (f (stores profile) profile actor)) \<subseteq> own_views H (fst (f (stores profile) profile actor)) actor"
  shows "isolated H other stores q (with_identity stores q wr f)"
proof (cases "project_identity q wr")
  case (Inl e)
  then show ?thesis using identity_failure [OF Inl] by (simp add: isolated_def with_identity_def)
next
  case (Inr x)
  obtain profile actor where x: "project_identity q wr = Inr (profile, actor)" using Inr by (cases x) auto
  obtain db resp where f: "f (stores profile) profile actor = (db, resp)" by fastforce
  have w: "with_identity stores q wr f = (stores(profile := db), resp)" by (simp add: with_identity_def x f)
  show ?thesis
    unfolding isolated_def w using assms [OF x] x f by (intro disjI2 exI [of _ wr] exI [of _ profile] exI [of _ actor]) simp
qed

lemma read_isolated:
  assumes "\<And>profile actor. shown_views (g (stores profile) profile actor) \<subseteq> own_views H (stores profile) actor"
  shows "isolated H other stores q (with_identity stores q wr (\<lambda>db profile actor. (db, g db profile actor)))"
  by (rule with_identity_isolated) (use assms db_evolves_refl in auto)

lemma write_isolated:
  assumes "\<And>profile actor. own_change H actor {stores profile, other (stores profile)} (g (stores profile) profile actor)"
  shows "isolated H other stores q (with_identity stores q wr (\<lambda>db profile actor.
     case g db profile actor of (db', r) \<Rightarrow> (db', respond (ProjectShown n) r)))"
proof (rule with_identity_isolated)
  fix profile actor
  obtain db' r where c: "g (stores profile) profile actor = (db', r)" by fastforce
  from assms [of actor profile] own_change_shown [OF assms [of actor profile]] c
  show "(\<exists>d \<in> {stores profile, other (stores profile)}. db_evolves {H (strip actor)} H d
        (fst (case g (stores profile) profile actor of (db', r) \<Rightarrow> (db', respond (ProjectShown n) r))))
      \<and> shown_views (snd (case g (stores profile) profile actor of (db', r) \<Rightarrow> (db', respond (ProjectShown n) r)))
        \<subseteq> own_views H (fst (case g (stores profile) profile actor of (db', r) \<Rightarrow> (db', respond (ProjectShown n) r))) actor"
    by (simp add: own_change_def)
qed

lemma own_change_mono: "own_change H actor A c \<Longrightarrow> A \<subseteq> B \<Longrightarrow> own_change H actor B c"
  unfolding own_change_def by blast


section \<open>Bindings are for life\<close>

text \<open>The runs of a store: its operations by any actors, where what happens inside an update or archive is a run of its own.\<close>

inductive project_run :: "(string \<Rightarrow> string) \<Rightarrow> project_db \<Rightarrow> project_db \<Rightarrow> bool" for H where
  RunNil: "project_run H db db"
| RunCreate: "project_run H db d \<Longrightarrow> project_run H db (fst (create_project H fs now token d actor payload))"
| RunUpdate: "project_run H db d \<Longrightarrow> project_run H d (other d) \<Longrightarrow>
    project_run H db (fst (update_project H fs now other d actor i payload))"
| RunArchive: "project_run H db d \<Longrightarrow> project_run H d (other d) \<Longrightarrow> project_run H db (fst (archive_project H now other d actor i))"
| RunBind: "project_run H db d \<Longrightarrow> project_run H db (fst (bind_session H fs now d actor sid pid supplied ws))"

inductive_cases project_run_cases: "project_run H db db'"

lemma own_change_db_evolves: "own_change H actor before c \<Longrightarrow> \<exists>d \<in> before. db_evolves UNIV H d (fst c)"
  unfolding own_change_def using db_evolves_widen [OF _ subset_UNIV] by blast

lemma run_db_evolves: "project_run H db db' \<Longrightarrow> db_evolves UNIV H db db'"
proof (induction rule: project_run.induct)
  case (RunNil db)
  show ?case by (rule db_evolves_refl)
next
  case (RunCreate db d fs now token actor payload)
  from own_change_db_evolves [OF create_project_own] RunCreate.IH show ?case by (auto intro: db_evolves_trans)
next
  case (RunUpdate db d other fs now actor i payload)
  from own_change_db_evolves [OF update_project_own [where H = H and fs = fs and now = now and other = other and db = d and actor = actor and i = i and payload = payload]] RunUpdate.IH
  show ?case by (auto intro: db_evolves_trans)
next
  case (RunArchive db d other now actor i)
  from own_change_db_evolves [OF archive_project_own [where H = H and now = now and other = other and db = d and actor = actor and i = i]] RunArchive.IH
  show ?case by (auto intro: db_evolves_trans)
next
  case (RunBind db d fs now actor sid pid supplied ws)
  then show ?case using db_evolves_trans db_evolves_widen [OF bind_session_db_evolves subset_UNIV] by blast
qed

lemma db_evolves_session: "db_evolves Ow H db db' \<Longrightarrow> find_session db s = Some r \<Longrightarrow> find_session db' s = Some r"
  by (auto simp: db_evolves_def sessions_kept_def find_session_def tbl_get_append)

definition sessions_ok :: "(string \<Rightarrow> string) \<Rightarrow> project_db \<Rightarrow> bool" where
  "sessions_ok H db \<longleftrightarrow> distinct (map sj_session_id (pd_sessions db))
     \<and> list_all (\<lambda>r. sj_fingerprint r = H (sj_instructions r)) (pd_sessions db)"

lemma sessions_ok_eq: "pd_sessions db' = pd_sessions db \<Longrightarrow> sessions_ok H db \<Longrightarrow> sessions_ok H db'"
  by (simp add: sessions_ok_def)

lemma create_sessions: "pd_sessions (fst (create_project H fs now token d actor payload)) = pd_sessions d"
  by (simp add: create_project_def Let_def split: json.split sum.split)

lemma update_sessions: "pd_sessions (fst (update_project H fs now other d actor i payload)) \<in> {pd_sessions d, pd_sessions (other d)}"
  by (simp add: update_project_def Let_def split: json.split sum.split prod.split)

lemma archive_sessions: "pd_sessions (fst (archive_project H now other d actor i)) \<in> {pd_sessions d, pd_sessions (other d)}"
  by (simp add: archive_project_def Let_def split: sum.split)

lemma bind_sessions_ok: "sessions_ok H d \<Longrightarrow> sessions_ok H (fst (bind_session H fs now d actor sid pid supplied ws))"
proof (cases rule: bind_session_cases [of H fs now d actor sid pid supplied ws])
  case (bound row)
  then show "sessions_ok H d \<Longrightarrow> ?thesis" by (auto simp: sessions_ok_def find_session_None)
qed simp

lemma run_sessions_ok: "project_run H db db' \<Longrightarrow> sessions_ok H db \<Longrightarrow> sessions_ok H db'"
proof (induction rule: project_run.induct)
  case (RunCreate db d fs now token actor payload)
  then show ?case by (intro sessions_ok_eq [OF create_sessions])
next
  case (RunUpdate db d other fs now actor i payload)
  then show ?case using update_sessions [of H fs now other d actor i payload] sessions_ok_eq by (metis insertE singletonD)
next
  case (RunArchive db d other now actor i)
  then show ?case using archive_sessions [of H now other d actor i] sessions_ok_eq by (metis insertE singletonD)
next
  case (RunBind db d fs now actor sid pid supplied ws)
  then show ?case by (intro bind_sessions_ok)
qed

lemma validated_context: "validated_context_from_row fs db r = Inr c \<Longrightarrow> c = context_from_row r"
  by (auto simp: validated_context_from_row_def pbind_Inr split: if_splits)

lemma bound_context_row:
  assumes "bind_session H fs now db0 actor sid pid supplied ws = (db, Inr c)"
  shows "\<exists>r. find_session db (strip sid) = Some r \<and> sj_owner_hash r = H (strip actor) \<and> c = context_from_row r"
proof -
  obtain owner s p n where x: "bind_request H fs actor sid pid supplied ws = Inr (owner, s, p, n)"
    using assms by (auto simp: bind_session_def split: sum.splits)
  note bx = bind_request_Inr [OF x]
  show ?thesis
  proof (cases "find_session db0 s")
    case (Some r)
    have db: "db = db0" and v: "validated_context_from_row fs db0 r = Inr c" and o: "sj_owner_hash r = owner"
      using assms x Some by (auto simp: bind_session_def split: if_splits)
    from validated_context [OF v] db o bx Some show ?thesis by blast
  next
    case None
    obtain row where row: "new_binding H fs now db0 owner s p n = Inr row"
      using assms x None by (auto simp: bind_session_def split: sum.splits)
    have db: "db = db0\<lparr>pd_sessions := pd_sessions db0 @ [row]\<rparr>" and c: "c = context_from_row row"
      using assms x None row by (simp_all add: bind_session_def)
    have "find_session db s = Some row"
      using None new_binding_Inr [OF row] by (simp add: db find_session_def tbl_get_append tbl_get_Cons)
    with c bx new_binding_Inr [OF row] show ?thesis by auto
  qed
qed

lemma get_session_context_Inr:
  assumes "get_session_context H fs db actor sid = Inr c"
  obtains r where "fetchone (filter (\<lambda>r. sj_session_id r = strip sid \<and> sj_owner_hash r = H (strip actor)) (pd_sessions db)) = Some r"
    "validated_context_from_row fs db r = Inr c"
proof -
  obtain s where s: "clean_project_text (JStr sid) ''session_id'' 256 True = Inr s" "strip actor \<noteq> []"
    and c: "(case fetchone (filter (\<lambda>r. sj_session_id r = s \<and> sj_owner_hash r = H (strip actor)) (pd_sessions db)) of
        None \<Rightarrow> Inl (ProjectNotFound ''session project not found'') | Some row \<Rightarrow> validated_context_from_row fs db row) = Inr c"
    using assms unfolding get_session_context_def pbind_Inr actor_hash_Inr by blast
  show ?thesis
    by (cases "fetchone (filter (\<lambda>r. sj_session_id r = s \<and> sj_owner_hash r = H (strip actor)) (pd_sessions db))")
      (use c that clean_project_text_Inr [OF s(1)] in \<open>simp_all del: fetchone_None\<close>)
qed

lemma session_context_row:
  assumes "get_session_context H fs db actor sid = Inr c" "sessions_ok H db"
  shows "\<exists>r. find_session db (strip sid) = Some r \<and> sj_owner_hash r = H (strip actor) \<and> c = context_from_row r"
proof -
  obtain r where r: "fetchone (filter (\<lambda>r. sj_session_id r = strip sid \<and> sj_owner_hash r = H (strip actor)) (pd_sessions db)) = Some r"
    and v: "validated_context_from_row fs db r = Inr c"
    using get_session_context_Inr [OF assms(1)] .
  from fetchone_Some_mem [OF r] have m: "r \<in> set (pd_sessions db)" "sj_session_id r = strip sid" "sj_owner_hash r = H (strip actor)"
    by simp_all
  from tbl_get_distinct [of sj_session_id "pd_sessions db", OF _ m(1)] assms(2) m validated_context [OF v]
  show ?thesis by (auto simp: sessions_ok_def find_session_def)
qed

text \<open>C6. A session is bound once: whatever happens to the store after \<open>bind_session\<close> returned a context, with projects edited
  and archived and other requests inside the updates, every later context of that session is the very same one, for an actor
  with the same identity; and its instructions are those of its fingerprint.\<close>

theorem session_binding_fixed:
  assumes "project_run H \<lparr>pd_projects = [], pd_sessions = []\<rparr> db0"
    and "bind_session H fs now db0 actor sid pid supplied ws = (db, Inr c)" "project_run H db db'"
    and "get_session_context H fs' db' actor' sid' = Inr c'" "strip sid' = strip sid"
  shows "c' = c \<and> H (strip actor') = H (strip actor) \<and> px_fingerprint c = H (px_instructions c)"
proof -
  have ok0: "sessions_ok H db0" by (rule run_sessions_ok [OF assms(1)]) (simp add: sessions_ok_def)
  have ok: "sessions_ok H db" using bind_sessions_ok [OF ok0, of fs now actor sid pid supplied ws] assms(2) by simp
  obtain r where r: "find_session db (strip sid) = Some r" "sj_owner_hash r = H (strip actor)" "c = context_from_row r"
    using bound_context_row [OF assms(2)] by blast
  have r': "find_session db' (strip sid) = Some r" by (rule db_evolves_session [OF run_db_evolves [OF assms(3)] r(1)])
  obtain q where q: "find_session db' (strip sid') = Some q" "sj_owner_hash q = H (strip actor')" "c' = context_from_row q"
    using session_context_row [OF assms(4) run_sessions_ok [OF assms(3) ok]] by blast
  have "q = r" using q(1) r' assms(5) by simp
  moreover have "sj_fingerprint r = H (sj_instructions r)"
    using ok tbl_get_mem [OF r(1) [unfolded find_session_def]] by (simp add: sessions_ok_def list_all_iff)
  ultimately show ?thesis using r q by (simp add: context_from_row_def Let_def)
qed

section \<open>Workspaces stay inside\<close>

lemma resolved_inside:
  assumes "resolve_profile_workspace fs ws = Inr (Some w, target)"
  shows "\<exists>raw parts. ws = JStr raw \<and> wf_resolve fs (strip raw) = Some (target, True) \<and> target = wf_root fs @ parts \<and> parts \<noteq> []
    \<and> w = join_sep CHR ''/'' parts \<and> ''..'' \<notin> set (split_on CHR ''/'' (strip raw)) \<and> \<not> startswith (strip raw) ''/''"
proof -
  obtain raw parts where r: "ws = JStr raw" "wf_resolve fs (strip raw) = Some (target, True)"
      "relative_to target (wf_root fs) = Some parts" "w = as_posix parts" "w \<noteq> ''.''"
      "\<not> list_ex (\<lambda>part. part \<in> set [''.'', ''..'']) (split_on CHR ''/'' (strip raw))" "\<not> startswith (strip raw) ''/''"
    using assms by (auto simp: resolve_profile_workspace_def Let_def split: if_splits json.splits option.splits)
  have "target = wf_root fs @ parts" using r(3) by (auto simp: relative_to_def split: if_splits) (metis append_take_drop_id)
  moreover have "parts \<noteq> []" "w = join_sep CHR ''/'' parts" using r(4,5) by (auto simp: as_posix_def split: if_splits)
  moreover have "''..'' \<notin> set (split_on CHR ''/'' (strip raw))" using r(6) by (auto simp: list_ex_iff)
  ultimately show ?thesis using r by blast
qed

lemma validated_workspace:
  assumes "validated_context_from_row fs db r = Inr c" "px_workspace c = Some w" "w \<noteq> []"
  shows "\<exists>target. resolve_profile_workspace fs (JStr w) = Inr (Some w, target)"
proof -
  have "sj_workspace r = Some w" using validated_context [OF assms(1)] assms(2) by (simp add: context_from_row_def Let_def)
  then have "workspace_available fs w = Inr ()"
    using assms(1,3) by (auto simp: validated_context_from_row_def pbind_Inr str_or_empty_def split: if_splits)
  then show ?thesis by (auto simp: workspace_available_def split: sum.splits if_splits)
qed

text \<open>C8. The folder of a session lies inside its profile: when a context with a workspace is read, that very text resolves, at
  that moment and through every link, to a directory strictly below the profile's workspace root, whose relative path it is.\<close>

theorem session_workspace_inside:
  assumes "get_session_context H fs db actor sid = Inr c" "px_workspace c = Some w" "w \<noteq> []"
  shows "\<exists>parts. parts \<noteq> [] \<and> wf_resolve fs (strip w) = Some (wf_root fs @ parts, True) \<and> w = join_sep CHR ''/'' parts
    \<and> ''..'' \<notin> set (split_on CHR ''/'' (strip w))"
proof -
  obtain r where v: "validated_context_from_row fs db r = Inr c"
    using get_session_context_Inr [OF assms(1)] by blast
  obtain target where t: "resolve_profile_workspace fs (JStr w) = Inr (Some w, target)"
    using validated_workspace [OF v assms(2,3)] by blast
  from resolved_inside [OF t] show ?thesis by auto
qed

text \<open>A new binding, too, stores only the normal form of a path that resolved inside the root.\<close>

lemma new_binding_inside:
  assumes "bind_request H fs actor sid pid supplied ws = Inr (owner, s, p, n)" "new_binding H fs now db owner s p n = Inr row"
    and "sj_workspace row = Some w" "w \<noteq> []"
  shows "\<exists>raw target. resolve_profile_workspace fs raw = Inr (Some w, target)"
proof (cases p)
  case None
  then have "n = Some w" using assms(2,3) by (auto simp: new_binding_def Let_def)
  with bind_request_Inr [OF assms(1)] show ?thesis by blast
next
  case (Some i)
  obtain q where q: "find_project db i owner = Some q" "pj_primary_folder q = Some w"
    using assms(2,3) Some by (auto simp: new_binding_def Let_def pbind_Inr split: option.splits if_splits)
  have "workspace_available fs w = Inr ()"
    using assms(2,4) Some q by (auto simp: new_binding_def Let_def pbind_Inr str_or_empty_def split: if_splits)
  then show ?thesis by (intro exI [of _ "JStr w"]) (auto simp: workspace_available_def split: sum.splits if_splits)
qed

section \<open>Behaviour that differs from the evident intention\<close>

text \<open>The identifier of a path is stripped by the lookup and not by the statement: with a blank around it an update or an archive
  answers with the project as it was, status 200, and changes nothing.\<close>

lemma padded_identifier_changes_nothing:
  assumes "strip i \<noteq> i" "list_all (\<lambda>r. strip (pj_id r) = pj_id r) (pd_projects db)"
  shows "fst (update_project H fs now (\<lambda>d. d) db actor i payload) = db \<and> fst (archive_project H now (\<lambda>d. d) db actor i) = db"
proof -
  have "sql_update (\<lambda>r. pj_id r = i \<and> Q r) f (pd_projects db) = pd_projects db" for Q and f :: "project_row \<Rightarrow> project_row"
    by (rule sql_update_none) (use assms in \<open>auto simp: rowcount_0_iff list_all_iff\<close>)
  then show ?thesis by (simp add: update_project_def archive_project_def Let_def split: json.split sum.split prod.split)
qed

text \<open>A folder that is a list or an object is no \<open>ProjectInvalid\<close> but a \<open>TypeError\<close>, which no handler catches.\<close>

lemma unhashable_folder_crashes: "respond f (normalize_folder fs (JArr xs)) = ProjectFailure 500 []"
  by (simp add: normalize_folder_def in_none_or_empty_def respond_def project_failure_def)
section \<open>Witnesses\<close>

definition demo_fs :: workspace_fs where
  "demo_fs = \<lparr>wf_root_ok = True, wf_root = [''home'', ''workspace''],
     wf_resolve = (\<lambda>p. if p = ''link'' then Some ([''home'', ''workspace'', ''docs''], True)
       else if p = ''docs'' then Some ([''home'', ''workspace'', ''docs''], True) else None)\<rparr>"

definition empty_projects :: project_db where "empty_projects = \<lparr>pd_projects = [], pd_sessions = []\<rparr>"

definition demo_projects :: project_db where
  "demo_projects = fst (create_project (\<lambda>s. s) demo_fs 1 ''x'' empty_projects ''ou_1''
     (JObj [(''name'', JStr ''Plan''), (''instructions'', JStr ''be brief''), (''primary_folder'', JStr ''link'')]))"

definition demo_bound :: "project_db \<times> project_context project_result" where
  "demo_bound = bind_session (\<lambda>s. s) demo_fs 2 demo_projects ''ou_1'' ''s1'' (JStr ''prj_x'') True JNull"

definition demo_edited :: project_db where
  "demo_edited = fst (update_project (\<lambda>s. s) demo_fs 3 (\<lambda>d. d) (fst demo_bound) ''ou_1'' ''prj_x'' (JObj [(''instructions'', JStr ''be long'')]))"

definition demo_later :: "project_context project_result" where
  "demo_later = get_session_context (\<lambda>s. s) demo_fs demo_edited ''ou_1'' '' s1''"

definition the_context :: "project_context project_result \<Rightarrow> project_context option" where
  "the_context r = (case r of Inl _ \<Rightarrow> None | Inr c \<Rightarrow> Some c)"

lemma the_context_Inr: "the_context r = Some c \<Longrightarrow> r = Inr c"
  by (auto simp: the_context_def split: sum.splits)

lemma demo_contexts: "the_context (snd demo_bound) \<noteq> None" "the_context demo_later \<noteq> None"
  by code_simp+

lemma demo_context_facts:
  obtains c c' where "bind_session (\<lambda>s. s) demo_fs 2 demo_projects ''ou_1'' ''s1'' (JStr ''prj_x'') True JNull = (fst demo_bound, Inr c)"
    "get_session_context (\<lambda>s. s) demo_fs demo_edited ''ou_1'' '' s1'' = Inr c'" "the_context demo_later = Some c'"
proof -
  obtain c c' where c: "the_context (snd demo_bound) = Some c" "the_context demo_later = Some c'"
    using demo_contexts by auto
  have "demo_bound = (fst demo_bound, Inr c)" using the_context_Inr [OF c(1)] by (metis prod.collapse)
  with that the_context_Inr [OF c(2)] c(2) show thesis unfolding demo_bound_def demo_later_def by blast
qed

theorem session_binding_fixed_witness:
  "\<exists>c. snd demo_bound = Inr c \<and> get_session_context (\<lambda>s. s) demo_fs demo_edited ''ou_1'' '' s1'' = Inr c"
proof (rule demo_context_facts)
  fix c c'
  assume b: "bind_session (\<lambda>s. s) demo_fs 2 demo_projects ''ou_1'' ''s1'' (JStr ''prj_x'') True JNull = (fst demo_bound, Inr c)"
    and l: "get_session_context (\<lambda>s. s) demo_fs demo_edited ''ou_1'' '' s1'' = Inr c'"
  have r0: "project_run (\<lambda>s. s) \<lparr>pd_projects = [], pd_sessions = []\<rparr> demo_projects"
    unfolding demo_projects_def empty_projects_def by (rule RunCreate [OF RunNil])
  have r1: "project_run (\<lambda>s. s) (fst demo_bound) demo_edited"
    unfolding demo_edited_def by (rule RunUpdate [OF RunNil RunNil])
  have s: "strip '' s1'' = strip ''s1''" by code_simp
  have "snd demo_bound = Inr c" using b unfolding demo_bound_def by (metis snd_conv)
  with session_binding_fixed [OF r0 b r1 l s] l show ?thesis by blast
qed

theorem session_workspace_inside_witness:
  "\<exists>parts. wf_resolve demo_fs (strip ''docs'') = Some (wf_root demo_fs @ parts, True) \<and> ''docs'' = join_sep CHR ''/'' parts"
proof (rule demo_context_facts)
  fix c c'
  assume l: "get_session_context (\<lambda>s. s) demo_fs demo_edited ''ou_1'' '' s1'' = Inr c'" and t: "the_context demo_later = Some c'"
  have "map_option px_workspace (the_context demo_later) = Some (Some ''docs'')" by code_simp
  then have w: "px_workspace c' = Some ''docs''" using t by simp
  have ne: "''docs'' \<noteq> ([] :: string)" by simp
  from session_workspace_inside [OF l w ne] show ?thesis by blast
qed

end
