(* ===== verification/Relay_Admin.thy ===== *)
theory Relay_Admin
  imports Complex_Main Relay_Store
begin

text \<open>
  What stands in front of the relay's store: the limiter of the open enrollment endpoint
  (\<open>_EnrollRateLimiter\<close> of \<open>src/hermes_multitenancy/agent_relay.py\<close>) and the plane of the read-only
  administrators (\<open>agent_relay_admin.py\<close>, \<open>admin_logs\<close> and \<open>admin_stats\<close>): bearer tokens scoped to resources, the window,
  the cursor, and a limiter per token. Both limiters keep the times of their admissions; the locale \<open>window_log\<close> is what the two
  have in common. Clock readings are rationals and arguments; hashes are arguments.
\<close>

section \<open>The limiter of enrollments\<close>

definition ENROLL_PER_IP_PER_MIN :: nat where "ENROLL_PER_IP_PER_MIN = 10"
definition ENROLL_GLOBAL_PER_MIN :: nat where "ENROLL_GLOBAL_PER_MIN = 120"
definition ENROLL_WINDOW_SECONDS :: rat where "ENROLL_WINDOW_SECONDS = 60"
definition ENROLL_REJECT_DISTINCT_KEY_CAP :: nat where "ENROLL_REJECT_DISTINCT_KEY_CAP = 4096"

record enroll_limiter =
  el_global :: "rat list"
  el_per_ip :: "(string \<times> rat list) list"
  el_rejected :: nat
  el_rejected_keys :: "string list"
  el_last_summary :: "rat option"

definition new_enroll_limiter :: enroll_limiter where
  "new_enroll_limiter = \<lparr>el_global = [], el_per_ip = [], el_rejected = 0, el_rejected_keys = [], el_last_summary = None\<rparr>"

text \<open>The loop that pops the times at or before the cutoff.\<close>

definition pop_old :: "rat \<Rightarrow> rat list \<Rightarrow> rat list" where
  "pop_old cutoff hits = dropWhile (\<lambda>t. t \<le> cutoff) hits"

text \<open>\<open>_allow_locked\<close>. The address's own list is shortened in place even when the answer is no.\<close>

definition allow_locked :: "string \<Rightarrow> rat \<Rightarrow> enroll_limiter \<Rightarrow> bool \<times> enroll_limiter" where
  "allow_locked ip now L =
     (let cutoff = now - ENROLL_WINDOW_SECONDS;
          g = pop_old cutoff (el_global L);
          per = filter (\<lambda>e. snd e \<noteq> [] \<and> \<not> last (snd e) \<le> cutoff) (el_per_ip L);
          hits = map_option (pop_old cutoff) (map_of per ip);
          per1 = (case hits of None \<Rightarrow> per | Some h \<Rightarrow> dict_set ip h per);
          L1 = L\<lparr>el_global := g, el_per_ip := per1\<rparr>
      in if length g \<ge> ENROLL_GLOBAL_PER_MIN then (False, L1)
         else if (case hits of None \<Rightarrow> False | Some h \<Rightarrow> length h \<ge> ENROLL_PER_IP_PER_MIN) then (False, L1)
         else (True, L1\<lparr>el_global := g @ [now], el_per_ip := dict_set ip ((case hits of None \<Rightarrow> [] | Some h \<Rightarrow> h) @ [now]) per1\<rparr>))"

text \<open>A summary: how many requests were rejected, from how many addresses (their hashes), and the hash of this one.\<close>

record reject_summary =
  rs_rejected :: nat
  rs_keys :: nat
  rs_last_key :: string

definition take_summary :: "string \<Rightarrow> rat \<Rightarrow> enroll_limiter \<Rightarrow> reject_summary option \<times> enroll_limiter" where
  "take_summary last_key now L =
     (if el_rejected L = 0 then (None, L)
      else if (case el_last_summary L of None \<Rightarrow> False | Some t \<Rightarrow> now - t < ENROLL_WINDOW_SECONDS) then (None, L)
      else (Some \<lparr>rs_rejected = el_rejected L, rs_keys = length (el_rejected_keys L), rs_last_key = last_key\<rparr>,
            L\<lparr>el_rejected := 0, el_rejected_keys := [], el_last_summary := Some now\<rparr>))"

text \<open>\<open>allow\<close>: the clock is read once for the decision and once for the summary.\<close>

definition count_reject :: "string \<Rightarrow> enroll_limiter \<Rightarrow> enroll_limiter" where
  "count_reject key L =
     L\<lparr>el_rejected := el_rejected L + 1,
       el_rejected_keys := (if length (el_rejected_keys L) < ENROLL_REJECT_DISTINCT_KEY_CAP
                            then List.insert key (el_rejected_keys L) else el_rejected_keys L)\<rparr>"

definition enroll_allow ::
    "(string \<Rightarrow> string) \<Rightarrow> string \<Rightarrow> rat \<Rightarrow> rat \<Rightarrow> enroll_limiter \<Rightarrow> (bool \<times> reject_summary option) \<times> enroll_limiter" where
  "enroll_allow sha ip now now' L =
     (let (ok, L1) = allow_locked ip now L;
          L2 = (if ok then L1 else count_reject (take 12 (sha ip)) L1);
          (summary, L3) = take_summary (take 12 (sha ip)) now' L2
      in ((ok, summary), L3))"

text \<open>The source address of a request. \<open>ip_text\<close> is \<open>ip_address\<close>, the canonical text of an address (None: it raises), \<open>loopback\<close> its flag.\<close>

definition normalized_ip :: "(string \<Rightarrow> string option) \<Rightarrow> string option \<Rightarrow> string option" where
  "normalized_ip ip_text value =
     (let txt = strip (str_or_empty value)
      in if txt = [] \<or> CHR ''%'' \<in> set txt then None else ip_text txt)"

definition enroll_client_ip ::
    "(string \<Rightarrow> string option) \<Rightarrow> (string \<Rightarrow> bool) \<Rightarrow> string option \<Rightarrow> string \<Rightarrow> string" where
  "enroll_client_ip ip_text loopback remote forwarded =
     (case normalized_ip ip_text remote of
        Some r \<Rightarrow> if \<not> loopback r then r
                  else py_or (str_or_empty (normalized_ip ip_text (Some (takeWhile (\<lambda>c. c \<noteq> CHR '','') forwarded)))) ''unknown''
      | None \<Rightarrow> py_or (str_or_empty (normalized_ip ip_text (Some (takeWhile (\<lambda>c. c \<noteq> CHR '','') forwarded)))) ''unknown'')"

section \<open>The limiter of administrators\<close>

record rate_limiter =
  rl_per_second :: nat
  rl_per_hour :: nat
  rl_hits :: "(string \<times> rat list) list"

definition new_rate_limiter :: "int \<Rightarrow> int \<Rightarrow> rate_limiter" where
  "new_rate_limiter per_second per_hour = \<lparr>rl_per_second = nat (max 1 per_second), rl_per_hour = nat (max 1 per_hour), rl_hits = []\<rparr>"

definition hits_of :: "(string \<times> rat list) list \<Rightarrow> string \<Rightarrow> rat list" where
  "hits_of d key = (case map_of d key of None \<Rightarrow> [] | Some h \<Rightarrow> h)"

text \<open>\<open>RateLimiter.check\<close>. The seconds to wait are truncated; they are never negative, because the oldest time kept is younger than an hour.\<close>

definition rate_check :: "string \<Rightarrow> rat \<Rightarrow> rate_limiter \<Rightarrow> int option \<times> rate_limiter" where
  "rate_check key now L =
     (let hits = filter (\<lambda>t. now - t < 3600) (hits_of (rl_hits L) key)
      in if length (filter (\<lambda>t. now - t < 1) hits) \<ge> rl_per_second L
         then (Some 1, L\<lparr>rl_hits := dict_set key hits (rl_hits L)\<rparr>)
         else if length hits \<ge> rl_per_hour L
         then (Some (max 1 (\<lfloor>3600 - (now - hd hits)\<rfloor> + 1)), L\<lparr>rl_hits := dict_set key hits (rl_hits L)\<rparr>)
         else
           let d = dict_set key (hits @ [now]) (rl_hits L)
           in (None, L\<lparr>rl_hits := (if length d > 256
                 then filter (\<lambda>e. \<not> (snd e = [] \<or> now - last (snd e) > 3600)) d else d)\<rparr>))"

section \<open>The admin plane\<close>

record http_error =
  he_code :: string
  he_message :: string
  he_status :: int
  he_retry_after :: "int option"

definition admin_error :: "string \<Rightarrow> string \<Rightarrow> int \<Rightarrow> int option \<Rightarrow> http_error" where
  "admin_error code message status retry = \<lparr>he_code = code, he_message = message, he_status = status, he_retry_after = retry\<rparr>"

definition ADMIN_MAX_WINDOW_MS :: int where "ADMIN_MAX_WINDOW_MS = 7 * 86400000"
definition ADMIN_PAGE_LIMIT :: int where "ADMIN_PAGE_LIMIT = 5000"
definition ADMIN_MIN_MS :: int where "ADMIN_MIN_MS = 0"
definition ADMIN_MAX_MS :: int where "ADMIN_MAX_MS = 4102444800000"

definition ADMIN_TOKEN_SCOPES :: "(string \<times> string list) list" where
  "ADMIN_TOKEN_SCOPES =
     [(''HERMES_AGENT_RELAY_ADMIN_TOKEN'', [''logs'', ''stats'']),
      (''HERMES_TELEMETRY_DIAG_TOKEN'', [''telemetry-diagnostics'', ''telemetry-stats''])]"

text \<open>The header is the text of \<open>Authorization\<close>, empty when there is none.\<close>

definition admin_bearer :: "string \<Rightarrow> string option" where
  "admin_bearer header = (if \<not> startswith header ''Bearer '' then None else Some (strip (drop 7 header)))"

definition scopes_for :: "(string \<Rightarrow> string) \<Rightarrow> string \<Rightarrow> string list" where
  "scopes_for env offered =
     concat (map snd (filter (\<lambda>e. strip (env (fst e)) \<noteq> [] \<and> offered = strip (env (fst e))) ADMIN_TOKEN_SCOPES))"

definition admin_denied :: "(string \<Rightarrow> string) \<Rightarrow> string \<Rightarrow> string \<Rightarrow> http_error option" where
  "admin_denied env header resource =
     (case admin_bearer header of
        None \<Rightarrow> Some (admin_error ''unauthorized'' ''admin token required'' 401 None)
      | Some offered \<Rightarrow>
          if resource \<notin> set (scopes_for env offered)
          then Some (admin_error ''forbidden'' ''admin access is not configured for this token'' 403 None)
          else None)"

text \<open>\<open>int(request.query[k])\<close>.\<close>

type_synonym query = "(string \<times> string) list"

definition query_int :: "query \<Rightarrow> string \<Rightarrow> int option" where
  "query_int q k = (case map_of q k of None \<Rightarrow> None | Some s \<Rightarrow> py_int s)"

definition valid_ms :: "int \<Rightarrow> bool" where
  "valid_ms v \<longleftrightarrow> ADMIN_MIN_MS \<le> v \<and> v \<le> ADMIN_MAX_MS"

definition plane_window :: "(string \<Rightarrow> string) \<Rightarrow> string \<Rightarrow> query \<Rightarrow> string \<Rightarrow> bool \<Rightarrow> http_error + (int \<times> int)" where
  "plane_window env header q resource allow_empty =
     (case admin_denied env header resource of
        Some e \<Rightarrow> Inl e
      | None \<Rightarrow>
          (case (query_int q ''since'', query_int q ''until'') of
             (Some since, Some until) \<Rightarrow>
               if \<not> (valid_ms since \<and> valid_ms until)
               then Inl (admin_error ''invalid_range'' ''since and until must be milliseconds between 1970 and 2100'' 400 None)
               else if (if allow_empty then until < since else until \<le> since) \<or> until - since > ADMIN_MAX_WINDOW_MS
               then Inl (admin_error ''invalid_range'' ''until must be after since and within 7 days'' 400 None)
               else Inr (since, until)
           | _ \<Rightarrow> Inl (admin_error ''invalid_range'' ''since and until must be integer milliseconds'' 400 None)))"

definition int64 :: "int \<Rightarrow> bool" where
  "int64 v \<longleftrightarrow> 0 \<le> v \<and> v < 2 ^ 63"

text \<open>\<open>int(request.query.get(k, default))\<close> within the integers of SQLite: \<open>admin_after_id\<close> and \<open>admin_seek_hint\<close>.\<close>

definition query_nonneg :: "query \<Rightarrow> string \<Rightarrow> int \<Rightarrow> int option" where
  "query_nonneg q k dflt =
     (case map_of q k of
        None \<Rightarrow> Some dflt
      | Some s \<Rightarrow> (case py_int s of None \<Rightarrow> None | Some i \<Rightarrow> if int64 i then Some i else None))"

definition admin_after_id :: "query \<Rightarrow> http_error + int" where
  "admin_after_id q =
     (case query_nonneg q ''after_id'' 0 of
        None \<Rightarrow> Inl (admin_error ''invalid_range'' ''after_id must be a nonnegative integer'' 400 None)
      | Some i \<Rightarrow> Inr i)"

definition admin_seek_hint :: "query \<Rightarrow> string \<Rightarrow> http_error + int" where
  "admin_seek_hint q name =
     (case query_nonneg q name 0 of
        None \<Rightarrow> Inl (admin_error ''invalid_range'' (name @ '' must be a nonnegative integer'') 400 None)
      | Some i \<Rightarrow> Inr i)"

text \<open>\<open>matches\<close> is the pattern of the resource's row identifiers.\<close>

definition admin_after_key :: "query \<Rightarrow> (string \<Rightarrow> bool) \<Rightarrow> string \<Rightarrow> http_error + string" where
  "admin_after_key q matches expected =
     (let raw = strip (str_or_empty (map_of q ''after_id''))
      in if raw = ''0'' then Inr []
         else if raw \<noteq> [] \<and> \<not> matches raw
         then Inl (admin_error ''invalid_range'' (''after_id must be '' @ expected) 400 None)
         else Inr raw)"

text \<open>\<open>token_key\<close>: the key of the limiter.\<close>

definition token_key :: "(string \<Rightarrow> string) \<Rightarrow> string \<Rightarrow> string" where
  "token_key sha header = take 16 (sha (str_or_empty (admin_bearer header)))"

definition rate_limited :: "(string \<Rightarrow> string) \<Rightarrow> string \<Rightarrow> rat \<Rightarrow> rate_limiter \<Rightarrow> http_error option \<times> rate_limiter" where
  "rate_limited sha header now L =
     (case rate_check (token_key sha header) now L of
        (None, L') \<Rightarrow> (None, L')
      | (Some retry, L') \<Rightarrow> (Some (admin_error ''rate_limited'' ''too many admin reads; retry later'' 429 (Some retry)), L'))"

section \<open>The two resources of the relay\<close>

text \<open>The relay's own \<open>admin_window\<close>: any integers that SQLite can bind.\<close>

definition relay_window :: "(string \<Rightarrow> string) \<Rightarrow> string \<Rightarrow> query \<Rightarrow> string \<Rightarrow> http_error + (int \<times> int)" where
  "relay_window env header q resource =
     (case admin_denied env header resource of
        Some e \<Rightarrow> Inl e
      | None \<Rightarrow>
          (case (query_int q ''since'', query_int q ''until'') of
             (Some since, Some until) \<Rightarrow>
               if \<not> (int64 since \<and> int64 until)
               then Inl (admin_error ''invalid_range'' ''since and until must be integer milliseconds'' 400 None)
               else if until \<le> since \<or> until - since > ADMIN_MAX_WINDOW_MS
               then Inl (admin_error ''invalid_range'' ''until must be after since and within 7 days'' 400 None)
               else Inr (since, until)
           | _ \<Rightarrow> Inl (admin_error ''invalid_range'' ''since and until must be integer milliseconds'' 400 None)))"

definition logs_page :: "relay_db \<Rightarrow> int \<Rightarrow> int \<Rightarrow> int \<Rightarrow> relay_log list \<times> bool" where
  "logs_page db since until after_id =
     (let items = list_logs db since until (ADMIN_PAGE_LIMIT + 1) after_id
      in (take (nat ADMIN_PAGE_LIMIT) items, int (length items) > ADMIN_PAGE_LIMIT))"

definition admin_logs :: "(string \<Rightarrow> string) \<Rightarrow> string \<Rightarrow> query \<Rightarrow> relay_db \<Rightarrow> http_error + (relay_log list \<times> bool)" where
  "admin_logs env header q db =
     (case relay_window env header q ''logs'' of
        Inl e \<Rightarrow> Inl e
      | Inr (since, until) \<Rightarrow> (case admin_after_id q of Inl e \<Rightarrow> Inl e | Inr a \<Rightarrow> Inr (logs_page db since until a)))"

definition admin_stats :: "(string \<Rightarrow> string) \<Rightarrow> string \<Rightarrow> query \<Rightarrow> relay_db \<Rightarrow> http_error + usage_view" where
  "admin_stats env header q db =
     (case relay_window env header q ''stats'' of
        Inl e \<Rightarrow> Inl e
      | Inr (since, until) \<Rightarrow> Inr (usage_stats db since until))"

section \<open>Logs of admissions\<close>

definition recent_hits :: "rat \<Rightarrow> rat list \<Rightarrow> nat" where
  "recent_hits lo hits = length (filter (\<lambda>t. lo < t) hits)"

text \<open>The times of the counted calls that a sequence of calls admits.\<close>

primrec admissions :: "('c \<Rightarrow> 's \<Rightarrow> bool \<times> 's) \<Rightarrow> ('c \<Rightarrow> rat) \<Rightarrow> ('c \<Rightarrow> bool) \<Rightarrow> 'c list \<Rightarrow> 's \<Rightarrow> rat list" where
  "admissions step time counted [] s = []"
| "admissions step time counted (c # cs) s =
     (if counted c \<and> fst (step c s) then [time c] else []) @ admissions step time counted cs (snd (step c s))"

primrec after_calls :: "('c \<Rightarrow> 's \<Rightarrow> bool \<times> 's) \<Rightarrow> 'c list \<Rightarrow> 's \<Rightarrow> 's" where
  "after_calls step [] s = s"
| "after_calls step (c # cs) s = after_calls step cs (snd (step c s))"

lemma recent_hits_simps [simp]:
  "recent_hits lo [] = 0" "recent_hits lo (xs @ ys) = recent_hits lo xs + recent_hits lo ys"
  "recent_hits lo (x # xs) = (if lo < x then 1 else 0) + recent_hits lo xs"
  by (simp_all add: recent_hits_def)

lemma recent_hits_le: "lo \<le> lo' \<Longrightarrow> recent_hits lo' h \<le> recent_hits lo h"
  by (induction h) auto

lemma recent_hits_length: "recent_hits lo h \<le> length h"
  by (simp add: recent_hits_def)

lemma filtered_recent: "length (filter (\<lambda>u. lo < u \<and> Q u) h) \<le> recent_hits lo h"
  by (induction h) auto

lemma recent_hits_0: "(\<And>t. t \<in> set h \<Longrightarrow> t \<le> lo) \<Longrightarrow> recent_hits lo h = 0"
  by (induction h) (force simp: not_less)+

lemma admissions_append:
  "admissions step time counted (cs @ ds) s =
     admissions step time counted cs s @ admissions step time counted ds (after_calls step cs s)"
  by (induction cs arbitrary: s) simp_all

lemma after_calls_append: "after_calls step (cs @ ds) s = after_calls step ds (after_calls step cs s)"
  by (induction cs arbitrary: s) simp_all

lemma admissions_times: "set (admissions step time counted cs s) \<subseteq> time ` set cs"
  by (induction cs arbitrary: s) auto

text \<open>
  A limiter that keeps the times of its counted admissions, at least those of the last \<open>width\<close> seconds, and admits a counted call
  only when there are fewer than \<open>limit\<close> of them. \<open>inv t s\<close>: the state \<open>s\<close> can be that of a limiter at time \<open>t\<close>.
\<close>

locale window_log =
  fixes step :: "'c \<Rightarrow> 's \<Rightarrow> bool \<times> 's"
    and time :: "'c \<Rightarrow> rat"
    and counted :: "'c \<Rightarrow> bool"
    and hits :: "'s \<Rightarrow> rat list"
    and inv :: "rat \<Rightarrow> 's \<Rightarrow> bool"
    and width :: rat
    and limit :: nat
  assumes inv_step: "inv t s \<Longrightarrow> t \<le> time c \<Longrightarrow> inv (time c) (snd (step c s))"
    and kept: "inv t s \<Longrightarrow> t \<le> time c \<Longrightarrow> time c - width \<le> lo \<Longrightarrow>
      recent_hits lo (hits (snd (step c s))) =
        recent_hits lo (hits s) + (if counted c \<and> fst (step c s) \<and> lo < time c then 1 else 0)"
    and room: "inv t s \<Longrightarrow> t \<le> time c \<Longrightarrow> counted c \<Longrightarrow> fst (step c s) \<Longrightarrow> recent_hits (time c - width) (hits s) < limit"
begin

abbreviation adm :: "'c list \<Rightarrow> 's \<Rightarrow> rat list" where "adm \<equiv> admissions step time counted"
abbreviation end_state :: "'c list \<Rightarrow> 's \<Rightarrow> 's" where "end_state \<equiv> after_calls step"

lemma inv_run: "inv t s \<Longrightarrow> sorted (t # map time cs) \<Longrightarrow> inv (last (t # map time cs)) (end_state cs s)"
proof (induction cs arbitrary: t s)
  case (Cons c cs)
  then show ?case using Cons.IH [OF inv_step [OF Cons.prems(1)], of c] by simp
qed simp

lemma recent_after:
  "inv t s \<Longrightarrow> sorted (t # map time cs) \<Longrightarrow> (\<And>c. c \<in> set cs \<Longrightarrow> time c - width \<le> lo) \<Longrightarrow>
     recent_hits lo (hits (end_state cs s)) = recent_hits lo (hits s) + recent_hits lo (adm cs s)"
proof (induction cs arbitrary: t s)
  case (Cons c cs)
  have c: "t \<le> time c" "time c - width \<le> lo" using Cons.prems(2,3) by simp_all
  have "recent_hits lo (hits (end_state cs (snd (step c s)))) =
      recent_hits lo (hits (snd (step c s))) + recent_hits lo (adm cs (snd (step c s)))"
    using Cons.prems(2,3) by (intro Cons.IH [OF inv_step [OF Cons.prems(1) c(1)]]) simp_all
  with kept [OF Cons.prems(1) c] show ?case by simp
qed simp

text \<open>No window of the given width has more admissions than the limit.\<close>

lemma window_bound:
  assumes "inv t s" "sorted (t # map time cs)" "hits s = []"
  shows "length (filter (\<lambda>u. T - width < u \<and> u \<le> T) (adm cs s)) \<le> limit"
  using assms(2)
proof (induction cs arbitrary: T rule: rev_induct)
  case (snoc c cs)
  let ?s = "end_state cs s"
  have sorted: "sorted (t # map time cs)" and le: "\<And>x. x \<in> set (t # map time cs) \<Longrightarrow> x \<le> time c"
    using snoc.prems by (auto simp: sorted_append)
  have IH: "length (filter (\<lambda>u. T - width < u \<and> u \<le> T) (adm cs s)) \<le> limit" for T by (rule snoc.IH [OF sorted])
  show ?case
  proof (cases "counted c \<and> fst (step c ?s) \<and> time c \<le> T")
    case False
    with IH [of T] show ?thesis by (auto simp: admissions_append)
  next
    case True
    have "last (t # map time cs) \<le> time c" by (rule le [OF last_in_set]) simp
    then have "recent_hits (time c - width) (hits ?s) < limit"
      using True by (intro room [OF inv_run [OF assms(1) sorted]]) simp_all
    moreover have "recent_hits (time c - width) (hits ?s) = recent_hits (time c - width) (adm cs s)"
      using recent_after [OF assms(1) sorted, of "time c - width"] le assms(3) by simp
    moreover have "length (filter (\<lambda>u. T - width < u \<and> u \<le> T) (adm cs s)) \<le> recent_hits (T - width) (adm cs s)"
      by (rule filtered_recent)
    moreover have "recent_hits (T - width) (adm cs s) \<le> recent_hits (time c - width) (adm cs s)"
      using True by (intro recent_hits_le) simp
    ultimately show ?thesis using True by (simp add: admissions_append)
  qed
qed simp

end

lemma hits_of_dict_set: "hits_of (dict_set k h d) k' = (if k' = k then h else hits_of d k')"
  by (simp add: hits_of_def map_of_dict_set)

lemma map_of_filter_distinct:
  "distinct (map fst d) \<Longrightarrow> map_of (filter P d) k = (case map_of d k of None \<Rightarrow> None | Some h \<Rightarrow> if P (k, h) then Some h else None)"
proof (induction d)
  case (Cons e d)
  have "map_of d (fst e) = None" using Cons.prems by (simp add: map_of_eq_None_iff)
  with Cons show ?case by (cases e) auto
qed simp

lemma recent_pop_old: "cutoff \<le> lo \<Longrightarrow> recent_hits lo (pop_old cutoff h) = recent_hits lo h"
  unfolding pop_old_def by (induction h) auto

lemma length_pop_old: "sorted h \<Longrightarrow> length (pop_old cutoff h) = recent_hits cutoff h"
proof (induction h)
  case (Cons t h)
  show ?case
  proof (cases "t \<le> cutoff")
    case True
    with Cons show ?thesis by (simp add: pop_old_def)
  next
    case False
    with Cons.prems have "filter (\<lambda>u. cutoff < u) (t # h) = t # h" by (intro filter_True) auto
    with False show ?thesis by (simp add: pop_old_def recent_hits_def)
  qed
qed (simp add: pop_old_def)

lemma set_pop_old: "set (pop_old cutoff h) \<subseteq> set h"
  unfolding pop_old_def by (auto dest: set_dropWhileD)

lemma sorted_pop_old: "sorted h \<Longrightarrow> sorted (pop_old cutoff h)"
  unfolding pop_old_def by (rule sorted_dropWhile)

text \<open>The times kept, in order and none later than the clock.\<close>

definition times_ok :: "rat \<Rightarrow> rat list \<Rightarrow> bool" where
  "times_ok t h \<longleftrightarrow> sorted h \<and> (\<forall>u \<in> set h. u \<le> t)"

definition dict_times_ok :: "rat \<Rightarrow> (string \<times> rat list) list \<Rightarrow> bool" where
  "dict_times_ok t d \<longleftrightarrow> distinct (map fst d) \<and> (\<forall>k. times_ok t (hits_of d k))"

lemma times_ok_later: "times_ok t h \<Longrightarrow> t \<le> t' \<Longrightarrow> times_ok t' h"
  by (force simp: times_ok_def)

lemma times_ok_append: "times_ok t h \<Longrightarrow> t \<le> t' \<Longrightarrow> times_ok t' (h @ [t'])"
  by (force simp: times_ok_def sorted_append)

lemma times_ok_pop: "times_ok t h \<Longrightarrow> times_ok t (pop_old cutoff h)"
  using set_pop_old [of cutoff h] by (auto simp: times_ok_def sorted_pop_old)

lemma recent_stale:
  assumes "times_ok t h" "h \<noteq> [] \<Longrightarrow> last h \<le> lo"
  shows "recent_hits lo h = 0"
proof (rule recent_hits_0)
  fix u assume u: "u \<in> set h"
  then obtain h' where "h = h' @ [last h]" by (metis append_butlast_last_id empty_iff list.set(1))
  then have "u \<le> last h" using u assms(1) by (metis Un_iff empty_iff insert_iff list.set(1) list.set(2) order_refl set_append sorted_append times_ok_def)
  with assms(2) u show "u \<le> lo" by force
qed

lemma dict_set_keys: "map fst (dict_set k v d) = (if k \<in> fst ` set d then map fst d else map fst d @ [k])"
  by (induction d) auto

lemma dict_times_ok_set: "dict_times_ok t d \<Longrightarrow> times_ok t h \<Longrightarrow> dict_times_ok t (dict_set k h d)"
  by (simp add: dict_times_ok_def hits_of_dict_set dict_set_keys)

lemma hits_of_filter:
  "distinct (map fst d) \<Longrightarrow> hits_of (filter P d) k = (if \<exists>h. map_of d k = Some h \<and> P (k, h) then hits_of d k else [])"
  by (cases "map_of d k") (simp_all add: hits_of_def map_of_filter_distinct)

lemma dict_times_ok_filter: "dict_times_ok t d \<Longrightarrow> dict_times_ok t (filter P d)"
  by (auto simp: dict_times_ok_def hits_of_filter distinct_map_filter times_ok_def)

lemma dict_times_ok_later: "dict_times_ok t d \<Longrightarrow> t \<le> t' \<Longrightarrow> dict_times_ok t' d"
  by (auto simp: dict_times_ok_def intro: times_ok_later)

text \<open>Dropping the keys whose last time is old loses no recent time.\<close>

lemma recent_drop_stale:
  assumes "dict_times_ok t d" "\<And>k h. \<not> P (k, h) \<Longrightarrow> h \<noteq> [] \<Longrightarrow> last h \<le> lo"
  shows "recent_hits lo (hits_of (filter P d) k) = recent_hits lo (hits_of d k)"
proof (cases "\<exists>h. map_of d k = Some h \<and> P (k, h)")
  case True
  with assms(1) show ?thesis by (simp add: hits_of_filter dict_times_ok_def)
next
  case False
  have "recent_hits lo (hits_of d k) = 0"
  proof (cases "map_of d k")
    case (Some h)
    then have "times_ok t h" using assms(1) by (auto simp: dict_times_ok_def hits_of_def dest: spec [of _ k])
    with Some False assms(2) [of k h] show ?thesis by (auto simp: hits_of_def intro: recent_stale)
  qed (simp add: hits_of_def)
  with False assms(1) show ?thesis by (auto simp: hits_of_filter dict_times_ok_def)
qed

section \<open>The enrollment limiter keeps its logs\<close>

text \<open>A call: the address, the clock when it is decided, the clock when it is summarised.\<close>

type_synonym enroll_call = "string \<times> rat \<times> rat"

abbreviation call_ip :: "enroll_call \<Rightarrow> string" where "call_ip \<equiv> fst"
abbreviation call_at :: "enroll_call \<Rightarrow> rat" where "call_at c \<equiv> fst (snd c)"

definition enroll_step :: "(string \<Rightarrow> string) \<Rightarrow> enroll_call \<Rightarrow> enroll_limiter \<Rightarrow> bool \<times> enroll_limiter" where
  "enroll_step sha c L = (case enroll_allow sha (fst c) (fst (snd c)) (snd (snd c)) L of ((ok, summary), L') \<Rightarrow> (ok, L'))"

definition enroll_ok :: "rat \<Rightarrow> enroll_limiter \<Rightarrow> bool" where
  "enroll_ok t L \<longleftrightarrow> times_ok t (el_global L) \<and> dict_times_ok t (el_per_ip L)"

lemma take_summary_hits [simp]:
  "el_global (snd (take_summary k now L)) = el_global L" "el_per_ip (snd (take_summary k now L)) = el_per_ip L"
  by (simp_all add: take_summary_def split: option.split)

lemma count_reject_hits [simp]:
  "el_global (count_reject k L) = el_global L" "el_per_ip (count_reject k L) = el_per_ip L"
  by (simp_all add: count_reject_def)

lemma enroll_step_locked:
  "fst (enroll_step sha c L) = fst (allow_locked (call_ip c) (call_at c) L)"
  "el_global (snd (enroll_step sha c L)) = el_global (snd (allow_locked (call_ip c) (call_at c) L))"
  "el_per_ip (snd (enroll_step sha c L)) = el_per_ip (snd (allow_locked (call_ip c) (call_at c) L))"
  using take_summary_hits [of "take 12 (sha (call_ip c))" "snd (snd c)"
      "if fst (allow_locked (call_ip c) (call_at c) L) then snd (allow_locked (call_ip c) (call_at c) L)
       else count_reject (take 12 (sha (call_ip c))) (snd (allow_locked (call_ip c) (call_at c) L))"]
  by (simp_all add: enroll_step_def enroll_allow_def Let_def split_beta)

text \<open>The two lists that one decision compares with the limits.\<close>

definition live_global :: "rat \<Rightarrow> enroll_limiter \<Rightarrow> rat list" where
  "live_global now L = pop_old (now - ENROLL_WINDOW_SECONDS) (el_global L)"

definition live_ip :: "string \<Rightarrow> rat \<Rightarrow> enroll_limiter \<Rightarrow> rat list" where
  "live_ip ip now L =
     pop_old (now - ENROLL_WINDOW_SECONDS)
       (hits_of (filter (\<lambda>e. snd e \<noteq> [] \<and> \<not> last (snd e) \<le> now - ENROLL_WINDOW_SECONDS) (el_per_ip L)) ip)"

definition swept :: "string \<Rightarrow> rat \<Rightarrow> enroll_limiter \<Rightarrow> (string \<times> rat list) list" where
  "swept ip now L =
     (let per = filter (\<lambda>e. snd e \<noteq> [] \<and> \<not> last (snd e) \<le> now - ENROLL_WINDOW_SECONDS) (el_per_ip L)
      in case map_of per ip of None \<Rightarrow> per | Some h \<Rightarrow> dict_set ip (pop_old (now - ENROLL_WINDOW_SECONDS) h) per)"

lemma live_ip_old:
  "live_ip ip now L = (case map_of (filter (\<lambda>e. snd e \<noteq> [] \<and> \<not> last (snd e) \<le> now - ENROLL_WINDOW_SECONDS) (el_per_ip L)) ip of
     None \<Rightarrow> [] | Some h \<Rightarrow> pop_old (now - ENROLL_WINDOW_SECONDS) h)"
  by (simp add: live_ip_def hits_of_def pop_old_def split: option.split)

lemma allow_locked_alt:
  "allow_locked ip now L =
     (let ok = length (live_global now L) < ENROLL_GLOBAL_PER_MIN \<and> length (live_ip ip now L) < ENROLL_PER_IP_PER_MIN
      in (ok, L\<lparr>el_global := live_global now L @ (if ok then [now] else []),
                el_per_ip := (if ok then dict_set ip (live_ip ip now L @ [now]) (swept ip now L) else swept ip now L)\<rparr>))"
proof -
  let ?m = "map_of (filter (\<lambda>e. snd e \<noteq> [] \<and> \<not> last (snd e) \<le> now - ENROLL_WINDOW_SECONDS) (el_per_ip L)) ip"
  show ?thesis
    by (cases ?m) (simp_all add: allow_locked_def live_global_def live_ip_old swept_def Let_def ENROLL_PER_IP_PER_MIN_def not_le)
qed

lemma hits_swept_ip: "hits_of (swept ip now L) ip = live_ip ip now L"
proof -
  let ?m = "map_of (filter (\<lambda>e. snd e \<noteq> [] \<and> \<not> last (snd e) \<le> now - ENROLL_WINDOW_SECONDS) (el_per_ip L)) ip"
  show ?thesis by (cases ?m) (simp_all add: swept_def live_ip_old Let_def hits_of_def map_of_dict_set)
qed

lemma hits_swept_other:
  "k \<noteq> ip \<Longrightarrow> hits_of (swept ip now L) k =
     hits_of (filter (\<lambda>e. snd e \<noteq> [] \<and> \<not> last (snd e) \<le> now - ENROLL_WINDOW_SECONDS) (el_per_ip L)) k"
  by (simp add: swept_def Let_def hits_of_dict_set split: option.split)

lemma recent_live_ip:
  assumes "dict_times_ok t (el_per_ip L)" "now - ENROLL_WINDOW_SECONDS \<le> lo"
  shows "recent_hits lo (live_ip ip now L) = recent_hits lo (hits_of (el_per_ip L) ip)"
  using assms by (auto simp: live_ip_def recent_pop_old intro!: recent_drop_stale)

lemma recent_swept:
  assumes "dict_times_ok t (el_per_ip L)" "now - ENROLL_WINDOW_SECONDS \<le> lo"
  shows "recent_hits lo (hits_of (swept ip now L) k) = recent_hits lo (hits_of (el_per_ip L) k)"
proof (cases "k = ip")
  case True
  with recent_live_ip [OF assms] show ?thesis by (simp add: hits_swept_ip)
next
  case False
  with assms show ?thesis by (auto simp: hits_swept_other intro!: recent_drop_stale)
qed

lemma live_ok:
  assumes "enroll_ok t L"
  shows "times_ok t (live_global now L)" "times_ok t (live_ip ip now L)" "dict_times_ok t (swept ip now L)"
proof -
  let ?per = "filter (\<lambda>e. snd e \<noteq> [] \<and> \<not> last (snd e) \<le> now - ENROLL_WINDOW_SECONDS) (el_per_ip L)"
  have per: "dict_times_ok t ?per" using assms by (simp add: enroll_ok_def dict_times_ok_filter)
  show "times_ok t (live_global now L)" using assms by (simp add: enroll_ok_def live_global_def times_ok_pop)
  show ip: "times_ok t (live_ip ip now L)"
    using per by (simp add: live_ip_def times_ok_pop dict_times_ok_def)
  show "dict_times_ok t (swept ip now L)"
  proof (cases "map_of ?per ip")
    case (Some h)
    with ip per show ?thesis by (simp add: swept_def live_ip_old dict_times_ok_set)
  qed (use per in \<open>simp add: swept_def\<close>)
qed

lemma enroll_ok_step:
  assumes "enroll_ok t L" "t \<le> call_at c"
  shows "enroll_ok (call_at c) (snd (enroll_step sha c L))"
proof -
  note later = times_ok_later [OF live_ok(1) [OF assms(1)] assms(2)] times_ok_append [OF live_ok(1) [OF assms(1)] assms(2)]
    dict_times_ok_later [OF live_ok(3) [OF assms(1)] assms(2)] times_ok_append [OF live_ok(2) [OF assms(1)] assms(2)]
  show ?thesis
    by (simp add: enroll_ok_def enroll_step_locked allow_locked_alt Let_def later dict_times_ok_set)
qed

interpretation enroll_all: window_log "enroll_step sha" call_at "\<lambda>c. True" el_global enroll_ok ENROLL_WINDOW_SECONDS ENROLL_GLOBAL_PER_MIN
  for sha
proof
  fix t L c lo assume ok: "enroll_ok t L" "t \<le> call_at c"
  show "enroll_ok (call_at c) (snd (enroll_step sha c L))" by (rule enroll_ok_step [OF ok])
  show "recent_hits lo (el_global (snd (enroll_step sha c L))) =
      recent_hits lo (el_global L) + (if True \<and> fst (enroll_step sha c L) \<and> lo < call_at c then 1 else 0)"
    if "call_at c - ENROLL_WINDOW_SECONDS \<le> lo"
    using that by (simp add: enroll_step_locked allow_locked_alt Let_def live_global_def recent_pop_old)
  show "recent_hits (call_at c - ENROLL_WINDOW_SECONDS) (el_global L) < ENROLL_GLOBAL_PER_MIN" if "fst (enroll_step sha c L)"
    using that ok by (simp add: enroll_step_locked allow_locked_alt Let_def live_global_def length_pop_old enroll_ok_def times_ok_def)
qed

interpretation enroll_one: window_log "enroll_step sha" call_at "\<lambda>c. call_ip c = ip" "\<lambda>L. hits_of (el_per_ip L) ip" enroll_ok
  ENROLL_WINDOW_SECONDS ENROLL_PER_IP_PER_MIN
  for sha ip
proof
  fix t L c lo assume ok: "enroll_ok t L" "t \<le> call_at c"
  have d: "dict_times_ok t (el_per_ip L)" using ok by (simp add: enroll_ok_def)
  show "enroll_ok (call_at c) (snd (enroll_step sha c L))" by (rule enroll_ok_step [OF ok])
  show "recent_hits lo (hits_of (el_per_ip (snd (enroll_step sha c L))) ip) = recent_hits lo (hits_of (el_per_ip L) ip)
      + (if call_ip c = ip \<and> fst (enroll_step sha c L) \<and> lo < call_at c then 1 else 0)"
    if lo: "call_at c - ENROLL_WINDOW_SECONDS \<le> lo"
    using recent_swept [OF d lo, of "call_ip c" ip] recent_live_ip [OF d lo, of ip]
    by (auto simp: enroll_step_locked allow_locked_alt Let_def hits_of_dict_set)
  show "recent_hits (call_at c - ENROLL_WINDOW_SECONDS) (hits_of (el_per_ip L) ip) < ENROLL_PER_IP_PER_MIN"
    if "call_ip c = ip" "fst (enroll_step sha c L)"
    using that recent_live_ip [OF d order_refl, where ip = ip and now = "call_at c"] recent_hits_length [of "call_at c - ENROLL_WINDOW_SECONDS" "live_ip ip (call_at c) L"]
    by (simp add: enroll_step_locked allow_locked_alt Let_def)
qed

lemma length_live_ip:
  assumes "enroll_ok t L"
  shows "length (live_ip ip now L) = recent_hits (now - ENROLL_WINDOW_SECONDS) (hits_of (el_per_ip L) ip)"
proof -
  let ?per = "filter (\<lambda>e. snd e \<noteq> [] \<and> \<not> last (snd e) \<le> now - ENROLL_WINDOW_SECONDS) (el_per_ip L)"
  have "sorted (hits_of ?per ip)"
    using dict_times_ok_filter assms by (auto simp: enroll_ok_def dict_times_ok_def times_ok_def hits_of_filter)
  then have "length (live_ip ip now L) = recent_hits (now - ENROLL_WINDOW_SECONDS) (hits_of ?per ip)"
    by (simp add: live_ip_def length_pop_old)
  also have "\<dots> = recent_hits (now - ENROLL_WINDOW_SECONDS) (hits_of (el_per_ip L) ip)"
    using assms by (intro recent_drop_stale) (auto simp: enroll_ok_def)
  finally show ?thesis .
qed

lemma new_enroll_ok: "enroll_ok t new_enroll_limiter"
  by (simp add: enroll_ok_def new_enroll_limiter_def times_ok_def dict_times_ok_def hits_of_def)

text \<open>C37. The limiter of the open enrollment endpoint admits a request exactly when fewer than 120 requests in all, and fewer than ten of
  its address, were admitted in the 60 seconds up to it; so no window of 60 seconds ever has more than 120 admissions, nor more than ten
  of one address, whatever is rejected, summarised or swept in between.\<close>

theorem enroll_limit_exact:
  assumes "sorted (map call_at (cs @ [c]))"
  shows "(fst (enroll_step sha c (after_calls (enroll_step sha) cs new_enroll_limiter)) \<longleftrightarrow>
        recent_hits (call_at c - 60) (admissions (enroll_step sha) call_at (\<lambda>x. True) cs new_enroll_limiter) < 120
        \<and> recent_hits (call_at c - 60) (admissions (enroll_step sha) call_at (\<lambda>x. call_ip x = call_ip c) cs new_enroll_limiter) < 10)
    \<and> (\<forall>T. length (filter (\<lambda>u. T - 60 < u \<and> u \<le> T) (admissions (enroll_step sha) call_at (\<lambda>x. True) cs new_enroll_limiter)) \<le> 120)
    \<and> (\<forall>T ip. length (filter (\<lambda>u. T - 60 < u \<and> u \<le> T)
          (admissions (enroll_step sha) call_at (\<lambda>x. call_ip x = ip) cs new_enroll_limiter)) \<le> 10)"
proof -
  let ?t = "hd (map call_at (cs @ [c]))"
  let ?L = "after_calls (enroll_step sha) cs new_enroll_limiter"
  have sorted: "sorted (?t # map call_at cs)" using assms by (cases cs) (auto simp: sorted_append)
  have last: "last (?t # map call_at cs) \<le> call_at c" using assms by (cases cs rule: rev_cases) (auto simp: sorted_append)
  have le: "\<And>x. x \<in> set cs \<Longrightarrow> call_at x - ENROLL_WINDOW_SECONDS \<le> call_at c - ENROLL_WINDOW_SECONDS"
    using assms by (auto simp: sorted_append)
  have ok: "enroll_ok (last (?t # map call_at cs)) ?L" by (rule enroll_all.inv_run [OF new_enroll_ok sorted])
  have empty: "el_global new_enroll_limiter = []" "hits_of (el_per_ip new_enroll_limiter) ip = []" for ip
    by (simp_all add: new_enroll_limiter_def hits_of_def)
  have "fst (enroll_step sha c ?L) \<longleftrightarrow>
      recent_hits (call_at c - ENROLL_WINDOW_SECONDS) (el_global ?L) < ENROLL_GLOBAL_PER_MIN
      \<and> recent_hits (call_at c - ENROLL_WINDOW_SECONDS) (hits_of (el_per_ip ?L) (call_ip c)) < ENROLL_PER_IP_PER_MIN"
    using ok length_live_ip [OF ok]
    by (simp add: enroll_step_locked allow_locked_alt Let_def live_global_def length_pop_old enroll_ok_def times_ok_def)
  moreover have "recent_hits (call_at c - ENROLL_WINDOW_SECONDS) (el_global ?L) =
      recent_hits (call_at c - ENROLL_WINDOW_SECONDS) (admissions (enroll_step sha) call_at (\<lambda>x. True) cs new_enroll_limiter)"
    using enroll_all.recent_after [OF new_enroll_ok sorted le] empty by simp
  moreover have "recent_hits (call_at c - ENROLL_WINDOW_SECONDS) (hits_of (el_per_ip ?L) (call_ip c)) =
      recent_hits (call_at c - ENROLL_WINDOW_SECONDS) (admissions (enroll_step sha) call_at (\<lambda>x. call_ip x = call_ip c) cs new_enroll_limiter)"
    using enroll_one.recent_after [OF new_enroll_ok sorted le] empty by simp
  ultimately show ?thesis
    using enroll_all.window_bound [OF new_enroll_ok sorted empty(1)] enroll_one.window_bound [OF new_enroll_ok sorted empty(2)]
    by (simp add: ENROLL_WINDOW_SECONDS_def ENROLL_GLOBAL_PER_MIN_def ENROLL_PER_IP_PER_MIN_def)
qed

text \<open>The summaries that a sequence of calls logs, each with the clock reading at which it was taken.\<close>

primrec reports :: "(string \<Rightarrow> string) \<Rightarrow> enroll_call list \<Rightarrow> enroll_limiter \<Rightarrow> (rat \<times> reject_summary) list" where
  "reports sha [] L = []"
| "reports sha (c # cs) L =
     (case enroll_allow sha (fst c) (fst (snd c)) (snd (snd c)) L of
        ((ok, summary), L') \<Rightarrow> (case summary of None \<Rightarrow> [] | Some r \<Rightarrow> [(snd (snd c), r)]) @ reports sha cs L')"

lemma locked_counters [simp]:
  "el_rejected (snd (allow_locked ip now L)) = el_rejected L" "el_rejected_keys (snd (allow_locked ip now L)) = el_rejected_keys L"
  "el_last_summary (snd (allow_locked ip now L)) = el_last_summary L"
  by (simp_all add: allow_locked_alt Let_def)

definition logged :: "reject_summary option \<Rightarrow> nat" where
  "logged summary = (case summary of None \<Rightarrow> 0 | Some r \<Rightarrow> rs_rejected r)"

lemma take_summary_count: "logged (fst (take_summary k now L)) + el_rejected (snd (take_summary k now L)) = el_rejected L"
  by (simp add: logged_def take_summary_def)

lemma enroll_allow_count:
  assumes "enroll_allow sha ip now now' L = ((ok, summary), L')"
  shows "logged summary + el_rejected L' = el_rejected L + (if ok then 0 else 1)"
proof -
  let ?L = "if ok then snd (allow_locked ip now L) else count_reject (take 12 (sha ip)) (snd (allow_locked ip now L))"
  have "take_summary (take 12 (sha ip)) now' ?L = (summary, L')"
    using assms by (auto simp: enroll_allow_def Let_def split_beta split: prod.splits)
  with take_summary_count [of "take 12 (sha ip)" now' ?L] show ?thesis by (auto simp: count_reject_def split: if_splits)
qed

text \<open>Every rejected request is counted in exactly one summary, or is still pending.\<close>

lemma rejections_reported_once:
  "sum_list (map (\<lambda>r. rs_rejected (snd r)) (reports sha cs L)) + el_rejected (after_calls (enroll_step sha) cs L)
     + length (admissions (enroll_step sha) call_at (\<lambda>c. True) cs L) = el_rejected L + length cs"
proof (induction cs arbitrary: L)
  case (Cons c cs)
  obtain ok summary L' where e: "enroll_allow sha (fst c) (fst (snd c)) (snd (snd c)) L = ((ok, summary), L')" by (metis prod.collapse)
  then have "enroll_step sha c L = (ok, L')" by (simp add: enroll_step_def)
  moreover have "reports sha (c # cs) L = (case summary of None \<Rightarrow> [] | Some r \<Rightarrow> [(snd (snd c), r)]) @ reports sha cs L'"
    using e by simp
  then have "sum_list (map (\<lambda>r. rs_rejected (snd r)) (reports sha (c # cs) L)) =
      logged summary + sum_list (map (\<lambda>r. rs_rejected (snd r)) (reports sha cs L'))"
    by (simp add: logged_def split: option.split)
  ultimately show ?case
    using Cons.IH [of L'] enroll_allow_count [OF e] by (simp del: reports.simps split: if_splits)
qed simp

text \<open>Two summaries are at least a window apart.\<close>

lemma report_spaced:
  assumes "fst (take_summary k now L) = Some r" "el_last_summary L = Some t"
  shows "ENROLL_WINDOW_SECONDS \<le> now - t \<and> el_last_summary (snd (take_summary k now L)) = Some now"
  using assms by (auto simp: take_summary_def split: if_splits)

section \<open>The limiter of administrators keeps its logs\<close>

type_synonym admin_call = "string \<times> rat"

definition rate_step :: "admin_call \<Rightarrow> rate_limiter \<Rightarrow> bool \<times> rate_limiter" where
  "rate_step c L = (case rate_check (fst c) (snd c) L of (r, L') \<Rightarrow> (r = None, L'))"

definition rate_ok :: "nat \<Rightarrow> nat \<Rightarrow> rat \<Rightarrow> rate_limiter \<Rightarrow> bool" where
  "rate_ok ps ph t L \<longleftrightarrow> dict_times_ok t (rl_hits L) \<and> rl_per_second L = ps \<and> rl_per_hour L = ph"

definition live_hits :: "string \<Rightarrow> rat \<Rightarrow> rate_limiter \<Rightarrow> rat list" where
  "live_hits key now L = filter (\<lambda>t. now - t < 3600) (hits_of (rl_hits L) key)"

lemma recent_filter: "lo' \<le> lo \<Longrightarrow> recent_hits lo (filter (\<lambda>t. lo' < t) h) = recent_hits lo h"
  by (induction h) auto

lemma younger: "(\<lambda>t :: rat. now - t < w) = (\<lambda>t. now - w < t)"
  by (auto simp: algebra_simps)

lemma recent_live_hits: "now - 3600 \<le> lo \<Longrightarrow> recent_hits lo (live_hits key now L) = recent_hits lo (hits_of (rl_hits L) key)"
  by (simp add: live_hits_def younger recent_filter)

lemma live_hits_ok: "rate_ok ps ph t L \<Longrightarrow> times_ok t (live_hits key now L)"
  using sorted_filter [where f = "\<lambda>x. x" and xs = "hits_of (rl_hits L) key"]
  by (auto simp: rate_ok_def dict_times_ok_def live_hits_def times_ok_def)

lemma rate_check_alt:
  "rate_check key now L =
     (if recent_hits (now - 1) (live_hits key now L) \<ge> rl_per_second L
      then (Some 1, L\<lparr>rl_hits := dict_set key (live_hits key now L) (rl_hits L)\<rparr>)
      else if length (live_hits key now L) \<ge> rl_per_hour L
      then (Some (max 1 (\<lfloor>3600 - (now - hd (live_hits key now L))\<rfloor> + 1)), L\<lparr>rl_hits := dict_set key (live_hits key now L) (rl_hits L)\<rparr>)
      else
        let d = dict_set key (live_hits key now L @ [now]) (rl_hits L)
        in (None, L\<lparr>rl_hits := (if length d > 256 then filter (\<lambda>e. \<not> (snd e = [] \<or> now - last (snd e) > 3600)) d else d)\<rparr>))"
proof -
  have "length (filter (\<lambda>t. now - t < 1) (live_hits key now L)) = recent_hits (now - 1) (live_hits key now L)"
    by (simp add: recent_hits_def younger)
  then show ?thesis by (simp only: rate_check_def live_hits_def [symmetric] Let_def)
qed

lemma rate_step_hits:
  assumes "rate_ok ps ph t L" "t \<le> snd c" "snd c - 3600 \<le> lo"
  shows "recent_hits lo (hits_of (rl_hits (snd (rate_step c L))) key) =
    recent_hits lo (hits_of (rl_hits L) key) + (if fst c = key \<and> fst (rate_step c L) \<and> lo < snd c then 1 else 0)"
proof -
  let ?d = "dict_set (fst c) (live_hits (fst c) (snd c) L @ [snd c]) (rl_hits L)"
  have "dict_times_ok (snd c) ?d"
    using assms(1,2) live_hits_ok [OF assms(1)]
    by (intro dict_times_ok_set times_ok_append [where t = t]) (auto simp: rate_ok_def intro: dict_times_ok_later)
  then have "recent_hits lo (hits_of (filter (\<lambda>e. \<not> (snd e = [] \<or> snd c - last (snd e) > 3600)) ?d) key) = recent_hits lo (hits_of ?d key)"
    using assms(3) by (intro recent_drop_stale) auto
  then show ?thesis
    using recent_live_hits [OF assms(3), of "fst c" L]
    by (auto simp: rate_step_def rate_check_alt Let_def hits_of_dict_set)
qed

lemma rate_ok_step:
  assumes "rate_ok ps ph t L" "t \<le> snd c"
  shows "rate_ok ps ph (snd c) (snd (rate_step c L))"
proof -
  have "dict_times_ok (snd c) (rl_hits L)" using assms by (auto simp: rate_ok_def intro: dict_times_ok_later)
  moreover have "times_ok (snd c) (live_hits (fst c) (snd c) L)" by (rule times_ok_later [OF live_hits_ok [OF assms(1)] assms(2)])
  moreover have "times_ok (snd c) (live_hits (fst c) (snd c) L @ [snd c])" by (rule times_ok_append [OF live_hits_ok [OF assms(1)] assms(2)])
  ultimately show ?thesis
    using assms(1) by (simp add: rate_ok_def rate_step_def rate_check_alt Let_def dict_times_ok_set dict_times_ok_filter)
qed

interpretation admin_second: window_log rate_step snd "\<lambda>c. fst c = key" "\<lambda>L. hits_of (rl_hits L) key" "rate_ok ps ph" 1 ps
  for key ps ph
proof
  fix t L lo and c :: admin_call assume ok: "rate_ok ps ph t L" "t \<le> snd c"
  show "rate_ok ps ph (snd c) (snd (rate_step c L))" by (rule rate_ok_step [OF ok])
  show "recent_hits lo (hits_of (rl_hits (snd (rate_step c L))) key) =
      recent_hits lo (hits_of (rl_hits L) key) + (if fst c = key \<and> fst (rate_step c L) \<and> lo < snd c then 1 else 0)"
    if "snd c - 1 \<le> lo" using that by (intro rate_step_hits [OF ok]) simp
  show "recent_hits (snd c - 1) (hits_of (rl_hits L) key) < ps" if "fst c = key" "fst (rate_step c L)"
    using that ok recent_live_hits [of "snd c" "snd c - 1" key L]
    by (auto simp: rate_step_def rate_check_alt rate_ok_def Let_def split: if_splits)
qed

interpretation admin_hour: window_log rate_step snd "\<lambda>c. fst c = key" "\<lambda>L. hits_of (rl_hits L) key" "rate_ok ps ph" 3600 ph
  for key ps ph
proof
  fix t L lo and c :: admin_call assume ok: "rate_ok ps ph t L" "t \<le> snd c"
  show "rate_ok ps ph (snd c) (snd (rate_step c L))" by (rule rate_ok_step [OF ok])
  show "recent_hits lo (hits_of (rl_hits (snd (rate_step c L))) key) =
      recent_hits lo (hits_of (rl_hits L) key) + (if fst c = key \<and> fst (rate_step c L) \<and> lo < snd c then 1 else 0)"
    if "snd c - 3600 \<le> lo" using that by (intro rate_step_hits [OF ok])
  show "recent_hits (snd c - 3600) (hits_of (rl_hits L) key) < ph" if "fst c = key" "fst (rate_step c L)"
    using that ok recent_live_hits [of "snd c" "snd c - 3600" key L] recent_hits_length [of "snd c - 3600" "live_hits key (snd c) L"]
    by (auto simp: rate_step_def rate_check_alt rate_ok_def Let_def split: if_splits)
qed

text \<open>An administrator's token is admitted at most \<open>per_second\<close> times in any second and \<open>per_hour\<close> times in any hour.\<close>

lemma admin_rate_bounded:
  assumes "sorted (map snd cs)" "L = new_rate_limiter ps ph"
  shows "length (filter (\<lambda>u. T - 1 < u \<and> u \<le> T) (admissions rate_step snd (\<lambda>c. fst c = key) cs L)) \<le> nat (max 1 ps)
    \<and> length (filter (\<lambda>u. T - 3600 < u \<and> u \<le> T) (admissions rate_step snd (\<lambda>c. fst c = key) cs L)) \<le> nat (max 1 ph)"
proof (cases cs)
  case (Cons c ds)
  have "rate_ok (nat (max 1 ps)) (nat (max 1 ph)) (snd c) L" "sorted (snd c # map snd cs)" "hits_of (rl_hits L) key = []"
    using assms Cons by (simp_all add: rate_ok_def new_rate_limiter_def dict_times_ok_def hits_of_def times_ok_def)
  then show ?thesis using admin_second.window_bound admin_hour.window_bound by blast
qed simp

text \<open>The delay that a refused caller is told is long enough: a call of the token that much later finds room in the hour, and in the second.\<close>

lemma retry_after_sufficient:
  assumes "rate_check key now L = (Some retry, L')" "rate_ok ps ph t L" "t \<le> now" "0 < ph" "now + of_int retry \<le> now'" "length (live_hits key now L) \<le> ph"
  shows "recent_hits (now' - 1) (hits_of (rl_hits L') key) = 0
    \<and> (retry = 1 \<or> recent_hits (now' - 3600) (hits_of (rl_hits L') key) < ph)"
proof -
  let ?h = "live_hits key now L"
  have h: "hits_of (rl_hits L') key = ?h" and pos: "1 \<le> retry"
    using assms(1) by (auto simp: rate_check_alt hits_of_dict_set Let_def split: if_splits)
  have ok: "times_ok now ?h" by (rule times_ok_later [OF live_hits_ok [OF assms(2)] assms(3)])
  have "1 \<le> (of_int retry :: rat)" using pos by simp
  then have "u \<le> now' - 1" if "u \<in> set ?h" for u
    using ok that assms(5) by (fastforce simp: times_ok_def)
  then have "recent_hits (now' - 1) ?h = 0" by (rule recent_hits_0)
  moreover have "recent_hits (now' - 3600) ?h < ph" if big: "retry \<noteq> 1"
  proof -
    have len: "ph \<le> length ?h" "retry = max 1 (\<lfloor>3600 - (now - hd ?h)\<rfloor> + 1)"
      using assms(1,2) big by (auto simp: rate_check_alt rate_ok_def Let_def split: if_splits)
    have "3600 - (now - hd ?h) \<le> of_int retry" unfolding len(2) by linarith
    then have "hd ?h \<le> now' - 3600" using assms(5) by linarith
    moreover obtain u us where us: "?h = u # us" using len(1) assms(4) by (cases ?h) auto
    ultimately have "recent_hits (now' - 3600) ?h \<le> length us" using recent_hits_length [of "now' - 3600" us] by simp
    with us assms(6) show ?thesis by simp
  qed
  ultimately show ?thesis using h by auto
qed

section \<open>Scopes\<close>

lemma scopes_for_iff:
  "r \<in> set (scopes_for env offered) \<longleftrightarrow>
     (offered \<noteq> [] \<and> offered = strip (env ''HERMES_AGENT_RELAY_ADMIN_TOKEN'') \<and> r \<in> {''logs'', ''stats''})
     \<or> (offered \<noteq> [] \<and> offered = strip (env ''HERMES_TELEMETRY_DIAG_TOKEN'') \<and> r \<in> {''telemetry-diagnostics'', ''telemetry-stats''})"
  by (auto simp: scopes_for_def ADMIN_TOKEN_SCOPES_def)

lemma admin_granted_iff: "admin_denied env header r = None \<longleftrightarrow> (\<exists>tok. admin_bearer header = Some tok \<and> r \<in> set (scopes_for env tok))"
  by (auto simp: admin_denied_def split: option.splits)

lemma relay_window_granted: "relay_window env header q r = Inr w \<Longrightarrow> admin_denied env header r = None"
  by (auto simp: relay_window_def split: option.splits)

lemma plane_window_granted: "plane_window env header q r b = Inr w \<Longrightarrow> admin_denied env header r = None"
  by (auto simp: plane_window_def split: option.splits)

text \<open>C38. Whoever reads the relay's logs or statistics presented the relay's admin token, whoever passes the window of a telemetry
  resource presented the telemetry token; a token that is not configured opens nothing, and, the two tokens being
  different, neither opens the other's resources. The key of the rate limit depends on the token alone, so no spelling of the header gives
  another budget.\<close>

theorem admin_plane_scoped:
  "(\<forall>q db. (\<exists>page. admin_logs env header q db = Inr page) \<or> (\<exists>v. admin_stats env header q db = Inr v) \<longrightarrow>
       strip (env ''HERMES_AGENT_RELAY_ADMIN_TOKEN'') \<noteq> [] \<and> admin_bearer header = Some (strip (env ''HERMES_AGENT_RELAY_ADMIN_TOKEN'')))
   \<and> (\<forall>q r b w. r \<in> {''telemetry-diagnostics'', ''telemetry-stats''} \<and> plane_window env header q r b = Inr w \<longrightarrow>
       strip (env ''HERMES_TELEMETRY_DIAG_TOKEN'') \<noteq> [] \<and> admin_bearer header = Some (strip (env ''HERMES_TELEMETRY_DIAG_TOKEN'')))
   \<and> (strip (env ''HERMES_AGENT_RELAY_ADMIN_TOKEN'') \<noteq> strip (env ''HERMES_TELEMETRY_DIAG_TOKEN'') \<longrightarrow>
       admin_denied env header ''logs'' \<noteq> None \<or> admin_denied env header ''telemetry-diagnostics'' \<noteq> None)
   \<and> (\<forall>header'. admin_bearer header' = admin_bearer header \<longrightarrow> token_key sha header' = token_key sha header)"
proof (intro conjI allI impI)
  fix q db assume "(\<exists>page. admin_logs env header q db = Inr page) \<or> (\<exists>v. admin_stats env header q db = Inr v)"
  then have "admin_denied env header ''logs'' = None \<or> admin_denied env header ''stats'' = None"
    by (auto simp: admin_logs_def admin_stats_def split: sum.splits prod.splits dest: relay_window_granted)
  then show "strip (env ''HERMES_AGENT_RELAY_ADMIN_TOKEN'') \<noteq> []"
    and "admin_bearer header = Some (strip (env ''HERMES_AGENT_RELAY_ADMIN_TOKEN''))"
    by (auto simp: admin_granted_iff scopes_for_iff)
next
  fix q r b w assume r: "r \<in> {''telemetry-diagnostics'', ''telemetry-stats''} \<and> plane_window env header q r b = Inr w"
  have "admin_denied env header r = None" using plane_window_granted [OF conjunct2 [OF r]] by simp
  with r show "strip (env ''HERMES_TELEMETRY_DIAG_TOKEN'') \<noteq> []"
    and "admin_bearer header = Some (strip (env ''HERMES_TELEMETRY_DIAG_TOKEN''))"
    by (auto simp: admin_granted_iff scopes_for_iff)
next
  assume "strip (env ''HERMES_AGENT_RELAY_ADMIN_TOKEN'') \<noteq> strip (env ''HERMES_TELEMETRY_DIAG_TOKEN'')"
  then show "admin_denied env header ''logs'' \<noteq> None \<or> admin_denied env header ''telemetry-diagnostics'' \<noteq> None"
    by (auto simp: admin_granted_iff scopes_for_iff)
qed (simp add: token_key_def)

section \<open>Reading the logs page by page\<close>

text \<open>\<open>int(str(i))\<close>.\<close>

lemma digit_char_value: "n < 10 \<Longrightarrow> (of_char (digit_char n) :: int) - 48 = int n"
  unfolding digit_char_def by (auto simp: numeral_eq_Suc less_Suc_eq)

lemma digits_value_nat_str:
  "digits_value acc b (nat_str n @ rest) = digits_value (acc * 10 ^ length (nat_str n) + int n) True rest"
proof (induction n arbitrary: rest rule: nat_str.induct)
  case (1 n)
  show ?case
  proof (cases "n < 10")
    case True
    then show ?thesis using digit_char_mem [OF True] digit_char_value [OF True] by (subst (1 2) nat_str.simps) simp
  next
    case False
    have d: "n mod 10 < 10" by simp
    have n: "nat_str n = nat_str (n div 10) @ [digit_char (n mod 10)]" using False by (subst nat_str.simps) simp
    have "digits_value acc b (nat_str n @ rest)
        = digits_value (acc * 10 ^ length (nat_str (n div 10)) + int (n div 10)) True (digit_char (n mod 10) # rest)"
      using "1.IH" [OF False, of "digit_char (n mod 10) # rest"] by (simp add: n)
    also have "\<dots> = digits_value ((acc * 10 ^ length (nat_str (n div 10)) + int (n div 10)) * 10 + int (n mod 10)) True rest"
      using digit_char_mem [OF d] digit_char_value [OF d] by simp
    also have "(acc * 10 ^ length (nat_str (n div 10)) + int (n div 10)) * 10 + int (n mod 10) = acc * 10 ^ length (nat_str n) + int n"
      by (simp add: n algebra_simps zdiv_int zmod_int)
    finally show ?thesis .
  qed
qed

lemma py_int_int_str: "py_int (int_str i) = Some i"
proof -
  let ?n = "nat \<bar>i\<bar>"
  have digits: "c \<in> set (nat_str ?n) \<Longrightarrow> c \<in> set ''0123456789''" for c using nat_str_digits [of ?n] by blast
  have "\<not> is_space c" if "c \<in> set (nat_str ?n)" for c using digits [OF that] by (auto simp: is_space_def)
  then have "strip (nat_str ?n) = nat_str ?n" "strip (CHR ''-'' # nat_str ?n) = CHR ''-'' # nat_str ?n"
    by (auto intro!: strip_fixed simp: list.set_sel) (simp add: is_space_def)
  moreover obtain c cs where c: "nat_str ?n = c # cs" by (cases "nat_str ?n") auto
  moreover have "c \<noteq> CHR ''+''" "c \<noteq> CHR ''-''" using digits [of c] c by auto
  ultimately show ?thesis
    using digits_value_nat_str [of 0 False ?n "[]"] by (cases "i < 0") (simp_all add: py_int_def int_str_def)
qed

text \<open>The rows of a window in the order of the pages, and those after a cursor.\<close>

abbreviation log_key :: "relay_log \<Rightarrow> int \<times> int" where "log_key l \<equiv> (lg_ts l, lg_id l)"

definition window_rows :: "relay_db \<Rightarrow> int \<Rightarrow> int \<Rightarrow> int \<Rightarrow> relay_log list" where
  "window_rows db until since after_id =
     filter (\<lambda>l. (since, after_id) < log_key l) (sort_key log_key (filter (\<lambda>l. lg_ts l \<le> until) (db_logs db)))"

lemma list_logs_window: "list_logs db since until n after_id = sql_limit n (window_rows db until since after_id)"
proof -
  have "(\<lambda>l. (lg_ts l > since \<or> (lg_ts l = since \<and> lg_id l > after_id)) \<and> lg_ts l \<le> until)
      = (\<lambda>l. (since, after_id) < log_key l \<and> lg_ts l \<le> until)"
    by (auto simp: less_prod_def)
  then show ?thesis by (simp add: list_logs_def window_rows_def filter_sort [symmetric] conj_commute)
qed

lemma logs_page_window:
  "logs_page db since until after_id =
     (take 5000 (window_rows db until since after_id), 5000 < length (window_rows db until since after_id))"
  by (auto simp: logs_page_def list_logs_window sql_limit_def ADMIN_PAGE_LIMIT_def Let_def min_def)

lemma window_rows_sorted:
  assumes "distinct (map lg_id (db_logs db))"
  shows "sorted_wrt (<) (map log_key (window_rows db until since after_id))"
proof -
  have "distinct (map log_key (db_logs db))" using assms by (auto simp: distinct_map inj_on_def)
  then have "distinct (map log_key (window_rows db until since after_id))"
    by (simp add: window_rows_def distinct_map inj_on_def)
  moreover have "sorted (map log_key (window_rows db until since after_id))"
    by (simp add: window_rows_def sorted_filter)
  ultimately show ?thesis by (simp add: strict_sorted_iff)
qed

text \<open>The cursor of a page's last row selects exactly the rows after the page.\<close>

lemma cursor_continues:
  assumes "distinct (map lg_id (db_logs db))" "0 < n" "n \<le> length (window_rows db until since after_id)"
    and "x = last (take n (window_rows db until since after_id))"
  shows "window_rows db until (lg_ts x) (lg_id x) = drop n (window_rows db until since after_id)"
proof -
  let ?R = "window_rows db until since after_id"
  have "take n ?R \<noteq> []" "length (take n ?R) = n" using assms(2,3) by auto
  then have x: "x = ?R ! (n - 1)" using assms(2) unfolding assms(4) by (simp add: last_conv_nth)
  have sorted: "sorted_wrt (<) (map log_key ?R)" by (rule window_rows_sorted [OF assms(1)])
  then have lt: "i < j \<Longrightarrow> j < length ?R \<Longrightarrow> log_key (?R ! i) < log_key (?R ! j)" for i j
    by (auto simp: sorted_wrt_iff_nth_less)
  have mem: "x \<in> set ?R" using x assms(2,3) by simp
  then have cur: "(since, after_id) < log_key x" by (simp add: window_rows_def)
  have "window_rows db until (lg_ts x) (lg_id x) = filter (\<lambda>l. log_key x < log_key l) ?R"
    unfolding window_rows_def filter_filter using cur by (intro filter_cong refl) (metis less_trans)
  also have "\<dots> = filter (\<lambda>l. log_key x < log_key l) (take n ?R) @ filter (\<lambda>l. log_key x < log_key l) (drop n ?R)"
    by (simp flip: filter_append)
  also have "filter (\<lambda>l. log_key x < log_key l) (take n ?R) = []"
  proof (intro filter_False ballI)
    fix l assume "l \<in> set (take n ?R)"
    then obtain i where i: "l = ?R ! i" "i < n" "i < length ?R" by (auto simp: in_set_conv_nth)
    then have "log_key l \<le> log_key x"
      using lt [of i "n - 1"] assms(2,3) x by (cases "i = n - 1") (auto intro: less_imp_le)
    then show "\<not> log_key x < log_key l" by (rule leD)
  qed
  also have "filter (\<lambda>l. log_key x < log_key l) (drop n ?R) = drop n ?R"
  proof (intro filter_True ballI)
    fix l assume "l \<in> set (drop n ?R)"
    then obtain i where "l = ?R ! (n + i)" "n + i < length ?R" by (auto simp: in_set_conv_nth)
    then show "log_key x < log_key l" using lt [of "n - 1" "n + i"] assms(2) x by simp
  qed
  finally show ?thesis by simp
qed

text \<open>
  A client that follows the convention of the plane: it asks again from the last row of a page (its time and its identifier) as long as the page says
  that there is more.
\<close>

function (sequential) read_pages ::
    "(string \<Rightarrow> string) \<Rightarrow> string \<Rightarrow> relay_db \<Rightarrow> int \<Rightarrow> int \<Rightarrow> int \<Rightarrow> http_error + relay_log list" where
  "read_pages env header db until since after_id =
     (case admin_logs env header [(''since'', int_str since), (''until'', int_str until), (''after_id'', int_str after_id)] db of
        Inl e \<Rightarrow> Inl e
      | Inr (rows, further) \<Rightarrow>
          if \<not> further then Inr rows
          else map_sum (\<lambda>e. e) (\<lambda>rest. rows @ rest) (read_pages env header db until (lg_ts (last rows)) (lg_id (last rows))))"
  by pat_completeness auto

lemma admin_logs_query:
  "admin_logs env header [(''since'', int_str since), (''until'', int_str until), (''after_id'', int_str after_id)] db =
     (if admin_denied env header ''logs'' = None \<and> int64 since \<and> int64 until \<and> since < until \<and> until - since \<le> ADMIN_MAX_WINDOW_MS \<and> int64 after_id
      then Inr (logs_page db since until after_id)
      else admin_logs env header [(''since'', int_str since), (''until'', int_str until), (''after_id'', int_str after_id)] db)"
  by (auto simp: admin_logs_def relay_window_def query_int_def query_nonneg_def admin_after_id_def py_int_int_str not_le)

lemma admin_logs_answer:
  assumes "admin_logs env header [(''since'', int_str since), (''until'', int_str until), (''after_id'', int_str after_id)] db = Inr p"
  shows "p = logs_page db since until after_id" "since < until" "until - since \<le> ADMIN_MAX_WINDOW_MS"
  using assms
  by (auto simp: admin_logs_def relay_window_def query_int_def query_nonneg_def admin_after_id_def py_int_int_str
      split: option.splits if_splits)

lemma cursor_shrinks: "x \<in> set (window_rows db until since a) \<Longrightarrow>
    length (window_rows db until (lg_ts x) (lg_id x)) < length (window_rows db until since a)"
proof -
  assume x: "x \<in> set (window_rows db until since a)"
  then have cur: "(since, a) < log_key x" by (simp add: window_rows_def)
  have "window_rows db until (lg_ts x) (lg_id x) = filter (\<lambda>l. log_key x < log_key l) (window_rows db until since a)"
    unfolding window_rows_def filter_filter using cur by (intro filter_cong refl) (metis less_trans)
  then show ?thesis using x by (simp add: length_filter_less)
qed

termination read_pages
proof (relation "measure (\<lambda>(env, header, db, until, since, a). length (window_rows db until since a))", goal_cases)
  case (2 env header db until since after_id page rows further)
  then have p: "(rows, further) = logs_page db since until after_id" using admin_logs_answer(1) by metis
  then have rows: "rows = take 5000 (window_rows db until since after_id)" and "further = (5000 < length (window_rows db until since after_id))"
    by (simp_all add: logs_page_window)
  then have "5000 < length (window_rows db until since after_id)" using 2(3) by simp
  with rows have "last rows \<in> set (window_rows db until since after_id)" by (metis last_in_set in_set_takeD take_eq_Nil list.size(3) not_less_zero zero_neq_numeral)
  then show ?case by (simp add: cursor_shrinks)
qed simp

declare read_pages.simps [simp del]

lemma read_pages_rows:
  "distinct (map lg_id (db_logs db)) \<Longrightarrow> read_pages env header db until since after_id = Inr rows \<Longrightarrow>
     rows = window_rows db until since after_id"
proof (induction env header db until since after_id arbitrary: rows rule: read_pages.induct)
  case (1 env header db until since after_id)
  let ?R = "window_rows db until since after_id"
  obtain page where ok: "admin_logs env header [(''since'', int_str since), (''until'', int_str until), (''after_id'', int_str after_id)] db = Inr page"
    using "1.prems"(2) by (auto simp: read_pages.simps [of env header db] split: sum.splits)
  have page: "page = (take 5000 ?R, 5000 < length ?R)" using admin_logs_answer(1) [OF ok] by (simp add: logs_page_window)
  show ?case
  proof (cases "5000 < length ?R")
    case False
    with "1.prems"(2) ok page show ?thesis by (simp add: read_pages.simps [of env header db])
  next
    case True
    let ?x = "last (take 5000 ?R)"
    obtain rest where rest: "read_pages env header db until (lg_ts ?x) (lg_id ?x) = Inr rest" "rows = take 5000 ?R @ rest"
      using "1.prems"(2) ok page True by (auto simp: read_pages.simps [of env header db until since] map_sum_def split: sum.splits)
    have "rest = window_rows db until (lg_ts ?x) (lg_id ?x)"
      using "1.IH" [OF ok] page True rest(1) "1.prems"(1) by simp
    moreover have le: "5000 \<le> length ?R" using True by simp
    have "window_rows db until (lg_ts ?x) (lg_id ?x) = drop 5000 ?R" by (rule cursor_continues [OF "1.prems"(1) _ le refl]) simp
    ultimately show ?thesis using rest(2) by simp
  qed
qed

lemma read_pages_refused:
  assumes "5000 < length (window_rows db until since a)" "lg_ts (window_rows db until since a ! 4999) = until"
  shows "\<exists>e. read_pages env header db until since a = Inl e"
proof (cases "admin_logs env header [(''since'', int_str since), (''until'', int_str until), (''after_id'', int_str a)] db")
  case (Inr page)
  have page: "page = (take 5000 (window_rows db until since a), True)"
    using admin_logs_answer(1) [OF Inr] assms(1) by (simp add: logs_page_window)
  have "last (take 5000 (window_rows db until since a)) = window_rows db until since a ! 4999"
    using assms(1) by (subst last_conv_nth) auto
  then have "lg_ts (last (take 5000 (window_rows db until since a))) = until" using assms(2) by simp
  moreover obtain e where "admin_logs env header [(''since'', int_str until), (''until'', int_str until),
      (''after_id'', int_str (lg_id (last (take 5000 (window_rows db until since a)))))] db = Inl e"
    using admin_logs_answer(2) [of env header until until "lg_id (last (take 5000 (window_rows db until since a)))" db]
    by (cases "admin_logs env header [(''since'', int_str until), (''until'', int_str until),
      (''after_id'', int_str (lg_id (last (take 5000 (window_rows db until since a)))))] db") auto
  ultimately show ?thesis
    using Inr page by (simp add: read_pages.simps [of env header db until since a] read_pages.simps [of env header db until until])
qed (simp add: read_pages.simps [of env header db until since a])

lemma read_pages_returns:
  assumes "distinct (map lg_id (db_logs db))" "\<And>l. l \<in> set (db_logs db) \<Longrightarrow> int64 (lg_ts l) \<and> int64 (lg_id l)"
    and "admin_denied env header ''logs'' = None" "int64 until" "length (filter (\<lambda>l. lg_ts l = until) (db_logs db)) \<le> 1"
  shows "int64 since \<Longrightarrow> since < until \<Longrightarrow> until - since \<le> ADMIN_MAX_WINDOW_MS \<Longrightarrow> int64 a \<Longrightarrow> \<exists>rows. read_pages env header db until since a = Inr rows"
proof (induction "length (window_rows db until since a)" arbitrary: since a rule: less_induct)
  case less
  let ?R = "window_rows db until since a"
  have ok: "admin_logs env header [(''since'', int_str since), (''until'', int_str until), (''after_id'', int_str a)] db
      = Inr (take 5000 ?R, 5000 < length ?R)"
    using less.prems assms(3,4) by (subst admin_logs_query) (simp add: logs_page_window)
  show ?case
  proof (cases "5000 < length ?R")
    case False
    with ok show ?thesis by (simp add: read_pages.simps [of env header db until since a])
  next
    case True
    let ?x = "last (take 5000 ?R)"
    have "?x = ?R ! 4999" using True by (subst last_conv_nth) auto
    moreover have lt: "log_key (?R ! 4999) < log_key (?R ! 5000)"
      using window_rows_sorted [OF assms(1)] True by (auto simp: sorted_wrt_iff_nth_less)
    ultimately have x: "?x \<in> set ?R" "?R ! 5000 \<in> set ?R" "log_key ?x < log_key (?R ! 5000)" using True by simp_all
    have mem: "l \<in> set (db_logs db) \<and> lg_ts l \<le> until \<and> since \<le> lg_ts l" if "l \<in> set ?R" for l
      using that by (auto simp: window_rows_def less_prod_def)
    have "lg_ts ?x \<noteq> until"
    proof
      assume u: "lg_ts ?x = until"
      then have "lg_ts (?R ! 5000) = until" using x(3) mem [OF x(2)] by (auto simp: less_prod_def)
      moreover have "?x \<noteq> ?R ! 5000" using x(3) by auto
      ultimately have "{?x, ?R ! 5000} \<subseteq> set (filter (\<lambda>l. lg_ts l = until) (db_logs db))" "card {?x, ?R ! 5000} = 2"
        using u mem [OF x(1)] mem [OF x(2)] by auto
      then have "2 \<le> card (set (filter (\<lambda>l. lg_ts l = until) (db_logs db)))" by (metis List.finite_set card_mono)
      then show False using assms(5) card_length [of "filter (\<lambda>l. lg_ts l = until) (db_logs db)"] by linarith
    qed
    then have "\<exists>rows. read_pages env header db until (lg_ts ?x) (lg_id ?x) = Inr rows"
      using less.prems mem [OF x(1)] assms(2) by (intro less.hyps [OF cursor_shrinks [OF x(1)]]) force+
    with ok True show ?thesis by (auto simp: read_pages.simps [of env header db until since a])
  qed
qed


section \<open>Concrete readings\<close>

theorem enroll_limit_exact_witness:
  "sorted (map call_at [(''1.1.1.1'', 0, 0)]) \<and> fst (enroll_step (\<lambda>s. s) (''1.1.1.1'', 0, 0) new_enroll_limiter)"
  using enroll_limit_exact [of "[]" "(''1.1.1.1'', 0, 0)" "\<lambda>s. s"] by simp

definition demo_admin_env :: "string \<Rightarrow> string" where
  "demo_admin_env k = (if k = ''HERMES_AGENT_RELAY_ADMIN_TOKEN'' then ''s'' else if k = ''HERMES_TELEMETRY_DIAG_TOKEN'' then ''t'' else [])"

lemma demo_admin_ok: "admin_denied demo_admin_env ''Bearer s'' ''logs'' = None"
  by (simp add: admin_denied_def admin_bearer_def scopes_for_def demo_admin_env_def strip_def is_space_def ADMIN_TOKEN_SCOPES_def)

theorem admin_plane_scoped_witness:
  "(\<exists>page. admin_logs demo_admin_env ''Bearer s'' [(''since'', int_str 0), (''until'', int_str 1), (''after_id'', int_str 0)] empty_relay = Inr page)
   \<and> admin_bearer ''Bearer s'' = Some (strip (demo_admin_env ''HERMES_AGENT_RELAY_ADMIN_TOKEN''))
   \<and> admin_denied demo_admin_env ''Bearer s'' ''telemetry-diagnostics'' \<noteq> None"
proof -
  have read: "\<exists>page. admin_logs demo_admin_env ''Bearer s'' [(''since'', int_str 0), (''until'', int_str 1), (''after_id'', int_str 0)] empty_relay = Inr page"
    by (subst admin_logs_query) (simp add: demo_admin_ok int64_def ADMIN_MAX_WINDOW_MS_def)
  have differ: "strip (demo_admin_env ''HERMES_AGENT_RELAY_ADMIN_TOKEN'') \<noteq> strip (demo_admin_env ''HERMES_TELEMETRY_DIAG_TOKEN'')"
    by code_simp
  note scoped = admin_plane_scoped [of demo_admin_env "''Bearer s''" "\<lambda>s. s"]
  have "admin_bearer ''Bearer s'' = Some (strip (demo_admin_env ''HERMES_AGENT_RELAY_ADMIN_TOKEN''))"
    by (rule conjunct2 [OF mp [OF spec [OF spec [OF conjunct1 [OF scoped]]] disjI1 [OF read]]])
  moreover have "admin_denied demo_admin_env ''Bearer s'' ''telemetry-diagnostics'' \<noteq> None"
    using conjunct1 [OF conjunct2 [OF conjunct2 [OF scoped]]] differ demo_admin_ok by simp
  ultimately show ?thesis using read by simp
qed

definition demo_log :: relay_log where
  "demo_log = \<lparr>lg_id = 1, lg_ts = 5, lg_level = ''INFO'', lg_logger = ''relay'', lg_event = ''send'', lg_status = ''sent'', lg_actor = ''a'',
     lg_card_id = [], lg_message_id = [], lg_raw = ''line''\<rparr>"


end
