(* ===== verification/Relay_Server.thy ===== *)
theory Relay_Server
  imports Relay_Admin Push_Scenes
begin

text \<open>
  The HTTP service of the relay (\<open>create_agent_relay_app\<close> of \<open>src/hermes_multitenancy/agent_relay.py\<close>) and its Feishu client
  (\<open>agent_relay_feishu.py\<close>), over the store of \<open>Relay_Store\<close>. A handler is a function from the request and the database to the database, the
  calls it makes to Feishu and its answer. The relay is one asyncio loop: other tasks run where a handler awaits, while it reads the body
  and while Feishu answers; \<open>rw_env i\<close> is what they do to the store at the \<open>i\<close>-th of these points. Clock readings, random identifiers and
  Feishu's answers are arguments (\<open>relay_world\<close>). JSON values are those of \<open>Push_Scenes\<close>; where the store seals a JSON object its values are
  those of the vault. Log lines are not modelled.
\<close>

section \<open>Cards and calls to Feishu\<close>

record server_lib =
  sl_py :: pylib
  sl_canonical :: "json \<Rightarrow> string"
  sl_urlencode :: "(string \<times> string) list \<Rightarrow> string"

definition RELAY_MAX_CONTENT_BYTES :: nat where "RELAY_MAX_CONTENT_BYTES = 30 * 1024"

definition FORBIDDEN_IDENTITY_FIELDS :: "string list" where
  "FORBIDDEN_IDENTITY_FIELDS =
     [''target'', ''recipient'', ''open_id'', ''user_id'', ''email'', ''employee_id'', ''profile'', ''profile_name'', ''agent'']"

fun contains_forbidden_identity :: "json \<Rightarrow> bool" where
  "contains_forbidden_identity (JObj d) =
     list_ex (\<lambda>e. lower (fst e) \<in> set FORBIDDEN_IDENTITY_FIELDS \<or> contains_forbidden_identity (snd e)) d"
| "contains_forbidden_identity (JArr xs) = list_ex contains_forbidden_identity xs"
| "contains_forbidden_identity _ = False"

definition valid_actor_id :: "string \<Rightarrow> bool" where
  "valid_actor_id v \<longleftrightarrow> startswith v ''ou_'' \<and> 4 \<le> char_count v \<and> char_count v \<le> 128 \<and> \<not> list_ex is_space v"

type_synonym jobj = "(string \<times> json) list"

text \<open>The list of elements of a card, in its body or at its top.\<close>

definition card_elements :: "jobj \<Rightarrow> json list option" where
  "card_elements crd =
     (case (if jget crd ''schema'' = json.JStr ''2.0''
            then (case jget crd ''body'' of JObj body \<Rightarrow> jget body ''elements'' | _ \<Rightarrow> json.JNull)
            else jget crd ''elements'') of
        JArr xs \<Rightarrow> Some xs
      | _ \<Rightarrow> None)"

definition set_elements :: "jobj \<Rightarrow> json list \<Rightarrow> jobj" where
  "set_elements crd xs =
     (if jget crd ''schema'' = json.JStr ''2.0''
      then (case jget crd ''body'' of JObj body \<Rightarrow> dict_set ''body'' (JObj (dict_set ''elements'' (JArr xs) body)) crd | _ \<Rightarrow> crd)
      else dict_set ''elements'' (JArr xs) crd)"

text \<open>An action is its identifier and its label.\<close>

definition action_button :: "string \<Rightarrow> string \<Rightarrow> string \<times> string \<Rightarrow> json" where
  "action_button card_id nonce a =
     JObj [(''tag'', json.JStr ''button''), (''text'', JObj [(''tag'', json.JStr ''plain_text''), (''content'', json.JStr (snd a))]),
           (''value'', JObj [(''relay_action'', json.JBool True), (''card_id'', json.JStr card_id), (''nonce'', json.JStr nonce),
              (''action_id'', json.JStr (fst a))])]"

definition card_with_actions :: "jobj \<Rightarrow> (string \<times> string) list \<Rightarrow> string \<Rightarrow> string \<Rightarrow> jobj option" where
  "card_with_actions content actions card_id nonce =
     (case card_elements content of
        None \<Rightarrow> None
      | Some xs \<Rightarrow>
          Some (if actions = [] then content
                else set_elements content (xs @ [JObj [(''tag'', json.JStr ''action''), (''actions'', JArr (map (action_button card_id nonce) actions))]])))"

definition with_shared_card_config :: "jobj \<Rightarrow> jobj" where
  "with_shared_card_config crd =
     (case jget crd ''config'' of
        JObj config \<Rightarrow>
          if map_of config ''update_multi'' \<noteq> None then crd
          else dict_set ''config'' (JObj (dict_set ''update_multi'' (json.JBool True) config)) crd
      | _ \<Rightarrow> dict_set ''config'' (JObj [(''update_multi'', json.JBool True)]) crd)"

text \<open>What the client asks Feishu to do: the body of a POST of \<open>_send_message\<close>, the message and content of a PATCH of \<open>_update_card\<close>.\<close>

datatype outbound =
    PostMessage jval string string string
  | PatchMessage string string

text \<open>The answer: the receipt, a timeout, an API error (status, retry, code and message as \<open>FeishuApiError\<close> stores them), anything else.\<close>

datatype feishu_reply =
    FSent string string
  | FTimeout
  | FApi int "int option" "string option" string
  | FOther

definition feishu_post :: "pylib \<Rightarrow> jval \<Rightarrow> string \<Rightarrow> jobj \<Rightarrow> string \<Rightarrow> outbound" where
  "feishu_post P actor_id msg_type content uuid =
     (let feishu_type = (if msg_type = ''card'' then ''interactive'' else msg_type);
          content1 = (if feishu_type = ''interactive'' then with_shared_card_config content else content)
      in PostMessage actor_id feishu_type (dumps P (JObj content1)) uuid)"

definition feishu_post_card ::
    "pylib \<Rightarrow> jval \<Rightarrow> jobj \<Rightarrow> (string \<times> string) list \<Rightarrow> string \<Rightarrow> string \<Rightarrow> string \<Rightarrow> outbound option" where
  "feishu_post_card P actor_id content actions card_id nonce uuid =
     map_option (\<lambda>c. feishu_post P actor_id ''card'' c uuid) (card_with_actions content actions card_id nonce)"

definition feishu_patch :: "pylib \<Rightarrow> string \<Rightarrow> string \<Rightarrow> string \<Rightarrow> jobj option \<Rightarrow> outbound" where
  "feishu_patch P message_id status action_id content =
     PatchMessage message_id (dumps P (JObj (case content of
        Some c \<Rightarrow> with_shared_card_config c
      | None \<Rightarrow> [(''elements'', JArr [JObj [(''tag'', json.JStr ''markdown''),
           (''content'', json.JStr (''Status: '' @ status @ (if action_id \<noteq> [] then '' ('' @ action_id @ '')'' else [])))]])])))"

definition ambiguity_notice :: "pylib \<Rightarrow> string \<Rightarrow> string \<Rightarrow> string \<Rightarrow> outbound" where
  "ambiguity_notice P notice actor_id uuid =
     feishu_post P (jval.JStr actor_id) ''text'' [(''text'', json.JStr notice)] uuid"

definition feishu_uuid :: "relay_env \<Rightarrow> string \<Rightarrow> string" where
  "feishu_uuid re v = take 50 (re_sha re v)"

definition authorize_url :: "server_lib \<Rightarrow> string \<Rightarrow> string \<Rightarrow> string \<Rightarrow> string" where
  "authorize_url L app_id redirect_uri state =
     ''https://accounts.feishu.cn/open-apis/authen/v1/authorize?'' @ sl_urlencode L
       [(''client_id'', app_id), (''redirect_uri'', redirect_uri), (''response_type'', ''code''), (''state'', state)]"

section \<open>Requests and answers\<close>

record relay_world =
  rw_now :: "nat \<Rightarrow> int"
  rw_env :: "nat \<Rightarrow> relay_op list"
  rw_feishu :: "outbound \<Rightarrow> feishu_reply"
  rw_seal :: "nat \<Rightarrow> bytes"
  rw_id :: string
  rw_id2 :: string
  rw_nonce :: string

text \<open>The \<open>Authorization\<close> header, the identifier in the path, the query, and the body as JSON (None: it does not parse).\<close>

record api_request =
  aq_header :: string
  aq_path :: string
  aq_query :: query
  aq_body :: "json option"

datatype relay_body =
    MessageSent string string
  | MessageStored payload
  | WindowClosed string
  | MessageUpdated string
  | CardBody "card_view option"
  | RepliesBody "(string \<times> jval \<times> int) list"
  | ReactionsBody "string list"
  | WhoBody auth_view
  | TokenRevoked string

datatype answer = Refused http_error | Answer int relay_body

type_synonym relay_outcome = "relay_db \<times> outbound list \<times> answer result"

definition refuse :: "string \<Rightarrow> string \<Rightarrow> int \<Rightarrow> answer" where
  "refuse code message status = Refused (admin_error code message status None)"

definition UNAUTHORIZED :: answer where "UNAUTHORIZED = refuse ''unauthorized'' ''invalid or revoked token'' 401"
definition BAD_JSON :: answer where "BAD_JSON = refuse ''invalid_json'' ''body must be a JSON object'' 400"
definition BAD_BODY :: answer where "BAD_BODY = refuse ''invalid_body'' ''body must be a JSON object'' 400"
definition BAD_IDENTITY :: answer where
  "BAD_IDENTITY = refuse ''identity_field_forbidden'' ''recipient and identity fields are not accepted'' 400"

text \<open>\<open>authenticate\<close> of the application.\<close>

definition authenticate_request :: "relay_env \<Rightarrow> int \<Rightarrow> string \<Rightarrow> relay_db \<Rightarrow> relay_db \<times> auth_view option result" where
  "authenticate_request re now header db =
     (let token = str_or_empty (admin_bearer header)
      in if token = [] then (db, Inr None) else authenticate re now token db)"

text \<open>What a handler does once it knows the caller, after a refusal otherwise.\<close>

definition authenticated ::
    "relay_env \<Rightarrow> relay_world \<Rightarrow> api_request \<Rightarrow> (auth_view \<Rightarrow> relay_db \<Rightarrow> relay_outcome) \<Rightarrow> relay_db \<Rightarrow> relay_outcome" where
  "authenticated re w q k db =
     (case authenticate_request re (rw_now w 0) (aq_header q) db of
        (db1, Inl x) \<Rightarrow> (db1, [], Inl x)
      | (db1, Inr None) \<Rightarrow> (db1, [], Inr UNAUTHORIZED)
      | (db1, Inr (Some actor)) \<Rightarrow> k actor db1)"

definition feishu_error_message :: "string \<Rightarrow> string option \<Rightarrow> string \<Rightarrow> string" where
  "feishu_error_message fallback code message =
     (case (map_option (\<lambda>c. ''code='' @ c) code, if message \<noteq> [] then Some (''msg='' @ message) else None) of
        (None, None) \<Rightarrow> fallback
      | (Some c, None) \<Rightarrow> fallback @ '': Feishu '' @ c
      | (None, Some m) \<Rightarrow> fallback @ '': Feishu '' @ m
      | (Some c, Some m) \<Rightarrow> fallback @ '': Feishu '' @ c @ '', '' @ m)"

text \<open>The exception handlers around a call to Feishu; they differ in the code of a rejected payload and in two messages.\<close>

definition feishu_failure :: "string \<Rightarrow> string \<Rightarrow> string \<Rightarrow> feishu_reply \<Rightarrow> answer" where
  "feishu_failure rejected timed_out failed reply =
     (case reply of
        FTimeout \<Rightarrow> refuse ''upstream_timeout'' timed_out 504
      | FApi status retry code message \<Rightarrow>
          if status = 429
          then Refused (admin_error ''rate_limited'' (feishu_error_message ''Feishu rate limited the request'' code message) 429
                 (Some (case retry of None \<Rightarrow> 1 | Some r \<Rightarrow> if r = 0 then 1 else r)))
          else if status = 400 then refuse rejected (feishu_error_message ''Feishu rejected the payload'' code message) 400
          else refuse ''upstream_unavailable'' (feishu_error_message failed code message) 502
      | _ \<Rightarrow> refuse ''upstream_unavailable'' failed 502)"

definition request_hash :: "server_lib \<Rightarrow> relay_env \<Rightarrow> jobj \<Rightarrow> string" where
  "request_hash L re payload = re_sha re (sl_canonical L (JObj payload))"

text \<open>\<open>len(json.dumps(content).encode()) > MAX_CONTENT_BYTES\<close>, and a JSON object as the vault seals it.\<close>

definition too_large :: "pylib \<Rightarrow> jobj \<Rightarrow> bool" where
  "too_large P content \<longleftrightarrow> length (dumps P (JObj content)) > RELAY_MAX_CONTENT_BYTES"

definition to_payload :: "pylib \<Rightarrow> jobj \<Rightarrow> payload" where
  "to_payload P d = map (\<lambda>(k, v). (k, case v of
       json.JNull \<Rightarrow> jval.JNull | json.JBool b \<Rightarrow> jval.JBool b | json.JInt i \<Rightarrow> jval.JInt i | json.JStr s \<Rightarrow> jval.JStr s
     | _ \<Rightarrow> jval.JOther (dumps P v))) d"

definition NO_ELEMENTS :: string where "NO_ELEMENTS = ''card content must contain an elements list''"

section \<open>Messages\<close>

record send_request =
  sr_type :: string
  sr_content :: jobj
  sr_key :: string
  sr_window :: int

text \<open>\<open>payload.get("reply_window_seconds", 0)\<close>, when it is an integer (a boolean is one) of the allowed range.\<close>

definition reply_window :: "jobj \<Rightarrow> int option" where
  "reply_window p =
     (case map_of p ''reply_window_seconds'' of
        None \<Rightarrow> Some 0
      | Some (json.JInt i) \<Rightarrow> if i \<noteq> 0 \<and> \<not> (300 \<le> i \<and> i \<le> 1800) then None else Some i
      | Some (json.JBool b) \<Rightarrow> if b then None else Some 0
      | _ \<Rightarrow> None)"

text \<open>The checks of \<open>send_message\<close> on the object in the body.\<close>

definition check_send :: "pylib \<Rightarrow> jobj \<Rightarrow> answer + send_request" where
  "check_send P p =
     (let msg_type = str_get_or P p ''type'' []; key = strip (str_get_or P p ''idempotency_key'' [])
      in if contains_forbidden_identity (JObj p) then Inl BAD_IDENTITY
         else (case jget p ''content'' of
             JObj content \<Rightarrow>
               if msg_type \<notin> {''text'', ''card''} \<or> key = []
               then Inl (refuse ''invalid_message'' ''type, content, and idempotency_key are required'' 400)
               else if too_large P content then Inl (refuse ''content_too_large'' ''content exceeds 30720 bytes'' 400)
               else if msg_type = ''card'' \<and> card_with_actions content [] [] [] = None then Inl (refuse ''invalid_card'' NO_ELEMENTS 400)
               else (case reply_window p of
                   None \<Rightarrow> Inl (refuse ''invalid_reply_window'' ''reply_window_seconds must be 0 or 300..1800'' 400)
                 | Some i \<Rightarrow> Inr \<lparr>sr_type = msg_type, sr_content = content, sr_key = key, sr_window = i\<rparr>)
           | _ \<Rightarrow> Inl (refuse ''invalid_message'' ''type, content, and idempotency_key are required'' 400)))"

definition public_result :: "string \<Rightarrow> string \<Rightarrow> payload" where
  "public_result message_id conversation_id =
     [(''message_id'', jval.JStr message_id), (''conversation_id'', jval.JStr conversation_id)]"

text \<open>The call to Feishu and what follows it, for a message reserved as \<open>row\<close>.\<close>

definition deliver_message ::
    "server_lib \<Rightarrow> relay_env \<Rightarrow> relay_world \<Rightarrow> auth_view \<Rightarrow> send_request \<Rightarrow> relay_message \<Rightarrow> bool \<Rightarrow> relay_db \<Rightarrow> relay_outcome" where
  "deliver_message L re w actor r row created db =
     (let o' = feishu_post (sl_py L) (av_actor_id actor) (sr_type r) (sr_content r)
                 (feishu_uuid re (av_token_id actor @ CHR '':'' # sr_key r));
          db' = relay_run re (rw_env w 1) db
      in case rw_feishu w o' of
           FSent message_id conversation_id \<Rightarrow>
             if strip message_id = [] then (db', [o'], Inr (refuse ''missing_receipt'' ''Feishu returned no message_id'' 502))
             else (finish_message re (rw_now w 3) (rw_seal w 0) (m_resource_id row) message_id (public_result message_id conversation_id) db',
                   [o'], Inr (Answer (if created then 201 else 200) (MessageSent message_id conversation_id)))
         | reply \<Rightarrow> (db', [o'], Inr (feishu_failure ''invalid_message'' ''Feishu send timed out'' ''Feishu send failed'' reply)))"

definition CONFLICT :: answer where
  "CONFLICT = refuse ''idempotency_conflict'' ''idempotency key was already used with another request'' 409"

definition submit_message ::
    "server_lib \<Rightarrow> relay_env \<Rightarrow> relay_world \<Rightarrow> auth_view \<Rightarrow> jobj \<Rightarrow> send_request \<Rightarrow> relay_db \<Rightarrow> relay_outcome" where
  "submit_message L re w actor p r db =
     (case reserve_message (rw_now w 2) (rw_id w) (av_token_id actor) (sr_key r) (request_hash L re p)
             (if sr_window r \<noteq> 0 then Some (rw_now w 1 + sr_window r * 1000) else None) (sr_type r) db of
        (db', Inl RelayConflict) \<Rightarrow> (db', [], Inr CONFLICT)
      | (db', Inl x) \<Rightarrow> (db', [], Inl x)
      | (db', Inr (row, created)) \<Rightarrow>
          (case message_result re row of
             Inl x \<Rightarrow> (db', [], Inl x)
           | Inr (Some stored) \<Rightarrow> (db', [], Inr (Answer 200 (MessageStored stored)))
           | Inr None \<Rightarrow> deliver_message L re w actor r row created db'))"

definition send_message :: "server_lib \<Rightarrow> relay_env \<Rightarrow> relay_world \<Rightarrow> api_request \<Rightarrow> relay_db \<Rightarrow> relay_outcome" where
  "send_message L re w q = authenticated re w q (\<lambda>actor db1.
     let db2 = relay_run re (rw_env w 0) db1
     in case aq_body q of
          None \<Rightarrow> (db2, [], Inr BAD_JSON)
        | Some (JObj p) \<Rightarrow> (case check_send (sl_py L) p of Inl a \<Rightarrow> (db2, [], Inr a) | Inr r \<Rightarrow> submit_message L re w actor p r db2)
        | Some _ \<Rightarrow> (db2, [], Inr BAD_BODY))"

text \<open>\<open>update_message\<close>: closing the reply window, or new content for a card.\<close>

definition wants_window_closed :: "jobj \<Rightarrow> bool" where
  "wants_window_closed p \<longleftrightarrow>
     (case jget p ''reply_window_seconds'' of json.JInt i \<Rightarrow> i = 0 | JFloat f \<Rightarrow> f = Finite 0 | _ \<Rightarrow> False)"

definition patch_message ::
    "server_lib \<Rightarrow> relay_env \<Rightarrow> relay_world \<Rightarrow> auth_view \<Rightarrow> string \<Rightarrow> relay_message \<Rightarrow> jobj \<Rightarrow> relay_db \<Rightarrow> relay_outcome" where
  "patch_message L re w actor message_id row p db =
     (case jget p ''content'' of
        JObj content \<Rightarrow>
          if m_kind row \<noteq> ''card'' then (db, [], Inr (refuse ''invalid_message'' ''only card messages can be updated'' 400))
          else if too_large (sl_py L) content then (db, [], Inr (refuse ''content_too_large'' ''content exceeds 30720 bytes'' 400))
          else if card_with_actions content [] [] [] = None then (db, [], Inr (refuse ''invalid_card'' NO_ELEMENTS 400))
          else
            let o' = feishu_patch (sl_py L) message_id [] [] (Some content); db' = relay_run re (rw_env w 1) db
            in (case rw_feishu w o' of
                 FSent x y \<Rightarrow>
                   (fst (cache_card_content re (rw_now w 1) (rw_seal w 0) (av_token_id actor) message_id (to_payload (sl_py L) content) db'),
                    [o'], Inr (Answer 200 (MessageUpdated message_id)))
               | reply \<Rightarrow> (db', [o'], Inr (feishu_failure ''invalid_message'' ''Feishu update timed out'' ''Feishu update failed'' reply)))
      | _ \<Rightarrow> (db, [], Inr (refuse ''invalid_message'' ''content is required'' 400)))"

definition update_message :: "server_lib \<Rightarrow> relay_env \<Rightarrow> relay_world \<Rightarrow> api_request \<Rightarrow> relay_db \<Rightarrow> relay_outcome" where
  "update_message L re w q = authenticated re w q (\<lambda>actor db1.
     let db2 = relay_run re (rw_env w 0) db1; message_id = aq_path q
     in case aq_body q of
          None \<Rightarrow> (db2, [], Inr BAD_JSON)
        | Some (JObj p) \<Rightarrow>
            if contains_forbidden_identity (JObj p) then (db2, [], Inr BAD_IDENTITY)
            else (case owned_sent_message db2 (av_token_id actor) message_id of
                None \<Rightarrow> (db2, [], Inr (refuse ''not_found'' ''message not found'' 404))
              | Some row \<Rightarrow>
                  if wants_window_closed p
                  then (case close_reply_window (rw_now w 1) (av_token_id actor) message_id db2 of
                      (db3, False) \<Rightarrow> (db3, [], Inr (refuse ''window_not_open'' ''no open reply window for this message'' 409))
                    | (db3, True) \<Rightarrow> (db3, [], Inr (Answer 200 (WindowClosed message_id))))
                  else patch_message L re w actor message_id row p db2)
        | Some _ \<Rightarrow> (db2, [], Inr BAD_BODY))"

section \<open>Reading, and the token\<close>

text \<open>\<open>int(request.query.get(k, default))\<close> within the integers of SQLite; both parameters, the limit clamped.\<close>

definition reply_query :: "query \<Rightarrow> (int \<times> int) option" where
  "reply_query q =
     (case query_nonneg q ''since_ts'' 0 of
        None \<Rightarrow> None
      | Some since_ts \<Rightarrow>
          (case query_nonneg q ''limit'' 50 of None \<Rightarrow> None | Some limit \<Rightarrow> Some (since_ts, min 100 (max 1 limit))))"

definition get_replies :: "relay_env \<Rightarrow> relay_world \<Rightarrow> api_request \<Rightarrow> relay_db \<Rightarrow> relay_outcome" where
  "get_replies re w q = authenticated re w q (\<lambda>actor db.
     case reply_query (aq_query q) of
       None \<Rightarrow> (db, [], Inr (refuse ''invalid_query'' ''since_ts and limit must be integers'' 400))
     | Some (since_ts, limit) \<Rightarrow>
         (db, [], map_sum (\<lambda>x. x) (\<lambda>r. case r of
              None \<Rightarrow> refuse ''not_found'' ''message not found'' 404
            | Some replies \<Rightarrow> Answer 200 (RepliesBody replies)) (message_replies re db (av_token_id actor) (aq_path q) since_ts limit)))"

definition get_reactions :: "relay_env \<Rightarrow> relay_world \<Rightarrow> api_request \<Rightarrow> relay_db \<Rightarrow> relay_outcome" where
  "get_reactions re w q = authenticated re w q (\<lambda>actor db.
     (db, [], Inr (case message_reactions db (av_token_id actor) (aq_path q) of
        None \<Rightarrow> refuse ''not_found'' ''message not found'' 404
      | Some rs \<Rightarrow> Answer 200 (ReactionsBody rs))))"

definition whoami :: "relay_env \<Rightarrow> relay_world \<Rightarrow> api_request \<Rightarrow> relay_db \<Rightarrow> relay_outcome" where
  "whoami re w q = authenticated re w q (\<lambda>actor db. (db, [], Inr (Answer 200 (WhoBody actor))))"

definition revoke_request :: "relay_env \<Rightarrow> relay_world \<Rightarrow> api_request \<Rightarrow> relay_db \<Rightarrow> relay_outcome" where
  "revoke_request re w q = authenticated re w q (\<lambda>actor db.
     if aq_path q \<noteq> av_token_id actor then (db, [], Inr (refuse ''not_found'' ''token not found'' 404))
     else (case revoke_token (rw_now w 1) (aq_path q) db of
         (db', False) \<Rightarrow> (db', [], Inr (refuse ''not_found'' ''token not found'' 404))
       | (db', True) \<Rightarrow> (db', [], Inr (Answer 200 (TokenRevoked (aq_path q))))))"

section \<open>Interactive cards\<close>

record card_request =
  cq_content :: jobj
  cq_actions :: "(string \<times> string) list"
  cq_key :: string
  cq_expires_in :: int

text \<open>One entry of \<open>actions\<close>: an object with exactly a string identifier and a string label of 1 to 64 characters.\<close>

definition valid_label :: "string \<Rightarrow> bool" where
  "valid_label s \<longleftrightarrow> 0 < char_count s \<and> char_count s \<le> 64"

definition read_action :: "json \<Rightarrow> (string \<times> string) option" where
  "read_action j =
     (case j of
        JObj d \<Rightarrow>
          if set (map fst d) \<noteq> {''id'', ''label''} then None
          else (case (jget d ''id'', jget d ''label'') of
              (json.JStr i, json.JStr l) \<Rightarrow> if valid_label i \<and> valid_label l then Some (i, l) else None
            | _ \<Rightarrow> None)
      | _ \<Rightarrow> None)"

fun read_actions :: "json list \<Rightarrow> (string \<times> string) list option" where
  "read_actions [] = Some []"
| "read_actions (j # js) =
     (case read_action j of None \<Rightarrow> None | Some a \<Rightarrow> map_option (\<lambda>as. a # as) (read_actions js))"

definition valid_actions :: "json \<Rightarrow> (string \<times> string) list option" where
  "valid_actions j =
     (case j of JArr js \<Rightarrow> if 1 \<le> length js \<and> length js \<le> 5 then read_actions js else None | _ \<Rightarrow> None)"

definition bad_card :: "string \<Rightarrow> answer" where "bad_card message = refuse ''invalid_card'' message 400"

text \<open>The checks of \<open>create_card\<close> on the object in the body, in the order of the code.\<close>

definition check_card :: "pylib \<Rightarrow> jobj \<Rightarrow> answer + card_request" where
  "check_card P p =
     (let key = strip (str_get_or P p ''idempotency_key'' []);
          expires_in = (if map_of p ''expires_in'' \<noteq> None then jget p ''expires_in'' else jget p ''expiry'')
      in if contains_forbidden_identity (JObj p) then Inl (bad_card ''invalid card body or identity field'')
         else if map_of p ''expires_in'' \<noteq> None \<and> map_of p ''expiry'' \<noteq> None
         then Inl (bad_card ''use only one of expires_in or expiry'')
         else (case jget p ''content'' of
             JObj content \<Rightarrow>
               if too_large P content then Inl (bad_card ''content exceeds 30720 bytes'')
               else (case valid_actions (jget p ''actions'') of
                   None \<Rightarrow> Inl (bad_card ''actions must be 1..5 objects with exactly string id and label fields of 1..64 characters'')
                 | Some actions \<Rightarrow>
                     if key = [] then Inl (bad_card ''idempotency_key is required'')
                     else (case expires_in of
                         json.JInt i \<Rightarrow>
                           if \<not> (300 \<le> i \<and> i \<le> 1800)
                           then Inl (bad_card ''expires_in or expiry must be integer TTL seconds from 300 to 1800'')
                           else if card_with_actions content actions ''validation'' ''validation'' = None then Inl (bad_card NO_ELEMENTS)
                           else if \<not> distinct (map fst actions) then Inl (bad_card ''action ids must be unique'')
                           else Inr \<lparr>cq_content = content, cq_actions = actions, cq_key = key, cq_expires_in = i\<rparr>
                       | _ \<Rightarrow> Inl (bad_card ''expires_in or expiry must be integer TTL seconds from 300 to 1800'')))
           | _ \<Rightarrow> Inl (bad_card ''content must be a card object'')))"

definition normalized_card :: "jobj \<Rightarrow> int \<Rightarrow> jobj" where
  "normalized_card p expires_in = filter (\<lambda>e. fst e \<noteq> ''expiry'') (dict_set ''expires_in'' (json.JInt expires_in) p)"

text \<open>\<open>register_card_message\<close>, its failures only logged.\<close>

definition try_register :: "relay_world \<Rightarrow> int \<Rightarrow> string \<Rightarrow> string \<Rightarrow> string \<Rightarrow> int \<Rightarrow> relay_db \<Rightarrow> relay_db" where
  "try_register w now token_id key message_id expires_at db =
     fst (register_card_message now (rw_id2 w) token_id key message_id expires_at db)"

definition deliver_card ::
    "server_lib \<Rightarrow> relay_env \<Rightarrow> relay_world \<Rightarrow> auth_view \<Rightarrow> card_request \<Rightarrow> relay_card \<Rightarrow> string \<Rightarrow> bool \<Rightarrow> relay_db \<Rightarrow> relay_outcome" where
  "deliver_card L re w actor r row nonce created db =
     (case feishu_post_card (sl_py L) (av_actor_id actor) (cq_content r) (cq_actions r) (k_card_id row) nonce
             (feishu_uuid re (av_token_id actor @ CHR '':'' # cq_key r)) of
        None \<Rightarrow> (relay_run re (rw_env w 1) db, [], Inr (feishu_failure ''invalid_card'' ''Feishu send timed out'' ''Feishu send failed'' FOther))
      | Some o' \<Rightarrow>
          let db' = relay_run re (rw_env w 1) db
          in (case rw_feishu w o' of
               FSent receipt conversation_id \<Rightarrow>
                 let message_id = strip receipt
                 in if message_id = []
                    then (fail_card (rw_now w 3) (k_card_id row) db', [o'], Inr (refuse ''missing_receipt'' ''Feishu returned no message_id'' 502))
                    else
                      let db3 = finish_card re (rw_now w 3) (rw_seal w 1) (k_card_id row) message_id conversation_id db';
                          db4 = try_register w (rw_now w 4) (av_token_id actor) (cq_key r) message_id (k_expires_at row) db3
                      in (case card_state (rw_now w 5) (av_token_id actor) (k_card_id row) db4 of
                           (db5, state) \<Rightarrow> (db5, [o'], Inr (Answer (if created then 201 else 200) (CardBody state))))
             | FApi status retry code message \<Rightarrow>
                 (if status = 400 then fail_card (rw_now w 3) (k_card_id row) db' else db', [o'],
                  Inr (feishu_failure ''invalid_card'' ''Feishu send timed out'' ''Feishu send failed'' (FApi status retry code message)))
             | reply \<Rightarrow> (db', [o'], Inr (feishu_failure ''invalid_card'' ''Feishu send timed out'' ''Feishu send failed'' reply))))"

definition submit_card ::
    "server_lib \<Rightarrow> relay_env \<Rightarrow> relay_world \<Rightarrow> auth_view \<Rightarrow> jobj \<Rightarrow> card_request \<Rightarrow> relay_db \<Rightarrow> relay_outcome" where
  "submit_card L re w actor p r db =
     (case reserve_card re (rw_now w 2) (rw_id w) (rw_nonce w) (rw_seal w 0) (av_token_id actor) (cq_key r)
             (request_hash L re (normalized_card p (cq_expires_in r))) (map fst (cq_actions r)) (rw_now w 1 + cq_expires_in r * 1000) db of
        (db', Inl RelayConflict) \<Rightarrow> (db', [], Inr CONFLICT)
      | (db', Inl x) \<Rightarrow> (db', [], Inl x)
      | (db', Inr (row, nonce, created)) \<Rightarrow>
          if k_status row \<noteq> CSending
          then (if str_or_empty (k_message_id row) \<noteq> []
                then try_register w (rw_now w 3) (av_token_id actor) (cq_key r) (str_or_empty (k_message_id row)) (k_expires_at row) db'
                else db', [], Inr (Answer 200 (CardBody (Some (public_card row)))))
          else deliver_card L re w actor r row nonce created db')"

definition create_card :: "server_lib \<Rightarrow> relay_env \<Rightarrow> relay_world \<Rightarrow> api_request \<Rightarrow> relay_db \<Rightarrow> relay_outcome" where
  "create_card L re w q = authenticated re w q (\<lambda>actor db1.
     let db2 = relay_run re (rw_env w 0) db1
     in case aq_body q of
          None \<Rightarrow> (db2, [], Inr BAD_JSON)
        | Some (JObj p) \<Rightarrow> (case check_card (sl_py L) p of Inl a \<Rightarrow> (db2, [], Inr a) | Inr r \<Rightarrow> submit_card L re w actor p r db2)
        | Some _ \<Rightarrow> (db2, [], Inr (bad_card ''invalid card body or identity field'')))"

definition get_card :: "relay_env \<Rightarrow> relay_world \<Rightarrow> api_request \<Rightarrow> relay_db \<Rightarrow> relay_outcome" where
  "get_card re w q = authenticated re w q (\<lambda>actor db.
     case card_state (rw_now w 1) (av_token_id actor) (aq_path q) db of
       (db', None) \<Rightarrow> (db', [], Inr (refuse ''not_found'' ''card not found'' 404))
     | (db', Some state) \<Rightarrow> (db', [], Inr (Answer 200 (CardBody (Some state)))))"

text \<open>\<open>close_card\<close> as the service offers it: what is to be done, if the body is acceptable.\<close>

definition CLOSE_REASONS :: "string list" where "CLOSE_REASONS = [''local_resumed'', ''client_timeout'', ''cancelled'']"

definition wants_close :: "jobj \<Rightarrow> bool" where
  "wants_close p \<longleftrightarrow> map_of p ''status'' \<noteq> None \<or> map_of p ''reason'' \<noteq> None"

definition close_content :: "pylib \<Rightarrow> jobj \<Rightarrow> answer + jobj option" where
  "close_content P p =
     (case jget p ''content'' of
        json.JNull \<Rightarrow>
          if \<not> wants_close p then Inl (refuse ''invalid_close'' ''provide content, or status with a close reason, or both'' 400) else Inr None
      | JObj content \<Rightarrow>
          if too_large P content then Inl (refuse ''content_too_large'' ''content exceeds 30720 bytes'' 400)
          else if card_with_actions content [] [] [] = None then Inl (bad_card NO_ELEMENTS)
          else Inr (Some content)
      | _ \<Rightarrow> Inl (bad_card ''content must be a card object''))"

text \<open>The card after the close, or as it is; the database with it. \<open>Inl\<close>: the answer that ends the request.\<close>

definition close_state ::
    "pylib \<Rightarrow> relay_world \<Rightarrow> string \<Rightarrow> string \<Rightarrow> jobj \<Rightarrow> relay_db \<Rightarrow> relay_db \<times> (answer + card_view)" where
  "close_state P w token_id card_id p db =
     (if wants_close p
      then
        let reason = str_get_or P p ''reason'' []
        in if jget p ''status'' \<noteq> json.JStr ''closed'' \<or> reason \<notin> set CLOSE_REASONS
           then (db, Inl (refuse ''invalid_close'' ''status and a valid close reason are required'' 400))
           else (case close_card (\<lambda>d. d) (\<lambda>i. rw_now w (1 + i)) token_id card_id reason db of
               (db', None, changed) \<Rightarrow> (db', Inl (refuse ''not_found'' ''card not found'' 404))
             | (db', Some state, changed) \<Rightarrow>
                 if \<not> changed \<and> \<not> (cv_status state = CClosed \<and> cv_reason state = Some reason)
                 then (db', Inl (Answer 409 (CardBody (Some state)))) else (db', Inr state))
      else (case card_state (rw_now w 1) token_id card_id db of
          (db', None) \<Rightarrow> (db', Inl (refuse ''not_found'' ''card not found'' 404))
        | (db', Some state) \<Rightarrow> (db', Inr state)))"

definition patch_card ::
    "server_lib \<Rightarrow> relay_env \<Rightarrow> relay_world \<Rightarrow> string \<Rightarrow> jobj option \<Rightarrow> card_view \<Rightarrow> relay_db \<Rightarrow> relay_outcome" where
  "patch_card L re w token_id content state db =
     (if cv_message_id state = [] then (db, [], Inr (refuse ''not_delivered'' ''card has no delivered message to update'' 409))
      else
        let o' = (case content of
               Some c \<Rightarrow> feishu_patch (sl_py L) (cv_message_id state) [] [] (Some c)
             | None \<Rightarrow> feishu_patch (sl_py L) (cv_message_id state) ''closed'' [] None);
            db' = relay_run re (rw_env w 1) db
        in (case rw_feishu w o' of
             FSent x y \<Rightarrow>
               (case content of
                  None \<Rightarrow> db'
                | Some c \<Rightarrow> fst (cache_card_content re (rw_now w 3) (rw_seal w 0) token_id (cv_message_id state) (to_payload (sl_py L) c) db'),
                [o'], Inr (Answer 200 (CardBody (Some state))))
           | reply \<Rightarrow>
               (db', [o'], Inr (feishu_failure ''invalid_card'' ''Feishu update timed out'' ''card state updated but Feishu update failed'' reply))))"

definition close_request :: "server_lib \<Rightarrow> relay_env \<Rightarrow> relay_world \<Rightarrow> api_request \<Rightarrow> relay_db \<Rightarrow> relay_outcome" where
  "close_request L re w q = authenticated re w q (\<lambda>actor db1.
     let db2 = relay_run re (rw_env w 0) db1
     in case aq_body q of
          Some (JObj p) \<Rightarrow>
            if contains_forbidden_identity (JObj p) then (db2, [], Inr BAD_IDENTITY)
            else (case close_content (sl_py L) p of
                Inl a \<Rightarrow> (db2, [], Inr a)
              | Inr content \<Rightarrow>
                  (case close_state (sl_py L) w (av_token_id actor) (aq_path q) p db2 of
                     (db3, Inl a) \<Rightarrow> (db3, [], Inr a)
                   | (db3, Inr state) \<Rightarrow> patch_card L re w (av_token_id actor) content state db3))
        | _ \<Rightarrow> (db2, [], Inr BAD_JSON))"

section \<open>The endpoints together\<close>

datatype endpoint =
    SendMessage | UpdateMessage | GetReplies | GetReactions | WhoAmI | CreateCard | GetCard | CloseCardAt | RevokeAt

fun relay_serve :: "server_lib \<Rightarrow> relay_env \<Rightarrow> relay_world \<Rightarrow> endpoint \<Rightarrow> api_request \<Rightarrow> relay_db \<Rightarrow> relay_outcome" where
  "relay_serve L re w SendMessage q db = send_message L re w q db"
| "relay_serve L re w UpdateMessage q db = update_message L re w q db"
| "relay_serve L re w GetReplies q db = get_replies re w q db"
| "relay_serve L re w GetReactions q db = get_reactions re w q db"
| "relay_serve L re w WhoAmI q db = whoami re w q db"
| "relay_serve L re w CreateCard q db = create_card L re w q db"
| "relay_serve L re w GetCard q db = get_card re w q db"
| "relay_serve L re w CloseCardAt q db = close_request L re w q db"
| "relay_serve L re w RevokeAt q db = revoke_request re w q db"

section \<open>Enrollment\<close>

datatype enroll_answer =
    EnrollRefused http_error
  | EnrollStarted string string
  | EnrollCompleted
  | EnrollState claim_view

definition enroll_refuse :: "string \<Rightarrow> string \<Rightarrow> int \<Rightarrow> enroll_answer" where
  "enroll_refuse code message status = EnrollRefused (admin_error code message status None)"

text \<open>\<open>start_enrollment\<close>: the limiter first, then the row. \<open>url\<close> is \<open>authorize_url\<close> of the OAuth client.\<close>

definition start_enrollment ::
    "relay_env \<Rightarrow> (string \<Rightarrow> string) \<Rightarrow> string \<Rightarrow> rat \<Rightarrow> rat \<Rightarrow> int \<Rightarrow> string \<Rightarrow> string \<Rightarrow> enroll_limiter \<times> relay_db
      \<Rightarrow> (enroll_limiter \<times> relay_db) \<times> enroll_answer result" where
  "start_enrollment re url ip t t' now enroll_id state s =
     (case enroll_allow (re_sha re) ip t t' (fst s) of
        ((ok, summary), L) \<Rightarrow>
          if \<not> ok
          then ((L, snd s), Inr (EnrollRefused (admin_error ''rate_limited'' ''too many enrollment attempts; retry later'' 429 (Some 60))))
          else (case create_enrollment re now enroll_id state (snd s) of
              (db, Inl x) \<Rightarrow> ((L, db), Inl x)
            | (db, Inr eid) \<Rightarrow> ((L, db), Inr (EnrollStarted eid (url state)))))"

text \<open>The identity that \<open>_exchange\<close> reads from the two replies of Feishu; None: it raises.\<close>

definition exchange_identity :: "pylib \<Rightarrow> jobj \<Rightarrow> jobj \<Rightarrow> (string \<times> string) option" where
  "exchange_identity P token info =
     (if strip (str_get_or P token ''access_token'' []) = [] then None
      else
        let data = (case jget info ''data'' of JObj d \<Rightarrow> d | _ \<Rightarrow> info);
            actor_id = strip (str_get_or P data ''open_id'' []); display_name = strip (str_get_or P data ''name'' [])
        in if \<not> valid_actor_id actor_id \<or> display_name = [] then None else Some (actor_id, display_name))"

text \<open>\<open>oauth_callback\<close>; \<open>identity\<close> is the outcome of the exchange, during which others run. \<open>tid\<close> and \<open>rand\<close> make the token.\<close>

definition oauth_callback ::
    "relay_env \<Rightarrow> relay_world \<Rightarrow> query \<Rightarrow> (string \<times> string) option \<Rightarrow> string \<Rightarrow> bytes \<Rightarrow> relay_db \<Rightarrow> relay_db \<times> enroll_answer result" where
  "oauth_callback re w q identity tid rand db =
     (let state = str_or_empty (map_of q ''state''); code = str_or_empty (map_of q ''code'');
          used = enroll_refuse ''invalid_enrollment'' ''enrollment is missing, expired, or already used'' 400
      in if state = [] \<or> code = [] then (db, Inr (enroll_refuse ''invalid_oauth_callback'' ''state and code are required'' 400))
         else (case begin_enrollment re (rw_now w 0) state db of
             (db1, False) \<Rightarrow> (db1, Inr used)
           | (db1, True) \<Rightarrow>
               let db2 = relay_run re (rw_env w 0) db1
               in (case identity of
                    None \<Rightarrow> (fail_enrollment re (rw_now w 1) state db2, Inr (enroll_refuse ''oauth_unavailable'' ''Feishu OAuth failed'' 502))
                  | Some (actor, name) \<Rightarrow>
                      let actor_id = strip actor; display_name = strip name
                      in if \<not> valid_actor_id actor_id \<or> display_name = [] then (fail_enrollment re (rw_now w 1) state db2, Inr used)
                         else (case complete_enrollment re (rw_now w 1) tid (rw_nonce w) (rw_seal w 0) (rw_seal w 1) state actor_id display_name db2 of
                             (db3, Inl x) \<Rightarrow> (db3, Inl x)
                           | (db3, Inr True) \<Rightarrow> (db3, Inr EnrollCompleted)
                           | (db3, Inr False) \<Rightarrow> (fail_enrollment re (rw_now w 2) state db3, Inr used)))))"

definition poll_enrollment :: "relay_env \<Rightarrow> int \<Rightarrow> string \<Rightarrow> relay_db \<Rightarrow> relay_db \<times> enroll_answer result" where
  "poll_enrollment re now enroll_id db =
     (case claim_enrollment re now enroll_id db of
        (db', Inl x) \<Rightarrow> (db', Inl x)
      | (db', Inr ClaimNone) \<Rightarrow> (db', Inr (enroll_refuse ''not_found'' ''enrollment not found'' 404))
      | (db', Inr v) \<Rightarrow> (db', Inr (EnrollState v)))"

section \<open>Events from Feishu\<close>

datatype relay_event =
    TextEvent string string string int "string option"
  | ReactionEvent string string string string string
  | ActionEvent string string string string string
  | ReplayEvent string string string string

text \<open>\<open>d.get(k) or {}\<close>, of which a key is read next: anything but an object raises \<open>AttributeError\<close>.\<close>

definition sub_object :: "jobj \<Rightarrow> string \<Rightarrow> jobj result" where
  "sub_object d k =
     (if truthy (jget d k) then (case jget d k of JObj o' \<Rightarrow> Inr o' | _ \<Rightarrow> Inl AttributeError) else Inr [])"

text \<open>\<open>int(v or 0)\<close>.\<close>

definition json_int :: "json \<Rightarrow> int result" where
  "json_int j =
     (if \<not> truthy j then Inr 0
      else (case j of
          json.JInt i \<Rightarrow> Inr i
        | json.JBool b \<Rightarrow> Inr 1
        | JFloat (Finite q) \<Rightarrow> Inr (py_trunc q)
        | JFloat (Infinite s) \<Rightarrow> Inl OverflowError
        | json.JStr s \<Rightarrow> (case py_int s of None \<Rightarrow> Inl (ValueError ''int'') | Some i \<Rightarrow> Inr i)
        | JFloat NaN \<Rightarrow> Inl (ValueError ''int'')
        | _ \<Rightarrow> Inl PyTypeError))"

text \<open>\<open>json.loads(msg.get("content") or "{}")\<close>; None: it raises one of the two caught exceptions.\<close>

definition message_content :: "pylib \<Rightarrow> jobj \<Rightarrow> json option" where
  "message_content P msg =
     (if \<not> truthy (jget msg ''content'') then Some (JObj [])
      else (case jget msg ''content'' of json.JStr s \<Rightarrow> loads P s | _ \<Rightarrow> None))"

definition read_text_event :: "pylib \<Rightarrow> string \<Rightarrow> jobj \<Rightarrow> relay_event option result" where
  "read_text_event P event_id event =
     rbind (sub_object event ''message'') (\<lambda>msg.
     rbind (sub_object event ''sender'') (\<lambda>sender.
       if jget msg ''chat_type'' \<noteq> json.JStr ''p2p'' \<or> jget msg ''message_type'' \<noteq> json.JStr ''text'' then Inr None
       else (case message_content P msg of
           None \<Rightarrow> Inr None
         | Some content \<Rightarrow>
             rbind (sub_object sender ''sender_id'') (\<lambda>ids.
               case content of
                 JObj c \<Rightarrow>
                   rbind (json_int (jget msg ''create_time'')) (\<lambda>create_time.
                     Inr (Some (TextEvent event_id (str_get_or P ids ''open_id'' []) (str_get_or P c ''text'' []) create_time
                       (or_none (str_get_or P msg ''parent_id'' (str_get_or P msg ''root_id'' []))))))
               | _ \<Rightarrow> Inl AttributeError))))"

definition read_reaction_event :: "pylib \<Rightarrow> string \<Rightarrow> string \<Rightarrow> jobj \<Rightarrow> relay_event option result" where
  "read_reaction_event P event_id oper event =
     rbind (sub_object event (if truthy (jget event ''user_id'') then ''user_id'' else ''operator_id'')) (\<lambda>user.
     rbind (sub_object event ''reaction_type'') (\<lambda>reaction.
       Inr (Some (ReactionEvent event_id (str_get_or P user ''open_id'' []) (str_get_or P event ''message_id'' [])
         (str_get_or P reaction ''emoji_type'' []) oper))))"

text \<open>A click: the value of the button must be an object with \<open>relay_action\<close> exactly true.\<close>

definition read_click :: "pylib \<Rightarrow> bool \<Rightarrow> jobj \<Rightarrow> relay_event option result" where
  "read_click P replay event =
     rbind (sub_object event ''action'') (\<lambda>action.
       case (if truthy (jget action ''value'') then jget action ''value'' else JObj []) of
         JObj v \<Rightarrow>
           if jget v ''relay_action'' \<noteq> json.JBool True then Inr None
           else
             rbind (sub_object event ''operator'') (\<lambda>operator.
             rbind (sub_object event ''context'') (\<lambda>ctx.
               let actor = str_get_or P operator ''open_id'' []; cid = str_get_or P v ''card_id'' []; nonce = str_get_or P v ''nonce'' [];
                   mid = str_get_or P ctx ''open_message_id'' []
               in Inr (Some (if replay then ReplayEvent actor cid nonce mid
                             else ActionEvent actor cid nonce mid (str_get_or P v ''action_id'' [])))))
       | _ \<Rightarrow> Inr None)"

definition read_event :: "pylib \<Rightarrow> string \<Rightarrow> jobj \<Rightarrow> relay_event option result" where
  "read_event P event_type p =
     rbind (sub_object p ''header'') (\<lambda>header.
       let event_id = str_get_or P header ''event_id'' []; event = sub_object p ''event''
       in if event_type = ''message'' then rbind event (read_text_event P event_id)
          else if event_type = ''reaction_created'' then rbind event (read_reaction_event P event_id ''create'')
          else if event_type = ''reaction_deleted'' then rbind event (read_reaction_event P event_id ''delete'')
          else if event_type = ''card_action'' then rbind event (read_click P False)
          else if event_type = ''card_action_replay'' then rbind event (read_click P True)
          else Inr None)"

text \<open>
  \<open>RelayEvents\<close>: the four ingestions, with the notice that an ambiguous reply is answered with (\<open>uuid\<close> is random, \<open>notice\<close> the fixed Chinese text).
  The result is whether the event was accepted, or the content a repeated click is answered with.
\<close>

definition ingest_event ::
    "pylib \<Rightarrow> relay_env \<Rightarrow> relay_world \<Rightarrow> string \<Rightarrow> string \<Rightarrow> relay_event \<Rightarrow> relay_db
      \<Rightarrow> relay_db \<times> outbound list \<times> (bool + payload option) result" where
  "ingest_event P re w notice uuid ev db =
     (case ev of
        TextEvent event_id actor txt create_time parent \<Rightarrow>
          if event_id = [] \<or> \<not> valid_actor_id actor \<or> txt = [] \<or> create_time \<le> 0 then (db, [], Inr (Inl False))
          else (case assign_reply re (\<lambda>d. d) (rw_now w 0) (rw_seal w 0) event_id actor txt create_time parent db of
              (db', Inl x) \<Rightarrow> (db', [], Inl x)
            | (db', Inr (assigned, ambiguous)) \<Rightarrow>
                (db', if ambiguous then [ambiguity_notice P notice actor uuid] else [], Inr (Inl assigned)))
      | ReactionEvent event_id actor mid emoji oper \<Rightarrow>
          if event_id = [] \<or> actor = [] \<or> mid = [] \<or> emoji = [] \<or> \<not> valid_actor_id actor then (db, [], Inr (Inl False))
          else (case change_reaction re (\<lambda>d. d) (rw_now w 0) event_id actor mid emoji oper db of
              (db', r) \<Rightarrow> (db', [], map_sum (\<lambda>x. x) Inl r))
      | ActionEvent actor cid nonce mid act \<Rightarrow>
          if actor = [] \<or> cid = [] \<or> nonce = [] \<or> mid = [] \<or> act = [] \<or> \<not> valid_actor_id actor then (db, [], Inr (Inl False))
          else (case action_card re (\<lambda>d. d) (rw_now w 0) actor cid nonce mid act db of (db', r) \<Rightarrow> (db', [], map_sum (\<lambda>x. x) Inl r))
      | ReplayEvent actor cid nonce mid \<Rightarrow>
          if actor = [] \<or> cid = [] \<or> nonce = [] \<or> mid = [] \<or> \<not> valid_actor_id actor then (db, [], Inr (Inr None))
          else (db, [], map_sum (\<lambda>x. x) Inr (replay_card_content re (\<lambda>d. d) actor cid nonce mid db)))"

text \<open>The click as \<open>start_event_stream\<close> answers it: a toast and, for a repeated click, the card as it was last written.\<close>

definition click_ack :: "bool \<Rightarrow> payload option \<Rightarrow> string \<times> string \<times> payload option" where
  "click_ack accepted replay = (if accepted then (''Recorded'', ''success'', None) else (''Already resolved'', ''info'', replay))"

section \<open>What a request does to the rows of others\<close>

text \<open>Nothing of the database differs but rows of the token \<open>tid\<close>.\<close>

definition others_same :: "string \<Rightarrow> relay_db \<Rightarrow> relay_db \<Rightarrow> bool" where
  "others_same tid a b \<longleftrightarrow>
     filter (\<lambda>t. tk_token_id t \<noteq> tid) (db_tokens b) = filter (\<lambda>t. tk_token_id t \<noteq> tid) (db_tokens a)
     \<and> filter (\<lambda>m. m_token_id m \<noteq> tid) (db_messages b) = filter (\<lambda>m. m_token_id m \<noteq> tid) (db_messages a)
     \<and> filter (\<lambda>i. i_token_id i \<noteq> tid) (db_idem b) = filter (\<lambda>i. i_token_id i \<noteq> tid) (db_idem a)
     \<and> filter (\<lambda>c. k_token_id c \<noteq> tid) (db_cards b) = filter (\<lambda>c. k_token_id c \<noteq> tid) (db_cards a)
     \<and> db_enrollments b = db_enrollments a \<and> db_replies b = db_replies a \<and> db_reactions b = db_reactions a \<and> db_logs b = db_logs a"

text \<open>The database moves by operations that leave the rows of other tokens alone, and by what other tasks do in between (\<open>E\<close>).\<close>

inductive served :: "relay_env \<Rightarrow> string \<Rightarrow> relay_op list set \<Rightarrow> relay_db \<Rightarrow> relay_db \<Rightarrow> bool"
  for re :: relay_env and tid :: string and E :: "relay_op list set" and db :: relay_db where
  served_start: "served re tid E db db"
| served_own: "served re tid E db d \<Longrightarrow> others_same tid d (relay_exec re x d) \<Longrightarrow> served re tid E db (relay_exec re x d)"
| served_others: "served re tid E db d \<Longrightarrow> ops \<in> E \<Longrightarrow> served re tid E db (relay_run re ops d)"

lemma served_trans: "served re tid E db d \<Longrightarrow> served re tid E d d' \<Longrightarrow> served re tid E db d'"
  by (rotate_tac, induction rule: served.induct) (auto intro: served.intros)

lemma served_run: "served re tid E db d \<Longrightarrow> \<exists>ops. d = relay_run re ops db"
proof (induction rule: served.induct)
  case served_start
  show ?case by (rule exI [of _ "[]"]) (simp add: relay_run_def)
next
  case (served_own d x)
  then obtain ops where "d = relay_run re ops db" by blast
  then have "relay_exec re x d = relay_run re (ops @ [x]) db" by (simp add: relay_run_def)
  then show ?case by blast
next
  case (served_others d ops)
  then obtain ops' where "d = relay_run re ops' db" by blast
  then have "relay_run re ops d = relay_run re (ops' @ ops) db" by (simp add: relay_run_def)
  then show ?case by blast
qed

lemma others_same_refl: "others_same tid a a"
  by (simp add: others_same_def)

lemma others_same_trans: "others_same tid a b \<Longrightarrow> others_same tid b c \<Longrightarrow> others_same tid a c"
  by (simp add: others_same_def)

lemma served_alone: "served re tid {[]} db d \<Longrightarrow> others_same tid db d"
  by (induction rule: served.induct) (auto intro: others_same_refl others_same_trans simp: relay_run_def)

lemma filter_update_own:
  "(\<And>r. r \<in> set t \<Longrightarrow> P r \<Longrightarrow> own r \<and> own (f r)) \<Longrightarrow> filter (\<lambda>r. \<not> own r) (sql_update P f t) = filter (\<lambda>r. \<not> own r) t"
  by (induction t) auto

lemma own_update:
  "(\<And>r. r \<in> set ts \<Longrightarrow> P r \<Longrightarrow> tk_token_id r = tid \<and> tk_token_id (f r) = tid) \<Longrightarrow>
     filter (\<lambda>r. tk_token_id r \<noteq> tid) (sql_update P f ts) = filter (\<lambda>r. tk_token_id r \<noteq> tid) ts"
  "(\<And>r. r \<in> set ms \<Longrightarrow> Q r \<Longrightarrow> m_token_id r = tid \<and> m_token_id (g r) = tid) \<Longrightarrow>
     filter (\<lambda>r. m_token_id r \<noteq> tid) (sql_update Q g ms) = filter (\<lambda>r. m_token_id r \<noteq> tid) ms"
  "(\<And>r. r \<in> set cs \<Longrightarrow> S r \<Longrightarrow> k_token_id r = tid \<and> k_token_id (h r) = tid) \<Longrightarrow>
     filter (\<lambda>r. k_token_id r \<noteq> tid) (sql_update S h cs) = filter (\<lambda>r. k_token_id r \<noteq> tid) cs"
  by (rule filter_update_own, blast)+

lemma own_token_ops:
  "others_same (token_id_of tok) db (relay_exec re (Authenticate now tok) db)"
  "others_same tid db (relay_exec re (RevokeToken now tid) db)"
  by (auto simp: others_same_def authenticate_def revoke_token_def token_id_of_def Let_def intro!: own_update
      split: option.splits sum.splits prod.splits)

lemma own_message_ops:
  "others_same tid db (relay_exec re (ReserveMessage now rid tid key h ex ty) db)"
  "others_same tid db (relay_exec re (CloseReplyWindow now tid mid) db)"
  "others_same tid db (relay_exec re (RegisterCardMessage now rid tid key mid ex') db)"
  "(\<And>m. m \<in> set (db_messages db) \<Longrightarrow> m_resource_id m = rid \<Longrightarrow> m_token_id m = tid) \<Longrightarrow>
     others_same tid db (relay_exec re (FinishMessage now n rid mid res) db)"
  by (auto simp: others_same_def reserve_message_def add_idem_def new_message_def close_reply_window_def register_card_message_def
      finish_message_def Let_def intro!: own_update split: option.splits)

lemma own_card_ops:
  "others_same tid db (relay_exec re (ReserveCard now cid nonce n tid key h acts ex) db)"
  "others_same tid db (relay_exec re (CardState now tid cid) db)"
  "others_same tid db (relay_exec re (CacheCardContent now n tid mid content) db)"
  "others_same tid db (relay_exec re (CloseCard now tid cid reason) db)"
  "(\<And>c. c \<in> set (db_cards db) \<Longrightarrow> k_card_id c = cid \<Longrightarrow> k_token_id c = tid) \<Longrightarrow>
     others_same tid db (relay_exec re (FinishCard now n cid mid conv) db)
     \<and> others_same tid db (relay_exec re (FailCard now cid) db)"
  by (auto simp: others_same_def reserve_card_def add_idem_def new_card_def card_state_def cache_card_content_def close_pending_def
      finish_card_def fail_card_def card_update_def expire_card_def Let_def intro!: own_update split: option.splits sum.splits)

text \<open>Message identifiers are a primary key; no operation breaks that.\<close>

definition message_inv :: "relay_db \<Rightarrow> bool" where
  "message_inv db \<longleftrightarrow> distinct (map m_resource_id (db_messages db))"

lemma same_message_ids: "(\<And>m. m_resource_id (f m) = m_resource_id m) \<Longrightarrow> map m_resource_id (sql_update P f ms) = map m_resource_id ms"
  by (simp add: map_sql_update)

lemma exec_message_inv: "message_inv db \<Longrightarrow> message_inv (relay_exec re x db)"
  by (cases x)
    (auto simp: message_inv_def create_enrollment_def begin_enrollment_def fail_enrollment_def claim_enrollment_def complete_enrollment_def
      authenticate_def revoke_token_def reserve_message_def add_idem_def new_message_def finish_message_def close_reply_window_def
      register_card_message_def reserve_card_def card_state_def cache_card_content_def close_pending_def append_log_def prune_def
      finish_card_def fail_card_def card_update_def with_tokens_def assign_reply_def change_reaction_def action_card_def message_clash_def
      list_ex_iff same_message_ids Let_def split: option.splits sum.splits prod.splits list.splits)

lemma run_message_inv: "message_inv db \<Longrightarrow> message_inv (relay_run re ops db)"
  by (induction ops arbitrary: db) (simp_all add: relay_run_def exec_message_inv)

section \<open>Rows reserved by a request belong to its token\<close>

text \<open>An idempotency row names a message or card of its own token; and an identifier that nothing uses yet.\<close>

definition linked :: "relay_db \<Rightarrow> bool" where
  "linked db \<longleftrightarrow> (\<forall>i \<in> set (db_idem db).
     (\<forall>m \<in> set (db_messages db). m_resource_id m = i_resource_id i \<longrightarrow> m_token_id m = i_token_id i)
     \<and> (\<forall>c \<in> set (db_cards db). k_card_id c = i_resource_id i \<longrightarrow> k_token_id c = i_token_id i))"

definition fresh_id :: "relay_db \<Rightarrow> string \<Rightarrow> bool" where
  "fresh_id db x \<longleftrightarrow> x \<notin> m_resource_id ` set (db_messages db) \<and> x \<notin> k_card_id ` set (db_cards db) \<and> x \<notin> i_resource_id ` set (db_idem db)"

lemma idem_row_mem: "idem_row db tid key = Some i \<Longrightarrow> i \<in> set (db_idem db) \<and> i_token_id i = tid"
  unfolding idem_row_def by (drule fetchone_Some_mem) simp

lemma message_row_mem: "message_row db rid = Some m \<Longrightarrow> m \<in> set (db_messages db) \<and> m_resource_id m = rid"
  unfolding message_row_def by (rule tbl_get_mem)

lemma card_row_mem: "card_row db cid = Some c \<Longrightarrow> c \<in> set (db_cards db) \<and> k_card_id c = cid"
  unfolding card_row_def by (rule tbl_get_mem)

lemma reserve_message_owner:
  assumes "linked db" "fresh_id db rid" "reserve_message now rid tid key h ex ty db = (db', Inr (row, created))"
  shows "message_row db' (m_resource_id row) = Some row \<and> m_token_id row = tid"
proof (cases "idem_row db tid key")
  case (Some i)
  then have "message_row db (i_resource_id i) = Some row" "db' = db"
    using assms(3) by (auto simp: reserve_message_def split: if_splits option.splits)
  then show ?thesis using idem_row_mem [OF Some] message_row_mem assms(1) by (fastforce simp: linked_def)
next
  case None
  let ?m = "new_message now rid tid key h ty MSending None ex"
  let ?db = "add_idem now tid key h ''message'' rid db"
  have "rid \<notin> m_resource_id ` set (db_messages ?db)" using assms(2) by (simp add: fresh_id_def add_idem_def)
  then have absent: "message_row ?db rid = None" by (simp add: message_row_def tbl_get_None)
  then have "message_row (?db\<lparr>db_messages := db_messages ?db @ [?m]\<rparr>) rid = Some ?m"
    by (simp add: message_row_def tbl_get_append tbl_get_Cons new_message_def)
  then show ?thesis
    using assms(3) None absent by (auto simp: reserve_message_def Let_def new_message_def split: if_splits)
qed

lemma reserve_card_owner:
  assumes "linked db" "reserve_card re now cid nonce n tid key h acts ex db = (db', Inr (c, x, created))"
  shows "card_row db' (k_card_id c) = Some c \<and> k_token_id c = tid"
proof (cases created)
  case True
  have "idem_row db tid key = None" using assms(2) True by (auto simp: reserve_card_def split: option.splits if_splits sum.splits)
  then have "c = new_card now cid tid key h (re_sha re nonce) (re_seal re n [(''nonce'', jval.JStr nonce)]) acts ex"
    using assms(2) by (auto simp: reserve_card_def Let_def split: if_splits)
  moreover have "card_row db' cid = Some c \<and> k_card_id c = cid" using assms(2) True reserve_card_new [of re now cid nonce n tid key h acts ex db db' c x] by auto
  ultimately show ?thesis by (simp add: new_card_def)
next
  case False
  then obtain i where i: "idem_row db tid key = Some i" "card_row db (i_resource_id i) = Some c" "db' = db"
    using assms(2) by (auto simp: reserve_card_def Let_def split: option.splits if_splits sum.splits)
  then show ?thesis using idem_row_mem [OF i(1)] card_row_mem [OF i(2)] assms(1) by (fastforce simp: linked_def)
qed

lemma message_owner_stays:
  assumes "message_inv db" "message_row db rid = Some row" "m \<in> set (db_messages (relay_run re ops db))" "m_resource_id m = rid"
  shows "m_token_id m = m_token_id row"
proof -
  obtain n where n: "message_row (relay_run re ops db) rid = Some n" "message_evolves row n" using message_row_run [OF assms(2)] by blast
  have "message_row (relay_run re ops db) rid = Some m"
    using tbl_get_distinct [OF run_message_inv [OF assms(1), unfolded message_inv_def] assms(3)] assms(4) by (simp add: message_row_def)
  with n show ?thesis by (simp add: message_evolves_def)
qed

lemma card_owner_stays:
  assumes "relay_inv db" "card_row db cid = Some c" "k \<in> set (db_cards (relay_run re ops db))" "k_card_id k = cid"
  shows "k_token_id k = k_token_id c"
proof -
  obtain n where n: "card_row (relay_run re ops db) cid = Some n" "card_evolves c n" using card_row_run [OF assms(2)] by blast
  have "distinct (map k_card_id (db_cards (relay_run re ops db)))" using run_inv [OF assms(1)] by (simp add: relay_inv_def)
  then have "card_row (relay_run re ops db) cid = Some k"
    using tbl_get_distinct [OF _ assms(3), of k_card_id] assms(4) by (simp add: card_row_def)
  with n show ?thesis by (simp add: card_evolves_def)
qed

section \<open>Reservations over time\<close>

text \<open>The message of an idempotency row is being sent, or has the sealed result of the send.\<close>

definition sealed_by :: "relay_env \<Rightarrow> string option \<Rightarrow> bool" where
  "sealed_by re s \<longleftrightarrow> (\<exists>b p. s = Some (re_seal re b p))"

definition result_ok :: "relay_env \<Rightarrow> relay_message \<Rightarrow> bool" where
  "result_ok re m \<longleftrightarrow> m_status m = MSending \<or> sealed_by re (m_result_payload m)"

definition results_sealed :: "relay_env \<Rightarrow> relay_db \<Rightarrow> bool" where
  "results_sealed re db \<longleftrightarrow>
     (\<forall>i \<in> set (db_idem db). \<forall>m \<in> set (db_messages db). m_resource_id m = i_resource_id i \<longrightarrow> result_ok re m)"

lemma sealed_by_seal [simp]: "sealed_by re (Some (re_seal re b p))"
  by (auto simp: sealed_by_def)

lemma result_ok_updates [simp]:
  "result_ok re (m\<lparr>m_status := st, m_message_id := mid, m_result_payload := Some (re_seal re b p), m_updated_at := t\<rparr>)"
  "result_ok re (m\<lparr>m_reply_expires_at := e, m_updated_at := t\<rparr>) = result_ok re m"
  "m_status m = MSending \<Longrightarrow> result_ok re m"
  by (auto simp: result_ok_def)

lemma result_ok_new: "result_ok re (new_message now rid tid key h ty MSending None ex)"
  by (simp add: new_message_def)

text \<open>The identifiers that an operation draws are unused.\<close>

fun draws_fresh :: "relay_op \<Rightarrow> relay_db \<Rightarrow> bool" where
  "draws_fresh (ReserveMessage now rid tid key h ex ty) db = fresh_id db rid"
| "draws_fresh (ReserveCard now cid nonce n tid key h acts ex) db = fresh_id db cid"
| "draws_fresh (RegisterCardMessage now rid tid key mid ex) db = fresh_id db rid"
| "draws_fresh _ db = True"

lemma linked_rows:
  assumes "linked db" "db_idem db' = db_idem db"
    "(\<lambda>m. (m_resource_id m, m_token_id m)) ` set (db_messages db') \<subseteq> (\<lambda>m. (m_resource_id m, m_token_id m)) ` set (db_messages db)"
    "(\<lambda>c. (k_card_id c, k_token_id c)) ` set (db_cards db') \<subseteq> (\<lambda>c. (k_card_id c, k_token_id c)) ` set (db_cards db)"
  shows "linked db'"
proof -
  have m: "\<exists>m' \<in> set (db_messages db). m_resource_id m' = m_resource_id m \<and> m_token_id m' = m_token_id m" if "m \<in> set (db_messages db')" for m
    using assms(3) that by (fastforce simp: image_iff subset_iff)
  have c: "\<exists>c' \<in> set (db_cards db). k_card_id c' = k_card_id c \<and> k_token_id c' = k_token_id c" if "c \<in> set (db_cards db')" for c
    using assms(4) that by (fastforce simp: image_iff subset_iff)
  show ?thesis unfolding linked_def
  proof (intro ballI conjI impI)
    fix i x assume "i \<in> set (db_idem db')" "x \<in> set (db_messages db')" "m_resource_id x = i_resource_id i"
    with m [of x] assms(1,2) show "m_token_id x = i_token_id i" unfolding linked_def by metis
  next
    fix i x assume "i \<in> set (db_idem db')" "x \<in> set (db_cards db')" "k_card_id x = i_resource_id i"
    with c [of x] assms(1,2) show "k_token_id x = i_token_id i" unfolding linked_def by metis
  qed
qed

lemma image_sql_update:
  assumes "\<And>r. P r \<Longrightarrow> h (f r) = h r"
  shows "h ` set (sql_update P f t) = h ` set t"
proof -
  have "map h (sql_update P f t) = map h t" using assms by (induction t) auto
  then show ?thesis by (metis list.set_map)
qed

lemma linked_reserve:
  assumes "linked db"
  shows "fresh_id db rid \<Longrightarrow> linked (fst (reserve_message now rid tid key h ex ty db))"
    "fresh_id db cid \<Longrightarrow> linked (fst (reserve_card re now cid nonce n tid key h acts cex db))"
    "fresh_id db rid \<Longrightarrow> linked (fst (register_card_message now rid tid key mid rex db))"
  using assms
  by (auto simp: linked_def fresh_id_def reserve_message_def reserve_card_def register_card_message_def add_idem_def new_message_def new_card_def
      Let_def split: option.splits sum.splits)

lemma exec_linked:
  assumes "linked db" "draws_fresh x db"
  shows "linked (relay_exec re x db)"
proof (cases x)
  case (ReserveMessage now rid tid key h ex ty)
  then show ?thesis using linked_reserve(1) [OF assms(1)] assms(2) by simp
next
  case (ReserveCard now cid nonce n tid key h acts ex)
  then show ?thesis using linked_reserve(2) [OF assms(1)] assms(2) by simp
next
  case (RegisterCardMessage now rid tid key mid ex)
  then show ?thesis using linked_reserve(3) [OF assms(1)] assms(2) by simp
qed ((rule linked_rows [OF assms(1)]; auto simp: create_enrollment_def begin_enrollment_def fail_enrollment_def claim_enrollment_def
      complete_enrollment_def authenticate_def revoke_token_def finish_message_def close_reply_window_def card_state_def
      cache_card_content_def close_pending_def append_log_def prune_def finish_card_def fail_card_def card_update_def expire_card_def
      with_tokens_def assign_reply_def change_reaction_def action_card_def image_sql_update Let_def
      split: option.splits sum.splits prod.splits list.splits)+)

lemma results_rows:
  assumes "results_sealed re db" "db_idem db' = db_idem db"
    "(\<lambda>m. (m_resource_id m, result_ok re m)) ` set (db_messages db') \<subseteq> (\<lambda>m. (m_resource_id m, result_ok re m)) ` set (db_messages db)"
  shows "results_sealed re db'"
proof -
  have m: "\<exists>m' \<in> set (db_messages db). m_resource_id m' = m_resource_id m \<and> result_ok re m' = result_ok re m" if "m \<in> set (db_messages db')" for m
  proof -
    have "(m_resource_id m, result_ok re m) \<in> (\<lambda>m. (m_resource_id m, result_ok re m)) ` set (db_messages db)" using assms(3) that by blast
    then obtain m' where m': "m' \<in> set (db_messages db)" "(m_resource_id m, result_ok re m) = (m_resource_id m', result_ok re m')" by (rule imageE)
    show ?thesis by (rule bexI [OF _ m'(1)]) (use m'(2) in \<open>simp only: prod.inject\<close>)
  qed
  show ?thesis unfolding results_sealed_def
  proof (intro ballI impI)
    fix i x assume "i \<in> set (db_idem db')" "x \<in> set (db_messages db')" "m_resource_id x = i_resource_id i"
    with m [of x] assms(1,2) show "result_ok re x" unfolding results_sealed_def by metis
  qed
qed

lemma results_reserve:
  assumes "results_sealed re db"
  shows "fresh_id db rid \<Longrightarrow> results_sealed re (fst (reserve_message now rid tid key h ex ty db))"
    "fresh_id db cid \<Longrightarrow> results_sealed re (fst (reserve_card re now cid nonce n tid key h acts cex db))"
    "fresh_id db rid \<Longrightarrow> results_sealed re (fst (register_card_message now rid tid key mid rex db))"
  using assms
proof -
  have grow: "results_sealed re (db\<lparr>db_idem := db_idem db @ is, db_messages := db_messages db @ ms\<rparr>)"
    if "\<forall>m \<in> set ms. result_ok re m \<or> m_resource_id m \<notin> i_resource_id ` set (db_idem db @ is)"
      "\<forall>i \<in> set is. i_resource_id i \<notin> m_resource_id ` set (db_messages db)" for "is" ms
    unfolding results_sealed_def
  proof (intro ballI impI)
    fix i m
    assume a: "i \<in> set (db_idem (db\<lparr>db_idem := db_idem db @ is, db_messages := db_messages db @ ms\<rparr>))"
      "m \<in> set (db_messages (db\<lparr>db_idem := db_idem db @ is, db_messages := db_messages db @ ms\<rparr>))" "m_resource_id m = i_resource_id i"
    consider "m \<in> set ms" | "m \<in> set (db_messages db)" "i \<in> set is" | "m \<in> set (db_messages db)" "i \<in> set (db_idem db)" using a(1,2) by auto
    then show "result_ok re m"
    proof cases
      case 1
      moreover have "m_resource_id m \<in> i_resource_id ` set (db_idem db @ is)" unfolding a(3) using a(1) by simp
      ultimately show ?thesis using that(1) by blast
    next
      case 2
      then have "i_resource_id i \<in> m_resource_id ` set (db_messages db)" using a(3) by (metis image_eqI)
      with 2 that(2) show ?thesis by blast
    next
      case 3
      with assms a(3) show ?thesis unfolding results_sealed_def by blast
    qed
  qed
  have m: "m_resource_id (new_message now rid tid key h ty st mid ex) = rid" for now rid tid key h ty st mid ex by (simp add: new_message_def)
  show "results_sealed re (fst (reserve_message now rid tid key h ex ty db))" if "fresh_id db rid"
    using that assms grow [of "[new_message now rid tid key h ty MSending None ex]"]
      grow [of "[]" "[\<lparr>i_token_id = tid, i_idempotency_key = key, i_request_hash = h, i_kind = ''message'', i_resource_id = rid, i_created_at = now\<rparr>]"]
      grow [of "[new_message now rid tid key h ty MSending None ex]"
        "[\<lparr>i_token_id = tid, i_idempotency_key = key, i_request_hash = h, i_kind = ''message'', i_resource_id = rid, i_created_at = now\<rparr>]"]
    by (simp add: reserve_message_def add_idem_def fresh_id_def result_ok_new Let_def split: option.split)
  show "results_sealed re (fst (register_card_message now rid tid key mid rex db))" if "fresh_id db rid"
    using that assms grow [of "[new_message now rid tid key [] ''card'' MSent (Some mid) (Some rex)]" "[]"]
    by (simp add: register_card_message_def fresh_id_def m Let_def)
  have c: "results_sealed re (d\<lparr>db_cards := cs\<rparr>) = results_sealed re d" for d cs by (simp add: results_sealed_def)
  show "results_sealed re (fst (reserve_card re now cid nonce n tid key h acts cex db))" if "fresh_id db cid"
    using that assms grow [of "[]" "[\<lparr>i_token_id = tid, i_idempotency_key = key, i_request_hash = h, i_kind = ''card'', i_resource_id = cid, i_created_at = now\<rparr>]"]
    by (simp add: reserve_card_def add_idem_def fresh_id_def c Let_def split: option.split sum.split)
qed

lemma exec_results_sealed:
  assumes "results_sealed re db" "draws_fresh x db"
  shows "results_sealed re (relay_exec re x db)"
proof (cases x)
  case (ReserveMessage now rid tid key h ex ty)
  then show ?thesis using results_reserve(1) [OF assms(1)] assms(2) by simp
next
  case (ReserveCard now cid nonce n tid key h acts ex)
  then show ?thesis using results_reserve(2) [OF assms(1)] assms(2) by simp
next
  case (RegisterCardMessage now rid tid key mid ex)
  then show ?thesis using results_reserve(3) [OF assms(1)] assms(2) by simp
next
  case (FinishMessage now n rid mid res)
  have "(\<lambda>m. (m_resource_id m, result_ok re m)) ` set (sql_update (\<lambda>m. m_resource_id m = rid \<and> m_status m = MSending)
      (\<lambda>m. m\<lparr>m_status := MSent, m_message_id := Some mid, m_result_payload := Some (re_seal re n res), m_updated_at := now\<rparr>) t)
      = (\<lambda>m. (m_resource_id m, result_ok re m)) ` set t" for t
    by (rule image_sql_update) auto
  then show ?thesis by (intro results_rows [OF assms(1)]) (simp_all add: FinishMessage finish_message_def)
next
  case (CloseReplyWindow now tid mid)
  then show ?thesis by (intro results_rows [OF assms(1)]) (simp_all add: close_reply_window_def image_sql_update Let_def)
qed ((rule results_rows [OF assms(1)]; auto simp: create_enrollment_def begin_enrollment_def fail_enrollment_def claim_enrollment_def
      complete_enrollment_def authenticate_def revoke_token_def card_state_def
      cache_card_content_def close_pending_def append_log_def prune_def finish_card_def fail_card_def card_update_def
      with_tokens_def assign_reply_def change_reaction_def action_card_def Let_def
      split: option.splits sum.splits prod.splits list.splits)+)

text \<open>A message being sent stays so until a result is sealed into it, and then keeps that.\<close>

definition result_evolves :: "relay_env \<Rightarrow> relay_message \<Rightarrow> relay_message \<Rightarrow> bool" where
  "result_evolves re m n \<longleftrightarrow> m_resource_id n = m_resource_id m
     \<and> (m_status m = MSending \<longrightarrow> m_status n = MSending \<or> m_status n = MSent \<and> sealed_by re (m_result_payload n))
     \<and> (m_status m = MSent \<longrightarrow> m_status n = MSent \<and> m_result_payload n = m_result_payload m)"

interpretation results: evolving_table m_resource_id "result_evolves re" for re
proof unfold_locales
  fix r q p assume "result_evolves re r q" "result_evolves re q p"
  then show "result_evolves re r p" by (cases "m_status r"; cases "m_status q") (auto simp: result_evolves_def)
qed (auto simp: result_evolves_def)

lemma exec_results: "grows (result_evolves re) (db_messages db) (db_messages (relay_exec re x db))"
  by (cases x)
    (auto simp: create_enrollment_def begin_enrollment_def fail_enrollment_def claim_enrollment_def complete_enrollment_def
      authenticate_def revoke_token_def reserve_message_def add_idem_def finish_message_def close_reply_window_def
      register_card_message_def reserve_card_def card_state_def cache_card_content_def close_pending_def append_log_def prune_def
      finish_card_def fail_card_def card_update_def with_tokens_def assign_reply_def change_reaction_def action_card_def
      Let_def result_evolves_def intro!: results.grows_append results.grows_refl results.grows_update
      split: option.splits sum.splits prod.splits list.splits)

lemma run_results: "grows (result_evolves re) (db_messages db) (db_messages (relay_run re xs db))"
proof (induction xs arbitrary: db)
  case (Cons x xs)
  show ?case using results.grows_trans [OF exec_results Cons.IH] by (simp add: relay_run_def)
qed (simp add: relay_run_def results.grows_refl)

lemma result_row_run:
  "message_row db rid = Some m \<Longrightarrow> \<exists>n. message_row (relay_run re ops db) rid = Some n \<and> result_evolves re m n"
  using results.get_grows [OF run_results] unfolding message_row_def by blast

section \<open>Handlers\<close>

declare One_nat_def [simp del]

abbreviation srv :: "relay_env \<Rightarrow> relay_world \<Rightarrow> auth_view \<Rightarrow> relay_db \<Rightarrow> relay_db \<Rightarrow> bool" where
  "srv re w actor \<equiv> served re (av_token_id actor) {rw_env w 0, rw_env w 1}"

text \<open>A call to Feishu goes to the caller's own account, or rewrites a message or card that was the caller's token's when the body had been read.\<close>

definition call_ok :: "relay_env \<Rightarrow> auth_view \<Rightarrow> relay_db \<Rightarrow> outbound \<Rightarrow> bool" where
  "call_ok re actor d0 o' =
     (case o' of
        PostMessage a ty c u \<Rightarrow> a = av_actor_id actor \<and> (\<exists>key. u = feishu_uuid re (av_token_id actor @ CHR '':'' # key))
      | PatchMessage mid c \<Rightarrow>
          (\<exists>m \<in> set (db_messages d0). m_token_id m = av_token_id actor \<and> m_message_id m = Some mid \<and> m_status m = MSent)
          \<or> (\<exists>k \<in> set (db_cards d0). k_token_id k = av_token_id actor \<and> k_message_id k = Some mid))"

definition handled :: "relay_env \<Rightarrow> relay_world \<Rightarrow> auth_view \<Rightarrow> relay_db \<Rightarrow> relay_db \<Rightarrow> relay_outcome \<Rightarrow> bool" where
  "handled re w actor d0 db r \<longleftrightarrow>
     srv re w actor db (fst r) \<and> length (fst (snd r)) \<le> 1 \<and> (\<forall>o' \<in> set (fst (snd r)). call_ok re actor d0 o')"

lemma handled_after: "srv re w actor db d \<Longrightarrow> handled re w actor d0 d r \<Longrightarrow> handled re w actor d0 db r"
  unfolding handled_def using served_trans by blast

lemma handled_stop: "srv re w actor db d \<Longrightarrow> handled re w actor d0 db (d, [], a)"
  by (simp add: handled_def)

lemma handled_here [simp]: "handled re w actor d0 db (db, [], a)"
  by (simp add: handled_def served_start)

lemma handled_call: "srv re w actor db d \<Longrightarrow> call_ok re actor d0 o' \<Longrightarrow> handled re w actor d0 db (d, [o'], a)"
  by (simp add: handled_def)

lemma srv_others: "srv re w actor db (relay_run re (rw_env w 0) db)" "srv re w actor db (relay_run re (rw_env w 1) db)"
  by (auto intro: served_others served_start)

lemma srv_own: "others_same (av_token_id actor) d (relay_exec re x d) \<Longrightarrow> srv re w actor db d \<Longrightarrow> srv re w actor db (relay_exec re x d)"
  by (rule served_own)

lemma post_ok: "call_ok re actor d0 (feishu_post P (av_actor_id actor) ty c (feishu_uuid re (av_token_id actor @ CHR '':'' # key)))"
  by (auto simp: call_ok_def feishu_post_def Let_def)

lemma post_card_ok:
  "feishu_post_card P (av_actor_id actor) c acts cid nonce (feishu_uuid re (av_token_id actor @ CHR '':'' # key)) = Some o' \<Longrightarrow>
     call_ok re actor d0 o'"
  by (auto simp: feishu_post_card_def post_ok)

text \<open>Whose a card is, and the message that shows it.\<close>

definition card_owner :: "relay_card \<Rightarrow> string \<times> string option" where
  "card_owner c = (k_token_id c, k_message_id c)"

lemma deliver_message_handled:
  assumes "message_inv db" "message_row db (m_resource_id row) = Some row" "m_token_id row = av_token_id actor"
  shows "handled re w actor d0 db (deliver_message L re w actor r row created db)"
proof -
  let ?d = "relay_run re (rw_env w 1) db"
  have "others_same (av_token_id actor) ?d (relay_exec re (FinishMessage now n (m_resource_id row) mid res) ?d)" for now n mid res
    using message_owner_stays [OF assms(1,2), of _ re "rw_env w 1"] assms(3) by (intro own_message_ops(4)) auto
  from srv_own [OF this srv_others(2)] show ?thesis
    by (auto simp: deliver_message_def Let_def srv_others intro!: handled_call post_ok split: feishu_reply.splits)
qed

lemma submit_message_handled:
  assumes "message_inv db" "linked db" "fresh_id db (rw_id w)"
  shows "handled re w actor d0 db (submit_message L re w actor p r db)"
proof -
  let ?x = "ReserveMessage (rw_now w 2) (rw_id w) (av_token_id actor) (sr_key r) (request_hash L re p)
    (if sr_window r \<noteq> 0 then Some (rw_now w 1 + sr_window r * 1000) else None) (sr_type r)"
  obtain db' res where e: "reserve_message (rw_now w 2) (rw_id w) (av_token_id actor) (sr_key r) (request_hash L re p)
    (if sr_window r \<noteq> 0 then Some (rw_now w 1 + sr_window r * 1000) else None) (sr_type r) db = (db', res)" by force
  have db': "db' = relay_exec re ?x db" using e by (metis fst_conv relay_exec.simps(8))
  have srv: "srv re w actor db db'" unfolding db' by (rule srv_own [OF own_message_ops(1) served_start])
  show ?thesis
  proof (cases res)
    case (Inl x)
    with e srv show ?thesis by (cases x) (simp_all add: submit_message_def handled_stop)
  next
    case (Inr rc)
    obtain row created where rc: "rc = (row, created)" by force
    have row: "message_row db' (m_resource_id row) = Some row" "m_token_id row = av_token_id actor"
      using reserve_message_owner [OF assms(2,3) e [unfolded Inr rc]] by auto
    have "message_inv db'" unfolding db' by (rule exec_message_inv [OF assms(1)])
    then have "handled re w actor d0 db (deliver_message L re w actor r row created db')"
      using handled_after [OF srv] deliver_message_handled row by blast
    with e Inr rc srv show ?thesis by (auto simp: submit_message_def handled_stop split: sum.split option.split)
  qed
qed

lemma patch_message_handled:
  assumes "owned_sent_message db (av_token_id actor) mid = Some row"
  shows "handled re w actor db db (patch_message L re w actor mid row p db)"
proof -
  have mem: "\<exists>m \<in> set (db_messages db). m_token_id m = av_token_id actor \<and> m_message_id m = Some mid \<and> m_status m = MSent"
    using fetchone_Some_mem [OF assms [unfolded owned_sent_message_def]] by auto
  then have ok: "call_ok re actor db (feishu_patch P mid st act c)" for P st act c
    by (auto simp: call_ok_def feishu_patch_def)
  have "srv re w actor db (fst (cache_card_content re now n (av_token_id actor) mid pl (relay_run re (rw_env w 1) db)))" for now n pl
    using srv_own [OF own_card_ops(3) srv_others(2)] by simp
  with ok show ?thesis
    by (auto simp: patch_message_def Let_def srv_others intro!: handled_call split: json.splits feishu_reply.splits)
qed

lemma deliver_card_handled:
  assumes "relay_inv db" "card_row db (k_card_id row) = Some row" "k_token_id row = av_token_id actor"
  shows "handled re w actor d0 db (deliver_card L re w actor r row nonce created db)"
proof (cases "feishu_post_card (sl_py L) (av_actor_id actor) (cq_content r) (cq_actions r) (k_card_id row) nonce
    (feishu_uuid re (av_token_id actor @ CHR '':'' # cq_key r))")
  case None
  then show ?thesis by (simp add: deliver_card_def handled_stop srv_others)
next
  case (Some o')
  let ?d = "relay_run re (rw_env w 1) db"
  have own: "k_token_id c = av_token_id actor" if "c \<in> set (db_cards ?d)" "k_card_id c = k_card_id row" for c
    using card_owner_stays [OF assms(1,2) that] assms(3) by simp
  have fin: "srv re w actor db (finish_card re now n (k_card_id row) mid conv ?d)"
    and fail: "srv re w actor db (fail_card now (k_card_id row) ?d)" for now n mid conv
    using srv_own [OF conjunct1 [OF own_card_ops(5) [OF own]] srv_others(2)] srv_own [OF conjunct2 [OF own_card_ops(5) [OF own]] srv_others(2)]
    by simp_all
  have state: "srv re w actor db (fst (card_state now (av_token_id actor) cid (try_register w now' (av_token_id actor) key mid ex d)))"
    if "srv re w actor db d" for now now' cid key mid ex d
    using srv_own [OF own_card_ops(2) srv_own [OF own_message_ops(3) that]] by (simp add: try_register_def)
  have ok: "call_ok re actor d0 o'" by (rule post_card_ok [OF Some])
  show ?thesis
    using Some state [OF fin] fail ok
    by (auto simp: deliver_card_def Let_def srv_others split_beta intro!: handled_call split: feishu_reply.split)
qed

lemma submit_card_handled:
  assumes "relay_inv db" "linked db"
  shows "handled re w actor d0 db (submit_card L re w actor p r db)"
proof -
  let ?h = "request_hash L re (normalized_card p (cq_expires_in r))"
  let ?ex = "rw_now w 1 + cq_expires_in r * 1000"
  let ?x = "ReserveCard (rw_now w 2) (rw_id w) (rw_nonce w) (rw_seal w 0) (av_token_id actor) (cq_key r) ?h (map fst (cq_actions r)) ?ex"
  obtain db' res where e: "reserve_card re (rw_now w 2) (rw_id w) (rw_nonce w) (rw_seal w 0) (av_token_id actor) (cq_key r) ?h
    (map fst (cq_actions r)) ?ex db = (db', res)" by force
  then have db': "db' = relay_exec re ?x db" by simp
  have srv: "srv re w actor db db'" unfolding db' by (rule srv_own [OF own_card_ops(1) served_start])
  show ?thesis
  proof (cases res)
    case (Inl x)
    with e srv show ?thesis by (cases x) (simp_all add: submit_card_def handled_stop)
  next
    case (Inr rc)
    obtain row nonce created where rc: "rc = (row, nonce, created)" by (metis prod_cases3)
    have row: "card_row db' (k_card_id row) = Some row" "k_token_id row = av_token_id actor"
      using reserve_card_owner [OF assms(2) e [unfolded Inr rc]] by auto
    have "relay_inv db'" unfolding db' by (rule exec_inv [OF assms(1)])
    then have deliver: "handled re w actor d0 db (deliver_card L re w actor r row nonce created db')"
      using handled_after [OF srv] deliver_card_handled row by blast
    have "srv re w actor db (try_register w (rw_now w 3) (av_token_id actor) (cq_key r) (str_or_empty (k_message_id row)) (k_expires_at row) db')"
      using srv_own [OF own_message_ops(3) srv] by (simp add: try_register_def)
    with e Inr rc srv deliver show ?thesis by (auto simp: submit_card_def handled_stop)
  qed
qed

lemma cards_keep_message_ids:
  "card_owner ` set (db_cards (fst (card_state now tid cid db))) = card_owner ` set (db_cards db)"
  "card_owner ` set (db_cards (close_pending now tid cid reason db)) = card_owner ` set (db_cards db)"
proof -
  have "map card_owner (sql_update P f ts) = map card_owner ts" if "\<And>c. card_owner (f c) = card_owner c" for P f ts
    using that by (simp add: map_sql_update)
  then have "card_owner ` set (sql_update P f ts) = card_owner ` set ts" if "\<And>c. card_owner (f c) = card_owner c" for P f ts
    using that by (metis list.set_map)
  then show "card_owner ` set (db_cards (fst (card_state now tid cid db))) = card_owner ` set (db_cards db)"
    "card_owner ` set (db_cards (close_pending now tid cid reason db)) = card_owner ` set (db_cards db)"
    by (simp_all add: card_state_def close_pending_def card_update_def expire_card_def card_owner_def Let_def)
qed

lemma close_state_handled:
  assumes "close_state P w (av_token_id actor) cid p db = (db', r)"
  shows "srv re w actor db db' \<and> (\<forall>st. r = Inr st \<longrightarrow> cv_message_id st \<noteq> [] \<longrightarrow>
    (av_token_id actor, Some (cv_message_id st)) \<in> card_owner ` set (db_cards db))"
proof -
  have shown: "(av_token_id actor, Some (cv_message_id st)) \<in> card_owner ` set (db_cards d)"
    if "card_state now (av_token_id actor) cid d = (d', Some st)" "cv_message_id st \<noteq> []" for now d d' st
  proof -
    have "map_option public_card (fetchone (filter (\<lambda>c. k_card_id c = cid \<and> k_token_id c = av_token_id actor) (db_cards d'))) = Some st"
      using that(1) by (auto simp: card_state_def Let_def)
    then obtain c where c: "fetchone (filter (\<lambda>c. k_card_id c = cid \<and> k_token_id c = av_token_id actor) (db_cards d')) = Some c" "st = public_card c"
      by (cases "fetchone (filter (\<lambda>c. k_card_id c = cid \<and> k_token_id c = av_token_id actor) (db_cards d'))") auto
    have "k_message_id c = Some (cv_message_id st)"
      using that(2) c(2) by (cases "k_message_id c") (auto simp: public_card_def str_or_empty_def)
    then have "(av_token_id actor, Some (cv_message_id st)) \<in> card_owner ` set (db_cards d')"
      using fetchone_Some_mem [OF c(1)] by (force simp: card_owner_def)
    then show ?thesis using cards_keep_message_ids(1) [of now "av_token_id actor" cid d] that(1) by simp
  qed
  note shown' = shown [of _ "close_pending _ _ _ _ _", unfolded cards_keep_message_ids(2)]
  have state: "srv re w actor db (fst (card_state now (av_token_id actor) cid d))" if "srv re w actor db d" for now d
    using srv_own [OF own_card_ops(2) that] by simp
  have closed: "close_card (\<lambda>d. d) clk (av_token_id actor) cid reason db =
      (let st = card_state (clk 1) (av_token_id actor) cid (close_pending (clk 0) (av_token_id actor) cid reason db)
       in (fst st, snd st, snd (snd (close_card (\<lambda>d. d) clk (av_token_id actor) cid reason db))))" for clk reason
    by (simp add: close_card_def close_pending_def card_update_def Let_def)
  have pend: "srv re w actor db (close_pending now (av_token_id actor) cid reason db)" for now reason
    using srv_own [OF own_card_ops(4) served_start] by simp
  show ?thesis
  proof (cases "wants_close p")
    case False
    obtain d' s where s: "card_state (rw_now w 1) (av_token_id actor) cid db = (d', s)" by force
    have "srv re w actor db d'" using state [OF served_start] s by (metis fst_conv)
    with assms False s show ?thesis by (cases s) (auto simp: close_state_def dest: shown)
  next
    case True
    let ?reason = "str_get_or P p ''reason'' []"
    obtain d' s where s: "card_state (rw_now w (1 + 1)) (av_token_id actor) cid (close_pending (rw_now w (1 + 0)) (av_token_id actor) cid ?reason db) = (d', s)" by force
    have d': "srv re w actor db d'" using state [OF pend] s by (metis fst_conv)
    obtain ch where cl: "close_card (\<lambda>d. d) (\<lambda>i. rw_now w (1 + i)) (av_token_id actor) cid ?reason db = (d', s, ch)"
      using closed [of "\<lambda>i. rw_now w (1 + i)" ?reason] s by (metis (no_types, lifting) fst_conv snd_conv)
    show ?thesis
      using assms True d' s cl
      by (cases s) (auto simp: close_state_def Let_def served_start split: if_splits dest: shown')
  qed
qed

lemma patch_card_handled:
  assumes "cv_message_id st \<noteq> [] \<Longrightarrow>
    (av_token_id actor, Some (cv_message_id st)) \<in> card_owner ` set (db_cards d0)"
  shows "handled re w actor d0 db (patch_card L re w (av_token_id actor) content st db)"
proof (cases "cv_message_id st = []")
  case False
  then have ok: "call_ok re actor d0 (feishu_patch P (cv_message_id st) s act c)" for P s act c
    using assms by (auto simp: call_ok_def feishu_patch_def card_owner_def)
  have "srv re w actor db (fst (cache_card_content re now n (av_token_id actor) mid pl (relay_run re (rw_env w 1) db)))" for now n mid pl
    using srv_own [OF own_card_ops(3) srv_others(2)] by simp
  with ok False show ?thesis
    by (auto simp: patch_card_def Let_def srv_others intro!: handled_call split: feishu_reply.split option.split)
qed (simp add: patch_card_def)

lemma authenticate_sound:
  assumes "authenticate_request re now header db = (db1, Inr (Some actor))"
  shows "db1 = relay_exec re (Authenticate now (str_or_empty (admin_bearer header))) db
    \<and> av_token_id actor = token_id_of (str_or_empty (admin_bearer header))
    \<and> (\<exists>t \<in> set (db_tokens db). tk_token_id t = av_token_id actor \<and> tk_status t = TActive
        \<and> tk_token_hash t = re_token_hash re (str_or_empty (admin_bearer header)) (av_token_id actor)
        \<and> (\<exists>p. re_open re (tk_actor_payload t) = Inr p \<and> map_of p ''actor_id'' = Some (av_actor_id actor)))"
proof -
  let ?tok = "str_or_empty (admin_bearer header)"
  have a: "authenticate re now ?tok db = (db1, Inr (Some actor))"
    using assms by (auto simp: authenticate_request_def Let_def split: if_splits)
  then obtain t where t: "fetchone (filter (\<lambda>t. tk_token_id t = token_id_of ?tok \<and> tk_status t = TActive) (db_tokens db)) = Some t"
    by (auto simp: authenticate_def token_id_of_def Let_def split: if_splits option.splits)
  have "tk_token_hash t = re_token_hash re ?tok (token_id_of ?tok) \<and> av_token_id actor = token_id_of ?tok
      \<and> (\<exists>p. re_open re (tk_actor_payload t) = Inr p \<and> map_of p ''actor_id'' = Some (av_actor_id actor))"
    using a t by (auto simp: authenticate_def token_id_of_def payload_get_def Let_def split: if_splits sum.splits option.splits)
  then show ?thesis using fetchone_Some_mem [OF t] a by auto
qed

text \<open>What a request may rely on after it has read its body: the rows of a reservation belong together, its new identifier is unused.
  \<open>exec_linked\<close> and \<open>exec_results_sealed\<close> keep the first two.\<close>

definition request_ready :: "relay_env \<Rightarrow> relay_world \<Rightarrow> relay_db \<Rightarrow> bool" where
  "request_ready re w db1 \<longleftrightarrow> relay_inv db1 \<and> message_inv db1
     \<and> linked (relay_run re (rw_env w 0) db1) \<and> results_sealed re (relay_run re (rw_env w 0) db1)
     \<and> fresh_id (relay_run re (rw_env w 0) db1) (rw_id w)"

lemma body_after_env:
  assumes "handled re w actor d0 (relay_run re (rw_env w 0) db1) r"
  shows "handled re w actor d0 db1 r"
  by (rule handled_after [OF srv_others(1) assms])

lemma send_message_handled:
  assumes "request_ready re w db1" "authenticate_request re (rw_now w 0) (aq_header q) db = (db1, Inr (Some actor))"
  shows "handled re w actor d0 db1 (send_message L re w q db)"
proof -
  have "message_inv (relay_run re (rw_env w 0) db1)" using assms(1) by (simp add: request_ready_def run_message_inv)
  then have "handled re w actor d0 (relay_run re (rw_env w 0) db1) (submit_message L re w actor p r (relay_run re (rw_env w 0) db1))" for p r
    using assms(1) by (intro submit_message_handled) (simp_all add: request_ready_def)
  then show ?thesis
    unfolding send_message_def authenticated_def assms(2) prod.case sum.case option.case Let_def
    by - (rule body_after_env, auto split: option.split json.split sum.split)
qed

lemma update_message_handled:
  assumes "authenticate_request re (rw_now w 0) (aq_header q) db = (db1, Inr (Some actor))"
  shows "handled re w actor (relay_run re (rw_env w 0) db1) db1 (update_message L re w q db)"
proof -
  let ?d = "relay_run re (rw_env w 0) db1"
  have "handled re w actor ?d ?d (case close_reply_window now (av_token_id actor) mid ?d of
      (db3, False) \<Rightarrow> (db3, [], Inr x) | (db3, True) \<Rightarrow> (db3, [], Inr y))" for now mid x y
  proof (cases "close_reply_window now (av_token_id actor) mid ?d")
    case (Pair d' b)
    moreover have "srv re w actor ?d (fst (close_reply_window now (av_token_id actor) mid ?d))"
      using srv_own [OF own_message_ops(2) served_start] by simp
    ultimately show ?thesis by (cases b) (simp_all add: handled_stop)
  qed
  then show ?thesis
    unfolding update_message_def authenticated_def assms prod.case sum.case option.case Let_def
    by - (rule body_after_env, auto simp: patch_message_handled split: option.split json.split)
qed

lemma create_card_handled:
  assumes "request_ready re w db1" "authenticate_request re (rw_now w 0) (aq_header q) db = (db1, Inr (Some actor))"
  shows "handled re w actor d0 db1 (create_card L re w q db)"
proof -
  have "relay_inv (relay_run re (rw_env w 0) db1)" using assms(1) by (simp add: request_ready_def run_inv)
  then have "handled re w actor d0 (relay_run re (rw_env w 0) db1) (submit_card L re w actor p r (relay_run re (rw_env w 0) db1))" for p r
    using assms(1) by (intro submit_card_handled) (simp_all add: request_ready_def)
  then show ?thesis
    unfolding create_card_def authenticated_def assms(2) prod.case sum.case option.case Let_def
    by - (rule body_after_env, auto split: option.split json.split sum.split)
qed

lemma close_request_handled:
  assumes "authenticate_request re (rw_now w 0) (aq_header q) db = (db1, Inr (Some actor))"
  shows "handled re w actor (relay_run re (rw_env w 0) db1) db1 (close_request L re w q db)"
proof -
  let ?d = "relay_run re (rw_env w 0) db1"
  have "handled re w actor ?d ?d (case close_state (sl_py L) w (av_token_id actor) (aq_path q) p ?d of
      (db3, Inl a) \<Rightarrow> (db3, [], Inr a) | (db3, Inr state) \<Rightarrow> patch_card L re w (av_token_id actor) content state db3)" for p content
  proof -
    obtain d' r where r: "close_state (sl_py L) w (av_token_id actor) (aq_path q) p ?d = (d', r)" by force
    note st = close_state_handled [OF r, of re]
    show ?thesis
    proof (cases r)
      case (Inl a)
      with r st show ?thesis by (simp add: handled_stop)
    next
      case (Inr state)
      have "handled re w actor ?d d' (patch_card L re w (av_token_id actor) content state d')"
        using st Inr by (intro patch_card_handled) blast
      then have "handled re w actor ?d ?d (patch_card L re w (av_token_id actor) content state d')"
        by (rule handled_after [OF conjunct1 [OF st]])
      with r Inr show ?thesis by simp
    qed
  qed
  then show ?thesis
    unfolding close_request_def authenticated_def assms prod.case sum.case option.case Let_def
    by - (rule body_after_env, auto split: option.split json.split sum.split)
qed

lemma reading_handled:
  assumes "authenticate_request re (rw_now w 0) (aq_header q) db = (db1, Inr (Some actor))"
  shows "handled re w actor d0 db1 (get_replies re w q db)" "handled re w actor d0 db1 (get_reactions re w q db)"
    "handled re w actor d0 db1 (whoami re w q db)" "handled re w actor d0 db1 (get_card re w q db)" "handled re w actor d0 db1 (revoke_request re w q db)"
proof -
  show "handled re w actor d0 db1 (get_replies re w q db)" "handled re w actor d0 db1 (get_reactions re w q db)" "handled re w actor d0 db1 (whoami re w q db)"
    using assms by (auto simp: get_replies_def get_reactions_def whoami_def authenticated_def split: option.split)
  have "srv re w actor db1 (fst (card_state (rw_now w 1) (av_token_id actor) (aq_path q) db1))"
    using srv_own [OF own_card_ops(2) served_start] by simp
  then show "handled re w actor d0 db1 (get_card re w q db)"
    using assms by (cases "card_state (rw_now w 1) (av_token_id actor) (aq_path q) db1")
      (auto simp: get_card_def authenticated_def handled_stop split: option.split)
  have "srv re w actor db1 (fst (revoke_token (rw_now w 1) (av_token_id actor) db1))"
    using srv_own [OF own_token_ops(2) served_start] by simp
  then show "handled re w actor d0 db1 (revoke_request re w q db)"
    using assms by (cases "revoke_token (rw_now w 1) (av_token_id actor) db1")
      (auto simp: revoke_request_def authenticated_def handled_stop split: bool.split)
qed

lemma relay_serve_handled:
  assumes "request_ready re w db1" "authenticate_request re (rw_now w 0) (aq_header q) db = (db1, Inr (Some actor))"
  shows "handled re w actor (relay_run re (rw_env w 0) db1) db1 (relay_serve L re w e q db)"
  using send_message_handled [OF assms] create_card_handled [OF assms] update_message_handled [OF assms(2)]
    close_request_handled [OF assms(2)] reading_handled [OF assms(2)]
  by (cases e) simp_all

text \<open>Nothing is sent for a body that is not an object without identity fields.\<close>

lemma relay_serve_silent:
  assumes "fst (snd (relay_serve L re w e q db)) \<noteq> []"
  shows "\<exists>p. aq_body q = Some (JObj p) \<and> \<not> contains_forbidden_identity (JObj p)"
proof -
  have send: "\<not> contains_forbidden_identity (JObj p)" if "check_send P p = Inr r" for P p r
    using that by (auto simp: check_send_def Let_def split: if_splits)
  have crd: "\<not> contains_forbidden_identity (JObj p)" if "check_card P p = Inr r" for P p r
    using that by (auto simp: check_card_def Let_def split: if_splits)
  show ?thesis
    using assms
    by (cases e)
      (auto simp: send_message_def update_message_def create_card_def close_request_def get_replies_def get_reactions_def whoami_def get_card_def
        revoke_request_def authenticated_def Let_def simp del: contains_forbidden_identity.simps
        split: option.splits json.splits sum.splits prod.splits if_splits bool.splits dest: send crd)
qed

end
